(* ===== verification/Soroban.thy ===== *)
theory Soroban
  imports Main
begin

text \<open>
  The execution model shared by every contract theory.

  \<^item> \<open>outcome\<close>: what one invocation of a contract function does.  \<open>Ok v\<close> is a Rust
    \<open>Ok(v)\<close>; \<open>Err e\<close> is a returned contract error; \<open>Trap\<close> is a panic (an arithmetic overflow
    under \<open>overflow-checks = true\<close>, a failed \<open>require_auth\<close>, a failing inner
    \<open>invoke_contract\<close>).  The host discards the storage writes of an invocation that does
    not end with \<open>Ok\<close>, so a handler of the models is a function
    \<open>env \<Rightarrow> arguments \<Rightarrow> state \<Rightarrow> (error, result \<times> state) outcome\<close> and only \<open>Ok\<close> carries a
    new state.  A handler that writes before it returns an error is modelled with its writes
    and closed by \<open>host_commit\<close>, which drops them.
  \<^item> \<open>and_then\<close>, \<open>ensure\<close>, \<open>ok_or\<close>, \<open>require_auth\<close>: the Rust idioms \<open>?\<close>,
    \<open>if !c { return Err(e) }\<close>, \<open>.ok_or(e)\<close> and \<open>addr.require_auth()\<close>.
  \<^item> \<open>i128\<close> values are \<open>int\<close> and \<open>u64\<close>/\<open>u32\<close> values are \<open>nat\<close>; every operation of the
    source that can leave the range is one of the checked or saturating operations below.
  \<^item> A contract is run as a list of transactions (\<open>run_txs\<close>), in ledger-time order
    (\<open>chronological\<close>); a plain value changed in place is run as a \<open>fold\<close> of steps
    (\<open>step_invariant\<close>).  The locales \<open>timed_contract\<close>, \<open>contract_invariant\<close> and
    \<open>contract_order\<close> state what each entry point has to keep; their lemmas lift that to runs.
\<close>

section \<open>Outcomes\<close>

datatype ('e, 'a) outcome = Ok 'a | Err 'e | Trap

named_theorems outcome_simps \<open>equations that decide how an invocation ends\<close>

definition and_then :: "('e, 'a) outcome \<Rightarrow> ('a \<Rightarrow> ('e, 'b) outcome) \<Rightarrow> ('e, 'b) outcome" where
  "and_then m f = (case m of Ok a \<Rightarrow> f a | Err e \<Rightarrow> Err e | Trap \<Rightarrow> Trap)"

definition ensure :: "bool \<Rightarrow> 'e \<Rightarrow> ('e, unit) outcome" where
  "ensure c e = (if c then Ok () else Err e)"

definition ok_or :: "'a option \<Rightarrow> 'e \<Rightarrow> ('e, 'a) outcome" where
  "ok_or x e = (case x of None \<Rightarrow> Err e | Some a \<Rightarrow> Ok a)"

definition unwrap_or :: "'a option \<Rightarrow> 'a \<Rightarrow> 'a" where
  "unwrap_or x d = (case x of None \<Rightarrow> d | Some a \<Rightarrow> a)"

lemma and_then_simps [simp, outcome_simps]:
  "and_then (Ok a) f = f a"
  "and_then (Err e) f = Err e"
  "and_then Trap f = Trap"
  by (simp_all add: and_then_def)

lemma and_then_Ok_iff [simp, outcome_simps]:
  "and_then m f = Ok b \<longleftrightarrow> (\<exists>a. m = Ok a \<and> f a = Ok b)"
  by (cases m) auto

lemma and_then_Err_iff [simp, outcome_simps]:
  "and_then m f = Err e \<longleftrightarrow> m = Err e \<or> (\<exists>a. m = Ok a \<and> f a = Err e)"
  by (cases m) auto

lemma and_then_Trap_iff [simp, outcome_simps]:
  "and_then m f = Trap \<longleftrightarrow> m = Trap \<or> (\<exists>a. m = Ok a \<and> f a = Trap)"
  by (cases m) auto

lemma ensure_iff [simp, outcome_simps]:
  "ensure c e = Ok u \<longleftrightarrow> c"
  "ensure c e = Err e' \<longleftrightarrow> \<not> c \<and> e' = e"
  "ensure c e \<noteq> Trap"
  by (auto simp: ensure_def)

lemma ok_or_iff [simp, outcome_simps]:
  "ok_or x e = Ok a \<longleftrightarrow> x = Some a"
  "ok_or x e = Err e' \<longleftrightarrow> x = None \<and> e' = e"
  "ok_or x e \<noteq> Trap"
  by (auto simp: ok_or_def split: option.splits)

lemma unwrap_or_simps [simp]:
  "unwrap_or None d = d"
  "unwrap_or (Some a) d = a"
  by (simp_all add: unwrap_or_def)

text \<open>\<open>.map_err(|_| x)\<close>\<close>

definition map_err :: "'f \<Rightarrow> ('e, 'a) outcome \<Rightarrow> ('f, 'a) outcome" where
  "map_err x m = (case m of Ok a \<Rightarrow> Ok a | Err _ \<Rightarrow> Err x | Trap \<Rightarrow> Trap)"

lemma map_err_iff [simp, outcome_simps]:
  "map_err x m = Ok a \<longleftrightarrow> m = Ok a"
  "map_err x m = Err y \<longleftrightarrow> (\<exists>z. m = Err z) \<and> y = x"
  "map_err x m = Trap \<longleftrightarrow> m = Trap"
  by (cases m; auto simp: map_err_def)+

section \<open>Checked machine arithmetic\<close>

definition i128_max :: int where "i128_max = 2 ^ 127 - 1"
definition i128_min :: int where "i128_min = - (2 ^ 127)"
definition u128_max :: int where "u128_max = 2 ^ 128 - 1"
definition u64_max :: nat where "u64_max = 2 ^ 64 - 1"
definition u32_max :: nat where "u32_max = 2 ^ 32 - 1"

definition in_i128 :: "int \<Rightarrow> bool" where
  "in_i128 x \<longleftrightarrow> i128_min \<le> x \<and> x \<le> i128_max"

definition i128_checked :: "int \<Rightarrow> ('e, int) outcome" where
  "i128_checked x = (if in_i128 x then Ok x else Trap)"

text \<open>Rust's \<open>+\<close>, \<open>-\<close> and \<open>*\<close> on \<open>i128\<close>: they panic outside the range.\<close>

definition i128_add :: "int \<Rightarrow> int \<Rightarrow> ('e, int) outcome" where
  "i128_add a b = i128_checked (a + b)"

definition i128_sub :: "int \<Rightarrow> int \<Rightarrow> ('e, int) outcome" where
  "i128_sub a b = i128_checked (a - b)"

definition i128_mul :: "int \<Rightarrow> int \<Rightarrow> ('e, int) outcome" where
  "i128_mul a b = i128_checked (a * b)"

text \<open>Rust's \<open>/\<close>: it truncates towards zero and panics on a zero divisor or overflow.\<close>

definition trunc_div :: "int \<Rightarrow> int \<Rightarrow> int" where
  "trunc_div a b = sgn a * sgn b * (\<bar>a\<bar> div \<bar>b\<bar>)"

definition i128_div :: "int \<Rightarrow> int \<Rightarrow> ('e, int) outcome" where
  "i128_div a b = (if b = 0 then Trap else i128_checked (trunc_div a b))"

text \<open>\<open>checked_*\<close>: \<open>None\<close> outside the range.\<close>

definition i128_opt :: "int \<Rightarrow> int option" where
  "i128_opt x = (if in_i128 x then Some x else None)"

text \<open>\<open>saturating_*\<close> on \<open>i128\<close>.\<close>

definition i128_clamp :: "int \<Rightarrow> int" where
  "i128_clamp x = max i128_min (min i128_max x)"

definition u64_add :: "nat \<Rightarrow> nat \<Rightarrow> ('e, nat) outcome" where
  "u64_add a b = (if a + b \<le> u64_max then Ok (a + b) else Trap)"

definition u64_sub :: "nat \<Rightarrow> nat \<Rightarrow> ('e, nat) outcome" where
  "u64_sub a b = (if b \<le> a then Ok (a - b) else Trap)"

definition u64_sat_add :: "nat \<Rightarrow> nat \<Rightarrow> nat" where
  "u64_sat_add a b = min u64_max (a + b)"

definition u64_sat_mul :: "nat \<Rightarrow> nat \<Rightarrow> nat" where
  "u64_sat_mul a b = min u64_max (a * b)"

definition u32_add :: "nat \<Rightarrow> nat \<Rightarrow> ('e, nat) outcome" where
  "u32_add a b = (if a + b \<le> u32_max then Ok (a + b) else Trap)"

definition u32_mul :: "nat \<Rightarrow> nat \<Rightarrow> ('e, nat) outcome" where
  "u32_mul a b = (if a * b \<le> u32_max then Ok (a * b) else Trap)"

definition u32_sat_add :: "nat \<Rightarrow> nat \<Rightarrow> nat" where
  "u32_sat_add a b = min u32_max (a + b)"

lemma i128_checked_iff [simp, outcome_simps]:
  "i128_checked x = Ok y \<longleftrightarrow> in_i128 x \<and> y = x"
  "i128_checked x \<noteq> Err e"
  "i128_checked x = Trap \<longleftrightarrow> \<not> in_i128 x"
  by (auto simp: i128_checked_def)

lemma i128_arith_iff [simp, outcome_simps]:
  "i128_add a b = Ok y \<longleftrightarrow> in_i128 (a + b) \<and> y = a + b"
  "i128_sub a b = Ok y \<longleftrightarrow> in_i128 (a - b) \<and> y = a - b"
  "i128_mul a b = Ok y \<longleftrightarrow> in_i128 (a * b) \<and> y = a * b"
  "i128_div a b = Ok y \<longleftrightarrow> b \<noteq> 0 \<and> in_i128 (trunc_div a b) \<and> y = trunc_div a b"
  "i128_add a b \<noteq> Err e" "i128_sub a b \<noteq> Err e" "i128_mul a b \<noteq> Err e" "i128_div a b \<noteq> Err e"
  by (auto simp: i128_add_def i128_sub_def i128_mul_def i128_div_def)

lemma i128_opt_iff [simp]:
  "i128_opt x = Some y \<longleftrightarrow> in_i128 x \<and> y = x"
  "i128_opt x = None \<longleftrightarrow> \<not> in_i128 x"
  by (auto simp: i128_opt_def)

lemma u64_arith_iff [simp, outcome_simps]:
  "u64_add a b = Ok n \<longleftrightarrow> a + b \<le> u64_max \<and> n = a + b"
  "u64_sub a b = Ok n \<longleftrightarrow> b \<le> a \<and> n = a - b"
  "u32_add a b = Ok n \<longleftrightarrow> a + b \<le> u32_max \<and> n = a + b"
  "u64_add a b \<noteq> Err e" "u64_sub a b \<noteq> Err e" "u32_add a b \<noteq> Err e"
  by (auto simp: u64_add_def u64_sub_def u32_add_def)

lemma trunc_div_nonneg [simp]:
  "0 \<le> a \<Longrightarrow> 0 \<le> b \<Longrightarrow> trunc_div a b = a div b"
  by (cases "a = 0"; cases "b = 0") (auto simp: trunc_div_def sgn_if)

lemma in_i128_0 [simp]: "in_i128 0"
  by (simp add: in_i128_def i128_min_def i128_max_def)

lemma in_i128_between: "in_i128 lo \<Longrightarrow> in_i128 hi \<Longrightarrow> lo \<le> x \<Longrightarrow> x \<le> hi \<Longrightarrow> in_i128 x"
  by (auto simp: in_i128_def)

lemma in_i128_clamp [simp]: "in_i128 (i128_clamp x)"
  by (auto simp: in_i128_def i128_clamp_def i128_min_def i128_max_def)

lemma i128_clamp_id [simp]: "in_i128 x \<Longrightarrow> i128_clamp x = x"
  by (auto simp: in_i128_def i128_clamp_def)

lemma int_div_less_iff: "0 < c \<Longrightarrow> x div c < k \<longleftrightarrow> x < k * c" for x c k :: int
proof -
  assume c: "0 < c"
  have x: "x = x div c * c + x mod c" "0 \<le> x mod c" "x mod c < c" using c by simp_all
  show ?thesis
  proof
    assume "x div c < k"
    then have "(x div c + 1) * c \<le> k * c" using c by (intro mult_right_mono) auto
    then have "x div c * c + c \<le> k * c" by (simp add: distrib_right)
    then show "x < k * c" using x by linarith
  next
    assume "x < k * c"
    then have "x div c * c < k * c" using x by linarith
    then show "x div c < k" using c by simp
  qed
qed

lemma int_div_le_self: "0 \<le> x \<Longrightarrow> 0 < c \<Longrightarrow> x div c \<le> x" for x c :: int
proof -
  assume "0 \<le> x" "0 < c"
  then have "(x + 1) * 1 \<le> (x + 1) * c" by (intro mult_left_mono) simp_all
  then have "x < (x + 1) * c" by simp
  then show ?thesis using int_div_less_iff [OF \<open>0 < c\<close>, of x "x + 1"] by linarith
qed

lemma int_mult_div_le: "0 < c \<Longrightarrow> c * (x div c) \<le> x" for x c :: int
proof -
  assume "0 < c"
  then have "0 \<le> x mod c" by simp
  then show ?thesis using mult_div_mod_eq [of c x] by linarith
qed

text \<open>A sum over a map when only the entry of \<open>a\<close> changes.\<close>

lemma sum_one_changed:
  fixes f g :: "'a \<Rightarrow> int"
  assumes "finite A" and "\<And>b. b \<noteq> a \<Longrightarrow> g b = f b" and "a \<notin> A \<Longrightarrow> f a = 0"
  shows "sum g (insert a A) = sum f A - f a + g a"
proof -
  have "sum g (insert a A - {a}) = sum f (insert a A - {a})" using assms(2) by (intro sum.cong) auto
  moreover have "sum f (insert a A) = sum f A"
    using assms(1,3) by (cases "a \<in> A") (simp_all add: insert_absorb)
  ultimately show ?thesis using assms(1)
    by (simp add: sum.remove [of "insert a A" a g] sum.remove [of "insert a A" a f])
qed

text \<open>The sum of a measure over the values of a finite map.\<close>

definition sum_over :: "('v \<Rightarrow> int) \<Rightarrow> ('k \<rightharpoonup> 'v) \<Rightarrow> int" where
  "sum_over f m = (\<Sum>k\<in>dom m. f (the (m k)))"

lemma sum_over_empty [simp]: "sum_over f (\<lambda>_. None) = 0"
  by (simp add: sum_over_def)

lemma sum_over_upd:
  fixes m :: "'k \<rightharpoonup> 'v"
  assumes "finite (dom m)"
  shows "sum_over f (m(k \<mapsto> v)) = sum_over f m - (case m k of None \<Rightarrow> 0 | Some u \<Rightarrow> f u) + f v"
proof -
  let ?g = "\<lambda>m i. case m i of None \<Rightarrow> 0 | Some u \<Rightarrow> f u"
  have g: "sum_over f n = sum (?g n) (dom n)" for n :: "'k \<rightharpoonup> 'v"
    unfolding sum_over_def by (rule sum.cong) auto
  have "sum (?g (m(k \<mapsto> v))) (insert k (dom m)) = sum (?g m) (dom m) - ?g m k + ?g (m(k \<mapsto> v)) k"
    by (rule sum_one_changed [OF assms]) (auto split: option.splits)
  then show ?thesis by (simp add: g)
qed

lemma sum_over_del:
  fixes m :: "'k \<rightharpoonup> 'v"
  assumes "finite (dom m)"
  shows "sum_over f (m(k := None)) = sum_over f m - (case m k of None \<Rightarrow> 0 | Some u \<Rightarrow> f u)"
proof (cases "m k")
  case None
  then have "m(k := None) = m" by auto
  with None show ?thesis by simp
next
  case (Some u)
  have "sum_over f ((m(k := None))(k \<mapsto> u)) = sum_over f (m(k := None)) + f u"
    using sum_over_upd [of "m(k := None)" f k u] assms by simp
  moreover have "(m(k := None))(k \<mapsto> u) = m" using Some by auto
  ultimately show ?thesis using Some by simp
qed

lemma sum_over_nonneg: "\<forall>v\<in>ran m. 0 \<le> f v \<Longrightarrow> 0 \<le> sum_over f m"
  unfolding sum_over_def by (rule sum_nonneg) (auto simp: ran_def)

lemma sum_over_ge:
  assumes "finite (dom m)" and "\<forall>v\<in>ran m. 0 \<le> f v" and "m k = Some v"
  shows "f v \<le> sum_over f m"
proof -
  have "f (the (m k)) \<le> (\<Sum>i\<in>dom m. f (the (m i)))"
    by (rule member_le_sum) (use assms in \<open>auto simp: ran_def\<close>)
  with assms(3) show ?thesis by (simp add: sum_over_def)
qed

lemmas int_width_defs = i128_max_def i128_min_def u128_max_def u64_max_def u32_max_def in_i128_def

section \<open>Ordered maps\<close>

text \<open>\<open>BTreeMap\<close>: an association list with ascending keys.  \<open>get\<close> is \<open>map_of\<close>; writing through
\<open>get_mut\<close> is an insertion at a present key.\<close>

type_synonym ('k, 'v) btree = "('k \<times> 'v) list"

fun btree_insert :: "'k :: linorder \<Rightarrow> 'v \<Rightarrow> ('k, 'v) btree \<Rightarrow> ('k, 'v) btree" where
  "btree_insert k v [] = [(k, v)]"
| "btree_insert k v ((l, u) # t) =
     (if k < l then (k, v) # (l, u) # t else if k = l then (k, v) # t else (l, u) # btree_insert k v t)"

lemma map_of_btree_insert: "map_of (btree_insert k v t) = (map_of t)(k \<mapsto> v)"
  by (induction k v t rule: btree_insert.induct) (auto simp: fun_eq_iff)

lemma btree_insert_last: "\<forall>l\<in>fst ` set t. l < k \<Longrightarrow> btree_insert k v t = t @ [(k, v)]"
  by (induction k v t rule: btree_insert.induct) auto

lemma btree_insert_keys: "fst ` set (btree_insert k v t) = insert k (fst ` set t)"
  by (induction k v t rule: btree_insert.induct) auto

lemma btree_insert_sorted: "sorted_wrt (<) (map fst t) \<Longrightarrow> sorted_wrt (<) (map fst (btree_insert k v t))"
proof (induction k v t rule: btree_insert.induct)
  case (2 k v l u t)
  show ?case
  proof (cases "l < k")
    case True
    have "\<forall>x\<in>fst ` set (btree_insert k v t). l < x" using "2.prems" True by (auto simp: btree_insert_keys)
    moreover have "sorted_wrt (<) (map fst (btree_insert k v t))" using 2 True by auto
    ultimately show ?thesis using True by auto
  next
    case False
    with "2.prems" show ?thesis by (cases "k = l") auto
  qed
qed simp

lemma map_of_sorted: "sorted_wrt (<) (map fst t) \<Longrightarrow> map_of t k = Some v \<longleftrightarrow> (k, v) \<in> set t" for t :: "('k :: linorder, 'v) btree"
  by (rule map_of_eq_Some_iff) (simp add: strict_sorted_iff)

lemma btree_insert_same:
  "sorted_wrt (<) (map fst t) \<Longrightarrow> k \<in> fst ` set t \<Longrightarrow> btree_insert k v t = map (\<lambda>(l, u). (l, if l = k then v else u)) t"
proof (induction k v t rule: btree_insert.induct)
  case (2 k v l u t)
  show ?case
  proof (cases "k = l")
    case True
    then have "map (\<lambda>(l, u). (l, if l = k then v else u)) t = t"
      using "2.prems" by (intro map_idI) auto
    with True show ?thesis by simp
  next
    case False
    with 2 show ?thesis by auto
  qed
qed simp

section \<open>The ledger environment\<close>

text \<open>
  Addresses are opaque names and Soroban symbols are strings.  \<open>val\<close> stands for the
  host values a generic cross-contract call carries.
\<close>

type_synonym address = nat
type_synonym symbol = string

datatype val =
    VVoid | VAddr address | VI128 int | VU64 nat | VU32 nat | VBool bool | VSym symbol
  | VVec "val list" | VMap "(symbol \<times> val) list"

record env =
  timestamp :: nat
  ledger_seq :: nat
  auth :: "address \<Rightarrow> bool"
  this :: address

definition require_auth :: "env \<Rightarrow> address \<Rightarrow> ('e, unit) outcome" where
  "require_auth e a = (if auth e a then Ok () else Trap)"

lemma require_auth_iff [simp, outcome_simps]:
  "require_auth e a = Ok u \<longleftrightarrow> auth e a"
  "require_auth e a \<noteq> Err x"
  "require_auth e a = Trap \<longleftrightarrow> \<not> auth e a"
  by (auto simp: require_auth_def)

text \<open>
  A cross-contract call made with \<open>invoke_contract\<close> or \<open>try_invoke_contract\<close>.  The code
  behind the address is not part of the caller: it is a parameter of the caller's model,
  a function of the environment and of the state \<open>'w\<close> of the other contracts (the host
  refuses re-entry, so a callee never touches the storage of its caller).  The result has the
  shape of the SDK's \<open>Result<Result<T, _>, Result<E, InvokeError>>\<close>: \<open>CallOk\<close> for the outer
  \<open>Ok\<close>, \<open>CallErr\<close> for \<open>Err(Ok(e))\<close> and \<open>CallRawErr\<close> for \<open>Err(Err(e))\<close>.
  \<open>try_invoke\<close> drops the callee's writes when the call fails, as the host does.
\<close>

datatype invoke_error = InvokeAbort | InvokeContract nat

datatype call_result = CallOk val | CallErr invoke_error | CallRawErr invoke_error

type_synonym 'w callee = "env \<Rightarrow> 'w \<Rightarrow> address \<Rightarrow> symbol \<Rightarrow> val list \<Rightarrow> call_result \<times> 'w"

fun call_ok :: "call_result \<Rightarrow> bool" where
  "call_ok (CallOk _) = True"
| "call_ok _ = False"

definition try_invoke :: "'w callee \<Rightarrow> 'w callee" where
  "try_invoke callee e w a f args =
     (case callee e w a f args of (r, w') \<Rightarrow> (r, if call_ok r then w' else w))"

text \<open>\<open>invoke_contract\<close> panics when the call fails.\<close>

definition invoke_contract ::
  "'w callee \<Rightarrow> env \<Rightarrow> 'w \<Rightarrow> address \<Rightarrow> symbol \<Rightarrow> val list \<Rightarrow> ('e, val \<times> 'w) outcome" where
  "invoke_contract callee e w a f args =
     (case callee e w a f args of (CallOk v, w') \<Rightarrow> Ok (v, w') | _ \<Rightarrow> Trap)"

lemma invoke_contract_iff [simp, outcome_simps]:
  "invoke_contract callee e w a f args = Ok (v, w') \<longleftrightarrow> callee e w a f args = (CallOk v, w')"
  "invoke_contract callee e w a f args \<noteq> Err x"
  by (auto simp: invoke_contract_def split: prod.splits call_result.splits)

text \<open>
  \<open>token::Client::transfer\<close> on a token contract: \<open>transfer w tok a b x\<close> is the state of the
  other contracts afterwards, or \<open>None\<close> when the call fails, which panics in the caller.
\<close>

type_synonym 'w transfer_fn = "'w \<Rightarrow> address \<Rightarrow> address \<Rightarrow> address \<Rightarrow> int \<Rightarrow> 'w option"

definition token_transfer ::
  "'w transfer_fn \<Rightarrow> 'w \<Rightarrow> address \<Rightarrow> address \<Rightarrow> address \<Rightarrow> int \<Rightarrow> ('e, 'w) outcome" where
  "token_transfer transfer w tok a b x = (case transfer w tok a b x of Some w' \<Rightarrow> Ok w' | None \<Rightarrow> Trap)"

lemma token_transfer_iff [simp, outcome_simps]:
  "token_transfer tr w tok a b x = Ok w' \<longleftrightarrow> tr w tok a b x = Some w'"
  "token_transfer tr w tok a b x \<noteq> Err er"
  by (auto simp: token_transfer_def split: option.splits)

type_synonym 'w balance_fn = "'w \<Rightarrow> address \<Rightarrow> address \<Rightarrow> int option"

text \<open>\<open>token::Client::balance\<close>: a failing call panics.\<close>

definition token_balance :: "'w balance_fn \<Rightarrow> 'w \<Rightarrow> address \<Rightarrow> address \<Rightarrow> ('e, int) outcome" where
  "token_balance balance_of w tok a = (case balance_of w tok a of Some b \<Rightarrow> Ok b | None \<Rightarrow> Trap)"

lemma token_balance_iff [simp, outcome_simps]:
  "token_balance bal w t a = Ok b \<longleftrightarrow> bal w t a = Some b"
  "token_balance bal w t a \<noteq> Err x"
  by (auto simp: token_balance_def split: option.splits)

lemma try_invoke_failed:
  "try_invoke callee e w a f args = (r, w') \<Longrightarrow> \<not> call_ok r \<Longrightarrow> w' = w"
  by (auto simp: try_invoke_def split: prod.splits)

text \<open>What a client may rely on of a standard token: a transfer between different accounts moves the amount.\<close>

definition sep41_transfers ::
  "'w transfer_fn \<Rightarrow> ('w \<Rightarrow> address \<Rightarrow> address \<Rightarrow> int) \<Rightarrow> bool" where
  "sep41_transfers tr bal \<longleftrightarrow> (\<forall>w tok a b x w'. tr w tok a b x = Some w' \<and> a \<noteq> b \<longrightarrow>
     bal w' tok a = bal w tok a - x \<and> bal w' tok b = bal w tok b + x)"

lemma transfer_in:
  assumes "sep41_transfers tr bal" and "tr w tok a V x = Some w'" and "a \<noteq> V"
  shows "bal w' tok V = bal w tok V + x"
  using assms by (auto simp: sep41_transfers_def)

lemma transfer_out:
  assumes "sep41_transfers tr bal" and "tr w tok V a x = Some w'" and "a \<noteq> V"
  shows "bal w' tok V = bal w tok V - x"
  using assms unfolding sep41_transfers_def by metis

text \<open>
  A token ledger to run the contract against: balances per token and account, with transfers
  that fail when the sender has too little.
\<close>

type_synonym ledger = "address \<Rightarrow> address \<Rightarrow> int"

definition ledger_transfer :: "ledger transfer_fn" where
  "ledger_transfer w tok a b x =
     (if x < 0 \<or> w tok a < x then None
      else let w1 = w(tok := (w tok)(a := w tok a - x)) in Some (w1(tok := (w1 tok)(b := w1 tok b + x))))"

definition ledger_balance :: "ledger \<Rightarrow> address \<Rightarrow> address \<Rightarrow> int" where
  "ledger_balance w tok a = w tok a"

lemma ledger_sep41: "sep41_transfers ledger_transfer ledger_balance"
  by (auto simp: sep41_transfers_def ledger_transfer_def ledger_balance_def Let_def split: if_splits)

section \<open>Transactions\<close>

definition host_commit :: "('e, 'a) outcome \<times> 's \<Rightarrow> ('e, 'a \<times> 's) outcome" where
  "host_commit r = (case fst r of Ok a \<Rightarrow> Ok (a, snd r) | Err e \<Rightarrow> Err e | Trap \<Rightarrow> Trap)"

lemma host_commit_simps [simp, outcome_simps]:
  "host_commit (Ok a, s) = Ok (a, s)"
  "host_commit (Err e, s) = Err e"
  "host_commit (Trap, s) = Trap"
  by (simp_all add: host_commit_def)

definition state_after :: "'s \<Rightarrow> ('e, 'r \<times> 's) outcome \<Rightarrow> 's" where
  "state_after s r = (case r of Ok (_, s') \<Rightarrow> s' | _ \<Rightarrow> s)"

lemma state_after_simps [simp]:
  "state_after s (Ok (r, s')) = s'"
  "state_after s (Err e) = s"
  "state_after s Trap = s"
  by (simp_all add: state_after_def)

text \<open>Forget the value an entry point returns, for a dispatcher over all of them.\<close>

definition discard :: "('e, 'a \<times> 's) outcome \<Rightarrow> ('e, unit \<times> 's) outcome" where
  "discard r = and_then r (\<lambda>(_, s). Ok ((), s))"

lemma discard_iff [simp, outcome_simps]:
  "discard r = Ok (u, s) \<longleftrightarrow> (\<exists>a. r = Ok (a, s))"
  "discard r = Err e \<longleftrightarrow> r = Err e"
  "discard r = Trap \<longleftrightarrow> r = Trap"
  by (cases r; auto simp: discard_def)+

type_synonym ('c, 's, 'e, 'r) executor = "env \<Rightarrow> 'c \<Rightarrow> 's \<Rightarrow> ('e, 'r \<times> 's) outcome"

fun run_txs :: "('c, 's, 'e, 'r) executor \<Rightarrow> (env \<times> 'c) list \<Rightarrow> 's \<Rightarrow> 's" where
  "run_txs exec [] s = s"
| "run_txs exec ((e, c) # txs) s = run_txs exec txs (state_after s (exec e c s))"

fun chronological :: "nat \<Rightarrow> (env \<times> 'c) list \<Rightarrow> bool" where
  "chronological t [] = True"
| "chronological t ((e, c) # txs) \<longleftrightarrow> t \<le> timestamp e \<and> chronological (timestamp e) txs"

fun end_time :: "nat \<Rightarrow> (env \<times> 'c) list \<Rightarrow> nat" where
  "end_time t [] = t"
| "end_time t ((e, c) # txs) = end_time (timestamp e) txs"

lemma run_txs_append: "run_txs exec (xs @ ys) s = run_txs exec ys (run_txs exec xs s)"
  by (induction xs arbitrary: s) auto

text \<open>A fact that a run made true was made true by one of its transactions.\<close>

lemma run_txs_origin:
  assumes "P (run_txs exec txs s)" and "\<not> P s"
  obtains pre e c post r s' where "txs = pre @ (e, c) # post" "\<not> P (run_txs exec pre s)"
    "exec e c (run_txs exec pre s) = Ok (r, s')" "P s'"
proof -
  have "\<exists>pre e c post r s'. txs = pre @ (e, c) # post \<and> \<not> P (run_txs exec pre s) \<and>
    exec e c (run_txs exec pre s) = Ok (r, s') \<and> P s'"
    using assms
  proof (induction txs arbitrary: s)
    case (Cons tx txs)
    obtain e c where tx: "tx = (e, c)" by (cases tx)
    let ?s1 = "state_after s (exec e c s)"
    show ?case
    proof (cases "P ?s1")
      case True
      with Cons.prems(2) obtain r where "exec e c s = Ok (r, ?s1)"
        by (auto simp: state_after_def split: outcome.splits prod.splits)
      with True Cons.prems(2) tx show ?thesis by (intro exI [of _ "[]"]) auto
    next
      case False
      with Cons.IH [of ?s1] Cons.prems(1) tx obtain pre e' c' post r s' where
        "txs = pre @ (e', c') # post" "\<not> P (run_txs exec pre ?s1)"
        "exec e' c' (run_txs exec pre ?s1) = Ok (r, s')" "P s'"
        by auto
      with tx show ?thesis by (intro exI [of _ "tx # pre"]) auto
    qed
  qed simp
  then show thesis using that by blast
qed

text \<open>The last time a fact became true: it has held in every state since.\<close>

lemma run_txs_last_origin:
  assumes "P (run_txs exec txs s)" and "\<not> P s"
  obtains pre e c post r s' where "txs = pre @ (e, c) # post" "\<not> P (run_txs exec pre s)"
    "exec e c (run_txs exec pre s) = Ok (r, s')"
    "\<And>mid rest. post = mid @ rest \<Longrightarrow> P (run_txs exec mid s')"
proof -
  have "\<exists>pre e c post r s'. txs = pre @ (e, c) # post \<and> \<not> P (run_txs exec pre s) \<and>
    exec e c (run_txs exec pre s) = Ok (r, s') \<and> (\<forall>mid rest. post = mid @ rest \<longrightarrow> P (run_txs exec mid s'))"
    using assms(1)
  proof (induction txs rule: rev_induct)
    case Nil
    with assms(2) show ?case by simp
  next
    case (snoc tx txs)
    obtain e c where tx: "tx = (e, c)" by (cases tx)
    show ?case
    proof (cases "P (run_txs exec txs s)")
      case True
      from snoc.IH [OF this] obtain pre e' c' post r s' where o: "txs = pre @ (e', c') # post"
        "\<not> P (run_txs exec pre s)" "exec e' c' (run_txs exec pre s) = Ok (r, s')"
        "\<And>mid rest. post = mid @ rest \<Longrightarrow> P (run_txs exec mid s')" by blast
      have "run_txs exec (txs @ [tx]) s = run_txs exec (post @ [tx]) s'" using o by (simp add: run_txs_append)
      then have "P (run_txs exec mid s')" if "post @ [tx] = mid @ rest" for mid rest
        using that o(4) snoc.prems by (cases rest rule: rev_cases) auto
      with o show ?thesis by (intro exI [of _ pre] exI [of _ e'] exI [of _ c'] exI [of _ "post @ [tx]"]) auto
    next
      case False
      let ?s = "run_txs exec txs s"
      have "P (state_after ?s (exec e c ?s))" using snoc.prems tx by (simp add: run_txs_append)
      with False obtain r s' where "exec e c ?s = Ok (r, s')" "P s'"
        by (auto simp: state_after_def split: outcome.splits prod.splits)
      with False tx show ?thesis by (intro exI [of _ txs] exI [of _ e] exI [of _ c] exI [of _ "[]"]) auto
    qed
  qed
  then show thesis using that by blast
qed

text \<open>A run together with the sum of what its transactions return.\<close>

definition tally :: "('c, 's, 'e, int) executor \<Rightarrow> ('c, 's \<times> int, 'e, int) executor" where
  "tally exec e c sn = and_then (exec e c (fst sn)) (\<lambda>(v, s'). Ok (v, (s', snd sn + v)))"

lemma tally_Ok:
  "tally exec e c sn = Ok (v, sn') \<longleftrightarrow> exec e c (fst sn) = Ok (v, fst sn') \<and> snd sn' = snd sn + v"
  by (cases sn') (auto simp: tally_def)

lemma run_tally_fst: "fst (run_txs (tally exec) txs sn) = run_txs exec txs (fst sn)"
proof (induction txs arbitrary: sn)
  case (Cons tx txs)
  obtain e c where tx: "tx = (e, c)" by (cases tx)
  have "fst (state_after sn (tally exec e c sn)) = state_after (fst sn) (exec e c (fst sn))"
    by (cases "exec e c (fst sn)") (auto simp: tally_def)
  with Cons.IH tx show ?case by simp
qed simp

lemma chronological_append:
  "chronological t (xs @ ys) \<longleftrightarrow> chronological t xs \<and> chronological (end_time t xs) ys"
  by (induction t xs rule: end_time.induct) auto

lemma end_time_append: "end_time t (xs @ ys) = end_time (end_time t xs) ys"
  by (induction t xs rule: end_time.induct) auto

lemma end_time_ge: "chronological t txs \<Longrightarrow> t \<le> end_time t txs"
  by (induction t txs rule: end_time.induct) (auto intro: order_trans)

text \<open>
  The contract every entry point has with the rest of the system: it keeps an invariant
  that may mention ledger time (\<open>timed_contract\<close>), one that does not
  (\<open>contract_invariant\<close>), or moves the state along a preorder (\<open>contract_order\<close>).
\<close>

locale timed_contract =
  fixes exec :: "('c, 's, 'e, 'r) executor"
    and admissible :: "env \<Rightarrow> 'c \<Rightarrow> bool"
    and inv :: "nat \<Rightarrow> 's \<Rightarrow> bool"
  assumes inv_later: "inv t s \<Longrightarrow> t \<le> t' \<Longrightarrow> inv t' s"
    and exec_inv: "inv (timestamp e) s \<Longrightarrow> admissible e c \<Longrightarrow> exec e c s = Ok (r, s') \<Longrightarrow>
      inv (timestamp e) s'"
begin

lemma tx_inv:
  assumes "inv (timestamp e) s" and "admissible e c"
  shows "inv (timestamp e) (state_after s (exec e c s))"
proof (cases "exec e c s")
  case (Ok p)
  obtain r s' where "p = (r, s')" by (cases p)
  with Ok assms show ?thesis by (auto dest: exec_inv)
qed (use assms in simp_all)

lemma run_inv:
  assumes "inv t s" and "chronological t txs" and "\<And>e c. (e, c) \<in> set txs \<Longrightarrow> admissible e c"
  shows "inv (end_time t txs) (run_txs exec txs s)"
  using assms
proof (induction t txs arbitrary: s rule: end_time.induct)
  case (2 t e c txs)
  from "2.prems" have "inv (timestamp e) s" by (auto intro: inv_later)
  moreover have "admissible e c" by (rule "2.prems"(3)) simp
  ultimately have "inv (timestamp e) (state_after s (exec e c s))" by (rule tx_inv)
  moreover have "\<And>e' c'. (e', c') \<in> set txs \<Longrightarrow> admissible e' c'"
    by (rule "2.prems"(3)) simp
  ultimately show ?case using "2.IH" "2.prems"(2) by simp
qed simp

end

text \<open>An operation on a plain value in place: what it leaves behind, whether it succeeded or not.\<close>

locale step_invariant =
  fixes step :: "'c \<Rightarrow> 's \<Rightarrow> 's"
    and inv :: "'s \<Rightarrow> bool"
  assumes step_keeps: "inv s \<Longrightarrow> inv (step c s)"
begin

lemma fold_keeps: "inv s \<Longrightarrow> inv (fold step cs s)"
  by (induction cs arbitrary: s) (auto intro: step_keeps)

end

locale contract_invariant =
  fixes exec :: "('c, 's, 'e, 'r) executor"
    and inv :: "'s \<Rightarrow> bool"
  assumes step_inv: "inv s \<Longrightarrow> exec e c s = Ok (r, s') \<Longrightarrow> inv s'"
begin

sublocale timed: timed_contract exec "\<lambda>_ _. True" "\<lambda>_. inv"
  by unfold_locales (auto dest: step_inv)

lemma run_keeps: "inv s \<Longrightarrow> inv (run_txs exec txs s)"
proof (induction txs arbitrary: s)
  case (Cons tx txs)
  obtain e c where tx: "tx = (e, c)" by (cases tx)
  have "inv (state_after s (exec e c s))" by (rule timed.tx_inv) (use Cons.prems in simp_all)
  then show ?case using tx Cons.IH by simp
qed simp

end

locale contract_order =
  fixes exec :: "('c, 's, 'e, 'r) executor"
    and rel :: "'s \<Rightarrow> 's \<Rightarrow> bool"
  assumes rel_refl: "rel s s"
    and rel_trans: "rel s t \<Longrightarrow> rel t u \<Longrightarrow> rel s u"
    and step_rel: "exec e c s = Ok (r, s') \<Longrightarrow> rel s s'"
begin

lemma tx_rel: "rel s (state_after s (exec e c s))"
  by (auto simp: state_after_def rel_refl dest: step_rel split: outcome.splits prod.splits)

lemma run_rel: "rel s (run_txs exec txs s)"
proof (induction txs arbitrary: s)
  case Nil
  show ?case by (simp add: rel_refl)
next
  case (Cons tx txs)
  obtain e c where "tx = (e, c)" by (cases tx)
  with Cons.IH show ?case by (auto intro: rel_trans [OF tx_rel])
qed

end

text \<open>
  The two-step rotation of an administrator that several contracts share: the admin only changes to
  the pending one, who has to sign, and only the admin's signature sets the pending one.
\<close>

locale two_step_admin =
  fixes exec :: "('c, 's, 'e, 'r) executor"
    and admin_of :: "'s \<Rightarrow> address option"
    and pending_of :: "'s \<Rightarrow> address option"
  assumes admin_step: "exec e c s = Ok (r, s') \<Longrightarrow> admin_of s = Some a \<Longrightarrow>
      admin_of s' = Some a \<or> (\<exists>b. pending_of s = Some b \<and> admin_of s' = Some b \<and> auth e b)"
    and pending_step: "exec e c s = Ok (r, s') \<Longrightarrow> pending_of s' = Some b \<Longrightarrow>
      pending_of s = Some b \<or> (\<exists>a. admin_of s = Some a \<and> auth e a)"
begin

lemma admin_kept_set: "admin_of s \<noteq> None \<Longrightarrow> admin_of (run_txs exec txs s) \<noteq> None"
proof (induction txs arbitrary: s)
  case (Cons tx txs)
  obtain e c where tx: "tx = (e, c)" by (cases tx)
  obtain a where "admin_of s = Some a" using Cons.prems by auto
  then have "admin_of (state_after s (exec e c s)) \<noteq> None"
    using admin_step by (fastforce simp: state_after_def split: outcome.splits prod.splits)
  then show ?case using Cons.IH tx by simp
qed simp

lemma admin_handed_over:
  assumes "admin_of s = Some a" and "pending_of s = None" and "admin_of (run_txs exec txs s) = Some b" and "a \<noteq> b"
  shows "\<exists>pre e c mid e' c' post p. txs = pre @ (e, c) # mid @ (e', c') # post \<and>
    admin_of (run_txs exec pre s) = Some p \<and> auth e p \<and> pending_of (run_txs exec (pre @ [(e, c)]) s) = Some b \<and>
    pending_of (run_txs exec (pre @ (e, c) # mid) s) = Some b \<and> auth e' b \<and>
    admin_of (run_txs exec (pre @ (e, c) # mid @ [(e', c')]) s) = Some b"
proof -
  obtain xs e' c' post r s' where x: "txs = xs @ (e', c') # post" "admin_of (run_txs exec xs s) \<noteq> Some b"
    "exec e' c' (run_txs exec xs s) = Ok (r, s')" "admin_of s' = Some b"
    by (rule run_txs_origin [of "\<lambda>s. admin_of s = Some b" exec txs s]) (use assms in auto)
  obtain p where "admin_of (run_txs exec xs s) = Some p" using admin_kept_set [of s xs] assms(1) by auto
  with admin_step [OF x(3) this] x(2,4) have acc: "pending_of (run_txs exec xs s) = Some b" "auth e' b" by auto
  obtain pre e c mid r2 s2 where y: "xs = pre @ (e, c) # mid" "pending_of (run_txs exec pre s) \<noteq> Some b"
    "exec e c (run_txs exec pre s) = Ok (r2, s2)" "pending_of s2 = Some b"
    by (rule run_txs_origin [of "\<lambda>s. pending_of s = Some b" exec xs s]) (use acc(1) assms(2) in auto)
  from pending_step [OF y(3,4)] y(2) obtain p where p: "admin_of (run_txs exec pre s) = Some p" "auth e p" by auto
  have last: "run_txs exec (pre @ (e, c) # mid @ [(e', c')]) s = s'"
    using x(3) y(1) by (simp add: run_txs_append)
  have nominated: "run_txs exec (pre @ [(e, c)]) s = s2" using y(3) by (simp add: run_txs_append)
  show ?thesis
    by (rule exI [of _ pre], rule exI [of _ e], rule exI [of _ c], rule exI [of _ mid], rule exI [of _ e'],
        rule exI [of _ c'], rule exI [of _ post], rule exI [of _ p])
       (use x(1,4) y(1,4) p acc last nominated in simp)
qed

end

end
