(* ===== verification/Math.thy ===== *)
theory Math
  imports Soroban "HOL-Library.Word" "HOL-Library.Product_Lexorder"
begin

unbundle bit_operations_syntax

text \<open>
  \<open>math/src/lib.rs\<close>: 256-bit multiplication and division on \<open>u128\<close>, \<open>mul_div\<close> with explicit
  rounding, two-party splits and the largest-remainder allocation.  \<open>u128\<close> values of the
  multi-word routines are \<open>128 word\<close>; \<open>i128\<close> amounts are \<open>int\<close>.
\<close>

section \<open>Definitions\<close>

type_synonym u128 = "128 word"

definition BPS_DENOM :: int where "BPS_DENOM = 10000"
definition MAX_BPS :: nat where "MAX_BPS = 10000"
definition SCALE_1E7 :: int where "SCALE_1E7 = 10000000"

datatype rounding = Floor | Ceil

datatype math_error = Negative | DivisionByZero | Overflow | NoRecipients | InvalidRatio

record split =
  split_cut :: int
  split_rest :: int

subsection \<open>Wide multiplication and division\<close>

definition u64_mask :: u128 where "u64_mask = 0xFFFFFFFFFFFFFFFF"

definition mul_wide :: "u128 \<Rightarrow> u128 \<Rightarrow> u128 \<times> u128" where
  "mul_wide a b = (
     let a_hi = drop_bit 64 a; a_lo = a AND u64_mask;
         b_hi = drop_bit 64 b; b_lo = b AND u64_mask;
         ll = a_lo * b_lo;
         lh = a_lo * b_hi;
         hl = a_hi * b_lo;
         hh = a_hi * b_hi;
         mid = drop_bit 64 ll + (lh AND u64_mask) + (hl AND u64_mask);
         lo = (ll AND u64_mask) OR push_bit 64 mid;
         hi = hh + drop_bit 64 lh + drop_bit 64 hl + drop_bit 64 mid
     in (hi, lo))"

text \<open>The \<open>for i in (0..128).rev()\<close> loop; the first argument counts the bits left.\<close>

fun div_wide_loop :: "nat \<Rightarrow> u128 \<Rightarrow> u128 \<Rightarrow> u128 \<Rightarrow> u128 \<Rightarrow> u128 \<times> u128" where
  "div_wide_loop 0 lo d rem quot = (quot, rem)"
| "div_wide_loop (Suc i) lo d rem quot = (
     let carry = drop_bit 127 rem;
         rem' = push_bit 1 rem OR (drop_bit i lo AND 1)
     in if carry = 1 \<or> d \<le> rem'
        then div_wide_loop i lo d (rem' - d) (quot OR push_bit i 1)
        else div_wide_loop i lo d rem' quot)"

definition div_wide :: "u128 \<Rightarrow> u128 \<Rightarrow> u128 \<Rightarrow> u128 \<times> u128" where
  "div_wide hi lo d = div_wide_loop 128 lo d hi 0"

definition mul_div_rem_u128 :: "u128 \<Rightarrow> u128 \<Rightarrow> u128 \<Rightarrow> (math_error, u128 \<times> u128) outcome" where
  "mul_div_rem_u128 a b c =
     (if c = 0 then Err DivisionByZero
      else case mul_wide a b of (hi, lo) \<Rightarrow>
        if hi = 0 then Ok (lo div c, lo mod c)
        else if c \<le> hi then Err Overflow
        else Ok (div_wide hi lo c))"

subsection \<open>Rounded division and basis points\<close>

definition mul_div :: "int \<Rightarrow> int \<Rightarrow> int \<Rightarrow> rounding \<Rightarrow> (math_error, int) outcome" where
  "mul_div a b c r =
     (if a < 0 \<or> b < 0 \<or> c < 0 then Err Negative
      else if c = 0 then Err DivisionByZero
      else and_then (mul_div_rem_u128 (word_of_int a) (word_of_int b) (word_of_int c)) (\<lambda>(q, m).
        and_then (case r of
            Floor \<Rightarrow> Ok q
          | Ceil \<Rightarrow> if 0 < m then (if q = - 1 then Err Overflow else Ok (q + 1)) else Ok q) (\<lambda>adjusted.
        if uint adjusted \<le> i128_max then Ok (uint adjusted) else Err Overflow)))"

definition mul_div_floor :: "int \<Rightarrow> int \<Rightarrow> int \<Rightarrow> (math_error, int) outcome" where
  "mul_div_floor a b c = mul_div a b c Floor"

definition mul_div_ceil :: "int \<Rightarrow> int \<Rightarrow> int \<Rightarrow> (math_error, int) outcome" where
  "mul_div_ceil a b c = mul_div a b c Ceil"

definition apply_bps :: "int \<Rightarrow> nat \<Rightarrow> rounding \<Rightarrow> (math_error, int) outcome" where
  "apply_bps amount bps r =
     (if MAX_BPS < bps then Err InvalidRatio else mul_div amount (int bps) BPS_DENOM r)"

definition apply_bps_floor :: "int \<Rightarrow> nat \<Rightarrow> (math_error, int) outcome" where
  "apply_bps_floor amount bps = apply_bps amount bps Floor"

definition apply_bps_ceil :: "int \<Rightarrow> nat \<Rightarrow> (math_error, int) outcome" where
  "apply_bps_ceil amount bps = apply_bps amount bps Ceil"

definition ratio_bps :: "int \<Rightarrow> int \<Rightarrow> rounding \<Rightarrow> (math_error, nat) outcome" where
  "ratio_bps part whole r =
     (if whole \<le> 0 then Err DivisionByZero
      else if part < 0 then Err Negative
      else if whole < part then Err InvalidRatio
      else and_then (mul_div part BPS_DENOM whole r) (\<lambda>bps.
        if 0 \<le> bps \<and> bps \<le> int u32_max then Ok (nat bps) else Err Overflow))"

definition split_ratio :: "int \<Rightarrow> int \<Rightarrow> int \<Rightarrow> (math_error, split) outcome" where
  "split_ratio amount numerator denominator =
     (if denominator \<le> 0 then Err DivisionByZero
      else if numerator < 0 \<or> denominator < numerator then Err InvalidRatio
      else and_then (mul_div_floor amount numerator denominator) (\<lambda>c.
        and_then (i128_sub amount c) (\<lambda>r. Ok \<lparr>split_cut = c, split_rest = r\<rparr>)))"

definition split_bps :: "int \<Rightarrow> int \<Rightarrow> (math_error, split) outcome" where
  "split_bps amount bps =
     (if \<not> (0 \<le> bps \<and> bps \<le> BPS_DENOM) then Err InvalidRatio
      else split_ratio amount bps BPS_DENOM)"

definition to_1e7 :: "int \<Rightarrow> (math_error, int) outcome" where
  "to_1e7 units =
     (if units < 0 then Err Negative else ok_or (i128_opt (units * SCALE_1E7)) Overflow)"

definition from_1e7 :: "int \<Rightarrow> rounding \<Rightarrow> (math_error, int) outcome" where
  "from_1e7 scaled r = mul_div scaled 1 SCALE_1E7 r"

definition math_checked_add :: "int \<Rightarrow> int \<Rightarrow> (math_error, int) outcome" where
  "math_checked_add a b =
     (if a < 0 \<or> b < 0 then Err Negative else ok_or (i128_opt (a + b)) Overflow)"

definition math_checked_sub :: "int \<Rightarrow> int \<Rightarrow> (math_error, int) outcome" where
  "math_checked_sub a b = (if a < 0 \<or> b < 0 \<or> a < b then Err Negative else Ok (a - b))"

definition math_checked_mul :: "int \<Rightarrow> int \<Rightarrow> (math_error, int) outcome" where
  "math_checked_mul a b =
     (if a < 0 \<or> b < 0 then Err Negative else ok_or (i128_opt (a * b)) Overflow)"

definition saturating_add :: "int \<Rightarrow> int \<Rightarrow> int" where
  "saturating_add a b = i128_clamp (a + b)"

definition saturating_sub :: "int \<Rightarrow> int \<Rightarrow> int" where
  "saturating_sub a b = i128_clamp (a - b)"

definition route_dust :: "int \<Rightarrow> int \<Rightarrow> (math_error, int \<times> int) outcome" where
  "route_dust balance owned =
     (if balance < 0 \<or> owned < 0 \<or> balance < owned then Err Negative
      else Ok (owned, balance - owned))"

subsection \<open>Largest-remainder allocation\<close>

text \<open>The first loop of \<open>allocate\<close>: validate the weights and add them up in \<open>u128\<close>.\<close>

fun weight_sum_loop :: "int \<Rightarrow> int list \<Rightarrow> (math_error, int) outcome" where
  "weight_sum_loop acc [] = Ok acc"
| "weight_sum_loop acc (w # ws) =
     (if w < 0 then Err Negative
      else if u128_max < acc + w then Err Overflow
      else weight_sum_loop (acc + w) ws)"

text \<open>
  The second loop: the floors pushed to \<open>out\<close>, their sum \<open>assigned\<close>, and the positive
  remainders with their indices.
\<close>

fun floors_loop :: "u128 \<Rightarrow> u128 \<Rightarrow> nat \<Rightarrow> int list \<Rightarrow> (math_error, int list \<times> int \<times> (int \<times> nat) list) outcome" where
  "floors_loop tot wsum i [] = Ok ([], 0, [])"
| "floors_loop tot wsum i (w # ws) =
     and_then (mul_div_rem_u128 tot (word_of_int w) wsum) (\<lambda>(q, r).
     and_then (floors_loop tot wsum (Suc i) ws) (\<lambda>(out, assigned, rems).
       Ok (uint q # out, uint q + assigned, if 0 < r then (uint r, i) # rems else rems)))"

text \<open>
  \<open>sort_unstable_by\<close> with the comparator "remainder descending, then index ascending": the
  lexicographic order on \<open>(- r, i)\<close>.  The keys are distinct, so the result does not depend
  on the sort being stable.
\<close>

definition sort_remainders :: "(int \<times> nat) list \<Rightarrow> (int \<times> nat) list" where
  "sort_remainders rems = sort_key (\<lambda>(r, i). (- r, i)) rems"

fun bump_all :: "nat list \<Rightarrow> int list \<Rightarrow> int list" where
  "bump_all [] out = out"
| "bump_all (i # js) out = bump_all js (out[i := out ! i + 1])"

definition allocate :: "int \<Rightarrow> int list \<Rightarrow> (math_error, int list) outcome" where
  "allocate tot weights =
     (if tot < 0 then Err Negative
      else and_then (weight_sum_loop 0 weights) (\<lambda>weight_sum.
        if tot = 0 then Ok (replicate (length weights) 0)
        else if weight_sum = 0 then Err NoRecipients
        else and_then (floors_loop (word_of_int tot) (word_of_int weight_sum) 0 weights)
          (\<lambda>(out, assigned, rems).
            let leftover = tot - assigned
            in Ok (bump_all (map snd (take (nat leftover) (sort_remainders rems))) out))))"

section \<open>Lemmas\<close>

subsection \<open>Words and their halves\<close>

lemma u64_mask_eq: "u64_mask = mask 64"
  by (simp add: u64_mask_def mask_eq_exp_minus_1)

lemma uint_low64: "uint (x AND u64_mask) = uint x mod 2 ^ 64" for x :: u128
proof -
  have "uint (take_bit 64 x) = take_bit 64 (uint x)" by (rule unsigned_take_bit_eq)
  then show ?thesis unfolding u64_mask_eq take_bit_eq_mask [symmetric] by (simp only: take_bit_eq_mod [of _ "uint x"])
qed

lemma uint_high64: "uint (drop_bit 64 x) = uint x div 2 ^ 64" for x :: u128
proof -
  have "take_bit 128 (uint x) = uint x" using uint_lt2p [of x] by (simp add: take_bit_int_eq_self)
  then show ?thesis by (simp only: unsigned_drop_bit_eq) (simp add: drop_bit_eq_div)
qed

lemma uint_or_disjoint: "x AND y = 0 \<Longrightarrow> uint (x OR y) = uint x + uint y" for x y :: u128
proof -
  assume "x AND y = 0"
  then have "uint x AND uint y = 0" by (metis unsigned_and_eq unsigned_0)
  moreover have "uint (x OR y) = uint x OR uint y" by (rule unsigned_or_eq)
  ultimately show ?thesis using plus_and_or [of "uint x" "uint y"] by simp
qed

lemma word_bit_low: "uint x mod 2 ^ k = 0 \<Longrightarrow> n < k \<Longrightarrow> \<not> bit x n" for x :: u128
proof -
  assume a: "uint x mod 2 ^ k = 0" "n < k"
  have "\<not> bit (take_bit k (uint x)) n" using a(1) by (simp add: take_bit_eq_mod)
  then have "\<not> bit (uint x) n" using a(2) by (simp add: bit_take_bit_iff)
  then show ?thesis by (auto simp: bit_unsigned_iff dest: bit_imp_le_length)
qed

lemma word_bit_high: "uint x < 2 ^ k \<Longrightarrow> k \<le> n \<Longrightarrow> \<not> bit x n" for x :: u128
proof -
  assume a: "uint x < 2 ^ k" "k \<le> n"
  have "take_bit k (uint x) = uint x" using a(1) by (simp add: take_bit_int_eq_self)
  then have "\<not> bit (uint x) n" using a(2) by (metis bit_take_bit_iff leD)
  then show ?thesis by (auto simp: bit_unsigned_iff dest: bit_imp_le_length)
qed

lemma and_low_high:
  fixes x y :: u128
  assumes "uint x < 2 ^ k" and "2 ^ k dvd uint y"
  shows "x AND y = 0"
proof (rule bit_eqI)
  fix n
  show "bit (x AND y) n = bit 0 n"
  proof (cases "n < k")
    case True
    then have "\<not> bit y n" using assms(2) by (intro word_bit_low [of _ k]) auto
    then show ?thesis by (simp add: bit_simps)
  next
    case False
    then have "\<not> bit x n" using assms(1) by (intro word_bit_high [of _ k]) auto
    then show ?thesis by (simp add: bit_simps)
  qed
qed

lemma uint_push64: "uint (push_bit 64 x) = (uint x mod 2 ^ 64) * 2 ^ 64" for x :: u128
proof -
  have "uint (push_bit 64 x) = take_bit 128 (push_bit 64 (uint x))"
    using unsigned_push_bit_eq [of 64 x, where 'a = int] by simp
  also have "\<dots> = (uint x * 2 ^ 64) mod (2 ^ 64 * 2 ^ 64)" by (simp only: take_bit_eq_mod push_bit_eq_mult) simp
  also have "\<dots> = (uint x mod 2 ^ 64) * 2 ^ 64" by (rule mod_mult_mult2)
  finally show ?thesis .
qed
lemma uint_mult_small: "uint x * uint y < 2 ^ 128 \<Longrightarrow> uint (x * y) = uint x * uint y" for x y :: u128
  by (simp add: uint_word_ariths)

lemma uint_plus_small: "uint x + uint y < 2 ^ 128 \<Longrightarrow> uint (x + y) = uint x + uint y" for x y :: u128
  by (simp add: uint_word_ariths)

lemma uint_halves_prod:
  fixes x y :: u128
  assumes "uint x < 2 ^ 64" and "uint y < 2 ^ 64"
  shows "uint (x * y) = uint x * uint y" and "uint x * uint y \<le> (2 ^ 64 - 1) * (2 ^ 64 - 1)"
proof -
  show b: "uint x * uint y \<le> (2 ^ 64 - 1) * (2 ^ 64 - 1)"
    using assms by (intro mult_mono) auto
  show "uint (x * y) = uint x * uint y" by (rule uint_mult_small) (use b in simp)
qed

lemma u128_halves_bound: "uint (x AND u64_mask) < 2 ^ 64" "uint (drop_bit 64 x) < 2 ^ 64" for x :: u128
proof -
  show "uint (x AND u64_mask) < 2 ^ 64" by (simp only: uint_low64) simp
  have "uint x < 2 ^ 64 * 2 ^ 64" using uint_lt2p [of x] by simp
  then show "uint (drop_bit 64 x) < 2 ^ 64" by (simp only: uint_high64 div_less_iff_less_mult) simp
qed

lemma u128_halves: "uint x = uint (drop_bit 64 x) * 2 ^ 64 + uint (x AND u64_mask)" for x :: u128
  by (simp only: uint_low64 uint_high64) simp

text \<open>The schoolbook product, once no intermediate of \<open>mul_wide\<close> wraps.\<close>

lemma wide_product_recombine:
  fixes ll lh hl hh B :: int
  defines "m \<equiv> ll div B + lh mod B + hl mod B"
  shows "(hh + lh div B + hl div B + m div B) * (B * B) + (ll mod B + m mod B * B)
       = hh * (B * B) + (lh + hl) * B + ll"
proof -
  have "m div B * B + m mod B = m" "ll div B * B + ll mod B = ll"
      "lh div B * B + lh mod B = lh" "hl div B * B + hl mod B = hl"
    by simp_all
  then show ?thesis unfolding m_def by algebra
qed

lemma u128_div_le: "uint x \<le> (2 ^ 64 - 1) * (2 ^ 64 - 1) \<Longrightarrow> uint x div 2 ^ 64 \<le> 2 ^ 64 - 2" for x :: u128
  by simp

lemma mul_wide_correct:
  "mul_wide a b = (hi, lo) \<Longrightarrow> uint hi * 2 ^ 128 + uint lo = uint a * uint b"
proof -
  assume mw: "mul_wide a b = (hi, lo)"
  define ah al bh bl where "ah = drop_bit 64 a" and "al = a AND u64_mask"
    and "bh = drop_bit 64 b" and "bl = b AND u64_mask"
  note bounds = u128_halves_bound [of a, folded ah_def al_def] u128_halves_bound [of b, folded bh_def bl_def]
  define ll lh hl hh where "ll = al * bl" and "lh = al * bh" and "hl = ah * bl" and "hh = ah * bh"
  have prods: "uint ll = uint al * uint bl" "uint lh = uint al * uint bh"
      "uint hl = uint ah * uint bl" "uint hh = uint ah * uint bh"
    unfolding ll_def lh_def hl_def hh_def by (simp_all only: uint_halves_prod(1) bounds)
  have le: "uint lh \<le> (2 ^ 64 - 1) * (2 ^ 64 - 1)" "uint hl \<le> (2 ^ 64 - 1) * (2 ^ 64 - 1)"
      "uint hh \<le> (2 ^ 64 - 1) * (2 ^ 64 - 1)"
    unfolding prods by (simp_all only: uint_halves_prod(2) bounds)
  define mid where "mid = drop_bit 64 ll + (lh AND u64_mask) + (hl AND u64_mask)"
  have s1: "uint (drop_bit 64 ll + (lh AND u64_mask)) = uint (drop_bit 64 ll) + uint (lh AND u64_mask)"
    by (rule uint_plus_small) (use u128_halves_bound [of ll] u128_halves_bound [of lh] in simp)
  have mid: "uint mid = uint ll div 2 ^ 64 + uint lh mod 2 ^ 64 + uint hl mod 2 ^ 64"
    unfolding mid_def
    by (subst uint_plus_small; simp only: s1 uint_high64 uint_low64)
       (use u128_halves_bound(2) [of ll, unfolded uint_high64] in simp)
  have lo: "lo = (ll AND u64_mask) OR push_bit 64 mid"
    and hi: "hi = hh + drop_bit 64 lh + drop_bit 64 hl + drop_bit 64 mid"
    using mw by (simp_all only: mul_wide_def Let_def prod.inject
        ah_def al_def bh_def bl_def ll_def lh_def hl_def hh_def mid_def)
  have lo': "uint lo = uint ll mod 2 ^ 64 + uint mid mod 2 ^ 64 * 2 ^ 64"
    unfolding lo
    by (subst uint_or_disjoint, rule and_low_high [of _ 64]) (simp_all only: u128_halves_bound(1) uint_push64 uint_low64 [of ll, symmetric] dvd_triv_right)
  have hi': "uint hi = uint hh + uint lh div 2 ^ 64 + uint hl div 2 ^ 64 + uint mid div 2 ^ 64"
  proof -
    have b: "uint (drop_bit 64 lh) \<le> 2 ^ 64 - 2" "uint (drop_bit 64 hl) \<le> 2 ^ 64 - 2"
      using le(1,2) by (simp_all only: uint_high64 u128_div_le)
    have m: "uint (drop_bit 64 mid) \<le> 2"
      using u128_halves_bound(2) [of ll, unfolded uint_high64] by (simp only: uint_high64 mid) simp
    have h1: "uint (hh + drop_bit 64 lh) = uint hh + uint (drop_bit 64 lh)"
      by (rule uint_plus_small) (use le b in simp)
    have h2: "uint (hh + drop_bit 64 lh + drop_bit 64 hl) = uint hh + uint (drop_bit 64 lh) + uint (drop_bit 64 hl)"
      by (subst uint_plus_small; simp only: h1) (use le b in simp)
    show ?thesis unfolding hi
      by (subst uint_plus_small; simp only: h2) (use le b m in \<open>simp_all only: uint_high64, simp\<close>)
  qed
  have B: "(2::int) ^ 128 = 2 ^ 64 * 2 ^ 64" by simp
  have "uint hi * 2 ^ 128 + uint lo
      = uint hh * (2 ^ 64 * 2 ^ 64) + (uint lh + uint hl) * 2 ^ 64 + uint ll"
    unfolding lo' hi' mid B by (rule wide_product_recombine)
  also have "\<dots> = uint a * uint b"
    unfolding prods u128_halves [of a, folded ah_def al_def] u128_halves [of b, folded bh_def bl_def]
    by (simp only: algebra_simps)
  finally show ?thesis .
qed

subsection \<open>Long division, bit by bit\<close>

lemma uint_bit_pick: "uint (drop_bit i lo AND 1) = uint lo div 2 ^ i mod 2" for lo :: u128
proof -
  have "uint (drop_bit i lo AND 1) = uint (drop_bit i lo) mod 2"
    by (simp add: and_one_eq uint_mod_distrib)
  moreover have "take_bit 128 (uint lo) = uint lo" using uint_lt2p [of lo] by (simp add: take_bit_int_eq_self)
  then have "uint (drop_bit i lo) = uint lo div 2 ^ i"
    by (simp only: unsigned_drop_bit_eq) (simp add: drop_bit_eq_div)
  ultimately show ?thesis by simp
qed

lemma uint_push1: "uint (push_bit 1 x) = 2 * uint x mod 2 ^ 128" for x :: u128
proof -
  have "uint (push_bit 1 x) = take_bit 128 (push_bit 1 (uint x))"
    using unsigned_push_bit_eq [of 1 x, where 'a = int] by simp
  then show ?thesis by (simp only: take_bit_eq_mod push_bit_eq_mult) (simp add: mult.commute)
qed

lemma shift_in_mod:
  fixes r x :: int
  assumes "0 \<le> x" "x < 2"
  shows "x + 2 * r mod 2 ^ 128 = (2 * r + x) mod 2 ^ 128"
proof -
  have p: "(2::int) ^ 128 = 2 * 2 ^ 127" by simp
  have e: "2 * r mod 2 ^ 128 = 2 * (r mod 2 ^ 127)" unfolding p by (rule mod_mult_mult1)
  have "r mod 2 ^ 127 < 2 ^ 127" "0 \<le> r mod 2 ^ 127" by simp_all
  then have "x + 2 * (r mod 2 ^ 127) < 2 ^ 128" "0 \<le> x + 2 * (r mod 2 ^ 127)"
    using assms unfolding p by linarith+
  then have "(2 * r mod 2 ^ 128 + x) mod 2 ^ 128 = x + 2 * r mod 2 ^ 128"
    unfolding e by (simp only: add.commute mod_pos_pos_trivial)
  then show ?thesis by (simp only: mod_add_left_eq)
qed

lemma uint_shift_in:
  "uint (push_bit 1 r OR (drop_bit i lo AND 1)) = (2 * uint r + uint lo div 2 ^ i mod 2) mod 2 ^ 128" for r lo :: u128
proof -
  have z: "(drop_bit i lo AND 1) AND push_bit 1 r = 0"
  proof (rule and_low_high [of _ 1])
    show "uint (drop_bit i lo AND 1) < 2 ^ 1" by (simp only: uint_bit_pick) simp
    show "2 ^ 1 dvd uint (push_bit 1 r)" by (simp only: uint_push1) (simp add: dvd_mod)
  qed
  have "uint (push_bit 1 r OR (drop_bit i lo AND 1)) = uint ((drop_bit i lo AND 1) OR push_bit 1 r)"
    by (simp only: or.commute)
  also have "\<dots> = uint lo div 2 ^ i mod 2 + 2 * uint r mod 2 ^ 128"
    by (simp only: uint_or_disjoint [OF z] uint_push1 uint_bit_pick)
  also have "\<dots> = (2 * uint r + uint lo div 2 ^ i mod 2) mod 2 ^ 128"
    by (rule shift_in_mod) simp_all
  finally show ?thesis .
qed

lemma carry_iff: "drop_bit 127 r = 1 \<longleftrightarrow> 2 ^ 127 \<le> uint r" for r :: u128
proof -
  have t: "take_bit 128 (uint r) = uint r" using uint_lt2p [of r] by (simp add: take_bit_int_eq_self)
  have u: "uint (drop_bit 127 r) = uint r div 2 ^ 127"
    by (simp only: unsigned_drop_bit_eq) (simp add: drop_bit_eq_div t)
  have "drop_bit 127 r = 1 \<longleftrightarrow> uint (drop_bit 127 r) = 1"
    by (metis uint_1 word_uint_eq_iff)
  also have "\<dots> \<longleftrightarrow> 2 ^ 127 \<le> uint r" unfolding u using uint_lt2p [of r] by auto
  finally show ?thesis .
qed

lemma uint_set_bit: 
  fixes quot :: u128
  assumes "2 ^ Suc i dvd uint quot" and "i < 128"
  shows "uint (quot OR push_bit i 1) = uint quot + 2 ^ i"
proof -
  have p: "uint (push_bit i 1 :: u128) = 2 ^ i"
  proof -
    have "uint (push_bit i 1 :: u128) = take_bit 128 (push_bit i 1)"
      using unsigned_push_bit_eq [of i "1 :: u128", where 'a = int] by simp
    moreover have "(2::int) ^ i < 2 ^ 128" using assms(2) by (intro power_strict_increasing) auto
    ultimately show ?thesis using assms(2) by (simp only: push_bit_eq_mult) (simp add: take_bit_int_eq_self)
  qed
  have "push_bit i 1 AND quot = 0"
    by (rule and_low_high [of _ "Suc i"]) (simp_all only: p assms(1), simp)
  then have z: "quot AND push_bit i 1 = 0" by (simp only: and.commute)
  show ?thesis by (simp only: uint_or_disjoint [OF z] p)
qed

text \<open>One round of the loop, over the integers: shift a bit in and subtract when it fits.\<close>

lemma div_wide_round:
  fixes r lo d :: u128 and i :: nat
  assumes lt: "uint r < uint d"
  defines "r2 \<equiv> 2 * uint r + uint lo div 2 ^ i mod 2"
  defines "r' \<equiv> push_bit 1 r OR (drop_bit i lo AND 1)"
  shows "drop_bit 127 r = 1 \<or> d \<le> r' \<longleftrightarrow> uint d \<le> r2"
    and "uint d \<le> r2 \<Longrightarrow> uint (r' - d) = r2 - uint d"
    and "\<not> uint d \<le> r2 \<Longrightarrow> uint r' = r2"
proof -
  have r': "uint r' = r2 mod 2 ^ 128" unfolding r'_def r2_def by (rule uint_shift_in)
  have b: "0 \<le> uint lo div 2 ^ i mod 2" "uint lo div 2 ^ i mod 2 < 2" by simp_all
  then have r2: "0 \<le> r2" "r2 < 2 * uint d" using lt unfolding r2_def by (auto simp: algebra_simps intro: add_nonneg_nonneg)
  have d: "uint d < 2 ^ 128" using uint_lt2p [of d] by simp
  have big: "2 ^ 127 \<le> uint r \<longleftrightarrow> 2 ^ 128 \<le> r2" using b unfolding r2_def by simp linarith
  have small: "r2 mod 2 ^ 128 = r2" if "r2 < 2 ^ 128" using that r2 by simp
  show "drop_bit 127 r = 1 \<or> d \<le> r' \<longleftrightarrow> uint d \<le> r2"
  proof (cases "r2 < 2 ^ 128")
    case True
    then show ?thesis using big small by (simp add: carry_iff word_le_def r')
  next
    case False
    then show ?thesis using big d by (simp add: carry_iff)
  qed
  show "uint (r' - d) = r2 - uint d" if "uint d \<le> r2"
  proof -
    have "uint (r' - d) = (r2 - uint d) mod 2 ^ 128"
      by (simp add: uint_word_ariths r' mod_diff_left_eq)
    then show ?thesis using that r2 d by simp
  qed
  show "uint r' = r2" if "\<not> uint d \<le> r2" using that d r' small by simp
qed

lemma div_wide_loop_correct:
  assumes "div_wide_loop i lo d r quot = (q, m)"
    and "uint r < uint d" and "2 ^ i dvd uint quot" and "i \<le> 128"
  shows "uint q = uint quot + (uint r * 2 ^ i + uint lo mod 2 ^ i) div uint d
       \<and> uint m = (uint r * 2 ^ i + uint lo mod 2 ^ i) mod uint d"
  using assms
proof (induction i arbitrary: r quot)
  case 0
  then show ?case by simp
next
  case (Suc i)
  define r2 where "r2 = 2 * uint r + uint lo div 2 ^ i mod 2"
  define r' where "r' = push_bit 1 r OR (drop_bit i lo AND 1)"
  note round = div_wide_round [where i = i and lo = lo, OF Suc.prems(2), folded r2_def r'_def]
  have lo: "uint lo mod 2 ^ Suc i = (uint lo div 2 ^ i mod 2) * 2 ^ i + uint lo mod 2 ^ i"
    using zmod_zmult2_eq [of 2 "uint lo" "2 ^ i"] by (simp add: mult.commute)
  have X: "uint r * 2 ^ Suc i + uint lo mod 2 ^ Suc i = r2 * 2 ^ i + uint lo mod 2 ^ i"
    unfolding lo r2_def by (simp add: algebra_simps)
  have dq: "2 ^ i dvd uint quot" using Suc.prems(3) by (rule dvd_trans [rotated]) simp
  show ?case
  proof (cases "uint d \<le> r2")
    case True
    have "div_wide_loop i lo d (r' - d) (quot OR push_bit i 1) = (q, m)"
      using Suc.prems(1) round(1) True by (simp add: Let_def r'_def)
    moreover have "uint (r' - d) < uint d" 
      using round(2) [OF True] Suc.prems(2) pos_mod_bound [of 2 "uint lo div 2 ^ i"] unfolding r2_def by simp
    moreover have sb: "uint (quot OR push_bit i 1) = uint quot + 2 ^ i"
      using Suc.prems by (intro uint_set_bit) auto
    moreover have "2 ^ i dvd uint (quot OR push_bit i 1)" unfolding sb using dq by simp
    ultimately have IH: "uint q = uint quot + 2 ^ i + ((r2 - uint d) * 2 ^ i + uint lo mod 2 ^ i) div uint d"
        "uint m = ((r2 - uint d) * 2 ^ i + uint lo mod 2 ^ i) mod uint d"
      using Suc.IH [of "r' - d" "quot OR push_bit i 1"] Suc.prems(4) round(2) [OF True] by auto
    have split: "r2 * 2 ^ i + uint lo mod 2 ^ i = ((r2 - uint d) * 2 ^ i + uint lo mod 2 ^ i) + 2 ^ i * uint d"
      by (simp add: algebra_simps)
    have "uint d \<noteq> 0" using Suc.prems(2) uint_ge_0 [of r] by linarith
    then show ?thesis unfolding X split IH by simp
  next
    case False
    have "div_wide_loop i lo d r' quot = (q, m)"
      using Suc.prems(1) round(1) False by (simp add: Let_def r'_def)
    then show ?thesis
      using Suc.IH [of r' quot] dq Suc.prems(4) round(3) [OF False] False X by auto
  qed
qed

lemma div_wide_correct:
  assumes "div_wide hi lo d = (q, m)" and "hi < d"
  shows "uint q = (uint hi * 2 ^ 128 + uint lo) div uint d"
    and "uint m = (uint hi * 2 ^ 128 + uint lo) mod uint d"
proof -
  have "uint lo mod 2 ^ 128 = uint lo" using uint_lt2p [of lo] by simp
  moreover have "uint q = uint (0::u128) + (uint hi * 2 ^ 128 + uint lo mod 2 ^ 128) div uint d
      \<and> uint m = (uint hi * 2 ^ 128 + uint lo mod 2 ^ 128) mod uint d"
    by (rule div_wide_loop_correct) (use assms in \<open>simp_all add: div_wide_def word_less_def\<close>)
  ultimately show "uint q = (uint hi * 2 ^ 128 + uint lo) div uint d"
    and "uint m = (uint hi * 2 ^ 128 + uint lo) mod uint d" by auto
qed

subsection \<open>Exact rounded division\<close>

lemma mul_div_rem_u128_cases:
  assumes "c \<noteq> 0"
  shows "mul_div_rem_u128 a b c =
    (if uint a * uint b div uint c < 2 ^ 128
     then Ok (word_of_int (uint a * uint b div uint c), word_of_int (uint a * uint b mod uint c))
     else Err Overflow)"
proof -
  obtain hi lo where mw: "mul_wide a b = (hi, lo)" by fastforce
  have prod: "uint a * uint b = uint hi * 2 ^ 128 + uint lo"
    using mul_wide_correct [OF mw] by simp
  have c: "0 < uint c" using assms by (simp add: word_neq_0_conv word_less_def)
  have lo: "uint lo < 2 ^ 128" using uint_lt2p [of lo] by simp
  have fits: "uint a * uint b div uint c < 2 ^ 128 \<longleftrightarrow> hi < c"
  proof -
    have "uint a * uint b div uint c < 2 ^ 128 \<longleftrightarrow> uint hi * 2 ^ 128 + uint lo < 2 ^ 128 * uint c"
      unfolding prod using c by (rule int_div_less_iff)
    also have "\<dots> \<longleftrightarrow> uint hi < uint c"
      using lo uint_ge_0 [of lo] by (simp, linarith)
    finally show ?thesis by (simp add: word_less_def)
  qed
  show ?thesis
  proof (cases "hi = 0")
    case True
    then have "uint a * uint b = uint lo" using prod by simp
    moreover have "hi < c" using True assms by (simp add: word_neq_0_conv)
    ultimately show ?thesis using True assms mw fits
      by (simp add: mul_div_rem_u128_def uint_div_distrib [symmetric] uint_mod_distrib [symmetric])
  next
    case False
    show ?thesis
    proof (cases "hi < c")
      case lt: True
      obtain q m where dw: "div_wide hi lo c = (q, m)" by fastforce
      have "q = word_of_int (uint a * uint b div uint c)" "m = word_of_int (uint a * uint b mod uint c)"
        unfolding prod div_wide_correct [OF dw lt, symmetric] by simp_all
      then show ?thesis using False lt assms mw dw fits by (simp add: mul_div_rem_u128_def)
    next
      case ge: False
      then show ?thesis using False assms mw fits by (simp add: mul_div_rem_u128_def)
    qed
  qed
qed

lemma uint_of_i128: "0 \<le> x \<Longrightarrow> in_i128 x \<Longrightarrow> uint (word_of_int x :: u128) = x"
  by (simp add: uint_word_of_int in_i128_def i128_max_def)

text \<open>What \<open>mul_div\<close> means over the integers.\<close>

definition exact_mul_div :: "int \<Rightarrow> int \<Rightarrow> int \<Rightarrow> rounding \<Rightarrow> int" where
  "exact_mul_div a b c r = (case r of
      Floor \<Rightarrow> a * b div c
    | Ceil \<Rightarrow> (if a * b mod c = 0 then a * b div c else a * b div c + 1))"

lemma mul_div_exact:
  assumes "0 \<le> a" "0 \<le> b" "0 < c" "in_i128 a" "in_i128 b" "in_i128 c"
  shows "mul_div a b c r =
    (if exact_mul_div a b c r \<le> i128_max then Ok (exact_mul_div a b c r) else Err Overflow)"
proof -
  define q where "q = a * b div c"
  define m where "m = a * b mod c"
  have w: "uint (word_of_int a :: u128) = a" "uint (word_of_int b :: u128) = b" "uint (word_of_int c :: u128) = c"
    using assms by (simp_all add: uint_of_i128)
  have c0: "word_of_int c \<noteq> (0 :: u128)" using w(3) assms(3) by (metis less_irrefl unsigned_0)
  have q0: "0 \<le> q" using assms unfolding q_def by (simp add: pos_imp_zdiv_nonneg_iff)
  have m0: "0 \<le> m" "m < c" using assms unfolding m_def by simp_all
  then have um: "uint (word_of_int m :: u128) = m"
    using assms by (intro uint_of_i128) (auto simp: in_i128_def i128_min_def)
  have mgt: "(0 :: u128) < word_of_int m \<longleftrightarrow> m \<noteq> 0"
    using um m0 by (auto simp: word_less_def)
  show ?thesis
  proof (cases "q < 2 ^ 128")
    case False
    then have "exact_mul_div a b c r > i128_max"
      unfolding exact_mul_div_def q_def [symmetric] by (cases r) (auto simp: i128_max_def)
    then show ?thesis using False assms unfolding mul_div_def
      by (simp add: mul_div_rem_u128_cases [OF c0] w q_def [symmetric])
  next
    case True
    then have uq: "uint (word_of_int q :: u128) = q" using q0 by (simp add: uint_word_of_int)
    have max: "(word_of_int q :: u128) = - 1 \<longleftrightarrow> q = 2 ^ 128 - 1"
      by (simp add: word_uint_eq_iff uq unsigned_minus_1_eq_mask mask_eq_exp_minus_1)
    have q1: "uint (word_of_int q + 1 :: u128) = q + 1" if "q \<noteq> 2 ^ 128 - 1"
      using that True q0 uq by (simp add: uint_word_ariths)
    show ?thesis using True assms q0 m0 uq max q1 mgt unfolding mul_div_def exact_mul_div_def
      by (cases r; cases "m = 0")
         (auto simp: mul_div_rem_u128_cases [OF c0] w q_def [symmetric] m_def [symmetric] i128_max_def
           simp del: and_then_Err_iff and_then_Ok_iff)
  qed
qed

subsection \<open>The largest-remainder allocation\<close>

lemma weight_sum_loop_Ok:
  assumes "\<And>w. w \<in> set ws \<Longrightarrow> 0 \<le> w" and "0 \<le> acc" and "acc + sum_list ws \<le> u128_max"
  shows "weight_sum_loop acc ws = Ok (acc + sum_list ws)"
  using assms
proof (induction ws arbitrary: acc)
  case (Cons w ws)
  have "0 \<le> sum_list ws" using Cons.prems(1) by (intro sum_list_nonneg) simp
  moreover have w: "0 \<le> w" by (rule Cons.prems(1)) simp
  moreover have "weight_sum_loop (acc + w) ws = Ok (acc + w + sum_list ws)"
    by (rule Cons.IH) (use Cons.prems w in simp_all)
  ultimately show ?case using Cons.prems(2,3) by simp
qed simp

definition share_floor :: "int \<Rightarrow> int \<Rightarrow> int \<Rightarrow> int" where
  "share_floor tot W w = tot * w div W"

definition share_rem :: "int \<Rightarrow> int \<Rightarrow> int \<Rightarrow> int" where
  "share_rem tot W w = tot * w mod W"

definition positive_rems :: "int \<Rightarrow> int \<Rightarrow> nat \<Rightarrow> int list \<Rightarrow> (int \<times> nat) list" where
  "positive_rems tot W i ws =
     filter (\<lambda>(r, j). 0 < r) (zip (map (share_rem tot W) ws) [i..<i + length ws])"

lemma positive_rems_Cons:
  "positive_rems tot W i (w # ws) =
     (if 0 < share_rem tot W w then (share_rem tot W w, i) # positive_rems tot W (Suc i) ws
      else positive_rems tot W (Suc i) ws)"
  by (simp add: positive_rems_def upt_conv_Cons del: upt_Suc)

lemma mul_div_rem_share:
  assumes "0 \<le> tot" "in_i128 tot" "0 \<le> w" "in_i128 w" "w \<le> W" "0 < W" "W \<le> u128_max"
  obtains q r where "mul_div_rem_u128 (word_of_int tot) (word_of_int w) (word_of_int W) = Ok (q, r)"
    and "uint q = share_floor tot W w" and "uint r = share_rem tot W w"
proof -
  have u: "uint (word_of_int tot :: u128) = tot" "uint (word_of_int w :: u128) = w" "uint (word_of_int W :: u128) = W"
    using assms uint_of_i128 [of tot] uint_of_i128 [of w] by (simp_all add: uint_word_of_int u128_max_def)
  have W0: "word_of_int W \<noteq> (0 :: u128)" using u(3) assms(6) by (metis less_irrefl unsigned_0)
  have "tot * w \<le> tot * W" using assms by (intro mult_left_mono) auto
  then have fl: "tot * w div W \<le> tot" using assms by (metis zdiv_mono1 nonzero_mult_div_cancel_right less_irrefl)
  have fl0: "0 \<le> tot * w div W" using assms by (simp add: pos_imp_zdiv_nonneg_iff)
  have small: "tot * w div W < 2 ^ 128" using fl assms(2) by (simp add: in_i128_def i128_max_def)
  have rm: "0 \<le> tot * w mod W" "tot * w mod W < 2 ^ 128"
    using assms(6,7) pos_mod_bound [of W "tot * w"] unfolding u128_max_def by (simp, linarith)
  show ?thesis
  proof (rule that)
    show "mul_div_rem_u128 (word_of_int tot) (word_of_int w) (word_of_int W)
        = Ok (word_of_int (tot * w div W), word_of_int (tot * w mod W))"
      using small by (simp add: mul_div_rem_u128_cases [OF W0] u)
    show "uint (word_of_int (tot * w div W) :: u128) = share_floor tot W w"
      using fl0 small by (simp add: share_floor_def uint_word_of_int)
    show "uint (word_of_int (tot * w mod W) :: u128) = share_rem tot W w"
      using rm by (simp add: share_rem_def uint_word_of_int)
  qed
qed

lemma floors_loop_Ok:
  assumes "0 \<le> tot" "in_i128 tot" "0 < W" "W \<le> u128_max"
    and "\<And>w. w \<in> set ws \<Longrightarrow> 0 \<le> w \<and> in_i128 w \<and> w \<le> W"
  shows "floors_loop (word_of_int tot) (word_of_int W) i ws =
    Ok (map (share_floor tot W) ws, (\<Sum>w\<leftarrow>ws. share_floor tot W w), positive_rems tot W i ws)"
  using assms(5)
proof (induction ws arbitrary: i)
  case Nil
  show ?case by (simp add: positive_rems_def)
next
  case (Cons w ws)
  obtain q r where qr: "mul_div_rem_u128 (word_of_int tot) (word_of_int w) (word_of_int W) = Ok (q, r)"
      "uint q = share_floor tot W w" "uint r = share_rem tot W w"
    using mul_div_rem_share [of tot w W] assms(1-4) Cons.prems [of w] by auto
  have "0 < r \<longleftrightarrow> 0 < share_rem tot W w" using qr(3) by (simp add: word_less_def)
  then show ?case using qr Cons.IH [of "Suc i"] Cons.prems by (simp add: positive_rems_Cons)
qed

lemma length_bump_all [simp]: "length (bump_all is out) = length out"
  by (induction "is" out rule: bump_all.induct) auto

lemma bump_all_nth:
  assumes "distinct is" and "set is \<subseteq> {..<length out}" and "j < length out"
  shows "bump_all is out ! j = out ! j + (if j \<in> set is then 1 else 0)"
  using assms by (induction "is" out rule: bump_all.induct) (auto simp: nth_list_update)

lemma sum_list_update_int: "i < length xs \<Longrightarrow> sum_list (xs[i := x]) = sum_list xs + x - xs ! i" for x :: int
  by (induction xs arbitrary: i) (auto split: nat.splits)

lemma sum_bump_all:
  assumes "set is \<subseteq> {..<length out}"
  shows "sum_list (bump_all is out) = sum_list out + int (length is)"
  using assms by (induction "is" out rule: bump_all.induct) (auto simp: sum_list_update_int)

text \<open>The floors and the remainders of a split add up to the total.\<close>

lemma sum_share:
  assumes "0 < W" "W = sum_list ws"
  shows "W * (\<Sum>w\<leftarrow>ws. share_floor tot W w) + (\<Sum>w\<leftarrow>ws. share_rem tot W w) = tot * W"
proof -
  have e: "tot * w = W * share_floor tot W w + share_rem tot W w" for w
    by (simp add: share_floor_def share_rem_def)
  have "tot * sum_list xs = W * (\<Sum>w\<leftarrow>xs. share_floor tot W w) + (\<Sum>w\<leftarrow>xs. share_rem tot W w)" for xs
    by (induction xs) (simp_all add: e distrib_left)
  then show ?thesis using assms by metis
qed

lemma sum_share_rem_le:
  assumes "0 < W"
  shows "(\<Sum>w\<leftarrow>ws. share_rem tot W w) \<le> W * int (length (positive_rems tot W i ws))"
proof (induction ws arbitrary: i)
  case Nil
  show ?case by (simp add: positive_rems_def)
next
  case (Cons w ws)
  have "share_rem tot W w \<le> W" "0 \<le> share_rem tot W w"
    using assms by (simp_all add: share_rem_def order_less_imp_le)
  then show ?case using Cons.IH [of "Suc i"] by (auto simp: positive_rems_Cons algebra_simps)
qed

lemma set_positive_rems:
  "set (positive_rems tot W i ws) =
     {(share_rem tot W (ws ! k), i + k) | k. k < length ws \<and> 0 < share_rem tot W (ws ! k)}"
  by (force simp: positive_rems_def set_zip)

lemma distinct_positive_rems: "distinct (map snd (positive_rems tot W i ws))"
proof (induction ws arbitrary: i)
  case (Cons w ws)
  have "i \<notin> snd ` set (positive_rems tot W (Suc i) ws)" by (auto simp: set_positive_rems)
  then show ?case using Cons.IH [of "Suc i"] by (auto simp: positive_rems_Cons)
qed (simp add: positive_rems_def)

lemma set_sort_remainders [simp]: "set (sort_remainders xs) = set xs"
  and length_sort_remainders [simp]: "length (sort_remainders xs) = length xs"
  by (simp_all add: sort_remainders_def)

lemma distinct_sort_remainders: "distinct (map snd xs) \<Longrightarrow> distinct (map snd (sort_remainders xs))"
  by (metis (no_types, lifting) distinct_map distinct_sort set_sort sort_remainders_def)

text \<open>Whoever is in the first \<open>k\<close> places of the sorted list beats whoever is not.\<close>

lemma take_sort_remainders_best:
  assumes "x \<in> set (take k (sort_remainders xs))" and "y \<in> set (drop k (sort_remainders xs))"
  shows "fst y < fst x \<or> fst y = fst x \<and> snd x \<le> snd y"
proof -
  define key where "key = (\<lambda>(r, i). (- r, i) :: int \<times> nat)"
  have "sorted (map key (sort_remainders xs))"
    unfolding sort_remainders_def key_def by (rule sorted_sort_key)
  then have "sorted (map key (take k (sort_remainders xs)) @ map key (drop k (sort_remainders xs)))"
    by (simp flip: map_append)
  then have "key x \<le> key y" using assms by (auto simp: sorted_append)
  then show ?thesis by (auto simp: key_def less_eq_prod_def split: prod.splits)
qed
definition bumped :: "int \<Rightarrow> int list \<Rightarrow> nat list" where
  "bumped tot ws = (let W = sum_list ws in
     map snd (take (nat (tot - (\<Sum>w\<leftarrow>ws. share_floor tot W w))) (sort_remainders (positive_rems tot W 0 ws))))"

text \<open>The contract of \<open>allocate\<close>, as its documentation states it.\<close>

definition fair_allocation :: "int \<Rightarrow> int list \<Rightarrow> int list \<Rightarrow> bool" where
  "fair_allocation tot ws out \<longleftrightarrow> (let W = sum_list ws in
     length out = length ws \<and> sum_list out = tot \<and>
     (\<forall>i < length ws. out ! i = share_floor tot W (ws ! i) \<or> out ! i = share_floor tot W (ws ! i) + 1) \<and>
     (\<forall>i < length ws. ws ! i = 0 \<longrightarrow> out ! i = 0) \<and>
     (\<forall>i < length ws. \<forall>j < length ws.
        out ! i = share_floor tot W (ws ! i) + 1 \<longrightarrow> out ! j = share_floor tot W (ws ! j) \<longrightarrow>
        share_rem tot W (ws ! j) < share_rem tot W (ws ! i) \<or>
        share_rem tot W (ws ! j) = share_rem tot W (ws ! i) \<and> i < j))"

lemma allocate_pos:
  assumes "0 < tot" "in_i128 tot" and ws: "\<And>w. w \<in> set ws \<Longrightarrow> 0 \<le> w \<and> in_i128 w"
    and W: "sum_list ws \<le> u128_max" "0 < sum_list ws"
  shows "allocate tot ws = Ok (bump_all (bumped tot ws) (map (share_floor tot (sum_list ws)) ws))"
proof -
  have "w \<le> sum_list ws" if "w \<in> set ws" for w
    using that ws by (auto intro: member_le_sum_list)
  then have "floors_loop (word_of_int tot) (word_of_int (sum_list ws)) 0 ws =
      Ok (map (share_floor tot (sum_list ws)) ws, (\<Sum>w\<leftarrow>ws. share_floor tot (sum_list ws) w),
          positive_rems tot (sum_list ws) 0 ws)"
    using assms by (intro floors_loop_Ok) auto
  moreover have "weight_sum_loop 0 ws = Ok (sum_list ws)"
    using weight_sum_loop_Ok [of ws 0] ws W(1) by simp
  ultimately show ?thesis using assms by (simp add: allocate_def bumped_def Let_def)
qed

lemma leftover_bounds:
  assumes "0 < sum_list ws"
  defines "W \<equiv> sum_list ws"
  shows "0 \<le> tot - (\<Sum>w\<leftarrow>ws. share_floor tot W w)"
    and "tot - (\<Sum>w\<leftarrow>ws. share_floor tot W w) \<le> int (length (positive_rems tot W 0 ws))"
proof -
  have W: "0 < W" using assms by simp
  have eq: "W * (tot - (\<Sum>w\<leftarrow>ws. share_floor tot W w)) = (\<Sum>w\<leftarrow>ws. share_rem tot W w)"
    using sum_share [OF W W_def [unfolded atomize_eq], of tot] by (simp add: algebra_simps)
  have "0 \<le> (\<Sum>w\<leftarrow>ws. share_rem tot W w)"
    using W by (intro sum_list_nonneg) (auto simp: share_rem_def)
  then show "0 \<le> tot - (\<Sum>w\<leftarrow>ws. share_floor tot W w)"
    unfolding eq [symmetric] using W by (simp add: zero_le_mult_iff)
  have "W * (tot - (\<Sum>w\<leftarrow>ws. share_floor tot W w)) \<le> W * int (length (positive_rems tot W 0 ws))"
    unfolding eq by (rule sum_share_rem_le) (rule W)
  then show "tot - (\<Sum>w\<leftarrow>ws. share_floor tot W w) \<le> int (length (positive_rems tot W 0 ws))"
    using W by simp
qed

lemma set_bumped: "set (bumped tot ws) \<subseteq> {k. k < length ws \<and> 0 < share_rem tot (sum_list ws) (ws ! k)}"
  by (auto simp: bumped_def Let_def set_positive_rems dest!: in_set_takeD)

lemma distinct_bumped: "distinct (bumped tot ws)"
  unfolding bumped_def Let_def take_map [symmetric]
  by (intro distinct_take distinct_sort_remainders distinct_positive_rems)

lemma length_bumped:
  assumes "0 < sum_list ws"
  shows "int (length (bumped tot ws)) = tot - (\<Sum>w\<leftarrow>ws. share_floor tot (sum_list ws) w)"
  using leftover_bounds [OF assms, of tot] by (simp add: bumped_def Let_def min_def) linarith

lemma bumped_largest:
  assumes "i \<in> set (bumped tot ws)" and "j < length ws" and "j \<notin> set (bumped tot ws)"
  defines "W \<equiv> sum_list ws"
  shows "share_rem tot W (ws ! j) < share_rem tot W (ws ! i) \<or>
    share_rem tot W (ws ! j) = share_rem tot W (ws ! i) \<and> i < j"
proof -
  define k where "k = nat (tot - (\<Sum>w\<leftarrow>ws. share_floor tot W w))"
  define srt where "srt = sort_remainders (positive_rems tot W 0 ws)"
  have b: "bumped tot ws = map snd (take k srt)" by (simp add: bumped_def Let_def k_def srt_def W_def)
  obtain x where x: "x \<in> set (take k srt)" "i = snd x" using assms(1) by (auto simp: b)
  then have "x \<in> set (positive_rems tot W 0 ws)" by (auto simp: srt_def dest: in_set_takeD)
  then have xi: "fst x = share_rem tot W (ws ! i)" "0 < share_rem tot W (ws ! i)"
    using x(2) by (auto simp: set_positive_rems)
  show ?thesis
  proof (cases "0 < share_rem tot W (ws ! j)")
    case True
    define y where "y = (share_rem tot W (ws ! j), j)"
    have "y \<in> set srt" using True assms(2) by (auto simp: srt_def set_positive_rems y_def)
    moreover have "y \<notin> set (take k srt)" using assms(3) by (force simp: b y_def)
    ultimately have "y \<in> set (drop k srt)" by (metis Un_iff append_take_drop_id set_append)
    then have "fst y < fst x \<or> fst y = fst x \<and> snd x \<le> snd y"
      using x(1) unfolding srt_def by (intro take_sort_remainders_best)
    moreover have "i \<noteq> j" using assms(1,3) by auto
    ultimately show ?thesis using xi x(2) by (auto simp: y_def)
  next
    case False
    then show ?thesis using xi(2) by linarith
  qed
qed

lemma fair_allocation_zero: "fair_allocation 0 ws (replicate (length ws) 0)"
  by (auto simp: fair_allocation_def Let_def share_floor_def sum_list_replicate)

text \<open>The interface the split helpers use: a rounded \<open>a * b / c\<close> that is exact where it fits.\<close>

locale exact_division =
  fixes md :: "int \<Rightarrow> int \<Rightarrow> int \<Rightarrow> rounding \<Rightarrow> ('e, int) outcome"
  assumes md_exact: "0 \<le> a \<Longrightarrow> 0 \<le> b \<Longrightarrow> 0 < c \<Longrightarrow> in_i128 a \<Longrightarrow> in_i128 b \<Longrightarrow> in_i128 c \<Longrightarrow>
    exact_mul_div a b c r \<le> i128_max \<Longrightarrow> md a b c r = Ok (exact_mul_div a b c r)"
begin

lemma share_of_whole:
  assumes "0 \<le> a" "0 \<le> b" "b \<le> c" "0 < c" "in_i128 a" "in_i128 c"
  shows "md a b c r = Ok (exact_mul_div a b c r)" and "0 \<le> exact_mul_div a b c r" and "exact_mul_div a b c r \<le> a"
proof -
  have q0: "0 \<le> a * b div c" using assms by (simp add: pos_imp_zdiv_nonneg_iff)
  have ab: "a * b \<le> a * c" using assms by (intro mult_left_mono) auto
  have x: "a * b = a * b div c * c + a * b mod c" by simp
  have m: "0 \<le> a * b mod c" using assms by simp
  have le: "exact_mul_div a b c r \<le> a"
  proof (cases "r = Ceil \<and> a * b mod c \<noteq> 0")
    case True
    then have "a * b div c * c < a * c" using x m ab by linarith
    then have "a * b div c < a" using assms by simp
    with True show ?thesis by (simp add: exact_mul_div_def)
  next
    case False
    have "a * b div c * c \<le> a * c" using x m ab by linarith
    then have "a * b div c \<le> a" using assms by simp
    with False show ?thesis by (auto simp: exact_mul_div_def split: rounding.splits)
  qed
  show "exact_mul_div a b c r \<le> a" by (rule le)
  show "0 \<le> exact_mul_div a b c r" using q0 by (auto simp: exact_mul_div_def split: rounding.splits)
  have "in_i128 b" using assms by (auto intro: in_i128_between [of 0 c])
  then show "md a b c r = Ok (exact_mul_div a b c r)"
    using assms le by (intro md_exact) (auto simp: in_i128_def)
qed

text \<open>A floored cut and the ceiling of the complementary cut partition the amount.\<close>

lemma complementary_cuts:
  assumes "0 \<le> a" "0 \<le> b" "b \<le> c" "0 < c" "in_i128 a" "in_i128 c"
    and "md a b c Floor = Ok x" and "md a (c - b) c Ceil = Ok y"
  shows "x + y = a"
proof -
  have x: "x = a * b div c" using share_of_whole(1) [of a b c Floor] assms by (simp add: exact_mul_div_def)
  have y: "y = exact_mul_div a (c - b) c Ceil" using share_of_whole(1) [of a "c - b" c Ceil] assms by simp
  have e: "a * (c - b) = (a - a * b div c - 1) * c + (c - a * b mod c)"
    using div_mult_mod_eq [of "a * b" c] by (simp add: algebra_simps)
  show ?thesis
  proof (cases "a * b mod c = 0")
    case True
    then have "a * (c - b) = (a - a * b div c) * c" using e by (simp add: algebra_simps)
    then show ?thesis using assms(4) True by (simp add: x y exact_mul_div_def)
  next
    case False
    have m: "0 < c - a * b mod c" "c - a * b mod c < c"
      using assms(4) False pos_mod_bound [of c "a * b"] pos_mod_sign [of c "a * b"] by linarith+
    have e': "a * (c - b) = c * (a - a * b div c - 1) + (c - a * b mod c)"
      using e by (simp only: mult.commute)
    have "a * (c - b) div c = a - a * b div c - 1" "a * (c - b) mod c = c - a * b mod c"
      using m by (auto intro!: int_div_pos_eq [OF e'] int_mod_pos_eq [OF e'])
    then show ?thesis using m by (simp add: x y exact_mul_div_def)
  qed
qed

end

interpretation md: exact_division mul_div
  by unfold_locales (simp add: mul_div_exact)

section \<open>Properties\<close>

text \<open>
  C3. \<open>mul_div_rem_u128\<close> is exact 256-bit arithmetic: for every three \<open>u128\<close> values the
  limb multiplication and the bit-by-bit long division return the integer quotient and
  remainder of \<open>a * b / c\<close>; the only failures are a zero divisor and a quotient that does
  not fit in 128 bits.
\<close>

theorem mul_div_rem_u128_spec:
  "mul_div_rem_u128 a b c =
    (if c = 0 then Err DivisionByZero
     else if uint a * uint b div uint c < 2 ^ 128
     then Ok (word_of_int (uint a * uint b div uint c), word_of_int (uint a * uint b mod uint c))
     else Err Overflow)"
  using mul_div_rem_u128_cases [of c a b] by (simp add: mul_div_rem_u128_def)

text \<open>
  \<open>mul_div\<close> over all \<open>i128\<close> inputs: negative arguments and a zero divisor are the named
  errors, and otherwise the result is the floor or the ceiling of the exact quotient, with
  \<open>Overflow\<close> returned exactly when that value exceeds \<open>i128::MAX\<close>.
\<close>

theorem mul_div_spec:
  assumes "in_i128 a" and "in_i128 b" and "in_i128 c"
  shows "mul_div a b c r =
    (if a < 0 \<or> b < 0 \<or> c < 0 then Err Negative
     else if c = 0 then Err DivisionByZero
     else if exact_mul_div a b c r \<le> i128_max then Ok (exact_mul_div a b c r)
     else Err Overflow)"
proof (cases "a < 0 \<or> b < 0 \<or> c \<le> 0")
  case True
  then show ?thesis by (auto simp: mul_div_def)
next
  case False
  then show ?thesis using mul_div_exact [of a b c r] assms by auto
qed

theorem mul_div_spec_witness: "mul_div (10 ^ 30) (10 ^ 30) (10 ^ 25 + 1) Ceil = Ok 99999999999999999999999990000000001"
  using mul_div_spec [of "10 ^ 30" "10 ^ 30" "10 ^ 25 + 1" Ceil]
  by (simp add: exact_mul_div_def int_width_defs)

text \<open>
  C4. \<open>allocate\<close> never creates or loses a unit: on valid input it succeeds, its shares add up
  to the total, every share is the exact pro-rata floor or one more, a zero weight gets
  nothing, and the extra units go to the largest remainders with ties to the lowest index.
\<close>

theorem allocate_is_fair:
  assumes "0 \<le> tot" and "in_i128 tot" and "\<And>w. w \<in> set ws \<Longrightarrow> 0 \<le> w \<and> in_i128 w"
    and "sum_list ws \<le> u128_max" and "0 < sum_list ws"
  shows "\<exists>out. allocate tot ws = Ok out \<and> fair_allocation tot ws out"
proof (cases "tot = 0")
  case True
  have "weight_sum_loop 0 ws = Ok (sum_list ws)" using weight_sum_loop_Ok [of ws 0] assms by simp
  then show ?thesis using True fair_allocation_zero by (simp add: allocate_def)
next
  case False
  define floors where "floors = map (share_floor tot (sum_list ws)) ws"
  define out where "out = bump_all (bumped tot ws) floors"
  have alloc: "allocate tot ws = Ok out"
    unfolding out_def floors_def using False assms by (intro allocate_pos) auto
  have sub: "set (bumped tot ws) \<subseteq> {..<length floors}" using set_bumped [of tot ws] by (auto simp: floors_def)
  have nth: "out ! i = share_floor tot (sum_list ws) (ws ! i) + (if i \<in> set (bumped tot ws) then 1 else 0)"
    if "i < length ws" for i
    unfolding out_def using bump_all_nth [OF distinct_bumped sub, of i] that by (simp add: floors_def)
  have "sum_list out = tot"
    unfolding out_def using sum_bump_all [OF sub] length_bumped [OF assms(5), of tot] by (simp add: floors_def)
  moreover have "out ! i = 0" if "i < length ws" "ws ! i = 0" for i
    using that nth [of i] set_bumped [of tot ws] by (auto simp: share_floor_def share_rem_def)
  ultimately have "fair_allocation tot ws out"
    using nth bumped_largest unfolding fair_allocation_def Let_def
    by (auto simp: out_def floors_def split: if_splits)
  with alloc show ?thesis by blast
qed

theorem allocate_is_fair_witness:
  "\<exists>out. allocate 100 [1, 1, 1, 0] = Ok out \<and> fair_allocation 100 [1, 1, 1, 0] out"
  by (rule allocate_is_fair) (auto simp: int_width_defs)

text \<open>
  A basis-point split succeeds on every non-negative amount and every share from 0 to
  100 percent, floors the cut, and gives the rest to the other side: nothing is lost.
\<close>

theorem split_bps_conserves:
  assumes "0 \<le> amount" and "in_i128 amount" and "0 \<le> bps" and "bps \<le> BPS_DENOM"
  shows "\<exists>s. split_bps amount bps = Ok s \<and> split_cut s + split_rest s = amount \<and>
    split_cut s = amount * bps div BPS_DENOM \<and> 0 \<le> split_cut s \<and> 0 \<le> split_rest s"
proof -
  have d: "0 < BPS_DENOM" "in_i128 BPS_DENOM" by (simp_all add: BPS_DENOM_def int_width_defs)
  note w = md.share_of_whole [OF assms(1,3,4) d(1) assms(2) d(2), of Floor]
  have "in_i128 (amount - exact_mul_div amount bps BPS_DENOM Floor)"
    using w assms by (auto intro: in_i128_between [of 0 amount])
  then show ?thesis using w assms d
    by (auto simp: split_bps_def split_ratio_def mul_div_floor_def exact_mul_div_def i128_sub_def i128_checked_def)
qed

theorem split_bps_conserves_witness:
  "\<exists>s. split_bps 999 3333 = Ok s \<and> split_cut s + split_rest s = 999 \<and>
    split_cut s = 999 * 3333 div BPS_DENOM \<and> 0 \<le> split_cut s \<and> 0 \<le> split_rest s"
  by (rule split_bps_conserves) (simp_all add: int_width_defs BPS_DENOM_def)

text \<open>
  Whole units survive the round trip through stroops: whatever \<open>to_1e7\<close> accepts,
  \<open>from_1e7\<close> gives back, in either rounding mode.
\<close>

theorem units_roundtrip:
  assumes "in_i128 units" and "to_1e7 units = Ok s"
  shows "from_1e7 s r = Ok units"
proof -
  have s: "0 \<le> units" "s = units * SCALE_1E7" "in_i128 s"
    using assms by (auto simp: to_1e7_def split: if_splits)
  have "exact_mul_div s 1 SCALE_1E7 r = units"
    using s by (auto simp: exact_mul_div_def SCALE_1E7_def split: rounding.splits)
  then show ?thesis using mul_div_exact [of s 1 SCALE_1E7 r] s assms(1)
    by (auto simp: from_1e7_def SCALE_1E7_def int_width_defs)
qed

theorem units_roundtrip_witness: "from_1e7 2500000000 Ceil = Ok 250"
  using units_roundtrip [of 250 2500000000 Ceil]
  by (simp add: to_1e7_def SCALE_1E7_def int_width_defs i128_opt_def)

end
