(* ===== verification/Policy_Registry.thy ===== *)
theory Policy_Registry
  imports Soroban
begin

text \<open>
  \<open>policy/src/lib.rs\<close>, the \<open>RefractPolicyRegistry\<close> contract: the queryable index of policies per
  holder that the pool mirrors its policies into.  One record field per storage key
  (\<open>None\<close> = key absent), one definition per entry point, and the dispatcher
  \<open>registry_exec\<close> over all of them.
\<close>

section \<open>State\<close>

datatype registry_coverage_type =
  RegStablecoinDepeg | RegMarketCrash | RegLiquidationShield | RegSmartContractRisk | RegFlightDelay

datatype registry_error =
  RegAlreadyInitialized | RegNotInitialized | RegUnauthorized | RegPolicyNotFound
| RegPolicyAlreadyExists | RegNoPendingPoolContract | RegPoolContractChangeNotReady | RegNoPendingAdmin

record policy_registration =
  reg_policy_id :: nat
  reg_holder :: address
  reg_coverage_type :: registry_coverage_type
  reg_coverage_amount :: int
  reg_premium :: int
  reg_expires_at :: nat

record policy_record =
  rec_policy_id :: nat
  rec_holder :: address
  rec_coverage_type :: registry_coverage_type
  rec_coverage_amount :: int
  rec_premium :: int
  rec_expires_at :: nat
  rec_is_active :: bool
  rec_created_at :: nat

record pending_pool_contract =
  pp_pool_contract :: address
  pp_executable_at :: nat

record registry =
  r_admin :: "address option"
  r_pool_contract :: "address option"
  r_pending_pool :: "pending_pool_contract option"
  r_change_delay :: "nat option"
  r_policy :: "nat \<Rightarrow> policy_record option"
  r_holder_policies :: "address \<Rightarrow> nat list option"
  r_total_policies :: "nat option"
  r_total_premium :: "int option"
  r_active_policies :: "nat option"
  r_pending_admin :: "address option"
  r_contract_version :: "nat option"
  r_wasm :: "string option"

definition registry_fresh :: registry where
  "registry_fresh = \<lparr>r_admin = None, r_pool_contract = None, r_pending_pool = None,
     r_change_delay = None, r_policy = Map.empty, r_holder_policies = Map.empty,
     r_total_policies = None, r_total_premium = None, r_active_policies = None,
     r_pending_admin = None, r_contract_version = None, r_wasm = None\<rparr>"

section \<open>Entry points\<close>

definition registry_require_admin :: "env \<Rightarrow> address \<Rightarrow> registry \<Rightarrow> (registry_error, unit) outcome" where
  "registry_require_admin e caller s =
     and_then (require_auth e caller) (\<lambda>_.
     and_then (ok_or (r_admin s) RegNotInitialized) (\<lambda>admin.
     ensure (admin = caller) RegUnauthorized))"

definition registry_require_pool_or_admin :: "env \<Rightarrow> address \<Rightarrow> registry \<Rightarrow> (registry_error, unit) outcome" where
  "registry_require_pool_or_admin e caller s =
     and_then (require_auth e caller) (\<lambda>_.
     and_then (ok_or (r_admin s) RegNotInitialized) (\<lambda>admin.
     if admin = caller then Ok ()
     else and_then (ok_or (r_pool_contract s) RegNotInitialized) (\<lambda>pool.
       ensure (pool = caller) RegUnauthorized)))"

definition registry_initialize :: "env \<Rightarrow> address \<Rightarrow> address \<Rightarrow> registry \<Rightarrow> (registry_error, unit \<times> registry) outcome" where
  "registry_initialize e admin pool_contract s =
     (if r_admin s \<noteq> None then Err RegAlreadyInitialized
      else Ok ((), s\<lparr>r_admin := Some admin, r_pool_contract := Some pool_contract,
        r_total_policies := Some 0, r_total_premium := Some 0, r_active_policies := Some 0\<rparr>))"

definition registry_new_record :: "env \<Rightarrow> policy_registration \<Rightarrow> policy_record" where
  "registry_new_record e reg = \<lparr>rec_policy_id = reg_policy_id reg, rec_holder = reg_holder reg,
     rec_coverage_type = reg_coverage_type reg, rec_coverage_amount = reg_coverage_amount reg,
     rec_premium = reg_premium reg, rec_expires_at = reg_expires_at reg,
     rec_is_active = True, rec_created_at = timestamp e\<rparr>"

definition register_policy :: "env \<Rightarrow> address \<Rightarrow> policy_registration \<Rightarrow> registry \<Rightarrow> (registry_error, nat \<times> registry) outcome" where
  "register_policy e caller reg s =
     and_then (registry_require_pool_or_admin e caller s) (\<lambda>_.
     let policy_id = reg_policy_id reg; holder = reg_holder reg in
     if r_policy s policy_id \<noteq> None then Err RegPolicyAlreadyExists
     else
       let record = registry_new_record e reg;
           holder_policies = unwrap_or (r_holder_policies s holder) [] @ [policy_id] in
       and_then (u64_add (unwrap_or (r_total_policies s) 0) 1) (\<lambda>total.
       and_then (i128_add (unwrap_or (r_total_premium s) 0) (reg_premium reg)) (\<lambda>total_premium.
       and_then (u64_add (unwrap_or (r_active_policies s) 0) 1) (\<lambda>active.
         Ok (policy_id, s\<lparr>r_policy := (r_policy s)(policy_id \<mapsto> record),
           r_holder_policies := (r_holder_policies s)(holder \<mapsto> holder_policies),
           r_total_policies := Some total, r_total_premium := Some total_premium,
           r_active_policies := Some active\<rparr>)))))"

definition deactivate_policy :: "env \<Rightarrow> address \<Rightarrow> nat \<Rightarrow> registry \<Rightarrow> (registry_error, unit \<times> registry) outcome" where
  "deactivate_policy e caller policy_id s =
     and_then (registry_require_pool_or_admin e caller s) (\<lambda>_.
     and_then (ok_or (r_policy s policy_id) RegPolicyNotFound) (\<lambda>record.
     if \<not> rec_is_active record then Ok ((), s)
     else Ok ((), s\<lparr>r_policy := (r_policy s)(policy_id \<mapsto> record\<lparr>rec_is_active := False\<rparr>),
            r_active_policies := Some (unwrap_or (r_active_policies s) 0 - 1)\<rparr>)))"

definition set_pool_contract_change_delay :: "env \<Rightarrow> address \<Rightarrow> nat \<Rightarrow> registry \<Rightarrow> (registry_error, unit \<times> registry) outcome" where
  "set_pool_contract_change_delay e caller delay s =
     and_then (registry_require_admin e caller s) (\<lambda>_. Ok ((), s\<lparr>r_change_delay := Some delay\<rparr>))"

definition propose_pool_contract :: "env \<Rightarrow> address \<Rightarrow> address \<Rightarrow> registry \<Rightarrow> (registry_error, unit \<times> registry) outcome" where
  "propose_pool_contract e caller pool_contract s =
     and_then (registry_require_admin e caller s) (\<lambda>_.
     and_then (u64_add (timestamp e) (unwrap_or (r_change_delay s) 0)) (\<lambda>executable_at.
     Ok ((), s\<lparr>r_pending_pool :=
       Some \<lparr>pp_pool_contract = pool_contract, pp_executable_at = executable_at\<rparr>\<rparr>)))"

definition confirm_pool_contract :: "env \<Rightarrow> address \<Rightarrow> registry \<Rightarrow> (registry_error, unit \<times> registry) outcome" where
  "confirm_pool_contract e caller s =
     and_then (registry_require_admin e caller s) (\<lambda>_.
     and_then (ok_or (r_pending_pool s) RegNoPendingPoolContract) (\<lambda>pending.
     if timestamp e < pp_executable_at pending then Err RegPoolContractChangeNotReady
     else Ok ((), s\<lparr>r_pool_contract := Some (pp_pool_contract pending), r_pending_pool := None\<rparr>)))"

definition cancel_pool_contract :: "env \<Rightarrow> address \<Rightarrow> registry \<Rightarrow> (registry_error, unit \<times> registry) outcome" where
  "cancel_pool_contract e caller s =
     and_then (registry_require_admin e caller s) (\<lambda>_.
     if r_pending_pool s = None then Err RegNoPendingPoolContract
     else Ok ((), s\<lparr>r_pending_pool := None\<rparr>))"

definition registry_propose_admin :: "env \<Rightarrow> address \<Rightarrow> address \<Rightarrow> registry \<Rightarrow> (registry_error, unit \<times> registry) outcome" where
  "registry_propose_admin e caller new_admin s =
     and_then (registry_require_admin e caller s) (\<lambda>_. Ok ((), s\<lparr>r_pending_admin := Some new_admin\<rparr>))"

definition registry_accept_admin :: "env \<Rightarrow> address \<Rightarrow> registry \<Rightarrow> (registry_error, unit \<times> registry) outcome" where
  "registry_accept_admin e caller s =
     and_then (require_auth e caller) (\<lambda>_.
     and_then (ok_or (r_pending_admin s) RegNoPendingAdmin) (\<lambda>pending.
     if pending \<noteq> caller then Err RegUnauthorized
     else Ok ((), s\<lparr>r_admin := Some caller, r_pending_admin := None\<rparr>)))"

definition registry_upgrade :: "env \<Rightarrow> address \<Rightarrow> string \<Rightarrow> registry \<Rightarrow> (registry_error, unit \<times> registry) outcome" where
  "registry_upgrade e caller new_wasm_hash s =
     and_then (registry_require_admin e caller s) (\<lambda>_.
     and_then (u32_add (unwrap_or (r_contract_version s) 0) 1) (\<lambda>version.
     Ok ((), s\<lparr>r_wasm := Some new_wasm_hash, r_contract_version := Some version\<rparr>)))"

subsection \<open>Queries\<close>

definition registry_get_policy :: "registry \<Rightarrow> nat \<Rightarrow> (registry_error, policy_record) outcome" where
  "registry_get_policy s policy_id = ok_or (r_policy s policy_id) RegPolicyNotFound"

definition get_holder_policy_ids :: "registry \<Rightarrow> address \<Rightarrow> nat list" where
  "get_holder_policy_ids s holder = unwrap_or (r_holder_policies s holder) []"

fun active_ids_loop :: "registry \<Rightarrow> nat list \<Rightarrow> nat list" where
  "active_ids_loop s [] = []"
| "active_ids_loop s (i # ids) =
     (case r_policy s i of
        Some record \<Rightarrow> if rec_is_active record then i # active_ids_loop s ids else active_ids_loop s ids
      | None \<Rightarrow> active_ids_loop s ids)"

definition get_holder_active_policy_ids :: "registry \<Rightarrow> address \<Rightarrow> nat list" where
  "get_holder_active_policy_ids s holder = active_ids_loop s (unwrap_or (r_holder_policies s holder) [])"

definition registry_get_stats :: "registry \<Rightarrow> symbol \<Rightarrow> int option" where
  "registry_get_stats s = [''total_policies'' \<mapsto> int (unwrap_or (r_total_policies s) 0),
     ''total_premium'' \<mapsto> unwrap_or (r_total_premium s) 0,
     ''active_policies'' \<mapsto> int (unwrap_or (r_active_policies s) 0)]"

definition registry_admin :: "registry \<Rightarrow> address option" where
  "registry_admin s = r_admin s"

definition registry_pool_contract :: "registry \<Rightarrow> address option" where
  "registry_pool_contract s = r_pool_contract s"

definition get_pending_pool_contract :: "registry \<Rightarrow> pending_pool_contract option" where
  "get_pending_pool_contract s = r_pending_pool s"

subsection \<open>All entry points\<close>

datatype registry_call =
  RegInitialize address address
| RegRegister address policy_registration
| RegDeactivate address nat
| RegSetDelay address nat
| RegProposePool address address
| RegConfirmPool address
| RegCancelPool address
| RegProposeAdmin address address
| RegAcceptAdmin address
| RegUpgrade address string

fun registry_exec :: "env \<Rightarrow> registry_call \<Rightarrow> registry \<Rightarrow> (registry_error, unit \<times> registry) outcome" where
  "registry_exec e (RegInitialize a p) s = registry_initialize e a p s"
| "registry_exec e (RegRegister c reg) s = discard (register_policy e c reg s)"
| "registry_exec e (RegDeactivate c i) s = deactivate_policy e c i s"
| "registry_exec e (RegSetDelay c d) s = set_pool_contract_change_delay e c d s"
| "registry_exec e (RegProposePool c p) s = propose_pool_contract e c p s"
| "registry_exec e (RegConfirmPool c) s = confirm_pool_contract e c s"
| "registry_exec e (RegCancelPool c) s = cancel_pool_contract e c s"
| "registry_exec e (RegProposeAdmin c a) s = registry_propose_admin e c a s"
| "registry_exec e (RegAcceptAdmin c) s = registry_accept_admin e c s"
| "registry_exec e (RegUpgrade c h) s = registry_upgrade e c h s"

section \<open>Lemmas\<close>

lemmas registry_admin_ops = set_pool_contract_change_delay_def propose_pool_contract_def
  confirm_pool_contract_def cancel_pool_contract_def registry_propose_admin_def
  registry_accept_admin_def registry_upgrade_def

lemma registry_require_admin_iff [simp]:
  "registry_require_admin e caller s = Ok u \<longleftrightarrow> auth e caller \<and> r_admin s = Some caller"
  by (auto simp: registry_require_admin_def)

lemma registry_require_pool_or_admin_iff [simp]:
  "registry_require_pool_or_admin e caller s = Ok u \<longleftrightarrow>
     auth e caller \<and> (r_admin s = Some caller \<or>
       (\<exists>a. r_admin s = Some a \<and> r_pool_contract s = Some caller))"
  by (auto simp: registry_require_pool_or_admin_def split: if_splits)

lemma register_policy_OkD:
  assumes "register_policy e caller reg s = Ok (i, s')"
  shows "i = reg_policy_id reg" and "r_policy s i = None"
    and "r_policy s' = (r_policy s)(i \<mapsto> registry_new_record e reg)"
    and "r_holder_policies s' = (r_holder_policies s)(reg_holder reg \<mapsto> get_holder_policy_ids s (reg_holder reg) @ [i])"
    and "r_total_policies s' = Some (unwrap_or (r_total_policies s) 0 + 1)"
    and "r_total_premium s' = Some (unwrap_or (r_total_premium s) 0 + reg_premium reg)"
    and "r_active_policies s' = Some (unwrap_or (r_active_policies s) 0 + 1)"
    and "r_admin s' = r_admin s" and "r_pool_contract s' = r_pool_contract s"
    and "registry_require_pool_or_admin e caller s = Ok ()"
  using assms by (auto simp: register_policy_def Let_def get_holder_policy_ids_def split: if_splits)

lemma deactivate_policy_OkD:
  assumes "deactivate_policy e caller i s = Ok (u, s')"
  obtains rc where "r_policy s i = Some rc" and "\<not> rec_is_active rc" and "s' = s"
  | rc where "r_policy s i = Some rc" and "rec_is_active rc"
      and "s' = s\<lparr>r_policy := (r_policy s)(i \<mapsto> rc\<lparr>rec_is_active := False\<rparr>),
            r_active_policies := Some (unwrap_or (r_active_policies s) 0 - 1)\<rparr>"
proof -
  obtain rc where rc: "r_policy s i = Some rc" using assms by (auto simp: deactivate_policy_def)
  show ?thesis
    by (cases "rec_is_active rc")
       (use rc assms in \<open>auto simp: deactivate_policy_def intro: that(1) [OF rc] that(2) [OF rc]\<close>)
qed

subsection \<open>The index invariant\<close>

definition active_ids :: "registry \<Rightarrow> nat set" where
  "active_ids s = {i. \<exists>rc. r_policy s i = Some rc \<and> rec_is_active rc}"

definition registered_premium :: "registry \<Rightarrow> nat \<Rightarrow> int" where
  "registered_premium s i = (case r_policy s i of Some rc \<Rightarrow> rec_premium rc | None \<Rightarrow> 0)"

definition registry_inv :: "registry \<Rightarrow> bool" where
  "registry_inv s \<longleftrightarrow>
     finite (dom (r_policy s)) \<and>
     (r_admin s = None \<longrightarrow> r_policy s = Map.empty \<and> r_holder_policies s = Map.empty) \<and>
     unwrap_or (r_total_policies s) 0 = card (dom (r_policy s)) \<and>
     unwrap_or (r_active_policies s) 0 = card (active_ids s) \<and>
     unwrap_or (r_total_premium s) 0 = (\<Sum>i\<in>dom (r_policy s). registered_premium s i) \<and>
     (\<forall>i rc. r_policy s i = Some rc \<longrightarrow> rec_policy_id rc = i) \<and>
     (\<forall>h. distinct (get_holder_policy_ids s h)) \<and>
     (\<forall>h i. i \<in> set (get_holder_policy_ids s h) \<longleftrightarrow> (\<exists>rc. r_policy s i = Some rc \<and> rec_holder rc = h))"

lemma active_ids_subset: "active_ids s \<subseteq> dom (r_policy s)"
  by (auto simp: active_ids_def)

lemma registry_inv_fresh: "registry_inv registry_fresh"
  by (simp add: registry_inv_def registry_fresh_def active_ids_def get_holder_policy_ids_def)

lemma registry_inv_cong:
  assumes "registry_inv s" and "r_policy s' = r_policy s" and "r_holder_policies s' = r_holder_policies s"
    and "r_total_policies s' = r_total_policies s" and "r_active_policies s' = r_active_policies s"
    and "r_total_premium s' = r_total_premium s" and "r_admin s = None \<or> r_admin s' \<noteq> None"
  shows "registry_inv s'"
  using assms by (auto simp: registry_inv_def active_ids_def registered_premium_def get_holder_policy_ids_def)

lemma register_policy_inv:
  assumes inv: "registry_inv s" and ok: "register_policy e caller reg s = Ok (i, s')"
  shows "registry_inv s'"
proof -
  note d = register_policy_OkD [OF ok]
  let ?rc = "registry_new_record e reg"
  have rc: "rec_is_active ?rc" "rec_holder ?rc = reg_holder reg" "rec_premium ?rc = reg_premium reg"
      "rec_policy_id ?rc = i"
    using d(1) by (simp_all add: registry_new_record_def)
  have fin: "finite (dom (r_policy s))" using inv by (simp add: registry_inv_def)
  have notin: "i \<notin> dom (r_policy s)" using d(2) by auto
  have dom': "dom (r_policy s') = insert i (dom (r_policy s))" using d(3) by simp
  have "active_ids s' = insert i (active_ids s)"
    using rc(1) d(2,3) by (auto simp: active_ids_def)
  moreover have "i \<notin> active_ids s" using d(2) by (auto simp: active_ids_def)
  moreover have "finite (active_ids s)" using active_ids_subset fin by (rule finite_subset)
  ultimately have act: "card (active_ids s') = card (active_ids s) + 1" by simp
  have prem: "(\<Sum>j\<in>dom (r_policy s'). registered_premium s' j)
      = (\<Sum>j\<in>dom (r_policy s). registered_premium s j) + reg_premium reg"
  proof -
    have "(\<Sum>j\<in>dom (r_policy s). registered_premium s' j) = (\<Sum>j\<in>dom (r_policy s). registered_premium s j)"
      using notin d(3) by (intro sum.cong) (auto simp: registered_premium_def)
    moreover have "registered_premium s' i = reg_premium reg"
      using d(3) rc(3) by (simp add: registered_premium_def)
    ultimately show ?thesis using fin notin by (simp add: dom')
  qed
  have ids: "get_holder_policy_ids s' h =
      (if h = reg_holder reg then get_holder_policy_ids s h @ [i] else get_holder_policy_ids s h)" for h
    using d(4) by (simp add: get_holder_policy_ids_def)
  have "i \<notin> set (get_holder_policy_ids s h)" for h
    using inv d(2) by (auto simp: registry_inv_def)
  then show ?thesis
    using inv d rc act prem fin notin unfolding registry_inv_def dom' ids by auto
qed

lemma deactivate_policy_inv:
  assumes inv: "registry_inv s" and ok: "deactivate_policy e caller i s = Ok (u, s')"
  shows "registry_inv s'"
  using ok
proof (cases rule: deactivate_policy_OkD)
  case (1 rc)
  then show ?thesis using inv by simp
next
  case (2 rc)
  let ?off = "rc\<lparr>rec_is_active := False\<rparr>"
  have pol: "r_policy s' = (r_policy s)(i \<mapsto> ?off)" using 2 by simp
  have dom': "dom (r_policy s') = dom (r_policy s)" using 2 by auto
  have "active_ids s' = active_ids s - {i}" using 2 by (auto simp: active_ids_def)
  moreover have "i \<in> active_ids s" using 2 by (simp add: active_ids_def)
  ultimately have act: "card (active_ids s') = card (active_ids s) - 1" by simp
  have prem: "registered_premium s' = registered_premium s"
    using 2 by (auto simp: registered_premium_def fun_eq_iff)
  have holder: "(\<exists>x. r_policy s' j = Some x \<and> rec_holder x = h) \<longleftrightarrow>
      (\<exists>x. r_policy s j = Some x \<and> rec_holder x = h)" for j h
    using 2 by auto
  have pid: "rec_policy_id x = j" if "r_policy s' j = Some x" for j x
    using that inv 2(1) unfolding pol by (auto simp: registry_inv_def split: if_splits)
  have frame: "r_admin s' = r_admin s" "r_total_policies s' = r_total_policies s"
      "r_total_premium s' = r_total_premium s" "get_holder_policy_ids s' = get_holder_policy_ids s"
      "r_active_policies s' = Some (unwrap_or (r_active_policies s) 0 - 1)"
    using 2 by (simp_all add: get_holder_policy_ids_def fun_eq_iff)
  have "r_admin s \<noteq> None" using inv 2(1) by (auto simp: registry_inv_def)
  then obtain a where "r_admin s = Some a" by auto
  then show ?thesis using inv act pid
    unfolding registry_inv_def dom' prem frame holder by simp
qed

lemma registry_exec_inv:
  assumes "registry_inv s" and "registry_exec e c s = Ok (u, s')"
  shows "registry_inv s'"
  using assms
proof (cases c)
  case (RegInitialize a p)
  then show ?thesis using assms
    by (auto simp: registry_initialize_def registry_inv_def active_ids_def get_holder_policy_ids_def split: if_splits)
next
  case (RegRegister a reg)
  then show ?thesis using assms by (auto intro: register_policy_inv)
next
  case (RegDeactivate a i)
  then show ?thesis using assms by (auto intro: deactivate_policy_inv)
qed (auto simp: registry_admin_ops split: if_splits intro: registry_inv_cong)

interpretation reg: contract_invariant registry_exec registry_inv
  by unfold_locales (rule registry_exec_inv)

lemma active_ids_loop_filter:
  "active_ids_loop s ids = filter (\<lambda>i. i \<in> active_ids s) ids"
  by (induction s ids rule: active_ids_loop.induct) (auto simp: active_ids_def split: option.splits)

subsection \<open>What the pool relies on\<close>

text \<open>
  The index interface the pool is a client of: an id is registered at most once and is echoed
  back, and deactivation only ever turns the flag of an existing record off.
\<close>

locale policy_index =
  fixes register :: "env \<Rightarrow> address \<Rightarrow> policy_registration \<Rightarrow> 's \<Rightarrow> ('e, nat \<times> 's) outcome"
    and deactivate :: "env \<Rightarrow> address \<Rightarrow> nat \<Rightarrow> 's \<Rightarrow> ('e, unit \<times> 's) outcome"
    and lookup :: "'s \<Rightarrow> nat \<Rightarrow> policy_record option"
  assumes register_law: "register e c reg s = Ok (i, s') \<Longrightarrow>
      i = reg_policy_id reg \<and> lookup s i = None \<and> lookup s' = (lookup s)(i \<mapsto> registry_new_record e reg)"
    and deactivate_law: "deactivate e c i s = Ok (u, s') \<Longrightarrow>
      \<exists>rc. lookup s i = Some rc \<and> lookup s' = (lookup s)(i \<mapsto> rc\<lparr>rec_is_active := False\<rparr>)"
begin

lemma no_double_register:
  assumes "register e c reg s = Ok (i, s')" and "register e' c' reg' s' = Ok (j, s'')"
  shows "i \<noteq> j"
  using register_law [OF assms(1)] register_law [OF assms(2)] by auto

lemma register_then_deactivate:
  assumes "register e c reg s = Ok (i, s')" and "deactivate e' c' i s' = Ok (u, s'')"
  shows "lookup s'' = (lookup s)(i \<mapsto> (registry_new_record e reg)\<lparr>rec_is_active := False\<rparr>)"
  using register_law [OF assms(1)] deactivate_law [OF assms(2)] by auto

lemma deactivate_twice:
  assumes "deactivate e c i s = Ok (u, s')" and "deactivate e' c' i s' = Ok (u', s'')"
  shows "lookup s'' = lookup s'"
  using deactivate_law [OF assms(1)] deactivate_law [OF assms(2)] by auto

end

interpretation idx: policy_index register_policy deactivate_policy r_policy
proof unfold_locales
  fix e c reg s i s'
  assume "register_policy e c reg s = Ok (i, s')"
  then show "i = reg_policy_id reg \<and> r_policy s i = None \<and> r_policy s' = (r_policy s)(i \<mapsto> registry_new_record e reg)"
    using register_policy_OkD by blast
next
  fix e c i s u s'
  assume "deactivate_policy e c i s = Ok (u, s')"
  then show "\<exists>rc. r_policy s i = Some rc \<and> r_policy s' = (r_policy s)(i \<mapsto> rc\<lparr>rec_is_active := False\<rparr>)"
    by (cases rule: deactivate_policy_OkD) auto
qed

section \<open>Properties\<close>

text \<open>
  In every state the registry can reach, its counters are exact: the total is the number
  of records, the active count the number of records still flagged active, the premium volume
  the sum of the recorded premiums, and a holder's id list is duplicate-free and lists exactly
  the records of that holder.
\<close>

theorem registry_index_exact: "registry_inv (run_txs registry_exec txs registry_fresh)"
  by (rule reg.run_keeps) (rule registry_inv_fresh)

text \<open>
  \<open>get_holder_active_policy_ids\<close> answers its question: after any run of the contract it lists,
  without duplicates, exactly the ids of the holder's records that are active.
\<close>

theorem holder_active_ids_exact:
  "distinct (get_holder_active_policy_ids (run_txs registry_exec txs registry_fresh) h) \<and>
   set (get_holder_active_policy_ids (run_txs registry_exec txs registry_fresh) h) =
     {i. \<exists>rc. r_policy (run_txs registry_exec txs registry_fresh) i = Some rc \<and>
          rec_holder rc = h \<and> rec_is_active rc}"
proof
  let ?s = "run_txs registry_exec txs registry_fresh"
  define s where "s = ?s"
  have "registry_inv s" unfolding s_def by (rule reg.run_keeps) (rule registry_inv_fresh)
  then have inv: "distinct (get_holder_policy_ids s h)"
      "\<And>i. i \<in> set (get_holder_policy_ids s h) \<longleftrightarrow> (\<exists>rc. r_policy s i = Some rc \<and> rec_holder rc = h)"
    by (auto simp: registry_inv_def)
  have eq: "get_holder_active_policy_ids s h = filter (\<lambda>i. i \<in> active_ids s) (get_holder_policy_ids s h)"
    by (simp add: get_holder_active_policy_ids_def get_holder_policy_ids_def active_ids_loop_filter)
  show "distinct (get_holder_active_policy_ids ?s h)"
    unfolding s_def [symmetric] eq using inv(1) by simp
  show "set (get_holder_active_policy_ids ?s h) =
      {i. \<exists>rc. r_policy ?s i = Some rc \<and> rec_holder rc = h \<and> rec_is_active rc}"
    unfolding s_def [symmetric] eq using inv(2) by (auto simp: active_ids_def)
qed

text \<open>
  Trust boundary of the index: a call that changes any policy record, holder list or counter
  after initialization was authorized by the stored admin or by the trusted pool contract.
\<close>

theorem registry_writes_authorized:
  assumes "registry_exec e c s = Ok (u, s')" and "r_admin s \<noteq> None"
    and "r_policy s' \<noteq> r_policy s \<or> r_holder_policies s' \<noteq> r_holder_policies s \<or>
      r_total_policies s' \<noteq> r_total_policies s \<or> r_total_premium s' \<noteq> r_total_premium s \<or>
      r_active_policies s' \<noteq> r_active_policies s"
  shows "\<exists>caller. auth e caller \<and> (r_admin s = Some caller \<or> r_pool_contract s = Some caller)"
proof (cases c)
  case (RegRegister caller reg)
  then obtain i where "register_policy e caller reg s = Ok (i, s')" using assms(1) by auto
  then show ?thesis using register_policy_OkD(10) by fastforce
next
  case (RegDeactivate caller i)
  then show ?thesis using assms(1) by (auto simp: deactivate_policy_def)
qed (use assms in \<open>auto simp: registry_admin_ops registry_initialize_def split: if_splits\<close>)

text \<open>
  The trusted pool address moves only through \<open>initialize\<close> or a confirmed proposal: if a call
  changes it on an initialized registry, the admin authorized that call, a proposal for exactly
  the new address was pending, and its waiting period had elapsed.
\<close>

theorem pool_repoint_waits:
  assumes "registry_exec e c s = Ok (u, s')" and "r_admin s = Some admin"
    and "r_pool_contract s' \<noteq> r_pool_contract s"
  shows "auth e admin \<and> (\<exists>p. r_pending_pool s = Some p \<and> pp_executable_at p \<le> timestamp e \<and>
    r_pool_contract s' = Some (pp_pool_contract p) \<and> r_pending_pool s' = None)"
proof (cases c)
  case (RegRegister caller reg)
  then show ?thesis using assms register_policy_OkD(9) by fastforce
next
  case (RegDeactivate caller i)
  then have "deactivate_policy e caller i s = Ok (u, s')" using assms(1) by simp
  then show ?thesis using assms(3) by (cases rule: deactivate_policy_OkD) auto
qed (use assms in \<open>auto simp: registry_admin_ops registry_initialize_def split: if_splits\<close>)

text \<open>
  Deactivation is idempotent and final: a second \<open>deactivate_policy\<close> of the same id, by
  any authorized caller at any time, changes nothing, so the active counter can not be
  decremented twice.
\<close>

theorem deactivate_idempotent:
  assumes "deactivate_policy e caller i s = Ok (u, s')"
    and "registry_require_pool_or_admin e' caller' s' = Ok ()"
  shows "deactivate_policy e' caller' i s' = Ok ((), s')"
  using assms(1)
proof (cases rule: deactivate_policy_OkD)
  case (1 rc)
  then show ?thesis using assms(2) by (simp add: deactivate_policy_def ok_or_def)
next
  case (2 rc)
  then have "r_policy s' i = Some (rc\<lparr>rec_is_active := False\<rparr>)" by simp
  then show ?thesis using assms(2) by (simp add: deactivate_policy_def ok_or_def)
qed

definition registry_example_env :: env where
  "registry_example_env = \<lparr>timestamp = 1000, ledger_seq = 10, auth = (\<lambda>a. a \<in> {1, 2}), this = 9\<rparr>"

definition registry_example :: registry where
  "registry_example = run_txs registry_exec
     [(registry_example_env, RegInitialize 1 2),
      (registry_example_env, RegRegister 2 \<lparr>reg_policy_id = 0, reg_holder = 7,
         reg_coverage_type = RegMarketCrash, reg_coverage_amount = 500, reg_premium = 15, reg_expires_at = 9000\<rparr>),
      (registry_example_env, RegProposePool 1 3)] registry_fresh"

lemmas registry_example_eval = registry_example_def registry_example_env_def registry_fresh_def
  registry_initialize_def register_policy_def registry_admin_ops registry_new_record_def
  registry_require_admin_def registry_require_pool_or_admin_def deactivate_policy_def
  require_auth_def ensure_def ok_or_def u64_add_def i128_add_def i128_checked_def discard_def int_width_defs

theorem registry_writes_authorized_witness:
  "\<exists>caller. auth registry_example_env caller \<and>
     (r_admin registry_example = Some caller \<or> r_pool_contract registry_example = Some caller)"
  by (rule registry_writes_authorized [where c = "RegDeactivate 2 0" and u = "()"
        and s' = "state_after registry_example (registry_exec registry_example_env (RegDeactivate 2 0) registry_example)"])
     (simp_all add: registry_example_eval)

theorem pool_repoint_waits_witness:
  "auth registry_example_env 1 \<and> (\<exists>p. r_pending_pool registry_example = Some p \<and>
     pp_executable_at p \<le> timestamp registry_example_env \<and>
     r_pool_contract (state_after registry_example (registry_exec registry_example_env (RegConfirmPool 1) registry_example))
       = Some (pp_pool_contract p) \<and>
     r_pending_pool (state_after registry_example (registry_exec registry_example_env (RegConfirmPool 1) registry_example)) = None)"
  by (rule pool_repoint_waits [where c = "RegConfirmPool 1" and u = "()"])
     (simp_all add: registry_example_eval)

theorem deactivate_idempotent_witness:
  "deactivate_policy registry_example_env 1 0
     (state_after registry_example (registry_exec registry_example_env (RegDeactivate 2 0) registry_example))
   = Ok ((), state_after registry_example (registry_exec registry_example_env (RegDeactivate 2 0) registry_example))"
  by (rule deactivate_idempotent [where e = registry_example_env and caller = 2 and s = registry_example and u = "()"])
     (simp_all add: registry_example_eval)

end
