(* ===== verification/Timelock.thy ===== *)
theory Timelock
  imports Soroban "HOL-Library.Multiset"
begin

text \<open>
  The timelock contract (\<open>src/timelock/src/lib.rs\<close>): queued cross-contract calls, their
  execution after a delay, cancellation, expiry, retry, and the keeper sweep with its capped
  reward.

  The state is the record \<open>timelock\<close> (one field per storage key).  The contracts the timelock
  calls are the parameter \<open>callee\<close> over their state \<open>'w\<close>, so an entry point that forwards a
  call works on the pair of both.  \<open>timelock_forward\<close> is the block that \<open>execute\<close>, \<open>retry\<close> and
  \<open>execute_due\<close> share: mark \<open>Executed\<close>, call, and mark \<open>Failed\<close> when the call fails.
  \<open>execute\<close> and \<open>retry\<close> return an error after they wrote \<open>Failed\<close>, so they are closed by
  \<open>host_commit\<close>, which drops that write.

  The lemmas show that every operation that reaches \<open>Executed\<close> was queued by the admin and
  waited out the delay, that the calls that took effect are exactly the executed operations,
  that finished operations never change, what a keeper sweep does, and the reward cap.
\<close>

section \<open>State\<close>

datatype timelock_error =
    TlAlreadyInitialized | TlNotInitialized | TlUnauthorized | TlEtaTooSoon | TlNotFound
  | TlNotReady | TlAlreadyDone | TlInvalidKeeperConfig | TlKeeperRewardExceeded | TlOverflow
  | TlNotFailed | TlRetryTooSoon

record keeper_config =
  reward_per_call :: int
  cap_per_epoch :: int
  epoch_len_secs :: nat
  epoch_start :: nat
  epoch_spent :: int

datatype operation_status = OpPending | OpExecuted | OpCancelled | OpFailed | OpExpired

record timelock_operation =
  op_target :: address
  op_function :: symbol
  op_args :: "val list"
  op_eta :: nat
  op_status :: operation_status
  op_failure_code :: nat
  op_attempt_count :: nat
  op_last_failed_at :: nat

record timelock =
  tl_admin :: "address option"
  tl_min_delay :: "nat option"
  tl_next_id :: "nat option"
  tl_operation :: "nat \<rightharpoonup> timelock_operation"
  tl_keeper :: "keeper_config option"

type_synonym 'w tl_system = "timelock \<times> 'w"

definition timelock_undeployed :: timelock where
  "timelock_undeployed = \<lparr>tl_admin = None, tl_min_delay = None, tl_next_id = None,
     tl_operation = (\<lambda>_. None), tl_keeper = None\<rparr>"

section \<open>Entry points\<close>

definition timelock_initialize ::
  "env \<Rightarrow> address \<Rightarrow> nat \<Rightarrow> timelock \<Rightarrow> (timelock_error, unit \<times> timelock) outcome" where
  "timelock_initialize e admin delay s =
     (if tl_admin s \<noteq> None then Err TlAlreadyInitialized
      else and_then (require_auth e admin) (\<lambda>_.
        Ok ((), s\<lparr>tl_admin := Some admin, tl_min_delay := Some delay, tl_next_id := Some 0\<rparr>)))"

definition timelock_admin :: "timelock \<Rightarrow> address option" where
  "timelock_admin s = tl_admin s"

definition min_delay :: "timelock \<Rightarrow> nat" where
  "min_delay s = unwrap_or (tl_min_delay s) 0"

definition timelock_require_admin :: "env \<Rightarrow> timelock \<Rightarrow> (timelock_error, unit) outcome" where
  "timelock_require_admin e s = and_then (ok_or (tl_admin s) TlNotInitialized) (require_auth e)"

definition set_operation :: "nat \<Rightarrow> timelock_operation \<Rightarrow> timelock \<Rightarrow> timelock" where
  "set_operation oid op s = s\<lparr>tl_operation := (tl_operation s)(oid \<mapsto> op)\<rparr>"

definition timelock_new_operation :: "address \<Rightarrow> symbol \<Rightarrow> val list \<Rightarrow> nat \<Rightarrow> timelock_operation" where
  "timelock_new_operation target func args eta =
     \<lparr>op_target = target, op_function = func, op_args = args, op_eta = eta,
      op_status = OpPending, op_failure_code = 0, op_attempt_count = 0, op_last_failed_at = 0\<rparr>"

definition timelock_queue ::
  "env \<Rightarrow> address \<Rightarrow> symbol \<Rightarrow> val list \<Rightarrow> nat \<Rightarrow> timelock \<Rightarrow>
   (timelock_error, nat \<times> timelock) outcome" where
  "timelock_queue e target func args eta s =
     and_then (timelock_require_admin e s) (\<lambda>_.
     and_then (u64_add (timestamp e) (unwrap_or (tl_min_delay s) 0)) (\<lambda>earliest.
     if eta < earliest then Err TlEtaTooSoon
     else let oid = unwrap_or (tl_next_id s) 0;
              s = set_operation oid (timelock_new_operation target func args eta) s
          in and_then (u64_add oid 1) (\<lambda>next. Ok (oid, s\<lparr>tl_next_id := Some next\<rparr>))))"

definition failure_code_of :: "call_result \<Rightarrow> nat" where
  "failure_code_of r = (case r of CallRawErr (InvokeContract c) \<Rightarrow> c | _ \<Rightarrow> 0)"

definition timelock_mark_failed ::
  "env \<Rightarrow> call_result \<Rightarrow> timelock_operation \<Rightarrow> timelock_operation" where
  "timelock_mark_failed e r op = op\<lparr>op_status := OpFailed, op_failure_code := failure_code_of r,
     op_attempt_count := u32_sat_add (op_attempt_count op) 1, op_last_failed_at := timestamp e\<rparr>"

definition timelock_forward ::
  "'w callee \<Rightarrow> env \<Rightarrow> nat \<Rightarrow> timelock_operation \<Rightarrow> 'w tl_system \<Rightarrow> bool \<times> 'w tl_system" where
  "timelock_forward callee e oid op sw =
     (let op = op\<lparr>op_status := OpExecuted\<rparr>;
          s = set_operation oid op (fst sw)
      in case try_invoke callee e (snd sw) (op_target op) (op_function op) (op_args op) of
           (r, w) \<Rightarrow>
             if call_ok r then (True, (s, w))
             else (False, (set_operation oid (timelock_mark_failed e r op) s, w)))"

definition timelock_execute_body ::
  "'w callee \<Rightarrow> env \<Rightarrow> nat \<Rightarrow> 'w tl_system \<Rightarrow> (timelock_error, unit) outcome \<times> 'w tl_system" where
  "timelock_execute_body callee e oid sw =
     (case tl_operation (fst sw) oid of
        None \<Rightarrow> (Err TlNotFound, sw)
      | Some op \<Rightarrow>
          if op_status op \<noteq> OpPending then (Err TlAlreadyDone, sw)
          else if timestamp e < op_eta op then (Err TlNotReady, sw)
          else case timelock_forward callee e oid op sw of
                 (ok, sw) \<Rightarrow> (if ok then Ok () else Err TlNotFound, sw))"

definition timelock_execute ::
  "'w callee \<Rightarrow> env \<Rightarrow> nat \<Rightarrow> 'w tl_system \<Rightarrow> (timelock_error, unit \<times> 'w tl_system) outcome" where
  "timelock_execute callee e oid sw = host_commit (timelock_execute_body callee e oid sw)"

definition timelock_cancel ::
  "env \<Rightarrow> nat \<Rightarrow> timelock \<Rightarrow> (timelock_error, unit \<times> timelock) outcome" where
  "timelock_cancel e oid s =
     and_then (timelock_require_admin e s) (\<lambda>_.
     and_then (ok_or (tl_operation s oid) TlNotFound) (\<lambda>op.
     if op_status op \<noteq> OpPending then Err TlAlreadyDone
     else Ok ((), set_operation oid (op\<lparr>op_status := OpCancelled\<rparr>) s)))"

definition timelock_retry_body ::
  "'w callee \<Rightarrow> env \<Rightarrow> nat \<Rightarrow> 'w tl_system \<Rightarrow> (timelock_error, unit) outcome \<times> 'w tl_system" where
  "timelock_retry_body callee e oid sw =
     (case tl_operation (fst sw) oid of
        None \<Rightarrow> (Err TlNotFound, sw)
      | Some op \<Rightarrow>
          if op_status op \<noteq> OpFailed then (Err TlNotFailed, sw)
          else if timestamp e < op_eta op then (Err TlRetryTooSoon, sw)
          else case timelock_forward callee e oid op sw of
                 (ok, sw) \<Rightarrow> (if ok then Ok () else Err TlNotFound, sw))"

definition timelock_retry ::
  "'w callee \<Rightarrow> env \<Rightarrow> nat \<Rightarrow> 'w tl_system \<Rightarrow> (timelock_error, unit \<times> 'w tl_system) outcome" where
  "timelock_retry callee e oid sw = host_commit (timelock_retry_body callee e oid sw)"

definition cancel_failed ::
  "env \<Rightarrow> nat \<Rightarrow> timelock \<Rightarrow> (timelock_error, unit \<times> timelock) outcome" where
  "cancel_failed e oid s =
     and_then (timelock_require_admin e s) (\<lambda>_.
     and_then (ok_or (tl_operation s oid) TlNotFound) (\<lambda>op.
     if op_status op \<noteq> OpFailed then Err TlNotFailed
     else Ok ((), set_operation oid (op\<lparr>op_status := OpCancelled\<rparr>) s)))"

definition timelock_expire ::
  "env \<Rightarrow> nat \<Rightarrow> timelock \<Rightarrow> (timelock_error, unit \<times> timelock) outcome" where
  "timelock_expire e oid s =
     and_then (timelock_require_admin e s) (\<lambda>_.
     and_then (ok_or (tl_operation s oid) TlNotFound) (\<lambda>op.
     if op_status op \<noteq> OpPending then Err TlAlreadyDone
     else Ok ((), set_operation oid (op\<lparr>op_status := OpExpired\<rparr>) s)))"

definition get_operation :: "nat \<Rightarrow> timelock \<Rightarrow> timelock_operation option" where
  "get_operation oid s = tl_operation s oid"

text \<open>
  The two loops over the ids below \<open>NextId\<close>.  Their counters stay below \<open>NextId\<close>, a \<open>u64\<close>,
  so they cannot overflow and are plain \<open>nat\<close>.
\<close>

definition is_due :: "env \<Rightarrow> timelock_operation \<Rightarrow> bool" where
  "is_due e op \<longleftrightarrow> op_status op = OpPending \<and> op_eta op \<le> timestamp e"

function due_count_loop :: "env \<Rightarrow> timelock \<Rightarrow> nat \<Rightarrow> nat \<Rightarrow> nat \<Rightarrow> nat" where
  "due_count_loop e s next oid n =
     (if oid < next
      then due_count_loop e s next (oid + 1)
             (case tl_operation s oid of
                Some op \<Rightarrow> if is_due e op then n + 1 else n
              | None \<Rightarrow> n)
      else n)"
  by pat_completeness auto
termination
  by (relation "measure (\<lambda>(_, _, next, oid, _). next - oid)") auto

definition due_count :: "env \<Rightarrow> timelock \<Rightarrow> nat" where
  "due_count e s = due_count_loop e s (unwrap_or (tl_next_id s) 0) 0 0"

definition set_keeper_config ::
  "env \<Rightarrow> int \<Rightarrow> int \<Rightarrow> nat \<Rightarrow> timelock \<Rightarrow> (timelock_error, unit \<times> timelock) outcome" where
  "set_keeper_config e reward cap len s =
     and_then (timelock_require_admin e s) (\<lambda>_.
     if reward < 0 \<or> cap < 0 \<or> len = 0 then Err TlInvalidKeeperConfig
     else Ok ((), s\<lparr>tl_keeper := Some \<lparr>reward_per_call = reward, cap_per_epoch = cap,
            epoch_len_secs = len, epoch_start = timestamp e, epoch_spent = 0\<rparr>\<rparr>))"

definition keeper_default :: "env \<Rightarrow> keeper_config" where
  "keeper_default e = \<lparr>reward_per_call = 0, cap_per_epoch = 0, epoch_len_secs = 86400,
     epoch_start = timestamp e, epoch_spent = 0\<rparr>"

definition settle_keeper_epoch ::
  "env \<Rightarrow> nat \<Rightarrow> timelock \<Rightarrow> (timelock_error, int \<times> timelock) outcome" where
  "settle_keeper_epoch e executed s =
     (let cfg = unwrap_or (tl_keeper s) (keeper_default e); now = timestamp e in
      and_then (u64_add (epoch_start cfg) (epoch_len_secs cfg)) (\<lambda>epoch_end.
      let cfg = (if epoch_end \<le> now then cfg\<lparr>epoch_start := now, epoch_spent := 0\<rparr> else cfg) in
      if executed = 0 \<or> reward_per_call cfg \<le> 0 then Ok (0, s\<lparr>tl_keeper := Some cfg\<rparr>)
      else
        let due = unwrap_or (i128_opt (int executed * reward_per_call cfg)) i128_max in
        and_then (i128_sub (cap_per_epoch cfg) (epoch_spent cfg)) (\<lambda>room.
        let reward = (if due < room then due else room);
            reward = (if reward < 0 then 0 else reward) in
        and_then (i128_add (epoch_spent cfg) reward) (\<lambda>spent.
        Ok (reward, s\<lparr>tl_keeper := Some (cfg\<lparr>epoch_spent := spent\<rparr>)\<rparr>)))))"

function execute_due_loop ::
  "'w callee \<Rightarrow> env \<Rightarrow> nat \<Rightarrow> nat \<Rightarrow> nat \<Rightarrow> nat \<Rightarrow> 'w tl_system \<Rightarrow> nat \<times> nat \<times> 'w tl_system" where
  "execute_due_loop callee e next oid executed failed sw =
     (if oid < next
      then case tl_operation (fst sw) oid of
             Some op \<Rightarrow>
               if is_due e op
               then case timelock_forward callee e oid op sw of
                      (ok, sw') \<Rightarrow>
                        if ok then execute_due_loop callee e next (oid + 1) (executed + 1) failed sw'
                        else execute_due_loop callee e next (oid + 1) executed (failed + 1) sw'
               else execute_due_loop callee e next (oid + 1) executed failed sw
           | None \<Rightarrow> execute_due_loop callee e next (oid + 1) executed failed sw
      else (executed, failed, sw))"
  by pat_completeness auto
termination
  by (relation "measure (\<lambda>(_, _, next, oid, _). next - oid)") auto

definition execute_due ::
  "'w callee \<Rightarrow> env \<Rightarrow> address \<Rightarrow> 'w tl_system \<Rightarrow>
   (timelock_error, (nat \<times> nat \<times> int) \<times> 'w tl_system) outcome" where
  "execute_due callee e keeper sw =
     and_then (require_auth e keeper) (\<lambda>_.
     case execute_due_loop callee e (unwrap_or (tl_next_id (fst sw)) 0) 0 0 0 sw of
       (executed, failed, (s, w)) \<Rightarrow>
         and_then (settle_keeper_epoch e executed s) (\<lambda>(reward, s).
         Ok ((executed, failed, reward), (s, w))))"

section \<open>The contract as a transaction executor\<close>

datatype timelock_call =
    TlInitialize address nat
  | TlQueue address symbol "val list" nat
  | TlExecute nat
  | TlCancel nat
  | TlRetry nat
  | TlCancelFailed nat
  | TlExpire nat
  | TlSetKeeperConfig int int nat
  | TlExecuteDue address

definition on_timelock ::
  "(timelock \<Rightarrow> ('e, 'a \<times> timelock) outcome) \<Rightarrow> 'w tl_system \<Rightarrow> ('e, unit \<times> 'w tl_system) outcome" where
  "on_timelock f sw = and_then (f (fst sw)) (\<lambda>(_, s). Ok ((), (s, snd sw)))"

fun timelock_exec :: "'w callee \<Rightarrow> (timelock_call, 'w tl_system, timelock_error, unit) executor" where
  "timelock_exec callee e (TlInitialize a d) sw = on_timelock (timelock_initialize e a d) sw"
| "timelock_exec callee e (TlQueue a f args eta) sw = on_timelock (timelock_queue e a f args eta) sw"
| "timelock_exec callee e (TlExecute oid) sw = timelock_execute callee e oid sw"
| "timelock_exec callee e (TlCancel oid) sw = on_timelock (timelock_cancel e oid) sw"
| "timelock_exec callee e (TlRetry oid) sw = timelock_retry callee e oid sw"
| "timelock_exec callee e (TlCancelFailed oid) sw = on_timelock (cancel_failed e oid) sw"
| "timelock_exec callee e (TlExpire oid) sw = on_timelock (timelock_expire e oid) sw"
| "timelock_exec callee e (TlSetKeeperConfig r c l) sw = on_timelock (set_keeper_config e r c l) sw"
| "timelock_exec callee e (TlExecuteDue k) sw = discard (execute_due callee e k sw)"

section \<open>How one call changes one operation\<close>

declare due_count_loop.simps [simp del] execute_due_loop.simps [simp del]

text \<open>The life of one operation, as the abstract state machine the entry points implement.\<close>

inductive op_transition :: "env \<Rightarrow> timelock_operation \<Rightarrow> timelock_operation \<Rightarrow> bool" for e where
  op_keep: "op_transition e op op"
| op_execute: "op_status op \<in> {OpPending, OpFailed} \<Longrightarrow> op_eta op \<le> timestamp e \<Longrightarrow>
    op_transition e op (op\<lparr>op_status := OpExecuted\<rparr>)"
| op_fail: "op_status op = OpPending \<Longrightarrow> op_eta op \<le> timestamp e \<Longrightarrow>
    op_transition e op (timelock_mark_failed e r op)"
| op_cancel: "op_status op \<in> {OpPending, OpFailed} \<Longrightarrow>
    op_transition e op (op\<lparr>op_status := OpCancelled\<rparr>)"
| op_expire: "op_status op = OpPending \<Longrightarrow> op_transition e op (op\<lparr>op_status := OpExpired\<rparr>)"

definition op_call :: "timelock_operation \<Rightarrow> address \<times> symbol \<times> val list" where
  "op_call op = (op_target op, op_function op, op_args op)"

definition op_finished :: "timelock_operation \<Rightarrow> bool" where
  "op_finished op \<longleftrightarrow> op_status op \<in> {OpExecuted, OpCancelled, OpExpired}"

lemma op_transition_frame:
  "op_transition e op op' \<Longrightarrow> op_call op' = op_call op \<and> op_eta op' = op_eta op"
  by (induction rule: op_transition.induct) (auto simp: op_call_def timelock_mark_failed_def)

lemma op_transition_finished: "op_transition e op op' \<Longrightarrow> op_finished op \<Longrightarrow> op' = op"
  by (induction rule: op_transition.induct) (auto simp: op_finished_def)

lemma op_transition_executed:
  "op_transition e op op' \<Longrightarrow> op_status op' = OpExecuted \<Longrightarrow>
   op_status op = OpExecuted \<or> op_eta op \<le> timestamp e"
  by (induction rule: op_transition.induct) (auto simp: timelock_mark_failed_def)

lemma set_operation_simps [simp]:
  "tl_operation (set_operation i op s) j = (if j = i then Some op else tl_operation s j)"
  "tl_admin (set_operation i op s) = tl_admin s"
  "tl_min_delay (set_operation i op s) = tl_min_delay s"
  "tl_next_id (set_operation i op s) = tl_next_id s"
  "tl_keeper (set_operation i op s) = tl_keeper s"
  by (simp_all add: set_operation_def)

lemma set_operation_twice [simp]:
  "set_operation i op (set_operation i op' s) = set_operation i op s"
  by (simp add: set_operation_def)

lemma mark_failed_executed [simp]:
  "timelock_mark_failed e r (op\<lparr>op_status := OpExecuted\<rparr>) = timelock_mark_failed e r op"
  by (simp add: timelock_mark_failed_def)

lemma mark_failed_status [simp]: "op_status (timelock_mark_failed e r op) = OpFailed"
  by (simp add: timelock_mark_failed_def)

lemma timelock_forward_cases:
  assumes "timelock_forward callee e i op (s, w) = (ok, sw')"
  obtains (executed) r w' where "ok" "call_ok r"
      "callee e w (op_target op) (op_function op) (op_args op) = (r, w')"
      "sw' = (set_operation i (op\<lparr>op_status := OpExecuted\<rparr>) s, w')"
  | (failed) r w' where "\<not> ok" "\<not> call_ok r"
      "callee e w (op_target op) (op_function op) (op_args op) = (r, w')"
      "sw' = (set_operation i (timelock_mark_failed e r op) s, w)"
  using assms by (auto simp: timelock_forward_def try_invoke_def Let_def split: prod.splits if_splits)

lemma timelock_execute_Ok:
  assumes "timelock_execute callee e i (s, w) = Ok (u, sw')"
  obtains op r w' where "tl_operation s i = Some op" "op_status op = OpPending"
    "op_eta op \<le> timestamp e" "call_ok r"
    "callee e w (op_target op) (op_function op) (op_args op) = (r, w')"
    "sw' = (set_operation i (op\<lparr>op_status := OpExecuted\<rparr>) s, w')"
  using assms
  by (auto simp: timelock_execute_def timelock_execute_body_def
      split: option.splits if_splits prod.splits elim!: timelock_forward_cases)

lemma timelock_retry_Ok:
  assumes "timelock_retry callee e i (s, w) = Ok (u, sw')"
  obtains op r w' where "tl_operation s i = Some op" "op_status op = OpFailed"
    "op_eta op \<le> timestamp e" "call_ok r"
    "callee e w (op_target op) (op_function op) (op_args op) = (r, w')"
    "sw' = (set_operation i (op\<lparr>op_status := OpExecuted\<rparr>) s, w')"
  using assms
  by (auto simp: timelock_retry_def timelock_retry_body_def
      split: option.splits if_splits prod.splits elim!: timelock_forward_cases)

lemma timelock_queue_Ok:
  assumes "timelock_queue e a f args eta s = Ok (i, s')"
  shows "i = unwrap_or (tl_next_id s) 0"
    and "s' = (set_operation (unwrap_or (tl_next_id s) 0) (timelock_new_operation a f args eta) s)
      \<lparr>tl_next_id := Some (unwrap_or (tl_next_id s) 0 + 1)\<rparr>"
    and "timestamp e + min_delay s \<le> eta"
    and "\<exists>adm. tl_admin s = Some adm \<and> auth e adm"
  using assms
  by (auto simp: timelock_queue_def timelock_require_admin_def min_delay_def Let_def split: if_splits)

section \<open>The keeper sweep\<close>

text \<open>What \<open>execute_due\<close> may do to the operation at one id.\<close>

definition swept :: "env \<Rightarrow> timelock_operation option \<Rightarrow> timelock_operation option \<Rightarrow> bool" where
  "swept e x y \<longleftrightarrow>
     (case x of
        None \<Rightarrow> y = None
      | Some op \<Rightarrow>
          if is_due e op
          then y = Some (op\<lparr>op_status := OpExecuted\<rparr>) \<or> (\<exists>r. y = Some (timelock_mark_failed e r op))
          else y = Some op)"

definition due_at :: "env \<Rightarrow> timelock \<Rightarrow> nat \<Rightarrow> bool" where
  "due_at e s i \<longleftrightarrow> (\<exists>op. tl_operation s i = Some op \<and> is_due e op)"

definition done_at :: "timelock \<Rightarrow> nat \<Rightarrow> bool" where
  "done_at s i \<longleftrightarrow> (\<exists>op. tl_operation s i = Some op \<and> op_status op = OpExecuted)"

lemma due_count_loop_eq:
  "due_count_loop e s n i k = k + card {j \<in> {i..<n}. due_at e s j}"
proof (induction e s n i k rule: due_count_loop.induct)
  case (1 e s n i k)
  show ?case
  proof (cases "i < n")
    case True
    have "{j \<in> {i..<n}. due_at e s j} =
      (if due_at e s i then insert i {j \<in> {Suc i..<n}. due_at e s j}
       else {j \<in> {Suc i..<n}. due_at e s j})"
      using True by (auto simp: Suc_le_eq le_less)
    then have "card {j \<in> {i..<n}. due_at e s j} =
      (if due_at e s i then 1 else 0) + card {j \<in> {Suc i..<n}. due_at e s j}"
      by simp
    with True "1.IH" show ?thesis
      by (subst due_count_loop.simps) (auto simp: due_at_def split: option.splits)
  qed (simp add: due_count_loop.simps)
qed

lemma due_count_eq: "due_count e s = card {i. i < unwrap_or (tl_next_id s) 0 \<and> due_at e s i}"
  by (simp add: due_count_def due_count_loop_eq atLeast0LessThan)

text \<open>One iteration of the sweep, then the whole loop.\<close>

definition sweep_one :: "'w callee \<Rightarrow> env \<Rightarrow> nat \<Rightarrow> nat \<times> nat \<times> 'w tl_system \<Rightarrow> nat \<times> nat \<times> 'w tl_system" where
  "sweep_one callee e i st = (case st of (x, f, sw) \<Rightarrow>
     case tl_operation (fst sw) i of
       Some op \<Rightarrow>
         if is_due e op
         then case timelock_forward callee e i op sw of
                (ok, sw') \<Rightarrow> if ok then (x + 1, f, sw') else (x, f + 1, sw')
         else (x, f, sw)
     | None \<Rightarrow> (x, f, sw))"

lemma execute_due_loop_unfold:
  "execute_due_loop callee e n i x f sw =
   (if i < n then case sweep_one callee e i (x, f, sw) of
                    (x', f', sw') \<Rightarrow> execute_due_loop callee e n (Suc i) x' f' sw'
    else (x, f, sw))"
  by (subst execute_due_loop.simps)
    (auto simp: sweep_one_def split: option.splits prod.splits)

lemma execute_due_loop_fold:
  "execute_due_loop callee e n i x f sw = fold (sweep_one callee e) [i..<n] (x, f, sw)"
proof (induction "n - i" arbitrary: i x f sw)
  case 0
  then show ?case by (simp add: execute_due_loop_unfold)
next
  case (Suc d)
  then have "i < n" "d = n - Suc i" by simp_all
  then show ?case using Suc.hyps(1)
    by (subst execute_due_loop_unfold) (auto simp: upt_conv_Cons split: prod.splits)
qed

text \<open>The state of a sweep that started in \<open>s\<close> and has visited the ids below \<open>k\<close>.\<close>

definition sweep_inv :: "env \<Rightarrow> timelock \<Rightarrow> nat \<Rightarrow> nat \<times> nat \<times> 'w tl_system \<Rightarrow> bool" where
  "sweep_inv e s k st \<longleftrightarrow> (case st of (x, f, (s', w')) \<Rightarrow>
     s' = s\<lparr>tl_operation := tl_operation s'\<rparr> \<and>
     (\<forall>i<k. swept e (tl_operation s i) (tl_operation s' i)) \<and>
     (\<forall>i\<ge>k. tl_operation s' i = tl_operation s i) \<and>
     x = card {i. i < k \<and> due_at e s i \<and> done_at s' i} \<and>
     x + f = card {i. i < k \<and> due_at e s i})"

lemma card_Collect_less_Suc:
  "card {i. i < Suc k \<and> P i} = card {i. i < k \<and> P i} + (if P k then 1 else 0)" for k :: nat
proof -
  have "{i. i < Suc k \<and> P i} =
    (if P k then insert k {i. i < k \<and> P i} else {i. i < k \<and> P i})"
    by (auto simp: less_Suc_eq)
  then show ?thesis by simp
qed

lemma card_done_set_operation:
  "card {i. i < k \<and> P i \<and> done_at (set_operation k op s) i} = card {i. i < k \<and> P i \<and> done_at s i}"
  by (rule arg_cong [of _ _ card]) (auto simp: done_at_def)

lemma sweep_inv_set_operation:
  assumes inv: "sweep_inv e s k (x, f, (s1, w1))" and due: "tl_operation s k = Some op" "is_due e op"
    and op': "ok \<and> op' = op\<lparr>op_status := OpExecuted\<rparr> \<or>
      \<not> ok \<and> (\<exists>r. op' = timelock_mark_failed e r op)"
  shows "sweep_inv e s (Suc k)
    (if ok then (x + 1, f, (set_operation k op' s1, w')) else (x, f + 1, (set_operation k op' s1, w')))"
proof -
  have frame: "set_operation k op' s1 = s\<lparr>tl_operation := tl_operation (set_operation k op' s1)\<rparr>"
  proof -
    have "s1 = s\<lparr>tl_operation := tl_operation s1\<rparr>" using inv by (simp add: sweep_inv_def)
    then show ?thesis by (metis set_operation_def timelock.select_convs(4) timelock.surjective timelock.update_convs(4))
  qed
  have "due_at e s k" using due by (auto simp: due_at_def)
  moreover have "done_at (set_operation k op' s1) k \<longleftrightarrow> ok" using op' by (auto simp: done_at_def)
  moreover have "swept e (tl_operation s k) (Some op')" using due op' by (auto simp: swept_def)
  ultimately show ?thesis
    using inv frame
    by (auto simp: sweep_inv_def All_less_Suc card_Collect_less_Suc card_done_set_operation)
qed

lemma sweep_inv_step:
  assumes "sweep_inv e s k st"
  shows "sweep_inv e s (Suc k) (sweep_one callee e k st)"
proof -
  obtain x f s1 w1 where st: "st = (x, f, (s1, w1))" by (metis prod.collapse)
  from assms st have same: "tl_operation s1 k = tl_operation s k" by (simp add: sweep_inv_def)
  show ?thesis
  proof (cases "due_at e s k")
    case True
    then obtain op where op: "tl_operation s k = Some op" "is_due e op" by (auto simp: due_at_def)
    obtain ok sw' where fwd: "timelock_forward callee e k op (s1, w1) = (ok, sw')"
      by (metis surj_pair)
    then have one: "sweep_one callee e k st = (if ok then (x + 1, f, sw') else (x, f + 1, sw'))"
      using op same st by (simp add: sweep_one_def)
    from fwd obtain op' w' where "sw' = (set_operation k op' s1, w')"
      "ok \<and> op' = op\<lparr>op_status := OpExecuted\<rparr> \<or> \<not> ok \<and> (\<exists>r. op' = timelock_mark_failed e r op)"
      by (cases rule: timelock_forward_cases) auto
    with one show ?thesis
      using sweep_inv_set_operation [OF assms [unfolded st] op, of ok op' w'] by (cases ok) simp_all
  next
    case False
    then have "sweep_one callee e k st = st"
      using same st by (auto simp: due_at_def sweep_one_def split: option.splits)
    moreover have "swept e (tl_operation s k) (tl_operation s1 k)"
      using False same by (auto simp: swept_def due_at_def split: option.splits)
    ultimately show ?thesis
      using assms st False by (auto simp: sweep_inv_def All_less_Suc card_Collect_less_Suc)
  qed
qed

lemma sweep_inv_fold: "sweep_inv e s k (fold (sweep_one callee e) [0..<k] (0, 0, (s, w)))"
proof (induction k)
  case 0
  show ?case by (simp add: sweep_inv_def)
next
  case (Suc k)
  then show ?case by (simp add: sweep_inv_step)
qed

lemma execute_due_Ok:
  assumes "execute_due callee e keeper (s, w) = Ok ((x, f, reward), (s', w'))"
  obtains s1 where
    "fold (sweep_one callee e) [0..<unwrap_or (tl_next_id s) 0] (0, 0, (s, w)) = (x, f, (s1, w'))"
    "sweep_inv e s (unwrap_or (tl_next_id s) 0) (x, f, (s1, w'))"
    "settle_keeper_epoch e x s1 = Ok (reward, s')"
proof -
  let ?st = "fold (sweep_one callee e) [0..<unwrap_or (tl_next_id s) 0] (0, 0, (s, w))"
  obtain s1 where "?st = (x, f, (s1, w'))" "settle_keeper_epoch e x s1 = Ok (reward, s')"
    using assms by (auto simp: execute_due_def execute_due_loop_fold split: prod.splits)
  then show thesis using that sweep_inv_fold by metis
qed

lemma settle_keeper_epoch_frame:
  assumes "settle_keeper_epoch e x s = Ok (reward, s')"
  shows "s' = s\<lparr>tl_keeper := tl_keeper s'\<rparr>"
  using assms by (auto simp: settle_keeper_epoch_def Let_def split: if_splits)

lemma settle_keeper_epoch_operation [simp]:
  assumes "settle_keeper_epoch e x s = Ok (reward, s')"
  shows "tl_operation s' = tl_operation s" "tl_next_id s' = tl_next_id s" "tl_admin s' = tl_admin s"
    "tl_min_delay s' = tl_min_delay s"
  by (subst settle_keeper_epoch_frame [OF assms], simp)+

lemma sweep_inv_frame:
  assumes "sweep_inv e s k (x, f, (s1, w1))"
  shows "tl_admin s1 = tl_admin s" "tl_min_delay s1 = tl_min_delay s"
    "tl_next_id s1 = tl_next_id s" "tl_keeper s1 = tl_keeper s"
proof -
  from assms have s1: "s1 = s\<lparr>tl_operation := tl_operation s1\<rparr>" by (simp add: sweep_inv_def)
  show "tl_admin s1 = tl_admin s" "tl_min_delay s1 = tl_min_delay s"
    "tl_next_id s1 = tl_next_id s" "tl_keeper s1 = tl_keeper s"
    by (subst s1, simp)+
qed

lemma swept_transition:
  "swept e (Some op) y \<Longrightarrow> \<exists>op'. y = Some op' \<and> op_transition e op op'"
  by (auto simp: swept_def is_due_def op_execute op_fail op_keep split: if_splits)

section \<open>Well-formed states and the operation life cycle\<close>

definition timelock_wf :: "timelock \<Rightarrow> bool" where
  "timelock_wf s \<longleftrightarrow>
     (\<forall>i. tl_operation s i \<noteq> None \<longrightarrow> i < unwrap_or (tl_next_id s) 0) \<and>
     (tl_admin s = None \<longrightarrow> (\<forall>i. tl_operation s i = None)) \<and>
     (case tl_keeper s of None \<Rightarrow> True
      | Some k \<Rightarrow> 0 \<le> reward_per_call k \<and> 0 \<le> epoch_spent k \<and> epoch_spent k \<le> cap_per_epoch k)"

lemma set_operation_wf:
  "timelock_wf s \<Longrightarrow> tl_operation s i = Some op \<Longrightarrow> timelock_wf (set_operation i op' s)"
  by (auto simp: timelock_wf_def split: if_splits)

lemmas timelock_admin_ops =
  timelock_cancel_def cancel_failed_def timelock_expire_def set_keeper_config_def
  timelock_require_admin_def on_timelock_def

lemma exec_transition:
  assumes "timelock_exec callee e c (s, w) = Ok (u, (s', w'))" and "timelock_wf s"
    and "tl_operation s i = Some op"
  shows "\<exists>op'. tl_operation s' i = Some op' \<and> op_transition e op op'"
proof (cases c)
  case (TlExecute j)
  with assms show ?thesis by (auto simp: op_keep op_execute elim!: timelock_execute_Ok)
next
  case (TlRetry j)
  with assms show ?thesis by (auto simp: op_keep op_execute elim!: timelock_retry_Ok)
next
  case (TlQueue a f args eta)
  have "i \<noteq> unwrap_or (tl_next_id s) 0" using assms(2,3) by (auto simp: timelock_wf_def)
  with TlQueue assms show ?thesis
    by (auto simp: on_timelock_def op_keep dest!: timelock_queue_Ok(2))
next
  case (TlExecuteDue k)
  with assms obtain x f r where "execute_due callee e k (s, w) = Ok ((x, f, r), (s', w'))" by auto
  then obtain s1 where "sweep_inv e s (unwrap_or (tl_next_id s) 0) (x, f, (s1, w'))"
    "settle_keeper_epoch e x s1 = Ok (r, s')"
    by (rule execute_due_Ok)
  moreover have "i < unwrap_or (tl_next_id s) 0" using assms(2,3) by (simp add: timelock_wf_def)
  ultimately have "swept e (tl_operation s i) (tl_operation s' i)" by (simp add: sweep_inv_def)
  with assms(3) show ?thesis by (simp add: swept_transition)
next
  case (TlInitialize a d)
  with assms show ?thesis
    by (auto simp: on_timelock_def timelock_initialize_def timelock_wf_def split: if_splits)
qed (use assms in \<open>auto simp: timelock_admin_ops op_keep op_cancel op_expire split: if_splits\<close>)

lemma settle_keeper_epoch_Ok:
  assumes "settle_keeper_epoch e x s = Ok (reward, s')" and "timelock_wf s"
  obtains cfg cfg' where "cfg = unwrap_or (tl_keeper s) (keeper_default e)" "tl_keeper s' = Some cfg'"
    "reward_per_call cfg' = reward_per_call cfg" "cap_per_epoch cfg' = cap_per_epoch cfg"
    "0 \<le> reward" "reward \<le> int x * reward_per_call cfg" "0 \<le> reward_per_call cfg"
    "epoch_spent cfg' = (if epoch_start cfg + epoch_len_secs cfg \<le> timestamp e then 0
                         else epoch_spent cfg) + reward"
    "0 \<le> epoch_spent cfg'" "epoch_spent cfg' \<le> cap_per_epoch cfg'"
proof -
  define cfg where "cfg = unwrap_or (tl_keeper s) (keeper_default e)"
  have wf: "0 \<le> reward_per_call cfg" "0 \<le> epoch_spent cfg" "epoch_spent cfg \<le> cap_per_epoch cfg"
    using assms(2) by (auto simp: cfg_def timelock_wf_def keeper_default_def split: option.splits)
  define c1 where "c1 = (if epoch_start cfg + epoch_len_secs cfg \<le> timestamp e
    then cfg\<lparr>epoch_start := timestamp e, epoch_spent := 0\<rparr> else cfg)"
  define due where "due = unwrap_or (i128_opt (int x * reward_per_call c1)) i128_max"
  have c1: "reward_per_call c1 = reward_per_call cfg" "cap_per_epoch c1 = cap_per_epoch cfg"
    "epoch_spent c1 = (if epoch_start cfg + epoch_len_secs cfg \<le> timestamp e then 0 else epoch_spent cfg)"
    "0 \<le> epoch_spent c1" "epoch_spent c1 \<le> cap_per_epoch c1"
    using wf by (auto simp: c1_def)
  have due: "due \<le> int x * reward_per_call cfg" "0 \<le> due" "0 \<le> int x * reward_per_call cfg"
    using mult_nonneg_nonneg [OF of_nat_0_le_iff wf(1), of x]
    by (auto simp: due_def c1(1) i128_opt_def int_width_defs)
  have "settle_keeper_epoch e x s =
    and_then (u64_add (epoch_start cfg) (epoch_len_secs cfg)) (\<lambda>_.
      if x = 0 \<or> reward_per_call c1 \<le> 0 then Ok (0, s\<lparr>tl_keeper := Some c1\<rparr>)
      else and_then (i128_sub (cap_per_epoch c1) (epoch_spent c1)) (\<lambda>room.
        let reward = (if due < room then due else room); reward = (if reward < 0 then 0 else reward)
        in and_then (i128_add (epoch_spent c1) reward) (\<lambda>spent.
          Ok (reward, s\<lparr>tl_keeper := Some (c1\<lparr>epoch_spent := spent\<rparr>)\<rparr>))))"
    by (cases "epoch_start cfg + epoch_len_secs cfg \<le> u64_max")
      (simp_all only: settle_keeper_epoch_def Let_def cfg_def [symmetric] u64_add_def if_True if_False
        and_then_simps c1_def [symmetric] due_def [symmetric])
  with assms(1) c1 have "tl_keeper s' = Some c1 \<and> reward = 0 \<or>
    tl_keeper s' = Some (c1\<lparr>epoch_spent := epoch_spent c1 + reward\<rparr>) \<and>
    reward = min due (cap_per_epoch c1 - epoch_spent c1)"
    by (auto simp: Let_def min_def split: if_splits)
  then show thesis
  proof (elim disjE conjE)
    assume "tl_keeper s' = Some c1" "reward = 0"
    then show thesis using c1 due wf by (intro that [OF cfg_def, of c1]) auto
  next
    assume "tl_keeper s' = Some (c1\<lparr>epoch_spent := epoch_spent c1 + reward\<rparr>)"
      "reward = min due (cap_per_epoch c1 - epoch_spent c1)"
    then show thesis using c1 due wf
      by (intro that [OF cfg_def, of "c1\<lparr>epoch_spent := epoch_spent c1 + reward\<rparr>"])
        (auto simp: min_def split: if_splits)
  qed
qed

lemma sweep_inv_wf:
  assumes "sweep_inv e s k (x, f, (s1, w1))" and "timelock_wf s"
  shows "timelock_wf s1"
proof -
  have "tl_operation s1 i = None \<longleftrightarrow> tl_operation s i = None" for i
    using assms(1) by (cases "i < k"; cases "tl_operation s i")
      (auto simp: sweep_inv_def swept_def dest!: spec [of _ i] split: if_splits)
  with assms(2) sweep_inv_frame [OF assms(1)] show ?thesis by (simp add: timelock_wf_def)
qed

lemma execute_due_wf:
  assumes "execute_due callee e k (s, w) = Ok (r, (s', w'))" and "timelock_wf s"
  shows "timelock_wf s'"
proof -
  obtain x f rew where "r = (x, f, rew)" by (cases r) auto
  with assms obtain s1 where s1: "sweep_inv e s (unwrap_or (tl_next_id s) 0) (x, f, (s1, w'))"
    "settle_keeper_epoch e x s1 = Ok (rew, s')" by (metis execute_due_Ok)
  have wf1: "timelock_wf s1" using s1(1) assms(2) by (rule sweep_inv_wf)
  from settle_keeper_epoch_Ok [OF s1(2) wf1] obtain cfg' where
    "tl_keeper s' = Some cfg'" "0 \<le> reward_per_call cfg'" "0 \<le> epoch_spent cfg'"
    "epoch_spent cfg' \<le> cap_per_epoch cfg'" by metis
  with wf1 settle_keeper_epoch_operation [OF s1(2)] show ?thesis by (simp add: timelock_wf_def)
qed

lemma timelock_exec_wf:
  assumes "timelock_exec callee e c (s, w) = Ok (u, (s', w'))" and "timelock_wf s"
  shows "timelock_wf s'"
proof (cases c)
  case (TlExecuteDue k)
  with assms show ?thesis by (auto dest: execute_due_wf)
next
  case (TlExecute i)
  with assms show ?thesis by (auto simp: set_operation_wf elim!: timelock_execute_Ok)
next
  case (TlRetry i)
  with assms show ?thesis by (auto simp: set_operation_wf elim!: timelock_retry_Ok)
next
  case (TlInitialize a d)
  with assms show ?thesis
    by (auto simp: on_timelock_def timelock_initialize_def timelock_wf_def split: if_splits)
next
  case (TlSetKeeperConfig r cap l)
  with assms show ?thesis by (auto simp: timelock_admin_ops timelock_wf_def split: if_splits)
next
  case (TlQueue a f args eta)
  obtain i where i: "timelock_queue e a f args eta s = Ok (i, s')"
    using assms(1) TlQueue by (auto simp: on_timelock_def)
  from timelock_queue_Ok(2) [OF i] timelock_queue_Ok(4) [OF i] assms(2) show ?thesis
    by (auto simp: timelock_wf_def less_Suc_eq)
qed (use assms in \<open>auto simp: timelock_admin_ops set_operation_wf split: if_splits\<close>)

lemma timelock_undeployed_wf [simp]: "timelock_wf timelock_undeployed"
  by (simp add: timelock_wf_def timelock_undeployed_def)

interpretation tl: contract_invariant "timelock_exec callee" "\<lambda>sw. timelock_wf (fst sw)"
  for callee :: "'w callee"
proof
  fix s s' e c r assume "timelock_wf (fst s)" "timelock_exec callee e c s = Ok (r, s')"
  then show "timelock_wf (fst s')" by (cases s; cases s') (auto dest: timelock_exec_wf)
qed

section \<open>The calls that took effect\<close>

text \<open>
  \<open>journaled callee\<close> behaves as \<open>callee\<close> and also writes down every call it receives; a
  failed call is rolled back together with its entry.  \<open>executed_calls\<close> collects the calls of
  the \<open>Executed\<close> operations.
\<close>

definition journaled ::
  "'w callee \<Rightarrow> ('w \<times> (address \<times> symbol \<times> val list) list) callee" where
  "journaled callee e wl a f args =
     (case callee e (fst wl) a f args of (r, w') \<Rightarrow> (r, (w', (a, f, args) # snd wl)))"

definition executed_call :: "timelock_operation option \<Rightarrow> (address \<times> symbol \<times> val list) multiset" where
  "executed_call x = (case x of
     Some op \<Rightarrow> if op_status op = OpExecuted then {#op_call op#} else {#} | None \<Rightarrow> {#})"

definition executed_calls :: "timelock \<Rightarrow> (address \<times> symbol \<times> val list) multiset" where
  "executed_calls s = (\<Sum>i<unwrap_or (tl_next_id s) 0. executed_call (tl_operation s i))"

definition journal_inv :: "(('w \<times> (address \<times> symbol \<times> val list) list) tl_system) \<Rightarrow> bool" where
  "journal_inv sw \<longleftrightarrow> timelock_wf (fst sw) \<and> mset (snd (snd sw)) = executed_calls (fst sw)"

lemma executed_calls_set_operation:
  assumes "timelock_wf s" and "tl_operation s i = Some op" and "op_status op \<noteq> OpExecuted"
  shows "executed_calls (set_operation i op' s) = executed_calls s + executed_call (Some op')"
proof -
  have "i < unwrap_or (tl_next_id s) 0" using assms by (simp add: timelock_wf_def)
  moreover have "executed_call (tl_operation s i) = {#}" using assms by (simp add: executed_call_def)
  moreover have "(\<Sum>j\<in>{..<n} - {i}. executed_call (tl_operation (set_operation i op' s) j)) =
    (\<Sum>j\<in>{..<n} - {i}. executed_call (tl_operation s j))" for n
    by (rule sum.cong) auto
  ultimately show ?thesis
    by (simp add: executed_calls_def sum.remove [of "{..<_}" i] del: lessThan_iff)
      (simp add: sum.remove [of _ i])
qed

lemma executed_calls_keeper [simp]: "executed_calls (s\<lparr>tl_keeper := k\<rparr>) = executed_calls s"
  by (simp add: executed_calls_def)

lemma journaled_forward:
  assumes "timelock_forward (journaled callee) e i op (s, wl) = (ok, sw')"
    and "journal_inv (s, wl)" and "tl_operation s i = Some op" and "op_status op \<noteq> OpExecuted"
  shows "journal_inv sw'"
  using assms(1)
proof (cases rule: timelock_forward_cases)
  case (executed r w')
  with assms show ?thesis
    by (auto simp: journal_inv_def set_operation_wf executed_calls_set_operation executed_call_def
        op_call_def journaled_def split: prod.splits)
next
  case (failed r w')
  with assms show ?thesis
    by (auto simp: journal_inv_def set_operation_wf executed_calls_set_operation executed_call_def)
qed

lemma journaled_sweep_one:
  "journal_inv (snd (snd st)) \<Longrightarrow> journal_inv (snd (snd (sweep_one (journaled callee) e i st)))"
  by (cases st; cases "snd (snd st)")
    (auto simp: sweep_one_def is_due_def dest!: journaled_forward split: option.splits prod.splits)

lemma journaled_sweep:
  "journal_inv (snd (snd st)) \<Longrightarrow>
   journal_inv (snd (snd (fold (sweep_one (journaled callee) e) is st)))"
  by (induction "is" arbitrary: st) (simp_all add: journaled_sweep_one)

lemma executed_calls_new:
  assumes "timelock_wf s" and "op_status op \<noteq> OpExecuted"
  shows "executed_calls ((set_operation (unwrap_or (tl_next_id s) 0) op s)
    \<lparr>tl_next_id := Some (unwrap_or (tl_next_id s) 0 + 1)\<rparr>) = executed_calls s"
  using assms by (simp add: executed_calls_def executed_call_def)

lemma journal_exec:
  assumes "journal_inv (s, wl)" and "timelock_exec (journaled callee) e c (s, wl) = Ok (u, (s', wl'))"
  shows "journal_inv (s', wl')"
proof -
  have wf': "timelock_wf s'" using assms by (auto simp: journal_inv_def dest: timelock_exec_wf)
  show ?thesis
  proof (cases c)
    case (TlExecuteDue k)
    with assms(2) obtain x f r where
      "execute_due (journaled callee) e k (s, wl) = Ok ((x, f, r), (s', wl'))" by auto
    then obtain s1 where
      "fold (sweep_one (journaled callee) e) [0..<unwrap_or (tl_next_id s) 0] (0, 0, (s, wl)) = (x, f, (s1, wl'))"
      "settle_keeper_epoch e x s1 = Ok (r, s')"
      by (rule execute_due_Ok)
    with journaled_sweep [of "(0, 0, (s, wl))" callee e "[0..<unwrap_or (tl_next_id s) 0]"] assms(1) wf'
    show ?thesis by (auto simp: journal_inv_def executed_calls_def)
  next
    case (TlExecute i)
    with assms show ?thesis
      by (auto simp: timelock_execute_def timelock_execute_body_def
          split: option.splits if_splits prod.splits dest: journaled_forward)
  next
    case (TlRetry i)
    with assms show ?thesis
      by (auto simp: timelock_retry_def timelock_retry_body_def
          split: option.splits if_splits prod.splits dest: journaled_forward)
  next
    case (TlQueue a f args eta)
    with assms wf' show ?thesis
      by (auto simp: on_timelock_def journal_inv_def executed_calls_new [simplified]
          timelock_new_operation_def dest!: timelock_queue_Ok(2))
  next
    case (TlInitialize a d)
    with assms wf' show ?thesis
      by (auto simp: on_timelock_def timelock_initialize_def journal_inv_def timelock_wf_def
          executed_calls_def executed_call_def split: if_splits)
  qed (use assms wf' in \<open>auto simp: timelock_admin_ops journal_inv_def executed_calls_set_operation
         executed_call_def split: if_splits\<close>)
qed

interpretation tlj: contract_invariant "timelock_exec (journaled callee)" journal_inv
  for callee :: "'w callee"
proof
  fix s s' e c r assume "journal_inv s" "timelock_exec (journaled callee) e c s = Ok (r, s')"
  then show "journal_inv s'" by (cases s; cases s') (auto dest: journal_exec)
qed

section \<open>Where an operation comes from\<close>

lemma exec_new_operation:
  assumes "timelock_exec callee e c (s, w) = Ok (u, (s', w'))"
    and "tl_operation s i = None" and "tl_operation s' i = Some op"
  obtains a f args eta where "c = TlQueue a f args eta" "timelock_queue e a f args eta s = Ok (i, s')"
    "op = timelock_new_operation a f args eta"
proof (cases c)
  case (TlQueue a f args eta)
  then obtain j where q: "timelock_queue e a f args eta s = Ok (j, s')"
    using assms(1) by (auto simp: on_timelock_def)
  with assms timelock_queue_Ok(1,2) [OF q] have "j = i" "op = timelock_new_operation a f args eta"
    by (auto split: if_splits)
  with TlQueue q that show thesis by simp
next
  case (TlExecuteDue k)
  with assms obtain x f r where "execute_due callee e k (s, w) = Ok ((x, f, r), (s', w'))" by auto
  then obtain s1 where "sweep_inv e s (unwrap_or (tl_next_id s) 0) (x, f, (s1, w'))"
    "settle_keeper_epoch e x s1 = Ok (r, s')" by (rule execute_due_Ok)
  then show thesis using assms(2,3)
    by (cases "i < unwrap_or (tl_next_id s) 0")
      (auto simp: sweep_inv_def swept_def dest!: spec [of _ i])
next
  case (TlExecute j)
  with assms show thesis by (auto elim!: timelock_execute_Ok split: if_splits)
next
  case (TlRetry j)
  with assms show thesis by (auto elim!: timelock_retry_Ok split: if_splits)
qed (use assms in \<open>auto simp: timelock_admin_ops timelock_initialize_def split: if_splits\<close>)

text \<open>\<open>tl_state_after callee txs w\<close>: the timelock after the transactions \<open>txs\<close>.\<close>

abbreviation tl_state_after :: "'w callee \<Rightarrow> (env \<times> timelock_call) list \<Rightarrow> 'w \<Rightarrow> timelock" where
  "tl_state_after callee txs w \<equiv> fst (run_txs (timelock_exec callee) txs (timelock_undeployed, w))"

lemma tl_state_after_wf: "timelock_wf (tl_state_after callee txs w)"
  by (rule tl.run_keeps) simp

lemma tl_state_after_snoc:
  obtains (unchanged) "tl_state_after callee (txs @ [(e, c)]) w = tl_state_after callee txs w"
  | (step) w1 w2 where
      "timelock_exec callee e c (tl_state_after callee txs w, w1) =
       Ok ((), (tl_state_after callee (txs @ [(e, c)]) w, w2))"
proof (cases "timelock_exec callee e c (run_txs (timelock_exec callee) txs (timelock_undeployed, w))")
  case (Ok p)
  obtain s1 w1 where run: "run_txs (timelock_exec callee) txs (timelock_undeployed, w) = (s1, w1)"
    by (cases "run_txs (timelock_exec callee) txs (timelock_undeployed, w)")
  obtain s2 w2 where "p = ((), (s2, w2))" by (metis old.unit.exhaust prod.collapse)
  with Ok run step [of w1 w2] show thesis by (simp add: run_txs_append)
qed (use unchanged in \<open>simp_all add: run_txs_append\<close>)

lemma operation_queued:
  assumes "tl_operation (tl_state_after callee txs w) i = Some op"
  shows "\<exists>pre e mid s'. txs = pre @ (e, TlQueue (op_target op) (op_function op) (op_args op) (op_eta op)) # mid \<and>
    timelock_queue e (op_target op) (op_function op) (op_args op) (op_eta op)
      (tl_state_after callee pre w) = Ok (i, s')"
  using assms
proof (induction txs arbitrary: op rule: rev_induct)
  case Nil
  then show ?case by (simp add: timelock_undeployed_def)
next
  case (snoc tx txs)
  obtain e c where tx: "tx = (e, c)" by (cases tx)
  show ?case
  proof (cases "tl_operation (tl_state_after callee txs w) i")
    case (Some op0)
    have "op_call op = op_call op0 \<and> op_eta op = op_eta op0"
      using tl_state_after_snoc [of callee txs e c w]
    proof cases
      case unchanged
      with snoc.prems Some tx show ?thesis by simp
    next
      case (step w1 w2)
      from exec_transition [OF step tl_state_after_wf Some] snoc.prems tx
      show ?thesis by (auto dest: op_transition_frame)
    qed
    with snoc.IH [OF Some] show ?thesis by (fastforce simp: op_call_def)
  next
    case None
    show ?thesis using tl_state_after_snoc [of callee txs e c w]
    proof cases
      case unchanged
      with snoc.prems tx None show ?thesis by simp
    next
      case (step w1 w2)
      obtain a f args eta where "c = TlQueue a f args eta" "op = timelock_new_operation a f args eta"
        "timelock_queue e a f args eta (tl_state_after callee txs w) =
         Ok (i, tl_state_after callee (txs @ [(e, c)]) w)"
        using exec_new_operation [OF step None] snoc.prems tx by metis
      with tx show ?thesis by (fastforce simp: timelock_new_operation_def)
    qed
  qed
qed

lemma operation_executed:
  assumes "tl_operation (tl_state_after callee txs w) i = Some op" and "op_status op = OpExecuted"
  shows "\<exists>pre e c post op0. txs = pre @ (e, c) # post \<and>
    tl_operation (tl_state_after callee pre w) i = Some op0 \<and> op_status op0 \<noteq> OpExecuted \<and>
    op_call op0 = op_call op \<and> op_eta op0 = op_eta op \<and> op_eta op \<le> timestamp e"
  using assms
proof (induction txs arbitrary: op rule: rev_induct)
  case Nil
  then show ?case by (simp add: timelock_undeployed_def)
next
  case (snoc tx txs)
  obtain e c where tx: "tx = (e, c)" by (cases tx)
  show ?case using tl_state_after_snoc [of callee txs e c w]
  proof cases
    case unchanged
    with snoc.IH [of op] snoc.prems tx show ?thesis by fastforce
  next
    case (step w1 w2)
    have "tl_operation (tl_state_after callee txs w) i \<noteq> None"
    proof
      assume "tl_operation (tl_state_after callee txs w) i = None"
      from exec_new_operation [OF step this] snoc.prems tx show False
        by (metis operation_status.distinct(1) timelock_new_operation_def timelock_operation.select_convs(5))
    qed
    then obtain op0 where op0: "tl_operation (tl_state_after callee txs w) i = Some op0" by auto
    from exec_transition [OF step tl_state_after_wf op0] snoc.prems tx
    have tr: "op_transition e op0 op" by auto
    show ?thesis
    proof (cases "op_status op0 = OpExecuted")
      case True
      with tr have "op = op0" by (auto simp: op_finished_def dest: op_transition_finished)
      with snoc.IH [OF op0 True] show ?thesis by fastforce
    next
      case False
      with op0 tr op_transition_frame [OF tr] op_transition_executed [OF tr snoc.prems(2)] tx
      show ?thesis by fastforce
    qed
  qed
qed

section \<open>Properties\<close>

text \<open>A small deployment the witnesses run: admin 1, delay 100 s, one queued call due at 200.\<close>

definition tl_env :: "nat \<Rightarrow> env" where
  "tl_env t = \<lparr>timestamp = t, ledger_seq = 0, auth = (\<lambda>_. True), this = 0\<rparr>"

definition tl_callee :: "nat callee" where
  "tl_callee e w a f args =
     (if f = ''fail'' then (CallErr (InvokeContract 7), w) else (CallOk (VBool True), Suc w))"

definition tl_queued :: "symbol \<Rightarrow> (env \<times> timelock_call) list" where
  "tl_queued f = [(tl_env 50, TlInitialize 1 100), (tl_env 60, TlSetKeeperConfig 10 15 1000),
     (tl_env 70, TlQueue 5 f [] 200)]"

definition tl_example :: "symbol \<Rightarrow> operation_status \<Rightarrow> timelock" where
  "tl_example f st = \<lparr>tl_admin = Some 1, tl_min_delay = Some 100, tl_next_id = Some 1,
     tl_operation = [0 \<mapsto> (timelock_new_operation 5 f [] 200)\<lparr>op_status := st\<rparr>],
     tl_keeper = Some \<lparr>reward_per_call = 10, cap_per_epoch = 15, epoch_len_secs = 1000,
       epoch_start = 60, epoch_spent = 0\<rparr>\<rparr>"

lemmas tl_entry_defs = timelock_initialize_def timelock_queue_def timelock_execute_def
  timelock_execute_body_def timelock_forward_def try_invoke_def timelock_admin_ops
  timelock_undeployed_def timelock_new_operation_def set_operation_def tl_env_def tl_callee_def
  tl_queued_def tl_example_def require_auth_def ok_or_def u64_add_def u64_max_def Let_def

lemma tl_queued_state:
  "run_txs (timelock_exec tl_callee) (tl_queued f) (timelock_undeployed, w) = (tl_example f OpPending, w)"
  by (simp add: tl_entry_defs del: and_then_Ok_iff and_then_Err_iff and_then_Trap_iff)

lemma tl_executed_state:
  "run_txs (timelock_exec tl_callee) (tl_queued ''go'' @ [(tl_env 200, TlExecute 0)]) (timelock_undeployed, 0) =
   (tl_example ''go'' OpExecuted, 1)"
  by (simp add: run_txs_append tl_queued_state)
    (simp add: tl_entry_defs fun_eq_iff del: and_then_Ok_iff and_then_Err_iff and_then_Trap_iff)

text \<open>C17. Every operation that is \<open>Executed\<close> after any sequence of transactions on a freshly
deployed timelock was queued by an earlier successful \<open>queue\<close> call with the same target,
function, arguments and \<open>eta\<close>, authorized by the admin of that moment, and it became
\<open>Executed\<close> in a later transaction whose ledger time is at least the minimum delay after the
queueing and not before \<open>eta\<close>.\<close>

theorem executed_operation_waited:
  assumes "tl_operation (fst (run_txs (timelock_exec callee) txs (timelock_undeployed, w))) i = Some op"
    and "op_status op = OpExecuted"
  shows "\<exists>pre e1 mid e2 c post s1.
    txs = pre @ (e1, TlQueue (op_target op) (op_function op) (op_args op) (op_eta op)) # mid
             @ (e2, c) # post \<and>
    s1 = fst (run_txs (timelock_exec callee) pre (timelock_undeployed, w)) \<and>
    (\<exists>s1'. timelock_queue e1 (op_target op) (op_function op) (op_args op) (op_eta op) s1 = Ok (i, s1')) \<and>
    (\<exists>a. tl_admin s1 = Some a \<and> auth e1 a) \<and>
    timestamp e1 + min_delay s1 \<le> op_eta op \<and> op_eta op \<le> timestamp e2"
proof -
  from operation_executed [OF assms] obtain pre' e2 c post op0 where
    split: "txs = pre' @ (e2, c) # post" and op0: "tl_operation (tl_state_after callee pre' w) i = Some op0"
    and same: "op_call op0 = op_call op" "op_eta op0 = op_eta op" and eta: "op_eta op \<le> timestamp e2"
    by blast
  from operation_queued [OF op0] same obtain pre e1 mid s' where
    "pre' = pre @ (e1, TlQueue (op_target op) (op_function op) (op_args op) (op_eta op)) # mid" and
    q: "timelock_queue e1 (op_target op) (op_function op) (op_args op) (op_eta op)
      (tl_state_after callee pre w) = Ok (i, s')"
    by (auto simp: op_call_def)
  with split eta timelock_queue_Ok(3,4) [OF q] show ?thesis by fastforce
qed

theorem executed_operation_waited_witness:
  "\<exists>pre e1 mid e2 c post s1.
    tl_queued ''go'' @ [(tl_env 200, TlExecute 0)] =
      pre @ (e1, TlQueue 5 ''go'' [] 200) # mid @ (e2, c) # post \<and>
    s1 = fst (run_txs (timelock_exec tl_callee) pre (timelock_undeployed, 0)) \<and>
    (\<exists>s1'. timelock_queue e1 5 ''go'' [] 200 s1 = Ok (0, s1')) \<and>
    (\<exists>a. tl_admin s1 = Some a \<and> auth e1 a) \<and>
    timestamp e1 + min_delay s1 \<le> 200 \<and> 200 \<le> timestamp e2"
  using executed_operation_waited [of tl_callee "tl_queued ''go'' @ [(tl_env 200, TlExecute 0)]" 0 0
      "(timelock_new_operation 5 ''go'' [] 200)\<lparr>op_status := OpExecuted\<rparr>"]
  unfolding tl_executed_state by (simp add: tl_example_def timelock_new_operation_def)

text \<open>Whatever the called contracts do, the calls of the timelock that took effect are, as a
multiset, exactly the calls of the operations that ended \<open>Executed\<close>: no operation is forwarded
successfully twice, and none is marked executed without its call having succeeded.\<close>

theorem executed_calls_exact:
  "mset (snd (snd (run_txs (timelock_exec (journaled callee)) txs (timelock_undeployed, (w, []))))) =
   executed_calls (fst (run_txs (timelock_exec (journaled callee)) txs (timelock_undeployed, (w, []))))"
proof -
  have "journal_inv (timelock_undeployed, (w, []))"
    by (simp add: journal_inv_def executed_calls_def timelock_undeployed_def timelock_wf_def)
  from tlj.run_keeps [OF this] show ?thesis by (simp add: journal_inv_def)
qed

text \<open>An operation that was executed, cancelled or expired is final: no later sequence of
transactions changes any field of its record.\<close>

theorem finished_operation_frozen:
  assumes "tl_operation (fst (run_txs (timelock_exec callee) txs (timelock_undeployed, w))) i = Some op"
    and "op_status op \<in> {OpExecuted, OpCancelled, OpExpired}"
  shows "tl_operation (fst (run_txs (timelock_exec callee) (txs @ later) (timelock_undeployed, w))) i
    = Some op"
proof (induction later rule: rev_induct)
  case Nil
  show ?case using assms by simp
next
  case (snoc tx later)
  obtain e c where tx: "tx = (e, c)" by (cases tx)
  have fin: "op_finished op" using assms(2) by (simp add: op_finished_def)
  show ?case using tl_state_after_snoc [of callee "txs @ later" e c w]
  proof cases
    case unchanged
    with snoc.IH tx show ?thesis by simp
  next
    case (step w1 w2)
    from exec_transition [OF step tl_state_after_wf snoc.IH] fin tx show ?thesis
      by (auto dest: op_transition_finished)
  qed
qed

theorem finished_operation_frozen_witness:
  "tl_operation (fst (run_txs (timelock_exec tl_callee)
     ((tl_queued ''go'' @ [(tl_env 200, TlExecute 0)]) @ [(tl_env 300, TlExecute 0), (tl_env 300, TlExecuteDue 2)])
     (timelock_undeployed, 0))) 0 = Some ((timelock_new_operation 5 ''go'' [] 200)\<lparr>op_status := OpExecuted\<rparr>)"
  by (rule finished_operation_frozen) (simp_all only: tl_executed_state, simp_all add: tl_example_def)

text \<open>A keeper sweep returns counts that add up to the number of due operations, the first
count being those it executed; afterwards nothing is due, every due operation is \<open>Executed\<close> or
\<open>Failed\<close>, and every other operation is untouched.\<close>

theorem execute_due_sweeps:
  assumes "execute_due callee e keeper (s, w) = Ok ((executed, failed, reward), (s', w'))"
  shows "executed + failed = due_count e s \<and> due_count e s' = 0 \<and>
    executed = card {i. i < unwrap_or (tl_next_id s) 0 \<and> due_at e s i \<and> done_at s' i} \<and>
    (\<forall>i op. i < unwrap_or (tl_next_id s) 0 \<and> tl_operation s i = Some op \<longrightarrow>
      (\<exists>op'. tl_operation s' i = Some op' \<and>
        (if is_due e op then op_status op' \<in> {OpExecuted, OpFailed} \<and> op_call op' = op_call op
         else op' = op)))"
proof (intro conjI allI impI)
  obtain s1 where s1: "sweep_inv e s (unwrap_or (tl_next_id s) 0) (executed, failed, (s1, w'))"
    "settle_keeper_epoch e executed s1 = Ok (reward, s')"
    using assms by (rule execute_due_Ok)
  note same = settle_keeper_epoch_operation [OF s1(2)]
  have sw: "swept e (tl_operation s j) (tl_operation s' j)" if "j < unwrap_or (tl_next_id s) 0" for j
    using s1(1) that same by (simp add: sweep_inv_def)
  show "executed + failed = due_count e s" using s1 by (simp add: sweep_inv_def due_count_eq)
  show "executed = card {i. i < unwrap_or (tl_next_id s) 0 \<and> due_at e s i \<and> done_at s' i}"
    using s1(1) same by (simp add: sweep_inv_def done_at_def)
  have "\<not> due_at e s' j" if "j < unwrap_or (tl_next_id s') 0" for j
    using sw [of j] that same sweep_inv_frame(3) [OF s1(1)]
    by (auto simp: due_at_def swept_def is_due_def split: option.splits if_splits)
  then show "due_count e s' = 0" by (simp add: due_count_eq)
  fix i op assume "i < unwrap_or (tl_next_id s) 0 \<and> tl_operation s i = Some op"
  then show "\<exists>op'. tl_operation s' i = Some op' \<and>
      (if is_due e op then op_status op' \<in> {OpExecuted, OpFailed} \<and> op_call op' = op_call op
       else op' = op)"
    using sw [of i] by (auto simp: swept_def op_call_def timelock_mark_failed_def split: if_splits)
qed

lemmas tl_settle_defs = settle_keeper_epoch_def i128_sub_def i128_add_def i128_checked_def
  i128_opt_def int_width_defs

lemma tl_sweep_one_example:
  "sweep_one tl_callee (tl_env 250) 0 (0, 0, (tl_example f OpPending, 0)) =
    (if f = ''fail'' then (0, 1, (set_operation 0 ((timelock_new_operation 5 f [] 200)
        \<lparr>op_status := OpFailed, op_attempt_count := 1, op_last_failed_at := 250\<rparr>) (tl_example f OpPending), 0))
     else (1, 0, (set_operation 0 ((timelock_new_operation 5 f [] 200)\<lparr>op_status := OpExecuted\<rparr>)
        (tl_example f OpPending), 1)))"
proof -
  have "timelock_forward tl_callee (tl_env 250) 0 (timelock_new_operation 5 f [] 200) (tl_example f OpPending, 0) =
    (if f = ''fail'' then (False, (set_operation 0 ((timelock_new_operation 5 f [] 200)
        \<lparr>op_status := OpFailed, op_attempt_count := 1, op_last_failed_at := 250\<rparr>) (tl_example f OpPending), 0))
     else (True, (set_operation 0 ((timelock_new_operation 5 f [] 200)\<lparr>op_status := OpExecuted\<rparr>)
        (tl_example f OpPending), 1)))"
    by (simp add: timelock_forward_def try_invoke_def tl_callee_def timelock_mark_failed_def
        failure_code_of_def u32_sat_add_def u32_max_def timelock_new_operation_def tl_env_def)
  moreover have "tl_operation (tl_example f OpPending) 0 = Some (timelock_new_operation 5 f [] 200)"
    by (simp add: tl_example_def timelock_new_operation_def)
  moreover have "is_due (tl_env 250) (timelock_new_operation 5 f [] 200)"
    by (simp add: is_due_def timelock_new_operation_def tl_env_def)
  ultimately show ?thesis by (simp add: sweep_one_def)
qed

lemma tl_settle_example:
  "x < 2 \<Longrightarrow> settle_keeper_epoch (tl_env 250) x (set_operation 0 op (tl_example f OpPending)) =
   Ok (int x * 10, (set_operation 0 op (tl_example f OpPending))\<lparr>tl_keeper := Some
     \<lparr>reward_per_call = 10, cap_per_epoch = 15, epoch_len_secs = 1000, epoch_start = 60,
      epoch_spent = int x * 10\<rparr>\<rparr>)"
  by (cases "x = 0") (simp_all add: tl_settle_defs tl_example_def tl_env_def u64_add_def Let_def
      set_operation_def del: and_then_Ok_iff)

lemma tl_sweep_example:
  obtains s' where "execute_due tl_callee (tl_env 250) 9 (tl_example ''fail'' OpPending, 0) = Ok ((0, 1, 0), (s', 0))"
  using tl_sweep_one_example [of "''fail''"] tl_settle_example [of 0 _ "''fail''"]
  by (simp add: execute_due_def execute_due_loop_fold require_auth_def tl_env_def [of 250] tl_example_def [of "''fail''"])

lemma tl_sweep_example_paid:
  obtains s' where "execute_due tl_callee (tl_env 250) 9 (tl_example ''go'' OpPending, 0) = Ok ((1, 0, 10), (s', 1))"
  using tl_sweep_one_example [of "''go''"] tl_settle_example [of 1 _ "''go''"]
  by (simp add: execute_due_def execute_due_loop_fold require_auth_def tl_env_def [of 250] tl_example_def [of "''go''"])

theorem execute_due_sweeps_witness:
  "(0::nat) + 1 = due_count (tl_env 250) (tl_example ''fail'' OpPending)"
proof -
  obtain s' where "execute_due tl_callee (tl_env 250) 9 (tl_example ''fail'' OpPending, 0) = Ok ((0, 1, 0), (s', 0))"
    by (rule tl_sweep_example)
  from execute_due_sweeps [OF this] show ?thesis by blast
qed

text \<open>In every reachable state a keeper sweep pays a reward between 0 and the configured
reward per executed operation, adds it to what the running epoch has already spent (or starts a
new epoch with it), and never lets the epoch spend more than the cap.\<close>

theorem keeper_reward_capped:
  assumes "run_txs (timelock_exec callee) txs (timelock_undeployed, w0) = (s, w)"
    and "execute_due callee e keeper (s, w) = Ok ((executed, failed, reward), (s', w'))"
    and "cfg = unwrap_or (tl_keeper s) (keeper_default e)"
  shows "\<exists>cfg'. tl_keeper s' = Some cfg' \<and> cap_per_epoch cfg' = cap_per_epoch cfg \<and>
    0 \<le> reward \<and> reward \<le> int executed * reward_per_call cfg \<and>
    epoch_spent cfg' =
      (if epoch_start cfg + epoch_len_secs cfg \<le> timestamp e then 0 else epoch_spent cfg) + reward \<and>
    epoch_spent cfg' \<le> cap_per_epoch cfg'"
proof -
  have wf: "timelock_wf s" using tl_state_after_wf [of callee txs w0] assms(1) by simp
  obtain s1 where s1: "sweep_inv e s (unwrap_or (tl_next_id s) 0) (executed, failed, (s1, w'))"
    "settle_keeper_epoch e executed s1 = Ok (reward, s')"
    using assms(2) by (rule execute_due_Ok)
  have "timelock_wf s1" using sweep_inv_wf [OF s1(1) wf] .
  from settle_keeper_epoch_Ok [OF s1(2) this] assms(3) sweep_inv_frame(4) [OF s1(1)]
  show ?thesis by metis
qed

theorem keeper_reward_capped_witness:
  "(10::int) \<le> int 1 * 10 \<and> epoch_spent (unwrap_or (tl_keeper (tl_example ''go'' OpPending)) (keeper_default (tl_env 250))) + 10 \<le> 15"
proof -
  obtain s' where "execute_due tl_callee (tl_env 250) 9 (tl_example ''go'' OpPending, 0) = Ok ((1, 0, 10), (s', 1))"
    by (rule tl_sweep_example_paid)
  from keeper_reward_capped [OF tl_queued_state this refl] show ?thesis
    by (auto simp: tl_example_def tl_env_def)
qed

text \<open>\<open>execute\<close> succeeds exactly on a stored \<open>Pending\<close> operation that is due and whose call
succeeds, and then sets its status to \<open>Executed\<close> and keeps the callee's writes; when the call
fails it returns an error and, the host discarding its writes, leaves the operation and the
other contracts exactly as they were: \<open>execute\<close> never leaves an operation \<open>Failed\<close>.\<close>

theorem timelock_execute_outcome:
  "timelock_execute callee e i (s, w) =
    (case tl_operation s i of
       None \<Rightarrow> Err TlNotFound
     | Some op \<Rightarrow>
         if op_status op \<noteq> OpPending then Err TlAlreadyDone
         else if timestamp e < op_eta op then Err TlNotReady
         else case callee e w (op_target op) (op_function op) (op_args op) of
           (r, w') \<Rightarrow> if call_ok r then Ok ((), (set_operation i (op\<lparr>op_status := OpExecuted\<rparr>) s, w'))
                      else Err TlNotFound)"
  by (simp add: timelock_execute_def timelock_execute_body_def timelock_forward_def try_invoke_def
      Let_def host_commit_def split: option.split prod.split)

end
