(* ===== verification/Oracle.thy ===== *)
theory Oracle
  imports Soroban
begin

text \<open>
  The oracle contract (\<open>src/oracle/src/lib.rs\<close>): relayer admission with its notice period,
  rate-limited and ordered submission of readings, relayer reputation, and the trigger and
  guardian queries.

  The state is the record \<open>oracle_store\<close>, one field per storage key the code uses (the keys
  \<open>FallbackOracle\<close>, \<open>RelayerReading\<close>, \<open>ReadingHistory\<close> and \<open>RelayerBond\<close> and the type
  \<open>RelayerBondRecord\<close> are declared in the source and never read or written).  The fields of
  a reading carry the prefix \<open>rd_\<close>.  \<open>submit\<close> records the submission time before its last
  check, so it is written with its writes and closed by \<open>host_commit\<close>.

  The lemmas show that a feed never moves back in time and never holds a reading from the
  future, that accepted submissions of one relayer to one feed are spaced by the rate limit,
  that every relayer was queued by the admin and waited out the notice period, and what the
  trigger and guardian queries return.
\<close>

section \<open>Constants and state\<close>

definition MAX_STALENESS_SECS :: nat where "MAX_STALENESS_SECS = 1800"
definition MIN_ADDITION_NOTICE_PERIOD_SECS :: nat where
  "MIN_ADDITION_NOTICE_PERIOD_SECS = 48 * 60 * 60"
definition MIN_SUBMISSION_INTERVAL_SECS :: nat where "MIN_SUBMISSION_INTERVAL_SECS = 60"
definition ORACLE_SCALE :: int where "ORACLE_SCALE = 10000000"
definition DEPEG_PRICE_THRESHOLD :: int where
  "DEPEG_PRICE_THRESHOLD = trunc_div (95 * ORACLE_SCALE) 100"
definition CRASH_RETURN_THRESHOLD :: int where
  "CRASH_RETURN_THRESHOLD = trunc_div (-30 * ORACLE_SCALE) 100"
definition LIQUIDATION_RATIO_THRESHOLD :: int where
  "LIQUIDATION_RATIO_THRESHOLD = trunc_div (85 * ORACLE_SCALE) 100"
definition TVL_THRESHOLD :: int where "TVL_THRESHOLD = 500000 * ORACLE_SCALE"
definition FLIGHT_DELAY_THRESHOLD :: int where "FLIGHT_DELAY_THRESHOLD = 120"
definition REPUTATION_INITIAL :: int where "REPUTATION_INITIAL = 100"
definition REPUTATION_FLOOR :: int where "REPUTATION_FLOOR = 1"
definition REPUTATION_CEILING :: int where "REPUTATION_CEILING = 1000"

lemmas oracle_const_defs = MAX_STALENESS_SECS_def MIN_ADDITION_NOTICE_PERIOD_SECS_def
  MIN_SUBMISSION_INTERVAL_SECS_def ORACLE_SCALE_def DEPEG_PRICE_THRESHOLD_def
  CRASH_RETURN_THRESHOLD_def LIQUIDATION_RATIO_THRESHOLD_def TVL_THRESHOLD_def
  FLIGHT_DELAY_THRESHOLD_def REPUTATION_INITIAL_def REPUTATION_FLOOR_def REPUTATION_CEILING_def

datatype oracle_error =
    OrAlreadyInitialized | OrNotInitialized | OrUnauthorized | OrFeedNotFound | OrStaleReading
  | OrUnknownCoverageType | OrFutureTimestamp | OrStaleSubmission | OrNoPendingAdmin
  | OrSubmittedTooSoon | OrInsufficientBond | OrRelayerNotBonded | OrInvalidSlashAmount
  | OrRelayerNotPending | OrNoticePeriodNotElapsed

record feed_health =
  last_updated_at :: nat
  active_relayer_count :: nat
  recent_rejection_count :: nat

record oracle_reading =
  rd_value :: int
  rd_timestamp :: nat
  rd_source :: symbol

record feed_metadata =
  fm_decimals :: nat
  fm_source_name :: symbol
  fm_expected_cadence_secs :: nat

record oracle_store =
  o_admin :: "address option"
  o_relayers :: "address list option"
  o_reading :: "symbol \<rightharpoonup> oracle_reading"
  o_metadata :: "symbol \<rightharpoonup> feed_metadata"
  o_last_submission :: "address \<times> symbol \<rightharpoonup> nat"
  o_reputation :: "address \<rightharpoonup> int"
  o_version :: "nat option"
  o_wasm :: "nat option"
  o_pending_admin :: "address option"
  o_threshold :: "symbol \<rightharpoonup> int"
  o_pending_relayer :: "address \<rightharpoonup> nat"

definition oracle_undeployed :: oracle_store where
  "oracle_undeployed = \<lparr>o_admin = None, o_relayers = None, o_reading = (\<lambda>_. None),
     o_metadata = (\<lambda>_. None), o_last_submission = (\<lambda>_. None), o_reputation = (\<lambda>_. None),
     o_version = None, o_wasm = None, o_pending_admin = None, o_threshold = (\<lambda>_. None),
     o_pending_relayer = (\<lambda>_. None)\<rparr>"

type_synonym 'a oracle_result = "(oracle_error, 'a \<times> oracle_store) outcome"

section \<open>Entry points\<close>

definition oracle_require_admin :: "env \<Rightarrow> oracle_store \<Rightarrow> (oracle_error, unit) outcome" where
  "oracle_require_admin e s = and_then (ok_or (o_admin s) OrNotInitialized) (require_auth e)"

definition list_relayers :: "oracle_store \<Rightarrow> address list" where
  "list_relayers s = unwrap_or (o_relayers s) []"

definition require_relayer :: "address \<Rightarrow> oracle_store \<Rightarrow> (oracle_error, unit) outcome" where
  "require_relayer relayer s =
     (if \<not> list_ex (\<lambda>r. r = relayer) (unwrap_or (o_relayers s) []) then Err OrUnauthorized else Ok ())"

definition oracle_initialize :: "env \<Rightarrow> address \<Rightarrow> oracle_store \<Rightarrow> unit oracle_result" where
  "oracle_initialize e admin s =
     (if o_admin s \<noteq> None then Err OrAlreadyInitialized
      else Ok ((), s\<lparr>o_admin := Some admin, o_relayers := Some []\<rparr>))"

definition add_relayer :: "env \<Rightarrow> address \<Rightarrow> oracle_store \<Rightarrow> unit oracle_result" where
  "add_relayer e relayer s =
     and_then (oracle_require_admin e s) (\<lambda>_.
     if list_ex (\<lambda>r. r = relayer) (unwrap_or (o_relayers s) []) then Ok ((), s)
     else Ok ((), s\<lparr>o_pending_relayer := (o_pending_relayer s)(relayer \<mapsto> timestamp e)\<rparr>))"

definition activate_relayer :: "env \<Rightarrow> address \<Rightarrow> oracle_store \<Rightarrow> unit oracle_result" where
  "activate_relayer e relayer s =
     and_then (ok_or (o_pending_relayer s relayer) OrRelayerNotPending) (\<lambda>queued_at.
     if timestamp e < u64_sat_add queued_at MIN_ADDITION_NOTICE_PERIOD_SECS
     then Err OrNoticePeriodNotElapsed
     else
       let relayers = unwrap_or (o_relayers s) [];
           s = (if \<not> list_ex (\<lambda>r. r = relayer) relayers
                then s\<lparr>o_relayers := Some (relayers @ [relayer]),
                       o_reputation := (o_reputation s)(relayer \<mapsto> REPUTATION_INITIAL)\<rparr>
                else s)
       in Ok ((), s\<lparr>o_pending_relayer := (o_pending_relayer s)(relayer := None)\<rparr>))"

definition remove_relayer :: "env \<Rightarrow> address \<Rightarrow> oracle_store \<Rightarrow> unit oracle_result" where
  "remove_relayer e relayer s =
     and_then (oracle_require_admin e s) (\<lambda>_.
     let relayers = unwrap_or (o_relayers s) [];
         filtered = filter (\<lambda>r. r \<noteq> relayer) relayers;
         s = s\<lparr>o_relayers := Some filtered\<rparr>;
         was_pending = (o_pending_relayer s relayer \<noteq> None)
     in Ok ((), if was_pending
                then s\<lparr>o_pending_relayer := (o_pending_relayer s)(relayer := None)\<rparr> else s))"

definition oracle_admin :: "oracle_store \<Rightarrow> address option" where
  "oracle_admin s = o_admin s"

definition oracle_propose_admin :: "env \<Rightarrow> address \<Rightarrow> oracle_store \<Rightarrow> unit oracle_result" where
  "oracle_propose_admin e new_admin s =
     and_then (oracle_require_admin e s) (\<lambda>_. Ok ((), s\<lparr>o_pending_admin := Some new_admin\<rparr>))"

definition oracle_accept_admin :: "env \<Rightarrow> address \<Rightarrow> oracle_store \<Rightarrow> unit oracle_result" where
  "oracle_accept_admin e caller s =
     and_then (require_auth e caller) (\<lambda>_.
     and_then (ok_or (o_pending_admin s) OrNoPendingAdmin) (\<lambda>pending.
     if pending \<noteq> caller then Err OrUnauthorized
     else Ok ((), s\<lparr>o_admin := Some caller, o_pending_admin := None\<rparr>)))"

definition set_threshold :: "env \<Rightarrow> symbol \<Rightarrow> int \<Rightarrow> oracle_store \<Rightarrow> unit oracle_result" where
  "set_threshold e feed threshold s =
     and_then (oracle_require_admin e s) (\<lambda>_.
     Ok ((), s\<lparr>o_threshold := (o_threshold s)(feed \<mapsto> threshold)\<rparr>))"

definition get_threshold :: "symbol \<Rightarrow> oracle_store \<Rightarrow> int option" where
  "get_threshold feed s = o_threshold s feed"

definition oracle_upgrade :: "env \<Rightarrow> nat \<Rightarrow> oracle_store \<Rightarrow> unit oracle_result" where
  "oracle_upgrade e wasm_hash s =
     and_then (oracle_require_admin e s) (\<lambda>_.
     and_then (u32_add (unwrap_or (o_version s) 0) 1) (\<lambda>version.
     Ok ((), s\<lparr>o_wasm := Some wasm_hash, o_version := Some version\<rparr>)))"

definition set_feed_metadata :: "env \<Rightarrow> symbol \<Rightarrow> feed_metadata \<Rightarrow> oracle_store \<Rightarrow> unit oracle_result" where
  "set_feed_metadata e feed metadata s =
     and_then (oracle_require_admin e s) (\<lambda>_.
     Ok ((), s\<lparr>o_metadata := (o_metadata s)(feed \<mapsto> metadata)\<rparr>))"

definition get_feed_metadata :: "symbol \<Rightarrow> oracle_store \<Rightarrow> feed_metadata option" where
  "get_feed_metadata feed s = o_metadata s feed"

definition relayer_reputation :: "address \<Rightarrow> oracle_store \<Rightarrow> int option" where
  "relayer_reputation relayer s = o_reputation s relayer"

definition update_reputation :: "env \<Rightarrow> address \<Rightarrow> int \<Rightarrow> oracle_store \<Rightarrow> unit oracle_result" where
  "update_reputation e relayer delta s =
     and_then (oracle_require_admin e s) (\<lambda>_.
     and_then (i128_add (unwrap_or (o_reputation s relayer) REPUTATION_INITIAL) delta) (\<lambda>sum.
     let updated = min (max sum REPUTATION_FLOOR) REPUTATION_CEILING
     in Ok ((), s\<lparr>o_reputation := (o_reputation s)(relayer \<mapsto> updated)\<rparr>)))"

text \<open>
  \<open>submit\<close>: the checks that come before the first write, then the write of
  \<open>LastSubmissionAt\<close>, the order check, and the write of the reading.
\<close>

definition submit_checks ::
  "env \<Rightarrow> address \<Rightarrow> symbol \<Rightarrow> nat \<Rightarrow> oracle_store \<Rightarrow> (oracle_error, unit) outcome" where
  "submit_checks e relayer feed ts s =
     and_then (require_auth e relayer) (\<lambda>_.
     and_then (require_relayer relayer s) (\<lambda>_.
     if timestamp e < ts then Err OrFutureTimestamp
     else and_then (u64_sub (timestamp e) ts) (\<lambda>age.
     if MAX_STALENESS_SECS < age then Err OrStaleReading
     else case o_last_submission s (relayer, feed) of
            Some last_at \<Rightarrow>
              if timestamp e - last_at < MIN_SUBMISSION_INTERVAL_SECS then Err OrSubmittedTooSoon
              else Ok ()
          | None \<Rightarrow> Ok ())))"

definition submit_body ::
  "env \<Rightarrow> address \<Rightarrow> symbol \<Rightarrow> int \<Rightarrow> nat \<Rightarrow> symbol \<Rightarrow> oracle_store \<Rightarrow> (oracle_error, unit) outcome \<times> oracle_store" where
  "submit_body e relayer feed v ts source s =
     (case submit_checks e relayer feed ts s of
        Err x \<Rightarrow> (Err x, s)
      | Trap \<Rightarrow> (Trap, s)
      | Ok _ \<Rightarrow>
          let s = s\<lparr>o_last_submission := (o_last_submission s)((relayer, feed) \<mapsto> timestamp e)\<rparr>;
              stored = s\<lparr>o_reading := (o_reading s)
                 (feed \<mapsto> \<lparr>rd_value = v, rd_timestamp = ts, rd_source = source\<rparr>)\<rparr>
          in case o_reading s feed of
               Some existing \<Rightarrow>
                 if ts < rd_timestamp existing then (Err OrStaleSubmission, s) else (Ok (), stored)
             | None \<Rightarrow> (Ok (), stored))"

definition submit ::
  "env \<Rightarrow> address \<Rightarrow> symbol \<Rightarrow> int \<Rightarrow> nat \<Rightarrow> symbol \<Rightarrow> oracle_store \<Rightarrow> unit oracle_result" where
  "submit e relayer feed v ts source s = host_commit (submit_body e relayer feed v ts source s)"

section \<open>Queries\<close>

definition get_reading :: "env \<Rightarrow> symbol \<Rightarrow> oracle_store \<Rightarrow> (oracle_error, oracle_reading) outcome" where
  "get_reading e feed s =
     and_then (ok_or (o_reading s feed) OrFeedNotFound) (\<lambda>reading.
     if MAX_STALENESS_SECS < timestamp e - rd_timestamp reading then Err OrStaleReading
     else Ok reading)"

definition is_triggered :: "env \<Rightarrow> nat \<Rightarrow> symbol \<Rightarrow> oracle_store \<Rightarrow> (oracle_error, bool) outcome" where
  "is_triggered e coverage_type feed s =
     and_then (get_reading e feed s) (\<lambda>reading.
     if coverage_type = 0 then Ok (rd_value reading < DEPEG_PRICE_THRESHOLD)
     else if coverage_type = 1 then Ok (rd_value reading < CRASH_RETURN_THRESHOLD)
     else if coverage_type = 2 then Ok (rd_value reading < LIQUIDATION_RATIO_THRESHOLD)
     else if coverage_type = 3 then Ok (rd_value reading < TVL_THRESHOLD)
     else if coverage_type = 4 then Ok (FLIGHT_DELAY_THRESHOLD < rd_value reading)
     else Err OrUnknownCoverageType)"

definition is_stale :: "env \<Rightarrow> symbol \<Rightarrow> nat \<Rightarrow> oracle_store \<Rightarrow> bool" where
  "is_stale e feed max_staleness s =
     (case o_reading s feed of
        None \<Rightarrow> True
      | Some r \<Rightarrow> max_staleness < timestamp e - rd_timestamp r)"

definition depeg_bps :: "symbol \<Rightarrow> int \<Rightarrow> oracle_store \<Rightarrow> int option" where
  "depeg_bps feed peg s =
     (if peg \<le> 0 then None
      else Option.bind (o_reading s feed) (\<lambda>reading.
           Option.bind (if peg \<le> rd_value reading then i128_opt (rd_value reading - peg)
                        else i128_opt (peg - rd_value reading)) (\<lambda>diff.
           Option.bind (i128_opt (diff * 10000)) (\<lambda>scaled.
           i128_opt (trunc_div scaled peg)))))"

definition guardian_status :: "env \<Rightarrow> symbol \<Rightarrow> nat \<Rightarrow> int \<Rightarrow> int \<Rightarrow> oracle_store \<Rightarrow> bool \<times> bool \<times> int" where
  "guardian_status e feed max_staleness peg bps s =
     (let stale = is_stale e feed max_staleness s;
          band = unwrap_or (depeg_bps feed peg s) i128_max;
          depegged = bps < band
      in (stale \<or> depegged, stale, band))"

definition get_feed_health :: "symbol \<Rightarrow> oracle_store \<Rightarrow> feed_health" where
  "get_feed_health feed s =
     \<lparr>last_updated_at = unwrap_or (map_option rd_timestamp (o_reading s feed)) 0,
      active_relayer_count = length (unwrap_or (o_relayers s) []),
      recent_rejection_count = 0\<rparr>"

text \<open>\<open>r.timestamp as i64\<close> reinterprets the 64 bits.\<close>

definition u64_as_i64 :: "nat \<Rightarrow> int" where
  "u64_as_i64 n = (let m = int n mod 2 ^ 64 in if m < 2 ^ 63 then m else m - 2 ^ 64)"

definition list_feeds :: "symbol list \<Rightarrow> oracle_store \<Rightarrow> (symbol \<rightharpoonup> int)" where
  "list_feeds feeds s =
     fold (\<lambda>feed out. case o_reading s feed of
             Some r \<Rightarrow> out(feed \<mapsto> u64_as_i64 (rd_timestamp r)) | None \<Rightarrow> out) feeds (\<lambda>_. None)"

section \<open>The contract as a transaction executor\<close>

datatype oracle_call =
    OrInitialize address
  | OrAddRelayer address
  | OrActivateRelayer address
  | OrRemoveRelayer address
  | OrProposeAdmin address
  | OrAcceptAdmin address
  | OrSetThreshold symbol int
  | OrUpgrade nat
  | OrSetFeedMetadata symbol feed_metadata
  | OrUpdateReputation address int
  | OrSubmit address symbol int nat symbol

fun oracle_exec :: "(oracle_call, oracle_store, oracle_error, unit) executor" where
  "oracle_exec e (OrInitialize a) s = oracle_initialize e a s"
| "oracle_exec e (OrAddRelayer a) s = add_relayer e a s"
| "oracle_exec e (OrActivateRelayer a) s = activate_relayer e a s"
| "oracle_exec e (OrRemoveRelayer a) s = remove_relayer e a s"
| "oracle_exec e (OrProposeAdmin a) s = oracle_propose_admin e a s"
| "oracle_exec e (OrAcceptAdmin a) s = oracle_accept_admin e a s"
| "oracle_exec e (OrSetThreshold f t) s = set_threshold e f t s"
| "oracle_exec e (OrUpgrade w) s = oracle_upgrade e w s"
| "oracle_exec e (OrSetFeedMetadata f m) s = set_feed_metadata e f m s"
| "oracle_exec e (OrUpdateReputation a d) s = update_reputation e a d s"
| "oracle_exec e (OrSubmit a f v ts src) s = submit e a f v ts src s"

section \<open>What each entry point does\<close>

lemma oracle_require_admin_iff [simp]:
  "oracle_require_admin e s = Ok u \<longleftrightarrow> (\<exists>a. o_admin s = Some a \<and> auth e a)"
  by (auto simp: oracle_require_admin_def)

lemma list_ex_eq_iff [simp]: "list_ex (\<lambda>r. r = x) xs \<longleftrightarrow> x \<in> set xs"
  by (auto simp: list_ex_iff)

lemmas oracle_admin_ops = oracle_propose_admin_def oracle_accept_admin_def set_threshold_def
  oracle_upgrade_def set_feed_metadata_def

lemmas oracle_relayer_ops = oracle_initialize_def add_relayer_def activate_relayer_def
  remove_relayer_def update_reputation_def

lemma submit_checks_Ok_iff:
  "submit_checks e relayer feed ts s = Ok u \<longleftrightarrow>
     auth e relayer \<and> relayer \<in> set (list_relayers s) \<and>
     ts \<le> timestamp e \<and> timestamp e \<le> ts + MAX_STALENESS_SECS \<and>
     (\<forall>l. o_last_submission s (relayer, feed) = Some l \<longrightarrow>
        MIN_SUBMISSION_INTERVAL_SECS \<le> timestamp e - l)"
  by (auto simp: submit_checks_def require_relayer_def list_relayers_def not_less
      split: if_splits option.splits)

lemma submit_Ok_iff:
  "submit e relayer feed v ts source s = Ok (u, s') \<longleftrightarrow>
     auth e relayer \<and> relayer \<in> set (list_relayers s) \<and>
     ts \<le> timestamp e \<and> timestamp e \<le> ts + MAX_STALENESS_SECS \<and>
     (\<forall>l. o_last_submission s (relayer, feed) = Some l \<longrightarrow>
        MIN_SUBMISSION_INTERVAL_SECS \<le> timestamp e - l) \<and>
     (\<forall>r. o_reading s feed = Some r \<longrightarrow> rd_timestamp r \<le> ts) \<and>
     s' = s\<lparr>o_last_submission := (o_last_submission s)((relayer, feed) \<mapsto> timestamp e),
            o_reading := (o_reading s)(feed \<mapsto> \<lparr>rd_value = v, rd_timestamp = ts, rd_source = source\<rparr>)\<rparr>"
  using submit_checks_Ok_iff [of e relayer feed ts s]
  by (cases "submit_checks e relayer feed ts s")
    (auto simp: submit_def submit_body_def Let_def split: option.splits)

lemmas submit_OkD = submit_Ok_iff [THEN iffD1]

text \<open>Only \<open>submit\<close> writes readings, and only \<open>activate_relayer\<close> admits a relayer.\<close>

lemma oracle_exec_reading:
  assumes "oracle_exec e c s = Ok (u, s')" and "o_reading s' feed \<noteq> o_reading s feed"
  obtains relayer v ts source where "c = OrSubmit relayer feed v ts source"
    "submit e relayer feed v ts source s = Ok (u, s')"
    "o_reading s' feed = Some \<lparr>rd_value = v, rd_timestamp = ts, rd_source = source\<rparr>"
proof (cases c)
  case (OrSubmit relayer f v ts source)
  with assms have sub: "submit e relayer f v ts source s = Ok (u, s')" by simp
  from submit_OkD [OF this] assms(2) have "f = feed" by (cases "f = feed") auto
  moreover from this submit_OkD [OF sub]
  have "o_reading s' feed = Some \<lparr>rd_value = v, rd_timestamp = ts, rd_source = source\<rparr>" by simp
  ultimately show thesis using that OrSubmit sub by simp
qed (use assms in \<open>auto simp: oracle_admin_ops oracle_relayer_ops Let_def split: if_splits\<close>)

lemma oracle_exec_last_submission:
  assumes "oracle_exec e c s = Ok (u, s')"
  shows "o_last_submission s' k = o_last_submission s k \<or> o_last_submission s' k = Some (timestamp e)"
proof (cases c)
  case (OrSubmit relayer f v ts source)
  with assms show ?thesis by (auto dest!: submit_OkD)
qed (use assms in \<open>auto simp: oracle_admin_ops oracle_relayer_ops Let_def split: if_splits\<close>)

lemma oracle_exec_pending:
  assumes "oracle_exec e c s = Ok (u, s')" and "o_pending_relayer s' r = Some q"
    and "o_pending_relayer s r \<noteq> Some q"
  shows "c = OrAddRelayer r \<and> timestamp e = q \<and> (\<exists>a. o_admin s = Some a \<and> auth e a)"
proof (cases c)
  case (OrSubmit relayer f v ts source)
  with assms show ?thesis by (auto dest!: submit_OkD)
qed (use assms in \<open>auto simp: oracle_admin_ops oracle_relayer_ops Let_def split: if_splits\<close>)

lemma oracle_exec_relayer:
  assumes "oracle_exec e c s = Ok (u, s')" and "r \<in> set (list_relayers s')"
    and "r \<notin> set (list_relayers s)"
  shows "c = OrActivateRelayer r \<and> (\<exists>q. o_pending_relayer s r = Some q \<and>
    u64_sat_add q MIN_ADDITION_NOTICE_PERIOD_SECS \<le> timestamp e)"
proof (cases c)
  case (OrSubmit relayer f v ts source)
  with assms show ?thesis by (auto simp: list_relayers_def dest!: submit_OkD)
qed (use assms in \<open>auto simp: list_relayers_def oracle_admin_ops oracle_relayer_ops Let_def split: if_splits\<close>)

section \<open>Invariants and interfaces\<close>

definition oracle_inv :: "nat \<Rightarrow> oracle_store \<Rightarrow> bool" where
  "oracle_inv t s \<longleftrightarrow>
     (\<forall>f r. o_reading s f = Some r \<longrightarrow> rd_timestamp r \<le> t) \<and>
     (\<forall>k l. o_last_submission s k = Some l \<longrightarrow> l \<le> t) \<and>
     (\<forall>a q. o_pending_relayer s a = Some q \<longrightarrow> q \<le> t) \<and>
     (\<forall>a x. o_reputation s a = Some x \<longrightarrow> REPUTATION_FLOOR \<le> x \<and> x \<le> REPUTATION_CEILING) \<and>
     distinct (list_relayers s)"

definition feed_order :: "oracle_store \<Rightarrow> oracle_store \<Rightarrow> bool" where
  "feed_order s s' \<longleftrightarrow> (\<forall>f r. o_reading s f = Some r \<longrightarrow>
     (\<exists>r'. o_reading s' f = Some r' \<and> rd_timestamp r \<le> rd_timestamp r'))"

definition submitted_since :: "address \<Rightarrow> symbol \<Rightarrow> nat \<Rightarrow> nat \<Rightarrow> oracle_store \<Rightarrow> bool" where
  "submitted_since relayer feed t0 t s \<longleftrightarrow>
     t0 \<le> t \<and> (\<exists>l. o_last_submission s (relayer, feed) = Some l \<and> t0 \<le> l)"

lemma oracle_exec_inv:
  assumes "oracle_inv (timestamp e) s" and "oracle_exec e c s = Ok (u, s')"
  shows "oracle_inv (timestamp e) s'"
proof (cases c)
  case (OrSubmit relayer f v ts source)
  with assms show ?thesis
    by (auto simp: oracle_inv_def list_relayers_def dest!: submit_OkD split: if_splits)
qed (use assms in \<open>auto simp: oracle_inv_def list_relayers_def oracle_admin_ops oracle_relayer_ops
       REPUTATION_INITIAL_def REPUTATION_FLOOR_def REPUTATION_CEILING_def Let_def split: if_splits\<close>)

interpretation orc: timed_contract oracle_exec "\<lambda>_ _. True" oracle_inv
  by unfold_locales (auto dest: oracle_exec_inv, fastforce simp: oracle_inv_def intro: order_trans)

interpretation feeds: contract_order oracle_exec feed_order
proof
  show "feed_order s s" for s by (simp add: feed_order_def)
  show "feed_order s t \<Longrightarrow> feed_order t u \<Longrightarrow> feed_order s u" for s t u
    unfolding feed_order_def by (meson order_trans)
  fix e c s r s' assume ex: "oracle_exec e c s = Ok (r, s')"
  show "feed_order s s'"
    unfolding feed_order_def
  proof (intro allI impI)
    fix f x assume x: "o_reading s f = Some x"
    show "\<exists>x'. o_reading s' f = Some x' \<and> rd_timestamp x \<le> rd_timestamp x'"
    proof (cases "o_reading s' f = o_reading s f")
      case False
      then obtain relayer v ts source where "submit e relayer f v ts source s = Ok (r, s')"
        by (rule oracle_exec_reading [OF ex])
      with x show ?thesis by (auto dest!: submit_OkD)
    qed (use x in simp)
  qed
qed

interpretation rate: timed_contract oracle_exec "\<lambda>_ _. True" "submitted_since relayer feed t0"
  for relayer feed t0
proof
  fix t t' s assume "submitted_since relayer feed t0 t s" "t \<le> t'"
  then show "submitted_since relayer feed t0 t' s" by (auto simp: submitted_since_def)
next
  fix e s c r s' assume "submitted_since relayer feed t0 (timestamp e) s" "oracle_exec e c s = Ok (r, s')"
  then show "submitted_since relayer feed t0 (timestamp e) s'"
    using oracle_exec_last_submission [of e c s r s' "(relayer, feed)"]
    by (auto simp: submitted_since_def)
qed

lemma oracle_undeployed_inv [simp]: "oracle_inv t oracle_undeployed"
  by (simp add: oracle_inv_def oracle_undeployed_def list_relayers_def)

section \<open>Properties\<close>

definition or_env :: "nat \<Rightarrow> env" where
  "or_env t = \<lparr>timestamp = t, ledger_seq = 0, auth = (\<lambda>_. True), this = 0\<rparr>"

text \<open>Admin 1 queues relayer 7, it is activated two days later and submits a price of 0.90.\<close>

definition or_txs :: "(env \<times> oracle_call) list" where
  "or_txs = [(or_env 1000, OrInitialize 1), (or_env 1000, OrAddRelayer 7),
     (or_env 173800, OrActivateRelayer 7),
     (or_env 173900, OrSubmit 7 ''USDC'' 9000000 173890 ''pyth'')]"

definition or_state :: oracle_store where
  "or_state = \<lparr>o_admin = Some 1, o_relayers = Some [7],
     o_reading = [''USDC'' \<mapsto> \<lparr>rd_value = 9000000, rd_timestamp = 173890, rd_source = ''pyth''\<rparr>],
     o_metadata = (\<lambda>_. None), o_last_submission = [(7, ''USDC'') \<mapsto> 173900],
     o_reputation = [7 \<mapsto> 100], o_version = None, o_wasm = None, o_pending_admin = None,
     o_threshold = (\<lambda>_. None), o_pending_relayer = (\<lambda>_. None)\<rparr>"

lemmas or_eval_defs = oracle_initialize_def oracle_require_admin_def add_relayer_def
  activate_relayer_def submit_def submit_body_def submit_checks_def require_relayer_def
  oracle_undeployed_def or_env_def or_txs_def or_state_def oracle_const_defs require_auth_def
  ok_or_def u64_sat_add_def u64_sub_def u64_max_def Let_def

lemma or_txs_run: "run_txs oracle_exec or_txs oracle_undeployed = or_state"
  by (simp add: or_eval_defs fun_eq_iff del: and_then_Ok_iff and_then_Err_iff and_then_Trap_iff)

lemma or_txs_chronological: "chronological 0 or_txs" and or_txs_end: "end_time 0 or_txs = 173900"
  by (simp_all add: or_txs_def or_env_def)

text \<open>C18. A feed never loses its reading and never moves back in time: whatever transactions
run, the timestamp of the reading stored for a feed only grows.\<close>

theorem feed_never_regresses:
  assumes "o_reading s feed = Some r"
  shows "\<exists>r'. o_reading (run_txs oracle_exec txs s) feed = Some r' \<and> rd_timestamp r \<le> rd_timestamp r'"
  using feeds.run_rel [of s txs] assms by (simp add: feed_order_def)

theorem feed_never_regresses_witness:
  "\<exists>r'. o_reading (run_txs oracle_exec [(or_env 173960, OrSubmit 7 ''USDC'' 9900000 173880 ''pyth'')] or_state)
     ''USDC'' = Some r' \<and> 173890 \<le> rd_timestamp r'"
proof -
  have "o_reading or_state ''USDC'' =
    Some \<lparr>rd_value = 9000000, rd_timestamp = 173890, rd_source = ''pyth''\<rparr>"
    by (simp add: or_state_def)
  from feed_never_regresses [OF this, of "[(or_env 173960, OrSubmit 7 ''USDC'' 9900000 173880 ''pyth'')]"]
  show ?thesis by simp
qed

text \<open>In any time-ordered history of the oracle, a reading that \<open>get_reading\<close> serves was
written by an accepted \<open>submit\<close> of a relayer that was registered and signed at that moment, was
at most \<open>MAX_STALENESS_SECS\<close> old then, is not dated in the future and is at most
\<open>MAX_STALENESS_SECS\<close> old now.\<close>

theorem served_reading_fresh:
  assumes "chronological t txs" and "end_time t txs \<le> timestamp e"
    and "get_reading e feed (run_txs oracle_exec txs oracle_undeployed) = Ok r"
  shows "rd_timestamp r \<le> timestamp e \<and> timestamp e \<le> rd_timestamp r + MAX_STALENESS_SECS \<and>
    (\<exists>pre e1 relayer post. txs = pre @ (e1, OrSubmit relayer feed (rd_value r) (rd_timestamp r) (rd_source r)) # post \<and>
       relayer \<in> set (list_relayers (run_txs oracle_exec pre oracle_undeployed)) \<and> auth e1 relayer \<and>
       rd_timestamp r \<le> timestamp e1 \<and> timestamp e1 \<le> rd_timestamp r + MAX_STALENESS_SECS)"
proof -
  let ?s = "run_txs oracle_exec txs oracle_undeployed"
  from assms(3) have r: "o_reading ?s feed = Some r" and
    age: "timestamp e - rd_timestamp r \<le> MAX_STALENESS_SECS"
    by (auto simp: get_reading_def split: if_splits)
  have "oracle_inv (end_time t txs) ?s" using assms(1) by (intro orc.run_inv) simp_all
  then have past: "rd_timestamp r \<le> timestamp e" using r assms(2) by (fastforce simp: oracle_inv_def)
  have "\<not> o_reading oracle_undeployed feed = Some r" by (simp add: oracle_undeployed_def)
  from run_txs_origin [of "\<lambda>s. o_reading s feed = Some r", OF r this] obtain pre e1 c post u s' where
    split: "txs = pre @ (e1, c) # post" and
    old: "o_reading (run_txs oracle_exec pre oracle_undeployed) feed \<noteq> Some r" and
    ex: "oracle_exec e1 c (run_txs oracle_exec pre oracle_undeployed) = Ok (u, s')" and
    new: "o_reading s' feed = Some r" by blast
  from old new have "o_reading s' feed \<noteq> o_reading (run_txs oracle_exec pre oracle_undeployed) feed" by simp
  then obtain relayer v ts source where "c = OrSubmit relayer feed v ts source"
    "submit e1 relayer feed v ts source (run_txs oracle_exec pre oracle_undeployed) = Ok (u, s')"
    "o_reading s' feed = Some \<lparr>rd_value = v, rd_timestamp = ts, rd_source = source\<rparr>"
    by (rule oracle_exec_reading [OF ex])
  with split new past age show ?thesis by (fastforce dest!: submit_OkD)
qed

theorem served_reading_fresh_witness:
  "(173890::nat) \<le> 175690 \<and> 175690 \<le> 173890 + MAX_STALENESS_SECS"
  using served_reading_fresh [of 0 or_txs "or_env 175690" "''USDC''"
      "\<lparr>rd_value = 9000000, rd_timestamp = 173890, rd_source = ''pyth''\<rparr>"]
    or_txs_chronological or_txs_end
  by (simp add: or_txs_run) (simp add: get_reading_def or_state_def or_env_def MAX_STALENESS_SECS_def)

text \<open>Two accepted submissions of the same relayer to the same feed are at least
\<open>MIN_SUBMISSION_INTERVAL_SECS\<close> of ledger time apart, whatever happens in between and whatever
timestamps the relayer claims for its data.\<close>

theorem submissions_spaced:
  assumes "submit e1 relayer feed v1 ts1 source1 s = Ok (u1, s1)"
    and "chronological (timestamp e1) (mid @ [(e2, OrSubmit relayer feed v2 ts2 source2)])"
    and "submit e2 relayer feed v2 ts2 source2 (run_txs oracle_exec mid s1) = Ok (u2, s2)"
  shows "timestamp e1 + MIN_SUBMISSION_INTERVAL_SECS \<le> timestamp e2"
proof -
  have "submitted_since relayer feed (timestamp e1) (timestamp e1) s1"
    using assms(1) by (auto simp: submitted_since_def dest!: submit_OkD)
  then have "submitted_since relayer feed (timestamp e1) (end_time (timestamp e1) mid) (run_txs oracle_exec mid s1)"
    using assms(2) by (intro rate.run_inv) (simp_all add: chronological_append)
  then obtain l where "o_last_submission (run_txs oracle_exec mid s1) (relayer, feed) = Some l" "timestamp e1 \<le> l"
    by (auto simp: submitted_since_def)
  with submit_OkD [OF assms(3)] have "MIN_SUBMISSION_INTERVAL_SECS \<le> timestamp e2 - l" by blast
  moreover have "0 < MIN_SUBMISSION_INTERVAL_SECS" by (simp add: MIN_SUBMISSION_INTERVAL_SECS_def)
  ultimately show ?thesis using \<open>timestamp e1 \<le> l\<close> by linarith
qed

theorem submissions_spaced_witness:
  "(173900::nat) + MIN_SUBMISSION_INTERVAL_SECS \<le> 173960"
proof -
  have 1: "submit (or_env 173900) 7 ''USDC'' 9000000 173890 ''pyth''
      (or_state\<lparr>o_reading := (\<lambda>_. None), o_last_submission := (\<lambda>_. None)\<rparr>) = Ok ((), or_state)"
    by (simp add: or_eval_defs fun_eq_iff del: and_then_Ok_iff and_then_Err_iff and_then_Trap_iff)
  have "\<exists>s2. submit (or_env 173960) 7 ''USDC'' 9100000 173950 ''pyth'' or_state = Ok ((), s2)"
    by (simp add: or_eval_defs fun_eq_iff del: and_then_Ok_iff and_then_Err_iff and_then_Trap_iff)
  then obtain s2 where 2: "submit (or_env 173960) 7 ''USDC'' 9100000 173950 ''pyth''
      (run_txs oracle_exec [] or_state) = Ok ((), s2)" by auto
  from submissions_spaced [OF 1 _ 2] show ?thesis by (simp add: or_env_def)
qed

text \<open>Every relayer that is registered after any history was queued by \<open>add_relayer\<close> under
the signature of the admin of that moment, and was activated by a later transaction at least
\<open>MIN_ADDITION_NOTICE_PERIOD_SECS\<close> (48 hours) after it was queued; before that activation it was
not registered.\<close>

theorem relayer_waited_notice:
  assumes "relayer \<in> set (list_relayers (run_txs oracle_exec txs oracle_undeployed))"
  shows "\<exists>pre e1 mid e2 post a.
    txs = pre @ (e1, OrAddRelayer relayer) # mid @ (e2, OrActivateRelayer relayer) # post \<and>
    o_admin (run_txs oracle_exec pre oracle_undeployed) = Some a \<and> auth e1 a \<and>
    relayer \<notin> set (list_relayers (run_txs oracle_exec (pre @ (e1, OrAddRelayer relayer) # mid) oracle_undeployed)) \<and>
    u64_sat_add (timestamp e1) MIN_ADDITION_NOTICE_PERIOD_SECS \<le> timestamp e2"
proof -
  have "\<not> relayer \<in> set (list_relayers oracle_undeployed)"
    by (simp add: oracle_undeployed_def list_relayers_def)
  from run_txs_origin [of "\<lambda>s. relayer \<in> set (list_relayers s)", OF assms this]
  obtain pre' e2 c post u s' where split: "txs = pre' @ (e2, c) # post"
    and "relayer \<notin> set (list_relayers (run_txs oracle_exec pre' oracle_undeployed))"
    and "oracle_exec e2 c (run_txs oracle_exec pre' oracle_undeployed) = Ok (u, s')"
    and "relayer \<in> set (list_relayers s')" by blast
  with oracle_exec_relayer obtain q where c: "c = OrActivateRelayer relayer"
    and q: "o_pending_relayer (run_txs oracle_exec pre' oracle_undeployed) relayer = Some q"
    and wait: "u64_sat_add q MIN_ADDITION_NOTICE_PERIOD_SECS \<le> timestamp e2" by blast
  have "\<not> o_pending_relayer oracle_undeployed relayer = Some q" by (simp add: oracle_undeployed_def)
  from run_txs_origin [of "\<lambda>s. o_pending_relayer s relayer = Some q", OF q this]
  obtain pre e1 c1 mid u1 s1 where "pre' = pre @ (e1, c1) # mid"
    and "o_pending_relayer (run_txs oracle_exec pre oracle_undeployed) relayer \<noteq> Some q"
    and "oracle_exec e1 c1 (run_txs oracle_exec pre oracle_undeployed) = Ok (u1, s1)"
    and "o_pending_relayer s1 relayer = Some q" by blast
  moreover from this(2-4) have "c1 = OrAddRelayer relayer \<and> timestamp e1 = q \<and>
    (\<exists>a. o_admin (run_txs oracle_exec pre oracle_undeployed) = Some a \<and> auth e1 a)"
    using oracle_exec_pending by blast
  ultimately show ?thesis
    using split c wait \<open>relayer \<notin> set (list_relayers (run_txs oracle_exec pre' oracle_undeployed))\<close>
    by (intro exI [of _ pre] exI [of _ e1] exI [of _ mid] exI [of _ e2] exI [of _ post]) auto
qed

theorem relayer_waited_notice_witness:
  "\<exists>pre e1 mid e2 post a.
    or_txs = pre @ (e1, OrAddRelayer 7) # mid @ (e2, OrActivateRelayer 7) # post \<and>
    o_admin (run_txs oracle_exec pre oracle_undeployed) = Some a \<and> auth e1 a \<and>
    7 \<notin> set (list_relayers (run_txs oracle_exec (pre @ (e1, OrAddRelayer 7) # mid) oracle_undeployed)) \<and>
    u64_sat_add (timestamp e1) MIN_ADDITION_NOTICE_PERIOD_SECS \<le> timestamp e2"
  by (rule relayer_waited_notice) (simp add: or_txs_run, simp add: or_state_def list_relayers_def)

text \<open>\<open>is_triggered\<close> answers with a boolean exactly when the feed has a fresh reading and the
coverage type is one of the five known ones, and the answer compares the reading with the
documented limit: below 0.95, below -30 percent, below 85 percent, below 500 000 dollars, or
more than 120 minutes; in every other case it returns the matching error and never panics.\<close>

theorem is_triggered_spec:
  "is_triggered e coverage_type feed s =
    (case o_reading s feed of
       None \<Rightarrow> Err OrFeedNotFound
     | Some r \<Rightarrow>
         if rd_timestamp r + 1800 < timestamp e then Err OrStaleReading
         else if coverage_type = 0 then Ok (rd_value r < 9500000)
         else if coverage_type = 1 then Ok (rd_value r < - 3000000)
         else if coverage_type = 2 then Ok (rd_value r < 8500000)
         else if coverage_type = 3 then Ok (rd_value r < 5000000000000)
         else if coverage_type = 4 then Ok (120 < rd_value r)
         else Err OrUnknownCoverageType)"
proof (cases "o_reading s feed")
  case (Some r)
  have "MAX_STALENESS_SECS < timestamp e - rd_timestamp r \<longleftrightarrow> rd_timestamp r + 1800 < timestamp e"
    by (auto simp: MAX_STALENESS_SECS_def)
  then show ?thesis using Some
    by (simp add: is_triggered_def get_reading_def ok_or_def oracle_const_defs trunc_div_def
        del: and_then_Ok_iff)
qed (simp add: is_triggered_def get_reading_def ok_or_def)

text \<open>\<open>guardian_status\<close> never fails.  For a stored reading and a positive peg whose scaled
deviation fits in an \<open>i128\<close>, the reported band is the deviation from the peg in basis points,
rounded down, and the breaker trips exactly when the reading is older than the limit or the
deviation reaches the next basis point above the allowed band.  A missing feed always trips.\<close>

theorem guardian_status_spec:
  assumes "0 < peg" and "bps < i128_max"
    and "\<And>r. o_reading s feed = Some r \<Longrightarrow> in_i128 (\<bar>rd_value r - peg\<bar> * 10000)"
  shows "guardian_status e feed max_staleness peg bps s =
    (case o_reading s feed of
       None \<Rightarrow> (True, True, i128_max)
     | Some r \<Rightarrow>
         (rd_timestamp r + max_staleness < timestamp e \<or> (bps + 1) * peg \<le> \<bar>rd_value r - peg\<bar> * 10000,
          rd_timestamp r + max_staleness < timestamp e,
          \<bar>rd_value r - peg\<bar> * 10000 div peg))"
proof (cases "o_reading s feed")
  case None
  with assms show ?thesis by (simp add: guardian_status_def is_stale_def depeg_bps_def)
next
  case (Some r)
  let ?d = "\<bar>rd_value r - peg\<bar>"
  have fit: "in_i128 (?d * 10000)" using assms(3) [OF Some] .
  have "in_i128 ?d" using fit by (auto simp: int_width_defs)
  moreover have "in_i128 (?d * 10000 div peg)"
  proof (rule in_i128_between [OF in_i128_0 fit])
    show "0 \<le> ?d * 10000 div peg" using assms(1) by (simp add: pos_imp_zdiv_nonneg_iff)
    show "?d * 10000 div peg \<le> ?d * 10000" using assms(1) by (simp add: int_div_le_self)
  qed
  moreover have "(if peg \<le> rd_value r then i128_opt (rd_value r - peg) else i128_opt (peg - rd_value r)) =
    i128_opt ?d" by (auto simp: abs_if intro: arg_cong [of _ _ i128_opt])
  ultimately have "depeg_bps feed peg s = Some (?d * 10000 div peg)"
    using Some assms(1) fit by (simp add: depeg_bps_def i128_opt_def)
  moreover have "bps < ?d * 10000 div peg \<longleftrightarrow> (bps + 1) * peg \<le> ?d * 10000"
    using int_div_less_iff [OF assms(1), of "?d * 10000" "bps + 1"] by auto
  ultimately show ?thesis using Some by (auto simp: guardian_status_def is_stale_def Let_def)
qed

theorem guardian_status_spec_witness:
  "guardian_status (or_env 173900) ''USDC'' 600 10000000 500 or_state = (True, False, 1000)"
  using guardian_status_spec [of 10000000 500 or_state "''USDC''" "or_env 173900" 600]
  by (simp add: or_state_def or_env_def int_width_defs)

end
