(* ===== verification/Multisig.thy ===== *)
theory Multisig
  imports Soroban
begin

text \<open>
  The multisig contract (\<open>src/multisig/src/lib.rs\<close>): owners propose and approve
  cross-contract calls, anyone executes a call whose approvals reach the threshold, and the
  contract manages its own owner set.

  The state is the record \<open>multisig\<close>; the contracts that are called are the parameter
  \<open>callee\<close> over their state \<open>'w\<close>.  The owner-management entry points demand the
  authorization of the contract itself (\<open>this\<close> of the environment).

  The lemmas show that every executed proposal had collected, before it ran, approvals of
  distinct addresses that each signed while they were owners, at least as many as the
  threshold at execution; and that the owner set and threshold stay well-formed when the
  deployment lists distinct owners.
\<close>

section \<open>State\<close>

datatype multisig_error =
    MsAlreadyInitialized | MsNotInitialized | MsUnauthorized | MsNotOwner | MsProposalNotFound
  | MsProposalNotPending | MsThresholdAlreadyMet | MsInvalidThreshold | MsCannotRemoveLastOwner

datatype ms_status = MsPending | MsExecuted | MsCancelled

record ms_proposal =
  mp_target :: address
  mp_function :: symbol
  mp_args :: "val list"
  mp_approvals :: "address list"
  mp_status :: ms_status

record multisig =
  ms_owners :: "address list option"
  ms_threshold :: "nat option"
  ms_next_id :: "nat option"
  ms_proposals :: "nat \<rightharpoonup> ms_proposal"

definition multisig_undeployed :: multisig where
  "multisig_undeployed = \<lparr>ms_owners = None, ms_threshold = None, ms_next_id = None,
     ms_proposals = (\<lambda>_. None)\<rparr>"

section \<open>Entry points\<close>

definition multisig_initialize ::
  "address list \<Rightarrow> nat \<Rightarrow> multisig \<Rightarrow> (multisig_error, unit \<times> multisig) outcome" where
  "multisig_initialize owners threshold s =
     (if ms_owners s \<noteq> None then Err MsAlreadyInitialized
      else if owners = [] \<or> threshold = 0 \<or> length owners < threshold then Err MsInvalidThreshold
      else Ok ((), s\<lparr>ms_owners := Some owners, ms_threshold := Some threshold, ms_next_id := Some 0\<rparr>))"

definition multisig_owners :: "multisig \<Rightarrow> address list" where
  "multisig_owners s = unwrap_or (ms_owners s) []"

definition multisig_threshold :: "multisig \<Rightarrow> nat" where
  "multisig_threshold s = unwrap_or (ms_threshold s) 0"

definition multisig_get_proposal :: "nat \<Rightarrow> multisig \<Rightarrow> ms_proposal option" where
  "multisig_get_proposal i s = ms_proposals s i"

definition require_owner :: "address \<Rightarrow> multisig \<Rightarrow> (multisig_error, unit) outcome" where
  "require_owner caller s =
     and_then (ok_or (ms_owners s) MsNotInitialized) (\<lambda>owners.
     if \<not> list_ex (\<lambda>x. x = caller) owners then Err MsNotOwner else Ok ())"

definition require_self :: "env \<Rightarrow> (multisig_error, unit) outcome" where
  "require_self e = require_auth e (this e)"

definition multisig_propose ::
  "env \<Rightarrow> address \<Rightarrow> address \<Rightarrow> symbol \<Rightarrow> val list \<Rightarrow> multisig \<Rightarrow>
   (multisig_error, nat \<times> multisig) outcome" where
  "multisig_propose e proposer target func args s =
     and_then (require_auth e proposer) (\<lambda>_.
     and_then (require_owner proposer s) (\<lambda>_.
     let i = unwrap_or (ms_next_id s) 0;
         proposal = \<lparr>mp_target = target, mp_function = func, mp_args = args,
           mp_approvals = [proposer], mp_status = MsPending\<rparr>;
         s = s\<lparr>ms_proposals := (ms_proposals s)(i \<mapsto> proposal)\<rparr>
     in and_then (u64_add i 1) (\<lambda>next. Ok (i, s\<lparr>ms_next_id := Some next\<rparr>))))"

definition multisig_approve ::
  "env \<Rightarrow> address \<Rightarrow> nat \<Rightarrow> multisig \<Rightarrow> (multisig_error, unit \<times> multisig) outcome" where
  "multisig_approve e caller i s =
     and_then (require_auth e caller) (\<lambda>_.
     and_then (require_owner caller s) (\<lambda>_.
     and_then (ok_or (ms_proposals s i) MsProposalNotFound) (\<lambda>proposal.
     if mp_status proposal \<noteq> MsPending then Err MsProposalNotPending
     else if list_ex (\<lambda>a. a = caller) (mp_approvals proposal) then Ok ((), s)
     else Ok ((), s\<lparr>ms_proposals := (ms_proposals s)
            (i \<mapsto> proposal\<lparr>mp_approvals := mp_approvals proposal @ [caller]\<rparr>)\<rparr>))))"

definition multisig_execute ::
  "'w callee \<Rightarrow> env \<Rightarrow> nat \<Rightarrow> multisig \<times> 'w \<Rightarrow> (multisig_error, unit \<times> (multisig \<times> 'w)) outcome" where
  "multisig_execute callee e i sw =
     and_then (ok_or (ms_proposals (fst sw) i) MsProposalNotFound) (\<lambda>proposal.
     if mp_status proposal \<noteq> MsPending then Err MsProposalNotPending
     else if length (mp_approvals proposal) < unwrap_or (ms_threshold (fst sw)) 0 then Err MsUnauthorized
     else
       let proposal = proposal\<lparr>mp_status := MsExecuted\<rparr>;
           s = (fst sw)\<lparr>ms_proposals := (ms_proposals (fst sw))(i \<mapsto> proposal)\<rparr>
       in and_then (invoke_contract callee e (snd sw) (mp_target proposal) (mp_function proposal)
                      (mp_args proposal)) (\<lambda>(_, w).
          Ok ((), (s, w))))"

definition add_owner :: "env \<Rightarrow> address \<Rightarrow> multisig \<Rightarrow> (multisig_error, unit \<times> multisig) outcome" where
  "add_owner e new_owner s =
     and_then (require_self e) (\<lambda>_.
     let owners = unwrap_or (ms_owners s) [] in
     if \<not> list_ex (\<lambda>x. x = new_owner) owners
     then Ok ((), s\<lparr>ms_owners := Some (owners @ [new_owner])\<rparr>) else Ok ((), s))"

definition remove_owner :: "env \<Rightarrow> address \<Rightarrow> multisig \<Rightarrow> (multisig_error, unit \<times> multisig) outcome" where
  "remove_owner e owner s =
     and_then (require_self e) (\<lambda>_.
     let owners = unwrap_or (ms_owners s) [] in
     if length owners \<le> 1 then Err MsCannotRemoveLastOwner
     else
       let new_owners = filter (\<lambda>x. x \<noteq> owner) owners;
           threshold = unwrap_or (ms_threshold s) 1;
           clamped = min threshold (length new_owners)
       in Ok ((), s\<lparr>ms_owners := Some new_owners, ms_threshold := Some clamped\<rparr>))"

definition change_threshold :: "env \<Rightarrow> nat \<Rightarrow> multisig \<Rightarrow> (multisig_error, unit \<times> multisig) outcome" where
  "change_threshold e new_threshold s =
     and_then (require_self e) (\<lambda>_.
     let owners = unwrap_or (ms_owners s) [] in
     if new_threshold = 0 \<or> length owners < new_threshold then Err MsInvalidThreshold
     else Ok ((), s\<lparr>ms_threshold := Some new_threshold\<rparr>))"

section \<open>The contract as a transaction executor\<close>

datatype multisig_call =
    MsInitialize "address list" nat
  | MsPropose address address symbol "val list"
  | MsApprove address nat
  | MsExecute nat
  | MsAddOwner address
  | MsRemoveOwner address
  | MsChangeThreshold nat

definition on_multisig ::
  "(multisig \<Rightarrow> ('e, 'a \<times> multisig) outcome) \<Rightarrow> multisig \<times> 'w \<Rightarrow> ('e, unit \<times> (multisig \<times> 'w)) outcome" where
  "on_multisig f sw = and_then (f (fst sw)) (\<lambda>(_, s). Ok ((), (s, snd sw)))"

fun multisig_exec :: "'w callee \<Rightarrow> (multisig_call, multisig \<times> 'w, multisig_error, unit) executor" where
  "multisig_exec callee e (MsInitialize owners t) sw = on_multisig (multisig_initialize owners t) sw"
| "multisig_exec callee e (MsPropose p a f args) sw = on_multisig (multisig_propose e p a f args) sw"
| "multisig_exec callee e (MsApprove a i) sw = on_multisig (multisig_approve e a i) sw"
| "multisig_exec callee e (MsExecute i) sw = multisig_execute callee e i sw"
| "multisig_exec callee e (MsAddOwner a) sw = on_multisig (add_owner e a) sw"
| "multisig_exec callee e (MsRemoveOwner a) sw = on_multisig (remove_owner e a) sw"
| "multisig_exec callee e (MsChangeThreshold t) sw = on_multisig (change_threshold e t) sw"

section \<open>Lemmas\<close>

lemmas multisig_op_defs = multisig_initialize_def multisig_propose_def multisig_approve_def
  multisig_execute_def add_owner_def remove_owner_def change_threshold_def require_owner_def
  require_self_def on_multisig_def Let_def list_ex_iff

definition multisig_wf :: "multisig \<Rightarrow> bool" where
  "multisig_wf s \<longleftrightarrow>
     (\<forall>i p. ms_proposals s i = Some p \<longrightarrow>
        i < unwrap_or (ms_next_id s) 0 \<and> distinct (mp_approvals p) \<and> mp_approvals p \<noteq> []) \<and>
     (ms_owners s = None \<longrightarrow> (\<forall>i. ms_proposals s i = None))"

lemma multisig_exec_wf:
  assumes "multisig_exec callee e c (s, w) = Ok (u, (s', w'))" and "multisig_wf s"
  shows "multisig_wf s'"
proof (cases c)
  case (MsPropose p a f args)
  with assms show ?thesis
    by (auto simp: multisig_op_defs multisig_wf_def less_Suc_eq split: if_splits)
next
  case (MsApprove a i)
  with assms show ?thesis by (auto simp: multisig_op_defs multisig_wf_def split: if_splits)
qed (use assms in \<open>auto simp: multisig_op_defs multisig_wf_def split: if_splits\<close>)

interpretation ms: contract_invariant "multisig_exec callee" "\<lambda>sw. multisig_wf (fst sw)"
  for callee :: "'w callee"
proof
  fix s s' e c r assume "multisig_wf (fst s)" "multisig_exec callee e c s = Ok (r, s')"
  then show "multisig_wf (fst s')" by (cases s; cases s') (auto dest: multisig_exec_wf)
qed

abbreviation ms_state_after :: "'w callee \<Rightarrow> (env \<times> multisig_call) list \<Rightarrow> 'w \<Rightarrow> multisig" where
  "ms_state_after callee txs w \<equiv> fst (run_txs (multisig_exec callee) txs (multisig_undeployed, w))"

lemma ms_state_after_wf: "multisig_wf (ms_state_after callee txs w)"
  by (rule ms.run_keeps) (simp add: multisig_wf_def multisig_undeployed_def)

text \<open>An approval appears only through a signed \<open>propose\<close> or \<open>approve\<close> of a current owner.\<close>

definition approved_by :: "nat \<Rightarrow> address \<Rightarrow> multisig \<Rightarrow> bool" where
  "approved_by i a s \<longleftrightarrow> (\<exists>p. ms_proposals s i = Some p \<and> a \<in> set (mp_approvals p))"

definition is_approval :: "nat \<Rightarrow> address \<Rightarrow> multisig \<Rightarrow> multisig_call \<Rightarrow> bool" where
  "is_approval i a s c \<longleftrightarrow> c = MsApprove a i \<or>
     (\<exists>target f args. c = MsPropose a target f args \<and> i = unwrap_or (ms_next_id s) 0)"

lemma exec_approval:
  assumes "multisig_exec callee e c (s, w) = Ok (u, (s', w'))"
    and "approved_by i a s'" and "\<not> approved_by i a s"
  shows "is_approval i a s c \<and> auth e a \<and> a \<in> set (multisig_owners s)"
  using assms by (cases c)
    (auto simp: multisig_op_defs approved_by_def is_approval_def multisig_owners_def split: if_splits)

lemma approval_origin:
  assumes "approved_by i a (ms_state_after callee txs w)"
  obtains pre e c post where "txs = pre @ (e, c) # post" "is_approval i a (ms_state_after callee pre w) c"
    "auth e a" "a \<in> set (multisig_owners (ms_state_after callee pre w))"
proof -
  have "\<not> approved_by i a (fst (multisig_undeployed, w))"
    by (simp add: approved_by_def multisig_undeployed_def)
  from run_txs_origin [of "\<lambda>sw. approved_by i a (fst sw)", OF assms this]
  obtain pre e c post u s' where "txs = pre @ (e, c) # post"
    "\<not> approved_by i a (ms_state_after callee pre w)"
    "multisig_exec callee e c (run_txs (multisig_exec callee) pre (multisig_undeployed, w)) = Ok (u, s')"
    "approved_by i a (fst s')" by blast
  with exec_approval [of callee e c "ms_state_after callee pre w"
      "snd (run_txs (multisig_exec callee) pre (multisig_undeployed, w))" u "fst s'" "snd s'" i a] that
  show thesis by simp
qed

lemma exec_executed:
  assumes "multisig_exec callee e c (s, w) = Ok (u, (s', w'))" and "multisig_wf s"
    and "ms_proposals s' i = Some p" and "mp_status p = MsExecuted"
    and "\<not> (\<exists>p. ms_proposals s i = Some p \<and> mp_status p = MsExecuted)"
  obtains p0 v where "c = MsExecute i" "ms_proposals s i = Some p0" "mp_status p0 = MsPending"
    "p = p0\<lparr>mp_status := MsExecuted\<rparr>" "multisig_threshold s \<le> length (mp_approvals p0)"
    "callee e w (mp_target p0) (mp_function p0) (mp_args p0) = (CallOk v, w')"
  using assms by (cases c)
    (auto simp: multisig_op_defs multisig_threshold_def split: if_splits)

lemma exec_frozen:
  assumes "multisig_exec callee e c (s, w) = Ok (u, (s', w'))" and "multisig_wf s"
    and "ms_proposals s i = Some p" and "mp_status p \<noteq> MsPending"
  shows "ms_proposals s' i = Some p"
proof (cases c)
  case (MsPropose a t f args)
  have "i \<noteq> unwrap_or (ms_next_id s) 0" using assms(2,3) by (auto simp: multisig_wf_def)
  with MsPropose assms show ?thesis by (auto simp: multisig_op_defs split: if_splits)
qed (use assms in \<open>auto simp: multisig_op_defs split: if_splits\<close>)

definition quorum_wf :: "multisig \<Rightarrow> bool" where
  "quorum_wf s \<longleftrightarrow> (\<exists>os t. ms_owners s = Some os \<and> ms_threshold s = Some t \<and> distinct os \<and>
     1 \<le> t \<and> t \<le> length os)"

lemma length_filter_neq_distinct:
  "distinct xs \<Longrightarrow> length xs - 1 \<le> length (filter (\<lambda>y. y \<noteq> x) xs)"
proof (induction xs)
  case (Cons y xs)
  show ?case
  proof (cases "x = y")
    case True
    with Cons.prems have "filter (\<lambda>z. z \<noteq> x) xs = xs" by (auto simp: filter_id_conv)
    with True show ?thesis by simp
  qed (use Cons in auto)
qed simp

lemma quorum_exec:
  assumes "multisig_exec callee e c (s, w) = Ok (u, (s', w'))" and "quorum_wf s"
  shows "quorum_wf s'"
proof (cases c)
  case (MsRemoveOwner a)
  with assms show ?thesis
    using length_filter_neq_distinct [of "the (ms_owners s)" a]
    by (auto simp: multisig_op_defs quorum_wf_def split: if_splits)
qed (use assms in \<open>auto simp: multisig_op_defs quorum_wf_def split: if_splits\<close>)

interpretation quorum: contract_invariant "multisig_exec callee" "\<lambda>sw. quorum_wf (fst sw)"
  for callee :: "'w callee"
proof
  fix s s' e c r assume "quorum_wf (fst s)" "multisig_exec callee e c s = Ok (r, s')"
  then show "quorum_wf (fst s')" by (cases s; cases s') (auto dest: quorum_exec)
qed

section \<open>Properties\<close>

definition ms_env :: env where
  "ms_env = \<lparr>timestamp = 10, ledger_seq = 0, auth = (\<lambda>_. True), this = 99\<rparr>"

definition ms_callee :: "nat callee" where
  "ms_callee e w a f args = (CallOk (VBool True), Suc w)"

definition ms_txs :: "(env \<times> multisig_call) list" where
  "ms_txs = [(ms_env, MsInitialize [1, 2, 3] 2), (ms_env, MsPropose 1 5 ''go'' []),
     (ms_env, MsApprove 3 0), (ms_env, MsExecute 0)]"

lemma ms_txs_proposal:
  "ms_proposals (ms_state_after ms_callee ms_txs 0) 0 =
   Some \<lparr>mp_target = 5, mp_function = ''go'', mp_args = [], mp_approvals = [1, 3], mp_status = MsExecuted\<rparr>"
  by (simp add: ms_txs_def ms_env_def ms_callee_def multisig_op_defs multisig_undeployed_def
      require_auth_def ok_or_def u64_add_def u64_max_def invoke_contract_def
      del: and_then_Ok_iff and_then_Err_iff and_then_Trap_iff)

text \<open>C19. Every proposal that is \<open>Executed\<close> after any history was executed by one \<open>execute\<close> call
that forwarded exactly the proposed call, at a moment when the proposal had collected approvals
of pairwise distinct addresses, at least as many as the threshold of that moment; and each of
these addresses had given its approval in an earlier transaction that it signed while it was an
owner.\<close>

theorem multisig_executed_approved:
  assumes "ms_proposals (fst (run_txs (multisig_exec callee) txs (multisig_undeployed, w))) i = Some p"
    and "mp_status p = MsExecuted"
  shows "\<exists>pre e post s0 w0 v w1.
    txs = pre @ (e, MsExecute i) # post \<and>
    run_txs (multisig_exec callee) pre (multisig_undeployed, w) = (s0, w0) \<and>
    ms_proposals s0 i = Some (p\<lparr>mp_status := MsPending\<rparr>) \<and>
    callee e w0 (mp_target p) (mp_function p) (mp_args p) = (CallOk v, w1) \<and>
    distinct (mp_approvals p) \<and> multisig_threshold s0 \<le> length (mp_approvals p) \<and>
    (\<forall>a \<in> set (mp_approvals p). \<exists>pre' e' c' mid. pre = pre' @ (e', c') # mid \<and> auth e' a \<and>
       is_approval i a (fst (run_txs (multisig_exec callee) pre' (multisig_undeployed, w))) c' \<and>
       a \<in> set (multisig_owners (fst (run_txs (multisig_exec callee) pre' (multisig_undeployed, w)))))"
proof -
  have "ms_proposals (fst (multisig_undeployed, w)) i \<noteq> Some p" by (simp add: multisig_undeployed_def)
  from run_txs_origin [of "\<lambda>sw. ms_proposals (fst sw) i = Some p", OF assms(1) this]
  obtain pre e c post u sw' where split: "txs = pre @ (e, c) # post"
    and old: "ms_proposals (ms_state_after callee pre w) i \<noteq> Some p"
    and ex: "multisig_exec callee e c (run_txs (multisig_exec callee) pre (multisig_undeployed, w)) = Ok (u, sw')"
    and new: "ms_proposals (fst sw') i = Some p" by blast
  obtain s0 w0 where s0: "run_txs (multisig_exec callee) pre (multisig_undeployed, w) = (s0, w0)"
    by (cases "run_txs (multisig_exec callee) pre (multisig_undeployed, w)")
  obtain s1 w1 where sw': "sw' = (s1, w1)" by (cases sw')
  have wf: "multisig_wf s0" using ms_state_after_wf [of callee pre w] s0 by simp
  have fresh: "\<not> (\<exists>p. ms_proposals s0 i = Some p \<and> mp_status p = MsExecuted)"
    using exec_frozen [of callee e c s0 w0 u s1 w1 i] ex s0 sw' wf old new by auto
  from ex s0 sw' have "multisig_exec callee e c (s0, w0) = Ok (u, (s1, w1))" by simp
  from exec_executed [OF this wf _ assms(2) fresh] new sw' obtain p0 v where
    c: "c = MsExecute i" and p0: "ms_proposals s0 i = Some p0" "mp_status p0 = MsPending"
    "p = p0\<lparr>mp_status := MsExecuted\<rparr>" "multisig_threshold s0 \<le> length (mp_approvals p0)"
    "callee e w0 (mp_target p0) (mp_function p0) (mp_args p0) = (CallOk v, w1)" by auto
  have "distinct (mp_approvals p)" using wf p0 by (auto simp: multisig_wf_def)
  moreover have "\<exists>pre' e' c' mid. pre = pre' @ (e', c') # mid \<and> auth e' a \<and>
      is_approval i a (ms_state_after callee pre' w) c' \<and>
      a \<in> set (multisig_owners (ms_state_after callee pre' w))" if "a \<in> set (mp_approvals p)" for a
  proof -
    have "approved_by i a (ms_state_after callee pre w)" using that p0 s0 by (simp add: approved_by_def)
    then show ?thesis by (elim approval_origin) blast
  qed
  ultimately show ?thesis using split c s0 p0
    by (intro exI [of _ pre] exI [of _ e] exI [of _ post] exI [of _ s0] exI [of _ w0] exI [of _ v] exI [of _ w1]) auto
qed

theorem multisig_executed_approved_witness:
  "\<exists>pre e post s0 w0 v w1.
    ms_txs = pre @ (e, MsExecute 0) # post \<and>
    run_txs (multisig_exec ms_callee) pre (multisig_undeployed, 0) = (s0, w0) \<and>
    ms_callee e w0 5 ''go'' [] = (CallOk v, w1) \<and> multisig_threshold s0 \<le> length [1::address, 3]"
  using multisig_executed_approved [OF ms_txs_proposal] unfolding ms_proposal.select_convs by blast

text \<open>A multisig deployed with a list of distinct owners always keeps a usable quorum: its
owners stay distinct and the threshold stays between 1 and the number of owners, whatever owner
and threshold changes are executed.\<close>

theorem multisig_quorum_kept:
  assumes "multisig_initialize owners threshold s0 = Ok (u, s)" and "distinct owners"
  shows "\<exists>os t. ms_owners (fst (run_txs (multisig_exec callee) txs (s, w))) = Some os \<and>
    ms_threshold (fst (run_txs (multisig_exec callee) txs (s, w))) = Some t \<and>
    distinct os \<and> 1 \<le> t \<and> t \<le> length os"
proof -
  have "quorum_wf (fst (s, w))"
    using assms by (auto simp: multisig_initialize_def quorum_wf_def split: if_splits)
  from quorum.run_keeps [of "(s, w)" callee txs, OF this] show ?thesis by (simp add: quorum_wf_def)
qed

lemma ms_init_example:
  "multisig_initialize [1, 2, 3] 2 multisig_undeployed =
   Ok ((), multisig_undeployed\<lparr>ms_owners := Some [1, 2, 3], ms_threshold := Some 2, ms_next_id := Some 0\<rparr>)"
  by (simp add: multisig_initialize_def multisig_undeployed_def)

theorem multisig_quorum_kept_witness:
  "\<exists>os t. ms_owners (fst (run_txs (multisig_exec ms_callee) [(ms_env, MsRemoveOwner 1), (ms_env, MsRemoveOwner 2)]
      (multisig_undeployed\<lparr>ms_owners := Some [1, 2, 3], ms_threshold := Some 2, ms_next_id := Some 0\<rparr>, 0))) = Some os \<and>
    ms_threshold (fst (run_txs (multisig_exec ms_callee) [(ms_env, MsRemoveOwner 1), (ms_env, MsRemoveOwner 2)]
      (multisig_undeployed\<lparr>ms_owners := Some [1, 2, 3], ms_threshold := Some 2, ms_next_id := Some 0\<rparr>, 0))) = Some t \<and>
    distinct os \<and> 1 \<le> t \<and> t \<le> length os"
  by (rule multisig_quorum_kept [OF ms_init_example]) simp

text \<open>Without distinct owners the last-owner check of \<open>remove_owner\<close> does not protect the set:
two entries of the same owner pass it and both are removed.\<close>

lemma duplicate_owner_empties_quorum:
  "run_txs (multisig_exec callee) [(ms_env, MsInitialize [1, 1] 2), (ms_env, MsRemoveOwner 1)]
     (multisig_undeployed, w) =
   (multisig_undeployed\<lparr>ms_owners := Some [], ms_threshold := Some 0, ms_next_id := Some 0\<rparr>, w)"
  by (simp add: multisig_op_defs multisig_undeployed_def ms_env_def require_auth_def
      del: and_then_Ok_iff and_then_Err_iff and_then_Trap_iff)

end
