(* ===== verification/Governance.thy ===== *)
theory Governance
  imports Soroban
begin

text \<open>
  The governor contract (\<open>src/governance/src/lib.rs\<close>): token-weighted proposals, votes,
  tallying, and forwarding of a successful proposal to the timelock or to its target.

  The state is the record \<open>governor\<close> (the storage keys \<open>Token\<close>, \<open>ProposalCount\<close>, \<open>Vote\<close>,
  \<open>Delegate\<close>, \<open>DelegatedWeight\<close> and \<open>Checkpoints\<close> are declared in the source and never used).
  The voting token and the contracts a proposal calls are parameters: \<open>balance_of w token a\<close>
  is what the token's \<open>balance\<close> returns (\<open>None\<close> when that call fails), and \<open>callee\<close> is the
  generic call.

  The lemmas show that the stored tallies are exactly the votes that were accepted, one per
  voter, that a proposal only moves forward in the declared order of its statuses, and that
  every proposal that gets as far as the queue won a finished vote with quorum.
\<close>

section \<open>State\<close>

datatype governance_error =
    GvAlreadyInitialized | GvNotInitialized | GvUnauthorized | GvBelowProposalThreshold
  | GvProposalNotFound | GvWrongState | GvVotingOpen | GvAlreadyVoted | GvProposalDefeated
  | GvAlreadyQueued | GvDelegationChain

datatype gov_status = GvActive | GvDefeated | GvSucceeded | GvQueued | GvExecuted

text \<open>The order the source derives: the discriminants 0 to 4.\<close>

fun gov_status_code :: "gov_status \<Rightarrow> nat" where
  "gov_status_code GvActive = 0"
| "gov_status_code GvDefeated = 1"
| "gov_status_code GvSucceeded = 2"
| "gov_status_code GvQueued = 3"
| "gov_status_code GvExecuted = 4"

lemma gov_status_code_inj: "gov_status_code x = gov_status_code y \<Longrightarrow> x = y"
  by (cases x; cases y) simp_all

instantiation gov_status :: linorder
begin

definition less_eq_gov_status :: "gov_status \<Rightarrow> gov_status \<Rightarrow> bool" where
  "less_eq_gov_status x y \<longleftrightarrow> gov_status_code x \<le> gov_status_code y"

definition less_gov_status :: "gov_status \<Rightarrow> gov_status \<Rightarrow> bool" where
  "less_gov_status x y \<longleftrightarrow> gov_status_code x < gov_status_code y"

instance
  by standard (auto simp: less_eq_gov_status_def less_gov_status_def intro: gov_status_code_inj)

end

record proposal_state =
  gp_proposer :: address
  gp_target :: address
  gp_function :: symbol
  gp_args :: "val list"
  gp_description :: symbol
  gp_vote_start :: nat
  gp_vote_end :: nat
  gp_votes_for :: int
  gp_votes_against :: int
  gp_status :: gov_status
  gp_voters :: "address list"
  gp_snapshot_ledger :: nat

record governor_config =
  gc_token :: address
  gc_voting_period :: nat
  gc_quorum_bps :: nat
  gc_proposal_threshold :: int
  gc_total_supply :: int

record governor =
  g_admin :: "address option"
  g_config :: "governor_config option"
  g_timelock :: "address option"
  g_next_id :: "nat option"
  g_proposal :: "nat \<rightharpoonup> proposal_state"

type_synonym 'w gov_system = "governor \<times> 'w"

definition governor_undeployed :: governor where
  "governor_undeployed = \<lparr>g_admin = None, g_config = None, g_timelock = None, g_next_id = None,
     g_proposal = (\<lambda>_. None)\<rparr>"

definition set_proposal :: "nat \<Rightarrow> proposal_state \<Rightarrow> governor \<Rightarrow> governor" where
  "set_proposal i p s = s\<lparr>g_proposal := (g_proposal s)(i \<mapsto> p)\<rparr>"

section \<open>Entry points\<close>

definition governor_require_admin ::
  "env \<Rightarrow> address \<Rightarrow> governor \<Rightarrow> (governance_error, unit) outcome" where
  "governor_require_admin e caller s =
     and_then (require_auth e caller) (\<lambda>_.
     and_then (ok_or (g_admin s) GvNotInitialized) (\<lambda>admin.
     if caller \<noteq> admin then Err GvUnauthorized else Ok ()))"

definition governor_initialize ::
  "env \<Rightarrow> address \<Rightarrow> governor_config \<Rightarrow> governor \<Rightarrow> (governance_error, unit \<times> governor) outcome" where
  "governor_initialize e admin config s =
     (if g_admin s \<noteq> None then Err GvAlreadyInitialized
      else and_then (require_auth e admin) (\<lambda>_.
        Ok ((), s\<lparr>g_admin := Some admin, g_config := Some config, g_next_id := Some 0\<rparr>)))"

definition governor_admin :: "governor \<Rightarrow> address option" where
  "governor_admin s = g_admin s"

definition governor_get_config :: "governor \<Rightarrow> governor_config option" where
  "governor_get_config s = g_config s"

definition set_timelock ::
  "env \<Rightarrow> address \<Rightarrow> address \<Rightarrow> governor \<Rightarrow> (governance_error, unit \<times> governor) outcome" where
  "set_timelock e caller timelock s =
     and_then (governor_require_admin e caller s) (\<lambda>_. Ok ((), s\<lparr>g_timelock := Some timelock\<rparr>))"

definition set_config ::
  "env \<Rightarrow> address \<Rightarrow> governor_config \<Rightarrow> governor \<Rightarrow> (governance_error, unit \<times> governor) outcome" where
  "set_config e caller config s =
     and_then (governor_require_admin e caller s) (\<lambda>_. Ok ((), s\<lparr>g_config := Some config\<rparr>))"

definition gov_new_proposal ::
  "env \<Rightarrow> address \<Rightarrow> address \<Rightarrow> symbol \<Rightarrow> val list \<Rightarrow> symbol \<Rightarrow> nat \<Rightarrow> proposal_state" where
  "gov_new_proposal e proposer target func args description vote_end =
     \<lparr>gp_proposer = proposer, gp_target = target, gp_function = func, gp_args = args,
      gp_description = description, gp_vote_start = timestamp e, gp_vote_end = vote_end,
      gp_votes_for = 0, gp_votes_against = 0, gp_status = GvActive, gp_voters = [],
      gp_snapshot_ledger = ledger_seq e\<rparr>"

definition governor_propose ::
  "'w balance_fn \<Rightarrow> env \<Rightarrow> address \<Rightarrow> address \<Rightarrow> symbol \<Rightarrow> val list \<Rightarrow> symbol \<Rightarrow> 'w gov_system \<Rightarrow>
   (governance_error, nat \<times> 'w gov_system) outcome" where
  "governor_propose balance_of e proposer target func args description sw =
     (let s = fst sw; w = snd sw in
      and_then (require_auth e proposer) (\<lambda>_.
      and_then (ok_or (g_config s) GvNotInitialized) (\<lambda>config.
      and_then (token_balance balance_of w (gc_token config) proposer) (\<lambda>balance.
      if balance < gc_proposal_threshold config then Err GvBelowProposalThreshold
      else and_then (u64_add (timestamp e) (gc_voting_period config)) (\<lambda>vote_end.
      let i = unwrap_or (g_next_id s) 0;
          p = gov_new_proposal e proposer target func args description vote_end;
          s = set_proposal i p s
      in and_then (u64_add i 1) (\<lambda>next. Ok (i, (s\<lparr>g_next_id := Some next\<rparr>, w))))))))"

definition cast_vote ::
  "'w balance_fn \<Rightarrow> env \<Rightarrow> address \<Rightarrow> nat \<Rightarrow> bool \<Rightarrow> 'w gov_system \<Rightarrow>
   (governance_error, int \<times> 'w gov_system) outcome" where
  "cast_vote balance_of e voter i support sw =
     (let s = fst sw; w = snd sw in
      and_then (require_auth e voter) (\<lambda>_.
      and_then (ok_or (g_proposal s i) GvProposalNotFound) (\<lambda>p.
      if gp_status p \<noteq> GvActive then Err GvWrongState
      else if gp_vote_end p < timestamp e then Err GvWrongState
      else if list_ex (\<lambda>v. v = voter) (gp_voters p) then Err GvAlreadyVoted
      else and_then (ok_or (g_config s) GvNotInitialized) (\<lambda>config.
      and_then (token_balance balance_of w (gc_token config) voter) (\<lambda>weight.
      and_then (if support
                then and_then (i128_add (gp_votes_for p) weight) (\<lambda>v. Ok (p\<lparr>gp_votes_for := v\<rparr>))
                else and_then (i128_add (gp_votes_against p) weight) (\<lambda>v. Ok (p\<lparr>gp_votes_against := v\<rparr>))) (\<lambda>p.
      let p = p\<lparr>gp_voters := gp_voters p @ [voter]\<rparr>
      in Ok (weight, (set_proposal i p s, w))))))))"

definition finalize ::
  "env \<Rightarrow> nat \<Rightarrow> governor \<Rightarrow> (governance_error, gov_status \<times> governor) outcome" where
  "finalize e i s =
     and_then (ok_or (g_proposal s i) GvProposalNotFound) (\<lambda>p.
     if gp_status p \<noteq> GvActive then Ok (gp_status p, s)
     else if timestamp e \<le> gp_vote_end p then Err GvVotingOpen
     else and_then (ok_or (g_config s) GvNotInitialized) (\<lambda>config.
     and_then (i128_add (gp_votes_for p) (gp_votes_against p)) (\<lambda>total_votes.
     and_then (i128_mul (gc_total_supply config) (int (gc_quorum_bps config))) (\<lambda>scaled.
     and_then (i128_div scaled 10000) (\<lambda>quorum_required.
     let quorum_met = (quorum_required \<le> total_votes);
         majority_for = (gp_votes_against p < gp_votes_for p);
         new_status = (if quorum_met \<and> majority_for then GvSucceeded else GvDefeated)
     in Ok (new_status, set_proposal i (p\<lparr>gp_status := new_status\<rparr>) s))))))"

definition governor_queue ::
  "'w callee \<Rightarrow> env \<Rightarrow> nat \<Rightarrow> nat \<Rightarrow> 'w gov_system \<Rightarrow> (governance_error, unit \<times> 'w gov_system) outcome" where
  "governor_queue callee e i eta sw =
     (let s = fst sw; w = snd sw in
      and_then (ok_or (g_proposal s i) GvProposalNotFound) (\<lambda>p.
      if gp_status p \<noteq> GvSucceeded then Err GvWrongState
      else
        let p = p\<lparr>gp_status := GvQueued\<rparr>; s = set_proposal i p s
        in case g_timelock s of
             Some timelock \<Rightarrow>
               and_then (invoke_contract callee e w timelock ''queue''
                 [VAddr (gp_target p), VSym (gp_function p), VVec (gp_args p), VU64 eta]) (\<lambda>(_, w).
               Ok ((), (s, w)))
           | None \<Rightarrow> Ok ((), (s, w))))"

definition governor_execute ::
  "'w callee \<Rightarrow> env \<Rightarrow> nat \<Rightarrow> 'w gov_system \<Rightarrow> (governance_error, unit \<times> 'w gov_system) outcome" where
  "governor_execute callee e i sw =
     (let s = fst sw; w = snd sw in
      and_then (ok_or (g_proposal s i) GvProposalNotFound) (\<lambda>p.
      if gp_status p \<noteq> GvQueued then Err GvWrongState
      else
        let p = p\<lparr>gp_status := GvExecuted\<rparr>; s = set_proposal i p s
        in and_then (invoke_contract callee e w (gp_target p) (gp_function p) (gp_args p)) (\<lambda>(_, w).
           Ok ((), (s, w)))))"

definition governor_get_proposal :: "nat \<Rightarrow> governor \<Rightarrow> proposal_state option" where
  "governor_get_proposal i s = g_proposal s i"

section \<open>The contract as a transaction executor\<close>

datatype governor_call =
    GvInitialize address governor_config
  | GvSetTimelock address address
  | GvSetConfig address governor_config
  | GvPropose address address symbol "val list" symbol
  | GvCastVote address nat bool
  | GvFinalize nat
  | GvQueue nat nat
  | GvExecute nat

definition on_governor ::
  "(governor \<Rightarrow> ('e, 'a \<times> governor) outcome) \<Rightarrow> 'w gov_system \<Rightarrow> ('e, unit \<times> 'w gov_system) outcome" where
  "on_governor f sw = and_then (f (fst sw)) (\<lambda>(_, s). Ok ((), (s, snd sw)))"

fun governor_exec ::
  "'w balance_fn \<Rightarrow> 'w callee \<Rightarrow> (governor_call, 'w gov_system, governance_error, unit) executor" where
  "governor_exec bal callee e (GvInitialize a cfg) sw = on_governor (governor_initialize e a cfg) sw"
| "governor_exec bal callee e (GvSetTimelock a t) sw = on_governor (set_timelock e a t) sw"
| "governor_exec bal callee e (GvSetConfig a cfg) sw = on_governor (set_config e a cfg) sw"
| "governor_exec bal callee e (GvPropose a t f args d) sw = discard (governor_propose bal e a t f args d sw)"
| "governor_exec bal callee e (GvCastVote a i b) sw = discard (cast_vote bal e a i b sw)"
| "governor_exec bal callee e (GvFinalize i) sw = on_governor (finalize e i) sw"
| "governor_exec bal callee e (GvQueue i eta) sw = governor_queue callee e i eta sw"
| "governor_exec bal callee e (GvExecute i) sw = governor_execute callee e i sw"

section \<open>What each entry point does\<close>

lemma set_proposal_simps [simp]:
  "g_proposal (set_proposal i p s) j = (if j = i then Some p else g_proposal s j)"
  "g_admin (set_proposal i p s) = g_admin s" "g_config (set_proposal i p s) = g_config s"
  "g_timelock (set_proposal i p s) = g_timelock s" "g_next_id (set_proposal i p s) = g_next_id s"
  by (simp_all add: set_proposal_def)

lemmas governor_admin_ops = governor_initialize_def set_timelock_def set_config_def
  governor_require_admin_def on_governor_def

lemma gov_new_proposal_simps [simp]:
  "gp_status (gov_new_proposal e a t f args d n) = GvActive"
  "gp_voters (gov_new_proposal e a t f args d n) = []"
  "gp_votes_for (gov_new_proposal e a t f args d n) = 0"
  "gp_votes_against (gov_new_proposal e a t f args d n) = 0"
  by (simp_all add: gov_new_proposal_def)

lemma governor_propose_Ok:
  assumes "governor_propose bal e a t f args d (s, w) = Ok (i, (s', w'))"
  obtains n where "w' = w" "i = unwrap_or (g_next_id s) 0"
    "s' = (set_proposal i (gov_new_proposal e a t f args d n) s)\<lparr>g_next_id := Some (i + 1)\<rparr>"
  using assms by (auto simp: governor_propose_def Let_def split: if_splits)

definition gp_add_vote :: "address \<Rightarrow> bool \<Rightarrow> int \<Rightarrow> proposal_state \<Rightarrow> proposal_state" where
  "gp_add_vote voter support weight p =
     p\<lparr>gp_votes_for := gp_votes_for p + (if support then weight else 0),
       gp_votes_against := gp_votes_against p + (if support then 0 else weight),
       gp_voters := gp_voters p @ [voter]\<rparr>"

lemma gp_add_vote_simps [simp]:
  "gp_votes_for (gp_add_vote v b x p) = gp_votes_for p + (if b then x else 0)"
  "gp_votes_against (gp_add_vote v b x p) = gp_votes_against p + (if b then 0 else x)"
  "gp_voters (gp_add_vote v b x p) = gp_voters p @ [v]"
  "gp_status (gp_add_vote v b x p) = gp_status p"
  "gp_vote_end (gp_add_vote v b x p) = gp_vote_end p"
  "gp_target (gp_add_vote v b x p) = gp_target p" "gp_function (gp_add_vote v b x p) = gp_function p"
  "gp_args (gp_add_vote v b x p) = gp_args p" "gp_proposer (gp_add_vote v b x p) = gp_proposer p"
  by (simp_all add: gp_add_vote_def)

lemma cast_vote_Ok:
  assumes "cast_vote bal e voter i support (s, w) = Ok (weight, (s', w'))"
  obtains p cfg where "g_proposal s i = Some p" "gp_status p = GvActive" "timestamp e \<le> gp_vote_end p"
    "voter \<notin> set (gp_voters p)" "auth e voter" "g_config s = Some cfg"
    "bal w (gc_token cfg) voter = Some weight" "w' = w"
    "s' = set_proposal i (gp_add_vote voter support weight p) s"
  using assms
  by (auto simp: cast_vote_def gp_add_vote_def Let_def list_ex_iff split: if_splits)

text \<open>The rule a tally applies: quorum and strict majority.\<close>

definition vote_outcome :: "governor_config \<Rightarrow> proposal_state \<Rightarrow> gov_status" where
  "vote_outcome cfg p =
     (if trunc_div (gc_total_supply cfg * int (gc_quorum_bps cfg)) 10000
           \<le> gp_votes_for p + gp_votes_against p \<and> gp_votes_against p < gp_votes_for p
      then GvSucceeded else GvDefeated)"

lemma finalize_Ok:
  assumes "finalize e i s = Ok (st, s')"
  obtains (done_before) p where "g_proposal s i = Some p" "gp_status p \<noteq> GvActive" "s' = s" "st = gp_status p"
  | (tallied) p cfg where "g_proposal s i = Some p" "gp_status p = GvActive" "gp_vote_end p < timestamp e"
      "g_config s = Some cfg" "s' = set_proposal i (p\<lparr>gp_status := vote_outcome cfg p\<rparr>) s"
      "st = vote_outcome cfg p"
  using assms by (auto simp: finalize_def vote_outcome_def Let_def split: if_splits)

lemma governor_queue_Ok:
  assumes "governor_queue callee e i eta (s, w) = Ok (u, (s', w'))"
  obtains p where "g_proposal s i = Some p" "gp_status p = GvSucceeded"
    "s' = set_proposal i (p\<lparr>gp_status := GvQueued\<rparr>) s"
    "case g_timelock s of None \<Rightarrow> w' = w
     | Some tlk \<Rightarrow> \<exists>v. callee e w tlk ''queue'' [VAddr (gp_target p), VSym (gp_function p),
         VVec (gp_args p), VU64 eta] = (CallOk v, w')"
  using assms by (auto simp: governor_queue_def Let_def split: if_splits option.splits)

lemma governor_execute_Ok:
  assumes "governor_execute callee e i (s, w) = Ok (u, (s', w'))"
  obtains p v where "g_proposal s i = Some p" "gp_status p = GvQueued"
    "s' = set_proposal i (p\<lparr>gp_status := GvExecuted\<rparr>) s"
    "callee e w (gp_target p) (gp_function p) (gp_args p) = (CallOk v, w')"
  using assms by (auto simp: governor_execute_def Let_def split: if_splits)

section \<open>The life of one proposal\<close>

inductive gp_step :: "env \<Rightarrow> governor_config option \<Rightarrow> proposal_state \<Rightarrow> proposal_state \<Rightarrow> bool"
  for e cfg where
  gp_keep: "gp_step e cfg p p"
| gp_vote: "gp_status p = GvActive \<Longrightarrow> timestamp e \<le> gp_vote_end p \<Longrightarrow> voter \<notin> set (gp_voters p) \<Longrightarrow>
    gp_step e cfg p (gp_add_vote voter support x p)"
| gp_tally: "gp_status p = GvActive \<Longrightarrow> gp_vote_end p < timestamp e \<Longrightarrow> cfg = Some c \<Longrightarrow>
    gp_step e cfg p (p\<lparr>gp_status := vote_outcome c p\<rparr>)"
| gp_queue: "gp_status p = GvSucceeded \<Longrightarrow> gp_step e cfg p (p\<lparr>gp_status := GvQueued\<rparr>)"
| gp_execute: "gp_status p = GvQueued \<Longrightarrow> gp_step e cfg p (p\<lparr>gp_status := GvExecuted\<rparr>)"

definition governor_wf :: "governor \<Rightarrow> bool" where
  "governor_wf s \<longleftrightarrow> (\<forall>i p. g_proposal s i = Some p \<longrightarrow>
     i < unwrap_or (g_next_id s) 0 \<and> distinct (gp_voters p)) \<and>
     (g_admin s = None \<longrightarrow> (\<forall>i. g_proposal s i = None) \<and> g_config s = None)"

lemma governor_exec_step:
  assumes "governor_exec bal callee e c (s, w) = Ok (u, (s', w'))" and "governor_wf s"
    and "g_proposal s i = Some p"
  shows "\<exists>p'. g_proposal s' i = Some p' \<and> gp_step e (g_config s) p p'"
proof (cases c)
  case (GvPropose a t f args d)
  have "i \<noteq> unwrap_or (g_next_id s) 0" using assms(2,3) by (auto simp: governor_wf_def)
  with GvPropose assms show ?thesis by (auto simp: gp_keep elim!: governor_propose_Ok)
next
  case (GvCastVote a j b)
  with assms show ?thesis by (auto simp: gp_keep gp_vote elim!: cast_vote_Ok)
next
  case (GvFinalize j)
  with assms(1) obtain st where "finalize e j s = Ok (st, s')" by (auto simp: on_governor_def)
  then show ?thesis
    by (cases rule: finalize_Ok) (use assms(3) in \<open>auto simp: gp_keep gp_tally\<close>)
next
  case (GvQueue j eta)
  with assms show ?thesis by (auto simp: gp_keep gp_queue elim!: governor_queue_Ok)
next
  case (GvExecute j)
  with assms show ?thesis by (auto simp: gp_keep gp_execute elim!: governor_execute_Ok)
next
  case (GvInitialize a cfg)
  with assms show ?thesis
    by (auto simp: governor_admin_ops governor_wf_def split: if_splits)
qed (use assms in \<open>auto simp: governor_admin_ops gp_keep split: if_splits\<close>)

lemma governor_exec_new:
  assumes "governor_exec bal callee e c (s, w) = Ok (u, (s', w'))"
    and "g_proposal s i = None" and "g_proposal s' i = Some p"
  shows "gp_status p = GvActive \<and> gp_voters p = [] \<and> gp_votes_for p = 0 \<and> gp_votes_against p = 0 \<and>
    (\<exists>a t f args d. c = GvPropose a t f args d) \<and> i = unwrap_or (g_next_id s) 0 \<and> g_next_id s' = Some (i + 1)"
proof (cases c)
  case (GvPropose a t f args d)
  with assms show ?thesis by (auto elim!: governor_propose_Ok split: if_splits)
next
  case (GvCastVote a j b)
  with assms show ?thesis by (auto elim!: cast_vote_Ok split: if_splits)
next
  case (GvFinalize j)
  with assms(1) obtain st where "finalize e j s = Ok (st, s')" by (auto simp: on_governor_def)
  then show ?thesis by (cases rule: finalize_Ok) (use assms(2,3) in \<open>auto split: if_splits\<close>)
next
  case (GvQueue j eta)
  with assms show ?thesis by (auto elim!: governor_queue_Ok split: if_splits)
next
  case (GvExecute j)
  with assms show ?thesis by (auto elim!: governor_execute_Ok split: if_splits)
qed (use assms in \<open>auto simp: governor_admin_ops split: if_splits\<close>)

lemma gp_step_distinct: "gp_step e cfg p p' \<Longrightarrow> distinct (gp_voters p) \<Longrightarrow> distinct (gp_voters p')"
  by (induction rule: gp_step.induct) auto

lemma gp_step_status: "gp_step e cfg p p' \<Longrightarrow> gp_status p \<le> gp_status p'"
  by (induction rule: gp_step.induct) (auto simp: less_eq_gov_status_def vote_outcome_def)

lemma gp_step_frame:
  "gp_step e cfg p p' \<Longrightarrow> gp_target p' = gp_target p \<and> gp_function p' = gp_function p \<and>
     gp_args p' = gp_args p \<and> gp_proposer p' = gp_proposer p \<and> gp_vote_end p' = gp_vote_end p"
  by (induction rule: gp_step.induct) auto

lemma gp_step_closed:
  "gp_step e cfg p p' \<Longrightarrow> gp_status p \<noteq> GvActive \<Longrightarrow>
     gp_votes_for p' = gp_votes_for p \<and> gp_votes_against p' = gp_votes_against p \<and> gp_voters p' = gp_voters p \<and>
     (gp_status p = GvDefeated \<or> gp_status p = GvExecuted \<longrightarrow> p' = p)"
  by (induction rule: gp_step.induct) auto

lemma governor_exec_next_id:
  assumes "governor_exec bal callee e c (s, w) = Ok (u, (s', w'))" and "governor_wf s"
    and "g_admin s \<noteq> None"
  shows "unwrap_or (g_next_id s) 0 \<le> unwrap_or (g_next_id s') 0 \<and> g_admin s' = g_admin s"
proof (cases c)
  case (GvPropose a t f args d)
  with assms show ?thesis by (auto elim!: governor_propose_Ok)
next
  case (GvCastVote a j b)
  with assms show ?thesis by (auto elim!: cast_vote_Ok)
next
  case (GvFinalize j)
  with assms(1) obtain st where "finalize e j s = Ok (st, s')" by (auto simp: on_governor_def)
  then show ?thesis by (cases rule: finalize_Ok) auto
next
  case (GvQueue j eta)
  with assms show ?thesis by (auto elim!: governor_queue_Ok)
next
  case (GvExecute j)
  with assms show ?thesis by (auto elim!: governor_execute_Ok)
qed (use assms in \<open>auto simp: governor_admin_ops split: if_splits\<close>)

lemma governor_exec_undeployed:
  assumes "governor_exec bal callee e c (s, w) = Ok (u, (s', w'))" and "governor_wf s"
    and "g_admin s = None"
  shows "\<forall>i. g_proposal s' i = None" and "g_admin s' = None \<Longrightarrow> g_config s' = None"
  using assms
  by (cases c; auto simp: governor_admin_ops governor_wf_def governor_propose_def cast_vote_def
      finalize_def governor_queue_def governor_execute_def Let_def split: if_splits)+

lemma governor_exec_wf:
  assumes ex: "governor_exec bal callee e c (s, w) = Ok (u, (s', w'))" and wf: "governor_wf s"
  shows "governor_wf s'"
proof (cases "g_admin s")
  case None
  with governor_exec_undeployed [OF ex wf] show ?thesis by (auto simp: governor_wf_def)
next
  case (Some adm)
  note mono = governor_exec_next_id [OF ex wf]
  have "i < unwrap_or (g_next_id s') 0 \<and> distinct (gp_voters p)" if p: "g_proposal s' i = Some p" for i p
  proof (cases "g_proposal s i")
    case None
    with governor_exec_new [OF ex None p] show ?thesis by simp
  next
    case (Some p0)
    then have "i < unwrap_or (g_next_id s) 0" "distinct (gp_voters p0)"
      using wf by (simp_all add: governor_wf_def)
    with governor_exec_step [OF ex wf Some] p mono \<open>g_admin s = Some adm\<close> show ?thesis
      by (auto dest: gp_step_distinct)
  qed
  with mono Some show ?thesis by (auto simp: governor_wf_def)
qed

interpretation gov: contract_invariant "governor_exec bal callee" "\<lambda>sw. governor_wf (fst sw)"
  for bal :: "'w balance_fn" and callee :: "'w callee"
proof
  fix s s' e c r assume "governor_wf (fst s)" "governor_exec bal callee e c s = Ok (r, s')"
  then show "governor_wf (fst s')" by (cases s; cases s') (auto dest: governor_exec_wf)
qed

lemma governor_undeployed_wf [simp]: "governor_wf governor_undeployed"
  by (simp add: governor_wf_def governor_undeployed_def)

section \<open>Runs\<close>

abbreviation gov_after ::
  "'w balance_fn \<Rightarrow> 'w callee \<Rightarrow> (env \<times> governor_call) list \<Rightarrow> 'w \<Rightarrow> governor" where
  "gov_after bal callee txs w \<equiv> fst (run_txs (governor_exec bal callee) txs (governor_undeployed, w))"

lemma gov_after_wf: "governor_wf (gov_after bal callee txs w)"
  by (rule gov.run_keeps) simp

text \<open>The order of the life cycle, for well-formed states.\<close>

definition gp_after :: "proposal_state \<Rightarrow> proposal_state \<Rightarrow> bool" where
  "gp_after p p' \<longleftrightarrow> gp_status p \<le> gp_status p' \<and>
     gp_target p' = gp_target p \<and> gp_function p' = gp_function p \<and> gp_args p' = gp_args p \<and>
     (gp_status p \<noteq> GvActive \<longrightarrow> gp_votes_for p' = gp_votes_for p \<and>
        gp_votes_against p' = gp_votes_against p \<and> gp_voters p' = gp_voters p) \<and>
     (gp_status p \<in> {GvDefeated, GvExecuted} \<longrightarrow> p' = p)"

definition gov_order :: "'w gov_system \<Rightarrow> 'w gov_system \<Rightarrow> bool" where
  "gov_order sw sw' \<longleftrightarrow> (governor_wf (fst sw) \<longrightarrow> governor_wf (fst sw') \<and>
     (\<forall>i p. g_proposal (fst sw) i = Some p \<longrightarrow>
        (\<exists>p'. g_proposal (fst sw') i = Some p' \<and> gp_after p p')))"

lemma gov_status_active_le: "GvActive \<le> x" "x \<le> GvActive \<Longrightarrow> x = GvActive"
  by (cases x; simp add: less_eq_gov_status_def)+

lemma gp_after_refl: "gp_after p p"
  by (simp add: gp_after_def)

lemma gp_after_trans: "gp_after p q \<Longrightarrow> gp_after q r \<Longrightarrow> gp_after p r"
  unfolding gp_after_def by (auto dest: gov_status_active_le(2))

lemma gp_step_after: "gp_step e cfg p p' \<Longrightarrow> gp_after p p'"
  using gp_step_status [of e cfg p p'] gp_step_frame [of e cfg p p'] gp_step_closed [of e cfg p p']
  by (cases "gp_status p") (simp_all add: gp_after_def)

lemma gov_order_exec:
  assumes "governor_exec bal callee e c (s, w) = Ok (r, (s', w'))"
  shows "gov_order (s, w) (s', w')"
  using governor_exec_wf [OF assms] governor_exec_step [OF assms] gp_step_after
  unfolding gov_order_def fst_conv by meson

interpretation lifecycle: contract_order "governor_exec bal callee" gov_order
  for bal :: "'w balance_fn" and callee :: "'w callee"
proof
  show "gov_order s s" for s :: "'w gov_system" by (simp add: gov_order_def gp_after_refl)
  show "gov_order s t \<Longrightarrow> gov_order t u \<Longrightarrow> gov_order s u" for s t u :: "'w gov_system"
    unfolding gov_order_def by (meson gp_after_trans)
  show "gov_order s s'" if "governor_exec bal callee e c s = Ok (r, s')" for e c r and s s' :: "'w gov_system"
    using that gov_order_exec [of bal callee e c "fst s" "snd s" r "fst s'" "snd s'"] by simp
qed

text \<open>The votes that were accepted for proposal \<open>i\<close> during a run: voter, side and weight.\<close>

definition vote_of ::
  "'w balance_fn \<Rightarrow> env \<Rightarrow> nat \<Rightarrow> governor_call \<Rightarrow> 'w gov_system \<Rightarrow> (address \<times> bool \<times> int) list" where
  "vote_of bal e i c sw =
     (case c of
        GvCastVote v j b \<Rightarrow>
          (if j = i then case cast_vote bal e v j b sw of Ok (x, _) \<Rightarrow> [(v, b, x)] | _ \<Rightarrow> [] else [])
      | _ \<Rightarrow> [])"

fun accepted_votes ::
  "'w balance_fn \<Rightarrow> 'w callee \<Rightarrow> nat \<Rightarrow> (env \<times> governor_call) list \<Rightarrow> 'w gov_system \<Rightarrow>
   (address \<times> bool \<times> int) list" where
  "accepted_votes bal callee i [] sw = []"
| "accepted_votes bal callee i ((e, c) # txs) sw =
     vote_of bal e i c sw @
     accepted_votes bal callee i txs (state_after sw (governor_exec bal callee e c sw))"

definition tally :: "nat \<Rightarrow> governor \<Rightarrow> address list \<times> int \<times> int" where
  "tally i s = (case g_proposal s i of None \<Rightarrow> ([], 0, 0)
     | Some p \<Rightarrow> (gp_voters p, gp_votes_for p, gp_votes_against p))"

definition weight_for :: "bool \<Rightarrow> (address \<times> bool \<times> int) list \<Rightarrow> int" where
  "weight_for side vs = sum_list (map (\<lambda>(_, b, x). if b = side then x else 0) vs)"

fun add_votes :: "(address \<times> bool \<times> int) list \<Rightarrow> address list \<times> int \<times> int \<Rightarrow> address list \<times> int \<times> int" where
  "add_votes vs (voters, f, a) = (voters @ map fst vs, f + weight_for True vs, a + weight_for False vs)"

lemma add_votes_append: "add_votes (xs @ ys) t = add_votes ys (add_votes xs t)"
  by (cases t) (simp add: weight_for_def)

lemma add_votes_Nil [simp]: "add_votes [] t = t"
  by (cases t) (simp add: weight_for_def)

lemma tally_undeployed [simp]: "tally i governor_undeployed = ([], 0, 0)"
  by (simp add: tally_def governor_undeployed_def)

lemma tally_step:
  assumes ex: "governor_exec bal callee e c (s, w) = Ok (u, (s', w'))" and wf: "governor_wf s"
  shows "tally i s' = add_votes (vote_of bal e i c (s, w)) (tally i s)"
proof (cases c)
  case (GvCastVote v j b)
  with ex obtain x where vote: "cast_vote bal e v j b (s, w) = Ok (x, (s', w'))" by auto
  then obtain p where "g_proposal s j = Some p" "s' = set_proposal j (gp_add_vote v b x p) s"
    by (rule cast_vote_Ok)
  with GvCastVote vote show ?thesis
    by (auto simp: vote_of_def tally_def weight_for_def)
next
  case (GvPropose a t f args d)
  with ex obtain j where "governor_propose bal e a t f args d (s, w) = Ok (j, (s', w'))" by auto
  then show ?thesis
  proof (rule governor_propose_Ok)
    fix n assume "w' = w" "j = unwrap_or (g_next_id s) 0" and
      s': "s' = (set_proposal j (gov_new_proposal e a t f args d n) s)\<lparr>g_next_id := Some (j + 1)\<rparr>"
    then have "g_proposal s j = None" using wf by (cases "g_proposal s j") (auto simp: governor_wf_def)
    with s' GvPropose show ?thesis by (auto simp: vote_of_def tally_def)
  qed
next
  case (GvFinalize j)
  with ex obtain st where "finalize e j s = Ok (st, s')" by (auto simp: on_governor_def)
  then show ?thesis
    by (cases rule: finalize_Ok) (auto simp: GvFinalize vote_of_def tally_def)
next
  case (GvQueue j eta)
  with ex show ?thesis by (auto simp: vote_of_def tally_def elim!: governor_queue_Ok)
next
  case (GvExecute j)
  with ex show ?thesis by (auto simp: vote_of_def tally_def elim!: governor_execute_Ok)
qed (use ex wf in \<open>auto simp: vote_of_def tally_def governor_admin_ops governor_wf_def split: if_splits\<close>)

lemma vote_of_accepted:
  assumes "vote_of bal e i c sw \<noteq> []"
  shows "\<exists>r. governor_exec bal callee e c sw = Ok r"
proof -
  from assms obtain v b r where "c = GvCastVote v i b" "cast_vote bal e v i b sw = Ok r"
    by (auto simp: vote_of_def split: governor_call.splits outcome.splits if_splits)
  then show ?thesis by (cases r) (simp add: discard_def)
qed

lemma vote_of_rejected:
  "governor_exec bal callee e c sw = Err x \<Longrightarrow> vote_of bal e i c sw = []"
  "governor_exec bal callee e c sw = Trap \<Longrightarrow> vote_of bal e i c sw = []"
  using vote_of_accepted [of bal e i c sw callee] by force+

lemma tally_run:
  assumes "governor_wf (fst sw)"
  shows "tally i (fst (run_txs (governor_exec bal callee) txs sw)) =
    add_votes (accepted_votes bal callee i txs sw) (tally i (fst sw))"
  using assms
proof (induction txs arbitrary: sw)
  case (Cons tx txs)
  obtain e c where tx: "tx = (e, c)" by (cases tx)
  let ?sw1 = "state_after sw (governor_exec bal callee e c sw)"
  have wf1: "governor_wf (fst ?sw1)" using gov.timed.tx_inv Cons.prems by blast
  have "tally i (fst ?sw1) = add_votes (vote_of bal e i c sw) (tally i (fst sw))"
  proof (cases "governor_exec bal callee e c sw")
    case (Ok r)
    with tally_step [of bal callee e c "fst sw" "snd sw" "fst r" "fst (snd r)" "snd (snd r)" i] Cons.prems
    show ?thesis by (cases r) simp
  qed (simp_all add: vote_of_rejected)
  with Cons.IH [OF wf1] tx show ?case by (simp add: add_votes_append)
qed simp

lemma gp_step_success:
  "gp_step e cfg p p' \<Longrightarrow> gp_status p < GvSucceeded \<Longrightarrow> GvSucceeded \<le> gp_status p' \<Longrightarrow>
   \<exists>c. cfg = Some c \<and> gp_status p = GvActive \<and> gp_vote_end p < timestamp e \<and>
     vote_outcome c p = GvSucceeded \<and> p' = p\<lparr>gp_status := GvSucceeded\<rparr>"
  by (induction rule: gp_step.induct)
    (auto simp: less_gov_status_def less_eq_gov_status_def vote_outcome_def split: if_splits)

lemma governor_exec_tallied:
  assumes "governor_exec bal callee e c (s, w) = Ok (u, (s', w'))"
    and "g_proposal s i = Some p" and "gp_status p = GvActive"
    and "g_proposal s' i = Some p'" and "gp_status p' = GvSucceeded"
  shows "c = GvFinalize i"
proof (cases c)
  case (GvFinalize j)
  with assms(1) obtain st where "finalize e j s = Ok (st, s')" by (auto simp: on_governor_def)
  then show ?thesis
    by (cases rule: finalize_Ok) (use assms GvFinalize in \<open>auto split: if_splits\<close>)
next
  case (GvPropose a t f args d)
  with assms show ?thesis by (auto elim!: governor_propose_Ok split: if_splits)
next
  case (GvCastVote a j b)
  with assms show ?thesis by (auto elim!: cast_vote_Ok split: if_splits)
next
  case (GvQueue j eta)
  with assms show ?thesis by (auto elim!: governor_queue_Ok split: if_splits)
next
  case (GvExecute j)
  with assms show ?thesis by (auto elim!: governor_execute_Ok split: if_splits)
qed (use assms in \<open>auto simp: governor_admin_ops split: if_splits\<close>)

section \<open>Properties\<close>

definition gv_env :: "nat \<Rightarrow> env" where
  "gv_env t = \<lparr>timestamp = t, ledger_seq = 3, auth = (\<lambda>_. True), this = 50\<rparr>"

definition gv_bal :: "nat balance_fn" where
  "gv_bal w tok a = Some (if a = 1 then 600 else if a = 2 then 100 else 0)"

definition gv_callee :: "nat callee" where
  "gv_callee e w a f args = (CallOk (VBool True), Suc w)"

definition gv_cfg :: governor_config where
  "gv_cfg = \<lparr>gc_token = 9, gc_voting_period = 100, gc_quorum_bps = 400, gc_proposal_threshold = 50,
     gc_total_supply = 10000\<rparr>"

definition gv_txs :: "(env \<times> governor_call) list" where
  "gv_txs = [(gv_env 0, GvInitialize 1 gv_cfg), (gv_env 10, GvPropose 1 5 ''go'' [] ''d''),
     (gv_env 20, GvCastVote 1 0 True), (gv_env 30, GvCastVote 2 0 False), (gv_env 200, GvFinalize 0)]"

definition gv_proposal :: proposal_state where
  "gv_proposal = \<lparr>gp_proposer = 1, gp_target = 5, gp_function = ''go'', gp_args = [],
     gp_description = ''d'', gp_vote_start = 10, gp_vote_end = 110, gp_votes_for = 600,
     gp_votes_against = 100, gp_status = GvSucceeded, gp_voters = [1, 2], gp_snapshot_ledger = 3\<rparr>"

lemma gv_run: "g_proposal (gov_after gv_bal gv_callee gv_txs 0) 0 = Some gv_proposal"
  by (simp add: gv_txs_def gv_env_def gv_cfg_def gv_bal_def gv_proposal_def governor_undeployed_def
      governor_initialize_def governor_propose_def gov_new_proposal_def cast_vote_def finalize_def
      on_governor_def discard_def token_balance_def set_proposal_def require_auth_def ok_or_def
      u64_add_def u64_max_def i128_add_def i128_mul_def i128_div_def i128_checked_def int_width_defs
      Let_def del: and_then_Ok_iff and_then_Err_iff and_then_Trap_iff)

text \<open>C20. The tallies stored with a proposal are exact: in any reachable state the recorded voters
are the addresses whose \<open>cast_vote\<close> calls on this proposal were accepted, in that order and
without repetition, and the two totals are the sums of the weights those calls returned on each
side.\<close>

theorem gov_tally_exact:
  assumes "g_proposal (fst (run_txs (governor_exec bal callee) txs (governor_undeployed, w))) i = Some p"
  shows "distinct (gp_voters p) \<and>
    gp_voters p = map fst (accepted_votes bal callee i txs (governor_undeployed, w)) \<and>
    gp_votes_for p = weight_for True (accepted_votes bal callee i txs (governor_undeployed, w)) \<and>
    gp_votes_against p = weight_for False (accepted_votes bal callee i txs (governor_undeployed, w))"
proof -
  have "distinct (gp_voters p)" using gov_after_wf [of bal callee txs w] assms by (simp add: governor_wf_def)
  moreover have "tally i (gov_after bal callee txs w) =
    add_votes (accepted_votes bal callee i txs (governor_undeployed, w)) ([], 0, 0)"
    using tally_run [of "(governor_undeployed, w)" i bal callee txs] by simp
  ultimately show ?thesis using assms by (simp add: tally_def)
qed

theorem gov_tally_exact_witness:
  "[1, 2] = map fst (accepted_votes gv_bal gv_callee 0 gv_txs (governor_undeployed, 0)) \<and>
   600 = weight_for True (accepted_votes gv_bal gv_callee 0 gv_txs (governor_undeployed, 0))"
  using gov_tally_exact [OF gv_run] by (simp add: gv_proposal_def)

text \<open>A proposal that is \<open>Succeeded\<close>, \<open>Queued\<close> or \<open>Executed\<close> after any history was finalized by
a \<open>finalize\<close> call after its voting period, when it was still active with the same final
tallies, and these tallies gave it a strict majority and at least the configured quorum of that
moment.\<close>

theorem gov_advanced_won:
  assumes "g_proposal (fst (run_txs (governor_exec bal callee) txs (governor_undeployed, w))) i = Some p"
    and "GvSucceeded \<le> gp_status p"
  shows "\<exists>pre e post p0 cfg.
    txs = pre @ (e, GvFinalize i) # post \<and>
    g_proposal (fst (run_txs (governor_exec bal callee) pre (governor_undeployed, w))) i = Some p0 \<and>
    g_config (fst (run_txs (governor_exec bal callee) pre (governor_undeployed, w))) = Some cfg \<and>
    gp_status p0 = GvActive \<and> gp_vote_end p0 < timestamp e \<and>
    gp_target p0 = gp_target p \<and> gp_function p0 = gp_function p \<and> gp_args p0 = gp_args p \<and>
    gp_votes_for p0 = gp_votes_for p \<and> gp_votes_against p0 = gp_votes_against p \<and>
    gp_votes_against p < gp_votes_for p \<and>
    trunc_div (gc_total_supply cfg * int (gc_quorum_bps cfg)) 10000 \<le> gp_votes_for p + gp_votes_against p"
proof -
  let ?P = "\<lambda>sw. \<exists>p. g_proposal (fst sw) i = Some p \<and> GvSucceeded \<le> gp_status p"
  let ?run = "\<lambda>xs. run_txs (governor_exec bal callee) xs (governor_undeployed, w)"
  have "?P (?run txs)" "\<not> ?P (governor_undeployed, w)" using assms by (auto simp: governor_undeployed_def)
  from run_txs_origin [of ?P, OF this] obtain pre e c post u sw1 where split: "txs = pre @ (e, c) # post"
    and old: "\<not> ?P (?run pre)" and ex: "governor_exec bal callee e c (?run pre) = Ok (u, sw1)"
    and new: "?P sw1" by blast
  from new obtain p1 where p1: "g_proposal (fst sw1) i = Some p1" "GvSucceeded \<le> gp_status p1" by blast
  have ex': "governor_exec bal callee e c (fst (?run pre), snd (?run pre)) = Ok (u, (fst sw1, snd sw1))"
    using ex by simp
  have "gp_status p1 \<noteq> GvActive" using p1(2) by (auto simp: less_eq_gov_status_def)
  then have "g_proposal (fst (?run pre)) i \<noteq> None" using governor_exec_new [OF ex' _ p1(1)] by blast
  then obtain p0 where p0: "g_proposal (fst (?run pre)) i = Some p0" by blast
  with old have "gp_status p0 < GvSucceeded" by (auto simp: not_le)
  moreover have "gp_step e (g_config (fst (?run pre))) p0 p1"
    using governor_exec_step [OF ex' gov_after_wf p0] p1(1) by auto
  ultimately obtain cfg where win: "g_config (fst (?run pre)) = Some cfg" "gp_status p0 = GvActive"
    "gp_vote_end p0 < timestamp e" "vote_outcome cfg p0 = GvSucceeded" "p1 = p0\<lparr>gp_status := GvSucceeded\<rparr>"
    using gp_step_success p1(2) by blast
  have c: "c = GvFinalize i" by (rule governor_exec_tallied [OF ex' p0 win(2) p1(1)]) (simp add: win)
  have "?run txs = run_txs (governor_exec bal callee) post sw1"
    using split ex by (simp add: run_txs_append)
  with lifecycle.run_rel [of sw1 bal callee post] governor_exec_wf [OF ex' gov_after_wf] p1(1) assms(1)
  have "gp_after p1 p" unfolding gov_order_def by fastforce
  then have same: "gp_target p1 = gp_target p" "gp_function p1 = gp_function p" "gp_args p1 = gp_args p"
    "gp_votes_for p1 = gp_votes_for p" "gp_votes_against p1 = gp_votes_against p"
    using win(5) by (simp_all add: gp_after_def)
  show ?thesis
    by (intro exI [of _ pre] exI [of _ e] exI [of _ post] exI [of _ p0] exI [of _ cfg])
      (use split c p0 win same in \<open>auto simp: vote_outcome_def split: if_splits\<close>)
qed

theorem gov_advanced_won_witness:
  "\<exists>pre e post p0 cfg. gv_txs = pre @ (e, GvFinalize 0) # post \<and>
    g_proposal (fst (run_txs (governor_exec gv_bal gv_callee) pre (governor_undeployed, 0))) 0 = Some p0 \<and>
    g_config (fst (run_txs (governor_exec gv_bal gv_callee) pre (governor_undeployed, 0))) = Some cfg \<and>
    gp_status p0 = GvActive \<and> gp_vote_end p0 < timestamp e"
proof -
  have "GvSucceeded \<le> gp_status gv_proposal" by (simp add: gv_proposal_def)
  from gov_advanced_won [OF gv_run this] show ?thesis by blast
qed

text \<open>Whatever happens after a proposal exists, its call stays the same, its status only moves
forward in the order Active, Defeated, Succeeded, Queued, Executed, its votes are fixed once it
has left \<open>Active\<close>, and a \<open>Defeated\<close> or \<open>Executed\<close> proposal never changes again.\<close>

theorem gov_lifecycle_forward:
  assumes "g_proposal (fst (run_txs (governor_exec bal callee) txs (governor_undeployed, w))) i = Some p"
  shows "\<exists>p'. g_proposal (fst (run_txs (governor_exec bal callee) (txs @ later) (governor_undeployed, w))) i
      = Some p' \<and> gp_status p \<le> gp_status p' \<and>
    gp_target p' = gp_target p \<and> gp_function p' = gp_function p \<and> gp_args p' = gp_args p \<and>
    (gp_status p \<noteq> GvActive \<longrightarrow> gp_votes_for p' = gp_votes_for p \<and>
       gp_votes_against p' = gp_votes_against p \<and> gp_voters p' = gp_voters p) \<and>
    (gp_status p \<in> {GvDefeated, GvExecuted} \<longrightarrow> p' = p)"
  using lifecycle.run_rel [of "run_txs (governor_exec bal callee) txs (governor_undeployed, w)" bal callee later]
    gov_after_wf [of bal callee txs w] assms
  by (auto simp: run_txs_append gov_order_def gp_after_def)

theorem gov_lifecycle_forward_witness:
  "\<exists>p'. g_proposal (fst (run_txs (governor_exec gv_bal gv_callee)
      (gv_txs @ [(gv_env 300, GvCastVote 3 0 False), (gv_env 300, GvQueue 0 400)]) (governor_undeployed, 0))) 0
      = Some p' \<and> gp_votes_for p' = 600 \<and> GvSucceeded \<le> gp_status p'"
  using gov_lifecycle_forward [OF gv_run, of "[(gv_env 300, GvCastVote 3 0 False), (gv_env 300, GvQueue 0 400)]"]
  by (auto simp: gv_proposal_def)

text \<open>\<open>execute\<close> does not look at the timelock: a queued proposal runs at once, at any ledger time.\<close>

lemma governor_execute_skips_timelock:
  assumes "g_proposal s i = Some p" and "gp_status p = GvQueued"
    and "callee e w (gp_target p) (gp_function p) (gp_args p) = (CallOk v, w')"
  shows "governor_execute callee e i (s\<lparr>g_timelock := Some tlk\<rparr>, w) =
    Ok ((), (set_proposal i (p\<lparr>gp_status := GvExecuted\<rparr>) (s\<lparr>g_timelock := Some tlk\<rparr>), w'))"
  using assms by (simp add: governor_execute_def ok_or_def invoke_contract_def Let_def del: and_then_Ok_iff)

end
