(* ===== verification/VeToken.thy ===== *)
theory VeToken
  imports Soroban
begin

text \<open>
  The vote-escrow contract (\<open>src/vetoken/src/lib.rs\<close>): time locks, linearly decaying voting
  power, and fee sharing among lockers.

  The state is the record \<open>vetoken\<close>.  The locked token is a parameter: \<open>transfer w tok a b x\<close>
  is the new state of the other contracts after the token's \<open>transfer\<close>, or \<open>None\<close> when that
  call panics.  What the lemmas need of it is the prelude's hypothesis \<open>sep41_transfers\<close>: a transfer
  between different accounts moves exactly the amount.

  The lemmas show that the contract is solvent (its token balance covers all locks and all
  fees credited to lockers), that the fee denominator is the sum of the recorded powers and
  never below the live voting power, that a lock is only released by its owner after expiry,
  and how voting power behaves.
\<close>

section \<open>State\<close>

definition MAX_LOCK_TIME :: nat where "MAX_LOCK_TIME = 4 * 365 * 24 * 60 * 60"

record lock_info =
  lk_amount :: int
  lk_unlock_at :: nat

record fee_checkpoint =
  acc_fee_per_power :: int
  total_power :: int

record fee_account =
  reward_per_power_paid :: int
  pending :: int
  recorded_power :: int

record vetoken =
  v_token :: "address option"
  v_treasury :: "address option"
  v_lock :: "address \<rightharpoonup> lock_info"
  v_fee_account :: "address \<rightharpoonup> fee_account"
  v_fee_checkpoint :: "fee_checkpoint option"

datatype vetoken_error =
    VeAlreadyInitialized | VeNotInitialized | VeInvalidAmount | VeInvalidDuration | VeNoLock
  | VeLockNotExpired | VeCannotShortenLock | VeNothingToClaim | VeNoVotingPower

type_synonym 'w ve_system = "vetoken \<times> 'w"

definition vetoken_undeployed :: vetoken where
  "vetoken_undeployed = \<lparr>v_token = None, v_treasury = None, v_lock = (\<lambda>_. None),
     v_fee_account = (\<lambda>_. None), v_fee_checkpoint = None\<rparr>"

section \<open>Internal helpers\<close>

definition ve_token :: "vetoken \<Rightarrow> (vetoken_error, address) outcome" where
  "ve_token s = ok_or (v_token s) VeNotInitialized"

definition ve_treasury :: "vetoken \<Rightarrow> (vetoken_error, address) outcome" where
  "ve_treasury s = ok_or (v_treasury s) VeNotInitialized"

definition get_lock :: "vetoken \<Rightarrow> address \<Rightarrow> lock_info" where
  "get_lock s a = unwrap_or (v_lock s a) \<lparr>lk_amount = 0, lk_unlock_at = 0\<rparr>"

definition get_fee_checkpoint :: "vetoken \<Rightarrow> fee_checkpoint" where
  "get_fee_checkpoint s = unwrap_or (v_fee_checkpoint s) \<lparr>acc_fee_per_power = 0, total_power = 0\<rparr>"

definition get_fee_account :: "vetoken \<Rightarrow> address \<Rightarrow> fee_account" where
  "get_fee_account s a =
     unwrap_or (v_fee_account s a) \<lparr>reward_per_power_paid = 0, pending = 0, recorded_power = 0\<rparr>"

definition voting_power :: "env \<Rightarrow> address \<Rightarrow> vetoken \<Rightarrow> ('e, int) outcome" where
  "voting_power e a s =
     (let lock = get_lock s a in
      if lk_amount lock \<le> 0 then Ok 0
      else if lk_unlock_at lock \<le> timestamp e then Ok 0
      else and_then (u64_sub (lk_unlock_at lock) (timestamp e)) (\<lambda>remaining.
           and_then (i128_mul (lk_amount lock) (int remaining)) (\<lambda>x.
           i128_div x (int MAX_LOCK_TIME))))"

definition settle_fee_account :: "env \<Rightarrow> address \<Rightarrow> vetoken \<Rightarrow> (vetoken_error, int \<times> vetoken) outcome" where
  "settle_fee_account e a s =
     (let checkpoint = get_fee_checkpoint s; account = get_fee_account s a in
      and_then (voting_power e a s) (\<lambda>power.
      and_then (i128_sub (acc_fee_per_power checkpoint) (reward_per_power_paid account)) (\<lambda>delta.
      and_then (if 0 < delta
                then and_then (i128_mul power delta) (\<lambda>x.
                     and_then (i128_div x 1000000000) (\<lambda>share.
                     and_then (i128_add (pending account) share) (\<lambda>p. Ok (account\<lparr>pending := p\<rparr>))))
                else Ok account) (\<lambda>account.
      let account = account\<lparr>reward_per_power_paid := acc_fee_per_power checkpoint\<rparr>
      in Ok (pending account, s\<lparr>v_fee_account := (v_fee_account s)(a \<mapsto> account)\<rparr>)))))"

definition refresh_total_power :: "env \<Rightarrow> address \<Rightarrow> vetoken \<Rightarrow> (vetoken_error, vetoken) outcome" where
  "refresh_total_power e a s =
     (let checkpoint = get_fee_checkpoint s; account = get_fee_account s a in
      and_then (voting_power e a s) (\<lambda>power.
      and_then (i128_sub (total_power checkpoint) (recorded_power account)) (\<lambda>rest.
      and_then (i128_add rest power) (\<lambda>total.
      Ok (s\<lparr>v_fee_checkpoint := Some (checkpoint\<lparr>total_power := total\<rparr>),
            v_fee_account := (v_fee_account s)(a \<mapsto> account\<lparr>recorded_power := power\<rparr>)\<rparr>)))))"

section \<open>Entry points\<close>

definition vetoken_initialize :: "address \<Rightarrow> address \<Rightarrow> vetoken \<Rightarrow> (vetoken_error, unit \<times> vetoken) outcome" where
  "vetoken_initialize tok treasury s =
     (if v_token s \<noteq> None then Err VeAlreadyInitialized
      else Ok ((), s\<lparr>v_token := Some tok, v_treasury := Some treasury,
             v_fee_checkpoint := Some \<lparr>acc_fee_per_power = 0, total_power = 0\<rparr>\<rparr>))"

definition ve_lock ::
  "'w transfer_fn \<Rightarrow> env \<Rightarrow> address \<Rightarrow> int \<Rightarrow> nat \<Rightarrow> 'w ve_system \<Rightarrow> (vetoken_error, unit \<times> 'w ve_system) outcome" where
  "ve_lock transfer e caller amount duration sw =
     (let s = fst sw; w = snd sw in
      and_then (require_auth e caller) (\<lambda>_.
      if amount \<le> 0 then Err VeInvalidAmount
      else if duration = 0 \<or> MAX_LOCK_TIME < duration then Err VeInvalidDuration
      else
        and_then (ve_token s) (\<lambda>tok.
        and_then (u64_add (timestamp e) duration) (\<lambda>unlock_at.
        and_then (settle_fee_account e caller s) (\<lambda>(_, s).
        let existing = get_lock s caller in
        and_then (i128_add (lk_amount existing) amount) (\<lambda>new_amount.
        let new_unlock_at = (if unlock_at < lk_unlock_at existing then lk_unlock_at existing else unlock_at) in
        and_then (token_transfer transfer w tok caller (this e) amount) (\<lambda>w.
        let s = s\<lparr>v_lock := (v_lock s)(caller \<mapsto> \<lparr>lk_amount = new_amount, lk_unlock_at = new_unlock_at\<rparr>)\<rparr> in
        and_then (refresh_total_power e caller s) (\<lambda>s.
        Ok ((), (s, w))))))))))"

definition extend_lock :: "env \<Rightarrow> address \<Rightarrow> nat \<Rightarrow> vetoken \<Rightarrow> (vetoken_error, unit \<times> vetoken) outcome" where
  "extend_lock e caller duration s =
     and_then (require_auth e caller) (\<lambda>_.
     if duration = 0 then Err VeInvalidDuration
     else
       let lock = get_lock s caller in
       if lk_amount lock \<le> 0 then Err VeNoLock
       else
         let now = timestamp e; base = (if now < lk_unlock_at lock then lk_unlock_at lock else now) in
         and_then (u64_add base duration) (\<lambda>proposed.
         if proposed \<le> lk_unlock_at lock then Err VeCannotShortenLock
         else and_then (u64_sub proposed now) (\<lambda>len.
           if MAX_LOCK_TIME < len then Err VeInvalidDuration
           else
             and_then (settle_fee_account e caller s) (\<lambda>(_, s).
             let s = s\<lparr>v_lock := (v_lock s)(caller \<mapsto> lock\<lparr>lk_unlock_at := proposed\<rparr>)\<rparr> in
             and_then (refresh_total_power e caller s) (\<lambda>s. Ok ((), s))))))"

definition ve_withdraw ::
  "'w transfer_fn \<Rightarrow> env \<Rightarrow> address \<Rightarrow> 'w ve_system \<Rightarrow> (vetoken_error, int \<times> 'w ve_system) outcome" where
  "ve_withdraw transfer e caller sw =
     (let s = fst sw; w = snd sw in
      and_then (require_auth e caller) (\<lambda>_.
      let lock = get_lock s caller in
      if lk_amount lock \<le> 0 then Err VeNoLock
      else if timestamp e < lk_unlock_at lock then Err VeLockNotExpired
      else
        and_then (settle_fee_account e caller s) (\<lambda>(_, s).
        let amount = lk_amount lock; s = s\<lparr>v_lock := (v_lock s)(caller := None)\<rparr> in
        and_then (ve_token s) (\<lambda>tok.
        and_then (token_transfer transfer w tok (this e) caller amount) (\<lambda>w.
        and_then (refresh_total_power e caller s) (\<lambda>s.
        Ok (amount, (s, w))))))))"

definition distribute_fees ::
  "'w transfer_fn \<Rightarrow> env \<Rightarrow> int \<Rightarrow> 'w ve_system \<Rightarrow> (vetoken_error, unit \<times> 'w ve_system) outcome" where
  "distribute_fees transfer e amount sw =
     (let s = fst sw; w = snd sw in
      if amount \<le> 0 then Err VeInvalidAmount
      else
        and_then (ve_treasury s) (\<lambda>treasury.
        and_then (require_auth e treasury) (\<lambda>_.
        let checkpoint = get_fee_checkpoint s in
        if total_power checkpoint \<le> 0 then Err VeNoVotingPower
        else
          and_then (ve_token s) (\<lambda>tok.
          and_then (token_transfer transfer w tok treasury (this e) amount) (\<lambda>w.
          and_then (i128_mul amount 1000000000) (\<lambda>x.
          and_then (i128_div x (total_power checkpoint)) (\<lambda>step.
          and_then (i128_add (acc_fee_per_power checkpoint) step) (\<lambda>acc.
          Ok ((), (s\<lparr>v_fee_checkpoint := Some (checkpoint\<lparr>acc_fee_per_power := acc\<rparr>)\<rparr>, w))))))))))"

definition claim_fees ::
  "'w transfer_fn \<Rightarrow> env \<Rightarrow> address \<Rightarrow> 'w ve_system \<Rightarrow> (vetoken_error, int \<times> 'w ve_system) outcome" where
  "claim_fees transfer e caller sw =
     (let s = fst sw; w = snd sw in
      and_then (require_auth e caller) (\<lambda>_.
      and_then (settle_fee_account e caller s) (\<lambda>(due, s).
      if due \<le> 0 then Err VeNothingToClaim
      else
        let account = (get_fee_account s caller)\<lparr>pending := 0\<rparr>;
            s = s\<lparr>v_fee_account := (v_fee_account s)(caller \<mapsto> account)\<rparr> in
        and_then (ve_token s) (\<lambda>tok.
        and_then (token_transfer transfer w tok (this e) caller due) (\<lambda>w.
        Ok (due, (s, w)))))))"

definition claimable_fees :: "env \<Rightarrow> address \<Rightarrow> vetoken \<Rightarrow> ('e, int) outcome" where
  "claimable_fees e a s =
     (let checkpoint = get_fee_checkpoint s; account = get_fee_account s a in
      and_then (voting_power e a s) (\<lambda>power.
      and_then (i128_sub (acc_fee_per_power checkpoint) (reward_per_power_paid account)) (\<lambda>delta.
      if delta \<le> 0 then Ok (pending account)
      else and_then (i128_mul power delta) (\<lambda>x.
           and_then (i128_div x 1000000000) (i128_add (pending account))))))"

section \<open>The contract as a transaction executor\<close>

datatype vetoken_call =
    VeInitialize address address
  | VeLock address int nat
  | VeExtendLock address nat
  | VeWithdraw address
  | VeDistributeFees int
  | VeClaimFees address

definition on_vetoken ::
  "(vetoken \<Rightarrow> ('e, 'a \<times> vetoken) outcome) \<Rightarrow> 'w ve_system \<Rightarrow> ('e, unit \<times> 'w ve_system) outcome" where
  "on_vetoken f sw = and_then (f (fst sw)) (\<lambda>(_, s). Ok ((), (s, snd sw)))"

fun vetoken_exec :: "'w transfer_fn \<Rightarrow> (vetoken_call, 'w ve_system, vetoken_error, unit) executor" where
  "vetoken_exec tr e (VeInitialize tok t) sw = on_vetoken (vetoken_initialize tok t) sw"
| "vetoken_exec tr e (VeLock a x d) sw = ve_lock tr e a x d sw"
| "vetoken_exec tr e (VeExtendLock a d) sw = on_vetoken (extend_lock e a d) sw"
| "vetoken_exec tr e (VeWithdraw a) sw = discard (ve_withdraw tr e a sw)"
| "vetoken_exec tr e (VeDistributeFees x) sw = distribute_fees tr e x sw"
| "vetoken_exec tr e (VeClaimFees a) sw = discard (claim_fees tr e a sw)"

section \<open>Voting power as a function of time\<close>

definition power_at :: "nat \<Rightarrow> lock_info \<Rightarrow> int" where
  "power_at t l = (if lk_amount l \<le> 0 \<or> lk_unlock_at l \<le> t then 0
     else lk_amount l * int (lk_unlock_at l - t) div int MAX_LOCK_TIME)"

lemma MAX_LOCK_TIME_pos [simp]: "0 < MAX_LOCK_TIME" "MAX_LOCK_TIME \<noteq> 0"
  by (simp_all add: MAX_LOCK_TIME_def)

lemma voting_power_Ok: "voting_power e a s = Ok p \<Longrightarrow> p = power_at (timestamp e) (get_lock s a)"
  by (auto simp: voting_power_def power_at_def Let_def split: if_splits)

lemma power_at_nonneg [simp]: "0 \<le> power_at t l"
  by (simp add: power_at_def pos_imp_zdiv_nonneg_iff)

lemma power_at_antimono: "t \<le> t' \<Longrightarrow> power_at t' l \<le> power_at t l"
  by (auto simp: power_at_def pos_imp_zdiv_nonneg_iff intro!: zdiv_mono1 mult_left_mono)

lemma power_at_le_amount:
  assumes "0 \<le> lk_amount l" and "lk_unlock_at l \<le> t + MAX_LOCK_TIME"
  shows "power_at t l \<le> lk_amount l"
proof -
  have "lk_amount l * int (lk_unlock_at l - t) \<le> lk_amount l * int MAX_LOCK_TIME"
    using assms by (intro mult_left_mono) auto
  then have "lk_amount l * int (lk_unlock_at l - t) div int MAX_LOCK_TIME
      \<le> lk_amount l * int MAX_LOCK_TIME div int MAX_LOCK_TIME"
    by (rule zdiv_mono1) simp
  then have "lk_amount l * int (lk_unlock_at l - t) div int MAX_LOCK_TIME \<le> lk_amount l" by simp
  with assms(1) show ?thesis by (simp only: power_at_def split: if_split) simp
qed

section \<open>What the helpers do\<close>

definition fee_delta :: "vetoken \<Rightarrow> address \<Rightarrow> int" where
  "fee_delta s a = acc_fee_per_power (get_fee_checkpoint s) - reward_per_power_paid (get_fee_account s a)"

definition fee_share :: "nat \<Rightarrow> vetoken \<Rightarrow> address \<Rightarrow> int" where
  "fee_share t s a = (if 0 < fee_delta s a
     then power_at t (get_lock s a) * fee_delta s a div 1000000000 else 0)"

definition settled :: "nat \<Rightarrow> vetoken \<Rightarrow> address \<Rightarrow> fee_account" where
  "settled t s a = (get_fee_account s a)\<lparr>pending := pending (get_fee_account s a) + fee_share t s a,
     reward_per_power_paid := acc_fee_per_power (get_fee_checkpoint s)\<rparr>"

lemma settled_simps [simp]:
  "pending (settled t s a) = pending (get_fee_account s a) + fee_share t s a"
  "reward_per_power_paid (settled t s a) = acc_fee_per_power (get_fee_checkpoint s)"
  "recorded_power (settled t s a) = recorded_power (get_fee_account s a)"
  by (simp_all add: settled_def)

lemma settle_fee_account_Ok:
  assumes "settle_fee_account e a s = Ok (p, s')"
  shows "s' = s\<lparr>v_fee_account := (v_fee_account s)(a \<mapsto> settled (timestamp e) s a)\<rparr>"
    and "p = pending (settled (timestamp e) s a)"
  using assms
  by (auto simp: settle_fee_account_def Let_def settled_def fee_share_def fee_delta_def
      dest!: voting_power_Ok split: if_splits)

lemma refresh_total_power_Ok:
  assumes "refresh_total_power e a s = Ok s'"
  shows "s' = s\<lparr>v_fee_checkpoint := Some ((get_fee_checkpoint s)\<lparr>total_power := total_power (get_fee_checkpoint s)
      - recorded_power (get_fee_account s a) + power_at (timestamp e) (get_lock s a)\<rparr>),
    v_fee_account := (v_fee_account s)
      (a \<mapsto> (get_fee_account s a)\<lparr>recorded_power := power_at (timestamp e) (get_lock s a)\<rparr>)\<rparr>"
  using assms by (auto simp: refresh_total_power_def Let_def dest!: voting_power_Ok)

text \<open>
  \<open>relock t a l s\<close>: what \<open>lock\<close>, \<open>extend_lock\<close> and \<open>withdraw\<close> have in common: settle the account
  of \<open>a\<close>, replace its lock by \<open>l\<close> and record its new power.
\<close>

definition relock :: "nat \<Rightarrow> address \<Rightarrow> lock_info option \<Rightarrow> vetoken \<Rightarrow> vetoken" where
  "relock t a l s =
     (let power = power_at t (unwrap_or l \<lparr>lk_amount = 0, lk_unlock_at = 0\<rparr>) in
      s\<lparr>v_lock := (v_lock s)(a := l),
        v_fee_checkpoint := Some ((get_fee_checkpoint s)\<lparr>total_power :=
           total_power (get_fee_checkpoint s) - recorded_power (get_fee_account s a) + power\<rparr>),
        v_fee_account := (v_fee_account s)(a \<mapsto> (settled t s a)\<lparr>recorded_power := power\<rparr>)\<rparr>)"

lemma settle_refresh:
  assumes "settle_fee_account e a s = Ok (p, s1)"
    and "refresh_total_power e a (s1\<lparr>v_lock := (v_lock s1)(a := l)\<rparr>) = Ok s2"
  shows "s2 = relock (timestamp e) a l s"
  using refresh_total_power_Ok [OF assms(2)] settle_fee_account_Ok(1) [OF assms(1)]
  by (simp add: relock_def get_fee_account_def get_fee_checkpoint_def get_lock_def settled_def Let_def)

lemma get_lock_settled:
  assumes "settle_fee_account e a s = Ok (p, s1)"
  shows "get_lock s1 = get_lock s" "v_token s1 = v_token s" "v_lock s1 = v_lock s"
  using settle_fee_account_Ok(1) [OF assms] by (auto simp: get_lock_def)

lemma ve_lock_Ok:
  assumes "ve_lock tr e a x d (s, w) = Ok (u, (s', w'))"
  obtains tok n where "auth e a" "0 < x" "d \<le> MAX_LOCK_TIME" "v_token s = Some tok"
    "n = max (lk_unlock_at (get_lock s a)) (timestamp e + d)"
    "tr w tok a (this e) x = Some w'"
    "s' = relock (timestamp e) a (Some \<lparr>lk_amount = lk_amount (get_lock s a) + x, lk_unlock_at = n\<rparr>) s"
proof -
  from assms obtain tok p s1 where 1: "auth e a" "0 < x" "d \<le> MAX_LOCK_TIME" "v_token s = Some tok"
    "settle_fee_account e a s = Ok (p, s1)" "tr w tok a (this e) x = Some w'"
    and r: "refresh_total_power e a (s1\<lparr>v_lock := (v_lock s1)(a \<mapsto> \<lparr>lk_amount = lk_amount (get_lock s1 a) + x,
        lk_unlock_at = (if timestamp e + d < lk_unlock_at (get_lock s1 a)
          then lk_unlock_at (get_lock s1 a) else timestamp e + d)\<rparr>)\<rparr>) = Ok s'"
    by (auto simp: ve_lock_def ve_token_def Let_def split: if_splits)
  have "(if timestamp e + d < lk_unlock_at (get_lock s1 a) then lk_unlock_at (get_lock s1 a)
     else timestamp e + d) = max (lk_unlock_at (get_lock s a)) (timestamp e + d)"
    using get_lock_settled [OF 1(5)] by auto
  with settle_refresh [OF 1(5) r] get_lock_settled [OF 1(5)] 1 that show thesis by simp
qed

lemma extend_lock_Ok:
  assumes "extend_lock e a d s = Ok (u, s')"
  obtains n where "auth e a" "0 < lk_amount (get_lock s a)" "lk_unlock_at (get_lock s a) < n"
    "n \<le> timestamp e + MAX_LOCK_TIME"
    "s' = relock (timestamp e) a (Some ((get_lock s a)\<lparr>lk_unlock_at := n\<rparr>)) s"
proof -
  define n where "n = (if timestamp e < lk_unlock_at (get_lock s a) then lk_unlock_at (get_lock s a)
    else timestamp e) + d"
  from assms obtain p s1 where 1: "auth e a" "0 < lk_amount (get_lock s a)" "lk_unlock_at (get_lock s a) < n"
    "n \<le> timestamp e + MAX_LOCK_TIME" "settle_fee_account e a s = Ok (p, s1)"
    and r: "refresh_total_power e a (s1\<lparr>v_lock := (v_lock s1)(a \<mapsto> (get_lock s a)\<lparr>lk_unlock_at := n\<rparr>)\<rparr>) = Ok s'"
    by (auto simp: extend_lock_def n_def [symmetric] Let_def split: if_split_asm)
  with settle_refresh [OF 1(5) r] that show thesis by simp
qed

lemma ve_withdraw_Ok:
  assumes "ve_withdraw tr e a (s, w) = Ok (x, (s', w'))"
  obtains tok where "auth e a" "x = lk_amount (get_lock s a)" "0 < x" "lk_unlock_at (get_lock s a) \<le> timestamp e"
    "v_token s = Some tok" "tr w tok (this e) a x = Some w'" "s' = relock (timestamp e) a None s"
proof -
  from assms obtain tok p s1 where 1: "auth e a" "x = lk_amount (get_lock s a)" "0 < x"
    "lk_unlock_at (get_lock s a) \<le> timestamp e"
    "settle_fee_account e a s = Ok (p, s1)" "v_token s1 = Some tok" "tr w tok (this e) a x = Some w'"
    and r: "refresh_total_power e a (s1\<lparr>v_lock := (v_lock s1)(a := None)\<rparr>) = Ok s'"
    by (auto simp: ve_withdraw_def ve_token_def Let_def split: if_splits)
  have "v_token s = Some tok" using get_lock_settled(2) [OF 1(5)] 1(6) by simp
  with settle_refresh [OF 1(5) r] 1 that show thesis by blast
qed

lemma claim_fees_Ok:
  assumes "claim_fees tr e a (s, w) = Ok (x, (s', w'))"
  obtains tok where "auth e a" "0 < x" "x = pending (settled (timestamp e) s a)" "v_token s = Some tok"
    "tr w tok (this e) a x = Some w'"
    "s' = s\<lparr>v_fee_account := (v_fee_account s)(a \<mapsto> (settled (timestamp e) s a)\<lparr>pending := 0\<rparr>)\<rparr>"
proof -
  from assms obtain tok s1 where 1: "auth e a" "0 < x" "settle_fee_account e a s = Ok (x, s1)"
    "v_token s1 = Some tok" "tr w tok (this e) a x = Some w'"
    "s' = s1\<lparr>v_fee_account := (v_fee_account s1)(a \<mapsto> (get_fee_account s1 a)\<lparr>pending := 0\<rparr>)\<rparr>"
    by (auto simp: claim_fees_def ve_token_def Let_def split: if_splits)
  have "v_token s = Some tok" using get_lock_settled(2) [OF 1(3)] 1(4) by simp
  moreover have "s' = s\<lparr>v_fee_account := (v_fee_account s)(a \<mapsto> (settled (timestamp e) s a)\<lparr>pending := 0\<rparr>)\<rparr>"
    using 1(6) settle_fee_account_Ok(1) [OF 1(3)] by (simp add: get_fee_account_def)
  ultimately show thesis using that 1 settle_fee_account_Ok(2) [OF 1(3)] by blast
qed

lemma distribute_fees_Ok:
  assumes "distribute_fees tr e x (s, w) = Ok (u, (s', w'))"
  obtains tok treasury where "0 < x" "v_treasury s = Some treasury" "auth e treasury" "v_token s = Some tok"
    "0 < total_power (get_fee_checkpoint s)" "tr w tok treasury (this e) x = Some w'"
    "s' = s\<lparr>v_fee_checkpoint := Some ((get_fee_checkpoint s)\<lparr>acc_fee_per_power :=
        acc_fee_per_power (get_fee_checkpoint s) + x * 1000000000 div total_power (get_fee_checkpoint s)\<rparr>)\<rparr>"
  using assms by (auto simp: distribute_fees_def ve_treasury_def ve_token_def Let_def split: if_splits)

section \<open>Well-formed accounts and solvency\<close>

definition account_ok :: "nat \<Rightarrow> vetoken \<Rightarrow> address \<Rightarrow> bool" where
  "account_ok t s a \<longleftrightarrow>
     0 \<le> lk_amount (get_lock s a) \<and> lk_unlock_at (get_lock s a) \<le> t + MAX_LOCK_TIME \<and>
     0 \<le> pending (get_fee_account s a) \<and> 0 \<le> fee_delta s a \<and>
     power_at t (get_lock s a) \<le> recorded_power (get_fee_account s a)"

definition ve_wf :: "nat \<Rightarrow> vetoken \<Rightarrow> bool" where
  "ve_wf t s \<longleftrightarrow> finite (dom (v_fee_account s)) \<and> dom (v_lock s) \<subseteq> dom (v_fee_account s) \<and>
     (\<forall>a. account_ok t s a) \<and>
     total_power (get_fee_checkpoint s) =
       (\<Sum>a\<in>dom (v_fee_account s). recorded_power (get_fee_account s a)) \<and>
     (v_token s = None \<longrightarrow> dom (v_fee_account s) = {} \<and> v_fee_checkpoint s = None)"

text \<open>
  What the contract owes to \<open>a\<close>, in units of 1e-9 token: the lock, the fees credited to it,
  and an upper bound of the fees not yet settled.
\<close>

definition owed :: "vetoken \<Rightarrow> address \<Rightarrow> int" where
  "owed s a = 1000000000 * (lk_amount (get_lock s a) + pending (get_fee_account s a)) +
     recorded_power (get_fee_account s a) * fee_delta s a"

definition liabilities :: "vetoken \<Rightarrow> int" where
  "liabilities s = (\<Sum>a\<in>dom (v_fee_account s). owed s a)"

definition solvent :: "('w \<Rightarrow> address \<Rightarrow> address \<Rightarrow> int) \<Rightarrow> address \<Rightarrow> 'w ve_system \<Rightarrow> bool" where
  "solvent bal V sw \<longleftrightarrow> (case v_token (fst sw) of
     None \<Rightarrow> \<forall>tok. 0 \<le> bal (snd sw) tok V
   | Some tok \<Rightarrow> liabilities (fst sw) \<le> 1000000000 * bal (snd sw) tok V)"

lemma no_account:
  assumes "ve_wf t s" and "a \<notin> dom (v_fee_account s)"
  shows "owed s a = 0" "recorded_power (get_fee_account s a) = 0"
proof -
  have "a \<notin> dom (v_lock s)" using assms by (auto simp: ve_wf_def)
  then have "v_lock s a = None" "v_fee_account s a = None" using assms(2) by auto
  then show "owed s a = 0" "recorded_power (get_fee_account s a) = 0"
    by (simp_all add: owed_def get_lock_def get_fee_account_def)
qed

lemma fee_share_bounds:
  assumes "ve_wf t s"
  shows "0 \<le> fee_share t s a"
    and "1000000000 * fee_share t s a \<le> recorded_power (get_fee_account s a) * fee_delta s a"
proof -
  from assms have ok: "0 \<le> fee_delta s a" "power_at t (get_lock s a) \<le> recorded_power (get_fee_account s a)"
    by (simp_all add: ve_wf_def account_ok_def)
  have "1000000000 * (power_at t (get_lock s a) * fee_delta s a div 1000000000)
      \<le> power_at t (get_lock s a) * fee_delta s a"
    by (rule int_mult_div_le) simp
  also have "\<dots> \<le> recorded_power (get_fee_account s a) * fee_delta s a"
    using ok by (intro mult_right_mono)
  finally show "1000000000 * fee_share t s a \<le> recorded_power (get_fee_account s a) * fee_delta s a"
    using ok by (auto simp: fee_share_def)
  show "0 \<le> fee_share t s a" by (auto simp: fee_share_def pos_imp_zdiv_nonneg_iff)
qed

lemma relock_fields [simp]:
  "dom (v_fee_account (relock t a l s)) = insert a (dom (v_fee_account s))"
  "v_token (relock t a l s) = v_token s"
  "v_treasury (relock t a l s) = v_treasury s"
  "v_lock (relock t a l s) = (v_lock s)(a := l)"
  "acc_fee_per_power (get_fee_checkpoint (relock t a l s)) = acc_fee_per_power (get_fee_checkpoint s)"
  "get_lock (relock t a l s) b =
     (if b = a then unwrap_or l \<lparr>lk_amount = 0, lk_unlock_at = 0\<rparr> else get_lock s b)"
  "get_fee_account (relock t a l s) b = (if b = a
     then (settled t s a)\<lparr>recorded_power := power_at t (unwrap_or l \<lparr>lk_amount = 0, lk_unlock_at = 0\<rparr>)\<rparr>
     else get_fee_account s b)"
  "fee_delta (relock t a l s) b = (if b = a then 0 else fee_delta s b)"
  "total_power (get_fee_checkpoint (relock t a l s)) = total_power (get_fee_checkpoint s)
     - recorded_power (get_fee_account s a) + power_at t (unwrap_or l \<lparr>lk_amount = 0, lk_unlock_at = 0\<rparr>)"
  by (auto simp: relock_def Let_def get_fee_checkpoint_def get_lock_def get_fee_account_def fee_delta_def)

lemma relock_wf:
  assumes wf: "ve_wf t s" and tok: "v_token s \<noteq> None"
    and l: "\<And>x. l = Some x \<Longrightarrow> 0 \<le> lk_amount x \<and> lk_unlock_at x \<le> t + MAX_LOCK_TIME"
  shows "ve_wf t (relock t a l s)"
proof -
  have "account_ok t (relock t a l s) b" for b
    using wf l fee_share_bounds(1) [OF wf, of a]
    by (cases l) (auto simp: ve_wf_def account_ok_def)
  moreover have "(\<Sum>b\<in>dom (v_fee_account (relock t a l s)). recorded_power (get_fee_account (relock t a l s) b)) =
      total_power (get_fee_checkpoint (relock t a l s))"
    using sum_one_changed [of "dom (v_fee_account s)" a
        "\<lambda>b. recorded_power (get_fee_account (relock t a l s) b)" "\<lambda>b. recorded_power (get_fee_account s b)"]
      wf no_account(2) [OF wf, of a] by (simp add: ve_wf_def)
  ultimately show ?thesis using wf tok by (auto simp: ve_wf_def split: if_splits)
qed

lemma relock_liabilities:
  assumes wf: "ve_wf t s"
  shows "liabilities (relock t a l s) \<le> liabilities s +
    1000000000 * (lk_amount (unwrap_or l \<lparr>lk_amount = 0, lk_unlock_at = 0\<rparr>) - lk_amount (get_lock s a))"
proof -
  have "liabilities (relock t a l s) = liabilities s - owed s a + owed (relock t a l s) a"
    unfolding liabilities_def relock_fields
    by (rule sum_one_changed) (use wf no_account(1) [OF wf, of a] in \<open>auto simp: ve_wf_def owed_def\<close>)
  then show ?thesis using fee_share_bounds(2) [OF wf, of a] by (simp add: owed_def algebra_simps)
qed

definition claimed :: "nat \<Rightarrow> address \<Rightarrow> vetoken \<Rightarrow> vetoken" where
  "claimed t a s = s\<lparr>v_fee_account := (v_fee_account s)(a \<mapsto> (settled t s a)\<lparr>pending := 0\<rparr>)\<rparr>"

lemma claimed_fields [simp]:
  "dom (v_fee_account (claimed t a s)) = insert a (dom (v_fee_account s))"
  "v_token (claimed t a s) = v_token s" "v_lock (claimed t a s) = v_lock s"
  "get_fee_checkpoint (claimed t a s) = get_fee_checkpoint s" "get_lock (claimed t a s) = get_lock s"
  "get_fee_account (claimed t a s) b =
     (if b = a then (settled t s a)\<lparr>pending := 0\<rparr> else get_fee_account s b)"
  "fee_delta (claimed t a s) b = (if b = a then 0 else fee_delta s b)"
  by (auto simp: claimed_def get_fee_checkpoint_def get_lock_def get_fee_account_def fee_delta_def)

lemma claimed_wf:
  assumes wf: "ve_wf t s" and tok: "v_token s \<noteq> None"
  shows "ve_wf t (claimed t a s)"
proof -
  have "(\<Sum>b\<in>dom (v_fee_account (claimed t a s)). recorded_power (get_fee_account (claimed t a s) b)) =
      total_power (get_fee_checkpoint (claimed t a s))"
    using sum_one_changed [of "dom (v_fee_account s)" a
        "\<lambda>b. recorded_power (get_fee_account (claimed t a s) b)" "\<lambda>b. recorded_power (get_fee_account s b)"]
      wf no_account(2) [OF wf, of a] by (simp add: ve_wf_def)
  with wf tok show ?thesis by (auto simp: ve_wf_def account_ok_def)
qed

lemma claimed_liabilities:
  assumes wf: "ve_wf t s"
  shows "liabilities (claimed t a s) \<le> liabilities s - 1000000000 * pending (settled t s a)"
proof -
  have "liabilities (claimed t a s) = liabilities s - owed s a + owed (claimed t a s) a"
    unfolding liabilities_def claimed_fields
    by (rule sum_one_changed) (use wf no_account(1) [OF wf, of a] in \<open>auto simp: ve_wf_def owed_def\<close>)
  then show ?thesis using fee_share_bounds(2) [OF wf, of a] by (simp add: owed_def algebra_simps)
qed

definition distributed :: "int \<Rightarrow> vetoken \<Rightarrow> vetoken" where
  "distributed x s = s\<lparr>v_fee_checkpoint := Some ((get_fee_checkpoint s)\<lparr>acc_fee_per_power :=
     acc_fee_per_power (get_fee_checkpoint s) + x * 1000000000 div total_power (get_fee_checkpoint s)\<rparr>)\<rparr>"

lemma distributed_fields [simp]:
  "v_fee_account (distributed x s) = v_fee_account s" "v_token (distributed x s) = v_token s"
  "v_lock (distributed x s) = v_lock s" "get_lock (distributed x s) = get_lock s"
  "get_fee_account (distributed x s) = get_fee_account s"
  "total_power (get_fee_checkpoint (distributed x s)) = total_power (get_fee_checkpoint s)"
  "fee_delta (distributed x s) b = fee_delta s b + x * 1000000000 div total_power (get_fee_checkpoint s)"
  by (auto simp: distributed_def get_fee_checkpoint_def get_lock_def get_fee_account_def fee_delta_def)

lemma distributed_wf:
  assumes "ve_wf t s" and "v_token s \<noteq> None" and "0 < x" and "0 < total_power (get_fee_checkpoint s)"
  shows "ve_wf t (distributed x s)"
proof -
  have "0 \<le> x * 1000000000 div total_power (get_fee_checkpoint s)"
    using assms(3,4) by (simp add: pos_imp_zdiv_nonneg_iff)
  with assms show ?thesis by (auto simp: ve_wf_def account_ok_def)
qed

lemma distributed_liabilities:
  assumes wf: "ve_wf t s" and total: "0 < total_power (get_fee_checkpoint s)"
  shows "liabilities (distributed x s) \<le> liabilities s + 1000000000 * x"
proof -
  let ?T = "total_power (get_fee_checkpoint s)" and ?k = "x * 1000000000 div total_power (get_fee_checkpoint s)"
  have "liabilities (distributed x s) =
      liabilities s + (\<Sum>a\<in>dom (v_fee_account s). recorded_power (get_fee_account s a) * ?k)"
    by (simp add: liabilities_def owed_def algebra_simps flip: sum.distrib)
  also have "(\<Sum>a\<in>dom (v_fee_account s). recorded_power (get_fee_account s a) * ?k) = ?T * ?k"
    using wf by (simp add: ve_wf_def flip: sum_distrib_right)
  also have "?T * ?k \<le> 1000000000 * x"
    using int_mult_div_le [OF total, of "x * 1000000000"] by (simp add: mult.commute)
  finally show ?thesis by simp
qed

text \<open>
  Transactions of the contract at address \<open>V\<close>; the contract itself signs none of them.
\<close>

definition ve_admissible :: "address \<Rightarrow> env \<Rightarrow> vetoken_call \<Rightarrow> bool" where
  "ve_admissible V e c \<longleftrightarrow> this e = V \<and> \<not> auth e V"

definition ve_inv ::
  "('w \<Rightarrow> address \<Rightarrow> address \<Rightarrow> int) \<Rightarrow> address \<Rightarrow> nat \<Rightarrow> 'w ve_system \<Rightarrow> bool" where
  "ve_inv bal V t sw \<longleftrightarrow> ve_wf t (fst sw) \<and> solvent bal V sw"

lemma account_ok_later: "account_ok t s a \<Longrightarrow> t \<le> t' \<Longrightarrow> account_ok t' s a"
  using power_at_antimono [of t t' "get_lock s a"] by (auto simp: account_ok_def)

lemma ve_wf_later: "ve_wf t s \<Longrightarrow> t \<le> t' \<Longrightarrow> ve_wf t' s"
  by (auto simp: ve_wf_def intro: account_ok_later)

lemma ve_exec_inv:
  assumes tr: "sep41_transfers tr bal" and inv: "ve_inv bal V (timestamp e) (s, w)"
    and adm: "ve_admissible V e c" and ex: "vetoken_exec tr e c (s, w) = Ok (u, (s', w'))"
  shows "ve_inv bal V (timestamp e) (s', w')"
proof -
  from inv have wf: "ve_wf (timestamp e) s" and sol: "solvent bal V (s, w)" by (auto simp: ve_inv_def)
  from wf have lock_ok: "0 \<le> lk_amount (get_lock s a)"
    "lk_unlock_at (get_lock s a) \<le> timestamp e + MAX_LOCK_TIME" for a
    by (simp_all add: ve_wf_def account_ok_def)
  show ?thesis
  proof (cases c)
    case (VeInitialize tok t)
    with ex have "v_token s = None" and s': "s' = s\<lparr>v_token := Some tok, v_treasury := Some t,
        v_fee_checkpoint := Some \<lparr>acc_fee_per_power = 0, total_power = 0\<rparr>\<rparr>" "w' = w"
      by (auto simp: on_vetoken_def vetoken_initialize_def split: if_splits)
    moreover from this wf have "v_fee_account s = Map.empty" "v_lock s = Map.empty"
      by (auto simp: ve_wf_def)
    ultimately show ?thesis using sol
      by (auto simp: ve_inv_def ve_wf_def account_ok_def solvent_def liabilities_def get_lock_def
          get_fee_account_def get_fee_checkpoint_def fee_delta_def power_at_def)
  next
    case (VeLock a x d)
    with ex obtain tok n where l: "auth e a" "0 < x" "d \<le> MAX_LOCK_TIME" "v_token s = Some tok"
      "n = max (lk_unlock_at (get_lock s a)) (timestamp e + d)" "tr w tok a (this e) x = Some w'"
      "s' = relock (timestamp e) a (Some \<lparr>lk_amount = lk_amount (get_lock s a) + x, lk_unlock_at = n\<rparr>) s"
      by (auto elim: ve_lock_Ok)
    have "bal w' tok V = bal w tok V + x" using l(1,6) adm by (auto simp: ve_admissible_def intro: transfer_in [OF tr])
    moreover have "ve_wf (timestamp e) s'"
      unfolding l(7) by (rule relock_wf [OF wf]) (use l lock_ok [of a] in auto)
    ultimately show ?thesis
      using relock_liabilities [OF wf, of a "Some \<lparr>lk_amount = lk_amount (get_lock s a) + x, lk_unlock_at = n\<rparr>"] sol l(4,7)
      by (simp add: ve_inv_def solvent_def)
  next
    case (VeExtendLock a d)
    with ex obtain n where l: "0 < lk_amount (get_lock s a)" "n \<le> timestamp e + MAX_LOCK_TIME"
      "s' = relock (timestamp e) a (Some ((get_lock s a)\<lparr>lk_unlock_at := n\<rparr>)) s" and w: "w' = w"
      by (auto simp: on_vetoken_def elim: extend_lock_Ok)
    have tok: "v_token s \<noteq> None"
      using l(1) wf by (auto simp: ve_wf_def get_lock_def unwrap_or_def split: option.splits)
    then have "ve_wf (timestamp e) s'" unfolding l(3) by (intro relock_wf [OF wf]) (use l in auto)
    with relock_liabilities [OF wf, of a "Some ((get_lock s a)\<lparr>lk_unlock_at := n\<rparr>)"] sol l(3) w tok
    show ?thesis by (auto simp: ve_inv_def solvent_def)
  next
    case (VeWithdraw a)
    with ex obtain x tok where l: "auth e a" "x = lk_amount (get_lock s a)" "v_token s = Some tok"
      "tr w tok (this e) a x = Some w'" "s' = relock (timestamp e) a None s" by (auto elim: ve_withdraw_Ok)
    have "bal w' tok V = bal w tok V - x" using l(1,4) adm by (auto simp: ve_admissible_def intro: transfer_out [OF tr])
    moreover have "ve_wf (timestamp e) s'" unfolding l(5) by (rule relock_wf [OF wf]) (use l in auto)
    ultimately show ?thesis using relock_liabilities [OF wf, of a None] sol l
      by (simp add: ve_inv_def solvent_def)
  next
    case (VeDistributeFees x)
    with ex obtain tok treasury where l: "0 < x" "auth e treasury" "v_token s = Some tok"
      "0 < total_power (get_fee_checkpoint s)" "tr w tok treasury (this e) x = Some w'" "s' = distributed x s"
      by (auto simp: distributed_def elim: distribute_fees_Ok)
    have "bal w' tok V = bal w tok V + x" using l(2,5) adm by (auto simp: ve_admissible_def intro: transfer_in [OF tr])
    with distributed_liabilities [OF wf l(4), of x] distributed_wf [OF wf _ l(1,4)] sol l(3,6)
    show ?thesis by (simp add: ve_inv_def solvent_def)
  next
    case (VeClaimFees a)
    with ex obtain x tok where l: "auth e a" "x = pending (settled (timestamp e) s a)" "v_token s = Some tok"
      "tr w tok (this e) a x = Some w'" "s' = claimed (timestamp e) a s"
      by (auto simp: claimed_def elim: claim_fees_Ok)
    have "bal w' tok V = bal w tok V - x" using l(1,4) adm by (auto simp: ve_admissible_def intro: transfer_out [OF tr])
    with claimed_liabilities [OF wf, of a] claimed_wf [OF wf, of a] sol l
    show ?thesis by (simp add: ve_inv_def solvent_def)
  qed
qed

lemma ve_timed_contract:
  assumes "sep41_transfers tr bal"
  shows "timed_contract (vetoken_exec tr) (ve_admissible V) (ve_inv bal V)"
proof
  fix t t' sw assume "ve_inv bal V t sw" "t \<le> t'"
  then show "ve_inv bal V t' sw" by (auto simp: ve_inv_def intro: ve_wf_later)
next
  fix e sw c r sw'
  assume "ve_inv bal V (timestamp e) sw" "ve_admissible V e c" "vetoken_exec tr e c sw = Ok (r, sw')"
  then show "ve_inv bal V (timestamp e) sw'"
    using ve_exec_inv [OF assms, of V e "fst sw" "snd sw" c r "fst sw'" "snd sw'"] by simp
qed

lemma ve_run_inv:
  assumes "sep41_transfers tr bal" and "chronological t txs"
    and "\<And>e c. (e, c) \<in> set txs \<Longrightarrow> this e = V \<and> \<not> auth e V" and "\<And>tok. 0 \<le> bal w0 tok V"
  shows "ve_inv bal V (end_time t txs) (run_txs (vetoken_exec tr) txs (vetoken_undeployed, w0))"
proof (rule timed_contract.run_inv [OF ve_timed_contract [OF assms(1)] _ assms(2)])
  show "ve_inv bal V t (vetoken_undeployed, w0)"
    using assms(4) by (simp add: ve_inv_def ve_wf_def account_ok_def solvent_def vetoken_undeployed_def
        get_lock_def get_fee_account_def get_fee_checkpoint_def fee_delta_def power_at_def)
  show "ve_admissible V e c" if "(e, c) \<in> set txs" for e c
    using assms(3) [OF that] by (simp add: ve_admissible_def)
qed

text \<open>A lock only disappears, or shrinks, through its owner's \<open>withdraw\<close> after expiry.\<close>

definition lock_kept :: "address \<Rightarrow> lock_info \<Rightarrow> vetoken \<Rightarrow> bool" where
  "lock_kept a l s \<longleftrightarrow> (\<exists>l'. v_lock s a = Some l' \<and> lk_amount l \<le> lk_amount l' \<and>
     lk_unlock_at l \<le> lk_unlock_at l')"

lemma ve_exec_lock_kept:
  assumes ex: "vetoken_exec tr e c (s, w) = Ok (u, (s', w'))"
    and kept: "lock_kept a l s" and lost: "\<not> lock_kept a l s'"
  shows "c = VeWithdraw a \<and> auth e a \<and> lk_unlock_at l \<le> timestamp e \<and> v_lock s' a = None"
proof -
  from kept obtain l' where l': "v_lock s a = Some l'" "lk_amount l \<le> lk_amount l'"
    "lk_unlock_at l \<le> lk_unlock_at l'" by (auto simp: lock_kept_def)
  then have gl: "get_lock s a = l'" by (simp add: get_lock_def)
  show ?thesis
  proof (cases c)
    case (VeLock b x d)
    with ex have "\<exists>n. 0 < x \<and> lk_unlock_at (get_lock s b) \<le> n \<and> s' = relock (timestamp e) b
        (Some \<lparr>lk_amount = lk_amount (get_lock s b) + x, lk_unlock_at = n\<rparr>) s"
      by simp (erule ve_lock_Ok, metis max.cobounded1)
    with l' gl lost show ?thesis by (cases "b = a") (auto simp: lock_kept_def)
  next
    case (VeExtendLock b d)
    with ex have "\<exists>n. lk_unlock_at (get_lock s b) < n \<and>
        s' = relock (timestamp e) b (Some ((get_lock s b)\<lparr>lk_unlock_at := n\<rparr>)) s"
      by (auto simp: on_vetoken_def elim: extend_lock_Ok)
    with l' gl lost show ?thesis by (cases "b = a") (auto simp: lock_kept_def)
  next
    case (VeWithdraw b)
    with ex have "auth e b" "lk_unlock_at (get_lock s b) \<le> timestamp e" "s' = relock (timestamp e) b None s"
      by (auto elim: ve_withdraw_Ok)
    with VeWithdraw l' gl lost show ?thesis by (cases "b = a") (auto simp: lock_kept_def)
  next
    case (VeInitialize tok t)
    with ex l' lost show ?thesis
      by (auto simp: on_vetoken_def vetoken_initialize_def lock_kept_def split: if_splits)
  next
    case (VeDistributeFees x)
    with ex l' lost show ?thesis by (auto simp: lock_kept_def elim!: distribute_fees_Ok)
  next
    case (VeClaimFees b)
    with ex l' lost show ?thesis by (auto simp: lock_kept_def elim!: claim_fees_Ok)
  qed
qed

section \<open>Properties\<close>

definition ve_env :: "nat \<Rightarrow> env" where
  "ve_env t = \<lparr>timestamp = t, ledger_seq = 0, auth = (\<lambda>a. a \<noteq> 99), this = 99\<rparr>"

definition ve_txs :: "(env \<times> vetoken_call) list" where
  "ve_txs = [(ve_env 10, VeInitialize 5 8), (ve_env 20, VeLock 1 1000 MAX_LOCK_TIME),
     (ve_env 20, VeDistributeFees 300)]"

definition ve_world :: ledger where
  "ve_world = (\<lambda>tok a. if tok = 5 \<and> (a = 1 \<or> a = 8) then 5000 else 0)"

text \<open>C21. The contract is solvent: for a token whose transfers move exactly the amount, and as
long as the contract itself signs no transaction, after any time-ordered history its token
balance covers the sum of all locked amounts and all fees credited to lockers.\<close>

theorem ve_solvent:
  assumes "sep41_transfers tr bal" and "chronological t txs"
    and "\<And>e c. (e, c) \<in> set txs \<Longrightarrow> this e = V \<and> \<not> auth e V"
    and "\<And>tok. 0 \<le> bal w0 tok V"
    and "run_txs (vetoken_exec tr) txs (vetoken_undeployed, w0) = (s, w)" and "v_token s = Some tok"
  shows "finite (dom (v_fee_account s)) \<and> dom (v_lock s) \<subseteq> dom (v_fee_account s) \<and>
    (\<Sum>a\<in>dom (v_fee_account s). lk_amount (get_lock s a) + pending (get_fee_account s a)) \<le> bal w tok V"
proof -
  from ve_run_inv [OF assms(1-4)] assms(5) have inv: "ve_inv bal V (end_time t txs) (s, w)" by simp
  then have wf: "ve_wf (end_time t txs) s" and L: "liabilities s \<le> 1000000000 * bal w tok V"
    using assms(6) by (auto simp: ve_inv_def solvent_def)
  have unsettled: "0 \<le> recorded_power (get_fee_account s a) * fee_delta s a" for a
  proof (rule mult_nonneg_nonneg)
    have "account_ok (end_time t txs) s a" using wf by (simp add: ve_wf_def)
    then show "0 \<le> fee_delta s a" "0 \<le> recorded_power (get_fee_account s a)"
      by (auto simp: account_ok_def intro: order_trans [OF power_at_nonneg])
  qed
  have "1000000000 * (\<Sum>a\<in>dom (v_fee_account s). lk_amount (get_lock s a) + pending (get_fee_account s a))
      \<le> liabilities s"
    unfolding liabilities_def sum_distrib_left owed_def using unsettled by (intro sum_mono) simp
  with L wf show ?thesis by (simp add: ve_wf_def)
qed

lemma ve_txs_ok:
  "chronological 0 ve_txs" "end_time 0 ve_txs = 20" "(e, c) \<in> set ve_txs \<Longrightarrow> this e = 99 \<and> \<not> auth e 99"
  "0 \<le> ledger_balance ve_world tok 99"
  by (auto simp: ve_txs_def ve_env_def ve_world_def ledger_balance_def)

lemma ve_txs_run:
  "\<exists>s w. run_txs (vetoken_exec ledger_transfer) ve_txs (vetoken_undeployed, ve_world) = (s, w) \<and>
     v_token s = Some 5 \<and> v_lock s = [1 \<mapsto> \<lparr>lk_amount = 1000, lk_unlock_at = 20 + MAX_LOCK_TIME\<rparr>] \<and>
     w 5 99 = 1300 \<and> v_fee_checkpoint s = Some \<lparr>acc_fee_per_power = 300000000, total_power = 1000\<rparr>"
  by (simp add: ve_txs_def ve_env_def ve_world_def vetoken_undeployed_def on_vetoken_def
      vetoken_initialize_def ve_lock_def ve_token_def ve_treasury_def settle_fee_account_def
      refresh_total_power_def distribute_fees_def voting_power_def get_lock_def get_fee_account_def
      get_fee_checkpoint_def token_transfer_def ledger_transfer_def require_auth_def ok_or_def
      u64_add_def u64_sub_def u64_max_def i128_add_def i128_sub_def i128_mul_def i128_div_def
      i128_checked_def int_width_defs MAX_LOCK_TIME_def Let_def
      del: and_then_Ok_iff and_then_Err_iff and_then_Trap_iff)

theorem ve_solvent_witness:
  "\<exists>s w. run_txs (vetoken_exec ledger_transfer) ve_txs (vetoken_undeployed, ve_world) = (s, w) \<and>
     v_lock s 1 \<noteq> None \<and> (\<Sum>a\<in>dom (v_fee_account s). lk_amount (get_lock s a) + pending (get_fee_account s a)) \<le> 1300"
proof -
  obtain s w where run: "run_txs (vetoken_exec ledger_transfer) ve_txs (vetoken_undeployed, ve_world) = (s, w)"
    and tok: "v_token s = Some 5" and "v_lock s 1 \<noteq> None" "ledger_balance w 5 99 = 1300"
    using ve_txs_run by (auto simp: ledger_balance_def)
  with ve_solvent [OF ledger_sep41 ve_txs_ok(1,3,4) run tok] show ?thesis by auto
qed

text \<open>Locked tokens stay locked: if a locker's position is ever smaller, unlocks earlier or is
gone after some transactions, then one of them was a \<open>withdraw\<close> signed by this locker at or
after the unlock time.\<close>

theorem lock_released_after_expiry:
  assumes "v_lock s a = Some l"
    and "\<not> (\<exists>l'. v_lock (fst (run_txs (vetoken_exec tr) txs (s, w))) a = Some l' \<and>
           lk_amount l \<le> lk_amount l' \<and> lk_unlock_at l \<le> lk_unlock_at l')"
  shows "\<exists>pre e post. txs = pre @ (e, VeWithdraw a) # post \<and> auth e a \<and> lk_unlock_at l \<le> timestamp e"
proof -
  have lost: "\<not> lock_kept a l (fst (run_txs (vetoken_exec tr) txs (s, w)))"
    using assms(2) by (simp add: lock_kept_def)
  have kept: "\<not> \<not> lock_kept a l (fst (s, w))" using assms(1) by (simp add: lock_kept_def)
  obtain pre e c post r sw' where split: "txs = pre @ (e, c) # post"
    and "\<not> \<not> lock_kept a l (fst (run_txs (vetoken_exec tr) pre (s, w)))"
    and ex: "vetoken_exec tr e c (run_txs (vetoken_exec tr) pre (s, w)) = Ok (r, sw')"
    and "\<not> lock_kept a l (fst sw')"
    by (rule run_txs_origin [of "\<lambda>sw. \<not> lock_kept a l (fst sw)", OF lost kept])
  with ve_exec_lock_kept [of tr e c "fst (run_txs (vetoken_exec tr) pre (s, w))"
      "snd (run_txs (vetoken_exec tr) pre (s, w))" r "fst sw'" "snd sw'" a l]
  have "c = VeWithdraw a \<and> auth e a \<and> lk_unlock_at l \<le> timestamp e" by simp
  with split show ?thesis by blast
qed

theorem lock_released_after_expiry_witness:
  "\<exists>pre e post. [(ve_env 60, VeWithdraw 1)] = pre @ (e, VeWithdraw 1) # post \<and> auth e 1 \<and> 50 \<le> timestamp e"
proof -
  define s where "s = vetoken_undeployed\<lparr>v_token := Some 5, v_lock := [1 \<mapsto> \<lparr>lk_amount = 10, lk_unlock_at = 50\<rparr>]\<rparr>"
  have "v_lock s 1 = Some \<lparr>lk_amount = 10, lk_unlock_at = 50\<rparr>" by (simp add: s_def)
  moreover have "v_lock (fst (run_txs (vetoken_exec ledger_transfer) [(ve_env 60, VeWithdraw 1)]
      (s, \<lambda>_ _. 10))) 1 = None"
    by (simp add: s_def ve_env_def vetoken_undeployed_def ve_withdraw_def discard_def ve_token_def
        settle_fee_account_def refresh_total_power_def voting_power_def get_lock_def get_fee_account_def
        get_fee_checkpoint_def token_transfer_def ledger_transfer_def require_auth_def ok_or_def
        i128_add_def i128_sub_def i128_checked_def Let_def
        del: and_then_Ok_iff and_then_Err_iff and_then_Trap_iff)
  ultimately show ?thesis
    using lock_released_after_expiry [of s 1 "\<lparr>lk_amount = 10, lk_unlock_at = 50\<rparr>" ledger_transfer
        "[(ve_env 60, VeWithdraw 1)]" "\<lambda>_ _. 10"] by simp
qed

text \<open>In every reachable state and at every later ledger time, the voting power of an address
is between 0 and its locked amount and is 0 once the lock has expired, and the total power that
\<open>distribute_fees\<close> divides by is at least the sum of the live voting powers of all lockers.\<close>

theorem ve_power_bounds:
  assumes "sep41_transfers tr bal" and "chronological t txs"
    and "\<And>e c. (e, c) \<in> set txs \<Longrightarrow> this e = V \<and> \<not> auth e V"
    and "\<And>tok. 0 \<le> bal w0 tok V"
    and "run_txs (vetoken_exec tr) txs (vetoken_undeployed, w0) = (s, w)"
    and "end_time t txs \<le> timestamp e"
    and "\<And>a. voting_power e a s = Ok (p a)"
  shows "(\<forall>a. 0 \<le> p a \<and> p a \<le> lk_amount (get_lock s a) \<and>
           (lk_unlock_at (get_lock s a) \<le> timestamp e \<longrightarrow> p a = 0)) \<and>
    (\<Sum>a\<in>dom (v_fee_account s). p a) \<le> total_power (get_fee_checkpoint s)"
proof -
  have "ve_inv bal V (end_time t txs) (run_txs (vetoken_exec tr) txs (vetoken_undeployed, w0))"
    by (rule ve_run_inv) (use assms in auto)
  with assms(5,6) have wf: "ve_wf (timestamp e) s" by (auto simp: ve_inv_def intro: ve_wf_later)
  have p: "p a = power_at (timestamp e) (get_lock s a)" for a using voting_power_Ok [OF assms(7)] .
  from wf have ok: "account_ok (timestamp e) s a" for a by (simp add: ve_wf_def)
  have "(\<Sum>a\<in>dom (v_fee_account s). p a) \<le>
      (\<Sum>a\<in>dom (v_fee_account s). recorded_power (get_fee_account s a))"
    using ok by (intro sum_mono) (simp add: p account_ok_def)
  moreover have "p a \<le> lk_amount (get_lock s a)" for a
    using ok [of a] by (simp add: p account_ok_def power_at_le_amount)
  moreover have "p a = 0" if "lk_unlock_at (get_lock s a) \<le> timestamp e" for a
    using that by (simp add: p power_at_def)
  ultimately show ?thesis using wf by (simp add: p ve_wf_def)
qed

theorem ve_power_bounds_witness:
  "\<exists>s w. run_txs (vetoken_exec ledger_transfer) ve_txs (vetoken_undeployed, ve_world) = (s, w) \<and>
    (\<Sum>a\<in>dom (v_fee_account s). if a = 1 then 1000 else 0) \<le> total_power (get_fee_checkpoint s) \<and>
    total_power (get_fee_checkpoint s) = 1000"
proof -
  obtain s w where run: "run_txs (vetoken_exec ledger_transfer) ve_txs (vetoken_undeployed, ve_world) = (s, w)"
    and lock: "v_lock s = [1 \<mapsto> \<lparr>lk_amount = 1000, lk_unlock_at = 20 + MAX_LOCK_TIME\<rparr>]"
    and total: "total_power (get_fee_checkpoint s) = 1000"
    using ve_txs_run by (auto simp: get_fee_checkpoint_def)
  have power: "voting_power (ve_env 20) a s = (Ok (if a = 1 then 1000 else 0) :: (vetoken_error, int) outcome)" for a
    by (simp add: voting_power_def get_lock_def lock ve_env_def MAX_LOCK_TIME_def int_width_defs)
  have "end_time 0 ve_txs \<le> timestamp (ve_env 20)" by (simp add: ve_txs_ok ve_env_def)
  from ve_power_bounds [OF ledger_sep41 ve_txs_ok(1,3,4) run this power] run total show ?thesis by auto
qed

end
