(* ===== verification/Pool.thy ===== *)
theory Pool
  imports Soroban
begin

text \<open>
  The underwriting pool (\<open>src/pool/src/lib.rs\<close>): capital provision and withdrawal, policy
  purchase, claims, expiry, administration and the statistics view.

  The source file ends in the middle of \<open>aggregate_in_force_coverage\<close>, so the bodies of the
  private helpers that the entry points call are not available.  They are the fields of the
  parameter record \<open>pool_ext\<close>: the accounting store (\<open>_accounting\<close>, \<open>_save_accounting\<close>), the
  guards (\<open>assert_initialized\<close>, \<open>require_admin\<close>, \<open>acquire_reentrancy_guard\<close>,
  \<open>release_reentrancy_guard\<close>), the pricing functions (\<open>_calc_shares\<close>, \<open>_quote_withdrawal\<close>,
  \<open>_check_coverage_capacity\<close>, \<open>_calc_premium\<close>), the conversions (\<open>_feed_symbol\<close>,
  \<open>_to_registry_coverage_type\<close>) and the best-effort notifications
  (\<open>_deactivate_in_registry\<close>, \<open>_release_in_backstop\<close>); so are the token and the other contracts.
  What a lemma needs of them is one of the named hypotheses \<open>accounting_store\<close> and
  \<open>capacity_adds\<close>.

  The state is the record \<open>pool\<close>; \<open>'st\<close> is the type of the stored accounting keys.  A branch that
  releases the guard and returns an error is the error alone, since the host drops its writes.

  The lemmas show that a policy is settled at most once, when a claim is paid and what it pays,
  that the recorded coverage is the sum of the active policies, that the recorded total of
  shares is the sum of the providers' shares, and the lock-up of deposits.
\<close>

section \<open>Data\<close>

definition POOL_PRECISION :: int where "POOL_PRECISION = 10000000"
definition POOL_BPS :: int where "POOL_BPS = 10000"

datatype coverage_type =
  StablecoinDepeg | MarketCrash | LiquidationShield | SmartContractRisk | FlightDelay

datatype mirror_coverage_type =
    MirrorStablecoinDepeg | MirrorMarketCrash | MirrorLiquidationShield | MirrorSmartContractRisk
  | MirrorFlightDelay

record pool_registration =
  pr_policy_id :: nat
  pr_holder :: address
  pr_coverage_type :: mirror_coverage_type
  pr_coverage_amount :: int
  pr_premium :: int
  pr_expires_at :: nat

record pool_accounting =
  total_capital :: int
  total_coverage :: int
  total_premiums :: int
  total_shares :: int
  next_policy_id :: nat

datatype pool_error =
    PlAlreadyInitialized | PlNotInitialized | PlUnauthorized | PlInsufficientCapacity
  | PlPolicyNotFound | PlPolicyExpired | PlPolicyNotTriggered | PlNotPolicyholder
  | PlAlreadyClaimed | PlInsufficientPremium | PlZeroAmount | PlInsufficientShares
  | PlCapitalLocked | PlPolicyNotYetExpired | PlLockupActive | PlReentrancyDetected
  | PlFeedCapExceeded

record policy_params =
  pm_coverage_amount :: int
  pm_coverage_type :: coverage_type
  pm_duration_days :: nat
  pm_trigger_threshold :: int

datatype policy_status = PolActive | PolClaimed | PolExpired

record policy =
  pol_id :: nat
  pol_holder :: address
  pol_coverage_type :: coverage_type
  pol_coverage_amount :: int
  pol_premium_paid :: int
  pol_trigger_threshold :: int
  pol_start_time :: nat
  pol_end_time :: nat
  pol_status :: policy_status
  pol_payout_at :: "nat option"

record pool_config =
  base_premium_rate_bps :: nat
  max_utilization_bps :: nat
  min_coverage :: int
  max_coverage :: int
  lockup_days :: nat

record pool_state =
  ps_config :: pool_config
  ps_total_capital :: int
  ps_total_shares :: int
  ps_total_coverage :: int

record pool_stats =
  st_total_capital :: int
  st_total_coverage :: int
  st_total_shares :: int
  st_utilization_bps :: nat
  st_share_price :: int
  st_apy_estimate_bps :: nat
  st_available_capacity :: int

record oracle_data =
  od_value :: int
  od_updated_at :: nat

record 'st pool =
  p_admin :: "address option"
  p_usdc_token :: "address option"
  p_policy_registry :: "address option"
  p_accounting :: 'st
  p_shares :: "address \<rightharpoonup> int"
  p_policy :: "nat \<rightharpoonup> policy"
  p_user_policies :: "address \<rightharpoonup> nat list"
  p_pool_config :: "pool_config option"
  p_initialized :: "bool option"
  p_oracle_data :: "coverage_type \<rightharpoonup> oracle_data"
  p_last_deposit :: "address \<rightharpoonup> nat"
  p_reentrancy_lock :: "bool option"
  p_backstop :: "address option"

type_synonym ('st, 'w) pool_system = "'st pool \<times> 'w"

record ('st, 'w) pool_ext =
  px_accounting :: "'st \<Rightarrow> pool_accounting"
  px_save_accounting :: "pool_accounting \<Rightarrow> 'st \<Rightarrow> 'st"
  px_assert_initialized :: "'st pool \<Rightarrow> (pool_error, unit) outcome"
  px_require_admin :: "env \<Rightarrow> address \<Rightarrow> 'st pool \<Rightarrow> (pool_error, unit) outcome"
  px_acquire_guard :: "bool option \<Rightarrow> (pool_error, bool option) outcome"
  px_release_guard :: "bool option \<Rightarrow> bool option"
  px_calc_shares :: "pool_state \<Rightarrow> int \<Rightarrow> (pool_error, int) outcome"
  px_quote_withdrawal :: "pool_state \<Rightarrow> int \<Rightarrow> (pool_error, int) outcome"
  px_check_coverage_capacity :: "pool_state \<Rightarrow> int \<Rightarrow> (pool_error, int) outcome"
  px_calc_premium :: "pool_config \<Rightarrow> policy_params \<Rightarrow> (pool_error, int) outcome"
  px_feed_symbol :: "coverage_type \<Rightarrow> symbol"
  px_to_registry_coverage_type :: "coverage_type \<Rightarrow> mirror_coverage_type"
  px_deactivate_in_registry :: "env \<Rightarrow> 'st pool \<Rightarrow> nat \<Rightarrow> 'w \<Rightarrow> 'w"
  px_release_in_backstop :: "env \<Rightarrow> 'st pool \<Rightarrow> nat \<Rightarrow> 'w \<Rightarrow> 'w"
  px_transfer :: "'w transfer_fn"
  px_callee :: "'w callee"

text \<open>The accounting helpers read back what they wrote; the capacity check returns the new total.\<close>

definition accounting_store :: "('st, 'w) pool_ext \<Rightarrow> bool" where
  "accounting_store x \<longleftrightarrow> (\<forall>a st. px_accounting x (px_save_accounting x a st) = a)"

definition capacity_adds :: "('st, 'w) pool_ext \<Rightarrow> bool" where
  "capacity_adds x \<longleftrightarrow> (\<forall>ps amount c. px_check_coverage_capacity x ps amount = Ok c \<longrightarrow>
     c = ps_total_coverage ps + amount \<and> 0 \<le> amount)"

definition pool_undeployed :: "'st \<Rightarrow> 'st pool" where
  "pool_undeployed st = \<lparr>p_admin = None, p_usdc_token = None, p_policy_registry = None, p_accounting = st,
     p_shares = (\<lambda>_. None), p_policy = (\<lambda>_. None), p_user_policies = (\<lambda>_. None), p_pool_config = None,
     p_initialized = None, p_oracle_data = (\<lambda>_. None), p_last_deposit = (\<lambda>_. None),
     p_reentrancy_lock = None, p_backstop = None\<rparr>"

section \<open>Helpers of the entry points\<close>

definition get_accounting :: "('st, 'w) pool_ext \<Rightarrow> 'st pool \<Rightarrow> pool_accounting" where
  "get_accounting x s = px_accounting x (p_accounting s)"

definition put_accounting :: "('st, 'w) pool_ext \<Rightarrow> pool_accounting \<Rightarrow> 'st pool \<Rightarrow> 'st pool" where
  "put_accounting x a s = s\<lparr>p_accounting := px_save_accounting x a (p_accounting s)\<rparr>"

definition acquire_guard :: "('st, 'w) pool_ext \<Rightarrow> 'st pool \<Rightarrow> (pool_error, 'st pool) outcome" where
  "acquire_guard x s =
     and_then (px_acquire_guard x (p_reentrancy_lock s)) (\<lambda>l. Ok (s\<lparr>p_reentrancy_lock := l\<rparr>))"

definition release_guard :: "('st, 'w) pool_ext \<Rightarrow> 'st pool \<Rightarrow> 'st pool" where
  "release_guard x s = s\<lparr>p_reentrancy_lock := px_release_guard x (p_reentrancy_lock s)\<rparr>"

definition pool_config_default :: pool_config where
  "pool_config_default = \<lparr>base_premium_rate_bps = 300, max_utilization_bps = 8000,
     min_coverage = 100 * POOL_PRECISION, max_coverage = 50000 * POOL_PRECISION, lockup_days = 7\<rparr>"

definition pool_state_load :: "('st, 'w) pool_ext \<Rightarrow> 'st pool \<Rightarrow> pool_state" where
  "pool_state_load x s =
     (let acc = get_accounting x s in
      \<lparr>ps_config = unwrap_or (p_pool_config s) pool_config_default,
       ps_total_capital = total_capital acc, ps_total_shares = total_shares acc,
       ps_total_coverage = total_coverage acc\<rparr>)"

text \<open>The registration as the contract value the registry receives: a map by field name.\<close>

fun mirror_coverage_code :: "mirror_coverage_type \<Rightarrow> nat" where
  "mirror_coverage_code MirrorStablecoinDepeg = 0"
| "mirror_coverage_code MirrorMarketCrash = 1"
| "mirror_coverage_code MirrorLiquidationShield = 2"
| "mirror_coverage_code MirrorSmartContractRisk = 3"
| "mirror_coverage_code MirrorFlightDelay = 4"

definition registration_val :: "pool_registration \<Rightarrow> val" where
  "registration_val r = VMap [(''policy_id'', VU64 (pr_policy_id r)), (''holder'', VAddr (pr_holder r)),
     (''coverage_type'', VU32 (mirror_coverage_code (pr_coverage_type r))),
     (''coverage_amount'', VI128 (pr_coverage_amount r)), (''premium'', VI128 (pr_premium r)),
     (''expires_at'', VU64 (pr_expires_at r))]"

section \<open>Capital\<close>

definition pool_initialize ::
  "('st, 'w) pool_ext \<Rightarrow> env \<Rightarrow> address \<Rightarrow> address \<Rightarrow> address \<Rightarrow> 'st pool \<Rightarrow>
   (pool_error, unit \<times> 'st pool) outcome" where
  "pool_initialize x e admin usdc registry s =
     (if p_initialized s \<noteq> None then Err PlAlreadyInitialized
      else and_then (require_auth e admin) (\<lambda>_.
        let s = s\<lparr>p_admin := Some admin, p_usdc_token := Some usdc, p_policy_registry := Some registry\<rparr>;
            s = put_accounting x \<lparr>total_capital = 0, total_coverage = 0, total_premiums = 0,
                  total_shares = 0, next_policy_id = 0\<rparr> s
        in Ok ((), s\<lparr>p_pool_config := Some \<lparr>base_premium_rate_bps = 300, max_utilization_bps = 8000,
             min_coverage = 100000000, max_coverage = 50000000000, lockup_days = 7\<rparr>,
             p_initialized := Some True\<rparr>)))"

definition quote_shares :: "('st, 'w) pool_ext \<Rightarrow> int \<Rightarrow> 'st pool \<Rightarrow> (pool_error, int) outcome" where
  "quote_shares x amount s =
     and_then (px_assert_initialized x s) (\<lambda>_.
     if amount \<le> 0 then Err PlZeroAmount
     else px_calc_shares x (pool_state_load x s) amount)"

definition provide_capital ::
  "('st, 'w) pool_ext \<Rightarrow> env \<Rightarrow> address \<Rightarrow> int \<Rightarrow> ('st, 'w) pool_system \<Rightarrow>
   (pool_error, int \<times> ('st, 'w) pool_system) outcome" where
  "provide_capital x e provider amount sw =
     (let s = fst sw; w = snd sw in
      and_then (require_auth e provider) (\<lambda>_.
      and_then (px_assert_initialized x s) (\<lambda>_.
      if amount \<le> 0 then Err PlZeroAmount
      else
        and_then (acquire_guard x s) (\<lambda>s.
        let state = pool_state_load x s in
        and_then (ok_or (p_usdc_token s) PlNotInitialized) (\<lambda>usdc.
        and_then (px_calc_shares x state amount) (\<lambda>shares.
        and_then (i128_add (unwrap_or (p_shares s provider) 0) shares) (\<lambda>user_shares.
        let acc = get_accounting x s in
        and_then (i128_add (total_capital acc) amount) (\<lambda>capital.
        and_then (i128_add (total_shares acc) shares) (\<lambda>all_shares.
        let s = put_accounting x (acc\<lparr>total_capital := capital, total_shares := all_shares\<rparr>) s;
            s = s\<lparr>p_shares := (p_shares s)(provider \<mapsto> user_shares),
                  p_last_deposit := (p_last_deposit s)(provider \<mapsto> timestamp e)\<rparr> in
        and_then (token_transfer (px_transfer x) w usdc provider (this e) amount) (\<lambda>w.
        Ok (shares, (release_guard x s, w))))))))))))"

definition quote_withdrawal :: "('st, 'w) pool_ext \<Rightarrow> int \<Rightarrow> 'st pool \<Rightarrow> (pool_error, int) outcome" where
  "quote_withdrawal x shares s =
     and_then (px_assert_initialized x s) (\<lambda>_.
     if shares \<le> 0 then Err PlZeroAmount
     else px_quote_withdrawal x (pool_state_load x s) shares)"

definition lockup_active :: "env \<Rightarrow> pool_state \<Rightarrow> nat option \<Rightarrow> bool" where
  "lockup_active e state last_deposit =
     (case last_deposit of
        None \<Rightarrow> False
      | Some d \<Rightarrow>
          let lockup_secs = u64_sat_mul (lockup_days (ps_config state)) 86400;
              unlocks_at = u64_sat_add d lockup_secs
          in timestamp e < unlocks_at)"

definition withdraw_capital ::
  "('st, 'w) pool_ext \<Rightarrow> env \<Rightarrow> address \<Rightarrow> int \<Rightarrow> ('st, 'w) pool_system \<Rightarrow>
   (pool_error, int \<times> ('st, 'w) pool_system) outcome" where
  "withdraw_capital x e provider shares sw =
     (let s = fst sw; w = snd sw in
      and_then (require_auth e provider) (\<lambda>_.
      and_then (px_assert_initialized x s) (\<lambda>_.
      if shares \<le> 0 then Err PlZeroAmount
      else
        and_then (acquire_guard x s) (\<lambda>s.
        let user_shares = unwrap_or (p_shares s provider) 0 in
        if user_shares < shares then Err PlInsufficientShares
        else
          let state = pool_state_load x s in
          if lockup_active e state (p_last_deposit s provider) then Err PlLockupActive
          else
            and_then (px_quote_withdrawal x state shares) (\<lambda>usdc_out.
            let acc = get_accounting x s in
            and_then (i128_sub (total_capital acc) usdc_out) (\<lambda>capital.
            and_then (i128_sub (total_shares acc) shares) (\<lambda>all_shares.
            let s = put_accounting x (acc\<lparr>total_capital := capital, total_shares := all_shares\<rparr>) s in
            and_then (i128_sub user_shares shares) (\<lambda>left_shares.
            let s = s\<lparr>p_shares := (p_shares s)(provider \<mapsto> left_shares)\<rparr> in
            and_then (ok_or (p_usdc_token s) PlNotInitialized) (\<lambda>usdc.
            and_then (token_transfer (px_transfer x) w usdc (this e) provider usdc_out) (\<lambda>w.
            Ok (usdc_out, (release_guard x s, w))))))))))))"

section \<open>Policies\<close>

definition quote_premium :: "('st, 'w) pool_ext \<Rightarrow> policy_params \<Rightarrow> 'st pool \<Rightarrow> (pool_error, int) outcome" where
  "quote_premium x params s =
     and_then (px_assert_initialized x s) (\<lambda>_.
     let state = pool_state_load x s in
     and_then (px_check_coverage_capacity x state (pm_coverage_amount params)) (\<lambda>_.
     px_calc_premium x (ps_config state) params))"

definition new_policy :: "nat \<Rightarrow> address \<Rightarrow> policy_params \<Rightarrow> int \<Rightarrow> nat \<Rightarrow> nat \<Rightarrow> policy" where
  "new_policy i holder params premium now end_at =
     \<lparr>pol_id = i, pol_holder = holder, pol_coverage_type = pm_coverage_type params,
      pol_coverage_amount = pm_coverage_amount params, pol_premium_paid = premium,
      pol_trigger_threshold = pm_trigger_threshold params, pol_start_time = now,
      pol_end_time = end_at, pol_status = PolActive, pol_payout_at = None\<rparr>"

text \<open>\<open>matches!(res, Ok(Ok(())))\<close> on a backstop call: the call returned the unit value.\<close>

definition backstop_check ::
  "('st, 'w) pool_ext \<Rightarrow> env \<Rightarrow> 'st pool \<Rightarrow> symbol \<Rightarrow> val list \<Rightarrow> 'w \<Rightarrow> (pool_error, 'w) outcome" where
  "backstop_check x e s f args w =
     (case p_backstop s of
        None \<Rightarrow> Ok w
      | Some b \<Rightarrow>
          (case try_invoke (px_callee x) e w b f args of
             (r, w') \<Rightarrow> if r = CallOk VVoid then Ok w' else Err PlFeedCapExceeded))"

text \<open>The registry's answer is converted to \<open>u64\<close>; any other value panics.\<close>

definition expect_u64 :: "val \<Rightarrow> ('e, nat) outcome" where
  "expect_u64 v = (case v of VU64 n \<Rightarrow> Ok n | _ \<Rightarrow> Trap)"

definition buy_policy ::
  "('st, 'w) pool_ext \<Rightarrow> env \<Rightarrow> address \<Rightarrow> policy_params \<Rightarrow> ('st, 'w) pool_system \<Rightarrow>
   (pool_error, nat \<times> ('st, 'w) pool_system) outcome" where
  "buy_policy x e holder params sw =
     (let s = fst sw; w = snd sw in
      and_then (require_auth e holder) (\<lambda>_.
      and_then (px_assert_initialized x s) (\<lambda>_.
      and_then (acquire_guard x s) (\<lambda>s.
      let state = pool_state_load x s in
      and_then (px_check_coverage_capacity x state (pm_coverage_amount params)) (\<lambda>new_coverage.
      let feed_sym = px_feed_symbol x (pm_coverage_type params) in
      and_then (backstop_check x e s ''check_exposure_caps''
        [VAddr holder, VSym feed_sym, VI128 (pm_coverage_amount params)] w) (\<lambda>w.
      and_then (px_calc_premium x (ps_config state) params) (\<lambda>premium.
      let now = timestamp e;
          end_at = u64_sat_add now (u64_sat_mul (pm_duration_days params) 86400);
          registry_coverage_type = px_to_registry_coverage_type x (pm_coverage_type params) in
      and_then (ok_or (p_usdc_token s) PlNotInitialized) (\<lambda>usdc.
      and_then (ok_or (p_policy_registry s) PlNotInitialized) (\<lambda>registry_addr.
      let acc = get_accounting x s; i = next_policy_id acc in
      and_then (i128_add (total_capital acc) premium) (\<lambda>capital.
      and_then (i128_add (total_premiums acc) premium) (\<lambda>premiums.
      and_then (u64_add i 1) (\<lambda>next.
      let s = put_accounting x (acc\<lparr>total_capital := capital, total_premiums := premiums,
                total_coverage := new_coverage, next_policy_id := next\<rparr>) s;
          s = s\<lparr>p_policy := (p_policy s)(i \<mapsto> new_policy i holder params premium now end_at),
                p_user_policies := (p_user_policies s)
                  (holder \<mapsto> unwrap_or (p_user_policies s holder) [] @ [i])\<rparr> in
      and_then (token_transfer (px_transfer x) w usdc holder (this e) premium) (\<lambda>w.
      let registration = \<lparr>pr_policy_id = i, pr_holder = holder, pr_coverage_type = registry_coverage_type,
            pr_coverage_amount = pm_coverage_amount params, pr_premium = premium, pr_expires_at = end_at\<rparr> in
      and_then (invoke_contract (px_callee x) e w registry_addr ''register_policy''
        [VAddr (this e), registration_val registration]) (\<lambda>(v, w).
      and_then (expect_u64 v) (\<lambda>_.
      let s = release_guard x s in
      and_then (backstop_check x e s ''record_policy_exposure''
        [VAddr (this e), VU64 i, VAddr holder, VSym feed_sym, VI128 (pm_coverage_amount params)] w) (\<lambda>w.
      Ok (i, (s, w))))))))))))))))))"

text \<open>The trigger test of \<open>process_claim\<close>; both conjuncts are evaluated.\<close>

definition claim_value_triggered :: "policy \<Rightarrow> oracle_data \<Rightarrow> ('e, bool) outcome" where
  "claim_value_triggered p d =
     (case pol_coverage_type p of
        StablecoinDepeg \<Rightarrow>
          and_then (i128_mul (pol_trigger_threshold p) POOL_PRECISION) (\<lambda>m.
          and_then (i128_div m POOL_BPS) (\<lambda>q.
          and_then (i128_sub POOL_PRECISION q) (\<lambda>limit. Ok (od_value d < limit))))
      | MarketCrash \<Rightarrow>
          and_then (i128_sub 0 (pol_trigger_threshold p)) (\<lambda>limit. Ok (od_value d < limit))
      | LiquidationShield \<Rightarrow> Ok (0 < od_value d)
      | SmartContractRisk \<Rightarrow> Ok (0 < od_value d)
      | FlightDelay \<Rightarrow> Ok (pol_trigger_threshold p < od_value d))"

definition claim_triggered :: "env \<Rightarrow> policy \<Rightarrow> oracle_data option \<Rightarrow> ('e, bool) outcome" where
  "claim_triggered e p data =
     (case data of
        None \<Rightarrow> Ok False
      | Some d \<Rightarrow>
          and_then (u64_sub (timestamp e) (od_updated_at d)) (\<lambda>age.
          and_then (claim_value_triggered p d) (\<lambda>triggered_value.
          Ok (age < 1800 \<and> triggered_value))))"

definition process_claim ::
  "('st, 'w) pool_ext \<Rightarrow> env \<Rightarrow> nat \<Rightarrow> ('st, 'w) pool_system \<Rightarrow>
   (pool_error, int \<times> ('st, 'w) pool_system) outcome" where
  "process_claim x e i sw =
     (let s = fst sw; w = snd sw in
      and_then (acquire_guard x s) (\<lambda>s.
      and_then (ok_or (p_policy s i) PlPolicyNotFound) (\<lambda>p.
      if pol_status p \<noteq> PolActive then Err PlAlreadyClaimed
      else if pol_end_time p < timestamp e then Err PlPolicyExpired
      else
        and_then (claim_triggered e p (p_oracle_data s (pol_coverage_type p))) (\<lambda>triggered.
        if \<not> triggered then Err PlPolicyNotTriggered
        else
          let payout = pol_coverage_amount p;
              p = p\<lparr>pol_status := PolClaimed, pol_payout_at := Some (timestamp e)\<rparr>;
              s = s\<lparr>p_policy := (p_policy s)(i \<mapsto> p)\<rparr>;
              acc = get_accounting x s in
          and_then (i128_sub (total_capital acc) payout) (\<lambda>capital.
          and_then (i128_sub (total_coverage acc) payout) (\<lambda>coverage.
          let s = put_accounting x (acc\<lparr>total_capital := max capital 0, total_coverage := max coverage 0\<rparr>) s in
          and_then (ok_or (p_usdc_token s) PlNotInitialized) (\<lambda>usdc.
          and_then (token_transfer (px_transfer x) w usdc (this e) (pol_holder p) payout) (\<lambda>w.
          let w = px_deactivate_in_registry x e s i w; w = px_release_in_backstop x e s i w in
          Ok (payout, (release_guard x s, w))))))))))"

definition expire_policy ::
  "('st, 'w) pool_ext \<Rightarrow> env \<Rightarrow> nat \<Rightarrow> ('st, 'w) pool_system \<Rightarrow>
   (pool_error, unit \<times> ('st, 'w) pool_system) outcome" where
  "expire_policy x e i sw =
     (let s = fst sw; w = snd sw in
      and_then (acquire_guard x s) (\<lambda>s.
      and_then (ok_or (p_policy s i) PlPolicyNotFound) (\<lambda>p.
      if pol_status p \<noteq> PolActive then Err PlAlreadyClaimed
      else if timestamp e \<le> pol_end_time p then Err PlPolicyNotYetExpired
      else
        let p = p\<lparr>pol_status := PolExpired\<rparr>;
            s = s\<lparr>p_policy := (p_policy s)(i \<mapsto> p)\<rparr>;
            acc = get_accounting x s in
        and_then (i128_sub (total_coverage acc) (pol_coverage_amount p)) (\<lambda>coverage.
        let s = put_accounting x (acc\<lparr>total_coverage := max coverage 0\<rparr>) s;
            w = px_deactivate_in_registry x e s i w; w = px_release_in_backstop x e s i w in
        Ok ((), (release_guard x s, w))))))"

section \<open>Administration and views\<close>

definition set_backstop ::
  "('st, 'w) pool_ext \<Rightarrow> env \<Rightarrow> address \<Rightarrow> address \<Rightarrow> 'st pool \<Rightarrow> (pool_error, unit \<times> 'st pool) outcome" where
  "set_backstop x e caller backstop s =
     and_then (px_require_admin x e caller s) (\<lambda>_. Ok ((), s\<lparr>p_backstop := Some backstop\<rparr>))"

definition pool_backstop :: "'st pool \<Rightarrow> address option" where
  "pool_backstop s = p_backstop s"

definition set_policy_registry ::
  "('st, 'w) pool_ext \<Rightarrow> env \<Rightarrow> address \<Rightarrow> address \<Rightarrow> 'st pool \<Rightarrow> (pool_error, unit \<times> 'st pool) outcome" where
  "set_policy_registry x e caller registry s =
     and_then (px_require_admin x e caller s) (\<lambda>_. Ok ((), s\<lparr>p_policy_registry := Some registry\<rparr>))"

definition pool_set_admin ::
  "('st, 'w) pool_ext \<Rightarrow> env \<Rightarrow> address \<Rightarrow> address \<Rightarrow> 'st pool \<Rightarrow> (pool_error, unit \<times> 'st pool) outcome" where
  "pool_set_admin x e caller new_admin s =
     and_then (px_require_admin x e caller s) (\<lambda>_. Ok ((), s\<lparr>p_admin := Some new_admin\<rparr>))"

definition set_pool_config ::
  "('st, 'w) pool_ext \<Rightarrow> env \<Rightarrow> address \<Rightarrow> pool_config \<Rightarrow> 'st pool \<Rightarrow> (pool_error, unit \<times> 'st pool) outcome" where
  "set_pool_config x e caller config s =
     and_then (px_require_admin x e caller s) (\<lambda>_. Ok ((), s\<lparr>p_pool_config := Some config\<rparr>))"

definition update_oracle ::
  "('st, 'w) pool_ext \<Rightarrow> env \<Rightarrow> address \<Rightarrow> coverage_type \<Rightarrow> int \<Rightarrow> 'st pool \<Rightarrow>
   (pool_error, unit \<times> 'st pool) outcome" where
  "update_oracle x e caller ct v s =
     and_then (px_require_admin x e caller s) (\<lambda>_.
     Ok ((), s\<lparr>p_oracle_data := (p_oracle_data s)(ct \<mapsto> \<lparr>od_value = v, od_updated_at = timestamp e\<rparr>)\<rparr>))"

text \<open>\<open>as u32\<close> keeps the low 32 bits.\<close>

definition i128_as_u32 :: "int \<Rightarrow> nat" where
  "i128_as_u32 n = nat (n mod 2 ^ 32)"

definition get_pool_stats :: "('st, 'w) pool_ext \<Rightarrow> 'st pool \<Rightarrow> ('e, pool_stats) outcome" where
  "get_pool_stats x s =
     (let acc = get_accounting x s;
          capital = total_capital acc; coverage = total_coverage acc; shares = total_shares acc;
          config = unwrap_or (p_pool_config s) \<lparr>base_premium_rate_bps = 0, max_utilization_bps = 0,
             min_coverage = 0, max_coverage = 0, lockup_days = 0\<rparr> in
      and_then (if capital = 0 then Ok 0
                else and_then (i128_mul coverage POOL_BPS) (\<lambda>m.
                     and_then (i128_div m capital) (\<lambda>q. Ok (i128_as_u32 q)))) (\<lambda>utilization.
      and_then (if shares = 0 then Ok POOL_PRECISION
                else and_then (i128_mul capital POOL_PRECISION) (\<lambda>m. i128_div m shares)) (\<lambda>share_price.
      and_then (u32_mul (base_premium_rate_bps config) utilization) (\<lambda>apy.
      and_then (i128_mul capital (int (max_utilization_bps config))) (\<lambda>m.
      and_then (i128_div m POOL_BPS) (\<lambda>max_capacity.
      and_then (i128_sub max_capacity coverage) (\<lambda>left_capacity.
      Ok \<lparr>st_total_capital = capital, st_total_coverage = coverage, st_total_shares = shares,
          st_utilization_bps = utilization, st_share_price = share_price,
          st_apy_estimate_bps = apy div 10000, st_available_capacity = max left_capacity 0\<rparr>)))))))"

section \<open>The contract as a transaction executor\<close>

datatype pool_call =
    PlInitialize address address address
  | PlProvideCapital address int
  | PlWithdrawCapital address int
  | PlBuyPolicy address policy_params
  | PlProcessClaim nat
  | PlExpirePolicy nat
  | PlSetBackstop address address
  | PlSetPolicyRegistry address address
  | PlSetAdmin address address
  | PlSetPoolConfig address pool_config
  | PlUpdateOracle address coverage_type int

definition on_pool ::
  "('st pool \<Rightarrow> ('e, 'a \<times> 'st pool) outcome) \<Rightarrow> ('st, 'w) pool_system \<Rightarrow>
   ('e, unit \<times> ('st, 'w) pool_system) outcome" where
  "on_pool f sw = and_then (f (fst sw)) (\<lambda>(_, s). Ok ((), (s, snd sw)))"

fun pool_exec ::
  "('st, 'w) pool_ext \<Rightarrow> (pool_call, ('st, 'w) pool_system, pool_error, unit) executor" where
  "pool_exec x e (PlInitialize a u r) sw = on_pool (pool_initialize x e a u r) sw"
| "pool_exec x e (PlProvideCapital a n) sw = discard (provide_capital x e a n sw)"
| "pool_exec x e (PlWithdrawCapital a n) sw = discard (withdraw_capital x e a n sw)"
| "pool_exec x e (PlBuyPolicy a pm) sw = discard (buy_policy x e a pm sw)"
| "pool_exec x e (PlProcessClaim i) sw = discard (process_claim x e i sw)"
| "pool_exec x e (PlExpirePolicy i) sw = expire_policy x e i sw"
| "pool_exec x e (PlSetBackstop a b) sw = on_pool (set_backstop x e a b) sw"
| "pool_exec x e (PlSetPolicyRegistry a b) sw = on_pool (set_policy_registry x e a b) sw"
| "pool_exec x e (PlSetAdmin a b) sw = on_pool (pool_set_admin x e a b) sw"
| "pool_exec x e (PlSetPoolConfig a cfg) sw = on_pool (set_pool_config x e a cfg) sw"
| "pool_exec x e (PlUpdateOracle a ct v) sw = on_pool (update_oracle x e a ct v) sw"

section \<open>What each entry point does\<close>

lemma put_accounting_fields [simp]:
  "p_policy (put_accounting x a s) = p_policy s" "p_shares (put_accounting x a s) = p_shares s"
  "p_usdc_token (put_accounting x a s) = p_usdc_token s" "p_initialized (put_accounting x a s) = p_initialized s"
  "p_last_deposit (put_accounting x a s) = p_last_deposit s"
  "p_user_policies (put_accounting x a s) = p_user_policies s"
  "p_oracle_data (put_accounting x a s) = p_oracle_data s"
  by (simp_all add: put_accounting_def)

lemma release_guard_fields [simp]:
  "p_policy (release_guard x s) = p_policy s" "p_shares (release_guard x s) = p_shares s"
  "p_usdc_token (release_guard x s) = p_usdc_token s" "p_initialized (release_guard x s) = p_initialized s"
  "p_last_deposit (release_guard x s) = p_last_deposit s" "p_accounting (release_guard x s) = p_accounting s"
  "p_user_policies (release_guard x s) = p_user_policies s"
  "p_oracle_data (release_guard x s) = p_oracle_data s"
  by (simp_all add: release_guard_def)

lemma acquire_guard_Ok [simp]:
  "acquire_guard x s = Ok s1 \<longleftrightarrow>
     (\<exists>l. px_acquire_guard x (p_reentrancy_lock s) = Ok l \<and> s1 = s\<lparr>p_reentrancy_lock := l\<rparr>)"
  by (auto simp: acquire_guard_def)

lemma get_put_accounting [simp]:
  "accounting_store x \<Longrightarrow> px_accounting x (p_accounting (put_accounting x a s)) = a"
  by (simp add: put_accounting_def accounting_store_def)

text \<open>
  What the lemmas look at: the policies, the shares, and the accounting as the helpers read it.
\<close>

definition acct :: "('st, 'w) pool_ext \<Rightarrow> 'st pool \<Rightarrow> pool_accounting" where
  "acct x s = px_accounting x (p_accounting s)"

lemma acct_simps [simp]:
  "accounting_store x \<Longrightarrow> acct x (put_accounting x a s) = a"
  "acct x (release_guard x s) = acct x s"
  "get_accounting x s = acct x s"
  "acct x (s\<lparr>p_reentrancy_lock := l\<rparr>) = acct x s"
  "acct x (s\<lparr>p_policy := m\<rparr>) = acct x s"
  "acct x (s\<lparr>p_shares := m'\<rparr>) = acct x s"
  "acct x (s\<lparr>p_last_deposit := m''\<rparr>) = acct x s"
  "acct x (s\<lparr>p_user_policies := m3\<rparr>) = acct x s"
  by (simp_all add: acct_def get_accounting_def)

lemma pool_state_load_coverage [simp]: "ps_total_coverage (pool_state_load x s) = total_coverage (acct x s)"
  by (simp add: pool_state_load_def Let_def)

lemma capacity_addsD:
  "capacity_adds x \<Longrightarrow> px_check_coverage_capacity x ps amount = Ok c \<Longrightarrow>
     c = ps_total_coverage ps + amount \<and> 0 \<le> amount"
  by (simp add: capacity_adds_def)

lemma provide_capital_Ok:
  assumes "provide_capital x e a n (s, w) = Ok (sh, (s', w'))" and "accounting_store x"
  shows "auth e a \<and> 0 < n \<and> p_usdc_token s \<noteq> None \<and> p_initialized s' = p_initialized s \<and>
    p_usdc_token s' = p_usdc_token s \<and> p_policy s' = p_policy s \<and>
    p_shares s' = (p_shares s)(a \<mapsto> unwrap_or (p_shares s a) 0 + sh) \<and>
    p_last_deposit s' = (p_last_deposit s)(a \<mapsto> timestamp e) \<and>
    acct x s' = (acct x s)\<lparr>total_capital := total_capital (acct x s) + n, total_shares := total_shares (acct x s) + sh\<rparr>"
  using assms by (auto simp: provide_capital_def Let_def split: if_splits)

lemma withdraw_capital_Ok:
  assumes "withdraw_capital x e a n (s, w) = Ok (out, (s', w'))" and "accounting_store x"
  shows "auth e a \<and> 0 < n \<and> n \<le> unwrap_or (p_shares s a) 0 \<and> p_usdc_token s \<noteq> None \<and>
    p_initialized s' = p_initialized s \<and> p_usdc_token s' = p_usdc_token s \<and> p_policy s' = p_policy s \<and>
    \<not> lockup_active e (pool_state_load x s) (p_last_deposit s a) \<and>
    px_quote_withdrawal x (pool_state_load x s) n = Ok out \<and>
    px_transfer x w (the (p_usdc_token s)) (this e) a out = Some w' \<and>
    p_shares s' = (p_shares s)(a \<mapsto> unwrap_or (p_shares s a) 0 - n) \<and>
    p_last_deposit s' = p_last_deposit s \<and>
    acct x s' = (acct x s)\<lparr>total_capital := total_capital (acct x s) - out, total_shares := total_shares (acct x s) - n\<rparr>"
  using assms
  by (auto simp: withdraw_capital_def pool_state_load_def Let_def split: if_splits)

lemma process_claim_Ok:
  assumes "process_claim x e i (s, w) = Ok (out, (s', w'))" and "accounting_store x"
  obtains p where "p_policy s i = Some p" "pol_status p = PolActive" "timestamp e \<le> pol_end_time p"
    "claim_triggered e p (p_oracle_data s (pol_coverage_type p)) = (Ok True :: (pool_error, bool) outcome)"
    "out = pol_coverage_amount p" "p_usdc_token s \<noteq> None" "p_initialized s' = p_initialized s"
    "p_usdc_token s' = p_usdc_token s" "p_shares s' = p_shares s" "p_last_deposit s' = p_last_deposit s"
    "p_policy s' = (p_policy s)(i \<mapsto> p\<lparr>pol_status := PolClaimed, pol_payout_at := Some (timestamp e)\<rparr>)"
    "acct x s' = (acct x s)\<lparr>total_capital := max (total_capital (acct x s) - out) 0,
       total_coverage := max (total_coverage (acct x s) - out) 0\<rparr>"
    "\<exists>w1. px_transfer x w (the (p_usdc_token s)) (this e) (pol_holder p) out = Some w1"
  using assms by (auto simp: process_claim_def Let_def split: if_splits)

lemma expire_policy_Ok:
  assumes "expire_policy x e i (s, w) = Ok (u, (s', w'))" and "accounting_store x"
  obtains p where "p_policy s i = Some p" "pol_status p = PolActive" "pol_end_time p < timestamp e"
    "p_initialized s' = p_initialized s" "p_usdc_token s' = p_usdc_token s" "p_shares s' = p_shares s"
    "p_last_deposit s' = p_last_deposit s"
    "p_policy s' = (p_policy s)(i \<mapsto> p\<lparr>pol_status := PolExpired\<rparr>)"
    "acct x s' = (acct x s)\<lparr>total_coverage := max (total_coverage (acct x s) - pol_coverage_amount p) 0\<rparr>"
  using assms by (auto simp: expire_policy_def Let_def split: if_splits)

lemma buy_policy_Ok:
  assumes "buy_policy x e a pm (s, w) = Ok (i, (s', w'))" and "accounting_store x"
  obtains premium cov where "auth e a" "p_usdc_token s \<noteq> None" "i = next_policy_id (acct x s)"
    "px_check_coverage_capacity x (pool_state_load x s) (pm_coverage_amount pm) = Ok cov"
    "px_calc_premium x (ps_config (pool_state_load x s)) pm = Ok premium"
    "p_initialized s' = p_initialized s" "p_usdc_token s' = p_usdc_token s" "p_shares s' = p_shares s"
    "p_last_deposit s' = p_last_deposit s"
    "p_policy s' = (p_policy s)(i \<mapsto> new_policy i a pm premium (timestamp e)
       (u64_sat_add (timestamp e) (u64_sat_mul (pm_duration_days pm) 86400)))"
    "acct x s' = (acct x s)\<lparr>total_capital := total_capital (acct x s) + premium,
       total_premiums := total_premiums (acct x s) + premium, total_coverage := cov, next_policy_id := i + 1\<rparr>"
proof -
  have acct: "get_accounting x (s\<lparr>p_reentrancy_lock := l\<rparr>) = acct x s"
    "pool_state_load x (s\<lparr>p_reentrancy_lock := l\<rparr>) = pool_state_load x s" for l
    by (simp_all add: pool_state_load_def)
  from assms(1) show thesis
    unfolding buy_policy_def Let_def
    by (clarsimp simp: acct) (rule that, simp_all add: assms(2) acct_def [symmetric])
qed

lemmas pool_admin_ops = set_backstop_def set_policy_registry_def pool_set_admin_def set_pool_config_def
  update_oracle_def on_pool_def

section \<open>Invariants\<close>

definition active_amount :: "policy option \<Rightarrow> int" where
  "active_amount q = (case q of Some p \<Rightarrow> if pol_status p = PolActive then pol_coverage_amount p else 0 | None \<Rightarrow> 0)"

definition share_sum :: "(address \<rightharpoonup> int) \<Rightarrow> int" where
  "share_sum m = (\<Sum>a\<in>dom m. unwrap_or (m a) 0)"

definition pool_fresh :: "'st pool \<Rightarrow> bool" where
  "pool_fresh s \<longleftrightarrow> p_initialized s = None \<and> p_usdc_token s = None \<and> p_policy s = Map.empty \<and>
     p_shares s = Map.empty"

definition pool_wf :: "('st, 'w) pool_ext \<Rightarrow> 'st pool \<Rightarrow> bool" where
  "pool_wf x s \<longleftrightarrow> pool_fresh s \<or>
     (p_initialized s \<noteq> None \<and>
      (\<forall>i p. p_policy s i = Some p \<longrightarrow> i < next_policy_id (acct x s)) \<and>
      finite (dom (p_shares s)) \<and>
      total_shares (acct x s) = share_sum (p_shares s))"

definition coverage_ok :: "('st, 'w) pool_ext \<Rightarrow> 'st pool \<Rightarrow> bool" where
  "coverage_ok x s \<longleftrightarrow> pool_fresh s \<or>
     ((\<forall>i p. p_policy s i = Some p \<longrightarrow> 0 \<le> pol_coverage_amount p) \<and>
      total_coverage (acct x s) = (\<Sum>i<next_policy_id (acct x s). active_amount (p_policy s i)))"

lemma share_sum_empty [simp]: "share_sum (\<lambda>_. None) = 0"
  by (simp add: share_sum_def)

lemma share_sum_upd:
  assumes "finite (dom m)"
  shows "share_sum (m(a \<mapsto> n)) = share_sum m - unwrap_or (m a) 0 + n"
proof -
  have "(\<Sum>b\<in>insert a (dom m). unwrap_or ((m(a \<mapsto> n)) b) 0) =
      (\<Sum>b\<in>dom m. unwrap_or (m b) 0) - unwrap_or (m a) 0 + unwrap_or ((m(a \<mapsto> n)) a) 0"
    by (rule sum_one_changed) (use assms in \<open>auto simp: domIff\<close>)
  then show ?thesis by (simp add: share_sum_def)
qed

lemma policy_changed:
  fixes n :: nat
  assumes "i < n"
  shows "(\<Sum>j<n. active_amount ((m(i \<mapsto> p)) j)) =
    (\<Sum>j<n. active_amount (m j)) - active_amount (m i) + active_amount (Some p)"
proof -
  have "(\<Sum>j\<in>insert i {..<n}. active_amount ((m(i \<mapsto> p)) j)) =
      (\<Sum>j<n. active_amount (m j)) - active_amount (m i) + active_amount ((m(i \<mapsto> p)) i)"
    by (rule sum_one_changed) (use assms in auto)
  moreover have "insert i {..<n} = {..<n}" using assms by auto
  ultimately show ?thesis by simp
qed

lemma pool_exec_wf:
  assumes ex: "pool_exec x e c (s, w) = Ok (u, (s', w'))" and store: "accounting_store x" and wf: "pool_wf x s"
  shows "pool_wf x s'"
proof (cases c)
  case (PlInitialize a b r)
  with ex wf store show ?thesis
    by (auto simp: on_pool_def pool_initialize_def pool_wf_def pool_fresh_def acct_def put_accounting_def
        accounting_store_def Let_def split: if_splits)
next
  case (PlProvideCapital a n)
  with ex obtain sh where "provide_capital x e a n (s, w) = Ok (sh, (s', w'))" by auto
  from provide_capital_Ok [OF this store] wf show ?thesis
    by (auto simp: pool_wf_def pool_fresh_def share_sum_upd)
next
  case (PlWithdrawCapital a n)
  with ex obtain out where "withdraw_capital x e a n (s, w) = Ok (out, (s', w'))" by auto
  from withdraw_capital_Ok [OF this store] wf show ?thesis
    by (auto simp: pool_wf_def pool_fresh_def share_sum_upd)
next
  case (PlBuyPolicy a pm)
  with ex obtain i where "buy_policy x e a pm (s, w) = Ok (i, (s', w'))" by auto
  then show ?thesis using store
    by (rule buy_policy_Ok) (use wf in \<open>auto simp: pool_wf_def pool_fresh_def less_Suc_eq\<close>)
next
  case (PlProcessClaim i)
  with ex obtain out where "process_claim x e i (s, w) = Ok (out, (s', w'))" by auto
  then show ?thesis using store
    by (rule process_claim_Ok) (use wf in \<open>auto simp: pool_wf_def pool_fresh_def\<close>)
next
  case (PlExpirePolicy i)
  with ex have "expire_policy x e i (s, w) = Ok (u, (s', w'))" by simp
  then show ?thesis using store
    by (rule expire_policy_Ok) (use wf in \<open>auto simp: pool_wf_def pool_fresh_def\<close>)
qed (use ex wf in \<open>auto simp: pool_admin_ops pool_wf_def pool_fresh_def acct_def\<close>)

lemma settle_coverage:
  assumes "coverage_ok x s" and "pool_wf x s" and "p_policy s i = Some p" and "pol_status p = PolActive"
    and "p_policy s' = (p_policy s)(i \<mapsto> p')" and "pol_status p' \<noteq> PolActive"
    and "pol_coverage_amount p' = pol_coverage_amount p"
    and "total_coverage (acct x s') = max (total_coverage (acct x s) - pol_coverage_amount p) 0"
    and "next_policy_id (acct x s') = next_policy_id (acct x s)"
  shows "coverage_ok x s'"
proof -
  from assms(1-3) have i: "i < next_policy_id (acct x s)"
    and nonneg: "\<And>j q. p_policy s j = Some q \<Longrightarrow> 0 \<le> pol_coverage_amount q"
    and total: "total_coverage (acct x s) = (\<Sum>j<next_policy_id (acct x s). active_amount (p_policy s j))"
    by (auto simp: coverage_ok_def pool_wf_def pool_fresh_def)
  have "0 \<le> active_amount (p_policy s j)" for j
    using nonneg by (auto simp: active_amount_def split: option.splits)
  then have "active_amount (p_policy s i) \<le> total_coverage (acct x s)"
    unfolding total using i by (intro member_le_sum) auto
  moreover have "active_amount (p_policy s i) = pol_coverage_amount p" "active_amount (Some p') = 0"
    using assms(3,4,6) by (simp_all add: active_amount_def)
  ultimately have "total_coverage (acct x s') =
      (\<Sum>j<next_policy_id (acct x s'). active_amount (p_policy s' j))"
    using policy_changed [OF i, of "p_policy s" p'] assms(5,8,9) total by simp
  then show ?thesis using nonneg assms(3,5,7) by (auto simp: coverage_ok_def)
qed

lemma pool_exec_coverage:
  assumes ex: "pool_exec x e c (s, w) = Ok (u, (s', w'))" and store: "accounting_store x"
    and cap: "capacity_adds x" and wf: "pool_wf x s" and cov: "coverage_ok x s"
  shows "coverage_ok x s'"
proof (cases c)
  case (PlInitialize a b r)
  with ex wf cov store show ?thesis
    by (auto simp: on_pool_def pool_initialize_def coverage_ok_def pool_wf_def pool_fresh_def acct_def
        put_accounting_def accounting_store_def Let_def split: if_splits)
next
  case (PlProvideCapital a n)
  with ex obtain sh where "provide_capital x e a n (s, w) = Ok (sh, (s', w'))" by auto
  from provide_capital_Ok [OF this store] cov show ?thesis by (auto simp: coverage_ok_def pool_fresh_def)
next
  case (PlWithdrawCapital a n)
  with ex obtain out where "withdraw_capital x e a n (s, w) = Ok (out, (s', w'))" by auto
  from withdraw_capital_Ok [OF this store] cov show ?thesis by (auto simp: coverage_ok_def pool_fresh_def)
next
  case (PlBuyPolicy a pm)
  with ex obtain i where "buy_policy x e a pm (s, w) = Ok (i, (s', w'))" by auto
  then show ?thesis using store
  proof (rule buy_policy_Ok)
    fix premium c1
    assume b: "p_usdc_token s \<noteq> None" "i = next_policy_id (acct x s)"
      "px_check_coverage_capacity x (pool_state_load x s) (pm_coverage_amount pm) = Ok c1"
      "p_policy s' = (p_policy s)(i \<mapsto> new_policy i a pm premium (timestamp e)
         (u64_sat_add (timestamp e) (u64_sat_mul (pm_duration_days pm) 86400)))"
      "acct x s' = (acct x s)\<lparr>total_capital := total_capital (acct x s) + premium,
         total_premiums := total_premiums (acct x s) + premium, total_coverage := c1, next_policy_id := i + 1\<rparr>"
    from cap b(3) have "c1 = total_coverage (acct x s) + pm_coverage_amount pm" "0 \<le> pm_coverage_amount pm"
      using capacity_addsD by fastforce+
    moreover have "(\<Sum>j<i. active_amount (p_policy s' j)) = (\<Sum>j<i. active_amount (p_policy s j))"
      using b(4) by (intro sum.cong) auto
    ultimately show ?thesis using cov b by (auto simp: coverage_ok_def pool_fresh_def active_amount_def new_policy_def)
  qed
next
  case (PlProcessClaim i)
  with ex obtain out where "process_claim x e i (s, w) = Ok (out, (s', w'))" by auto
  then show ?thesis using store
    by (rule process_claim_Ok) (use cov wf in \<open>simp add: settle_coverage\<close>)
next
  case (PlExpirePolicy i)
  with ex have "expire_policy x e i (s, w) = Ok (u, (s', w'))" by simp
  then show ?thesis using store
    by (rule expire_policy_Ok) (use cov wf in \<open>simp add: settle_coverage\<close>)
qed (use ex cov in \<open>auto simp: pool_admin_ops coverage_ok_def pool_fresh_def acct_def\<close>)

lemma pool_exec_frozen:
  assumes ex: "pool_exec x e c (s, w) = Ok (u, (s', w'))" and store: "accounting_store x" and wf: "pool_wf x s"
    and p: "p_policy s i = Some p" "pol_status p \<noteq> PolActive"
  shows "p_policy s' i = Some p"
proof (cases c)
  case (PlInitialize a b r)
  with ex p show ?thesis by (auto simp: on_pool_def pool_initialize_def Let_def split: if_splits)
next
  case (PlProvideCapital a n)
  with ex obtain sh where "provide_capital x e a n (s, w) = Ok (sh, (s', w'))" by auto
  from provide_capital_Ok [OF this store] p show ?thesis by simp
next
  case (PlWithdrawCapital a n)
  with ex obtain out where "withdraw_capital x e a n (s, w) = Ok (out, (s', w'))" by auto
  from withdraw_capital_Ok [OF this store] p show ?thesis by simp
next
  case (PlBuyPolicy a pm)
  with ex obtain j where "buy_policy x e a pm (s, w) = Ok (j, (s', w'))" by auto
  then show ?thesis using store
    by (rule buy_policy_Ok) (use wf p in \<open>auto simp: pool_wf_def pool_fresh_def\<close>)
next
  case (PlProcessClaim j)
  with ex obtain out where "process_claim x e j (s, w) = Ok (out, (s', w'))" by auto
  then show ?thesis using store by (rule process_claim_Ok) (use p in auto)
next
  case (PlExpirePolicy j)
  with ex have "expire_policy x e j (s, w) = Ok (u, (s', w'))" by simp
  then show ?thesis using store by (rule expire_policy_Ok) (use p in auto)
qed (use ex p in \<open>auto simp: pool_admin_ops\<close>)

lemma pool_exec_last_deposit:
  assumes ex: "pool_exec x e c (s, w) = Ok (u, (s', w'))" and store: "accounting_store x"
  shows "p_last_deposit s' a = p_last_deposit s a \<or> p_last_deposit s' a = Some (timestamp e)"
proof (cases c)
  case (PlInitialize b d r)
  with ex show ?thesis by (auto simp: on_pool_def pool_initialize_def Let_def split: if_splits)
next
  case (PlProvideCapital b n)
  with ex obtain sh where "provide_capital x e b n (s, w) = Ok (sh, (s', w'))" by auto
  from provide_capital_Ok [OF this store] show ?thesis by simp
next
  case (PlWithdrawCapital b n)
  with ex obtain out where "withdraw_capital x e b n (s, w) = Ok (out, (s', w'))" by auto
  from withdraw_capital_Ok [OF this store] show ?thesis by simp
next
  case (PlBuyPolicy b pm)
  with ex obtain j where "buy_policy x e b pm (s, w) = Ok (j, (s', w'))" by auto
  then show ?thesis using store by (rule buy_policy_Ok) simp
next
  case (PlProcessClaim j)
  with ex obtain out where "process_claim x e j (s, w) = Ok (out, (s', w'))" by auto
  then show ?thesis using store by (rule process_claim_Ok) simp
next
  case (PlExpirePolicy j)
  with ex have "expire_policy x e j (s, w) = Ok (u, (s', w'))" by simp
  then show ?thesis using store by (rule expire_policy_Ok) simp
qed (use ex in \<open>auto simp: pool_admin_ops\<close>)

text \<open>Any pool whose accounting helpers are a store has the contract of the transaction model.\<close>

lemma pool_invariant:
  assumes "accounting_store x"
  shows "contract_invariant (pool_exec x) (\<lambda>sw. pool_wf x (fst sw))"
proof
  fix s e c r s' assume "pool_wf x (fst s)" "pool_exec x e c s = Ok (r, s')"
  then show "pool_wf x (fst s')"
    using pool_exec_wf [of x e c "fst s" "snd s" r "fst s'" "snd s'"] assms by simp
qed

lemma pool_coverage_invariant:
  assumes "accounting_store x" and "capacity_adds x"
  shows "contract_invariant (pool_exec x) (\<lambda>sw. pool_wf x (fst sw) \<and> coverage_ok x (fst sw))"
proof
  fix s e c r s' assume "pool_wf x (fst s) \<and> coverage_ok x (fst s)" "pool_exec x e c s = Ok (r, s')"
  then show "pool_wf x (fst s') \<and> coverage_ok x (fst s')"
    using pool_exec_wf [of x e c "fst s" "snd s" r "fst s'" "snd s'"]
      pool_exec_coverage [of x e c "fst s" "snd s" r "fst s'" "snd s'"] assms by simp
qed

definition deposited_since :: "address \<Rightarrow> nat \<Rightarrow> nat \<Rightarrow> 'st pool \<Rightarrow> bool" where
  "deposited_since a t0 t s \<longleftrightarrow> t0 \<le> t \<and> (\<exists>d. p_last_deposit s a = Some d \<and> t0 \<le> d)"

lemma pool_deposit_contract:
  assumes "accounting_store x"
  shows "timed_contract (pool_exec x) (\<lambda>_ _. True) (\<lambda>t sw. deposited_since a t0 t (fst sw))"
proof
  fix t t' sw assume "deposited_since a t0 t (fst sw)" "t \<le> t'"
  then show "deposited_since a t0 t' (fst sw)" by (auto simp: deposited_since_def)
next
  fix e sw c r sw' assume "deposited_since a t0 (timestamp e) (fst sw)" "pool_exec x e c sw = Ok (r, sw')"
  then show "deposited_since a t0 (timestamp e) (fst sw')"
    using pool_exec_last_deposit [of x e c "fst sw" "snd sw" r "fst sw'" "snd sw'" a] assms
    by (auto simp: deposited_since_def)
qed

lemma pool_undeployed_ok [simp]: "pool_wf x (pool_undeployed st)" "coverage_ok x (pool_undeployed st)"
  by (simp_all add: pool_wf_def coverage_ok_def pool_fresh_def pool_undeployed_def)

text \<open>The trigger condition of a policy, without the overflow checks of its evaluation.\<close>

definition trigger_met :: "policy \<Rightarrow> int \<Rightarrow> bool" where
  "trigger_met p v =
     (case pol_coverage_type p of
        StablecoinDepeg \<Rightarrow> v < 10000000 - 1000 * pol_trigger_threshold p
      | MarketCrash \<Rightarrow> v < - pol_trigger_threshold p
      | LiquidationShield \<Rightarrow> 0 < v
      | SmartContractRisk \<Rightarrow> 0 < v
      | FlightDelay \<Rightarrow> pol_trigger_threshold p < v)"

lemma trunc_div_exact: "0 < c \<Longrightarrow> trunc_div (a * c) c = a" for a c :: int
  by (simp add: trunc_div_def sgn_mult abs_mult sgn_mult_abs)

lemma claim_triggered_iff:
  "claim_triggered e p data = (Ok True :: (pool_error, bool) outcome) \<Longrightarrow>
   \<exists>d. data = Some d \<and> od_updated_at d \<le> timestamp e \<and> timestamp e < od_updated_at d + 1800 \<and>
     trigger_met p (od_value d)"
proof -
  assume "claim_triggered e p data = (Ok True :: (pool_error, bool) outcome)"
  then obtain d where d: "data = Some d" "od_updated_at d \<le> timestamp e" "timestamp e < od_updated_at d + 1800"
    "claim_value_triggered p d = (Ok True :: (pool_error, bool) outcome)"
    by (auto simp: claim_triggered_def split: option.splits)
  have "trunc_div (pol_trigger_threshold p * 10000000) 10000 = 1000 * pol_trigger_threshold p"
    using trunc_div_exact [of 10000 "1000 * pol_trigger_threshold p"] by (simp add: mult.commute)
  with d show ?thesis
    by (auto simp: claim_value_triggered_def trigger_met_def POOL_PRECISION_def POOL_BPS_def
        split: coverage_type.splits)
qed

section \<open>Properties\<close>

text \<open>
  A concrete choice of the parameters for the witnesses: the accounting record is stored as it
  is, one share per unit of capital, a premium of 10, and a registry that accepts everything.
\<close>

definition pl_ext :: "(pool_accounting, nat) pool_ext" where
  "pl_ext = \<lparr>px_accounting = (\<lambda>a. a), px_save_accounting = (\<lambda>a _. a),
     px_assert_initialized = (\<lambda>s. if p_initialized s = None then Err PlNotInitialized else Ok ()),
     px_require_admin = (\<lambda>e a s. if p_admin s = Some a then Ok () else Err PlUnauthorized),
     px_acquire_guard = (\<lambda>l. if l = None then Ok (Some True) else Err PlReentrancyDetected),
     px_release_guard = (\<lambda>_. None),
     px_calc_shares = (\<lambda>_ n. Ok n), px_quote_withdrawal = (\<lambda>_ n. Ok n),
     px_check_coverage_capacity = (\<lambda>ps n. if 0 \<le> n then Ok (ps_total_coverage ps + n) else Err PlInsufficientCapacity),
     px_calc_premium = (\<lambda>_ _. Ok 10), px_feed_symbol = (\<lambda>_. ''USDC''),
     px_to_registry_coverage_type = (\<lambda>_. MirrorStablecoinDepeg),
     px_deactivate_in_registry = (\<lambda>_ _ _ w. w), px_release_in_backstop = (\<lambda>_ _ _ w. w),
     px_transfer = (\<lambda>w _ _ _ _. Some (w + 1)), px_callee = (\<lambda>e w a f args. (CallOk (VU64 0), w))\<rparr>"

definition pl_env :: "nat \<Rightarrow> env" where
  "pl_env t = \<lparr>timestamp = t, ledger_seq = 0, auth = (\<lambda>_. True), this = 99\<rparr>"

definition pl_params :: policy_params where
  "pl_params = \<lparr>pm_coverage_amount = 500, pm_coverage_type = StablecoinDepeg, pm_duration_days = 30,
     pm_trigger_threshold = 500\<rparr>"

definition pl_txs :: "(env \<times> pool_call) list" where
  "pl_txs = [(pl_env 10, PlInitialize 1 5 6), (pl_env 20, PlProvideCapital 2 1000),
     (pl_env 30, PlBuyPolicy 3 pl_params), (pl_env 40, PlUpdateOracle 1 StablecoinDepeg 9000000)]"

definition pl_accounting0 :: pool_accounting where
  "pl_accounting0 = \<lparr>total_capital = 0, total_coverage = 0, total_premiums = 0, total_shares = 0, next_policy_id = 0\<rparr>"

definition pl_state :: "pool_accounting pool" where
  "pl_state = \<lparr>p_admin = Some 1, p_usdc_token = Some 5, p_policy_registry = Some 6,
     p_accounting = \<lparr>total_capital = 1010, total_coverage = 500, total_premiums = 10, total_shares = 1000,
       next_policy_id = 1\<rparr>,
     p_shares = [2 \<mapsto> 1000], p_policy = [0 \<mapsto> new_policy 0 3 pl_params 10 30 2592030],
     p_user_policies = [3 \<mapsto> [0]],
     p_pool_config = Some \<lparr>base_premium_rate_bps = 300, max_utilization_bps = 8000,
       min_coverage = 100000000, max_coverage = 50000000000, lockup_days = 7\<rparr>,
     p_initialized = Some True,
     p_oracle_data = [StablecoinDepeg \<mapsto> \<lparr>od_value = 9000000, od_updated_at = 40\<rparr>],
     p_last_deposit = [2 \<mapsto> 20], p_reentrancy_lock = None, p_backstop = None\<rparr>"

lemmas pl_core_defs = pl_ext_def pl_env_def acquire_guard_def release_guard_def put_accounting_def
  get_accounting_def pool_state_load_def require_auth_def ok_or_def token_transfer_def
  i128_add_def i128_sub_def i128_checked_def int_width_defs u64_add_def u64_sub_def u64_max_def Let_def

lemma pl_ext_ok: "accounting_store pl_ext" "capacity_adds pl_ext"
  by (auto simp: accounting_store_def capacity_adds_def pl_ext_def)

lemma pl_run: "run_txs (pool_exec pl_ext) pl_txs (pool_undeployed pl_accounting0, 0) = (pl_state, 2)"
  by (simp add: pl_txs_def pl_state_def pl_accounting0_def pool_undeployed_def on_pool_def discard_def
      pool_initialize_def provide_capital_def buy_policy_def update_oracle_def backstop_check_def
      invoke_contract_def expect_u64_def new_policy_def pl_params_def u64_sat_add_def u64_sat_mul_def
      pl_core_defs del: and_then_Ok_iff and_then_Err_iff and_then_Trap_iff acquire_guard_Ok acct_simps)

lemma pl_state_fields:
  "total_coverage (px_accounting pl_ext (p_accounting pl_state)) = 500"
  "total_shares (px_accounting pl_ext (p_accounting pl_state)) = 1000"
  "next_policy_id (px_accounting pl_ext (p_accounting pl_state)) = 1" "p_initialized pl_state \<noteq> None"
  by (simp_all add: pl_ext_def pl_state_def)

lemma pl_claim:
  "\<exists>s'. process_claim pl_ext (pl_env 100) 0 (pl_state, 2) = Ok (500, (s', 3)) \<and>
     p_policy s' 0 = Some ((new_policy 0 3 pl_params 10 30 2592030)\<lparr>pol_status := PolClaimed, pol_payout_at := Some 100\<rparr>)"
  by (simp add: process_claim_def claim_triggered_def claim_value_triggered_def pl_state_def new_policy_def
      pl_params_def POOL_PRECISION_def POOL_BPS_def i128_mul_def i128_div_def pl_core_defs
      del: and_then_Ok_iff and_then_Err_iff and_then_Trap_iff acquire_guard_Ok acct_simps)

text \<open>C5. A policy is settled at most once: after it has been claimed or has expired, no sequence of
transactions changes any field of its record, whatever the pool's helpers and the other
contracts do (as long as the accounting helpers read back what they stored).\<close>

theorem policy_settled_once:
  assumes "accounting_store x"
    and "p_policy (fst (run_txs (pool_exec x) txs (pool_undeployed st, w))) i = Some p"
    and "pol_status p \<in> {PolClaimed, PolExpired}"
  shows "p_policy (fst (run_txs (pool_exec x) (txs @ later) (pool_undeployed st, w))) i = Some p"
proof -
  have wf: "pool_wf x (fst (run_txs (pool_exec x) txs (pool_undeployed st, w)))"
    by (rule contract_invariant.run_keeps [OF pool_invariant [OF assms(1)]]) simp
  have "contract_invariant (pool_exec x) (\<lambda>sw. pool_wf x (fst sw) \<and> p_policy (fst sw) i = Some p)"
  proof
    fix s e c r s' assume "pool_wf x (fst s) \<and> p_policy (fst s) i = Some p" "pool_exec x e c s = Ok (r, s')"
    then show "pool_wf x (fst s') \<and> p_policy (fst s') i = Some p"
      using pool_exec_wf [of x e c "fst s" "snd s" r "fst s'" "snd s'"] assms(1,3)
        pool_exec_frozen [of x e c "fst s" "snd s" r "fst s'" "snd s'" i p] by auto
  qed
  from contract_invariant.run_keeps [OF this, of "run_txs (pool_exec x) txs (pool_undeployed st, w)" later] wf assms(2)
  show ?thesis by (simp add: run_txs_append)
qed

lemma pl_claimed_run:
  "p_policy (fst (run_txs (pool_exec pl_ext) (pl_txs @ [(pl_env 100, PlProcessClaim 0)])
     (pool_undeployed pl_accounting0, 0))) 0 =
   Some ((new_policy 0 3 pl_params 10 30 2592030)\<lparr>pol_status := PolClaimed, pol_payout_at := Some 100\<rparr>)"
  using pl_claim by (auto simp: run_txs_append pl_run discard_def)

theorem policy_settled_once_witness:
  "p_policy (fst (run_txs (pool_exec pl_ext) ((pl_txs @ [(pl_env 100, PlProcessClaim 0)]) @ [(pl_env 101, PlProcessClaim 0)])
     (pool_undeployed pl_accounting0, 0))) 0 =
   Some ((new_policy 0 3 pl_params 10 30 2592030)\<lparr>pol_status := PolClaimed, pol_payout_at := Some 100\<rparr>)"
  by (rule policy_settled_once [OF pl_ext_ok(1) pl_claimed_run]) simp

text \<open>C6. \<open>process_claim\<close> pays only a stored, active policy whose term has not ended, on an oracle
value written at most 30 minutes ago that meets the policy's trigger condition; it pays exactly
the coverage amount to the holder, and marks the policy as claimed at the current time.\<close>

theorem claim_paid_on_trigger:
  assumes "process_claim x e i (s, w) = Ok (payout, (s', w'))" and "accounting_store x"
  shows "\<exists>p d usdc w1. p_policy s i = Some p \<and> pol_status p = PolActive \<and> timestamp e \<le> pol_end_time p \<and>
    p_oracle_data s (pol_coverage_type p) = Some d \<and>
    od_updated_at d \<le> timestamp e \<and> timestamp e < od_updated_at d + 1800 \<and> trigger_met p (od_value d) \<and>
    payout = pol_coverage_amount p \<and> p_usdc_token s = Some usdc \<and>
    px_transfer x w usdc (this e) (pol_holder p) payout = Some w1 \<and>
    p_policy s' i = Some (p\<lparr>pol_status := PolClaimed, pol_payout_at := Some (timestamp e)\<rparr>) \<and>
    (\<forall>j. j \<noteq> i \<longrightarrow> p_policy s' j = p_policy s j) \<and> p_shares s' = p_shares s"
  using assms
proof (rule process_claim_Ok)
  fix p
  assume p: "p_policy s i = Some p" "pol_status p = PolActive" "timestamp e \<le> pol_end_time p"
    "claim_triggered e p (p_oracle_data s (pol_coverage_type p)) = (Ok True :: (pool_error, bool) outcome)"
    "payout = pol_coverage_amount p" "p_usdc_token s \<noteq> None" "p_shares s' = p_shares s"
    "p_policy s' = (p_policy s)(i \<mapsto> p\<lparr>pol_status := PolClaimed, pol_payout_at := Some (timestamp e)\<rparr>)"
    "\<exists>w1. px_transfer x w (the (p_usdc_token s)) (this e) (pol_holder p) payout = Some w1"
  from claim_triggered_iff [OF p(4)] p show ?thesis
    by (intro exI [of _ p]) (auto split: option.splits)
qed

theorem claim_paid_on_trigger_witness:
  "\<exists>p d. p_policy pl_state 0 = Some p \<and> p_oracle_data pl_state (pol_coverage_type p) = Some d \<and>
     timestamp (pl_env 100) < od_updated_at d + 1800 \<and> trigger_met p (od_value d) \<and> 500 = pol_coverage_amount p"
proof -
  obtain s' where "process_claim pl_ext (pl_env 100) 0 (pl_state, 2) = Ok (500, (s', 3))" using pl_claim by blast
  from claim_paid_on_trigger [OF this pl_ext_ok(1)] show ?thesis by blast
qed

text \<open>C7. The recorded total coverage is exact: when the capacity check returns the old total plus
a non-negative amount, after any history of an initialized pool the total coverage is the sum of
the coverage amounts of the policies that are still active, so that the clamping at zero in
\<open>process_claim\<close> and \<open>expire_policy\<close> never hides a difference.\<close>

theorem coverage_is_active_sum:
  assumes "accounting_store x" and "capacity_adds x"
    and "run_txs (pool_exec x) txs (pool_undeployed st, w0) = (s, w)" and "p_initialized s \<noteq> None"
  shows "total_coverage (px_accounting x (p_accounting s)) =
    (\<Sum>i<next_policy_id (px_accounting x (p_accounting s)). active_amount (p_policy s i)) \<and>
    (\<forall>i p. p_policy s i = Some p \<longrightarrow> i < next_policy_id (px_accounting x (p_accounting s)))"
proof -
  have "pool_wf x (fst (run_txs (pool_exec x) txs (pool_undeployed st, w0))) \<and>
      coverage_ok x (fst (run_txs (pool_exec x) txs (pool_undeployed st, w0)))"
    by (rule contract_invariant.run_keeps [OF pool_coverage_invariant [OF assms(1,2)]]) simp
  with assms(3,4) show ?thesis by (auto simp: pool_wf_def coverage_ok_def pool_fresh_def acct_def)
qed

theorem coverage_is_active_sum_witness:
  "(500::int) = (\<Sum>i<1. active_amount (p_policy pl_state i))"
  using coverage_is_active_sum [OF pl_ext_ok pl_run pl_state_fields(4)]
  unfolding pl_state_fields by blast

text \<open>C8. The recorded total of shares is exact: after any history of an initialized pool it is the
sum of the shares of all providers, whatever share price the pricing helper sets.\<close>

theorem shares_add_up:
  assumes "accounting_store x"
    and "run_txs (pool_exec x) txs (pool_undeployed st, w0) = (s, w)" and "p_initialized s \<noteq> None"
  shows "finite (dom (p_shares s)) \<and>
    total_shares (px_accounting x (p_accounting s)) = (\<Sum>a\<in>dom (p_shares s). unwrap_or (p_shares s a) 0)"
proof -
  have "pool_wf x (fst (run_txs (pool_exec x) txs (pool_undeployed st, w0)))"
    by (rule contract_invariant.run_keeps [OF pool_invariant [OF assms(1)]]) simp
  with assms(2,3) show ?thesis by (auto simp: pool_wf_def pool_fresh_def acct_def share_sum_def)
qed

theorem shares_add_up_witness:
  "(1000::int) = (\<Sum>a\<in>dom (p_shares pl_state). unwrap_or (p_shares pl_state a) 0)"
  using shares_add_up [OF pl_ext_ok(1) pl_run pl_state_fields(4)] unfolding pl_state_fields by blast

text \<open>Deposits are locked: a withdrawal that succeeds happens, for every earlier accepted deposit
of the same provider, at least the lock-up period configured at that moment after the deposit;
it burns no more shares than the provider has and pays what the withdrawal quote gives.\<close>

theorem withdrawal_after_lockup:
  assumes "accounting_store x"
    and "provide_capital x e1 provider amount (s, w) = Ok (minted, (s1, w1))"
    and "chronological (timestamp e1) (mid @ [(e2, PlWithdrawCapital provider shares)])"
    and "run_txs (pool_exec x) mid (s1, w1) = (s2, w2)"
    and "withdraw_capital x e2 provider shares (s2, w2) = Ok (out, (s3, w3))"
  shows "u64_sat_add (timestamp e1) (u64_sat_mul (lockup_days (ps_config (pool_state_load x s2))) 86400) \<le> timestamp e2 \<and>
    0 < shares \<and> shares \<le> unwrap_or (p_shares s2 provider) 0 \<and>
    px_quote_withdrawal x (pool_state_load x s2) shares = Ok out"
proof -
  have "deposited_since provider (timestamp e1) (timestamp e1) (fst (s1, w1))"
    using provide_capital_Ok [OF assms(2,1)] by (auto simp only: deposited_since_def fst_conv fun_upd_same)
  then have "deposited_since provider (timestamp e1) (end_time (timestamp e1) mid)
      (fst (run_txs (pool_exec x) mid (s1, w1)))"
    by (rule timed_contract.run_inv [OF pool_deposit_contract [OF assms(1)]])
      (use assms(3) in \<open>simp_all add: chronological_append\<close>)
  then obtain d where d: "p_last_deposit s2 provider = Some d" "timestamp e1 \<le> d"
    unfolding deposited_since_def assms(4) fst_conv by blast
  let ?L = "u64_sat_mul (lockup_days (ps_config (pool_state_load x s2))) 86400"
  have "\<not> lockup_active e2 (pool_state_load x s2) (p_last_deposit s2 provider)"
    using withdraw_capital_Ok [OF assms(5,1)] by blast
  then have "u64_sat_add d ?L \<le> timestamp e2" using d(1) by (simp add: lockup_active_def Let_def not_less)
  moreover have "u64_sat_add (timestamp e1) ?L \<le> u64_sat_add d ?L"
    using d(2) by (simp add: u64_sat_add_def)
  ultimately show ?thesis using withdraw_capital_Ok [OF assms(5,1)] by simp
qed

lemma pl_withdraw:
  "\<exists>s3. withdraw_capital pl_ext (pl_env 604820) 2 400 (pl_state, 2) = Ok (400, (s3, 3))"
  by (simp add: withdraw_capital_def lockup_active_def pl_state_def u64_sat_add_def u64_sat_mul_def
      pl_core_defs del: and_then_Ok_iff and_then_Err_iff and_then_Trap_iff acquire_guard_Ok acct_simps)

lemma pl_provide:
  "\<exists>s0 s1. provide_capital pl_ext (pl_env 20) 2 1000 (s0, 0) = Ok (1000, (s1, 1)) \<and>
     run_txs (pool_exec pl_ext) (drop 2 pl_txs) (s1, 1) = (pl_state, 2)"
  by (rule exI [of _ "fst (run_txs (pool_exec pl_ext) (take 1 pl_txs) (pool_undeployed pl_accounting0, 0))"])
    (simp add: pl_txs_def pl_state_def pl_accounting0_def pool_undeployed_def on_pool_def discard_def
      pool_initialize_def provide_capital_def buy_policy_def update_oracle_def backstop_check_def
      invoke_contract_def expect_u64_def new_policy_def pl_params_def u64_sat_add_def u64_sat_mul_def
      pl_core_defs del: and_then_Ok_iff and_then_Err_iff and_then_Trap_iff acquire_guard_Ok acct_simps)

theorem withdrawal_after_lockup_witness:
  "u64_sat_add (timestamp (pl_env 20)) (u64_sat_mul (lockup_days (ps_config (pool_state_load pl_ext pl_state))) 86400)
     \<le> timestamp (pl_env 604820)"
proof -
  obtain s0 s1 where p: "provide_capital pl_ext (pl_env 20) 2 1000 (s0, 0) = Ok (1000, (s1, 1))"
    "run_txs (pool_exec pl_ext) (drop 2 pl_txs) (s1, 1) = (pl_state, 2)" using pl_provide by blast
  obtain s3 where w: "withdraw_capital pl_ext (pl_env 604820) 2 400 (pl_state, 2) = Ok (400, (s3, 3))"
    using pl_withdraw by blast
  have "chronological (timestamp (pl_env 20)) (drop 2 pl_txs @ [(pl_env 604820, PlWithdrawCapital 2 400)])"
    by (simp add: pl_txs_def pl_env_def)
  from withdrawal_after_lockup [OF pl_ext_ok(1) p(1) this p(2) w] show ?thesis by blast
qed

end
