(* ===== verification/Wiring.thy ===== *)
theory Wiring
  imports Timelock Governance Policy_Registry Pool
begin

text \<open>
  How the contracts are deployed against each other.  In a component theory the contracts it
  calls are an arbitrary \<open>callee\<close>; here that parameter is the model of the contract that is
  really there: the governor queues its proposals in the timelock, and the pool registers
  its policies in the policy registry.

  \<open>link addr entry rest\<close> puts a contract at an address: calls to \<open>addr\<close> run its entry points on its
  own storage, in the environment the host gives a callee (\<open>call_env\<close>); every other call goes to
  \<open>rest\<close> and cannot touch that storage.  \<open>timelock_entry\<close> and \<open>registry_entry\<close> are the entry points
  the callers use, with the conversion of their arguments from contract values
  (\<open>registration_of_val\<close>) and the numbers of their errors.

  The lemmas give the round trip of a registration through the call, and what a registry or a
  timelock keeps of an entry whatever happens later.
\<close>

section \<open>Calling a modelled contract\<close>

text \<open>A callee sees its own address; its invoker counts as authorized, beside the signers.\<close>

definition call_env :: "env \<Rightarrow> address \<Rightarrow> env" where
  "call_env e a = e\<lparr>auth := (\<lambda>b. b = this e \<or> auth e b), this := a\<rparr>"

definition link ::
  "address \<Rightarrow> (env \<Rightarrow> symbol \<Rightarrow> val list \<Rightarrow> 's \<Rightarrow> call_result \<times> 's) \<Rightarrow> 'w callee \<Rightarrow> ('s \<times> 'w) callee" where
  "link addr entry rest e sw a f args =
     (if a = addr
      then case entry (call_env e addr) f args (fst sw) of (r, s) \<Rightarrow> (r, (s, snd sw))
      else case rest e (snd sw) a f args of (r, w) \<Rightarrow> (r, (fst sw, w)))"

definition answer :: "('e \<Rightarrow> nat) \<Rightarrow> ('a \<Rightarrow> val) \<Rightarrow> 's \<Rightarrow> ('e, 'a \<times> 's) outcome \<Rightarrow> call_result \<times> 's" where
  "answer code enc s r =
     (case r of
        Ok (v, s') \<Rightarrow> (CallOk (enc v), s')
      | Err e \<Rightarrow> (CallRawErr (InvokeContract (code e)), s)
      | Trap \<Rightarrow> (CallRawErr InvokeAbort, s))"

lemma answer_Ok [simp]:
  "answer code enc s r = (CallOk v, s') \<longleftrightarrow> (\<exists>a. r = Ok (a, s') \<and> v = enc a)"
  by (auto simp: answer_def split: outcome.splits)

lemma answer_of_Ok [simp]: "answer code enc s (Ok (a, s')) = (CallOk (enc a), s')"
  by (simp add: answer_def)

lemma call_env_fields [simp]:
  "timestamp (call_env e a) = timestamp e" "auth (call_env e a) b \<longleftrightarrow> b = this e \<or> auth e b"
  "this (call_env e a) = a"
  by (simp_all add: call_env_def)

lemma link_Ok:
  assumes "link addr entry rest e (s, w) a f args = (r, (s', w'))"
  shows "a = addr \<Longrightarrow> entry (call_env e addr) f args s = (r, s') \<and> w' = w"
    and "a \<noteq> addr \<Longrightarrow> s' = s \<and> rest e w a f args = (r, w')"
  using assms by (auto simp: link_def split: prod.splits)

section \<open>The timelock behind the governor\<close>

primrec timelock_error_code :: "timelock_error \<Rightarrow> nat" where
  "timelock_error_code TlAlreadyInitialized = 1"
| "timelock_error_code TlNotInitialized = 2"
| "timelock_error_code TlUnauthorized = 3"
| "timelock_error_code TlEtaTooSoon = 4"
| "timelock_error_code TlNotFound = 5"
| "timelock_error_code TlNotReady = 6"
| "timelock_error_code TlAlreadyDone = 7"
| "timelock_error_code TlInvalidKeeperConfig = 8"
| "timelock_error_code TlKeeperRewardExceeded = 9"
| "timelock_error_code TlOverflow = 10"
| "timelock_error_code TlNotFailed = 11"
| "timelock_error_code TlRetryTooSoon = 12"

fun queue_args :: "val list \<Rightarrow> (address \<times> symbol \<times> val list \<times> nat) option" where
  "queue_args [VAddr target, VSym func, VVec args, VU64 eta] = Some (target, func, args, eta)"
| "queue_args _ = None"

definition timelock_entry :: "env \<Rightarrow> symbol \<Rightarrow> val list \<Rightarrow> timelock \<Rightarrow> call_result \<times> timelock" where
  "timelock_entry e f args s =
     (case (if f = ''queue'' then queue_args args else None) of
        Some (target, func, as, eta) \<Rightarrow>
          answer timelock_error_code VU64 s (timelock_queue e target func as eta s)
      | None \<Rightarrow> (CallRawErr InvokeAbort, s))"

lemma timelock_entry_queue:
  "timelock_entry e ''queue'' [VAddr a, VSym f, VVec args, VU64 eta] s = (CallOk v, s') \<longleftrightarrow>
     (\<exists>i. timelock_queue e a f args eta s = Ok (i, s') \<and> v = VU64 i)"
  by (simp add: timelock_entry_def)

text \<open>The call and the eta of a stored operation outlast every later transaction.\<close>

definition holds_operation :: "nat \<Rightarrow> address \<times> symbol \<times> val list \<Rightarrow> nat \<Rightarrow> timelock \<Rightarrow> bool" where
  "holds_operation i c eta s \<longleftrightarrow> timelock_wf s \<and>
     (\<exists>op. tl_operation s i = Some op \<and> op_call op = c \<and> op_eta op = eta)"

interpretation kept: contract_invariant "timelock_exec callee" "\<lambda>sw. holds_operation i c eta (fst sw)"
  for callee :: "'w callee" and i c eta
proof
  fix s e k r s' assume "holds_operation i c eta (fst s)" "timelock_exec callee e k s = Ok (r, s')"
  then show "holds_operation i c eta (fst s')"
    using exec_transition [of callee e k "fst s" "snd s" r "fst s'" "snd s'" i]
      timelock_exec_wf [of callee e k "fst s" "snd s" r "fst s'" "snd s'"]
    by (fastforce simp: holds_operation_def dest: op_transition_frame)
qed

lemma timelock_queue_holds:
  assumes "timelock_queue e a f args eta s = Ok (i, s')" and "timelock_wf s"
  shows "holds_operation i (a, f, args) eta s'"
proof -
  have "timelock_wf s'"
    using timelock_exec_wf [of "\<lambda>_ w _ _ _. (CallOk VVoid, w)" e "TlQueue a f args eta" s "()" "()" s' "()"] assms
    by (simp add: on_timelock_def)
  then show ?thesis using timelock_queue_Ok(1,2) [OF assms(1)]
    by (simp add: holds_operation_def op_call_def timelock_new_operation_def)
qed

section \<open>The registry behind the pool\<close>

primrec registry_error_code :: "registry_error \<Rightarrow> nat" where
  "registry_error_code RegAlreadyInitialized = 1"
| "registry_error_code RegNotInitialized = 2"
| "registry_error_code RegUnauthorized = 3"
| "registry_error_code RegPolicyNotFound = 4"
| "registry_error_code RegPolicyAlreadyExists = 5"
| "registry_error_code RegNoPendingPoolContract = 6"
| "registry_error_code RegPoolContractChangeNotReady = 7"
| "registry_error_code RegNoPendingAdmin = 8"

definition registry_coverage_of_code :: "nat \<Rightarrow> registry_coverage_type option" where
  "registry_coverage_of_code n =
     (if n = 0 then Some RegStablecoinDepeg
      else if n = 1 then Some RegMarketCrash
      else if n = 2 then Some RegLiquidationShield
      else if n = 3 then Some RegSmartContractRisk
      else if n = 4 then Some RegFlightDelay
      else None)"

text \<open>The conversion of a contract value to the registry's \<open>PolicyRegistration\<close>, by field name.\<close>

definition registration_of_val :: "val \<Rightarrow> policy_registration option" where
  "registration_of_val v =
     (case v of
        VMap m \<Rightarrow>
          (case (map_of m ''policy_id'', map_of m ''holder'', map_of m ''coverage_type'',
                 map_of m ''coverage_amount'', map_of m ''premium'', map_of m ''expires_at'') of
             (Some (VU64 i), Some (VAddr h), Some (VU32 ct), Some (VI128 amount), Some (VI128 premium),
              Some (VU64 t)) \<Rightarrow>
               map_option (\<lambda>ct. \<lparr>reg_policy_id = i, reg_holder = h, reg_coverage_type = ct,
                 reg_coverage_amount = amount, reg_premium = premium, reg_expires_at = t\<rparr>)
                 (registry_coverage_of_code ct)
           | _ \<Rightarrow> None)
      | _ \<Rightarrow> None)"

fun register_args :: "val list \<Rightarrow> (address \<times> policy_registration) option" where
  "register_args [VAddr caller, v] = map_option (Pair caller) (registration_of_val v)"
| "register_args _ = None"

definition registry_entry :: "env \<Rightarrow> symbol \<Rightarrow> val list \<Rightarrow> registry \<Rightarrow> call_result \<times> registry" where
  "registry_entry e f args s =
     (case (if f = ''register_policy'' then register_args args else None) of
        Some (caller, reg) \<Rightarrow> answer registry_error_code VU64 s (register_policy e caller reg s)
      | None \<Rightarrow> (CallRawErr InvokeAbort, s))"

text \<open>The registry reads back the registration the pool sent.\<close>

primrec mirrored :: "mirror_coverage_type \<Rightarrow> registry_coverage_type" where
  "mirrored MirrorStablecoinDepeg = RegStablecoinDepeg"
| "mirrored MirrorMarketCrash = RegMarketCrash"
| "mirrored MirrorLiquidationShield = RegLiquidationShield"
| "mirrored MirrorSmartContractRisk = RegSmartContractRisk"
| "mirrored MirrorFlightDelay = RegFlightDelay"

definition mirrored_registration :: "pool_registration \<Rightarrow> policy_registration" where
  "mirrored_registration r = \<lparr>reg_policy_id = pr_policy_id r, reg_holder = pr_holder r,
     reg_coverage_type = mirrored (pr_coverage_type r), reg_coverage_amount = pr_coverage_amount r,
     reg_premium = pr_premium r, reg_expires_at = pr_expires_at r\<rparr>"

lemma registry_coverage_of_mirror [simp]:
  "registry_coverage_of_code (mirror_coverage_code ct) = Some (mirrored ct)"
  by (cases ct) (simp_all add: registry_coverage_of_code_def)

lemma registration_roundtrip [simp]:
  "registration_of_val (registration_val r) = Some (mirrored_registration r)"
  by (simp add: registration_of_val_def registration_val_def mirrored_registration_def)

lemma registry_entry_register:
  "registry_entry e ''register_policy'' [VAddr c, registration_val r] s = (CallOk v, s') \<longleftrightarrow>
     (\<exists>i. register_policy e c (mirrored_registration r) s = Ok (i, s') \<and> v = VU64 i)"
  by (simp add: registry_entry_def)

text \<open>A record stays in the registry with all its data; only its active flag may change.\<close>

definition holds_record :: "policy_record \<Rightarrow> registry \<Rightarrow> bool" where
  "holds_record rc s \<longleftrightarrow>
     (\<exists>b. r_policy s (rec_policy_id rc) = Some (rc\<lparr>rec_is_active := b\<rparr>)) \<and>
     rec_policy_id rc \<in> set (get_holder_policy_ids s (rec_holder rc))"

lemma flag_exists: "\<exists>b. rc\<lparr>rec_is_active := c\<rparr> = rc\<lparr>rec_is_active := b\<rparr>"
  by blast

lemma registry_exec_holds:
  assumes "registry_exec e c s = Ok (u, s')" and "holds_record rc s"
  shows "holds_record rc s'"
proof (cases c)
  case (RegRegister caller reg)
  with assms(1) obtain i where "register_policy e caller reg s = Ok (i, s')" by auto
  from register_policy_OkD [OF this] assms(2) show ?thesis
    by (auto simp: holds_record_def get_holder_policy_ids_def)
next
  case (RegDeactivate caller i)
  with assms(1) have "deactivate_policy e caller i s = Ok (u, s')" by simp
  then show ?thesis
    by (cases rule: deactivate_policy_OkD)
      (use assms(2) in \<open>auto simp: holds_record_def get_holder_policy_ids_def flag_exists\<close>)
qed (use assms in \<open>auto simp: registry_admin_ops registry_initialize_def holds_record_def
       get_holder_policy_ids_def split: if_splits\<close>)

interpretation indexed: contract_invariant registry_exec "holds_record rc" for rc
  by unfold_locales (rule registry_exec_holds)

section \<open>A purchase, seen from the registry\<close>

lemma backstop_check_keeps_registry:
  assumes "backstop_check x e s f args (r, w) = Ok (r', w')"
    and "px_callee x = link reg registry_entry rest" and "f \<noteq> ''register_policy''"
  shows "r' = r"
proof -
  have "link reg registry_entry rest e (r, w) b f args = (c, (r1, w1)) \<Longrightarrow> call_ok c \<Longrightarrow> r1 = r" for b c r1 w1
    using assms(3) by (auto simp: link_def registry_entry_def split: prod.splits if_splits)
  then show ?thesis using assms(1,2)
    by (auto simp: backstop_check_def try_invoke_def split: option.splits prod.splits if_splits)
qed


text \<open>The token contract moves balances, not policy records.\<close>

definition transfers_keep_registry :: "('st, registry \<times> 'w) pool_ext \<Rightarrow> bool" where
  "transfers_keep_registry x \<longleftrightarrow>
     (\<forall>w tok a b n w'. px_transfer x w tok a b n = Some w' \<longrightarrow> fst w' = fst w)"

definition purchase_registration ::
  "('st, 'w) pool_ext \<Rightarrow> env \<Rightarrow> nat \<Rightarrow> address \<Rightarrow> policy_params \<Rightarrow> int \<Rightarrow> pool_registration" where
  "purchase_registration x e i holder params premium =
     \<lparr>pr_policy_id = i, pr_holder = holder,
      pr_coverage_type = px_to_registry_coverage_type x (pm_coverage_type params),
      pr_coverage_amount = pm_coverage_amount params, pr_premium = premium,
      pr_expires_at = u64_sat_add (timestamp e) (u64_sat_mul (pm_duration_days params) 86400)\<rparr>"

lemma buy_policy_registry_call:
  assumes "buy_policy x e a pm (s, (r, w)) = Ok (i, (s', (r', w')))"
    and "px_callee x = link reg registry_entry rest" and "p_policy_registry s = Some reg"
    and "transfers_keep_registry x"
  obtains premium v w1 w2 where "px_calc_premium x (ps_config (pool_state_load x s)) pm = Ok premium"
    "link reg registry_entry rest e (r, w1) reg ''register_policy''
       [VAddr (this e), registration_val (purchase_registration x e i a pm premium)] = (CallOk v, (r', w2))"
proof -
  have state: "pool_state_load x (s\<lparr>p_reentrancy_lock := l\<rparr>) = pool_state_load x s" for l
    by (simp add: pool_state_load_def)
  from assms(1) obtain l rw1 premium rw2 v rw3 s2 where
    check: "backstop_check x e (s\<lparr>p_reentrancy_lock := l\<rparr>) ''check_exposure_caps''
       [VAddr a, VSym (px_feed_symbol x (pm_coverage_type pm)), VI128 (pm_coverage_amount pm)] (r, w) = Ok rw1"
    and prem: "px_calc_premium x (ps_config (pool_state_load x s)) pm = Ok premium"
    and pay: "px_transfer x rw1 (the (p_usdc_token s)) a (this e) premium = Some rw2"
    and call: "px_callee x e rw2 reg ''register_policy''
       [VAddr (this e), registration_val (purchase_registration x e i a pm premium)] = (CallOk v, rw3)"
    and recorded: "backstop_check x e s2 ''record_policy_exposure'' [VAddr (this e), VU64 i, VAddr a,
       VSym (px_feed_symbol x (pm_coverage_type pm)), VI128 (pm_coverage_amount pm)] rw3 = Ok (r', w')"
    unfolding buy_policy_def Let_def purchase_registration_def
    by (clarsimp simp: state assms(3))
  obtain r1 w1 r2 w2 r3 w3 where rw: "rw1 = (r1, w1)" "rw2 = (r2, w2)" "rw3 = (r3, w3)"
    by (cases rw1, cases rw2, cases rw3) blast
  have "r1 = r" using backstop_check_keeps_registry [OF check [unfolded rw] assms(2)] by simp
  moreover have "r' = r3" using backstop_check_keeps_registry [OF recorded [unfolded rw] assms(2)] by simp
  moreover have "r2 = r1" using pay assms(4) rw(1,2) unfolding transfers_keep_registry_def by fastforce
  ultimately show thesis using that [OF prem] call unfolding rw assms(2) by blast
qed

end
