(* ===== verification/Treasury.thy ===== *)
theory Treasury
  imports Math
begin

text \<open>
  The treasury contract (\<open>src/treasury/src/lib.rs\<close> with the request types of
  \<open>src/treasury/src/payments.rs\<close>): screened withdrawals, the recipient allowlist, asset feeds and
  NAV snapshots, seeding and recall of backstop capital, and the payment-request workflow.

  The state is the record \<open>treasury\<close>, one field per storage key.  The token contracts are the
  parameters \<open>transfer\<close> and \<open>balance_of\<close>, and the oracle is the parameter \<open>callee\<close>, all over the
  state \<open>'w\<close> of the other contracts.  The source declares the name \<open>TreasuryError\<close> in both files;
  \<open>treasury_error\<close> has the variants of both.

  The lemmas show the life cycle of a payment request (\<open>request_step\<close>), that a paid request
  was approved by an admin who is not the requester and is paid once, that withdrawals only reach
  allowlisted recipients, that the seeded capital is what was seeded less what was recalled, and
  what a NAV snapshot holds.
\<close>

section \<open>State\<close>

definition PRICE_SCALE :: int where "PRICE_SCALE = 10000000"

datatype treasury_error =
    TrAlreadyInitialized | TrNotInitialized | TrUnauthorized | TrInvalidAmount
  | TrInsufficientBalance | TrRecipientNotAllowed | TrOracleNotConfigured | TrFeedNotRegistered
  | TrStalePriceData | TrOverflow | TrBackstopNotConfigured | TrRecallExceedsSeed
  | TrFeedAlreadyRegistered | TrRequestNotFound | TrInvalidState | TrSelfApproval | TrNotRequester
  | TrNotAdmin | TrReentrancyDetected

datatype screening_status = ScrAllowed | ScrBlocked

record asset_nav =
  an_token :: address
  an_balance :: int
  an_price :: int
  an_nav :: int
  an_price_timestamp :: nat

record nav_snapshot =
  ns_ledger :: nat
  ns_timestamp :: nat
  ns_total_nav :: int
  ns_assets :: "asset_nav list"

datatype payment_status = PaySubmitted | PayApproved | PayRejected | PayCancelled | PayExecuted

record payment_request =
  pq_id :: nat
  pq_requester :: address
  pq_payee :: address
  pq_token :: address
  pq_amount :: int
  pq_purpose_hash :: string
  pq_status :: payment_status
  pq_approver :: "address option"
  pq_created_at :: nat

record treasury =
  t_admin :: "address option"
  t_oracle :: "address option"
  t_backstop :: "address option"
  t_seeded_capital :: "int option"
  t_latest_snapshot :: "nav_snapshot option"
  t_recipient_status :: "address \<rightharpoonup> screening_status"
  t_asset_feed :: "address \<rightharpoonup> symbol"
  t_tracked_assets :: "address list option"
  t_next_request_id :: "nat option"
  t_request :: "nat \<rightharpoonup> payment_request"
  t_reentrancy_lock :: "bool option"

type_synonym 'w tr_system = "treasury \<times> 'w"

definition treasury_undeployed :: treasury where
  "treasury_undeployed = \<lparr>t_admin = None, t_oracle = None, t_backstop = None, t_seeded_capital = None,
     t_latest_snapshot = None, t_recipient_status = (\<lambda>_. None), t_asset_feed = (\<lambda>_. None),
     t_tracked_assets = None, t_next_request_id = None, t_request = (\<lambda>_. None), t_reentrancy_lock = None\<rparr>"

section \<open>Helpers\<close>

definition treasury_acquire_guard :: "treasury \<Rightarrow> (treasury_error, treasury) outcome" where
  "treasury_acquire_guard s =
     (if t_reentrancy_lock s \<noteq> None then Err TrReentrancyDetected
      else Ok (s\<lparr>t_reentrancy_lock := Some True\<rparr>))"

definition treasury_release_guard :: "treasury \<Rightarrow> treasury" where
  "treasury_release_guard s = s\<lparr>t_reentrancy_lock := None\<rparr>"

definition treasury_require_admin :: "env \<Rightarrow> address \<Rightarrow> treasury \<Rightarrow> (treasury_error, unit) outcome" where
  "treasury_require_admin e caller s =
     and_then (require_auth e caller) (\<lambda>_.
     and_then (ok_or (t_admin s) TrNotInitialized) (\<lambda>admin.
     ensure (caller = admin) TrUnauthorized))"

definition require_admin_or_approver :: "env \<Rightarrow> address \<Rightarrow> treasury \<Rightarrow> (treasury_error, unit) outcome" where
  "require_admin_or_approver e caller s = treasury_require_admin e caller s"

definition is_allowed_inner :: "treasury \<Rightarrow> address \<Rightarrow> bool" where
  "is_allowed_inner s recipient = (t_recipient_status s recipient = Some ScrAllowed)"

definition load_request :: "treasury \<Rightarrow> nat \<Rightarrow> (treasury_error, payment_request) outcome" where
  "load_request s i = ok_or (t_request s i) TrRequestNotFound"

definition save_request :: "payment_request \<Rightarrow> treasury \<Rightarrow> treasury" where
  "save_request r s = s\<lparr>t_request := (t_request s)(pq_id r \<mapsto> r)\<rparr>"

section \<open>Configuration, withdrawals and the allowlist\<close>

definition treasury_initialize :: "env \<Rightarrow> address \<Rightarrow> treasury \<Rightarrow> (treasury_error, unit \<times> treasury) outcome" where
  "treasury_initialize e admin s =
     (if t_admin s \<noteq> None then Err TrAlreadyInitialized
      else and_then (require_auth e admin) (\<lambda>_.
        Ok ((), s\<lparr>t_admin := Some admin, t_seeded_capital := Some 0, t_tracked_assets := Some []\<rparr>)))"

definition treasury_set_oracle ::
  "env \<Rightarrow> address \<Rightarrow> address \<Rightarrow> treasury \<Rightarrow> (treasury_error, unit \<times> treasury) outcome" where
  "treasury_set_oracle e caller oracle s =
     and_then (treasury_require_admin e caller s) (\<lambda>_. Ok ((), s\<lparr>t_oracle := Some oracle\<rparr>))"

definition treasury_set_backstop ::
  "env \<Rightarrow> address \<Rightarrow> address \<Rightarrow> treasury \<Rightarrow> (treasury_error, unit \<times> treasury) outcome" where
  "treasury_set_backstop e caller backstop s =
     and_then (treasury_require_admin e caller s) (\<lambda>_. Ok ((), s\<lparr>t_backstop := Some backstop\<rparr>))"

definition treasury_withdraw ::
  "'w balance_fn \<Rightarrow> 'w transfer_fn \<Rightarrow> env \<Rightarrow> address \<Rightarrow> address \<Rightarrow> int \<Rightarrow> address \<Rightarrow> 'w tr_system \<Rightarrow>
   (treasury_error, unit \<times> 'w tr_system) outcome" where
  "treasury_withdraw balance_of transfer e caller tok amount recipient sw =
     (let s = fst sw; w = snd sw in
      and_then (require_auth e caller) (\<lambda>_.
      and_then (require_admin_or_approver e caller s) (\<lambda>_.
      if amount \<le> 0 then Err TrInvalidAmount
      else if \<not> is_allowed_inner s recipient then Err TrRecipientNotAllowed
      else
        and_then (token_balance balance_of w tok (this e)) (\<lambda>bal.
        if bal < amount then Err TrInsufficientBalance
        else
          and_then (token_transfer transfer w tok (this e) recipient amount) (\<lambda>w.
          Ok ((), (s, w)))))))"

definition treasury_balance :: "'w balance_fn \<Rightarrow> env \<Rightarrow> address \<Rightarrow> 'w \<Rightarrow> (treasury_error, int) outcome" where
  "treasury_balance balance_of e tok w = token_balance balance_of w tok (this e)"

definition allow_recipient ::
  "env \<Rightarrow> address \<Rightarrow> address \<Rightarrow> treasury \<Rightarrow> (treasury_error, unit \<times> treasury) outcome" where
  "allow_recipient e caller recipient s =
     and_then (treasury_require_admin e caller s) (\<lambda>_.
     Ok ((), s\<lparr>t_recipient_status := (t_recipient_status s)(recipient \<mapsto> ScrAllowed)\<rparr>))"

definition block_recipient ::
  "env \<Rightarrow> address \<Rightarrow> address \<Rightarrow> treasury \<Rightarrow> (treasury_error, unit \<times> treasury) outcome" where
  "block_recipient e caller recipient s =
     and_then (treasury_require_admin e caller s) (\<lambda>_.
     Ok ((), s\<lparr>t_recipient_status := (t_recipient_status s)(recipient \<mapsto> ScrBlocked)\<rparr>))"

definition remove_recipient ::
  "env \<Rightarrow> address \<Rightarrow> address \<Rightarrow> treasury \<Rightarrow> (treasury_error, unit \<times> treasury) outcome" where
  "remove_recipient e caller recipient s =
     and_then (treasury_require_admin e caller s) (\<lambda>_.
     Ok ((), s\<lparr>t_recipient_status := (t_recipient_status s)(recipient := None)\<rparr>))"

definition recipient_status :: "treasury \<Rightarrow> address \<Rightarrow> screening_status option" where
  "recipient_status s recipient = t_recipient_status s recipient"

definition is_recipient_allowed :: "treasury \<Rightarrow> address \<Rightarrow> bool" where
  "is_recipient_allowed s recipient = is_allowed_inner s recipient"

section \<open>Asset feeds and NAV snapshots\<close>

definition register_asset_feed ::
  "env \<Rightarrow> address \<Rightarrow> address \<Rightarrow> symbol \<Rightarrow> treasury \<Rightarrow> (treasury_error, unit \<times> treasury) outcome" where
  "register_asset_feed e caller tok feed s =
     and_then (treasury_require_admin e caller s) (\<lambda>_.
     if t_asset_feed s tok \<noteq> None then Err TrFeedAlreadyRegistered
     else
       let s = s\<lparr>t_asset_feed := (t_asset_feed s)(tok \<mapsto> feed)\<rparr>;
           assets = unwrap_or (t_tracked_assets s) [] in
       Ok ((), if \<not> list_ex (\<lambda>a. a = tok) assets
               then s\<lparr>t_tracked_assets := Some (assets @ [tok])\<rparr> else s))"

definition deregister_asset_feed ::
  "env \<Rightarrow> address \<Rightarrow> address \<Rightarrow> treasury \<Rightarrow> (treasury_error, unit \<times> treasury) outcome" where
  "deregister_asset_feed e caller tok s =
     and_then (treasury_require_admin e caller s) (\<lambda>_.
     let assets = unwrap_or (t_tracked_assets s) [] in
     Ok ((), s\<lparr>t_asset_feed := (t_asset_feed s)(tok := None),
               t_tracked_assets := Some (filter (\<lambda>a. a \<noteq> tok) assets)\<rparr>))"

definition asset_feed :: "treasury \<Rightarrow> address \<Rightarrow> symbol option" where
  "asset_feed s tok = t_asset_feed s tok"

definition tracked_assets :: "treasury \<Rightarrow> address list" where
  "tracked_assets s = unwrap_or (t_tracked_assets s) []"

text \<open>\<open>try_get_price\<close>: the answer is the pair of price and timestamp; anything else counts as zero.\<close>

fun price_of_answer :: "call_result \<Rightarrow> int \<times> nat" where
  "price_of_answer (CallOk (VVec [VI128 price, VU64 ts])) = (price, ts)"
| "price_of_answer _ = (0, 0)"

definition asset_nav_value :: "int \<Rightarrow> int \<Rightarrow> (treasury_error, int) outcome" where
  "asset_nav_value balance price =
     (if price = 0 \<or> balance = 0 then Ok 0
      else and_then (ok_or (i128_opt (balance * price)) TrOverflow) (\<lambda>m.
           ok_or (i128_opt (trunc_div m PRICE_SCALE)) TrOverflow))"

fun nav_loop ::
  "'w balance_fn \<Rightarrow> 'w callee \<Rightarrow> env \<Rightarrow> treasury \<Rightarrow> address \<Rightarrow> address list \<Rightarrow> asset_nav list \<Rightarrow> int \<Rightarrow> 'w \<Rightarrow>
   (treasury_error, asset_nav list \<times> int \<times> 'w) outcome" where
  "nav_loop balance_of callee e s oracle [] navs tot w = Ok (navs, tot, w)"
| "nav_loop balance_of callee e s oracle (tok # assets) navs tot w =
     and_then (ok_or (t_asset_feed s tok) TrFeedNotRegistered) (\<lambda>feed.
     and_then (token_balance balance_of w tok (this e)) (\<lambda>balance.
     case try_invoke callee e w oracle ''get_price'' [VSym feed] of
       (r, w) \<Rightarrow>
         case price_of_answer r of
           (price, ts) \<Rightarrow>
             and_then (asset_nav_value balance price) (\<lambda>nav.
             and_then (ok_or (i128_opt (tot + nav)) TrOverflow) (\<lambda>tot.
             nav_loop balance_of callee e s oracle assets
               (navs @ [\<lparr>an_token = tok, an_balance = balance, an_price = price, an_nav = nav,
                         an_price_timestamp = ts\<rparr>]) tot w))))"

definition take_nav_snapshot ::
  "'w balance_fn \<Rightarrow> 'w callee \<Rightarrow> env \<Rightarrow> 'w tr_system \<Rightarrow> (treasury_error, int \<times> 'w tr_system) outcome" where
  "take_nav_snapshot balance_of callee e sw =
     (let s = fst sw; w = snd sw in
      and_then (ok_or (t_oracle s) TrOracleNotConfigured) (\<lambda>oracle.
      and_then (nav_loop balance_of callee e s oracle (unwrap_or (t_tracked_assets s) []) [] 0 w) (\<lambda>(navs, tot, w).
      let snapshot = \<lparr>ns_ledger = ledger_seq e, ns_timestamp = timestamp e, ns_total_nav = tot,
                      ns_assets = navs\<rparr> in
      Ok (tot, (s\<lparr>t_latest_snapshot := Some snapshot\<rparr>, w)))))"

definition latest_snapshot :: "treasury \<Rightarrow> nav_snapshot option" where
  "latest_snapshot s = t_latest_snapshot s"

definition total_nav :: "treasury \<Rightarrow> int" where
  "total_nav s = unwrap_or (map_option ns_total_nav (t_latest_snapshot s)) 0"

definition asset_nav_breakdown :: "treasury \<Rightarrow> asset_nav list" where
  "asset_nav_breakdown s = unwrap_or (map_option ns_assets (t_latest_snapshot s)) []"

fun staleness_loop :: "env \<Rightarrow> address \<Rightarrow> asset_nav list \<Rightarrow> nat option" where
  "staleness_loop e tok [] = None"
| "staleness_loop e tok (entry # entries) =
     (if an_token entry = tok
      then if an_price_timestamp entry = 0 then None
           else Some (timestamp e - an_price_timestamp entry)
      else staleness_loop e tok entries)"

definition asset_price_staleness :: "env \<Rightarrow> treasury \<Rightarrow> address \<Rightarrow> nat option" where
  "asset_price_staleness e s tok =
     (case t_latest_snapshot s of None \<Rightarrow> None | Some snapshot \<Rightarrow> staleness_loop e tok (ns_assets snapshot))"

section \<open>Backstop seeding\<close>

definition seed_backstop ::
  "'w balance_fn \<Rightarrow> 'w transfer_fn \<Rightarrow> env \<Rightarrow> address \<Rightarrow> address \<Rightarrow> int \<Rightarrow> 'w tr_system \<Rightarrow>
   (treasury_error, unit \<times> 'w tr_system) outcome" where
  "seed_backstop balance_of transfer e caller tok amount sw =
     (let s = fst sw; w = snd sw in
      and_then (treasury_require_admin e caller s) (\<lambda>_.
      if amount \<le> 0 then Err TrInvalidAmount
      else
        and_then (ok_or (t_backstop s) TrBackstopNotConfigured) (\<lambda>backstop.
        and_then (token_balance balance_of w tok (this e)) (\<lambda>bal.
        if bal < amount then Err TrInsufficientBalance
        else
          and_then (token_transfer transfer w tok (this e) backstop amount) (\<lambda>w.
          and_then (i128_add (unwrap_or (t_seeded_capital s) 0) amount) (\<lambda>seeded.
          Ok ((), (s\<lparr>t_seeded_capital := Some seeded\<rparr>, w))))))))"

definition recall_seed ::
  "'w transfer_fn \<Rightarrow> env \<Rightarrow> address \<Rightarrow> address \<Rightarrow> int \<Rightarrow> 'w tr_system \<Rightarrow>
   (treasury_error, unit \<times> 'w tr_system) outcome" where
  "recall_seed transfer e caller tok amount sw =
     (let s = fst sw; w = snd sw in
      and_then (treasury_require_admin e caller s) (\<lambda>_.
      if amount \<le> 0 then Err TrInvalidAmount
      else
        let seeded = unwrap_or (t_seeded_capital s) 0 in
        if seeded < amount then Err TrRecallExceedsSeed
        else
          and_then (ok_or (t_backstop s) TrBackstopNotConfigured) (\<lambda>backstop.
          and_then (token_transfer transfer w tok backstop (this e) amount) (\<lambda>w.
          and_then (i128_sub seeded amount) (\<lambda>left.
          Ok ((), (s\<lparr>t_seeded_capital := Some left\<rparr>, w)))))))"

definition seeded_capital :: "treasury \<Rightarrow> int" where
  "seeded_capital s = unwrap_or (t_seeded_capital s) 0"

section \<open>Payment requests\<close>

definition new_payment_request ::
  "env \<Rightarrow> nat \<Rightarrow> address \<Rightarrow> address \<Rightarrow> address \<Rightarrow> int \<Rightarrow> string \<Rightarrow> payment_request" where
  "new_payment_request e i requester payee tok amount purpose =
     \<lparr>pq_id = i, pq_requester = requester, pq_payee = payee, pq_token = tok, pq_amount = amount,
      pq_purpose_hash = purpose, pq_status = PaySubmitted, pq_approver = None, pq_created_at = timestamp e\<rparr>"

definition submit_payment_request ::
  "env \<Rightarrow> address \<Rightarrow> address \<Rightarrow> address \<Rightarrow> int \<Rightarrow> string \<Rightarrow> treasury \<Rightarrow> (treasury_error, nat \<times> treasury) outcome" where
  "submit_payment_request e requester payee tok amount purpose s =
     and_then (require_auth e requester) (\<lambda>_.
     if amount \<le> 0 then Err TrInvalidAmount
     else
       let i = unwrap_or (t_next_request_id s) 0;
           s = s\<lparr>t_request := (t_request s)(i \<mapsto> new_payment_request e i requester payee tok amount purpose)\<rparr> in
       and_then (u64_add i 1) (\<lambda>next. Ok (i, s\<lparr>t_next_request_id := Some next\<rparr>)))"

definition approve_payment_request ::
  "env \<Rightarrow> address \<Rightarrow> nat \<Rightarrow> treasury \<Rightarrow> (treasury_error, unit \<times> treasury) outcome" where
  "approve_payment_request e approver i s =
     and_then (require_auth e approver) (\<lambda>_.
     and_then (treasury_require_admin e approver s) (\<lambda>_.
     and_then (load_request s i) (\<lambda>r.
     if pq_requester r = approver then Err TrSelfApproval
     else if pq_status r \<noteq> PaySubmitted then Err TrInvalidState
     else Ok ((), save_request (r\<lparr>pq_status := PayApproved, pq_approver := Some approver\<rparr>) s))))"

definition reject_payment_request ::
  "env \<Rightarrow> address \<Rightarrow> nat \<Rightarrow> treasury \<Rightarrow> (treasury_error, unit \<times> treasury) outcome" where
  "reject_payment_request e approver i s =
     and_then (require_auth e approver) (\<lambda>_.
     and_then (treasury_require_admin e approver s) (\<lambda>_.
     and_then (load_request s i) (\<lambda>r.
     if pq_status r \<noteq> PaySubmitted then Err TrInvalidState
     else Ok ((), save_request (r\<lparr>pq_status := PayRejected\<rparr>) s))))"

definition cancel_payment_request ::
  "env \<Rightarrow> address \<Rightarrow> nat \<Rightarrow> treasury \<Rightarrow> (treasury_error, unit \<times> treasury) outcome" where
  "cancel_payment_request e requester i s =
     and_then (require_auth e requester) (\<lambda>_.
     and_then (load_request s i) (\<lambda>r.
     if pq_requester r \<noteq> requester then Err TrNotRequester
     else if pq_status r \<noteq> PaySubmitted then Err TrInvalidState
     else Ok ((), save_request (r\<lparr>pq_status := PayCancelled\<rparr>) s)))"

definition execute_payment_request ::
  "'w transfer_fn \<Rightarrow> env \<Rightarrow> address \<Rightarrow> nat \<Rightarrow> 'w tr_system \<Rightarrow> (treasury_error, unit \<times> 'w tr_system) outcome" where
  "execute_payment_request transfer e caller i sw =
     (let s = fst sw; w = snd sw in
      and_then (require_auth e caller) (\<lambda>_.
      and_then (treasury_require_admin e caller s) (\<lambda>_.
      and_then (treasury_acquire_guard s) (\<lambda>s.
      and_then (load_request s i) (\<lambda>r.
      if pq_requester r = caller then Err TrSelfApproval
      else if pq_status r \<noteq> PayApproved then Err TrInvalidState
      else
        let s = save_request (r\<lparr>pq_status := PayExecuted\<rparr>) s in
        and_then (token_transfer transfer w (pq_token r) (this e) (pq_payee r) (pq_amount r)) (\<lambda>w.
        Ok ((), (treasury_release_guard s, w))))))))"

definition get_payment_request :: "treasury \<Rightarrow> nat \<Rightarrow> payment_request option" where
  "get_payment_request s i = t_request s i"

definition treasury_admin :: "treasury \<Rightarrow> address option" where
  "treasury_admin s = t_admin s"

definition treasury_oracle :: "treasury \<Rightarrow> address option" where
  "treasury_oracle s = t_oracle s"

definition treasury_backstop :: "treasury \<Rightarrow> address option" where
  "treasury_backstop s = t_backstop s"

section \<open>The contract as a transaction executor\<close>

datatype treasury_call =
    TrInitialize address
  | TrSetOracle address address
  | TrSetBackstop address address
  | TrWithdraw address address int address
  | TrAllowRecipient address address
  | TrBlockRecipient address address
  | TrRemoveRecipient address address
  | TrRegisterFeed address address symbol
  | TrDeregisterFeed address address
  | TrTakeNavSnapshot
  | TrSeedBackstop address address int
  | TrRecallSeed address address int
  | TrSubmitPayment address address address int string
  | TrApprovePayment address nat
  | TrRejectPayment address nat
  | TrCancelPayment address nat
  | TrExecutePayment address nat

definition on_treasury ::
  "(treasury \<Rightarrow> ('e, 'a \<times> treasury) outcome) \<Rightarrow> 'w tr_system \<Rightarrow> ('e, unit \<times> 'w tr_system) outcome" where
  "on_treasury f sw = and_then (f (fst sw)) (\<lambda>(_, s). Ok ((), (s, snd sw)))"

fun treasury_exec ::
  "'w balance_fn \<Rightarrow> 'w transfer_fn \<Rightarrow> 'w callee \<Rightarrow> (treasury_call, 'w tr_system, treasury_error, unit) executor" where
  "treasury_exec bal tr callee e (TrInitialize a) sw = on_treasury (treasury_initialize e a) sw"
| "treasury_exec bal tr callee e (TrSetOracle c a) sw = on_treasury (treasury_set_oracle e c a) sw"
| "treasury_exec bal tr callee e (TrSetBackstop c a) sw = on_treasury (treasury_set_backstop e c a) sw"
| "treasury_exec bal tr callee e (TrWithdraw c t n a) sw = treasury_withdraw bal tr e c t n a sw"
| "treasury_exec bal tr callee e (TrAllowRecipient c a) sw = on_treasury (allow_recipient e c a) sw"
| "treasury_exec bal tr callee e (TrBlockRecipient c a) sw = on_treasury (block_recipient e c a) sw"
| "treasury_exec bal tr callee e (TrRemoveRecipient c a) sw = on_treasury (remove_recipient e c a) sw"
| "treasury_exec bal tr callee e (TrRegisterFeed c t f) sw = on_treasury (register_asset_feed e c t f) sw"
| "treasury_exec bal tr callee e (TrDeregisterFeed c t) sw = on_treasury (deregister_asset_feed e c t) sw"
| "treasury_exec bal tr callee e TrTakeNavSnapshot sw = discard (take_nav_snapshot bal callee e sw)"
| "treasury_exec bal tr callee e (TrSeedBackstop c t n) sw = seed_backstop bal tr e c t n sw"
| "treasury_exec bal tr callee e (TrRecallSeed c t n) sw = recall_seed tr e c t n sw"
| "treasury_exec bal tr callee e (TrSubmitPayment q p t n h) sw = on_treasury (submit_payment_request e q p t n h) sw"
| "treasury_exec bal tr callee e (TrApprovePayment a i) sw = on_treasury (approve_payment_request e a i) sw"
| "treasury_exec bal tr callee e (TrRejectPayment a i) sw = on_treasury (reject_payment_request e a i) sw"
| "treasury_exec bal tr callee e (TrCancelPayment a i) sw = on_treasury (cancel_payment_request e a i) sw"
| "treasury_exec bal tr callee e (TrExecutePayment a i) sw = execute_payment_request tr e a i sw"

section \<open>The life of one payment request\<close>

inductive request_step :: "env \<Rightarrow> address option \<Rightarrow> payment_request \<Rightarrow> payment_request \<Rightarrow> bool"
  for e admin where
  req_keep: "request_step e admin r r"
| req_approve: "pq_status r = PaySubmitted \<Longrightarrow> admin \<noteq> None \<Longrightarrow> auth e (the admin) \<Longrightarrow>
    pq_requester r \<noteq> the admin \<Longrightarrow> request_step e admin r (r\<lparr>pq_status := PayApproved, pq_approver := admin\<rparr>)"
| req_reject: "pq_status r = PaySubmitted \<Longrightarrow> admin \<noteq> None \<Longrightarrow> auth e (the admin) \<Longrightarrow>
    request_step e admin r (r\<lparr>pq_status := PayRejected\<rparr>)"
| req_cancel: "pq_status r = PaySubmitted \<Longrightarrow> auth e (pq_requester r) \<Longrightarrow>
    request_step e admin r (r\<lparr>pq_status := PayCancelled\<rparr>)"
| req_execute: "pq_status r = PayApproved \<Longrightarrow> admin \<noteq> None \<Longrightarrow> auth e (the admin) \<Longrightarrow>
    pq_requester r \<noteq> the admin \<Longrightarrow> request_step e admin r (r\<lparr>pq_status := PayExecuted\<rparr>)"

text \<open>What a request asks for; no step changes it.\<close>

definition request_terms :: "payment_request \<Rightarrow> address \<times> address \<times> address \<times> int \<times> string \<times> nat" where
  "request_terms r = (pq_requester r, pq_payee r, pq_token r, pq_amount r, pq_purpose_hash r, pq_created_at r)"

definition treasury_wf :: "treasury \<Rightarrow> bool" where
  "treasury_wf s \<longleftrightarrow>
     (\<forall>i r. t_request s i = Some r \<longrightarrow> pq_id r = i \<and> i < unwrap_or (t_next_request_id s) 0 \<and> 0 < pq_amount r)"

lemma request_step_terms: "request_step e admin r r' \<Longrightarrow> request_terms r' = request_terms r \<and> pq_id r' = pq_id r"
  by (induction rule: request_step.induct) (auto simp: request_terms_def)

lemma request_step_final:
  "request_step e admin r r' \<Longrightarrow> pq_status r \<in> {PayExecuted, PayRejected, PayCancelled} \<Longrightarrow> r' = r"
  by (induction rule: request_step.induct) auto

lemma request_step_executed:
  "request_step e admin r r' \<Longrightarrow> pq_status r' = PayExecuted \<Longrightarrow> pq_status r \<in> {PayApproved, PayExecuted}"
  by (induction rule: request_step.induct) auto

lemma request_step_approved:
  "request_step e admin r r' \<Longrightarrow> pq_status r' = PayApproved \<Longrightarrow> pq_status r \<noteq> PayApproved \<Longrightarrow>
   pq_status r = PaySubmitted \<and> (\<exists>a. admin = Some a \<and> auth e a \<and> a \<noteq> pq_requester r \<and> pq_approver r' = Some a)"
  by (induction rule: request_step.induct) auto

lemmas request_steps = req_keep req_approve req_reject req_cancel req_execute

lemma treasury_require_admin_iff [simp]:
  "treasury_require_admin e caller s = Ok u \<longleftrightarrow> auth e caller \<and> t_admin s = Some caller"
  by (auto simp: treasury_require_admin_def)

lemma load_request_iff [simp]: "load_request s i = Ok r \<longleftrightarrow> t_request s i = Some r"
  by (auto simp: load_request_def)

lemma treasury_guard_fields [simp]:
  "treasury_acquire_guard s = Ok s' \<longleftrightarrow> t_reentrancy_lock s = None \<and> s' = s\<lparr>t_reentrancy_lock := Some True\<rparr>"
  "t_request (treasury_release_guard s) = t_request s"
  "t_next_request_id (treasury_release_guard s) = t_next_request_id s"
  "t_admin (treasury_release_guard s) = t_admin s"
  "t_seeded_capital (treasury_release_guard s) = t_seeded_capital s"
  "t_recipient_status (treasury_release_guard s) = t_recipient_status s"
  by (auto simp: treasury_acquire_guard_def treasury_release_guard_def)

lemma save_request_fields [simp]:
  "t_request (save_request r s) = (t_request s)(pq_id r \<mapsto> r)"
  "t_next_request_id (save_request r s) = t_next_request_id s"
  "t_admin (save_request r s) = t_admin s"
  "t_seeded_capital (save_request r s) = t_seeded_capital s"
  "t_recipient_status (save_request r s) = t_recipient_status s"
  by (simp_all add: save_request_def)

lemmas treasury_admin_ops = treasury_set_oracle_def treasury_set_backstop_def allow_recipient_def
  block_recipient_def remove_recipient_def register_asset_feed_def deregister_asset_feed_def
  treasury_initialize_def on_treasury_def Let_def

lemmas treasury_request_ops = submit_payment_request_def approve_payment_request_def
  reject_payment_request_def cancel_payment_request_def new_payment_request_def on_treasury_def Let_def

lemma treasury_withdraw_Ok:
  assumes "treasury_withdraw bal tr e c tok n a (s, w) = Ok (u, (s', w'))"
  shows "s' = s" "auth e c" "t_admin s = Some c" "0 < n" "is_allowed_inner s a"
    "tr w tok (this e) a n = Some w'" "\<exists>b. bal w tok (this e) = Some b \<and> n \<le> b"
  using assms by (auto simp: treasury_withdraw_def require_admin_or_approver_def Let_def split: if_splits)

lemma execute_payment_request_Ok:
  assumes "execute_payment_request tr e c i (s, w) = Ok (u, (s', w'))"
  obtains r where "t_request s i = Some r" "pq_status r = PayApproved" "auth e c" "t_admin s = Some c"
    "c \<noteq> pq_requester r" "tr w (pq_token r) (this e) (pq_payee r) (pq_amount r) = Some w'"
    "t_request s' = (t_request s)(pq_id r \<mapsto> r\<lparr>pq_status := PayExecuted\<rparr>)"
    "t_next_request_id s' = t_next_request_id s" "t_seeded_capital s' = t_seeded_capital s"
    "t_recipient_status s' = t_recipient_status s"
  using assms by (auto simp: execute_payment_request_def Let_def split: if_splits)

lemma take_nav_snapshot_Ok:
  assumes "take_nav_snapshot bal callee e (s, w) = Ok (tot, (s', w'))"
  obtains orc navs where "t_oracle s = Some orc"
    "nav_loop bal callee e s orc (tracked_assets s) [] 0 w = Ok (navs, tot, w')"
    "s' = s\<lparr>t_latest_snapshot := Some \<lparr>ns_ledger = ledger_seq e, ns_timestamp = timestamp e,
       ns_total_nav = tot, ns_assets = navs\<rparr>\<rparr>"
  using assms by (auto simp: take_nav_snapshot_def tracked_assets_def Let_def)

lemma seed_Ok:
  "seed_backstop bal tr e c tok n (s, w) = Ok (u, (s', w')) \<Longrightarrow>
     0 < n \<and> s' = s\<lparr>t_seeded_capital := Some (seeded_capital s + n)\<rparr>"
  "recall_seed tr e c tok n (s, w) = Ok (u, (s', w')) \<Longrightarrow>
     0 < n \<and> n \<le> seeded_capital s \<and> s' = s\<lparr>t_seeded_capital := Some (seeded_capital s - n)\<rparr>"
  by (auto simp: seed_backstop_def recall_seed_def seeded_capital_def Let_def split: if_splits)

lemma treasury_exec_request:
  assumes "treasury_exec bal tr callee e c (s, w) = Ok (u, (s', w'))" and "treasury_wf s"
    and "t_request s i = Some r"
  shows "\<exists>r'. t_request s' i = Some r' \<and> request_step e (t_admin s) r r'"
proof -
  have id: "t_request s j = Some q \<Longrightarrow> pq_id q = j" for j q using assms(2) by (simp add: treasury_wf_def)
  show ?thesis
  proof (cases c)
    case (TrExecutePayment a j)
    with assms(1) have "execute_payment_request tr e a j (s, w) = Ok (u, (s', w'))" by simp
    then show ?thesis
      by (rule execute_payment_request_Ok) (use assms(3) in \<open>auto simp: id request_steps\<close>)
  next
    case (TrSubmitPayment q p t n h)
    have "i \<noteq> unwrap_or (t_next_request_id s) 0" using assms(2,3) by (auto simp: treasury_wf_def)
    with assms TrSubmitPayment show ?thesis by (auto simp: treasury_request_ops req_keep split: if_splits)
  next
    case (TrApprovePayment a j)
    with assms(1,3) show ?thesis by (auto simp: treasury_request_ops id request_steps split: if_splits)
  next
    case (TrRejectPayment a j)
    with assms(1,3) show ?thesis by (auto simp: treasury_request_ops id request_steps split: if_splits)
  next
    case (TrCancelPayment a j)
    with assms(1,3) show ?thesis by (auto simp: treasury_request_ops id request_steps split: if_splits)
  next
    case (TrWithdraw a t n b)
    with assms show ?thesis by (auto dest: treasury_withdraw_Ok(1) intro: req_keep)
  next
    case TrTakeNavSnapshot
    with assms show ?thesis by (auto elim!: take_nav_snapshot_Ok intro: req_keep)
  next
    case (TrSeedBackstop a t n)
    with assms show ?thesis by (auto dest!: seed_Ok(1) intro: req_keep)
  next
    case (TrRecallSeed a t n)
    with assms show ?thesis by (auto dest!: seed_Ok(2) intro: req_keep)
  qed (use assms in \<open>auto simp: treasury_admin_ops req_keep split: if_splits\<close>)
qed

lemma treasury_exec_next_id:
  assumes "treasury_exec bal tr callee e c (s, w) = Ok (u, (s', w'))"
  shows "unwrap_or (t_next_request_id s) 0 \<le> unwrap_or (t_next_request_id s') 0"
proof (cases c)
  case (TrExecutePayment a j)
  with assms show ?thesis by (auto elim!: execute_payment_request_Ok)
next
  case (TrWithdraw a t n b)
  with assms show ?thesis by (auto dest: treasury_withdraw_Ok(1))
next
  case TrTakeNavSnapshot
  with assms show ?thesis by (auto elim!: take_nav_snapshot_Ok)
next
  case (TrSeedBackstop a t n)
  with assms show ?thesis by (auto dest!: seed_Ok(1))
next
  case (TrRecallSeed a t n)
  with assms show ?thesis by (auto dest!: seed_Ok(2))
qed (use assms in \<open>auto simp: treasury_admin_ops treasury_request_ops split: if_splits\<close>)

lemma treasury_exec_new:
  assumes "treasury_exec bal tr callee e c (s, w) = Ok (u, (s', w'))" and "treasury_wf s"
    and "t_request s i = None" and "t_request s' i = Some r"
  shows "pq_status r = PaySubmitted \<and> pq_id r = i \<and> i < unwrap_or (t_next_request_id s') 0 \<and> 0 < pq_amount r"
proof (cases c)
  case (TrExecutePayment a j)
  with assms show ?thesis by (auto elim!: execute_payment_request_Ok simp: treasury_wf_def split: if_splits)
next
  case (TrWithdraw a t n b)
  with assms show ?thesis by (auto dest: treasury_withdraw_Ok(1))
next
  case TrTakeNavSnapshot
  with assms show ?thesis by (auto elim!: take_nav_snapshot_Ok)
next
  case (TrSeedBackstop a t n)
  with assms show ?thesis by (auto dest!: seed_Ok(1))
next
  case (TrRecallSeed a t n)
  with assms show ?thesis by (auto dest!: seed_Ok(2))
next
  case (TrApprovePayment a j)
  with assms show ?thesis by (auto simp: treasury_request_ops treasury_wf_def split: if_splits)
next
  case (TrRejectPayment a j)
  with assms show ?thesis by (auto simp: treasury_request_ops treasury_wf_def split: if_splits)
next
  case (TrCancelPayment a j)
  with assms show ?thesis by (auto simp: treasury_request_ops treasury_wf_def split: if_splits)
qed (use assms in \<open>auto simp: treasury_admin_ops treasury_request_ops split: if_splits\<close>)

lemma treasury_exec_wf:
  assumes "treasury_exec bal tr callee e c (s, w) = Ok (u, (s', w'))" and "treasury_wf s"
  shows "treasury_wf s'"
  unfolding treasury_wf_def
proof (intro allI impI)
  fix i r' assume r': "t_request s' i = Some r'"
  show "pq_id r' = i \<and> i < unwrap_or (t_next_request_id s') 0 \<and> 0 < pq_amount r'"
  proof (cases "t_request s i")
    case None
    with treasury_exec_new [OF assms None r'] show ?thesis by simp
  next
    case (Some r)
    with treasury_exec_request [OF assms Some] r' have "request_step e (t_admin s) r r'" by simp
    from request_step_terms [OF this] Some assms(2) treasury_exec_next_id [OF assms(1)]
    show ?thesis by (fastforce simp: treasury_wf_def request_terms_def)
  qed
qed

interpretation trs: contract_invariant "treasury_exec bal tr callee" "\<lambda>sw. treasury_wf (fst sw)"
  for bal :: "'w balance_fn" and tr callee
proof
  fix s s' e c r assume "treasury_wf (fst s)" "treasury_exec bal tr callee e c s = Ok (r, s')"
  then show "treasury_wf (fst s')" by (cases s; cases s') (auto dest: treasury_exec_wf)
qed

abbreviation tr_run ::
  "'w balance_fn \<Rightarrow> 'w transfer_fn \<Rightarrow> 'w callee \<Rightarrow> (env \<times> treasury_call) list \<Rightarrow> 'w \<Rightarrow> 'w tr_system" where
  "tr_run bal tr callee txs w \<equiv> run_txs (treasury_exec bal tr callee) txs (treasury_undeployed, w)"

lemma tr_run_wf: "treasury_wf (fst (tr_run bal tr callee txs w))"
  by (rule trs.run_keeps) (simp add: treasury_wf_def treasury_undeployed_def)

text \<open>The terms of a request never change, and a settled request never changes at all.\<close>

definition request_after :: "nat \<Rightarrow> payment_request \<Rightarrow> treasury \<Rightarrow> bool" where
  "request_after i r s \<longleftrightarrow> (\<exists>r'. t_request s i = Some r' \<and> request_terms r' = request_terms r \<and>
     (pq_status r \<in> {PayExecuted, PayRejected, PayCancelled} \<longrightarrow> r' = r))"

interpretation settled: contract_invariant "treasury_exec bal tr callee"
    "\<lambda>sw. treasury_wf (fst sw) \<and> request_after i r (fst sw)"
  for bal :: "'w balance_fn" and tr callee i r
proof
  fix s s' e c u
  assume inv: "treasury_wf (fst s) \<and> request_after i r (fst s)" and ex: "treasury_exec bal tr callee e c s = Ok (u, s')"
  then obtain q where q: "t_request (fst s) i = Some q" "request_terms q = request_terms r"
    "pq_status r \<in> {PayExecuted, PayRejected, PayCancelled} \<longrightarrow> q = r" by (auto simp: request_after_def)
  have ex': "treasury_exec bal tr callee e c (fst s, snd s) = Ok (u, (fst s', snd s'))" using ex by simp
  from treasury_exec_request [OF ex' _ q(1)] inv obtain q' where
    "t_request (fst s') i = Some q'" "request_step e (t_admin (fst s)) q q'" by blast
  with q request_step_terms request_step_final have "request_after i r (fst s')"
    unfolding request_after_def by metis
  with treasury_exec_wf [OF ex'] inv show "treasury_wf (fst s') \<and> request_after i r (fst s')" by simp
qed

text \<open>Which call made a request approved or executed.\<close>

lemma treasury_exec_executes:
  assumes "treasury_exec bal tr callee e c (s, w) = Ok (u, (s', w'))" and "treasury_wf s"
    and "t_request s i = Some r" and "t_request s' i = Some r'" and "pq_status r \<noteq> pq_status r'"
  shows "pq_status r' = PayExecuted \<Longrightarrow> \<exists>a. c = TrExecutePayment a i"
    and "pq_status r' = PayApproved \<Longrightarrow> \<exists>a. c = TrApprovePayment a i \<and> pq_approver r' = Some a"
proof -
  have id: "t_request s j = Some q \<Longrightarrow> pq_id q = j" for j q using assms(2) by (simp add: treasury_wf_def)
  have fresh: "i \<noteq> unwrap_or (t_next_request_id s) 0" using assms(2,3) by (auto simp: treasury_wf_def)
  have "(pq_status r' = PayExecuted \<longrightarrow> (\<exists>a. c = TrExecutePayment a i)) \<and>
    (pq_status r' = PayApproved \<longrightarrow> (\<exists>a. c = TrApprovePayment a i \<and> pq_approver r' = Some a))"
  proof (cases c)
    case (TrExecutePayment a j)
    with assms show ?thesis by (auto elim!: execute_payment_request_Ok simp: id split: if_splits)
  next
    case (TrWithdraw a t n b)
    with assms show ?thesis by (auto dest: treasury_withdraw_Ok(1))
  next
    case TrTakeNavSnapshot
    with assms show ?thesis by (auto elim!: take_nav_snapshot_Ok)
  next
    case (TrSeedBackstop a t n)
    with assms show ?thesis by (auto dest!: seed_Ok(1))
  next
    case (TrRecallSeed a t n)
    with assms show ?thesis by (auto dest!: seed_Ok(2))
  next
    case (TrSubmitPayment q p t n h)
    with assms fresh show ?thesis by (auto simp: treasury_request_ops split: if_splits)
  qed (use assms in \<open>auto simp: treasury_admin_ops treasury_request_ops id split: if_splits\<close>)
  then show "pq_status r' = PayExecuted \<Longrightarrow> \<exists>a. c = TrExecutePayment a i"
    and "pq_status r' = PayApproved \<Longrightarrow> \<exists>a. c = TrApprovePayment a i \<and> pq_approver r' = Some a" by blast+
qed

section \<open>Seeded capital\<close>

text \<open>What the accepted seeds and recalls of a history add up to.\<close>

fun seed_delta :: "treasury_call \<Rightarrow> int" where
  "seed_delta (TrSeedBackstop a t n) = n"
| "seed_delta (TrRecallSeed a t n) = - n"
| "seed_delta _ = 0"

fun seed_flow ::
  "'w balance_fn \<Rightarrow> 'w transfer_fn \<Rightarrow> 'w callee \<Rightarrow> (env \<times> treasury_call) list \<Rightarrow> 'w tr_system \<Rightarrow> int" where
  "seed_flow bal tr callee [] sw = 0"
| "seed_flow bal tr callee ((e, c) # txs) sw =
     (case treasury_exec bal tr callee e c sw of
        Ok (_, sw') \<Rightarrow> seed_delta c + seed_flow bal tr callee txs sw'
      | _ \<Rightarrow> seed_flow bal tr callee txs sw)"

lemma treasury_exec_seeded:
  assumes "treasury_exec bal tr callee e c (s, w) = Ok (u, (s', w'))" and "0 \<le> seeded_capital s"
    and "t_admin s = None \<Longrightarrow> t_seeded_capital s = None"
  shows "seeded_capital s' = seeded_capital s + seed_delta c \<and> 0 \<le> seeded_capital s' \<and>
    (t_admin s' = None \<longrightarrow> t_seeded_capital s' = None)"
proof (cases c)
  case (TrExecutePayment a j)
  with assms show ?thesis by (auto elim!: execute_payment_request_Ok simp: seeded_capital_def execute_payment_request_def Let_def split: if_splits)
next
  case (TrWithdraw a t n b)
  with assms show ?thesis by (auto dest: treasury_withdraw_Ok(1))
next
  case TrTakeNavSnapshot
  with assms show ?thesis by (auto elim!: take_nav_snapshot_Ok simp: seeded_capital_def)
next
  case (TrSeedBackstop a t n)
  with assms have "seed_backstop bal tr e a t n (s, w) = Ok (u, (s', w'))" by simp
  moreover from this have "t_admin s \<noteq> None" by (auto simp: seed_backstop_def Let_def)
  ultimately show ?thesis using assms(2) TrSeedBackstop by (auto dest!: seed_Ok(1) simp: seeded_capital_def)
next
  case (TrRecallSeed a t n)
  with assms have "recall_seed tr e a t n (s, w) = Ok (u, (s', w'))" by simp
  moreover from this have "t_admin s \<noteq> None" by (auto simp: recall_seed_def Let_def)
  ultimately show ?thesis using assms(2) TrRecallSeed by (auto dest!: seed_Ok(2) simp: seeded_capital_def)
qed (use assms in \<open>auto simp: treasury_admin_ops treasury_request_ops seeded_capital_def split: if_splits\<close>)

lemma seed_flow_run:
  assumes "0 \<le> seeded_capital (fst sw)" and "t_admin (fst sw) = None \<Longrightarrow> t_seeded_capital (fst sw) = None"
  shows "seeded_capital (fst (run_txs (treasury_exec bal tr callee) txs sw)) =
      seeded_capital (fst sw) + seed_flow bal tr callee txs sw \<and>
    0 \<le> seeded_capital (fst (run_txs (treasury_exec bal tr callee) txs sw))"
  using assms
proof (induction txs arbitrary: sw)
  case (Cons tx txs)
  obtain e c where tx: "tx = (e, c)" by (cases tx)
  show ?case
  proof (cases "treasury_exec bal tr callee e c sw")
    case (Ok p)
    obtain u sw' where p: "p = (u, sw')" by (cases p)
    have "treasury_exec bal tr callee e c (fst sw, snd sw) = Ok (u, (fst sw', snd sw'))" using Ok p by simp
    from treasury_exec_seeded [OF this Cons.prems] Cons.IH [of sw'] show ?thesis
      by (simp add: tx Ok p)
  qed (use Cons.IH [OF Cons.prems] tx in auto)
qed simp

section \<open>Snapshots\<close>

text \<open>One entry of a snapshot values its balance at its price.\<close>

definition nav_entry_ok :: "asset_nav \<Rightarrow> bool" where
  "nav_entry_ok n \<longleftrightarrow> an_nav n = trunc_div (an_balance n * an_price n) PRICE_SCALE"

lemma asset_nav_value_Ok:
  "asset_nav_value balance price = Ok nav \<Longrightarrow> nav = trunc_div (balance * price) PRICE_SCALE"
  by (auto simp: asset_nav_value_def trunc_div_def split: if_splits)

lemma nav_loop_Ok:
  assumes "nav_loop bal callee e s orc assets navs tot w = Ok (navs', tot', w')"
  shows "\<exists>new. navs' = navs @ new \<and> map an_token new = assets \<and> tot' = tot + sum_list (map an_nav new) \<and>
    (\<forall>n \<in> set new. nav_entry_ok n \<and> t_asset_feed s (an_token n) \<noteq> None)"
  using assms
proof (induction assets arbitrary: navs tot w)
  case (Cons tok assets)
  from Cons.prems obtain feed b where fb: "t_asset_feed s tok = Some feed" "bal w tok (this e) = Some b"
    by auto
  obtain r w1 where r: "try_invoke callee e w orc ''get_price'' [VSym feed] = (r, w1)" by fastforce
  obtain price ts where p: "price_of_answer r = (price, ts)" by fastforce
  from Cons.prems fb r p obtain nav where "asset_nav_value b price = Ok nav"
    and rest: "nav_loop bal callee e s orc assets (navs @ [\<lparr>an_token = tok, an_balance = b, an_price = price,
        an_nav = nav, an_price_timestamp = ts\<rparr>]) (tot + nav) w1 = Ok (navs', tot', w')"
    by auto
  moreover from Cons.IH [OF rest] obtain new where
    "navs' = (navs @ [\<lparr>an_token = tok, an_balance = b, an_price = price, an_nav = nav, an_price_timestamp = ts\<rparr>]) @ new"
    "map an_token new = assets" "tot' = tot + nav + sum_list (map an_nav new)"
    "\<forall>n \<in> set new. nav_entry_ok n \<and> t_asset_feed s (an_token n) \<noteq> None" by blast
  ultimately show ?case using fb(1)
    by (intro exI [of _ "\<lparr>an_token = tok, an_balance = b, an_price = price, an_nav = nav, an_price_timestamp = ts\<rparr> # new"])
      (auto simp: nav_entry_ok_def dest: asset_nav_value_Ok)
qed simp

text \<open>Tracked assets and registered feeds agree, so that a snapshot never stops at a missing feed.\<close>

definition feeds_tracked :: "treasury \<Rightarrow> bool" where
  "feeds_tracked s \<longleftrightarrow> set (tracked_assets s) = dom (t_asset_feed s) \<and> distinct (tracked_assets s)"

lemma treasury_exec_feeds:
  assumes "treasury_exec bal tr callee e c (s, w) = Ok (u, (s', w'))" and "feeds_tracked s"
    and "t_admin s = None \<Longrightarrow> t_asset_feed s = Map.empty"
  shows "feeds_tracked s' \<and> (t_admin s' = None \<longrightarrow> t_asset_feed s' = Map.empty)"
proof (cases c)
  case (TrExecutePayment a j)
  with assms show ?thesis
    by (auto simp: execute_payment_request_def feeds_tracked_def tracked_assets_def Let_def
        treasury_release_guard_def save_request_def split: if_splits)
next
  case (TrWithdraw a t n b)
  with assms show ?thesis by (auto dest: treasury_withdraw_Ok(1))
next
  case TrTakeNavSnapshot
  with assms show ?thesis by (auto elim!: take_nav_snapshot_Ok simp: feeds_tracked_def tracked_assets_def)
next
  case (TrSeedBackstop a t n)
  with assms show ?thesis by (auto dest!: seed_Ok(1) simp: feeds_tracked_def tracked_assets_def)
next
  case (TrRecallSeed a t n)
  with assms show ?thesis by (auto dest!: seed_Ok(2) simp: feeds_tracked_def tracked_assets_def)
qed (use assms in \<open>auto simp: treasury_admin_ops treasury_request_ops feeds_tracked_def tracked_assets_def
       save_request_def list_ex_iff split: if_splits\<close>)

interpretation feeds: contract_invariant "treasury_exec bal tr callee"
    "\<lambda>sw. feeds_tracked (fst sw) \<and> (t_admin (fst sw) = None \<longrightarrow> t_asset_feed (fst sw) = Map.empty)"
  for bal :: "'w balance_fn" and tr callee
proof
  fix s e c u s'
  assume "feeds_tracked (fst s) \<and> (t_admin (fst s) = None \<longrightarrow> t_asset_feed (fst s) = Map.empty)"
    "treasury_exec bal tr callee e c s = Ok (u, s')"
  then show "feeds_tracked (fst s') \<and> (t_admin (fst s') = None \<longrightarrow> t_asset_feed (fst s') = Map.empty)"
    using treasury_exec_feeds [of bal tr callee e c "fst s" "snd s" u "fst s'" "snd s'"] by simp
qed

text \<open>The call that gave a request its status, and what is left of the request later.\<close>

lemma status_origin:
  fixes bal :: "'w balance_fn"
  assumes "t_request (fst (tr_run bal tr callee txs w)) i = Some r" and "pq_status r = st"
    and "st \<noteq> PaySubmitted"
  obtains pre e c post u s' w' q q' where "txs = pre @ (e, c) # post"
    "treasury_exec bal tr callee e c (fst (tr_run bal tr callee pre w), snd (tr_run bal tr callee pre w)) = Ok (u, (s', w'))"
    "t_request (fst (tr_run bal tr callee pre w)) i = Some q" "t_request s' i = Some q'"
    "pq_status q \<noteq> pq_status q'" "pq_status q' = st" "request_terms q' = request_terms r"
    "request_step e (t_admin (fst (tr_run bal tr callee pre w))) q q'"
    "\<forall>later. request_after i q' (fst (tr_run bal tr callee (txs @ later) w))"
proof -
  let ?run = "\<lambda>xs. tr_run bal tr callee xs w"
  let ?is = "\<lambda>sw. \<exists>q. t_request (fst sw) i = Some q \<and> pq_status q = st"
  have "?is (?run txs)" "\<not> ?is (treasury_undeployed, w)" using assms(1,2) by (auto simp: treasury_undeployed_def)
  then obtain pre e c post u sw where x: "txs = pre @ (e, c) # post" "\<not> ?is (?run pre)"
    "treasury_exec bal tr callee e c (?run pre) = Ok (u, sw)" "?is sw" by (rule run_txs_origin [of ?is])
  have x': "treasury_exec bal tr callee e c (fst (?run pre), snd (?run pre)) = Ok (u, (fst sw, snd sw))"
    using x(3) by simp
  obtain q' where q': "t_request (fst sw) i = Some q'" "pq_status q' = st" using x(4) by blast
  obtain q where q: "t_request (fst (?run pre)) i = Some q"
    using treasury_exec_new [OF x' tr_run_wf _ q'(1)] q'(2) assms(3) by fastforce
  have step: "request_step e (t_admin (fst (?run pre))) q q'"
    using treasury_exec_request [OF x' tr_run_wf q] q'(1) by simp
  have after: "request_after i q' (fst (?run (txs @ later)))" for later
  proof -
    have "treasury_wf (fst (run_txs (treasury_exec bal tr callee) (post @ later) sw)) \<and>
      request_after i q' (fst (run_txs (treasury_exec bal tr callee) (post @ later) sw))"
      by (rule settled.run_keeps) (use treasury_exec_wf [OF x' tr_run_wf] q'(1) in \<open>simp add: request_after_def\<close>)
    with x(1,3) show ?thesis by (simp add: run_txs_append)
  qed
  from after [of "[]"] assms(1) have terms: "request_terms q' = request_terms r" by (auto simp: request_after_def)
  have "pq_status q \<noteq> pq_status q'" using x(2) q q'(2) by auto
  from that [OF x(1) x' q q'(1) this q'(2) terms step] after show thesis by blast
qed

text \<open>Only \<open>allow_recipient\<close> makes a recipient allowed.\<close>

lemma treasury_exec_allows:
  assumes "treasury_exec bal tr callee e c (s, w) = Ok (u, (s', w'))"
    and "\<not> is_allowed_inner s a" and "is_allowed_inner s' a"
  shows "\<exists>b. c = TrAllowRecipient b a \<and> auth e b \<and> t_admin s = Some b"
proof (cases c)
  case (TrExecutePayment b j)
  with assms show ?thesis by (auto elim!: execute_payment_request_Ok simp: is_allowed_inner_def)
next
  case (TrWithdraw b t n d)
  with assms show ?thesis by (auto dest: treasury_withdraw_Ok(1))
next
  case TrTakeNavSnapshot
  with assms show ?thesis by (auto elim!: take_nav_snapshot_Ok simp: is_allowed_inner_def)
next
  case (TrSeedBackstop b t n)
  with assms show ?thesis by (auto dest!: seed_Ok(1) simp: is_allowed_inner_def)
next
  case (TrRecallSeed b t n)
  with assms show ?thesis by (auto dest!: seed_Ok(2) simp: is_allowed_inner_def)
qed (use assms in \<open>auto simp: treasury_admin_ops treasury_request_ops is_allowed_inner_def split: if_splits\<close>)

section \<open>Properties\<close>

definition ts_env :: "nat \<Rightarrow> env" where
  "ts_env t = \<lparr>timestamp = t, ledger_seq = 4, auth = (\<lambda>_. True), this = 80\<rparr>"

definition ts_bal :: "nat balance_fn" where "ts_bal w tok a = Some 1000"

definition ts_transfer :: "nat transfer_fn" where "ts_transfer w tok a b n = Some (Suc w)"

definition ts_callee :: "nat callee" where
  "ts_callee e w a f args = (CallOk (VVec [VI128 20000000, VU64 5]), w)"

definition ts_txs :: "(env \<times> treasury_call) list" where
  "ts_txs = [(ts_env 1, TrInitialize 7), (ts_env 2, TrSubmitPayment 3 4 9 250 ''p''), (ts_env 3, TrApprovePayment 7 0),
     (ts_env 4, TrExecutePayment 7 0), (ts_env 5, TrAllowRecipient 7 6), (ts_env 6, TrSetBackstop 7 30),
     (ts_env 7, TrSeedBackstop 7 9 500), (ts_env 8, TrRecallSeed 7 9 200), (ts_env 9, TrRegisterFeed 7 9 ''U''),
     (ts_env 10, TrSetOracle 7 31)]"

definition ts_request :: payment_request where
  "ts_request = \<lparr>pq_id = 0, pq_requester = 3, pq_payee = 4, pq_token = 9, pq_amount = 250, pq_purpose_hash = ''p'',
     pq_status = PayExecuted, pq_approver = Some 7, pq_created_at = 2\<rparr>"

definition ts_state :: treasury where
  "ts_state = \<lparr>t_admin = Some 7, t_oracle = Some 31, t_backstop = Some 30, t_seeded_capital = Some 300,
     t_latest_snapshot = None, t_recipient_status = [6 \<mapsto> ScrAllowed], t_asset_feed = [9 \<mapsto> ''U''],
     t_tracked_assets = Some [9], t_next_request_id = Some 1, t_request = [0 \<mapsto> ts_request],
     t_reentrancy_lock = None\<rparr>"

lemma ts_run: "tr_run ts_bal ts_transfer ts_callee ts_txs 0 = (ts_state, 3)"
  by (simp add: ts_txs_def ts_state_def ts_request_def ts_env_def ts_bal_def ts_transfer_def
      treasury_undeployed_def on_treasury_def treasury_initialize_def submit_payment_request_def
      new_payment_request_def approve_payment_request_def execute_payment_request_def allow_recipient_def
      treasury_set_backstop_def treasury_set_oracle_def seed_backstop_def recall_seed_def register_asset_feed_def
      treasury_require_admin_def treasury_acquire_guard_def treasury_release_guard_def load_request_def
      save_request_def require_auth_def ok_or_def ensure_def token_balance_def token_transfer_def
      u64_add_def i128_add_def i128_sub_def i128_checked_def int_width_defs Let_def
      del: and_then_Ok_iff and_then_Err_iff and_then_Trap_iff)

text \<open>C11. A payment request is paid at most once and only after a second pair of eyes: if a request is
executed after any history, the history has a call that approved it, signed by the admin of that
moment who is not the requester, and later a call that executed it, signed by the admin of that
moment, which transferred exactly the requested amount of the requested token to the payee;
afterwards no execution of it succeeds.\<close>

theorem payment_paid_once:
  assumes "t_request (fst (run_txs (treasury_exec bal tr callee) txs (treasury_undeployed, w))) i = Some r"
    and "pq_status r = PayExecuted"
  shows "\<exists>pre e1 a1 mid e2 a2 post w2.
    txs = pre @ (e1, TrApprovePayment a1 i) # mid @ (e2, TrExecutePayment a2 i) # post \<and>
    t_admin (fst (run_txs (treasury_exec bal tr callee) pre (treasury_undeployed, w))) = Some a1 \<and>
    auth e1 a1 \<and> a1 \<noteq> pq_requester r \<and>
    t_admin (fst (run_txs (treasury_exec bal tr callee) (pre @ (e1, TrApprovePayment a1 i) # mid) (treasury_undeployed, w))) = Some a2 \<and>
    auth e2 a2 \<and> a2 \<noteq> pq_requester r \<and>
    tr (snd (run_txs (treasury_exec bal tr callee) (pre @ (e1, TrApprovePayment a1 i) # mid) (treasury_undeployed, w)))
      (pq_token r) (this e2) (pq_payee r) (pq_amount r) = Some w2 \<and>
    (\<forall>later e3 a3 u sw. execute_payment_request tr e3 a3 i
       (run_txs (treasury_exec bal tr callee) (txs @ later) (treasury_undeployed, w)) \<noteq> Ok (u, sw))"
proof -
  let ?run = "\<lambda>xs. tr_run bal tr callee xs w"
  have st: "PayExecuted \<noteq> PaySubmitted" "PayApproved \<noteq> PaySubmitted" by simp_all
  obtain pre2 e2 c2 post u2 s2 w2 q1 q2 where x: "txs = pre2 @ (e2, c2) # post"
    "treasury_exec bal tr callee e2 c2 (fst (?run pre2), snd (?run pre2)) = Ok (u2, (s2, w2))"
    "t_request (fst (?run pre2)) i = Some q1" "t_request s2 i = Some q2" "pq_status q1 \<noteq> pq_status q2"
    "pq_status q2 = PayExecuted" "request_terms q2 = request_terms r"
    "request_step e2 (t_admin (fst (?run pre2))) q1 q2"
    "\<forall>later. request_after i q2 (fst (?run (txs @ later)))"
    by (rule status_origin [OF assms st(1)])
  obtain a2 where c2: "c2 = TrExecutePayment a2 i"
    using treasury_exec_executes(1) [OF x(2) tr_run_wf x(3,4,5,6)] by blast
  have q1: "pq_status q1 = PayApproved" "request_terms q1 = request_terms r"
    using request_step_executed [OF x(8,6)] request_step_terms [OF x(8)] x(5-7) by auto
  have "execute_payment_request tr e2 a2 i (fst (?run pre2), snd (?run pre2)) = Ok (u2, (s2, w2))"
    using x(2) unfolding c2 treasury_exec.simps .
  then have exec2: "auth e2 a2 \<and> t_admin (fst (?run pre2)) = Some a2 \<and> a2 \<noteq> pq_requester r \<and>
    tr (snd (?run pre2)) (pq_token r) (this e2) (pq_payee r) (pq_amount r) = Some w2"
    by (rule execute_payment_request_Ok) (use x(3) q1 in \<open>simp add: request_terms_def\<close>)
  obtain pre e1 c1 mid u1 s1 w1 p1 p2 where y: "pre2 = pre @ (e1, c1) # mid"
    "treasury_exec bal tr callee e1 c1 (fst (?run pre), snd (?run pre)) = Ok (u1, (s1, w1))"
    "t_request (fst (?run pre)) i = Some p1" "t_request s1 i = Some p2" "pq_status p1 \<noteq> pq_status p2"
    "pq_status p2 = PayApproved" "request_terms p2 = request_terms q1"
    "request_step e1 (t_admin (fst (?run pre))) p1 p2"
    by (rule status_origin [OF x(3) q1(1) st(2)])
  obtain a1 where c1: "c1 = TrApprovePayment a1 i" "pq_approver p2 = Some a1"
    using treasury_exec_executes(2) [OF y(2) tr_run_wf y(3,4,5,6)] by blast
  have exec1: "t_admin (fst (?run pre)) = Some a1 \<and> auth e1 a1 \<and> a1 \<noteq> pq_requester r"
    using request_step_approved [OF y(8,6)] request_step_terms [OF y(8)] y(5-7) c1(2) q1(2)
    by (auto simp: request_terms_def)
  have "execute_payment_request tr e3 a3 i (s3, w3) = Ok (u, (s4, w4)) \<Longrightarrow> ?run (txs @ later) \<noteq> (s3, w3)"
    for later e3 a3 u s3 w3 s4 w4
    by (erule execute_payment_request_Ok) (use x(6) x(9) [THEN spec, of later] in \<open>auto simp: request_after_def\<close>)
  then have "execute_payment_request tr e3 a3 i (?run (txs @ later)) \<noteq> Ok (u, sw)" for later e3 a3 u sw
    by (metis surj_pair)
  with x(1) y(1) c1(1) c2 exec1 exec2 show ?thesis by (intro exI conjI) auto
qed

theorem payment_paid_once_witness:
  "\<exists>pre e1 a1 mid e2 a2 post.
    ts_txs = pre @ (e1, TrApprovePayment a1 0) # mid @ (e2, TrExecutePayment a2 0) # post \<and> a1 \<noteq> 3"
proof -
  have "t_request (fst (tr_run ts_bal ts_transfer ts_callee ts_txs 0)) 0 = Some ts_request"
    by (simp add: ts_run ts_state_def)
  from payment_paid_once [OF this] show ?thesis by (fastforce simp: ts_request_def)
qed

text \<open>A withdrawal only reaches a screened recipient: when \<open>withdraw\<close> succeeds after any history, the
history has an \<open>allow_recipient\<close> call for that recipient signed by the admin of that moment, the
recipient has been allowed in every state since then, and the call, signed by the admin, moves
exactly the requested positive amount, which the treasury holds.\<close>

theorem withdrawal_screened:
  assumes "treasury_withdraw bal tr e c tok n a
      (run_txs (treasury_exec bal tr callee) txs (treasury_undeployed, w)) = Ok (u, (s', w'))"
  shows "(\<exists>pre e0 b post. txs = pre @ (e0, TrAllowRecipient b a) # post \<and> auth e0 b \<and>
      t_admin (fst (run_txs (treasury_exec bal tr callee) pre (treasury_undeployed, w))) = Some b \<and>
      (\<forall>mid rest. post = mid @ rest \<longrightarrow> is_allowed_inner
         (fst (run_txs (treasury_exec bal tr callee) (pre @ (e0, TrAllowRecipient b a) # mid) (treasury_undeployed, w))) a)) \<and>
    auth e c \<and> t_admin s' = Some c \<and> 0 < n \<and>
    (\<exists>bl. bal (snd (run_txs (treasury_exec bal tr callee) txs (treasury_undeployed, w))) tok (this e) = Some bl \<and> n \<le> bl) \<and>
    tr (snd (run_txs (treasury_exec bal tr callee) txs (treasury_undeployed, w))) tok (this e) a n = Some w'"
proof -
  let ?run = "\<lambda>xs. tr_run bal tr callee xs w"
  let ?P = "\<lambda>sw. is_allowed_inner (fst sw) a"
  have "treasury_withdraw bal tr e c tok n a (fst (?run txs), snd (?run txs)) = Ok (u, (s', w'))"
    using assms by simp
  note d = treasury_withdraw_Ok [OF this]
  have "\<not> ?P (treasury_undeployed, w)" by (simp add: is_allowed_inner_def treasury_undeployed_def)
  from run_txs_last_origin [of ?P, OF d(5) this] obtain pre e0 c0 post u0 sw where o: "txs = pre @ (e0, c0) # post"
    "\<not> ?P (?run pre)" "treasury_exec bal tr callee e0 c0 (?run pre) = Ok (u0, sw)"
    "\<And>mid rest. post = mid @ rest \<Longrightarrow> ?P (run_txs (treasury_exec bal tr callee) mid sw)" by blast
  have "treasury_exec bal tr callee e0 c0 (fst (?run pre), snd (?run pre)) = Ok (u0, (fst sw, snd sw))"
    using o(3) by simp
  from treasury_exec_allows [OF this o(2)] o(4) [of "[]"] obtain b where
    b: "c0 = TrAllowRecipient b a" "auth e0 b" "t_admin (fst (?run pre)) = Some b" by auto
  have "?run (pre @ (e0, c0) # mid) = run_txs (treasury_exec bal tr callee) mid sw" for mid
    using o(3) by (simp add: run_txs_append)
  with o(1,4) b d show ?thesis by (intro conjI exI [of _ pre]) auto
qed

lemma ts_withdraw:
  "treasury_withdraw ts_bal ts_transfer (ts_env 20) 7 9 100 6 (tr_run ts_bal ts_transfer ts_callee ts_txs 0) =
     Ok ((), (ts_state, 4))"
  by (simp add: ts_run treasury_withdraw_def require_admin_or_approver_def treasury_require_admin_def
      is_allowed_inner_def ts_state_def ts_env_def ts_bal_def ts_transfer_def require_auth_def ok_or_def ensure_def
      token_balance_def token_transfer_def Let_def del: and_then_Ok_iff and_then_Err_iff and_then_Trap_iff)

theorem withdrawal_screened_witness:
  "\<exists>pre e0 b post. ts_txs = pre @ (e0, TrAllowRecipient b 6) # post \<and> auth e0 b"
  using withdrawal_screened [OF ts_withdraw] by blast

text \<open>The recorded seed is exact: after any history the seeded capital is the sum of the accepted
seeds less the accepted recalls, and it is never negative, so the treasury never recalls more than
it has seeded.\<close>

theorem seeded_capital_exact:
  "seeded_capital (fst (run_txs (treasury_exec bal tr callee) txs (treasury_undeployed, w))) =
     seed_flow bal tr callee txs (treasury_undeployed, w) \<and>
   0 \<le> seed_flow bal tr callee txs (treasury_undeployed, w)"
  using seed_flow_run [of "(treasury_undeployed, w)" bal tr callee txs]
  by (simp add: seeded_capital_def treasury_undeployed_def)

text \<open>A snapshot is complete and adds up: when \<open>take_nav_snapshot\<close> succeeds after any history, the stored
snapshot has one entry for every token with a registered feed and no other, each entry's value is
its balance times its price over the price scale, truncated, and the total, which is also the
returned value, is the sum of the entries.\<close>

theorem nav_snapshot_exact:
  assumes "take_nav_snapshot bal callee e (run_txs (treasury_exec bal tr callee) txs (treasury_undeployed, w)) =
      Ok (tot, (s', w'))"
  shows "\<exists>navs. t_latest_snapshot s' = Some \<lparr>ns_ledger = ledger_seq e, ns_timestamp = timestamp e,
      ns_total_nav = tot, ns_assets = navs\<rparr> \<and>
    distinct (map an_token navs) \<and> set (map an_token navs) = dom (t_asset_feed s') \<and>
    tot = sum_list (map an_nav navs) \<and>
    (\<forall>n \<in> set navs. an_nav n = trunc_div (an_balance n * an_price n) PRICE_SCALE)"
proof -
  let ?s = "fst (tr_run bal tr callee txs w)"
  have "feeds_tracked ?s"
    using feeds.run_keeps [of "(treasury_undeployed, w)" bal tr callee txs]
    by (simp add: feeds_tracked_def tracked_assets_def treasury_undeployed_def)
  moreover have "take_nav_snapshot bal callee e (?s, snd (tr_run bal tr callee txs w)) = Ok (tot, (s', w'))"
    using assms by simp
  then obtain orc navs where
    n: "nav_loop bal callee e ?s orc (tracked_assets ?s) [] 0 (snd (tr_run bal tr callee txs w)) = Ok (navs, tot, w')"
    "s' = ?s\<lparr>t_latest_snapshot := Some \<lparr>ns_ledger = ledger_seq e, ns_timestamp = timestamp e,
       ns_total_nav = tot, ns_assets = navs\<rparr>\<rparr>"
    by (rule take_nav_snapshot_Ok)
  ultimately show ?thesis using nav_loop_Ok [OF n(1)]
    by (auto simp: feeds_tracked_def nav_entry_ok_def simp del: set_map)
qed

lemma ts_snapshot:
  "\<exists>s'. take_nav_snapshot ts_bal ts_callee (ts_env 20) (tr_run ts_bal ts_transfer ts_callee ts_txs 0) = Ok (2000, (s', 3))"
  by (simp add: ts_run take_nav_snapshot_def ts_state_def ts_env_def ts_bal_def ts_callee_def try_invoke_def
      asset_nav_value_def PRICE_SCALE_def ok_or_def token_balance_def i128_opt_def int_width_defs Let_def
      del: and_then_Ok_iff and_then_Err_iff and_then_Trap_iff i128_opt_iff)

theorem nav_snapshot_exact_witness:
  "\<exists>navs :: asset_nav list. 2000 = sum_list (map an_nav navs) \<and> distinct (map an_token navs)"
proof -
  obtain s' where "take_nav_snapshot ts_bal ts_callee (ts_env 20) (tr_run ts_bal ts_transfer ts_callee ts_txs 0) =
    Ok (2000, (s', 3))" using ts_snapshot by blast
  from nav_snapshot_exact [OF this] show ?thesis by blast
qed

end
