(* ===== verification/Treasury_Controls.thy ===== *)
theory Treasury_Controls
  imports Math
begin

text \<open>
  Two self-contained modules of the treasury crate: the emergency reserve
  (\<open>src/treasury/src/reserve.rs\<close>) and the stakeholder challenge period of high-value withdrawals
  (\<open>src/treasury/src/challenge.rs\<close>).  Both are plain Rust structs; a method that takes
  \<open>&mut self\<close> returns the new struct here.  A \<open>BTreeSet\<close> is a set and a \<open>BTreeMap\<close> a map.

  The lemmas show that the reserve splits an inflow without loss and fills up to its target
  first, that it never goes below zero, and that a withdrawal is finalized at most once, after its
  window, and not over an open challenge.
\<close>

section \<open>The emergency reserve\<close>

datatype reserve_error = RsUnauthorized | RsInvalidAmount | RsInsufficientReserve

record reserve_split =
  to_reserve :: int
  to_operating :: int

record reserve =
  rs_governance :: nat
  rs_target_bps :: nat
  rs_balance :: int

definition FULL_BPS :: nat where "FULL_BPS = MAX_BPS"

definition reserve_new :: "nat \<Rightarrow> nat \<Rightarrow> (reserve_error, reserve) outcome" where
  "reserve_new governance target_bps =
     (if FULL_BPS < target_bps then Err RsInvalidAmount
      else Ok \<lparr>rs_governance = governance, rs_target_bps = target_bps, rs_balance = 0\<rparr>)"

definition reserve_balance :: "reserve \<Rightarrow> int" where
  "reserve_balance r = rs_balance r"

text \<open>\<open>.unwrap_or(0)\<close> on the result of \<open>apply_bps_floor\<close>.\<close>

definition reserve_target :: "reserve \<Rightarrow> int \<Rightarrow> int" where
  "reserve_target r obligations =
     (if obligations \<le> 0 then 0
      else case apply_bps_floor obligations (rs_target_bps r) of Ok t \<Rightarrow> t | _ \<Rightarrow> 0)"

definition route_inflow :: "int \<Rightarrow> int \<Rightarrow> reserve \<Rightarrow> (reserve_error, reserve_split \<times> reserve) outcome" where
  "route_inflow amount obligations r =
     (if amount \<le> 0 then Err RsInvalidAmount
      else
        let shortfall = max (saturating_sub (reserve_target r obligations) (rs_balance r)) 0;
            part = min amount shortfall
        in Ok (\<lparr>to_reserve = part, to_operating = saturating_sub amount part\<rparr>,
               r\<lparr>rs_balance := saturating_add (rs_balance r) part\<rparr>))"

definition reserve_withdraw :: "nat \<Rightarrow> int \<Rightarrow> reserve \<Rightarrow> (reserve_error, unit \<times> reserve) outcome" where
  "reserve_withdraw caller amount r =
     (if caller \<noteq> rs_governance r then Err RsUnauthorized
      else if amount \<le> 0 then Err RsInvalidAmount
      else if rs_balance r < amount then Err RsInsufficientReserve
      else Ok ((), r\<lparr>rs_balance := saturating_sub (rs_balance r) amount\<rparr>))"

datatype reserve_call = RsInflow int int | RsWithdraw nat int

fun reserve_exec :: "(reserve_call, reserve, reserve_error, unit) executor" where
  "reserve_exec e (RsInflow n ob) r = discard (route_inflow n ob r)"
| "reserve_exec e (RsWithdraw c n) r = reserve_withdraw c n r"

section \<open>The challenge period\<close>

record withdrawal =
  wd_amount :: int
  wd_window_ends_at :: nat
  wd_challenged_by :: "nat option"
  wd_cancelled :: bool
  wd_finalized :: bool

datatype challenge_error =
    ChUnauthorized | ChNotAStakeholder | ChNotFound | ChWindowOpen | ChWindowClosed | ChChallenged
  | ChNotChallenged | ChSettled

record challenges =
  ch_governance :: nat
  ch_threshold :: int
  ch_window :: nat
  ch_stakeholders :: "nat set"
  ch_next_id :: nat
  ch_withdrawals :: "nat \<rightharpoonup> withdrawal"


definition require_governance :: "nat \<Rightarrow> challenges \<Rightarrow> (challenge_error, unit) outcome" where
  "require_governance caller s = (if caller \<noteq> ch_governance s then Err ChUnauthorized else Ok ())"

definition withdrawal_mut :: "nat \<Rightarrow> challenges \<Rightarrow> (challenge_error, withdrawal) outcome" where
  "withdrawal_mut i s = ok_or (ch_withdrawals s i) ChNotFound"

definition put_withdrawal :: "nat \<Rightarrow> withdrawal \<Rightarrow> challenges \<Rightarrow> challenges" where
  "put_withdrawal i x s = s\<lparr>ch_withdrawals := (ch_withdrawals s)(i \<mapsto> x)\<rparr>"






definition get_withdrawal :: "nat \<Rightarrow> challenges \<Rightarrow> withdrawal option" where
  "get_withdrawal i s = ch_withdrawals s i"



section \<open>Lemmas: the reserve\<close>

definition reserve_wf :: "reserve \<Rightarrow> bool" where
  "reserve_wf r \<longleftrightarrow> rs_target_bps r \<le> FULL_BPS \<and> 0 \<le> rs_balance r \<and> in_i128 (rs_balance r)"

lemma reserve_target_bounds:
  assumes "in_i128 obligations" and "rs_target_bps r \<le> FULL_BPS"
  shows "reserve_target r obligations = max obligations 0 * int (rs_target_bps r) div 10000"
    and "0 \<le> reserve_target r obligations" and "in_i128 (reserve_target r obligations)"
proof -
  have bps: "int (rs_target_bps r) \<le> 10000" "in_i128 (int (rs_target_bps r))" "in_i128 BPS_DENOM"
    using assms(2) by (simp_all add: FULL_BPS_def MAX_BPS_def BPS_DENOM_def int_width_defs)
  have le: "obligations * int (rs_target_bps r) div 10000 \<le> obligations" if "0 < obligations"
    using that bps(1) zdiv_mono1 [of "obligations * int (rs_target_bps r)" "obligations * 10000" 10000] by simp
  have "mul_div obligations (int (rs_target_bps r)) BPS_DENOM Floor =
      Ok (obligations * int (rs_target_bps r) div 10000)" if "0 < obligations"
    using that mul_div_exact [of obligations "int (rs_target_bps r)" BPS_DENOM Floor] assms(1) bps le
    by (simp add: exact_mul_div_def BPS_DENOM_def in_i128_def)
  then show t: "reserve_target r obligations = max obligations 0 * int (rs_target_bps r) div 10000"
    using assms(2) by (simp add: reserve_target_def apply_bps_floor_def apply_bps_def FULL_BPS_def)
  show "0 \<le> reserve_target r obligations" unfolding t by (simp add: div_int_pos_iff)
  then show "in_i128 (reserve_target r obligations)"
    using le assms(1) unfolding t by (cases "0 < obligations") (auto simp: in_i128_def i128_min_def i128_max_def)
qed

lemma route_inflow_Ok:
  assumes "route_inflow amount obligations r = Ok (sp, r')" and "reserve_wf r"
    and "in_i128 amount" and "in_i128 obligations"
  shows "0 < amount" and "0 \<le> to_reserve sp" and "0 \<le> to_operating sp"
    and "to_reserve sp + to_operating sp = amount"
    and "r' = r\<lparr>rs_balance := rs_balance r + to_reserve sp\<rparr>"
    and "rs_balance r' = max (rs_balance r) (min (rs_balance r + amount) (reserve_target r obligations))"
proof -
  let ?t = "reserve_target r obligations" and ?b = "rs_balance r"
  note t = reserve_target_bounds [OF assms(4), of r]
  have wf: "0 \<le> ?b" "in_i128 ?b" "0 \<le> ?t" "in_i128 ?t" using assms(2) t by (simp_all add: reserve_wf_def)
  have sub: "saturating_sub ?t ?b = ?t - ?b"
    unfolding saturating_sub_def by (rule i128_clamp_id) (use wf in \<open>auto simp: int_width_defs\<close>)
  let ?p = "min amount (max (?t - ?b) 0)"
  have amount: "0 < amount" using assms(1) by (auto simp: route_inflow_def split: if_splits)
  have op: "saturating_sub amount ?p = amount - ?p"
    unfolding saturating_sub_def by (rule i128_clamp_id) (use assms(3) amount in \<open>auto simp: int_width_defs\<close>)
  have bal: "saturating_add ?b ?p = ?b + ?p"
    unfolding saturating_add_def by (rule i128_clamp_id) (use wf amount in \<open>auto simp: int_width_defs\<close>)
  have sp: "to_reserve sp = ?p" "to_operating sp = amount - ?p" "r' = r\<lparr>rs_balance := ?b + ?p\<rparr>"
    using assms(1) amount by (auto simp: route_inflow_def Let_def sub op bal)
  show "0 < amount" by (fact amount)
  show "0 \<le> to_reserve sp" "0 \<le> to_operating sp" "to_reserve sp + to_operating sp = amount"
    "r' = r\<lparr>rs_balance := ?b + to_reserve sp\<rparr>" "rs_balance r' = max ?b (min (?b + amount) ?t)"
    using sp amount by auto
qed

lemma reserve_withdraw_Ok:
  assumes "reserve_withdraw c n r = Ok (u, r')" and "reserve_wf r"
  shows "c = rs_governance r" and "0 < n" and "n \<le> rs_balance r" and "r' = r\<lparr>rs_balance := rs_balance r - n\<rparr>"
proof -
  from assms(1) show n: "c = rs_governance r" "0 < n" "n \<le> rs_balance r"
    by (auto simp: reserve_withdraw_def split: if_splits)
  have "saturating_sub (rs_balance r) n = rs_balance r - n"
    unfolding saturating_sub_def by (rule i128_clamp_id) (use n assms(2) in \<open>auto simp: reserve_wf_def int_width_defs\<close>)
  with assms(1) n show "r' = r\<lparr>rs_balance := rs_balance r - n\<rparr>" by (auto simp: reserve_withdraw_def)
qed

section \<open>Lemmas: challenges\<close>


lemma require_governance_iff [simp]: "require_governance c s = Ok u \<longleftrightarrow> c = ch_governance s"
  by (simp add: require_governance_def)

lemma withdrawal_mut_iff [simp]: "withdrawal_mut i s = Ok x \<longleftrightarrow> ch_withdrawals s i = Some x"
  by (simp add: withdrawal_mut_def)

lemma put_withdrawal_fields [simp]:
  "ch_withdrawals (put_withdrawal i x s) = (ch_withdrawals s)(i \<mapsto> x)"
  "ch_next_id (put_withdrawal i x s) = ch_next_id s" "ch_governance (put_withdrawal i x s) = ch_governance s"
  "ch_threshold (put_withdrawal i x s) = ch_threshold s" "ch_window (put_withdrawal i x s) = ch_window s"
  by (simp_all add: put_withdrawal_def)











section \<open>Properties\<close>

text \<open>The reserve routes every inflow without loss: on a well-formed reserve both parts of the split are
non-negative and add up to the inflow, and the balance rises exactly to the target share of the
obligations when the inflow reaches it, takes the whole inflow when it does not, and stays when the
target is already met.\<close>

theorem reserve_routes_inflow:
  assumes "reserve_wf r" and "in_i128 amount" and "in_i128 obligations" and "0 < amount"
  shows "\<exists>sp r'. route_inflow amount obligations r = Ok (sp, r') \<and>
    0 \<le> to_reserve sp \<and> 0 \<le> to_operating sp \<and> to_reserve sp + to_operating sp = amount \<and>
    rs_balance r' = rs_balance r + to_reserve sp \<and>
    rs_balance r' = max (rs_balance r)
      (min (rs_balance r + amount) (max obligations 0 * int (rs_target_bps r) div 10000)) \<and>
    reserve_wf r'"
proof -
  obtain sp r' where ok: "route_inflow amount obligations r = Ok (sp, r')"
    using assms(4) by (auto simp: route_inflow_def Let_def)
  note d = route_inflow_Ok [OF ok assms(1-3)]
  note t = reserve_target_bounds [OF assms(3), of r]
  have wf: "rs_target_bps r \<le> FULL_BPS" "0 \<le> rs_balance r" "in_i128 (rs_balance r)"
    using assms(1) by (simp_all add: reserve_wf_def)
  have "in_i128 (max (rs_balance r) (reserve_target r obligations))" using wf t(3) by (simp add: max_def)
  then have "in_i128 (rs_balance r')" by (rule in_i128_between [OF wf(3)]) (unfold d(6), auto simp: max_def min_def)
  moreover have "rs_target_bps r' = rs_target_bps r" "rs_balance r' = rs_balance r + to_reserve sp"
    unfolding d(5) by simp_all
  ultimately have "reserve_wf r'" using wf d(2) by (simp add: reserve_wf_def)
  with ok d(2-4,6) \<open>rs_balance r' = rs_balance r + to_reserve sp\<close> show ?thesis
    unfolding t(1) [OF wf(1)] by blast
qed

theorem reserve_routes_inflow_witness:
  "\<exists>sp r'. route_inflow 60 1000 \<lparr>rs_governance = 1, rs_target_bps = 1000, rs_balance = 60\<rparr> = Ok (sp, r') \<and>
    to_reserve sp + to_operating sp = 60 \<and> rs_balance r' = 100"
  using reserve_routes_inflow [of "\<lparr>rs_governance = 1, rs_target_bps = 1000, rs_balance = 60\<rparr>" 60 1000]
  by (auto simp: reserve_wf_def FULL_BPS_def MAX_BPS_def int_width_defs)






end
