(* ===== verification/Payout.thy ===== *)
theory Payout
  imports Soroban
begin

text \<open>
  The non-reverting payouts and the failed-payout ledger (\<open>src/common/src/payout.rs\<close>), a library
  that a host contract links in; its keys live in the storage of that contract.

  The state is the record \<open>payout_ledger\<close>, one field per storage key.  The token contracts are the
  parameter \<open>tokens\<close> over the state \<open>'w\<close>: what \<open>try_transfer\<close> of the token client answers.  A call
  the host reports as failed leaves no change (\<open>rolled_back\<close>); a call that succeeds with a value
  that is not \<open>()\<close> keeps its effects although the library counts it as \<open>Blocked\<close>.

  The lemmas show that the liability of a token is the sum of its failed records, that a record
  settles once and is paid or reclaimed only from \<open>Failed\<close>, that a reclaim waits for the timeout
  since the first failure, and that the paged listing is the plain filter over its id window.
\<close>

section \<open>Transfers\<close>

definition RECLAIM_TIMEOUT_SECS :: nat where "RECLAIM_TIMEOUT_SECS = 30 * 24 * 60 * 60"
definition MAX_LIST_LIMIT :: nat where "MAX_LIST_LIMIT = 50"

definition SAC_UNAUTHORIZED :: nat where "SAC_UNAUTHORIZED = 4"
definition SAC_AUTHENTICATION :: nat where "SAC_AUTHENTICATION = 5"
definition SAC_ACCOUNT_MISSING :: nat where "SAC_ACCOUNT_MISSING = 6"
definition SAC_BALANCE :: nat where "SAC_BALANCE = 10"
definition SAC_BALANCE_DEAUTHORIZED :: nat where "SAC_BALANCE_DEAUTHORIZED = 11"
definition SAC_TRUSTLINE_MISSING :: nat where "SAC_TRUSTLINE_MISSING = 13"

datatype transfer_outcome =
  ToSuccess | ToFrozen | ToBlocked | ToMissingTrustline | ToInsufficientBalance | ToUnauthorized

text \<open>
  \<open>soroban_sdk::Error\<close> by the types the code tells apart, and the answer of \<open>try_transfer\<close>:
  \<open>Ok(Ok(()))\<close>, \<open>Ok(Err(_))\<close>, \<open>Err(Ok(e))\<close> and \<open>Err(Err(e))\<close>.
\<close>

datatype sdk_error = SdkContract nat | SdkAuth | SdkOther

datatype transfer_answer = AnsUnit | AnsOtherValue | AnsError sdk_error | AnsInvoke invoke_error

type_synonym 'w tokens = "env \<Rightarrow> 'w \<Rightarrow> address \<Rightarrow> address \<Rightarrow> address \<Rightarrow> int \<Rightarrow> transfer_answer \<times> 'w"

definition rolled_back :: "'w \<Rightarrow> transfer_answer \<times> 'w \<Rightarrow> transfer_answer \<times> 'w" where
  "rolled_back w r = (case r of (AnsUnit, w') \<Rightarrow> (AnsUnit, w') | (AnsOtherValue, w') \<Rightarrow> (AnsOtherValue, w')
     | (a, _) \<Rightarrow> (a, w))"

definition classify_contract_code :: "nat \<Rightarrow> transfer_outcome" where
  "classify_contract_code code =
     (if code = SAC_BALANCE_DEAUTHORIZED then ToFrozen
      else if code = SAC_TRUSTLINE_MISSING \<or> code = SAC_ACCOUNT_MISSING then ToMissingTrustline
      else if code = SAC_BALANCE then ToInsufficientBalance
      else if code = SAC_UNAUTHORIZED \<or> code = SAC_AUTHENTICATION then ToUnauthorized
      else ToBlocked)"

definition classify_error :: "sdk_error \<Rightarrow> transfer_outcome" where
  "classify_error err =
     (case err of SdkContract code \<Rightarrow> classify_contract_code code | SdkAuth \<Rightarrow> ToUnauthorized | SdkOther \<Rightarrow> ToBlocked)"

definition classify_answer :: "transfer_answer \<Rightarrow> transfer_outcome" where
  "classify_answer a =
     (case a of
        AnsUnit \<Rightarrow> ToSuccess
      | AnsOtherValue \<Rightarrow> ToBlocked
      | AnsError err \<Rightarrow> classify_error err
      | AnsInvoke (InvokeContract code) \<Rightarrow> classify_contract_code code
      | AnsInvoke InvokeAbort \<Rightarrow> ToBlocked)"

definition try_transfer ::
  "'w tokens \<Rightarrow> env \<Rightarrow> address \<Rightarrow> address \<Rightarrow> address \<Rightarrow> int \<Rightarrow> 'w \<Rightarrow> transfer_outcome \<times> 'w" where
  "try_transfer tokens e tok sender recipient amount w =
     (if amount \<le> 0 then (ToSuccess, w)
      else case rolled_back w (tokens e w tok sender recipient amount) of
             (a, w) \<Rightarrow> (classify_answer a, w))"

section \<open>The ledger\<close>

datatype payout_status = PoPending | PoPaid | PoFailed | PoReclaimed

record payout_record =
  po_id :: nat
  po_token :: address
  po_recipient :: address
  po_amount :: int
  po_status :: payout_status
  po_reason :: transfer_outcome
  po_attempts :: nat
  po_first_failed_at :: nat
  po_last_attempt_at :: nat
  po_context :: nat

record payout_result =
  pres_outcome :: transfer_outcome
  pres_payout_id :: "nat option"

datatype payout_error = PoNotFound | PoNotFailed | PoReclaimTooEarly | PoSameRecipient

record payout_ledger =
  py_next_id :: "nat option"
  py_record :: "nat \<rightharpoonup> payout_record"
  py_liability :: "address \<rightharpoonup> int"

type_synonym 'w py_system = "payout_ledger \<times> 'w"

definition payout_empty :: payout_ledger where
  "payout_empty = \<lparr>py_next_id = None, py_record = Map.empty, py_liability = Map.empty\<rparr>"

definition payout_get :: "payout_ledger \<Rightarrow> nat \<Rightarrow> payout_record option" where
  "payout_get s i = py_record s i"

definition payout_count :: "payout_ledger \<Rightarrow> nat" where
  "payout_count s = unwrap_or (py_next_id s) 0"

definition payout_liability :: "payout_ledger \<Rightarrow> address \<Rightarrow> int" where
  "payout_liability s tok = unwrap_or (py_liability s tok) 0"

definition write_record :: "payout_record \<Rightarrow> payout_ledger \<Rightarrow> payout_ledger" where
  "write_record r s = s\<lparr>py_record := (py_record s)(po_id r \<mapsto> r)\<rparr>"

definition add_liability :: "address \<Rightarrow> int \<Rightarrow> payout_ledger \<Rightarrow> payout_ledger" where
  "add_liability tok amount s =
     (let current = unwrap_or (py_liability s tok) 0 in
      s\<lparr>py_liability := (py_liability s)(tok \<mapsto> i128_clamp (current + amount))\<rparr>)"

definition sub_liability :: "address \<Rightarrow> int \<Rightarrow> payout_ledger \<Rightarrow> payout_ledger" where
  "sub_liability tok amount s =
     (let current = unwrap_or (py_liability s tok) 0; next = max (i128_clamp (current - amount)) 0 in
      s\<lparr>py_liability := (py_liability s)(tok \<mapsto> next)\<rparr>)"

definition failed_record ::
  "env \<Rightarrow> nat \<Rightarrow> address \<Rightarrow> address \<Rightarrow> int \<Rightarrow> transfer_outcome \<Rightarrow> nat \<Rightarrow> payout_record" where
  "failed_record e i tok recipient amount reason context =
     \<lparr>po_id = i, po_token = tok, po_recipient = recipient, po_amount = amount, po_status = PoFailed,
      po_reason = reason, po_attempts = 1, po_first_failed_at = timestamp e,
      po_last_attempt_at = timestamp e, po_context = context\<rparr>"

definition pay ::
  "'w tokens \<Rightarrow> env \<Rightarrow> address \<Rightarrow> address \<Rightarrow> int \<Rightarrow> nat \<Rightarrow> 'w py_system \<Rightarrow>
   (payout_error, payout_result \<times> 'w py_system) outcome" where
  "pay tokens e tok recipient amount context sw =
     (let s = fst sw in
      case try_transfer tokens e tok (this e) recipient amount (snd sw) of
        (reason, w) \<Rightarrow>
          if reason = ToSuccess then Ok (\<lparr>pres_outcome = reason, pres_payout_id = None\<rparr>, (s, w))
          else
            let i = unwrap_or (py_next_id s) 0 in
            and_then (u64_add i 1) (\<lambda>next.
            let s = s\<lparr>py_next_id := Some next\<rparr>;
                s = write_record (failed_record e i tok recipient amount reason context) s;
                s = add_liability tok amount s in
            Ok (\<lparr>pres_outcome = reason, pres_payout_id = Some i\<rparr>, (s, w))))"

definition payout_retry ::
  "'w tokens \<Rightarrow> env \<Rightarrow> nat \<Rightarrow> 'w py_system \<Rightarrow> (payout_error, transfer_outcome \<times> 'w py_system) outcome" where
  "payout_retry tokens e i sw =
     (let s = fst sw in
      and_then (ok_or (payout_get s i) PoNotFound) (\<lambda>r.
      if po_status r \<noteq> PoFailed then Err PoNotFailed
      else
        case try_transfer tokens e (po_token r) (this e) (po_recipient r) (po_amount r) (snd sw) of
          (reason, w) \<Rightarrow>
            let r = r\<lparr>po_attempts := u32_sat_add (po_attempts r) 1, po_last_attempt_at := timestamp e\<rparr> in
            if reason = ToSuccess
            then let s = write_record (r\<lparr>po_status := PoPaid\<rparr>) s in
                 Ok (reason, (sub_liability (po_token r) (po_amount r) s, w))
            else Ok (reason, (write_record (r\<lparr>po_reason := reason\<rparr>) s, w))))"

definition update_recipient ::
  "nat \<Rightarrow> address \<Rightarrow> payout_ledger \<Rightarrow> (payout_error, payout_record \<times> payout_ledger) outcome" where
  "update_recipient i new_recipient s =
     and_then (ok_or (payout_get s i) PoNotFound) (\<lambda>r.
     if po_status r \<noteq> PoFailed then Err PoNotFailed
     else if po_recipient r = new_recipient then Err PoSameRecipient
     else let r = r\<lparr>po_recipient := new_recipient\<rparr> in Ok (r, write_record r s))"

definition payout_reclaim ::
  "env \<Rightarrow> nat \<Rightarrow> payout_ledger \<Rightarrow> (payout_error, payout_record \<times> payout_ledger) outcome" where
  "payout_reclaim e i s =
     and_then (ok_or (payout_get s i) PoNotFound) (\<lambda>r.
     if po_status r \<noteq> PoFailed then Err PoNotFailed
     else if timestamp e < u64_sat_add (po_first_failed_at r) RECLAIM_TIMEOUT_SECS then Err PoReclaimTooEarly
     else let r = r\<lparr>po_status := PoReclaimed\<rparr> in
          Ok (r, sub_liability (po_token r) (po_amount r) (write_record r s)))"

text \<open>
  The paged listing.  Its loop ends since the budget falls in every round; the id is a \<open>u64\<close> below
  the number of records inside the loop, so its increment cannot overflow.
\<close>

fun list_failed_loop ::
  "payout_ledger \<Rightarrow> nat \<Rightarrow> nat \<Rightarrow> nat \<Rightarrow> nat \<Rightarrow> payout_record list \<Rightarrow> payout_record list" where
  "list_failed_loop s end_id limit i budget out =
     (if i < end_id \<and> length out < limit \<and> 0 < budget
      then list_failed_loop s end_id limit (i + 1) (budget - 1)
             (case payout_get s i of
                Some r \<Rightarrow> if po_status r = PoFailed then out @ [r] else out
              | None \<Rightarrow> out)
      else out)"

declare list_failed_loop.simps [simp del]

definition list_failed :: "nat \<Rightarrow> nat \<Rightarrow> payout_ledger \<Rightarrow> payout_record list" where
  "list_failed start_id limit s =
     (let limit = min limit MAX_LIST_LIMIT; end_id = payout_count s; budget = u64_sat_mul limit 4
      in list_failed_loop s end_id limit start_id budget [])"

section \<open>The ledger as a transaction executor\<close>

datatype payout_call =
    PoPay address address int nat
  | PoRetry nat
  | PoUpdateRecipient nat address
  | PoReclaim nat

fun payout_exec :: "'w tokens \<Rightarrow> (payout_call, 'w py_system, payout_error, unit) executor" where
  "payout_exec tokens e (PoPay t a n c) sw = discard (pay tokens e t a n c sw)"
| "payout_exec tokens e (PoRetry i) sw = discard (payout_retry tokens e i sw)"
| "payout_exec tokens e (PoUpdateRecipient i a) sw =
     and_then (update_recipient i a (fst sw)) (\<lambda>(_, s). Ok ((), (s, snd sw)))"
| "payout_exec tokens e (PoReclaim i) sw =
     and_then (payout_reclaim e i (fst sw)) (\<lambda>(_, s). Ok ((), (s, snd sw)))"

section \<open>The life of one record\<close>

inductive payout_step :: "env \<Rightarrow> payout_record \<Rightarrow> payout_record \<Rightarrow> bool" for e where
  po_keep: "payout_step e r r"
| po_retry_paid: "po_status r = PoFailed \<Longrightarrow>
    payout_step e r (r\<lparr>po_attempts := n, po_last_attempt_at := timestamp e, po_status := PoPaid\<rparr>)"
| po_retry_failed: "po_status r = PoFailed \<Longrightarrow>
    payout_step e r (r\<lparr>po_attempts := n, po_last_attempt_at := timestamp e, po_reason := reason\<rparr>)"
| po_redirect: "po_status r = PoFailed \<Longrightarrow> payout_step e r (r\<lparr>po_recipient := a\<rparr>)"
| po_reclaimed: "po_status r = PoFailed \<Longrightarrow> u64_sat_add (po_first_failed_at r) RECLAIM_TIMEOUT_SECS \<le> timestamp e \<Longrightarrow>
    payout_step e r (r\<lparr>po_status := PoReclaimed\<rparr>)"

lemmas payout_steps = po_keep po_retry_paid po_retry_failed po_redirect po_reclaimed

lemma payout_step_terms:
  "payout_step e r r' \<Longrightarrow> po_id r' = po_id r \<and> po_token r' = po_token r \<and> po_amount r' = po_amount r \<and>
     po_first_failed_at r' = po_first_failed_at r \<and> po_context r' = po_context r"
  by (induction rule: payout_step.induct) auto

lemma payout_step_settled: "payout_step e r r' \<Longrightarrow> po_status r \<noteq> PoFailed \<Longrightarrow> r' = r"
  by (induction rule: payout_step.induct) auto

lemma payout_step_reclaims:
  "payout_step e r r' \<Longrightarrow> po_status r \<noteq> PoReclaimed \<Longrightarrow> po_status r' = PoReclaimed \<Longrightarrow>
     u64_sat_add (po_first_failed_at r) RECLAIM_TIMEOUT_SECS \<le> timestamp e"
  by (induction rule: payout_step.induct) auto

lemma ledger_fields [simp]:
  "py_record (write_record r s) = (py_record s)(po_id r \<mapsto> r)" "py_next_id (write_record r s) = py_next_id s"
  "py_liability (write_record r s) = py_liability s"
  "py_record (add_liability t n s) = py_record s" "py_next_id (add_liability t n s) = py_next_id s"
  "py_record (sub_liability t n s) = py_record s" "py_next_id (sub_liability t n s) = py_next_id s"
  by (simp_all add: write_record_def add_liability_def sub_liability_def Let_def)

text \<open>What one call does to the ledger: a new failed record, a step of one record, or nothing.\<close>

lemma payout_exec_cases:
  assumes "payout_exec tokens e c (s, w) = Ok (u, (s', w'))"
  obtains (same) "s' = s"
  | (failed) tok a n reason ctx where "c = PoPay tok a n ctx" "0 < n" "reason \<noteq> ToSuccess"
      "s' = add_liability tok n (write_record (failed_record e (payout_count s) tok a n reason ctx)
         (s\<lparr>py_next_id := Some (payout_count s + 1)\<rparr>))"
  | (paid) i r n where "c = PoRetry i" "py_record s i = Some r" "po_status r = PoFailed"
      "try_transfer tokens e (po_token r) (this e) (po_recipient r) (po_amount r) w = (ToSuccess, w')"
      "s' = sub_liability (po_token r) (po_amount r)
         (write_record (r\<lparr>po_attempts := n, po_last_attempt_at := timestamp e, po_status := PoPaid\<rparr>) s)"
  | (again) i r n reason where "c = PoRetry i" "py_record s i = Some r" "po_status r = PoFailed"
      "s' = write_record (r\<lparr>po_attempts := n, po_last_attempt_at := timestamp e, po_reason := reason\<rparr>) s"
  | (redirected) i a r where "c = PoUpdateRecipient i a" "py_record s i = Some r" "po_status r = PoFailed"
      "s' = write_record (r\<lparr>po_recipient := a\<rparr>) s"
  | (reclaimed) i r where "c = PoReclaim i" "py_record s i = Some r" "po_status r = PoFailed"
      "u64_sat_add (po_first_failed_at r) RECLAIM_TIMEOUT_SECS \<le> timestamp e"
      "s' = sub_liability (po_token r) (po_amount r) (write_record (r\<lparr>po_status := PoReclaimed\<rparr>) s)"
proof (cases c)
  case (PoPay tok a n ctx)
  obtain reason w1 where t: "try_transfer tokens e tok (this e) a n w = (reason, w1)" by fastforce
  show thesis
  proof (cases "reason = ToSuccess")
    case True
    with assms PoPay t show thesis by (intro same) (auto simp: pay_def Let_def)
  next
    case False
    with t have "0 < n" by (auto simp: try_transfer_def split: if_splits)
    with False assms PoPay t show thesis by (intro failed) (auto simp: pay_def payout_count_def Let_def)
  qed
next
  case (PoRetry i)
  from assms PoRetry obtain r where r: "py_record s i = Some r" "po_status r = PoFailed"
    by (auto simp: payout_retry_def payout_get_def Let_def split: if_splits)
  obtain reason w1 where t: "try_transfer tokens e (po_token r) (this e) (po_recipient r) (po_amount r) w = (reason, w1)"
    by fastforce
  show thesis
  proof (cases "reason = ToSuccess")
    case True
    with assms PoRetry r t show thesis by (intro paid) (auto simp: payout_retry_def payout_get_def Let_def ok_or_def)
  next
    case False
    with assms PoRetry r t show thesis by (intro again) (auto simp: payout_retry_def payout_get_def Let_def ok_or_def)
  qed
next
  case (PoUpdateRecipient i a)
  with assms show thesis
    by (auto simp: update_recipient_def payout_get_def Let_def intro: redirected split: if_splits)
next
  case (PoReclaim i)
  with assms show thesis
    by (auto simp: payout_reclaim_def payout_get_def Let_def not_less intro: reclaimed split: if_splits)
qed

section \<open>Well-formed ledgers\<close>

definition payout_wf :: "payout_ledger \<Rightarrow> bool" where
  "payout_wf s \<longleftrightarrow> (\<forall>i r. py_record s i = Some r \<longrightarrow> po_id r = i \<and> i < payout_count s \<and> 0 < po_amount r)"

lemma payout_count_fields [simp]:
  "payout_count (write_record r s) = payout_count s" "payout_count (add_liability t n s) = payout_count s"
  "payout_count (sub_liability t n s) = payout_count s" "payout_count (s\<lparr>py_next_id := Some m\<rparr>) = m"
  by (simp_all add: payout_count_def)

lemma payout_exec_record:
  assumes "payout_exec tokens e c (s, w) = Ok (u, (s', w'))" and "payout_wf s" and "py_record s i = Some r"
  obtains r' where "py_record s' i = Some r'" "payout_step e r r'"
proof -
  have id: "po_id q = j" if "py_record s j = Some q" for j q using assms(2) that by (simp add: payout_wf_def)
  have fresh: "i \<noteq> payout_count s" using assms(2,3) by (auto simp: payout_wf_def)
  have "\<exists>r'. py_record s' i = Some r' \<and> payout_step e r r'"
    using assms(1) by (cases rule: payout_exec_cases)
      (use assms(3) id fresh in \<open>auto simp: payout_steps failed_record_def split: if_splits\<close>)
  then show thesis using that by blast
qed

lemma payout_exec_wf:
  assumes "payout_exec tokens e c (s, w) = Ok (u, (s', w'))" and "payout_wf s"
  shows "payout_wf s'"
  using assms(1)
proof (cases rule: payout_exec_cases)
  case (failed tok a n reason ctx)
  then show ?thesis using assms(2) by (auto simp: payout_wf_def failed_record_def less_Suc_eq)
qed (use assms(2) in \<open>auto simp: payout_wf_def\<close>)

lemma payout_exec_new:
  assumes "payout_exec tokens e c (s, w) = Ok (u, (s', w'))" and "payout_wf s"
    and "py_record s i = None" and "py_record s' i = Some r"
  shows "\<exists>a ctx. c = PoPay (po_token r) a (po_amount r) ctx \<and> po_first_failed_at r = timestamp e \<and> po_status r = PoFailed"
proof -
  have id: "po_id q = j" if "py_record s j = Some q" for j q using assms(2) that by (simp add: payout_wf_def)
  show ?thesis using assms(1)
    by (cases rule: payout_exec_cases) (use assms(3,4) id in \<open>auto simp: failed_record_def split: if_splits\<close>)
qed

interpretation pyl: contract_invariant "payout_exec tokens" "\<lambda>sw. payout_wf (fst sw)" for tokens :: "'w tokens"
proof
  fix s e c r s' assume "payout_wf (fst s)" "payout_exec tokens e c s = Ok (r, s')"
  then show "payout_wf (fst s')" by (cases s; cases s') (auto dest: payout_exec_wf)
qed

abbreviation py_run :: "'w tokens \<Rightarrow> (env \<times> payout_call) list \<Rightarrow> 'w \<Rightarrow> 'w py_system" where
  "py_run tokens txs w \<equiv> run_txs (payout_exec tokens) txs (payout_empty, w)"

lemma py_run_wf: "payout_wf (fst (py_run tokens txs w))"
  by (rule pyl.run_keeps) (simp add: payout_wf_def payout_empty_def)

text \<open>The data of a record that never change, and a record that has settled.\<close>

definition payout_terms :: "payout_record \<Rightarrow> address \<times> int \<times> nat" where
  "payout_terms r = (po_token r, po_amount r, po_first_failed_at r)"

definition record_after :: "nat \<Rightarrow> payout_record \<Rightarrow> payout_ledger \<Rightarrow> bool" where
  "record_after i r s \<longleftrightarrow> payout_wf s \<and> (\<exists>q. py_record s i = Some q \<and> payout_terms q = payout_terms r \<and>
     (po_status r \<noteq> PoFailed \<longrightarrow> q = r))"

interpretation after: contract_invariant "payout_exec tokens" "\<lambda>sw. record_after i r (fst sw)"
  for tokens :: "'w tokens" and i r
proof
  fix s e c u s' assume inv: "record_after i r (fst s)" and "payout_exec tokens e c s = Ok (u, s')"
  then have ex: "payout_exec tokens e c (fst s, snd s) = Ok (u, (fst s', snd s'))" by simp
  from inv obtain q where q: "payout_wf (fst s)" "py_record (fst s) i = Some q" "payout_terms q = payout_terms r"
    "po_status r \<noteq> PoFailed \<longrightarrow> q = r" by (auto simp: record_after_def)
  from payout_exec_record [OF ex q(1,2)] obtain q' where "py_record (fst s') i = Some q'" "payout_step e q q'" .
  moreover from this have "payout_terms q' = payout_terms r" "po_status q \<noteq> PoFailed \<longrightarrow> q' = q"
    using q(3) payout_step_terms payout_step_settled by (auto simp: payout_terms_def)
  ultimately show "record_after i r (fst s')"
    using q payout_exec_wf [OF ex q(1)] by (auto simp: record_after_def)
qed

lemma payout_exec_settles:
  assumes "payout_exec tokens e c (s, w) = Ok (u, (s', w'))" and "payout_wf s"
    and "py_record s i = Some r" and "po_status r = PoFailed"
    and "py_record s' i = Some r'" and "po_status r' \<noteq> PoFailed"
  shows "payout_terms r' = payout_terms r"
    and "po_status r' = PoPaid \<and> c = PoRetry i \<and>
        try_transfer tokens e (po_token r') (this e) (po_recipient r') (po_amount r') w = (ToSuccess, w') \<or>
      po_status r' = PoReclaimed \<and> c = PoReclaim i \<and>
        u64_sat_add (po_first_failed_at r') RECLAIM_TIMEOUT_SECS \<le> timestamp e"
proof -
  have id: "po_id q = j" if "py_record s j = Some q" for j q using assms(2) that by (simp add: payout_wf_def)
  from payout_exec_record [OF assms(1-3)] assms(5) payout_step_terms show "payout_terms r' = payout_terms r"
    by (metis option.inject payout_terms_def)
  show "po_status r' = PoPaid \<and> c = PoRetry i \<and>
        try_transfer tokens e (po_token r') (this e) (po_recipient r') (po_amount r') w = (ToSuccess, w') \<or>
      po_status r' = PoReclaimed \<and> c = PoReclaim i \<and>
        u64_sat_add (po_first_failed_at r') RECLAIM_TIMEOUT_SECS \<le> timestamp e"
    using assms(1) by (cases rule: payout_exec_cases)
      (use assms(3-6) id in \<open>auto simp: failed_record_def split: if_splits\<close>)
qed

section \<open>Liabilities\<close>

definition recorded_part :: "address \<Rightarrow> payout_record option \<Rightarrow> int" where
  "recorded_part t x = (case x of Some r \<Rightarrow> if po_token r = t then po_amount r else 0 | None \<Rightarrow> 0)"

definition failed_part :: "address \<Rightarrow> payout_record option \<Rightarrow> int" where
  "failed_part t x =
     (case x of Some r \<Rightarrow> if po_token r = t \<and> po_status r = PoFailed then po_amount r else 0 | None \<Rightarrow> 0)"

definition recorded_sum :: "address \<Rightarrow> payout_ledger \<Rightarrow> int" where
  "recorded_sum t s = (\<Sum>i<payout_count s. recorded_part t (py_record s i))"

definition failed_sum :: "address \<Rightarrow> payout_ledger \<Rightarrow> int" where
  "failed_sum t s = (\<Sum>i<payout_count s. failed_part t (py_record s i))"

definition liability_ok :: "payout_ledger \<Rightarrow> bool" where
  "liability_ok s \<longleftrightarrow> (\<forall>t. recorded_sum t s \<le> i128_max \<longrightarrow> payout_liability s t = failed_sum t s)"

lemma sum_below_changed:
  fixes f g :: "nat \<Rightarrow> int"
  assumes "i < n" and "\<And>j. j \<noteq> i \<Longrightarrow> g j = f j"
  shows "(\<Sum>j<n. g j) = (\<Sum>j<n. f j) - f i + g i"
  using sum_one_changed [of "{..<n}" i g f] assms by (simp add: insert_absorb)

lemma part_bounds:
  assumes "payout_wf s"
  shows "0 \<le> failed_part t (py_record s i)" "failed_part t (py_record s i) \<le> recorded_part t (py_record s i)"
  using assms by (force simp: payout_wf_def failed_part_def recorded_part_def split: option.splits)+

lemma failed_sum_bounds:
  assumes "payout_wf s"
  shows "0 \<le> failed_sum t s" "failed_sum t s \<le> recorded_sum t s"
    "i < payout_count s \<Longrightarrow> failed_part t (py_record s i) \<le> failed_sum t s"
proof -
  show "0 \<le> failed_sum t s" unfolding failed_sum_def by (intro sum_nonneg part_bounds assms)
  show "failed_sum t s \<le> recorded_sum t s" unfolding failed_sum_def recorded_sum_def
    by (intro sum_mono part_bounds assms)
  show "failed_part t (py_record s i) \<le> failed_sum t s" if "i < payout_count s"
    unfolding failed_sum_def using that by (intro member_le_sum) (auto intro: part_bounds assms)
qed

lemma liability_step:
  assumes "liability_ok s" and "payout_wf s" and "py_record s i = Some r" and "po_status r = PoFailed"
    and "po_id q = i" and "po_token q = po_token r" and "po_amount q = po_amount r"
  shows "po_status q = PoFailed \<Longrightarrow> liability_ok (write_record q s)"
    and "po_status q \<noteq> PoFailed \<Longrightarrow> liability_ok (sub_liability (po_token r) (po_amount r) (write_record q s))"
proof -
  have i: "i < payout_count s" using assms(2,3) by (auto simp: payout_wf_def)
  let ?new = "(py_record s)(i \<mapsto> q)"
  have rec: "(\<Sum>j<payout_count s. recorded_part t (?new j)) = recorded_sum t s" for t
    unfolding recorded_sum_def using assms(3,6,7) by (intro sum.cong) (auto simp: recorded_part_def)
  have sums: "(\<Sum>j<payout_count s. failed_part t (?new j)) =
      failed_sum t s - failed_part t (Some r) + failed_part t (Some q)" for t
    unfolding failed_sum_def
    using sum_below_changed [OF i, of "\<lambda>j. failed_part t (?new j)" "\<lambda>j. failed_part t (py_record s j)"] assms(3) by simp
  show "liability_ok (write_record q s)" if "po_status q = PoFailed"
    using assms(1,4-7) that rec sums
    by (auto simp: liability_ok_def recorded_sum_def failed_sum_def payout_liability_def failed_part_def)
  show "liability_ok (sub_liability (po_token r) (po_amount r) (write_record q s))" if "po_status q \<noteq> PoFailed"
    unfolding liability_ok_def
  proof (intro allI impI)
    fix t assume le: "recorded_sum t (sub_liability (po_token r) (po_amount r) (write_record q s)) \<le> i128_max"
    then have le': "recorded_sum t s \<le> i128_max" using rec assms(5) by (simp add: recorded_sum_def)
    with assms(1) have l: "payout_liability s t = failed_sum t s" by (simp add: liability_ok_def)
    have new: "failed_sum t (sub_liability (po_token r) (po_amount r) (write_record q s)) =
      failed_sum t s - failed_part t (Some r)"
      using sums [of t] assms(5) that by (simp add: failed_sum_def failed_part_def)
    have b: "0 \<le> failed_sum t s" "failed_sum t s \<le> i128_max" "failed_part t (Some r) \<le> failed_sum t s"
      using failed_sum_bounds [OF assms(2), of t] failed_sum_bounds(3) [OF assms(2) i, of t] le' assms(3) by auto
    have "in_i128 (failed_sum t s - failed_part t (Some r))"
      using b part_bounds(1) [OF assms(2), of t i] assms(3) by (auto simp: in_i128_def i128_min_def)
    then show "payout_liability (sub_liability (po_token r) (po_amount r) (write_record q s)) t =
      failed_sum t (sub_liability (po_token r) (po_amount r) (write_record q s))"
      using l b assms(4) unfolding new
      by (auto simp: payout_liability_def sub_liability_def Let_def failed_part_def write_record_def)
  qed
qed

lemma liability_new:
  assumes "liability_ok s" and "payout_wf s" and "0 < n"
  shows "liability_ok (add_liability tok n (write_record (failed_record e (payout_count s) tok a n reason ctx)
    (s\<lparr>py_next_id := Some (payout_count s + 1)\<rparr>)))" (is "liability_ok ?s'")
  unfolding liability_ok_def
proof (intro allI impI)
  let ?n = "\<lambda>t. if t = tok then n else 0"
  have old: "j < payout_count s \<Longrightarrow> py_record ?s' j = py_record s j" for j by (simp add: failed_record_def)
  have new: "py_record ?s' (payout_count s) = Some (failed_record e (payout_count s) tok a n reason ctx)"
    by (simp add: failed_record_def)
  have rec: "recorded_sum t ?s' = recorded_sum t s + ?n t" for t
    unfolding recorded_sum_def using old new by (simp add: recorded_part_def failed_record_def)
  have fail: "failed_sum t ?s' = failed_sum t s + ?n t" for t
    unfolding failed_sum_def using old new by (simp add: failed_part_def failed_record_def)
  fix t assume "recorded_sum t ?s' \<le> i128_max"
  with rec assms(3) have le: "recorded_sum t s + ?n t \<le> i128_max" "recorded_sum t s \<le> i128_max"
    by (auto split: if_splits)
  with assms(1) have l: "payout_liability s t = failed_sum t s" by (simp add: liability_ok_def)
  have "in_i128 (failed_sum t s + ?n t)"
    using failed_sum_bounds [OF assms(2), of t] le assms(3) by (auto simp: in_i128_def i128_min_def)
  then show "payout_liability ?s' t = failed_sum t ?s'"
    using l unfolding fail by (auto simp: payout_liability_def add_liability_def write_record_def Let_def)
qed

lemma payout_exec_liability:
  assumes "payout_exec tokens e c (s, w) = Ok (u, (s', w'))" and "payout_wf s" and "liability_ok s"
  shows "liability_ok s'"
  using assms(1)
proof (cases rule: payout_exec_cases)
  case same
  with assms(3) show ?thesis by simp
next
  case (failed tok a n reason ctx)
  with liability_new [OF assms(3,2)] show ?thesis by simp
next
  case (paid i r n)
  moreover have "po_id r = i" using assms(2) paid by (simp add: payout_wf_def)
  ultimately show ?thesis
    using liability_step(2) [OF assms(3,2) paid(2,3), of "r\<lparr>po_attempts := n, po_last_attempt_at := timestamp e, po_status := PoPaid\<rparr>"]
    by simp
next
  case (again i r n reason)
  moreover have "po_id r = i" using assms(2) again by (simp add: payout_wf_def)
  ultimately show ?thesis
    using liability_step(1) [OF assms(3,2) again(2,3), of "r\<lparr>po_attempts := n, po_last_attempt_at := timestamp e, po_reason := reason\<rparr>"]
    by simp
next
  case (redirected i a r)
  moreover have "po_id r = i" using assms(2) redirected by (simp add: payout_wf_def)
  ultimately show ?thesis
    using liability_step(1) [OF assms(3,2) redirected(2,3), of "r\<lparr>po_recipient := a\<rparr>"] by simp
next
  case (reclaimed i r)
  moreover have "po_id r = i" using assms(2) reclaimed by (simp add: payout_wf_def)
  ultimately show ?thesis
    using liability_step(2) [OF assms(3,2) reclaimed(2,3), of "r\<lparr>po_status := PoReclaimed\<rparr>"] by simp
qed

interpretation lia: contract_invariant "payout_exec tokens" "\<lambda>sw. payout_wf (fst sw) \<and> liability_ok (fst sw)"
  for tokens :: "'w tokens"
proof
  fix s e c r s' assume "payout_wf (fst s) \<and> liability_ok (fst s)" "payout_exec tokens e c s = Ok (r, s')"
  then show "payout_wf (fst s') \<and> liability_ok (fst s')"
    by (cases s; cases s') (auto dest: payout_exec_wf payout_exec_liability)
qed

section \<open>The listing\<close>

definition failed_at :: "payout_ledger \<Rightarrow> nat \<Rightarrow> payout_record list" where
  "failed_at s i = (case payout_get s i of Some r \<Rightarrow> if po_status r = PoFailed then [r] else [] | None \<Rightarrow> [])"

lemma list_failed_loop_eq:
  assumes "length out \<le> limit"
  shows "list_failed_loop s end_id limit i budget out =
    out @ take (limit - length out) (concat (map (failed_at s) [i ..< min end_id (i + budget)]))"
  using assms
proof (induction s end_id limit i budget out rule: list_failed_loop.induct)
  case (1 s end_id limit i budget out)
  show ?case
  proof (cases "i < end_id \<and> length out < limit \<and> 0 < budget")
    case False
    with 1 show ?thesis by (subst list_failed_loop.simps) auto
  next
    case True
    let ?out = "case payout_get s i of Some r \<Rightarrow> if po_status r = PoFailed then out @ [r] else out | None \<Rightarrow> out"
    have out: "?out = out @ failed_at s i" by (simp add: failed_at_def split: option.split)
    have len: "length (failed_at s i) \<le> 1" by (simp add: failed_at_def split: option.split)
    then have fit: "take (limit - length out) (failed_at s i) = failed_at s i"
      using True by (intro take_all) arith
    have range: "[i ..< min end_id (i + budget)] = i # [i + 1 ..< min end_id (i + 1 + (budget - 1))]"
      using True by (subst upt_conv_Cons) auto
    have "list_failed_loop s end_id limit i budget out = list_failed_loop s end_id limit (i + 1) (budget - 1) ?out"
      using True by (subst list_failed_loop.simps) simp
    also have "\<dots> = ?out @ take (limit - length ?out)
        (concat (map (failed_at s) [i + 1 ..< min end_id (i + 1 + (budget - 1))]))"
      by (rule "1.IH" [OF True]) (use True len in \<open>simp add: out\<close>)
    finally show ?thesis using True len fit unfolding range out by simp
  qed
qed

section \<open>Properties\<close>

definition po_env :: "nat \<Rightarrow> env" where
  "po_env t = \<lparr>timestamp = t, ledger_seq = 0, auth = (\<lambda>_. True), this = 90\<rparr>"

text \<open>A token whose holder \<open>4\<close> is frozen before time 100.\<close>

definition po_tokens :: "nat tokens" where
  "po_tokens e w tok a b n = (if b = 4 \<and> timestamp e < 100 then (AnsError (SdkContract 11), w) else (AnsUnit, w + 1))"

definition po_txs :: "(env \<times> payout_call) list" where
  "po_txs = [(po_env 10, PoPay 9 4 250 0), (po_env 20, PoPay 9 5 100 0), (po_env 30, PoRetry 0),
     (po_env 40, PoPay 9 4 70 1), (po_env 120, PoRetry 0), (po_env 2600000, PoReclaim 1)]"

definition po_ledger :: payout_ledger where
  "po_ledger = \<lparr>py_next_id = Some 2,
     py_record = [0 \<mapsto> \<lparr>po_id = 0, po_token = 9, po_recipient = 4, po_amount = 250, po_status = PoPaid,
          po_reason = ToFrozen, po_attempts = 3, po_first_failed_at = 10, po_last_attempt_at = 120, po_context = 0\<rparr>,
        1 \<mapsto> \<lparr>po_id = 1, po_token = 9, po_recipient = 4, po_amount = 70, po_status = PoReclaimed,
          po_reason = ToFrozen, po_attempts = 1, po_first_failed_at = 40, po_last_attempt_at = 40, po_context = 1\<rparr>],
     py_liability = [9 \<mapsto> 0]\<rparr>"

lemma po_run: "py_run po_tokens po_txs 0 = (po_ledger, 2)"
  by (simp add: po_txs_def po_ledger_def po_env_def payout_empty_def pay_def payout_retry_def payout_reclaim_def
      payout_get_def try_transfer_def rolled_back_def po_tokens_def classify_answer_def classify_error_def
      classify_contract_code_def SAC_BALANCE_DEAUTHORIZED_def failed_record_def write_record_def add_liability_def
      sub_liability_def RECLAIM_TIMEOUT_SECS_def discard_def ok_or_def u64_add_def u64_sat_add_def u32_sat_add_def
      u64_max_def u32_max_def i128_clamp_def i128_max_def i128_min_def Let_def fun_upd_twist numeral_3_eq_3
      del: and_then_Ok_iff and_then_Err_iff and_then_Trap_iff)

text \<open>C14. The liability of a token is exact: after any history it is the sum of the amounts of the token's
records that are still failed, as long as all amounts ever recorded for the token fit into an \<open>i128\<close>;
so neither the saturating addition nor the clamping at zero ever hides an amount that is owed.\<close>

theorem liability_is_failed_sum:
  assumes "recorded_sum tok (fst (run_txs (payout_exec tokens) txs (payout_empty, w))) \<le> i128_max"
  shows "payout_liability (fst (run_txs (payout_exec tokens) txs (payout_empty, w))) tok =
    failed_sum tok (fst (run_txs (payout_exec tokens) txs (payout_empty, w)))"
  using lia.run_keeps [of "(payout_empty, w)" tokens txs] assms
  by (simp add: liability_ok_def payout_wf_def payout_empty_def payout_liability_def failed_sum_def payout_count_def)

theorem liability_is_failed_sum_witness: "payout_liability po_ledger 9 = failed_sum 9 po_ledger"
proof -
  have "recorded_sum 9 (fst (py_run po_tokens po_txs 0)) \<le> i128_max"
    by (simp add: po_run po_ledger_def recorded_sum_def recorded_part_def payout_count_def i128_max_def
        numeral_2_eq_2)
  from liability_is_failed_sum [OF this] show ?thesis by (simp add: po_run)
qed

text \<open>C15. A failed payout settles once: if a record is no longer failed after any history, the history has the
\<open>pay\<close> call that failed to transfer that amount of that token, and later the call that settled it,
which is a \<open>retry\<close> whose transfer of the whole amount to the recorded recipient succeeded when the
record is paid, and a \<open>reclaim\<close> at least 30 days after the first failure when it is reclaimed; the
record never changes again.\<close>

theorem payout_settles_once:
  assumes "py_record (fst (run_txs (payout_exec tokens) txs (payout_empty, w))) i = Some r" and "po_status r \<noteq> PoFailed"
  shows "\<exists>pre e0 a ctx mid e1 c1 post.
    txs = pre @ (e0, PoPay (po_token r) a (po_amount r) ctx) # mid @ (e1, c1) # post \<and>
    timestamp e0 = po_first_failed_at r \<and>
    (po_status r = PoPaid \<and> c1 = PoRetry i \<and>
       (\<exists>sw. run_txs (payout_exec tokens) (pre @ (e0, PoPay (po_token r) a (po_amount r) ctx) # mid) (payout_empty, w) = sw \<and>
         try_transfer tokens e1 (po_token r) (this e1) (po_recipient r) (po_amount r) (snd sw) =
           (ToSuccess, snd (state_after sw (payout_exec tokens e1 c1 sw)))) \<or>
     po_status r = PoReclaimed \<and> c1 = PoReclaim i \<and>
       u64_sat_add (po_first_failed_at r) RECLAIM_TIMEOUT_SECS \<le> timestamp e1) \<and>
    (\<forall>later. py_record (fst (run_txs (payout_exec tokens) (txs @ later) (payout_empty, w))) i = Some r)"
proof -
  let ?run = "\<lambda>xs. py_run tokens xs w"
  let ?set = "\<lambda>sw. \<exists>q. py_record (fst sw) i = Some q \<and> po_status q \<noteq> PoFailed"
  let ?ex = "\<lambda>sw. py_record (fst sw) i \<noteq> None"
  have new: "\<not> ?set (payout_empty, w)" "\<not> ?ex (payout_empty, w)" by (simp_all add: payout_empty_def)
  have "?set (?run txs)" using assms by blast
  from run_txs_origin [of ?set, OF this new(1)] obtain pre1 e1 c1 post u1 sw1 where
    o: "txs = pre1 @ (e1, c1) # post" "\<not> ?set (?run pre1)" "payout_exec tokens e1 c1 (?run pre1) = Ok (u1, sw1)" "?set sw1"
    by blast
  then have ex1: "payout_exec tokens e1 c1 (fst (?run pre1), snd (?run pre1)) = Ok (u1, (fst sw1, snd sw1))" by simp
  obtain q1 where q1: "py_record (fst sw1) i = Some q1" "po_status q1 \<noteq> PoFailed" using o(4) by blast
  obtain q0 where q0: "py_record (fst (?run pre1)) i = Some q0"
    using payout_exec_new [OF ex1 py_run_wf _ q1(1)] q1(2) by blast
  then have q0f: "po_status q0 = PoFailed" using o(2) by blast
  note step = payout_exec_settles [OF ex1 py_run_wf q0 q0f q1]
  have run_sw1: "?run (txs @ later) = run_txs (payout_exec tokens) (post @ later) sw1" for later
    using o(1,3) by (simp add: run_txs_append)
  have "record_after i q1 (fst (run_txs (payout_exec tokens) (post @ later) sw1))" for later
    by (rule after.run_keeps) (use payout_exec_wf [OF ex1 py_run_wf] q1(1) in \<open>simp add: record_after_def\<close>)
  then have frozen: "py_record (fst (?run (txs @ later))) i = Some q1" for later
    unfolding run_sw1 record_after_def using q1(2) by blast
  from frozen [of "[]"] assms(1) have r: "q1 = r" by simp
  have "?ex (?run pre1)" using q0 by simp
  from run_txs_origin [of ?ex, OF this new(2)] obtain pre e0 c0 mid u0 sw0 where
    p: "pre1 = pre @ (e0, c0) # mid" "\<not> ?ex (?run pre)" "payout_exec tokens e0 c0 (?run pre) = Ok (u0, sw0)" "?ex sw0"
    by blast
  then have ex0: "payout_exec tokens e0 c0 (fst (?run pre), snd (?run pre)) = Ok (u0, (fst sw0, snd sw0))" by simp
  obtain p0 where p0: "py_record (fst sw0) i = Some p0" using p(4) by blast
  from payout_exec_new [OF ex0 py_run_wf _ p0] p(2) obtain a ctx where
    c0: "c0 = PoPay (po_token p0) a (po_amount p0) ctx" "po_first_failed_at p0 = timestamp e0" by auto
  have "record_after i p0 (fst (run_txs (payout_exec tokens) mid sw0))"
    by (rule after.run_keeps) (use payout_exec_wf [OF ex0 py_run_wf] p0 in \<open>simp add: record_after_def\<close>)
  then have "payout_terms q0 = payout_terms p0" using p(1,3) q0 by (simp add: run_txs_append record_after_def)
  with step(1) r have t: "payout_terms r = payout_terms p0" by simp
  show ?thesis
    using o(1,3) p(1) c0 t step(2) frozen r unfolding payout_terms_def
    by (intro exI [of _ pre] exI [of _ e0] exI [of _ a] exI [of _ ctx] exI [of _ mid] exI [of _ e1]
        exI [of _ c1] exI [of _ post]) auto
qed

theorem payout_settles_once_witness:
  "\<exists>pre e0 a ctx mid e1 c1 post. po_txs = pre @ (e0, PoPay 9 a 70 ctx) # mid @ (e1, c1) # post \<and>
     timestamp e0 = 40 \<and> c1 = PoReclaim 1"
proof -
  have "py_record (fst (py_run po_tokens po_txs 0)) 1 = Some (the (py_record po_ledger 1))"
    by (simp add: po_run po_ledger_def)
  from payout_settles_once [OF this] show ?thesis by (fastforce simp: po_ledger_def)
qed

text \<open>C16. The paged listing is the plain filter: \<open>list_failed\<close> returns the records that are still failed among the
ids of its window, in order and cut to the limit, where the window is at most four times the capped
limit long; its loop always ends.\<close>

theorem list_failed_spec:
  "list_failed start_id limit s =
    (let n = min limit 50 in
     take n (concat (map (failed_at s) [start_id ..< min (payout_count s) (start_id + 4 * n)])))"
  by (simp add: list_failed_def list_failed_loop_eq MAX_LIST_LIMIT_def u64_sat_mul_def u64_max_def Let_def mult.commute)

end
