(* ===== verification/Payout_Registry.thy ===== *)
theory Payout_Registry
  imports Soroban
begin

text \<open>
  \<open>payout_registry/src/lib.rs\<close>, the \<open>RefractPayoutRegistry\<close> contract: the index of bounty and
  grant payouts per recipient.  \<open>payout_registry\<close> has one field per storage key (\<open>None\<close> = key
  absent), with one definition per entry point and the dispatcher \<open>payout_registry_exec\<close> over
  all of them, which keeps the index that recording returns.

  The specification is the plain log of accepted payouts, \<open>payout_book\<close>: \<open>book_exec\<close> appends to
  it, and every counter, index and total of the contract is a function of it (\<open>index_of\<close>).  The
  refinement lemma \<open>payout_registry_exec_index_of\<close> shows that each entry point does on
  \<open>index_of b\<close> what the specification does on \<open>b\<close>, errors and panics included.

  The host panics when the time to live of a missing entry is extended; \<open>extend_record_ttl\<close>
  models that.  How long an entry lives is not modelled.
\<close>

section \<open>State\<close>

definition MAX_PAGE_SIZE :: nat where "MAX_PAGE_SIZE = 50"

datatype payout_registry_error =
  PrAlreadyInitialized | PrNotInitialized | PrUnauthorized | PrInvalidAmount | PrPayoutNotFound | PrNoPendingAdmin

type_synonym reference = nat

record payout_entry =
  pe_recipient :: address
  pe_source :: symbol
  pe_amount :: int
  pe_asset :: address
  pe_reference_id :: reference
  pe_ledger :: nat
  pe_timestamp :: nat

record payout_request =
  rq_recipient :: address
  rq_source :: symbol
  rq_amount :: int
  rq_asset :: address
  rq_reference_id :: reference

record payout_registry =
  pr_admin :: "address option"
  pr_pending_admin :: "address option"
  pr_writer :: "address \<Rightarrow> bool option"
  pr_count :: "address \<Rightarrow> nat option"
  pr_payout :: "address \<Rightarrow> nat \<Rightarrow> payout_entry option"
  pr_reference :: "reference \<Rightarrow> (address \<times> nat) option"
  pr_asset_total :: "address \<Rightarrow> address \<Rightarrow> int option"
  pr_total_payouts :: "nat option"

definition payout_registry_undeployed :: payout_registry where
  "payout_registry_undeployed = \<lparr>pr_admin = None, pr_pending_admin = None, pr_writer = Map.empty,
     pr_count = Map.empty, pr_payout = (\<lambda>_. Map.empty), pr_reference = Map.empty,
     pr_asset_total = (\<lambda>_. Map.empty), pr_total_payouts = None\<rparr>"

section \<open>Entry points\<close>

definition payout_registry_initialize ::
  "address \<Rightarrow> payout_registry \<Rightarrow> (payout_registry_error, unit \<times> payout_registry) outcome" where
  "payout_registry_initialize admin s =
     (if pr_admin s \<noteq> None then Err PrAlreadyInitialized
      else Ok ((), s\<lparr>pr_admin := Some admin, pr_total_payouts := Some 0\<rparr>))"

definition payout_registry_require_admin ::
  "env \<Rightarrow> address \<Rightarrow> payout_registry \<Rightarrow> (payout_registry_error, unit) outcome" where
  "payout_registry_require_admin e caller s =
     and_then (require_auth e caller) (\<lambda>_.
     and_then (ok_or (pr_admin s) PrNotInitialized) (\<lambda>admin.
     if admin \<noteq> caller then Err PrUnauthorized else Ok ()))"

definition payout_registry_propose_admin ::
  "env \<Rightarrow> address \<Rightarrow> address \<Rightarrow> payout_registry \<Rightarrow> (payout_registry_error, unit \<times> payout_registry) outcome" where
  "payout_registry_propose_admin e caller new_admin s =
     and_then (payout_registry_require_admin e caller s) (\<lambda>_. Ok ((), s\<lparr>pr_pending_admin := Some new_admin\<rparr>))"

definition payout_registry_accept_admin ::
  "env \<Rightarrow> address \<Rightarrow> payout_registry \<Rightarrow> (payout_registry_error, unit \<times> payout_registry) outcome" where
  "payout_registry_accept_admin e caller s =
     and_then (require_auth e caller) (\<lambda>_.
     and_then (ok_or (pr_pending_admin s) PrNoPendingAdmin) (\<lambda>pending.
     if pending \<noteq> caller then Err PrUnauthorized
     else Ok ((), s\<lparr>pr_admin := Some caller, pr_pending_admin := None\<rparr>)))"

definition register_writer ::
  "env \<Rightarrow> address \<Rightarrow> address \<Rightarrow> payout_registry \<Rightarrow> (payout_registry_error, unit \<times> payout_registry) outcome" where
  "register_writer e caller writer s =
     and_then (payout_registry_require_admin e caller s) (\<lambda>_. Ok ((), s\<lparr>pr_writer := (pr_writer s)(writer \<mapsto> True)\<rparr>))"

definition add_writer where "add_writer e caller writer s = register_writer e caller writer s"

definition deregister_writer ::
  "env \<Rightarrow> address \<Rightarrow> address \<Rightarrow> payout_registry \<Rightarrow> (payout_registry_error, unit \<times> payout_registry) outcome" where
  "deregister_writer e caller writer s =
     and_then (payout_registry_require_admin e caller s) (\<lambda>_. Ok ((), s\<lparr>pr_writer := (pr_writer s)(writer \<mapsto> False)\<rparr>))"

definition remove_writer where "remove_writer e caller writer s = deregister_writer e caller writer s"

definition is_writer :: "payout_registry \<Rightarrow> address \<Rightarrow> bool" where
  "is_writer s writer = unwrap_or (pr_writer s writer) False"

definition extend_record_ttl ::
  "address \<Rightarrow> nat \<Rightarrow> reference \<Rightarrow> address \<Rightarrow> payout_registry \<Rightarrow> (payout_registry_error, unit) outcome" where
  "extend_record_ttl recipient idx reference_id asset s =
     (if pr_payout s recipient idx = None \<or> pr_count s recipient = None \<or>
         pr_reference s reference_id = None \<or> pr_asset_total s recipient asset = None
      then Trap else Ok ())"

definition record_payout_internal ::
  "env \<Rightarrow> address \<Rightarrow> address \<Rightarrow> symbol \<Rightarrow> int \<Rightarrow> address \<Rightarrow> reference \<Rightarrow> nat \<Rightarrow> payout_registry \<Rightarrow>
     (payout_registry_error, nat \<times> payout_registry) outcome" where
  "record_payout_internal e caller recipient source amount asset reference_id ledger s =
     and_then (require_auth e caller) (\<lambda>_.
     if \<not> is_writer s caller then Err PrUnauthorized
     else if amount \<le> 0 then Err PrInvalidAmount
     else case pr_reference s reference_id of
       Some (existing_recipient, existing_idx) \<Rightarrow>
         and_then (extend_record_ttl existing_recipient existing_idx reference_id asset s) (\<lambda>_.
         Ok (existing_idx, s))
     | None \<Rightarrow>
         let count = unwrap_or (pr_count s recipient) 0;
             entry = \<lparr>pe_recipient = recipient, pe_source = source, pe_amount = amount, pe_asset = asset,
               pe_reference_id = reference_id, pe_ledger = ledger, pe_timestamp = timestamp e\<rparr>;
             s = s\<lparr>pr_payout := (pr_payout s)(recipient := (pr_payout s recipient)(count \<mapsto> entry))\<rparr> in
         and_then (ok_or (if count + 1 \<le> u32_max then Some (count + 1) else None) PrInvalidAmount) (\<lambda>next_count.
         let s = s\<lparr>pr_count := (pr_count s)(recipient \<mapsto> next_count),
               pr_reference := (pr_reference s)(reference_id \<mapsto> (recipient, count))\<rparr>;
             current_asset_total = unwrap_or (pr_asset_total s recipient asset) 0 in
         and_then (ok_or (i128_opt (current_asset_total + amount)) PrInvalidAmount) (\<lambda>new_asset_total.
         let s = s\<lparr>pr_asset_total := (pr_asset_total s)(recipient := (pr_asset_total s recipient)(asset \<mapsto> new_asset_total))\<rparr> in
         and_then (u64_add (unwrap_or (pr_total_payouts s) 0) 1) (\<lambda>total_payouts.
         let s = s\<lparr>pr_total_payouts := Some total_payouts\<rparr> in
         and_then (extend_record_ttl recipient count reference_id asset s) (\<lambda>_.
         Ok (count, s))))))"

definition record_payout where
  "record_payout e caller recipient source amount asset reference_id s =
     record_payout_internal e caller recipient source amount asset reference_id (ledger_seq e) s"

definition record_payout_with_ledger where
  "record_payout_with_ledger e caller recipient source amount asset reference_id ledger s =
     record_payout_internal e caller recipient source amount asset reference_id ledger s"

definition register_payout where
  "register_payout e caller req s =
     record_payout_internal e caller (rq_recipient req) (rq_source req) (rq_amount req) (rq_asset req)
       (rq_reference_id req) (ledger_seq e) s"

subsection \<open>Queries\<close>

definition payout_registry_admin :: "payout_registry \<Rightarrow> address option" where
  "payout_registry_admin s = pr_admin s"

definition payout_registry_pending_admin :: "payout_registry \<Rightarrow> address option" where
  "payout_registry_pending_admin s = pr_pending_admin s"

definition get_payout_history :: "payout_registry \<Rightarrow> address \<Rightarrow> nat \<Rightarrow> nat \<Rightarrow> payout_entry list" where
  "get_payout_history s recipient start limit =
     (if limit = 0 then []
      else
        let effective_limit = min limit MAX_PAGE_SIZE; total_count = unwrap_or (pr_count s recipient) 0 in
        if total_count \<le> start then []
        else
          let end_idx = min (u32_sat_add start effective_limit) total_count in
          concat (map (\<lambda>idx. case pr_payout s recipient idx of Some r \<Rightarrow> [r] | None \<Rightarrow> []) [start ..< end_idx]))"

definition get_payouts where "get_payouts s recipient start limit = get_payout_history s recipient start limit"

definition get_recipient_payout_count :: "payout_registry \<Rightarrow> address \<Rightarrow> nat" where
  "get_recipient_payout_count s recipient = unwrap_or (pr_count s recipient) 0"

definition get_payout_count where "get_payout_count s recipient = get_recipient_payout_count s recipient"

definition get_total_by_asset :: "payout_registry \<Rightarrow> address \<Rightarrow> address \<Rightarrow> int" where
  "get_total_by_asset s recipient asset = unwrap_or (pr_asset_total s recipient asset) 0"

definition get_recipient_total_by_asset where
  "get_recipient_total_by_asset s recipient asset = get_total_by_asset s recipient asset"

definition get_payout_by_reference ::
  "payout_registry \<Rightarrow> reference \<Rightarrow> (payout_registry_error, payout_entry) outcome" where
  "get_payout_by_reference s reference_id =
     and_then (ok_or (pr_reference s reference_id) PrPayoutNotFound) (\<lambda>(recipient, idx).
     ok_or (pr_payout s recipient idx) PrPayoutNotFound)"

definition get_payout where "get_payout s reference_id = get_payout_by_reference s reference_id"

definition find_payout :: "payout_registry \<Rightarrow> reference \<Rightarrow> payout_entry option" where
  "find_payout s reference_id = (case get_payout_by_reference s reference_id of Ok r \<Rightarrow> Some r | _ \<Rightarrow> None)"

definition get_total_payouts :: "payout_registry \<Rightarrow> nat" where
  "get_total_payouts s = unwrap_or (pr_total_payouts s) 0"

subsection \<open>All entry points\<close>

datatype payout_registry_call =
  PrInitialize address
| PrProposeAdmin address address
| PrAcceptAdmin address
| PrRegisterWriter address address
| PrAddWriter address address
| PrDeregisterWriter address address
| PrRemoveWriter address address
| PrRecord address address symbol int address reference
| PrRecordWithLedger address address symbol int address reference nat
| PrRegister address payout_request

definition no_index :: "('e, unit \<times> 's) outcome \<Rightarrow> ('e, nat option \<times> 's) outcome" where
  "no_index r = and_then r (\<lambda>(_, s). Ok (None, s))"

definition with_index :: "('e, nat \<times> 's) outcome \<Rightarrow> ('e, nat option \<times> 's) outcome" where
  "with_index r = and_then r (\<lambda>(i, s). Ok (Some i, s))"

fun payout_registry_exec ::
  "env \<Rightarrow> payout_registry_call \<Rightarrow> payout_registry \<Rightarrow> (payout_registry_error, nat option \<times> payout_registry) outcome" where
  "payout_registry_exec e (PrInitialize a) s = no_index (payout_registry_initialize a s)"
| "payout_registry_exec e (PrProposeAdmin c a) s = no_index (payout_registry_propose_admin e c a s)"
| "payout_registry_exec e (PrAcceptAdmin c) s = no_index (payout_registry_accept_admin e c s)"
| "payout_registry_exec e (PrRegisterWriter c a) s = no_index (register_writer e c a s)"
| "payout_registry_exec e (PrAddWriter c a) s = no_index (add_writer e c a s)"
| "payout_registry_exec e (PrDeregisterWriter c a) s = no_index (deregister_writer e c a s)"
| "payout_registry_exec e (PrRemoveWriter c a) s = no_index (remove_writer e c a s)"
| "payout_registry_exec e (PrRecord c r src n a i) s = with_index (record_payout e c r src n a i s)"
| "payout_registry_exec e (PrRecordWithLedger c r src n a i l) s = with_index (record_payout_with_ledger e c r src n a i l s)"
| "payout_registry_exec e (PrRegister c q) s = with_index (register_payout e c q s)"

section \<open>The specification: a log\<close>

record payout_book =
  bk_admin :: "address option"
  bk_pending_admin :: "address option"
  bk_writer :: "address \<Rightarrow> bool option"
  bk_log :: "payout_entry list"

definition book_empty :: payout_book where
  "book_empty = \<lparr>bk_admin = None, bk_pending_admin = None, bk_writer = Map.empty, bk_log = []\<rparr>"

definition paid_to :: "payout_entry list \<Rightarrow> address \<Rightarrow> payout_entry list" where
  "paid_to log recipient = filter (\<lambda>p. pe_recipient p = recipient) log"

definition paid_in :: "payout_entry list \<Rightarrow> address \<Rightarrow> address \<Rightarrow> int list" where
  "paid_in log recipient asset = map pe_amount (filter (\<lambda>p. pe_asset p = asset) (paid_to log recipient))"

definition logged :: "payout_entry list \<Rightarrow> reference \<Rightarrow> payout_entry option" where
  "logged log i = find (\<lambda>p. pe_reference_id p = i) log"

fun index_in :: "payout_entry list \<Rightarrow> reference \<Rightarrow> nat" where
  "index_in [] i = 0"
| "index_in (p # ps) i = (if pe_reference_id p = i then 0 else Suc (index_in ps i))"

text \<open>A payout is accepted when a writer reports it with a positive amount under a new reference
and the counters have room; a known reference answers with the place of its payout.\<close>

definition book_accept ::
  "env \<Rightarrow> address \<Rightarrow> payout_request \<Rightarrow> nat \<Rightarrow> payout_book \<Rightarrow> (payout_registry_error, nat option \<times> payout_book) outcome" where
  "book_accept e caller q ledger b =
     (let log = bk_log b; r = rq_recipient q in
      if \<not> auth e caller then Trap
      else if bk_writer b caller \<noteq> Some True then Err PrUnauthorized
      else if rq_amount q \<le> 0 then Err PrInvalidAmount
      else case logged log (rq_reference_id q) of
        Some p \<Rightarrow>
          if paid_in log (pe_recipient p) (rq_asset q) = [] then Trap
          else Ok (Some (index_in (paid_to log (pe_recipient p)) (rq_reference_id q)), b)
      | None \<Rightarrow>
          if u32_max \<le> length (paid_to log r) \<or> i128_max < sum_list (paid_in log r (rq_asset q)) + rq_amount q
          then Err PrInvalidAmount
          else if u64_max \<le> length log then Trap
          else Ok (Some (length (paid_to log r)), b\<lparr>bk_log := log @ [\<lparr>pe_recipient = r, pe_source = rq_source q,
            pe_amount = rq_amount q, pe_asset = rq_asset q, pe_reference_id = rq_reference_id q,
            pe_ledger = ledger, pe_timestamp = timestamp e\<rparr>]\<rparr>))"

definition book_admin_only ::
  "env \<Rightarrow> address \<Rightarrow> payout_book \<Rightarrow> payout_book \<Rightarrow> (payout_registry_error, nat option \<times> payout_book) outcome" where
  "book_admin_only e caller b b' =
     (if \<not> auth e caller then Trap
      else if bk_admin b = None then Err PrNotInitialized
      else if bk_admin b \<noteq> Some caller then Err PrUnauthorized
      else Ok (None, b'))"

fun book_exec ::
  "env \<Rightarrow> payout_registry_call \<Rightarrow> payout_book \<Rightarrow> (payout_registry_error, nat option \<times> payout_book) outcome" where
  "book_exec e (PrInitialize a) b =
     (if bk_admin b \<noteq> None then Err PrAlreadyInitialized else Ok (None, b\<lparr>bk_admin := Some a\<rparr>))"
| "book_exec e (PrProposeAdmin c a) b = book_admin_only e c b (b\<lparr>bk_pending_admin := Some a\<rparr>)"
| "book_exec e (PrAcceptAdmin c) b =
     (if \<not> auth e c then Trap
      else if bk_pending_admin b = None then Err PrNoPendingAdmin
      else if bk_pending_admin b \<noteq> Some c then Err PrUnauthorized
      else Ok (None, b\<lparr>bk_admin := Some c, bk_pending_admin := None\<rparr>))"
| "book_exec e (PrRegisterWriter c a) b = book_admin_only e c b (b\<lparr>bk_writer := (bk_writer b)(a \<mapsto> True)\<rparr>)"
| "book_exec e (PrAddWriter c a) b = book_admin_only e c b (b\<lparr>bk_writer := (bk_writer b)(a \<mapsto> True)\<rparr>)"
| "book_exec e (PrDeregisterWriter c a) b = book_admin_only e c b (b\<lparr>bk_writer := (bk_writer b)(a \<mapsto> False)\<rparr>)"
| "book_exec e (PrRemoveWriter c a) b = book_admin_only e c b (b\<lparr>bk_writer := (bk_writer b)(a \<mapsto> False)\<rparr>)"
| "book_exec e (PrRecord c r src n a i) b = book_accept e c
     \<lparr>rq_recipient = r, rq_source = src, rq_amount = n, rq_asset = a, rq_reference_id = i\<rparr> (ledger_seq e) b"
| "book_exec e (PrRecordWithLedger c r src n a i l) b = book_accept e c
     \<lparr>rq_recipient = r, rq_source = src, rq_amount = n, rq_asset = a, rq_reference_id = i\<rparr> l b"
| "book_exec e (PrRegister c q) b = book_accept e c q (ledger_seq e) b"

text \<open>The contract state that indexes a book.\<close>

definition nonempty_opt :: "'a list \<Rightarrow> 'b \<Rightarrow> 'b option" where
  "nonempty_opt xs v = (if xs = [] then None else Some v)"

definition index_of :: "payout_book \<Rightarrow> payout_registry" where
  "index_of b =
     (let log = bk_log b in
      \<lparr>pr_admin = bk_admin b, pr_pending_admin = bk_pending_admin b, pr_writer = bk_writer b,
       pr_count = (\<lambda>r. nonempty_opt (paid_to log r) (length (paid_to log r))),
       pr_payout = (\<lambda>r i. if i < length (paid_to log r) then Some (paid_to log r ! i) else None),
       pr_reference = (\<lambda>i. map_option (\<lambda>p. (pe_recipient p, index_in (paid_to log (pe_recipient p)) i)) (logged log i)),
       pr_asset_total = (\<lambda>r a. nonempty_opt (paid_in log r a) (sum_list (paid_in log r a))),
       pr_total_payouts = map_option (\<lambda>_. length log) (bk_admin b)\<rparr>)"

text \<open>In every book the contract can reach, the references are distinct, the amounts positive, and
nothing is set before the initialization.\<close>

definition book_wf :: "payout_book \<Rightarrow> bool" where
  "book_wf b \<longleftrightarrow> distinct (map pe_reference_id (bk_log b)) \<and> (\<forall>p\<in>set (bk_log b). 0 < pe_amount p) \<and>
     (bk_admin b = None \<longrightarrow> bk_pending_admin b = None \<and> bk_writer b = Map.empty \<and> bk_log b = [])"

section \<open>The refinement\<close>

subsection \<open>Logs\<close>

lemma paid_to_simps [simp]:
  "paid_to [] r = []"
  "paid_to (xs @ ys) r = paid_to xs r @ paid_to ys r"
  "paid_to [p] r = (if pe_recipient p = r then [p] else [])"
  by (simp_all add: paid_to_def)

lemma paid_in_simps [simp]:
  "paid_in [] r a = []"
  "paid_in (xs @ ys) r a = paid_in xs r a @ paid_in ys r a"
  "paid_in [p] r a = (if pe_recipient p = r \<and> pe_asset p = a then [pe_amount p] else [])"
  by (simp_all add: paid_in_def)

lemma logged_Some: "logged log i = Some p \<Longrightarrow> p \<in> set log \<and> pe_reference_id p = i"
  by (auto simp: logged_def find_Some_iff)

lemma logged_None: "logged log i = None \<longleftrightarrow> i \<notin> pe_reference_id ` set log"
  by (auto simp: logged_def find_None_iff)

lemma logged_append: "logged (xs @ ys) i = (case logged xs i of Some p \<Rightarrow> Some p | None \<Rightarrow> logged ys i)"
  by (induction xs) (simp_all add: logged_def)

lemma logged_single: "logged [p] i = (if pe_reference_id p = i then Some p else None)"
  by (simp add: logged_def)

lemma index_in_append:
  "index_in (xs @ ys) i = (if i \<in> pe_reference_id ` set xs then index_in xs i else length xs + index_in ys i)"
  by (induction xs) auto

lemma index_in_less: "i \<in> pe_reference_id ` set xs \<longleftrightarrow> index_in xs i < length xs"
  by (induction xs) auto

lemma index_in_nth: "i \<in> pe_reference_id ` set xs \<Longrightarrow> pe_reference_id (xs ! index_in xs i) = i"
  by (induction xs) auto

lemma index_in_paid_to:
  assumes "logged log i = Some p"
  shows "index_in (paid_to log (pe_recipient p)) i < length (paid_to log (pe_recipient p))"
proof -
  have "p \<in> set (paid_to log (pe_recipient p))" "pe_reference_id p = i"
    using logged_Some [OF assms] by (simp_all add: paid_to_def)
  then show ?thesis using index_in_less [of i "paid_to log (pe_recipient p)"] by blast
qed

lemma paid_in_nonneg: "book_wf b \<Longrightarrow> 0 \<le> sum_list (paid_in (bk_log b) r a)"
  unfolding paid_in_def paid_to_def book_wf_def by (intro sum_list_nonneg) (auto simp: less_imp_le)

subsection \<open>Recording\<close>

definition indexed_outcome ::
  "(payout_registry_error, nat option \<times> payout_book) outcome \<Rightarrow>
     (payout_registry_error, nat option \<times> payout_registry) outcome" where
  "indexed_outcome r = and_then r (\<lambda>(v, b). Ok (v, index_of b))"

lemma index_of_append:
  assumes "logged (bk_log b) (pe_reference_id p) = None" and "bk_admin b \<noteq> None"
  shows "index_of (b\<lparr>bk_log := bk_log b @ [p]\<rparr>) =
    (let s = index_of b; r = pe_recipient p; n = length (paid_to (bk_log b) r) in
     s\<lparr>pr_payout := (pr_payout s)(r := (pr_payout s r)(n \<mapsto> p)),
       pr_count := (pr_count s)(r \<mapsto> n + 1),
       pr_reference := (pr_reference s)(pe_reference_id p \<mapsto> (r, n)),
       pr_asset_total := (pr_asset_total s)(r := (pr_asset_total s r)(pe_asset p \<mapsto>
         sum_list (paid_in (bk_log b) r (pe_asset p)) + pe_amount p)),
       pr_total_payouts := Some (length (bk_log b) + 1)\<rparr>)"
proof -
  have new: "pe_reference_id p \<notin> pe_reference_id ` set (paid_to (bk_log b) r)" for r
    using assms(1) by (auto simp: logged_None paid_to_def)
  have old: "i \<in> pe_reference_id ` set (paid_to (bk_log b) (pe_recipient q))" if "logged (bk_log b) i = Some q" for i q
    using logged_Some [OF that] by (auto simp: paid_to_def)
  have "map_option (\<lambda>q. (pe_recipient q, index_in (paid_to (bk_log b @ [p]) (pe_recipient q)) i)) (logged (bk_log b @ [p]) i) =
    ((\<lambda>i. map_option (\<lambda>q. (pe_recipient q, index_in (paid_to (bk_log b) (pe_recipient q)) i)) (logged (bk_log b) i))
      (pe_reference_id p \<mapsto> (pe_recipient p, length (paid_to (bk_log b) (pe_recipient p))))) i" for i
    using assms(1) new [of "pe_recipient p"] old [of i]
    by (cases "logged (bk_log b) i") (auto simp: logged_append index_in_append logged_single)
  moreover have "(\<lambda>i. if i < length (paid_to (bk_log b @ [p]) r) then Some (paid_to (bk_log b @ [p]) r ! i) else None) =
    (if r = pe_recipient p then (\<lambda>i. if i < length (paid_to (bk_log b) r) then Some (paid_to (bk_log b) r ! i) else None)
        (length (paid_to (bk_log b) r) \<mapsto> p)
     else (\<lambda>i. if i < length (paid_to (bk_log b) r) then Some (paid_to (bk_log b) r ! i) else None))" for r
    by (auto simp: fun_eq_iff nth_append)
  ultimately show ?thesis using assms(2)
    by (auto simp: index_of_def Let_def nonempty_opt_def fun_eq_iff)
qed

lemma record_payout_index_of:
  assumes "book_wf b"
  shows "with_index (record_payout_internal e c (rq_recipient q) (rq_source q) (rq_amount q) (rq_asset q)
      (rq_reference_id q) l (index_of b)) = indexed_outcome (book_accept e c q l b)"
proof (cases "auth e c \<and> bk_writer b c = Some True \<and> 0 < rq_amount q")
  case False
  then show ?thesis
    by (auto simp: record_payout_internal_def book_accept_def with_index_def indexed_outcome_def require_auth_def
        is_writer_def index_of_def Let_def unwrap_or_def
        simp del: and_then_Ok_iff and_then_Err_iff and_then_Trap_iff split: option.splits)
next
  case True
  let ?log = "bk_log b" and ?r = "rq_recipient q" and ?a = "rq_asset q"
  let ?old = "sum_list (paid_in ?log ?r ?a)"
  have writer: "is_writer (index_of b) c" using True by (simp add: is_writer_def index_of_def Let_def)
  show ?thesis
  proof (cases "logged ?log (rq_reference_id q)")
    case (Some p)
    then show ?thesis using True writer index_in_paid_to [OF Some]
      by (auto simp: record_payout_internal_def book_accept_def with_index_def indexed_outcome_def require_auth_def
          extend_record_ttl_def index_of_def Let_def nonempty_opt_def
          simp del: and_then_Ok_iff and_then_Err_iff and_then_Trap_iff)
  next
    case None
    have adm: "bk_admin b \<noteq> None" using assms True by (auto simp: book_wf_def)
    have nonneg: "0 \<le> ?old" by (rule paid_in_nonneg [OF assms])
    have fits: "in_i128 (?old + rq_amount q) \<longleftrightarrow> ?old + rq_amount q \<le> i128_max"
      using nonneg True by (auto simp: in_i128_def i128_min_def)
    have sel: "pr_reference (index_of b) (rq_reference_id q) = None"
      "unwrap_or (pr_count (index_of b) ?r) 0 = length (paid_to ?log ?r)"
      "unwrap_or (pr_asset_total (index_of b) ?r ?a) 0 = ?old"
      "unwrap_or (pr_total_payouts (index_of b)) 0 = length ?log"
      using None adm by (auto simp: index_of_def Let_def nonempty_opt_def unwrap_or_def split: option.splits)
    show ?thesis using True writer None sel fits adm nonneg
      by (auto simp: record_payout_internal_def book_accept_def with_index_def indexed_outcome_def require_auth_def
          extend_record_ttl_def Let_def i128_opt_def ok_or_def u64_add_def index_of_append
          simp del: and_then_Ok_iff and_then_Err_iff and_then_Trap_iff)
  qed
qed

lemma payout_registry_exec_index_of:
  assumes "book_wf b"
  shows "payout_registry_exec e c (index_of b) = indexed_outcome (book_exec e c b)"
proof -
  have rec: "with_index (record_payout_internal e x r src n a i l (index_of b)) = indexed_outcome (book_accept e x
      \<lparr>rq_recipient = r, rq_source = src, rq_amount = n, rq_asset = a, rq_reference_id = i\<rparr> l b)" for x r src n a i l
    using record_payout_index_of [OF assms, of e x
      "\<lparr>rq_recipient = r, rq_source = src, rq_amount = n, rq_asset = a, rq_reference_id = i\<rparr>" l] by simp
  have sel: "pr_admin (index_of b) = bk_admin b" "pr_pending_admin (index_of b) = bk_pending_admin b"
    "pr_writer (index_of b) = bk_writer b" by (simp_all add: index_of_def Let_def)
  have admin: "and_then (payout_registry_require_admin e x (index_of b)) (\<lambda>_. Ok (None, index_of b')) =
      indexed_outcome (book_admin_only e x b b')" for x and b' :: payout_book
    by (auto simp: payout_registry_require_admin_def book_admin_only_def require_auth_def indexed_outcome_def sel
        ok_or_def simp del: and_then_Ok_iff and_then_Err_iff and_then_Trap_iff split: option.splits)
  have upd: "index_of (b\<lparr>bk_pending_admin := x\<rparr>) = (index_of b)\<lparr>pr_pending_admin := x\<rparr>"
    "index_of (b\<lparr>bk_writer := f\<rparr>) = (index_of b)\<lparr>pr_writer := f\<rparr>" for x f
    by (simp_all add: index_of_def Let_def)
  have assoc: "no_index (and_then r (\<lambda>_. Ok ((), s))) = and_then r (\<lambda>_. Ok (None, s))"
    for r :: "(payout_registry_error, unit) outcome" and s :: payout_registry
    by (cases r) (simp_all add: no_index_def)
  show ?thesis
  proof (cases c)
    case (PrInitialize a)
    then show ?thesis using assms
      by (cases "bk_admin b") (simp_all add: payout_registry_initialize_def no_index_def indexed_outcome_def sel
          index_of_def book_wf_def Let_def)
  next
    case (PrAcceptAdmin a)
    show ?thesis
    proof (cases "bk_admin b")
      case None
      with assms have "bk_pending_admin b = None" by (simp add: book_wf_def)
      then show ?thesis using PrAcceptAdmin
        by (simp add: payout_registry_accept_admin_def no_index_def indexed_outcome_def require_auth_def sel ok_or_def)
    next
      case (Some x)
      then have "index_of (b\<lparr>bk_admin := Some a, bk_pending_admin := None\<rparr>) =
          (index_of b)\<lparr>pr_admin := Some a, pr_pending_admin := None\<rparr>"
        by (simp add: index_of_def Let_def)
      then show ?thesis using PrAcceptAdmin
        by (cases "bk_pending_admin b") (auto simp: payout_registry_accept_admin_def no_index_def indexed_outcome_def
          require_auth_def sel ok_or_def
          simp del: and_then_Ok_iff and_then_Err_iff and_then_Trap_iff)
    qed
  qed (simp_all add: rec record_payout_def record_payout_with_ledger_def register_payout_def
      record_payout_index_of [OF assms] payout_registry_propose_admin_def register_writer_def add_writer_def
      deregister_writer_def remove_writer_def assoc sel upd flip: admin)
qed

lemma book_exec_wf: "book_wf b \<Longrightarrow> book_exec e c b = Ok (v, b') \<Longrightarrow> book_wf b'"
  by (cases c) (auto simp: book_wf_def book_accept_def book_admin_only_def logged_None Let_def
      split: if_splits option.splits)

interpretation book: contract_invariant book_exec book_wf
  by unfold_locales (rule book_exec_wf)

lemma book_empty_wf [simp]: "book_wf book_empty"
  by (simp add: book_wf_def book_empty_def)

lemma index_of_empty: "index_of book_empty = payout_registry_undeployed"
  by (simp add: index_of_def book_empty_def payout_registry_undeployed_def nonempty_opt_def logged_def)

lemma run_index_of:
  assumes "book_wf b"
  shows "run_txs payout_registry_exec txs (index_of b) = index_of (run_txs book_exec txs b)"
  using assms
proof (induction txs arbitrary: b)
  case (Cons tx txs)
  obtain e c where tx: "tx = (e, c)" by (cases tx)
  have "state_after (index_of b) (payout_registry_exec e c (index_of b)) = index_of (state_after b (book_exec e c b))"
    unfolding payout_registry_exec_index_of [OF Cons.prems]
    by (cases "book_exec e c b") (auto simp: indexed_outcome_def)
  moreover have "book_wf (state_after b (book_exec e c b))"
    using book.run_keeps [OF Cons.prems, of "[(e, c)]"] by simp
  ultimately show ?case using Cons.IH tx by simp
qed simp

lemma run_index_of_empty:
  "run_txs payout_registry_exec txs payout_registry_undeployed = index_of (run_txs book_exec txs book_empty)"
  using run_index_of [OF book_empty_wf] by (simp add: index_of_empty)

lemma run_book_wf: "book_wf (run_txs book_exec txs book_empty)"
  by (rule book.run_keeps) simp

subsection \<open>Queries\<close>

lemma paid_to_room:
  "book_exec e c b = Ok (v, b') \<Longrightarrow> length (paid_to (bk_log b) r) \<le> u32_max \<Longrightarrow> length (paid_to (bk_log b') r) \<le> u32_max"
  by (cases c) (auto simp: book_accept_def book_admin_only_def Let_def split: if_splits option.splits)

interpretation room: contract_invariant book_exec "\<lambda>b. length (paid_to (bk_log b) r) \<le> u32_max" for r
  by unfold_locales (rule paid_to_room)

lemma get_payout_history_index_of:
  assumes "length (paid_to (bk_log b) r) \<le> u32_max"
  shows "get_payout_history (index_of b) r start limit = take (min limit 50) (drop start (paid_to (bk_log b) r))"
proof -
  let ?xs = "paid_to (bk_log b) r" and ?n = "min limit 50"
  have cnt: "unwrap_or (pr_count (index_of b) r) 0 = length ?xs"
    by (simp add: index_of_def Let_def nonempty_opt_def)
  have pay: "pr_payout (index_of b) r i = (if i < length ?xs then Some (?xs ! i) else None)" for i
    by (simp add: index_of_def Let_def)
  have fin: "min (u32_sat_add start ?n) (length ?xs) = min (start + ?n) (length ?xs)"
    using assms by (auto simp: u32_sat_add_def)
  have "concat (map (\<lambda>i. case pr_payout (index_of b) r i of Some p \<Rightarrow> [p] | None \<Rightarrow> []) is) = map (nth ?xs) is"
    if "\<forall>i\<in>set is. i < length ?xs" for "is" using that by (induction "is") (simp_all add: pay)
  then have "concat (map (\<lambda>i. case pr_payout (index_of b) r i of Some p \<Rightarrow> [p] | None \<Rightarrow> []) [start ..< min (start + ?n) (length ?xs)]) =
      map (nth ?xs) [start ..< min (start + ?n) (length ?xs)]" by simp
  also have "\<dots> = take ?n (drop start ?xs)"
    by (rule nth_equalityI) (auto simp: min_def split: if_splits)
  finally show ?thesis by (simp add: get_payout_history_def cnt fin MAX_PAGE_SIZE_def Let_def)
qed

lemma get_payout_by_reference_index_of:
  assumes "book_wf b"
  shows "find_payout (index_of b) i = logged (bk_log b) i"
proof (cases "logged (bk_log b) i")
  case None
  then show ?thesis by (simp add: find_payout_def get_payout_by_reference_def index_of_def Let_def ok_or_def)
next
  case (Some p)
  let ?xs = "paid_to (bk_log b) (pe_recipient p)"
  have less: "index_in ?xs i < length ?xs" by (rule index_in_paid_to [OF Some])
  then have ref: "pe_reference_id (?xs ! index_in ?xs i) = i" using index_in_less index_in_nth by blast
  have "?xs ! index_in ?xs i \<in> set (bk_log b)" using nth_mem [OF less] by (simp add: paid_to_def)
  with ref logged_Some [OF Some] assms have "?xs ! index_in ?xs i = p"
    by (auto simp: book_wf_def distinct_map inj_on_def)
  with Some less show ?thesis
    by (simp add: find_payout_def get_payout_by_reference_def index_of_def Let_def ok_or_def)
qed

section \<open>Properties\<close>

text \<open>C13. The registry refines the plain payout log: started together from nothing, after any history
every entry point answers exactly as the specification does, errors and panics included, with the
same index, and its state is the index of the log; so retries of a reference change nothing, and no
later call alters an accepted payout.\<close>

theorem payout_registry_refines_log:
  "payout_registry_exec e c (run_txs payout_registry_exec txs payout_registry_undeployed) =
     indexed_outcome (book_exec e c (run_txs book_exec txs book_empty))"
  unfolding run_index_of_empty by (rule payout_registry_exec_index_of [OF run_book_wf])

text \<open>The queries read the log: after any history, the history of a recipient is the requested slice
of its accepted payouts, at most 50 of them, their number and the total per asset are exact, a
reference finds the payout accepted under it and nothing else, and the global count is the length
of the log.\<close>

theorem payout_queries_exact:
  "let s = run_txs payout_registry_exec txs payout_registry_undeployed; log = bk_log (run_txs book_exec txs book_empty) in
    get_payout_history s r start limit = take (min limit 50) (drop start (paid_to log r)) \<and>
    get_recipient_payout_count s r = length (paid_to log r) \<and>
    get_total_by_asset s r a = sum_list (paid_in log r a) \<and>
    find_payout s i = logged log i \<and> get_total_payouts s = length log"
proof -
  define s log where "s = run_txs payout_registry_exec txs payout_registry_undeployed"
    and "log = bk_log (run_txs book_exec txs book_empty)"
  have wf: "book_wf (run_txs book_exec txs book_empty)" by (rule run_book_wf)
  have "length (paid_to (bk_log (run_txs book_exec txs book_empty)) r) \<le> u32_max"
    by (rule room.run_keeps) (simp add: book_empty_def)
  then have "get_payout_history s r start limit = take (min limit 50) (drop start (paid_to log r))"
    unfolding s_def log_def run_index_of_empty by (rule get_payout_history_index_of)
  moreover have "get_total_payouts s = length log" using wf
    by (cases "bk_admin (run_txs book_exec txs book_empty)")
       (auto simp: s_def log_def run_index_of_empty get_total_payouts_def index_of_def Let_def book_wf_def)
  moreover have "find_payout s i = logged log i"
    unfolding s_def log_def run_index_of_empty by (rule get_payout_by_reference_index_of [OF wf])
  moreover have "get_recipient_payout_count s r = length (paid_to log r)" "get_total_by_asset s r a = sum_list (paid_in log r a)"
    by (simp_all add: s_def log_def run_index_of_empty get_recipient_payout_count_def get_total_by_asset_def
        index_of_def Let_def nonempty_opt_def)
  ultimately show ?thesis unfolding Let_def s_def log_def by blast
qed

end
