(* ===== verification/Contract_Registry.thy ===== *)
theory Contract_Registry
  imports Soroban
begin

text \<open>
  \<open>registry/src/lib.rs\<close>, the \<open>RefractContractRegistry\<close> contract: the allowlist of the trusted
  contract of every role.  \<open>contract_registry\<close> has one field per storage key (\<open>None\<close> = key absent);
  \<open>contract_registry_exec\<close> dispatches over the entry points that write.

  The lemmas show where trust comes from: a trusted address was set for its role by the admin of
  the time and has been trusted ever since, and the admin changes only by a signed nomination and
  a signed acceptance (locale \<open>two_step_admin\<close>).
\<close>

section \<open>State\<close>

datatype contract_role =
  RolePool | RoleOracle | RolePolicy | RoleGovernance | RoleTimelock | RoleTreasury | RoleBackstop
| RoleBounty | RoleGrants | RoleVeToken | RoleMultisig

datatype contract_registry_error =
  CrAlreadyInitialized | CrNotInitialized | CrUnauthorized | CrRoleNotFound | CrUntrusted
| CrNoPendingAdmin | CrZeroAddress

record contract_registry =
  cr_admin :: "address option"
  cr_pending_admin :: "address option"
  cr_entry :: "contract_role \<Rightarrow> address option"

definition contract_registry_undeployed :: contract_registry where
  "contract_registry_undeployed = \<lparr>cr_admin = None, cr_pending_admin = None, cr_entry = Map.empty\<rparr>"

section \<open>Entry points\<close>

definition contract_registry_initialize ::
  "env \<Rightarrow> address \<Rightarrow> contract_registry \<Rightarrow> (contract_registry_error, unit \<times> contract_registry) outcome" where
  "contract_registry_initialize e admin s =
     (if cr_admin s \<noteq> None then Err CrAlreadyInitialized
      else and_then (require_auth e admin) (\<lambda>_. Ok ((), s\<lparr>cr_admin := Some admin\<rparr>)))"

definition contract_registry_admin :: "contract_registry \<Rightarrow> address option" where
  "contract_registry_admin s = cr_admin s"

definition contract_registry_pending_admin :: "contract_registry \<Rightarrow> address option" where
  "contract_registry_pending_admin s = cr_pending_admin s"

definition contract_registry_require_admin ::
  "env \<Rightarrow> address \<Rightarrow> contract_registry \<Rightarrow> (contract_registry_error, unit) outcome" where
  "contract_registry_require_admin e caller s =
     and_then (require_auth e caller) (\<lambda>_.
     and_then (ok_or (cr_admin s) CrNotInitialized) (\<lambda>admin.
     if caller \<noteq> admin then Err CrUnauthorized else Ok ()))"

definition contract_registry_propose_admin ::
  "env \<Rightarrow> address \<Rightarrow> address \<Rightarrow> contract_registry \<Rightarrow> (contract_registry_error, unit \<times> contract_registry) outcome" where
  "contract_registry_propose_admin e caller new_admin s =
     and_then (contract_registry_require_admin e caller s) (\<lambda>_. Ok ((), s\<lparr>cr_pending_admin := Some new_admin\<rparr>))"

definition contract_registry_accept_admin ::
  "env \<Rightarrow> address \<Rightarrow> contract_registry \<Rightarrow> (contract_registry_error, unit \<times> contract_registry) outcome" where
  "contract_registry_accept_admin e caller s =
     and_then (require_auth e caller) (\<lambda>_.
     and_then (ok_or (cr_pending_admin s) CrNoPendingAdmin) (\<lambda>pending.
     if caller \<noteq> pending then Err CrUnauthorized
     else Ok ((), s\<lparr>cr_admin := Some pending, cr_pending_admin := None\<rparr>)))"

definition registry_set ::
  "env \<Rightarrow> address \<Rightarrow> contract_role \<Rightarrow> address \<Rightarrow> contract_registry \<Rightarrow> (contract_registry_error, unit \<times> contract_registry) outcome" where
  "registry_set e caller role contract_addr s =
     and_then (contract_registry_require_admin e caller s) (\<lambda>_.
     Ok ((), s\<lparr>cr_entry := (cr_entry s)(role \<mapsto> contract_addr)\<rparr>))"

definition registry_remove ::
  "env \<Rightarrow> address \<Rightarrow> contract_role \<Rightarrow> contract_registry \<Rightarrow> (contract_registry_error, unit \<times> contract_registry) outcome" where
  "registry_remove e caller role s =
     and_then (contract_registry_require_admin e caller s) (\<lambda>_.
     Ok ((), s\<lparr>cr_entry := (cr_entry s)(role := None)\<rparr>))"

definition registry_get :: "contract_registry \<Rightarrow> contract_role \<Rightarrow> address option" where
  "registry_get s role = cr_entry s role"

definition is_trusted :: "contract_registry \<Rightarrow> address \<Rightarrow> contract_role \<Rightarrow> bool" where
  "is_trusted s addr role = (case cr_entry s role of Some registered \<Rightarrow> registered = addr | None \<Rightarrow> False)"

definition require_trusted ::
  "contract_registry \<Rightarrow> address \<Rightarrow> contract_role \<Rightarrow> (contract_registry_error, unit) outcome" where
  "require_trusted s addr role =
     and_then (ok_or (cr_entry s role) CrRoleNotFound) (\<lambda>registered.
     if registered \<noteq> addr then Err CrUntrusted else Ok ())"

datatype contract_registry_call =
  CrInitialize address
| CrProposeAdmin address address
| CrAcceptAdmin address
| CrSet address contract_role address
| CrRemove address contract_role

fun contract_registry_exec ::
  "env \<Rightarrow> contract_registry_call \<Rightarrow> contract_registry \<Rightarrow> (contract_registry_error, unit \<times> contract_registry) outcome" where
  "contract_registry_exec e (CrInitialize a) s = contract_registry_initialize e a s"
| "contract_registry_exec e (CrProposeAdmin c a) s = contract_registry_propose_admin e c a s"
| "contract_registry_exec e (CrAcceptAdmin c) s = contract_registry_accept_admin e c s"
| "contract_registry_exec e (CrSet c r a) s = registry_set e c r a s"
| "contract_registry_exec e (CrRemove c r) s = registry_remove e c r s"

section \<open>Lemmas\<close>

lemma contract_registry_require_admin_iff [simp]:
  "contract_registry_require_admin e caller s = Ok u \<longleftrightarrow> auth e caller \<and> cr_admin s = Some caller"
  by (auto simp: contract_registry_require_admin_def)

lemmas contract_registry_ops = contract_registry_initialize_def contract_registry_propose_admin_def
  contract_registry_accept_admin_def registry_set_def registry_remove_def

interpretation cradmin: two_step_admin contract_registry_exec cr_admin cr_pending_admin
proof
  fix e c s r s' a assume "contract_registry_exec e c s = Ok (r, s')" "cr_admin s = Some a"
  then show "cr_admin s' = Some a \<or> (\<exists>b. cr_pending_admin s = Some b \<and> cr_admin s' = Some b \<and> auth e b)"
    by (cases c) (auto simp: contract_registry_ops split: if_splits)
next
  fix e c s r s' b assume "contract_registry_exec e c s = Ok (r, s')" "cr_pending_admin s' = Some b"
  then show "cr_pending_admin s = Some b \<or> (\<exists>a. cr_admin s = Some a \<and> auth e a)"
    by (cases c) (auto simp: contract_registry_ops split: if_splits)
qed

lemma registry_entry_changed:
  assumes "contract_registry_exec e c s = Ok (u, s')" and "cr_entry s' role = Some a" and "cr_entry s role \<noteq> Some a"
  obtains caller where "c = CrSet caller role a" "auth e caller" "cr_admin s = Some caller"
  using assms by (cases c) (auto simp: contract_registry_ops split: if_splits)

lemma require_trusted_iff: "require_trusted s a role = Ok u \<longleftrightarrow> is_trusted s a role"
  by (auto simp: require_trusted_def is_trusted_def split: option.splits)

section \<open>Properties\<close>

definition cr_env :: env where
  "cr_env = \<lparr>timestamp = 0, ledger_seq = 0, auth = (\<lambda>_. True), this = 80\<rparr>"

definition cr_txs :: "(env \<times> contract_registry_call) list" where
  "cr_txs = [(cr_env, CrInitialize 1), (cr_env, CrSet 1 RolePool 7), (cr_env, CrProposeAdmin 1 2),
     (cr_env, CrAcceptAdmin 2), (cr_env, CrSet 1 RolePool 9), (cr_env, CrRemove 2 RoleOracle)]"

lemma cr_run: "run_txs contract_registry_exec cr_txs contract_registry_undeployed =
    \<lparr>cr_admin = Some 2, cr_pending_admin = None, cr_entry = [RolePool \<mapsto> 7]\<rparr>"
  by (simp add: cr_txs_def contract_registry_undeployed_def contract_registry_ops contract_registry_require_admin_def
      require_auth_def cr_env_def ok_or_def fun_eq_iff)

text \<open>A contract passes \<open>require_trusted\<close> for a role exactly when it is the registered one, and then
the admin of the time signed the \<open>set\<close> call that registered it for this role, and it has been the
trusted one ever since: no later transaction replaced or removed it, not even for a while.\<close>

theorem trusted_set_by_admin:
  assumes "require_trusted (run_txs contract_registry_exec txs contract_registry_undeployed) addr role = Ok ()"
  shows "\<exists>pre e caller post. txs = pre @ (e, CrSet caller role addr) # post \<and> auth e caller \<and>
    cr_admin (run_txs contract_registry_exec pre contract_registry_undeployed) = Some caller \<and>
    (\<forall>mid rest. post = mid @ rest \<longrightarrow>
      is_trusted (run_txs contract_registry_exec (pre @ (e, CrSet caller role addr) # mid) contract_registry_undeployed) addr role)"
proof -
  let ?run = "\<lambda>xs. run_txs contract_registry_exec xs contract_registry_undeployed"
  have "is_trusted (?run txs) addr role" using assms by (simp add: require_trusted_iff)
  moreover have "\<not> is_trusted contract_registry_undeployed addr role"
    by (simp add: is_trusted_def contract_registry_undeployed_def)
  ultimately obtain pre e c post u s' where o: "txs = pre @ (e, c) # post" "\<not> is_trusted (?run pre) addr role"
    "contract_registry_exec e c (?run pre) = Ok (u, s')"
    "\<And>mid rest. post = mid @ rest \<Longrightarrow> is_trusted (run_txs contract_registry_exec mid s') addr role"
    by (rule run_txs_last_origin [of "\<lambda>s. is_trusted s addr role"]) blast
  have "is_trusted s' addr role" using o(4) [of "[]" post] by simp
  with o(2) have "cr_entry s' role = Some addr" "cr_entry (?run pre) role \<noteq> Some addr"
    by (auto simp: is_trusted_def split: option.splits)
  from registry_entry_changed [OF o(3) this] obtain caller where
    c: "c = CrSet caller role addr" "auth e caller" "cr_admin (?run pre) = Some caller" .
  have "?run (pre @ (e, c) # mid) = run_txs contract_registry_exec mid s'" for mid
    using o(3) by (simp add: run_txs_append)
  with o(1,4) c show ?thesis by (intro exI [of _ pre] exI [of _ e] exI [of _ caller] exI [of _ post]) simp
qed

theorem trusted_set_by_admin_witness:
  "\<exists>pre e caller post. cr_txs = pre @ (e, CrSet caller RolePool 7) # post \<and> auth e caller"
proof -
  have "require_trusted (run_txs contract_registry_exec cr_txs contract_registry_undeployed) 7 RolePool = Ok ()"
    unfolding cr_run by (simp add: require_trusted_iff is_trusted_def)
  from trusted_set_by_admin [OF this] show ?thesis by blast
qed

text \<open>The administration is handed over in two signed steps: when the admin of the registry differs from
an earlier one, the admin of some moment in between signed a call that made the new one pending, and the
new one then signed the call that made it the admin.\<close>

theorem registry_admin_handed_over:
  assumes "cr_admin s = Some a" and "cr_pending_admin s = None" and "cr_admin (run_txs contract_registry_exec txs s) = Some b" and "a \<noteq> b"
  shows "\<exists>pre e c mid e' c' post p. txs = pre @ (e, c) # mid @ (e', c') # post \<and>
    cr_admin (run_txs contract_registry_exec pre s) = Some p \<and> auth e p \<and>
    cr_pending_admin (run_txs contract_registry_exec (pre @ [(e, c)]) s) = Some b \<and>
    cr_pending_admin (run_txs contract_registry_exec (pre @ (e, c) # mid) s) = Some b \<and> auth e' b \<and>
    cr_admin (run_txs contract_registry_exec (pre @ (e, c) # mid @ [(e', c')]) s) = Some b"
  by (rule cradmin.admin_handed_over [OF assms])

theorem registry_admin_handed_over_witness:
  "\<exists>pre e c mid e' c' post. tl cr_txs = pre @ (e, c) # mid @ (e', c') # post \<and> auth e' 2"
proof -
  define s where "s = run_txs contract_registry_exec [hd cr_txs] contract_registry_undeployed"
  have s: "s = \<lparr>cr_admin = Some 1, cr_pending_admin = None, cr_entry = Map.empty\<rparr>"
    by (simp add: s_def cr_txs_def contract_registry_initialize_def require_auth_def cr_env_def
        contract_registry_undeployed_def)
  have "run_txs contract_registry_exec (tl cr_txs) s = run_txs contract_registry_exec ([hd cr_txs] @ tl cr_txs) contract_registry_undeployed"
    unfolding s_def run_txs_append ..
  then have "cr_admin (run_txs contract_registry_exec (tl cr_txs) s) = Some 2"
    using cr_run by (simp add: cr_txs_def)
  from registry_admin_handed_over [OF _ _ this, of 1] show ?thesis unfolding s by fastforce
qed

end
