(* ===== verification/Grants.thy ===== *)
theory Grants
  imports Soroban
begin

text \<open>
  \<open>grants/src/contract.rs\<close>, the \<open>RefractGrants\<close> contract, with the fee and time-to-live modules it
  includes from \<open>shared/fee.rs\<close> and \<open>shared/ttl.rs\<close>: milestone grants that governance creates and
  confirms and the recipient claims less a protocol fee.

  \<open>grants\<close> has one field per storage key (\<open>None\<close> = key absent), the other contracts are the state
  \<open>'w\<close>; the parameter registry (\<open>fee_bps\<close>) is the parameter \<open>callee\<close>, the token the parameter
  \<open>transfer\<close>.  An invocation that returns an error leaves no write behind, so the release of the
  reentrancy lock on the error paths of \<open>claim\<close> and \<open>sweep_fees\<close> is not visible in the model.
  How long a storage entry lives is not modelled; \<open>bump\<close> decides which keys it accepts.

  The lemmas show the accounting of a grant (\<open>grant_ok\<close>), the bounds of the fee, and, against a token
  that logs its transfers (\<open>logged_exec\<close>), that the contract transfers the claimed milestones exactly, less
  the fees it still holds, to claimants and the treasury.
\<close>

section \<open>State\<close>

datatype grant_screening_status = GrantAllowed | GrantBlocked

record onchain_milestone =
  om_amount :: int
  om_confirmed :: bool
  om_claimed :: bool

record onchain_grant =
  og_recipient :: address
  og_total_amount :: int
  og_milestones :: "onchain_milestone list"
  og_claimable :: int

record payout_quote =
  quote_gross :: int
  quote_net :: int
  quote_fee :: int

datatype bump_key = BumpInstance | BumpGrant nat | BumpAccruedFees address

datatype grants_error =
  GrAlreadyInitialized | GrNotInitialized | GrUnauthorized | GrGrantNotFound | GrNoMilestones
| GrMilestoneSumMismatch | GrInvalidMilestoneAmount | GrInvalidTotalAmount | GrInvalidMilestoneIndex
| GrMilestoneAlreadyConfirmed | GrMilestoneOutOfOrder | GrNotRecipient | GrNothingToClaim | GrInvalidFeeBps
| GrInvalidToken | GrTreasuryNotConfigured | GrArithmeticError | GrBatchTooLarge | GrKeyNotBumpable
| GrRecipientNotAllowed | GrReentrancyDetected

record grants =
  gr_governance :: "address option"
  gr_token :: "address option"
  gr_next_grant_id :: "nat option"
  gr_parameter_registry :: "address option"
  gr_treasury :: "address option"
  gr_grant :: "nat \<Rightarrow> onchain_grant option"
  gr_accrued_fees :: "address \<Rightarrow> int option"
  gr_recipient_status :: "address \<Rightarrow> grant_screening_status option"
  gr_lock :: bool

definition grants_undeployed :: grants where
  "grants_undeployed = \<lparr>gr_governance = None, gr_token = None, gr_next_grant_id = None,
     gr_parameter_registry = None, gr_treasury = None, gr_grant = Map.empty, gr_accrued_fees = Map.empty,
     gr_recipient_status = Map.empty, gr_lock = False\<rparr>"

type_synonym 'w gr_system = "grants \<times> 'w"

section \<open>Fees and times to live\<close>

definition MAX_FEE_BPS :: nat where "MAX_FEE_BPS = 1000"
definition BPS_DENOMINATOR :: int where "BPS_DENOMINATOR = 10000"

text \<open>Past the first check both operands of \<open>/\<close> and \<open>%\<close> are non-negative, so these are \<open>div\<close> and \<open>mod\<close>.\<close>

definition assess_fee :: "int \<Rightarrow> nat \<Rightarrow> (int \<times> int) option" where
  "assess_fee gross fee_bps =
     (if gross < 0 \<or> MAX_FEE_BPS < fee_bps then None
      else
        let rate = int fee_bps in
        Option.bind (i128_opt (gross div BPS_DENOMINATOR * rate)) (\<lambda>whole.
        Option.bind (i128_opt (gross mod BPS_DENOMINATOR * rate)) (\<lambda>part.
        Option.bind (i128_opt (whole + part div BPS_DENOMINATOR)) (\<lambda>fee.
        Option.bind (i128_opt (gross - fee)) (\<lambda>net. Some (net, fee))))))"

definition MIN_TTL_THRESHOLD :: nat where "MIN_TTL_THRESHOLD = 17280"
definition MAX_TTL_EXTEND :: nat where "MAX_TTL_EXTEND = 535680"
definition MAX_BUMP_BATCH :: nat where "MAX_BUMP_BATCH = 16"

definition clamp_extend :: "nat \<Rightarrow> nat" where
  "clamp_extend requested = max MIN_TTL_THRESHOLD (min MAX_TTL_EXTEND requested)"

section \<open>Entry points\<close>

subsection \<open>Helpers\<close>

definition grants_governance :: "grants \<Rightarrow> (grants_error, address) outcome" where
  "grants_governance s = ok_or (gr_governance s) GrNotInitialized"

definition grants_require_governance :: "env \<Rightarrow> address \<Rightarrow> grants \<Rightarrow> (grants_error, unit) outcome" where
  "grants_require_governance e caller s =
     and_then (require_auth e caller) (\<lambda>_.
     and_then (grants_governance s) (\<lambda>governance.
     if caller \<noteq> governance then Err GrUnauthorized else Ok ()))"

definition grants_grant :: "grants \<Rightarrow> nat \<Rightarrow> (grants_error, onchain_grant) outcome" where
  "grants_grant s grant_id = ok_or (gr_grant s grant_id) GrGrantNotFound"

definition grants_token :: "grants \<Rightarrow> (grants_error, address) outcome" where
  "grants_token s = ok_or (gr_token s) GrNotInitialized"

definition grants_acquire_guard :: "grants \<Rightarrow> (grants_error, grants) outcome" where
  "grants_acquire_guard s = (if gr_lock s then Err GrReentrancyDetected else Ok (s\<lparr>gr_lock := True\<rparr>))"

definition grants_release_guard :: "grants \<Rightarrow> grants" where
  "grants_release_guard s = s\<lparr>gr_lock := False\<rparr>"

definition grants_is_recipient_allowed :: "grants \<Rightarrow> address \<Rightarrow> bool" where
  "grants_is_recipient_allowed s recipient = (gr_recipient_status s recipient = Some GrantAllowed)"

definition grants_fee_bps :: "'w callee \<Rightarrow> env \<Rightarrow> 'w gr_system \<Rightarrow> (grants_error, nat \<times> 'w) outcome" where
  "grants_fee_bps callee e sw =
     (case gr_parameter_registry (fst sw) of
        None \<Rightarrow> Ok (0, snd sw)
      | Some registry \<Rightarrow>
          and_then (invoke_contract callee e (snd sw) registry ''fee_bps'' []) (\<lambda>(v, w).
          case v of
            VU32 fee_bps \<Rightarrow> if MAX_FEE_BPS < fee_bps then Err GrInvalidFeeBps else Ok (fee_bps, w)
          | _ \<Rightarrow> Trap))"

definition quote_payout :: "'w callee \<Rightarrow> env \<Rightarrow> int \<Rightarrow> 'w gr_system \<Rightarrow> (grants_error, payout_quote \<times> 'w) outcome" where
  "quote_payout callee e gross sw =
     (if gross < 0 then Err GrInvalidTotalAmount
      else
        and_then (grants_fee_bps callee e sw) (\<lambda>(fee_bps, w).
        and_then (ok_or (assess_fee gross fee_bps) GrArithmeticError) (\<lambda>(net, fee).
        Ok (\<lparr>quote_gross = gross, quote_net = net, quote_fee = fee\<rparr>, w))))"

definition accrued_fees :: "grants \<Rightarrow> address \<Rightarrow> int" where
  "accrued_fees s token = unwrap_or (gr_accrued_fees s token) 0"

subsection \<open>Governance\<close>

definition grants_initialize :: "env \<Rightarrow> address \<Rightarrow> address \<Rightarrow> grants \<Rightarrow> (grants_error, unit \<times> grants) outcome" where
  "grants_initialize e governance token s =
     (if gr_governance s \<noteq> None then Err GrAlreadyInitialized
      else
        and_then (require_auth e governance) (\<lambda>_.
        Ok ((), s\<lparr>gr_governance := Some governance, gr_token := Some token, gr_next_grant_id := Some 0,
          gr_accrued_fees := (gr_accrued_fees s)(token \<mapsto> 0)\<rparr>)))"

definition set_fee_config :: "env \<Rightarrow> address \<Rightarrow> address \<Rightarrow> address \<Rightarrow> grants \<Rightarrow> (grants_error, unit \<times> grants) outcome" where
  "set_fee_config e caller treasury parameter_registry s =
     and_then (require_auth e caller) (\<lambda>_.
     and_then (grants_governance s) (\<lambda>governance.
     if caller \<noteq> governance then Err GrUnauthorized
     else Ok ((), s\<lparr>gr_treasury := Some treasury, gr_parameter_registry := Some parameter_registry\<rparr>)))"

fun new_milestones :: "int \<Rightarrow> int list \<Rightarrow> (grants_error, int \<times> onchain_milestone list) outcome" where
  "new_milestones total_sum [] = Ok (total_sum, [])"
| "new_milestones total_sum (amount # amounts) =
     (if amount \<le> 0 then Err GrInvalidMilestoneAmount
      else
        and_then (ok_or (i128_opt (total_sum + amount)) GrMilestoneSumMismatch) (\<lambda>total_sum.
        and_then (new_milestones total_sum amounts) (\<lambda>(total_sum, ms).
        Ok (total_sum, \<lparr>om_amount = amount, om_confirmed = False, om_claimed = False\<rparr> # ms))))"

definition create_grant ::
  "env \<Rightarrow> address \<Rightarrow> address \<Rightarrow> int \<Rightarrow> int list \<Rightarrow> grants \<Rightarrow> (grants_error, nat \<times> grants) outcome" where
  "create_grant e caller recipient total_amount milestone_amounts s =
     and_then (grants_require_governance e caller s) (\<lambda>_.
     if total_amount \<le> 0 then Err GrInvalidTotalAmount
     else if milestone_amounts = [] then Err GrNoMilestones
     else if \<not> grants_is_recipient_allowed s recipient then Err GrRecipientNotAllowed
     else
       and_then (new_milestones 0 milestone_amounts) (\<lambda>(total_sum, milestones).
       if total_sum \<noteq> total_amount then Err GrMilestoneSumMismatch
       else
         let grant_id = unwrap_or (gr_next_grant_id s) 0 in
         and_then (ok_or (if grant_id + 1 \<le> u64_max then Some (grant_id + 1) else None) GrArithmeticError) (\<lambda>next_id.
         Ok (grant_id, s\<lparr>gr_next_grant_id := Some next_id, gr_grant := (gr_grant s)(grant_id \<mapsto>
           \<lparr>og_recipient = recipient, og_total_amount = total_amount, og_milestones = milestones, og_claimable = 0\<rparr>)\<rparr>))))"

definition confirm_milestone ::
  "env \<Rightarrow> address \<Rightarrow> nat \<Rightarrow> nat \<Rightarrow> grants \<Rightarrow> (grants_error, unit \<times> grants) outcome" where
  "confirm_milestone e caller grant_id milestone_index s =
     and_then (grants_require_governance e caller s) (\<lambda>_.
     and_then (grants_grant s grant_id) (\<lambda>grant.
     if length (og_milestones grant) \<le> milestone_index then Err GrInvalidMilestoneIndex
     else if list_ex (\<lambda>m. \<not> om_confirmed m) (take milestone_index (og_milestones grant)) then Err GrMilestoneOutOfOrder
     else
       let milestone = og_milestones grant ! milestone_index in
       if om_confirmed milestone then Err GrMilestoneAlreadyConfirmed
       else
         and_then (ok_or (i128_opt (og_claimable grant + om_amount milestone)) GrArithmeticError) (\<lambda>claimable.
         Ok ((), s\<lparr>gr_grant := (gr_grant s)(grant_id \<mapsto> grant\<lparr>og_claimable := claimable,
           og_milestones := (og_milestones grant)[milestone_index := milestone\<lparr>om_confirmed := True\<rparr>]\<rparr>)\<rparr>))))"

subsection \<open>Claims and fees\<close>

text \<open>The loop over the indices of the milestones; each index is in range.\<close>

fun mark_claimed :: "onchain_milestone list \<Rightarrow> onchain_milestone list" where
  "mark_claimed [] = []"
| "mark_claimed (m # ms) = (if om_confirmed m then m\<lparr>om_claimed := True\<rparr> else m) # mark_claimed ms"

definition add_accrued_fee :: "address \<Rightarrow> int \<Rightarrow> grants \<Rightarrow> (grants_error, grants) outcome" where
  "add_accrued_fee token fee s =
     (if 0 < fee then
        and_then (ok_or (i128_opt (unwrap_or (gr_accrued_fees s token) 0 + fee)) GrArithmeticError) (\<lambda>updated.
        Ok (s\<lparr>gr_accrued_fees := (gr_accrued_fees s)(token \<mapsto> updated)\<rparr>))
      else Ok s)"

definition grants_claim ::
  "'w callee \<Rightarrow> 'w transfer_fn \<Rightarrow> env \<Rightarrow> address \<Rightarrow> nat \<Rightarrow> 'w gr_system \<Rightarrow> (grants_error, int \<times> 'w gr_system) outcome" where
  "grants_claim callee transfer e recipient grant_id sw =
     (let s = fst sw; w = snd sw in
      and_then (require_auth e recipient) (\<lambda>_.
      and_then (grants_acquire_guard s) (\<lambda>s.
      and_then (grants_grant s grant_id) (\<lambda>grant.
      if og_recipient grant \<noteq> recipient then Err GrNotRecipient
      else if og_claimable grant \<le> 0 then Err GrNothingToClaim
      else
        and_then (quote_payout callee e (og_claimable grant) (s, w)) (\<lambda>(quote, w).
        and_then (grants_token s) (\<lambda>token.
        and_then (add_accrued_fee token (quote_fee quote) s) (\<lambda>s.
        let s = s\<lparr>gr_grant := (gr_grant s)(grant_id \<mapsto>
              grant\<lparr>og_claimable := 0, og_milestones := mark_claimed (og_milestones grant)\<rparr>)\<rparr> in
        and_then (if 0 < quote_net quote then token_transfer transfer w token (this e) recipient (quote_net quote)
                  else Ok w) (\<lambda>w.
        Ok (quote_net quote, (grants_release_guard s, w))))))))))"

definition sweep_fees ::
  "'w transfer_fn \<Rightarrow> env \<Rightarrow> address \<Rightarrow> 'w gr_system \<Rightarrow> (grants_error, int \<times> 'w gr_system) outcome" where
  "sweep_fees transfer e token sw =
     (let s = fst sw; w = snd sw in
      and_then (grants_acquire_guard s) (\<lambda>s.
      and_then (grants_token s) (\<lambda>expected_token.
      if token \<noteq> expected_token then Err GrInvalidToken
      else
        let fees = accrued_fees s token in
        if fees = 0 then Ok (0, (grants_release_guard s, w))
        else
          and_then (ok_or (gr_treasury s) GrTreasuryNotConfigured) (\<lambda>treasury.
          let s = s\<lparr>gr_accrued_fees := (gr_accrued_fees s)(token \<mapsto> 0)\<rparr> in
          and_then (token_transfer transfer w token (this e) treasury fees) (\<lambda>w.
          Ok (fees, (grants_release_guard s, w)))))))"

subsection \<open>Storage bumps, recipients and queries\<close>

fun bump_loop :: "grants \<Rightarrow> bump_key list \<Rightarrow> (grants_error, unit) outcome" where
  "bump_loop s [] = Ok ()"
| "bump_loop s (BumpInstance # ks) = bump_loop s ks"
| "bump_loop s (BumpGrant i # ks) = (if gr_grant s i = None then Err GrKeyNotBumpable else bump_loop s ks)"
| "bump_loop s (BumpAccruedFees t # ks) = (if gr_accrued_fees s t = None then Err GrKeyNotBumpable else bump_loop s ks)"

definition grants_bump :: "bump_key list \<Rightarrow> nat \<Rightarrow> grants \<Rightarrow> (grants_error, nat \<times> grants) outcome" where
  "grants_bump keys requested_extend s =
     (if MAX_BUMP_BATCH < length keys then Err GrBatchTooLarge
      else and_then (bump_loop s keys) (\<lambda>_. Ok (clamp_extend requested_extend, s)))"

definition get_grant :: "grants \<Rightarrow> nat \<Rightarrow> onchain_grant option" where
  "get_grant s grant_id = gr_grant s grant_id"

definition grants_allow_recipient :: "env \<Rightarrow> address \<Rightarrow> address \<Rightarrow> grants \<Rightarrow> (grants_error, unit \<times> grants) outcome" where
  "grants_allow_recipient e caller recipient s =
     and_then (grants_require_governance e caller s) (\<lambda>_.
     Ok ((), s\<lparr>gr_recipient_status := (gr_recipient_status s)(recipient \<mapsto> GrantAllowed)\<rparr>))"

definition grants_block_recipient :: "env \<Rightarrow> address \<Rightarrow> address \<Rightarrow> grants \<Rightarrow> (grants_error, unit \<times> grants) outcome" where
  "grants_block_recipient e caller recipient s =
     and_then (grants_require_governance e caller s) (\<lambda>_.
     Ok ((), s\<lparr>gr_recipient_status := (gr_recipient_status s)(recipient \<mapsto> GrantBlocked)\<rparr>))"

definition grants_remove_recipient :: "env \<Rightarrow> address \<Rightarrow> address \<Rightarrow> grants \<Rightarrow> (grants_error, unit \<times> grants) outcome" where
  "grants_remove_recipient e caller recipient s =
     and_then (grants_require_governance e caller s) (\<lambda>_.
     Ok ((), s\<lparr>gr_recipient_status := (gr_recipient_status s)(recipient := None)\<rparr>))"

definition grants_recipient_status :: "grants \<Rightarrow> address \<Rightarrow> grant_screening_status option" where
  "grants_recipient_status s recipient = gr_recipient_status s recipient"

subsection \<open>All entry points\<close>

text \<open>The dispatcher keeps what a call pays out of the contract.\<close>

datatype grants_call =
  GrInitialize address address
| GrSetFeeConfig address address address
| GrCreate address address int "int list"
| GrConfirm address nat nat
| GrClaim address nat
| GrSweepFees address
| GrBump "bump_key list" nat
| GrAllow address address
| GrBlock address address
| GrRemove address address

definition no_payout :: "'w \<Rightarrow> ('e, 'a \<times> grants) outcome \<Rightarrow> ('e, int \<times> 'w gr_system) outcome" where
  "no_payout w r = and_then r (\<lambda>(_, s). Ok (0, (s, w)))"

fun grants_exec ::
  "'w callee \<Rightarrow> 'w transfer_fn \<Rightarrow> env \<Rightarrow> grants_call \<Rightarrow> 'w gr_system \<Rightarrow> (grants_error, int \<times> 'w gr_system) outcome" where
  "grants_exec callee transfer e (GrInitialize g t) sw = no_payout (snd sw) (grants_initialize e g t (fst sw))"
| "grants_exec callee transfer e (GrSetFeeConfig c t p) sw = no_payout (snd sw) (set_fee_config e c t p (fst sw))"
| "grants_exec callee transfer e (GrCreate c r n ms) sw = no_payout (snd sw) (create_grant e c r n ms (fst sw))"
| "grants_exec callee transfer e (GrConfirm c i m) sw = no_payout (snd sw) (confirm_milestone e c i m (fst sw))"
| "grants_exec callee transfer e (GrClaim r i) sw = grants_claim callee transfer e r i sw"
| "grants_exec callee transfer e (GrSweepFees t) sw = sweep_fees transfer e t sw"
| "grants_exec callee transfer e (GrBump ks n) sw = no_payout (snd sw) (grants_bump ks n (fst sw))"
| "grants_exec callee transfer e (GrAllow c r) sw = no_payout (snd sw) (grants_allow_recipient e c r (fst sw))"
| "grants_exec callee transfer e (GrBlock c r) sw = no_payout (snd sw) (grants_block_recipient e c r (fst sw))"
| "grants_exec callee transfer e (GrRemove c r) sw = no_payout (snd sw) (grants_remove_recipient e c r (fst sw))"

section \<open>Fees\<close>

lemma assess_fee_exact:
  assumes "0 \<le> gross" and "gross \<le> i128_max" and "fee_bps \<le> MAX_FEE_BPS"
  shows "assess_fee gross fee_bps = Some (gross - gross * int fee_bps div 10000, gross * int fee_bps div 10000)"
proof -
  let ?r = "int fee_bps" and ?q = "gross div 10000" and ?m = "gross mod 10000"
  have r: "0 \<le> ?r" "?r \<le> 1000" using assms(3) by (simp_all add: MAX_FEE_BPS_def)
  have split: "gross = ?q * 10000 + ?m" by simp
  have pos: "0 \<le> ?q" "0 \<le> ?m" "?m < 10000" using assms(1) by (simp_all add: pos_imp_zdiv_nonneg_iff)
  have "gross * ?r = (?q * 10000 + ?m) * ?r" using split by presburger
  then have "gross * ?r = ?m * ?r + (?q * ?r) * 10000" by (simp only: algebra_simps)
  then have fee: "?q * ?r + ?m * ?r div 10000 = gross * ?r div 10000" by simp
  have "?q * ?r \<le> ?q * 1000" "0 \<le> ?q * ?r" using r pos by (simp_all add: mult_left_mono)
  moreover have "?q * 1000 \<le> gross" using split pos by linarith
  ultimately have a: "in_i128 (?q * ?r)" using assms(2) unfolding in_i128_def i128_min_def by (auto intro: order_trans)
  have "?m * ?r \<le> 10000 * 1000" using r pos by (intro mult_mono) auto
  moreover have "0 \<le> ?m * ?r" using r pos by simp
  moreover have "- (2 ^ 127) \<le> (0 :: int)" "10000 * 1000 \<le> (2 ^ 127 - 1 :: int)" by simp_all
  ultimately have b: "in_i128 (?m * ?r)"
    unfolding in_i128_def i128_min_def i128_max_def by (blast intro: order_trans)
  have "gross * ?r div 10000 \<le> gross * 1000 div 10000"
    using r assms(1) by (intro zdiv_mono1 mult_left_mono) auto
  also have "\<dots> \<le> gross" using assms(1) by simp
  finally have le: "gross * ?r div 10000 \<le> gross" .
  have nonneg: "0 \<le> gross * ?r div 10000" using assms(1) r by (simp add: pos_imp_zdiv_nonneg_iff)
  have c: "in_i128 (gross * ?r div 10000)" "in_i128 (gross - gross * ?r div 10000)"
    using le nonneg assms(2) by (auto simp: in_i128_def i128_min_def)
  show ?thesis using a b c assms(1,3) by (simp add: assess_fee_def BPS_DENOMINATOR_def Let_def i128_opt_def fee)
qed

lemma tenth_of_sum:
  fixes a b c g m q :: int
  assumes "a \<le> q * 1000" and "b \<le> c" and "q * 10000 + m = g" and "10 * c \<le> m"
  shows "10 * (a + b) \<le> g"
  using assms by simp

lemma assess_fee_Some:
  assumes "assess_fee gross fee_bps = Some (net, fee)"
  shows "0 \<le> gross" and "net + fee = gross" and "0 \<le> fee" and "0 \<le> net" and "fee_bps \<le> MAX_FEE_BPS"
    and "10 * fee \<le> gross"
proof -
  have g: "0 \<le> gross" "fee_bps \<le> MAX_FEE_BPS" and
    n: "net = gross - (gross div 10000 * int fee_bps + gross mod 10000 * int fee_bps div 10000)"
    "fee = gross div 10000 * int fee_bps + gross mod 10000 * int fee_bps div 10000"
    using assms by (auto simp: assess_fee_def BPS_DENOMINATOR_def Let_def bind_eq_Some_conv split: if_splits)
  then show "0 \<le> gross" "net + fee = gross" "fee_bps \<le> MAX_FEE_BPS" by simp_all
  show "0 \<le> fee" using g by (simp add: n pos_imp_zdiv_nonneg_iff)
  have q: "0 \<le> gross div 10000" "0 \<le> gross mod 10000" using g by (simp_all add: pos_imp_zdiv_nonneg_iff)
  have b: "int fee_bps \<le> 1000" using g by (simp add: MAX_FEE_BPS_def)
  have "gross div 10000 * int fee_bps \<le> gross div 10000 * 1000"
    using q b by (intro mult_left_mono) auto
  moreover have "gross mod 10000 * int fee_bps div 10000 \<le> gross mod 10000 * 1000 div 10000"
    using q b by (intro zdiv_mono1 mult_left_mono) auto
  moreover have "gross div 10000 * 10000 + gross mod 10000 = gross" by simp
  moreover have "gross mod 10000 * 1000 div 10000 = gross mod 10000 div 10"
    using div_mult_mult2 [of 1000 "gross mod 10000" 10] by simp
  then have "10 * (gross mod 10000 * 1000 div 10000) \<le> gross mod 10000"
    using int_mult_div_le [of 10 "gross mod 10000"] by simp
  ultimately show ten: "10 * fee \<le> gross" unfolding n(2) by (rule tenth_of_sum)
  then show "0 \<le> net" using g(1) \<open>net + fee = gross\<close> by linarith
qed

section \<open>The accounting of a grant\<close>

definition milestone_sum :: "(onchain_milestone \<Rightarrow> bool) \<Rightarrow> onchain_milestone list \<Rightarrow> int" where
  "milestone_sum P ms = sum_list (map om_amount (filter P ms))"

text \<open>No milestone is confirmed before an earlier one.\<close>

fun in_order :: "onchain_milestone list \<Rightarrow> bool" where
  "in_order [] = True"
| "in_order (m # ms) \<longleftrightarrow> (om_confirmed m \<or> list_all (\<lambda>m. \<not> om_confirmed m) ms) \<and> in_order ms"

definition grant_ok :: "onchain_grant \<Rightarrow> bool" where
  "grant_ok g \<longleftrightarrow> (\<forall>m\<in>set (og_milestones g). 0 < om_amount m \<and> (om_claimed m \<longrightarrow> om_confirmed m)) \<and>
     in_order (og_milestones g) \<and>
     og_claimable g = milestone_sum (\<lambda>m. om_confirmed m \<and> \<not> om_claimed m) (og_milestones g) \<and>
     milestone_sum (\<lambda>_. True) (og_milestones g) = og_total_amount g \<and> og_total_amount g \<le> i128_max"

lemma milestone_sum_simps [simp]:
  "milestone_sum P [] = 0"
  "milestone_sum P (m # ms) = (if P m then om_amount m else 0) + milestone_sum P ms"
  by (simp_all add: milestone_sum_def)

lemma new_milestones_Ok:
  assumes "new_milestones t as = Ok (t', ms)"
  shows "map om_amount ms = as \<and> (\<forall>m\<in>set ms. 0 < om_amount m \<and> \<not> om_confirmed m \<and> \<not> om_claimed m) \<and>
    t' = t + sum_list as \<and> (as \<noteq> [] \<longrightarrow> t' \<le> i128_max)"
  using assms
proof (induction as arbitrary: t t' ms)
  case (Cons a as)
  from Cons.prems obtain ms' where n: "new_milestones (t + a) as = Ok (t', ms')" "0 < a" "in_i128 (t + a)"
    "ms = \<lparr>om_amount = a, om_confirmed = False, om_claimed = False\<rparr> # ms'"
    by (auto split: if_splits)
  from Cons.IH [OF n(1)] n(2-4) show ?case by (cases "as = []") (auto simp: in_i128_def)
qed simp

lemma confirm_at_sum:
  assumes "i < length ms"
  shows "milestone_sum P (ms[i := m]) = milestone_sum P ms - (if P (ms ! i) then om_amount (ms ! i) else 0) +
    (if P m then om_amount m else 0)"
  using assms
proof (induction ms arbitrary: i)
  case (Cons x xs)
  then show ?case by (cases i) simp_all
qed simp

lemma none_confirmed_in_order: "\<forall>m\<in>set ms. \<not> om_confirmed m \<Longrightarrow> in_order ms"
  by (induction ms) (auto simp: list_all_iff)

lemma confirm_at_in_order:
  assumes "i < length ms" and "list_all om_confirmed (take i ms)" and "\<not> om_confirmed (ms ! i)"
    and "in_order ms" and "om_confirmed m"
  shows "in_order (ms[i := m])"
  using assms(1-4)
proof (induction ms arbitrary: i)
  case (Cons x xs)
  then show ?case using assms(5) by (cases i) simp_all
qed simp

lemma mark_claimed_simps:
  "list_all (\<lambda>m. \<not> om_confirmed m) (mark_claimed ms) = list_all (\<lambda>m. \<not> om_confirmed m) ms"
  "milestone_sum (\<lambda>m. om_confirmed m \<and> \<not> om_claimed m) (mark_claimed ms) = 0"
  "milestone_sum (\<lambda>_. True) (mark_claimed ms) = milestone_sum (\<lambda>_. True) ms"
  by (induction ms) simp_all

lemma mark_claimed_in_order: "in_order ms \<Longrightarrow> in_order (mark_claimed ms)"
  by (induction ms) (auto simp: mark_claimed_simps)

lemma mark_claimed_map: "mark_claimed ms = map (\<lambda>m. if om_confirmed m then m\<lparr>om_claimed := True\<rparr> else m) ms"
  by (induction ms) simp_all

lemma mark_claimed_sum:
  "\<forall>m\<in>set ms. om_claimed m \<longrightarrow> om_confirmed m \<Longrightarrow> milestone_sum om_claimed (mark_claimed ms) =
    milestone_sum om_claimed ms + milestone_sum (\<lambda>m. om_confirmed m \<and> \<not> om_claimed m) ms"
  by (induction ms) auto

lemma milestone_sum_nonneg: "\<forall>m\<in>set ms. 0 < om_amount m \<Longrightarrow> 0 \<le> milestone_sum P ms"
  by (induction ms) auto

lemma milestone_sum_mono:
  "\<forall>m\<in>set ms. 0 < om_amount m \<Longrightarrow> (\<And>m. P m \<Longrightarrow> Q m) \<Longrightarrow> milestone_sum P ms \<le> milestone_sum Q ms"
  by (induction ms) (auto intro: add_mono simp: add_increasing)

lemma grant_ok_new:
  assumes "new_milestones 0 as = Ok (n, ms)" and "as \<noteq> []"
  shows "grant_ok \<lparr>og_recipient = r, og_total_amount = n, og_milestones = ms, og_claimable = 0\<rparr>"
proof -
  note ms = new_milestones_Ok [OF assms(1)]
  have "milestone_sum (\<lambda>_. True) ms = n" using ms by (simp add: milestone_sum_def)
  moreover have "filter (\<lambda>m. om_confirmed m \<and> \<not> om_claimed m) ms = []" using ms by (simp add: filter_empty_conv)
  moreover have "in_order ms" using ms by (intro none_confirmed_in_order) simp
  ultimately show ?thesis using ms assms(2) by (auto simp: grant_ok_def milestone_sum_def)
qed

lemma grant_ok_confirm:
  assumes "grant_ok g" and "i < length (og_milestones g)" and "list_all om_confirmed (take i (og_milestones g))"
    and "\<not> om_confirmed (og_milestones g ! i)"
  shows "grant_ok (g\<lparr>og_claimable := og_claimable g + om_amount (og_milestones g ! i),
    og_milestones := (og_milestones g)[i := (og_milestones g ! i)\<lparr>om_confirmed := True\<rparr>]\<rparr>)"
    and "milestone_sum om_claimed ((og_milestones g)[i := (og_milestones g ! i)\<lparr>om_confirmed := True\<rparr>]) =
      milestone_sum om_claimed (og_milestones g)"
proof -
  let ?ms = "og_milestones g" and ?m = "og_milestones g ! i"
  let ?n = "?m\<lparr>om_confirmed := True\<rparr>"
  have mem: "?m \<in> set ?ms" using assms(2) by simp
  then have m: "0 < om_amount ?m" "\<not> om_claimed ?m" using assms(1,4) by (auto simp: grant_ok_def)
  have "set (?ms[i := ?n]) \<subseteq> insert ?n (set ?ms)" by (rule set_update_subset_insert)
  then have "\<forall>m\<in>set (?ms[i := ?n]). 0 < om_amount m \<and> (om_claimed m \<longrightarrow> om_confirmed m)"
    using assms(1) m by (auto simp: grant_ok_def)
  moreover have "in_order (?ms[i := ?n])"
    using assms(1) by (intro confirm_at_in_order assms(2-4)) (simp_all add: grant_ok_def)
  moreover have "milestone_sum (\<lambda>_. True) (?ms[i := ?n]) = milestone_sum (\<lambda>_. True) ?ms"
    "milestone_sum (\<lambda>m. om_confirmed m \<and> \<not> om_claimed m) (?ms[i := ?n]) =
      milestone_sum (\<lambda>m. om_confirmed m \<and> \<not> om_claimed m) ?ms + om_amount ?m"
    using m assms(4) by (simp_all add: confirm_at_sum [OF assms(2)])
  ultimately show "grant_ok (g\<lparr>og_claimable := og_claimable g + om_amount ?m, og_milestones := ?ms[i := ?n]\<rparr>)"
    using assms(1) by (simp add: grant_ok_def)
  show "milestone_sum om_claimed (?ms[i := ?n]) = milestone_sum om_claimed ?ms"
    using m by (simp add: confirm_at_sum [OF assms(2)])
qed

lemma grant_ok_claim:
  assumes "grant_ok g"
  shows "grant_ok (g\<lparr>og_claimable := 0, og_milestones := mark_claimed (og_milestones g)\<rparr>)"
    and "milestone_sum om_claimed (mark_claimed (og_milestones g)) = milestone_sum om_claimed (og_milestones g) + og_claimable g"
proof -
  let ?ms = "og_milestones g"
  have "\<forall>m\<in>set (mark_claimed ?ms). 0 < om_amount m \<and> (om_claimed m \<longrightarrow> om_confirmed m)"
    using assms by (auto simp: grant_ok_def mark_claimed_map)
  moreover have "in_order (mark_claimed ?ms)"
    using assms by (intro mark_claimed_in_order) (simp add: grant_ok_def)
  ultimately show "grant_ok (g\<lparr>og_claimable := 0, og_milestones := mark_claimed ?ms\<rparr>)"
    using assms by (simp add: grant_ok_def mark_claimed_simps)
  show "milestone_sum om_claimed (mark_claimed ?ms) = milestone_sum om_claimed ?ms + og_claimable g"
    using assms mark_claimed_sum [of ?ms] by (simp add: grant_ok_def)
qed

section \<open>What a transaction does\<close>

lemma grants_require_governance_iff [simp]:
  "grants_require_governance e caller s = Ok u \<longleftrightarrow> auth e caller \<and> gr_governance s = Some caller"
  by (auto simp: grants_require_governance_def grants_governance_def)

lemma quote_payout_Ok:
  assumes "quote_payout callee e gross sw = Ok (q, w')"
  shows "quote_net q + quote_fee q = gross" and "0 \<le> quote_fee q" and "0 \<le> quote_net q" and "10 * quote_fee q \<le> gross"
  using assms by (auto simp: quote_payout_def split: if_splits dest: assess_fee_Some)

lemma create_grant_Ok:
  assumes "create_grant e c r n ms s = Ok (i, s')"
  obtains stones where "new_milestones 0 ms = Ok (n, stones)" "ms \<noteq> []" "0 < n" "i = unwrap_or (gr_next_grant_id s) 0"
    "auth e c" "gr_governance s = Some c" "grants_is_recipient_allowed s r" "i + 1 \<le> u64_max"
    "s' = s\<lparr>gr_next_grant_id := Some (i + 1), gr_grant := (gr_grant s)(i \<mapsto>
       \<lparr>og_recipient = r, og_total_amount = n, og_milestones = stones, og_claimable = 0\<rparr>)\<rparr>"
  using assms by (auto simp: create_grant_def Let_def split: if_splits)

lemma confirm_milestone_Ok:
  assumes "confirm_milestone e c i m s = Ok (u, s')"
  obtains g where "gr_grant s i = Some g" "auth e c" "gr_governance s = Some c" "m < length (og_milestones g)"
    "list_all om_confirmed (take m (og_milestones g))" "\<not> om_confirmed (og_milestones g ! m)"
    "in_i128 (og_claimable g + om_amount (og_milestones g ! m))"
    "s' = s\<lparr>gr_grant := (gr_grant s)(i \<mapsto> g\<lparr>og_claimable := og_claimable g + om_amount (og_milestones g ! m),
       og_milestones := (og_milestones g)[m := (og_milestones g ! m)\<lparr>om_confirmed := True\<rparr>]\<rparr>)\<rparr>"
proof -
  from assms obtain g where "gr_grant s i = Some g" by (auto simp: confirm_milestone_def grants_grant_def)
  with assms show ?thesis
    by (intro that [of g]) (auto simp: confirm_milestone_def grants_grant_def Let_def list_all_iff list_ex_iff split: if_splits)
qed

lemma add_accrued_fee_Ok:
  "add_accrued_fee t fee s = Ok s' \<Longrightarrow> 0 \<le> fee \<Longrightarrow> accrued_fees s' t = accrued_fees s t + fee \<and>
     (\<exists>f. s' = s\<lparr>gr_accrued_fees := f\<rparr> \<and> (\<forall>x. x \<noteq> t \<longrightarrow> f x = gr_accrued_fees s x))"
  by (cases "0 < fee") (auto simp: add_accrued_fee_def accrued_fees_def intro: exI [of _ "gr_accrued_fees s"])

lemma grants_claim_Ok:
  assumes "grants_claim callee transfer e r i (s, w) = Ok (n, (s', w'))"
  obtains g q t f w1 where "gr_grant s i = Some g" "auth e r" "og_recipient g = r" "0 < og_claimable g" "\<not> gr_lock s"
    "quote_payout callee e (og_claimable g) (s\<lparr>gr_lock := True\<rparr>, w) = Ok (q, w1)" "gr_token s = Some t" "n = quote_net q"
    "n + quote_fee q = og_claimable g" "0 \<le> quote_fee q" "0 \<le> n" "10 * quote_fee q \<le> og_claimable g"
    "unwrap_or (f t) 0 = accrued_fees s t + quote_fee q" "\<forall>x. x \<noteq> t \<longrightarrow> f x = gr_accrued_fees s x"
    "if 0 < n then transfer w1 t (this e) r n = Some w' else w' = w1"
    "s' = s\<lparr>gr_accrued_fees := f, gr_lock := False, gr_grant := (gr_grant s)(i \<mapsto>
       g\<lparr>og_claimable := 0, og_milestones := mark_claimed (og_milestones g)\<rparr>)\<rparr>"
proof -
  let ?s = "s\<lparr>gr_lock := True\<rparr>"
  from assms obtain g q w1 t s2 where o: "gr_grant s i = Some g" "auth e r" "og_recipient g = r" "0 < og_claimable g"
    "\<not> gr_lock s" "quote_payout callee e (og_claimable g) (?s, w) = Ok (q, w1)" "gr_token s = Some t"
    "add_accrued_fee t (quote_fee q) ?s = Ok s2" "n = quote_net q"
    "if 0 < n then transfer w1 t (this e) r n = Some w' else w' = w1"
    "s' = s2\<lparr>gr_lock := False, gr_grant := (gr_grant s2)(i \<mapsto>
       g\<lparr>og_claimable := 0, og_milestones := mark_claimed (og_milestones g)\<rparr>)\<rparr>"
    by (auto simp: grants_claim_def Let_def grants_acquire_guard_def grants_grant_def grants_token_def
        grants_release_guard_def split: if_splits)
  note q = quote_payout_Ok [OF o(6)]
  from add_accrued_fee_Ok [OF o(8) q(2)] obtain f where f: "s2 = ?s\<lparr>gr_accrued_fees := f\<rparr>"
    "\<forall>x. x \<noteq> t \<longrightarrow> f x = gr_accrued_fees s x" "accrued_fees s2 t = accrued_fees ?s t + quote_fee q" by auto
  show ?thesis
    by (rule that [of g q w1 t f]) (use o q f in \<open>auto simp: accrued_fees_def\<close>)
qed

lemma sweep_fees_Ok:
  assumes "sweep_fees transfer e t (s, w) = Ok (n, (s', w'))"
  obtains "\<not> gr_lock s" "gr_token s = Some t" "n = accrued_fees s t" "n = 0" "s' = s\<lparr>gr_lock := False\<rparr>" "w' = w"
  | a where "\<not> gr_lock s" "gr_token s = Some t" "n = accrued_fees s t" "n \<noteq> 0" "gr_treasury s = Some a"
    "transfer w t (this e) a n = Some w'" "s' = s\<lparr>gr_lock := False, gr_accrued_fees := (gr_accrued_fees s)(t \<mapsto> 0)\<rparr>"
proof (cases "accrued_fees s t = 0")
  case True
  then show ?thesis using assms that(1)
    by (auto simp: sweep_fees_def Let_def grants_acquire_guard_def grants_token_def grants_release_guard_def
        accrued_fees_def split: if_splits)
next
  case False
  then show ?thesis using assms that(2)
    by (auto simp: sweep_fees_def Let_def grants_acquire_guard_def grants_token_def grants_release_guard_def
        accrued_fees_def split: if_splits)
qed

lemma grants_exec_cases:
  assumes "grants_exec callee transfer e c (s, w) = Ok (n, (s', w'))"
  obtains (init) g t where "c = GrInitialize g t" "gr_governance s = None" "n = 0" "w' = w"
      "s' = s\<lparr>gr_governance := Some g, gr_token := Some t, gr_next_grant_id := Some 0,
        gr_accrued_fees := (gr_accrued_fees s)(t \<mapsto> 0)\<rparr>"
  | (config) a b f where "n = 0" "w' = w" "s' = s\<lparr>gr_treasury := a, gr_parameter_registry := b, gr_recipient_status := f\<rparr>"
      "\<And>x y z. c \<noteq> GrConfirm x y z" "\<And>x y z ms. c \<noteq> GrCreate x y z ms" "\<And>x y. c \<noteq> GrClaim x y" "\<And>x y. c \<noteq> GrInitialize x y"
  | (create) x r k ms i where "c = GrCreate x r k ms" "create_grant e x r k ms s = Ok (i, s')" "n = 0" "w' = w"
  | (confirm) x i m where "c = GrConfirm x i m" "confirm_milestone e x i m s = Ok ((), s')" "n = 0" "w' = w"
  | (claim) r i where "c = GrClaim r i" "grants_claim callee transfer e r i (s, w) = Ok (n, (s', w'))"
  | (sweep) t where "c = GrSweepFees t" "sweep_fees transfer e t (s, w) = Ok (n, (s', w'))"
proof (cases c)
  case (GrInitialize g t)
  with assms show ?thesis by (intro init) (auto simp: no_payout_def grants_initialize_def split: if_splits)
next
  case (GrCreate x r k ms)
  with assms show ?thesis by (auto simp: no_payout_def intro: create)
next
  case (GrConfirm x i m)
  with assms show ?thesis by (auto simp: no_payout_def intro: confirm)
next
  case (GrClaim r i)
  with assms claim show ?thesis by simp
next
  case (GrSweepFees t)
  with assms sweep show ?thesis by simp
next
  case (GrSetFeeConfig x t p)
  with assms show ?thesis
    by (intro config [where a = "Some t" and b = "Some p" and f = "gr_recipient_status s"]) (auto simp: no_payout_def set_fee_config_def grants_governance_def split: if_splits)
next
  case (GrBump ks k)
  with assms show ?thesis
    by (intro config [where a = "gr_treasury s" and b = "gr_parameter_registry s" and f = "gr_recipient_status s"])
       (auto simp: no_payout_def grants_bump_def split: if_splits)
next
  case (GrAllow x r)
  with assms show ?thesis
    by (intro config [where a = "gr_treasury s" and b = "gr_parameter_registry s" and f = "(gr_recipient_status s)(r \<mapsto> GrantAllowed)"])
       (auto simp: no_payout_def grants_allow_recipient_def)
next
  case (GrBlock x r)
  with assms show ?thesis
    by (intro config [where a = "gr_treasury s" and b = "gr_parameter_registry s" and f = "(gr_recipient_status s)(r \<mapsto> GrantBlocked)"])
       (auto simp: no_payout_def grants_block_recipient_def)
next
  case (GrRemove x r)
  with assms show ?thesis
    by (intro config [where a = "gr_treasury s" and b = "gr_parameter_registry s" and f = "(gr_recipient_status s)(r := None)"])
       (auto simp: no_payout_def grants_remove_recipient_def)
qed

section \<open>The accounting invariant\<close>

definition claimed_amount :: "onchain_grant option \<Rightarrow> int" where
  "claimed_amount g = (case g of None \<Rightarrow> 0 | Some g \<Rightarrow> milestone_sum om_claimed (og_milestones g))"

definition claimed_total :: "grants \<Rightarrow> int" where
  "claimed_total s = (\<Sum>i < unwrap_or (gr_next_grant_id s) 0. claimed_amount (gr_grant s i))"

definition unswept_fees :: "grants \<Rightarrow> int" where
  "unswept_fees s = (case gr_token s of None \<Rightarrow> 0 | Some t \<Rightarrow> accrued_fees s t)"

definition grants_wf :: "grants \<Rightarrow> bool" where
  "grants_wf s \<longleftrightarrow> (\<forall>i g. gr_grant s i = Some g \<longrightarrow> grant_ok g \<and> i < unwrap_or (gr_next_grant_id s) 0) \<and>
     (\<forall>i < unwrap_or (gr_next_grant_id s) 0. gr_grant s i \<noteq> None) \<and>
     (\<forall>t. gr_accrued_fees s t \<noteq> None \<longrightarrow> gr_token s = Some t) \<and> (\<forall>t. 0 \<le> accrued_fees s t) \<and> \<not> gr_lock s \<and>
     (gr_governance s = None \<longrightarrow> gr_token s = None \<and> gr_next_grant_id s = None \<and> gr_grant s = Map.empty)"

definition grants_balanced :: "grants \<times> int \<Rightarrow> bool" where
  "grants_balanced sn \<longleftrightarrow> grants_wf (fst sn) \<and> snd sn + unswept_fees (fst sn) = claimed_total (fst sn)"

lemma claimed_total_update:
  assumes "i < unwrap_or (gr_next_grant_id s) 0"
  shows "claimed_total (s\<lparr>gr_grant := (gr_grant s)(i \<mapsto> g)\<rparr>) =
    claimed_total s - claimed_amount (gr_grant s i) + claimed_amount (Some g)"
proof -
  have "sum (\<lambda>j. claimed_amount (((gr_grant s)(i \<mapsto> g)) j)) (insert i {..<unwrap_or (gr_next_grant_id s) 0}) =
      sum (\<lambda>j. claimed_amount (gr_grant s j)) {..<unwrap_or (gr_next_grant_id s) 0} - claimed_amount (gr_grant s i) +
      claimed_amount (((gr_grant s)(i \<mapsto> g)) i)"
    by (rule sum_one_changed) (use assms in auto)
  then show ?thesis using assms by (simp add: claimed_total_def insert_absorb)
qed

lemma claimed_total_cong:
  "gr_grant s' = gr_grant s \<Longrightarrow> gr_next_grant_id s' = gr_next_grant_id s \<Longrightarrow> claimed_total s' = claimed_total s"
  by (simp add: claimed_total_def)

lemma grants_exec_balanced:
  assumes "grants_exec callee transfer e c (s, w) = Ok (n, (s', w'))" and "grants_balanced (s, k)"
  shows "grants_balanced (s', k + n)"
  using assms(1)
proof (cases rule: grants_exec_cases)
  case (init g t)
  then show ?thesis using assms(2)
    by (auto simp: grants_balanced_def grants_wf_def unswept_fees_def claimed_total_def accrued_fees_def)
next
  case (config a b f)
  then show ?thesis using assms(2)
    by (auto simp: grants_balanced_def grants_wf_def unswept_fees_def claimed_total_def accrued_fees_def
        split: option.splits)
next
  case (create x r m ms i)
  from create_grant_Ok [OF create(2)] obtain stones where o: "new_milestones 0 ms = Ok (m, stones)" "ms \<noteq> []"
    "i = unwrap_or (gr_next_grant_id s) 0" "gr_governance s = Some x"
    "s' = s\<lparr>gr_next_grant_id := Some (i + 1), gr_grant := (gr_grant s)(i \<mapsto>
       \<lparr>og_recipient = r, og_total_amount = m, og_milestones = stones, og_claimable = 0\<rparr>)\<rparr>" by blast
  have "filter om_claimed stones = []" using new_milestones_Ok [OF o(1)] by (simp add: filter_empty_conv)
  then have "claimed_total s' = claimed_total s"
    unfolding claimed_total_def o(5) using o(3) by (simp add: claimed_amount_def milestone_sum_def)
  moreover have "grants_wf s'"
    using assms(2) o(3-5) grant_ok_new [OF o(1,2), of r]
    by (auto simp: grants_balanced_def grants_wf_def accrued_fees_def dest: less_SucI)
  ultimately show ?thesis using assms(2) create(3) o(5)
    by (auto simp: grants_balanced_def unswept_fees_def accrued_fees_def split: option.splits)
next
  case (confirm x i m)
  from confirm_milestone_Ok [OF confirm(2)] obtain g where o: "gr_grant s i = Some g" "m < length (og_milestones g)"
    "list_all om_confirmed (take m (og_milestones g))" "\<not> om_confirmed (og_milestones g ! m)"
    "s' = s\<lparr>gr_grant := (gr_grant s)(i \<mapsto> g\<lparr>og_claimable := og_claimable g + om_amount (og_milestones g ! m),
       og_milestones := (og_milestones g)[m := (og_milestones g ! m)\<lparr>om_confirmed := True\<rparr>]\<rparr>)\<rparr>" by blast
  have g: "grant_ok g" "i < unwrap_or (gr_next_grant_id s) 0" using assms(2) o(1) by (auto simp: grants_balanced_def grants_wf_def)
  have "claimed_total s' = claimed_total s"
    unfolding o(5) claimed_total_update [OF g(2)] using o(1) grant_ok_confirm(2) [OF g(1) o(2-4)] by (simp add: claimed_amount_def)
  moreover have "grants_wf s'"
    using assms(2) o(1,5) grant_ok_confirm(1) [OF g(1) o(2-4)] g(2) by (auto simp: grants_balanced_def grants_wf_def accrued_fees_def)
  ultimately show ?thesis using assms(2) confirm(3) o(5)
    by (auto simp: grants_balanced_def unswept_fees_def accrued_fees_def split: option.splits)
next
  case (claim r i)
  from claim(2) show ?thesis
  proof (cases rule: grants_claim_Ok)
    case (1 g q t f w1)
    have g: "grant_ok g" "i < unwrap_or (gr_next_grant_id s) 0" using assms(2) 1 by (auto simp: grants_balanced_def grants_wf_def)
    let ?g = "g\<lparr>og_claimable := 0, og_milestones := mark_claimed (og_milestones g)\<rparr>"
    have "claimed_total s' = claimed_total (s\<lparr>gr_grant := (gr_grant s)(i \<mapsto> ?g)\<rparr>)"
      unfolding 1(16) by (rule claimed_total_cong) simp_all
    then have total: "claimed_total s' = claimed_total s + og_claimable g"
      unfolding claimed_total_update [OF g(2)] using 1(1) grant_ok_claim(2) [OF g(1)] by (simp add: claimed_amount_def)
    have fees: "accrued_fees s' t = accrued_fees s t + quote_fee q" "x \<noteq> t \<Longrightarrow> accrued_fees s' x = accrued_fees s x" for x
      using 1 by (simp_all add: accrued_fees_def)
    have "grants_wf s'"
      unfolding grants_wf_def
    proof (intro conjI allI impI)
      fix x show "0 \<le> accrued_fees s' x" using fees assms(2) 1(10) by (cases "x = t") (auto simp: grants_balanced_def grants_wf_def)
      fix x assume "gr_accrued_fees s' x \<noteq> None"
      then show "gr_token s' = Some x" using 1(7,14,16) assms(2) by (cases "x = t") (auto simp: grants_balanced_def grants_wf_def)
    qed (use assms(2) 1(7,16) g grant_ok_claim(1) [OF g(1)] in \<open>auto simp: grants_balanced_def grants_wf_def split: if_splits\<close>)
    then show ?thesis using assms(2) total fees(1) 1(7,9,16) by (auto simp: grants_balanced_def unswept_fees_def)
  qed
next
  case (sweep t)
  from sweep(2) show ?thesis
  proof (cases rule: sweep_fees_Ok)
    case 1
    then show ?thesis using assms(2)
      by (auto simp: grants_balanced_def grants_wf_def unswept_fees_def claimed_total_def accrued_fees_def)
  next
    case (2 a)
    have "accrued_fees s' x = (if x = t then 0 else accrued_fees s x)" for x using 2 by (simp add: accrued_fees_def)
    moreover have "claimed_total s' = claimed_total s" unfolding 2(7) by (rule claimed_total_cong) simp_all
    ultimately show ?thesis using assms(2) 2
      by (auto simp: grants_balanced_def grants_wf_def unswept_fees_def)
  qed
qed

interpretation balanced: contract_invariant "tally (grants_exec callee transfer)" "\<lambda>sn. grants_balanced (fst (fst sn), snd sn)"
  for callee :: "'w callee" and transfer
proof
  fix sn e c n sn'
  assume "grants_balanced (fst (fst sn), snd sn)" "tally (grants_exec callee transfer) e c sn = Ok (n, sn')"
  then show "grants_balanced (fst (fst sn'), snd sn')"
    using grants_exec_balanced [of callee transfer e c "fst (fst sn)" "snd (fst sn)" n "fst (fst sn')" "snd (fst sn')" "snd sn"]
    by (simp add: tally_Ok)
qed

lemma grants_run_balanced:
  "grants_balanced (fst (fst (run_txs (tally (grants_exec callee transfer)) txs ((grants_undeployed, w), 0))),
     snd (run_txs (tally (grants_exec callee transfer)) txs ((grants_undeployed, w), 0)))"
  by (rule balanced.run_keeps)
     (simp add: grants_balanced_def grants_wf_def grants_undeployed_def unswept_fees_def claimed_total_def accrued_fees_def)

lemma grants_run_wf: "grants_wf (fst (run_txs (grants_exec callee transfer) txs (grants_undeployed, w)))"
  using grants_run_balanced [of callee transfer txs w] by (simp add: grants_balanced_def run_tally_fst)

section \<open>Properties\<close>

definition grants_env :: "nat \<Rightarrow> env" where
  "grants_env t = \<lparr>timestamp = t, ledger_seq = 0, auth = (\<lambda>_. True), this = 80\<rparr>"

text \<open>A parameter registry with a fee of 5 percent, and a token that counts its transfers.\<close>

definition grants_callee :: "nat callee" where
  "grants_callee e w a f args = (if f = ''fee_bps'' then (CallOk (VU32 500), w) else (CallErr InvokeAbort, w))"

definition grants_transfer :: "nat transfer_fn" where
  "grants_transfer w t a b n = Some (w + 1)"

definition grants_txs :: "(env \<times> grants_call) list" where
  "grants_txs = map (\<lambda>c. (grants_env 5, c)) [GrInitialize 1 5, GrSetFeeConfig 1 8 9, GrCreate 1 2 300 [100, 200],
     GrAllow 1 2, GrCreate 1 2 300 [100, 200], GrConfirm 1 0 1, GrConfirm 1 0 0, GrClaim 2 0]"

definition grants_end :: grants where
  "grants_end = \<lparr>gr_governance = Some 1, gr_token = Some 5, gr_next_grant_id = Some 1, gr_parameter_registry = Some 9,
     gr_treasury = Some 8, gr_grant = [0 \<mapsto> \<lparr>og_recipient = 2, og_total_amount = 300,
       og_milestones = [\<lparr>om_amount = 100, om_confirmed = True, om_claimed = True\<rparr>,
         \<lparr>om_amount = 200, om_confirmed = False, om_claimed = False\<rparr>], og_claimable = 0\<rparr>],
     gr_accrued_fees = [5 \<mapsto> 5], gr_recipient_status = [2 \<mapsto> GrantAllowed], gr_lock = False\<rparr>"

lemmas grants_eval = grants_initialize_def set_fee_config_def create_grant_def confirm_milestone_def grants_claim_def
  grants_allow_recipient_def no_payout_def grants_require_governance_def grants_governance_def grants_grant_def
  grants_token_def grants_acquire_guard_def grants_release_guard_def grants_is_recipient_allowed_def
  grants_fee_bps_def quote_payout_def assess_fee_def add_accrued_fee_def invoke_contract_def token_transfer_def
  require_auth_def ok_or_def i128_opt_def in_i128_def i128_max_def i128_min_def u64_max_def Let_def
  BPS_DENOMINATOR_def MAX_FEE_BPS_def

lemma grants_run: "run_txs (grants_exec grants_callee grants_transfer) grants_txs (grants_undeployed, 0) = (grants_end, 1)"
  by (simp add: grants_txs_def grants_env_def grants_callee_def grants_transfer_def grants_end_def grants_undeployed_def
      grants_eval del: and_then_Ok_iff and_then_Err_iff and_then_Trap_iff i128_opt_iff)

text \<open>
  The same contract against a token that writes down every transfer it makes, newest first, as token,
  sender, receiver and amount.  Only the token writes the log: the other callees keep it.
\<close>

type_synonym transfer_log = "(address \<times> address \<times> address \<times> int) list"

definition logged_transfer :: "'w transfer_fn \<Rightarrow> ('w \<times> transfer_log) transfer_fn" where
  "logged_transfer transfer wl t a b n =
     map_option (\<lambda>w'. (w', (t, a, b, n) # snd wl)) (transfer (fst wl) t a b n)"

definition logged_callee :: "'w callee \<Rightarrow> ('w \<times> transfer_log) callee" where
  "logged_callee callee e wl a f args = (case callee e (fst wl) a f args of (r, w') \<Rightarrow> (r, (w', snd wl)))"

definition logged_exec ::
  "'w callee \<Rightarrow> 'w transfer_fn \<Rightarrow> env \<Rightarrow> grants_call \<Rightarrow> ('w \<times> transfer_log) gr_system \<Rightarrow>
     (grants_error, int \<times> ('w \<times> transfer_log) gr_system) outcome" where
  "logged_exec callee transfer = grants_exec (logged_callee callee) (logged_transfer transfer)"

definition log_amount :: "transfer_log \<Rightarrow> int" where
  "log_amount xs = (\<Sum>(t, a, b, n)\<leftarrow>xs. n)"

lemma logged_transfer_Some:
  "logged_transfer transfer wl t a b n = Some wl' \<Longrightarrow> snd wl' = (t, a, b, n) # snd wl"
  by (auto simp: logged_transfer_def)

lemma grants_fee_bps_keeps_log:
  assumes "grants_fee_bps (logged_callee callee) e (s, wl) = Ok (k, wl')"
  shows "snd wl' = snd wl"
proof (cases "gr_parameter_registry s")
  case None
  with assms show ?thesis by (simp add: grants_fee_bps_def)
next
  case (Some registry)
  with assms obtain v w where "logged_callee callee e wl registry ''fee_bps'' [] = (CallOk v, w)"
    "(case v of VU32 bps \<Rightarrow> if MAX_FEE_BPS < bps then Err GrInvalidFeeBps else Ok (bps, w) | _ \<Rightarrow> Trap) = Ok (k, wl')"
    by (auto simp: grants_fee_bps_def)
  then show ?thesis by (cases v) (auto simp: logged_callee_def split: prod.splits if_splits)
qed

lemma quote_payout_keeps_log:
  "quote_payout (logged_callee callee) e gross (s, wl) = Ok (q, wl') \<Longrightarrow> snd wl' = snd wl"
  by (auto simp: quote_payout_def split: if_splits dest: grants_fee_bps_keeps_log)

text \<open>Every accepted call makes at most one transfer: of the amount it returns, from the contract, to the claimant or the treasury.\<close>

lemma logged_exec_step:
  assumes "logged_exec callee transfer e c (s, wl) = Ok (n, (s', wl'))" and "grants_wf s"
  obtains "n = 0" "snd wl' = snd wl"
  | t b where "0 < n" "gr_token s = Some t" "snd wl' = (t, this e, b, n) # snd wl"
      "(\<exists>i g. c = GrClaim b i \<and> auth e b \<and> gr_grant s i = Some g \<and> og_recipient g = b) \<or>
       c = GrSweepFees t \<and> gr_treasury s = Some b"
  using assms(1) unfolding logged_exec_def
proof (cases rule: grants_exec_cases)
  case (claim r i)
  from claim(2) show ?thesis
  proof (cases rule: grants_claim_Ok)
    case (1 g q t f w1)
    then show ?thesis using claim(1) that quote_payout_keeps_log [OF 1(6)]
      by (cases "0 < n") (auto dest: logged_transfer_Some)
  qed
next
  case (sweep t)
  have "0 \<le> accrued_fees s t" using assms(2) by (simp add: grants_wf_def)
  with sweep(2) sweep(1) that show ?thesis by (cases rule: sweep_fees_Ok) (auto dest: logged_transfer_Some)
qed (use that in auto)

lemma logged_exec_balanced:
  assumes "logged_exec callee transfer e c (s, wl) = Ok (n, (s', wl'))" and "grants_balanced (s, log_amount (snd wl))"
  shows "grants_balanced (s', log_amount (snd wl'))"
proof -
  have "grants_balanced (s', log_amount (snd wl) + n)"
    by (rule grants_exec_balanced [OF assms(1) [unfolded logged_exec_def] assms(2)])
  moreover have "grants_wf s" using assms(2) by (simp add: grants_balanced_def)
  with assms(1) have "log_amount (snd wl') = log_amount (snd wl) + n"
    by (cases rule: logged_exec_step) (simp_all add: log_amount_def)
  ultimately show ?thesis by simp
qed

interpretation logged: contract_invariant "logged_exec callee transfer" "\<lambda>x. grants_balanced (fst x, log_amount (snd (snd x)))"
  for callee :: "'w callee" and transfer
proof
  fix x e c n x'
  assume "grants_balanced (fst x, log_amount (snd (snd x)))" "logged_exec callee transfer e c x = Ok (n, x')"
  then show "grants_balanced (fst x', log_amount (snd (snd x')))"
    using logged_exec_balanced [of callee transfer e c "fst x" "snd x" n "fst x'" "snd x'"] by simp
qed

lemma logged_run_balanced:
  "grants_balanced (fst (run_txs (logged_exec callee transfer) txs (grants_undeployed, (w, []))),
     log_amount (snd (snd (run_txs (logged_exec callee transfer) txs (grants_undeployed, (w, []))))))"
  by (rule logged.run_keeps)
     (simp add: grants_balanced_def grants_wf_def grants_undeployed_def unswept_fees_def claimed_total_def
        accrued_fees_def log_amount_def)

lemma logged_entry_origin:
  assumes "(t, a, b, n) \<in> set (snd (snd (run_txs (logged_exec callee transfer) txs (grants_undeployed, (w, [])))))"
  shows "0 < n \<and> (\<exists>pre e c post s g.
    txs = pre @ (e, c) # post \<and> s = fst (run_txs (logged_exec callee transfer) pre (grants_undeployed, (w, []))) \<and>
    gr_token s = Some t \<and> a = this e \<and>
    ((\<exists>i. c = GrClaim b i \<and> auth e b \<and> gr_grant s i = Some g \<and> og_recipient g = b) \<or>
     c = GrSweepFees t \<and> gr_treasury s = Some b))"
proof -
  let ?run = "\<lambda>txs. run_txs (logged_exec callee transfer) txs (grants_undeployed, (w, []))"
  obtain pre e c post r x where o: "txs = pre @ (e, c) # post" "(t, a, b, n) \<notin> set (snd (snd (?run pre)))"
    "logged_exec callee transfer e c (?run pre) = Ok (r, x)" "(t, a, b, n) \<in> set (snd (snd x))"
    by (rule run_txs_origin [of "\<lambda>x. (t, a, b, n) \<in> set (snd (snd x))"]) (use assms in auto)
  have wf: "grants_wf (fst (?run pre))" using logged_run_balanced [of callee transfer pre w] by (simp add: grants_balanced_def)
  have step: "logged_exec callee transfer e c (fst (?run pre), snd (?run pre)) = Ok (r, (fst x, snd x))" using o(3) by simp
  from step wf show ?thesis
  proof (cases rule: logged_exec_step)
    case 1
    with o(2,4) show ?thesis by simp
  next
    case (2 t' b')
    with o(2,4) have eq: "t' = t" "b' = b" "r = n" "a = this e" by auto
    from 2 eq o(1) show ?thesis by blast
  qed
qed

text \<open>C10. The contract pays out exactly what was claimed. In any history, run against a token that
records its transfers: the amounts of all transfers the contract made, together with the fees it still
holds, are the amounts of the claimed milestones, and the fees held are never negative. Every recorded
transfer is of a positive amount of the contract's token, goes out of the contract, and belongs to one
transaction of the history: a claim signed by the receiver on a grant whose recipient it is, or a fee
sweep to the treasury then configured.\<close>

theorem grants_payouts_exact:
  "let run = (\<lambda>txs. run_txs (logged_exec callee transfer) txs (grants_undeployed, (w, []))); s = fst (run txs);
       log = snd (snd (run txs)) in
     log_amount log + unswept_fees s = claimed_total s \<and> 0 \<le> unswept_fees s \<and>
     (\<forall>(t, a, b, n)\<in>set log. 0 < n \<and> (\<exists>pre e c post s g.
        txs = pre @ (e, c) # post \<and> s = fst (run pre) \<and> gr_token s = Some t \<and> a = this e \<and>
        ((\<exists>i. c = GrClaim b i \<and> auth e b \<and> gr_grant s i = Some g \<and> og_recipient g = b) \<or>
         c = GrSweepFees t \<and> gr_treasury s = Some b)))"
proof -
  let ?r = "run_txs (logged_exec callee transfer) txs (grants_undeployed, (w, []))"
  have "log_amount (snd (snd ?r)) + unswept_fees (fst ?r) = claimed_total (fst ?r) \<and> 0 \<le> unswept_fees (fst ?r)"
    using logged_run_balanced [of callee transfer txs w]
    by (auto simp: grants_balanced_def grants_wf_def unswept_fees_def split: option.splits)
  with logged_entry_origin [of _ _ _ _ callee transfer txs w] show ?thesis unfolding Let_def by blast
qed

theorem grants_payouts_exact_witness:
  "let r = run_txs (logged_exec grants_callee grants_transfer) (grants_txs @ [(grants_env 6, GrSweepFees 5)])
       (grants_undeployed, (0, [])) in
     snd (snd r) = [(5, 80, 8, 5), (5, 80, 2, 95)] \<and> log_amount (snd (snd r)) + unswept_fees (fst r) = claimed_total (fst r) \<and>
     claimed_total (fst r) = 100"
proof -
  let ?txs = "grants_txs @ [(grants_env 6, GrSweepFees 5)]"
  let ?r = "run_txs (logged_exec grants_callee grants_transfer) ?txs (grants_undeployed, (0, []))"
  have r: "?r = (grants_end\<lparr>gr_accrued_fees := [5 \<mapsto> 0]\<rparr>, (2, [(5, 80, 8, 5), (5, 80, 2, 95)]))"
    by (simp add: grants_txs_def grants_env_def grants_callee_def grants_transfer_def grants_end_def grants_undeployed_def
        logged_exec_def logged_callee_def logged_transfer_def sweep_fees_def accrued_fees_def
        grants_eval del: and_then_Ok_iff and_then_Err_iff and_then_Trap_iff i128_opt_iff)
  have "log_amount (snd (snd ?r)) + unswept_fees (fst ?r) = claimed_total (fst ?r)"
    using grants_payouts_exact [of grants_callee grants_transfer 0 ?txs] unfolding Let_def by blast
  moreover have "claimed_total (fst ?r) = 100"
    by (simp add: r grants_end_def claimed_total_def claimed_amount_def milestone_sum_def)
  ultimately show ?thesis by (simp add: r Let_def)
qed

text \<open>The books of every grant are right after any history: its milestones are positive and add up to
the approved total, none is confirmed before an earlier one, only confirmed ones are claimed, the
claimable amount is the sum of the confirmed and unclaimed ones, and what was claimed plus what is
claimable never exceeds the total.\<close>

theorem grant_books_exact:
  assumes "gr_grant (fst (run_txs (grants_exec callee transfer) txs (grants_undeployed, w))) i = Some g"
  shows "(\<forall>m\<in>set (og_milestones g). 0 < om_amount m \<and> (om_claimed m \<longrightarrow> om_confirmed m)) \<and> in_order (og_milestones g) \<and>
    milestone_sum (\<lambda>_. True) (og_milestones g) = og_total_amount g \<and>
    og_claimable g = milestone_sum (\<lambda>m. om_confirmed m \<and> \<not> om_claimed m) (og_milestones g) \<and>
    milestone_sum om_claimed (og_milestones g) + og_claimable g = milestone_sum om_confirmed (og_milestones g) \<and>
    milestone_sum om_confirmed (og_milestones g) \<le> og_total_amount g"
proof -
  have g: "grant_ok g" using grants_run_wf [of callee transfer txs w] assms by (auto simp: grants_wf_def)
  have sum: "milestone_sum om_claimed ms + milestone_sum (\<lambda>m. om_confirmed m \<and> \<not> om_claimed m) ms = milestone_sum om_confirmed ms"
    if "\<forall>m\<in>set ms. om_claimed m \<longrightarrow> om_confirmed m" for ms using that by (induction ms) auto
  have "milestone_sum om_confirmed (og_milestones g) \<le> milestone_sum (\<lambda>_. True) (og_milestones g)"
    by (rule milestone_sum_mono) (use g in \<open>auto simp: grant_ok_def\<close>)
  with g sum [of "og_milestones g"] show ?thesis by (auto simp: grant_ok_def)
qed

theorem grant_books_exact_witness:
  "milestone_sum om_claimed (og_milestones (the (gr_grant grants_end 0))) = 100 \<and>
   milestone_sum om_confirmed (og_milestones (the (gr_grant grants_end 0))) \<le> 300"
proof -
  have "gr_grant (fst (run_txs (grants_exec grants_callee grants_transfer) grants_txs (grants_undeployed, 0))) 0 =
    Some (the (gr_grant grants_end 0))"
    by (simp add: grants_run grants_end_def)
  from grant_books_exact [OF this] show ?thesis by (simp add: grants_end_def)
qed

end
