(* ===== verification/Grants_Model.thy ===== *)
theory Grants_Model
  imports Grants Math
begin

text \<open>
  \<open>grants/src/lib.rs\<close>: \<open>GrantsModel\<close>, the plain state machine of the grants without ledger, token
  and fees.  Its operations change their receiver in place and are not rolled back on an error, so
  each of them is a function to an outcome and the state afterwards.

  The contract of \<open>Grants\<close> refines it: \<open>grants_model_of\<close> forgets the fees, the recipients' screening
  and the wiring, and every accepted call of the contract is the corresponding accepted operation of
  the model (\<open>grants_contract_refines_model\<close>).
\<close>

section \<open>State\<close>

datatype grants_model_error =
  GmUnauthorized | GmGrantNotFound | GmNoMilestones | GmMilestoneSumMismatch | GmInvalidMilestoneAmount
| GmInvalidTotalAmount | GmInvalidMilestoneIndex | GmMilestoneAlreadyConfirmed | GmMilestoneOutOfOrder
| GmNotRecipient | GmNothingToClaim | GmNoExcessFunds | GmInvalidRescueAmount | GmBatchTooLarge
| GmBatchFailed nat grants_model_error

datatype grants_op = OpCreate address int "int list" | OpConfirm nat nat

record model_milestone =
  mm_amount :: int
  mm_confirmed :: bool
  mm_claimed :: bool

record model_grant =
  mg_recipient :: address
  mg_total_amount :: int
  mg_milestones :: "model_milestone list"
  mg_claimable :: int

record grants_model =
  gm_governance :: address
  gm_next_grant_id :: nat
  gm_grants :: "(nat, model_grant) btree"

type_synonym 'a model_result = "(grants_model_error, 'a) outcome \<times> grants_model"

section \<open>Operations\<close>

definition gm_new :: "address \<Rightarrow> grants_model" where
  "gm_new governance = \<lparr>gm_governance = governance, gm_next_grant_id = 0, gm_grants = []\<rparr>"

definition gm_get_grant :: "grants_model \<Rightarrow> nat \<Rightarrow> model_grant option" where
  "gm_get_grant m i = map_of (gm_grants m) i"

definition gm_claimable :: "grants_model \<Rightarrow> nat \<Rightarrow> int option" where
  "gm_claimable m i = map_option mg_claimable (map_of (gm_grants m) i)"

definition accounted_liabilities :: "grants_model \<Rightarrow> int" where
  "accounted_liabilities m =
     foldl (\<lambda>acc g. saturating_add acc
       (foldl (\<lambda>m_acc s. saturating_add m_acc (mm_amount s)) 0 (filter (\<lambda>s. \<not> mm_claimed s) (mg_milestones g))))
     0 (map snd (gm_grants m))"

definition gm_require_governance :: "address \<Rightarrow> grants_model \<Rightarrow> (grants_model_error, unit) outcome" where
  "gm_require_governance caller m = (if caller \<noteq> gm_governance m then Err GmUnauthorized else Ok ())"

fun gm_sum_milestones :: "int \<Rightarrow> int list \<Rightarrow> (grants_model_error, int) outcome" where
  "gm_sum_milestones total_sum [] = Ok total_sum"
| "gm_sum_milestones total_sum (amount # amounts) =
     (if amount \<le> 0 then Err GmInvalidMilestoneAmount
      else and_then (map_err GmMilestoneSumMismatch (math_checked_add total_sum amount)) (\<lambda>total_sum.
        gm_sum_milestones total_sum amounts))"

definition gm_create_grant :: "address \<Rightarrow> address \<Rightarrow> int \<Rightarrow> int list \<Rightarrow> grants_model \<Rightarrow> nat model_result" where
  "gm_create_grant caller recipient total_amount milestones m =
     (case and_then (gm_require_governance caller m) (\<lambda>_.
        if total_amount \<le> 0 then Err GmInvalidTotalAmount
        else if milestones = [] then Err GmNoMilestones
        else and_then (gm_sum_milestones 0 milestones) (\<lambda>total_sum.
          if total_sum \<noteq> total_amount then Err GmMilestoneSumMismatch
          else u64_add (gm_next_grant_id m) 1)) of
        Ok next_id \<Rightarrow>
          let grant_id = gm_next_grant_id m;
              stored = map (\<lambda>amount. \<lparr>mm_amount = amount, mm_confirmed = False, mm_claimed = False\<rparr>) milestones in
          (Ok grant_id, m\<lparr>gm_next_grant_id := next_id, gm_grants := btree_insert grant_id
            \<lparr>mg_recipient = recipient, mg_total_amount = total_amount, mg_milestones = stored, mg_claimable = 0\<rparr>
            (gm_grants m)\<rparr>)
      | Err x \<Rightarrow> (Err x, m)
      | Trap \<Rightarrow> (Trap, m))"

text \<open>The milestone is marked before its amount is added, and stays marked if the addition fails.\<close>

definition gm_confirm_milestone :: "address \<Rightarrow> nat \<Rightarrow> nat \<Rightarrow> grants_model \<Rightarrow> unit model_result" where
  "gm_confirm_milestone caller grant_id milestone_index m =
     (if caller \<noteq> gm_governance m then (Err GmUnauthorized, m)
      else case map_of (gm_grants m) grant_id of
        None \<Rightarrow> (Err GmGrantNotFound, m)
      | Some grant \<Rightarrow>
          if length (mg_milestones grant) \<le> milestone_index then (Err GmInvalidMilestoneIndex, m)
          else if list_ex (\<lambda>s. \<not> mm_confirmed s) (take milestone_index (mg_milestones grant)) then (Err GmMilestoneOutOfOrder, m)
          else
            let milestone = mg_milestones grant ! milestone_index in
            if mm_confirmed milestone then (Err GmMilestoneAlreadyConfirmed, m)
            else
              let marked = grant\<lparr>mg_milestones := (mg_milestones grant)[milestone_index := milestone\<lparr>mm_confirmed := True\<rparr>]\<rparr> in
              case math_checked_add (mg_claimable grant) (mm_amount milestone) of
                Ok claimable \<Rightarrow>
                  (Ok (), m\<lparr>gm_grants := btree_insert grant_id (marked\<lparr>mg_claimable := claimable\<rparr>) (gm_grants m)\<rparr>)
              | _ \<Rightarrow> (Err GmMilestoneSumMismatch, m\<lparr>gm_grants := btree_insert grant_id marked (gm_grants m)\<rparr>))"

definition gm_claim :: "address \<Rightarrow> nat \<Rightarrow> grants_model \<Rightarrow> int model_result" where
  "gm_claim recipient grant_id m =
     (case map_of (gm_grants m) grant_id of
        None \<Rightarrow> (Err GmGrantNotFound, m)
      | Some grant \<Rightarrow>
          if mg_recipient grant \<noteq> recipient then (Err GmNotRecipient, m)
          else
            let amount = mg_claimable grant in
            if amount \<le> 0 then (Err GmNothingToClaim, m)
            else (Ok amount, m\<lparr>gm_grants := btree_insert grant_id (grant\<lparr>mg_claimable := 0,
              mg_milestones := map (\<lambda>s. if mm_confirmed s then s\<lparr>mm_claimed := True\<rparr> else s) (mg_milestones grant)\<rparr>)
              (gm_grants m)\<rparr>))"

definition MAX_BATCH_OPS :: nat where "MAX_BATCH_OPS = 16"

fun gm_batch_loop :: "address \<Rightarrow> nat \<Rightarrow> grants_op list \<Rightarrow> grants_model \<Rightarrow> (grants_model_error, grants_model) outcome" where
  "gm_batch_loop caller index [] staged = Ok staged"
| "gm_batch_loop caller index (operation # operations) staged =
     (case (case operation of
         OpCreate recipient total_amount milestones \<Rightarrow>
           (case gm_create_grant caller recipient total_amount milestones staged of
              (Ok _, st) \<Rightarrow> (Ok (), st) | (Err x, st) \<Rightarrow> (Err x, st) | (Trap, st) \<Rightarrow> (Trap, st))
       | OpConfirm grant_id milestone_index \<Rightarrow> gm_confirm_milestone caller grant_id milestone_index staged) of
        (Ok _, staged) \<Rightarrow> gm_batch_loop caller (index + 1) operations staged
      | (Err error, _) \<Rightarrow> Err (GmBatchFailed index error)
      | (Trap, _) \<Rightarrow> Trap)"

definition gm_batch :: "address \<Rightarrow> grants_op list \<Rightarrow> grants_model \<Rightarrow> unit model_result" where
  "gm_batch caller operations m =
     (if caller \<noteq> gm_governance m then (Err GmUnauthorized, m)
      else if MAX_BATCH_OPS < length operations then (Err GmBatchTooLarge, m)
      else case gm_batch_loop caller 0 operations m of
        Ok staged \<Rightarrow> (Ok (), staged)
      | Err x \<Rightarrow> (Err x, m)
      | Trap \<Rightarrow> (Trap, m))"

definition gm_rescue :: "address \<Rightarrow> address \<Rightarrow> address \<Rightarrow> int \<Rightarrow> int \<Rightarrow> grants_model \<Rightarrow> (grants_model_error, int) outcome" where
  "gm_rescue caller token to amount live_balance m =
     and_then (gm_require_governance caller m) (\<lambda>_.
     if to \<noteq> gm_governance m then Err GmUnauthorized
     else if amount \<le> 0 then Err GmInvalidRescueAmount
     else
       let excess = saturating_sub live_balance (accounted_liabilities m) in
       if excess < amount then Err GmNoExcessFunds
       else map_err GmNoExcessFunds (math_checked_sub excess amount))"

section \<open>The contract refines the model\<close>

definition model_milestone_of :: "onchain_milestone \<Rightarrow> model_milestone" where
  "model_milestone_of m = \<lparr>mm_amount = om_amount m, mm_confirmed = om_confirmed m, mm_claimed = om_claimed m\<rparr>"

definition model_grant_of :: "onchain_grant \<Rightarrow> model_grant" where
  "model_grant_of g = \<lparr>mg_recipient = og_recipient g, mg_total_amount = og_total_amount g,
     mg_milestones = map model_milestone_of (og_milestones g), mg_claimable = og_claimable g\<rparr>"

definition model_grants_of :: "nat \<Rightarrow> (nat \<Rightarrow> onchain_grant option) \<Rightarrow> (nat, model_grant) btree" where
  "model_grants_of n f = map (\<lambda>i. (i, model_grant_of (the (f i)))) [0 ..< n]"

definition grants_model_of :: "grants \<Rightarrow> grants_model" where
  "grants_model_of s =
     (let n = unwrap_or (gr_next_grant_id s) 0 in
      \<lparr>gm_governance = the (gr_governance s), gm_next_grant_id = n, gm_grants = model_grants_of n (gr_grant s)\<rparr>)"

lemma map_of_model_grants: "map_of (model_grants_of n f) i = (if i < n then Some (model_grant_of (the (f i))) else None)"
  by (induction n) (auto simp: model_grants_of_def map_add_def less_Suc_eq)

lemma model_grants_insert_new:
  "btree_insert n (model_grant_of g) (model_grants_of n f) = model_grants_of (Suc n) (f(n \<mapsto> g))"
  by (subst btree_insert_last) (auto simp: model_grants_of_def)

lemma model_grants_insert_old:
  assumes "i < n"
  shows "btree_insert i (model_grant_of g) (model_grants_of n f) = model_grants_of n (f(i \<mapsto> g))"
proof -
  have "sorted_wrt (<) (map fst (model_grants_of n f))" by (simp add: model_grants_of_def comp_def)
  moreover have "i \<in> fst ` set (model_grants_of n f)" using assms by (force simp: model_grants_of_def)
  ultimately show ?thesis by (simp add: btree_insert_same) (simp add: model_grants_of_def)
qed

lemma math_checked_add_Ok: "math_checked_add a b = Ok c \<longleftrightarrow> 0 \<le> a \<and> 0 \<le> b \<and> in_i128 (a + b) \<and> c = a + b"
  by (auto simp: math_checked_add_def ok_or_def split: option.splits)

lemma sum_milestones_refine:
  "new_milestones t as = Ok (t', ms) \<Longrightarrow> 0 \<le> t \<Longrightarrow> gm_sum_milestones t as = Ok t' \<and>
     map model_milestone_of ms = map (\<lambda>a. \<lparr>mm_amount = a, mm_confirmed = False, mm_claimed = False\<rparr>) as"
proof (induction as arbitrary: t t' ms)
  case (Cons a as)
  from Cons.prems obtain ms' where n: "new_milestones (t + a) as = Ok (t', ms')" "0 < a" "in_i128 (t + a)"
    "ms = \<lparr>om_amount = a, om_confirmed = False, om_claimed = False\<rparr> # ms'"
    by (auto split: if_splits)
  from Cons.IH [OF n(1)] n(2-4) Cons.prems(2) show ?case by (simp add: math_checked_add_Ok model_milestone_of_def)
qed simp

lemma create_refines:
  assumes "create_grant e c r k ms s = Ok (i, s')"
  shows "gm_create_grant c r k ms (grants_model_of s) = (Ok i, grants_model_of s')"
proof -
  from create_grant_Ok [OF assms] obtain stones where o: "new_milestones 0 ms = Ok (k, stones)" "ms \<noteq> []" "0 < k"
    "i = unwrap_or (gr_next_grant_id s) 0" "gr_governance s = Some c" "i + 1 \<le> u64_max"
    "s' = s\<lparr>gr_next_grant_id := Some (i + 1), gr_grant := (gr_grant s)(i \<mapsto>
       \<lparr>og_recipient = r, og_total_amount = k, og_milestones = stones, og_claimable = 0\<rparr>)\<rparr>" by blast
  note sm = sum_milestones_refine [OF o(1) order.refl]
  have "grants_model_of s' = \<lparr>gm_governance = c, gm_next_grant_id = i + 1, gm_grants = btree_insert i
      \<lparr>mg_recipient = r, mg_total_amount = k,
       mg_milestones = map (\<lambda>a. \<lparr>mm_amount = a, mm_confirmed = False, mm_claimed = False\<rparr>) ms, mg_claimable = 0\<rparr>
      (model_grants_of i (gr_grant s))\<rparr>"
    using model_grants_insert_new [of i "\<lparr>og_recipient = r, og_total_amount = k, og_milestones = stones, og_claimable = 0\<rparr>" "gr_grant s"]
    by (simp add: grants_model_of_def o sm model_grant_of_def)
  moreover have "grants_model_of s = \<lparr>gm_governance = c, gm_next_grant_id = i, gm_grants = model_grants_of i (gr_grant s)\<rparr>"
    using o(4,5) by (simp add: grants_model_of_def Let_def)
  ultimately show ?thesis
    using o(2,3,6) sm by (simp add: gm_create_grant_def gm_require_governance_def u64_add_def Let_def)
qed

lemma grants_model_of_update:
  assumes "i < unwrap_or (gr_next_grant_id s) 0"
  shows "grants_model_of (s\<lparr>gr_grant := (gr_grant s)(i \<mapsto> g)\<rparr>) =
    (grants_model_of s)\<lparr>gm_grants := btree_insert i (model_grant_of g) (gm_grants (grants_model_of s))\<rparr>"
  using model_grants_insert_old [OF assms, of g "gr_grant s"] by (simp add: grants_model_of_def Let_def)

lemma grants_model_of_get:
  assumes "grants_wf s" and "gr_grant s i = Some g"
  shows "i < unwrap_or (gr_next_grant_id s) 0" and "map_of (gm_grants (grants_model_of s)) i = Some (model_grant_of g)"
  using assms by (auto simp: grants_wf_def grants_model_of_def Let_def map_of_model_grants)

lemma confirm_refines:
  assumes "confirm_milestone e c i m s = Ok (u, s')" and "grants_wf s"
  shows "gm_confirm_milestone c i m (grants_model_of s) = (Ok (), grants_model_of s')"
proof -
  from confirm_milestone_Ok [OF assms(1)] obtain g where o: "gr_grant s i = Some g" "gr_governance s = Some c"
    "m < length (og_milestones g)" "list_all om_confirmed (take m (og_milestones g))" "\<not> om_confirmed (og_milestones g ! m)"
    "in_i128 (og_claimable g + om_amount (og_milestones g ! m))"
    "s' = s\<lparr>gr_grant := (gr_grant s)(i \<mapsto> g\<lparr>og_claimable := og_claimable g + om_amount (og_milestones g ! m),
       og_milestones := (og_milestones g)[m := (og_milestones g ! m)\<lparr>om_confirmed := True\<rparr>]\<rparr>)\<rparr>" by blast
  note get = grants_model_of_get [OF assms(2) o(1)]
  have "\<not> list_ex (\<lambda>s. \<not> mm_confirmed s) (take m (map model_milestone_of (og_milestones g)))"
    using o(4) by (auto simp: take_map list_ex_iff list_all_iff model_milestone_of_def)
  moreover have "grant_ok g" "og_milestones g ! m \<in> set (og_milestones g)"
    using assms(2) o(1,3) by (auto simp: grants_wf_def)
  then have "math_checked_add (og_claimable g) (om_amount (og_milestones g ! m)) =
      Ok (og_claimable g + om_amount (og_milestones g ! m))"
    using o(6) milestone_sum_nonneg [of "og_milestones g"] by (auto simp: math_checked_add_Ok grant_ok_def less_imp_le)
  ultimately show ?thesis using o(2,3,5) get
    unfolding o(7) grants_model_of_update [OF get(1)]
    by (simp add: gm_confirm_milestone_def Let_def model_grant_of_def model_milestone_of_def
        map_update grants_model_of_def Let_def)
qed

lemma claim_refines:
  assumes "grants_claim callee transfer e r i (s, w) = Ok (n, (s', w'))" and "grants_wf s"
  shows "\<exists>fee. gm_claim r i (grants_model_of s) = (Ok (n + fee), grants_model_of s') \<and> 0 \<le> fee \<and> 10 * fee \<le> n + fee"
  using assms(1)
proof (cases rule: grants_claim_Ok)
  case (1 g q t f w1)
  note get = grants_model_of_get [OF assms(2) 1(1)]
  have "grants_model_of s' = grants_model_of (s\<lparr>gr_grant := (gr_grant s)(i \<mapsto>
      g\<lparr>og_claimable := 0, og_milestones := mark_claimed (og_milestones g)\<rparr>)\<rparr>)"
    unfolding 1(16) by (simp add: grants_model_of_def)
  then have "gm_claim r i (grants_model_of s) = (Ok (n + quote_fee q), grants_model_of s')"
    unfolding grants_model_of_update [OF get(1)] using 1(3,4,9) get(2)
    by (simp add: gm_claim_def model_grant_of_def Let_def mark_claimed_map model_milestone_of_def comp_def if_distrib cong: if_cong)
  then show ?thesis using 1(9,10,12) by (intro exI [of _ "quote_fee q"]) simp
qed

section \<open>Lemmas on the model\<close>

lemma batch_all_or_nothing:
  "gm_batch caller ops m = (r, m') \<Longrightarrow> (r = Ok () \<and> gm_batch_loop caller 0 ops m = Ok m') \<or> (r \<noteq> Ok () \<and> m' = m)"
  by (auto simp: gm_batch_def split: if_splits outcome.splits)

lemma batch_is_sequence:
  "gm_batch_loop caller k (ops1 @ ops2) m = and_then (gm_batch_loop caller k ops1 m) (gm_batch_loop caller (k + length ops1) ops2)"
  by (induction ops1 arbitrary: k m) (auto split: prod.splits outcome.splits simp del: and_then_Ok_iff and_then_Err_iff and_then_Trap_iff)

lemma rescue_leaves_liabilities:
  assumes "gm_rescue caller token to amount live m = Ok left"
  shows "to = gm_governance m \<and> 0 < amount \<and> amount \<le> live - accounted_liabilities m \<or>
    \<not> in_i128 (live - accounted_liabilities m)"
  using assms by (auto simp: gm_rescue_def saturating_sub_def gm_require_governance_def Let_def split: if_splits)

section \<open>Properties\<close>

text \<open>C9. The grants contract refines the plain grants model: in any state the contract can reach, each call it
accepts is an accepted operation of the model with the same caller and arguments, and the states
correspond before and after; creation returns the same id, a claim pays what the model releases
less a fee of at most a tenth, and all other calls do not touch the grants.\<close>

theorem grants_contract_refines_model:
  assumes "run_txs (grants_exec callee transfer) txs (grants_undeployed, w0) = (s, w)"
    and "grants_exec callee transfer e c (s, w) = Ok (n, (s', w'))"
  shows "case c of
      GrInitialize g t \<Rightarrow> grants_model_of s' = gm_new g
    | GrCreate x r k ms \<Rightarrow> gm_create_grant x r k ms (grants_model_of s) =
        (Ok (unwrap_or (gr_next_grant_id s) 0), grants_model_of s')
    | GrConfirm x i m \<Rightarrow> gm_confirm_milestone x i m (grants_model_of s) = (Ok (), grants_model_of s')
    | GrClaim r i \<Rightarrow> \<exists>fee. gm_claim r i (grants_model_of s) = (Ok (n + fee), grants_model_of s') \<and> 0 \<le> fee \<and> 10 * fee \<le> n + fee
    | _ \<Rightarrow> grants_model_of s' = grants_model_of s"
proof -
  have wf: "grants_wf s" using grants_run_wf [of callee transfer txs w0] assms(1) by simp
  from assms(2) show ?thesis
  proof (cases rule: grants_exec_cases)
    case (init g t)
    then show ?thesis using wf by (simp add: grants_wf_def grants_model_of_def gm_new_def model_grants_of_def)
  next
    case (config a b f)
    then have "grants_model_of s' = grants_model_of s" by (simp add: grants_model_of_def)
    with config(4-7) show ?thesis by (cases c) auto
  next
    case (create x r k ms i)
    moreover have "i = unwrap_or (gr_next_grant_id s) 0" using create_grant_Ok [OF create(2)] by blast
    ultimately show ?thesis using create_refines [OF create(2)] by simp
  next
    case (confirm x i m)
    then show ?thesis using confirm_refines [OF confirm(2) wf] by simp
  next
    case (claim r i)
    then show ?thesis using claim_refines [OF claim(2) wf] by simp
  next
    case (sweep t)
    from sweep(2) have "gr_grant s' = gr_grant s" "gr_next_grant_id s' = gr_next_grant_id s" "gr_governance s' = gr_governance s"
      by (auto elim: sweep_fees_Ok)
    then show ?thesis using sweep(1) by (simp add: grants_model_of_def)
  qed
qed

theorem grants_contract_refines_model_witness:
  "\<exists>fee. fst (gm_claim 2 0 (grants_model_of (fst (run_txs (grants_exec grants_callee grants_transfer) (butlast grants_txs) (grants_undeployed, 0))))) = Ok (95 + fee)"
proof -
  define sw where "sw = run_txs (grants_exec grants_callee grants_transfer) (butlast grants_txs) (grants_undeployed, 0)"
  have "grants_exec grants_callee grants_transfer (grants_env 5) (GrClaim 2 0) (fst sw, snd sw) = Ok (95, (grants_end, 1))"
    unfolding sw_def
    by (simp add: grants_txs_def grants_env_def grants_callee_def grants_transfer_def grants_end_def grants_undeployed_def
        grants_eval del: and_then_Ok_iff and_then_Err_iff and_then_Trap_iff i128_opt_iff)
  from grants_contract_refines_model [OF _ this, of "butlast grants_txs" 0] show ?thesis
    by (auto simp: sw_def)
qed

end
