(* ===== verification/Access.thy ===== *)
theory Access
  imports Soroban
begin

text \<open>
  The shared interface crate: the error codes of \<open>interfaces/src/errors.rs\<close>, the fixed-point helpers
  and roles of \<open>interfaces/src/types.rs\<close> and the role-based access control of
  \<open>interfaces/src/access.rs\<close>, a library whose keys live in the storage of the contract that uses it.

  The lemmas show that the error codes decode back, that the helpers round down exactly, where every
  role and the administration come from, and that the contract never administers itself.
\<close>

section \<open>Errors\<close>

datatype refract_error =
  RfAlreadyInitialized | RfNotInitialized | RfUnauthorized | RfNotFound | RfInvalidAmount | RfInsufficientFunds
| RfPaused | RfExpired | RfCapExceeded | RfTimelockPending | RfNoPendingAdmin | RfInvalidArgument | RfAlreadyExists
| RfAlreadyProcessed | RfOutOfOrder | RfNothingToClaim | RfOverflow | RfInvalidState

definition refract_error_all :: "refract_error list" where
  "refract_error_all = [RfAlreadyInitialized, RfNotInitialized, RfUnauthorized, RfNotFound, RfInvalidAmount,
     RfInsufficientFunds, RfPaused, RfExpired, RfCapExceeded, RfTimelockPending, RfNoPendingAdmin, RfInvalidArgument,
     RfAlreadyExists, RfAlreadyProcessed, RfOutOfOrder, RfNothingToClaim, RfOverflow, RfInvalidState]"

primrec refract_error_code :: "refract_error \<Rightarrow> nat" where
  "refract_error_code RfAlreadyInitialized = 1"
| "refract_error_code RfNotInitialized = 2"
| "refract_error_code RfUnauthorized = 3"
| "refract_error_code RfNotFound = 100"
| "refract_error_code RfInvalidAmount = 101"
| "refract_error_code RfInsufficientFunds = 102"
| "refract_error_code RfPaused = 103"
| "refract_error_code RfExpired = 104"
| "refract_error_code RfCapExceeded = 105"
| "refract_error_code RfTimelockPending = 106"
| "refract_error_code RfNoPendingAdmin = 107"
| "refract_error_code RfInvalidArgument = 108"
| "refract_error_code RfAlreadyExists = 109"
| "refract_error_code RfAlreadyProcessed = 110"
| "refract_error_code RfOutOfOrder = 111"
| "refract_error_code RfNothingToClaim = 112"
| "refract_error_code RfOverflow = 113"
| "refract_error_code RfInvalidState = 114"

definition refract_error_from_code :: "nat \<Rightarrow> refract_error option" where
  "refract_error_from_code code = find (\<lambda>e. refract_error_code e = code) refract_error_all"

text \<open>The error half of a typed client's \<open>try_\<close> call: \<open>Inl\<close> a decoded error, \<open>Inr\<close> the raw one.\<close>

definition from_invoke_result :: "refract_error + invoke_error \<Rightarrow> refract_error \<Rightarrow> refract_error" where
  "from_invoke_result result fallback =
     (case result of
        Inl e \<Rightarrow> e
      | Inr (InvokeContract code) \<Rightarrow> unwrap_or (refract_error_from_code code) fallback
      | Inr InvokeAbort \<Rightarrow> fallback)"

lemma from_code_code: "refract_error_from_code (refract_error_code e) = Some e"
  by (cases e) (simp_all add: refract_error_from_code_def refract_error_all_def)

lemma from_code_Some: "refract_error_from_code n = Some e \<longleftrightarrow> n = refract_error_code e"
proof
  assume "refract_error_from_code n = Some e"
  then show "n = refract_error_code e" by (auto simp: refract_error_from_code_def find_Some_iff)
qed (simp add: from_code_code)

section \<open>Fixed-point helpers\<close>

definition AMOUNT_SCALE :: int where "AMOUNT_SCALE = 10000000"
definition IFACE_BPS_DENOM :: nat where "IFACE_BPS_DENOM = 10000"

definition iface_mul_div_floor :: "int \<Rightarrow> int \<Rightarrow> int \<Rightarrow> (refract_error, int) outcome" where
  "iface_mul_div_floor a b denom =
     (if denom = 0 then Err RfInvalidArgument
      else
        and_then (ok_or (i128_opt (a * b)) RfOverflow) (\<lambda>p.
        ok_or (i128_opt (trunc_div p denom)) RfOverflow))"

definition iface_apply_bps :: "int \<Rightarrow> nat \<Rightarrow> (refract_error, int) outcome" where
  "iface_apply_bps amount bps = iface_mul_div_floor amount (int bps) (int IFACE_BPS_DENOM)"

lemma iface_mul_div_floor_exact:
  assumes "0 \<le> a" and "0 \<le> b" and "0 < d"
  shows "iface_mul_div_floor a b d = (if a * b \<le> i128_max then Ok (a * b div d) else Err RfOverflow)"
proof -
  have p: "0 \<le> a * b" using assms by simp
  then have in_p: "in_i128 (a * b) \<longleftrightarrow> a * b \<le> i128_max" by (auto simp: in_i128_def i128_min_def)
  have "a * b div d \<le> a * b" using p assms(3) by (simp add: div_le_dividend int_one_le_iff_zero_less zdiv_mono2 [of _ 1, simplified])
  moreover have "0 \<le> a * b div d" using p assms(3) by (simp add: pos_imp_zdiv_nonneg_iff)
  ultimately have "a * b \<le> i128_max \<Longrightarrow> in_i128 (a * b div d)" by (auto simp: in_i128_def i128_min_def)
  then show ?thesis using assms p in_p
    by (auto simp: iface_mul_div_floor_def ok_or_def i128_opt_def simp del: and_then_Ok_iff and_then_Err_iff i128_opt_iff)
qed

section \<open>Access control\<close>

datatype role = RoleAdmin | RoleOperator | RoleApprover | RolePauser | RoleUpgrader

definition role_all :: "role list" where
  "role_all = [RoleAdmin, RoleOperator, RoleApprover, RolePauser, RoleUpgrader]"

record access =
  ac_admin :: "address option"
  ac_pending_admin :: "address option"
  ac_role :: "role \<Rightarrow> address \<Rightarrow> bool option"
  ac_paused :: "bool option"
  ac_wasm :: "string option"

definition access_undeployed :: access where
  "access_undeployed = \<lparr>ac_admin = None, ac_pending_admin = None, ac_role = (\<lambda>_. Map.empty), ac_paused = None,
     ac_wasm = None\<rparr>"

type_synonym 'a access_result = "(refract_error, 'a) outcome"

definition access_init :: "env \<Rightarrow> address \<Rightarrow> access \<Rightarrow> (unit \<times> access) access_result" where
  "access_init e admin s =
     (if ac_admin s \<noteq> None then Err RfAlreadyInitialized
      else if admin = this e then Err RfInvalidArgument
      else Ok ((), s\<lparr>ac_admin := Some admin\<rparr>))"

definition access_admin :: "access \<Rightarrow> address access_result" where
  "access_admin s = ok_or (ac_admin s) RfNotInitialized"

definition access_pending_admin :: "access \<Rightarrow> address option" where
  "access_pending_admin s = ac_pending_admin s"

definition has_role :: "access \<Rightarrow> role \<Rightarrow> address \<Rightarrow> bool" where
  "has_role s role account =
     (if role = RoleAdmin then (case access_admin s of Ok a \<Rightarrow> a = account | _ \<Rightarrow> False)
      else ac_role s role account \<noteq> None)"

definition access_require_admin :: "env \<Rightarrow> address \<Rightarrow> access \<Rightarrow> unit access_result" where
  "access_require_admin e caller s =
     and_then (require_auth e caller) (\<lambda>_.
     and_then (access_admin s) (\<lambda>admin.
     if admin \<noteq> caller then Err RfUnauthorized else Ok ()))"

definition require_role :: "env \<Rightarrow> role \<Rightarrow> address \<Rightarrow> access \<Rightarrow> unit access_result" where
  "require_role e role caller s =
     and_then (require_auth e caller) (\<lambda>_.
     and_then (access_admin s) (\<lambda>admin.
     if admin = caller \<or> has_role s role caller then Ok () else Err RfUnauthorized))"

definition is_paused :: "access \<Rightarrow> bool" where
  "is_paused s = unwrap_or (ac_paused s) False"

definition require_not_paused :: "access \<Rightarrow> unit access_result" where
  "require_not_paused s = (if is_paused s then Err RfPaused else Ok ())"

definition check_role_change :: "env \<Rightarrow> role \<Rightarrow> address \<Rightarrow> access \<Rightarrow> unit access_result" where
  "check_role_change e role account s =
     (if role = RoleAdmin \<or> account = this e then Err RfInvalidArgument
      else if is_paused s \<and> role \<noteq> RolePauser then Err RfPaused
      else Ok ())"

definition grant_role :: "env \<Rightarrow> address \<Rightarrow> role \<Rightarrow> address \<Rightarrow> access \<Rightarrow> (unit \<times> access) access_result" where
  "grant_role e caller role account s =
     and_then (access_require_admin e caller s) (\<lambda>_.
     and_then (check_role_change e role account s) (\<lambda>_.
     if ac_role s role account \<noteq> None then Err RfAlreadyExists
     else Ok ((), s\<lparr>ac_role := (ac_role s)(role := (ac_role s role)(account \<mapsto> True))\<rparr>)))"

definition revoke_role :: "env \<Rightarrow> address \<Rightarrow> role \<Rightarrow> address \<Rightarrow> access \<Rightarrow> (unit \<times> access) access_result" where
  "revoke_role e caller role account s =
     and_then (access_require_admin e caller s) (\<lambda>_.
     and_then (check_role_change e role account s) (\<lambda>_.
     if ac_role s role account = None then Err RfNotFound
     else Ok ((), s\<lparr>ac_role := (ac_role s)(role := (ac_role s role)(account := None))\<rparr>)))"

definition access_propose_admin :: "env \<Rightarrow> address \<Rightarrow> address \<Rightarrow> access \<Rightarrow> (unit \<times> access) access_result" where
  "access_propose_admin e caller new_admin s =
     and_then (access_require_admin e caller s) (\<lambda>_.
     if new_admin = this e \<or> new_admin = caller then Err RfInvalidArgument
     else Ok ((), s\<lparr>ac_pending_admin := Some new_admin\<rparr>))"

definition access_accept_admin :: "env \<Rightarrow> address \<Rightarrow> access \<Rightarrow> (unit \<times> access) access_result" where
  "access_accept_admin e caller s =
     and_then (require_auth e caller) (\<lambda>_.
     and_then (ok_or (access_pending_admin s) RfNoPendingAdmin) (\<lambda>pending.
     if pending \<noteq> caller then Err RfUnauthorized
     else and_then (access_admin s) (\<lambda>previous.
       Ok ((), s\<lparr>ac_admin := Some caller, ac_pending_admin := None\<rparr>))))"

definition access_pause :: "env \<Rightarrow> address \<Rightarrow> access \<Rightarrow> (unit \<times> access) access_result" where
  "access_pause e caller s = and_then (require_role e RolePauser caller s) (\<lambda>_. Ok ((), s\<lparr>ac_paused := Some True\<rparr>))"

definition access_unpause :: "env \<Rightarrow> address \<Rightarrow> access \<Rightarrow> (unit \<times> access) access_result" where
  "access_unpause e caller s = and_then (require_role e RolePauser caller s) (\<lambda>_. Ok ((), s\<lparr>ac_paused := Some False\<rparr>))"

definition access_upgrade :: "env \<Rightarrow> address \<Rightarrow> string \<Rightarrow> access \<Rightarrow> (unit \<times> access) access_result" where
  "access_upgrade e caller new_wasm_hash s =
     and_then (require_role e RoleUpgrader caller s) (\<lambda>_. Ok ((), s\<lparr>ac_wasm := Some new_wasm_hash\<rparr>))"

datatype access_call =
  AcInit address | AcGrant address role address | AcRevoke address role address | AcPropose address address
| AcAccept address | AcPause address | AcUnpause address | AcUpgrade address string

fun access_exec :: "env \<Rightarrow> access_call \<Rightarrow> access \<Rightarrow> (unit \<times> access) access_result" where
  "access_exec e (AcInit a) s = access_init e a s"
| "access_exec e (AcGrant c r a) s = grant_role e c r a s"
| "access_exec e (AcRevoke c r a) s = revoke_role e c r a s"
| "access_exec e (AcPropose c a) s = access_propose_admin e c a s"
| "access_exec e (AcAccept c) s = access_accept_admin e c s"
| "access_exec e (AcPause c) s = access_pause e c s"
| "access_exec e (AcUnpause c) s = access_unpause e c s"
| "access_exec e (AcUpgrade c h) s = access_upgrade e c h s"

section \<open>Lemmas\<close>

lemma access_require_admin_iff [simp]:
  "access_require_admin e c s = Ok u \<longleftrightarrow> auth e c \<and> ac_admin s = Some c"
  by (auto simp: access_require_admin_def access_admin_def)

lemma require_role_iff [simp]:
  "require_role e r c s = Ok u \<longleftrightarrow> auth e c \<and> ac_admin s \<noteq> None \<and> (ac_admin s = Some c \<or> has_role s r c)"
  by (auto simp: require_role_def access_admin_def)

lemma check_role_change_iff [simp]:
  "check_role_change e r a s = Ok u \<longleftrightarrow> r \<noteq> RoleAdmin \<and> a \<noteq> this e \<and> (is_paused s \<longrightarrow> r = RolePauser)"
  by (auto simp: check_role_change_def)

lemmas access_ops = access_init_def grant_role_def revoke_role_def access_propose_admin_def access_accept_admin_def
  access_pause_def access_unpause_def access_upgrade_def access_admin_def access_pending_admin_def

interpretation acadmin: two_step_admin access_exec ac_admin ac_pending_admin
proof
  fix e c s r s' a assume "access_exec e c s = Ok (r, s')" "ac_admin s = Some a"
  then show "ac_admin s' = Some a \<or> (\<exists>b. ac_pending_admin s = Some b \<and> ac_admin s' = Some b \<and> auth e b)"
    by (cases c) (auto simp: access_ops split: if_splits)
next
  fix e c s r s' b assume "access_exec e c s = Ok (r, s')" "ac_pending_admin s' = Some b"
  then show "ac_pending_admin s = Some b \<or> (\<exists>a. ac_admin s = Some a \<and> auth e a)"
    by (cases c) (auto simp: access_ops split: if_splits)
qed

text \<open>The contract at address \<open>self\<close> is neither its own admin nor holds a role, and the admin is not pending.\<close>

definition no_self_control :: "address \<Rightarrow> access \<Rightarrow> bool" where
  "no_self_control self s \<longleftrightarrow> ac_admin s \<noteq> Some self \<and> ac_pending_admin s \<noteq> Some self \<and>
     (\<forall>r. ac_role s r self = None) \<and> (\<forall>a. ac_role s RoleAdmin a = None) \<and>
     (ac_admin s = None \<longrightarrow> ac_pending_admin s = None) \<and>
     (ac_pending_admin s \<noteq> None \<longrightarrow> ac_pending_admin s \<noteq> ac_admin s)"

interpretation noself: timed_contract access_exec "\<lambda>e _. this e = self" "\<lambda>_. no_self_control self" for self
proof
  fix e c s r s' assume "no_self_control self s" "this e = self" "access_exec e c s = Ok (r, s')"
  then show "no_self_control self s'"
    by (cases c) (auto simp: access_ops no_self_control_def split: if_splits)
qed

lemma role_granted:
  assumes "access_exec e c s = Ok (u, s')" and "ac_role s' r a \<noteq> None" and "ac_role s r a = None"
  obtains caller where "c = AcGrant caller r a" "auth e caller" "ac_admin s = Some caller" "r \<noteq> RoleAdmin" "a \<noteq> this e"
    "is_paused s \<Longrightarrow> r = RolePauser"
  using assms by (cases c) (auto simp: access_ops split: if_splits)

section \<open>Properties\<close>

definition ac_env :: env where
  "ac_env = \<lparr>timestamp = 0, ledger_seq = 0, auth = (\<lambda>_. True), this = 80\<rparr>"

definition ac_txs :: "(env \<times> access_call) list" where
  "ac_txs = map (Pair ac_env) [AcInit 1, AcGrant 1 RolePauser 2, AcPause 2, AcGrant 1 RoleOperator 3, AcPropose 1 4,
     AcAccept 4, AcPropose 1 1]"

lemma ac_run: "run_txs access_exec ac_txs access_undeployed = \<lparr>ac_admin = Some 4, ac_pending_admin = None,
    ac_role = (\<lambda>_. Map.empty)(RolePauser := [2 \<mapsto> True]), ac_paused = Some True, ac_wasm = None\<rparr>"
  by (simp add: ac_txs_def access_undeployed_def access_ops access_require_admin_def require_role_def check_role_change_def
      has_role_def is_paused_def require_auth_def ac_env_def ok_or_def fun_eq_iff
      del: and_then_Ok_iff and_then_Err_iff and_then_Trap_iff)

text \<open>C22. A role comes from the admin: an account other than the admin passes \<open>require_role\<close> after some
history only if the admin of the time granted it exactly that role in a signed call, not while the
contract was paused unless it is the pauser role, and the role was never revoked since. The role is
never the admin role, and the account is never the contract itself.\<close>

theorem role_granted_by_admin:
  assumes "require_role e r a (run_txs access_exec txs access_undeployed) = Ok ()"
    and "ac_admin (run_txs access_exec txs access_undeployed) \<noteq> Some a"
  shows "\<exists>pre e1 caller post. txs = pre @ (e1, AcGrant caller r a) # post \<and> auth e1 caller \<and> r \<noteq> RoleAdmin \<and> a \<noteq> this e1 \<and>
    ac_admin (run_txs access_exec pre access_undeployed) = Some caller \<and>
    (is_paused (run_txs access_exec pre access_undeployed) \<longrightarrow> r = RolePauser) \<and>
    (\<forall>mid rest. post = mid @ rest \<longrightarrow>
      has_role (run_txs access_exec (pre @ (e1, AcGrant caller r a) # mid) access_undeployed) r a)"
proof -
  let ?run = "\<lambda>xs. run_txs access_exec xs access_undeployed"
  have "has_role (?run txs) r a" and role: "r \<noteq> RoleAdmin" using assms by (auto simp: has_role_def access_admin_def ok_or_def)
  then have "ac_role (?run txs) r a \<noteq> None" by (simp add: has_role_def)
  moreover have "\<not> ac_role access_undeployed r a \<noteq> None" by (simp add: access_undeployed_def)
  ultimately obtain pre e1 c post u s' where o: "txs = pre @ (e1, c) # post" "\<not> ac_role (?run pre) r a \<noteq> None"
    "access_exec e1 c (?run pre) = Ok (u, s')"
    "\<And>mid rest. post = mid @ rest \<Longrightarrow> ac_role (run_txs access_exec mid s') r a \<noteq> None"
    by (rule run_txs_last_origin [of "\<lambda>s. ac_role s r a \<noteq> None"]) blast
  have "ac_role s' r a \<noteq> None" using o(4) [of "[]" post] by simp
  then obtain caller where c: "c = AcGrant caller r a" "auth e1 caller" "ac_admin (?run pre) = Some caller" "a \<noteq> this e1"
    "is_paused (?run pre) \<longrightarrow> r = RolePauser"
    using role_granted [OF o(3)] o(2) by blast
  have "?run (pre @ (e1, c) # mid) = run_txs access_exec mid s'" for mid using o(3) by (simp add: run_txs_append)
  then show ?thesis using o(1,4) c role
    by (intro exI [of _ pre] exI [of _ e1] exI [of _ caller] exI [of _ post]) (simp add: has_role_def)
qed

theorem role_granted_by_admin_witness:
  "\<exists>pre e1 caller post. ac_txs = pre @ (e1, AcGrant caller RolePauser 2) # post \<and> auth e1 caller \<and> 2 \<noteq> this e1"
proof -
  have "require_role ac_env RolePauser 2 (run_txs access_exec ac_txs access_undeployed) = Ok ()"
    "ac_admin (run_txs access_exec ac_txs access_undeployed) \<noteq> Some 2"
    unfolding ac_run by (simp_all add: has_role_def ac_env_def)
  from role_granted_by_admin [OF this] show ?thesis by blast
qed

text \<open>The contract never controls itself: after any history of calls to the contract at \<open>self\<close>, it is not
its own admin, not the pending one, and holds no role; the admin role is held by no grant.\<close>

theorem access_no_self_control:
  assumes "chronological 0 txs" and "\<forall>(e, c) \<in> set txs. this e = self"
  shows "no_self_control self (run_txs access_exec txs access_undeployed)"
  using noself.run_inv [of self access_undeployed 0 txs] assms
  by (auto simp: no_self_control_def access_undeployed_def)

end
