(* ===== verification/Params.thy ===== *)
theory Params
  imports Soroban
begin

text \<open>
  \<open>params/src/lib.rs\<close>, the \<open>RefractParams\<close> contract: named protocol parameters that only the
  timelock writes.  \<open>params\<close> has one field per storage key.  The lemmas show that a parameter is the
  last value the timelock of the time set, or its documented default.
\<close>

definition DEFAULT_PREMIUM_SHARE_BPS :: int where "DEFAULT_PREMIUM_SHARE_BPS = 500"
definition DEFAULT_UNSTAKE_COOLDOWN :: int where "DEFAULT_UNSTAKE_COOLDOWN = 604800"
definition DEFAULT_LOSS_HAIRCUT_BPS :: int where "DEFAULT_LOSS_HAIRCUT_BPS = 1000"
definition DEFAULT_BOUNTY_CRITICAL :: int where "DEFAULT_BOUNTY_CRITICAL = 100000000"
definition DEFAULT_BOUNTY_HIGH :: int where "DEFAULT_BOUNTY_HIGH = 50000000"
definition DEFAULT_BOUNTY_MEDIUM :: int where "DEFAULT_BOUNTY_MEDIUM = 20000000"
definition DEFAULT_BOUNTY_LOW :: int where "DEFAULT_BOUNTY_LOW = 5000000"
definition DEFAULT_BOUNTY_APPROVER_THR :: int where "DEFAULT_BOUNTY_APPROVER_THR = 2"
definition DEFAULT_GRANTS_APPROVER_THR :: int where "DEFAULT_GRANTS_APPROVER_THR = 1"
definition DEFAULT_TREASURY_SPEND_CAP :: int where "DEFAULT_TREASURY_SPEND_CAP = 500000000"
definition DEFAULT_PAUSED :: int where "DEFAULT_PAUSED = 0"

datatype params_error = PaAlreadyInitialized | PaNotInitialized | PaUnauthorized

record params =
  pa_timelock :: "address option"
  pa_param :: "symbol \<Rightarrow> int option"

definition params_undeployed :: params where
  "params_undeployed = \<lparr>pa_timelock = None, pa_param = Map.empty\<rparr>"

definition write_param :: "symbol \<Rightarrow> int \<Rightarrow> params \<Rightarrow> params" where
  "write_param key value s = s\<lparr>pa_param := (pa_param s)(key \<mapsto> value)\<rparr>"

definition params_initialize :: "address \<Rightarrow> params \<Rightarrow> (params_error, unit \<times> params) outcome" where
  "params_initialize timelock s =
     (if pa_timelock s \<noteq> None then Err PaAlreadyInitialized
      else
        let s = s\<lparr>pa_timelock := Some timelock\<rparr>;
            s = write_param ''premium_share_bps'' DEFAULT_PREMIUM_SHARE_BPS s;
            s = write_param ''unstake_cooldown'' DEFAULT_UNSTAKE_COOLDOWN s;
            s = write_param ''loss_haircut_bps'' DEFAULT_LOSS_HAIRCUT_BPS s;
            s = write_param ''bounty_critical'' DEFAULT_BOUNTY_CRITICAL s;
            s = write_param ''bounty_high'' DEFAULT_BOUNTY_HIGH s;
            s = write_param ''bounty_medium'' DEFAULT_BOUNTY_MEDIUM s;
            s = write_param ''bounty_low'' DEFAULT_BOUNTY_LOW s;
            s = write_param ''bounty_approver_thr'' DEFAULT_BOUNTY_APPROVER_THR s;
            s = write_param ''grants_approver_thr'' DEFAULT_GRANTS_APPROVER_THR s;
            s = write_param ''treasury_spend_cap'' DEFAULT_TREASURY_SPEND_CAP s;
            s = write_param ''paused'' DEFAULT_PAUSED s
        in Ok ((), s))"

definition params_set :: "env \<Rightarrow> address \<Rightarrow> symbol \<Rightarrow> int \<Rightarrow> params \<Rightarrow> (params_error, unit \<times> params) outcome" where
  "params_set e caller key value s =
     and_then (require_auth e caller) (\<lambda>_.
     and_then (ok_or (pa_timelock s) PaNotInitialized) (\<lambda>timelock.
     if caller \<noteq> timelock then Err PaUnauthorized
     else Ok ((), write_param key value s)))"

definition params_set_timelock :: "env \<Rightarrow> address \<Rightarrow> address \<Rightarrow> params \<Rightarrow> (params_error, unit \<times> params) outcome" where
  "params_set_timelock e caller new_timelock s =
     and_then (require_auth e caller) (\<lambda>_.
     and_then (ok_or (pa_timelock s) PaNotInitialized) (\<lambda>current.
     if caller \<noteq> current then Err PaUnauthorized
     else Ok ((), s\<lparr>pa_timelock := Some new_timelock\<rparr>)))"

definition params_get :: "params \<Rightarrow> symbol \<Rightarrow> int option" where
  "params_get s key = pa_param s key"

definition get_or_default :: "params \<Rightarrow> symbol \<Rightarrow> int \<Rightarrow> int" where
  "get_or_default s key def = unwrap_or (pa_param s key) def"

definition params_timelock :: "params \<Rightarrow> (params_error, address) outcome" where
  "params_timelock s = ok_or (pa_timelock s) PaNotInitialized"

datatype params_call = PaInitialize address | PaSet address symbol int | PaSetTimelock address address

fun params_exec :: "env \<Rightarrow> params_call \<Rightarrow> params \<Rightarrow> (params_error, unit \<times> params) outcome" where
  "params_exec e (PaInitialize t) s = params_initialize t s"
| "params_exec e (PaSet c k v) s = params_set e c k v s"
| "params_exec e (PaSetTimelock c t) s = params_set_timelock e c t s"

lemma params_get_write: "params_get (write_param k v s) l = (if l = k then Some v else params_get s l)"
  by (simp add: params_get_def write_param_def)

lemma param_changed:
  assumes "params_exec e c s = Ok (u, s')" and "params_get s' k \<noteq> params_get s k"
  obtains t where "c = PaInitialize t" "pa_timelock s = None"
  | v where "c = PaSet (the (pa_timelock s)) k v" "pa_timelock s \<noteq> None" "auth e (the (pa_timelock s))"
      "params_get s' k = Some v"
  using assms by (cases c) (auto simp: params_initialize_def params_set_def params_set_timelock_def params_get_def write_param_def
    split: if_splits)

interpretation initialized: contract_invariant params_exec "\<lambda>s. pa_timelock s \<noteq> None"
proof
  fix s e c r s' assume "pa_timelock s \<noteq> None" "params_exec e c s = Ok (r, s')"
  then show "pa_timelock s' \<noteq> None"
    by (cases c) (auto simp: params_initialize_def params_set_def params_set_timelock_def write_param_def split: if_splits)
qed

text \<open>A parameter that is set keeps its value until the timelock of the time signs another one.\<close>

theorem param_set_by_timelock:
  assumes "params_get (run_txs params_exec txs s) k = Some v" and "params_get s k \<noteq> Some v" and "pa_timelock s \<noteq> None"
  shows "\<exists>pre e c post. txs = pre @ (e, PaSet c k v) # post \<and> auth e c \<and>
    pa_timelock (run_txs params_exec pre s) = Some c \<and>
    (\<forall>mid rest. post = mid @ rest \<longrightarrow> params_get (run_txs params_exec (pre @ (e, PaSet c k v) # mid) s) k = Some v)"
proof -
  let ?P = "\<lambda>s. params_get s k = Some v"
  have keep: "pa_timelock (run_txs params_exec xs s) \<noteq> None" for xs
    by (rule initialized.run_keeps [OF assms(3)])
  obtain pre e c post u s' where o: "txs = pre @ (e, c) # post" "\<not> ?P (run_txs params_exec pre s)"
    "params_exec e c (run_txs params_exec pre s) = Ok (u, s')"
    "\<And>mid rest. post = mid @ rest \<Longrightarrow> ?P (run_txs params_exec mid s')"
    using run_txs_last_origin [of ?P, OF assms(1)] assms(2) by blast
  have "?P s'" using o(4) [of "[]" post] by simp
  with o(2) have "params_get s' k \<noteq> params_get (run_txs params_exec pre s) k" by auto
  from param_changed [OF o(3) this] keep [of pre] \<open>?P s'\<close>
  have c: "c = PaSet (the (pa_timelock (run_txs params_exec pre s))) k v" "auth e (the (pa_timelock (run_txs params_exec pre s)))"
    by auto
  have "run_txs params_exec (pre @ (e, c) # mid) s = run_txs params_exec mid s'" for mid
    using o(3) by (simp add: run_txs_append)
  with o(1,4) c keep [of pre] show ?thesis
    by (intro exI [of _ pre] exI [of _ e] exI [of _ "the (pa_timelock (run_txs params_exec pre s))"] exI [of _ post]) auto
qed

end
