(* ===== verification/Incident_Response.thy ===== *)
theory Incident_Response
  imports Wiring Oracle
begin

text \<open>
  \<open>incident_response/src/lib.rs\<close>, the \<open>RefractIncidentResponse\<close> contract: a coordinator through which
  a guardian rotates the administration of the pool, the policy registry and the oracle in one
  transaction.  The three contracts are the parameter \<open>callee\<close>; the property runs the coordinator
  against their models, linked at their addresses, and shows what a lockdown that succeeds has done
  to each of them and whose authority it needed.
\<close>

section \<open>The coordinator\<close>

datatype incident_error = InAlreadyInitialized | InNotInitialized | InUnauthorized

record incident =
  in_guardian :: "address option"
  in_admin :: "address option"

type_synonym 'w in_system = "incident \<times> 'w"

definition incident_initialize :: "address \<Rightarrow> address \<Rightarrow> incident \<Rightarrow> (incident_error, unit \<times> incident) outcome" where
  "incident_initialize admin guardian s =
     (if in_guardian s \<noteq> None then Err InAlreadyInitialized
      else Ok ((), s\<lparr>in_admin := Some admin, in_guardian := Some guardian\<rparr>))"

definition incident_guardian :: "incident \<Rightarrow> address option" where
  "incident_guardian s = in_guardian s"

definition incident_admin :: "incident \<Rightarrow> address option" where
  "incident_admin s = in_admin s"

definition set_guardian :: "env \<Rightarrow> address \<Rightarrow> address \<Rightarrow> incident \<Rightarrow> (incident_error, unit \<times> incident) outcome" where
  "set_guardian e caller new_guardian s =
     and_then (require_auth e caller) (\<lambda>_.
     and_then (ok_or (in_admin s) InNotInitialized) (\<lambda>current_admin.
     and_then (ok_or (in_guardian s) InNotInitialized) (\<lambda>current_guardian.
     if caller \<noteq> current_admin \<and> caller \<noteq> current_guardian then Err InUnauthorized
     else Ok ((), s\<lparr>in_guardian := Some new_guardian\<rparr>))))"

text \<open>\<open>invoke_contract::<()>\<close>: an answer that is not \<open>()\<close> panics.\<close>

definition invoke_unit ::
  "'w callee \<Rightarrow> env \<Rightarrow> 'w \<Rightarrow> address \<Rightarrow> symbol \<Rightarrow> val list \<Rightarrow> (incident_error, 'w) outcome" where
  "invoke_unit callee e w a f args =
     and_then (invoke_contract callee e w a f args) (\<lambda>(v, w). if v = VVoid then Ok w else Trap)"

definition emergency_lockdown ::
  "'w callee \<Rightarrow> env \<Rightarrow> address \<Rightarrow> address \<Rightarrow> address \<Rightarrow> address \<Rightarrow> address \<Rightarrow> 'w in_system \<Rightarrow>
     (incident_error, unit \<times> 'w in_system) outcome" where
  "emergency_lockdown callee e caller pool registry orc new_admin sw =
     (let s = fst sw; w = snd sw in
      and_then (require_auth e caller) (\<lambda>_.
      and_then (ok_or (in_admin s) InNotInitialized) (\<lambda>current_admin.
      and_then (ok_or (in_guardian s) InNotInitialized) (\<lambda>current_guardian.
      if caller \<noteq> current_admin \<and> caller \<noteq> current_guardian then Err InUnauthorized
      else
        and_then (invoke_unit callee e w pool ''set_admin'' [VAddr caller, VAddr new_admin]) (\<lambda>w.
        and_then (invoke_unit callee e w registry ''propose_admin'' [VAddr caller, VAddr new_admin]) (\<lambda>w.
        and_then (invoke_unit callee e w orc ''propose_admin'' [VAddr new_admin]) (\<lambda>w.
        Ok ((), (s, w)))))))))"

definition migrate_pool ::
  "'w callee \<Rightarrow> env \<Rightarrow> address \<Rightarrow> address \<Rightarrow> address \<Rightarrow> 'w in_system \<Rightarrow> (incident_error, unit \<times> 'w in_system) outcome" where
  "migrate_pool callee e caller registry new_pool sw =
     (let s = fst sw; w = snd sw in
      and_then (require_auth e caller) (\<lambda>_.
      and_then (ok_or (in_admin s) InNotInitialized) (\<lambda>current_admin.
      and_then (ok_or (in_guardian s) InNotInitialized) (\<lambda>current_guardian.
      if caller \<noteq> current_admin \<and> caller \<noteq> current_guardian then Err InUnauthorized
      else
        and_then (invoke_unit callee e w registry ''propose_pool_contract'' [VAddr caller, VAddr new_pool]) (\<lambda>w.
        Ok ((), (s, w)))))))"

section \<open>The contracts behind it\<close>

text \<open>The entry points it calls, with the error codes reduced to the one the coordinator sees: a failed
call panics whatever its code.\<close>

fun two_addresses :: "val list \<Rightarrow> (address \<times> address) option" where
  "two_addresses [VAddr a, VAddr b] = Some (a, b)"
| "two_addresses _ = None"

fun one_address :: "val list \<Rightarrow> address option" where
  "one_address [VAddr a] = Some a"
| "one_address _ = None"

definition pool_admin_entry :: "('st, 'v) pool_ext \<Rightarrow> env \<Rightarrow> symbol \<Rightarrow> val list \<Rightarrow> 'st pool \<Rightarrow> call_result \<times> 'st pool" where
  "pool_admin_entry x e f args s =
     (case (if f = ''set_admin'' then two_addresses args else None) of
        Some (a, b) \<Rightarrow> answer (\<lambda>_. 0) (\<lambda>_. VVoid) s (pool_set_admin x e a b s)
      | None \<Rightarrow> (CallRawErr InvokeAbort, s))"

definition registry_admin_entry :: "env \<Rightarrow> symbol \<Rightarrow> val list \<Rightarrow> registry \<Rightarrow> call_result \<times> registry" where
  "registry_admin_entry e f args s =
     (case two_addresses args of
        Some (a, b) \<Rightarrow>
          if f = ''propose_admin'' then answer registry_error_code (\<lambda>_. VVoid) s (registry_propose_admin e a b s)
          else if f = ''propose_pool_contract'' then answer registry_error_code (\<lambda>_. VVoid) s (propose_pool_contract e a b s)
          else (CallRawErr InvokeAbort, s)
      | None \<Rightarrow> (CallRawErr InvokeAbort, s))"

definition oracle_admin_entry :: "env \<Rightarrow> symbol \<Rightarrow> val list \<Rightarrow> oracle_store \<Rightarrow> call_result \<times> oracle_store" where
  "oracle_admin_entry e f args s =
     (case (if f = ''propose_admin'' then one_address args else None) of
        Some a \<Rightarrow> answer (\<lambda>_. 0) (\<lambda>_. VVoid) s (oracle_propose_admin e a s)
      | None \<Rightarrow> (CallRawErr InvokeAbort, s))"

definition deployed ::
  "('st, 'v) pool_ext \<Rightarrow> address \<Rightarrow> address \<Rightarrow> address \<Rightarrow> 'w callee \<Rightarrow> ('st pool \<times> registry \<times> oracle_store \<times> 'w) callee" where
  "deployed x pool reg orc rest =
     link pool (pool_admin_entry x) (link reg registry_admin_entry (link orc oracle_admin_entry rest))"

lemma invoke_unit_Ok:
  "invoke_unit callee e w a f args = Ok w' \<longleftrightarrow> callee e w a f args = (CallOk VVoid, w')"
  by (auto simp: invoke_unit_def split: if_splits)

lemma deployed_calls:
  assumes "distinct [pool, reg, orc]"
  shows "deployed x pool reg orc rest e (p, r, o1, w) pool ''set_admin'' [VAddr a, VAddr b] = (CallOk v, p', r', o', w') \<longleftrightarrow>
      pool_set_admin x (call_env e pool) a b p = Ok ((), p') \<and> v = VVoid \<and> r' = r \<and> o' = o1 \<and> w' = w"
    and "deployed x pool reg orc rest e (p, r, o1, w) reg ''propose_admin'' [VAddr a, VAddr b] = (CallOk v, p', r', o', w') \<longleftrightarrow>
      registry_propose_admin (call_env e reg) a b r = Ok ((), r') \<and> v = VVoid \<and> p' = p \<and> o' = o1 \<and> w' = w"
    and "deployed x pool reg orc rest e (p, r, o1, w) orc ''propose_admin'' [VAddr b] = (CallOk v, p', r', o', w') \<longleftrightarrow>
      oracle_propose_admin (call_env e orc) b o1 = Ok ((), o') \<and> v = VVoid \<and> p' = p \<and> r' = r \<and> w' = w"
    and "deployed x pool reg orc rest e (p, r, o1, w) reg ''propose_pool_contract'' [VAddr a, VAddr b] = (CallOk v, p', r', o', w') \<longleftrightarrow>
      propose_pool_contract (call_env e reg) a b r = Ok ((), r') \<and> v = VVoid \<and> p' = p \<and> o' = o1 \<and> w' = w"
  using assms
  by (auto simp: deployed_def link_def pool_admin_entry_def registry_admin_entry_def oracle_admin_entry_def
      split: prod.splits)

section \<open>Properties\<close>

text \<open>C23. A lockdown takes effect on all three contracts at once and needs their own consent: if
\<open>emergency_lockdown\<close> succeeds on the deployed system, the pool's admin is the new one and the new
admin is pending in the registry and the oracle, nothing else of the three changed, the caller is
the coordinator's admin or guardian and signed, the pool accepted the caller, the caller is the
registry's admin, and the oracle's admin signed or is the coordinator.\<close>

theorem lockdown_takes_effect:
  assumes "emergency_lockdown (deployed x pool reg orc rest) e caller pool reg orc new (s, (p, r, o1, w)) =
      Ok ((), (s', (p', r', o', w')))"
    and "distinct [pool, reg, orc]"
  shows "p' = p\<lparr>p_admin := Some new\<rparr> \<and> r' = r\<lparr>r_pending_admin := Some new\<rparr> \<and> o' = o1\<lparr>o_pending_admin := Some new\<rparr> \<and>
    s' = s \<and> w' = w \<and> auth e caller \<and> (in_admin s = Some caller \<or> in_guardian s = Some caller) \<and>
    px_require_admin x (call_env e pool) caller p = Ok () \<and> r_admin r = Some caller \<and>
    (\<exists>a. o_admin o1 = Some a \<and> (a = this e \<or> auth e a))"
proof -
  obtain p1 r1 o2 w1 p2 r2 o3 w2 where calls:
    "deployed x pool reg orc rest e (p, r, o1, w) pool ''set_admin'' [VAddr caller, VAddr new] = (CallOk VVoid, p1, r1, o2, w1)"
    "deployed x pool reg orc rest e (p1, r1, o2, w1) reg ''propose_admin'' [VAddr caller, VAddr new] = (CallOk VVoid, p2, r2, o3, w2)"
    "deployed x pool reg orc rest e (p2, r2, o3, w2) orc ''propose_admin'' [VAddr new] = (CallOk VVoid, p', r', o', w')"
    and c: "auth e caller" "in_admin s = Some caller \<or> in_guardian s = Some caller" "s' = s"
    using assms(1) unfolding emergency_lockdown_def Let_def
    by (auto simp: invoke_unit_Ok split: if_splits)
  show ?thesis
    using calls c unfolding deployed_calls [OF assms(2)]
    by (auto simp: pool_set_admin_def registry_propose_admin_def oracle_propose_admin_def oracle_require_admin_def)
qed

definition in_env :: env where
  "in_env = \<lparr>timestamp = 0, ledger_seq = 0, auth = (\<lambda>a. a = 1), this = 60\<rparr>"

definition in_pool :: "pool_accounting pool" where
  "in_pool = (pool_undeployed pl_accounting0)\<lparr>p_admin := Some 1\<rparr>"

definition in_registry :: registry where
  "in_registry = registry_fresh\<lparr>r_admin := Some 1\<rparr>"

definition in_oracle :: oracle_store where
  "in_oracle = oracle_undeployed\<lparr>o_admin := Some 60\<rparr>"

definition in_coordinator :: incident where
  "in_coordinator = \<lparr>in_guardian = Some 1, in_admin = Some 5\<rparr>"

theorem lockdown_takes_effect_witness:
  "in_guardian in_coordinator = Some 1 \<and> r_admin in_registry = Some 1 \<and> (\<exists>a. o_admin in_oracle = Some a)"
proof -
  have "emergency_lockdown (deployed pl_ext 71 72 73 (\<lambda>_ w _ _ _. (CallRawErr InvokeAbort, w))) in_env 1 71 72 73 9
      (in_coordinator, (in_pool, in_registry, in_oracle, ())) =
    Ok ((), (in_coordinator, (in_pool\<lparr>p_admin := Some 9\<rparr>, in_registry\<lparr>r_pending_admin := Some 9\<rparr>,
      in_oracle\<lparr>o_pending_admin := Some 9\<rparr>, ())))"
    by (simp add: emergency_lockdown_def invoke_unit_Ok in_coordinator_def deployed_calls in_env_def in_pool_def
        in_registry_def in_oracle_def pool_set_admin_def pl_ext_def registry_propose_admin_def
        oracle_propose_admin_def oracle_require_admin_def)
  from lockdown_takes_effect [OF this] show ?thesis by (simp add: in_coordinator_def) blast
qed

end
