(* ===== verification/Normalization.thy ===== *)
theory Normalization
  imports Soroban
begin

text \<open>
  Decimal normalisation (\<open>src/backstop/src/normalization.rs\<close>; \<open>src/bounty/src/normalization.rs\<close> is the
  same file): conversions between the native units of a token and the protocol's 1e7 units.

  The lemmas give both conversions in closed form; the property says which round trips are exact and
  how much the others gain.
\<close>

definition PROTOCOL_DECIMALS :: nat where "PROTOCOL_DECIMALS = 7"
definition PROTOCOL_SCALE :: int where "PROTOCOL_SCALE = 10000000"
definition MAX_SUPPORTED_DECIMALS :: nat where "MAX_SUPPORTED_DECIMALS = 18"

definition POW10 :: "int list" where
  "POW10 = [1, 10, 100, 1000, 10000, 100000, 1000000, 10000000, 100000000, 1000000000, 10000000000,
     100000000000, 1000000000000, 10000000000000, 100000000000000, 1000000000000000,
     10000000000000000, 100000000000000000, 1000000000000000000]"

datatype norm_rounding = RoundFloor | RoundCeil

datatype normalization_error = NeInvalidAmount | NeUnsupportedDecimals | NeMathOverflow

type_synonym units_result = "(normalization_error, int) outcome"

definition pow10 :: "nat \<Rightarrow> units_result" where
  "pow10 decimals = (if length POW10 \<le> decimals then Err NeUnsupportedDecimals else Ok (POW10 ! decimals))"

text \<open>The amounts divided are positive here, so \<open>/\<close> and \<open>%\<close> are \<open>div\<close> and \<open>mod\<close>.\<close>

definition to_protocol_units_rounded :: "int \<Rightarrow> nat \<Rightarrow> norm_rounding \<Rightarrow> units_result" where
  "to_protocol_units_rounded amount token_decimals r =
     (if amount < 0 then Err NeInvalidAmount
      else if amount = 0 then Ok 0
      else if MAX_SUPPORTED_DECIMALS < token_decimals then Err NeUnsupportedDecimals
      else if token_decimals = PROTOCOL_DECIMALS then Ok amount
      else if token_decimals < PROTOCOL_DECIMALS then
        and_then (pow10 (PROTOCOL_DECIMALS - token_decimals)) (\<lambda>factor.
        ok_or (i128_opt (amount * factor)) NeMathOverflow)
      else
        and_then (pow10 (token_decimals - PROTOCOL_DECIMALS)) (\<lambda>factor.
        let q = amount div factor; rest = amount mod factor in
        if 0 < rest \<and> r = RoundCeil then ok_or (i128_opt (q + 1)) NeMathOverflow
        else Ok q))"

definition to_protocol_units :: "int \<Rightarrow> nat \<Rightarrow> units_result" where
  "to_protocol_units amount token_decimals = to_protocol_units_rounded amount token_decimals RoundCeil"

definition to_token_units_rounded :: "int \<Rightarrow> nat \<Rightarrow> norm_rounding \<Rightarrow> units_result" where
  "to_token_units_rounded protocol_amount token_decimals r =
     (if protocol_amount < 0 then Err NeInvalidAmount
      else if protocol_amount = 0 then Ok 0
      else if MAX_SUPPORTED_DECIMALS < token_decimals then Err NeUnsupportedDecimals
      else if token_decimals = PROTOCOL_DECIMALS then Ok protocol_amount
      else if PROTOCOL_DECIMALS < token_decimals then
        and_then (pow10 (token_decimals - PROTOCOL_DECIMALS)) (\<lambda>factor.
        ok_or (i128_opt (protocol_amount * factor)) NeMathOverflow)
      else
        and_then (pow10 (PROTOCOL_DECIMALS - token_decimals)) (\<lambda>factor.
        let q = protocol_amount div factor; rest = protocol_amount mod factor in
        if 0 < rest \<and> r = RoundCeil then ok_or (i128_opt (q + 1)) NeMathOverflow
        else Ok q))"

definition to_token_units :: "int \<Rightarrow> nat \<Rightarrow> units_result" where
  "to_token_units protocol_amount token_decimals =
     to_token_units_rounded protocol_amount token_decimals RoundFloor"

definition normalize_inflow :: "int \<Rightarrow> nat \<Rightarrow> units_result" where
  "normalize_inflow amount token_decimals = to_protocol_units_rounded amount token_decimals RoundCeil"

definition normalize_outflow :: "int \<Rightarrow> nat \<Rightarrow> units_result" where
  "normalize_outflow protocol_amount token_decimals =
     to_token_units_rounded protocol_amount token_decimals RoundFloor"

section \<open>The table of powers\<close>

lemma POW10_nth: "d \<le> 18 \<Longrightarrow> POW10 ! d = 10 ^ d"
proof -
  assume "d \<le> 18"
  have "POW10 = map (\<lambda>d. 10 ^ d) [0..<19]" by (simp add: POW10_def upt_conv_Cons)
  moreover have "map ((^) 10) [0..<19] ! d = (10::int) ^ (0 + d)"
    using \<open>d \<le> 18\<close> by (intro nth_map_upt) simp
  ultimately show ?thesis by simp
qed

lemma pow10_eq: "pow10 d = (if d \<le> 18 then Ok (10 ^ d) else Err NeUnsupportedDecimals)"
proof -
  have "length POW10 = 19" by (simp add: POW10_def)
  then show ?thesis by (simp add: pow10_def POW10_nth)
qed

section \<open>The conversions in closed form\<close>

definition div_round :: "norm_rounding \<Rightarrow> int \<Rightarrow> int \<Rightarrow> int" where
  "div_round r a b = a div b + (if r = RoundCeil \<and> 0 < a mod b then 1 else 0)"

lemma div_round_bounds:
  assumes "0 < b"
  shows "a \<le> div_round RoundCeil a b * b" "div_round RoundCeil a b * b < a + b"
proof -
  have a: "a = a div b * b + a mod b" by simp
  have m: "0 \<le> a mod b" "a mod b < b" using assms by simp_all
  have "0 < a mod b \<Longrightarrow> div_round RoundCeil a b * b = a div b * b + b"
      "\<not> 0 < a mod b \<Longrightarrow> div_round RoundCeil a b * b = a div b * b"
    by (simp_all add: div_round_def distrib_right)
  then show "a \<le> div_round RoundCeil a b * b" "div_round RoundCeil a b * b < a + b"
    using a m assms by linarith+
qed

lemma div_round_exact [simp]: "0 < b \<Longrightarrow> div_round r (a * b) b = a"
  by (simp add: div_round_def)

lemma units_converted:
  assumes "conv = to_protocol_units_rounded \<and> up = 7 - d \<and> down = d - 7 \<or>
      conv = to_token_units_rounded \<and> up = d - 7 \<and> down = 7 - d"
    and "conv a d r = Ok b" and "d \<le> 18"
  shows "0 \<le> a \<and> b = (if down = 0 then a * 10 ^ up else div_round r a (10 ^ down)) \<and> (up = 0 \<or> in_i128 b)"
  using assms
  by (auto simp: to_protocol_units_rounded_def to_token_units_rounded_def pow10_eq div_round_def Let_def
      PROTOCOL_DECIMALS_def MAX_SUPPORTED_DECIMALS_def split: if_splits)

lemma inflow_eq:
  assumes "0 \<le> a" and "in_i128 a" and "d \<le> 18"
  shows "7 \<le> d \<Longrightarrow> normalize_inflow (a * 10 ^ (d - 7)) d = Ok a"
  using assms
  by (auto simp: normalize_inflow_def to_protocol_units_rounded_def pow10_eq Let_def mult_less_0_iff
      PROTOCOL_DECIMALS_def MAX_SUPPORTED_DECIMALS_def i128_opt_def ok_or_def)

lemma outflow_eq:
  assumes "0 \<le> a" and "in_i128 a" and "d \<le> 18"
  shows "d \<le> 7 \<Longrightarrow> normalize_outflow (a * 10 ^ (7 - d)) d = Ok a"
  using assms
  by (auto simp: normalize_outflow_def to_token_units_rounded_def pow10_eq Let_def mult_less_0_iff
      PROTOCOL_DECIMALS_def MAX_SUPPORTED_DECIMALS_def i128_opt_def ok_or_def)

lemmas units_eval = normalize_inflow_def normalize_outflow_def to_protocol_units_rounded_def
  to_token_units_rounded_def pow10_eq PROTOCOL_DECIMALS_def MAX_SUPPORTED_DECIMALS_def i128_opt_def
  int_width_defs ok_or_def Let_def

lemma one_base_unit: "normalize_inflow 1 18 = Ok 1" "normalize_outflow 1 18 = Ok 100000000000"
  by (simp_all add: units_eval)

section \<open>Round trips\<close>

text \<open>Round trips of the decimal conversions, for every supported number of decimals: (1) with at most
seven decimals, an amount taken in and paid out again is the amount taken in; (2) with at least seven,
an amount paid out and taken in again is credited in full; (3) with more than seven, an amount taken in
and paid out again never loses, and may gain almost one protocol unit: the inflow rounds the credit up,
so one base unit of an 18-decimal token comes back as 100000000000.\<close>

theorem normalization_roundtrip:
  assumes "d \<le> 18" and "in_i128 a"
  shows "(d \<le> 7 \<and> normalize_inflow a d = Ok p \<longrightarrow> normalize_outflow p d = Ok a) \<and>
    (7 \<le> d \<and> normalize_outflow a d = Ok t \<longrightarrow> normalize_inflow t d = Ok a) \<and>
    (7 < d \<and> normalize_inflow a d = Ok p \<and> normalize_outflow p d = Ok b \<longrightarrow> a \<le> b \<and> b < a + 10 ^ (d - 7)) \<and>
    normalize_inflow 1 18 = Ok 1 \<and> normalize_outflow 1 18 = Ok 100000000000"
proof -
  have into: "0 \<le> a' \<and> p' = (if d - 7 = 0 then a' * 10 ^ (7 - d) else div_round RoundCeil a' (10 ^ (d - 7)))"
    if "normalize_inflow a' d = Ok p'" for a' p'
    using units_converted [of to_protocol_units_rounded "7 - d" d "d - 7" a' RoundCeil p'] that assms(1)
    by (auto simp: normalize_inflow_def)
  have out: "0 \<le> p' \<and> b' = (if 7 - d = 0 then p' * 10 ^ (d - 7) else div_round RoundFloor p' (10 ^ (7 - d)))"
    if "normalize_outflow p' d = Ok b'" for p' b'
    using units_converted [of to_token_units_rounded "d - 7" d "7 - d" p' RoundFloor b'] that assms(1)
    by (auto simp: normalize_outflow_def)
  have "normalize_outflow p d = Ok a" if "d \<le> 7" "normalize_inflow a d = Ok p"
    using into [OF that(2)] outflow_eq [of a d] assms that(1) by simp
  moreover have "normalize_inflow t d = Ok a" if "7 \<le> d" "normalize_outflow a d = Ok t"
    using out [OF that(2)] inflow_eq [of a d] assms that(1) by simp
  moreover have "a \<le> b \<and> b < a + 10 ^ (d - 7)"
    if "7 < d" "normalize_inflow a d = Ok p" "normalize_outflow p d = Ok b"
    using into [OF that(2)] out [OF that(3)] that(1) div_round_bounds [of "10 ^ (d - 7)" a] by simp
  ultimately show ?thesis by (simp add: one_base_unit)
qed

theorem normalization_roundtrip_witness:
  "(18::nat) \<le> 18 \<and> in_i128 150000000001 \<and> normalize_inflow 150000000001 18 = Ok 2 \<and>
   normalize_outflow 2 18 = Ok 200000000000 \<and> normalize_inflow 200000000000 18 = Ok 2 \<and>
   (150000000001::int) \<le> 200000000000 \<and> (200000000000::int) < 150000000001 + 10 ^ (18 - 7)"
  using normalization_roundtrip [of 18 150000000001 2 0 200000000000]
  by (simp add: units_eval)

end
