(* ===== verification/Premium_Curve.thy ===== *)
theory Premium_Curve
  imports Soroban
begin

text \<open>
  The utilisation-based premium curve of the backstop (\<open>src/backstop/src/curve.rs\<close>).

  Multipliers are 1e7 fixed point.  Every sum and product is the checked one of the source, and
  \<open>clamp\<close> panics on crossed bounds.  The lemmas: a valid curve with a base that leaves room answers
  every utilisation, within its bounds, and never falls as the utilisation rises; a staker's cut of a
  premium is never negative and never more than the premium.
\<close>

definition ONE :: int where "ONE = 10000000"
definition MAX_UTILIZATION_BPS :: int where "MAX_UTILIZATION_BPS = 10000"
definition MAX_MULTIPLIER :: int where "MAX_MULTIPLIER = 10 * ONE"
definition CURVE_BPS_DENOM :: int where "CURVE_BPS_DENOM = 10000"

record premium_curve =
  kink_bps :: int
  curve_base :: int
  slope_low :: int
  slope_high :: int
  min_multiplier :: int
  max_multiplier :: int

definition curve_flat :: premium_curve where
  "curve_flat = \<lparr>kink_bps = 0, curve_base = ONE, slope_low = 0, slope_high = 0,
     min_multiplier = ONE, max_multiplier = ONE\<rparr>"

definition curve_is_valid :: "premium_curve \<Rightarrow> bool" where
  "curve_is_valid c \<longleftrightarrow>
     0 \<le> kink_bps c \<and> kink_bps c \<le> MAX_UTILIZATION_BPS \<and>
     0 \<le> slope_low c \<and> slope_low c \<le> ONE \<and>
     0 \<le> slope_high c \<and> slope_high c \<le> ONE \<and>
     0 \<le> curve_base c \<and>
     0 \<le> min_multiplier c \<and> min_multiplier c \<le> MAX_MULTIPLIER \<and>
     0 \<le> max_multiplier c \<and> max_multiplier c \<le> MAX_MULTIPLIER \<and>
     min_multiplier c \<le> max_multiplier c"

text \<open>\<open>Ord::clamp\<close>\<close>

definition clamp :: "int \<Rightarrow> int \<Rightarrow> int \<Rightarrow> ('e, int) outcome" where
  "clamp x lo hi = (if hi < lo then Trap else Ok (if x < lo then lo else if hi < x then hi else x))"

definition multiplier :: "premium_curve \<Rightarrow> int \<Rightarrow> ('e, int) outcome" where
  "multiplier c utilization_bps =
     and_then (clamp utilization_bps 0 MAX_UTILIZATION_BPS) (\<lambda>utilization.
     let below_kink = min utilization (kink_bps c) in
     and_then (i128_sub utilization (kink_bps c)) (\<lambda>over.
     let above_kink = max over 0 in
     and_then (i128_mul (slope_low c) below_kink) (\<lambda>low.
     and_then (i128_add (curve_base c) low) (\<lambda>sum.
     and_then (i128_mul (slope_high c) above_kink) (\<lambda>high.
     and_then (i128_add sum high) (\<lambda>raw.
     clamp raw (min_multiplier c) (max_multiplier c)))))))"

definition premium_cut :: "int \<Rightarrow> int \<Rightarrow> int \<Rightarrow> int option" where
  "premium_cut amount share_bps m =
     Option.bind (i128_opt (amount * share_bps)) (\<lambda>a.
     Option.bind (i128_opt (a * m)) (\<lambda>b.
     map_option (\<lambda>cut. min cut amount) (i128_opt (trunc_div b (CURVE_BPS_DENOM * ONE)))))"

definition utilization_bps :: "int \<Rightarrow> int \<Rightarrow> int" where
  "utilization_bps exposure capital =
     (if exposure \<le> 0 then 0
      else if capital \<le> 0 then MAX_UTILIZATION_BPS
      else min (unwrap_or (i128_opt (trunc_div (i128_clamp (exposure * MAX_UTILIZATION_BPS)) capital))
                  MAX_UTILIZATION_BPS) MAX_UTILIZATION_BPS)"

lemmas curve_consts = ONE_def MAX_UTILIZATION_BPS_def MAX_MULTIPLIER_def CURVE_BPS_DENOM_def

section \<open>Utilisation\<close>

lemma i128_clamp_mono: "x \<le> y \<Longrightarrow> i128_clamp x \<le> i128_clamp y"
  by (auto simp: i128_clamp_def)

lemma i128_clamp_nonneg: "0 \<le> x \<Longrightarrow> 0 \<le> i128_clamp x"
  by (auto simp: i128_clamp_def i128_max_def i128_min_def)

lemma clamp_div_fits: "0 \<le> x \<Longrightarrow> 0 < c \<Longrightarrow> in_i128 (i128_clamp x div c)"
proof -
  assume "0 \<le> x" "0 < c"
  then have "0 \<le> i128_clamp x div c" "i128_clamp x div c \<le> i128_clamp x"
    using int_div_le_self [OF i128_clamp_nonneg] by (simp_all add: i128_clamp_nonneg pos_imp_zdiv_nonneg_iff)
  then show ?thesis by (rule in_i128_between [OF in_i128_0 in_i128_clamp])
qed

lemma utilization_bps_eq:
  "0 < x \<Longrightarrow> 0 < c \<Longrightarrow> utilization_bps x c = min (i128_clamp (x * 10000) div c) 10000"
  using clamp_div_fits [of "x * 10000" c] i128_clamp_nonneg [of "x * 10000"]
  by (simp add: utilization_bps_def MAX_UTILIZATION_BPS_def i128_opt_def)

lemma utilization_bounds: "0 \<le> utilization_bps x c" "utilization_bps x c \<le> 10000"
proof -
  show "0 \<le> utilization_bps x c"
  proof (cases "0 < x \<and> 0 < c")
    case True
    then show ?thesis using i128_clamp_nonneg [of "x * 10000"]
      by (simp add: utilization_bps_eq pos_imp_zdiv_nonneg_iff)
  qed (auto simp: utilization_bps_def MAX_UTILIZATION_BPS_def)
  show "utilization_bps x c \<le> 10000" by (auto simp: utilization_bps_def MAX_UTILIZATION_BPS_def)
qed

lemma utilization_mono: "x \<le> y \<Longrightarrow> utilization_bps x c \<le> utilization_bps y c"
proof -
  assume le: "x \<le> y"
  show ?thesis
  proof (cases "0 < x \<and> 0 < c")
    case True
    then have "i128_clamp (x * 10000) div c \<le> i128_clamp (y * 10000) div c"
      using le by (intro zdiv_mono1 i128_clamp_mono) auto
    with True le show ?thesis by (simp add: utilization_bps_eq min.coboundedI1)
  next
    case False
    with le show ?thesis using utilization_bounds(1) [of y c]
      by (auto simp: utilization_bps_def MAX_UTILIZATION_BPS_def)
  qed
qed

section \<open>The multiplier\<close>

text \<open>\<open>is_valid\<close> leaves the base unbounded, so the sum may leave the machine range.\<close>

definition base_fits :: "premium_curve \<Rightarrow> bool" where
  "base_fits c \<longleftrightarrow> curve_base c \<le> i128_max - 2 * (ONE * MAX_UTILIZATION_BPS)"

definition curve_raw :: "premium_curve \<Rightarrow> int \<Rightarrow> int" where
  "curve_raw c u = curve_base c + slope_low c * min u (kink_bps c) + slope_high c * max (u - kink_bps c) 0"

definition in_bounds :: "premium_curve \<Rightarrow> int \<Rightarrow> int" where
  "in_bounds c x = (if x < min_multiplier c then min_multiplier c else if max_multiplier c < x then max_multiplier c else x)"

lemma slope_product_bounds:
  assumes "0 \<le> s" "s \<le> ONE" "0 \<le> u" "u \<le> MAX_UTILIZATION_BPS"
  shows "0 \<le> s * u" "s * u \<le> ONE * MAX_UTILIZATION_BPS"
  using assms by (auto intro: mult_mono)

lemma multiplier_eq:
  assumes "curve_is_valid c" and "base_fits c" and "0 \<le> u" and "u \<le> 10000"
  shows "multiplier c u = Ok (in_bounds c (curve_raw c u))"
proof -
  from assms(1) have v: "0 \<le> slope_low c" "slope_low c \<le> ONE" "0 \<le> slope_high c" "slope_high c \<le> ONE"
      "0 \<le> curve_base c" "0 \<le> kink_bps c" "kink_bps c \<le> MAX_UTILIZATION_BPS"
      "min_multiplier c \<le> max_multiplier c"
    by (simp_all add: curve_is_valid_def)
  let ?l = "slope_low c * min u (kink_bps c)" and ?h = "slope_high c * max (u - kink_bps c) 0"
  have l: "0 \<le> ?l" "?l \<le> ONE * MAX_UTILIZATION_BPS"
    by (rule slope_product_bounds; use v assms in \<open>auto simp: MAX_UTILIZATION_BPS_def\<close>)+
  have h: "0 \<le> ?h" "?h \<le> ONE * MAX_UTILIZATION_BPS"
    by (rule slope_product_bounds; use v assms in \<open>auto simp: MAX_UTILIZATION_BPS_def\<close>)+
  have small: "in_i128 x" if "- 10000 \<le> x" "x \<le> i128_max" for x
    using that by (simp add: int_width_defs)
  have b: "curve_base c + 2 * (ONE * MAX_UTILIZATION_BPS) \<le> i128_max" using assms(2) by (simp add: base_fits_def)
  have pos: "0 \<le> ONE * MAX_UTILIZATION_BPS" by (simp add: curve_consts)
  have "in_i128 (u - kink_bps c)" "in_i128 ?l" "in_i128 ?h" "in_i128 (curve_base c + ?l)"
      "in_i128 (curve_base c + ?l + ?h)"
    using v(5-7) l h b pos assms(3,4)
    by (intro small; simp add: MAX_UTILIZATION_BPS_def int_width_defs)+
  then show ?thesis using assms(3,4) v(8)
    by (simp add: multiplier_def clamp_def curve_raw_def in_bounds_def MAX_UTILIZATION_BPS_def i128_add_def
        i128_sub_def i128_mul_def i128_checked_def Let_def)
qed

lemma curve_raw_mono:
  assumes "curve_is_valid c" and "u \<le> v"
  shows "curve_raw c u \<le> curve_raw c v"
proof -
  have "slope_low c * min u (kink_bps c) \<le> slope_low c * min v (kink_bps c)"
    using assms by (intro mult_left_mono) (auto simp: curve_is_valid_def)
  moreover have "slope_high c * max (u - kink_bps c) 0 \<le> slope_high c * max (v - kink_bps c) 0"
    using assms by (intro mult_left_mono) (auto simp: curve_is_valid_def)
  ultimately show ?thesis by (simp add: curve_raw_def)
qed

section \<open>The cut\<close>

lemma premium_cut_bounds:
  assumes "premium_cut amount share m = Some paid" and "0 \<le> amount" and "0 \<le> share" and "0 \<le> m"
  shows "0 \<le> paid \<and> paid \<le> amount \<and> (paid = amount \<or> paid = amount * share * m div (10000 * ONE))"
proof -
  have "0 \<le> amount * share" "0 \<le> amount * share * m" using assms(2-4) by simp_all
  with assms(1,2) show ?thesis
    by (auto simp: premium_cut_def curve_consts bind_eq_Some_conv pos_imp_zdiv_nonneg_iff min_def)
qed

lemma premium_cut_mono:
  assumes "premium_cut amount share m = Some paid" and "premium_cut amount share n = Some paid'"
    and "0 \<le> amount" and "0 \<le> share" and "0 \<le> m" and "m \<le> n"
  shows "paid \<le> paid'"
proof -
  have "amount * share * m \<le> amount * share * n" using assms by (intro mult_left_mono) auto
  moreover have "0 \<le> amount * share * m" using assms by simp
  ultimately have "amount * share * m div (10000 * ONE) \<le> amount * share * n div (10000 * ONE)"
    by (intro zdiv_mono1) (simp_all add: ONE_def)
  with assms \<open>0 \<le> amount * share * m\<close> show ?thesis
    by (auto simp: premium_cut_def curve_consts bind_eq_Some_conv min_def)
qed

section \<open>Routing a premium\<close>

text \<open>C26. Bounds of premium routing: for a valid curve whose base leaves room for the two slopes, every
exposure and capital give a utilisation between 0 and 10000 basis points and a multiplier between the
curve's bounds; a larger exposure never lowers the utilisation nor the multiplier, so it never lowers the
stakers' cut; and the cut of a premium is never negative and never more than the premium.\<close>

theorem premium_routing_bounds:
  assumes "curve_is_valid c" and "base_fits c" and "x \<le> y"
  shows "0 \<le> utilization_bps x capital \<and> utilization_bps x capital \<le> utilization_bps y capital \<and>
    utilization_bps y capital \<le> MAX_UTILIZATION_BPS \<and>
    (\<exists>m n. multiplier c (utilization_bps x capital) = Ok m \<and> multiplier c (utilization_bps y capital) = Ok n \<and>
    min_multiplier c \<le> m \<and> m \<le> n \<and> n \<le> max_multiplier c \<and>
    (\<forall>amount share paid paid'. 0 \<le> amount \<and> 0 \<le> share \<and> premium_cut amount share m = Some paid \<and>
      premium_cut amount share n = Some paid' \<longrightarrow> 0 \<le> paid \<and> paid \<le> paid' \<and> paid' \<le> amount))"
proof -
  let ?u = "utilization_bps x capital" and ?v = "utilization_bps y capital"
  let ?m = "in_bounds c (curve_raw c ?u)" and ?n = "in_bounds c (curve_raw c ?v)"
  from assms(1) have b: "min_multiplier c \<le> max_multiplier c" "0 \<le> min_multiplier c"
    by (simp_all add: curve_is_valid_def)
  have le: "curve_raw c ?u \<le> curve_raw c ?v"
    by (rule curve_raw_mono [OF assms(1) utilization_mono [OF assms(3)]])
  then have m: "min_multiplier c \<le> ?m" "?m \<le> ?n" "?n \<le> max_multiplier c" "0 \<le> ?m"
    using b by (auto simp: in_bounds_def)
  have ok: "multiplier c ?u = Ok ?m" "multiplier c ?v = Ok ?n"
    using assms(1,2) by (simp_all add: multiplier_eq utilization_bounds)
  have "0 \<le> paid \<and> paid \<le> paid' \<and> paid' \<le> amount"
    if "0 \<le> amount" "0 \<le> share" "premium_cut amount share ?m = Some paid"
      "premium_cut amount share ?n = Some paid'" for amount share paid paid'
    using premium_cut_bounds [OF that(3,1,2) m(4)] premium_cut_bounds [OF that(4,1,2)]
      premium_cut_mono [OF that(3,4,1,2) m(4,2)] m(2,4) by auto
  with ok m have "\<exists>m n. multiplier c ?u = Ok m \<and> multiplier c ?v = Ok n \<and>
    min_multiplier c \<le> m \<and> m \<le> n \<and> n \<le> max_multiplier c \<and>
    (\<forall>amount share paid paid'. 0 \<le> amount \<and> 0 \<le> share \<and> premium_cut amount share m = Some paid \<and>
      premium_cut amount share n = Some paid' \<longrightarrow> 0 \<le> paid \<and> paid \<le> paid' \<and> paid' \<le> amount)" by blast
  with utilization_bounds utilization_mono [OF assms(3)] show ?thesis by (simp add: MAX_UTILIZATION_BPS_def)
qed

theorem premium_routing_bounds_witness:
  "let c = \<lparr>kink_bps = 5000, curve_base = ONE, slope_low = 10000, slope_high = 40000,
       min_multiplier = ONE, max_multiplier = MAX_MULTIPLIER\<rparr> in
   0 \<le> utilization_bps 25 100 \<and> utilization_bps 25 100 \<le> utilization_bps 90 100 \<and>
   utilization_bps 90 100 \<le> MAX_UTILIZATION_BPS \<and>
   (\<exists>m n. multiplier c (utilization_bps 25 100) = Ok m \<and> multiplier c (utilization_bps 90 100) = Ok n \<and>
    min_multiplier c \<le> m \<and> m \<le> n \<and> n \<le> max_multiplier c \<and>
    (\<forall>amount share paid paid'. 0 \<le> amount \<and> 0 \<le> share \<and> premium_cut amount share m = Some paid \<and>
      premium_cut amount share n = Some paid' \<longrightarrow> 0 \<le> paid \<and> paid \<le> paid' \<and> paid' \<le> amount))"
  unfolding Let_def
  by (rule premium_routing_bounds) (simp_all add: curve_is_valid_def base_fits_def curve_consts i128_max_def)

end
