(* ===== verification/Backstop.thy ===== *)
theory Backstop
  imports Math
begin

text \<open>
  The backstop contract (\<open>src/backstop/src/lib.rs\<close>): tranched deposits and withdrawals, unstaking,
  draw-downs, losses and premiums.

  The source file ends in the middle of \<open>shares_of\<close>, so the private helpers that the entry points call
  are not available.  They are the fields of the parameter record \<open>backstop_ext\<close>: the guards
  (\<open>acquire_reentrancy_guard\<close>, \<open>release_reentrancy_guard\<close>, \<open>require_not_paused\<close>), the loaders
  (\<open>get_config\<close>, \<open>config\<close>, \<open>get_state\<close>, \<open>state\<close>, \<open>_tranche_state\<close>, \<open>position\<close>) and writers
  (\<open>_save_tranche_state\<close>), the share prices (\<open>calc_shares\<close>, \<open>quote_withdrawal\<close>) and the three with
  effects (\<open>_sync_matured\<close>, \<open>_apply_loss\<close>, \<open>_credit_mature_premium\<close>); so is the token.  What a lemma
  needs of them is the named hypothesis \<open>backstop_helpers\<close>.

  The state is the record \<open>backstop\<close>, one field per storage key.  A branch that releases the guard and
  returns an error is the error alone, since the host drops its writes.

  The lemmas show that the recorded capital is backed by the contract's token balance, and who can
  move capital out.
\<close>

section \<open>Data\<close>

definition LOSS_INDEX_SCALE :: int where "LOSS_INDEX_SCALE = 100000000000000"
definition DEFAULT_MIN_SOLVENCY_BPS :: int where "DEFAULT_MIN_SOLVENCY_BPS = 10000"
definition DEFAULT_MAX_COVERAGE_BPS :: int where "DEFAULT_MAX_COVERAGE_BPS = 10000"
definition DEFAULT_HYSTERESIS_BPS :: int where "DEFAULT_HYSTERESIS_BPS = 500"

datatype backstop_error =
    BkAlreadyInitialized | BkNotInitialized | BkUnauthorized | BkInvalidAmount | BkInsufficientBalance
  | BkPaused | BkCooldownNotElapsed | BkNoActiveShares | BkNoCoolingShares | BkNotPool
  | BkInsufficientCapital | BkOverflow | BkNotTreasury | BkRecallExceedsSeed | BkInsufficientShares
  | BkInvalidPremiumShare | BkNoExcessFunds | BkTooManyOperations | BkPendingLossFreeze
  | BkInvalidPremiumSplit | BkDuplicateLossId | BkInvalidThreshold | BkInvalidFeedCap
  | BkFeedCapExceeded | BkHolderFeedCapExceeded | BkDuplicatePolicyExposure | BkReentrancyDetected

record staker_position =
  active_shares :: int
  cooling_shares :: int
  loss_index_snapshot :: int
  unlock_at :: nat

record backstop_state =
  bs_total_shares :: int
  bs_total_capital :: int
  bs_premium_income :: int
  bs_total_drawdowns :: int
  bs_loss_index :: int

record backstop_config =
  bc_pool :: address
  bc_admin :: address
  bc_token :: address
  bc_premium_share_bps :: int
  bc_cooldown_secs :: nat

datatype tranche = Junior | Senior

record tranche_state =
  ts_total_shares :: int
  ts_total_assets :: int
  ts_mature_shares :: int
  ts_mature_assets :: int
  ts_high_water_mark :: nat

record deposit_lot =
  lot_id :: nat
  lot_staker :: address
  lot_tranche :: tranche
  lot_shares :: int
  lot_principal :: int
  lot_matures_at :: nat
  lot_matured :: bool

record health_thresholds =
  min_solvency_bps :: int
  max_coverage_bps :: int
  hysteresis_bps :: int

record health_alert_state =
  solvency_breached :: bool
  coverage_breached :: bool

record backstop =
  bk_config :: "backstop_config option"
  bk_state :: "backstop_state option"
  bk_paused :: "bool option"
  bk_admin :: "address option"
  bk_position :: "address \<rightharpoonup> staker_position"
  bk_seed_shares :: "int option"
  bk_tranche_state :: "tranche \<rightharpoonup> tranche_state"
  bk_shares :: "address \<times> tranche \<times> bool \<rightharpoonup> int"
  bk_lot :: "nat \<rightharpoonup> deposit_lot"
  bk_lots :: "address \<times> tranche \<rightharpoonup> nat list"
  bk_all_lots :: "nat list option"
  bk_lockup_ledgers :: "nat option"
  bk_junior_premium_bps :: "int option"
  bk_pending_loss :: "bool option"
  bk_next_lot_id :: "nat option"
  bk_next_loss_id :: "nat option"
  bk_unabsorbed_shortfall :: "int option"
  bk_reentrancy_lock :: "bool option"
  bk_aggregate_feed_exposure :: "int option"
  bk_tracked_feeds :: "symbol list option"
  bk_cached_coverage :: "int option"
  bk_health_thresholds :: "health_thresholds option"
  bk_health_alert_state :: "health_alert_state option"

definition backstop_undeployed :: backstop where
  "backstop_undeployed = \<lparr>bk_config = None, bk_state = None, bk_paused = None, bk_admin = None,
     bk_position = (\<lambda>_. None), bk_seed_shares = None, bk_tranche_state = (\<lambda>_. None), bk_shares = (\<lambda>_. None),
     bk_lot = (\<lambda>_. None), bk_lots = (\<lambda>_. None), bk_all_lots = None, bk_lockup_ledgers = None,
     bk_junior_premium_bps = None, bk_pending_loss = None, bk_next_lot_id = None, bk_next_loss_id = None,
     bk_unabsorbed_shortfall = None, bk_reentrancy_lock = None, bk_aggregate_feed_exposure = None,
     bk_tracked_feeds = None, bk_cached_coverage = None, bk_health_thresholds = None,
     bk_health_alert_state = None\<rparr>"

type_synonym 'a backstop_result = "(backstop_error, 'a) outcome"
type_synonym 'w bk_system = "backstop \<times> 'w"

text \<open>The helpers past the end of the file, and the token.\<close>

record 'w backstop_ext =
  bx_acquire_guard :: "bool option \<Rightarrow> bool option backstop_result"
  bx_release_guard :: "bool option \<Rightarrow> bool option"
  bx_require_not_paused :: "backstop \<Rightarrow> unit backstop_result"
  bx_get_config :: "backstop \<Rightarrow> backstop_config backstop_result"
  bx_config :: "backstop \<Rightarrow> backstop_config backstop_result"
  bx_get_state :: "backstop \<Rightarrow> backstop_state backstop_result"
  bx_state :: "backstop \<Rightarrow> backstop_state backstop_result"
  bx_tranche_state :: "tranche \<Rightarrow> backstop \<Rightarrow> tranche_state backstop_result"
  bx_save_tranche_state :: "tranche \<Rightarrow> tranche_state \<Rightarrow> (tranche \<rightharpoonup> tranche_state) \<Rightarrow> (tranche \<rightharpoonup> tranche_state)"
  bx_position :: "address \<Rightarrow> backstop \<Rightarrow> staker_position"
  bx_calc_shares :: "int \<Rightarrow> int \<Rightarrow> int \<Rightarrow> int backstop_result"
  bx_quote_withdrawal :: "int \<Rightarrow> int \<Rightarrow> int \<Rightarrow> int backstop_result"
  bx_sync_matured :: "env \<Rightarrow> backstop \<Rightarrow> (nat \<times> backstop) backstop_result"
  bx_apply_loss :: "env \<Rightarrow> nat \<Rightarrow> int \<Rightarrow> backstop \<Rightarrow> (int \<times> backstop) backstop_result"
  bx_credit_mature_premium :: "env \<Rightarrow> tranche \<Rightarrow> int \<Rightarrow> backstop \<Rightarrow> (int \<times> backstop) backstop_result"
  bx_transfer :: "'w transfer_fn"

definition bk_acquire :: "'w backstop_ext \<Rightarrow> backstop \<Rightarrow> backstop backstop_result" where
  "bk_acquire x s = and_then (bx_acquire_guard x (bk_reentrancy_lock s)) (\<lambda>l. Ok (s\<lparr>bk_reentrancy_lock := l\<rparr>))"

definition bk_release :: "'w backstop_ext \<Rightarrow> backstop \<Rightarrow> backstop" where
  "bk_release x s = s\<lparr>bk_reentrancy_lock := bx_release_guard x (bk_reentrancy_lock s)\<rparr>"

definition bk_save_tranche :: "'w backstop_ext \<Rightarrow> tranche \<Rightarrow> tranche_state \<Rightarrow> backstop \<Rightarrow> backstop" where
  "bk_save_tranche x t ts s = s\<lparr>bk_tranche_state := bx_save_tranche_state x t ts (bk_tranche_state s)\<rparr>"

section \<open>Initialisation\<close>

definition empty_backstop_state :: backstop_state where
  "empty_backstop_state = \<lparr>bs_total_shares = 0, bs_total_capital = 0, bs_premium_income = 0,
     bs_total_drawdowns = 0, bs_loss_index = 0\<rparr>"

definition empty_tranche_state :: tranche_state where
  "empty_tranche_state = \<lparr>ts_total_shares = 0, ts_total_assets = 0, ts_mature_shares = 0,
     ts_mature_assets = 0, ts_high_water_mark = 0\<rparr>"

definition backstop_initialize ::
  "env \<Rightarrow> address \<Rightarrow> address \<Rightarrow> address \<Rightarrow> int \<Rightarrow> backstop \<Rightarrow> (unit \<times> backstop) backstop_result" where
  "backstop_initialize e pool admin token premium_share_bps s =
     (if bk_config s \<noteq> None then Err BkAlreadyInitialized
      else if \<not> (0 \<le> premium_share_bps \<and> premium_share_bps \<le> BPS_DENOM) then Err BkInvalidPremiumShare
      else and_then (require_auth e admin) (\<lambda>_.
        Ok ((), s\<lparr>bk_config := Some \<lparr>bc_pool = pool, bc_admin = admin, bc_token = token,
            bc_premium_share_bps = premium_share_bps, bc_cooldown_secs = 7 * 24 * 3600\<rparr>,
          bk_state := Some empty_backstop_state, bk_admin := Some admin, bk_paused := Some False,
          bk_seed_shares := Some 0, bk_lockup_ledgers := Some 0,
          bk_junior_premium_bps := Some (trunc_div BPS_DENOM 2), bk_pending_loss := Some False,
          bk_next_lot_id := Some 1, bk_all_lots := Some [], bk_next_loss_id := Some 1,
          bk_unabsorbed_shortfall := Some 0, bk_aggregate_feed_exposure := Some 0,
          bk_tracked_feeds := Some [], bk_cached_coverage := Some 0,
          bk_health_thresholds := Some \<lparr>min_solvency_bps = DEFAULT_MIN_SOLVENCY_BPS,
            max_coverage_bps = DEFAULT_MAX_COVERAGE_BPS, hysteresis_bps = DEFAULT_HYSTERESIS_BPS\<rparr>,
          bk_health_alert_state := Some \<lparr>solvency_breached = False, coverage_breached = False\<rparr>,
          bk_tranche_state := (bk_tranche_state s)(Junior \<mapsto> empty_tranche_state, Senior \<mapsto> empty_tranche_state)\<rparr>)))"

section \<open>Staker operations\<close>

definition bk_is_pending_loss :: "backstop \<Rightarrow> bool" where
  "bk_is_pending_loss s = unwrap_or (bk_pending_loss s) False"

definition new_lot :: "env \<Rightarrow> nat \<Rightarrow> address \<Rightarrow> tranche \<Rightarrow> int \<Rightarrow> int \<Rightarrow> nat \<Rightarrow> deposit_lot" where
  "new_lot e i staker t shares amount lockup =
     \<lparr>lot_id = i, lot_staker = staker, lot_tranche = t, lot_shares = shares, lot_principal = amount,
      lot_matures_at = u32_sat_add (ledger_seq e) lockup, lot_matured = False\<rparr>"

definition deposit_tranche ::
  "'w backstop_ext \<Rightarrow> env \<Rightarrow> address \<Rightarrow> tranche \<Rightarrow> int \<Rightarrow> 'w bk_system \<Rightarrow> (int \<times> 'w bk_system) backstop_result" where
  "deposit_tranche x e staker t amount sw =
     (let s = fst sw; w = snd sw in
      and_then (require_auth e staker) (\<lambda>_.
      and_then (bx_require_not_paused x s) (\<lambda>_.
      if amount \<le> 0 then Err BkInvalidAmount
      else
        and_then (bk_acquire x s) (\<lambda>s.
        and_then (bx_sync_matured x e s) (\<lambda>(_, s).
        if bk_is_pending_loss s then Err BkPendingLossFreeze
        else
          and_then (bx_get_config x s) (\<lambda>config.
          and_then (bx_get_state x s) (\<lambda>state.
          and_then (bx_tranche_state x t s) (\<lambda>ts.
          and_then (bx_calc_shares x amount (ts_total_shares ts) (ts_total_assets ts)) (\<lambda>shares.
          if shares \<le> 0 then Err BkInvalidAmount
          else
            let key = (staker, t, False); prev = unwrap_or (bk_shares s key) 0 in
            and_then (i128_add prev shares) (\<lambda>held.
            let s = s\<lparr>bk_shares := (bk_shares s)(key \<mapsto> held)\<rparr> in
            and_then (i128_add (ts_total_shares ts) shares) (\<lambda>tranche_shares.
            and_then (i128_add (ts_total_assets ts) amount) (\<lambda>tranche_assets.
            let ts = ts\<lparr>ts_total_shares := tranche_shares, ts_total_assets := tranche_assets\<rparr> in
            and_then (i128_add (bs_total_capital state) amount) (\<lambda>capital.
            and_then (i128_add (bs_total_shares state) shares) (\<lambda>all_shares.
            let state = state\<lparr>bs_total_capital := capital, bs_total_shares := all_shares\<rparr>;
                i = unwrap_or (bk_next_lot_id s) 1;
                lockup = unwrap_or (bk_lockup_ledgers s) 100;
                s = s\<lparr>bk_lot := (bk_lot s)(i \<mapsto> new_lot e i staker t shares amount lockup),
                      bk_all_lots := Some (unwrap_or (bk_all_lots s) [] @ [i]),
                      bk_lots := (bk_lots s)((staker, t) \<mapsto> unwrap_or (bk_lots s (staker, t)) [] @ [i])\<rparr> in
            and_then (u64_add i 1) (\<lambda>next.
            let s = s\<lparr>bk_next_lot_id := Some next, bk_state := Some state\<rparr>;
                s = bk_save_tranche x t ts s in
            and_then (token_transfer (bx_transfer x) w (bc_token config) staker (this e) amount) (\<lambda>w.
            Ok (shares, (bk_release x s, w))))))))))))))))))"

definition backstop_deposit ::
  "'w backstop_ext \<Rightarrow> env \<Rightarrow> address \<Rightarrow> int \<Rightarrow> 'w bk_system \<Rightarrow> (int \<times> 'w bk_system) backstop_result" where
  "backstop_deposit x e staker amount sw = deposit_tranche x e staker Junior amount sw"

definition request_unstake ::
  "'w backstop_ext \<Rightarrow> env \<Rightarrow> address \<Rightarrow> int \<Rightarrow> backstop \<Rightarrow> (nat \<times> backstop) backstop_result" where
  "request_unstake x e staker shares s =
     and_then (require_auth e staker) (\<lambda>_.
     and_then (bx_require_not_paused x s) (\<lambda>_.
     if shares \<le> 0 then Err BkInvalidAmount
     else
       and_then (bx_config x s) (\<lambda>cfg.
       let pos = bx_position x staker s in
       if active_shares pos < shares then Err BkNoActiveShares
       else
         and_then (i128_sub (active_shares pos) shares) (\<lambda>active.
         and_then (ok_or (i128_opt (cooling_shares pos + shares)) BkOverflow) (\<lambda>cooling.
         and_then (u64_add (timestamp e) (bc_cooldown_secs cfg)) (\<lambda>until.
         let pos = pos\<lparr>active_shares := active, cooling_shares := cooling, unlock_at := until\<rparr>
         in Ok (until, s\<lparr>bk_position := (bk_position s)(staker \<mapsto> pos)\<rparr>)))))))"

definition cancel_unstake ::
  "'w backstop_ext \<Rightarrow> env \<Rightarrow> address \<Rightarrow> backstop \<Rightarrow> (int \<times> backstop) backstop_result" where
  "cancel_unstake x e staker s =
     and_then (require_auth e staker) (\<lambda>_.
     let pos = bx_position x staker s; cooling = cooling_shares pos in
     if cooling = 0 then Err BkNoCoolingShares
     else
       and_then (ok_or (i128_opt (active_shares pos + cooling)) BkOverflow) (\<lambda>active.
       let pos = pos\<lparr>active_shares := active, cooling_shares := 0, unlock_at := 0\<rparr>
       in Ok (cooling, s\<lparr>bk_position := (bk_position s)(staker \<mapsto> pos)\<rparr>)))"

definition withdraw_tranche ::
  "'w backstop_ext \<Rightarrow> env \<Rightarrow> address \<Rightarrow> tranche \<Rightarrow> int \<Rightarrow> 'w bk_system \<Rightarrow> (int \<times> 'w bk_system) backstop_result" where
  "withdraw_tranche x e staker t shares sw =
     (let s = fst sw; w = snd sw in
      and_then (require_auth e staker) (\<lambda>_.
      if shares \<le> 0 then Err BkInvalidAmount
      else
        and_then (bk_acquire x s) (\<lambda>s.
        and_then (bx_sync_matured x e s) (\<lambda>(_, s).
        and_then (bx_get_config x s) (\<lambda>config.
        and_then (bx_get_state x s) (\<lambda>state.
        and_then (bx_tranche_state x t s) (\<lambda>ts.
        let key = (staker, t, True); held = unwrap_or (bk_shares s key) 0 in
        if held < shares then Err BkInsufficientShares
        else
          and_then (bx_quote_withdrawal x shares (ts_mature_shares ts) (ts_mature_assets ts)) (\<lambda>amount.
          if bs_total_capital state < amount then Err BkInsufficientCapital
          else
            and_then (i128_sub held shares) (\<lambda>left.
            let s = s\<lparr>bk_shares := (bk_shares s)(key \<mapsto> left)\<rparr> in
            and_then (i128_sub (ts_total_shares ts) shares) (\<lambda>total_shares.
            and_then (i128_sub (ts_mature_shares ts) shares) (\<lambda>mature_shares.
            and_then (i128_sub (ts_total_assets ts) amount) (\<lambda>total_assets.
            and_then (i128_sub (ts_mature_assets ts) amount) (\<lambda>mature_assets.
            let ts = ts\<lparr>ts_total_shares := total_shares, ts_mature_shares := mature_shares,
                  ts_total_assets := total_assets, ts_mature_assets := mature_assets\<rparr> in
            and_then (i128_sub (bs_total_shares state) shares) (\<lambda>all_shares.
            and_then (i128_sub (bs_total_capital state) amount) (\<lambda>capital.
            let s = s\<lparr>bk_state := Some (state\<lparr>bs_total_shares := all_shares, bs_total_capital := capital\<rparr>)\<rparr>;
                s = bk_save_tranche x t ts s in
            and_then (if 0 < amount then token_transfer (bx_transfer x) w (bc_token config) (this e) staker amount
                      else Ok w) (\<lambda>w.
            Ok (amount, (bk_release x s, w))))))))))))))))))"

definition backstop_withdraw ::
  "'w backstop_ext \<Rightarrow> env \<Rightarrow> address \<Rightarrow> int \<Rightarrow> 'w bk_system \<Rightarrow> (int \<times> 'w bk_system) backstop_result" where
  "backstop_withdraw x e staker shares sw = withdraw_tranche x e staker Junior shares sw"

section \<open>Pool operations\<close>

definition draw_down ::
  "'w backstop_ext \<Rightarrow> env \<Rightarrow> address \<Rightarrow> nat \<Rightarrow> int \<Rightarrow> 'w bk_system \<Rightarrow> (int \<times> 'w bk_system) backstop_result" where
  "draw_down x e caller claim_id amount sw =
     (let s = fst sw; w = snd sw in
      and_then (require_auth e caller) (\<lambda>_.
      and_then (bx_require_not_paused x s) (\<lambda>_.
      and_then (bx_config x s) (\<lambda>cfg.
      if caller \<noteq> bc_pool cfg then Err BkNotPool
      else
        and_then (bx_state x s) (\<lambda>state.
        if bs_total_capital state < amount then Err BkInsufficientCapital
        else
          and_then (i128_sub (bs_total_capital state) amount) (\<lambda>capital.
          and_then (ok_or (i128_opt (bs_total_drawdowns state + amount)) BkOverflow) (\<lambda>drawdowns.
          let state = state\<lparr>bs_total_capital := capital, bs_total_drawdowns := drawdowns\<rparr> in
          and_then (if 0 < bs_total_shares state then
              and_then (ok_or (i128_opt (amount * LOSS_INDEX_SCALE)) BkOverflow) (\<lambda>scaled.
              and_then (ok_or (i128_opt (trunc_div scaled (bs_total_shares state))) BkOverflow) (\<lambda>per_share.
              and_then (ok_or (i128_opt (bs_loss_index state + per_share)) BkOverflow) (\<lambda>index.
              Ok (state\<lparr>bs_loss_index := index\<rparr>))))
            else Ok state) (\<lambda>state.
          let s = s\<lparr>bk_state := Some state\<rparr> in
          and_then (token_transfer (bx_transfer x) w (bc_token cfg) (this e) (bc_pool cfg) amount) (\<lambda>w.
          Ok (amount, (s, w)))))))))))"

definition cover_shortfall ::
  "'w backstop_ext \<Rightarrow> env \<Rightarrow> address \<Rightarrow> int \<Rightarrow> 'w bk_system \<Rightarrow> (int \<times> 'w bk_system) backstop_result" where
  "cover_shortfall x e caller amount sw =
     (let s = fst sw; w = snd sw in
      and_then (require_auth e caller) (\<lambda>_.
      and_then (bx_get_config x s) (\<lambda>config.
      if caller \<noteq> bc_pool config \<and> caller \<noteq> bc_admin config then Err BkUnauthorized
      else if amount \<le> 0 then Err BkInvalidAmount
      else
        and_then (bk_acquire x s) (\<lambda>s.
        and_then (bx_sync_matured x e s) (\<lambda>(_, s).
        and_then (bx_get_state x s) (\<lambda>state.
        let covered = min (bs_total_capital state) amount;
            loss_id = unwrap_or (bk_next_loss_id s) 1 in
        and_then (u64_add loss_id 1) (\<lambda>next.
        let s = s\<lparr>bk_next_loss_id := Some next\<rparr> in
        and_then (bx_apply_loss x e loss_id covered s) (\<lambda>(covered, s).
        if covered \<le> 0 then Ok (0, (bk_release x (s\<lparr>bk_pending_loss := Some False\<rparr>), w))
        else
          and_then (token_transfer (bx_transfer x) w (bc_token config) (this e) (bc_pool config) covered) (\<lambda>w.
          Ok (covered, (bk_release x s, w)))))))))))"

definition absorb_loss ::
  "'w backstop_ext \<Rightarrow> env \<Rightarrow> address \<Rightarrow> nat \<Rightarrow> int \<Rightarrow> 'w bk_system \<Rightarrow> (int \<times> 'w bk_system) backstop_result" where
  "absorb_loss x e caller loss_id amount sw =
     (let s = fst sw; w = snd sw in
      and_then (require_auth e caller) (\<lambda>_.
      and_then (bx_get_config x s) (\<lambda>config.
      if caller \<noteq> bc_pool config \<and> caller \<noteq> bc_admin config then Err BkUnauthorized
      else if amount \<le> 0 then Err BkInvalidAmount
      else
        and_then (bk_acquire x s) (\<lambda>s.
        and_then (bx_sync_matured x e s) (\<lambda>(_, s).
        and_then (bx_apply_loss x e loss_id amount s) (\<lambda>(covered, s).
        let s = s\<lparr>bk_pending_loss := Some False\<rparr> in
        and_then (if 0 < covered then
            token_transfer (bx_transfer x) w (bc_token config) (this e) (bc_pool config) covered
          else Ok w) (\<lambda>w.
        Ok (covered, (bk_release x s, w)))))))))"

definition set_pending_loss :: "'w backstop_ext \<Rightarrow> env \<Rightarrow> address \<Rightarrow> bool \<Rightarrow> backstop \<Rightarrow> (unit \<times> backstop) backstop_result" where
  "set_pending_loss x e caller pending s =
     and_then (require_auth e caller) (\<lambda>_.
     and_then (bx_get_config x s) (\<lambda>config.
     if caller \<noteq> bc_pool config \<and> caller \<noteq> bc_admin config then Err BkUnauthorized
     else Ok ((), s\<lparr>bk_pending_loss := Some pending\<rparr>)))"

definition set_parameters ::
  "'w backstop_ext \<Rightarrow> env \<Rightarrow> address \<Rightarrow> nat \<Rightarrow> int \<Rightarrow> backstop \<Rightarrow> (unit \<times> backstop) backstop_result" where
  "set_parameters x e caller lockup_ledgers junior_premium_bps s =
     and_then (require_auth e caller) (\<lambda>_.
     and_then (bx_get_config x s) (\<lambda>config.
     if caller \<noteq> bc_admin config then Err BkUnauthorized
     else if \<not> (0 \<le> junior_premium_bps \<and> junior_premium_bps \<le> BPS_DENOM) then Err BkInvalidPremiumSplit
     else Ok ((), s\<lparr>bk_lockup_ledgers := Some lockup_ledgers, bk_junior_premium_bps := Some junior_premium_bps\<rparr>)))"

definition backstop_sync_matured :: "'w backstop_ext \<Rightarrow> env \<Rightarrow> backstop \<Rightarrow> (nat \<times> backstop) backstop_result" where
  "backstop_sync_matured x e s = bx_sync_matured x e s"

text \<open>Every failure of \<open>split_bps\<close> becomes the one error named at the call.\<close>

definition receive_premium ::
  "'w backstop_ext \<Rightarrow> env \<Rightarrow> address \<Rightarrow> int \<Rightarrow> 'w bk_system \<Rightarrow> (int \<times> 'w bk_system) backstop_result" where
  "receive_premium x e from amount sw =
     (let s = fst sw; w = snd sw in
      and_then (require_auth e from) (\<lambda>_.
      if amount \<le> 0 then Err BkInvalidAmount
      else
        and_then (bk_acquire x s) (\<lambda>s.
        and_then (bx_get_config x s) (\<lambda>config.
        and_then (bx_get_state x s) (\<lambda>state.
        and_then (map_err BkInvalidPremiumShare (split_bps amount (bc_premium_share_bps config))) (\<lambda>parts.
        let paid = split_cut parts; junior_bps = unwrap_or (bk_junior_premium_bps s) (trunc_div BPS_DENOM 2) in
        and_then (map_err BkInvalidPremiumSplit (split_bps paid junior_bps)) (\<lambda>tranche_split.
        and_then (bx_credit_mature_premium x e Junior (split_cut tranche_split) s) (\<lambda>(junior_credit, s).
        and_then (bx_credit_mature_premium x e Senior (split_rest tranche_split) s) (\<lambda>(senior_credit, s).
        let credited = saturating_add junior_credit senior_credit;
            state = state\<lparr>bs_premium_income := saturating_add (bs_premium_income state) credited,
                          bs_total_capital := saturating_add (bs_total_capital state) credited\<rparr>;
            s = s\<lparr>bk_state := Some state\<rparr> in
        and_then (if 0 < paid then token_transfer (bx_transfer x) w (bc_token config) from (this e) paid
                  else Ok w) (\<lambda>w.
        Ok (paid, (bk_release x s, w))))))))))))"

section \<open>Views\<close>

definition backstop_deposit_lot :: "backstop \<Rightarrow> nat \<Rightarrow> deposit_lot option" where
  "backstop_deposit_lot s i = bk_lot s i"

definition tranche_state_view :: "'w backstop_ext \<Rightarrow> backstop \<Rightarrow> tranche \<Rightarrow> tranche_state backstop_result" where
  "tranche_state_view x s t = bx_tranche_state x t s"

definition tranche_shares_of :: "backstop \<Rightarrow> address \<Rightarrow> tranche \<Rightarrow> int backstop_result" where
  "tranche_shares_of s staker t =
     (let mature = unwrap_or (bk_shares s (staker, t, True)) 0;
          immature = unwrap_or (bk_shares s (staker, t, False)) 0
      in i128_add mature immature)"

definition tranche_assets :: "'w backstop_ext \<Rightarrow> backstop \<Rightarrow> tranche \<Rightarrow> int backstop_result" where
  "tranche_assets x s t = and_then (bx_tranche_state x t s) (\<lambda>ts. Ok (ts_total_assets ts))"

definition tranche_share_price :: "'w backstop_ext \<Rightarrow> backstop \<Rightarrow> tranche \<Rightarrow> int backstop_result" where
  "tranche_share_price x s t =
     and_then (bx_tranche_state x t s) (\<lambda>ts.
     bx_quote_withdrawal x SCALE_1E7 (ts_total_shares ts) (ts_total_assets ts))"

definition senior_coverage_ratio :: "'w backstop_ext \<Rightarrow> backstop \<Rightarrow> int backstop_result" where
  "senior_coverage_ratio x s =
     and_then (bx_tranche_state x Junior s) (\<lambda>junior.
     and_then (bx_tranche_state x Senior s) (\<lambda>senior.
     if ts_total_assets senior = 0 then Ok 0
     else case mul_div_floor (ts_total_assets junior) BPS_DENOM (ts_total_assets senior) of
            Ok ratio \<Rightarrow> Ok ratio | Err _ \<Rightarrow> Ok i128_max | Trap \<Rightarrow> Trap))"

definition unabsorbed_shortfall :: "backstop \<Rightarrow> int" where
  "unabsorbed_shortfall s = unwrap_or (bk_unabsorbed_shortfall s) 0"

section \<open>Transactions\<close>

datatype backstop_call =
    BkInitialize address address address int | BkDeposit address int | BkDepositTranche address tranche int
  | BkRequestUnstake address int | BkCancelUnstake address | BkWithdraw address int
  | BkWithdrawTranche address tranche int | BkDrawDown address nat int | BkCoverShortfall address int
  | BkAbsorbLoss address nat int | BkSetPendingLoss address bool | BkSetParameters address nat int
  | BkSyncMatured | BkReceivePremium address int

definition on_backstop :: "(backstop \<Rightarrow> ('a \<times> backstop) backstop_result) \<Rightarrow> 'w bk_system \<Rightarrow> (unit \<times> 'w bk_system) backstop_result" where
  "on_backstop f sw = and_then (f (fst sw)) (\<lambda>(_, s). Ok ((), (s, snd sw)))"

fun backstop_exec :: "'w backstop_ext \<Rightarrow> env \<Rightarrow> backstop_call \<Rightarrow> 'w bk_system \<Rightarrow> (unit \<times> 'w bk_system) backstop_result" where
  "backstop_exec x e (BkInitialize p a t b) sw = on_backstop (backstop_initialize e p a t b) sw"
| "backstop_exec x e (BkDeposit a n) sw = discard (backstop_deposit x e a n sw)"
| "backstop_exec x e (BkDepositTranche a t n) sw = discard (deposit_tranche x e a t n sw)"
| "backstop_exec x e (BkRequestUnstake a n) sw = on_backstop (request_unstake x e a n) sw"
| "backstop_exec x e (BkCancelUnstake a) sw = on_backstop (cancel_unstake x e a) sw"
| "backstop_exec x e (BkWithdraw a n) sw = discard (backstop_withdraw x e a n sw)"
| "backstop_exec x e (BkWithdrawTranche a t n) sw = discard (withdraw_tranche x e a t n sw)"
| "backstop_exec x e (BkDrawDown a i n) sw = discard (draw_down x e a i n sw)"
| "backstop_exec x e (BkCoverShortfall a n) sw = discard (cover_shortfall x e a n sw)"
| "backstop_exec x e (BkAbsorbLoss a i n) sw = discard (absorb_loss x e a i n sw)"
| "backstop_exec x e (BkSetPendingLoss a b) sw = on_backstop (set_pending_loss x e a b) sw"
| "backstop_exec x e (BkSetParameters a l b) sw = on_backstop (set_parameters x e a l b) sw"
| "backstop_exec x e BkSyncMatured sw = on_backstop (backstop_sync_matured x e) sw"
| "backstop_exec x e (BkReceivePremium a n) sw = discard (receive_premium x e a n sw)"

section \<open>What the helpers promise\<close>

text \<open>
  The loaders return what is stored; \<open>_sync_matured\<close> and \<open>_credit_mature_premium\<close> leave the configuration
  and the running totals alone, the latter crediting at most what it is given; \<open>_apply_loss\<close> covers at
  most the capital there is and takes what it covers off the capital; a withdrawal is worth at least
  nothing.
\<close>

definition backstop_helpers :: "'w backstop_ext \<Rightarrow> bool" where
  "backstop_helpers x \<longleftrightarrow>
     (\<forall>s c. bx_get_config x s = Ok c \<or> bx_config x s = Ok c \<longrightarrow> bk_config s = Some c) \<and>
     (\<forall>s st. bx_get_state x s = Ok st \<or> bx_state x s = Ok st \<longrightarrow> bk_state s = Some st) \<and>
     (\<forall>e s n s'. bx_sync_matured x e s = Ok (n, s') \<longrightarrow> bk_config s' = bk_config s \<and> bk_state s' = bk_state s) \<and>
     (\<forall>e t a s c s'. bx_credit_mature_premium x e t a s = Ok (c, s') \<longrightarrow>
        bk_config s' = bk_config s \<and> bk_state s' = bk_state s \<and> 0 \<le> c \<and> c \<le> a) \<and>
     (\<forall>e i a s c s' st. bx_apply_loss x e i a s = Ok (c, s') \<and> bk_state s = Some st \<longrightarrow>
        bk_config s' = bk_config s \<and> 0 \<le> c \<and> c \<le> max 0 (bs_total_capital st) \<and>
        (\<exists>st'. bk_state s' = Some st' \<and> bs_total_capital st' = bs_total_capital st - c)) \<and>
     (\<forall>n shares assets a. bx_quote_withdrawal x n shares assets = Ok a \<longrightarrow> 0 \<le> a)"

lemma helper_config:
  assumes "backstop_helpers x"
  shows "bx_get_config x s = Ok c \<Longrightarrow> bk_config s = Some c" "bx_config x s = Ok c \<Longrightarrow> bk_config s = Some c"
    "bx_get_state x s = Ok st \<Longrightarrow> bk_state s = Some st" "bx_state x s = Ok st \<Longrightarrow> bk_state s = Some st"
  using assms by (auto simp: backstop_helpers_def)

lemma helper_sync:
  "backstop_helpers x \<Longrightarrow> bx_sync_matured x e s = Ok (n, s') \<Longrightarrow> bk_config s' = bk_config s \<and> bk_state s' = bk_state s"
  unfolding backstop_helpers_def by meson

lemma helper_credit:
  "backstop_helpers x \<Longrightarrow> bx_credit_mature_premium x e t a s = Ok (c, s') \<Longrightarrow>
   bk_config s' = bk_config s \<and> bk_state s' = bk_state s \<and> 0 \<le> c \<and> c \<le> a"
  unfolding backstop_helpers_def by meson

lemma helper_loss:
  "backstop_helpers x \<Longrightarrow> bx_apply_loss x e i a s = Ok (c, s') \<Longrightarrow> bk_state s = Some st \<Longrightarrow>
   bk_config s' = bk_config s \<and> 0 \<le> c \<and> c \<le> max 0 (bs_total_capital st) \<and>
   (\<exists>st'. bk_state s' = Some st' \<and> bs_total_capital st' = bs_total_capital st - c)"
  unfolding backstop_helpers_def by meson

lemma helper_quote: "backstop_helpers x \<Longrightarrow> bx_quote_withdrawal x n p q = Ok a \<Longrightarrow> 0 \<le> a"
  unfolding backstop_helpers_def by meson

lemma backstop_fields [simp]:
  "bk_config (bk_release x s) = bk_config s" "bk_state (bk_release x s) = bk_state s"
  "bk_config (bk_save_tranche x t ts s) = bk_config s" "bk_state (bk_save_tranche x t ts s) = bk_state s"
  by (simp_all add: bk_release_def bk_save_tranche_def)

lemma bk_acquire_Ok: "bk_acquire x s = Ok s' \<longleftrightarrow> (\<exists>l. bx_acquire_guard x (bk_reentrancy_lock s) = Ok l \<and> s' = s\<lparr>bk_reentrancy_lock := l\<rparr>)"
  by (auto simp: bk_acquire_def)

lemma split_bps_sum: "split_bps a b = Ok p \<Longrightarrow> split_cut p + split_rest p = a"
  by (auto simp: split_bps_def split_ratio_def split: if_splits)

section \<open>How capital moves\<close>

definition paid_tokens :: "'w backstop_ext \<Rightarrow> 'w \<Rightarrow> address \<Rightarrow> address \<Rightarrow> address \<Rightarrow> int \<Rightarrow> 'w \<Rightarrow> bool" where
  "paid_tokens x w tok a b n w' \<longleftrightarrow> n = 0 \<and> w' = w \<or> bx_transfer x w tok a b n = Some w'"

definition capital_of :: "backstop \<Rightarrow> int" where
  "capital_of s = (case bk_state s of None \<Rightarrow> 0 | Some st \<Rightarrow> bs_total_capital st)"

lemma stored_commute:
  "Some c = bk_config s \<longleftrightarrow> bk_config s = Some c" "Some st = bk_state s \<longleftrightarrow> bk_state s = Some st"
  by auto

lemma deposit_moves:
  assumes "backstop_helpers x" and "deposit_tranche x e a t n (s, w) = Ok (r, (s', w'))"
  shows "\<exists>c. bk_config s = Some c \<and> bk_config s' = Some c \<and> bk_state s \<noteq> None \<and> bk_state s' \<noteq> None \<and> auth e a \<and>
    0 < n \<and> capital_of s' = capital_of s + n \<and> paid_tokens x w (bc_token c) a (this e) n w'"
  using assms(2)
  by (auto simp: deposit_tranche_def Let_def bk_acquire_Ok capital_of_def paid_tokens_def stored_commute
      dest!: helper_config [OF assms(1)] helper_sync [OF assms(1)] split: if_splits prod.splits)

lemma withdraw_moves:
  assumes "backstop_helpers x" and "withdraw_tranche x e a t n (s, w) = Ok (r, (s', w'))"
  shows "\<exists>c. bk_config s = Some c \<and> bk_config s' = Some c \<and> bk_state s \<noteq> None \<and> bk_state s' \<noteq> None \<and> auth e a \<and>
    0 \<le> r \<and> r \<le> capital_of s \<and> capital_of s' = capital_of s - r \<and> paid_tokens x w (bc_token c) (this e) a r w'"
  using assms(2)
  by (auto simp: withdraw_tranche_def Let_def bk_acquire_Ok capital_of_def paid_tokens_def stored_commute
      dest!: helper_config [OF assms(1)] helper_sync [OF assms(1)] dest: helper_quote [OF assms(1)]
      split: if_splits prod.splits)

lemma draw_down_moves:
  assumes "backstop_helpers x" and "draw_down x e a i n (s, w) = Ok (r, (s', w'))"
  shows "\<exists>c. bk_config s = Some c \<and> bk_config s' = Some c \<and> bk_state s \<noteq> None \<and> bk_state s' \<noteq> None \<and> auth e a \<and>
    a = bc_pool c \<and> r = n \<and> r \<le> capital_of s \<and> capital_of s' = capital_of s - r \<and>
    paid_tokens x w (bc_token c) (this e) (bc_pool c) r w'"
  using assms(2)
  by (auto simp: draw_down_def Let_def capital_of_def paid_tokens_def stored_commute
      dest!: helper_config [OF assms(1)] split: if_splits)

lemma loss_capital:
  assumes "backstop_helpers x" and "bx_apply_loss x e i a s = Ok (c, s')" and "bk_state s \<noteq> None"
  shows "bk_config s' = bk_config s \<and> bk_state s' \<noteq> None \<and> 0 \<le> c \<and> c \<le> max 0 (capital_of s) \<and>
    capital_of s' = capital_of s - c"
proof -
  obtain st where st: "bk_state s = Some st" using assms(3) by auto
  with helper_loss [OF assms(1,2)] show ?thesis by (auto simp: capital_of_def)
qed

lemma capital_of_cong: "bk_state s' = bk_state s \<Longrightarrow> capital_of s' = capital_of s"
  by (simp add: capital_of_def)

lemma cover_shortfall_moves:
  assumes "backstop_helpers x" and "cover_shortfall x e a n (s, w) = Ok (r, (s', w'))"
  shows "\<exists>c. bk_config s = Some c \<and> bk_config s' = Some c \<and> bk_state s \<noteq> None \<and> bk_state s' \<noteq> None \<and> auth e a \<and>
    (a = bc_pool c \<or> a = bc_admin c) \<and> 0 \<le> r \<and> r \<le> max 0 (capital_of s) \<and> capital_of s' = capital_of s - r \<and>
    paid_tokens x w (bc_token c) (this e) (bc_pool c) r w'"
proof -
  obtain c l n1 s1 st i id m k s2 where c: "auth e a" "bx_get_config x s = Ok c" "a = bc_pool c \<or> a = bc_admin c"
    and s1: "bx_sync_matured x e (s\<lparr>bk_reentrancy_lock := l\<rparr>) = Ok (n1, s1)" and st: "bx_get_state x s1 = Ok st"
    and loss: "bx_apply_loss x e i m (s1\<lparr>bk_next_loss_id := Some id\<rparr>) = Ok (k, s2)"
    and fin: "bk_config s' = bk_config s2" "bk_state s' = bk_state s2"
      "k \<le> 0 \<longrightarrow> r = 0 \<and> w' = w"
      "\<not> k \<le> 0 \<longrightarrow> r = k \<and> bx_transfer x w (bc_token c) (this e) (bc_pool c) k = Some w'"
    using assms(2) unfolding cover_shortfall_def Let_def
    by (auto simp: bk_acquire_Ok split: if_splits prod.splits)
  note h = helper_config [OF assms(1)]
  from helper_sync [OF assms(1) s1] have e1: "bk_config s1 = bk_config s" "bk_state s1 = bk_state s" by simp_all
  have stored: "bk_state s = Some st" using h(3) [OF st] e1 by simp
  have "bk_state (s1\<lparr>bk_next_loss_id := Some id\<rparr>) \<noteq> None" using stored e1 by simp
  from loss_capital [OF assms(1) loss this] have k: "bk_config s2 = bk_config s" "bk_state s2 \<noteq> None" "0 \<le> k"
      "k \<le> max 0 (capital_of s)" "capital_of s2 = capital_of s - k"
    using e1 by (simp_all add: capital_of_def)
  have "capital_of s' = capital_of s2" "bk_config s' = bk_config s2" "bk_state s' = bk_state s2"
    using fin by (auto simp: capital_of_def)
  moreover have "r = k" "paid_tokens x w (bc_token c) (this e) (bc_pool c) r w'"
    using fin k(3) by (cases "k \<le> 0"; simp add: paid_tokens_def)+
  ultimately show ?thesis using c(1,3) h(1) [OF c(2)] k stored by auto
qed

lemma absorb_loss_moves:
  assumes "backstop_helpers x" and "absorb_loss x e a i n (s, w) = Ok (r, (s', w'))" and "bk_state s \<noteq> None"
  shows "\<exists>c. bk_config s = Some c \<and> bk_config s' = Some c \<and> bk_state s' \<noteq> None \<and> auth e a \<and>
    (a = bc_pool c \<or> a = bc_admin c) \<and> 0 \<le> r \<and> r \<le> max 0 (capital_of s) \<and> capital_of s' = capital_of s - r \<and>
    paid_tokens x w (bc_token c) (this e) (bc_pool c) r w'"
proof -
  obtain c l n1 s1 s2 where c: "auth e a" "bx_get_config x s = Ok c" "a = bc_pool c \<or> a = bc_admin c"
    and s1: "bx_sync_matured x e (s\<lparr>bk_reentrancy_lock := l\<rparr>) = Ok (n1, s1)"
    and loss: "bx_apply_loss x e i n s1 = Ok (r, s2)"
    and fin: "s' = bk_release x (s2\<lparr>bk_pending_loss := Some False\<rparr>)"
      "if 0 < r then bx_transfer x w (bc_token c) (this e) (bc_pool c) r = Some w' else w' = w"
    using assms(2) by (auto simp: absorb_loss_def Let_def bk_acquire_Ok split: if_splits prod.splits)
  from helper_sync [OF assms(1) s1] have e1: "bk_config s1 = bk_config s" "bk_state s1 = bk_state s" by simp_all
  with assms(3) have "bk_state s1 \<noteq> None" by simp
  from loss_capital [OF assms(1) loss this] have k: "bk_config s2 = bk_config s" "bk_state s2 \<noteq> None" "0 \<le> r"
      "r \<le> max 0 (capital_of s)" "capital_of s2 = capital_of s - r"
    using e1 by (simp_all add: capital_of_def)
  have "capital_of s' = capital_of s2" "bk_config s' = bk_config s2" "bk_state s' = bk_state s2"
    using fin by (auto simp: capital_of_def)
  moreover have "paid_tokens x w (bc_token c) (this e) (bc_pool c) r w'"
    using fin k(3) by (auto simp: paid_tokens_def split: if_splits)
  ultimately show ?thesis using c(1,3) helper_config(1) [OF assms(1) c(2)] k by auto
qed

lemma receive_premium_moves:
  assumes "backstop_helpers x" and "receive_premium x e a n (s, w) = Ok (r, (s', w'))"
  shows "\<exists>c k. bk_config s = Some c \<and> bk_config s' = Some c \<and> bk_state s \<noteq> None \<and> bk_state s' \<noteq> None \<and> auth e a \<and>
    0 \<le> k \<and> k \<le> r \<and> capital_of s' = saturating_add (capital_of s) (saturating_add k 0) \<and>
    paid_tokens x w (bc_token c) a (this e) r w'"
proof -
  obtain c l st ts j s1 k s2 where c: "auth e a" "bx_get_config x (s\<lparr>bk_reentrancy_lock := l\<rparr>) = Ok c"
    and st: "bx_get_state x (s\<lparr>bk_reentrancy_lock := l\<rparr>) = Ok st"
    and ts: "split_bps r (unwrap_or (bk_junior_premium_bps s) (trunc_div BPS_DENOM 2)) = Ok ts"
    and j: "bx_credit_mature_premium x e Junior (split_cut ts) (s\<lparr>bk_reentrancy_lock := l\<rparr>) = Ok (j, s1)"
    and k: "bx_credit_mature_premium x e Senior (split_rest ts) s1 = Ok (k, s2)"
    and fin: "bk_config s' = bk_config s2" "bk_state s' \<noteq> None"
      "capital_of s' = saturating_add (bs_total_capital st) (saturating_add j k)"
      "if 0 < r then bx_transfer x w (bc_token c) a (this e) r = Some w' else w' = w"
    using assms(2) unfolding receive_premium_def Let_def bk_acquire_Ok
    by (auto simp: capital_of_def bk_acquire_Ok split: if_splits prod.splits)
  note h = helper_config [OF assms(1)]
  from helper_credit [OF assms(1) j] helper_credit [OF assms(1) k] split_bps_sum [OF ts]
  have b: "bk_config s2 = bk_config s" "0 \<le> j" "0 \<le> k" "j + k \<le> r" by simp_all
  have "bk_config s = Some c" "bk_state s = Some st" using h(1) [OF c(2)] h(3) [OF st] by simp_all
  moreover have "saturating_add j k = saturating_add (j + k) 0" by (simp add: saturating_add_def)
  moreover have "paid_tokens x w (bc_token c) a (this e) r w'"
    using fin b by (auto simp: paid_tokens_def split: if_splits)
  ultimately show ?thesis using b c(1) fin(1-3)
    by (intro exI [of _ c] exI [of _ "j + k"]) (simp add: capital_of_def)
qed

lemmas backstop_moves = deposit_moves withdraw_moves draw_down_moves cover_shortfall_moves receive_premium_moves

lemma paid_in:
  "sep41_transfers (bx_transfer x) bal \<Longrightarrow> paid_tokens x w tok a B n w' \<Longrightarrow> a \<noteq> B \<Longrightarrow> bal w' tok B = bal w tok B + n"
  by (auto simp: paid_tokens_def dest: transfer_in)

lemma paid_out:
  "sep41_transfers (bx_transfer x) bal \<Longrightarrow> paid_tokens x w tok B a n w' \<Longrightarrow> a \<noteq> B \<Longrightarrow> bal w' tok B = bal w tok B - n"
  by (auto simp: paid_tokens_def dest: transfer_out)

lemma on_backstop_iff [simp]:
  "on_backstop f sw = Ok (u, sw') \<longleftrightarrow> (\<exists>a. f (fst sw) = Ok (a, fst sw') \<and> snd sw' = snd sw)"
  by (cases sw') (auto simp: on_backstop_def)

text \<open>The calls that move no tokens leave the configuration and the totals alone.\<close>

lemma quiet_calls:
  assumes "backstop_helpers x"
  shows "request_unstake x e a n s = Ok (r, s') \<Longrightarrow> bk_config s' = bk_config s \<and> bk_state s' = bk_state s"
    and "cancel_unstake x e a s = Ok (m, s') \<Longrightarrow> bk_config s' = bk_config s \<and> bk_state s' = bk_state s"
    and "set_pending_loss x e a b s = Ok (u, s') \<Longrightarrow> bk_config s' = bk_config s \<and> bk_state s' = bk_state s"
    and "set_parameters x e a l n s = Ok (u, s') \<Longrightarrow> bk_config s' = bk_config s \<and> bk_state s' = bk_state s"
    and "backstop_sync_matured x e s = Ok (r, s') \<Longrightarrow> bk_config s' = bk_config s \<and> bk_state s' = bk_state s"
  using helper_sync [OF assms]
  by (auto simp: request_unstake_def cancel_unstake_def set_pending_loss_def set_parameters_def
      backstop_sync_matured_def Let_def split: if_splits)

section \<open>Backing\<close>

definition bk_backed :: "('w \<Rightarrow> address \<Rightarrow> address \<Rightarrow> int) \<Rightarrow> address \<Rightarrow> 'w bk_system \<Rightarrow> bool" where
  "bk_backed bal B sw \<longleftrightarrow> (case bk_config (fst sw) of
     None \<Rightarrow> \<forall>tok. 0 \<le> bal (snd sw) tok B
   | Some c \<Rightarrow> bc_pool c \<noteq> B \<and> bk_state (fst sw) \<noteq> None \<and> 0 \<le> capital_of (fst sw) \<and>
       capital_of (fst sw) \<le> bal (snd sw) (bc_token c) B)"

definition bk_admissible :: "address \<Rightarrow> env \<Rightarrow> backstop_call \<Rightarrow> bool" where
  "bk_admissible B e c \<longleftrightarrow> this e = B \<and> \<not> auth e B \<and> (\<forall>p a t n. c = BkInitialize p a t n \<longrightarrow> p \<noteq> B)"

lemma bk_backed_cong: "bk_backed bal B (s, w) \<Longrightarrow> bk_config s' = bk_config s \<Longrightarrow> bk_state s' = bk_state s \<Longrightarrow> bk_backed bal B (s', w)"
  by (cases "bk_config s") (auto simp: bk_backed_def capital_of_def)

lemma saturating_add_le: "0 \<le> a \<Longrightarrow> 0 \<le> k \<Longrightarrow> 0 \<le> saturating_add a k \<and> saturating_add a k \<le> a + k"
  by (auto simp: saturating_add_def i128_clamp_def i128_max_def i128_min_def)

lemma backstop_exec_backed:
  assumes h: "backstop_helpers x" and tr: "sep41_transfers (bx_transfer x) bal"
    and inv: "bk_backed bal B (s, w)" and adm: "bk_admissible B e c"
    and ex: "backstop_exec x e c (s, w) = Ok (u, (s', w'))"
  shows "bk_backed bal B (s', w')"
proof -
  from adm have B: "this e = B" "\<not> auth e B" by (simp_all add: bk_admissible_def)
  have stored: "bk_config s = Some cf \<Longrightarrow> bk_state s \<noteq> None \<and> bc_pool cf \<noteq> B \<and> 0 \<le> capital_of s \<and>
      capital_of s \<le> bal w (bc_token cf) B" for cf
    using inv by (simp add: bk_backed_def)
  have inc: "bk_backed bal B (s', w')" if "bk_config s = Some cf" "bk_config s' = Some cf" "bk_state s' \<noteq> None" "auth e a"
      "0 \<le> k" "k \<le> n" "0 \<le> capital_of s'" "capital_of s' \<le> capital_of s + k" "paid_tokens x w (bc_token cf) a B n w'"
    for cf a k n
  proof -
    have "a \<noteq> B" using that(4) B by auto
    with that stored [OF that(1)] paid_in [OF tr that(9)] show ?thesis by (simp add: bk_backed_def)
  qed
  have out: "bk_backed bal B (s', w')" if "bk_config s = Some cf" "bk_config s' = Some cf" "bk_state s' \<noteq> None" "a \<noteq> B"
      "n \<le> capital_of s" "capital_of s' = capital_of s - n" "paid_tokens x w (bc_token cf) B a n w'"
    for cf a n
    using that stored [OF that(1)] paid_out [OF tr that(7)] by (auto simp: bk_backed_def)
  have dep: "bk_backed bal B (s', w')" if "deposit_tranche x e a t n (s, w) = Ok (r, (s', w'))" for a t n r
  proof -
    from deposit_moves [OF h that] obtain cf where d: "bk_config s = Some cf" "bk_config s' = Some cf" "bk_state s' \<noteq> None"
      "auth e a" "0 < n" "capital_of s' = capital_of s + n" "paid_tokens x w (bc_token cf) a B n w'" using B by auto
    then show ?thesis using stored [OF d(1)] by (intro inc [of cf a n n]) auto
  qed
  have wd: "bk_backed bal B (s', w')" if "withdraw_tranche x e a t n (s, w) = Ok (r, (s', w'))" for a t n r
  proof -
    from withdraw_moves [OF h that] obtain cf where d: "bk_config s = Some cf" "bk_config s' = Some cf" "bk_state s' \<noteq> None"
      "auth e a" "r \<le> capital_of s" "capital_of s' = capital_of s - r" "paid_tokens x w (bc_token cf) B a r w'"
      using B by auto
    then show ?thesis using B by (intro out [of cf a r]) auto
  qed
  have loss: "bk_backed bal B (s', w')" if "\<exists>cf. bk_config s = Some cf \<and> bk_config s' = Some cf \<and> bk_state s' \<noteq> None \<and>
      r \<le> max 0 (capital_of s) \<and> capital_of s' = capital_of s - r \<and> paid_tokens x w (bc_token cf) (this e) (bc_pool cf) r w'" for r
  proof -
    from that obtain cf where d: "bk_config s = Some cf" "bk_config s' = Some cf" "bk_state s' \<noteq> None"
      "r \<le> max 0 (capital_of s)" "capital_of s' = capital_of s - r" "paid_tokens x w (bc_token cf) B (bc_pool cf) r w'"
      using B by auto
    then show ?thesis using stored [OF d(1)] by (intro out [of cf "bc_pool cf" r]) auto
  qed
  have quiet: "bk_backed bal B (s', w')" if "bk_config s' = bk_config s \<and> bk_state s' = bk_state s" "w' = w"
    using bk_backed_cong [OF inv] that by simp
  show ?thesis
  proof (cases c)
    case (BkInitialize p a t n)
    with ex inv adm show ?thesis
      by (auto simp: backstop_initialize_def bk_backed_def bk_admissible_def empty_backstop_state_def capital_of_def
          split: if_splits)
  next
    case (BkDeposit a n)
    with ex show ?thesis by (auto simp: backstop_deposit_def dest: dep)
  next
    case (BkDepositTranche a t n)
    with ex show ?thesis by (auto dest: dep)
  next
    case (BkRequestUnstake a n)
    with ex quiet quiet_calls(1) [OF h] show ?thesis by auto
  next
    case (BkCancelUnstake a)
    with ex quiet quiet_calls(2) [OF h] show ?thesis by auto
  next
    case (BkWithdraw a n)
    with ex show ?thesis by (auto simp: backstop_withdraw_def dest: wd)
  next
    case (BkWithdrawTranche a t n)
    with ex show ?thesis by (auto dest: wd)
  next
    case (BkDrawDown a i n)
    with ex obtain r where "draw_down x e a i n (s, w) = Ok (r, (s', w'))" by auto
    from draw_down_moves [OF h this] show ?thesis by (intro loss [of r]) auto
  next
    case (BkCoverShortfall a n)
    with ex obtain r where "cover_shortfall x e a n (s, w) = Ok (r, (s', w'))" by auto
    from cover_shortfall_moves [OF h this] show ?thesis by (intro loss [of r]) auto
  next
    case (BkAbsorbLoss a i n)
    with ex obtain r where r: "absorb_loss x e a i n (s, w) = Ok (r, (s', w'))" by auto
    then obtain cf where "bk_config s = Some cf" using helper_config(1) [OF h] by (auto simp: absorb_loss_def)
    with absorb_loss_moves [OF h r] stored show ?thesis by (intro loss [of r]) auto
  next
    case (BkSetPendingLoss a b)
    with ex quiet quiet_calls(3) [OF h] show ?thesis by auto
  next
    case (BkSetParameters a l n)
    with ex quiet quiet_calls(4) [OF h] show ?thesis by auto
  next
    case BkSyncMatured
    with ex quiet quiet_calls(5) [OF h] show ?thesis by auto
  next
    case (BkReceivePremium a n)
    with ex obtain r where r: "receive_premium x e a n (s, w) = Ok (r, (s', w'))" by auto
    from receive_premium_moves [OF h this] obtain cf k where d: "bk_config s = Some cf" "bk_config s' = Some cf"
      "bk_state s' \<noteq> None" "auth e a" "0 \<le> k" "k \<le> r"
      "capital_of s' = saturating_add (capital_of s) (saturating_add k 0)" "paid_tokens x w (bc_token cf) a B r w'"
      using B by auto
    have "0 \<le> capital_of s' \<and> capital_of s' \<le> capital_of s + k"
      using d(5,7) stored [OF d(1)] saturating_add_le [of k 0] saturating_add_le [of "capital_of s" "saturating_add k 0"] by auto
    with d show ?thesis by (intro inc [of cf a k r]) auto
  qed
qed

lemma backstop_contract:
  assumes "backstop_helpers x" and "sep41_transfers (bx_transfer x) bal"
  shows "timed_contract (backstop_exec x) (bk_admissible B) (\<lambda>_. bk_backed bal B)"
  by unfold_locales (auto intro: backstop_exec_backed [OF assms])

section \<open>An example\<close>

text \<open>Concrete helpers: shares at the tranche's price, losses cut to the capital.\<close>

definition bk_ext :: "ledger backstop_ext" where
  "bk_ext = \<lparr>bx_acquire_guard = (\<lambda>l. if l = Some True then Err BkReentrancyDetected else Ok (Some True)),
     bx_release_guard = (\<lambda>_. None),
     bx_require_not_paused = (\<lambda>s. if bk_paused s = Some True then Err BkPaused else Ok ()),
     bx_get_config = (\<lambda>s. ok_or (bk_config s) BkNotInitialized), bx_config = (\<lambda>s. ok_or (bk_config s) BkNotInitialized),
     bx_get_state = (\<lambda>s. ok_or (bk_state s) BkNotInitialized), bx_state = (\<lambda>s. ok_or (bk_state s) BkNotInitialized),
     bx_tranche_state = (\<lambda>t s. ok_or (bk_tranche_state s t) BkNotInitialized),
     bx_save_tranche_state = (\<lambda>t ts m. m(t \<mapsto> ts)),
     bx_position = (\<lambda>a s. unwrap_or (bk_position s a)
       \<lparr>active_shares = 0, cooling_shares = 0, loss_index_snapshot = 0, unlock_at = 0\<rparr>),
     bx_calc_shares = (\<lambda>n shares assets. Ok (if shares = 0 \<or> assets = 0 then n else n * shares div assets)),
     bx_quote_withdrawal = (\<lambda>n shares assets. Ok (if shares = 0 then 0 else max 0 (n * assets div shares))),
     bx_sync_matured = (\<lambda>e s. Ok (0, s)),
     bx_apply_loss = (\<lambda>e i a s. case bk_state s of None \<Rightarrow> Err BkNotInitialized
       | Some st \<Rightarrow> let c = max 0 (min a (bs_total_capital st)) in
           Ok (c, s\<lparr>bk_state := Some (st\<lparr>bs_total_capital := bs_total_capital st - c\<rparr>)\<rparr>)),
     bx_credit_mature_premium = (\<lambda>e t a s. if a < 0 then Err BkInvalidAmount else Ok (a, s)),
     bx_transfer = ledger_transfer\<rparr>"

lemma bk_ext_helpers: "backstop_helpers bk_ext"
  unfolding backstop_helpers_def by (auto simp: bk_ext_def Let_def split: if_splits)

definition bk_env :: "nat \<Rightarrow> env" where
  "bk_env t = \<lparr>timestamp = t, ledger_seq = t, auth = (\<lambda>a. a \<noteq> 99), this = 99\<rparr>"

definition bk_txs :: "(env \<times> backstop_call) list" where
  "bk_txs = [(bk_env 10, BkInitialize 7 8 5 500), (bk_env 20, BkDeposit 1 1000), (bk_env 30, BkCoverShortfall 7 400)]"

definition bk_world :: ledger where
  "bk_world = (\<lambda>tok a. if a = 1 then 5000 else 0)"

lemma bk_txs_ok:
  "chronological 0 bk_txs" "(e, c) \<in> set bk_txs \<Longrightarrow> bk_admissible 99 e c" "0 \<le> ledger_balance bk_world tok 99"
  by (auto simp: bk_txs_def bk_env_def bk_world_def ledger_balance_def bk_admissible_def)

lemmas bk_eval = on_backstop_def backstop_initialize_def backstop_deposit_def deposit_tranche_def cover_shortfall_def
  withdraw_tranche_def backstop_withdraw_def
  bk_acquire_def bk_release_def bk_save_tranche_def bk_is_pending_loss_def new_lot_def u32_sat_add_def
  token_transfer_def ledger_transfer_def require_auth_def ok_or_def u64_add_def u64_max_def i128_add_def i128_sub_def
  i128_checked_def int_width_defs Let_def BPS_DENOM_def empty_backstop_state_def empty_tranche_state_def trunc_div_def

lemma bk_run:
  "\<exists>s w c. run_txs (backstop_exec bk_ext) bk_txs (backstop_undeployed, bk_world) = (s, w) \<and>
     bk_config s = Some c \<and> bc_token c = 5 \<and> bc_pool c = 7 \<and> capital_of s = 600 \<and> bk_state s \<noteq> None"
  by (simp add: bk_txs_def bk_env_def bk_world_def backstop_undeployed_def bk_ext_def capital_of_def bk_eval discard_def
      del: and_then_Ok_iff and_then_Err_iff and_then_Trap_iff on_backstop_iff)

section \<open>Properties\<close>

text \<open>C24. The capital the backstop records is backed: after any transactions on a new backstop, whose own
address never signs and is not its pool, and with a standard token, the recorded capital is not negative
and the contract holds at least that much of its token.\<close>

theorem backstop_capital_backed:
  assumes "backstop_helpers x" and "sep41_transfers (bx_transfer x) bal" and "chronological t txs"
    and "\<And>e c. (e, c) \<in> set txs \<Longrightarrow> bk_admissible B e c" and "\<And>tok. 0 \<le> bal w0 tok B"
    and "run_txs (backstop_exec x) txs (backstop_undeployed, w0) = (s, w)" and "bk_config s = Some c"
  shows "0 \<le> capital_of s \<and> capital_of s \<le> bal w (bc_token c) B"
proof -
  have "bk_backed bal B (backstop_undeployed, w0)"
    using assms(5) by (simp add: bk_backed_def backstop_undeployed_def)
  from timed_contract.run_inv [OF backstop_contract [OF assms(1,2)] this assms(3,4)] show ?thesis
    using assms(6,7) by (simp add: bk_backed_def)
qed

theorem backstop_capital_backed_witness:
  "\<exists>s w. run_txs (backstop_exec bk_ext) bk_txs (backstop_undeployed, bk_world) = (s, w) \<and>
     capital_of s = 600 \<and> 0 \<le> capital_of s \<and> capital_of s \<le> ledger_balance w 5 99"
proof -
  obtain s w c where run: "run_txs (backstop_exec bk_ext) bk_txs (backstop_undeployed, bk_world) = (s, w)"
    and c: "bk_config s = Some c" "bc_token c = 5" "capital_of s = 600" using bk_run by blast
  have "sep41_transfers (bx_transfer bk_ext) ledger_balance" using ledger_sep41 by (simp add: bk_ext_def)
  from backstop_capital_backed [OF bk_ext_helpers this bk_txs_ok(1,2,3) run c(1)] c run show ?thesis by auto
qed

text \<open>C25. Capital leaves the backstop in two ways only: if a transaction lowers the recorded capital, then
it is a withdrawal signed by the staker, who received exactly the difference, or it was signed by the
pool or the admin and the pool received exactly the difference.\<close>

theorem capital_leaves_authorized:
  assumes "backstop_helpers x" and "backstop_exec x e call (s, w) = Ok (u, (s', w'))"
    and "bk_config s = Some c" and "bk_state s \<noteq> None" and "0 \<le> capital_of s" and "in_i128 (capital_of s)"
    and "capital_of s' < capital_of s"
  shows "(\<exists>a t n. (call = BkWithdraw a n \<or> call = BkWithdrawTranche a t n) \<and> auth e a \<and>
      paid_tokens x w (bc_token c) (this e) a (capital_of s - capital_of s') w') \<or>
    (\<exists>a. (a = bc_pool c \<or> a = bc_admin c) \<and> auth e a \<and>
      paid_tokens x w (bc_token c) (this e) (bc_pool c) (capital_of s - capital_of s') w')"
proof -
  have same: "bk_state s' = bk_state s \<Longrightarrow> capital_of s' = capital_of s" by (rule capital_of_cong)
  have sat: "capital_of s \<le> saturating_add (capital_of s) (saturating_add k 0)" if "0 \<le> k" for k
    using that assms(5,6) by (auto simp: saturating_add_def i128_clamp_def int_width_defs)
  show ?thesis
  proof (cases call)
    case (BkInitialize p a t n)
    with assms(2,3) show ?thesis by (auto simp: backstop_initialize_def)
  next
    case (BkDeposit a n)
    with assms(2,7) show ?thesis by (auto simp: backstop_deposit_def dest: deposit_moves [OF assms(1)])
  next
    case (BkDepositTranche a t n)
    with assms(2,7) show ?thesis by (auto dest: deposit_moves [OF assms(1)])
  next
    case (BkRequestUnstake a n)
    with assms(2,7) same show ?thesis by (auto dest: quiet_calls(1) [OF assms(1)])
  next
    case (BkCancelUnstake a)
    with assms(2,7) same show ?thesis by (auto dest: quiet_calls(2) [OF assms(1)])
  next
    case (BkWithdraw a n)
    with assms(2,3) show ?thesis by (fastforce simp: backstop_withdraw_def dest: withdraw_moves [OF assms(1)])
  next
    case (BkWithdrawTranche a t n)
    with assms(2,3) show ?thesis by (fastforce dest: withdraw_moves [OF assms(1)])
  next
    case (BkDrawDown a i n)
    with assms(2,3) show ?thesis by (fastforce dest: draw_down_moves [OF assms(1)])
  next
    case (BkCoverShortfall a n)
    with assms(2,3) show ?thesis by (fastforce dest: cover_shortfall_moves [OF assms(1)])
  next
    case (BkAbsorbLoss a i n)
    with assms(2-4) show ?thesis by (fastforce dest: absorb_loss_moves [OF assms(1) _ assms(4)])
  next
    case (BkSetPendingLoss a b)
    with assms(2,7) same show ?thesis by (auto dest: quiet_calls(3) [OF assms(1)])
  next
    case (BkSetParameters a l n)
    with assms(2,7) same show ?thesis by (auto dest: quiet_calls(4) [OF assms(1)])
  next
    case BkSyncMatured
    with assms(2,7) same show ?thesis by (auto dest: quiet_calls(5) [OF assms(1)])
  next
    case (BkReceivePremium a n)
    then obtain k where "0 \<le> k" "capital_of s' = saturating_add (capital_of s) (saturating_add k 0)"
      using assms(2) by (auto dest: receive_premium_moves [OF assms(1)])
    with sat [of k] assms(7) show ?thesis by simp
  qed
qed

definition bk_example :: backstop where
  "bk_example = backstop_undeployed\<lparr>bk_config := Some \<lparr>bc_pool = 7, bc_admin = 8, bc_token = 5,
     bc_premium_share_bps = 500, bc_cooldown_secs = 604800\<rparr>,
     bk_state := Some (empty_backstop_state\<lparr>bs_total_capital := 1000, bs_total_shares := 1000\<rparr>)\<rparr>"

lemma bk_loss:
  "\<exists>s w. backstop_exec bk_ext (bk_env 30) (BkCoverShortfall 7 400) (bk_example, \<lambda>_ _. 1000) = Ok ((), (s, w)) \<and>
     capital_of s = 600 \<and> w 5 99 = 600"
  by (simp add: bk_env_def bk_example_def backstop_undeployed_def bk_ext_def capital_of_def bk_eval discard_def
      del: and_then_Ok_iff and_then_Err_iff and_then_Trap_iff discard_iff)

theorem capital_leaves_authorized_witness:
  "\<exists>s w. backstop_exec bk_ext (bk_env 30) (BkCoverShortfall 7 400) (bk_example, \<lambda>_ _. 1000) = Ok ((), (s, w)) \<and>
     (\<exists>a. (a = 7 \<or> a = 8) \<and> auth (bk_env 30) a \<and> paid_tokens bk_ext (\<lambda>_ _. 1000) 5 99 7 400 w)"
proof -
  obtain s w where run: "backstop_exec bk_ext (bk_env 30) (BkCoverShortfall 7 400) (bk_example, \<lambda>_ _. 1000) = Ok ((), (s, w))"
    and c: "capital_of s = 600" using bk_loss by blast
  have e: "bk_config bk_example = Some \<lparr>bc_pool = 7, bc_admin = 8, bc_token = 5, bc_premium_share_bps = 500, bc_cooldown_secs = 604800\<rparr>"
    "bk_state bk_example \<noteq> None" "capital_of bk_example = 1000"
    by (simp_all add: bk_example_def capital_of_def)
  from capital_leaves_authorized [OF bk_ext_helpers run e(1,2)] c e(3) run show ?thesis
    by (auto simp: int_width_defs bk_env_def)
qed

end
