(* ===== verification/Bounty.thy ===== *)
theory Bounty
  imports Math
begin

text \<open>
  The bounty escrow (\<open>src/bounty/src/lib.rs\<close>): funding, push awards, pull payouts, and awards against
  a commitment with a rotatable payout address.

  The source file ends in the middle of the views, so the private helpers are the fields of the parameter
  record \<open>bounty_ext\<close>: the readers (\<open>governance_addr\<close>, \<open>token_addr\<close>, \<open>raw_balance\<close>, \<open>raw_reserved\<close>,
  \<open>available_balance_inner\<close>, \<open>is_recipient_allowed_inner\<close>, \<open>is_address_frozen\<close>), the SHA-256 of a
  preimage (\<open>hash_preimage\<close>) and the token.  \<open>bump_persistent\<close> only extends time-to-live.  The named
  hypothesis \<open>bounty_views\<close> says that the readers return what is stored and that the available balance
  is the balance without the reserve.  The allowlist entry points are in the missing part.

  The state is the record \<open>bounty\<close>, one field per storage key; 32-byte values are opaque numbers.

  The lemmas show that the reserve is the sum of what is promised, never more than the balance and
  backed by tokens; that a pending payout can always be claimed; and what an expired binding does.
\<close>

section \<open>Data\<close>

definition DEFAULT_BINDING_TTL_SECS :: nat where "DEFAULT_BINDING_TTL_SECS = 30 * 24 * 60 * 60"

type_synonym bytes32 = nat

datatype bounty_screening = BoAllowed | BoBlocked

record award_record =
  aw_researcher :: address
  aw_amount :: int
  aw_report_hash :: bytes32
  aw_timestamp :: nat

datatype bounty_payout_status = BpPending | BpClaimed | BpSwept

record bounty_payout =
  bp_recipient :: address
  bp_token :: address
  bp_amount :: int
  bp_deadline :: nat
  bp_status :: bounty_payout_status

datatype commitment_award_status = CaAwarded | CaClaimed

record payout_binding =
  pb_owner :: address
  pb_payout_address :: address
  pb_registered_at :: nat
  pb_expires_at :: nat

record commitment_award =
  ca_report_hash :: bytes32
  ca_commitment :: bytes32
  ca_amount :: int
  ca_awarded_at :: nat
  ca_status :: commitment_award_status

datatype bounty_error =
    BoAlreadyInitialized | BoNotInitialized | BoInvalidAmount | BoInsufficientBalance | BoUnauthorized
  | BoDuplicateReport | BoPayoutNotFound | BoNotRecipient | BoPayoutAlreadySettled | BoDeadlineNotReached
  | BoInvalidDeadline | BoRecipientNotAllowed | BoCommitmentAlreadyUsed | BoBindingNotFound
  | BoBindingExpired | BoNotBindingOwner | BoInvalidPreimage | BoAddressFrozen | BoCommitmentMismatch

record bounty =
  bo_governance :: "address option"
  bo_token :: "address option"
  bo_balance :: "int option"
  bo_reserved :: "int option"
  bo_next_payout_id :: "nat option"
  bo_award :: "bytes32 \<rightharpoonup> award_record"
  bo_payout :: "nat \<rightharpoonup> bounty_payout"
  bo_recipient_status :: "address \<rightharpoonup> bounty_screening"
  bo_binding :: "bytes32 \<rightharpoonup> payout_binding"
  bo_disclosure :: "bytes32 \<rightharpoonup> bytes32"
  bo_commitment_award :: "bytes32 \<rightharpoonup> commitment_award"
  bo_used_commitment :: "bytes32 \<rightharpoonup> bool"
  bo_frozen :: "address \<rightharpoonup> bool"

definition bounty_undeployed :: bounty where
  "bounty_undeployed = \<lparr>bo_governance = None, bo_token = None, bo_balance = None, bo_reserved = None,
     bo_next_payout_id = None, bo_award = (\<lambda>_. None), bo_payout = (\<lambda>_. None), bo_recipient_status = (\<lambda>_. None),
     bo_binding = (\<lambda>_. None), bo_disclosure = (\<lambda>_. None), bo_commitment_award = (\<lambda>_. None),
     bo_used_commitment = (\<lambda>_. None), bo_frozen = (\<lambda>_. None)\<rparr>"

type_synonym 'a bounty_result = "(bounty_error, 'a) outcome"
type_synonym 'w bo_system = "bounty \<times> 'w"

record 'w bounty_ext =
  ox_governance_addr :: "bounty \<Rightarrow> address bounty_result"
  ox_token_addr :: "bounty \<Rightarrow> address bounty_result"
  ox_raw_balance :: "bounty \<Rightarrow> int bounty_result"
  ox_raw_reserved :: "bounty \<Rightarrow> int bounty_result"
  ox_available_balance :: "bounty \<Rightarrow> int bounty_result"
  ox_is_recipient_allowed :: "bounty \<Rightarrow> address \<Rightarrow> bool"
  ox_is_address_frozen :: "bounty \<Rightarrow> address \<Rightarrow> bool"
  ox_hash_preimage :: "bytes32 \<Rightarrow> bytes32"
  ox_transfer :: "'w transfer_fn"

section \<open>Governance and funding\<close>

definition bounty_initialize :: "address \<Rightarrow> address \<Rightarrow> bounty \<Rightarrow> (unit \<times> bounty) bounty_result" where
  "bounty_initialize governance token s =
     (if bo_governance s \<noteq> None then Err BoAlreadyInitialized
      else Ok ((), s\<lparr>bo_governance := Some governance, bo_token := Some token, bo_balance := Some 0,
             bo_reserved := Some 0, bo_next_payout_id := Some 0\<rparr>))"

definition bounty_set_governance :: "'w bounty_ext \<Rightarrow> env \<Rightarrow> address \<Rightarrow> address \<Rightarrow> bounty \<Rightarrow> (unit \<times> bounty) bounty_result" where
  "bounty_set_governance x e caller new_governance s =
     and_then (require_auth e caller) (\<lambda>_.
     and_then (ox_governance_addr x s) (\<lambda>governance.
     if caller \<noteq> governance then Err BoUnauthorized
     else Ok ((), s\<lparr>bo_governance := Some new_governance\<rparr>)))"

definition bounty_fund :: "'w bounty_ext \<Rightarrow> env \<Rightarrow> address \<Rightarrow> int \<Rightarrow> 'w bo_system \<Rightarrow> (unit \<times> 'w bo_system) bounty_result" where
  "bounty_fund x e from amount sw =
     (let s = fst sw; w = snd sw in
      and_then (require_auth e from) (\<lambda>_.
      if amount \<le> 0 then Err BoInvalidAmount
      else
        and_then (ox_token_addr x s) (\<lambda>token.
        and_then (ox_raw_balance x s) (\<lambda>balance.
        and_then (map_err BoInvalidAmount (math_checked_add balance amount)) (\<lambda>new_balance.
        and_then (token_transfer (ox_transfer x) w token from (this e) amount) (\<lambda>w.
        Ok ((), (s\<lparr>bo_balance := Some new_balance\<rparr>, w))))))))"

section \<open>Push awards\<close>

definition bounty_award ::
  "'w bounty_ext \<Rightarrow> env \<Rightarrow> address \<Rightarrow> address \<Rightarrow> int \<Rightarrow> bytes32 \<Rightarrow> 'w bo_system \<Rightarrow> (unit \<times> 'w bo_system) bounty_result" where
  "bounty_award x e caller researcher amount report_hash sw =
     (let s = fst sw; w = snd sw in
      and_then (require_auth e caller) (\<lambda>_.
      and_then (ox_governance_addr x s) (\<lambda>governance.
      if caller \<noteq> governance then Err BoUnauthorized
      else if amount \<le> 0 then Err BoInvalidAmount
      else if bo_award s report_hash \<noteq> None then Err BoDuplicateReport
      else if \<not> ox_is_recipient_allowed x s researcher then Err BoRecipientNotAllowed
      else
        and_then (ox_available_balance x s) (\<lambda>available.
        if available < amount then Err BoInsufficientBalance
        else
          and_then (ox_raw_balance x s) (\<lambda>balance.
          and_then (map_err BoInsufficientBalance (math_checked_sub balance amount)) (\<lambda>new_balance.
          and_then (ox_token_addr x s) (\<lambda>token.
          and_then (token_transfer (ox_transfer x) w token (this e) researcher amount) (\<lambda>w.
          let record = \<lparr>aw_researcher = researcher, aw_amount = amount, aw_report_hash = report_hash,
                aw_timestamp = timestamp e\<rparr>
          in Ok ((), (s\<lparr>bo_balance := Some new_balance, bo_award := (bo_award s)(report_hash \<mapsto> record)\<rparr>, w))))))))))"

section \<open>Pull payouts\<close>

definition create_payout ::
  "'w bounty_ext \<Rightarrow> env \<Rightarrow> address \<Rightarrow> address \<Rightarrow> int \<Rightarrow> nat \<Rightarrow> bounty \<Rightarrow> (nat \<times> bounty) bounty_result" where
  "create_payout x e caller recipient amount deadline s =
     and_then (require_auth e caller) (\<lambda>_.
     and_then (ox_governance_addr x s) (\<lambda>governance.
     if caller \<noteq> governance then Err BoUnauthorized
     else if amount \<le> 0 then Err BoInvalidAmount
     else if deadline \<le> timestamp e then Err BoInvalidDeadline
     else if \<not> ox_is_recipient_allowed x s recipient then Err BoRecipientNotAllowed
     else
       and_then (ox_available_balance x s) (\<lambda>available.
       if available < amount then Err BoInsufficientBalance
       else
         and_then (ox_raw_reserved x s) (\<lambda>reserved.
         and_then (map_err BoInvalidAmount (math_checked_add reserved amount)) (\<lambda>new_reserved.
         let s = s\<lparr>bo_reserved := Some new_reserved\<rparr>; i = unwrap_or (bo_next_payout_id s) 0 in
         and_then (u64_add i 1) (\<lambda>next.
         let s = s\<lparr>bo_next_payout_id := Some next\<rparr> in
         and_then (ox_token_addr x s) (\<lambda>token.
         let p = \<lparr>bp_recipient = recipient, bp_token = token, bp_amount = amount, bp_deadline = deadline,
               bp_status = BpPending\<rparr>
         in Ok (i, s\<lparr>bo_payout := (bo_payout s)(i \<mapsto> p)\<rparr>))))))))"

text \<open>Releasing a reservation and taking it off the balance, as \<open>claim\<close> and \<open>sweep_expired\<close> do.\<close>

definition settle_payout :: "'w bounty_ext \<Rightarrow> nat \<Rightarrow> bounty_payout \<Rightarrow> bounty \<Rightarrow> bounty bounty_result" where
  "settle_payout x i p s =
     (let s = s\<lparr>bo_payout := (bo_payout s)(i \<mapsto> p)\<rparr> in
      and_then (ox_raw_reserved x s) (\<lambda>reserved.
      and_then (map_err BoInsufficientBalance (math_checked_sub reserved (bp_amount p))) (\<lambda>new_reserved.
      let s = s\<lparr>bo_reserved := Some new_reserved\<rparr> in
      and_then (ox_raw_balance x s) (\<lambda>balance.
      and_then (map_err BoInsufficientBalance (math_checked_sub balance (bp_amount p))) (\<lambda>new_balance.
      Ok (s\<lparr>bo_balance := Some new_balance\<rparr>))))))"

definition bounty_claim ::
  "'w bounty_ext \<Rightarrow> env \<Rightarrow> address \<Rightarrow> nat \<Rightarrow> 'w bo_system \<Rightarrow> (int \<times> 'w bo_system) bounty_result" where
  "bounty_claim x e recipient i sw =
     (let s = fst sw; w = snd sw in
      and_then (require_auth e recipient) (\<lambda>_.
      and_then (ok_or (bo_payout s i) BoPayoutNotFound) (\<lambda>p.
      if bp_recipient p \<noteq> recipient then Err BoNotRecipient
      else if bp_status p \<noteq> BpPending then Err BoPayoutAlreadySettled
      else
        and_then (settle_payout x i (p\<lparr>bp_status := BpClaimed\<rparr>) s) (\<lambda>s.
        and_then (token_transfer (ox_transfer x) w (bp_token p) (this e) recipient (bp_amount p)) (\<lambda>w.
        Ok (bp_amount p, (s, w)))))))"

definition sweep_expired ::
  "'w bounty_ext \<Rightarrow> env \<Rightarrow> nat \<Rightarrow> 'w bo_system \<Rightarrow> (int \<times> 'w bo_system) bounty_result" where
  "sweep_expired x e i sw =
     (let s = fst sw; w = snd sw in
      and_then (ok_or (bo_payout s i) BoPayoutNotFound) (\<lambda>p.
      if timestamp e < bp_deadline p then Err BoDeadlineNotReached
      else if bp_status p \<noteq> BpPending then Err BoPayoutAlreadySettled
      else
        and_then (ox_governance_addr x s) (\<lambda>governance.
        and_then (settle_payout x i (p\<lparr>bp_status := BpSwept\<rparr>) s) (\<lambda>s.
        and_then (token_transfer (ox_transfer x) w (bp_token p) (this e) governance (bp_amount p)) (\<lambda>w.
        Ok (bp_amount p, (s, w)))))))"

section \<open>Commitments\<close>

definition compute_commitment :: "'w bounty_ext \<Rightarrow> bytes32 \<Rightarrow> bytes32" where
  "compute_commitment x preimage = ox_hash_preimage x preimage"

definition submit_disclosure ::
  "'w bounty_ext \<Rightarrow> env \<Rightarrow> address \<Rightarrow> bytes32 \<Rightarrow> bytes32 \<Rightarrow> bounty \<Rightarrow> (unit \<times> bounty) bounty_result" where
  "submit_disclosure x e submitter report_hash commitment s =
     and_then (require_auth e submitter) (\<lambda>_.
     and_then (ox_governance_addr x s) (\<lambda>_.
     if bo_disclosure s report_hash \<noteq> None \<or> bo_award s report_hash \<noteq> None then Err BoDuplicateReport
     else if bo_used_commitment s commitment \<noteq> None then Err BoCommitmentAlreadyUsed
     else Ok ((), s\<lparr>bo_disclosure := (bo_disclosure s)(report_hash \<mapsto> commitment),
            bo_used_commitment := (bo_used_commitment s)(commitment \<mapsto> True)\<rparr>)))"

definition register_payout_address ::
  "'w bounty_ext \<Rightarrow> env \<Rightarrow> address \<Rightarrow> bytes32 \<Rightarrow> address \<Rightarrow> bounty \<Rightarrow> (bytes32 \<times> bounty) bounty_result" where
  "register_payout_address x e owner preimage payout_address s =
     and_then (require_auth e owner) (\<lambda>_.
     and_then (ox_governance_addr x s) (\<lambda>_.
     if ox_is_address_frozen x s payout_address then Err BoAddressFrozen
     else
       let commitment = ox_hash_preimage x preimage in
       if bo_binding s commitment \<noteq> None then Err BoCommitmentAlreadyUsed
       else
         let now = timestamp e;
             b = \<lparr>pb_owner = owner, pb_payout_address = payout_address, pb_registered_at = now,
                  pb_expires_at = u64_sat_add now DEFAULT_BINDING_TTL_SECS\<rparr>
         in Ok (commitment, s\<lparr>bo_binding := (bo_binding s)(commitment \<mapsto> b)\<rparr>)))"

definition rotate_payout_address ::
  "'w bounty_ext \<Rightarrow> env \<Rightarrow> address \<Rightarrow> bytes32 \<Rightarrow> address \<Rightarrow> bounty \<Rightarrow> (unit \<times> bounty) bounty_result" where
  "rotate_payout_address x e owner preimage new_payout_address s =
     and_then (require_auth e owner) (\<lambda>_.
     and_then (ox_governance_addr x s) (\<lambda>_.
     if ox_is_address_frozen x s new_payout_address then Err BoAddressFrozen
     else
       let commitment = ox_hash_preimage x preimage in
       and_then (ok_or (bo_binding s commitment) BoBindingNotFound) (\<lambda>b.
       let now = timestamp e in
       if pb_expires_at b < now then Err BoBindingExpired
       else if pb_owner b \<noteq> owner then Err BoNotBindingOwner
       else if (case bo_commitment_award s commitment of None \<Rightarrow> False | Some a \<Rightarrow> ca_status a \<noteq> CaAwarded)
       then Err BoPayoutAlreadySettled
       else
         let b = b\<lparr>pb_payout_address := new_payout_address, pb_registered_at := now,
               pb_expires_at := u64_sat_add now DEFAULT_BINDING_TTL_SECS\<rparr>
         in Ok ((), s\<lparr>bo_binding := (bo_binding s)(commitment \<mapsto> b)\<rparr>))))"

definition award_commitment ::
  "'w bounty_ext \<Rightarrow> env \<Rightarrow> address \<Rightarrow> bytes32 \<Rightarrow> bytes32 \<Rightarrow> int \<Rightarrow> bounty \<Rightarrow> (unit \<times> bounty) bounty_result" where
  "award_commitment x e caller report_hash commitment amount s =
     and_then (require_auth e caller) (\<lambda>_.
     and_then (ox_governance_addr x s) (\<lambda>governance.
     if caller \<noteq> governance then Err BoUnauthorized
     else if amount \<le> 0 then Err BoInvalidAmount
     else if bo_award s report_hash \<noteq> None then Err BoDuplicateReport
     else if bo_commitment_award s commitment \<noteq> None then Err BoDuplicateReport
     else
       and_then (case bo_disclosure s report_hash of
           Some recorded \<Rightarrow> if recorded \<noteq> commitment then Err BoCommitmentMismatch else Ok s
         | None \<Rightarrow>
             if bo_used_commitment s commitment \<noteq> None then Err BoCommitmentAlreadyUsed
             else Ok (s\<lparr>bo_disclosure := (bo_disclosure s)(report_hash \<mapsto> commitment),
                    bo_used_commitment := (bo_used_commitment s)(commitment \<mapsto> True)\<rparr>)) (\<lambda>s.
       and_then (ox_available_balance x s) (\<lambda>available.
       if available < amount then Err BoInsufficientBalance
       else
         and_then (ox_raw_reserved x s) (\<lambda>reserved.
         and_then (i128_add reserved amount) (\<lambda>new_reserved.
         let a = \<lparr>ca_report_hash = report_hash, ca_commitment = commitment, ca_amount = amount,
               ca_awarded_at = timestamp e, ca_status = CaAwarded\<rparr>
         in Ok ((), s\<lparr>bo_reserved := Some new_reserved,
              bo_commitment_award := (bo_commitment_award s)(commitment \<mapsto> a)\<rparr>)))))))"

definition claim_by_commitment ::
  "'w bounty_ext \<Rightarrow> env \<Rightarrow> address \<Rightarrow> bytes32 \<Rightarrow> 'w bo_system \<Rightarrow> (int \<times> 'w bo_system) bounty_result" where
  "claim_by_commitment x e caller preimage sw =
     (let s = fst sw; w = snd sw in
      and_then (require_auth e caller) (\<lambda>_.
      and_then (ox_governance_addr x s) (\<lambda>_.
      let commitment = ox_hash_preimage x preimage in
      and_then (ok_or (bo_commitment_award s commitment) BoInvalidPreimage) (\<lambda>a.
      if ca_status a \<noteq> CaAwarded then Err BoPayoutAlreadySettled
      else
        and_then (ok_or (bo_binding s commitment) BoBindingNotFound) (\<lambda>b.
        let now = timestamp e in
        if pb_expires_at b < now then Err BoBindingExpired
        else if caller \<noteq> pb_owner b \<and> caller \<noteq> pb_payout_address b then Err BoUnauthorized
        else if ox_is_address_frozen x s (pb_payout_address b) then Err BoAddressFrozen
        else
          let amount = ca_amount a;
              s = s\<lparr>bo_commitment_award := (bo_commitment_award s)(commitment \<mapsto> a\<lparr>ca_status := CaClaimed\<rparr>)\<rparr> in
          and_then (ox_raw_reserved x s) (\<lambda>reserved.
          and_then (i128_sub reserved amount) (\<lambda>new_reserved.
          let s = s\<lparr>bo_reserved := Some new_reserved\<rparr> in
          and_then (ox_raw_balance x s) (\<lambda>balance.
          and_then (i128_sub balance amount) (\<lambda>new_balance.
          let s = s\<lparr>bo_balance := Some new_balance\<rparr>;
              settled = \<lparr>aw_researcher = pb_payout_address b, aw_amount = amount,
                aw_report_hash = ca_report_hash a, aw_timestamp = now\<rparr>;
              s = s\<lparr>bo_award := (bo_award s)(ca_report_hash a \<mapsto> settled)\<rparr> in
          and_then (ox_token_addr x s) (\<lambda>token.
          and_then (token_transfer (ox_transfer x) w token (this e) (pb_payout_address b) amount) (\<lambda>w.
          Ok (amount, (s, w)))))))))))))"

definition freeze_payout_address ::
  "'w bounty_ext \<Rightarrow> env \<Rightarrow> address \<Rightarrow> address \<Rightarrow> bool \<Rightarrow> bounty \<Rightarrow> (unit \<times> bounty) bounty_result" where
  "freeze_payout_address x e caller addr frozen s =
     and_then (require_auth e caller) (\<lambda>_.
     and_then (ox_governance_addr x s) (\<lambda>governance.
     if caller \<noteq> governance then Err BoUnauthorized
     else Ok ((), s\<lparr>bo_frozen := (bo_frozen s)(addr \<mapsto> frozen)\<rparr>)))"

section \<open>Views\<close>

definition bounty_balance :: "'w bounty_ext \<Rightarrow> bounty \<Rightarrow> int bounty_result" where
  "bounty_balance x s = ox_raw_balance x s"

definition bounty_available_balance :: "'w bounty_ext \<Rightarrow> bounty \<Rightarrow> int bounty_result" where
  "bounty_available_balance x s = ox_available_balance x s"

definition bounty_governance :: "'w bounty_ext \<Rightarrow> bounty \<Rightarrow> address bounty_result" where
  "bounty_governance x s = ox_governance_addr x s"

section \<open>Transactions\<close>

datatype bounty_call =
    BoInitialize address address | BoSetGovernance address address | BoFund address int
  | BoAward address address int bytes32 | BoCreatePayout address address int nat | BoClaim address nat
  | BoSweepExpired nat | BoSubmitDisclosure address bytes32 bytes32 | BoRegister address bytes32 address
  | BoRotate address bytes32 address | BoAwardCommitment address bytes32 bytes32 int
  | BoClaimByCommitment address bytes32 | BoFreeze address address bool

definition on_bounty :: "(bounty \<Rightarrow> ('a \<times> bounty) bounty_result) \<Rightarrow> 'w bo_system \<Rightarrow> (unit \<times> 'w bo_system) bounty_result" where
  "on_bounty f sw = and_then (f (fst sw)) (\<lambda>(_, s). Ok ((), (s, snd sw)))"

fun bounty_exec :: "'w bounty_ext \<Rightarrow> env \<Rightarrow> bounty_call \<Rightarrow> 'w bo_system \<Rightarrow> (unit \<times> 'w bo_system) bounty_result" where
  "bounty_exec x e (BoInitialize g t) sw = on_bounty (bounty_initialize g t) sw"
| "bounty_exec x e (BoSetGovernance a g) sw = on_bounty (bounty_set_governance x e a g) sw"
| "bounty_exec x e (BoFund a n) sw = bounty_fund x e a n sw"
| "bounty_exec x e (BoAward a r n h) sw = bounty_award x e a r n h sw"
| "bounty_exec x e (BoCreatePayout a r n d) sw = on_bounty (create_payout x e a r n d) sw"
| "bounty_exec x e (BoClaim a i) sw = discard (bounty_claim x e a i sw)"
| "bounty_exec x e (BoSweepExpired i) sw = discard (sweep_expired x e i sw)"
| "bounty_exec x e (BoSubmitDisclosure a h k) sw = on_bounty (submit_disclosure x e a h k) sw"
| "bounty_exec x e (BoRegister a p b) sw = on_bounty (register_payout_address x e a p b) sw"
| "bounty_exec x e (BoRotate a p b) sw = on_bounty (rotate_payout_address x e a p b) sw"
| "bounty_exec x e (BoAwardCommitment a h k n) sw = on_bounty (award_commitment x e a h k n) sw"
| "bounty_exec x e (BoClaimByCommitment a p) sw = discard (claim_by_commitment x e a p sw)"
| "bounty_exec x e (BoFreeze a b f) sw = on_bounty (freeze_payout_address x e a b f) sw"

section \<open>What the readers promise\<close>

definition bounty_views :: "'w bounty_ext \<Rightarrow> bool" where
  "bounty_views x \<longleftrightarrow>
     (\<forall>s g. ox_governance_addr x s = Ok g \<longrightarrow> bo_governance s = Some g) \<and>
     (\<forall>s t. ox_token_addr x s = Ok t \<longleftrightarrow> bo_token s = Some t) \<and>
     (\<forall>s b. ox_raw_balance x s = Ok b \<longleftrightarrow> bo_balance s = Some b) \<and>
     (\<forall>s r. ox_raw_reserved x s = Ok r \<longleftrightarrow> bo_reserved s = Some r) \<and>
     (\<forall>s a. ox_available_balance x s = Ok a \<longrightarrow>
        (\<exists>b r. bo_balance s = Some b \<and> bo_reserved s = Some r \<and> a = b - r))"

lemma viewsD:
  assumes "bounty_views x"
  shows "ox_governance_addr x s = Ok g \<Longrightarrow> bo_governance s = Some g"
    and "ox_token_addr x s = Ok t \<longleftrightarrow> bo_token s = Some t"
    and "ox_raw_balance x s = Ok b \<longleftrightarrow> bo_balance s = Some b"
    and "ox_raw_reserved x s = Ok r \<longleftrightarrow> bo_reserved s = Some r"
    and "ox_available_balance x s = Ok a \<Longrightarrow> \<exists>b r. bo_balance s = Some b \<and> bo_reserved s = Some r \<and> a = b - r"
  using assms by (auto simp: bounty_views_def)

lemma on_bounty_iff [simp]:
  "on_bounty f sw = Ok (u, sw') \<longleftrightarrow> (\<exists>a. f (fst sw) = Ok (a, fst sw') \<and> snd sw' = snd sw)"
  by (cases sw') (auto simp: on_bounty_def)

section \<open>The books\<close>

definition pending_amount :: "bounty_payout \<Rightarrow> int" where
  "pending_amount p = (if bp_status p = BpPending then bp_amount p else 0)"

definition awarded_amount :: "commitment_award \<Rightarrow> int" where
  "awarded_amount a = (if ca_status a = CaAwarded then ca_amount a else 0)"

definition promised :: "bounty \<Rightarrow> int" where
  "promised s = sum_over pending_amount (bo_payout s) + sum_over awarded_amount (bo_commitment_award s)"

definition bounty_wf :: "bounty \<Rightarrow> bool" where
  "bounty_wf s \<longleftrightarrow> finite (dom (bo_payout s)) \<and> finite (dom (bo_commitment_award s)) \<and>
     (\<forall>p\<in>ran (bo_payout s). 0 \<le> bp_amount p \<and> bo_token s = Some (bp_token p)) \<and>
     (\<forall>a\<in>ran (bo_commitment_award s). 0 \<le> ca_amount a) \<and>
     (case bo_token s of
        None \<Rightarrow> bo_governance s = None \<and> dom (bo_payout s) = {} \<and> dom (bo_commitment_award s) = {} \<and>
          bo_balance s = None \<and> bo_reserved s = None
      | Some _ \<Rightarrow> bo_governance s \<noteq> None \<and> (\<exists>b n. bo_balance s = Some b \<and> bo_reserved s = Some (promised s) \<and>
          promised s \<le> b \<and> bo_next_payout_id s = Some n \<and> dom (bo_payout s) \<subseteq> {..<n}))"

text \<open>The tokens behind the balance.\<close>

definition bounty_funded :: "('w \<Rightarrow> address \<Rightarrow> address \<Rightarrow> int) \<Rightarrow> address \<Rightarrow> 'w bo_system \<Rightarrow> bool" where
  "bounty_funded bal B sw \<longleftrightarrow> (case bo_token (fst sw) of
     None \<Rightarrow> \<forall>tok. 0 \<le> bal (snd sw) tok B
   | Some tok \<Rightarrow> (\<exists>b. bo_balance (fst sw) = Some b \<and> b \<le> bal (snd sw) tok B))"

lemma promised_nonneg: "bounty_wf s \<Longrightarrow> 0 \<le> promised s"
  unfolding promised_def
  by (intro add_nonneg_nonneg sum_over_nonneg) (auto simp: bounty_wf_def pending_amount_def awarded_amount_def)

lemma promised_ge:
  assumes "bounty_wf s"
  shows "bo_payout s i = Some p \<Longrightarrow> pending_amount p \<le> promised s"
    and "bo_commitment_award s k = Some a \<Longrightarrow> awarded_amount a \<le> promised s"
proof -
  let ?p = "sum_over pending_amount (bo_payout s)" and ?a = "sum_over awarded_amount (bo_commitment_award s)"
  have fin: "finite (dom (bo_payout s))" "finite (dom (bo_commitment_award s))" using assms by (simp_all add: bounty_wf_def)
  have pos: "\<forall>v\<in>ran (bo_payout s). 0 \<le> pending_amount v" "\<forall>v\<in>ran (bo_commitment_award s). 0 \<le> awarded_amount v"
    using assms by (auto simp: bounty_wf_def pending_amount_def awarded_amount_def)
  have "0 \<le> ?p" "0 \<le> ?a" by (rule sum_over_nonneg [OF pos(1)], rule sum_over_nonneg [OF pos(2)])
  with sum_over_ge [OF fin(1) pos(1)] sum_over_ge [OF fin(2) pos(2)]
  show "bo_payout s i = Some p \<Longrightarrow> pending_amount p \<le> promised s"
    "bo_commitment_award s k = Some a \<Longrightarrow> awarded_amount a \<le> promised s"
    by (fastforce simp: promised_def)+
qed

lemma wf_quiet:
  assumes "bounty_wf s" and "bo_payout s' = bo_payout s" and "bo_commitment_award s' = bo_commitment_award s"
    and "bo_token s' = bo_token s" and "bo_balance s' = bo_balance s" and "bo_reserved s' = bo_reserved s"
    and "bo_next_payout_id s' = bo_next_payout_id s" and "bo_governance s' = None \<longleftrightarrow> bo_governance s = None"
  shows "bounty_wf s'"
  using assms by (simp add: bounty_wf_def promised_def split: option.splits)

lemma wf_balance:
  assumes "bounty_wf s" and "bo_token s \<noteq> None" and "promised s \<le> b" and "s' = s\<lparr>bo_balance := Some b, bo_award := aw\<rparr>"
  shows "bounty_wf s'"
  using assms by (auto simp: bounty_wf_def promised_def split: option.splits)

lemma initialize_wf:
  assumes "bounty_initialize g t s = Ok (u, s')" and "bounty_wf s"
  shows "bounty_wf s'"
proof -
  have "bo_token s = None" using assms by (auto simp: bounty_initialize_def bounty_wf_def split: if_splits option.splits)
  then have "bo_payout s = Map.empty" "bo_commitment_award s = Map.empty"
    using assms(2) by (auto simp: bounty_wf_def)
  with assms(1) show ?thesis
    by (auto simp: bounty_initialize_def bounty_wf_def promised_def sum_over_def split: if_splits)
qed

lemma fund_wf:
  assumes "bounty_views x" and "bounty_wf s" and "bounty_fund x e a n (s, w) = Ok (u, (s', w'))"
  shows "bounty_wf s' \<and> (\<exists>tok b. bo_token s = Some tok \<and> bo_token s' = Some tok \<and> bo_balance s = Some b \<and>
    bo_balance s' = Some (b + n) \<and> auth e a \<and> ox_transfer x w tok a (this e) n = Some w')"
proof -
  from assms(3) obtain tok b where f: "bo_token s = Some tok" "bo_balance s = Some b" "auth e a" "0 < n"
    "s' = s\<lparr>bo_balance := Some (b + n)\<rparr>" "ox_transfer x w tok a (this e) n = Some w'"
    by (auto simp: bounty_fund_def Let_def math_checked_add_def viewsD [OF assms(1)] split: if_splits)
  have "bounty_wf s'" using assms(2) f by (auto simp: bounty_wf_def promised_def)
  with f show ?thesis by simp
qed

lemma award_wf:
  assumes "bounty_views x" and "bounty_wf s" and "bounty_award x e a r n h (s, w) = Ok (u, (s', w'))"
  shows "bounty_wf s' \<and> (\<exists>tok b. bo_token s = Some tok \<and> bo_token s' = Some tok \<and> bo_balance s = Some b \<and>
    bo_balance s' = Some (b - n) \<and> ox_transfer x w tok (this e) r n = Some w')"
proof -
  from assms(3) obtain tok b k rc where f: "bo_token s = Some tok" "bo_balance s = Some b" "bo_reserved s = Some k" "n \<le> b - k"
    "s' = s\<lparr>bo_balance := Some (b - n), bo_award := (bo_award s)(h \<mapsto> rc)\<rparr>" "ox_transfer x w tok (this e) r n = Some w'"
    by (auto simp: bounty_award_def Let_def math_checked_sub_def viewsD(2-4) [OF assms(1)] dest!: viewsD(5) [OF assms(1)]
        split: if_splits)
  have "bounty_wf s'" using assms(2) f by (auto simp: bounty_wf_def promised_def)
  with f show ?thesis by simp
qed

lemma wf_stored:
  assumes "bounty_wf s" and "bo_token s = Some tok"
  obtains b n where "bo_balance s = Some b" "bo_reserved s = Some (promised s)" "promised s \<le> b"
    "bo_next_payout_id s = Some n" "dom (bo_payout s) \<subseteq> {..<n}"
  using assms by (auto simp: bounty_wf_def)

lemma wf_deployed: "bounty_wf s \<Longrightarrow> bo_reserved s = Some r \<or> bo_payout s i = Some p \<or> bo_commitment_award s k = Some a \<Longrightarrow> bo_token s \<noteq> None"
  by (auto simp: bounty_wf_def split: option.splits)

lemma create_payout_wf:
  assumes v: "bounty_views x" and wf: "bounty_wf s" and ex: "create_payout x e a r n d s = Ok (i, s')"
  shows "bounty_wf s' \<and> bo_token s' = bo_token s \<and> bo_balance s' = bo_balance s"
proof -
  from ex obtain tok b k nxt p where f: "bo_token s = Some tok" "bo_balance s = Some b" "bo_reserved s = Some k" "n \<le> b - k"
    "0 < n" "i = unwrap_or (bo_next_payout_id s) 0" "p = \<lparr>bp_recipient = r, bp_token = tok, bp_amount = n, bp_deadline = d, bp_status = BpPending\<rparr>"
    "s' = s\<lparr>bo_reserved := Some (k + n), bo_next_payout_id := Some (i + 1), bo_payout := (bo_payout s)(i \<mapsto> p)\<rparr>"
    by (auto simp: create_payout_def Let_def math_checked_add_def viewsD(2-4) [OF v] dest!: viewsD(5) [OF v] split: if_splits)
  from wf_stored [OF wf f(1)] obtain m where m: "k = promised s" "bo_next_payout_id s = Some m" "dom (bo_payout s) \<subseteq> {..<m}"
    using f(3) by auto
  then have i: "i = m" "bo_payout s i = None" using f(6) by auto
  have fin: "finite (dom (bo_payout s))" using wf by (simp add: bounty_wf_def)
  have "promised s' = promised s + n"
    using f(7,8) i by (simp add: promised_def sum_over_upd [OF fin] pending_amount_def)
  then show ?thesis using wf f m i
    by (auto simp: bounty_wf_def ran_def)
qed

lemma settle_payout_wf:
  assumes v: "bounty_views x" and wf: "bounty_wf s" and p: "bo_payout s i = Some p" "bp_status p = BpPending"
    and st: "st \<noteq> BpPending" and ex: "settle_payout x i (p\<lparr>bp_status := st\<rparr>) s = Ok s'"
  shows "bounty_wf s' \<and> bo_token s' = bo_token s \<and> bo_token s = Some (bp_token p) \<and>
    (\<exists>b. bo_balance s = Some b \<and> bo_balance s' = Some (b - bp_amount p))"
proof -
  from ex obtain b k where f: "bo_balance s = Some b" "bo_reserved s = Some k"
    "s' = s\<lparr>bo_payout := (bo_payout s)(i \<mapsto> p\<lparr>bp_status := st\<rparr>), bo_reserved := Some (k - bp_amount p),
       bo_balance := Some (b - bp_amount p)\<rparr>"
    by (auto simp: settle_payout_def Let_def math_checked_sub_def viewsD(2-4) [OF v] split: if_splits)
  have tok: "bo_token s = Some (bp_token p)" "0 \<le> bp_amount p" using wf p(1) by (auto simp: bounty_wf_def ran_def)
  from wf_stored [OF wf tok(1)] obtain m where m: "k = promised s" "promised s \<le> b" "bo_next_payout_id s = Some m"
    "dom (bo_payout s) \<subseteq> {..<m}" using f(1,2) by auto
  have fin: "finite (dom (bo_payout s))" using wf by (simp add: bounty_wf_def)
  have "promised s' = promised s - bp_amount p"
    using f(3) p st by (simp add: promised_def sum_over_upd [OF fin] pending_amount_def)
  then show ?thesis using wf f m p tok
    by (auto simp: bounty_wf_def ran_def)
qed

lemma claim_wf:
  assumes v: "bounty_views x" and wf: "bounty_wf s" and ex: "bounty_claim x e a i (s, w) = Ok (r, (s', w'))"
  shows "bounty_wf s' \<and> (\<exists>tok b. bo_token s = Some tok \<and> bo_token s' = Some tok \<and> bo_balance s = Some b \<and>
    bo_balance s' = Some (b - r) \<and> ox_transfer x w tok (this e) a r = Some w')"
proof -
  from ex obtain p where p: "bo_payout s i = Some p" "bp_status p = BpPending" "r = bp_amount p"
    "settle_payout x i (p\<lparr>bp_status := BpClaimed\<rparr>) s = Ok s'" "ox_transfer x w (bp_token p) (this e) a r = Some w'"
    by (auto simp: bounty_claim_def Let_def split: if_splits)
  from settle_payout_wf [OF v wf p(1,2) _ p(4)] p(3,5) show ?thesis by auto
qed

lemma sweep_wf:
  assumes v: "bounty_views x" and wf: "bounty_wf s" and ex: "sweep_expired x e i (s, w) = Ok (r, (s', w'))"
  shows "bounty_wf s' \<and> (\<exists>tok b a. bo_token s = Some tok \<and> bo_token s' = Some tok \<and> bo_balance s = Some b \<and>
    bo_balance s' = Some (b - r) \<and> ox_transfer x w tok (this e) a r = Some w')"
proof -
  from ex obtain p g where p: "bo_payout s i = Some p" "bp_status p = BpPending" "r = bp_amount p"
    "settle_payout x i (p\<lparr>bp_status := BpSwept\<rparr>) s = Ok s'" "ox_transfer x w (bp_token p) (this e) g r = Some w'"
    by (auto simp: sweep_expired_def Let_def split: if_splits)
  from settle_payout_wf [OF v wf p(1,2) _ p(4)] p(3,5) show ?thesis by auto
qed

lemma award_commitment_wf:
  assumes v: "bounty_views x" and wf: "bounty_wf s" and ex: "award_commitment x e a h k n s = Ok (u, s')"
  shows "bounty_wf s' \<and> bo_token s' = bo_token s \<and> bo_balance s' = bo_balance s"
proof -
  from ex obtain b c di us aw where f: "bo_balance s = Some b" "bo_reserved s = Some c" "n \<le> b - c" "0 < n"
    "bo_commitment_award s k = None" "ca_amount aw = n" "ca_status aw = CaAwarded"
    "s' = s\<lparr>bo_disclosure := di, bo_used_commitment := us, bo_reserved := Some (c + n),
       bo_commitment_award := (bo_commitment_award s)(k \<mapsto> aw)\<rparr>"
  proof -
    from ex obtain s1 where s1: "(case bo_disclosure s h of
           Some recorded \<Rightarrow> if recorded \<noteq> k then Err BoCommitmentMismatch else Ok s
         | None \<Rightarrow>
             if bo_used_commitment s k \<noteq> None then Err BoCommitmentAlreadyUsed
             else Ok (s\<lparr>bo_disclosure := (bo_disclosure s)(h \<mapsto> k),
                    bo_used_commitment := (bo_used_commitment s)(k \<mapsto> True)\<rparr>)) = (Ok s1 :: bounty bounty_result)"
      and g: "0 < n" "bo_commitment_award s k = None"
      and rest: "\<exists>b c. bo_balance s1 = Some b \<and> bo_reserved s1 = Some c \<and> n \<le> b - c \<and>
        s' = s1\<lparr>bo_reserved := Some (c + n), bo_commitment_award := (bo_commitment_award s1)(k \<mapsto>
          \<lparr>ca_report_hash = h, ca_commitment = k, ca_amount = n, ca_awarded_at = timestamp e, ca_status = CaAwarded\<rparr>)\<rparr>"
      by (auto simp: award_commitment_def Let_def viewsD(2-4) [OF v] dest!: viewsD(5) [OF v] split: if_splits)
    from s1 have "s1 = s\<lparr>bo_disclosure := bo_disclosure s1, bo_used_commitment := bo_used_commitment s1\<rparr>"
      by (cases "bo_disclosure s h") (auto split: if_splits)
    then obtain di us where "s1 = s\<lparr>bo_disclosure := di, bo_used_commitment := us\<rparr>" by blast
    with rest g show thesis by (auto intro!: that)
  qed
  from wf_deployed [OF wf] f(2) obtain tok where "bo_token s = Some tok" by blast
  from wf_stored [OF wf this] have c: "c = promised s" using f(2) by auto
  have fin: "finite (dom (bo_commitment_award s))" using wf by (simp add: bounty_wf_def)
  have "promised s' = promised s + n"
    using f(5-8) by (simp add: promised_def sum_over_upd [OF fin] awarded_amount_def)
  then show ?thesis using wf f c \<open>bo_token s = Some tok\<close>
    by (auto simp: bounty_wf_def ran_def)
qed

lemma claim_by_commitment_wf:
  assumes v: "bounty_views x" and wf: "bounty_wf s" and ex: "claim_by_commitment x e a pre (s, w) = Ok (r, (s', w'))"
  shows "bounty_wf s' \<and> (\<exists>tok b c. bo_token s = Some tok \<and> bo_token s' = Some tok \<and> bo_balance s = Some b \<and>
    bo_balance s' = Some (b - r) \<and> ox_transfer x w tok (this e) c r = Some w')"
proof -
  let ?k = "ox_hash_preimage x pre"
  from ex obtain aw b c d tok naw where f: "bo_commitment_award s ?k = Some aw" "ca_status aw = CaAwarded" "r = ca_amount aw"
    "bo_balance s = Some b" "bo_reserved s = Some c" "bo_token s = Some tok" "ox_transfer x w tok (this e) d r = Some w'"
    "s' = s\<lparr>bo_commitment_award := (bo_commitment_award s)(?k \<mapsto> aw\<lparr>ca_status := CaClaimed\<rparr>),
       bo_reserved := Some (c - r), bo_balance := Some (b - r), bo_award := naw\<rparr>"
    by (auto simp: claim_by_commitment_def Let_def viewsD(2-4) [OF v] split: if_splits)
  from wf_stored [OF wf f(6)] have c: "c = promised s" "promised s \<le> b" using f(4,5) by auto
  have fin: "finite (dom (bo_commitment_award s))" using wf by (simp add: bounty_wf_def)
  have "promised s' = promised s - r"
    using f(1,2,3,8) by (simp add: promised_def sum_over_upd [OF fin] awarded_amount_def)
  then have "bounty_wf s'" using wf f c by (auto simp: bounty_wf_def ran_def)
  with f show ?thesis by auto
qed

section \<open>Every transaction\<close>

text \<open>Beyond \<open>sep41_transfers\<close>: a transfer to oneself changes nothing.\<close>

definition self_transfers :: "'w transfer_fn \<Rightarrow> ('w \<Rightarrow> address \<Rightarrow> address \<Rightarrow> int) \<Rightarrow> bool" where
  "self_transfers tr bal \<longleftrightarrow> (\<forall>w tok a x w'. tr w tok a a x = Some w' \<longrightarrow> bal w' tok a = bal w tok a)"

lemma funded_out:
  assumes "sep41_transfers tr bal" and "self_transfers tr bal" and "tr w tok B a n = Some w'" and "0 \<le> n"
  shows "bal w tok B - n \<le> bal w' tok B"
  using assms by (cases "a = B") (auto simp: self_transfers_def dest: transfer_out)

lemma call_amounts:
  assumes v: "bounty_views x" and wf: "bounty_wf s"
  shows "bounty_award x e a r n h (s, w) = Ok (u, sw') \<Longrightarrow> 0 \<le> n"
    and "bounty_claim x e a i (s, w) = Ok (m, sw') \<Longrightarrow> 0 \<le> m"
    and "sweep_expired x e i (s, w) = Ok (m, sw') \<Longrightarrow> 0 \<le> m"
    and "claim_by_commitment x e a pre (s, w) = Ok (m, sw') \<Longrightarrow> 0 \<le> m"
  using wf
  by (auto simp: bounty_award_def bounty_claim_def sweep_expired_def claim_by_commitment_def Let_def bounty_wf_def ran_def
      split: if_splits)

lemma quiet_calls_wf:
  assumes v: "bounty_views x" and wf: "bounty_wf s"
  shows "bounty_set_governance x e a g s = Ok (u, s') \<Longrightarrow> bounty_wf s' \<and> bo_token s' = bo_token s \<and> bo_balance s' = bo_balance s"
    and "submit_disclosure x e a h k s = Ok (u, s') \<Longrightarrow> bounty_wf s' \<and> bo_token s' = bo_token s \<and> bo_balance s' = bo_balance s"
    and "register_payout_address x e a pre b s = Ok (k, s') \<Longrightarrow> bounty_wf s' \<and> bo_token s' = bo_token s \<and> bo_balance s' = bo_balance s"
    and "rotate_payout_address x e a pre b s = Ok (u, s') \<Longrightarrow> bounty_wf s' \<and> bo_token s' = bo_token s \<and> bo_balance s' = bo_balance s"
    and "freeze_payout_address x e a b f s = Ok (u, s') \<Longrightarrow> bounty_wf s' \<and> bo_token s' = bo_token s \<and> bo_balance s' = bo_balance s"
  by (auto simp: bounty_set_governance_def submit_disclosure_def register_payout_address_def rotate_payout_address_def
      freeze_payout_address_def Let_def dest!: viewsD(1) [OF v] intro!: wf_quiet [OF wf] split: if_splits)

definition bounty_inv :: "('w \<Rightarrow> address \<Rightarrow> address \<Rightarrow> int) \<Rightarrow> address \<Rightarrow> 'w bo_system \<Rightarrow> bool" where
  "bounty_inv bal B sw \<longleftrightarrow> bounty_wf (fst sw) \<and> bounty_funded bal B sw"

definition bounty_admissible :: "address \<Rightarrow> env \<Rightarrow> bounty_call \<Rightarrow> bool" where
  "bounty_admissible B e c \<longleftrightarrow> this e = B \<and> \<not> auth e B"

lemma bounty_exec_inv:
  assumes v: "bounty_views x" and tr: "sep41_transfers (ox_transfer x) bal" "self_transfers (ox_transfer x) bal"
    and inv: "bounty_inv bal B (s, w)" and adm: "bounty_admissible B e c" and ex: "bounty_exec x e c (s, w) = Ok (u, (s', w'))"
  shows "bounty_inv bal B (s', w')"
proof -
  from inv have wf: "bounty_wf s" and fund: "bounty_funded bal B (s, w)" by (simp_all add: bounty_inv_def)
  from adm have B: "this e = B" "\<not> auth e B" by (simp_all add: bounty_admissible_def)
  have quiet: "bounty_inv bal B (s', w')" if "bounty_wf s' \<and> bo_token s' = bo_token s \<and> bo_balance s' = bo_balance s" "w' = w"
    using that fund by (auto simp: bounty_inv_def bounty_funded_def split: option.splits)
  have out: "bounty_inv bal B (s', w')" if "0 \<le> n" "bounty_wf s' \<and> (\<exists>tok b a. bo_token s = Some tok \<and> bo_token s' = Some tok \<and> bo_balance s = Some b \<and>
    bo_balance s' = Some (b - n) \<and> ox_transfer x w tok (this e) a n = Some w')" for n
  proof -
    from that(2) obtain tok b a where h: "bounty_wf s'" "bo_token s = Some tok" "bo_token s' = Some tok" "bo_balance s = Some b"
      "bo_balance s' = Some (b - n)" "ox_transfer x w tok B a n = Some w'" using B by auto
    from funded_out [OF tr h(6) that(1)] h fund show ?thesis by (simp add: bounty_inv_def bounty_funded_def)
  qed
  show ?thesis
  proof (cases c)
    case (BoInitialize g t)
    with ex have i: "bounty_initialize g t s = Ok ((), s')" "w' = w" by auto
    then have "bo_token s = None" using wf by (auto simp: bounty_initialize_def bounty_wf_def split: if_splits option.splits)
    with i fund initialize_wf [OF i(1) wf] show ?thesis
      by (auto simp: bounty_inv_def bounty_funded_def bounty_initialize_def split: if_splits)
  next
    case (BoSetGovernance a g)
    with ex show ?thesis by (intro quiet) (auto dest: quiet_calls_wf(1) [OF v wf])
  next
    case (BoFund a n)
    with ex have "bounty_fund x e a n (s, w) = Ok (u, (s', w'))" by simp
    from fund_wf [OF v wf this] obtain tok b where h: "bounty_wf s'" "bo_token s = Some tok" "bo_token s' = Some tok"
      "bo_balance s = Some b" "bo_balance s' = Some (b + n)" "auth e a" "ox_transfer x w tok a B n = Some w'" using B by auto
    then have "a \<noteq> B" using B by auto
    from transfer_in [OF tr(1) h(7) this] h fund show ?thesis by (simp add: bounty_inv_def bounty_funded_def)
  next
    case (BoAward a r n h)
    with ex have ok: "bounty_award x e a r n h (s, w) = Ok (u, (s', w'))" by simp
    from award_wf [OF v wf ok] call_amounts(1) [OF v wf ok] show ?thesis by (intro out [of n]) auto
  next
    case (BoCreatePayout a r n d)
    with ex show ?thesis by (intro quiet) (auto dest: create_payout_wf [OF v wf])
  next
    case (BoClaim a i)
    with ex obtain m where ok: "bounty_claim x e a i (s, w) = Ok (m, (s', w'))" by auto
    from claim_wf [OF v wf ok] call_amounts(2) [OF v wf ok] show ?thesis by (intro out [of m]) auto
  next
    case (BoSweepExpired i)
    with ex obtain m where ok: "sweep_expired x e i (s, w) = Ok (m, (s', w'))" by auto
    from sweep_wf [OF v wf ok] call_amounts(3) [OF v wf ok] show ?thesis by (intro out [of m]) auto
  next
    case (BoSubmitDisclosure a h k)
    with ex show ?thesis by (intro quiet) (auto dest: quiet_calls_wf(2) [OF v wf])
  next
    case (BoRegister a pre b)
    with ex show ?thesis by (intro quiet) (auto dest: quiet_calls_wf(3) [OF v wf])
  next
    case (BoRotate a pre b)
    with ex show ?thesis by (intro quiet) (auto dest: quiet_calls_wf(4) [OF v wf])
  next
    case (BoAwardCommitment a h k n)
    with ex show ?thesis by (intro quiet) (auto dest: award_commitment_wf [OF v wf])
  next
    case (BoClaimByCommitment a pre)
    with ex obtain m where ok: "claim_by_commitment x e a pre (s, w) = Ok (m, (s', w'))" by auto
    from claim_by_commitment_wf [OF v wf ok] call_amounts(4) [OF v wf ok] show ?thesis by (intro out [of m]) auto
  next
    case (BoFreeze a b f)
    with ex show ?thesis by (intro quiet) (auto dest: quiet_calls_wf(5) [OF v wf])
  qed
qed

lemma bounty_contract:
  assumes "bounty_views x" and "sep41_transfers (ox_transfer x) bal" and "self_transfers (ox_transfer x) bal"
  shows "timed_contract (bounty_exec x) (bounty_admissible B) (\<lambda>_. bounty_inv bal B)"
  by unfold_locales (auto intro: bounty_exec_inv [OF assms])

lemma bounty_undeployed_inv: "(\<And>tok. 0 \<le> bal w0 tok B) \<Longrightarrow> bounty_inv bal B (bounty_undeployed, w0)"
  by (simp add: bounty_inv_def bounty_wf_def bounty_funded_def bounty_undeployed_def)

lemma bounty_run_inv:
  assumes "bounty_views x" and "sep41_transfers (ox_transfer x) bal" and "self_transfers (ox_transfer x) bal"
    and "chronological t txs" and "\<And>e c. (e, c) \<in> set txs \<Longrightarrow> this e = B \<and> \<not> auth e B" and "\<And>tok. 0 \<le> bal w0 tok B"
  shows "bounty_inv bal B (run_txs (bounty_exec x) txs (bounty_undeployed, w0))"
  by (rule timed_contract.run_inv [OF bounty_contract [OF assms(1-3)] bounty_undeployed_inv assms(4)])
     (use assms(5,6) in \<open>auto simp: bounty_admissible_def\<close>)

section \<open>Expired bindings\<close>

definition expired_award :: "bytes32 \<Rightarrow> commitment_award \<Rightarrow> payout_binding \<Rightarrow> nat \<Rightarrow> 'w bo_system \<Rightarrow> bool" where
  "expired_award k a b t sw \<longleftrightarrow> bo_commitment_award (fst sw) k = Some a \<and> bo_binding (fst sw) k = Some b \<and> pb_expires_at b < t"

lemma bounty_exec_expired:
  assumes "expired_award k a b (timestamp e) (s, w)" and "bounty_exec x e c (s, w) = Ok (u, (s', w'))"
  shows "expired_award k a b (timestamp e) (s', w')"
proof -
  have settle: "bo_commitment_award s1 = bo_commitment_award s0 \<and> bo_binding s1 = bo_binding s0"
    if "settle_payout x i p s0 = Ok s1" for i p s0 s1
    using that by (auto simp: settle_payout_def Let_def)
  show ?thesis
  proof (cases c)
    case (BoAwardCommitment g h k' n)
    with assms show ?thesis
      by (cases "bo_disclosure s h") (auto simp: award_commitment_def expired_award_def Let_def split: if_splits)
  next
    case (BoClaim g i)
    with assms show ?thesis by (auto simp: bounty_claim_def expired_award_def Let_def dest: settle split: if_splits)
  next
    case (BoSweepExpired i)
    with assms show ?thesis by (auto simp: sweep_expired_def expired_award_def Let_def dest: settle split: if_splits)
  next
    case (BoClaimByCommitment g pre)
    with assms show ?thesis by (auto simp: claim_by_commitment_def expired_award_def Let_def split: if_splits)
  qed (use assms in \<open>auto simp: bounty_initialize_def bounty_set_governance_def bounty_fund_def bounty_award_def
      create_payout_def submit_disclosure_def register_payout_address_def rotate_payout_address_def
      freeze_payout_address_def expired_award_def Let_def split: if_splits\<close>)
qed

lemma expired_contract: "timed_contract (bounty_exec x) (\<lambda>_ _. True) (expired_award k a b)"
proof
  show "expired_award k a b (timestamp e) s'" if "expired_award k a b (timestamp e) s" "bounty_exec x e c s = Ok (r, s')"
    for e s c r s' using that by (cases s; cases s') (auto intro: bounty_exec_expired)
qed (simp add: expired_award_def)

section \<open>An example\<close>

definition bo_ext :: "ledger bounty_ext" where
  "bo_ext = \<lparr>ox_governance_addr = (\<lambda>s. ok_or (bo_governance s) BoNotInitialized),
     ox_token_addr = (\<lambda>s. ok_or (bo_token s) BoNotInitialized),
     ox_raw_balance = (\<lambda>s. ok_or (bo_balance s) BoNotInitialized),
     ox_raw_reserved = (\<lambda>s. ok_or (bo_reserved s) BoNotInitialized),
     ox_available_balance = (\<lambda>s. and_then (ok_or (bo_balance s) BoNotInitialized) (\<lambda>b.
       and_then (ok_or (bo_reserved s) BoNotInitialized) (\<lambda>r. Ok (b - r)))),
     ox_is_recipient_allowed = (\<lambda>s a. True), ox_is_address_frozen = (\<lambda>s a. unwrap_or (bo_frozen s a) False),
     ox_hash_preimage = (\<lambda>p. p + 1000), ox_transfer = ledger_transfer\<rparr>"

lemma bo_ext_views: "bounty_views bo_ext"
  unfolding bounty_views_def by (auto simp: bo_ext_def)

lemma ledger_self: "self_transfers ledger_transfer ledger_balance"
  by (auto simp: self_transfers_def ledger_transfer_def ledger_balance_def Let_def split: if_splits)

definition bo_env :: "nat \<Rightarrow> env" where
  "bo_env t = \<lparr>timestamp = t, ledger_seq = t, auth = (\<lambda>a. a \<noteq> 99), this = 99\<rparr>"

definition bo_txs :: "(env \<times> bounty_call) list" where
  "bo_txs = [(bo_env 10, BoInitialize 7 5), (bo_env 20, BoFund 1 1000), (bo_env 30, BoCreatePayout 7 2 300 90),
     (bo_env 40, BoAwardCommitment 7 11 1042 200), (bo_env 50, BoRegister 3 42 4)]"

definition bo_world :: ledger where
  "bo_world = (\<lambda>tok a. if a = 1 then 5000 else 0)"

lemma bo_txs_ok:
  "chronological 0 bo_txs" "(e, c) \<in> set bo_txs \<Longrightarrow> this e = 99 \<and> \<not> auth e 99" "0 \<le> ledger_balance bo_world tok 99"
  "end_time 0 bo_txs = 50"
  by (auto simp: bo_txs_def bo_env_def bo_world_def ledger_balance_def)

lemma bo_ext_token:
  "sep41_transfers (ox_transfer bo_ext) ledger_balance" "self_transfers (ox_transfer bo_ext) ledger_balance"
  using ledger_sep41 ledger_self by (simp_all add: bo_ext_def)

definition bo_payout_example :: bounty_payout where
  "bo_payout_example = \<lparr>bp_recipient = 2, bp_token = 5, bp_amount = 300, bp_deadline = 90, bp_status = BpPending\<rparr>"

definition bo_award_example :: commitment_award where
  "bo_award_example = \<lparr>ca_report_hash = 11, ca_commitment = 1042, ca_amount = 200, ca_awarded_at = 40, ca_status = CaAwarded\<rparr>"

definition bo_binding_example :: payout_binding where
  "bo_binding_example = \<lparr>pb_owner = 3, pb_payout_address = 4, pb_registered_at = 50, pb_expires_at = 2592050\<rparr>"

lemma bo_run:
  "\<exists>s w. run_txs (bounty_exec bo_ext) bo_txs (bounty_undeployed, bo_world) = (s, w) \<and>
     bo_payout s 0 = Some bo_payout_example \<and> bo_commitment_award s 1042 = Some bo_award_example \<and>
     bo_binding s 1042 = Some bo_binding_example \<and> bo_token s = Some 5 \<and> bo_reserved s = Some 500 \<and> bo_balance s = Some 1000"
  by (simp add: bo_txs_def bo_env_def bo_world_def bounty_undeployed_def bo_ext_def bo_payout_example_def
      bo_award_example_def bo_binding_example_def on_bounty_def bounty_initialize_def bounty_fund_def create_payout_def
      award_commitment_def register_payout_address_def require_auth_def ok_or_def map_err_def math_checked_add_def
      math_checked_sub_def i128_opt_def i128_add_def i128_checked_def int_width_defs u64_add_def u64_sat_add_def u64_max_def
      DEFAULT_BINDING_TTL_SECS_def token_transfer_def ledger_transfer_def Let_def
      del: and_then_Ok_iff and_then_Err_iff and_then_Trap_iff i128_opt_iff on_bounty_iff)

section \<open>Properties\<close>

text \<open>C27. The escrow's books are exact and funded: after any transactions on a new escrow, whose own address
never signs, and with a standard token, the stored reserve is the sum of the pending payouts and of the
unclaimed commitment awards, it is not negative, the stored balance covers it, and the tokens the escrow
holds cover the balance.\<close>

theorem bounty_reserve_exact:
  assumes "bounty_views x" and "sep41_transfers (ox_transfer x) bal" and "self_transfers (ox_transfer x) bal"
    and "chronological t txs" and "\<And>e c. (e, c) \<in> set txs \<Longrightarrow> this e = B \<and> \<not> auth e B" and "\<And>tok. 0 \<le> bal w0 tok B"
    and "run_txs (bounty_exec x) txs (bounty_undeployed, w0) = (s, w)" and "bo_token s = Some tok"
  shows "\<exists>b r. bo_balance s = Some b \<and> bo_reserved s = Some r \<and>
    r = sum_over pending_amount (bo_payout s) + sum_over awarded_amount (bo_commitment_award s) \<and>
    0 \<le> r \<and> r \<le> b \<and> b \<le> bal w tok B"
proof -
  from bounty_run_inv [OF assms(1-6)] assms(7) have inv: "bounty_wf s" "bounty_funded bal B (s, w)"
    by (simp_all add: bounty_inv_def)
  from wf_stored [OF inv(1) assms(8)] obtain b where b: "bo_balance s = Some b" "bo_reserved s = Some (promised s)"
    "promised s \<le> b" by blast
  with inv(2) assms(8) promised_nonneg [OF inv(1)] show ?thesis by (simp add: bounty_funded_def promised_def)
qed

theorem bounty_reserve_exact_witness:
  "\<exists>s w b r. run_txs (bounty_exec bo_ext) bo_txs (bounty_undeployed, bo_world) = (s, w) \<and> bo_balance s = Some b \<and>
     bo_reserved s = Some r \<and> r = 500 \<and> r = sum_over pending_amount (bo_payout s) + sum_over awarded_amount (bo_commitment_award s) \<and>
     0 \<le> r \<and> r \<le> b \<and> b \<le> ledger_balance w 5 99"
proof -
  obtain s w where run: "run_txs (bounty_exec bo_ext) bo_txs (bounty_undeployed, bo_world) = (s, w)" and
    s: "bo_token s = Some 5" "bo_reserved s = Some 500" using bo_run by blast
  from bounty_reserve_exact [OF bo_ext_views bo_ext_token(1,2) bo_txs_ok(1-3) run s(1)] run s show ?thesis by auto
qed

text \<open>C28. The escrow never stands in the way of a pending payout. In every state reached from a new escrow
whose own address never signs, with the absent views as the file uses them, with a token that moves exactly the
amounts it is asked to, and at any time (the deadline does not matter): the tokens the escrow holds cover the payout, and a call to \<open>claim\<close> that
the recipient signs is decided by the token alone. When the token accepts the transfer of the recorded amount
to the recipient, the claim returns that amount, marks the payout claimed, and a recipient other than the
escrow has that much more; when the token refuses (a frozen or blocked recipient), the claim panics.\<close>

theorem pending_payout_claimable:
  assumes "bounty_views x" and "sep41_transfers (ox_transfer x) bal" and "self_transfers (ox_transfer x) bal"
    and "chronological t txs" and "\<And>e c. (e, c) \<in> set txs \<Longrightarrow> this e = B \<and> \<not> auth e B" and "\<And>tok. 0 \<le> bal w0 tok B"
    and "run_txs (bounty_exec x) txs (bounty_undeployed, w0) = (s, w)"
    and "bo_payout s i = Some p" and "bp_status p = BpPending" and "this e = B" and "auth e (bp_recipient p)"
  shows "bp_amount p \<le> bal w (bp_token p) B \<and>
    (case ox_transfer x w (bp_token p) B (bp_recipient p) (bp_amount p) of
       None \<Rightarrow> bounty_claim x e (bp_recipient p) i (s, w) = Trap
     | Some w' \<Rightarrow> \<exists>s'. bounty_claim x e (bp_recipient p) i (s, w) = Ok (bp_amount p, (s', w')) \<and>
         bo_payout s' i = Some (p\<lparr>bp_status := BpClaimed\<rparr>) \<and>
         (bp_recipient p \<noteq> B \<longrightarrow>
            bal w' (bp_token p) (bp_recipient p) = bal w (bp_token p) (bp_recipient p) + bp_amount p))"
proof -
  from bounty_run_inv [OF assms(1-6)] assms(7) have inv: "bounty_wf s" "bounty_funded bal B (s, w)"
    by (simp_all add: bounty_inv_def)
  have p: "0 \<le> bp_amount p" "bo_token s = Some (bp_token p)" using inv(1) assms(8) by (auto simp: bounty_wf_def ran_def)
  from wf_stored [OF inv(1) p(2)] obtain b where b: "bo_balance s = Some b" "bo_reserved s = Some (promised s)"
    "promised s \<le> b" by blast
  have le: "bp_amount p \<le> promised s" using promised_ge(1) [OF inv(1) assms(8)] assms(9) by (simp add: pending_amount_def)
  have covered: "bp_amount p \<le> bal w (bp_token p) B"
    using inv(2) p(2) b le by (simp add: bounty_funded_def)
  let ?p = "p\<lparr>bp_status := BpClaimed\<rparr>"
  let ?s1 = "s\<lparr>bo_payout := (bo_payout s)(i \<mapsto> ?p)\<rparr>"
  let ?s2 = "?s1\<lparr>bo_reserved := Some (promised s - bp_amount p)\<rparr>"
  let ?s3 = "?s2\<lparr>bo_balance := Some (b - bp_amount p)\<rparr>"
  have "ox_raw_reserved x ?s1 = Ok (promised s)" "ox_raw_balance x ?s2 = Ok b"
    using b by (simp_all add: viewsD(3,4) [OF assms(1)])
  then have "settle_payout x i ?p s = Ok ?s3"
    using b le p(1) by (simp add: settle_payout_def Let_def math_checked_sub_def map_err_def
        del: and_then_Ok_iff map_err_iff)
  then have claim: "bounty_claim x e (bp_recipient p) i (s, w) =
      and_then (token_transfer (ox_transfer x) w (bp_token p) B (bp_recipient p) (bp_amount p)) (\<lambda>w. Ok (bp_amount p, (?s3, w)))"
    using assms(8-11) by (simp add: bounty_claim_def Let_def ok_or_def require_auth_def
        del: and_then_Ok_iff and_then_Err_iff and_then_Trap_iff)
  show ?thesis
  proof (cases "ox_transfer x w (bp_token p) B (bp_recipient p) (bp_amount p)")
    case None
    with claim covered show ?thesis by (simp add: token_transfer_def)
  next
    case (Some w')
    then have "bal w' (bp_token p) (bp_recipient p) = bal w (bp_token p) (bp_recipient p) + bp_amount p"
      if "bp_recipient p \<noteq> B" using assms(2) that unfolding sep41_transfers_def by metis
    with Some claim covered show ?thesis by (simp add: token_transfer_def)
  qed
qed

theorem pending_payout_claimable_witness:
  "\<exists>s w s' w'. run_txs (bounty_exec bo_ext) bo_txs (bounty_undeployed, bo_world) = (s, w) \<and>
     bounty_claim bo_ext (bo_env 100) 2 0 (s, w) = Ok (300, (s', w')) \<and>
     bo_payout s' 0 = Some (bo_payout_example\<lparr>bp_status := BpClaimed\<rparr>) \<and> ledger_balance w' 5 2 = ledger_balance w 5 2 + 300"
proof -
  obtain s w where run: "run_txs (bounty_exec bo_ext) bo_txs (bounty_undeployed, bo_world) = (s, w)" and
    s: "bo_payout s 0 = Some bo_payout_example" using bo_run by blast
  let ?p = bo_payout_example
  have "bp_amount ?p \<le> ledger_balance w (bp_token ?p) 99 \<and>
    (case ox_transfer bo_ext w (bp_token ?p) 99 (bp_recipient ?p) (bp_amount ?p) of
       None \<Rightarrow> bounty_claim bo_ext (bo_env 100) (bp_recipient ?p) 0 (s, w) = Trap
     | Some w' \<Rightarrow> \<exists>s'. bounty_claim bo_ext (bo_env 100) (bp_recipient ?p) 0 (s, w) = Ok (bp_amount ?p, (s', w')) \<and>
         bo_payout s' 0 = Some (?p\<lparr>bp_status := BpClaimed\<rparr>) \<and>
         (bp_recipient ?p \<noteq> 99 \<longrightarrow>
            ledger_balance w' (bp_token ?p) (bp_recipient ?p) = ledger_balance w (bp_token ?p) (bp_recipient ?p) + bp_amount ?p))"
    by (rule pending_payout_claimable [OF bo_ext_views bo_ext_token bo_txs_ok(1-3) run s])
       (auto simp: bo_payout_example_def bo_env_def)
  with run show ?thesis
    by (auto simp: bo_payout_example_def bo_ext_def ledger_transfer_def ledger_balance_def Let_def split: if_splits)
qed

text \<open>C29. What an expired binding costs: once the binding of a commitment award that is still unclaimed has
expired, no later transaction of anyone changes the award or the binding: it cannot be claimed, rotated or
registered again, and its amount stays reserved, out of reach of every other payout, for good.\<close>

theorem expired_binding_locks_award:
  assumes "bounty_views x" and "sep41_transfers (ox_transfer x) bal" and "self_transfers (ox_transfer x) bal"
    and "chronological t (txs @ later)" and "\<And>e c. (e, c) \<in> set (txs @ later) \<Longrightarrow> this e = B \<and> \<not> auth e B"
    and "\<And>tok. 0 \<le> bal w0 tok B"
    and "run_txs (bounty_exec x) txs (bounty_undeployed, w0) = (s, w)"
    and "bo_commitment_award s k = Some a" and "ca_status a = CaAwarded" and "bo_binding s k = Some b"
    and "pb_expires_at b < end_time t txs" and "run_txs (bounty_exec x) later (s, w) = (s', w')"
  shows "bo_commitment_award s' k = Some a \<and> bo_binding s' k = Some b \<and>
    (\<exists>r bl. bo_reserved s' = Some r \<and> bo_balance s' = Some bl \<and> ca_amount a \<le> r \<and> r \<le> bl)"
proof -
  have "run_txs (bounty_exec x) (txs @ later) (bounty_undeployed, w0) = (s', w')"
    using assms(7,12) by (simp add: run_txs_append)
  with bounty_run_inv [OF assms(1-6)] have wf: "bounty_wf s'" by (simp add: bounty_inv_def)
  have "expired_award k a b (end_time t txs) (s, w)" using assms(8,10,11) by (simp add: expired_award_def)
  from timed_contract.run_inv [OF expired_contract [of x k a b] this, of later] assms(4,12)
  have e: "bo_commitment_award s' k = Some a" "bo_binding s' k = Some b"
    by (simp_all add: chronological_append expired_award_def)
  from wf_deployed [OF wf, where a = a and k = k] e(1) obtain tok where "bo_token s' = Some tok" by blast
  from wf_stored [OF wf this] obtain bl where bl: "bo_balance s' = Some bl" "bo_reserved s' = Some (promised s')"
    "promised s' \<le> bl" by blast
  have "ca_amount a \<le> promised s'" using promised_ge(2) [OF wf e(1)] assms(9) by (simp add: awarded_amount_def)
  with e bl show ?thesis by auto
qed

theorem expired_binding_locks_award_witness:
  "\<exists>s w s' w'. run_txs (bounty_exec bo_ext) (bo_txs @ [(bo_env 2592051, BoFreeze 7 4 False)]) (bounty_undeployed, bo_world) = (s, w) \<and>
     run_txs (bounty_exec bo_ext) [(bo_env 2592060, BoClaimByCommitment 3 42)] (s, w) = (s', w') \<and>
     bo_commitment_award s' 1042 = Some bo_award_example \<and> bo_binding s' 1042 = Some bo_binding_example \<and>
     (\<exists>r bl. bo_reserved s' = Some r \<and> bo_balance s' = Some bl \<and> 200 \<le> r \<and> r \<le> bl)"
proof -
  let ?txs = "bo_txs @ [(bo_env 2592051, BoFreeze 7 4 False)]" and ?later = "[(bo_env 2592060, BoClaimByCommitment 3 42)]"
  obtain s0 w0 where run0: "run_txs (bounty_exec bo_ext) bo_txs (bounty_undeployed, bo_world) = (s0, w0)" and
    s0: "bo_commitment_award s0 1042 = Some bo_award_example" "bo_binding s0 1042 = Some bo_binding_example" using bo_run by blast
  obtain s w where run: "run_txs (bounty_exec bo_ext) ?txs (bounty_undeployed, bo_world) = (s, w)" by fastforce
  obtain s' w' where later: "run_txs (bounty_exec bo_ext) ?later (s, w) = (s', w')" by fastforce
  have "(s, w) = state_after (s0, w0) (bounty_exec bo_ext (bo_env 2592051) (BoFreeze 7 4 False) (s0, w0))"
    using run run0 by (simp add: run_txs_append)
  then have s: "bo_commitment_award s 1042 = Some bo_award_example" "bo_binding s 1042 = Some bo_binding_example"
    using s0 by (auto simp: state_after_def freeze_payout_address_def split: outcome.splits if_splits)
  have ok: "chronological 0 (?txs @ ?later)" "(e, c) \<in> set (?txs @ ?later) \<Longrightarrow> this e = 99 \<and> \<not> auth e 99"
    "pb_expires_at bo_binding_example < end_time 0 ?txs" for e c
    by (auto simp: bo_txs_def bo_env_def bo_binding_example_def)
  have "ca_status bo_award_example = CaAwarded" "ca_amount bo_award_example = 200" by (simp_all add: bo_award_example_def)
  from expired_binding_locks_award [OF bo_ext_views bo_ext_token(1,2) ok(1,2) bo_txs_ok(3) run s(1) this(1) s(2) ok(3) later]
    this(2) run later show ?thesis by auto
qed

text \<open>A report is rewarded twice: the push path looks only at paid awards, so it pays a report whose
commitment award is still open; claiming that award then pays again and overwrites the record.\<close>

theorem report_rewarded_twice:
  "\<exists>s w aw. run_txs (bounty_exec bo_ext) [(bo_env 10, BoInitialize 7 5), (bo_env 20, BoFund 1 1000),
       (bo_env 30, BoAwardCommitment 7 11 1042 200), (bo_env 40, BoRegister 3 42 4), (bo_env 50, BoAward 7 2 300 11),
       (bo_env 60, BoClaimByCommitment 3 42)] (bounty_undeployed, bo_world) = (s, w) \<and>
     ledger_balance w 5 2 = 300 \<and> ledger_balance w 5 4 = 200 \<and> bo_award s 11 = Some aw \<and> aw_researcher aw = 4"
  by (simp add: bo_env_def bo_world_def bounty_undeployed_def bo_ext_def on_bounty_def bounty_initialize_def bounty_fund_def
      award_commitment_def register_payout_address_def bounty_award_def claim_by_commitment_def discard_def require_auth_def
      ok_or_def map_err_def math_checked_add_def math_checked_sub_def i128_opt_def i128_add_def i128_sub_def i128_checked_def
      int_width_defs u64_sat_add_def u64_max_def DEFAULT_BINDING_TTL_SECS_def token_transfer_def ledger_transfer_def
      ledger_balance_def Let_def
      del: and_then_Ok_iff and_then_Err_iff and_then_Trap_iff i128_opt_iff on_bounty_iff)

end
