(* ===== verification/Capital_Queue.thy ===== *)
theory Capital_Queue
  imports Soroban
begin

text \<open>
  The withdrawal queue and the committed-capital facility of the shared crate
  (\<open>src/shared/src/withdrawal_queue.rs\<close>, \<open>src/shared/src/facility.rs\<close>).

  These are plain Rust values, not contract storage: an operation that fails half way keeps what it
  wrote, so an operation that can do so returns its outcome together with the value it leaves.

  The lemmas: a fill pays every request its proportional part, rounded down, and takes exactly that off the
  request; the fills never exceed the capital available as long as the queued shares fit an \<open>i128\<close> together,
  and a concrete queue shows that they can exceed it otherwise; a fill that overflows half way loses what it had filled;
  calls on a provider never exceed the commitment.
\<close>

section \<open>The queue\<close>

record wq_request =
  wr_id :: nat
  wr_staker :: nat
  wr_shares :: int
  wr_requested_at :: nat

record wq_fill =
  wf_id :: nat
  wf_shares :: int

datatype queue_error = QuInvalidShares | QuNotFound | QuNotOwner | QuOverflow

record withdrawal_queue =
  wq_next_id :: nat
  wq_requests :: "wq_request list"

definition wq_new :: withdrawal_queue where
  "wq_new = \<lparr>wq_next_id = 0, wq_requests = []\<rparr>"

definition wq_request :: "nat \<Rightarrow> int \<Rightarrow> nat \<Rightarrow> withdrawal_queue \<Rightarrow> (queue_error, nat \<times> withdrawal_queue) outcome" where
  "wq_request staker shares now q =
     (if shares \<le> 0 then Err QuInvalidShares
      else
        let i = wq_next_id q in
        if u64_max < i + 1 then Err QuOverflow
        else Ok (i, q\<lparr>wq_next_id := i + 1, wq_requests := wq_requests q @
               [\<lparr>wr_id = i, wr_staker = staker, wr_shares = shares, wr_requested_at = now\<rparr>]\<rparr>))"

definition wq_pending :: "withdrawal_queue \<Rightarrow> wq_request list" where
  "wq_pending q = wq_requests q"

definition total_requested :: "withdrawal_queue \<Rightarrow> int" where
  "total_requested q = foldl (\<lambda>t r. i128_clamp (t + wr_shares r)) 0 (wq_requests q)"

text \<open>\<open>iter().position\<close> and \<open>remove\<close>.\<close>

fun position_of :: "nat \<Rightarrow> wq_request list \<Rightarrow> nat option" where
  "position_of i [] = None"
| "position_of i (r # rs) = (if wr_id r = i then Some 0 else map_option Suc (position_of i rs))"

definition wq_cancel :: "nat \<Rightarrow> nat \<Rightarrow> withdrawal_queue \<Rightarrow> (queue_error, unit \<times> withdrawal_queue) outcome" where
  "wq_cancel i staker q =
     and_then (ok_or (position_of i (wq_requests q)) QuNotFound) (\<lambda>index.
     if wr_staker (wq_requests q ! index) \<noteq> staker then Err QuNotOwner
     else Ok ((), q\<lparr>wq_requests := take index (wq_requests q) @ drop (Suc index) (wq_requests q)\<rparr>))"

text \<open>The loop over \<open>iter_mut\<close>: the fills made, or nothing after an overflow; and the requests as left.\<close>

fun fill_loop :: "int \<Rightarrow> int \<Rightarrow> wq_request list \<Rightarrow> wq_fill list option \<times> wq_request list" where
  "fill_loop available tot [] = (Some [], [])"
| "fill_loop available tot (r # rs) =
     (case i128_opt (wr_shares r * available) of
        None \<Rightarrow> (None, r # rs)
      | Some product \<Rightarrow>
          let share = trunc_div product tot;
              (fills, rest) = fill_loop available tot rs
          in if 0 < share
             then (map_option ((#) \<lparr>wf_id = wr_id r, wf_shares = share\<rparr>) fills,
                   r\<lparr>wr_shares := wr_shares r - share\<rparr> # rest)
             else (fills, r # rest))"

definition fill_pro_rata :: "int \<Rightarrow> withdrawal_queue \<Rightarrow> (queue_error, wq_fill list) outcome \<times> withdrawal_queue" where
  "fill_pro_rata available q =
     (let tot = total_requested q in
      if available \<le> 0 \<or> tot = 0 then (Ok [], q)
      else if tot \<le> available then
        (Ok (map (\<lambda>r. \<lparr>wf_id = wr_id r, wf_shares = wr_shares r\<rparr>) (wq_requests q)), q\<lparr>wq_requests := []\<rparr>)
      else
        (case fill_loop available tot (wq_requests q) of
           (fills, rest) \<Rightarrow> (ok_or fills QuOverflow, q\<lparr>wq_requests := rest\<rparr>)))"

section \<open>Well-formed queues\<close>

definition wq_wf :: "withdrawal_queue \<Rightarrow> bool" where
  "wq_wf q \<longleftrightarrow> (\<forall>r\<in>set (wq_requests q). 0 < wr_shares r \<and> wr_id r < wq_next_id q) \<and>
     distinct (map wr_id (wq_requests q))"

definition queued_shares :: "wq_request list \<Rightarrow> int" where
  "queued_shares rs = sum_list (map wr_shares rs)"

definition filled_shares :: "wq_fill list \<Rightarrow> int" where
  "filled_shares fs = sum_list (map wf_shares fs)"

text \<open>What a round gives the request \<open>i\<close>, and what stays of it.\<close>

definition given :: "wq_fill list \<Rightarrow> nat \<Rightarrow> int" where
  "given fs i = sum_list (map wf_shares (filter (\<lambda>f. wf_id f = i) fs))"

definition left :: "wq_request list \<Rightarrow> nat \<Rightarrow> int" where
  "left rs i = sum_list (map wr_shares (filter (\<lambda>r. wr_id r = i) rs))"

lemma sums_simps [simp]:
  "queued_shares [] = 0" "queued_shares (r # rs) = wr_shares r + queued_shares rs"
  "filled_shares [] = 0" "filled_shares (f # fs) = wf_shares f + filled_shares fs"
  "given [] i = 0" "given (f # fs) i = (if wf_id f = i then wf_shares f else 0) + given fs i"
  "left [] i = 0" "left (r # rs) i = (if wr_id r = i then wr_shares r else 0) + left rs i"
  by (simp_all add: queued_shares_def filled_shares_def given_def left_def)

text \<open>The fill of one request when the capital does not cover the queue.\<close>

definition part_of :: "int \<Rightarrow> int \<Rightarrow> int \<Rightarrow> int" where
  "part_of available tot shares = shares * available div tot"

lemma part_of_bounds:
  assumes "0 < shares" and "0 < available" and "available < tot"
  shows "0 \<le> part_of available tot shares" "part_of available tot shares < shares"
    "tot * part_of available tot shares \<le> shares * available"
proof -
  show "0 \<le> part_of available tot shares" using assms by (simp add: part_of_def pos_imp_zdiv_nonneg_iff)
  have "shares * available < shares * tot" using assms by simp
  then show "part_of available tot shares < shares"
    using assms by (simp add: part_of_def int_div_less_iff)
  show "tot * part_of available tot shares \<le> shares * available"
    using assms by (simp add: part_of_def int_mult_div_le)
qed

lemma fill_loop_spec:
  assumes "\<forall>r\<in>set rs. 0 < wr_shares r" and "0 < available" and "available < tot"
    and "fill_loop available tot rs = (Some fills, rest)"
  shows "tot * filled_shares fills \<le> queued_shares rs * available \<and>
    rest = map (\<lambda>r. r\<lparr>wr_shares := wr_shares r - part_of available tot (wr_shares r)\<rparr>) rs \<and>
    fills = map (\<lambda>r. \<lparr>wf_id = wr_id r, wf_shares = part_of available tot (wr_shares r)\<rparr>)
      (filter (\<lambda>r. 0 < part_of available tot (wr_shares r)) rs)"
  using assms(1,4)
proof (induction rs arbitrary: fills rest)
  case (Cons r rs)
  let ?p = "part_of available tot (wr_shares r)"
  have pos: "0 < wr_shares r" using Cons.prems(1) by simp
  note b = part_of_bounds [OF pos assms(2,3)]
  obtain fs rs' where tail: "fill_loop available tot rs = (fs, rs')" by fastforce
  have div: "trunc_div (wr_shares r * available) tot = ?p" using pos assms(2,3) by (simp add: part_of_def)
  from Cons.prems(2) tail div obtain fs' where fs: "fs = Some fs'" and
    step: "if 0 < ?p then fills = \<lparr>wf_id = wr_id r, wf_shares = ?p\<rparr> # fs' \<and> rest = r\<lparr>wr_shares := wr_shares r - ?p\<rparr> # rs'
      else fills = fs' \<and> rest = r # rs'"
    by (auto simp: i128_opt_def Let_def split: if_splits)
  have "\<forall>r\<in>set rs. 0 < wr_shares r" using Cons.prems(1) by simp
  from Cons.IH [OF this] tail fs have IH: "tot * filled_shares fs' \<le> queued_shares rs * available"
    "rs' = map (\<lambda>r. r\<lparr>wr_shares := wr_shares r - part_of available tot (wr_shares r)\<rparr>) rs"
    "fs' = map (\<lambda>r. \<lparr>wf_id = wr_id r, wf_shares = part_of available tot (wr_shares r)\<rparr>)
      (filter (\<lambda>r. 0 < part_of available tot (wr_shares r)) rs)" by auto
  show ?case
  proof (cases "0 < ?p")
    case True
    with step IH b show ?thesis by (simp add: distrib_left distrib_right)
  next
    case False
    with b have "?p = 0" by simp
    with step IH pos assms(2) False show ?thesis by (simp add: distrib_right add_increasing)
  qed
qed simp

lemma given_notin: "\<forall>f\<in>set fs. wf_id f \<noteq> i \<Longrightarrow> given fs i = 0"
  by (induction fs) auto

lemma fills_cover:
  assumes "\<forall>r\<in>set rs. 0 \<le> p r"
  shows "given (map (\<lambda>r. \<lparr>wf_id = wr_id r, wf_shares = p r\<rparr>) (filter (\<lambda>r. 0 < p r) rs)) i +
    left (map (\<lambda>r. r\<lparr>wr_shares := wr_shares r - p r\<rparr>) rs) i = left rs i"
  using assms by (induction rs) auto

lemma given_of:
  assumes "distinct (map wr_id rs)" and "r \<in> set rs" and "\<forall>r\<in>set rs. 0 \<le> p r"
  shows "given (map (\<lambda>r. \<lparr>wf_id = wr_id r, wf_shares = p r\<rparr>) (filter (\<lambda>r. 0 < p r) rs)) (wr_id r) = p r"
  using assms
proof (induction rs)
  case (Cons r' rs)
  show ?case
  proof (cases "r = r'")
    case True
    then have "wr_id x \<noteq> wr_id r" if "x \<in> set rs" for x using Cons.prems(1) that True by (auto simp: image_iff)
    then have "given (map (\<lambda>r. \<lparr>wf_id = wr_id r, wf_shares = p r\<rparr>) (filter (\<lambda>r. 0 < p r) rs)) (wr_id r) = 0"
      by (intro given_notin) auto
    then show ?thesis using True Cons.prems(3) by auto
  next
    case False
    then have "r \<in> set rs" "wr_id r' \<noteq> wr_id r" using Cons.prems(1,2) by auto
    with Cons show ?thesis by auto
  qed
qed simp

lemma fill_loop_kept:
  assumes "\<forall>r\<in>set rs. 0 < wr_shares r" and "0 < available" and "available < tot"
    and "fill_loop available tot rs = (fills, rest)"
  shows "map wr_id rest = map wr_id rs \<and> (\<forall>r\<in>set rest. 0 < wr_shares r)"
  using assms(1,4)
proof (induction rs arbitrary: fills rest)
  case (Cons r rs)
  have pos: "0 < wr_shares r" using Cons.prems(1) by simp
  note b = part_of_bounds [OF pos assms(2,3)]
  obtain fs rs' where tail: "fill_loop available tot rs = (fs, rs')" by fastforce
  have div: "trunc_div (wr_shares r * available) tot = part_of available tot (wr_shares r)"
    using pos assms(2,3) by (simp add: part_of_def)
  from Cons.IH [OF _ tail] Cons.prems(1) have "map wr_id rs' = map wr_id rs" "\<forall>r\<in>set rs'. 0 < wr_shares r" by auto
  with Cons.prems tail div b pos show ?case by (auto simp: i128_opt_def Let_def split: if_splits)
qed simp

section \<open>Reachable queues\<close>

datatype wq_call = WqRequest nat int nat | WqCancel nat nat | WqFill int

fun wq_step :: "wq_call \<Rightarrow> withdrawal_queue \<Rightarrow> withdrawal_queue" where
  "wq_step (WqRequest a n t) q = state_after q (wq_request a n t q)"
| "wq_step (WqCancel i a) q = state_after q (wq_cancel i a q)"
| "wq_step (WqFill n) q = snd (fill_pro_rata n q)"

lemma position_of_less: "position_of i rs = Some k \<Longrightarrow> k < length rs \<and> wr_id (rs ! k) = i"
  by (induction rs arbitrary: k) (auto split: if_splits)

lemma wq_wf_request: "wq_wf q \<Longrightarrow> wq_request a n t q = Ok (i, q') \<Longrightarrow> wq_wf q'"
  by (fastforce simp: wq_wf_def wq_request_def Let_def less_Suc_eq split: if_splits)

lemma wq_wf_cancel: "wq_wf q \<Longrightarrow> wq_cancel i a q = Ok (u, q') \<Longrightarrow> wq_wf q'"
proof -
  assume wf: "wq_wf q" and ex: "wq_cancel i a q = Ok (u, q')"
  then obtain k where q': "q' = q\<lparr>wq_requests := take k (wq_requests q) @ drop (Suc k) (wq_requests q)\<rparr>"
    "k < length (wq_requests q)"
    by (auto simp: wq_cancel_def dest: position_of_less split: if_splits)
  have split: "wq_requests q = take k (wq_requests q) @ wq_requests q ! k # drop (Suc k) (wq_requests q)"
    by (rule id_take_nth_drop [OF q'(2)])
  then have "distinct (map wr_id (take k (wq_requests q) @ wq_requests q ! k # drop (Suc k) (wq_requests q)))"
    using wf by (simp add: wq_wf_def)
  then have "distinct (map wr_id (take k (wq_requests q) @ drop (Suc k) (wq_requests q)))" by simp
  with wf q' show ?thesis by (auto simp: wq_wf_def dest: in_set_takeD in_set_dropD)
qed

lemma wq_wf_fill: "wq_wf q \<Longrightarrow> wq_wf (snd (fill_pro_rata n q))"
proof -
  assume wf: "wq_wf q"
  let ?t = "total_requested q"
  obtain fills rest where l: "fill_loop n ?t (wq_requests q) = (fills, rest)" by fastforce
  have "wq_wf (q\<lparr>wq_requests := rest\<rparr>)" if "0 < n" "n < ?t"
  proof -
    from fill_loop_kept [OF _ that l] wf have k: "map wr_id rest = map wr_id (wq_requests q)" "\<forall>r\<in>set rest. 0 < wr_shares r"
      by (auto simp: wq_wf_def)
    have "wr_id r < wq_next_id q" if "r \<in> set rest" for r
    proof -
      have "wr_id r \<in> set (map wr_id (wq_requests q))" using that by (simp flip: k(1))
      with wf show ?thesis by (auto simp: wq_wf_def)
    qed
    with k wf show ?thesis by (simp add: wq_wf_def)
  qed
  with wf l show ?thesis by (auto simp: fill_pro_rata_def Let_def wq_wf_def)
qed

lemma wq_step_wf: "wq_wf q \<Longrightarrow> wq_wf (wq_step c q)"
  by (cases c) (auto simp: state_after_def wq_wf_fill intro: wq_wf_request wq_wf_cancel split: outcome.splits)

interpretation wq: step_invariant wq_step wq_wf
  by unfold_locales (rule wq_step_wf)

lemma wq_reachable: "wq_wf (fold wq_step calls wq_new)"
  by (rule wq.fold_keeps) (simp add: wq_wf_def wq_new_def)

text \<open>The total saturates at the largest \<open>i128\<close>.\<close>

lemma total_saturates:
  assumes "\<forall>r\<in>set rs. 0 < wr_shares r" and "0 \<le> t" and "t \<le> i128_max"
  shows "foldl (\<lambda>t r. i128_clamp (t + wr_shares r)) t rs = min i128_max (t + queued_shares rs)"
  using assms
proof (induction rs arbitrary: t)
  case (Cons r rs)
  have q: "0 \<le> queued_shares rs" using Cons.prems(1)
    by (auto simp: queued_shares_def less_imp_le intro!: sum_list_nonneg)
  have c: "i128_clamp (t + wr_shares r) = min i128_max (t + wr_shares r)"
    using Cons.prems by (auto simp: i128_clamp_def i128_max_def i128_min_def)
  have "foldl (\<lambda>t r. i128_clamp (t + wr_shares r)) (min i128_max (t + wr_shares r)) rs =
      min i128_max (min i128_max (t + wr_shares r) + queued_shares rs)"
    by (rule Cons.IH) (use Cons.prems in \<open>auto simp: i128_max_def\<close>)
  with c q show ?case by (auto simp: min_def)
qed simp

lemma queue_total:
  assumes "wq_wf q"
  shows "total_requested q = min i128_max (queued_shares (wq_requests q))" and "0 \<le> queued_shares (wq_requests q)"
    and "total_requested q = 0 \<Longrightarrow> wq_requests q = []"
proof -
  have pos: "\<forall>r\<in>set (wq_requests q). 0 < wr_shares r" using assms by (simp add: wq_wf_def)
  show t: "total_requested q = min i128_max (queued_shares (wq_requests q))"
    using total_saturates [OF pos, of 0] by (simp add: total_requested_def i128_max_def)
  have nonneg: "0 \<le> queued_shares rs" if "\<forall>r\<in>set rs. 0 < wr_shares r" for rs
    using that by (auto simp: queued_shares_def less_imp_le intro!: sum_list_nonneg)
  from nonneg [OF pos] show "0 \<le> queued_shares (wq_requests q)" .
  assume "total_requested q = 0"
  with t have "queued_shares (wq_requests q) = 0" by (simp add: i128_max_def min_def split: if_splits)
  then show "wq_requests q = []"
    using pos nonneg [of "tl (wq_requests q)"] by (cases "wq_requests q") auto
qed

text \<open>C30. What a round of pro-rata fills does on every reachable queue when it returns fills: it takes from
each request exactly what it fills; with a positive amount of capital available, it empties the queue when the
capital covers the queue's total, and otherwise gives each request its shares times the available capital
divided by the total, rounded down. The total is the sum of the queued shares, capped at the largest \<open>i128\<close>; when the queued shares fit
an \<open>i128\<close> together, so that the cap does not bite, the fills never exceed the capital available.\<close>

theorem fill_conserves:
  assumes "q = fold wq_step calls wq_new" and "fill_pro_rata available q = (Ok fills, q')"
  shows "(\<forall>i. given fills i + left (wq_requests q') i = left (wq_requests q) i) \<and>
    (0 < available \<and> total_requested q \<le> available \<longrightarrow> wq_requests q' = []) \<and>
    (0 < available \<and> available < total_requested q \<longrightarrow> (\<forall>r\<in>set (wq_requests q).
      given fills (wr_id r) = wr_shares r * available div total_requested q)) \<and>
    total_requested q = min i128_max (queued_shares (wq_requests q)) \<and>
    (queued_shares (wq_requests q) \<le> i128_max \<longrightarrow> filled_shares fills \<le> max 0 available)"
proof -
  have wf: "wq_wf q" using wq_reachable assms(1) by simp
  let ?rs = "wq_requests q" and ?t = "total_requested q"
  have pos: "\<forall>r\<in>set ?rs. 0 < wr_shares r" and dist: "distinct (map wr_id ?rs)"
    using wf by (auto simp: wq_wf_def)
  note t = queue_total [OF wf]
  consider "available \<le> 0 \<or> ?t = 0" | "0 < available" "?t \<noteq> 0" "?t \<le> available" | "0 < available" "available < ?t" by linarith
  then show ?thesis
  proof cases
    case 1
    then have f: "fills = []" "q' = q" using assms(2) by (auto simp: fill_pro_rata_def)
    have "?rs = []" if "0 < available \<and> ?t \<le> available" using 1 that t(3) by linarith
    moreover have "\<not> available < ?t" if "0 < available" using 1 that by linarith
    ultimately show ?thesis using f t(1) by (fastforce simp: max_def)
  next
    case 2
    then have f: "fills = map (\<lambda>r. \<lparr>wf_id = wr_id r, wf_shares = wr_shares r\<rparr>) ?rs" "wq_requests q' = []"
      using assms(2) by (auto simp: fill_pro_rata_def)
    have "given (map (\<lambda>r. \<lparr>wf_id = wr_id r, wf_shares = wr_shares r\<rparr>) rs) i = left rs i"
      "filled_shares (map (\<lambda>r. \<lparr>wf_id = wr_id r, wf_shares = wr_shares r\<rparr>) rs) = queued_shares rs" for rs i
      by (induction rs) auto
    with f 2 t(1) show ?thesis by (auto simp: min_def split: if_splits)
  next
    case 3
    from assms(2) 3 obtain rest where l: "fill_loop available ?t ?rs = (Some fills, rest)" "wq_requests q' = rest"
      by (auto simp: fill_pro_rata_def Let_def ok_or_def split: prod.splits option.splits)
    note spec = fill_loop_spec [OF pos 3 l(1)]
    have p: "\<forall>r\<in>set ?rs. 0 \<le> part_of available ?t (wr_shares r)" using part_of_bounds(1) [OF _ 3] pos by blast
    have "filled_shares fills \<le> available" if "queued_shares ?rs \<le> i128_max"
    proof -
      have "?t * filled_shares fills \<le> ?t * available"
        using conjunct1 [OF spec] that t(1) by (simp only: mult.commute min_absorb2)
      then show ?thesis using 3 by simp
    qed
    moreover from spec l(2) fills_cover [OF p] have "given fills i + left (wq_requests q') i = left ?rs i" for i by auto
    moreover from spec given_of [OF dist _ p] have "\<forall>r\<in>set ?rs. given fills (wr_id r) = part_of available ?t (wr_shares r)" by auto
    ultimately show ?thesis using 3 t(1) by (auto simp: part_of_def)
  qed
qed

definition wq_calls :: "wq_call list" where
  "wq_calls = [WqRequest 1 100 10, WqRequest 2 300 11]"

lemma wq_calls_run:
  "fold wq_step wq_calls wq_new = \<lparr>wq_next_id = 2, wq_requests =
     [\<lparr>wr_id = 0, wr_staker = 1, wr_shares = 100, wr_requested_at = 10\<rparr>,
      \<lparr>wr_id = 1, wr_staker = 2, wr_shares = 300, wr_requested_at = 11\<rparr>]\<rparr>"
  by (simp add: wq_calls_def wq_new_def wq_request_def u64_max_def)

theorem fill_conserves_witness:
  "\<exists>fills q'. fill_pro_rata 201 (fold wq_step wq_calls wq_new) = (Ok fills, q') \<and>
     filled_shares fills \<le> 201 \<and> given fills 0 = 100 * 201 div 400 \<and> given fills 1 = 300 * 201 div 400 \<and>
     given fills 1 + left (wq_requests q') 1 = 300"
proof -
  let ?q = "fold wq_step wq_calls wq_new"
  obtain fills q' where run: "fill_pro_rata 201 ?q = (Ok fills, q')"
    by (simp add: wq_calls_run fill_pro_rata_def total_requested_def i128_clamp_def i128_opt_def int_width_defs Let_def ok_or_def)
  have t: "queued_shares (wq_requests ?q) = 400" by (simp add: wq_calls_run)
  have "total_requested ?q = 400" by (simp add: wq_calls_run total_requested_def i128_clamp_def int_width_defs)
  with fill_conserves [OF refl run] t have *: "filled_shares fills \<le> max 0 201"
    "\<forall>i. given fills i + left (wq_requests q') i = left (wq_requests ?q) i"
    "\<forall>r\<in>set (wq_requests ?q). given fills (wr_id r) = wr_shares r * 201 div 400"
    by (auto simp: i128_max_def)
  have "left (wq_requests ?q) 1 = 300" by (simp add: wq_calls_run)
  then have "given fills 1 + left (wq_requests q') 1 = 300" using *(2) by simp
  moreover have "given fills 0 = 100 * 201 div 400" "given fills 1 = 300 * 201 div 400"
    using *(3) by (simp_all add: wq_calls_run)
  ultimately show ?thesis using *(1) run by auto
qed

text \<open>An overflow half way: the first request has lost a share, and the fill that says so is gone.\<close>

theorem fill_overflow_loses_shares:
  "fill_pro_rata 3 \<lparr>wq_next_id = 2, wq_requests =
     [\<lparr>wr_id = 0, wr_staker = 1, wr_shares = 2 ^ 125, wr_requested_at = 0\<rparr>,
      \<lparr>wr_id = 1, wr_staker = 2, wr_shares = 2 ^ 126, wr_requested_at = 0\<rparr>]\<rparr> =
   (Err QuOverflow, \<lparr>wq_next_id = 2, wq_requests =
     [\<lparr>wr_id = 0, wr_staker = 1, wr_shares = 2 ^ 125 - 1, wr_requested_at = 0\<rparr>,
      \<lparr>wr_id = 1, wr_staker = 2, wr_shares = 2 ^ 126, wr_requested_at = 0\<rparr>]\<rparr>)"
  by (simp add: fill_pro_rata_def total_requested_def i128_clamp_def i128_opt_def int_width_defs Let_def ok_or_def)

text \<open>Where the queued shares do not fit an \<open>i128\<close> together, the saturated total lets a round fill more than is
available: three requests of \<open>2 ^ 126\<close> shares are all filled in full out of \<open>2 ^ 127 - 1\<close>.\<close>

theorem fill_exceeds_available:
  "let q = fold wq_step [WqRequest 1 (2 ^ 126) 0, WqRequest 2 (2 ^ 126) 0, WqRequest 3 (2 ^ 126) 0] wq_new in
   \<exists>fills q'. fill_pro_rata i128_max q = (Ok fills, q') \<and> i128_max < filled_shares fills \<and>
     filled_shares fills = 3 * 2 ^ 126 \<and> wq_requests q' = []"
  by (simp add: wq_new_def wq_request_def fill_pro_rata_def total_requested_def i128_clamp_def int_width_defs u64_max_def Let_def)

section \<open>The facility\<close>

datatype facility_error =
    FaInvalidAmount | FaUnauthorized | FaNotFound | FaExceedsCommitment | FaOverflow

record commitment =
  cm_committed :: int
  cm_called :: int
  cm_deposited :: int

record facility =
  fa_governance :: nat
  fa_providers :: "nat \<rightharpoonup> commitment"

definition commitment_default :: commitment where
  "commitment_default = \<lparr>cm_committed = 0, cm_called = 0, cm_deposited = 0\<rparr>"

definition facility_new :: "nat \<Rightarrow> facility" where
  "facility_new governance = \<lparr>fa_governance = governance, fa_providers = (\<lambda>_. None)\<rparr>"

text \<open>\<open>entry().or_default()\<close> leaves an empty entry behind when the addition overflows, so the outcome comes
with the facility as it is left.\<close>

definition facility_commit :: "nat \<Rightarrow> int \<Rightarrow> facility \<Rightarrow> (facility_error, unit) outcome \<times> facility" where
  "facility_commit provider amount f =
     (if amount \<le> 0 then (Err FaInvalidAmount, f)
      else
        let c = unwrap_or (fa_providers f provider) commitment_default;
            f = f\<lparr>fa_providers := (fa_providers f)(provider \<mapsto> c)\<rparr> in
        case i128_opt (cm_committed c + amount) of
          None \<Rightarrow> (Err FaOverflow, f)
        | Some committed \<Rightarrow>
            (Ok (), f\<lparr>fa_providers := (fa_providers f)(provider \<mapsto> c\<lparr>cm_committed := committed\<rparr>)\<rparr>))"

definition facility_deposit :: "nat \<Rightarrow> int \<Rightarrow> facility \<Rightarrow> (facility_error, unit \<times> facility) outcome" where
  "facility_deposit provider amount f =
     (if amount \<le> 0 then Err FaInvalidAmount
      else
        and_then (ok_or (fa_providers f provider) FaNotFound) (\<lambda>c.
        and_then (ok_or (i128_opt (cm_deposited c + amount)) FaOverflow) (\<lambda>deposited.
        Ok ((), f\<lparr>fa_providers := (fa_providers f)(provider \<mapsto> c\<lparr>cm_deposited := deposited\<rparr>)\<rparr>))))"

definition facility_call :: "nat \<Rightarrow> nat \<Rightarrow> int \<Rightarrow> facility \<Rightarrow> (facility_error, unit \<times> facility) outcome" where
  "facility_call caller provider amount f =
     (if caller \<noteq> fa_governance f then Err FaUnauthorized
      else if amount \<le> 0 then Err FaInvalidAmount
      else
        and_then (ok_or (fa_providers f provider) FaNotFound) (\<lambda>c.
        and_then (ok_or (i128_opt (cm_called c + amount)) FaOverflow) (\<lambda>called.
        if cm_committed c < called then Err FaExceedsCommitment
        else Ok ((), f\<lparr>fa_providers := (fa_providers f)(provider \<mapsto> c\<lparr>cm_called := called\<rparr>)\<rparr>))))"

definition facility_commitment :: "facility \<Rightarrow> nat \<Rightarrow> commitment option" where
  "facility_commitment f provider = fa_providers f provider"

definition remaining_callable :: "facility \<Rightarrow> nat \<Rightarrow> (facility_error, int option) outcome" where
  "remaining_callable f provider =
     (case fa_providers f provider of
        None \<Rightarrow> Ok None
      | Some c \<Rightarrow> and_then (i128_sub (cm_committed c) (cm_called c)) (\<lambda>r. Ok (Some r)))"

datatype facility_op = FaCommit nat int | FaDeposit nat int | FaCall nat nat int

fun facility_step :: "facility_op \<Rightarrow> facility \<Rightarrow> facility" where
  "facility_step (FaCommit p n) f = snd (facility_commit p n f)"
| "facility_step (FaDeposit p n) f = state_after f (facility_deposit p n f)"
| "facility_step (FaCall a p n) f = state_after f (facility_call a p n f)"

definition facility_wf :: "facility \<Rightarrow> bool" where
  "facility_wf f \<longleftrightarrow> (\<forall>p c. fa_providers f p = Some c \<longrightarrow>
     0 \<le> cm_called c \<and> cm_called c \<le> cm_committed c \<and> in_i128 (cm_committed c) \<and> 0 \<le> cm_deposited c)"

lemma facility_wf_set:
  "facility_wf f \<Longrightarrow> 0 \<le> cm_called c \<Longrightarrow> cm_called c \<le> cm_committed c \<Longrightarrow> in_i128 (cm_committed c) \<Longrightarrow> 0 \<le> cm_deposited c \<Longrightarrow>
   facility_wf (f\<lparr>fa_providers := (fa_providers f)(p \<mapsto> c)\<rparr>)"
  by (auto simp: facility_wf_def)

lemma facility_wfD:
  "facility_wf f \<Longrightarrow> fa_providers f p = Some c \<Longrightarrow>
   0 \<le> cm_called c \<and> cm_called c \<le> cm_committed c \<and> in_i128 (cm_committed c) \<and> 0 \<le> cm_deposited c"
  by (simp add: facility_wf_def)

lemma facility_step_wf:
  assumes "facility_wf f"
  shows "facility_wf (facility_step c f)"
proof (cases c)
  case (FaCommit p n)
  let ?c = "unwrap_or (fa_providers f p) commitment_default"
  have "0 \<le> cm_called ?c \<and> cm_called ?c \<le> cm_committed ?c \<and> in_i128 (cm_committed ?c) \<and> 0 \<le> cm_deposited ?c"
    using facility_wfD [OF assms, of p] by (cases "fa_providers f p") (auto simp: commitment_default_def)
  with FaCommit assms show ?thesis
    by (auto simp: facility_commit_def Let_def intro!: facility_wf_set split: option.splits)
next
  case (FaDeposit p n)
  with assms show ?thesis
    by (auto simp: facility_deposit_def state_after_def intro!: facility_wf_set dest: facility_wfD split: outcome.splits if_splits)
next
  case (FaCall a p n)
  with assms show ?thesis
    by (auto simp: facility_call_def state_after_def intro!: facility_wf_set dest: facility_wfD split: outcome.splits if_splits)
qed

interpretation fa: step_invariant facility_step facility_wf
  by unfold_locales (rule facility_step_wf)

text \<open>Calls never exceed the commitment: whatever operations ran on a new facility, the rest that can still be
called is a number from zero to the commitment.\<close>

theorem calls_within_commitment:
  assumes "fa_providers (fold facility_step ops (facility_new g)) p = Some c"
  shows "0 \<le> cm_called c \<and> cm_called c \<le> cm_committed c \<and>
    remaining_callable (fold facility_step ops (facility_new g)) p = Ok (Some (cm_committed c - cm_called c))"
proof -
  have "facility_wf (fold facility_step ops (facility_new g))"
    by (rule fa.fold_keeps) (simp add: facility_wf_def facility_new_def)
  then have "0 \<le> cm_called c \<and> cm_called c \<le> cm_committed c \<and> in_i128 (cm_committed c)"
    using assms unfolding facility_wf_def by blast
  moreover from this have "in_i128 (cm_committed c - cm_called c)" by (auto simp: int_width_defs)
  ultimately show ?thesis using assms by (simp add: remaining_callable_def i128_sub_def i128_checked_def)
qed

end
