(* ===== verification/Loss_Events.thy ===== *)
theory Loss_Events
  imports Soroban
begin

text \<open>
  Guardian sets, loss events and the version handshake of the shared crate
  (\<open>src/shared/src/guardians.rs\<close>, \<open>src/shared/src/loss_event.rs\<close>, \<open>src/shared/src/version.rs\<close>).

  Guardians and attesters are sets, the events a map.  Every operation checks before it writes, so
  an operation that fails leaves its value as it was and the models return the new value only with \<open>Ok\<close>.

  The lemmas: every reachable guardian set has a reachable threshold; a draw-down is authorised only
  against a declared amount that a threshold of distinct guardians attested a full delay ago.
\<close>

section \<open>Guardian sets\<close>

datatype guardian_error = GuAlreadyGuardian | GuNotAGuardian | GuInvalidThreshold

record guardian_set =
  gs_guardians :: "nat set"
  gs_threshold :: nat

definition guardian_validate :: "nat \<Rightarrow> nat \<Rightarrow> (guardian_error, unit) outcome" where
  "guardian_validate guardians threshold =
     (if threshold = 0 \<or> guardians < threshold then Err GuInvalidThreshold else Ok ())"

definition guardian_set_new :: "nat list \<Rightarrow> nat \<Rightarrow> (guardian_error, guardian_set) outcome" where
  "guardian_set_new guardians threshold =
     and_then (guardian_validate (card (set guardians)) threshold) (\<lambda>_.
     Ok \<lparr>gs_guardians = set guardians, gs_threshold = threshold\<rparr>)"

definition guardian_len :: "guardian_set \<Rightarrow> nat" where
  "guardian_len gs = card (gs_guardians gs)"

definition guardian_is_empty :: "guardian_set \<Rightarrow> bool" where
  "guardian_is_empty gs \<longleftrightarrow> gs_guardians gs = {}"

definition guardian_contains :: "guardian_set \<Rightarrow> nat \<Rightarrow> bool" where
  "guardian_contains gs g \<longleftrightarrow> g \<in> gs_guardians gs"

definition guardian_add :: "nat \<Rightarrow> guardian_set \<Rightarrow> (guardian_error, unit \<times> guardian_set) outcome" where
  "guardian_add g gs =
     (if guardian_contains gs g then Err GuAlreadyGuardian
      else Ok ((), gs\<lparr>gs_guardians := insert g (gs_guardians gs)\<rparr>))"

definition guardian_remove :: "nat \<Rightarrow> guardian_set \<Rightarrow> (guardian_error, unit \<times> guardian_set) outcome" where
  "guardian_remove g gs =
     (if \<not> guardian_contains gs g then Err GuNotAGuardian
      else
        and_then (guardian_validate (card (gs_guardians gs) - 1) (gs_threshold gs)) (\<lambda>_.
        Ok ((), gs\<lparr>gs_guardians := gs_guardians gs - {g}\<rparr>)))"

definition guardian_rotate :: "nat \<Rightarrow> nat \<Rightarrow> guardian_set \<Rightarrow> (guardian_error, unit \<times> guardian_set) outcome" where
  "guardian_rotate old new gs =
     (if \<not> guardian_contains gs old then Err GuNotAGuardian
      else if guardian_contains gs new then Err GuAlreadyGuardian
      else Ok ((), gs\<lparr>gs_guardians := insert new (gs_guardians gs - {old})\<rparr>))"

definition guardian_set_threshold :: "nat \<Rightarrow> guardian_set \<Rightarrow> (guardian_error, unit \<times> guardian_set) outcome" where
  "guardian_set_threshold threshold gs =
     and_then (guardian_validate (card (gs_guardians gs)) threshold) (\<lambda>_.
     Ok ((), gs\<lparr>gs_threshold := threshold\<rparr>))"

definition guardian_approves :: "guardian_set \<Rightarrow> nat list \<Rightarrow> bool" where
  "guardian_approves gs signers \<longleftrightarrow>
     gs_threshold gs \<le> card (set (filter (\<lambda>s. s \<in> gs_guardians gs) signers))"

datatype guardian_call = GuAdd nat | GuRemove nat | GuRotate nat nat | GuSetThreshold nat

fun guardian_exec :: "env \<Rightarrow> guardian_call \<Rightarrow> guardian_set \<Rightarrow> (guardian_error, unit \<times> guardian_set) outcome" where
  "guardian_exec e (GuAdd g) gs = guardian_add g gs"
| "guardian_exec e (GuRemove g) gs = guardian_remove g gs"
| "guardian_exec e (GuRotate a b) gs = guardian_rotate a b gs"
| "guardian_exec e (GuSetThreshold n) gs = guardian_set_threshold n gs"

definition guardian_wf :: "guardian_set \<Rightarrow> bool" where
  "guardian_wf gs \<longleftrightarrow> finite (gs_guardians gs) \<and> 1 \<le> gs_threshold gs \<and> gs_threshold gs \<le> card (gs_guardians gs)"

lemma guardian_validate_iff [simp]:
  "guardian_validate n t = Ok u \<longleftrightarrow> 1 \<le> t \<and> t \<le> n"
  by (auto simp: guardian_validate_def)

lemma guardian_exec_wf: "guardian_wf gs \<Longrightarrow> guardian_exec e c gs = Ok (u, gs') \<Longrightarrow> guardian_wf gs'"
proof (cases c)
  case (GuRotate a b)
  assume wf: "guardian_wf gs" and "guardian_exec e c gs = Ok (u, gs')"
  with GuRotate have a: "a \<in> gs_guardians gs" "b \<notin> gs_guardians gs" "gs' = gs\<lparr>gs_guardians := insert b (gs_guardians gs - {a})\<rparr>"
    by (auto simp: guardian_rotate_def guardian_contains_def split: if_splits)
  moreover have "card (insert b (gs_guardians gs - {a})) = card (gs_guardians gs)"
    using a wf by (simp add: guardian_wf_def card_Suc_Diff1)
  ultimately show ?thesis using wf by (simp add: guardian_wf_def)
qed (auto simp: guardian_add_def guardian_remove_def guardian_set_threshold_def guardian_contains_def guardian_wf_def
    card_insert_if split: if_splits)

interpretation guardians: contract_invariant guardian_exec guardian_wf
  by unfold_locales (rule guardian_exec_wf)

text \<open>C31. A guardian set is always usable: however a set that \<open>new\<close> accepted has been changed since, its
threshold lies between one and the number of its guardians, so the guardians together approve and nobody
approves without one of them.\<close>

theorem guardian_threshold_reachable:
  assumes "guardian_set_new gs0 t = Ok gs" and "gs' = run_txs guardian_exec txs gs"
  shows "1 \<le> gs_threshold gs' \<and> gs_threshold gs' \<le> guardian_len gs' \<and>
    guardian_approves gs' (sorted_list_of_set (gs_guardians gs')) \<and>
    (\<forall>signers. guardian_approves gs' signers \<longrightarrow> (\<exists>g\<in>set signers. guardian_contains gs' g))"
proof -
  have "guardian_wf gs" using assms(1) by (auto simp: guardian_set_new_def guardian_wf_def)
  then have wf: "guardian_wf gs'" using guardians.run_keeps assms(2) by simp
  then have "set (filter (\<lambda>s. s \<in> gs_guardians gs') (sorted_list_of_set (gs_guardians gs'))) = gs_guardians gs'"
    by (auto simp: guardian_wf_def)
  moreover have "\<exists>g\<in>set signers. guardian_contains gs' g" if "guardian_approves gs' signers" for signers
  proof (rule ccontr)
    assume "\<not> ?thesis"
    then have "filter (\<lambda>s. s \<in> gs_guardians gs') signers = []" by (auto simp: guardian_contains_def filter_empty_conv)
    with that wf show False by (simp add: guardian_approves_def guardian_wf_def)
  qed
  ultimately show ?thesis using wf by (simp add: guardian_wf_def guardian_approves_def guardian_len_def)
qed

definition gu_env :: env where
  "gu_env = \<lparr>timestamp = 100, ledger_seq = 1, auth = (\<lambda>_. True), this = 9\<rparr>"

theorem guardian_threshold_reachable_witness:
  "\<exists>gs gs'. guardian_set_new [1, 2, 2] 2 = Ok gs \<and> gs' = run_txs guardian_exec [(gu_env, GuRemove 1), (gu_env, GuRotate 2 7)] gs \<and>
     1 \<le> gs_threshold gs' \<and> gs_threshold gs' \<le> guardian_len gs'"
proof -
  obtain gs where "guardian_set_new [1, 2, 2] 2 = Ok gs"
    by (simp add: guardian_set_new_def guardian_validate_def card_insert_if)
  with guardian_threshold_reachable [OF this refl, of "[(gu_env, GuRemove 1), (gu_env, GuRotate 2 7)]"] show ?thesis by auto
qed

section \<open>Loss events\<close>

record loss_event =
  le_declared_at :: nat
  le_evidence :: nat
  le_amount :: int
  le_attesters :: "nat set"
  le_attested_at :: "nat option"

datatype loss_error =
    LeInvalidAmount | LeNotFound | LeNotAGuardian | LeNotAttested | LeDelayNotElapsed
  | LeExceedsDeclaredAmount | LeOverflow

record loss_events =
  ls_guardians :: guardian_set
  ls_delay :: nat
  ls_next_id :: nat
  ls_events :: "nat \<rightharpoonup> loss_event"

definition loss_events_new :: "guardian_set \<Rightarrow> nat \<Rightarrow> loss_events" where
  "loss_events_new gs delay = \<lparr>ls_guardians = gs, ls_delay = delay, ls_next_id = 0, ls_events = (\<lambda>_. None)\<rparr>"

definition is_attested :: "loss_event \<Rightarrow> bool" where
  "is_attested ev \<longleftrightarrow> le_attested_at ev \<noteq> None"

definition loss_declare :: "int \<Rightarrow> nat \<Rightarrow> nat \<Rightarrow> loss_events \<Rightarrow> (loss_error, nat \<times> loss_events) outcome" where
  "loss_declare amount evidence now ls =
     (if amount \<le> 0 then Err LeInvalidAmount
      else
        let i = ls_next_id ls in
        if u64_max < i + 1 then Err LeOverflow
        else Ok (i, ls\<lparr>ls_next_id := i + 1, ls_events := (ls_events ls)(i \<mapsto>
          \<lparr>le_declared_at = now, le_evidence = evidence, le_amount = amount, le_attesters = {}, le_attested_at = None\<rparr>)\<rparr>))"

definition loss_attest :: "nat \<Rightarrow> nat \<Rightarrow> nat \<Rightarrow> loss_events \<Rightarrow> (loss_error, unit \<times> loss_events) outcome" where
  "loss_attest i guardian now ls =
     (if \<not> guardian_contains (ls_guardians ls) guardian then Err LeNotAGuardian
      else
        and_then (ok_or (ls_events ls i) LeNotFound) (\<lambda>ev.
        let ev = ev\<lparr>le_attesters := insert guardian (le_attesters ev)\<rparr>;
            ev = (if le_attested_at ev = None \<and> guardian_approves (ls_guardians ls) (sorted_list_of_set (le_attesters ev))
                  then ev\<lparr>le_attested_at := Some now\<rparr> else ev)
        in Ok ((), ls\<lparr>ls_events := (ls_events ls)(i \<mapsto> ev)\<rparr>)))"

definition authorize_drawdown :: "nat \<Rightarrow> int \<Rightarrow> nat \<Rightarrow> loss_events \<Rightarrow> (loss_error, unit) outcome" where
  "authorize_drawdown i amount now ls =
     (if amount \<le> 0 then Err LeInvalidAmount
      else
        and_then (ok_or (ls_events ls i) LeNotFound) (\<lambda>ev.
        and_then (ok_or (le_attested_at ev) LeNotAttested) (\<lambda>attested_at.
        if now < u64_sat_add attested_at (ls_delay ls) then Err LeDelayNotElapsed
        else if le_amount ev < amount then Err LeExceedsDeclaredAmount
        else Ok ())))"

definition loss_event_of :: "loss_events \<Rightarrow> nat \<Rightarrow> loss_event option" where
  "loss_event_of ls i = ls_events ls i"

datatype loss_call = LeDeclare int nat | LeAttest nat nat

fun loss_exec :: "env \<Rightarrow> loss_call \<Rightarrow> loss_events \<Rightarrow> (loss_error, unit \<times> loss_events) outcome" where
  "loss_exec e (LeDeclare n h) ls = discard (loss_declare n h (timestamp e) ls)"
| "loss_exec e (LeAttest i g) ls = loss_attest i g (timestamp e) ls"

text \<open>The guardians that attested an event in a history.\<close>

definition attested_by :: "guardian_set \<Rightarrow> nat \<Rightarrow> (env \<times> loss_call) list \<Rightarrow> nat set" where
  "attested_by gs i txs = {g \<in> gs_guardians gs. \<exists>e. (e, LeAttest i g) \<in> set txs}"

lemma loss_exec_fixed: "loss_exec e c ls = Ok (u, ls') \<Longrightarrow> ls_guardians ls' = ls_guardians ls \<and> ls_delay ls' = ls_delay ls"
  by (cases c) (auto simp: loss_declare_def loss_attest_def Let_def split: if_splits)

lemma loss_run_fixed: "ls_guardians (run_txs loss_exec txs ls) = ls_guardians ls \<and> ls_delay (run_txs loss_exec txs ls) = ls_delay ls"
proof (induction txs arbitrary: ls)
  case (Cons tx txs)
  obtain e c where "tx = (e, c)" by (cases tx)
  with Cons show ?case by (auto simp: state_after_def dest: loss_exec_fixed split: outcome.splits prod.splits)
qed simp

definition fresh_above :: "loss_events \<Rightarrow> bool" where
  "fresh_above ls \<longleftrightarrow> (\<forall>i\<ge>ls_next_id ls. ls_events ls i = None)"

lemma loss_exec_event:
  assumes "loss_exec e c ls = Ok (u, ls')" and "fresh_above ls" and "ls_events ls' i = Some ev"
  shows "fresh_above ls' \<and>
    ((ls_events ls i = None \<and> le_attesters ev = {} \<and> le_attested_at ev = None) \<or>
     ls_events ls i = Some ev \<or>
     (\<exists>g ev0. c = LeAttest i g \<and> g \<in> gs_guardians (ls_guardians ls) \<and> ls_events ls i = Some ev0 \<and>
        le_attesters ev = insert g (le_attesters ev0) \<and>
        (le_attested_at ev = le_attested_at ev0 \<or>
         le_attested_at ev = Some (timestamp e) \<and> guardian_approves (ls_guardians ls) (sorted_list_of_set (le_attesters ev)))))"
proof (cases c)
  case (LeDeclare n h)
  with assms show ?thesis
    by (auto simp: loss_declare_def fresh_above_def Let_def split: if_splits)
next
  case (LeAttest k g)
  with assms show ?thesis
    by (cases "k = i") (auto simp: loss_attest_def fresh_above_def guardian_contains_def Let_def split: if_splits)
qed

lemma loss_exec_fresh: "fresh_above ls \<Longrightarrow> loss_exec e c ls = Ok (u, ls') \<Longrightarrow> fresh_above ls'"
  by (cases c) (auto simp: loss_declare_def loss_attest_def fresh_above_def Let_def split: if_splits)

interpretation loss_ids: contract_invariant loss_exec fresh_above
  by unfold_locales (rule loss_exec_fresh)

lemma loss_run_attesters:
  assumes "ls0 = loss_events_new gs delay" and "ls_events (run_txs loss_exec txs ls0) i = Some ev"
  shows "le_attesters ev \<subseteq> attested_by gs i txs"
  using assms(2)
proof (induction txs arbitrary: ev rule: rev_induct)
  case Nil
  then show ?case using assms(1) by (simp add: loss_events_new_def)
next
  case (snoc tx txs)
  obtain e c where tx: "tx = (e, c)" by (cases tx)
  let ?s = "run_txs loss_exec txs ls0"
  have fresh: "fresh_above ?s" by (rule loss_ids.run_keeps) (simp add: assms(1) fresh_above_def loss_events_new_def)
  have gs: "ls_guardians ?s = gs" using loss_run_fixed [of txs ls0] assms(1) by (simp add: loss_events_new_def)
  have mono: "attested_by gs i txs \<subseteq> attested_by gs i (txs @ [tx])" by (auto simp: attested_by_def)
  show ?case
  proof (cases "loss_exec e c ?s")
    case (Ok p)
    then obtain ls' where ok: "loss_exec e c ?s = Ok ((), ls')" by (cases p) auto
    with snoc.prems tx have "ls_events ls' i = Some ev" by (simp add: run_txs_append)
    from conjunct2 [OF loss_exec_event [OF ok fresh this]] snoc.IH mono gs tx show ?thesis
      by (fastforce simp: attested_by_def)
  qed (use snoc tx mono in \<open>auto simp: run_txs_append\<close>)
qed

text \<open>Capital is drawn only against an attested loss: if \<open>authorize_drawdown\<close> accepts an amount after any
history of a new registry, the amount is at most what was declared, and a guardian's attestation in that
history completed a threshold of distinct guardians who had attested this event by then, at least the
delay before now.\<close>

theorem drawdown_attested:
  assumes "ls = run_txs loss_exec txs (loss_events_new gs delay)" and "authorize_drawdown i amount now ls = Ok ()"
  shows "\<exists>ev. loss_event_of ls i = Some ev \<and> 0 < amount \<and> amount \<le> le_amount ev \<and>
    (\<exists>pre e g post. txs = pre @ (e, LeAttest i g) # post \<and> u64_sat_add (timestamp e) delay \<le> now \<and>
      gs_threshold gs \<le> card (attested_by gs i (pre @ [(e, LeAttest i g)])))"
proof -
  let ?new = "loss_events_new gs delay"
  from assms(2) obtain ev t where ev: "ls_events ls i = Some ev" "le_attested_at ev = Some t" "u64_sat_add t (ls_delay ls) \<le> now"
    "0 < amount" "amount \<le> le_amount ev"
    by (auto simp: authorize_drawdown_def split: if_splits)
  have delay: "ls_delay ls = delay" using loss_run_fixed [of txs ?new] assms(1) by (simp add: loss_events_new_def)
  let ?P = "\<lambda>s. \<exists>ev. ls_events s i = Some ev \<and> le_attested_at ev = Some t"
  obtain pre e c post u s' where o: "txs = pre @ (e, c) # post" "\<not> ?P (run_txs loss_exec pre ?new)"
    "loss_exec e c (run_txs loss_exec pre ?new) = Ok (u, s')" "?P s'"
    by (rule run_txs_origin [of ?P loss_exec txs ?new]) (use ev assms(1) in \<open>auto simp: loss_events_new_def\<close>)
  let ?s = "run_txs loss_exec pre ?new"
  have fresh: "fresh_above ?s" by (rule loss_ids.run_keeps) (simp add: fresh_above_def loss_events_new_def)
  have gs: "ls_guardians ?s = gs" using loss_run_fixed [of pre ?new] by (simp add: loss_events_new_def)
  from o(4) obtain ev' where ev': "ls_events s' i = Some ev'" "le_attested_at ev' = Some t" by blast
  from loss_exec_event [OF o(3) fresh ev'(1)] ev'(2) o(2) gs obtain g where g: "c = LeAttest i g" "t = timestamp e"
    "guardian_approves gs (sorted_list_of_set (le_attesters ev'))" by fastforce
  have "run_txs loss_exec (pre @ [(e, c)]) ?new = s'" using o(3) by (simp add: run_txs_append)
  with loss_run_attesters [OF refl, of "pre @ [(e, c)]" gs delay i ev'] ev'(1)
  have sub: "le_attesters ev' \<subseteq> attested_by gs i (pre @ [(e, c)])" by simp
  have "attested_by gs i (pre @ [(e, c)]) \<subseteq> snd ` (\<lambda>(e, c). (e, case c of LeAttest _ g \<Rightarrow> g | _ \<Rightarrow> 0)) ` set (pre @ [(e, c)])"
    by (force simp: attested_by_def image_iff)
  then have fin: "finite (attested_by gs i (pre @ [(e, c)]))" by (rule finite_subset) simp
  have "gs_threshold gs \<le> card (set (filter (\<lambda>s. s \<in> gs_guardians gs) (sorted_list_of_set (le_attesters ev'))))"
    using g(3) by (simp add: guardian_approves_def)
  also have "\<dots> \<le> card (attested_by gs i (pre @ [(e, c)]))"
    using sub finite_subset [OF sub fin] by (intro card_mono fin) auto
  finally show ?thesis using ev o(1) g(1,2) delay by (auto simp: loss_event_of_def)
qed

definition le_txs :: "(env \<times> loss_call) list" where
  "le_txs = [(gu_env, LeDeclare 500 7), (gu_env, LeAttest 0 1), (gu_env, LeAttest 0 2)]"

definition le_guardians :: guardian_set where
  "le_guardians = \<lparr>gs_guardians = {1, 2, 3}, gs_threshold = 2\<rparr>"

lemma le_run:
  "authorize_drawdown 0 400 160 (run_txs loss_exec le_txs (loss_events_new le_guardians 60)) = Ok ()"
proof -
  have sets: "{x. x = Suc 0 \<and> (x = Suc 0 \<or> x = 2 \<or> x = 3)} = {Suc 0}"
    "{x. (x = Suc 0 \<or> x = 2) \<and> (x = Suc 0 \<or> x = 2 \<or> x = 3)} = {Suc 0, 2}" by auto
  show ?thesis by (simp add: sets le_txs_def le_guardians_def loss_events_new_def loss_declare_def loss_attest_def guardian_contains_def
      guardian_approves_def authorize_drawdown_def gu_env_def u64_max_def u64_sat_add_def discard_def ok_or_def Let_def
      card_insert_if del: and_then_Ok_iff and_then_Err_iff and_then_Trap_iff discard_iff ok_or_iff)
qed

theorem drawdown_attested_witness:
  "\<exists>ev. loss_event_of (run_txs loss_exec le_txs (loss_events_new le_guardians 60)) 0 = Some ev \<and> 400 \<le> le_amount ev \<and>
    (\<exists>pre e g post. le_txs = pre @ (e, LeAttest 0 g) # post \<and> u64_sat_add (timestamp e) 60 \<le> 160 \<and>
      2 \<le> card (attested_by le_guardians 0 (pre @ [(e, LeAttest 0 g)])))"
  using drawdown_attested [OF refl le_run] by (auto simp: le_guardians_def)

section \<open>The version handshake\<close>

record version =
  ve_major :: nat
  ve_minor :: nat

record requirement =
  rq_major :: nat
  rq_min_minor :: nat

record incompatible =
  ic_provider :: version
  ic_required :: requirement

definition version_check :: "version \<Rightarrow> requirement \<Rightarrow> (incompatible, unit) outcome" where
  "version_check provider required =
     (if ve_major provider = rq_major required \<and> rq_min_minor required \<le> ve_minor provider then Ok ()
      else Err \<lparr>ic_provider = provider, ic_required = required\<rparr>)"

end
