(* ===== verification/Allowlists.thy ===== *)
theory Allowlists
  imports Wiring Contract_Registry
begin

text \<open>
  Two allowlists and the registry look-ups of the shared crates: the asset allowlist with exposure caps
  (\<open>src/shared/src/allowlist.rs\<close>), the recipient screening list (\<open>src/common/src/allowlist.rs\<close>) and the
  client side of the contract registry (\<open>src/common/src/registry.rs\<close>).

  The asset list is a map from assets to entries; \<open>entry_mut\<close> is a look-up followed by a write of the
  entry.  The screening list lives in the host contract's storage, here a map of its own.  The registry
  client calls the contract behind the registry's address, a \<open>callee\<close> of the prelude; the last section
  links it to the modelled registry.

  The lemmas: exposure is what was recorded and not released, within the cap in force when it was last
  raised; the screening list answers with the last decision; the client agrees with the registry.
\<close>

section \<open>Assets\<close>

record risk_params =
  rk_max_per_call :: int
  rk_max_exposure :: int

datatype asset_error = AsNotListed | AsDisabled | AsAlreadyListed | AsInvalidParams | AsExceedsPerCall | AsExceedsExposure

record asset_entry =
  ae_params :: risk_params
  ae_enabled :: bool
  ae_exposure :: int

type_synonym asset_list = "nat \<rightharpoonup> asset_entry"

definition asset_list_new :: asset_list where
  "asset_list_new = (\<lambda>_. None)"

definition risk_validate :: "risk_params \<Rightarrow> (asset_error, unit) outcome" where
  "risk_validate p =
     (if rk_max_per_call p \<le> 0 \<or> rk_max_exposure p < rk_max_per_call p then Err AsInvalidParams else Ok ())"

definition asset_entry_of :: "nat \<Rightarrow> asset_list \<Rightarrow> (asset_error, asset_entry) outcome" where
  "asset_entry_of asset l = ok_or (l asset) AsNotListed"

definition asset_list_add :: "nat \<Rightarrow> risk_params \<Rightarrow> asset_list \<Rightarrow> (asset_error, unit \<times> asset_list) outcome" where
  "asset_list_add asset params l =
     and_then (risk_validate params) (\<lambda>_.
     if l asset \<noteq> None then Err AsAlreadyListed
     else Ok ((), l(asset \<mapsto> \<lparr>ae_params = params, ae_enabled = True, ae_exposure = 0\<rparr>)))"

definition asset_set_params :: "nat \<Rightarrow> risk_params \<Rightarrow> asset_list \<Rightarrow> (asset_error, unit \<times> asset_list) outcome" where
  "asset_set_params asset params l =
     and_then (risk_validate params) (\<lambda>_.
     and_then (asset_entry_of asset l) (\<lambda>entry.
     Ok ((), l(asset \<mapsto> entry\<lparr>ae_params := params\<rparr>))))"

definition asset_disable :: "nat \<Rightarrow> asset_list \<Rightarrow> (asset_error, unit \<times> asset_list) outcome" where
  "asset_disable asset l =
     and_then (asset_entry_of asset l) (\<lambda>entry. Ok ((), l(asset \<mapsto> entry\<lparr>ae_enabled := False\<rparr>)))"

definition asset_enable :: "nat \<Rightarrow> asset_list \<Rightarrow> (asset_error, unit \<times> asset_list) outcome" where
  "asset_enable asset l =
     and_then (asset_entry_of asset l) (\<lambda>entry. Ok ((), l(asset \<mapsto> entry\<lparr>ae_enabled := True\<rparr>)))"

definition check_and_record :: "nat \<Rightarrow> int \<Rightarrow> asset_list \<Rightarrow> (asset_error, unit \<times> asset_list) outcome" where
  "check_and_record asset amount l =
     (if amount \<le> 0 then Err AsInvalidParams
      else
        and_then (asset_entry_of asset l) (\<lambda>entry.
        if \<not> ae_enabled entry then Err AsDisabled
        else if rk_max_per_call (ae_params entry) < amount then Err AsExceedsPerCall
        else
          and_then (ok_or (i128_opt (ae_exposure entry + amount)) AsExceedsExposure) (\<lambda>exposure.
          if rk_max_exposure (ae_params entry) < exposure then Err AsExceedsExposure
          else Ok ((), l(asset \<mapsto> entry\<lparr>ae_exposure := exposure\<rparr>)))))"

definition asset_release :: "nat \<Rightarrow> int \<Rightarrow> asset_list \<Rightarrow> (asset_error, unit \<times> asset_list) outcome" where
  "asset_release asset amount l =
     and_then (asset_entry_of asset l) (\<lambda>entry.
     and_then (i128_sub (ae_exposure entry) (max amount 0)) (\<lambda>left.
     Ok ((), l(asset \<mapsto> entry\<lparr>ae_exposure := max left 0\<rparr>))))"

definition asset_exposure :: "asset_list \<Rightarrow> nat \<Rightarrow> int option" where
  "asset_exposure l asset = map_option ae_exposure (l asset)"

datatype asset_call =
    AsList nat risk_params | AsSetParams nat risk_params | AsDisable nat | AsEnable nat
  | AsRecord nat int | AsRelease nat int

fun asset_exec :: "env \<Rightarrow> asset_call \<Rightarrow> asset_list \<Rightarrow> (asset_error, unit \<times> asset_list) outcome" where
  "asset_exec e (AsList a p) l = asset_list_add a p l"
| "asset_exec e (AsSetParams a p) l = asset_set_params a p l"
| "asset_exec e (AsDisable a) l = asset_disable a l"
| "asset_exec e (AsEnable a) l = asset_enable a l"
| "asset_exec e (AsRecord a n) l = check_and_record a n l"
| "asset_exec e (AsRelease a n) l = asset_release a n l"

text \<open>Every recorded limit is valid and every exposure a machine integer from zero.\<close>

definition asset_wf :: "asset_list \<Rightarrow> bool" where
  "asset_wf l \<longleftrightarrow> (\<forall>a en. l a = Some en \<longrightarrow> 0 < rk_max_per_call (ae_params en) \<and>
     rk_max_per_call (ae_params en) \<le> rk_max_exposure (ae_params en) \<and> 0 \<le> ae_exposure en \<and> in_i128 (ae_exposure en))"

lemma risk_validate_iff [simp]: "risk_validate p = Ok u \<longleftrightarrow> 0 < rk_max_per_call p \<and> rk_max_per_call p \<le> rk_max_exposure p"
  by (auto simp: risk_validate_def)

lemma asset_exec_wf: "asset_wf l \<Longrightarrow> asset_exec e c l = Ok (u, l') \<Longrightarrow> asset_wf l'"
proof (cases c)
  case (AsRelease a n)
  assume wf: "asset_wf l" and "asset_exec e c l = Ok (u, l')"
  with AsRelease obtain en where "l a = Some en" "in_i128 (ae_exposure en - max n 0)"
    "l' = l(a \<mapsto> en\<lparr>ae_exposure := max (ae_exposure en - max n 0) 0\<rparr>)"
    by (auto simp: asset_release_def asset_entry_of_def)
  moreover have "in_i128 (max x 0)" if "in_i128 x" for x using that by (simp add: max_def)
  ultimately show ?thesis using wf by (auto simp: asset_wf_def)
qed (auto simp: asset_list_add_def asset_set_params_def asset_disable_def asset_enable_def check_and_record_def
    asset_entry_of_def asset_wf_def split: if_splits)

interpretation assets: contract_invariant asset_exec asset_wf
  by unfold_locales (rule asset_exec_wf)

text \<open>An accepted call stays within the caps in force; a release always succeeds on a listed asset.\<close>

theorem exposure_within_caps:
  assumes "l = run_txs asset_exec txs asset_list_new" and "l a = Some en"
  shows "(check_and_record a n l = Ok (u, l') \<longrightarrow> ae_enabled en \<and> 0 < n \<and> n \<le> rk_max_per_call (ae_params en) \<and>
      asset_exposure l' a = Some (ae_exposure en + n) \<and> ae_exposure en + n \<le> rk_max_exposure (ae_params en)) \<and>
    (in_i128 n \<longrightarrow> (\<exists>l2. asset_release a n l = Ok ((), l2) \<and> asset_exposure l2 a = Some (max 0 (ae_exposure en - max n 0))))"
proof -
  have "asset_wf asset_list_new" by (simp add: asset_wf_def asset_list_new_def)
  then have "asset_wf l" unfolding assms(1) by (rule assets.run_keeps)
  with assms(2) have en: "0 \<le> ae_exposure en" "in_i128 (ae_exposure en)" by (simp_all add: asset_wf_def)
  have "in_i128 (ae_exposure en - max n 0)" if "in_i128 n"
    using en that by (auto simp: int_width_defs max_def)
  then show ?thesis using assms(2)
    by (auto simp: check_and_record_def asset_release_def asset_entry_of_def asset_exposure_def i128_sub_def i128_checked_def
        max.commute split: if_splits)
qed

section \<open>Recipients\<close>

datatype screened_status = ScAllowed | ScBlocked

datatype screening_error = ScNotListed | ScIsBlocked | ScNotAllowed

type_synonym screening = "address \<rightharpoonup> screened_status"

definition screening_allow :: "address \<Rightarrow> screening \<Rightarrow> screening" where
  "screening_allow a m = m(a \<mapsto> ScAllowed)"

definition screening_block :: "address \<Rightarrow> screening \<Rightarrow> screening" where
  "screening_block a m = m(a \<mapsto> ScBlocked)"

definition screening_remove :: "address \<Rightarrow> screening \<Rightarrow> screening" where
  "screening_remove a m = m(a := None)"

definition screening_of :: "screening \<Rightarrow> address \<Rightarrow> screened_status option" where
  "screening_of m a = m a"

definition is_allowed :: "screening \<Rightarrow> address \<Rightarrow> bool" where
  "is_allowed m a \<longleftrightarrow> screening_of m a = Some ScAllowed"

definition require_allowed :: "screening \<Rightarrow> address \<Rightarrow> (screening_error, unit) outcome" where
  "require_allowed m a =
     map_err ScNotAllowed (case screening_of m a of
        Some ScAllowed \<Rightarrow> Ok ()
      | Some ScBlocked \<Rightarrow> Err ScIsBlocked
      | None \<Rightarrow> Err ScNotListed)"

datatype screening_op = ScAllow address | ScBlock address | ScRemove address

fun screening_step :: "screening_op \<Rightarrow> screening \<Rightarrow> screening" where
  "screening_step (ScAllow a) m = screening_allow a m"
| "screening_step (ScBlock a) m = screening_block a m"
| "screening_step (ScRemove a) m = screening_remove a m"

fun screening_subject :: "screening_op \<Rightarrow> address" where
  "screening_subject (ScAllow a) = a"
| "screening_subject (ScBlock a) = a"
| "screening_subject (ScRemove a) = a"

text \<open>Only the last decision on an address counts: it may be paid exactly when that was to allow it.\<close>

theorem screening_last_decision:
  "require_allowed (fold screening_step ops (\<lambda>_. None)) a = Ok () \<longleftrightarrow>
   (\<exists>pre post. ops = pre @ ScAllow a # post \<and> (\<forall>op\<in>set post. screening_subject op \<noteq> a))"
proof (induction ops rule: rev_induct)
  case Nil
  then show ?case by (simp add: require_allowed_def screening_of_def)
next
  case (snoc op ops)
  let ?m = "fold screening_step ops (\<lambda>_. None)"
  show ?case
  proof (cases "screening_subject op = a")
    case False
    then have same: "fold screening_step (ops @ [op]) (\<lambda>_. None) a = ?m a"
      by (cases op) (auto simp: screening_allow_def screening_block_def screening_remove_def)
    have "(\<exists>pre post. ops @ [op] = pre @ ScAllow a # post \<and> (\<forall>op\<in>set post. screening_subject op \<noteq> a)) \<longleftrightarrow>
      (\<exists>pre post. ops = pre @ ScAllow a # post \<and> (\<forall>op\<in>set post. screening_subject op \<noteq> a))" (is "?L \<longleftrightarrow> ?R")
    proof
      assume ?L
      then obtain pre post where h: "ops @ [op] = pre @ ScAllow a # post" "\<forall>op\<in>set post. screening_subject op \<noteq> a" by blast
      with False have "post \<noteq> []" by auto
      then obtain post' where "post = post' @ [op]" using h(1) by (cases post rule: rev_cases) auto
      with h show ?R by auto
    next
      assume ?R
      then obtain pre post where "ops = pre @ ScAllow a # post" "\<forall>op\<in>set post. screening_subject op \<noteq> a" by blast
      with False show ?L by (intro exI [of _ pre] exI [of _ "post @ [op]"]) auto
    qed
    with snoc.IH same show ?thesis by (simp add: require_allowed_def screening_of_def)
  next
    case True
    have "(\<exists>pre post. ops @ [op] = pre @ ScAllow a # post \<and> (\<forall>op\<in>set post. screening_subject op \<noteq> a)) \<longleftrightarrow> op = ScAllow a"
      (is "?L \<longleftrightarrow> _")
    proof
      assume ?L
      then obtain pre post where h: "ops @ [op] = pre @ ScAllow a # post" "\<forall>op\<in>set post. screening_subject op \<noteq> a" by blast
      with True have "post = []" by (cases post rule: rev_cases) auto
      with h show "op = ScAllow a" by simp
    next
      assume "op = ScAllow a"
      then show ?L by (intro exI [of _ ops] exI [of _ "[]"]) simp
    qed
    moreover have "require_allowed (fold screening_step (ops @ [op]) (\<lambda>_. None)) a = Ok () \<longleftrightarrow> op = ScAllow a"
      using True by (cases op) (auto simp: require_allowed_def screening_of_def screening_allow_def screening_block_def
          screening_remove_def map_err_def)
    ultimately show ?thesis by simp
  qed
qed

section \<open>The registry client\<close>

datatype registry_role =
  RrPool | RrOracle | RrPolicy | RrGovernance | RrTimelock | RrTreasury | RrBackstop | RrBounty | RrGrants
| RrVeToken | RrMultisig

primrec registry_role_code :: "registry_role \<Rightarrow> nat" where
  "registry_role_code RrPool = 0" | "registry_role_code RrOracle = 1" | "registry_role_code RrPolicy = 2"
| "registry_role_code RrGovernance = 3" | "registry_role_code RrTimelock = 4" | "registry_role_code RrTreasury = 5"
| "registry_role_code RrBackstop = 6" | "registry_role_code RrBounty = 7" | "registry_role_code RrGrants = 8"
| "registry_role_code RrVeToken = 9" | "registry_role_code RrMultisig = 10"

text \<open>The client passes the arguments in the order of its interface and converts what it gets back; a
value of another type panics.\<close>

definition registry_resolve :: "'w callee \<Rightarrow> env \<Rightarrow> address \<Rightarrow> registry_role \<Rightarrow> 'w \<Rightarrow> ('e, address option \<times> 'w) outcome" where
  "registry_resolve callee e registry role w =
     and_then (invoke_contract callee e w registry ''get'' [VU32 (registry_role_code role)]) (\<lambda>(v, w).
     case v of VAddr a \<Rightarrow> Ok (Some a, w) | VVoid \<Rightarrow> Ok (None, w) | _ \<Rightarrow> Trap)"

definition client_is_trusted :: "'w callee \<Rightarrow> env \<Rightarrow> address \<Rightarrow> registry_role \<Rightarrow> address \<Rightarrow> 'w \<Rightarrow> ('e, bool \<times> 'w) outcome" where
  "client_is_trusted callee e registry role addr w =
     and_then (invoke_contract callee e w registry ''is_trusted'' [VU32 (registry_role_code role), VAddr addr]) (\<lambda>(v, w).
     case v of VBool b \<Rightarrow> Ok (b, w) | _ \<Rightarrow> Trap)"

fun is_trusted_any :: "'w callee \<Rightarrow> env \<Rightarrow> address \<Rightarrow> registry_role list \<Rightarrow> address \<Rightarrow> 'w \<Rightarrow> ('e, bool \<times> 'w) outcome" where
  "is_trusted_any callee e registry [] addr w = Ok (False, w)"
| "is_trusted_any callee e registry (r # rs) addr w =
     and_then (client_is_trusted callee e registry r addr w) (\<lambda>(b, w).
     if b then Ok (True, w) else is_trusted_any callee e registry rs addr w)"

subsection \<open>Linked to the registry contract\<close>

fun contract_role_of_code :: "nat \<Rightarrow> contract_role option" where
  "contract_role_of_code n =
     (if n = 0 then Some RolePool else if n = 1 then Some RoleOracle else if n = 2 then Some RolePolicy
      else if n = 3 then Some RoleGovernance else if n = 4 then Some RoleTimelock else if n = 5 then Some RoleTreasury
      else if n = 6 then Some RoleBackstop else if n = 7 then Some RoleBounty else if n = 8 then Some RoleGrants
      else if n = 9 then Some RoleVeToken else if n = 10 then Some RoleMultisig else None)"

definition contract_role_of :: "registry_role \<Rightarrow> contract_role" where
  "contract_role_of r = the (contract_role_of_code (registry_role_code r))"

text \<open>The two read entry points behind the registry's address; arguments that do not convert to the
declared types abort the call.\<close>

fun get_args :: "val list \<Rightarrow> contract_role option" where
  "get_args [VU32 n] = contract_role_of_code n"
| "get_args _ = None"

fun is_trusted_args :: "val list \<Rightarrow> (address \<times> contract_role) option" where
  "is_trusted_args [VAddr a, VU32 n] = map_option (Pair a) (contract_role_of_code n)"
| "is_trusted_args _ = None"

definition contract_registry_entry :: "env \<Rightarrow> symbol \<Rightarrow> val list \<Rightarrow> contract_registry \<Rightarrow> call_result \<times> contract_registry" where
  "contract_registry_entry e f args s =
     (if f = ''get'' then
        (case get_args args of
           Some r \<Rightarrow> (CallOk (case registry_get s r of Some a \<Rightarrow> VAddr a | None \<Rightarrow> VVoid), s)
         | None \<Rightarrow> (CallRawErr InvokeAbort, s))
      else if f = ''is_trusted'' then
        (case is_trusted_args args of
           Some (a, r) \<Rightarrow> (CallOk (VBool (is_trusted s a r)), s)
         | None \<Rightarrow> (CallRawErr InvokeAbort, s))
      else (CallRawErr InvokeAbort, s))"

lemma role_of_code: "contract_role_of_code (registry_role_code r) = Some (contract_role_of r)"
  by (cases r) (simp_all add: contract_role_of_def)

text \<open>What the linked contract answers to the two calls of the client.\<close>

lemma get_answer:
  "link reg contract_registry_entry rest e (s, w) reg ''get'' [VU32 (registry_role_code r)] =
     (CallOk (case registry_get s (contract_role_of r) of Some a \<Rightarrow> VAddr a | None \<Rightarrow> VVoid), (s, w))"
  by (simp add: link_def contract_registry_entry_def role_of_code del: contract_role_of_code.simps)

lemma is_trusted_answer:
  "link reg contract_registry_entry rest e (s, w) reg ''is_trusted'' [VU32 n, VAddr a] = (CallRawErr InvokeAbort, (s, w))"
  by (simp add: link_def contract_registry_entry_def)

lemma client_is_trusted_panics:
  "client_is_trusted (link reg contract_registry_entry rest) e reg role addr (s, w) = Trap"
  by (simp add: client_is_trusted_def invoke_contract_def is_trusted_answer)

lemma registry_resolve_answers:
  "registry_resolve (link reg contract_registry_entry rest) e reg role (s, w) = Ok (registry_get s (contract_role_of role), (s, w))"
  by (simp add: registry_resolve_def invoke_contract_def get_answer split: option.splits)

text \<open>The registry client against the registry contract: \<open>resolve\<close> answers with the registered address,
but every \<open>is_trusted\<close> and every \<open>is_trusted_any\<close> over at least one role panics whatever is registered,
because the client passes the role before the address and the contract expects the address first.\<close>

theorem registry_client_mismatch:
  "registry_resolve (link reg contract_registry_entry rest) e reg role (s, w) = Ok (registry_get s (contract_role_of role), (s, w)) \<and>
   client_is_trusted (link reg contract_registry_entry rest) e reg role addr (s, w) = Trap \<and>
   is_trusted_any (link reg contract_registry_entry rest) e reg (role # roles) addr (s, w) = Trap"
  by (simp add: registry_resolve_answers client_is_trusted_panics)

end
