(* ===== verification/Grant_Checks.thy ===== *)
theory Grant_Checks
  imports Grants_Model
begin

text \<open>
  The self-contained safeguards beside the grants: the consistency check run on a grant after a restore
  (\<open>grants/src/consistency.rs\<close>), the hash-chained audit log (\<open>grants/src/audit.rs\<close>) and the rate limiter
  (\<open>grants/src/rate_limit.rs\<close>).

  The lemmas: the check accepts exactly the grants whose books are in order, so every grant the contract
  reaches; two verified logs with the same head are the same log unless two of their own records collide
  under the hash; while the limit of an entry point does not change, the limiter accepts exactly the first
  \<open>max_calls\<close> calls of each window, and a change of the window length breaks that.
\<close>

section \<open>Consistency of a grant\<close>

datatype inconsistency = IcMilestoneSumMismatch | IcOutOfOrderConfirmation | IcClaimedWithoutConfirmation | IcClaimableMismatch

text \<open>The \<open>try_fold\<close> of checked additions, and the loop over the milestones.\<close>

fun try_total :: "int \<Rightarrow> model_milestone list \<Rightarrow> int option" where
  "try_total s [] = Some s"
| "try_total s (m # ms) = (case i128_opt (s + mm_amount m) of None \<Rightarrow> None | Some t \<Rightarrow> try_total t ms)"

fun check_milestones :: "bool \<Rightarrow> int \<Rightarrow> model_milestone list \<Rightarrow> (inconsistency, int) outcome" where
  "check_milestones seen_unconfirmed unclaimed [] = Ok unclaimed"
| "check_milestones seen_unconfirmed unclaimed (m # ms) =
     (if mm_claimed m \<and> \<not> mm_confirmed m then Err IcClaimedWithoutConfirmation
      else if mm_confirmed m then
        if seen_unconfirmed then Err IcOutOfOrderConfirmation
        else check_milestones seen_unconfirmed
               (if mm_claimed m then unclaimed else i128_clamp (unclaimed + mm_amount m)) ms
      else check_milestones True unclaimed ms)"

definition check_grant :: "model_grant \<Rightarrow> (inconsistency, unit) outcome" where
  "check_grant g =
     (if try_total 0 (mg_milestones g) \<noteq> Some (mg_total_amount g) then Err IcMilestoneSumMismatch
      else
        and_then (check_milestones False 0 (mg_milestones g)) (\<lambda>unclaimed.
        if unclaimed \<noteq> mg_claimable g then Err IcClaimableMismatch else Ok ()))"

definition unclaimed_sum :: "model_milestone list \<Rightarrow> int" where
  "unclaimed_sum ms = sum_list (map mm_amount (filter (\<lambda>m. mm_confirmed m \<and> \<not> mm_claimed m) ms))"

fun confirmed_in_order :: "model_milestone list \<Rightarrow> bool" where
  "confirmed_in_order [] = True"
| "confirmed_in_order (m # ms) \<longleftrightarrow> (mm_confirmed m \<or> (\<forall>s\<in>set ms. \<not> mm_confirmed s)) \<and> confirmed_in_order ms"

lemma try_total_eq:
  assumes "\<forall>m\<in>set ms. 0 \<le> mm_amount m" and "0 \<le> s" and "in_i128 s"
  shows "try_total s ms = i128_opt (s + sum_list (map mm_amount ms))"
  using assms
proof (induction ms arbitrary: s)
  case (Cons m ms)
  have pos: "0 \<le> sum_list (map mm_amount ms)" using Cons.prems(1) by (auto intro!: sum_list_nonneg)
  show ?case
  proof (cases "in_i128 (s + mm_amount m)")
    case True
    with Cons show ?thesis by (simp add: i128_opt_def add.assoc)
  next
    case False
    then have "\<not> in_i128 (s + (mm_amount m + sum_list (map mm_amount ms)))"
      using pos Cons.prems by (auto simp: in_i128_def)
    with False show ?thesis by (simp add: i128_opt_def)
  qed
qed (simp add: i128_opt_def)

lemma check_milestones_unconfirmed:
  "check_milestones True u ms = Ok v \<longleftrightarrow> v = u \<and> (\<forall>m\<in>set ms. \<not> mm_confirmed m \<and> \<not> mm_claimed m)"
  by (induction ms) auto

lemma unclaimed_nonneg: "\<forall>m\<in>set ms. 0 \<le> mm_amount m \<Longrightarrow> 0 \<le> unclaimed_sum ms"
  by (auto simp: unclaimed_sum_def intro!: sum_list_nonneg)

lemma unclaimed_le_total: "\<forall>m\<in>set ms. 0 \<le> mm_amount m \<Longrightarrow> unclaimed_sum ms \<le> sum_list (map mm_amount ms)"
  by (induction ms) (auto simp: unclaimed_sum_def)

lemma check_milestones_eq:
  assumes "\<forall>m\<in>set ms. 0 \<le> mm_amount m" and "0 \<le> u" and "u + sum_list (map mm_amount ms) \<le> i128_max"
  shows "check_milestones False u ms = Ok v \<longleftrightarrow>
    v = u + unclaimed_sum ms \<and> (\<forall>m\<in>set ms. mm_claimed m \<longrightarrow> mm_confirmed m) \<and> confirmed_in_order ms"
  using assms
proof (induction ms arbitrary: u)
  case (Cons m ms)
  have pos: "0 \<le> sum_list (map mm_amount ms)" using Cons.prems(1) by (auto intro!: sum_list_nonneg)
  have in_range: "in_i128 (u + mm_amount m)" using Cons.prems pos by (auto simp: in_i128_def i128_min_def)
  show ?case
  proof (cases "mm_confirmed m")
    case True
    with Cons.IH [of "if mm_claimed m then u else u + mm_amount m"] Cons.prems pos in_range show ?thesis
      by (auto simp: unclaimed_sum_def)
  next
    case False
    have "unclaimed_sum (m # ms) = 0" "confirmed_in_order ms" if "\<forall>s\<in>set ms. \<not> mm_confirmed s"
    proof -
      show "unclaimed_sum (m # ms) = 0" using that False by (simp add: unclaimed_sum_def filter_empty_conv)
      show "confirmed_in_order ms" using that by (induction ms) auto
    qed
    with False show ?thesis by (auto simp: check_milestones_unconfirmed)
  qed
qed (auto simp: unclaimed_sum_def)

text \<open>What the check accepts, for milestones that are not negative.\<close>

lemma check_grant_iff:
  assumes "\<forall>m\<in>set (mg_milestones g). 0 \<le> mm_amount m" and "in_i128 (mg_total_amount g)"
  shows "check_grant g = Ok () \<longleftrightarrow>
    mg_total_amount g = sum_list (map mm_amount (mg_milestones g)) \<and>
    mg_claimable g = unclaimed_sum (mg_milestones g) \<and>
    (\<forall>m\<in>set (mg_milestones g). mm_claimed m \<longrightarrow> mm_confirmed m) \<and> confirmed_in_order (mg_milestones g)"
proof (cases "mg_total_amount g = sum_list (map mm_amount (mg_milestones g))")
  case True
  with assms(2) have "sum_list (map mm_amount (mg_milestones g)) \<le> i128_max" by (simp add: in_i128_def)
  with check_milestones_eq [OF assms(1), of 0] True assms show ?thesis
    by (auto simp: check_grant_def try_total_eq i128_opt_def)
next
  case False
  then show ?thesis using assms by (auto simp: check_grant_def try_total_eq)
qed

lemma model_milestones_order: "confirmed_in_order (map model_milestone_of ms) \<longleftrightarrow> in_order ms"
  by (induction ms) (auto simp: model_milestone_of_def list_all_iff)

lemma grant_ok_consistent:
  assumes "grant_ok g"
  shows "check_grant (model_grant_of g) = Ok ()"
proof -
  have "sum_list (map mm_amount (map model_milestone_of (og_milestones g))) = milestone_sum (\<lambda>_. True) (og_milestones g)"
    "unclaimed_sum (map model_milestone_of (og_milestones g)) = milestone_sum (\<lambda>m. om_confirmed m \<and> \<not> om_claimed m) (og_milestones g)"
    by (simp_all add: milestone_sum_def unclaimed_sum_def model_milestone_of_def comp_def filter_map)
  moreover have "0 \<le> og_total_amount g"
    using assms milestone_sum_nonneg [of "og_milestones g" "\<lambda>_. True"] by (auto simp: grant_ok_def)
  ultimately show ?thesis using assms
    by (subst check_grant_iff)
       (auto simp: model_grant_of_def grant_ok_def model_milestones_order in_i128_def i128_min_def model_milestone_of_def less_imp_le)
qed

text \<open>What the check demands is what the contract keeps: every grant stored after any history of the grants
contract passes the consistency check, and conversely a grant with non-negative milestones that passes has
its milestones adding up to the total, confirmed in order and claimed only when confirmed, and exactly the
confirmed and unclaimed amount as claimable.\<close>

theorem stored_grants_consistent:
  "(\<forall>i g. gr_grant (fst (run_txs (grants_exec callee transfer) txs (grants_undeployed, w0))) i = Some g \<longrightarrow>
      check_grant (model_grant_of g) = Ok ()) \<and>
   (\<forall>g. check_grant g = Ok () \<and> in_i128 (mg_total_amount g) \<and> (\<forall>m\<in>set (mg_milestones g). 0 \<le> mm_amount m) \<longrightarrow>
      mg_total_amount g = sum_list (map mm_amount (mg_milestones g)) \<and>
      mg_claimable g = unclaimed_sum (mg_milestones g) \<and>
      (\<forall>m\<in>set (mg_milestones g). mm_claimed m \<longrightarrow> mm_confirmed m) \<and> confirmed_in_order (mg_milestones g))"
proof (intro conjI allI impI)
  fix i g assume "gr_grant (fst (run_txs (grants_exec callee transfer) txs (grants_undeployed, w0))) i = Some g"
  with grants_run_wf [of callee transfer txs w0] have "grant_ok g" by (auto simp: grants_wf_def)
  then show "check_grant (model_grant_of g) = Ok ()" by (rule grant_ok_consistent)
qed (use check_grant_iff in auto)

theorem stored_grants_consistent_witness:
  "check_grant (model_grant_of (the (gr_grant grants_end 0))) = Ok () \<and>
   unclaimed_sum (mg_milestones (model_grant_of (the (gr_grant grants_end 0)))) = 0"
proof -
  have g: "gr_grant (fst (run_txs (grants_exec grants_callee grants_transfer) grants_txs (grants_undeployed, 0))) 0 =
    Some (the (gr_grant grants_end 0))"
    by (simp add: grants_run grants_end_def)
  from stored_grants_consistent [of grants_callee grants_transfer grants_txs 0] g
  have ok: "check_grant (model_grant_of (the (gr_grant grants_end 0))) = Ok ()" by blast
  moreover have "in_i128 (mg_total_amount (model_grant_of (the (gr_grant grants_end 0))))"
    "\<forall>m\<in>set (mg_milestones (model_grant_of (the (gr_grant grants_end 0)))). 0 \<le> mm_amount m"
    by (simp_all add: grants_end_def model_grant_of_def model_milestone_of_def in_i128_def i128_min_def i128_max_def)
  ultimately have "mg_claimable (model_grant_of (the (gr_grant grants_end 0))) =
    unclaimed_sum (mg_milestones (model_grant_of (the (gr_grant grants_end 0))))"
    using stored_grants_consistent [of grants_callee grants_transfer grants_txs 0] by blast
  with ok show ?thesis by (simp add: grants_end_def model_grant_of_def)
qed

section \<open>The audit log\<close>

text \<open>Bytes are numbers below 256.  SHA-256 is a parameter; the only fact used of it is the length of its
digests.\<close>

fun be_bytes :: "nat \<Rightarrow> nat \<Rightarrow> nat list" where
  "be_bytes 0 n = []"
| "be_bytes (Suc k) n = be_bytes k (n div 256) @ [n mod 256]"

record audit_record =
  ar_seq :: nat
  ar_caller :: nat
  ar_action :: nat
  ar_payload_digest :: "nat list"
  ar_ledger :: nat
  ar_prev :: "nat list"
  ar_digest :: "nat list"

definition AUDIT_GENESIS :: "nat list" where "AUDIT_GENESIS = replicate 32 0"

definition chain_message :: "nat \<Rightarrow> nat \<Rightarrow> nat \<Rightarrow> nat list \<Rightarrow> nat \<Rightarrow> nat list \<Rightarrow> nat list" where
  "chain_message seq caller action payload_digest ledger prev =
     be_bytes 8 seq @ be_bytes 8 caller @ be_bytes 4 action @ payload_digest @ be_bytes 8 ledger @ prev"

definition chain_digest :: "(nat list \<Rightarrow> nat list) \<Rightarrow> nat \<Rightarrow> nat \<Rightarrow> nat \<Rightarrow> nat list \<Rightarrow> nat \<Rightarrow> nat list \<Rightarrow> nat list" where
  "chain_digest sha seq caller action payload_digest ledger prev =
     sha (chain_message seq caller action payload_digest ledger prev)"

definition audit_head :: "audit_record list \<Rightarrow> nat list" where
  "audit_head log = (if log = [] then AUDIT_GENESIS else ar_digest (last log))"

definition audit_get :: "audit_record list \<Rightarrow> nat \<Rightarrow> audit_record option" where
  "audit_get log seq = (if seq < length log then Some (log ! seq) else None)"

definition audit_append :: "(nat list \<Rightarrow> nat list) \<Rightarrow> nat \<Rightarrow> nat \<Rightarrow> nat list \<Rightarrow> nat \<Rightarrow> audit_record list \<Rightarrow> nat \<times> audit_record list" where
  "audit_append sha caller action payload ledger log =
     (let seq = length log;
          prev = audit_head log;
          payload_digest = sha payload;
          digest = chain_digest sha seq caller action payload_digest ledger prev
      in (seq, log @ [\<lparr>ar_seq = seq, ar_caller = caller, ar_action = action, ar_payload_digest = payload_digest,
            ar_ledger = ledger, ar_prev = prev, ar_digest = digest\<rparr>]))"

fun verify_chain_from :: "(nat list \<Rightarrow> nat list) \<Rightarrow> nat \<Rightarrow> nat list \<Rightarrow> audit_record list \<Rightarrow> (nat, unit) outcome" where
  "verify_chain_from sha index prev [] = Ok ()"
| "verify_chain_from sha index prev (r # rs) =
     (let expected = chain_digest sha (ar_seq r) (ar_caller r) (ar_action r) (ar_payload_digest r) (ar_ledger r) (ar_prev r)
      in if ar_seq r \<noteq> index \<or> ar_prev r \<noteq> prev \<or> ar_digest r \<noteq> expected then Err index
         else verify_chain_from sha (index + 1) (ar_digest r) rs)"

definition verify_chain :: "(nat list \<Rightarrow> nat list) \<Rightarrow> audit_record list \<Rightarrow> (nat, unit) outcome" where
  "verify_chain sha records = verify_chain_from sha 0 AUDIT_GENESIS records"

subsection \<open>The encoding is injective\<close>

lemma be_bytes_numeral: "be_bytes (numeral v) n = be_bytes (pred_numeral v) (n div 256) @ [n mod 256]"
  by (subst numeral_eq_Suc [of v]) (rule be_bytes.simps(2))

lemma be_bytes_length [simp]: "length (be_bytes k n) = k"
  by (induction k arbitrary: n) auto

lemma be_bytes_inj:
  "be_bytes k m = be_bytes k n \<Longrightarrow> m < 256 ^ k \<Longrightarrow> n < 256 ^ k \<Longrightarrow> m = n"
proof (induction k arbitrary: m n)
  case (Suc k)
  from Suc.prems have "m div 256 < 256 ^ k" "n div 256 < 256 ^ k" by (simp_all add: less_mult_imp_div_less mult.commute)
  with Suc.IH [of "m div 256" "n div 256"] Suc.prems have "m div 256 = n div 256" "m mod 256 = n mod 256" by auto
  then show ?case by (metis div_mult_mod_eq)
qed simp

text \<open>The field widths of a record: what the Rust types say.\<close>

definition record_typed :: "audit_record \<Rightarrow> bool" where
  "record_typed r \<longleftrightarrow> ar_seq r \<le> u64_max \<and> ar_caller r \<le> u64_max \<and> ar_action r \<le> u32_max \<and>
     length (ar_payload_digest r) = 32 \<and> ar_ledger r \<le> u64_max \<and> length (ar_prev r) = 32"

definition record_message :: "audit_record \<Rightarrow> nat list" where
  "record_message r = chain_message (ar_seq r) (ar_caller r) (ar_action r) (ar_payload_digest r) (ar_ledger r) (ar_prev r)"

lemma record_message_inj:
  assumes "record_message r = record_message s" and "record_typed r" and "record_typed s"
  shows "ar_seq r = ar_seq s \<and> ar_caller r = ar_caller s \<and> ar_action r = ar_action s \<and>
    ar_payload_digest r = ar_payload_digest s \<and> ar_ledger r = ar_ledger s \<and> ar_prev r = ar_prev s"
proof -
  have bytes: "be_bytes 8 (ar_seq r) = be_bytes 8 (ar_seq s)" "be_bytes 8 (ar_caller r) = be_bytes 8 (ar_caller s)"
    "be_bytes 4 (ar_action r) = be_bytes 4 (ar_action s)" "ar_payload_digest r = ar_payload_digest s"
    "be_bytes 8 (ar_ledger r) = be_bytes 8 (ar_ledger s)" "ar_prev r = ar_prev s"
    using assms by (simp_all add: record_message_def chain_message_def record_typed_def)
  moreover have "n < 256 ^ 8" if "n \<le> u64_max" for n :: nat using that by (simp add: u64_max_def)
  moreover have "n < 256 ^ 4" if "n \<le> u32_max" for n :: nat using that by (simp add: u32_max_def)
  ultimately show ?thesis using assms(2,3) by (auto simp: record_typed_def dest!: be_bytes_inj)
qed

subsection \<open>Logs with the same head\<close>

lemma verify_chain_from_snoc:
  "verify_chain_from sha i p (rs @ [r]) = Ok () \<longleftrightarrow> verify_chain_from sha i p rs = Ok () \<and> ar_seq r = i + length rs \<and>
     ar_prev r = (if rs = [] then p else ar_digest (last rs)) \<and> ar_digest r = sha (record_message r)"
  by (induction rs arbitrary: i p) (auto simp: chain_digest_def record_message_def Let_def)

lemma verify_chain_snoc:
  "verify_chain sha (rs @ [r]) = Ok () \<longleftrightarrow> verify_chain sha rs = Ok () \<and> ar_seq r = length rs \<and>
     ar_prev r = audit_head rs \<and> ar_digest r = sha (record_message r)"
  by (simp add: verify_chain_def verify_chain_from_snoc audit_head_def)

lemma audit_head_snoc [simp]: "audit_head (rs @ [r]) = ar_digest r"
  by (simp add: audit_head_def)

text \<open>Two different records of the logs that hash to the same digest.\<close>

definition records_collide :: "(nat list \<Rightarrow> nat list) \<Rightarrow> audit_record list \<Rightarrow> audit_record list \<Rightarrow> bool" where
  "records_collide sha rs ss \<longleftrightarrow> (\<exists>r\<in>set rs. \<exists>s\<in>set ss.
     record_message r \<noteq> record_message s \<and> sha (record_message r) = sha (record_message s))"

lemma same_head_same_log:
  assumes "verify_chain sha rs = Ok ()" and "verify_chain sha ss = Ok ()" and "audit_head rs = audit_head ss"
    and "length rs = length ss" and "\<forall>r\<in>set rs. record_typed r" and "\<forall>s\<in>set ss. record_typed s"
  shows "rs = ss \<or> records_collide sha rs ss"
  using assms
proof (induction rs arbitrary: ss rule: rev_induct)
  case (snoc r rs)
  from snoc.prems(4) obtain s ss' where ss: "ss = ss' @ [s]" by (cases ss rule: rev_cases) auto
  have heads: "sha (record_message r) = sha (record_message s)" "ar_digest r = ar_digest s"
    using snoc.prems(1-3) ss by (auto simp: verify_chain_snoc)
  show ?case
  proof (cases "record_message r = record_message s")
    case True
    with snoc.prems(5,6) ss have same: "ar_seq r = ar_seq s \<and> ar_caller r = ar_caller s \<and> ar_action r = ar_action s \<and>
        ar_payload_digest r = ar_payload_digest s \<and> ar_ledger r = ar_ledger s \<and> ar_prev r = ar_prev s"
      by (intro record_message_inj) auto
    with heads(2) have "r = s" by (cases r; cases s) simp
    moreover have "audit_head rs = audit_head ss'"
      using snoc.prems(1,2) ss same by (auto simp: verify_chain_snoc)
    then have "rs = ss' \<or> records_collide sha rs ss'"
      using snoc.prems ss by (intro snoc.IH) (auto simp: verify_chain_snoc)
    ultimately show ?thesis using ss by (auto simp: records_collide_def)
  next
    case False
    with heads(1) ss show ?thesis by (auto simp: records_collide_def)
  qed
qed simp

fun audit_run :: "(nat list \<Rightarrow> nat list) \<Rightarrow> (nat \<times> nat \<times> nat list \<times> nat) list \<Rightarrow> audit_record list \<Rightarrow> audit_record list" where
  "audit_run sha [] log = log"
| "audit_run sha ((caller, action, payload, ledger) # es) log =
     audit_run sha es (snd (audit_append sha caller action payload ledger log))"

definition entries_typed :: "(nat \<times> nat \<times> nat list \<times> nat) list \<Rightarrow> bool" where
  "entries_typed es \<longleftrightarrow> (\<forall>(caller, action, payload, ledger)\<in>set es. caller \<le> u64_max \<and> action \<le> u32_max \<and> ledger \<le> u64_max)"

lemma audit_append_verified:
  assumes "verify_chain sha log = Ok ()"
  shows "verify_chain sha (snd (audit_append sha c a p l log)) = Ok ()"
  using assms by (simp add: audit_append_def verify_chain_snoc chain_digest_def record_message_def Let_def)

lemma audit_run_verified: "verify_chain sha log = Ok () \<Longrightarrow> verify_chain sha (audit_run sha es log) = Ok ()"
  by (induction sha es log rule: audit_run.induct) (auto intro: audit_append_verified)

lemma audit_run_length [simp]: "length (audit_run sha es log) = length log + length es"
  by (induction sha es log rule: audit_run.induct) (auto simp: audit_append_def Let_def)

lemma audit_run_typed:
  assumes "\<forall>m. length (sha m) = 32" and "entries_typed es" and "length log + length es \<le> u64_max"
    and "\<forall>r\<in>set log. record_typed r" and "length (audit_head log) = 32"
  shows "\<forall>r\<in>set (audit_run sha es log). record_typed r"
  using assms
proof (induction sha es log rule: audit_run.induct)
  case (2 sha caller action payload ledger es log)
  let ?log = "snd (audit_append sha caller action payload ledger log)"
  have "length (audit_head ?log) = 32" using "2.prems"(1)
    by (simp add: audit_append_def chain_digest_def Let_def)
  moreover have "\<forall>r\<in>set ?log. record_typed r" using "2.prems"
    by (auto simp: audit_append_def record_typed_def entries_typed_def Let_def)
  moreover have "length ?log + length es \<le> u64_max" "entries_typed es"
    using "2.prems"(2,3) by (simp_all add: audit_append_def entries_typed_def Let_def)
  ultimately show ?case using "2.IH" "2.prems"(1) by simp
qed simp

text \<open>C32. The audit log is tamper evident: of two non-empty logs whose fields are in the ranges of their Rust
types, that both pass \<open>verify_chain\<close> and have the same head digest, either the two are equal, record by
record, or one has a record whose hashed bytes collide under the hash with those of a different record of
the other.\<close>

theorem audit_tamper_evident:
  assumes "verify_chain sha log = Ok ()" and "verify_chain sha found = Ok ()" and "audit_head found = audit_head log"
    and "log \<noteq> []" and "found \<noteq> []" and "\<forall>r\<in>set log. record_typed r" and "\<forall>r\<in>set found. record_typed r"
  shows "found = log \<or> records_collide sha found log"
proof -
  obtain l ls where l: "log = ls @ [l]" using assms(4) by (cases log rule: rev_cases) auto
  obtain f fs where f: "found = fs @ [f]" using assms(5) by (cases found rule: rev_cases) auto
  have last: "ar_seq l = length ls" "ar_seq f = length fs" "sha (record_message f) = sha (record_message l)"
    using assms(1-3) l f by (auto simp: verify_chain_snoc)
  show ?thesis
  proof (cases "record_message f = record_message l")
    case True
    then have "ar_seq f = ar_seq l" using record_message_inj [OF True] assms(6,7) l f by auto
    then have "length found = length log" using last l f by simp
    then show ?thesis using assms by (intro same_head_same_log) auto
  next
    case False
    with last(3) l f show ?thesis by (auto simp: records_collide_def)
  qed
qed

definition toy_sha :: "nat list \<Rightarrow> nat list" where
  "toy_sha m = replicate 31 0 @ [sum_list m mod 256]"

text \<open>A hash that only adds the bytes up: two different logs with the same head, and the collision between them.\<close>

theorem audit_tamper_evident_witness:
  "let log = audit_run toy_sha [(1, 2, [3], 4)] []; found = audit_run toy_sha [(2, 1, [3], 4)] [] in
     verify_chain toy_sha log = Ok () \<and> verify_chain toy_sha found = Ok () \<and> audit_head found = audit_head log \<and>
     found \<noteq> log \<and> records_collide toy_sha found log"
proof -
  let ?log = "audit_run toy_sha [(1, 2, [3], 4)] []" and ?found = "audit_run toy_sha [(2, 1, [3], 4)] []"
  have ok: "verify_chain toy_sha ?log = Ok ()" "verify_chain toy_sha ?found = Ok ()"
    by (rule audit_run_verified, simp add: verify_chain_def)+
  have sha: "\<forall>m. length (toy_sha m) = 32" by (simp add: toy_sha_def)
  have typed: "\<forall>r\<in>set ?log. record_typed r" "\<forall>r\<in>set ?found. record_typed r"
    by (rule audit_run_typed [OF sha];
        simp add: entries_typed_def u64_max_def u32_max_def audit_head_def AUDIT_GENESIS_def)+
  have ne: "?log \<noteq> []" "?found \<noteq> []" "?found \<noteq> ?log" by (simp_all add: audit_append_def Let_def)
  have "sum_list (be_bytes 8 2) = 2" "sum_list (be_bytes 8 1) = 1" "sum_list (be_bytes 4 2) = 2" "sum_list (be_bytes 4 1) = 1"
    by (simp_all add: be_bytes_numeral)
  then have head: "audit_head ?found = audit_head ?log"
    by (simp add: audit_append_def audit_head_def chain_digest_def chain_message_def toy_sha_def Let_def)
  from audit_tamper_evident [OF ok head ne(1,2) typed] ok head ne show ?thesis by (simp add: Let_def del: audit_run.simps)
qed

text \<open>What the chain does not show: a log that lost its newest records still verifies.\<close>

theorem truncated_log_verifies:
  "verify_chain sha (take k (audit_run sha es [])) = Ok ()"
proof -
  have "verify_chain sha (rs @ ss) = Ok () \<Longrightarrow> verify_chain sha rs = Ok ()" for rs ss
    by (induction ss rule: rev_induct) (auto simp: verify_chain_snoc simp flip: append_assoc)
  from this [of "take k (audit_run sha es [])" "drop k (audit_run sha es [])"] audit_run_verified [of sha "[]" es]
  show ?thesis by (simp add: verify_chain_def)
qed

section \<open>The rate limiter\<close>

record rate_limit =
  rl_max_calls :: nat
  rl_window_ledgers :: nat

datatype rate_limit_error = RlLimited | RlInvalidLimit

record rate_limiter =
  rl_default_limit :: rate_limit
  rl_limits :: "nat \<rightharpoonup> rate_limit"
  rl_counters :: "address \<times> nat \<rightharpoonup> nat \<times> nat"

definition rate_limiter_new :: "rate_limit \<Rightarrow> rate_limiter" where
  "rate_limiter_new limit = \<lparr>rl_default_limit = limit, rl_limits = (\<lambda>_. None), rl_counters = (\<lambda>_. None)\<rparr>"

definition rate_validate :: "rate_limit \<Rightarrow> (rate_limit_error, unit) outcome" where
  "rate_validate limit = (if rl_max_calls limit = 0 \<or> rl_window_ledgers limit = 0 then Err RlInvalidLimit else Ok ())"

definition rate_set_limit :: "nat \<Rightarrow> rate_limit \<Rightarrow> rate_limiter \<Rightarrow> (rate_limit_error, unit \<times> rate_limiter) outcome" where
  "rate_set_limit entrypoint limit l =
     and_then (rate_validate limit) (\<lambda>_. Ok ((), l\<lparr>rl_limits := (rl_limits l)(entrypoint \<mapsto> limit)\<rparr>))"

definition rate_limit_for :: "rate_limiter \<Rightarrow> nat \<Rightarrow> rate_limit" where
  "rate_limit_for l entrypoint = unwrap_or (rl_limits l entrypoint) (rl_default_limit l)"

text \<open>A refused call may already have reset the counter, so the outcome comes with the limiter as it is left.\<close>

definition rate_check_and_record :: "address \<Rightarrow> nat \<Rightarrow> nat \<Rightarrow> rate_limiter \<Rightarrow> (rate_limit_error, unit) outcome \<times> rate_limiter" where
  "rate_check_and_record caller entrypoint ledger l =
     (let limit = rate_limit_for l entrypoint in
      case rate_validate limit of
        Ok _ \<Rightarrow>
          let window = ledger div rl_window_ledgers limit;
              counter = unwrap_or (rl_counters l (caller, entrypoint)) (window, 0);
              counter = (if fst counter \<noteq> window then (window, 0) else counter);
              l = l\<lparr>rl_counters := (rl_counters l)((caller, entrypoint) \<mapsto> counter)\<rparr>
          in if rl_max_calls limit \<le> snd counter then (Err RlLimited, l)
             else (case u32_add (snd counter) 1 of
                 Ok n \<Rightarrow> (Ok (), l\<lparr>rl_counters := (rl_counters l)((caller, entrypoint) \<mapsto> (fst counter, n))\<rparr>)
               | Err e \<Rightarrow> (Err e, l)
               | Trap \<Rightarrow> (Trap, l))
      | Err e \<Rightarrow> (Err e, l)
      | Trap \<Rightarrow> (Trap, l))"

datatype rate_op = RlSetLimit nat rate_limit | RlCall address nat nat

fun rate_step :: "rate_op \<Rightarrow> rate_limiter \<Rightarrow> rate_limiter" where
  "rate_step (RlSetLimit i k) l = state_after l (rate_set_limit i k l)"
| "rate_step (RlCall c i t) l = snd (rate_check_and_record c i t l)"

text \<open>The ledgers at which a caller called an entrypoint, in order.\<close>

fun calls_of :: "address \<Rightarrow> nat \<Rightarrow> rate_op list \<Rightarrow> nat list" where
  "calls_of c i [] = []"
| "calls_of c i (RlSetLimit j k # ops) = calls_of c i ops"
| "calls_of c i (RlCall d j t # ops) = (if d = c \<and> j = i then t # calls_of c i ops else calls_of c i ops)"

lemma calls_of_append: "calls_of c i (xs @ ys) = calls_of c i xs @ calls_of c i ys"
  by (induction c i xs rule: calls_of.induct) auto

text \<open>The counter of a caller and an entrypoint with limit \<open>k\<close> after calls at the given ledgers.\<close>

definition counter_after :: "rate_limit \<Rightarrow> nat list \<Rightarrow> (nat \<times> nat) option" where
  "counter_after k ts =
     (if ts = [] then None
      else let w = last ts div rl_window_ledgers k in
        Some (w, min (rl_max_calls k) (length (filter (\<lambda>t. t div rl_window_ledgers k = w) ts))))"

lemma no_later_window:
  fixes t n :: nat
  assumes "sorted (ts @ [t])" and "ts \<noteq> []" and "last ts div n \<noteq> t div n"
  shows "filter (\<lambda>s. s div n = t div n) ts = []"
proof -
  obtain us u where ts: "ts = us @ [u]" using assms(2) by (cases ts rule: rev_cases) auto
  have "s div n \<noteq> t div n" if "s \<in> set ts" for s
  proof -
    have "s \<le> u" "u \<le> t" using that assms(1) ts by (auto simp: sorted_append)
    then have "s div n \<le> u div n \<and> u div n \<le> t div n" by (simp add: div_le_mono)
    with assms(3) ts show ?thesis by simp
  qed
  then show ?thesis by (simp add: filter_empty_conv)
qed

text \<open>One more call: accepted while its window has fewer than the allowed calls, and counted.\<close>

lemma check_and_record_step:
  assumes "rate_limit_for l i = k" and "rate_validate k = Ok ()" and "rl_max_calls k \<le> u32_max"
    and "rl_counters l (c, i) = counter_after k ts" and "sorted (ts @ [t])"
  shows "rl_counters (snd (rate_check_and_record c i t l)) (c, i) = counter_after k (ts @ [t]) \<and>
    fst (rate_check_and_record c i t l) =
      (if length (filter (\<lambda>s. s div rl_window_ledgers k = t div rl_window_ledgers k) ts) < rl_max_calls k
       then Ok () else Err RlLimited)"
proof -
  let ?w = "\<lambda>s. s div rl_window_ledgers k"
  let ?n = "length (filter (\<lambda>s. ?w s = ?w t) ts)"
  have pos: "0 < rl_max_calls k" using assms(2) by (simp add: rate_validate_def split: if_splits)
  define p where "p = unwrap_or (rl_counters l (c, i)) (?w t, 0)"
  have p: "(if fst p \<noteq> ?w t then (?w t, 0) else p) = (?w t, min (rl_max_calls k) ?n)"
  proof (cases "ts = []")
    case False
    with assms(4) have p: "p = (?w (last ts), min (rl_max_calls k) (length (filter (\<lambda>s. ?w s = ?w (last ts)) ts)))"
      by (simp add: p_def counter_after_def Let_def)
    show ?thesis
    proof (cases "?w (last ts) = ?w t")
      case False
      from no_later_window [OF assms(5) \<open>ts \<noteq> []\<close> this] False p show ?thesis by simp
    qed (use p in simp)
  qed (use assms(4) in \<open>simp add: p_def counter_after_def\<close>)
  have after: "counter_after k (ts @ [t]) = Some (?w t, min (rl_max_calls k) (Suc ?n))"
    by (simp add: counter_after_def Let_def)
  show ?thesis
  proof (cases "?n < rl_max_calls k")
    case True
    then have "Suc ?n \<le> u32_max" using assms(3) by simp
    with True show ?thesis using assms(2) after
      unfolding rate_check_and_record_def Let_def assms(1) p_def [symmetric] p by (simp add: u32_add_def)
  next
    case False
    with assms(2) after show ?thesis
      unfolding rate_check_and_record_def Let_def assms(1) p_def [symmetric] p by simp
  qed
qed

text \<open>Calls by others and to other entrypoints leave the counter alone.\<close>

lemma check_and_record_other:
  "(d, j) \<noteq> (c, i) \<Longrightarrow> rl_counters (snd (rate_check_and_record d j t l)) (c, i) = rl_counters l (c, i)"
  by (auto simp: rate_check_and_record_def Let_def split: outcome.splits)

lemma check_and_record_limits:
  "rate_limit_for (snd (rate_check_and_record d j t l)) i = rate_limit_for l i"
  by (auto simp: rate_check_and_record_def rate_limit_for_def Let_def split: outcome.splits)

lemma set_limit_other:
  "j \<noteq> i \<Longrightarrow> rate_limit_for (state_after l (rate_set_limit j k l)) i = rate_limit_for l i \<and>
     rl_counters (state_after l (rate_set_limit j k l)) = rl_counters l"
  by (auto simp: rate_set_limit_def rate_validate_def rate_limit_for_def)

lemma rate_run:
  assumes "rate_limit_for l0 i = k" and "rl_counters l0 (c, i) = None" and "rate_validate k = Ok ()" and "rl_max_calls k \<le> u32_max"
    and "\<forall>k'. RlSetLimit i k' \<notin> set ops" and "sorted (calls_of c i ops)"
  shows "rate_limit_for (fold rate_step ops l0) i = k \<and>
    rl_counters (fold rate_step ops l0) (c, i) = counter_after k (calls_of c i ops)"
  using assms(5,6)
proof (induction ops rule: rev_induct)
  case Nil
  then show ?case using assms(1,2) by (simp add: counter_after_def)
next
  case (snoc op ops)
  let ?l = "fold rate_step ops l0"
  have IH: "rate_limit_for ?l i = k" "rl_counters ?l (c, i) = counter_after k (calls_of c i ops)"
    using snoc by (simp_all add: calls_of_append sorted_append)
  show ?case
  proof (cases op)
    case (RlSetLimit j k')
    with snoc.prems(1) have "j \<noteq> i" by auto
    with IH RlSetLimit set_limit_other [of j i ?l k'] show ?thesis by (simp add: calls_of_append)
  next
    case (RlCall d j t)
    show ?thesis
    proof (cases "(d, j) = (c, i)")
      case True
      with RlCall snoc.prems(2) have "sorted (calls_of c i ops @ [t])" by (simp add: calls_of_append)
      from check_and_record_step [OF IH(1) assms(3,4) IH(2) this] True RlCall IH(1) show ?thesis
        by (simp add: calls_of_append check_and_record_limits)
    next
      case False
      with RlCall IH show ?thesis
        by (auto simp: calls_of_append check_and_record_limits check_and_record_other)
    qed
  qed
qed

text \<open>C33. The rate limiter lets through exactly the first calls of each window, as long as the limit of the entry
point does not change: from a limiter with a valid limit for it and no counter of the caller on it, after any
operations that do not set the limit of this entry point (limits of others may change, others may call), and
with the ledgers of the caller's calls on it in order, a call is accepted if the caller has tried it fewer
than \<open>max_calls\<close> times in the ledger window the call falls in, and refused with \<open>Limited\<close> otherwise.\<close>

theorem rate_limit_exact:
  assumes "rate_limit_for l0 i = k" and "rl_counters l0 (c, i) = None" and "rate_validate k = Ok ()" and "rl_max_calls k \<le> u32_max"
    and "\<forall>k'. RlSetLimit i k' \<notin> set ops" and "sorted (calls_of c i ops @ [t])"
  shows "fst (rate_check_and_record c i t (fold rate_step ops l0)) =
    (if length (filter (\<lambda>s. s div rl_window_ledgers k = t div rl_window_ledgers k) (calls_of c i ops)) < rl_max_calls k
     then Ok () else Err RlLimited)"
proof -
  have "sorted (calls_of c i ops)" using assms(6) by (simp add: sorted_append)
  from rate_run [OF assms(1-5) this] check_and_record_step [OF _ assms(3,4) _ assms(6)] show ?thesis by blast
qed

theorem rate_limit_exact_witness:
  "fst (rate_check_and_record 1 7 14 (fold rate_step [RlCall 1 7 8, RlCall 1 7 11, RlCall 2 7 12, RlCall 1 7 13]
     (rate_limiter_new \<lparr>rl_max_calls = 2, rl_window_ledgers = 10\<rparr>))) = Err RlLimited"
  by (subst rate_limit_exact [of _ 7 "\<lparr>rl_max_calls = 2, rl_window_ledgers = 10\<rparr>"])
     (simp_all add: rate_limiter_new_def rate_limit_for_def rate_validate_def u32_max_def)

text \<open>
  A change of the window length reuses the window index that was stored under the old length. Two calls at
  ledgers 10 and 11 use up window 1 of length 10. With windows of 100 ledgers, a call at ledger 150, in the new
  window 1, is refused although it is the first of that window; with windows of 5 ledgers, two more calls at
  ledgers 12 and 13 are accepted, four in the window from 10 to 14 whose limit is two.
\<close>

theorem rate_limit_stale_window:
  "let k = \<lparr>rl_max_calls = 2, rl_window_ledgers = 10\<rparr>; l0 = rate_limiter_new k; old = [RlCall 1 7 10, RlCall 1 7 11] in
     fst (rate_check_and_record 1 7 150 (fold rate_step (old @ [RlSetLimit 7 (k\<lparr>rl_window_ledgers := 100\<rparr>)]) l0)) = Err RlLimited \<and>
     fst (rate_check_and_record 1 7 12 (fold rate_step (old @ [RlSetLimit 7 (k\<lparr>rl_window_ledgers := 5\<rparr>)]) l0)) = Ok () \<and>
     fst (rate_check_and_record 1 7 13
       (fold rate_step (old @ [RlSetLimit 7 (k\<lparr>rl_window_ledgers := 5\<rparr>), RlCall 1 7 12]) l0)) = Ok ()"
  by (simp add: rate_limiter_new_def rate_limit_for_def rate_validate_def rate_check_and_record_def rate_set_limit_def
      u32_add_def u32_max_def Let_def)

end
