(* ===== verification/Grant_Funds.thy ===== *)
theory Grant_Funds
  imports Soroban "HOL-Library.Product_Lexorder"
begin

text \<open>
  The money books beside the grants: decimal conversion (\<open>grants/src/amounts.rs\<close>), budget lines
  (\<open>grants/src/budget.rs\<close>), funding programs and rounds (\<open>grants/src/programs.rs\<close>), reviewer compensation
  (\<open>grants/src/compensation.rs\<close>), applicant bonds (\<open>grants/src/bond.rs\<close>) and reviewer stakes
  (\<open>grants/src/reviewer_stake.rs\<close>).

  They are plain Rust values: an operation that may have written before it fails returns its outcome
  together with the value it leaves.  A history of operations is a \<open>fold\<close> over a book and the sums of the
  money that went in and out (\<open>moved\<close>); the lemmas show that each book holds exactly the difference.
\<close>

section \<open>Decimals\<close>

definition AMOUNTS_PROTOCOL_DECIMALS :: nat where "AMOUNTS_PROTOCOL_DECIMALS = 7"
definition MAX_DECIMALS :: nat where "MAX_DECIMALS = 18"

datatype amount_error = AmUnsupportedDecimals | AmOverflow

definition convert_amount :: "int \<Rightarrow> nat \<Rightarrow> nat \<Rightarrow> (amount_error, int) outcome" where
  "convert_amount amount from_dec to_dec =
     (if MAX_DECIMALS < from_dec \<or> MAX_DECIMALS < to_dec then Err AmUnsupportedDecimals
      else if from_dec = to_dec then Ok amount
      else if from_dec < to_dec then ok_or (i128_opt (amount * 10 ^ (to_dec - from_dec))) AmOverflow
      else Ok (trunc_div amount (10 ^ (from_dec - to_dec))))"

definition to_protocol :: "int \<Rightarrow> nat \<Rightarrow> (amount_error, int) outcome" where
  "to_protocol amount token_decimals = convert_amount amount token_decimals AMOUNTS_PROTOCOL_DECIMALS"

definition from_protocol :: "int \<Rightarrow> nat \<Rightarrow> (amount_error, int) outcome" where
  "from_protocol amount token_decimals = convert_amount amount AMOUNTS_PROTOCOL_DECIMALS token_decimals"

lemma trunc_div_times:
  assumes "0 < f"
  shows "\<bar>trunc_div a f * f\<bar> \<le> \<bar>a\<bar> \<and> \<bar>a\<bar> - \<bar>trunc_div a f * f\<bar> < f \<and>
    (0 \<le> a \<longrightarrow> 0 \<le> trunc_div a f * f) \<and> (a \<le> 0 \<longrightarrow> trunc_div a f * f \<le> 0)"
proof -
  have q: "0 \<le> \<bar>a\<bar> div f" using assms by (simp add: pos_imp_zdiv_nonneg_iff)
  then have "\<bar>trunc_div a f * f\<bar> = \<bar>a\<bar> div f * f"
    using assms by (cases "a = 0") (auto simp: trunc_div_def abs_mult abs_sgn_eq)
  moreover have "\<bar>a\<bar> = \<bar>a\<bar> div f * f + \<bar>a\<bar> mod f" "0 \<le> \<bar>a\<bar> mod f" "\<bar>a\<bar> mod f < f" using assms by simp_all
  moreover have "0 \<le> a \<longrightarrow> 0 \<le> trunc_div a f * f" "a \<le> 0 \<longrightarrow> trunc_div a f * f \<le> 0"
    using q assms by (auto simp: trunc_div_def sgn_if)
  ultimately show ?thesis by linarith
qed

lemma trunc_div_mult: "0 < f \<Longrightarrow> trunc_div (a * f) f = a"
  by (simp add: trunc_div_def abs_mult sgn_mult abs_sgn)

text \<open>To the protocol's decimals and back: exact for tokens with at most seven decimals; otherwise what comes
back is never more than what was given and less by under one protocol unit.\<close>

theorem amounts_roundtrip:
  assumes "in_i128 a" and "to_protocol a d = Ok p"
  shows "\<exists>b. from_protocol p d = Ok b \<and> \<bar>b\<bar> \<le> \<bar>a\<bar> \<and> \<bar>a\<bar> - \<bar>b\<bar> < 10 ^ (d - 7) \<and> (0 \<le> a \<longrightarrow> 0 \<le> b)"
proof -
  have d: "d \<le> 18" using assms(2) by (auto simp: to_protocol_def convert_amount_def MAX_DECIMALS_def split: if_splits)
  consider "d = 7" | "d < 7" | "7 < d" by linarith
  then show ?thesis
  proof cases
    case 1
    then show ?thesis using assms(2) by (auto simp: to_protocol_def from_protocol_def convert_amount_def AMOUNTS_PROTOCOL_DECIMALS_def MAX_DECIMALS_def)
  next
    case 2
    with assms(2) d have "p = a * 10 ^ (7 - d)"
      by (auto simp: to_protocol_def convert_amount_def AMOUNTS_PROTOCOL_DECIMALS_def MAX_DECIMALS_def)
    with 2 d show ?thesis
      by (simp add: from_protocol_def convert_amount_def AMOUNTS_PROTOCOL_DECIMALS_def MAX_DECIMALS_def trunc_div_mult)
  next
    case 3
    let ?f = "10 ^ (d - 7) :: int"
    have p: "p = trunc_div a ?f" using assms(2) 3 d
      by (auto simp: to_protocol_def convert_amount_def AMOUNTS_PROTOCOL_DECIMALS_def MAX_DECIMALS_def)
    have b: "\<bar>p * ?f\<bar> \<le> \<bar>a\<bar> \<and> \<bar>a\<bar> - \<bar>p * ?f\<bar> < ?f \<and> (0 \<le> a \<longrightarrow> 0 \<le> p * ?f) \<and> (a \<le> 0 \<longrightarrow> p * ?f \<le> 0)"
      unfolding p by (rule trunc_div_times) simp
    then have "in_i128 (p * ?f)" using assms(1) unfolding in_i128_def i128_max_def i128_min_def by linarith
    with b 3 d show ?thesis
      by (simp add: from_protocol_def convert_amount_def AMOUNTS_PROTOCOL_DECIMALS_def MAX_DECIMALS_def i128_opt_def ok_or_def)
  qed
qed

section \<open>Budget lines\<close>

datatype budget_error = BuUnauthorized | BuInvalidAmount | BuOverBudget | BuNoLine | BuOverflow

record line_item =
  li_allocated :: int
  li_disbursed :: int

definition line_default :: line_item where
  "line_default = \<lparr>li_allocated = 0, li_disbursed = 0\<rparr>"

definition line_variance :: "line_item \<Rightarrow> ('e, int) outcome" where
  "line_variance l = i128_sub (li_allocated l) (li_disbursed l)"

record budget =
  bu_governance :: nat
  bu_lines :: "(nat \<times> nat, line_item) btree"

definition budget_new :: "nat \<Rightarrow> budget" where
  "budget_new governance = \<lparr>bu_governance = governance, bu_lines = []\<rparr>"

definition budget_require_governance :: "nat \<Rightarrow> budget \<Rightarrow> (budget_error, unit) outcome" where
  "budget_require_governance caller b = (if caller \<noteq> bu_governance b then Err BuUnauthorized else Ok ())"

definition budget_allocate :: "nat \<Rightarrow> nat \<Rightarrow> nat \<Rightarrow> int \<Rightarrow> budget \<Rightarrow> (budget_error, unit) outcome \<times> budget" where
  "budget_allocate caller grant category amount b =
     (case budget_require_governance caller b of
        Ok _ \<Rightarrow>
          if amount \<le> 0 then (Err BuInvalidAmount, b)
          else
            let line = unwrap_or (map_of (bu_lines b) (grant, category)) line_default;
                b = b\<lparr>bu_lines := btree_insert (grant, category) line (bu_lines b)\<rparr>
            in (case i128_opt (li_allocated line + amount) of
                  None \<Rightarrow> (Err BuOverflow, b)
                | Some allocated \<Rightarrow>
                    (Ok (), b\<lparr>bu_lines := btree_insert (grant, category) (line\<lparr>li_allocated := allocated\<rparr>) (bu_lines b)\<rparr>))
      | Err e \<Rightarrow> (Err e, b)
      | Trap \<Rightarrow> (Trap, b))"

definition budget_disburse :: "nat \<Rightarrow> nat \<Rightarrow> nat \<Rightarrow> int \<Rightarrow> budget \<Rightarrow> (budget_error, unit \<times> budget) outcome" where
  "budget_disburse caller grant category amount b =
     and_then (budget_require_governance caller b) (\<lambda>_.
     if amount \<le> 0 then Err BuInvalidAmount
     else
       and_then (ok_or (map_of (bu_lines b) (grant, category)) BuNoLine) (\<lambda>line.
       and_then (ok_or (i128_opt (li_disbursed line + amount)) BuOverflow) (\<lambda>disbursed.
       if li_allocated line < disbursed then Err BuOverBudget
       else Ok ((), b\<lparr>bu_lines := btree_insert (grant, category) (line\<lparr>li_disbursed := disbursed\<rparr>) (bu_lines b)\<rparr>))))"

definition budget_line :: "budget \<Rightarrow> nat \<Rightarrow> nat \<Rightarrow> line_item option" where
  "budget_line b grant category = map_of (bu_lines b) (grant, category)"

text \<open>The iterator over the key range of a grant.\<close>

fun variance_rows :: "((nat \<times> nat) \<times> line_item) list \<Rightarrow> ('e, (nat \<times> line_item \<times> int) list) outcome" where
  "variance_rows [] = Ok []"
| "variance_rows (((_, category), line) # rows) =
     and_then (line_variance line) (\<lambda>v. and_then (variance_rows rows) (\<lambda>report. Ok ((category, line, v) # report)))"

definition variance_report :: "budget \<Rightarrow> nat \<Rightarrow> ('e, (nat \<times> line_item \<times> int) list) outcome" where
  "variance_report b grant =
     variance_rows (filter (\<lambda>(k, _). (grant, 0) \<le> k \<and> k \<le> (grant, u32_max)) (bu_lines b))"

datatype budget_op = BuAllocate nat nat nat int | BuDisburse nat nat nat int

fun budget_step :: "budget_op \<Rightarrow> budget \<Rightarrow> budget" where
  "budget_step (BuAllocate a g c n) b = snd (budget_allocate a g c n b)"
| "budget_step (BuDisburse a g c n) b = state_after b (budget_disburse a g c n b)"

definition budget_wf :: "budget \<Rightarrow> bool" where
  "budget_wf b \<longleftrightarrow> sorted_wrt (<) (map fst (bu_lines b)) \<and>
     (\<forall>k l. map_of (bu_lines b) k = Some l \<longrightarrow> 0 \<le> li_disbursed l \<and> li_disbursed l \<le> li_allocated l \<and> in_i128 (li_allocated l))"

lemma budget_wf_insert:
  "budget_wf b \<Longrightarrow> 0 \<le> li_disbursed l \<Longrightarrow> li_disbursed l \<le> li_allocated l \<Longrightarrow> in_i128 (li_allocated l) \<Longrightarrow>
   budget_wf (b\<lparr>bu_lines := btree_insert k l (bu_lines b)\<rparr>)"
  by (auto simp: budget_wf_def map_of_btree_insert btree_insert_sorted)

lemma budget_wfD:
  "budget_wf b \<Longrightarrow> map_of (bu_lines b) k = Some l \<Longrightarrow>
   0 \<le> li_disbursed l \<and> li_disbursed l \<le> li_allocated l \<and> in_i128 (li_allocated l)"
  unfolding budget_wf_def by blast

lemma budget_step_wf:
  assumes "budget_wf b"
  shows "budget_wf (budget_step op b)"
proof (cases op)
  case (BuAllocate a g c n)
  let ?l = "unwrap_or (map_of (bu_lines b) (g, c)) line_default"
  have l: "0 \<le> li_disbursed ?l" "li_disbursed ?l \<le> li_allocated ?l" "in_i128 (li_allocated ?l)"
    using budget_wfD [OF assms, of "(g, c)"] by (cases "map_of (bu_lines b) (g, c)"; simp add: line_default_def)+
  from budget_wf_insert [OF assms l] have "budget_wf (b\<lparr>bu_lines := btree_insert (g, c) ?l (bu_lines b)\<rparr>)" .
  with BuAllocate assms l show ?thesis
    by (auto simp: budget_allocate_def budget_require_governance_def Let_def
        intro!: budget_wf_insert [of "_\<lparr>bu_lines := _\<rparr>", simplified] split: option.splits)
next
  case (BuDisburse a g c n)
  with assms show ?thesis
    by (auto simp: budget_disburse_def budget_require_governance_def state_after_def
        intro!: budget_wf_insert dest: budget_wfD split: outcome.splits if_splits)
qed

interpretation budget: step_invariant budget_step budget_wf
  by unfold_locales (rule budget_step_wf)

definition report_of :: "((nat \<times> nat) \<times> line_item) list \<Rightarrow> (nat \<times> line_item \<times> int) list" where
  "report_of rows = map (\<lambda>(k, l). (snd k, l, li_allocated l - li_disbursed l)) rows"

lemma report_of_member:
  "(c, l, v) \<in> set (report_of rows) \<longleftrightarrow> (\<exists>g. ((g, c), l) \<in> set rows) \<and> v = li_allocated l - li_disbursed l"
  by (induction rows) (auto simp: report_of_def)

lemma report_of_keys: "map fst (report_of rows) = map snd (map fst rows)"
  by (simp add: report_of_def case_prod_beta comp_def)

lemma variance_rows_Ok:
  "\<forall>(k, l)\<in>set rows. 0 \<le> li_disbursed l \<and> li_disbursed l \<le> li_allocated l \<and> in_i128 (li_allocated l) \<Longrightarrow>
   variance_rows rows = Ok (report_of rows)"
proof (induction rows rule: variance_rows.induct)
  case (2 g c l rows)
  then have "in_i128 (li_allocated l - li_disbursed l)" by (auto simp: in_i128_def i128_min_def)
  with 2 show ?case by (simp add: line_variance_def i128_sub_def i128_checked_def report_of_def)
qed (simp add: report_of_def)

text \<open>The variance report of a grant: whatever allocations and disbursements ran, the report returns, it lists the
grant's lines once each, and every line is underspent or exactly spent.\<close>

theorem variance_report_exact:
  assumes "b = fold budget_step ops (budget_new g0)" and "\<forall>k\<in>fst ` set (bu_lines b). snd k \<le> u32_max"
  shows "\<exists>report. variance_report b g = Ok report \<and> distinct (map fst report) \<and>
    (\<forall>c l v. (c, l, v) \<in> set report \<longleftrightarrow> budget_line b g c = Some l \<and> v = li_allocated l - li_disbursed l) \<and>
    (\<forall>(c, l, v)\<in>set report. 0 \<le> v \<and> v \<le> li_allocated l)"
proof -
  have wf: "budget_wf b" unfolding assms(1) by (rule budget.fold_keeps) (simp add: budget_wf_def budget_new_def)
  define rows where "rows = filter (\<lambda>(k, _). (g, 0) \<le> k \<and> k \<le> (g, u32_max)) (bu_lines b)"
  have entry: "map_of (bu_lines b) k = Some l \<longleftrightarrow> (k, l) \<in> set (bu_lines b)" for k l
    using wf by (intro map_of_sorted) (simp add: budget_wf_def)
  have rows: "(k, l) \<in> set rows \<longleftrightarrow> fst k = g \<and> map_of (bu_lines b) k = Some l" for k l
    using assms(2) by (cases k) (force simp: rows_def entry less_eq_prod_def)
  have ok: "\<forall>(k, l)\<in>set rows. 0 \<le> li_disbursed l \<and> li_disbursed l \<le> li_allocated l \<and> in_i128 (li_allocated l)"
    using rows budget_wfD [OF wf] by blast
  have "variance_report b g = Ok (report_of rows)"
    unfolding variance_report_def rows_def [symmetric] by (rule variance_rows_Ok [OF ok])
  moreover have member: "(c, l, v) \<in> set (report_of rows) \<longleftrightarrow>
      budget_line b g c = Some l \<and> v = li_allocated l - li_disbursed l" for c l v
    using rows [of "(_, c)" l] by (auto simp: report_of_member budget_line_def)
  moreover have "distinct (map fst (report_of rows))"
  proof -
    have "distinct (map fst (bu_lines b))" using wf by (simp add: budget_wf_def strict_sorted_iff)
    then have "distinct (map fst rows)" unfolding rows_def by (rule distinct_map_filter)
    moreover have "fst k = g" if "k \<in> set (map fst rows)" for k using that rows by force
    then have "inj_on snd (set (map fst rows))" by (intro inj_onI prod_eqI) simp_all
    ultimately show ?thesis by (simp only: report_of_keys distinct_map)
  qed
  moreover have "\<forall>(c, l, v)\<in>set (report_of rows). 0 \<le> v \<and> v \<le> li_allocated l"
    using member budget_wfD [OF wf] by (auto simp: budget_line_def)
  ultimately show ?thesis by blast
qed

section \<open>Programs and rounds\<close>

datatype program_error =
  PgUnauthorized | PgInvalidAmount | PgDuplicateProgram | PgUnknownProgram | PgOverProgramBudget | PgInvalidWindow | PgUnknownRound

record program =
  pg_budget :: int
  pg_remaining :: int
  pg_eligibility :: nat

record program_round =
  rd_program :: nat
  rd_budget :: int
  rd_opens_at :: nat
  rd_closes_at :: nat

record program_registry =
  pr_governance :: nat
  pr_programs :: "nat \<rightharpoonup> program"
  pr_rounds :: "nat \<rightharpoonup> program_round"
  pr_next_round :: nat

definition program_registry_new :: "nat \<Rightarrow> program_registry" where
  "program_registry_new governance =
     \<lparr>pr_governance = governance, pr_programs = (\<lambda>_. None), pr_rounds = (\<lambda>_. None), pr_next_round = 0\<rparr>"

definition program_require_governance :: "nat \<Rightarrow> program_registry \<Rightarrow> (program_error, unit) outcome" where
  "program_require_governance caller r = (if caller \<noteq> pr_governance r then Err PgUnauthorized else Ok ())"

definition register_program :: "nat \<Rightarrow> nat \<Rightarrow> int \<Rightarrow> nat \<Rightarrow> program_registry \<Rightarrow> (program_error, unit \<times> program_registry) outcome" where
  "register_program caller p budget eligibility r =
     and_then (program_require_governance caller r) (\<lambda>_.
     if budget \<le> 0 then Err PgInvalidAmount
     else if pr_programs r p \<noteq> None then Err PgDuplicateProgram
     else Ok ((), r\<lparr>pr_programs := (pr_programs r)(p \<mapsto>
       \<lparr>pg_budget = budget, pg_remaining = budget, pg_eligibility = eligibility\<rparr>)\<rparr>))"

definition open_round :: "nat \<Rightarrow> nat \<Rightarrow> int \<Rightarrow> nat \<Rightarrow> nat \<Rightarrow> program_registry \<Rightarrow> (program_error, nat \<times> program_registry) outcome" where
  "open_round caller p budget opens_at closes_at r =
     and_then (program_require_governance caller r) (\<lambda>_.
     if budget \<le> 0 then Err PgInvalidAmount
     else if closes_at \<le> opens_at then Err PgInvalidWindow
     else
       and_then (ok_or (pr_programs r p) PgUnknownProgram) (\<lambda>entry.
       if pg_remaining entry < budget then Err PgOverProgramBudget
       else
         and_then (i128_sub (pg_remaining entry) budget) (\<lambda>remaining.
         let i = pr_next_round r in
         and_then (u64_add i 1) (\<lambda>next.
         Ok (i, r\<lparr>pr_programs := (pr_programs r)(p \<mapsto> entry\<lparr>pg_remaining := remaining\<rparr>), pr_next_round := next,
           pr_rounds := (pr_rounds r)(i \<mapsto>
             \<lparr>rd_program = p, rd_budget = budget, rd_opens_at = opens_at, rd_closes_at = closes_at\<rparr>)\<rparr>)))))"

definition round_is_open :: "program_registry \<Rightarrow> nat \<Rightarrow> nat \<Rightarrow> (program_error, bool) outcome" where
  "round_is_open r i now =
     and_then (ok_or (pr_rounds r i) PgUnknownRound) (\<lambda>rd. Ok (rd_opens_at rd \<le> now \<and> now < rd_closes_at rd))"

definition program_of :: "program_registry \<Rightarrow> nat \<Rightarrow> program option" where
  "program_of r p = pr_programs r p"

definition round_of :: "program_registry \<Rightarrow> nat \<Rightarrow> program_round option" where
  "round_of r i = pr_rounds r i"

datatype program_call = PgRegister nat nat int nat | PgOpenRound nat nat int nat nat

fun program_exec :: "env \<Rightarrow> program_call \<Rightarrow> program_registry \<Rightarrow> (program_error, unit \<times> program_registry) outcome" where
  "program_exec e (PgRegister a p n h) r = register_program a p n h r"
| "program_exec e (PgOpenRound a p n t u) r = discard (open_round a p n t u r)"

text \<open>What the rounds of a program were given.\<close>

definition rounds_of :: "nat \<Rightarrow> program_round \<Rightarrow> int" where
  "rounds_of p rd = (if rd_program rd = p then rd_budget rd else 0)"

definition program_wf :: "program_registry \<Rightarrow> bool" where
  "program_wf r \<longleftrightarrow> finite (dom (pr_rounds r)) \<and> (\<forall>i\<ge>pr_next_round r. pr_rounds r i = None) \<and>
     (\<forall>p. pr_programs r p = None \<longrightarrow> sum_over (rounds_of p) (pr_rounds r) = 0) \<and>
     (\<forall>p g. pr_programs r p = Some g \<longrightarrow> 0 \<le> pg_remaining g \<and>
        sum_over (rounds_of p) (pr_rounds r) + pg_remaining g = pg_budget g)"

lemma program_exec_wf: "program_wf r \<Longrightarrow> program_exec e c r = Ok (u, r') \<Longrightarrow> program_wf r'"
proof (cases c)
  case (PgRegister a p n h)
  assume "program_wf r" "program_exec e c r = Ok (u, r')"
  with PgRegister show ?thesis
    by (auto simp: program_wf_def register_program_def program_require_governance_def split: if_splits)
next
  case (PgOpenRound a p n t v)
  assume wf: "program_wf r" and "program_exec e c r = Ok (u, r')"
  with PgOpenRound obtain g where o: "pr_programs r p = Some g" "n \<le> pg_remaining g"
    "r' = r\<lparr>pr_programs := (pr_programs r)(p \<mapsto> g\<lparr>pg_remaining := pg_remaining g - n\<rparr>), pr_next_round := pr_next_round r + 1,
       pr_rounds := (pr_rounds r)(pr_next_round r \<mapsto> \<lparr>rd_program = p, rd_budget = n, rd_opens_at = t, rd_closes_at = v\<rparr>)\<rparr>"
    by (auto simp: open_round_def program_require_governance_def Let_def split: if_splits)
  have "sum_over (rounds_of q) (pr_rounds r') = sum_over (rounds_of q) (pr_rounds r) + (if q = p then n else 0)" for q
    using wf by (simp add: o(3) sum_over_upd program_wf_def) (simp add: rounds_of_def)
  with wf o show ?thesis by (auto simp: program_wf_def)
qed

interpretation programs: contract_invariant program_exec program_wf
  by unfold_locales (rule program_exec_wf)

text \<open>The rounds of a program never add up to more than the program was given: together with what is left they are
exactly its budget.\<close>

theorem rounds_within_budget:
  assumes "program_of (run_txs program_exec txs (program_registry_new a)) p = Some g"
  shows "0 \<le> pg_remaining g \<and>
    sum_over (rounds_of p) (pr_rounds (run_txs program_exec txs (program_registry_new a))) + pg_remaining g = pg_budget g"
proof -
  have "program_wf (run_txs program_exec txs (program_registry_new a))"
    by (rule programs.run_keeps) (simp add: program_wf_def program_registry_new_def)
  with assms show ?thesis by (simp add: program_wf_def program_of_def)
qed

section \<open>Reviewer compensation\<close>

datatype compensation_error =
  CoInvalidAmount | CoUnauthorized | CoUnknownProgram | CoInsufficientBudget | CoRecused | CoNothingOwed | CoOverflow

record compensation =
  co_governance :: nat
  co_budgets :: "nat \<rightharpoonup> int"
  co_owed :: "nat \<rightharpoonup> int"

definition compensation_new :: "nat \<Rightarrow> compensation" where
  "compensation_new governance = \<lparr>co_governance = governance, co_budgets = (\<lambda>_. None), co_owed = (\<lambda>_. None)\<rparr>"

definition compensation_require_governance :: "nat \<Rightarrow> compensation \<Rightarrow> (compensation_error, unit) outcome" where
  "compensation_require_governance caller c = (if caller \<noteq> co_governance c then Err CoUnauthorized else Ok ())"

definition fund_program :: "nat \<Rightarrow> nat \<Rightarrow> int \<Rightarrow> compensation \<Rightarrow> (compensation_error, unit) outcome \<times> compensation" where
  "fund_program caller p amount c =
     (case compensation_require_governance caller c of
        Ok _ \<Rightarrow>
          if amount \<le> 0 then (Err CoInvalidAmount, c)
          else
            let budget = unwrap_or (co_budgets c p) 0;
                c = c\<lparr>co_budgets := (co_budgets c)(p \<mapsto> budget)\<rparr>
            in (case i128_opt (budget + amount) of
                  None \<Rightarrow> (Err CoOverflow, c)
                | Some budget \<Rightarrow> (Ok (), c\<lparr>co_budgets := (co_budgets c)(p \<mapsto> budget)\<rparr>))
      | Err e \<Rightarrow> (Err e, c)
      | Trap \<Rightarrow> (Trap, c))"

definition record_review :: "nat \<Rightarrow> nat \<Rightarrow> nat \<Rightarrow> int \<Rightarrow> bool \<Rightarrow> compensation \<Rightarrow> (compensation_error, unit) outcome \<times> compensation" where
  "record_review caller p reviewer fee recused c =
     (case and_then (compensation_require_governance caller c) (\<lambda>_.
        if fee \<le> 0 then Err CoInvalidAmount
        else if recused then Err CoRecused
        else
          and_then (ok_or (co_budgets c p) CoUnknownProgram) (\<lambda>budget.
          if budget < fee then Err CoInsufficientBudget else Ok budget)) of
        Ok budget \<Rightarrow>
          let owed = unwrap_or (co_owed c reviewer) 0;
              c = c\<lparr>co_owed := (co_owed c)(reviewer \<mapsto> owed)\<rparr>
          in (case i128_opt (owed + fee) of
                None \<Rightarrow> (Err CoOverflow, c)
              | Some owed \<Rightarrow>
                  (Ok (), c\<lparr>co_owed := (co_owed c)(reviewer \<mapsto> owed), co_budgets := (co_budgets c)(p \<mapsto> budget - fee)\<rparr>))
      | Err e \<Rightarrow> (Err e, c)
      | Trap \<Rightarrow> (Trap, c))"

definition compensation_claim :: "nat \<Rightarrow> compensation \<Rightarrow> (compensation_error, int) outcome \<times> compensation" where
  "compensation_claim reviewer c =
     (let owed = unwrap_or (co_owed c reviewer) 0;
          c = c\<lparr>co_owed := (co_owed c)(reviewer := None)\<rparr>
      in (if owed = 0 then Err CoNothingOwed else Ok owed, c))"

definition review_budget :: "compensation \<Rightarrow> nat \<Rightarrow> int option" where
  "review_budget c p = co_budgets c p"

definition owed_to :: "compensation \<Rightarrow> nat \<Rightarrow> int" where
  "owed_to c reviewer = unwrap_or (co_owed c reviewer) 0"

text \<open>A history with what was paid in and out: the amounts of the accepted fundings and claims.\<close>

datatype 'b moved = Moved (book: 'b) (paid_in: int) (paid_out: int)

datatype compensation_op = CoFund nat nat int | CoReview nat nat nat int bool | CoClaim nat

fun compensation_step :: "compensation_op \<Rightarrow> compensation moved \<Rightarrow> compensation moved" where
  "compensation_step (CoFund a p n) (Moved c i out) =
     (case fund_program a p n c of (r, c') \<Rightarrow> Moved c' (if r = Ok () then i + n else i) out)"
| "compensation_step (CoReview a p v n b) (Moved c i out) = Moved (snd (record_review a p v n b c)) i out"
| "compensation_step (CoClaim v) (Moved c i out) =
     (case compensation_claim v c of (Ok n, c') \<Rightarrow> Moved c' i (out + n) | (_, c') \<Rightarrow> Moved c' i out)"

definition compensation_wf :: "compensation moved \<Rightarrow> bool" where
  "compensation_wf m \<longleftrightarrow> finite (dom (co_budgets (book m))) \<and> finite (dom (co_owed (book m))) \<and>
     (\<forall>n\<in>ran (co_budgets (book m)). 0 \<le> n) \<and> (\<forall>n\<in>ran (co_owed (book m)). 0 \<le> n) \<and>
     sum_over (\<lambda>n. n) (co_budgets (book m)) + sum_over (\<lambda>n. n) (co_owed (book m)) + paid_out m = paid_in m"

lemma compensation_wfI:
  "finite (dom bs) \<Longrightarrow> finite (dom ow) \<Longrightarrow> \<forall>n\<in>ran bs. 0 \<le> n \<Longrightarrow> \<forall>n\<in>ran ow. 0 \<le> n \<Longrightarrow>
   sum_over (\<lambda>n. n) bs + sum_over (\<lambda>n. n) ow + out = i \<Longrightarrow> co_budgets c = bs \<Longrightarrow> co_owed c = ow \<Longrightarrow> compensation_wf (Moved c i out)"
  by (simp add: compensation_wf_def)

lemma sum_upd_int:
  fixes m :: "'k \<rightharpoonup> int"
  assumes "finite (dom m)"
  shows "sum_over (\<lambda>n. n) (m(k \<mapsto> v)) = sum_over (\<lambda>n. n) m - unwrap_or (m k) 0 + v"
  using sum_over_upd [OF assms, of "\<lambda>n. n" k v] by (cases "m k") auto

lemma unwrap_or_nonneg: "\<forall>n\<in>ran m. (0 :: int) \<le> n \<Longrightarrow> 0 \<le> unwrap_or (m k) 0"
  by (cases "m k") (auto simp: ran_def)

lemma ran_upd_nonneg: "\<forall>n\<in>ran m. (0 :: int) \<le> n \<Longrightarrow> 0 \<le> v \<Longrightarrow> \<forall>n\<in>ran (m(k \<mapsto> v)). 0 \<le> n"
  by (auto simp: ran_def)

lemma ran_del_nonneg: "\<forall>n\<in>ran m. (0 :: int) \<le> n \<Longrightarrow> \<forall>n\<in>ran (m(k := None)). 0 \<le> n"
  by (auto simp: ran_def)

lemma fund_program_left:
  obtains "snd (fund_program a p n c) = c" "fst (fund_program a p n c) \<noteq> Ok ()"
  | v where "snd (fund_program a p n c) = c\<lparr>co_budgets := (co_budgets c)(p \<mapsto> v)\<rparr>" "0 < n"
      "v = unwrap_or (co_budgets c p) 0 + (if fst (fund_program a p n c) = Ok () then n else 0)"
  by (cases "compensation_require_governance a c"; cases "n \<le> 0"; cases "in_i128 (unwrap_or (co_budgets c p) 0 + n)")
     (auto simp: fund_program_def i128_opt_def Let_def simp del: i128_opt_iff)

lemma record_review_left:
  obtains "snd (record_review a p v n b c) = c"
  | "snd (record_review a p v n b c) = c\<lparr>co_owed := (co_owed c)(v \<mapsto> unwrap_or (co_owed c v) 0)\<rparr>"
  | k where "co_budgets c p = Some k" "n \<le> k" "0 < n"
      "snd (record_review a p v n b c) = c\<lparr>co_owed := (co_owed c)(v \<mapsto> unwrap_or (co_owed c v) 0 + n),
         co_budgets := (co_budgets c)(p \<mapsto> k - n)\<rparr>"
proof (cases "compensation_require_governance a c = Ok () \<and> 0 < n \<and> \<not> b \<and> (\<exists>k. co_budgets c p = Some k \<and> n \<le> k)")
  case True
  then obtain k where "co_budgets c p = Some k" "n \<le> k" "0 < n" "\<not> b" "compensation_require_governance a c = Ok ()" by blast
  then show thesis using that(2) that(3) [of k]
    by (cases "in_i128 (unwrap_or (co_owed c v) 0 + n)")
       (auto simp: record_review_def ok_or_def i128_opt_def Let_def simp del: i128_opt_iff)
next
  case False
  then have "snd (record_review a p v n b c) = c"
    by (cases "compensation_require_governance a c"; cases "co_budgets c p") (auto simp: record_review_def ok_or_def)
  then show thesis by (rule that(1))
qed

lemma compensation_step_wf:
  assumes "compensation_wf m"
  shows "compensation_wf (compensation_step op m)"
proof -
  obtain c i out where m: "m = Moved c i out" by (cases m)
  from assms m have wf: "finite (dom (co_budgets c))" "finite (dom (co_owed c))" "\<forall>n\<in>ran (co_budgets c). 0 \<le> n"
    "\<forall>n\<in>ran (co_owed c). 0 \<le> n" "sum_over (\<lambda>n. n) (co_budgets c) + sum_over (\<lambda>n. n) (co_owed c) + out = i"
    by (simp_all add: compensation_wf_def)
  note nonneg = unwrap_or_nonneg [OF wf(3)] unwrap_or_nonneg [OF wf(4)]
  show ?thesis
  proof (cases op)
    case (CoFund a p n)
    obtain r c' where r: "fund_program a p n c = (r, c')" by fastforce
    show ?thesis
    proof (cases rule: fund_program_left [of a p n c])
      case 1
      with CoFund m r assms show ?thesis by simp
    next
      case (2 v)
      then have c': "c' = c\<lparr>co_budgets := (co_budgets c)(p \<mapsto> v)\<rparr>" "0 \<le> v" using r nonneg(1) [of p] by auto
      have v: "v = unwrap_or (co_budgets c p) 0 + (if r = Ok () then n else 0)" using 2(3) r by simp
      have "sum_over (\<lambda>n. n) ((co_budgets c)(p \<mapsto> v)) + sum_over (\<lambda>n. n) (co_owed c) + out = (if r = Ok () then i + n else i)"
        unfolding sum_upd_int [OF wf(1)] using v wf(5) by (cases "r = Ok ()") simp_all
      then have "compensation_wf (Moved c' (if r = Ok () then i + n else i) out)"
        using ran_upd_nonneg [OF wf(3) c'(2), of p] wf(1,2,4) unfolding compensation_wf_def c'(1) by simp
      with CoFund m r show ?thesis by simp
    qed
  next
    case (CoReview a p v n b)
    show ?thesis
    proof (cases rule: record_review_left [of a p v n b c])
      case 1
      with CoReview m assms show ?thesis by simp
    next
      case 2
      with CoReview m wf ran_upd_nonneg [OF wf(4) nonneg(2)] show ?thesis
        by (simp add: compensation_wf_def sum_upd_int)
    next
      case (3 k)
      let ?owed = "unwrap_or (co_owed c v) 0 + n"
      have "0 \<le> k - n" "0 \<le> ?owed" using 3(2,3) nonneg(2) [of v] by simp_all
      note ran = ran_upd_nonneg [OF wf(3) this(1), of p] ran_upd_nonneg [OF wf(4) this(2), of v]
      have "sum_over (\<lambda>n. n) ((co_budgets c)(p \<mapsto> k - n)) + sum_over (\<lambda>n. n) ((co_owed c)(v \<mapsto> ?owed)) + out = i"
        unfolding sum_upd_int [OF wf(1)] sum_upd_int [OF wf(2)] 3(1) using wf(5) by simp
      from compensation_wfI [OF _ _ ran this] wf(1,2) show ?thesis
        unfolding CoReview m compensation_step.simps 3(4) by simp
    qed
  next
    case (CoClaim v)
    have "sum_over (\<lambda>n. n) ((co_owed c)(v := None)) = sum_over (\<lambda>n. n) (co_owed c) - unwrap_or (co_owed c v) 0"
      using sum_over_del [OF wf(2), of "\<lambda>n. n" v] by (cases "co_owed c v") auto
    with CoClaim m wf ran_del_nonneg [OF wf(4), of v] show ?thesis
      by (simp add: compensation_claim_def compensation_wf_def Let_def)
  qed
qed

interpretation compensation: step_invariant compensation_step compensation_wf
  by unfold_locales (rule compensation_step_wf)

text \<open>C34. The review money is conserved: whatever fundings, reviews and claims ran, accepted or refused, what the
programs have left, what the reviewers are owed and what they claimed add up to what the programs were
funded with, and neither a program's budget nor a reviewer's claim is ever negative.\<close>

theorem compensation_conserved:
  assumes "fold compensation_step ops (Moved (compensation_new g) 0 0) = Moved c funded claimed"
  shows "sum_over (\<lambda>n. n) (co_budgets c) + sum_over (\<lambda>n. n) (co_owed c) + claimed = funded \<and>
    (\<forall>p n. review_budget c p = Some n \<longrightarrow> 0 \<le> n) \<and> (\<forall>v. 0 \<le> owed_to c v)"
proof -
  have "compensation_wf (fold compensation_step ops (Moved (compensation_new g) 0 0))"
    by (rule compensation.fold_keeps) (simp add: compensation_wf_def compensation_new_def)
  with assms have wf: "compensation_wf (Moved c funded claimed)" by simp
  then have "0 \<le> owed_to c v" for v using unwrap_or_nonneg by (auto simp: compensation_wf_def owed_to_def)
  with wf show ?thesis by (auto simp: compensation_wf_def review_budget_def ran_def)
qed

theorem compensation_conserved_witness:
  "\<exists>c. fold compensation_step [CoFund 9 1 100, CoReview 9 1 4 30 False, CoReview 9 1 5 80 False, CoClaim 4]
      (Moved (compensation_new 9) 0 0) = Moved c 100 30 \<and> sum_over (\<lambda>n. n) (co_budgets c) + sum_over (\<lambda>n. n) (co_owed c) = 70"
proof -
  obtain c where run: "fold compensation_step [CoFund 9 1 100, CoReview 9 1 4 30 False, CoReview 9 1 5 80 False, CoClaim 4]
      (Moved (compensation_new 9) 0 0) = Moved c 100 30"
    by (simp add: compensation_new_def fund_program_def record_review_def compensation_claim_def compensation_require_governance_def
        i128_opt_def ok_or_def int_width_defs Let_def del: i128_opt_iff)
  from compensation_conserved [OF this] run show ?thesis by auto
qed

section \<open>Applicant bonds\<close>

datatype bond_state = BondHeld | BondRefunded | BondForfeited

record bond =
  bn_applicant :: nat
  bn_amount :: int
  bn_state :: bond_state

datatype bond_error = BnUnauthorized | BnAlreadyPosted | BnInvalidAmount | BnNotFound | BnAlreadySettled

record bond_book =
  bk_governance :: nat
  bk_amount :: int
  bk_bonds :: "nat \<rightharpoonup> bond"

definition bond_book_new :: "nat \<Rightarrow> int \<Rightarrow> (bond_error, bond_book) outcome" where
  "bond_book_new governance amount =
     (if amount \<le> 0 then Err BnInvalidAmount
      else Ok \<lparr>bk_governance = governance, bk_amount = amount, bk_bonds = (\<lambda>_. None)\<rparr>)"

definition bond_post :: "nat \<Rightarrow> nat \<Rightarrow> bond_book \<Rightarrow> (bond_error, unit \<times> bond_book) outcome" where
  "bond_post application applicant b =
     (if bk_bonds b application \<noteq> None then Err BnAlreadyPosted
      else Ok ((), b\<lparr>bk_bonds := (bk_bonds b)(application \<mapsto>
        \<lparr>bn_applicant = applicant, bn_amount = bk_amount b, bn_state = BondHeld\<rparr>)\<rparr>))"

definition bond_settle :: "nat \<Rightarrow> nat \<Rightarrow> bond_state \<Rightarrow> bond_book \<Rightarrow> (bond_error, int \<times> bond_book) outcome" where
  "bond_settle caller application result b =
     (if caller \<noteq> bk_governance b then Err BnUnauthorized
      else
        and_then (ok_or (bk_bonds b application) BnNotFound) (\<lambda>bond.
        if bn_state bond \<noteq> BondHeld then Err BnAlreadySettled
        else Ok (bn_amount bond, b\<lparr>bk_bonds := (bk_bonds b)(application \<mapsto> bond\<lparr>bn_state := result\<rparr>)\<rparr>)))"

definition bond_refund :: "nat \<Rightarrow> nat \<Rightarrow> bond_book \<Rightarrow> (bond_error, int \<times> bond_book) outcome" where
  "bond_refund caller application b = bond_settle caller application BondRefunded b"

definition bond_forfeit :: "nat \<Rightarrow> nat \<Rightarrow> bond_book \<Rightarrow> (bond_error, int \<times> bond_book) outcome" where
  "bond_forfeit caller application b = bond_settle caller application BondForfeited b"

definition bond_of :: "bond_book \<Rightarrow> nat \<Rightarrow> bond option" where
  "bond_of b application = bk_bonds b application"

datatype bond_call = BnPost nat nat | BnRefund nat nat | BnForfeit nat nat

text \<open>A call together with what it returns to be paid out for application \<open>a\<close>.\<close>

fun bond_exec :: "nat \<Rightarrow> env \<Rightarrow> bond_call \<Rightarrow> bond_book \<Rightarrow> (bond_error, int \<times> bond_book) outcome" where
  "bond_exec a e (BnPost i v) b = and_then (bond_post i v b) (\<lambda>(_, b). Ok (0, b))"
| "bond_exec a e (BnRefund c i) b = and_then (bond_refund c i b) (\<lambda>(n, b). Ok (if i = a then n else 0, b))"
| "bond_exec a e (BnForfeit c i) b = and_then (bond_forfeit c i b) (\<lambda>(n, b). Ok (if i = a then n else 0, b))"

definition bond_paid :: "nat \<Rightarrow> bond_book \<times> int \<Rightarrow> bool" where
  "bond_paid a s \<longleftrightarrow> snd s = (case bk_bonds (fst s) a of None \<Rightarrow> 0 | Some b \<Rightarrow> if bn_state b = BondHeld then 0 else bn_amount b)"

lemma bond_tally_step:
  "bond_paid a s \<Longrightarrow> tally (bond_exec a) e c s = Ok (v, s') \<Longrightarrow> bond_paid a s'"
  by (cases c; cases s') (auto simp: tally_Ok bond_paid_def bond_post_def bond_refund_def bond_forfeit_def bond_settle_def split: if_splits)

interpretation bonds: contract_invariant "tally (bond_exec a)" "bond_paid a" for a
  by unfold_locales (rule bond_tally_step)

text \<open>A bond settles once: what the refunds and forfeitures of an application return in any history adds up to its
bond exactly when it is settled, and to nothing while it is held.\<close>

theorem bond_settles_once:
  assumes "bond_book_new g n = Ok b0" and "run_txs (tally (bond_exec a)) txs (b0, 0) = (b, out)"
  shows "out = (case bond_of b a of None \<Rightarrow> 0 | Some k \<Rightarrow> if bn_state k = BondHeld then 0 else bn_amount k)"
proof -
  have "bond_paid a (run_txs (tally (bond_exec a)) txs (b0, 0))"
    by (rule bonds.run_keeps) (use assms(1) in \<open>auto simp: bond_paid_def bond_book_new_def split: if_splits\<close>)
  with assms(2) show ?thesis by (simp add: bond_paid_def bond_of_def)
qed

section \<open>Reviewer stakes\<close>

datatype stake_error = SkInvalidAmount | SkUnauthorized | SkNotStaked | SkInsufficientStake | SkBelowMinimum | SkOverflow

record reviewer_stakes =
  sk_governance :: nat
  sk_min_stake :: int
  sk_stakes :: "nat \<rightharpoonup> int"

definition reviewer_stakes_new :: "nat \<Rightarrow> int \<Rightarrow> (stake_error, reviewer_stakes) outcome" where
  "reviewer_stakes_new governance min_stake =
     (if min_stake \<le> 0 then Err SkInvalidAmount
      else Ok \<lparr>sk_governance = governance, sk_min_stake = min_stake, sk_stakes = (\<lambda>_. None)\<rparr>)"

definition reviewer_stake :: "nat \<Rightarrow> int \<Rightarrow> reviewer_stakes \<Rightarrow> (stake_error, unit) outcome \<times> reviewer_stakes" where
  "reviewer_stake reviewer amount s =
     (if amount \<le> 0 then (Err SkInvalidAmount, s)
      else
        let entry = unwrap_or (sk_stakes s reviewer) 0;
            s = s\<lparr>sk_stakes := (sk_stakes s)(reviewer \<mapsto> entry)\<rparr>
        in (case i128_opt (entry + amount) of
              None \<Rightarrow> (Err SkOverflow, s)
            | Some entry \<Rightarrow> (Ok (), s\<lparr>sk_stakes := (sk_stakes s)(reviewer \<mapsto> entry)\<rparr>)))"

definition reviewer_withdraw :: "nat \<Rightarrow> int \<Rightarrow> reviewer_stakes \<Rightarrow> (stake_error, unit \<times> reviewer_stakes) outcome" where
  "reviewer_withdraw reviewer amount s =
     (if amount \<le> 0 then Err SkInvalidAmount
      else
        and_then (ok_or (sk_stakes s reviewer) SkNotStaked) (\<lambda>held.
        if held < amount then Err SkInsufficientStake
        else
          let remaining = held - amount in
          if remaining \<noteq> 0 \<and> remaining < sk_min_stake s then Err SkBelowMinimum
          else if remaining = 0 then Ok ((), s\<lparr>sk_stakes := (sk_stakes s)(reviewer := None)\<rparr>)
          else Ok ((), s\<lparr>sk_stakes := (sk_stakes s)(reviewer \<mapsto> remaining)\<rparr>)))"

definition reviewer_slash :: "nat \<Rightarrow> nat \<Rightarrow> int \<Rightarrow> reviewer_stakes \<Rightarrow> (stake_error, int \<times> reviewer_stakes) outcome" where
  "reviewer_slash caller reviewer amount s =
     (if caller \<noteq> sk_governance s then Err SkUnauthorized
      else if amount \<le> 0 then Err SkInvalidAmount
      else
        and_then (ok_or (sk_stakes s reviewer) SkNotStaked) (\<lambda>held.
        if held < amount then Err SkInsufficientStake
        else
          let held = held - amount in
          Ok (amount, s\<lparr>sk_stakes := (if held = 0 then (sk_stakes s)(reviewer := None)
            else (sk_stakes s)(reviewer \<mapsto> held))\<rparr>)))"

definition stake_of :: "reviewer_stakes \<Rightarrow> nat \<Rightarrow> int" where
  "stake_of s reviewer = unwrap_or (sk_stakes s reviewer) 0"

definition reviewer_is_eligible :: "reviewer_stakes \<Rightarrow> nat \<Rightarrow> bool" where
  "reviewer_is_eligible s reviewer \<longleftrightarrow> sk_min_stake s \<le> stake_of s reviewer"

datatype stake_op = SkStake nat int | SkWithdraw nat int | SkSlash nat nat int

fun stake_step :: "stake_op \<Rightarrow> reviewer_stakes moved \<Rightarrow> reviewer_stakes moved" where
  "stake_step (SkStake v n) (Moved s i out) =
     (case reviewer_stake v n s of (r, s') \<Rightarrow> Moved s' (if r = Ok () then i + n else i) out)"
| "stake_step (SkWithdraw v n) (Moved s i out) =
     (case reviewer_withdraw v n s of Ok (_, s') \<Rightarrow> Moved s' i (out + n) | _ \<Rightarrow> Moved s i out)"
| "stake_step (SkSlash a v n) (Moved s i out) =
     (case reviewer_slash a v n s of Ok (k, s') \<Rightarrow> Moved s' i (out + k) | _ \<Rightarrow> Moved s i out)"

definition stakes_wf :: "reviewer_stakes moved \<Rightarrow> bool" where
  "stakes_wf m \<longleftrightarrow> finite (dom (sk_stakes (book m))) \<and> (\<forall>n\<in>ran (sk_stakes (book m)). 0 \<le> n) \<and>
     sum_over (\<lambda>n. n) (sk_stakes (book m)) + paid_out m = paid_in m"

lemma stakes_wfI:
  "finite (dom st) \<Longrightarrow> \<forall>n\<in>ran st. 0 \<le> n \<Longrightarrow> sum_over (\<lambda>n. n) st + out = i \<Longrightarrow> sk_stakes s = st \<Longrightarrow> stakes_wf (Moved s i out)"
  by (simp add: stakes_wf_def)

lemma sum_del_int:
  fixes m :: "'k \<rightharpoonup> int"
  assumes "finite (dom m)"
  shows "sum_over (\<lambda>n. n) (m(k := None)) = sum_over (\<lambda>n. n) m - unwrap_or (m k) 0"
  using sum_over_del [OF assms, of "\<lambda>n. n" k] by (cases "m k") auto

text \<open>Every accepted operation puts a non-negative stake in place of the reviewer's, or removes an empty one.\<close>

lemma stakes_wf_set:
  assumes "stakes_wf (Moved s i out)" and "0 \<le> v" and "v = stake_of s k + d"
  shows "stakes_wf (Moved (s\<lparr>sk_stakes := (sk_stakes s)(k \<mapsto> v)\<rparr>) (i + d) out)"
proof (rule stakes_wfI)
  show "finite (dom ((sk_stakes s)(k \<mapsto> v)))" using assms(1) by (simp add: stakes_wf_def)
  show "\<forall>n\<in>ran ((sk_stakes s)(k \<mapsto> v)). 0 \<le> n"
    by (rule ran_upd_nonneg) (use assms(1,2) in \<open>simp_all add: stakes_wf_def\<close>)
  show "sum_over (\<lambda>n. n) ((sk_stakes s)(k \<mapsto> v)) + out = i + d"
    using assms(1,3) by (simp add: stakes_wf_def sum_upd_int stake_of_def)
qed simp

lemma stakes_wf_del:
  assumes "stakes_wf (Moved s i out)"
  shows "stakes_wf (Moved (s\<lparr>sk_stakes := (sk_stakes s)(k := None)\<rparr>) i (out + stake_of s k))"
proof (rule stakes_wfI)
  show "finite (dom ((sk_stakes s)(k := None)))" using assms by (simp add: stakes_wf_def)
  show "\<forall>n\<in>ran ((sk_stakes s)(k := None)). 0 \<le> n"
    by (rule ran_del_nonneg) (use assms in \<open>simp add: stakes_wf_def\<close>)
  show "sum_over (\<lambda>n. n) ((sk_stakes s)(k := None)) + (out + stake_of s k) = i"
    using assms by (simp add: stakes_wf_def sum_del_int stake_of_def)
qed simp

lemma stakes_wf_out: "stakes_wf (Moved s (i - d) out) \<Longrightarrow> stakes_wf (Moved s i (out + d))"
  by (auto simp: stakes_wf_def)

lemma stakes_wf_taken:
  assumes "stakes_wf (Moved s i out)" and "n \<le> stake_of s k"
    and "s' = (if n = stake_of s k then s\<lparr>sk_stakes := (sk_stakes s)(k := None)\<rparr>
      else s\<lparr>sk_stakes := (sk_stakes s)(k \<mapsto> stake_of s k - n)\<rparr>)"
  shows "stakes_wf (Moved s' i (out + n))"
proof (cases "n = stake_of s k")
  case True
  with stakes_wf_del [OF assms(1), of k] assms(3) show ?thesis by simp
next
  case False
  have "0 \<le> stake_of s k - n" "stake_of s k - n = stake_of s k + - n" using assms(2) by simp_all
  from stakes_wf_set [OF assms(1) this] have "stakes_wf (Moved (s\<lparr>sk_stakes := (sk_stakes s)(k \<mapsto> stake_of s k - n)\<rparr>) (i - n) out)"
    by (simp only: diff_conv_add_uminus)
  then have "stakes_wf (Moved (s\<lparr>sk_stakes := (sk_stakes s)(k \<mapsto> stake_of s k - n)\<rparr>) i (out + n))" by (rule stakes_wf_out)
  with False assms(3) show ?thesis by simp
qed

lemma withdraw_taken:
  "reviewer_withdraw v n s = Ok (u, s') \<Longrightarrow> n \<le> stake_of s v \<and>
   s' = (if n = stake_of s v then s\<lparr>sk_stakes := (sk_stakes s)(v := None)\<rparr> else s\<lparr>sk_stakes := (sk_stakes s)(v \<mapsto> stake_of s v - n)\<rparr>)"
  by (auto simp: reviewer_withdraw_def stake_of_def Let_def split: if_splits)

lemma slash_taken:
  "reviewer_slash a v n s = Ok (k, s') \<Longrightarrow> k = n \<and> n \<le> stake_of s v \<and>
   s' = (if n = stake_of s v then s\<lparr>sk_stakes := (sk_stakes s)(v := None)\<rparr> else s\<lparr>sk_stakes := (sk_stakes s)(v \<mapsto> stake_of s v - n)\<rparr>)"
  by (auto simp: reviewer_slash_def stake_of_def Let_def split: if_splits)

lemma stake_step_wf:
  assumes "stakes_wf m"
  shows "stakes_wf (stake_step op m)"
proof -
  obtain s i out where m: "m = Moved s i out" by (cases m)
  have nonneg: "0 \<le> stake_of s k" for k using assms m unwrap_or_nonneg by (auto simp: stakes_wf_def stake_of_def)
  show ?thesis
  proof (cases op)
    case (SkStake v n)
    show ?thesis
    proof (cases "n \<le> 0")
      case False
      have "stakes_wf (Moved (s\<lparr>sk_stakes := (sk_stakes s)(v \<mapsto> stake_of s v)\<rparr>) i out)"
        using stakes_wf_set [of s i out "stake_of s v" v 0] assms m nonneg by simp
      moreover have "stakes_wf (Moved (s\<lparr>sk_stakes := (sk_stakes s)(v \<mapsto> stake_of s v + n)\<rparr>) (i + n) out)"
        using stakes_wf_set [of s i out "stake_of s v + n" v n] assms m nonneg [of v] False by simp
      ultimately show ?thesis using SkStake m False
        by (simp add: reviewer_stake_def stake_of_def i128_opt_def Let_def del: i128_opt_iff)
    qed (use SkStake m assms in \<open>simp add: reviewer_stake_def\<close>)
  next
    case (SkWithdraw v n)
    with assms m show ?thesis
      by (cases "reviewer_withdraw v n s") (auto dest: withdraw_taken stakes_wf_taken)
  next
    case (SkSlash a v n)
    with assms m show ?thesis
      by (cases "reviewer_slash a v n s") (auto dest: slash_taken stakes_wf_taken)
  qed
qed

interpretation stakes: step_invariant stake_step stakes_wf
  by unfold_locales (rule stake_step_wf)

text \<open>The stakes held are exactly what was staked less what was withdrawn and slashed, and never negative.\<close>

theorem stakes_conserved:
  assumes "reviewer_stakes_new g n = Ok s0" and "fold stake_step ops (Moved s0 0 0) = Moved s staked gone"
  shows "sum_over (\<lambda>n. n) (sk_stakes s) + gone = staked \<and> (\<forall>v. 0 \<le> stake_of s v)"
proof -
  have "stakes_wf (fold stake_step ops (Moved s0 0 0))"
    by (rule stakes.fold_keeps) (use assms(1) in \<open>auto simp: stakes_wf_def reviewer_stakes_new_def split: if_splits\<close>)
  with assms(2) have wf: "stakes_wf (Moved s staked gone)" by simp
  then have "0 \<le> stake_of s v" for v using unwrap_or_nonneg by (auto simp: stakes_wf_def stake_of_def)
  with wf show ?thesis by (simp add: stakes_wf_def)
qed

text \<open>A withdrawal leaves the reviewer eligible or without stake.\<close>

lemma withdraw_leaves_eligible:
  "reviewer_withdraw v n s = Ok (u, s') \<Longrightarrow> reviewer_is_eligible s' v \<or> stake_of s' v = 0"
  by (auto simp: reviewer_withdraw_def reviewer_is_eligible_def stake_of_def Let_def split: if_splits)

end
