(* ===== verification/Grant_Reviews.thy ===== *)
theory Grant_Reviews
  imports Soroban "HOL-Library.Word" "HOL-Library.Product_Lexorder"
begin

text \<open>
  Three self-contained modules around grant applications: weighted scoring and shortlisting
  (\<open>grants/src/scoring.rs\<close>), scoped keeper delegations (\<open>grants/src/delegation.rs\<close>, the scope a 32-bit word) and
  licensing declarations (\<open>grants/src/licensing.rs\<close>).

  The lemmas: a weighted total is the exact weighted mean and stays on the scale of the scores; the shortlist
  is the best applications in order; a keeper may act exactly when the last accepted change between the two
  accounts is a live grant that covers the action; an attested declaration never changes.
\<close>

unbundle bit_operations_syntax

section \<open>Scoring\<close>

definition FULL_WEIGHT :: nat where "FULL_WEIGHT = 10000"
definition MAX_SCORE :: nat where "MAX_SCORE = 10000"

datatype scoring_error = ScInvalidWeights | ScDuplicateCriterion | ScScoreOutOfRange | ScUnknownCriterion | ScMissingCriterion

type_synonym rubric = "(nat, nat) btree"

text \<open>The loop that fills the map, and the constructor.\<close>

fun rubric_fill :: "(nat \<times> nat) list \<Rightarrow> rubric \<Rightarrow> (scoring_error, rubric) outcome" where
  "rubric_fill [] weights = Ok weights"
| "rubric_fill ((criterion, weight) # cs) weights =
     (if weight = 0 then Err ScInvalidWeights
      else if map_of weights criterion \<noteq> None then Err ScDuplicateCriterion
      else rubric_fill cs (btree_insert criterion weight weights))"

definition rubric_new :: "(nat \<times> nat) list \<Rightarrow> (scoring_error, rubric) outcome" where
  "rubric_new criteria =
     and_then (rubric_fill criteria []) (\<lambda>weights.
     if sum_list (map snd weights) \<noteq> FULL_WEIGHT then Err ScInvalidWeights else Ok weights)"

fun weighted_sum :: "(nat, nat) btree \<Rightarrow> rubric \<Rightarrow> nat \<Rightarrow> (scoring_error, nat) outcome" where
  "weighted_sum scores [] weighted = Ok weighted"
| "weighted_sum scores ((criterion, weight) # ws) weighted =
     and_then (ok_or (map_of scores criterion) ScMissingCriterion) (\<lambda>score.
     if MAX_SCORE < score then Err ScScoreOutOfRange
     else and_then (u64_add weighted (score * weight)) (weighted_sum scores ws))"

definition rubric_total :: "rubric \<Rightarrow> (nat, nat) btree \<Rightarrow> (scoring_error, nat) outcome" where
  "rubric_total weights scores =
     (if list_ex (\<lambda>c. map_of weights c = None) (map fst scores) then Err ScUnknownCriterion
      else and_then (weighted_sum scores weights 0) (\<lambda>weighted. Ok (weighted div FULL_WEIGHT mod 2 ^ 32)))"

text \<open>\<open>sort_by\<close> is stable; highest total first, then the lower id.\<close>

definition shortlist :: "(nat, nat) btree \<Rightarrow> nat \<Rightarrow> nat list" where
  "shortlist totals limit =
     map fst (take limit (sort_key (\<lambda>(i, t). (- int t, i)) totals))"

subsection \<open>The weighted total\<close>

lemma rubric_fill_keeps:
  "rubric_fill cs ws = Ok vs \<Longrightarrow> sorted_wrt (<) (map fst ws) \<Longrightarrow> sorted_wrt (<) (map fst vs)"
  by (induction cs ws rule: rubric_fill.induct) (auto simp: btree_insert_sorted split: if_splits)

text \<open>What the scores weigh under a rubric.\<close>

definition weighed :: "(nat, nat) btree \<Rightarrow> rubric \<Rightarrow> nat" where
  "weighed scores weights = sum_list (map (\<lambda>(c, w). unwrap_or (map_of scores c) 0 * w) weights)"

lemma weighted_sum_Ok:
  "weighted_sum scores weights w0 = Ok n \<Longrightarrow> n = w0 + weighed scores weights \<and>
     (\<forall>(c, w)\<in>set weights. \<exists>s. map_of scores c = Some s \<and> s \<le> MAX_SCORE)"
proof (induction weights arbitrary: w0)
  case (Cons cw weights)
  obtain c w where "cw = (c, w)" by (cases cw)
  with Cons.prems obtain s where s: "map_of scores c = Some s" "s \<le> MAX_SCORE" "weighted_sum scores weights (w0 + s * w) = Ok n"
    by (auto split: if_splits)
  with Cons.IH [OF s(3)] \<open>cw = (c, w)\<close> show ?case by (simp add: weighed_def)
qed (simp add: weighed_def)

lemma weighed_le:
  "\<forall>(c, w)\<in>set weights. \<exists>s. map_of scores c = Some s \<and> s \<le> MAX_SCORE \<Longrightarrow>
   weighed scores weights \<le> MAX_SCORE * sum_list (map snd weights)"
proof (induction weights)
  case (Cons cw weights)
  obtain c w where cw: "cw = (c, w)" by (cases cw)
  from Cons.prems cw obtain s where s: "map_of scores c = Some s" "s \<le> MAX_SCORE" by auto
  then have "s * w \<le> MAX_SCORE * w" by simp
  moreover have "weighed scores weights \<le> MAX_SCORE * sum_list (map snd weights)" using Cons by simp
  ultimately have "s * w + weighed scores weights \<le> MAX_SCORE * w + MAX_SCORE * sum_list (map snd weights)" by (rule add_mono)
  then show ?case using s cw by (simp add: weighed_def add_mult_distrib2)
qed (simp add: weighed_def)

text \<open>A weighted total is the weighted mean of the scores: for a rubric that was accepted and a total that was
computed, the rubric's weights add up to 10,000, every criterion has a score of at most 10,000, and the total
is the sum of score times weight divided by 10,000, rounded down, itself at most 10,000.\<close>

theorem rubric_total_bounds:
  assumes "rubric_new criteria = Ok weights" and "rubric_total weights scores = Ok n"
  shows "sum_list (map snd weights) = FULL_WEIGHT \<and> n = weighed scores weights div FULL_WEIGHT \<and> n \<le> MAX_SCORE \<and>
    (\<forall>(c, w)\<in>set weights. \<exists>s. map_of scores c = Some s \<and> s \<le> MAX_SCORE)"
proof -
  have full: "sum_list (map snd weights) = FULL_WEIGHT" using assms(1) by (auto simp: rubric_new_def split: if_splits)
  from assms(2) obtain m where m: "weighted_sum scores weights 0 = Ok m" "n = m div FULL_WEIGHT mod 2 ^ 32"
    by (auto simp: rubric_total_def split: if_splits)
  from weighted_sum_Ok [OF m(1)] have w: "m = weighed scores weights"
    "\<forall>(c, w)\<in>set weights. \<exists>s. map_of scores c = Some s \<and> s \<le> MAX_SCORE" by simp_all
  from weighed_le [OF w(2)] full w(1) have "m \<le> 10000 * 10000" by (simp add: MAX_SCORE_def FULL_WEIGHT_def)
  then have "m div FULL_WEIGHT \<le> 10000" unfolding FULL_WEIGHT_def by (metis div_le_mono nonzero_mult_div_cancel_right zero_neq_numeral)
  with m(2) w full show ?thesis by (simp add: MAX_SCORE_def)
qed

theorem rubric_total_bounds_witness:
  "rubric_total [(1, 2500), (2, 7500)] [(1, 10000), (2, 5001)] = Ok 6250 \<and>
   6250 = weighed [(1, 10000), (2, 5001)] [(1, 2500), (2, 7500)] div FULL_WEIGHT"
proof -
  have "rubric_new [(2, 7500), (1, 2500)] = Ok [(1, 2500), (2, 7500)]" by (simp add: rubric_new_def FULL_WEIGHT_def)
  moreover have run: "rubric_total [(1, 2500), (2, 7500)] [(1, 10000), (2, 5001)] = Ok 6250"
    by (simp add: rubric_total_def ok_or_def MAX_SCORE_def FULL_WEIGHT_def u64_add_def u64_max_def
        del: and_then_Ok_iff and_then_Err_iff and_then_Trap_iff)
  ultimately show ?thesis using rubric_total_bounds by blast
qed

subsection \<open>The shortlist\<close>

text \<open>How the ranking orders two entries.\<close>

definition outranks :: "nat \<times> nat \<Rightarrow> nat \<times> nat \<Rightarrow> bool" where
  "outranks a b \<longleftrightarrow> snd b < snd a \<or> (snd a = snd b \<and> fst a < fst b)"

lemma rank_key: "(case a of (i, t) \<Rightarrow> (- int t, i)) < (case b of (i, t) \<Rightarrow> (- int t, i)) \<longleftrightarrow> outranks a b"
  by (auto simp: outranks_def less_prod_def split: prod.splits)

lemma sort_key_ranked:
  assumes "distinct (map fst totals)"
  shows "sorted_wrt outranks (sort_key (\<lambda>(i, t). (- int t, i)) totals)"
proof -
  let ?key = "\<lambda>(i, t). (- int t, i) :: int \<times> nat" and ?s = "sort_key (\<lambda>(i, t). (- int t, i)) totals"
  have "inj_on ?key (set totals)" using assms by (auto simp: inj_on_def)
  moreover have "distinct totals" using assms by (simp add: distinct_map)
  ultimately have "distinct (map ?key ?s)" by (simp add: distinct_map)
  moreover have "sorted (map ?key ?s)" by simp
  ultimately have "sorted_wrt (<) (map ?key ?s)" by (simp add: strict_sorted_iff)
  then show ?thesis by (simp add: sorted_wrt_map rank_key)
qed

text \<open>The shortlist is the best applications in rank order: it has the limit's length or all applications if there are
fewer, none twice, each entry outranks the ones after it, and each outranks every application left out.\<close>

theorem shortlist_best:
  assumes "distinct (map fst totals)"
  shows "length (shortlist totals limit) = min (length totals) limit \<and> distinct (shortlist totals limit) \<and>
    (\<exists>ranked. shortlist totals limit = map fst ranked \<and> sorted_wrt outranks ranked \<and> set ranked \<subseteq> set totals \<and>
       (\<forall>a\<in>set ranked. \<forall>b\<in>set totals - set ranked. outranks a b))"
proof -
  let ?s = "sort_key (\<lambda>(i, t). (- int t, i)) totals"
  have split: "?s = take limit ?s @ drop limit ?s" by simp
  have ord: "sorted_wrt outranks (take limit ?s @ drop limit ?s)" using sort_key_ranked [OF assms] by simp
  have set: "set totals = set (take limit ?s) \<union> set (drop limit ?s)"
    by (metis append_take_drop_id set_append set_sort)
  have "distinct (map fst ?s)" using assms by (metis distinct_map distinct_sort set_sort)
  then have "distinct (map fst (take limit ?s))" by (metis distinct_take take_map)
  moreover have "outranks a b" if "a \<in> set (take limit ?s)" "b \<in> set totals - set (take limit ?s)" for a b
    using that set ord unfolding sorted_wrt_append by blast
  moreover have "sorted_wrt outranks (take limit ?s)" using ord unfolding sorted_wrt_append by blast
  ultimately show ?thesis unfolding shortlist_def using set
    by (intro conjI exI [of _ "take limit ?s"]) auto
qed

section \<open>Delegations\<close>

type_synonym scope = "32 word"

definition SCOPE_CHARGE :: scope where "SCOPE_CHARGE = push_bit 0 1"
definition SCOPE_PAUSE :: scope where "SCOPE_PAUSE = push_bit 1 1"
definition SCOPE_REFUND :: scope where "SCOPE_REFUND = push_bit 2 1"

definition scope_union :: "scope \<Rightarrow> scope \<Rightarrow> scope" where
  "scope_union a b = a OR b"

definition scope_contains :: "scope \<Rightarrow> scope \<Rightarrow> bool" where
  "scope_contains a required \<longleftrightarrow> a AND required = required \<and> required \<noteq> 0"

definition scope_is_empty :: "scope \<Rightarrow> bool" where
  "scope_is_empty a \<longleftrightarrow> a = 0"

record delegation =
  dg_scope :: scope
  dg_expires_at :: nat

datatype delegation_error = DgEmptyScope | DgExpiredAlready | DgNotFound

type_synonym delegations = "nat \<times> nat \<rightharpoonup> delegation"

definition delegations_new :: delegations where
  "delegations_new = (\<lambda>_. None)"

definition delegation_grant :: "nat \<Rightarrow> nat \<Rightarrow> scope \<Rightarrow> nat \<Rightarrow> nat \<Rightarrow> delegations \<Rightarrow> (delegation_error, unit \<times> delegations) outcome" where
  "delegation_grant owner keeper scope expires_at now d =
     (if scope_is_empty scope then Err DgEmptyScope
      else if expires_at \<le> now then Err DgExpiredAlready
      else Ok ((), d((owner, keeper) \<mapsto> \<lparr>dg_scope = scope, dg_expires_at = expires_at\<rparr>)))"

definition delegation_revoke :: "nat \<Rightarrow> nat \<Rightarrow> delegations \<Rightarrow> (delegation_error, unit \<times> delegations) outcome" where
  "delegation_revoke owner keeper d =
     (case d (owner, keeper) of None \<Rightarrow> Err DgNotFound | Some _ \<Rightarrow> Ok ((), d((owner, keeper) := None)))"

definition can_act :: "delegations \<Rightarrow> nat \<Rightarrow> nat \<Rightarrow> scope \<Rightarrow> nat \<Rightarrow> bool" where
  "can_act d owner keeper required now \<longleftrightarrow>
     (case d (owner, keeper) of
        Some g \<Rightarrow> now < dg_expires_at g \<and> scope_contains (dg_scope g) required
      | None \<Rightarrow> False)"

datatype delegation_call = DgGrant nat nat scope nat | DgRevoke nat nat

fun delegation_exec :: "env \<Rightarrow> delegation_call \<Rightarrow> delegations \<Rightarrow> (delegation_error, unit \<times> delegations) outcome" where
  "delegation_exec e (DgGrant owner keeper scope expires_at) d = delegation_grant owner keeper scope expires_at (timestamp e) d"
| "delegation_exec e (DgRevoke owner keeper) d = delegation_revoke owner keeper d"

text \<open>A scope that covers two actions covers their union.\<close>

lemma scope_contains_union:
  "scope_contains a b \<Longrightarrow> scope_contains a c \<Longrightarrow> scope_contains a (scope_union b c)"
  by (auto simp: scope_contains_def scope_union_def bit.conj_disj_distrib or_eq_0_iff)

text \<open>A keeper acts only by a live grant of the owner: if \<open>can_act\<close> says yes after any history, the owner had
granted the keeper a scope that covers the action, before its expiry and not yet expired now, and the
delegation has stood in every state since.\<close>

theorem keeper_acts_by_grant:
  assumes "can_act (run_txs delegation_exec txs delegations_new) owner keeper required now"
  shows "\<exists>pre e scope until post. txs = pre @ (e, DgGrant owner keeper scope until) # post \<and>
    timestamp e < until \<and> now < until \<and> scope AND required = required \<and> required \<noteq> 0 \<and>
    (\<forall>mid rest. post = mid @ rest \<longrightarrow> run_txs delegation_exec (pre @ (e, DgGrant owner keeper scope until) # mid) delegations_new
       (owner, keeper) = Some \<lparr>dg_scope = scope, dg_expires_at = until\<rparr>)"
proof -
  from assms obtain g where g: "run_txs delegation_exec txs delegations_new (owner, keeper) = Some g"
    "now < dg_expires_at g" "scope_contains (dg_scope g) required"
    by (auto simp: can_act_def split: option.splits)
  let ?P = "\<lambda>d. d (owner, keeper) = Some g"
  obtain pre e c post r d where o: "txs = pre @ (e, c) # post" "\<not> ?P (run_txs delegation_exec pre delegations_new)"
    "delegation_exec e c (run_txs delegation_exec pre delegations_new) = Ok (r, d)"
    "\<And>mid rest. post = mid @ rest \<Longrightarrow> ?P (run_txs delegation_exec mid d)"
    by (rule run_txs_last_origin [of ?P delegation_exec txs delegations_new]) (use g(1) in \<open>auto simp: delegations_new_def\<close>)
  have "?P d" using o(4) [of "[]" post] by simp
  with o(2,3) obtain scope until where c: "c = DgGrant owner keeper scope until" "timestamp e < until"
    "g = \<lparr>dg_scope = scope, dg_expires_at = until\<rparr>"
    by (cases c) (auto simp: delegation_grant_def delegation_revoke_def split: if_splits option.splits)
  have "run_txs delegation_exec (pre @ (e, c) # mid) delegations_new = run_txs delegation_exec mid d" for mid
    using o(3) by (simp add: run_txs_append)
  with o(1,4) c g(2,3) show ?thesis
    by (intro exI [of _ pre] exI [of _ e] exI [of _ scope] exI [of _ until] exI [of _ post]) (auto simp: scope_contains_def)
qed

section \<open>Licensing\<close>

datatype licensing_error = LiInvalidLicense string | LiNotRecipient | LiAlreadyAttested | LiNotDeclared

record license_declaration =
  dc_license :: string
  dc_deliverable :: nat
  dc_attested :: bool

type_synonym licensing = "nat \<times> nat \<rightharpoonup> license_declaration"

definition licensing_new :: licensing where
  "licensing_new = (\<lambda>_. None)"

definition require_recipient :: "nat \<Rightarrow> nat \<Rightarrow> (licensing_error, unit) outcome" where
  "require_recipient caller recipient = (if caller \<noteq> recipient then Err LiNotRecipient else Ok ())"

definition is_ascii_alphanumeric :: "char \<Rightarrow> bool" where
  "is_ascii_alphanumeric c \<longleftrightarrow>
     (let n = of_char c :: nat in (48 \<le> n \<and> n \<le> 57) \<or> (65 \<le> n \<and> n \<le> 90) \<or> (97 \<le> n \<and> n \<le> 122))"

definition is_valid_spdx :: "string \<Rightarrow> bool" where
  "is_valid_spdx license \<longleftrightarrow> license \<noteq> [] \<and> hd license \<noteq> CHR ''-'' \<and> last license \<noteq> CHR ''-'' \<and>
     list_all (\<lambda>c. is_ascii_alphanumeric c \<or> c \<in> {CHR ''-'', CHR ''.'', CHR ''+''}) license"

definition license_declare :: "nat \<Rightarrow> nat \<Rightarrow> nat \<Rightarrow> nat \<Rightarrow> string \<Rightarrow> nat \<Rightarrow> licensing \<Rightarrow> (licensing_error, unit \<times> licensing) outcome" where
  "license_declare caller recipient grant milestone license deliverable l =
     and_then (require_recipient caller recipient) (\<lambda>_.
     if \<not> is_valid_spdx license then Err (LiInvalidLicense license)
     else if (case l (grant, milestone) of Some d \<Rightarrow> dc_attested d | None \<Rightarrow> False) then Err LiAlreadyAttested
     else Ok ((), l((grant, milestone) \<mapsto> \<lparr>dc_license = license, dc_deliverable = deliverable, dc_attested = False\<rparr>)))"

definition license_attest :: "nat \<Rightarrow> nat \<Rightarrow> nat \<Rightarrow> nat \<Rightarrow> licensing \<Rightarrow> (licensing_error, unit \<times> licensing) outcome" where
  "license_attest caller recipient grant milestone l =
     and_then (require_recipient caller recipient) (\<lambda>_.
     and_then (ok_or (l (grant, milestone)) LiNotDeclared) (\<lambda>d.
     if dc_attested d then Err LiAlreadyAttested
     else Ok ((), l((grant, milestone) \<mapsto> d\<lparr>dc_attested := True\<rparr>))))"

definition declaration_of :: "licensing \<Rightarrow> nat \<Rightarrow> nat \<Rightarrow> license_declaration option" where
  "declaration_of l grant milestone = l (grant, milestone)"

datatype licensing_call = LiDeclare nat nat nat nat string nat | LiAttest nat nat nat nat

fun licensing_exec :: "env \<Rightarrow> licensing_call \<Rightarrow> licensing \<Rightarrow> (licensing_error, unit \<times> licensing) outcome" where
  "licensing_exec e (LiDeclare a r g m k h) l = license_declare a r g m k h l"
| "licensing_exec e (LiAttest a r g m) l = license_attest a r g m l"

definition attested_kept :: "licensing \<Rightarrow> licensing \<Rightarrow> bool" where
  "attested_kept l l' \<longleftrightarrow> (\<forall>k d. l k = Some d \<and> dc_attested d \<longrightarrow> l' k = Some d)"

interpretation licensing: contract_order licensing_exec attested_kept
proof
  show "attested_kept l l'" if "licensing_exec e c l = Ok (r, l')" for e c l r l'
    using that by (cases c) (auto simp: attested_kept_def license_declare_def license_attest_def require_recipient_def split: if_splits)
qed (auto simp: attested_kept_def)

text \<open>An attested declaration is locked: no later call changes its license, its deliverable or the attestation.\<close>

theorem attested_declaration_locked:
  assumes "declaration_of l g m = Some d" and "dc_attested d"
  shows "declaration_of (run_txs licensing_exec txs l) g m = Some d"
  using licensing.run_rel [of l txs] assms by (auto simp: attested_kept_def declaration_of_def)

end
