(* ===== verification/Grant_Workflow.thy ===== *)
theory Grant_Workflow
  imports Soroban "HOL-Library.Product_Lexorder"
begin

text \<open>
  The reviewers of a grant: registry, assignments, reviews, declarations of conflicts and recusal
  (\<open>grants/src/review.rs\<close>), over the state that this file and \<open>grants/src/lifecycle.rs\<close> work on.

  Both files extend a \<open>RefractGrants\<close> that is not the one of the crate at this commit.  The records \<open>workflow\<close>,
  \<open>workflow_grant\<close> and \<open>workflow_milestone\<close> have the fields that the two files read and write; the methods they
  call and that are not in the source (\<open>require_governance\<close>, \<open>unconfirmed_amount\<close>, \<open>escrowed\<close>) are the fields of the
  parameter record \<open>workflow_ext\<close>.  What a lemma needs of them is the named hypothesis \<open>workflow_methods\<close>, which is what
  \<open>docs/grants-lifecycle-and-reviewer-coi.md\<close> says of them.  Events are not part of the state, and the
  error codes are those the two files return.

  The operations change their receiver in place, but each of them checks before it writes, so one that fails
  leaves the state as it was and the models return the new state only with \<open>Ok\<close>.  \<open>BTreeMap\<close> and \<open>BTreeSet\<close>
  values that a view lists in order are association lists.

  The lemmas: a reviewer with an unwaived conflict on a grant is not assigned to it, has no valid review of it, and
  can neither review nor be counted; the quorum counts exactly the eligible approvals.
\<close>

section \<open>State\<close>

datatype workflow_error =
    GwUnauthorized | GwGrantNotFound | GwInvalidState | GwInvalidMilestoneAmount
  | GwRequestNotFound | GwRequestNotApproved | GwRequestAlreadyApproved | GwStaleRequest | GwSelfReview
  | GwAmendmentAfterFinalMilestone | GwTooManyAmendments | GwInvalidSchedule | GwAmendmentExceedsAward
  | GwInvalidExtension | GwInvalidEarnedShare | GwNothingEscrowed
  | GwRefundInProgress | GwNothingToRefund | GwRefundFailed
  | GwReviewerAlreadyRegistered | GwReviewerNotFound | GwReviewerInactive | GwReviewerAlreadyAssigned
  | GwReviewerNotAssigned | GwReviewerConflicted | GwConflictAlreadyDeclared | GwConflictNotFound
  | GwInvalidScore | GwReviewAlreadySubmitted

datatype workflow_status = GsFunded | GsAmendmentRequested | GsAmended | GsExtensionRequested | GsExtended
  | GsTerminationRequested | GsTerminated | GsClosed

record workflow_milestone =
  wm_amount :: int
  wm_due :: nat
  wm_confirmed :: bool
  wm_claimed :: bool

record workflow_grant =
  wg_recipient :: address
  wg_milestones :: "workflow_milestone list"
  wg_claimable :: int
  wg_amendments :: nat
  wg_pending_refund :: int
  wg_refunded :: int
  wg_status :: workflow_status
  wg_open_request :: "nat option"

record milestone_term =
  mt_amount :: int
  mt_due :: nat

datatype request_kind = Amendment "milestone_term list" | Extension "nat list" | Termination int

record lifecycle_request =
  lr_id :: nat
  lr_grant_id :: nat
  lr_kind :: request_kind
  lr_requester :: address
  lr_reason_hash :: nat
  lr_old_schedule :: "milestone_term list"
  lr_confirmed_at_request :: nat
  lr_approved_by :: "address option"
  lr_previous_status :: workflow_status
  lr_open :: bool

record amendment_record =
  ar_request_id :: nat
  ar_kind :: request_kind
  ar_requester :: address
  ar_approver :: address
  ar_reason_hash :: nat
  ar_old_schedule :: "milestone_term list"
  ar_new_schedule :: "milestone_term list"
  ar_refund :: int

datatype reviewer_role = PlainReviewer | LeadReviewer

record reviewer_info =
  ri_role :: reviewer_role
  ri_active :: bool

datatype conflict_kind = Financial | Employment | Personal | OtherConflict

record conflict_record =
  cf_kind :: conflict_kind
  cf_evidence_hash :: "nat option"
  cf_flagged_by_governance :: bool
  cf_late :: bool
  cf_waived :: bool

record grant_review =
  rw_score :: nat
  rw_approve :: bool
  rw_valid :: bool

record workflow =
  wf_governance :: address
  wf_grants :: "nat \<rightharpoonup> workflow_grant"
  wf_requests :: "nat \<rightharpoonup> lifecycle_request"
  wf_next_request_id :: nat
  wf_history :: "nat \<rightharpoonup> amendment_record list"
  wf_refunds_in_flight :: "nat set"
  wf_reviewers :: "address \<rightharpoonup> reviewer_info"
  wf_review_quorum :: nat
  wf_assignments :: "(nat \<times> address, unit) btree"
  wf_conflicts :: "(nat \<times> address, conflict_record) btree"
  wf_reviews :: "(nat \<times> address, grant_review) btree"

record workflow_ext =
  gx_require_governance :: "address \<Rightarrow> workflow \<Rightarrow> (workflow_error, unit) outcome"
  gx_unconfirmed_amount :: "workflow_grant \<Rightarrow> int"
  gx_escrowed :: "workflow_grant \<Rightarrow> int"

definition unconfirmed_sum :: "workflow_milestone list \<Rightarrow> int" where
  "unconfirmed_sum ms = (\<Sum>m\<leftarrow>filter (\<lambda>m. \<not> wm_confirmed m) ms. wm_amount m)"

definition workflow_methods :: "workflow_ext \<Rightarrow> bool" where
  "workflow_methods x \<longleftrightarrow>
     (\<forall>c s. gx_require_governance x c s = (if c = wf_governance s then Ok () else Err GwUnauthorized)) \<and>
     (\<forall>g. gx_unconfirmed_amount x g = unconfirmed_sum (wg_milestones g))"

text \<open>Removal from a \<open>BTreeSet\<close> or \<open>BTreeMap\<close>.\<close>

definition btree_remove :: "'k \<Rightarrow> ('k, 'v) btree \<Rightarrow> ('k, 'v) btree" where
  "btree_remove k t = filter (\<lambda>(l, _). l \<noteq> k) t"

lemma map_of_btree_remove: "map_of (btree_remove k t) = (map_of t)(k := None)"
  by (induction t) (auto simp: btree_remove_def fun_eq_iff)

text \<open>The keys of a grant: the range from \<open>(grant, Address::MIN)\<close> to \<open>(grant, Address::MAX)\<close>.\<close>

definition grant_range :: "nat \<Rightarrow> (nat \<times> address, 'v) btree \<Rightarrow> ((nat \<times> address) \<times> 'v) list" where
  "grant_range g t = filter (\<lambda>(k, _). (g, 0) \<le> k \<and> k \<le> (g, u64_max)) t"

section \<open>Eligibility\<close>

definition REVIEW_MAX_SCORE :: nat where "REVIEW_MAX_SCORE = 100"

definition conflict_is_active :: "conflict_record \<Rightarrow> bool" where
  "conflict_is_active c \<longleftrightarrow> \<not> cf_waived c"

definition has_conflict :: "workflow \<Rightarrow> nat \<Rightarrow> address \<Rightarrow> bool" where
  "has_conflict s g r = (case map_of (wf_conflicts s) (g, r) of Some c \<Rightarrow> conflict_is_active c | None \<Rightarrow> False)"

definition require_unconflicted :: "address \<Rightarrow> nat \<Rightarrow> workflow \<Rightarrow> (workflow_error, unit) outcome" where
  "require_unconflicted r g s =
     and_then (ok_or (wf_reviewers s r) GwReviewerNotFound) (\<lambda>info.
     if \<not> ri_active info then Err GwReviewerInactive
     else
       and_then (ok_or (wf_grants s g) GwGrantNotFound) (\<lambda>grant.
       if wg_recipient grant = r then Err GwSelfReview
       else if has_conflict s g r then Err GwReviewerConflicted
       else Ok ()))"

definition require_eligible_reviewer :: "address \<Rightarrow> nat \<Rightarrow> workflow \<Rightarrow> (workflow_error, unit) outcome" where
  "require_eligible_reviewer r g s =
     and_then (require_unconflicted r g s) (\<lambda>_.
     if map_of (wf_assignments s) (g, r) = None then Err GwReviewerNotAssigned else Ok ())"

section \<open>Registry administration\<close>

definition workflow_register_reviewer ::
  "workflow_ext \<Rightarrow> address \<Rightarrow> address \<Rightarrow> reviewer_role \<Rightarrow> workflow \<Rightarrow> (workflow_error, unit \<times> workflow) outcome" where
  "workflow_register_reviewer x caller r role s =
     and_then (gx_require_governance x caller s) (\<lambda>_.
     if wf_reviewers s r \<noteq> None then Err GwReviewerAlreadyRegistered
     else Ok ((), s\<lparr>wf_reviewers := (wf_reviewers s)(r \<mapsto> \<lparr>ri_role = role, ri_active = True\<rparr>)\<rparr>))"

definition set_reviewer_active :: "workflow_ext \<Rightarrow> address \<Rightarrow> address \<Rightarrow> bool \<Rightarrow> workflow \<Rightarrow> (workflow_error, unit \<times> workflow) outcome" where
  "set_reviewer_active x caller r active s =
     and_then (gx_require_governance x caller s) (\<lambda>_.
     and_then (ok_or (wf_reviewers s r) GwReviewerNotFound) (\<lambda>info.
     Ok ((), s\<lparr>wf_reviewers := (wf_reviewers s)(r \<mapsto> info\<lparr>ri_active := active\<rparr>)\<rparr>)))"

definition set_review_quorum :: "workflow_ext \<Rightarrow> address \<Rightarrow> nat \<Rightarrow> workflow \<Rightarrow> (workflow_error, unit \<times> workflow) outcome" where
  "set_review_quorum x caller quorum s =
     and_then (gx_require_governance x caller s) (\<lambda>_. Ok ((), s\<lparr>wf_review_quorum := quorum\<rparr>))"

definition assign_reviewer :: "workflow_ext \<Rightarrow> address \<Rightarrow> nat \<Rightarrow> address \<Rightarrow> workflow \<Rightarrow> (workflow_error, unit \<times> workflow) outcome" where
  "assign_reviewer x caller g r s =
     and_then (gx_require_governance x caller s) (\<lambda>_.
     if map_of (wf_assignments s) (g, r) \<noteq> None then Err GwReviewerAlreadyAssigned
     else
       and_then (require_unconflicted r g s) (\<lambda>_.
       Ok ((), s\<lparr>wf_assignments := btree_insert (g, r) () (wf_assignments s)\<rparr>)))"

section \<open>Reviews and conflicts\<close>

definition workflow_submit_review :: "address \<Rightarrow> nat \<Rightarrow> nat \<Rightarrow> bool \<Rightarrow> workflow \<Rightarrow> (workflow_error, unit \<times> workflow) outcome" where
  "workflow_submit_review r g score approve s =
     and_then (require_eligible_reviewer r g s) (\<lambda>_.
     if REVIEW_MAX_SCORE < score then Err GwInvalidScore
     else if (case map_of (wf_reviews s) (g, r) of Some v \<Rightarrow> rw_valid v | None \<Rightarrow> False) then Err GwReviewAlreadySubmitted
     else Ok ((), s\<lparr>wf_reviews := btree_insert (g, r) \<lparr>rw_score = score, rw_approve = approve, rw_valid = True\<rparr> (wf_reviews s)\<rparr>))"

definition record_conflict ::
  "address \<Rightarrow> nat \<Rightarrow> conflict_kind \<Rightarrow> nat option \<Rightarrow> bool \<Rightarrow> workflow \<Rightarrow> (workflow_error, unit \<times> workflow) outcome" where
  "record_conflict r g kind evidence_hash flagged s =
     (if wf_grants s g = None then Err GwGrantNotFound
      else if has_conflict s g r then Err GwConflictAlreadyDeclared
      else
        let late = (case map_of (wf_reviews s) (g, r) of Some v \<Rightarrow> rw_valid v | None \<Rightarrow> False)
        in Ok ((), s\<lparr>wf_conflicts := btree_insert (g, r)
             \<lparr>cf_kind = kind, cf_evidence_hash = evidence_hash, cf_flagged_by_governance = flagged, cf_late = late, cf_waived = False\<rparr>
             (wf_conflicts s)\<rparr>))"

definition recuse :: "address \<Rightarrow> nat \<Rightarrow> workflow \<Rightarrow> workflow" where
  "recuse r g s =
     (let s = s\<lparr>wf_assignments := btree_remove (g, r) (wf_assignments s)\<rparr> in
      case map_of (wf_reviews s) (g, r) of
        Some v \<Rightarrow> s\<lparr>wf_reviews := btree_insert (g, r) (v\<lparr>rw_valid := False\<rparr>) (wf_reviews s)\<rparr>
      | None \<Rightarrow> s)"

definition declare_conflict :: "address \<Rightarrow> nat \<Rightarrow> conflict_kind \<Rightarrow> nat option \<Rightarrow> workflow \<Rightarrow> (workflow_error, unit \<times> workflow) outcome" where
  "declare_conflict r g kind evidence_hash s =
     (if wf_reviewers s r = None then Err GwReviewerNotFound
      else and_then (record_conflict r g kind evidence_hash False s) (\<lambda>(_, s). Ok ((), recuse r g s)))"

definition flag_conflict ::
  "workflow_ext \<Rightarrow> address \<Rightarrow> nat \<Rightarrow> address \<Rightarrow> conflict_kind \<Rightarrow> nat option \<Rightarrow> workflow \<Rightarrow> (workflow_error, unit \<times> workflow) outcome" where
  "flag_conflict x caller g r kind evidence_hash s =
     and_then (gx_require_governance x caller s) (\<lambda>_.
     if wf_reviewers s r = None then Err GwReviewerNotFound
     else and_then (record_conflict r g kind evidence_hash True s) (\<lambda>(_, s). Ok ((), recuse r g s)))"

definition waive_conflict :: "workflow_ext \<Rightarrow> address \<Rightarrow> nat \<Rightarrow> address \<Rightarrow> workflow \<Rightarrow> (workflow_error, unit \<times> workflow) outcome" where
  "waive_conflict x caller g r s =
     and_then (gx_require_governance x caller s) (\<lambda>_.
     case map_of (wf_conflicts s) (g, r) of
       None \<Rightarrow> Err GwConflictNotFound
     | Some c \<Rightarrow>
         if \<not> conflict_is_active c then Err GwConflictNotFound
         else Ok ((), s\<lparr>wf_conflicts := btree_insert (g, r) (c\<lparr>cf_waived := True\<rparr>) (wf_conflicts s)\<rparr>))"

section \<open>Views\<close>

definition reviewer_entry :: "workflow \<Rightarrow> address \<Rightarrow> reviewer_info option" where
  "reviewer_entry s r = wf_reviewers s r"

definition conflicts_for_grant :: "workflow \<Rightarrow> nat \<Rightarrow> (address \<times> conflict_record) list" where
  "conflicts_for_grant s g = map (\<lambda>((_, r), c). (r, c)) (grant_range g (wf_conflicts s))"

definition assigned_reviewers :: "workflow \<Rightarrow> nat \<Rightarrow> address list" where
  "assigned_reviewers s g = map (\<lambda>((_, r), _). r) (grant_range g (wf_assignments s))"

definition review_of :: "workflow \<Rightarrow> nat \<Rightarrow> address \<Rightarrow> grant_review option" where
  "review_of s g r = map_of (wf_reviews s) (g, r)"

definition approval_count :: "workflow \<Rightarrow> nat \<Rightarrow> nat" where
  "approval_count s g =
     length (filter (\<lambda>((_, r), v). rw_valid v \<and> rw_approve v \<and> require_eligible_reviewer r g s = Ok ()) (grant_range g (wf_reviews s))) mod 2 ^ 32"

definition has_review_quorum :: "workflow \<Rightarrow> nat \<Rightarrow> bool" where
  "has_review_quorum s g \<longleftrightarrow> wf_review_quorum s \<le> approval_count s g"

section \<open>Conflicts exclude\<close>

definition conflicts_exclude :: "workflow \<Rightarrow> bool" where
  "conflicts_exclude s \<longleftrightarrow> (\<forall>g r. has_conflict s g r \<longrightarrow> map_of (wf_assignments s) (g, r) = None \<and>
     (\<forall>v. map_of (wf_reviews s) (g, r) = Some v \<longrightarrow> \<not> rw_valid v))"

lemma require_eligible_Ok:
  "require_eligible_reviewer r g s = Ok u \<longleftrightarrow> (\<exists>info grant. wf_reviewers s r = Some info \<and> ri_active info \<and> wf_grants s g = Some grant \<and>
     wg_recipient grant \<noteq> r \<and> \<not> has_conflict s g r \<and> map_of (wf_assignments s) (g, r) \<noteq> None)"
  by (auto simp: require_eligible_reviewer_def require_unconflicted_def split: if_splits)

lemma has_conflict_insert:
  "has_conflict (s\<lparr>wf_conflicts := btree_insert k c (wf_conflicts s)\<rparr>) g r \<longleftrightarrow> (if (g, r) = k then conflict_is_active c else has_conflict s g r)"
  by (simp add: has_conflict_def map_of_btree_insert)

lemma recuse_keeps [simp]:
  "wf_conflicts (recuse r g s) = wf_conflicts s" "wf_grants (recuse r g s) = wf_grants s" "wf_governance (recuse r g s) = wf_governance s"
  "wf_requests (recuse r g s) = wf_requests s" "wf_history (recuse r g s) = wf_history s"
  "wf_next_request_id (recuse r g s) = wf_next_request_id s" "wf_refunds_in_flight (recuse r g s) = wf_refunds_in_flight s"
  by (auto simp: recuse_def Let_def split: option.splits)

lemma recuse_exact:
  "map_of (wf_assignments (recuse r g s)) = (map_of (wf_assignments s))((g, r) := None)"
  "map_of (wf_reviews (recuse r g s)) = (map_of (wf_reviews s))((g, r) := map_option (\<lambda>v. v\<lparr>rw_valid := False\<rparr>) (map_of (wf_reviews s) (g, r)))"
  by (auto simp: recuse_def Let_def map_of_btree_remove map_of_btree_insert fun_eq_iff split: option.splits)

lemma conflict_recorded:
  assumes "record_conflict r g kind h flagged s = Ok (u, s')" and "conflicts_exclude s"
  shows "conflicts_exclude (recuse r g s')"
  using assms by (auto simp: record_conflict_def Let_def conflicts_exclude_def has_conflict_def map_of_btree_insert recuse_exact split: if_splits)

text \<open>The review operations that change the state.\<close>

datatype review_op = RoRegister address address reviewer_role | RoSetActive address address bool | RoSetQuorum address nat
  | RoAssign address nat address | RoSubmit address nat nat bool | RoDeclare address nat conflict_kind "nat option"
  | RoFlag address nat address conflict_kind "nat option" | RoWaive address nat address

fun review_exec :: "workflow_ext \<Rightarrow> review_op \<Rightarrow> workflow \<Rightarrow> (workflow_error, unit \<times> workflow) outcome" where
  "review_exec x (RoRegister c r k) s = workflow_register_reviewer x c r k s"
| "review_exec x (RoSetActive c r b) s = set_reviewer_active x c r b s"
| "review_exec x (RoSetQuorum c n) s = set_review_quorum x c n s"
| "review_exec x (RoAssign c g r) s = assign_reviewer x c g r s"
| "review_exec x (RoSubmit r g n b) s = workflow_submit_review r g n b s"
| "review_exec x (RoDeclare r g k h) s = declare_conflict r g k h s"
| "review_exec x (RoFlag c g r k h) s = flag_conflict x c g r k h s"
| "review_exec x (RoWaive c g r) s = waive_conflict x c g r s"

lemmas review_op_defs = workflow_register_reviewer_def set_reviewer_active_def set_review_quorum_def assign_reviewer_def
  workflow_submit_review_def declare_conflict_def flag_conflict_def waive_conflict_def

text \<open>The review operations leave grants, requests and refunds alone.\<close>

lemma review_exec_frame:
  assumes "review_exec x op s = Ok (u, s')"
  shows "wf_governance s' = wf_governance s \<and> wf_grants s' = wf_grants s \<and> wf_requests s' = wf_requests s \<and>
    wf_next_request_id s' = wf_next_request_id s \<and> wf_history s' = wf_history s \<and> wf_refunds_in_flight s' = wf_refunds_in_flight s"
  using assms by (cases op) (auto simp: review_op_defs record_conflict_def Let_def split: if_splits option.splits)

lemma review_exec_excludes:
  assumes "review_exec x op s = Ok (u, s')" and "conflicts_exclude s"
  shows "conflicts_exclude s'"
proof (cases op)
  case (RoAssign c g r)
  with assms show ?thesis
    by (auto simp: assign_reviewer_def conflicts_exclude_def has_conflict_def require_unconflicted_def map_of_btree_insert split: if_splits)
next
  case (RoSubmit r g n b)
  with assms show ?thesis
    by (auto simp: workflow_submit_review_def conflicts_exclude_def require_eligible_Ok has_conflict_def map_of_btree_insert split: if_splits)
next
  case (RoDeclare r g k h)
  with assms show ?thesis by (auto simp: declare_conflict_def intro: conflict_recorded split: if_splits)
next
  case (RoFlag c g r k h)
  with assms show ?thesis by (auto simp: flag_conflict_def intro: conflict_recorded split: if_splits)
next
  case (RoWaive c g r)
  with assms(1) obtain d where s': "s' = s\<lparr>wf_conflicts := btree_insert (g, r) (d\<lparr>cf_waived := True\<rparr>) (wf_conflicts s)\<rparr>"
    by (auto simp: waive_conflict_def split: if_splits option.splits)
  have "has_conflict s' g' r' \<Longrightarrow> has_conflict s g' r'" for g' r'
    by (auto simp: s' has_conflict_insert conflict_is_active_def split: if_splits)
  moreover have "wf_assignments s' = wf_assignments s" "wf_reviews s' = wf_reviews s" by (simp_all add: s')
  ultimately show ?thesis using assms(2) unfolding conflicts_exclude_def by metis
qed (use assms in \<open>auto simp: review_op_defs conflicts_exclude_def has_conflict_def split: if_splits\<close>)

section \<open>The quorum\<close>

text \<open>Reviews in key order, at addresses of 64 bits.\<close>

definition reviews_wf :: "workflow \<Rightarrow> bool" where
  "reviews_wf s \<longleftrightarrow> sorted_wrt (<) (map fst (wf_reviews s)) \<and> (\<forall>((g, r), v)\<in>set (wf_reviews s). r \<le> u64_max) \<and> length (wf_reviews s) < 2 ^ 32"

text \<open>The approvals counted are exactly the reviewers with a valid approving review who are registered, active,
assigned, not the recipient, and without an unwaived conflict.\<close>

theorem approval_count_exact:
  assumes "reviews_wf s"
  shows "approval_count s g = card {r. \<exists>v. review_of s g r = Some v \<and> rw_valid v \<and> rw_approve v \<and> require_eligible_reviewer r g s = Ok ()}"
proof -
  let ?P = "\<lambda>((_, r), v). rw_valid v \<and> rw_approve v \<and> require_eligible_reviewer r g s = Ok ()"
  let ?l = "filter ?P (grant_range g (wf_reviews s))"
  have sorted: "sorted_wrt (<) (map fst (wf_reviews s))" and keys: "\<forall>((g, r), v)\<in>set (wf_reviews s). r \<le> u64_max"
    and len: "length (wf_reviews s) < 2 ^ 32"
    using assms by (simp_all add: reviews_wf_def)
  have "distinct (map fst (wf_reviews s))" using sorted by (simp add: strict_sorted_iff)
  then have dist: "distinct (map fst ?l)" by (simp add: grant_range_def distinct_map_filter)
  have inj: "inj_on (snd \<circ> fst) (set ?l)"
  proof (rule inj_onI)
    fix a b assume a: "a \<in> set ?l" "b \<in> set ?l" "(snd \<circ> fst) a = (snd \<circ> fst) b"
    then have "fst a = fst b" by (auto simp: grant_range_def less_eq_prod_def)
    then show "a = b" using a(1,2) dist by (auto simp: distinct_map inj_on_def)
  qed
  have "distinct ?l" using dist by (simp add: distinct_map)
  then have "length ?l = card (set ?l)" by (rule distinct_card [symmetric])
  also have "card (set ?l) = card ((snd \<circ> fst) ` set ?l)" by (rule card_image [OF inj, symmetric])
  also have "(snd \<circ> fst) ` set ?l = {r. \<exists>v. review_of s g r = Some v \<and> rw_valid v \<and> rw_approve v \<and> require_eligible_reviewer r g s = Ok ()}"
    using keys by (force simp: grant_range_def review_of_def map_of_sorted [OF sorted] less_eq_prod_def image_iff)
  finally have "length ?l = card {r. \<exists>v. review_of s g r = Some v \<and> rw_valid v \<and> rw_approve v \<and> require_eligible_reviewer r g s = Ok ()}" .
  moreover have "length ?l \<le> length (wf_reviews s)" unfolding grant_range_def by (rule order_trans [OF length_filter_le length_filter_le])
  ultimately show ?thesis using len by (simp add: approval_count_def)
qed

end
