(* ===== verification/Grant_Lifecycle.thy ===== *)
theory Grant_Lifecycle
  imports Grant_Workflow Math
begin

text \<open>
  The changes to a funded grant (\<open>grants/src/lifecycle.rs\<close>): a request to amend, extend or terminate it is filed,
  approved and executed, and what the change frees goes back to the treasury.  State and parameters are those of
  \<open>Grant_Workflow\<close>.

  The treasury is the parameter \<open>receive\<close> over its own state \<open>'t\<close>: whether \<open>receive_refund\<close> takes the amount.
  \<open>execute_refund\<close> writes before it calls the treasury and undoes it when the treasury refuses, so it
  returns its outcome together with the state it leaves; the other operations check before they write.  The
  \<open>debug_assert!\<close> of \<open>execute_request\<close> is off in the release profile and left out.

  The lemmas: no operation changes what a grant holds in milestones, pending and paid refunds, or its confirmed
  milestones, and the paid refunds are what the treasury took; at most one request is open per grant; an
  executed change was approved by governance or by an independent reviewer; a refused refund leaves
  everything as it was.
\<close>

section \<open>Views and checks\<close>

definition MAX_AMENDMENTS :: nat where "MAX_AMENDMENTS = 8"

definition accepts_requests :: "workflow_status \<Rightarrow> bool" where
  "accepts_requests st \<longleftrightarrow> st = GsFunded \<or> st = GsAmended \<or> st = GsExtended"

definition schedule_of :: "workflow_grant \<Rightarrow> milestone_term list" where
  "schedule_of g = map (\<lambda>m. \<lparr>mt_amount = wm_amount m, mt_due = wm_due m\<rparr>) (wg_milestones g)"

definition current_schedule :: "workflow \<Rightarrow> nat \<Rightarrow> milestone_term list option" where
  "current_schedule s gid = map_option schedule_of (wf_grants s gid)"

definition amendment_history :: "workflow \<Rightarrow> nat \<Rightarrow> amendment_record list" where
  "amendment_history s gid = unwrap_or (wf_history s gid) []"

definition lifecycle_get_request :: "workflow \<Rightarrow> nat \<Rightarrow> lifecycle_request option" where
  "lifecycle_get_request s rid = wf_requests s rid"

definition confirmed_count :: "workflow_grant \<Rightarrow> nat" where
  "confirmed_count g = length (takeWhile wm_confirmed (wg_milestones g))"

definition open_request :: "workflow \<Rightarrow> nat \<Rightarrow> (workflow_error, lifecycle_request) outcome" where
  "open_request s rid =
     (case wf_requests s rid of
        Some r \<Rightarrow> if lr_open r then Ok r else Err GwInvalidState
      | None \<Rightarrow> Err GwRequestNotFound)"

fun dates_ordered :: "nat \<Rightarrow> nat list \<Rightarrow> bool" where
  "dates_ordered prev [] = True"
| "dates_ordered prev (d # ds) = (if d \<noteq> 0 \<and> d < prev then False else dates_ordered (max prev d) ds)"

fun check_terms :: "int \<Rightarrow> milestone_term list \<Rightarrow> (workflow_error, int) outcome" where
  "check_terms acc [] = Ok acc"
| "check_terms acc (t # ts) =
     (if mt_amount t \<le> 0 then Err GwInvalidMilestoneAmount
      else and_then (ok_or (i128_opt (acc + mt_amount t)) GwAmendmentExceedsAward) (\<lambda>acc. check_terms acc ts))"

fun check_extension :: "bool \<Rightarrow> (workflow_milestone \<times> nat) list \<Rightarrow> (workflow_error, bool) outcome" where
  "check_extension later [] = Ok later"
| "check_extension later ((m, due) # rest) =
     (if due < wm_due m \<or> wm_due m = 0 \<and> due \<noteq> 0 then Err GwInvalidExtension
      else check_extension (later \<or> wm_due m < due) rest)"

definition last_confirmed_due :: "workflow_grant \<Rightarrow> nat" where
  "last_confirmed_due g = foldr max (map wm_due (filter wm_confirmed (wg_milestones g))) 0"

definition validate_change :: "workflow_ext \<Rightarrow> workflow \<Rightarrow> nat \<Rightarrow> request_kind \<Rightarrow> (workflow_error, unit) outcome" where
  "validate_change x s gid kind =
     and_then (ok_or (wf_grants s gid) GwGrantNotFound) (\<lambda>g.
     let pending = filter (\<lambda>m. \<not> wm_confirmed m) (wg_milestones g) in
     case kind of
       Amendment new_pending \<Rightarrow>
         if pending = [] then Err GwAmendmentAfterFinalMilestone
         else if MAX_AMENDMENTS \<le> wg_amendments g then Err GwTooManyAmendments
         else if new_pending = [] then Err GwInvalidSchedule
         else
           and_then (check_terms 0 new_pending) (\<lambda>asked.
           if gx_unconfirmed_amount x g < asked then Err GwAmendmentExceedsAward
           else if \<not> dates_ordered (last_confirmed_due g) (map mt_due new_pending) then Err GwInvalidSchedule
           else Ok ())
     | Extension new_due_dates \<Rightarrow>
         if pending = [] then Err GwAmendmentAfterFinalMilestone
         else if MAX_AMENDMENTS \<le> wg_amendments g then Err GwTooManyAmendments
         else if length new_due_dates \<noteq> length pending then Err GwInvalidExtension
         else
           and_then (check_extension False (zip pending new_due_dates)) (\<lambda>later.
           if \<not> later \<or> \<not> dates_ordered (last_confirmed_due g) new_due_dates then Err GwInvalidExtension
           else Ok ())
     | Termination earned_bps \<Rightarrow>
         if \<not> (0 \<le> earned_bps \<and> earned_bps \<le> BPS_DENOM) then Err GwInvalidEarnedShare
         else if pending = [] \<or> gx_escrowed x g \<le> 0 then Err GwNothingEscrowed
         else Ok ())"

section \<open>Requests\<close>

definition put_grant :: "nat \<Rightarrow> workflow_grant \<Rightarrow> workflow \<Rightarrow> workflow" where
  "put_grant gid g s = s\<lparr>wf_grants := (wf_grants s)(gid \<mapsto> g)\<rparr>"

text \<open>A write through \<open>grants.get_mut\<close>, which does nothing on an unknown grant.\<close>

definition edit_grant :: "nat \<Rightarrow> (workflow_grant \<Rightarrow> workflow_grant) \<Rightarrow> workflow \<Rightarrow> workflow" where
  "edit_grant gid f s = (case wf_grants s gid of Some g \<Rightarrow> put_grant gid (f g) s | None \<Rightarrow> s)"

fun requested_status :: "request_kind \<Rightarrow> workflow_status" where
  "requested_status (Amendment _) = GsAmendmentRequested"
| "requested_status (Extension _) = GsExtensionRequested"
| "requested_status (Termination _) = GsTerminationRequested"

definition request_change ::
  "workflow_ext \<Rightarrow> address \<Rightarrow> nat \<Rightarrow> request_kind \<Rightarrow> nat \<Rightarrow> workflow \<Rightarrow> (workflow_error, nat \<times> workflow) outcome" where
  "request_change x caller gid kind reason_hash s =
     and_then (ok_or (wf_grants s gid) GwGrantNotFound) (\<lambda>g.
     if caller \<noteq> wg_recipient g \<and> caller \<noteq> wf_governance s then Err GwUnauthorized
     else if \<not> accepts_requests (wg_status g) then Err GwInvalidState
     else
       and_then (validate_change x s gid kind) (\<lambda>_.
       let rid = wf_next_request_id s in
       and_then (u64_add rid 1) (\<lambda>next.
       Ok (rid, edit_grant gid (\<lambda>g. g\<lparr>wg_status := requested_status kind, wg_open_request := Some rid\<rparr>)
         (s\<lparr>wf_next_request_id := next,
            wf_requests := (wf_requests s)(rid \<mapsto>
              \<lparr>lr_id = rid, lr_grant_id = gid, lr_kind = kind, lr_requester = caller, lr_reason_hash = reason_hash,
               lr_old_schedule = unwrap_or (current_schedule s gid) [], lr_confirmed_at_request = confirmed_count g,
               lr_approved_by = None, lr_previous_status = wg_status g, lr_open = True\<rparr>)\<rparr>)))))"

definition approve_request :: "address \<Rightarrow> nat \<Rightarrow> workflow \<Rightarrow> (workflow_error, unit \<times> workflow) outcome" where
  "approve_request caller rid s =
     and_then (open_request s rid) (\<lambda>r.
     if lr_approved_by r \<noteq> None then Err GwRequestAlreadyApproved
     else
       and_then (if caller \<noteq> wf_governance s then
           (if (case lr_kind r of Termination _ \<Rightarrow> True | _ \<Rightarrow> False) then Err GwUnauthorized
            else if caller = lr_requester r then Err GwSelfReview
            else require_eligible_reviewer caller (lr_grant_id r) s)
         else Ok ()) (\<lambda>_.
       Ok ((), s\<lparr>wf_requests := (wf_requests s)(rid \<mapsto> r\<lparr>lr_approved_by := Some caller\<rparr>)\<rparr>)))"

definition finish_request :: "nat \<Rightarrow> nat \<Rightarrow> workflow_status \<Rightarrow> workflow \<Rightarrow> workflow" where
  "finish_request rid gid status s =
     edit_grant gid (\<lambda>g. g\<lparr>wg_status := status, wg_open_request := None\<rparr>)
       (case wf_requests s rid of Some r \<Rightarrow> s\<lparr>wf_requests := (wf_requests s)(rid \<mapsto> r\<lparr>lr_open := False\<rparr>)\<rparr> | None \<Rightarrow> s)"

definition close_request :: "address \<Rightarrow> nat \<Rightarrow> workflow \<Rightarrow> (workflow_error, unit \<times> workflow) outcome" where
  "close_request caller rid s =
     and_then (open_request s rid) (\<lambda>r.
     if caller \<noteq> wf_governance s \<and> caller \<noteq> lr_requester r then Err GwUnauthorized
     else Ok ((), finish_request rid (lr_grant_id r) (lr_previous_status r) s))"

definition close_if_settled :: "nat \<Rightarrow> workflow \<Rightarrow> workflow" where
  "close_if_settled gid s =
     (case wf_grants s gid of
        None \<Rightarrow> s
      | Some g \<Rightarrow>
          let all_paid = list_all (\<lambda>m. wm_confirmed m \<and> wm_claimed m) (wg_milestones g);
              settled = (wg_claimable g = 0 \<and> wg_pending_refund g = 0);
              closable = (if wg_status g = GsTerminated then settled
                          else if accepts_requests (wg_status g) then settled \<and> all_paid else False)
          in if closable then put_grant gid (g\<lparr>wg_status := GsClosed\<rparr>) s else s)"

section \<open>Execution\<close>

text \<open>\<open>iter().sum()\<close> of amounts.\<close>

fun add_terms :: "int \<Rightarrow> milestone_term list \<Rightarrow> (workflow_error, int) outcome" where
  "add_terms n [] = Ok n"
| "add_terms n (t # ts) = and_then (i128_add n (mt_amount t)) (\<lambda>n. add_terms n ts)"

text \<open>The loop over the milestones that are not confirmed: the first is credited in part, the rest is refunded.\<close>

fun refund_rest :: "int \<Rightarrow> workflow_milestone list \<Rightarrow> (workflow_error, int) outcome" where
  "refund_rest refund [] = Ok refund"
| "refund_rest refund (m # ms) = and_then (i128_add refund (wm_amount m)) (\<lambda>refund. refund_rest refund ms)"

definition credit_partial :: "int \<Rightarrow> workflow_milestone list \<Rightarrow> (workflow_error, int \<times> int) outcome" where
  "credit_partial earned_bps ms =
     (case ms of
        [] \<Rightarrow> Ok (0, 0)
      | m # ms \<Rightarrow>
          and_then (map_err GwInvalidEarnedShare (split_bps (wm_amount m) earned_bps)) (\<lambda>sp.
          and_then (i128_add 0 (split_rest sp)) (\<lambda>refund.
          and_then (refund_rest refund ms) (\<lambda>refund. Ok (split_cut sp, refund)))))"

definition apply_amendment :: "workflow_ext \<Rightarrow> milestone_term list \<Rightarrow> workflow_grant \<Rightarrow> (workflow_error, int \<times> workflow_status \<times> workflow_grant) outcome" where
  "apply_amendment x new_pending g =
     and_then (add_terms 0 new_pending) (\<lambda>new_total.
     and_then (i128_sub (gx_unconfirmed_amount x g) new_total) (\<lambda>refund.
     and_then (u32_add (wg_amendments g) 1) (\<lambda>n.
     Ok (refund, GsAmended, g\<lparr>wg_milestones := take (confirmed_count g) (wg_milestones g) @
           map (\<lambda>t. \<lparr>wm_amount = mt_amount t, wm_due = mt_due t, wm_confirmed = False, wm_claimed = False\<rparr>) new_pending,
         wg_amendments := n\<rparr>))))"

fun set_due_dates :: "workflow_milestone list \<Rightarrow> nat list \<Rightarrow> workflow_milestone list" where
  "set_due_dates (m # ms) (d # ds) = m\<lparr>wm_due := d\<rparr> # set_due_dates ms ds"
| "set_due_dates ms _ = ms"

definition apply_extension :: "nat list \<Rightarrow> workflow_grant \<Rightarrow> (workflow_error, int \<times> workflow_status \<times> workflow_grant) outcome" where
  "apply_extension new_due_dates g =
     and_then (u32_add (wg_amendments g) 1) (\<lambda>n.
     Ok (0, GsExtended, g\<lparr>wg_milestones := take (confirmed_count g) (wg_milestones g) @
           set_due_dates (drop (confirmed_count g) (wg_milestones g)) new_due_dates,
         wg_amendments := n\<rparr>))"

definition apply_termination :: "int \<Rightarrow> workflow_grant \<Rightarrow> (workflow_error, int \<times> workflow_status \<times> workflow_grant) outcome" where
  "apply_termination earned_bps g =
     (let confirmed = confirmed_count g in
     and_then (credit_partial earned_bps (drop confirmed (wg_milestones g))) (\<lambda>(earned, refund).
     let due = (if confirmed < length (wg_milestones g) then wm_due (wg_milestones g ! confirmed) else 0);
         g = g\<lparr>wg_milestones := take confirmed (wg_milestones g)\<rparr>
     in if 0 < earned then
          and_then (i128_add (wg_claimable g) earned) (\<lambda>claimable.
          Ok (refund, GsTerminated, g\<lparr>wg_milestones := wg_milestones g @
                [\<lparr>wm_amount = earned, wm_due = due, wm_confirmed = True, wm_claimed = False\<rparr>],
              wg_claimable := claimable\<rparr>))
        else Ok (refund, GsTerminated, g)))"

definition apply_kind :: "workflow_ext \<Rightarrow> request_kind \<Rightarrow> workflow_grant \<Rightarrow> (workflow_error, int \<times> workflow_status \<times> workflow_grant) outcome" where
  "apply_kind x kind g =
     (case kind of
        Amendment new_pending \<Rightarrow> apply_amendment x new_pending g
      | Extension new_due_dates \<Rightarrow> apply_extension new_due_dates g
      | Termination earned_bps \<Rightarrow> apply_termination earned_bps g)"

definition execute_request :: "workflow_ext \<Rightarrow> address \<Rightarrow> nat \<Rightarrow> workflow \<Rightarrow> (workflow_error, unit \<times> workflow) outcome" where
  "execute_request x caller rid s =
     and_then (gx_require_governance x caller s) (\<lambda>_.
     and_then (open_request s rid) (\<lambda>r.
     and_then (ok_or (lr_approved_by r) GwRequestNotApproved) (\<lambda>approver.
     let gid = lr_grant_id r in
     and_then (ok_or (wf_grants s gid) GwGrantNotFound) (\<lambda>g.
     if confirmed_count g \<noteq> lr_confirmed_at_request r \<or> current_schedule s gid \<noteq> Some (lr_old_schedule r) then Err GwStaleRequest
     else
       and_then (validate_change x s gid (lr_kind r)) (\<lambda>_.
       and_then (apply_kind x (lr_kind r) g) (\<lambda>(refund, next_status, g).
       and_then (i128_add (wg_pending_refund g) refund) (\<lambda>pending_refund.
       let s = put_grant gid (g\<lparr>wg_pending_refund := pending_refund\<rparr>) s;
           record = \<lparr>ar_request_id = rid, ar_kind = lr_kind r, ar_requester = lr_requester r, ar_approver = approver,
             ar_reason_hash = lr_reason_hash r, ar_old_schedule = lr_old_schedule r,
             ar_new_schedule = unwrap_or (current_schedule s gid) [], ar_refund = refund\<rparr>;
           s = s\<lparr>wf_history := (wf_history s)(gid \<mapsto> unwrap_or (wf_history s gid) [] @ [record])\<rparr>
       in Ok ((), close_if_settled gid (finish_request rid gid next_status s)))))))))"

definition execute_refund ::
  "workflow_ext \<Rightarrow> (nat \<Rightarrow> int \<Rightarrow> 't \<Rightarrow> bool \<times> 't) \<Rightarrow> address \<Rightarrow> nat \<Rightarrow> workflow \<times> 't \<Rightarrow> (workflow_error, int) outcome \<times> workflow \<times> 't" where
  "execute_refund x receive caller gid st =
     (let s = fst st in
     case and_then (gx_require_governance x caller s) (\<lambda>_.
       if gid \<in> wf_refunds_in_flight s then Err GwRefundInProgress
       else
         and_then (ok_or (wf_grants s gid) GwGrantNotFound) (\<lambda>g.
         if wg_pending_refund g \<le> 0 then Err GwNothingToRefund
         else and_then (i128_add (wg_refunded g) (wg_pending_refund g)) (\<lambda>refunded. Ok (g, refunded)))) of
       Err e \<Rightarrow> (Err e, st)
     | Trap \<Rightarrow> (Trap, st)
     | Ok (g, refunded) \<Rightarrow>
         let amount = wg_pending_refund g;
             s = put_grant gid (g\<lparr>wg_pending_refund := 0, wg_refunded := refunded\<rparr>) s;
             s = s\<lparr>wf_refunds_in_flight := insert gid (wf_refunds_in_flight s)\<rparr>;
             (accepted, t) = receive gid amount (snd st);
             s = s\<lparr>wf_refunds_in_flight := wf_refunds_in_flight s - {gid}\<rparr>
         in if accepted then (Ok amount, close_if_settled gid s, t)
            else (Err GwRefundFailed,
              edit_grant gid (\<lambda>g. g\<lparr>wg_pending_refund := amount, wg_refunded := wg_refunded g - amount\<rparr>) s, t))"

section \<open>What a change keeps\<close>

definition amount_sum :: "workflow_milestone list \<Rightarrow> int" where
  "amount_sum ms = (\<Sum>m\<leftarrow>ms. wm_amount m)"

text \<open>What a grant accounts for: its schedule, the refund it owes, and what it has refunded.\<close>

definition held :: "workflow_grant \<Rightarrow> int" where
  "held g = amount_sum (wg_milestones g) + wg_pending_refund g + wg_refunded g"

definition confirmed_first :: "workflow_grant \<Rightarrow> bool" where
  "confirmed_first g \<longleftrightarrow> list_all (\<lambda>m. \<not> wm_confirmed m) (dropWhile wm_confirmed (wg_milestones g))"

definition confirmed_part :: "workflow_grant \<Rightarrow> workflow_milestone list" where
  "confirmed_part g = takeWhile wm_confirmed (wg_milestones g)"

definition grant_kept :: "workflow_grant \<Rightarrow> workflow_grant \<Rightarrow> bool" where
  "grant_kept g g' \<longleftrightarrow> held g' = held g \<and> wg_recipient g' = wg_recipient g \<and> (\<exists>rest. confirmed_part g' = confirmed_part g @ rest)"

lemma amount_sum_simps [simp]:
  "amount_sum [] = 0" "amount_sum (m # ms) = wm_amount m + amount_sum ms"
  "amount_sum (ms @ ns) = amount_sum ms + amount_sum ns"
  by (simp_all add: amount_sum_def)

lemma take_confirmed: "take (confirmed_count g) (wg_milestones g) = confirmed_part g"
  by (simp add: confirmed_count_def confirmed_part_def takeWhile_eq_take [symmetric])

lemma drop_confirmed: "drop (confirmed_count g) (wg_milestones g) = dropWhile wm_confirmed (wg_milestones g)"
  by (simp add: confirmed_count_def dropWhile_eq_drop [symmetric])

lemma confirmed_part_confirmed: "m \<in> set (confirmed_part g) \<Longrightarrow> wm_confirmed m"
  by (auto simp: confirmed_part_def dest: set_takeWhileD)

lemma amount_sum_parts: "amount_sum (wg_milestones g) = amount_sum (confirmed_part g) + amount_sum (dropWhile wm_confirmed (wg_milestones g))"
  unfolding confirmed_part_def by (simp flip: amount_sum_simps(3))

lemma unconfirmed_sum_eq:
  assumes "confirmed_first g"
  shows "unconfirmed_sum (wg_milestones g) = amount_sum (dropWhile wm_confirmed (wg_milestones g))"
proof -
  have "filter (\<lambda>m. \<not> wm_confirmed m) (wg_milestones g) =
      filter (\<lambda>m. \<not> wm_confirmed m) (confirmed_part g @ dropWhile wm_confirmed (wg_milestones g))"
    by (simp add: confirmed_part_def)
  also have "\<dots> = dropWhile wm_confirmed (wg_milestones g)"
    using assms confirmed_part_confirmed by (force simp: confirmed_first_def list_all_iff filter_empty_conv)
  finally show ?thesis by (simp add: unconfirmed_sum_def amount_sum_def)
qed

text \<open>A grant whose confirmed milestones are kept and followed by milestones that are not confirmed.\<close>

lemma replaced_pending:
  assumes "wg_milestones g' = confirmed_part g @ ms" and "list_all (\<lambda>m. \<not> wm_confirmed m) ms"
  shows "confirmed_first g'" and "confirmed_part g' = confirmed_part g"
proof -
  have "takeWhile wm_confirmed (confirmed_part g @ ms) = confirmed_part g" "dropWhile wm_confirmed (confirmed_part g @ ms) = ms"
    using assms(2) confirmed_part_confirmed by (auto simp: takeWhile_append2 dropWhile_append2 list_all_iff takeWhile_eq_Nil_iff dropWhile_eq_self_iff hd_in_set)
  then show "confirmed_first g'" "confirmed_part g' = confirmed_part g"
    using assms by (simp_all add: confirmed_first_def confirmed_part_def [of g'])
qed

lemma add_terms_Ok: "add_terms n ts = Ok v \<Longrightarrow> v = n + (\<Sum>t\<leftarrow>ts. mt_amount t)"
proof (induction ts arbitrary: n)
  case (Cons t ts)
  then have "add_terms (n + mt_amount t) ts = Ok v" by simp
  from Cons.IH [OF this] show ?case by simp
qed simp

lemma refund_rest_Ok: "refund_rest n ms = Ok v \<Longrightarrow> v = n + amount_sum ms"
proof (induction ms arbitrary: n)
  case (Cons m ms)
  then have "refund_rest (n + wm_amount m) ms = Ok v" by simp
  from Cons.IH [OF this] show ?case by simp
qed simp

lemma split_bps_parts:
  assumes "split_bps a b = Ok sp"
  shows "split_cut sp + split_rest sp = a \<and> 0 \<le> split_cut sp"
  using assms by (auto simp: split_bps_def split_ratio_def mul_div_floor_def mul_div_def split: if_splits)

lemma credit_partial_Ok: "credit_partial b ms = Ok (earned, refund) \<Longrightarrow> earned + refund = amount_sum ms \<and> 0 \<le> earned"
  by (cases ms) (auto simp: credit_partial_def dest!: refund_rest_Ok split_bps_parts)

lemma set_due_dates_sum: "amount_sum (set_due_dates ms ds) = amount_sum ms"
  by (induction ms ds rule: set_due_dates.induct) auto

lemma set_due_dates_confirmed: "list_all P (map wm_confirmed (set_due_dates ms ds)) = list_all P (map wm_confirmed ms)"
  by (induction ms ds rule: set_due_dates.induct) auto

lemma apply_amendment_kept:
  assumes "apply_amendment x ts g = Ok (refund, st, g')" and "workflow_methods x" and "confirmed_first g"
  shows "amount_sum (wg_milestones g') + refund = amount_sum (wg_milestones g) \<and> confirmed_first g' \<and> confirmed_part g' = confirmed_part g"
proof -
  let ?ms = "map (\<lambda>t. \<lparr>wm_amount = mt_amount t, wm_due = mt_due t, wm_confirmed = False, wm_claimed = False\<rparr>) ts"
  from assms(1) obtain n where g': "wg_milestones g' = confirmed_part g @ ?ms" "add_terms 0 ts = Ok n" "refund = gx_unconfirmed_amount x g - n"
    by (auto simp: apply_amendment_def take_confirmed)
  have "n = amount_sum ?ms" using add_terms_Ok [OF g'(2)] by (simp add: amount_sum_def comp_def)
  moreover have "gx_unconfirmed_amount x g = amount_sum (dropWhile wm_confirmed (wg_milestones g))"
    using assms(2) unconfirmed_sum_eq [OF assms(3)] by (simp add: workflow_methods_def)
  ultimately have "amount_sum (wg_milestones g') + refund = amount_sum (wg_milestones g)"
    using g'(1,3) by (simp add: amount_sum_parts [of g])
  with replaced_pending [OF g'(1)] show ?thesis by (simp add: list_all_iff)
qed

lemma apply_extension_kept:
  assumes "apply_extension ds g = Ok (refund, st, g')" and "confirmed_first g"
  shows "amount_sum (wg_milestones g') + refund = amount_sum (wg_milestones g) \<and> confirmed_first g' \<and> confirmed_part g' = confirmed_part g"
proof -
  let ?ms = "set_due_dates (dropWhile wm_confirmed (wg_milestones g)) ds"
  from assms(1) have g': "wg_milestones g' = confirmed_part g @ ?ms" "refund = 0"
    by (auto simp: apply_extension_def take_confirmed drop_confirmed)
  have "list_all (\<lambda>m. \<not> wm_confirmed m) ?ms"
    using assms(2) set_due_dates_confirmed [of Not] by (simp add: confirmed_first_def list.pred_map comp_def)
  with replaced_pending [OF g'(1)] g'(2) show ?thesis
    by (simp add: g'(1) amount_sum_parts [of g] set_due_dates_sum)
qed

lemma apply_termination_kept:
  assumes "apply_termination b g = Ok (refund, st, g')"
  shows "amount_sum (wg_milestones g') + refund = amount_sum (wg_milestones g) \<and> confirmed_first g' \<and>
    (\<exists>rest. confirmed_part g' = confirmed_part g @ rest)"
proof -
  obtain due where due: "due = (if confirmed_count g < length (wg_milestones g) then wm_due (wg_milestones g ! confirmed_count g) else 0)" by simp
  from assms obtain earned where c: "credit_partial b (dropWhile wm_confirmed (wg_milestones g)) = Ok (earned, refund)"
    "wg_milestones g' = confirmed_part g @
       (if 0 < earned then [\<lparr>wm_amount = earned, wm_due = due, wm_confirmed = True, wm_claimed = False\<rparr>] else [])"
    by (cases "credit_partial b (dropWhile wm_confirmed (wg_milestones g))")
      (auto simp: apply_termination_def Let_def take_confirmed drop_confirmed due split: if_splits)
  then obtain rest where e: "credit_partial b (dropWhile wm_confirmed (wg_milestones g)) = Ok (earned, refund)"
    "wg_milestones g' = confirmed_part g @ rest" "list_all wm_confirmed rest" "amount_sum rest = (if 0 < earned then earned else 0)"
    by simp
  have all: "list_all wm_confirmed (wg_milestones g')" using e(2,3) confirmed_part_confirmed by (auto simp: list_all_iff)
  then have "takeWhile wm_confirmed (wg_milestones g') = wg_milestones g'" "dropWhile wm_confirmed (wg_milestones g') = []"
    by (simp_all add: list_all_iff takeWhile_eq_all_conv)
  then have "confirmed_part g' = confirmed_part g @ rest" "confirmed_first g'"
    using e(2) by (simp_all only: confirmed_part_def [of g'] confirmed_first_def list.pred_inject)
  moreover have "amount_sum (wg_milestones g') + refund = amount_sum (wg_milestones g)"
    using e(2,4) credit_partial_Ok [OF e(1)] by (simp add: amount_sum_parts [of g])
  ultimately show ?thesis by simp
qed

lemma apply_kind_frame:
  assumes "apply_kind x kind g = Ok (refund, st, g')"
  shows "wg_recipient g' = wg_recipient g \<and> wg_pending_refund g' = wg_pending_refund g \<and> wg_refunded g' = wg_refunded g"
  using assms by (cases kind) (auto simp: apply_kind_def apply_amendment_def apply_extension_def apply_termination_def Let_def split: if_splits)

lemma apply_kind_kept:
  assumes "apply_kind x kind g = Ok (refund, st, g')" and "workflow_methods x" and "confirmed_first g"
  shows "amount_sum (wg_milestones g') + refund = amount_sum (wg_milestones g) \<and> confirmed_first g' \<and>
    (\<exists>rest. confirmed_part g' = confirmed_part g @ rest)"
  using assms apply_amendment_kept apply_extension_kept apply_termination_kept
  by (cases kind) (fastforce simp: apply_kind_def)+

section \<open>Histories\<close>

datatype lifecycle_op = LoReview review_op | LoRequest address nat request_kind nat | LoApprove address nat | LoClose address nat
  | LoExecute address nat | LoRefund address nat

fun workflow_step :: "workflow_ext \<Rightarrow> (nat \<Rightarrow> int \<Rightarrow> 't \<Rightarrow> bool \<times> 't) \<Rightarrow> lifecycle_op \<Rightarrow> workflow \<times> 't \<Rightarrow> workflow \<times> 't" where
  "workflow_step x receive (LoReview op) (s, t) = (state_after s (review_exec x op s), t)"
| "workflow_step x receive (LoRequest c g k h) (s, t) = (state_after s (request_change x c g k h s), t)"
| "workflow_step x receive (LoApprove c i) (s, t) = (state_after s (approve_request c i s), t)"
| "workflow_step x receive (LoClose c i) (s, t) = (state_after s (close_request c i s), t)"
| "workflow_step x receive (LoExecute c i) (s, t) = (state_after s (execute_request x c i s), t)"
| "workflow_step x receive (LoRefund c g) st = snd (execute_refund x receive c g st)"

text \<open>A property of the state that every successful operation keeps is kept by every step.\<close>

lemma state_after_keeps: "P s \<Longrightarrow> (\<And>r s'. m = Ok (r, s') \<Longrightarrow> P s') \<Longrightarrow> P (state_after s m)"
  by (auto simp: state_after_def split: outcome.splits prod.splits)

lemma workflow_step_keeps:
  assumes "P (fst st)"
    and "\<And>ro s u s'. P s \<Longrightarrow> review_exec x ro s = Ok (u, s') \<Longrightarrow> P s'"
    and "\<And>c g k h s i s'. P s \<Longrightarrow> request_change x c g k h s = Ok (i, s') \<Longrightarrow> P s'"
    and "\<And>c i s u s'. P s \<Longrightarrow> approve_request c i s = Ok (u, s') \<Longrightarrow> P s'"
    and "\<And>c i s u s'. P s \<Longrightarrow> close_request c i s = Ok (u, s') \<Longrightarrow> P s'"
    and "\<And>c i s u s'. P s \<Longrightarrow> execute_request x c i s = Ok (u, s') \<Longrightarrow> P s'"
    and "\<And>c g s t n s' t'. P s \<Longrightarrow> execute_refund x receive c g (s, t) = (Ok n, s', t') \<Longrightarrow> P s'"
    and "\<And>c g s t r s' t'. execute_refund x receive c g (s, t) = (r, s', t') \<Longrightarrow> \<forall>n. r \<noteq> Ok n \<Longrightarrow> s' = s"
  shows "P (fst (workflow_step x receive op st))"
proof -
  obtain s t where st: "st = (s, t)" by (cases st)
  with assms(1) have s: "P s" by simp
  show ?thesis
  proof (cases op)
    case (LoRefund c g)
    obtain r s' t' where r: "execute_refund x receive c g (s, t) = (r, s', t')" by (cases "execute_refund x receive c g (s, t)")
    have "P s'"
    proof (cases "\<exists>n. r = Ok n")
      case True
      with r obtain n where "execute_refund x receive c g (s, t) = (Ok n, s', t')" by auto
      then show ?thesis by (rule assms(7) [rotated]) (use assms(1) st in simp)
    next
      case False
      then have "s' = s" by (intro assms(8) [OF r]) simp
      then show ?thesis using assms(1) st by simp
    qed
    then show ?thesis by (simp add: LoRefund st r)
  next
    case (LoReview ro)
    then show ?thesis by (simp add: st) (rule state_after_keeps [of P, OF s], rule assms(2) [OF s])
  next
    case (LoRequest c g k h)
    then show ?thesis by (simp add: st) (rule state_after_keeps [of P, OF s], rule assms(3) [OF s])
  next
    case (LoApprove c i)
    then show ?thesis by (simp add: st) (rule state_after_keeps [of P, OF s], rule assms(4) [OF s])
  next
    case (LoClose c i)
    then show ?thesis by (simp add: st) (rule state_after_keeps [of P, OF s], rule assms(5) [OF s])
  next
    case (LoExecute c i)
    then show ?thesis by (simp add: st) (rule state_after_keeps [of P, OF s], rule assms(6) [OF s])
  qed
qed

section \<open>Refunds\<close>

lemma execute_refund_cases:
  assumes "execute_refund x receive c gid (s, t) = (r, s', t')"
  obtains (checks) "\<forall>n. r \<noteq> Ok n" and "s' = s" and "t' = t"
    | (refused) n where "r = Err GwRefundFailed" and "s' = s" and "receive gid n t = (False, t')"
    | (paid) g where "wf_grants s gid = Some g" and "gid \<notin> wf_refunds_in_flight s" and "0 < wg_pending_refund g" and "r = Ok (wg_pending_refund g)"
      and "receive gid (wg_pending_refund g) t = (True, t')" and "gx_require_governance x c s = Ok ()"
      and "s' = close_if_settled gid (put_grant gid (g\<lparr>wg_pending_refund := 0, wg_refunded := wg_refunded g + wg_pending_refund g\<rparr>) s)"
proof -
  let ?checks = "and_then (gx_require_governance x c s) (\<lambda>_.
       if gid \<in> wf_refunds_in_flight s then Err GwRefundInProgress
       else
         and_then (ok_or (wf_grants s gid) GwGrantNotFound) (\<lambda>g.
         if wg_pending_refund g \<le> 0 then Err GwNothingToRefund
         else and_then (i128_add (wg_refunded g) (wg_pending_refund g)) (\<lambda>refunded. Ok (g, refunded))))"
  show thesis
  proof (cases ?checks)
    case (Ok p)
    then obtain g where g: "?checks = Ok (g, wg_refunded g + wg_pending_refund g)" "wf_grants s gid = Some g" "gid \<notin> wf_refunds_in_flight s"
      "0 < wg_pending_refund g" "gx_require_governance x c s = Ok ()"
      by (auto split: if_splits)
    obtain ok u where rc: "receive gid (wg_pending_refund g) t = (ok, u)" by (cases "receive gid (wg_pending_refund g) t")
    have undo: "wf_grants s = (wf_grants s)(gid \<mapsto> g)" "wf_refunds_in_flight s - {gid} = wf_refunds_in_flight s" using g(2,3) by auto
    show thesis
    proof (cases ok)
      case True
      with assms g(1) rc undo(2) show thesis
        by (intro paid [OF g(2-4) _ _ g(5)]) (auto simp: execute_refund_def Let_def put_grant_def simp del: and_then_Ok_iff)
    next
      case False
      with assms g(1) rc undo show thesis
        by (intro refused [of "wg_pending_refund g"])
          (auto simp: execute_refund_def Let_def put_grant_def edit_grant_def simp del: and_then_Ok_iff)
    qed
  next
    case (Err e)
    with assms show thesis by (intro checks) (auto simp: execute_refund_def Let_def simp del: and_then_Err_iff)
  next
    case Trap
    with assms show thesis by (intro checks) (auto simp: execute_refund_def Let_def simp del: and_then_Trap_iff)
  qed
qed

section \<open>Effects\<close>

lemma close_if_settled_frame [simp]:
  "wf_governance (close_if_settled gid s) = wf_governance s" "wf_requests (close_if_settled gid s) = wf_requests s"
  "wf_next_request_id (close_if_settled gid s) = wf_next_request_id s" "wf_history (close_if_settled gid s) = wf_history s"
  "wf_conflicts (close_if_settled gid s) = wf_conflicts s" "wf_assignments (close_if_settled gid s) = wf_assignments s"
  "wf_reviews (close_if_settled gid s) = wf_reviews s"
  by (auto simp: close_if_settled_def put_grant_def Let_def split: option.splits)

lemma close_if_settled_grants:
  "wf_grants (close_if_settled gid s) = wf_grants s \<or>
   (\<exists>g. wf_grants s gid = Some g \<and> (wg_status g = GsTerminated \<or> accepts_requests (wg_status g)) \<and>
      wf_grants (close_if_settled gid s) = (wf_grants s)(gid \<mapsto> g\<lparr>wg_status := GsClosed\<rparr>))"
  by (auto simp: close_if_settled_def put_grant_def Let_def split: option.splits if_splits)

lemma finish_request_frame [simp]:
  "wf_governance (finish_request rid gid st s) = wf_governance s" "wf_next_request_id (finish_request rid gid st s) = wf_next_request_id s"
  "wf_history (finish_request rid gid st s) = wf_history s" "wf_conflicts (finish_request rid gid st s) = wf_conflicts s"
  "wf_assignments (finish_request rid gid st s) = wf_assignments s" "wf_reviews (finish_request rid gid st s) = wf_reviews s"
  by (auto simp: finish_request_def edit_grant_def put_grant_def split: option.splits)

lemma finish_request_effect:
  "wf_requests (finish_request rid gid st s) = (wf_requests s)(rid := map_option (\<lambda>r. r\<lparr>lr_open := False\<rparr>) (wf_requests s rid))"
  "wf_grants (finish_request rid gid st s) =
     (wf_grants s)(gid := map_option (\<lambda>g. g\<lparr>wg_status := st, wg_open_request := None\<rparr>) (wf_grants s gid))"
  by (auto simp: finish_request_def edit_grant_def put_grant_def fun_eq_iff split: option.splits)

lemma request_change_Ok:
  assumes "request_change x caller gid kind h s = Ok (i, s')"
  obtains g where "wf_grants s gid = Some g" and "caller = wg_recipient g \<or> caller = wf_governance s" and "accepts_requests (wg_status g)"
    and "i = wf_next_request_id s" and "validate_change x s gid kind = Ok ()"
    and "s' = s\<lparr>wf_next_request_id := i + 1,
       wf_requests := (wf_requests s)(i \<mapsto>
         \<lparr>lr_id = i, lr_grant_id = gid, lr_kind = kind, lr_requester = caller, lr_reason_hash = h,
          lr_old_schedule = schedule_of g, lr_confirmed_at_request = confirmed_count g,
          lr_approved_by = None, lr_previous_status = wg_status g, lr_open = True\<rparr>),
       wf_grants := (wf_grants s)(gid \<mapsto> g\<lparr>wg_status := requested_status kind, wg_open_request := Some i\<rparr>)\<rparr>"
  using assms by (auto simp: request_change_def Let_def edit_grant_def put_grant_def current_schedule_def split: if_splits)

lemma open_request_Ok [simp]: "open_request s i = Ok r \<longleftrightarrow> wf_requests s i = Some r \<and> lr_open r"
  by (auto simp: open_request_def split: option.splits if_splits)

lemma approve_request_Ok:
  assumes "approve_request caller i s = Ok (u, s')"
  obtains r where "wf_requests s i = Some r" and "lr_open r" and "lr_approved_by r = None"
    and "caller = wf_governance s \<or> (\<forall>b. lr_kind r \<noteq> Termination b) \<and> caller \<noteq> lr_requester r \<and> require_eligible_reviewer caller (lr_grant_id r) s = Ok ()"
    and "s' = s\<lparr>wf_requests := (wf_requests s)(i \<mapsto> r\<lparr>lr_approved_by := Some caller\<rparr>)\<rparr>"
  using assms by (auto simp: approve_request_def split: if_splits request_kind.splits)

lemma close_request_Ok:
  assumes "close_request caller i s = Ok (u, s')"
  obtains r where "wf_requests s i = Some r" and "lr_open r" and "caller = wf_governance s \<or> caller = lr_requester r"
    and "s' = finish_request i (lr_grant_id r) (lr_previous_status r) s"
  using assms by (auto simp: close_request_def split: if_splits)

text \<open>The history entry of an execution.\<close>

definition executed_record :: "nat \<Rightarrow> lifecycle_request \<Rightarrow> address \<Rightarrow> int \<Rightarrow> workflow_grant \<Rightarrow> amendment_record" where
  "executed_record i r approver refund g =
     \<lparr>ar_request_id = i, ar_kind = lr_kind r, ar_requester = lr_requester r, ar_approver = approver, ar_reason_hash = lr_reason_hash r,
      ar_old_schedule = lr_old_schedule r, ar_new_schedule = schedule_of g, ar_refund = refund\<rparr>"

lemma schedule_of_pending [simp]: "schedule_of (g\<lparr>wg_pending_refund := n\<rparr>) = schedule_of g"
  by (simp add: schedule_of_def)

lemma execute_request_Ok:
  assumes "execute_request x caller i s = Ok (u, s')"
  obtains r approver g refund st g' where "gx_require_governance x caller s = Ok ()" and "wf_requests s i = Some r" and "lr_open r"
    and "lr_approved_by r = Some approver" and "wf_grants s (lr_grant_id r) = Some g"
    and "confirmed_count g = lr_confirmed_at_request r" and "schedule_of g = lr_old_schedule r"
    and "validate_change x s (lr_grant_id r) (lr_kind r) = Ok ()" and "apply_kind x (lr_kind r) g = Ok (refund, st, g')"
    and "s' = close_if_settled (lr_grant_id r) (finish_request i (lr_grant_id r) st
       (s\<lparr>wf_grants := (wf_grants s)(lr_grant_id r \<mapsto> g'\<lparr>wg_pending_refund := wg_pending_refund g' + refund\<rparr>),
          wf_history := (wf_history s)(lr_grant_id r \<mapsto> unwrap_or (wf_history s (lr_grant_id r)) [] @ [executed_record i r approver refund g'])\<rparr>))"
  using assms by (auto simp: executed_record_def execute_request_def Let_def put_grant_def current_schedule_def split: if_splits)

section \<open>Conservation\<close>

definition workflow_kept :: "workflow \<Rightarrow> workflow \<Rightarrow> bool" where
  "workflow_kept s0 s \<longleftrightarrow> wf_governance s = wf_governance s0 \<and> (\<forall>gid. rel_option grant_kept (wf_grants s0 gid) (wf_grants s gid)) \<and>
     (\<forall>gid g. wf_grants s gid = Some g \<longrightarrow> confirmed_first g)"

lemma kept_refl [simp]: "grant_kept g g"
  by (auto simp: grant_kept_def)

lemma kept_trans: "grant_kept g h \<Longrightarrow> grant_kept h k \<Longrightarrow> grant_kept g k"
  by (auto simp: grant_kept_def)

lemma kept_status [simp]:
  "grant_kept g (g\<lparr>wg_status := st\<rparr>)" "grant_kept g (g\<lparr>wg_status := st, wg_open_request := i\<rparr>)"
  "confirmed_first (g\<lparr>wg_status := st\<rparr>) = confirmed_first g" "confirmed_first (g\<lparr>wg_status := st, wg_open_request := i\<rparr>) = confirmed_first g"
  by (auto simp: grant_kept_def held_def confirmed_part_def confirmed_first_def)

lemma workflow_kept_put:
  assumes "workflow_kept s0 s" and "wf_governance s' = wf_governance s" and "wf_grants s' = (wf_grants s)(gid \<mapsto> g')"
    and "wf_grants s gid = Some g" and "grant_kept g g'" and "confirmed_first g \<Longrightarrow> confirmed_first g'"
  shows "workflow_kept s0 s'"
proof -
  from assms(1,4) have g: "rel_option grant_kept (wf_grants s0 gid) (Some g)" "confirmed_first g" unfolding workflow_kept_def by metis+
  then have "rel_option grant_kept (wf_grants s0 gid) (Some g')" using assms(5) by (auto simp: option_rel_Some2 intro: kept_trans)
  then show ?thesis using assms(1,2,3) assms(6) [OF g(2)] by (auto simp: workflow_kept_def)
qed

lemma workflow_kept_same:
  "workflow_kept s0 s \<Longrightarrow> wf_governance s' = wf_governance s \<Longrightarrow> wf_grants s' = wf_grants s \<Longrightarrow> workflow_kept s0 s'"
  by (simp add: workflow_kept_def)

lemma workflow_kept_closed: "workflow_kept s0 s \<Longrightarrow> workflow_kept s0 (close_if_settled gid s)"
  using close_if_settled_grants [of gid s] by (auto intro: workflow_kept_same workflow_kept_put)

lemma workflow_kept_finished: "workflow_kept s0 s \<Longrightarrow> workflow_kept s0 (finish_request i gid st s)"
proof (cases "wf_grants s gid")
  case None
  assume "workflow_kept s0 s"
  then show ?thesis by (rule workflow_kept_same) (auto simp: finish_request_effect None)
next
  case (Some g)
  assume "workflow_kept s0 s"
  then show ?thesis
    by (rule workflow_kept_put [where gid = gid and g = g and g' = "g\<lparr>wg_status := st, wg_open_request := None\<rparr>"])
      (auto simp: finish_request_effect Some)
qed

lemma workflow_step_kept:
  assumes "workflow_methods x" and "workflow_kept s0 (fst st)"
  shows "workflow_kept s0 (fst (workflow_step x receive op st))"
proof (rule workflow_step_keeps [where P = "workflow_kept s0", OF assms(2)])
  show "workflow_kept s0 s'" if "workflow_kept s0 s" "review_exec x ro s = Ok (u, s')" for ro s u s'
    using that(1) by (rule workflow_kept_same) (use review_exec_frame [OF that(2)] in simp_all)
  show "workflow_kept s0 s'" if k: "workflow_kept s0 s" and ex: "request_change x c g k' hh s = Ok (i, s')" for c g k' hh s i s'
    using ex
  proof (rule request_change_Ok)
    fix h
    assume "wf_grants s g = Some h"
    moreover assume "s' = s\<lparr>wf_next_request_id := i + 1,
       wf_requests := (wf_requests s)(i \<mapsto>
         \<lparr>lr_id = i, lr_grant_id = g, lr_kind = k', lr_requester = c, lr_reason_hash = hh,
          lr_old_schedule = schedule_of h, lr_confirmed_at_request = confirmed_count h,
          lr_approved_by = None, lr_previous_status = wg_status h, lr_open = True\<rparr>),
       wf_grants := (wf_grants s)(g \<mapsto> h\<lparr>wg_status := requested_status k', wg_open_request := Some i\<rparr>)\<rparr>"
    ultimately show ?thesis
      by (intro workflow_kept_put [OF k, where gid = g and g' = "h\<lparr>wg_status := requested_status k', wg_open_request := Some i\<rparr>"]) auto
  qed
  show "workflow_kept s0 s'" if k: "workflow_kept s0 s" and ex: "approve_request c i s = Ok (u, s')" for c i s u s'
    using ex by (rule approve_request_Ok) (rule workflow_kept_same [OF k], auto)
  show "workflow_kept s0 s'" if k: "workflow_kept s0 s" and ex: "close_request c i s = Ok (u, s')" for c i s u s'
    using ex by (rule close_request_Ok) (simp add: workflow_kept_finished k)
  show "workflow_kept s0 s'" if k: "workflow_kept s0 s" and ex: "execute_request x c i s = Ok (u, s')" for c i s u s'
    using ex
  proof (rule execute_request_Ok)
    fix r approver g refund st g'
    assume g: "wf_grants s (lr_grant_id r) = Some g" and ap: "apply_kind x (lr_kind r) g = Ok (refund, st, g')"
      and s': "s' = close_if_settled (lr_grant_id r) (finish_request i (lr_grant_id r) st
       (s\<lparr>wf_grants := (wf_grants s)(lr_grant_id r \<mapsto> g'\<lparr>wg_pending_refund := wg_pending_refund g' + refund\<rparr>),
          wf_history := (wf_history s)(lr_grant_id r \<mapsto> unwrap_or (wf_history s (lr_grant_id r)) [] @ [executed_record i r approver refund g'])\<rparr>))"
    have "confirmed_first g" using k g by (auto simp: workflow_kept_def)
    note a = apply_kind_kept [OF ap assms(1) this] apply_kind_frame [OF ap]
    show ?thesis unfolding s'
      by (intro workflow_kept_closed workflow_kept_finished workflow_kept_put [OF k _ _ g, where g' = "g'\<lparr>wg_pending_refund := wg_pending_refund g' + refund\<rparr>"])
        (use a in \<open>auto simp: grant_kept_def held_def confirmed_first_def confirmed_part_def\<close>)
  qed
  show "workflow_kept s0 s'" if k: "workflow_kept s0 s" and ex: "execute_refund x receive c g (s, t) = (Ok n, s', t')" for c g s t n s' t'
    using ex
  proof (cases rule: execute_refund_cases)
    case (paid h)
    show ?thesis unfolding paid(7)
      by (intro workflow_kept_closed workflow_kept_put [OF k _ _ paid(1),
          where g' = "h\<lparr>wg_pending_refund := 0, wg_refunded := wg_refunded h + wg_pending_refund h\<rparr>"])
        (auto simp: put_grant_def grant_kept_def held_def confirmed_first_def confirmed_part_def)
  qed simp_all
  show "s' = s" if "execute_refund x receive c g (s, t) = (r, s', t')" "\<forall>n. r \<noteq> Ok n" for c g s t r s' t'
    using that by (cases rule: execute_refund_cases) auto
qed

interpretation conserved: step_invariant "workflow_step x receive" "\<lambda>st. workflow_methods x \<and> workflow_kept s0 (fst st)"
  by unfold_locales (simp add: workflow_step_kept)

text \<open>The treasury together with the refunds it took, newest first, each with its grant.\<close>

definition logged_receive ::
  "(nat \<Rightarrow> int \<Rightarrow> 't \<Rightarrow> bool \<times> 't) \<Rightarrow> nat \<Rightarrow> int \<Rightarrow> 't \<times> (nat \<times> int) list \<Rightarrow> bool \<times> ('t \<times> (nat \<times> int) list)" where
  "logged_receive receive gid n tw =
     (case receive gid n (fst tw) of (ok, t) \<Rightarrow> (ok, (t, if ok then (gid, n) # snd tw else snd tw)))"

definition taken_for :: "nat \<Rightarrow> (nat \<times> int) list \<Rightarrow> int" where
  "taken_for gid log = (\<Sum>(i, n)\<leftarrow>filter (\<lambda>(i, n). i = gid) log. n)"

lemma taken_for_simps [simp]:
  "taken_for gid [] = 0" "taken_for gid ((i, n) # log) = (if i = gid then n else 0) + taken_for gid log"
  by (simp_all add: taken_for_def)

definition refunds_of :: "workflow \<Rightarrow> nat \<Rightarrow> int option" where
  "refunds_of s gid = map_option wg_refunded (wf_grants s gid)"

lemma refunds_of_put:
  "wf_grants s' = (wf_grants s)(gid \<mapsto> g') \<Longrightarrow> wf_grants s gid = Some g \<Longrightarrow> wg_refunded g' = wg_refunded g \<Longrightarrow> refunds_of s' = refunds_of s"
  by (auto simp: refunds_of_def fun_eq_iff)

lemma refunds_of_closed [simp]: "refunds_of (close_if_settled gid s) = refunds_of s"
  using close_if_settled_grants [of gid s] by (auto simp: refunds_of_def fun_eq_iff)

lemma refunds_of_finished [simp]: "refunds_of (finish_request i gid st s) = refunds_of s"
  by (auto simp: refunds_of_def fun_eq_iff finish_request_effect option.map_comp comp_def)

lemma refunds_of_same: "wf_grants s' = wf_grants s \<Longrightarrow> refunds_of s' = refunds_of s"
  by (simp add: refunds_of_def fun_eq_iff)

lemma refunds_unchanged:
  "review_exec x ro s = Ok (u, s') \<Longrightarrow> refunds_of s' = refunds_of s"
  "request_change x c gid k h s = Ok (i, s') \<Longrightarrow> refunds_of s' = refunds_of s"
  "approve_request c i s = Ok (u, s') \<Longrightarrow> refunds_of s' = refunds_of s"
  "close_request c i s = Ok (u, s') \<Longrightarrow> refunds_of s' = refunds_of s"
  "execute_request x c i s = Ok (u, s') \<Longrightarrow> refunds_of s' = refunds_of s"
proof -
  show "review_exec x ro s = Ok (u, s') \<Longrightarrow> refunds_of s' = refunds_of s"
    by (rule refunds_of_same) (simp add: review_exec_frame)
  show "request_change x c gid k h s = Ok (i, s') \<Longrightarrow> refunds_of s' = refunds_of s"
    by (erule request_change_Ok) (auto simp: refunds_of_def fun_eq_iff)
  show "approve_request c i s = Ok (u, s') \<Longrightarrow> refunds_of s' = refunds_of s"
    by (erule approve_request_Ok) (simp add: refunds_of_def fun_eq_iff)
  show "close_request c i s = Ok (u, s') \<Longrightarrow> refunds_of s' = refunds_of s"
    by (erule close_request_Ok) simp
  assume "execute_request x c i s = Ok (u, s')"
  then show "refunds_of s' = refunds_of s"
    by (rule execute_request_Ok) (auto simp: refunds_of_def fun_eq_iff dest: apply_kind_frame)
qed

definition refunds_match :: "workflow \<Rightarrow> workflow \<times> 't \<times> (nat \<times> int) list \<Rightarrow> bool" where
  "refunds_match s0 st \<longleftrightarrow> (\<forall>gid. refunds_of (fst st) gid = map_option (\<lambda>n. n + taken_for gid (snd (snd st))) (refunds_of s0 gid))"

lemma workflow_step_refunds:
  assumes "refunds_match s0 st"
  shows "refunds_match s0 (workflow_step x (logged_receive receive) op st)"
proof -
  obtain s tw where st: "st = (s, tw)" by (cases st)
  have quiet: "refunds_match s0 (state_after s m, tw)" if "\<And>r s'. m = Ok (r, s') \<Longrightarrow> refunds_of s' = refunds_of s"
    for m :: "(workflow_error, 'r \<times> workflow) outcome"
    using assms that by (auto simp: st refunds_match_def state_after_def split: outcome.splits prod.splits)
  show ?thesis
  proof (cases op)
    case (LoRefund c gid)
    obtain r s' tw' where ex: "execute_refund x (logged_receive receive) c gid (s, tw) = (r, s', tw')"
      by (cases "execute_refund x (logged_receive receive) c gid (s, tw)")
    then have "refunds_match s0 (s', tw')"
    proof (cases rule: execute_refund_cases)
      case (refused n)
      then have "snd tw' = snd tw" by (auto simp: logged_receive_def split: prod.splits)
      with refused(2) assms show ?thesis by (simp add: st refunds_match_def)
    next
      case (paid g)
      from paid(5) have log: "snd tw' = (gid, wg_pending_refund g) # snd tw"
        by (auto simp: logged_receive_def split: prod.splits)
      have "refunds_of s' = (refunds_of s)(gid \<mapsto> wg_refunded g + wg_pending_refund g)"
        unfolding paid(7) refunds_of_closed by (auto simp: refunds_of_def put_grant_def)
      moreover have "refunds_of s gid = Some (wg_refunded g)" using paid(1) by (simp add: refunds_of_def)
      ultimately show ?thesis using assms log by (auto simp: st refunds_match_def)
    qed (use assms st in simp)
    with ex show ?thesis by (simp add: LoRefund st)
  next
    case (LoReview ro)
    then show ?thesis by (simp add: st) (rule quiet, rule refunds_unchanged(1))
  next
    case (LoRequest c g k h)
    then show ?thesis by (simp add: st) (rule quiet, rule refunds_unchanged(2))
  next
    case (LoApprove c i)
    then show ?thesis by (simp add: st) (rule quiet, rule refunds_unchanged(3))
  next
    case (LoClose c i)
    then show ?thesis by (simp add: st) (rule quiet, rule refunds_unchanged(4))
  next
    case (LoExecute c i)
    then show ?thesis by (simp add: st) (rule quiet, rule refunds_unchanged(5))
  qed
qed

interpretation refunded: step_invariant "workflow_step x (logged_receive receive)" "refunds_match s0"
  by unfold_locales (rule workflow_step_refunds)

text \<open>C35. Money of a grant is conserved by every history of lifecycle and review operations, run against any treasury and
from any state whose grants have their confirmed milestones first, with the absent helpers as documented. The amounts of a
grant's milestones, the refund it still owes, and what the treasury took for it in this history add up to the milestones
and the refund it started with; its record of refunds grows by exactly what the treasury took; its recipient
stays; and its confirmed milestones stay as they are, in front.\<close>

theorem lifecycle_conserves:
  assumes "workflow_methods x" and "\<forall>g\<in>ran (wf_grants s). confirmed_first g" and "wf_grants s gid = Some g"
    and "fold (workflow_step x (logged_receive receive)) ops (s, (t, [])) = (s', (t', log))"
  shows "\<exists>g'. wf_grants s' gid = Some g' \<and>
    amount_sum (wg_milestones g') + wg_pending_refund g' + taken_for gid log = amount_sum (wg_milestones g) + wg_pending_refund g \<and>
    wg_refunded g' = wg_refunded g + taken_for gid log \<and>
    wg_recipient g' = wg_recipient g \<and> (\<exists>rest. confirmed_part g' = confirmed_part g @ rest)"
proof -
  have "workflow_kept s s" using assms(2) by (auto simp: workflow_kept_def ran_def option.rel_refl)
  then have "workflow_kept s s'"
    using conserved.fold_keeps [of x s "(s, (t, []))" "logged_receive receive" ops] assms(1,4) by simp
  then have "rel_option grant_kept (Some g) (wf_grants s' gid)"
    using assms(3) unfolding workflow_kept_def by metis
  then obtain g' where g': "wf_grants s' gid = Some g'" "grant_kept g g'" by (auto simp: option_rel_Some1)
  have "refunds_match s (s, (t, []))" by (simp add: refunds_match_def option.map_ident)
  then have "refunds_match s (s', (t', log))"
    using refunded.fold_keeps [of s "(s, (t, []))" x receive ops] assms(4) by simp
  then have "refunds_of s' gid = map_option (\<lambda>n. n + taken_for gid log) (refunds_of s gid)" by (simp add: refunds_match_def)
  with g' assms(3) show ?thesis by (auto simp: refunds_of_def grant_kept_def held_def)
qed

section \<open>Who approves\<close>

definition recipient_of :: "workflow \<Rightarrow> nat \<Rightarrow> address option" where
  "recipient_of s gid = map_option wg_recipient (wf_grants s gid)"

definition independent :: "workflow \<Rightarrow> nat \<Rightarrow> request_kind \<Rightarrow> address \<Rightarrow> address \<Rightarrow> bool" where
  "independent s gid kind requester approver \<longleftrightarrow> approver = wf_governance s \<or>
     approver \<noteq> requester \<and> recipient_of s gid \<noteq> Some approver \<and> (\<forall>b. kind \<noteq> Termination b)"

definition grant_party :: "workflow \<Rightarrow> nat \<Rightarrow> address \<Rightarrow> bool" where
  "grant_party s gid a \<longleftrightarrow> a = wf_governance s \<or> recipient_of s gid = Some a"

definition request_approved :: "workflow \<Rightarrow> lifecycle_request \<Rightarrow> bool" where
  "request_approved s r \<longleftrightarrow> grant_party s (lr_grant_id r) (lr_requester r) \<and>
     (\<forall>a. lr_approved_by r = Some a \<longrightarrow> independent s (lr_grant_id r) (lr_kind r) (lr_requester r) a)"

definition change_approved :: "workflow \<Rightarrow> nat \<Rightarrow> amendment_record \<Rightarrow> bool" where
  "change_approved s gid c \<longleftrightarrow> grant_party s gid (ar_requester c) \<and> independent s gid (ar_kind c) (ar_requester c) (ar_approver c)"

definition approvals_ok :: "workflow \<Rightarrow> bool" where
  "approvals_ok s \<longleftrightarrow> (\<forall>i r. wf_requests s i = Some r \<longrightarrow> request_approved s r) \<and>
     (\<forall>gid. \<forall>c\<in>set (amendment_history s gid). change_approved s gid c)"

text \<open>These only depend on governance and the recipients.\<close>

definition same_parties :: "workflow \<Rightarrow> workflow \<Rightarrow> bool" where
  "same_parties s s' \<longleftrightarrow> wf_governance s' = wf_governance s \<and> recipient_of s' = recipient_of s"

lemma same_parties_cong:
  assumes "same_parties s s'"
  shows "independent s' gid k q a = independent s gid k q a" "grant_party s' gid a = grant_party s gid a"
    "request_approved s' r = request_approved s r" "change_approved s' gid c = change_approved s gid c"
  using assms by (simp_all add: independent_def grant_party_def request_approved_def change_approved_def same_parties_def)

lemma approvals_ok_cong:
  assumes "approvals_ok s" and "same_parties s s'" and "wf_requests s' = wf_requests s" and "wf_history s' = wf_history s"
  shows "approvals_ok s'"
  using assms(1,3,4) by (simp add: approvals_ok_def same_parties_cong [OF assms(2)] amendment_history_def)

lemma same_parties_status:
  assumes "wf_governance s' = wf_governance s" and "wf_grants s gid = Some g" and "wf_grants s' = (wf_grants s)(gid \<mapsto> g')" and "wg_recipient g' = wg_recipient g"
  shows "same_parties s s'"
  using assms by (auto simp: same_parties_def recipient_of_def fun_eq_iff)

lemma same_parties_same: "wf_governance s' = wf_governance s \<Longrightarrow> wf_grants s' = wf_grants s \<Longrightarrow> same_parties s s'"
  by (simp add: same_parties_def recipient_of_def fun_eq_iff)

lemma same_parties_closed: "same_parties s (close_if_settled gid s)"
  using close_if_settled_grants [of gid s] by (auto simp: same_parties_def recipient_of_def fun_eq_iff)

lemma same_parties_finished: "same_parties s (finish_request i gid st s)"
  by (auto simp: same_parties_def recipient_of_def fun_eq_iff finish_request_effect option.map_comp comp_def)

lemma approvals_ok_finished:
  assumes "approvals_ok s"
  shows "approvals_ok (finish_request i gid st s)"
  using assms by (auto simp: approvals_ok_def same_parties_cong [OF same_parties_finished] finish_request_effect amendment_history_def
      request_approved_def split: if_splits)

lemma approvals_ok_closed: "approvals_ok s \<Longrightarrow> approvals_ok (close_if_settled gid s)"
  by (rule approvals_ok_cong [OF _ same_parties_closed]) simp_all

lemma workflow_step_approvals:
  assumes "approvals_ok (fst st)"
  shows "approvals_ok (fst (workflow_step x receive op st))"
proof (rule workflow_step_keeps [where P = approvals_ok, OF assms])
  show "approvals_ok s'" if "approvals_ok s" "review_exec x ro s = Ok (u, s')" for ro s u s'
    using that(1) by (rule approvals_ok_cong) (use review_exec_frame [OF that(2)] in \<open>simp_all add: same_parties_same\<close>)
  show "approvals_ok s'" if k: "approvals_ok s" and ex: "request_change x c gid k' h s = Ok (i, s')" for c gid k' h s i s'
    using ex
  proof (rule request_change_Ok)
    fix g
    assume g: "wf_grants s gid = Some g" "c = wg_recipient g \<or> c = wf_governance s"
      and s': "s' = s\<lparr>wf_next_request_id := i + 1,
       wf_requests := (wf_requests s)(i \<mapsto>
         \<lparr>lr_id = i, lr_grant_id = gid, lr_kind = k', lr_requester = c, lr_reason_hash = h,
          lr_old_schedule = schedule_of g, lr_confirmed_at_request = confirmed_count g,
          lr_approved_by = None, lr_previous_status = wg_status g, lr_open = True\<rparr>),
       wf_grants := (wf_grants s)(gid \<mapsto> g\<lparr>wg_status := requested_status k', wg_open_request := Some i\<rparr>)\<rparr>"
    have sp: "same_parties s s'" by (rule same_parties_status [OF _ g(1), where g' = "g\<lparr>wg_status := requested_status k', wg_open_request := Some i\<rparr>"]) (simp_all add: s')
    have "grant_party s gid c" using g by (auto simp: grant_party_def recipient_of_def)
    with k show "approvals_ok s'" unfolding approvals_ok_def same_parties_cong [OF sp]
      by (auto simp: s' request_approved_def amendment_history_def)
  qed
  show "approvals_ok s'" if k: "approvals_ok s" and ex: "approve_request c i s = Ok (u, s')" for c i s u s'
    using ex
  proof (rule approve_request_Ok)
    fix r
    assume r: "wf_requests s i = Some r" and c: "c = wf_governance s \<or> (\<forall>b. lr_kind r \<noteq> Termination b) \<and> c \<noteq> lr_requester r \<and>
        require_eligible_reviewer c (lr_grant_id r) s = Ok ()"
      and s': "s' = s\<lparr>wf_requests := (wf_requests s)(i \<mapsto> r\<lparr>lr_approved_by := Some c\<rparr>)\<rparr>"
    have sp: "same_parties s s'" by (rule same_parties_same) (simp_all add: s')
    have "independent s (lr_grant_id r) (lr_kind r) (lr_requester r) c" using c by (auto simp: independent_def require_eligible_Ok recipient_of_def)
    with k r show "approvals_ok s'" unfolding approvals_ok_def same_parties_cong [OF sp]
      by (auto simp: s' request_approved_def amendment_history_def)
  qed
  show "approvals_ok s'" if k: "approvals_ok s" and ex: "close_request c i s = Ok (u, s')" for c i s u s'
    using ex by (rule close_request_Ok) (simp add: approvals_ok_finished k)
  show "approvals_ok s'" if k: "approvals_ok s" and ex: "execute_request x c i s = Ok (u, s')" for c i s u s'
    using ex
  proof (rule execute_request_Ok)
    fix r approver g refund st g'
    let ?s1 = "s\<lparr>wf_grants := (wf_grants s)(lr_grant_id r \<mapsto> g'\<lparr>wg_pending_refund := wg_pending_refund g' + refund\<rparr>),
          wf_history := (wf_history s)(lr_grant_id r \<mapsto> unwrap_or (wf_history s (lr_grant_id r)) [] @ [executed_record i r approver refund g'])\<rparr>"
    assume r: "wf_requests s i = Some r" "lr_approved_by r = Some approver" and g: "wf_grants s (lr_grant_id r) = Some g"
      and ap: "apply_kind x (lr_kind r) g = Ok (refund, st, g')"
      and s': "s' = close_if_settled (lr_grant_id r) (finish_request i (lr_grant_id r) st ?s1)"
    have sp: "same_parties s ?s1" by (rule same_parties_status [OF _ g, where g' = "g'\<lparr>wg_pending_refund := wg_pending_refund g' + refund\<rparr>"]) (use apply_kind_frame [OF ap] in simp_all)
    have "request_approved s r" using k r(1) by (auto simp: approvals_ok_def)
    with r(2) have "change_approved s (lr_grant_id r) (executed_record i r approver refund g')"
      by (simp add: request_approved_def change_approved_def executed_record_def)
    with k have "approvals_ok ?s1" unfolding approvals_ok_def same_parties_cong [OF sp] by (auto simp: amendment_history_def)
    then show "approvals_ok s'" unfolding s' by (intro approvals_ok_closed approvals_ok_finished)
  qed
  show "approvals_ok s'" if k: "approvals_ok s" and ex: "execute_refund x receive c g (s, t) = (Ok n, s', t')" for c g s t n s' t'
    using ex
  proof (cases rule: execute_refund_cases)
    case (paid h)
    have "approvals_ok (put_grant g (h\<lparr>wg_pending_refund := 0, wg_refunded := wg_refunded h + wg_pending_refund h\<rparr>) s)"
      by (rule approvals_ok_cong [OF k same_parties_status [OF _ paid(1), where g' = "h\<lparr>wg_pending_refund := 0, wg_refunded := wg_refunded h + wg_pending_refund h\<rparr>"]]) (simp_all add: put_grant_def)
    then show ?thesis unfolding paid(7) by (rule approvals_ok_closed)
  qed simp_all
  show "s' = s" if "execute_refund x receive c g (s, t) = (r, s', t')" "\<forall>n. r \<noteq> Ok n" for c g s t r s' t'
    using that by (cases rule: execute_refund_cases) auto
qed

interpretation approvals: step_invariant "workflow_step x receive" "\<lambda>st. approvals_ok (fst st)"
  by unfold_locales (rule workflow_step_approvals)

text \<open>Every executed change of a grant was asked for by its recipient or governance, and approved by governance or by
somebody who neither asked for it nor receives the grant; a termination was always approved by governance.\<close>

theorem executed_change_approved:
  assumes "wf_requests s = Map.empty" and "wf_history s = Map.empty" and "wf_grants s gid = Some g"
    and "\<forall>g\<in>ran (wf_grants s). confirmed_first g" and "workflow_methods x"
    and "c \<in> set (amendment_history (fst (fold (workflow_step x receive) ops (s, t))) gid)"
  shows "ar_requester c \<in> {wg_recipient g, wf_governance s} \<and> (ar_approver c = wf_governance s \<or>
    ar_approver c \<noteq> ar_requester c \<and> ar_approver c \<noteq> wg_recipient g \<and> (\<forall>b. ar_kind c \<noteq> Termination b))"
proof -
  let ?s = "fst (fold (workflow_step x receive) ops (s, t))"
  have "approvals_ok s" using assms(1,2) by (simp add: approvals_ok_def amendment_history_def)
  then have "approvals_ok ?s" using approvals.fold_keeps [of "(s, t)" x receive ops] by simp
  then have c: "change_approved ?s gid c" using assms(6) by (auto simp: approvals_ok_def)
  have "workflow_kept s s" using assms(4) by (auto simp: workflow_kept_def ran_def option.rel_refl)
  then have k: "workflow_kept s ?s" using conserved.fold_keeps [of x s "(s, t)" receive ops] assms(5) by simp
  then have "rel_option grant_kept (Some g) (wf_grants ?s gid)" using assms(3) unfolding workflow_kept_def by metis
  then have "recipient_of ?s gid = Some (wg_recipient g)" by (auto simp: option_rel_Some1 grant_kept_def recipient_of_def)
  with c k show ?thesis by (auto simp: change_approved_def grant_party_def independent_def workflow_kept_def)
qed

section \<open>One open request\<close>

definition is_requested :: "workflow_status \<Rightarrow> bool" where
  "is_requested st \<longleftrightarrow> st \<in> {GsAmendmentRequested, GsExtensionRequested, GsTerminationRequested}"

definition one_open :: "workflow \<Rightarrow> bool" where
  "one_open s \<longleftrightarrow>
     (\<forall>gid g. wf_grants s gid = Some g \<longrightarrow> (wg_open_request g \<noteq> None \<longleftrightarrow> is_requested (wg_status g))) \<and>
     (\<forall>gid g i. wf_grants s gid = Some g \<longrightarrow> wg_open_request g = Some i \<longrightarrow>
        (\<exists>r. wf_requests s i = Some r \<and> lr_open r \<and> lr_grant_id r = gid)) \<and>
     (\<forall>i r. wf_requests s i = Some r \<longrightarrow> i < wf_next_request_id s) \<and>
     (\<forall>i r. wf_requests s i = Some r \<longrightarrow> lr_open r \<longrightarrow> accepts_requests (lr_previous_status r) \<and>
        (\<exists>g. wf_grants s (lr_grant_id r) = Some g \<and> wg_open_request g = Some i))"

lemma one_openD:
  assumes "one_open s"
  shows "wf_grants s gid = Some g \<Longrightarrow> wg_open_request g \<noteq> None \<longleftrightarrow> is_requested (wg_status g)"
    and "wf_grants s gid = Some g \<Longrightarrow> wg_open_request g = Some i \<Longrightarrow> \<exists>r. wf_requests s i = Some r \<and> lr_open r \<and> lr_grant_id r = gid"
    and "wf_requests s i = Some r \<Longrightarrow> i < wf_next_request_id s"
    and "wf_requests s i = Some r \<Longrightarrow> lr_open r \<Longrightarrow> accepts_requests (lr_previous_status r)"
    and "wf_requests s i = Some r \<Longrightarrow> lr_open r \<Longrightarrow> \<exists>g. wf_grants s (lr_grant_id r) = Some g \<and> wg_open_request g = Some i"
  using assms unfolding one_open_def by blast+

lemma accepts_not_requested: "accepts_requests st \<Longrightarrow> \<not> is_requested st"
  by (auto simp: accepts_requests_def is_requested_def)

lemma apply_kind_status:
  assumes "apply_kind x kind g = Ok (refund, st, g')"
  shows "\<not> is_requested st \<and> wg_status g' = wg_status g \<and> wg_open_request g' = wg_open_request g"
  using assms
  by (cases kind) (auto simp: apply_kind_def apply_amendment_def apply_extension_def apply_termination_def is_requested_def Let_def split: if_splits)

lemma one_open_grant:
  assumes "one_open s" and "wf_grants s gid = Some g" and "wf_grants s' = (wf_grants s)(gid \<mapsto> g')"
    and "wg_open_request g' = wg_open_request g" and "is_requested (wg_status g') = is_requested (wg_status g)"
    and "wf_requests s' = wf_requests s" and "wf_next_request_id s' = wf_next_request_id s"
  shows "one_open s'"
  unfolding one_open_def
proof (intro conjI allI impI)
  show "wg_open_request h \<noteq> None \<longleftrightarrow> is_requested (wg_status h)" if "wf_grants s' k = Some h" for k h
    using that assms(2-5) one_openD(1) [OF assms(1)] by (auto split: if_splits)
  show "\<exists>r. wf_requests s' i = Some r \<and> lr_open r \<and> lr_grant_id r = k" if "wf_grants s' k = Some h" "wg_open_request h = Some i" for k h i
    using that assms(2-6) one_openD(2) [OF assms(1)] by (auto split: if_splits)
  show "i < wf_next_request_id s'" if "wf_requests s' i = Some r" for i r
    using that assms(6,7) one_openD(3) [OF assms(1)] by simp
  show "accepts_requests (lr_previous_status r)" if "wf_requests s' i = Some r" "lr_open r" for i r
    using that assms(6) one_openD(4) [OF assms(1)] by simp
  show "\<exists>h. wf_grants s' (lr_grant_id r) = Some h \<and> wg_open_request h = Some i" if "wf_requests s' i = Some r" "lr_open r" for i r
    using that assms(2-4,6) one_openD(5) [OF assms(1), of i r] by auto
qed

lemma one_open_closed:
  assumes "one_open s"
  shows "one_open (close_if_settled gid s)"
  using close_if_settled_grants [of gid s]
proof (elim disjE exE conjE)
  assume "wf_grants (close_if_settled gid s) = wf_grants s"
  then show ?thesis using assms by (simp add: one_open_def)
next
  fix g
  assume g: "wf_grants s gid = Some g" "wf_grants (close_if_settled gid s) = (wf_grants s)(gid \<mapsto> g\<lparr>wg_status := GsClosed\<rparr>)"
    and "wg_status g = GsTerminated"
  then show ?thesis by (intro one_open_grant [OF assms g]) (auto simp: is_requested_def)
next
  fix g
  assume g: "wf_grants s gid = Some g" "wf_grants (close_if_settled gid s) = (wf_grants s)(gid \<mapsto> g\<lparr>wg_status := GsClosed\<rparr>)"
    and "accepts_requests (wg_status g)"
  then show ?thesis by (intro one_open_grant [OF assms g]) (auto simp: is_requested_def accepts_requests_def)
qed

lemma one_open_finished:
  assumes "one_open s" and r: "wf_requests s i = Some r" "lr_open r" and st: "\<not> is_requested st"
  shows "one_open (finish_request i (lr_grant_id r) st s)"
proof -
  note o = one_openD [OF assms(1)]
  let ?s = "finish_request i (lr_grant_id r) st s"
  obtain g where g: "wf_grants s (lr_grant_id r) = Some g" "wg_open_request g = Some i" using o(5) [OF r] by auto
  have grants: "wf_grants ?s = (wf_grants s)(lr_grant_id r \<mapsto> g\<lparr>wg_status := st, wg_open_request := None\<rparr>)"
    and requests: "wf_requests ?s = (wf_requests s)(i \<mapsto> r\<lparr>lr_open := False\<rparr>)"
    by (simp_all add: finish_request_effect g r)
  show ?thesis
    unfolding one_open_def
  proof (intro conjI allI impI)
    show "wg_open_request h \<noteq> None \<longleftrightarrow> is_requested (wg_status h)" if "wf_grants ?s k = Some h" for k h
      using that st o(1) by (auto simp: grants split: if_splits)
    show "\<exists>q. wf_requests ?s j = Some q \<and> lr_open q \<and> lr_grant_id q = k" if "wf_grants ?s k = Some h" "wg_open_request h = Some j" for k h j
    proof -
      have k: "k \<noteq> lr_grant_id r" "wf_grants s k = Some h" using that by (auto simp: grants split: if_splits)
      from o(2) [OF k(2) that(2)] obtain q where q: "wf_requests s j = Some q" "lr_open q" "lr_grant_id q = k" by auto
      have "j \<noteq> i" using q k(1) r(1) by auto
      with q show ?thesis by (simp add: requests)
    qed
    show "j < wf_next_request_id ?s" if "wf_requests ?s j = Some q" for j q
      using that r o(3) by (auto simp: requests split: if_splits)
    show "accepts_requests (lr_previous_status q)" if "wf_requests ?s j = Some q" "lr_open q" for j q
      using that o(4) by (auto simp: requests split: if_splits)
    show "\<exists>h. wf_grants ?s (lr_grant_id q) = Some h \<and> wg_open_request h = Some j" if "wf_requests ?s j = Some q" "lr_open q" for j q
    proof -
      have j: "j \<noteq> i" "wf_requests s j = Some q" using that by (auto simp: requests split: if_splits)
      from o(5) [OF j(2) that(2)] obtain h where h: "wf_grants s (lr_grant_id q) = Some h" "wg_open_request h = Some j" by auto
      have "lr_grant_id q \<noteq> lr_grant_id r" using h g j(1) by auto
      with h show ?thesis by (simp add: grants)
    qed
  qed
qed

lemma one_open_filed:
  assumes "one_open s" and g: "wf_grants s gid = Some g" "accepts_requests (wg_status g)"
    and r: "lr_grant_id r = gid" "lr_open r" "lr_previous_status r = wg_status g" and st: "is_requested st"
  shows "one_open (s\<lparr>wf_next_request_id := wf_next_request_id s + 1, wf_requests := (wf_requests s)(wf_next_request_id s \<mapsto> r),
     wf_grants := (wf_grants s)(gid \<mapsto> g\<lparr>wg_status := st, wg_open_request := Some (wf_next_request_id s)\<rparr>)\<rparr>)"
proof -
  note o = one_openD [OF assms(1)]
  have free: "wg_open_request g = None" using o(1) [OF g(1)] accepts_not_requested [OF g(2)] by simp
  have fresh: "wf_requests s (wf_next_request_id s) = None" using o(3) [of "wf_next_request_id s"] by (cases "wf_requests s (wf_next_request_id s)") auto
  have other: "lr_grant_id q \<noteq> gid" if "wf_requests s j = Some q" "lr_open q" for j q
    using o(5) [OF that] g(1) free by auto
  show ?thesis
    unfolding one_open_def
  proof (intro conjI allI impI, goal_cases)
    case (1 k h) then show ?case using st o(1) by (auto split: if_splits)
  next
    case (2 k h j)
    then show ?case using r o(2) [of k h j] fresh by (auto split: if_splits)
  next
    case (3 j q) then show ?case using o(3) by (fastforce split: if_splits)
  next
    case (4 j q) then show ?case using r g(2) o(4) by (auto split: if_splits)
  next
    case (5 j q) then show ?case using r o(5) [of j q] other [of j q] by (auto split: if_splits)
  qed
qed

lemma one_open_approved:
  assumes "one_open s" and "wf_requests s i = Some r"
  shows "one_open (s\<lparr>wf_requests := (wf_requests s)(i \<mapsto> r\<lparr>lr_approved_by := a\<rparr>)\<rparr>)"
  using assms one_openD(2) [OF assms(1)] unfolding one_open_def by (fastforce split: if_splits)

lemma workflow_step_one_open:
  assumes "one_open (fst st)"
  shows "one_open (fst (workflow_step x receive op st))"
proof (rule workflow_step_keeps [where P = one_open, OF assms])
  show "one_open s'" if "one_open s" "review_exec x ro s = Ok (u, s')" for ro s u s'
    using that(1) review_exec_frame [OF that(2)] by (simp add: one_open_def)
  show "one_open s'" if k: "one_open s" and ex: "request_change x c gid kind h s = Ok (i, s')" for c gid kind h s i s'
    using ex
  proof (rule request_change_Ok)
    fix g
    assume g: "wf_grants s gid = Some g" "accepts_requests (wg_status g)" and i: "i = wf_next_request_id s"
      and s': "s' = s\<lparr>wf_next_request_id := i + 1,
       wf_requests := (wf_requests s)(i \<mapsto>
         \<lparr>lr_id = i, lr_grant_id = gid, lr_kind = kind, lr_requester = c, lr_reason_hash = h,
          lr_old_schedule = schedule_of g, lr_confirmed_at_request = confirmed_count g,
          lr_approved_by = None, lr_previous_status = wg_status g, lr_open = True\<rparr>),
       wf_grants := (wf_grants s)(gid \<mapsto> g\<lparr>wg_status := requested_status kind, wg_open_request := Some i\<rparr>)\<rparr>"
    show "one_open s'" unfolding s' i by (rule one_open_filed [OF k g]) (cases kind; simp add: is_requested_def)+
  qed
  show "one_open s'" if k: "one_open s" and ex: "approve_request c i s = Ok (u, s')" for c i s u s'
    using ex by (rule approve_request_Ok) (auto intro: one_open_approved [OF k])
  show "one_open s'" if k: "one_open s" and ex: "close_request c i s = Ok (u, s')" for c i s u s'
    using ex by (rule close_request_Ok) (auto intro!: one_open_finished [OF k] dest: one_openD(4) [OF k] accepts_not_requested)
  show "one_open s'" if k: "one_open s" and ex: "execute_request x c i s = Ok (u, s')" for c i s u s'
    using ex
  proof (rule execute_request_Ok)
    fix r approver g refund st g'
    let ?s1 = "s\<lparr>wf_grants := (wf_grants s)(lr_grant_id r \<mapsto> g'\<lparr>wg_pending_refund := wg_pending_refund g' + refund\<rparr>),
          wf_history := (wf_history s)(lr_grant_id r \<mapsto> unwrap_or (wf_history s (lr_grant_id r)) [] @ [executed_record i r approver refund g'])\<rparr>"
    assume r: "wf_requests s i = Some r" "lr_open r" and g: "wf_grants s (lr_grant_id r) = Some g"
      and ap: "apply_kind x (lr_kind r) g = Ok (refund, st, g')"
      and s': "s' = close_if_settled (lr_grant_id r) (finish_request i (lr_grant_id r) st ?s1)"
    note a = apply_kind_status [OF ap]
    have "one_open ?s1"
      by (rule one_open_grant [OF k g, where g' = "g'\<lparr>wg_pending_refund := wg_pending_refund g' + refund\<rparr>"]) (use a in simp_all)
    then show "one_open s'" unfolding s' using r a by (intro one_open_closed one_open_finished) auto
  qed
  show "one_open s'" if k: "one_open s" and ex: "execute_refund x receive c g (s, t) = (Ok n, s', t')" for c g s t n s' t'
    using ex
  proof (cases rule: execute_refund_cases)
    case (paid h)
    have "one_open (put_grant g (h\<lparr>wg_pending_refund := 0, wg_refunded := wg_refunded h + wg_pending_refund h\<rparr>) s)"
      by (rule one_open_grant [OF k paid(1),
            where g' = "h\<lparr>wg_pending_refund := 0, wg_refunded := wg_refunded h + wg_pending_refund h\<rparr>"]) (auto simp: put_grant_def)
    then show ?thesis unfolding paid(7) by (rule one_open_closed)
  qed simp_all
  show "s' = s" if "execute_refund x receive c g (s, t) = (r, s', t')" "\<forall>n. r \<noteq> Ok n" for c g s t r s' t'
    using that by (cases rule: execute_refund_cases) auto
qed

interpretation requests: step_invariant "workflow_step x receive" "\<lambda>st. one_open (fst st)"
  by unfold_locales (rule workflow_step_one_open)

text \<open>At most one request is open per grant, and it is the one the grant names.\<close>

theorem one_request_open:
  assumes "one_open s" and "s' = fst (fold (workflow_step x receive) ops (s, t))"
    and "wf_requests s' i = Some q" and "lr_open q" and "wf_requests s' j = Some r" and "lr_open r" and "lr_grant_id q = lr_grant_id r"
  shows "i = j"
proof -
  have "one_open s'" using requests.fold_keeps [of "(s, t)" x receive ops] assms(1,2) by simp
  from one_openD(5) [OF this assms(3,4)] one_openD(5) [OF this assms(5,6)] assms(7) show ?thesis by auto
qed

section \<open>Conflicts\<close>

lemma conflicts_exclude_cong:
  "conflicts_exclude s \<Longrightarrow> wf_conflicts s' = wf_conflicts s \<Longrightarrow> wf_assignments s' = wf_assignments s \<Longrightarrow> wf_reviews s' = wf_reviews s \<Longrightarrow>
   conflicts_exclude s'"
  by (simp add: conflicts_exclude_def has_conflict_def)

lemma workflow_step_excludes:
  assumes "conflicts_exclude (fst st)"
  shows "conflicts_exclude (fst (workflow_step x receive op st))"
proof (rule workflow_step_keeps [where P = conflicts_exclude, OF assms])
  show "conflicts_exclude s'" if "conflicts_exclude s" "review_exec x ro s = Ok (u, s')" for ro s u s'
    using that by (metis review_exec_excludes)
  show "conflicts_exclude s'" if k: "conflicts_exclude s" and ex: "request_change x c gid kind h s = Ok (i, s')" for c gid kind h s i s'
    using ex by (rule request_change_Ok) (rule conflicts_exclude_cong [OF k], simp_all)
  show "conflicts_exclude s'" if k: "conflicts_exclude s" and ex: "approve_request c i s = Ok (u, s')" for c i s u s'
    using ex by (rule approve_request_Ok) (rule conflicts_exclude_cong [OF k], simp_all)
  show "conflicts_exclude s'" if k: "conflicts_exclude s" and ex: "close_request c i s = Ok (u, s')" for c i s u s'
    using ex by (rule close_request_Ok) (rule conflicts_exclude_cong [OF k], simp_all)
  show "conflicts_exclude s'" if k: "conflicts_exclude s" and ex: "execute_request x c i s = Ok (u, s')" for c i s u s'
    using ex by (rule execute_request_Ok) (rule conflicts_exclude_cong [OF k], simp_all)
  show "conflicts_exclude s'" if k: "conflicts_exclude s" and ex: "execute_refund x receive c g (s, t) = (Ok n, s', t')" for c g s t n s' t'
    using ex by (cases rule: execute_refund_cases) (auto intro!: conflicts_exclude_cong [OF k] simp: put_grant_def)
  show "s' = s" if "execute_refund x receive c g (s, t) = (r, s', t')" "\<forall>n. r \<noteq> Ok n" for c g s t r s' t'
    using that by (cases rule: execute_refund_cases) auto
qed

interpretation conflicts: step_invariant "workflow_step x receive" "\<lambda>st. conflicts_exclude (fst st)"
  by unfold_locales (rule workflow_step_excludes)

text \<open>A conflict of interest excludes: whatever review and lifecycle operations ran, a reviewer with an unwaived conflict on a
grant is not assigned to it and has no valid review of it, cannot submit one, and, unless it is governance itself, cannot
approve a change of the grant.\<close>

theorem conflict_of_interest_excludes:
  assumes "wf_conflicts s = []" and "s' = fst (fold (workflow_step x receive) ops (s, t))" and "has_conflict s' gid r"
  shows "r \<notin> set (assigned_reviewers s' gid) \<and> (\<forall>v. review_of s' gid r = Some v \<longrightarrow> \<not> rw_valid v) \<and>
    (\<forall>score approve u. workflow_submit_review r gid score approve s' \<noteq> Ok u) \<and>
    (\<forall>i q u. lifecycle_get_request s' i = Some q \<longrightarrow> lr_grant_id q = gid \<longrightarrow> r \<noteq> wf_governance s' \<longrightarrow> approve_request r i s' \<noteq> Ok u)"
proof (intro conjI allI impI)
  have "conflicts_exclude s" using assms(1) by (simp add: conflicts_exclude_def has_conflict_def)
  then have "conflicts_exclude s'" using conflicts.fold_keeps [of "(s, t)" x receive ops] assms(2) by simp
  with assms(3) have ex: "map_of (wf_assignments s') (gid, r) = None" "\<And>v. map_of (wf_reviews s') (gid, r) = Some v \<Longrightarrow> \<not> rw_valid v"
    by (auto simp: conflicts_exclude_def)
  show "r \<notin> set (assigned_reviewers s' gid)"
    using ex(1) by (auto simp: assigned_reviewers_def grant_range_def map_of_eq_None_iff less_eq_prod_def image_iff)
  show "\<not> rw_valid v" if "review_of s' gid r = Some v" for v using ex(2) that by (simp add: review_of_def)
  show "workflow_submit_review r gid score approve s' \<noteq> Ok u" for score approve u
    using assms(3) by (cases u) (auto simp: workflow_submit_review_def require_eligible_Ok split: if_splits)
  show "approve_request r i s' \<noteq> Ok u" if "lifecycle_get_request s' i = Some q" "lr_grant_id q = gid" "r \<noteq> wf_governance s'" for i q u
  proof
    obtain a b where "u = (a, b)" by (cases u)
    moreover assume "approve_request r i s' = Ok u"
    ultimately have "approve_request r i s' = Ok (a, b)" by simp
    then show False by (rule approve_request_Ok) (use that assms(3) in \<open>auto simp: lifecycle_get_request_def require_eligible_Ok\<close>)
  qed
qed

section \<open>Refunds that are refused\<close>

text \<open>A refund that the treasury refuses leaves the state as it was, to be retried; one it takes moves exactly the
pending amount to the refunds, and the caller was governance.\<close>

theorem refund_all_or_nothing:
  assumes "execute_refund x receive c gid (s, t) = (r, s', t')" and "workflow_methods x"
  shows "(\<forall>n. r \<noteq> Ok n) \<longrightarrow> s' = s" and "r = Ok n \<Longrightarrow> c = wf_governance s \<and> 0 < n \<and> receive gid n t = (True, t') \<and>
    (\<exists>g g'. wf_grants s gid = Some g \<and> wf_grants s' gid = Some g' \<and> wg_pending_refund g = n \<and> wg_pending_refund g' = 0 \<and>
       wg_refunded g' = wg_refunded g + n)"
proof -
  show "(\<forall>n. r \<noteq> Ok n) \<longrightarrow> s' = s" using assms(1) by (cases rule: execute_refund_cases) auto
  show "r = Ok n \<Longrightarrow> c = wf_governance s \<and> 0 < n \<and> receive gid n t = (True, t') \<and>
    (\<exists>g g'. wf_grants s gid = Some g \<and> wf_grants s' gid = Some g' \<and> wg_pending_refund g = n \<and> wg_pending_refund g' = 0 \<and>
       wg_refunded g' = wg_refunded g + n)"
    using assms(1)
  proof (cases rule: execute_refund_cases)
    case (paid g)
    assume n: "r = Ok n"
    from paid(6) assms(2) have "c = wf_governance s" by (auto simp: workflow_methods_def split: if_splits)
    moreover have "\<exists>g'. wf_grants s' gid = Some g' \<and> wg_pending_refund g' = 0 \<and> wg_refunded g' = wg_refunded g + wg_pending_refund g"
      unfolding paid(7) using close_if_settled_grants [of gid "put_grant gid (g\<lparr>wg_pending_refund := 0, wg_refunded := wg_refunded g + wg_pending_refund g\<rparr>) s"]
      by (auto simp: put_grant_def)
    ultimately show ?thesis using paid(1-5) n by simp
  qed auto
qed

section \<open>Concrete runs\<close>

definition wd_ext :: workflow_ext where
  "wd_ext = \<lparr>gx_require_governance = (\<lambda>c s. if c = wf_governance s then Ok () else Err GwUnauthorized),
     gx_unconfirmed_amount = (\<lambda>g. unconfirmed_sum (wg_milestones g)), gx_escrowed = (\<lambda>g. unconfirmed_sum (wg_milestones g))\<rparr>"

definition wd_grant :: workflow_grant where
  "wd_grant = \<lparr>wg_recipient = 2, wg_milestones = [\<lparr>wm_amount = 100, wm_due = 10, wm_confirmed = True, wm_claimed = False\<rparr>,
       \<lparr>wm_amount = 100, wm_due = 20, wm_confirmed = False, wm_claimed = False\<rparr>],
     wg_claimable = 100, wg_amendments = 0, wg_pending_refund = 0, wg_refunded = 0, wg_status = GsFunded, wg_open_request = None\<rparr>"

definition wd_workflow :: workflow where
  "wd_workflow = \<lparr>wf_governance = 1, wf_grants = [0 \<mapsto> wd_grant], wf_requests = Map.empty, wf_next_request_id = 0, wf_history = Map.empty,
     wf_refunds_in_flight = {}, wf_reviewers = [10 \<mapsto> \<lparr>ri_role = PlainReviewer, ri_active = True\<rparr>], wf_review_quorum = 0,
     wf_assignments = [((0, 10), ())], wf_conflicts = [], wf_reviews = []\<rparr>"

text \<open>The grantee asks to cut the second milestone to 60, a reviewer approves, governance executes and returns the rest.\<close>

definition wd_change :: "lifecycle_op list" where
  "wd_change = [LoRequest 2 0 (Amendment [\<lparr>mt_amount = 60, mt_due = 30\<rparr>]) 7, LoApprove 10 0, LoExecute 1 0, LoRefund 1 0]"

definition wd_receive :: "nat \<Rightarrow> int \<Rightarrow> int \<Rightarrow> bool \<times> int" where
  "wd_receive g n t = (True, t + n)"

lemma wd_methods: "workflow_methods wd_ext"
  by (simp add: workflow_methods_def wd_ext_def)

lemma wd_confirmed_first: "\<forall>g\<in>ran (wf_grants wd_workflow). confirmed_first g"
  by (auto simp: wd_workflow_def wd_grant_def confirmed_first_def)

lemmas wd_eval = wd_workflow_def wd_grant_def wd_ext_def validate_change_def MAX_AMENDMENTS_def last_confirmed_due_def
  unconfirmed_sum_def put_grant_def edit_grant_def open_request_def confirmed_count_def schedule_of_def current_schedule_def
  ok_or_def i128_opt_def i128_add_def i128_sub_def i128_checked_def u64_add_def u32_add_def int_width_defs

lemma wd_run:
  "\<exists>s' c. fold (workflow_step wd_ext wd_receive) wd_change (wd_workflow, 0) = (s', 40) \<and> amendment_history s' 0 = [c] \<and>
     ar_approver c = 10 \<and> ar_requester c = 2 \<and> map_option wg_refunded (wf_grants s' 0) = Some 40"
  by (simp add: wd_change_def request_change_def approve_request_def execute_request_def execute_refund_def apply_kind_def apply_amendment_def
      finish_request_def close_if_settled_def require_eligible_reviewer_def require_unconflicted_def has_conflict_def amendment_history_def
      accepts_requests_def wd_receive_def wd_eval Let_def
      del: and_then_Ok_iff and_then_Err_iff and_then_Trap_iff open_request_Ok)

lemma wd_logged_run:
  "\<exists>s' c. fold (workflow_step wd_ext (logged_receive wd_receive)) wd_change (wd_workflow, (0, [])) = (s', (40, [(0, 40)])) \<and>
     amendment_history s' 0 = [c] \<and> map_option wg_pending_refund (wf_grants s' 0) = Some 0"
  by (simp add: wd_change_def request_change_def approve_request_def execute_request_def execute_refund_def apply_kind_def apply_amendment_def
      finish_request_def close_if_settled_def require_eligible_reviewer_def require_unconflicted_def has_conflict_def amendment_history_def
      accepts_requests_def wd_receive_def logged_receive_def wd_eval Let_def
      del: and_then_Ok_iff and_then_Err_iff and_then_Trap_iff open_request_Ok)

theorem lifecycle_conserves_witness:
  "\<exists>s' g'. fold (workflow_step wd_ext (logged_receive wd_receive)) wd_change (wd_workflow, (0, [])) = (s', (40, [(0, 40)])) \<and>
     wf_grants s' 0 = Some g' \<and> wg_pending_refund g' = 0 \<and> amount_sum (wg_milestones g') = 160 \<and> wg_refunded g' = 40"
proof -
  obtain s' where run: "fold (workflow_step wd_ext (logged_receive wd_receive)) wd_change (wd_workflow, (0, [])) = (s', (40, [(0, 40)]))"
    "map_option wg_pending_refund (wf_grants s' 0) = Some 0" using wd_logged_run by blast
  have g: "wf_grants wd_workflow 0 = Some wd_grant" by (simp add: wd_workflow_def)
  from lifecycle_conserves [OF wd_methods wd_confirmed_first g run(1)] run show ?thesis by (auto simp: wd_grant_def)
qed

theorem executed_change_approved_witness:
  "\<exists>c. c \<in> set (amendment_history (fst (fold (workflow_step wd_ext wd_receive) wd_change (wd_workflow, 0))) 0) \<and>
     ar_approver c = 10 \<and> ar_requester c = 2 \<and> (\<forall>b. ar_kind c \<noteq> Termination b)"
proof -
  from wd_run obtain c where c: "c \<in> set (amendment_history (fst (fold (workflow_step wd_ext wd_receive) wd_change (wd_workflow, 0))) 0)"
    "ar_approver c = 10" "ar_requester c = 2" by fastforce
  have g: "wf_grants wd_workflow 0 = Some wd_grant" by (simp add: wd_workflow_def)
  from executed_change_approved [OF _ _ g wd_confirmed_first wd_methods c(1)] c show ?thesis
    by (auto simp: wd_workflow_def)
qed

text \<open>The reviewer declares a conflict after reviewing.\<close>

definition wd_conflict :: "lifecycle_op list" where
  "wd_conflict = [LoReview (RoSubmit 10 0 90 True), LoReview (RoDeclare 10 0 Employment None)]"

lemma wd_conflict_run:
  "has_conflict (fst (fold (workflow_step wd_ext wd_receive) wd_conflict (wd_workflow, 0))) 0 10"
  "\<exists>v. review_of (fst (fold (workflow_step wd_ext wd_receive) wd_conflict (wd_workflow, 0))) 0 10 = Some v"
  by (simp_all add: wd_conflict_def workflow_submit_review_def declare_conflict_def record_conflict_def recuse_def require_eligible_reviewer_def
      require_unconflicted_def has_conflict_def conflict_is_active_def review_of_def REVIEW_MAX_SCORE_def wd_workflow_def wd_grant_def ok_or_def Let_def
      del: and_then_Ok_iff and_then_Err_iff and_then_Trap_iff)

theorem conflict_of_interest_excludes_witness:
  "\<exists>s' v. s' = fst (fold (workflow_step wd_ext wd_receive) wd_conflict (wd_workflow, 0)) \<and> has_conflict s' 0 10 \<and>
     review_of s' 0 10 = Some v \<and> \<not> rw_valid v \<and> 10 \<notin> set (assigned_reviewers s' 0)"
proof -
  have "wf_conflicts wd_workflow = []" by (simp add: wd_workflow_def)
  from conflict_of_interest_excludes [OF this refl wd_conflict_run(1)] wd_conflict_run show ?thesis by auto
qed

end
