(* ===== verification/Grant_Appeals.thy ===== *)
theory Grant_Appeals
  imports Soroban
begin

text \<open>
  Appeals against a rejected grant application (\<open>grants/src/appeals.rs\<close>): one more round of review by an independent
  panel, escalation of a round that stalls or does not decide, and the binding decision of the timelock.

  The file extends a \<open>RefractGrants\<close> contract that is not the one of the crate at this commit.  The record
  \<open>application\<close> has the fields the file reads and writes; the helpers it calls and that are not in the source
  (\<open>read_app\<close>, \<open>write_app\<close>, \<open>require_governance\<close>, \<open>require_timelock\<close>, \<open>validate_panel\<close>) are the fields of the
  parameter record \<open>appeals_ext\<close>, over the part \<open>'a\<close> of the storage that holds applications and wiring.  What a lemma needs of
  them is the named hypothesis \<open>appeals_helpers\<close>: an application reads back as it was written, and the roles and the panel
  rules are those of \<open>docs/grant-appeals.md\<close>.  \<open>put\<close> is the write of a key, whose life time is not modelled.

  Appeals and votes are in the record \<open>appeals\<close>, one field per storage key.  Hashes are opaque numbers.

  The lemmas: an application moves only along the diagram of the source; the votes of a round are counted exactly, by
  members of an independent panel, each at most once; nobody gets more appeals than allowed, and an appeal
  is filed in its window; a rejection is reversed only by a strict majority of an independent panel or by the timelock.
\<close>

section \<open>State\<close>

definition APPEAL_WINDOW_SECS :: nat where "APPEAL_WINDOW_SECS = 14 * 24 * 60 * 60"
definition REREVIEW_TIMEOUT_SECS :: nat where "REREVIEW_TIMEOUT_SECS = 21 * 24 * 60 * 60"

datatype appeals_error = ApUnauthorized | ApInvalidState | ApAppealLimitReached | ApAppealWindowClosed | ApIneligibleReviewer
  | ApNotAssigned | ApAlreadyVoted | ApNotStalled | ApHelper nat

text \<open>The states of an application that this file names, and any other.\<close>

datatype application_status = AsRejected | AsAppealSubmitted | AsUnderReReview | AsUpheld | AsOverturned | AsEscalated | AsOther nat

record application =
  app_applicant :: address
  app_reviewers :: "address list"
  app_status :: application_status
  app_decided_at :: nat
  app_appeals_used :: nat
  app_appeals_allowed :: nat
  app_finalized :: bool

datatype appeal_vote = VoteUphold | VoteOverturn | VoteEscalate

datatype appeal_outcome = OutcomeOpen | OutcomeUpheld | OutcomeOverturned | OutcomeEscalated

record appeal =
  apl_round :: nat
  apl_evidence_hash :: nat
  apl_submitted_at :: nat
  apl_panel :: "address list"
  apl_panel_version :: nat
  apl_panel_assigned_at :: nat
  apl_uphold :: nat
  apl_overturn :: nat
  apl_escalate :: nat
  apl_outcome :: appeal_outcome
  apl_resolved_at :: nat
  apl_finalized :: bool
  apl_final_reason_hash :: nat

record appeal_vote_record =
  avr_vote :: appeal_vote
  avr_review_hash :: nat
  avr_at :: nat

record appeal_status_view =
  av_status :: application_status
  av_round :: nat
  av_appeals_used :: nat
  av_appeals_allowed :: nat
  av_window_ends_at :: "nat option"
  av_finalized :: bool

record 'a appeals =
  as_apps :: 'a
  as_appeal :: "nat \<times> nat \<rightharpoonup> appeal"
  as_vote :: "nat \<times> nat \<times> nat \<times> address \<rightharpoonup> appeal_vote_record"

record 'a appeals_ext =
  ax_read_app :: "nat \<Rightarrow> 'a \<Rightarrow> (appeals_error, application) outcome"
  ax_write_app :: "nat \<Rightarrow> application \<Rightarrow> 'a \<Rightarrow> 'a"
  ax_require_governance :: "env \<Rightarrow> address \<Rightarrow> 'a \<Rightarrow> (appeals_error, unit) outcome"
  ax_require_timelock :: "env \<Rightarrow> address \<Rightarrow> 'a \<Rightarrow> (appeals_error, unit) outcome"
  ax_validate_panel :: "address list \<Rightarrow> (appeals_error, unit) outcome"

definition read_app :: "'a appeals_ext \<Rightarrow> nat \<Rightarrow> 'a appeals \<Rightarrow> (appeals_error, application) outcome" where
  "read_app x i s = ax_read_app x i (as_apps s)"

definition write_app :: "'a appeals_ext \<Rightarrow> nat \<Rightarrow> application \<Rightarrow> 'a appeals \<Rightarrow> 'a appeals" where
  "write_app x i app s = s\<lparr>as_apps := ax_write_app x i app (as_apps s)\<rparr>"

definition put_appeal :: "nat \<Rightarrow> nat \<Rightarrow> appeal \<Rightarrow> 'a appeals \<Rightarrow> 'a appeals" where
  "put_appeal i n a s = s\<lparr>as_appeal := (as_appeal s)((i, n) \<mapsto> a)\<rparr>"

definition read_appeal :: "nat \<Rightarrow> nat \<Rightarrow> 'a appeals \<Rightarrow> (appeals_error, appeal) outcome" where
  "read_appeal i n s = ok_or (as_appeal s (i, n)) ApInvalidState"

section \<open>Filing an appeal and its panel\<close>

definition submit_appeal :: "'a appeals_ext \<Rightarrow> env \<Rightarrow> address \<Rightarrow> nat \<Rightarrow> nat \<Rightarrow> 'a appeals \<Rightarrow> (appeals_error, nat \<times> 'a appeals) outcome" where
  "submit_appeal x e applicant i evidence_hash s =
     and_then (require_auth e applicant) (\<lambda>_.
     and_then (read_app x i s) (\<lambda>app.
     if app_applicant app \<noteq> applicant then Err ApUnauthorized
     else if app_status app \<noteq> AsRejected then Err ApInvalidState
     else if app_appeals_allowed app \<le> app_appeals_used app then Err ApAppealLimitReached
     else if u64_sat_add (app_decided_at app) APPEAL_WINDOW_SECS < timestamp e then Err ApAppealWindowClosed
     else
       and_then (u32_add (app_appeals_used app) 1) (\<lambda>n.
       Ok (n, write_app x i (app\<lparr>app_appeals_used := n, app_status := AsAppealSubmitted\<rparr>)
         (put_appeal i n \<lparr>apl_round = n, apl_evidence_hash = evidence_hash, apl_submitted_at = timestamp e, apl_panel = [],
            apl_panel_version = 0, apl_panel_assigned_at = 0, apl_uphold = 0, apl_overturn = 0, apl_escalate = 0,
            apl_outcome = OutcomeOpen, apl_resolved_at = 0, apl_finalized = False, apl_final_reason_hash = 0\<rparr> s)))))"

definition assign_appeal_panel ::
  "'a appeals_ext \<Rightarrow> env \<Rightarrow> address \<Rightarrow> nat \<Rightarrow> address list \<Rightarrow> 'a appeals \<Rightarrow> (appeals_error, unit \<times> 'a appeals) outcome" where
  "assign_appeal_panel x e caller i panel s =
     and_then (ax_require_governance x e caller (as_apps s)) (\<lambda>_.
     and_then (read_app x i s) (\<lambda>app.
     if app_status app \<notin> {AsAppealSubmitted, AsUnderReReview} then Err ApInvalidState
     else
       and_then (ax_validate_panel x panel) (\<lambda>_.
       if list_ex (\<lambda>m. m = app_applicant app \<or> m \<in> set (app_reviewers app)) panel then Err ApIneligibleReviewer
       else
         let n = app_appeals_used app in
         and_then (read_appeal i n s) (\<lambda>a.
         and_then (u32_add (apl_panel_version a) 1) (\<lambda>v.
         Ok ((), write_app x i (app\<lparr>app_status := AsUnderReReview\<rparr>)
           (put_appeal i n (a\<lparr>apl_panel := panel, apl_panel_version := v, apl_panel_assigned_at := timestamp e,
              apl_uphold := 0, apl_overturn := 0, apl_escalate := 0\<rparr>) s)))))))"

section \<open>Votes\<close>

fun count_vote :: "appeal_vote \<Rightarrow> appeal \<Rightarrow> (appeals_error, appeal) outcome" where
  "count_vote VoteUphold a = and_then (u32_add (apl_uphold a) 1) (\<lambda>n. Ok (a\<lparr>apl_uphold := n\<rparr>))"
| "count_vote VoteOverturn a = and_then (u32_add (apl_overturn a) 1) (\<lambda>n. Ok (a\<lparr>apl_overturn := n\<rparr>))"
| "count_vote VoteEscalate a = and_then (u32_add (apl_escalate a) 1) (\<lambda>n. Ok (a\<lparr>apl_escalate := n\<rparr>))"

definition votes_cast :: "appeal \<Rightarrow> (appeals_error, nat) outcome" where
  "votes_cast a = and_then (u32_add (apl_uphold a) (apl_overturn a)) (\<lambda>n. u32_add n (apl_escalate a))"

definition panel_outcome :: "appeal \<Rightarrow> (appeals_error, appeal_outcome \<times> application_status) outcome" where
  "panel_outcome a =
     (let n = length (apl_panel a) in
      and_then (u32_mul (apl_overturn a) 2) (\<lambda>o2.
      if n < o2 then Ok (OutcomeOverturned, AsOverturned)
      else
        and_then (u32_mul (apl_uphold a) 2) (\<lambda>u2.
        if n < u2 then Ok (OutcomeUpheld, AsUpheld) else Ok (OutcomeEscalated, AsEscalated))))"

definition submit_appeal_review ::
  "'a appeals_ext \<Rightarrow> env \<Rightarrow> address \<Rightarrow> nat \<Rightarrow> appeal_vote \<Rightarrow> nat \<Rightarrow> 'a appeals \<Rightarrow> (appeals_error, application_status \<times> 'a appeals) outcome" where
  "submit_appeal_review x e m i vote review_hash s =
     and_then (require_auth e m) (\<lambda>_.
     and_then (read_app x i s) (\<lambda>app.
     if app_status app \<noteq> AsUnderReReview then Err ApInvalidState
     else
       let n = app_appeals_used app in
       and_then (read_appeal i n s) (\<lambda>a.
       if m \<notin> set (apl_panel a) then Err ApNotAssigned
       else if as_vote s (i, n, apl_panel_version a, m) \<noteq> None then Err ApAlreadyVoted
       else
         let s = s\<lparr>as_vote := (as_vote s)((i, n, apl_panel_version a, m) \<mapsto>
               \<lparr>avr_vote = vote, avr_review_hash = review_hash, avr_at = timestamp e\<rparr>)\<rparr> in
         and_then (count_vote vote a) (\<lambda>a.
         and_then (votes_cast a) (\<lambda>cast.
         if cast = length (apl_panel a) then
           and_then (panel_outcome a) (\<lambda>(outcome, status).
           Ok (status, put_appeal i n (a\<lparr>apl_outcome := outcome, apl_resolved_at := timestamp e\<rparr>)
             (write_app x i (app\<lparr>app_status := status\<rparr>) s)))
         else Ok (app_status app, put_appeal i n a s))))))"

definition escalate_stalled :: "'a appeals_ext \<Rightarrow> env \<Rightarrow> nat \<Rightarrow> 'a appeals \<Rightarrow> (appeals_error, unit \<times> 'a appeals) outcome" where
  "escalate_stalled x e i s =
     and_then (read_app x i s) (\<lambda>app.
     let n = app_appeals_used app in
     and_then (read_appeal i n s) (\<lambda>a.
     and_then (case app_status app of
         AsAppealSubmitted \<Rightarrow> Ok (apl_submitted_at a)
       | AsUnderReReview \<Rightarrow> Ok (apl_panel_assigned_at a)
       | _ \<Rightarrow> Err ApInvalidState) (\<lambda>since.
     if timestamp e \<le> u64_sat_add since REREVIEW_TIMEOUT_SECS then Err ApNotStalled
     else Ok ((), write_app x i (app\<lparr>app_status := AsEscalated\<rparr>)
       (put_appeal i n (a\<lparr>apl_outcome := OutcomeEscalated, apl_resolved_at := timestamp e\<rparr>) s)))))"

section \<open>The timelock\<close>

definition final_decision ::
  "'a appeals_ext \<Rightarrow> env \<Rightarrow> address \<Rightarrow> nat \<Rightarrow> bool \<Rightarrow> nat \<Rightarrow> 'a appeals \<Rightarrow> (appeals_error, application_status \<times> 'a appeals) outcome" where
  "final_decision x e caller i overturn reason_hash s =
     and_then (ax_require_timelock x e caller (as_apps s)) (\<lambda>_.
     and_then (read_app x i s) (\<lambda>app.
     if app_status app \<notin> {AsEscalated, AsUpheld, AsOverturned} then Err ApInvalidState
     else
       let n = app_appeals_used app in
       and_then (read_appeal i n s) (\<lambda>a.
       let (outcome, status) = (if overturn then (OutcomeOverturned, AsOverturned) else (OutcomeUpheld, AsUpheld)) in
       Ok (status, write_app x i (app\<lparr>app_status := status, app_finalized := True\<rparr>)
         (put_appeal i n (a\<lparr>apl_outcome := outcome, apl_resolved_at := timestamp e, apl_finalized := True,
            apl_final_reason_hash := reason_hash\<rparr>) s)))))"

definition reopen_appeal :: "'a appeals_ext \<Rightarrow> env \<Rightarrow> address \<Rightarrow> nat \<Rightarrow> 'a appeals \<Rightarrow> (appeals_error, unit \<times> 'a appeals) outcome" where
  "reopen_appeal x e caller i s =
     and_then (ax_require_timelock x e caller (as_apps s)) (\<lambda>_.
     and_then (read_app x i s) (\<lambda>app.
     if app_status app \<noteq> AsUpheld then Err ApInvalidState
     else
       and_then (u32_add (app_appeals_allowed app) 1) (\<lambda>n.
       Ok ((), write_app x i (app\<lparr>app_appeals_allowed := n, app_status := AsRejected, app_decided_at := timestamp e,
         app_finalized := False\<rparr>) s))))"

section \<open>Views\<close>

definition get_appeal :: "'a appeals \<Rightarrow> nat \<Rightarrow> nat \<Rightarrow> appeal option" where
  "get_appeal s i n = as_appeal s (i, n)"

definition get_appeal_vote :: "'a appeals \<Rightarrow> nat \<Rightarrow> nat \<Rightarrow> nat \<Rightarrow> address \<Rightarrow> appeal_vote_record option" where
  "get_appeal_vote s i n v m = as_vote s (i, n, v, m)"

definition appeal_status :: "'a appeals_ext \<Rightarrow> nat \<Rightarrow> 'a appeals \<Rightarrow> (appeals_error, appeal_status_view) outcome" where
  "appeal_status x i s =
     and_then (read_app x i s) (\<lambda>app.
     let window_ends_at = (if app_status app = AsRejected then Some (u64_sat_add (app_decided_at app) APPEAL_WINDOW_SECS) else None)
     in Ok \<lparr>av_status = app_status app, av_round = app_appeals_used app, av_appeals_used = app_appeals_used app,
          av_appeals_allowed = app_appeals_allowed app, av_window_ends_at = window_ends_at, av_finalized = app_finalized app\<rparr>)"

section \<open>Calls\<close>

datatype appeals_call = ApSubmit address nat nat | ApAssign address nat "address list" | ApReview address nat appeal_vote nat
  | ApEscalate nat | ApFinal address nat bool nat | ApReopen address nat

fun appeals_exec :: "'a appeals_ext \<Rightarrow> (appeals_call, 'a appeals, appeals_error, unit) executor" where
  "appeals_exec x e (ApSubmit c i h) s = discard (submit_appeal x e c i h s)"
| "appeals_exec x e (ApAssign c i p) s = assign_appeal_panel x e c i p s"
| "appeals_exec x e (ApReview m i v h) s = discard (submit_appeal_review x e m i v h s)"
| "appeals_exec x e (ApEscalate i) s = escalate_stalled x e i s"
| "appeals_exec x e (ApFinal c i b h) s = discard (final_decision x e c i b h s)"
| "appeals_exec x e (ApReopen c i) s = reopen_appeal x e c i s"

definition appeals_helpers :: "'a appeals_ext \<Rightarrow> bool" where
  "appeals_helpers x \<longleftrightarrow>
     (\<forall>i j app a. ax_read_app x j (ax_write_app x i app a) = (if j = i then Ok app else ax_read_app x j a)) \<and>
     (\<forall>p. ax_validate_panel x p = Ok () \<longrightarrow> p \<noteq> [] \<and> distinct p \<and> length p \<le> 7)"

section \<open>Votes are counted\<close>

definition votes_for :: "'a appeals \<Rightarrow> nat \<Rightarrow> nat \<Rightarrow> nat \<Rightarrow> appeal_vote \<Rightarrow> address set" where
  "votes_for s i n v k = {m. \<exists>r. as_vote s (i, n, v, m) = Some r \<and> avr_vote r = k}"

fun tally_of :: "appeal_vote \<Rightarrow> appeal \<Rightarrow> nat" where
  "tally_of VoteUphold a = apl_uphold a"
| "tally_of VoteOverturn a = apl_overturn a"
| "tally_of VoteEscalate a = apl_escalate a"

text \<open>The panel may judge the application, and the round belongs to it.\<close>

definition panel_independent :: "'a appeals_ext \<Rightarrow> 'a appeals \<Rightarrow> nat \<Rightarrow> nat \<Rightarrow> address list \<Rightarrow> bool" where
  "panel_independent x s i n panel \<longleftrightarrow> (\<exists>app. read_app x i s = Ok app \<and> n \<le> app_appeals_used app \<and>
     app_applicant app \<notin> set panel \<and> set (app_reviewers app) \<inter> set panel = {})"

definition round_ok :: "'a appeals_ext \<Rightarrow> 'a appeals \<Rightarrow> nat \<Rightarrow> nat \<Rightarrow> appeal \<Rightarrow> bool" where
  "round_ok x s i n a \<longleftrightarrow> distinct (apl_panel a) \<and> panel_independent x s i n (apl_panel a) \<and>
     (\<forall>m. as_vote s (i, n, apl_panel_version a, m) \<noteq> None \<longrightarrow> m \<in> set (apl_panel a)) \<and>
     (\<forall>k. tally_of k a = card (votes_for s i n (apl_panel_version a) k)) \<and>
     (\<forall>v m. apl_panel_version a < v \<longrightarrow> as_vote s (i, n, v, m) = None)"

definition appeals_wf :: "'a appeals_ext \<Rightarrow> 'a appeals \<Rightarrow> bool" where
  "appeals_wf x s \<longleftrightarrow> (\<forall>i n a. as_appeal s (i, n) = Some a \<longrightarrow> round_ok x s i n a) \<and>
     (\<forall>i n v m. as_vote s (i, n, v, m) \<noteq> None \<longrightarrow> (\<exists>app. read_app x i s = Ok app \<and> n \<le> app_appeals_used app)) \<and>
     (\<forall>i app. read_app x i s = Ok app \<longrightarrow> app_appeals_used app \<le> app_appeals_allowed app)"

lemma appeals_wfD:
  assumes "appeals_wf x s"
  shows "as_appeal s (i, n) = Some a \<Longrightarrow> round_ok x s i n a"
    and "as_vote s (i, n, v, m) \<noteq> None \<Longrightarrow> \<exists>app. read_app x i s = Ok app \<and> n \<le> app_appeals_used app"
    and "read_app x i s = Ok app \<Longrightarrow> app_appeals_used app \<le> app_appeals_allowed app"
  using assms unfolding appeals_wf_def by blast+

lemma read_write_app:
  "appeals_helpers x \<Longrightarrow> read_app x j (write_app x i app s) = (if j = i then Ok app else read_app x j s)"
  by (simp add: appeals_helpers_def read_app_def write_app_def)

lemma write_app_frame [simp]:
  "as_appeal (write_app x i app s) = as_appeal s" "as_vote (write_app x i app s) = as_vote s"
  "read_app x j (put_appeal i n a s) = read_app x j s" "as_vote (put_appeal i n a s) = as_vote s"
  "as_appeal (put_appeal i n a s) = (as_appeal s)((i, n) \<mapsto> a)"
  by (simp_all add: write_app_def put_appeal_def read_app_def)

lemma read_app_vote [simp]: "read_app x i (s\<lparr>as_vote := v\<rparr>) = read_app x i s"
  by (simp add: read_app_def)

lemma votes_for_cong: "as_vote s' = as_vote s \<Longrightarrow> votes_for s' i n v k = votes_for s i n v k"
  by (simp add: votes_for_def)

text \<open>An application keeps its applicant and reviewers, and its count of appeals only grows.\<close>

lemma panel_independent_write:
  assumes "appeals_helpers x" and "read_app x i s = Ok app" and "app_applicant app' = app_applicant app"
    and "app_reviewers app' = app_reviewers app" and "app_appeals_used app \<le> app_appeals_used app'"
    and "panel_independent x s j n panel"
  shows "panel_independent x (write_app x i app' s) j n panel"
  using assms by (auto simp: panel_independent_def read_write_app)

lemma wf_write_app:
  assumes "appeals_wf x s" and "appeals_helpers x" and "read_app x i s = Ok app" and "app_applicant app' = app_applicant app"
    and "app_reviewers app' = app_reviewers app" and "app_appeals_used app \<le> app_appeals_used app'"
    and "app_appeals_used app' \<le> app_appeals_allowed app'"
  shows "appeals_wf x (write_app x i app' s)"
  unfolding appeals_wf_def
proof (intro conjI allI impI)
  show "round_ok x (write_app x i app' s) j n a" if "as_appeal (write_app x i app' s) (j, n) = Some a" for j n a
    using appeals_wfD(1) [OF assms(1), of j n a] that panel_independent_write [OF assms(2-6)]
    by (simp add: round_ok_def votes_for_cong [of "write_app x i app' s" s])
  show "\<exists>h. read_app x j (write_app x i app' s) = Ok h \<and> n \<le> app_appeals_used h" if "as_vote (write_app x i app' s) (j, n, v, m) \<noteq> None" for j n v m
    using appeals_wfD(2) [OF assms(1), of j n v m] that assms(2,3,6) by (auto simp: read_write_app)
  show "app_appeals_used h \<le> app_appeals_allowed h" if "read_app x j (write_app x i app' s) = Ok h" for j h
    using appeals_wfD(3) [OF assms(1), of j h] that assms(2,7) by (auto simp: read_write_app split: if_splits)
qed

lemma wf_put_appeal:
  assumes "appeals_wf x s" and "round_ok x s i n a"
  shows "appeals_wf x (put_appeal i n a s)"
proof -
  have "round_ok x (put_appeal i n a s) = round_ok x s"
    by (intro ext) (simp add: round_ok_def panel_independent_def votes_for_cong [of "put_appeal i n a s" s])
  then show ?thesis using assms by (auto simp: appeals_wf_def)
qed

lemma round_ok_decided:
  assumes "round_ok x s i n a" and "apl_panel b = apl_panel a" and "apl_panel_version b = apl_panel_version a"
    and "apl_uphold b = apl_uphold a" and "apl_overturn b = apl_overturn a" and "apl_escalate b = apl_escalate a"
  shows "round_ok x s i n b"
proof -
  have "tally_of k b = tally_of k a" for k using assms(4-6) by (cases k) auto
  then show ?thesis using assms(1-3) by (simp add: round_ok_def)
qed

lemma count_vote_Ok:
  assumes "count_vote k a = Ok b"
  shows "tally_of l b = tally_of l a + (if l = k then 1 else 0)" and "apl_panel b = apl_panel a" and "apl_panel_version b = apl_panel_version a"
  using assms by (cases k; cases l; auto)+

lemma votes_finite:
  assumes "round_ok x s i n a"
  shows "finite (votes_for s i n (apl_panel_version a) k)"
  using assms by (intro finite_subset [OF _ finite_set, of _ "apl_panel a"]) (auto simp: round_ok_def votes_for_def)

lemma wf_vote:
  assumes wf: "appeals_wf x s" and a: "as_appeal s (i, n) = Some a" and m: "m \<in> set (apl_panel a)"
    and new: "as_vote s (i, n, apl_panel_version a, m) = None" and c: "count_vote k a = Ok b"
    and d: "apl_panel d = apl_panel b" "apl_panel_version d = apl_panel_version b" "apl_uphold d = apl_uphold b"
      "apl_overturn d = apl_overturn b" "apl_escalate d = apl_escalate b"
  shows "appeals_wf x (put_appeal i n d (s\<lparr>as_vote := (as_vote s)((i, n, apl_panel_version a, m) \<mapsto> \<lparr>avr_vote = k, avr_review_hash = h, avr_at = t\<rparr>)\<rparr>))"
proof -
  let ?s = "s\<lparr>as_vote := (as_vote s)((i, n, apl_panel_version a, m) \<mapsto> \<lparr>avr_vote = k, avr_review_hash = h, avr_at = t\<rparr>)\<rparr>"
  have r: "round_ok x s i n a" by (rule appeals_wfD(1) [OF wf a])
  have votes: "votes_for ?s j q v l = (if j = i \<and> q = n \<and> v = apl_panel_version a \<and> l = k then insert m (votes_for s j q v l) else votes_for s j q v l)"
    for j q v l using new by (auto simp: votes_for_def)
  have fresh: "m \<notin> votes_for s i n (apl_panel_version a) l" for l using new by (simp add: votes_for_def)
  have "round_ok x ?s i n b"
    using r m fresh votes_finite [OF r] by (auto simp: round_ok_def count_vote_Ok [OF c] votes panel_independent_def split: if_splits)
  then have this_round: "round_ok x ?s i n d" by (rule round_ok_decided [OF _ d])
  have other: "round_ok x ?s j q f" if "as_appeal s (j, q) = Some f" "(j, q) \<noteq> (i, n)" for j q f
    using appeals_wfD(1) [OF wf that(1)] that(2) by (auto simp: round_ok_def votes panel_independent_def)
  have put: "round_ok x (put_appeal i n d ?s) = round_ok x ?s"
    by (intro ext) (simp add: round_ok_def panel_independent_def votes_for_cong [of "put_appeal i n d ?s" ?s])
  have "\<exists>app. read_app x i s = Ok app \<and> n \<le> app_appeals_used app" using r by (auto simp: round_ok_def panel_independent_def)
  then have "\<exists>app. read_app x j s = Ok app \<and> q \<le> app_appeals_used app" if "as_vote ?s (j, q, v, p) \<noteq> None" for j q v p
    using that appeals_wfD(2) [OF wf, of j q v p] by (cases "(j, q, v, p) = (i, n, apl_panel_version a, m)") auto
  moreover have "round_ok x ?s j q f" if "((as_appeal s)((i, n) \<mapsto> d)) (j, q) = Some f" for j q f
    using that this_round other by (cases "(j, q) = (i, n)") auto
  ultimately show ?thesis unfolding appeals_wf_def put using appeals_wfD(3) [OF wf] by simp
qed

section \<open>Accepted calls\<close>

text \<open>A fresh appeal.\<close>

definition new_appeal :: "nat \<Rightarrow> nat \<Rightarrow> nat \<Rightarrow> appeal" where
  "new_appeal n h t = \<lparr>apl_round = n, apl_evidence_hash = h, apl_submitted_at = t, apl_panel = [],
     apl_panel_version = 0, apl_panel_assigned_at = 0, apl_uphold = 0, apl_overturn = 0, apl_escalate = 0,
     apl_outcome = OutcomeOpen, apl_resolved_at = 0, apl_finalized = False, apl_final_reason_hash = 0\<rparr>"

lemma submit_appeal_Ok:
  assumes "submit_appeal x e c i h s = Ok (n, s')"
  obtains app where "read_app x i s = Ok app" and "auth e c" and "app_applicant app = c" and "app_status app = AsRejected"
    and "n = app_appeals_used app + 1" and "n \<le> app_appeals_allowed app"
    and "timestamp e \<le> u64_sat_add (app_decided_at app) APPEAL_WINDOW_SECS"
    and "s' = write_app x i (app\<lparr>app_appeals_used := n, app_status := AsAppealSubmitted\<rparr>) (put_appeal i n (new_appeal n h (timestamp e)) s)"
  using assms by (auto simp: submit_appeal_def new_appeal_def split: if_splits)

lemma assign_appeal_panel_Ok:
  assumes "assign_appeal_panel x e c i panel s = Ok (u, s')"
  obtains app a where "read_app x i s = Ok app" and "ax_require_governance x e c (as_apps s) = Ok ()"
    and "app_status app \<in> {AsAppealSubmitted, AsUnderReReview}" and "ax_validate_panel x panel = Ok ()"
    and "app_applicant app \<notin> set panel" and "set (app_reviewers app) \<inter> set panel = {}"
    and "as_appeal s (i, app_appeals_used app) = Some a"
    and "s' = write_app x i (app\<lparr>app_status := AsUnderReReview\<rparr>)
       (put_appeal i (app_appeals_used app) (a\<lparr>apl_panel := panel, apl_panel_version := apl_panel_version a + 1,
          apl_panel_assigned_at := timestamp e, apl_uphold := 0, apl_overturn := 0, apl_escalate := 0\<rparr>) s)"
  using assms by (auto simp: assign_appeal_panel_def read_appeal_def list_ex_iff Let_def split: if_splits)

lemma submit_appeal_review_Ok:
  assumes "submit_appeal_review x e m i k h s = Ok (st, s')"
  obtains app a b where "read_app x i s = Ok app" and "auth e m" and "app_status app = AsUnderReReview"
    and "as_appeal s (i, app_appeals_used app) = Some a" and "m \<in> set (apl_panel a)"
    and "as_vote s (i, app_appeals_used app, apl_panel_version a, m) = None" and "count_vote k a = Ok b"
    and "(apl_uphold b + apl_overturn b + apl_escalate b \<noteq> length (apl_panel b) \<and> st = AsUnderReReview \<and>
        s' = put_appeal i (app_appeals_used app) b (s\<lparr>as_vote := (as_vote s)((i, app_appeals_used app, apl_panel_version a, m) \<mapsto>
          \<lparr>avr_vote = k, avr_review_hash = h, avr_at = timestamp e\<rparr>)\<rparr>)) \<or>
      (\<exists>outcome. apl_uphold b + apl_overturn b + apl_escalate b = length (apl_panel b) \<and> panel_outcome b = Ok (outcome, st) \<and>
        s' = put_appeal i (app_appeals_used app) (b\<lparr>apl_outcome := outcome, apl_resolved_at := timestamp e\<rparr>)
          (write_app x i (app\<lparr>app_status := st\<rparr>) (s\<lparr>as_vote := (as_vote s)((i, app_appeals_used app, apl_panel_version a, m) \<mapsto>
          \<lparr>avr_vote = k, avr_review_hash = h, avr_at = timestamp e\<rparr>)\<rparr>)))"
  using assms by (auto simp: submit_appeal_review_def read_appeal_def votes_cast_def Let_def split: if_splits)

lemma escalate_stalled_Ok:
  assumes "escalate_stalled x e i s = Ok (u, s')"
  obtains app a where "read_app x i s = Ok app" and "as_appeal s (i, app_appeals_used app) = Some a"
    and "app_status app = AsAppealSubmitted \<and> u64_sat_add (apl_submitted_at a) REREVIEW_TIMEOUT_SECS < timestamp e \<or>
      app_status app = AsUnderReReview \<and> u64_sat_add (apl_panel_assigned_at a) REREVIEW_TIMEOUT_SECS < timestamp e"
    and "s' = write_app x i (app\<lparr>app_status := AsEscalated\<rparr>)
       (put_appeal i (app_appeals_used app) (a\<lparr>apl_outcome := OutcomeEscalated, apl_resolved_at := timestamp e\<rparr>) s)"
  using assms by (auto simp: escalate_stalled_def read_appeal_def Let_def split: if_splits application_status.splits)

lemma final_decision_Ok:
  assumes "final_decision x e c i overturn h s = Ok (st, s')"
  obtains app a where "read_app x i s = Ok app" and "ax_require_timelock x e c (as_apps s) = Ok ()"
    and "app_status app \<in> {AsEscalated, AsUpheld, AsOverturned}" and "as_appeal s (i, app_appeals_used app) = Some a"
    and "st = (if overturn then AsOverturned else AsUpheld)"
    and "s' = write_app x i (app\<lparr>app_status := st, app_finalized := True\<rparr>)
       (put_appeal i (app_appeals_used app) (a\<lparr>apl_outcome := if overturn then OutcomeOverturned else OutcomeUpheld,
          apl_resolved_at := timestamp e, apl_finalized := True, apl_final_reason_hash := h\<rparr>) s)"
  using assms by (auto simp: final_decision_def read_appeal_def Let_def split: if_splits)

lemma reopen_appeal_Ok:
  assumes "reopen_appeal x e c i s = Ok (u, s')"
  obtains app where "read_app x i s = Ok app" and "ax_require_timelock x e c (as_apps s) = Ok ()" and "app_status app = AsUpheld"
    and "s' = write_app x i (app\<lparr>app_appeals_allowed := app_appeals_allowed app + 1, app_status := AsRejected, app_decided_at := timestamp e,
         app_finalized := False\<rparr>) s"
  using assms by (auto simp: reopen_appeal_def split: if_splits)

lemma put_write [simp]: "put_appeal i n a (write_app x j app s) = write_app x j app (put_appeal i n a s)"
  by (simp add: put_appeal_def write_app_def)

lemma appeals_exec_wf:
  assumes h: "appeals_helpers x" and wf: "appeals_wf x s" and ex: "appeals_exec x e c s = Ok (u, s')"
  shows "appeals_wf x s'"
proof (cases c)
  case (ApSubmit a i h)
  with ex obtain n where "submit_appeal x e a i h s = Ok (n, s')" by auto
  then show ?thesis
  proof (rule submit_appeal_Ok)
    fix app :: application
    assume app: "read_app x i s = Ok app" and n: "n = app_appeals_used app + 1" "n \<le> app_appeals_allowed app"
      and s': "s' = write_app x i (app\<lparr>app_appeals_used := n, app_status := AsAppealSubmitted\<rparr>) (put_appeal i n (new_appeal n h (timestamp e)) s)"
    let ?app = "app\<lparr>app_appeals_used := n, app_status := AsAppealSubmitted\<rparr>"
    have fresh: "as_vote s (i, n, v, m) = None" for v m
      using appeals_wfD(2) [OF wf, of i n v m] app n(1) by (cases "as_vote s (i, n, v, m)") auto
    have "appeals_wf x (write_app x i ?app s)" by (rule wf_write_app [OF wf assms(1) app]) (use n in auto)
    moreover have "round_ok x (write_app x i ?app s) i n (new_appeal n h (timestamp e))"
    proof -
      have "tally_of k (new_appeal n h (timestamp e)) = 0" for k by (cases k) (simp_all add: new_appeal_def)
      then show ?thesis
        using fresh by (auto simp: round_ok_def panel_independent_def read_write_app [OF assms(1)] votes_for_def new_appeal_def)
    qed
    ultimately show ?thesis unfolding s' put_write [symmetric] by (rule wf_put_appeal)
  qed
next
  case (ApAssign a i panel)
  with ex have "assign_appeal_panel x e a i panel s = Ok (u, s')" by simp
  then show ?thesis
  proof (rule assign_appeal_panel_Ok)
    fix app :: application and a :: appeal
    assume app: "read_app x i s = Ok app" and panel: "ax_validate_panel x panel = Ok ()"
      "app_applicant app \<notin> set panel" "set (app_reviewers app) \<inter> set panel = {}"
      and a: "as_appeal s (i, app_appeals_used app) = Some a"
      and s': "s' = write_app x i (app\<lparr>app_status := AsUnderReReview\<rparr>)
       (put_appeal i (app_appeals_used app) (a\<lparr>apl_panel := panel, apl_panel_version := apl_panel_version a + 1,
          apl_panel_assigned_at := timestamp e, apl_uphold := 0, apl_overturn := 0, apl_escalate := 0\<rparr>) s)"
    let ?a = "a\<lparr>apl_panel := panel, apl_panel_version := apl_panel_version a + 1,
          apl_panel_assigned_at := timestamp e, apl_uphold := 0, apl_overturn := 0, apl_escalate := 0\<rparr>"
    have later: "as_vote s (i, app_appeals_used app, v, m) = None" if "apl_panel_version a < v" for v m
      using appeals_wfD(1) [OF wf a] that by (auto simp: round_ok_def)
    have "distinct panel" using h panel(1) by (auto simp: appeals_helpers_def)
    moreover have "tally_of k ?a = 0" for k by (cases k) simp_all
    moreover have "as_vote s (i, app_appeals_used app, Suc (apl_panel_version a), m) = None" for m using later by simp
    ultimately have "round_ok x s i (app_appeals_used app) ?a"
      using app panel later by (auto simp: round_ok_def panel_independent_def votes_for_def)
    then have "appeals_wf x (put_appeal i (app_appeals_used app) ?a s)" by (rule wf_put_appeal [OF wf])
    then show ?thesis unfolding s' by (rule wf_write_app [OF _ h, of _ i app]) (use app appeals_wfD(3) [OF wf app] in simp_all)
  qed
next
  case (ApReview m i k h')
  with ex obtain st where "submit_appeal_review x e m i k h' s = Ok (st, s')" by auto
  then show ?thesis
  proof (rule submit_appeal_review_Ok)
    fix app :: application and a b :: appeal
    let ?n = "app_appeals_used app"
    let ?s = "s\<lparr>as_vote := (as_vote s)((i, ?n, apl_panel_version a, m) \<mapsto> \<lparr>avr_vote = k, avr_review_hash = h', avr_at = timestamp e\<rparr>)\<rparr>"
    assume app: "read_app x i s = Ok app" and a: "as_appeal s (i, ?n) = Some a" "m \<in> set (apl_panel a)"
      "as_vote s (i, ?n, apl_panel_version a, m) = None" "count_vote k a = Ok b"
      and cases: "(apl_uphold b + apl_overturn b + apl_escalate b \<noteq> length (apl_panel b) \<and> st = AsUnderReReview \<and> s' = put_appeal i ?n b ?s) \<or>
        (\<exists>outcome. apl_uphold b + apl_overturn b + apl_escalate b = length (apl_panel b) \<and> panel_outcome b = Ok (outcome, st) \<and>
          s' = put_appeal i ?n (b\<lparr>apl_outcome := outcome, apl_resolved_at := timestamp e\<rparr>) (write_app x i (app\<lparr>app_status := st\<rparr>) ?s))"
    note vote = wf_vote [OF wf a]
    from cases show ?thesis
    proof (elim disjE exE conjE)
      assume "s' = put_appeal i ?n b ?s"
      then show ?thesis by (simp add: vote)
    next
      fix outcome
      assume s': "s' = put_appeal i ?n (b\<lparr>apl_outcome := outcome, apl_resolved_at := timestamp e\<rparr>) (write_app x i (app\<lparr>app_status := st\<rparr>) ?s)"
      have "appeals_wf x (put_appeal i ?n (b\<lparr>apl_outcome := outcome, apl_resolved_at := timestamp e\<rparr>) ?s)" by (rule vote) simp_all
      then show ?thesis unfolding s' put_write by (rule wf_write_app [OF _ h, of _ i app]) (use app appeals_wfD(3) [OF wf app] in simp_all)
    qed
  qed
next
  case (ApEscalate i)
  with ex have "escalate_stalled x e i s = Ok (u, s')" by simp
  then show ?thesis
  proof (rule escalate_stalled_Ok)
    fix app :: application and a :: appeal
    assume app: "read_app x i s = Ok app" and a: "as_appeal s (i, app_appeals_used app) = Some a"
      and s': "s' = write_app x i (app\<lparr>app_status := AsEscalated\<rparr>)
       (put_appeal i (app_appeals_used app) (a\<lparr>apl_outcome := OutcomeEscalated, apl_resolved_at := timestamp e\<rparr>) s)"
    show ?thesis unfolding s'
      by (rule wf_write_app [OF wf_put_appeal [OF wf round_ok_decided [OF appeals_wfD(1) [OF wf a]]] h, of _ i app])
        (use app appeals_wfD(3) [OF wf app] in simp_all)
  qed
next
  case (ApFinal f i b h')
  with ex obtain st where "final_decision x e f i b h' s = Ok (st, s')" by auto
  then show ?thesis
  proof (rule final_decision_Ok)
    fix app :: application and a :: appeal
    assume app: "read_app x i s = Ok app" and a: "as_appeal s (i, app_appeals_used app) = Some a"
      and s': "s' = write_app x i (app\<lparr>app_status := st, app_finalized := True\<rparr>)
       (put_appeal i (app_appeals_used app) (a\<lparr>apl_outcome := if b then OutcomeOverturned else OutcomeUpheld,
          apl_resolved_at := timestamp e, apl_finalized := True, apl_final_reason_hash := h'\<rparr>) s)"
    show ?thesis unfolding s'
      by (rule wf_write_app [OF wf_put_appeal [OF wf round_ok_decided [OF appeals_wfD(1) [OF wf a]]] h, of _ i app])
        (use app appeals_wfD(3) [OF wf app] in simp_all)
  qed
next
  case (ApReopen f i)
  with ex have "reopen_appeal x e f i s = Ok (u, s')" by simp
  then show ?thesis
    by (rule reopen_appeal_Ok) (auto intro!: wf_write_app [OF wf h] dest: appeals_wfD(3) [OF wf])
qed

interpretation appealed: contract_invariant "appeals_exec x" "\<lambda>s. appeals_helpers x \<and> appeals_wf x s"
  by unfold_locales (blast intro: appeals_exec_wf)

section \<open>The diagram\<close>

text \<open>The arrows of the diagram in the head of the source, with what each changes in the application.\<close>

inductive appeal_move :: "application \<Rightarrow> application \<Rightarrow> bool" where
  filed: "app_status app = AsRejected \<Longrightarrow> app_appeals_used app < app_appeals_allowed app \<Longrightarrow>
    appeal_move app (app\<lparr>app_appeals_used := app_appeals_used app + 1, app_status := AsAppealSubmitted\<rparr>)"
| assigned: "app_status app \<in> {AsAppealSubmitted, AsUnderReReview} \<Longrightarrow> appeal_move app (app\<lparr>app_status := AsUnderReReview\<rparr>)"
| decided: "app_status app = AsUnderReReview \<Longrightarrow> st \<in> {AsOverturned, AsUpheld, AsEscalated} \<Longrightarrow>
    appeal_move app (app\<lparr>app_status := st\<rparr>)"
| stalled: "app_status app \<in> {AsAppealSubmitted, AsUnderReReview} \<Longrightarrow> appeal_move app (app\<lparr>app_status := AsEscalated\<rparr>)"
| binding: "app_status app \<in> {AsEscalated, AsUpheld, AsOverturned} \<Longrightarrow> st \<in> {AsOverturned, AsUpheld} \<Longrightarrow>
    appeal_move app (app\<lparr>app_status := st, app_finalized := True\<rparr>)"
| reopened: "app_status app = AsUpheld \<Longrightarrow>
    appeal_move app (app\<lparr>app_appeals_allowed := app_appeals_allowed app + 1, app_status := AsRejected, app_decided_at := t,
      app_finalized := False\<rparr>)"

lemma panel_outcome_Ok:
  assumes "panel_outcome a = Ok (outcome, st)"
  shows "st \<in> {AsOverturned, AsUpheld, AsEscalated}" and "st = AsOverturned \<Longrightarrow> length (apl_panel a) < 2 * apl_overturn a"
  using assms by (auto simp: panel_outcome_def u32_mul_def Let_def split: if_splits)

text \<open>A call rewrites at most one application, along an arrow.\<close>

lemma appeals_exec_app:
  assumes "appeals_helpers x" and "appeals_exec x e c s = Ok (u, s')" and "read_app x i s = Ok app"
  shows "\<exists>app'. read_app x i s' = Ok app' \<and> (app' = app \<or> appeal_move app app')"
proof -
  have written: "\<exists>app'. read_app x i (write_app x j new s1) = Ok app' \<and> (app' = app \<or> appeal_move app app')"
    if "\<And>a. read_app x j s = Ok a \<Longrightarrow> appeal_move a new" "read_app x i s1 = read_app x i s" for j new s1
    using that assms(1,3) by (auto simp: read_write_app)
  show ?thesis
  proof (cases c)
    case (ApSubmit a j h)
    with assms(2) obtain n where "submit_appeal x e a j h s = Ok (n, s')" by auto
    then show ?thesis by (rule submit_appeal_Ok) (auto intro!: written appeal_move.filed [unfolded Suc_eq_plus1 [symmetric]])
  next
    case (ApAssign a j panel)
    with assms(2) have "assign_appeal_panel x e a j panel s = Ok (u, s')" by simp
    then show ?thesis by (rule assign_appeal_panel_Ok) (auto intro!: written appeal_move.assigned)
  next
    case (ApReview m j k h)
    with assms(2) obtain st where "submit_appeal_review x e m j k h s = Ok (st, s')" by auto
    then show ?thesis
      by (rule submit_appeal_review_Ok)
        (use assms(3) in \<open>auto intro!: written appeal_move.decided dest: panel_outcome_Ok(1)\<close>)
  next
    case (ApEscalate j)
    with assms(2) have "escalate_stalled x e j s = Ok (u, s')" by simp
    then show ?thesis by (rule escalate_stalled_Ok) (auto intro!: written appeal_move.stalled)
  next
    case (ApFinal f j b h)
    with assms(2) obtain st where "final_decision x e f j b h s = Ok (st, s')" by auto
    then show ?thesis by (rule final_decision_Ok) (auto intro!: written appeal_move.binding)
  next
    case (ApReopen f j)
    with assms(2) have "reopen_appeal x e f j s = Ok (u, s')" by simp
    then show ?thesis by (rule reopen_appeal_Ok) (auto intro!: written appeal_move.reopened [unfolded Suc_eq_plus1 [symmetric]])
  qed
qed

definition apps_follow :: "'a appeals_ext \<Rightarrow> 'a appeals \<Rightarrow> 'a appeals \<Rightarrow> bool" where
  "apps_follow x s s' \<longleftrightarrow> (appeals_helpers x \<longrightarrow>
     (\<forall>i app. read_app x i s = Ok app \<longrightarrow> (\<exists>app'. read_app x i s' = Ok app' \<and> appeal_move\<^sup>*\<^sup>* app app')))"

interpretation diagram: contract_order "appeals_exec x" "apps_follow x"
proof
  fix s t v :: "'a appeals"
  show "apps_follow x s s" by (auto simp: apps_follow_def)
  show "apps_follow x s v" if "apps_follow x s t" "apps_follow x t v"
    using that unfolding apps_follow_def by (meson rtranclp_trans)
next
  fix e c and s s' :: "'a appeals" and u assume "appeals_exec x e c s = Ok (u, s')"
  then show "apps_follow x s s'"
    unfolding apps_follow_def by (metis appeals_exec_app r_into_rtranclp rtranclp.rtrancl_refl)
qed

text \<open>What no number of steps of the diagram changes, and that appeals are only filed and allowed, never taken back.\<close>

lemma appeal_moves_keep:
  "appeal_move\<^sup>*\<^sup>* app app' \<Longrightarrow> app_applicant app' = app_applicant app \<and> app_reviewers app' = app_reviewers app \<and>
     app_appeals_used app \<le> app_appeals_used app' \<and> app_appeals_allowed app \<le> app_appeals_allowed app'"
  by (induction rule: rtranclp_induct) (auto elim!: appeal_move.cases)

text \<open>The part of the diagram that an appeal never enters: an application in another state, such as a funded or withdrawn
one, stays as it is.\<close>

theorem other_states_kept:
  assumes "appeals_helpers x" and "read_app x i s = Ok app" and "app_status app = AsOther k"
  shows "read_app x i (run_txs (appeals_exec x) txs s) = Ok app"
proof -
  have "app' = app" if "appeal_move\<^sup>*\<^sup>* app app'" for app' using that
    by (induction rule: rtranclp_induct) (use assms(3) in \<open>auto elim!: appeal_move.cases\<close>)
  with diagram.run_rel [of x s txs] assms show ?thesis unfolding apps_follow_def by blast
qed

section \<open>Why a rejection is reversed\<close>

definition no_appeals :: "'a appeals_ext \<Rightarrow> 'a appeals \<Rightarrow> bool" where
  "no_appeals x s \<longleftrightarrow> as_appeal s = Map.empty \<and> as_vote s = Map.empty \<and>
     (\<forall>i app. read_app x i s = Ok app \<longrightarrow> app_status app \<noteq> AsOverturned \<and> \<not> app_finalized app \<and>
        app_appeals_used app \<le> app_appeals_allowed app)"

lemma no_appeals_wf: "no_appeals x s \<Longrightarrow> appeals_wf x s"
  by (auto simp: no_appeals_def appeals_wf_def)

text \<open>An application that is overturned without a binding decision has a round whose panel decided so.\<close>

definition reversal_ok :: "application \<Rightarrow> appeal option \<Rightarrow> bool" where
  "reversal_ok app r \<longleftrightarrow> (app_finalized app \<longrightarrow> app_status app \<in> {AsUpheld, AsOverturned}) \<and>
     (app_status app = AsOverturned \<and> \<not> app_finalized app \<longrightarrow> (\<exists>a. r = Some a \<and> length (apl_panel a) < 2 * apl_overturn a))"

definition reversals_ok :: "'a appeals_ext \<Rightarrow> 'a appeals \<Rightarrow> bool" where
  "reversals_ok x s \<longleftrightarrow> (\<forall>i app. read_app x i s = Ok app \<longrightarrow> reversal_ok app (as_appeal s (i, app_appeals_used app)))"

lemma undecided_not_final:
  assumes "reversals_ok x s" and "read_app x i s = Ok app"
    and "app_status app = AsRejected \<or> app_status app = AsAppealSubmitted \<or> app_status app = AsUnderReReview"
  shows "\<not> app_finalized app"
proof -
  have "app_finalized app \<longrightarrow> app_status app \<in> {AsUpheld, AsOverturned}"
    using assms(1,2) unfolding reversals_ok_def reversal_ok_def by blast
  with assms(3) show ?thesis by auto
qed

lemma reversals_ok_write:
  assumes "appeals_helpers x" and "reversals_ok x s" and "as_apps s1 = as_apps s" and "as_appeal s1 = as_appeal s"
    and "reversal_ok app (Some a)" and "n = app_appeals_used app"
  shows "reversals_ok x (write_app x i app (put_appeal i n a s1))"
proof -
  have "read_app x j s1 = read_app x j s" for j using assms(3) by (simp add: read_app_def)
  then show ?thesis using assms by (auto simp: reversals_ok_def read_write_app)
qed

lemma reversals_ok_put:
  assumes "reversals_ok x s" and "as_apps s1 = as_apps s" and "as_appeal s1 = as_appeal s"
    and "read_app x i s = Ok app" and "app_status app \<noteq> AsOverturned"
  shows "reversals_ok x (put_appeal i n a s1)"
proof -
  have "read_app x j s1 = read_app x j s" for j using assms(2) by (simp add: read_app_def)
  then show ?thesis using assms by (auto simp: reversals_ok_def reversal_ok_def)
qed

lemma reversals_ok_app:
  assumes "appeals_helpers x" and "reversals_ok x s" and "\<not> app_finalized app" and "app_status app \<noteq> AsOverturned"
  shows "reversals_ok x (write_app x i app s)"
  using assms by (auto simp: reversals_ok_def reversal_ok_def read_write_app)

lemma appeals_exec_reversals:
  assumes h: "appeals_helpers x" and inv: "reversals_ok x s" and ex: "appeals_exec x e c s = Ok (u, s')"
  shows "reversals_ok x s'"
proof -
  note rewritten = reversals_ok_write [OF h inv] and undecided = undecided_not_final [OF inv]
  show ?thesis
  proof (cases c)
    case (ApSubmit a j k)
    with ex obtain n where "submit_appeal x e a j k s = Ok (n, s')" by auto
    then show ?thesis by (rule submit_appeal_Ok) (auto intro!: rewritten simp: reversal_ok_def undecided)
  next
    case (ApAssign a j panel)
    with ex have "assign_appeal_panel x e a j panel s = Ok (u, s')" by simp
    then show ?thesis by (rule assign_appeal_panel_Ok) (auto intro!: rewritten simp: reversal_ok_def undecided)
  next
    case (ApReview m j k h')
    with ex obtain st where "submit_appeal_review x e m j k h' s = Ok (st, s')" by auto
    then show ?thesis
      by (rule submit_appeal_review_Ok)
        (auto intro!: rewritten intro: reversals_ok_put [OF inv] simp: reversal_ok_def undecided dest: panel_outcome_Ok)
  next
    case (ApEscalate j)
    with ex have "escalate_stalled x e j s = Ok (u, s')" by simp
    then show ?thesis by (rule escalate_stalled_Ok) (auto intro!: rewritten simp: reversal_ok_def undecided)
  next
    case (ApFinal f j b h')
    with ex obtain st where "final_decision x e f j b h' s = Ok (st, s')" by auto
    then show ?thesis by (rule final_decision_Ok) (auto intro!: rewritten simp: reversal_ok_def)
  next
    case (ApReopen f j)
    with ex have "reopen_appeal x e f j s = Ok (u, s')" by simp
    then show ?thesis by (rule reopen_appeal_Ok) (auto intro!: reversals_ok_app [OF h inv])
  qed
qed

interpretation reversals: contract_invariant "appeals_exec x" "\<lambda>s. appeals_helpers x \<and> reversals_ok x s"
  by unfold_locales (blast intro: appeals_exec_reversals)

lemma binding_reversal:
  assumes "appeals_helpers x" and "reversals_ok x s" and "appeals_exec x e c s = Ok (u, s')"
    and "read_app x i s' = Ok app'" and "app_finalized app'" and "app_status app' = AsOverturned"
    and "\<And>app. read_app x i s = Ok app \<Longrightarrow> \<not> (app_finalized app \<and> app_status app = AsOverturned)"
  obtains f h where "c = ApFinal f i True h" and "ax_require_timelock x e f (as_apps s) = Ok ()"
proof -
  note undecided = undecided_not_final [OF assms(2)]
  show thesis
  proof (cases c)
    case (ApSubmit a j k)
    with assms(3) obtain n where "submit_appeal x e a j k s = Ok (n, s')" by auto
    then show thesis by (rule submit_appeal_Ok) (use assms in \<open>auto simp: read_write_app split: if_splits\<close>)
  next
    case (ApAssign a j panel)
    with assms(3) have "assign_appeal_panel x e a j panel s = Ok (u, s')" by simp
    then show thesis by (rule assign_appeal_panel_Ok) (use assms in \<open>auto simp: read_write_app split: if_splits\<close>)
  next
    case (ApReview m j k h')
    with assms(3) obtain st where "submit_appeal_review x e m j k h' s = Ok (st, s')" by auto
    then show thesis
      by (rule submit_appeal_review_Ok)
        (use assms in \<open>auto simp: read_write_app undecided split: if_splits\<close>)
  next
    case (ApEscalate j)
    with assms(3) have "escalate_stalled x e j s = Ok (u, s')" by simp
    then show thesis by (rule escalate_stalled_Ok) (use assms in \<open>auto simp: read_write_app split: if_splits\<close>)
  next
    case (ApFinal f j b h')
    with assms(3) obtain st where "final_decision x e f j b h' s = Ok (st, s')" by auto
    then show thesis
      by (rule final_decision_Ok) (use assms ApFinal that in \<open>auto simp: read_write_app split: if_splits\<close>)
  next
    case (ApReopen f j)
    with assms(3) have "reopen_appeal x e f j s = Ok (u, s')" by simp
    then show thesis by (rule reopen_appeal_Ok) (use assms in \<open>auto simp: read_write_app split: if_splits\<close>)
  qed
qed

lemma vote_cast:
  assumes "appeals_exec x e c s = Ok (u, s')" and "m \<in> votes_for s' i n v k" and "m \<notin> votes_for s i n v k"
  obtains h where "c = ApReview m i k h" and "auth e m"
proof (cases c)
  case (ApReview m' j k' h)
  with assms(1) obtain st where "submit_appeal_review x e m' j k' h s = Ok (st, s')" by auto
  then show thesis
    by (rule submit_appeal_review_Ok) (use assms(2,3) ApReview that in \<open>auto simp: votes_for_def split: if_splits\<close>)
qed (use assms in \<open>auto simp: votes_for_def elim!: submit_appeal_Ok assign_appeal_panel_Ok escalate_stalled_Ok final_decision_Ok reopen_appeal_Ok\<close>)

section \<open>Properties\<close>

text \<open>C36. A rejection is only reversed for a reason. From a state without appeals, with helpers that behave as
documented, and after any history: an application that stands as \<open>Overturned\<close> got there by a binding decision
that an accepted caller of the timelock made to overturn it, or it has a current round whose panel has no
member twice, contains neither the applicant nor an original reviewer, and of whose members more than half
voted to overturn, each in a review of that application that the member signed.\<close>

theorem rejection_reversed_fairly:
  assumes "appeals_helpers x" and "no_appeals x s0" and "s = run_txs (appeals_exec x) txs s0"
    and "read_app x i s = Ok app" and "app_status app = AsOverturned"
  shows "(\<exists>pre e f h post. txs = pre @ (e, ApFinal f i True h) # post \<and>
      ax_require_timelock x e f (as_apps (run_txs (appeals_exec x) pre s0)) = Ok ()) \<or>
    (\<exists>a votes. as_appeal s (i, app_appeals_used app) = Some a \<and> distinct (apl_panel a) \<and>
      app_applicant app \<notin> set (apl_panel a) \<and> set (app_reviewers app) \<inter> set (apl_panel a) = {} \<and>
      votes = votes_for s i (app_appeals_used app) (apl_panel_version a) VoteOverturn \<and> votes \<subseteq> set (apl_panel a) \<and>
      length (apl_panel a) < 2 * card votes \<and>
      (\<forall>m\<in>votes. \<exists>pre e h post. txs = pre @ (e, ApReview m i VoteOverturn h) # post \<and> auth e m))"
proof -
  let ?run = "\<lambda>txs. run_txs (appeals_exec x) txs s0"
  have r0: "reversals_ok x s0" using assms(2) by (simp add: no_appeals_def reversals_ok_def reversal_ok_def)
  have inv: "reversals_ok x (?run txs)" for txs using reversals.run_keeps [of x s0 txs] assms(1) r0 by blast
  have wf: "appeals_wf x s" using appealed.run_keeps [of x s0 txs] assms(1,3) no_appeals_wf [OF assms(2)] by blast
  show ?thesis
  proof (cases "app_finalized app")
    case True
    let ?P = "\<lambda>s. \<exists>app. read_app x i s = Ok app \<and> app_finalized app \<and> app_status app = AsOverturned"
    have "?P (?run txs)" "\<not> ?P s0" using True assms(2-5) by (auto simp: no_appeals_def)
    then obtain pre e c post u s' where o: "txs = pre @ (e, c) # post" "\<not> ?P (?run pre)"
      "appeals_exec x e c (?run pre) = Ok (u, s')" "?P s'" by (rule run_txs_origin)
    from o(4) obtain app' where app': "read_app x i s' = Ok app'" "app_finalized app'" "app_status app' = AsOverturned" by blast
    obtain f h where "c = ApFinal f i True h" "ax_require_timelock x e f (as_apps (?run pre)) = Ok ()"
      by (rule binding_reversal [OF assms(1) inv _ app', of e c pre u]) (use o(2,3) in auto)
    with o(1) show ?thesis by blast
  next
    case False
    with inv [of txs] assms(3-5) obtain a where a: "as_appeal s (i, app_appeals_used app) = Some a"
      "length (apl_panel a) < 2 * apl_overturn a" by (auto simp: reversals_ok_def reversal_ok_def)
    let ?votes = "votes_for s i (app_appeals_used app) (apl_panel_version a) VoteOverturn"
    from appeals_wfD(1) [OF wf a(1)] assms(4) have ok: "distinct (apl_panel a)" "app_applicant app \<notin> set (apl_panel a)"
      "set (app_reviewers app) \<inter> set (apl_panel a) = {}" "?votes \<subseteq> set (apl_panel a)" "tally_of VoteOverturn a = card ?votes"
      by (auto simp: round_ok_def panel_independent_def votes_for_def simp del: tally_of.simps)
    have "\<exists>pre e h post. txs = pre @ (e, ApReview m i VoteOverturn h) # post \<and> auth e m" if "m \<in> ?votes" for m
    proof -
      let ?Q = "\<lambda>s. m \<in> votes_for s i (app_appeals_used app) (apl_panel_version a) VoteOverturn"
      have "?Q (?run txs)" "\<not> ?Q s0" using that assms(2,3) by (auto simp: no_appeals_def votes_for_def)
      then obtain pre e c post u s' where o: "txs = pre @ (e, c) # post" "\<not> ?Q (?run pre)"
        "appeals_exec x e c (?run pre) = Ok (u, s')" "?Q s'" by (rule run_txs_origin)
      obtain h where "c = ApReview m i VoteOverturn h" "auth e m" by (rule vote_cast [OF o(3,4,2)])
      with o(1) show ?thesis by blast
    qed
    with a ok show ?thesis by (intro disjI2 exI [of _ a] exI [of _ ?votes]) auto
  qed
qed

text \<open>A grants contract to run the appeals on: address 1 is governance and 9 the timelock; one application of 2, rejected
at time 100 by the reviewers 3 and 4. Its appeal is decided by the panel 5, 6, 7, two to one.\<close>

definition demo_appeals_ext :: "(nat \<rightharpoonup> application) appeals_ext" where
  "demo_appeals_ext = \<lparr>ax_read_app = (\<lambda>i a. ok_or (a i) (ApHelper 0)), ax_write_app = (\<lambda>i app a. a(i \<mapsto> app)),
     ax_require_governance = (\<lambda>e c a. if c = 1 \<and> auth e c then Ok () else Err ApUnauthorized),
     ax_require_timelock = (\<lambda>e c a. if c = 9 \<and> auth e c then Ok () else Err ApUnauthorized),
     ax_validate_panel = (\<lambda>p. if p \<noteq> [] \<and> distinct p \<and> length p \<le> 7 then Ok () else Err (ApHelper 1))\<rparr>"

definition demo_application :: application where
  "demo_application = \<lparr>app_applicant = 2, app_reviewers = [3, 4], app_status = AsRejected, app_decided_at = 100,
     app_appeals_used = 0, app_appeals_allowed = 1, app_finalized = False\<rparr>"

definition demo_appeals :: "(nat \<rightharpoonup> application) appeals" where
  "demo_appeals = \<lparr>as_apps = [0 \<mapsto> demo_application], as_appeal = Map.empty, as_vote = Map.empty\<rparr>"

definition demo_appeals_env :: "nat \<Rightarrow> env" where
  "demo_appeals_env t = \<lparr>timestamp = t, ledger_seq = 0, auth = (\<lambda>_. True), this = 80\<rparr>"

definition demo_appeals_txs :: "(env \<times> appeals_call) list" where
  "demo_appeals_txs = [(demo_appeals_env 200, ApSubmit 2 0 55), (demo_appeals_env 210, ApAssign 1 0 [5, 3, 7]),
     (demo_appeals_env 220, ApAssign 1 0 [5, 6, 7]), (demo_appeals_env 230, ApReview 5 0 VoteOverturn 0),
     (demo_appeals_env 231, ApReview 5 0 VoteOverturn 0), (demo_appeals_env 232, ApReview 6 0 VoteUphold 0),
     (demo_appeals_env 233, ApReview 7 0 VoteOverturn 0)]"

lemma demo_appeals_helpers: "appeals_helpers demo_appeals_ext"
  by (auto simp: appeals_helpers_def demo_appeals_ext_def ok_or_def split: if_splits)

lemma demo_no_appeals: "no_appeals demo_appeals_ext demo_appeals"
  by (auto simp: no_appeals_def demo_appeals_def demo_appeals_ext_def demo_application_def read_app_def ok_or_def split: if_splits)

lemma demo_appeals_run:
  "let s = run_txs (appeals_exec demo_appeals_ext) demo_appeals_txs demo_appeals in
   read_app demo_appeals_ext 0 s = Ok (demo_application\<lparr>app_appeals_used := 1, app_status := AsOverturned\<rparr>)"
  by (simp add: demo_appeals_txs_def demo_appeals_def demo_appeals_env_def demo_appeals_ext_def demo_application_def
      submit_appeal_def assign_appeal_panel_def submit_appeal_review_def read_app_def write_app_def read_appeal_def put_appeal_def
      votes_cast_def panel_outcome_def discard_def require_auth_def ok_or_def u32_add_def u32_mul_def u32_max_def
      u64_sat_add_def u64_max_def APPEAL_WINDOW_SECS_def Let_def
      del: and_then_Ok_iff and_then_Err_iff and_then_Trap_iff discard_iff)

theorem rejection_reversed_fairly_witness:
  "let s = run_txs (appeals_exec demo_appeals_ext) demo_appeals_txs demo_appeals in
   \<exists>a. read_app demo_appeals_ext 0 s = Ok (demo_application\<lparr>app_appeals_used := 1, app_status := AsOverturned\<rparr>) \<and>
     as_appeal s (0, 1) = Some a \<and> set (apl_panel a) \<inter> {2, 3, 4} = {} \<and>
     length (apl_panel a) < 2 * card (votes_for s 0 1 (apl_panel_version a) VoteOverturn)"
proof -
  let ?s = "run_txs (appeals_exec demo_appeals_ext) demo_appeals_txs demo_appeals"
  let ?app = "demo_application\<lparr>app_appeals_used := 1, app_status := AsOverturned\<rparr>"
  have app: "read_app demo_appeals_ext 0 ?s = Ok ?app" using demo_appeals_run by (simp only: Let_def)
  have "(e, ApFinal f 0 True h) \<notin> set demo_appeals_txs" for e f h by (auto simp: demo_appeals_txs_def)
  then have no_final: "demo_appeals_txs \<noteq> pre @ (e, ApFinal f 0 True h) # post" for pre e f h post
    by (metis in_set_conv_decomp)
  have "app_status ?app = AsOverturned" by simp
  from rejection_reversed_fairly [OF demo_appeals_helpers demo_no_appeals refl app this] no_final obtain a where
    "as_appeal ?s (0, app_appeals_used ?app) = Some a" "app_applicant ?app \<notin> set (apl_panel a)"
    "set (app_reviewers ?app) \<inter> set (apl_panel a) = {}"
    "length (apl_panel a) < 2 * card (votes_for ?s 0 (app_appeals_used ?app) (apl_panel_version a) VoteOverturn)"
    by blast
  with app show ?thesis unfolding Let_def
    by (intro exI [of _ a]) (simp add: demo_application_def)
qed

end
