(* ===== verification/Bounty_Programs.thy ===== *)
theory Bounty_Programs
  imports Soroban
begin

text \<open>
  The self-contained modules beside the bounty contract: coordinated disclosure
  (\<open>bounty/src/disclosure.rs\<close>), the program escrow with its refill rule (\<open>bounty/src/escrow_refill.rs\<close>) and
  the wind-down of a program (\<open>bounty/src/wind_down.rs\<close>).

  The lemmas: a report is published only after every stage, in order, and a full embargo; an escrow holds
  what came in less what was paid, and a refill leaves it at its target; a program that winds down stops
  awards at its deadline and never becomes active again.
\<close>

section \<open>Disclosure\<close>

definition MIN_EMBARGO :: nat where "MIN_EMBARGO = 7 * 24 * 60 * 60"
definition MAX_EMBARGO :: nat where "MAX_EMBARGO = 180 * 24 * 60 * 60"

datatype stage = StSubmitted | StTriaged | StFixAcknowledged | StEmbargoed nat | StPublished

datatype disclosure_error = DsInvalidTransition | DsEmbargoTooShort | DsEmbargoTooLong | DsEmbargoNotElapsed

record disclosure =
  ds_stage :: stage

definition disclosure_new :: disclosure where
  "disclosure_new = \<lparr>ds_stage = StSubmitted\<rparr>"

definition disclosure_advance :: "stage \<Rightarrow> stage \<Rightarrow> disclosure \<Rightarrow> (disclosure_error, unit \<times> disclosure) outcome" where
  "disclosure_advance st st' d = (if ds_stage d \<noteq> st then Err DsInvalidTransition else Ok ((), d\<lparr>ds_stage := st'\<rparr>))"

definition disclosure_triage :: "disclosure \<Rightarrow> (disclosure_error, unit \<times> disclosure) outcome" where
  "disclosure_triage d = disclosure_advance StSubmitted StTriaged d"

definition acknowledge_fix :: "disclosure \<Rightarrow> (disclosure_error, unit \<times> disclosure) outcome" where
  "acknowledge_fix d = disclosure_advance StTriaged StFixAcknowledged d"

definition start_embargo :: "nat \<Rightarrow> nat \<Rightarrow> disclosure \<Rightarrow> (disclosure_error, unit \<times> disclosure) outcome" where
  "start_embargo now window d =
     (if ds_stage d \<noteq> StFixAcknowledged then Err DsInvalidTransition
      else if window < MIN_EMBARGO then Err DsEmbargoTooShort
      else if MAX_EMBARGO < window then Err DsEmbargoTooLong
      else Ok ((), d\<lparr>ds_stage := StEmbargoed (u64_sat_add now window)\<rparr>))"

definition disclosure_publish :: "nat \<Rightarrow> disclosure \<Rightarrow> (disclosure_error, unit \<times> disclosure) outcome" where
  "disclosure_publish now d =
     (case ds_stage d of
        StEmbargoed until \<Rightarrow>
          if until \<le> now then Ok ((), d\<lparr>ds_stage := StPublished\<rparr>) else Err DsEmbargoNotElapsed
      | _ \<Rightarrow> Err DsInvalidTransition)"

datatype disclosure_call = DsTriage | DsAcknowledge | DsEmbargo nat | DsPublish

fun disclosure_exec :: "env \<Rightarrow> disclosure_call \<Rightarrow> disclosure \<Rightarrow> (disclosure_error, unit \<times> disclosure) outcome" where
  "disclosure_exec e DsTriage d = disclosure_triage d"
| "disclosure_exec e DsAcknowledge d = acknowledge_fix d"
| "disclosure_exec e (DsEmbargo window) d = start_embargo (timestamp e) window d"
| "disclosure_exec e DsPublish d = disclosure_publish (timestamp e) d"

lemmas disclosure_defs = disclosure_triage_def acknowledge_fix_def disclosure_advance_def start_embargo_def disclosure_publish_def

text \<open>Every stage is entered from the one before it, by its own call.\<close>

lemma disclosure_step:
  assumes "disclosure_exec e c d = Ok (u, d')"
  shows "(ds_stage d' = StPublished \<longrightarrow> c = DsPublish \<and> (\<exists>t. ds_stage d = StEmbargoed t \<and> t \<le> timestamp e)) \<and>
    (\<forall>t. ds_stage d' = StEmbargoed t \<longrightarrow> ds_stage d = StFixAcknowledged \<and>
       (\<exists>w. c = DsEmbargo w \<and> MIN_EMBARGO \<le> w \<and> w \<le> MAX_EMBARGO \<and> t = u64_sat_add (timestamp e) w)) \<and>
    (ds_stage d' = StFixAcknowledged \<longrightarrow> ds_stage d = StTriaged \<and> c = DsAcknowledge) \<and>
    (ds_stage d' = StTriaged \<longrightarrow> ds_stage d = StSubmitted \<and> c = DsTriage)"
  using assms by (cases c) (auto simp: disclosure_defs split: if_splits stage.splits)

text \<open>What took a report to its stage: the call that entered it and the stage before.\<close>

lemma disclosure_origin:
  assumes "ds_stage (run_txs disclosure_exec txs disclosure_new) = st" and "st \<noteq> StSubmitted"
  obtains pre e c post u d where "txs = pre @ (e, c) # post"
    "disclosure_exec e c (run_txs disclosure_exec pre disclosure_new) = Ok (u, d)" "ds_stage d = st"
proof -
  obtain pre e c post u d where "txs = pre @ (e, c) # post"
    "disclosure_exec e c (run_txs disclosure_exec pre disclosure_new) = Ok (u, d)" "ds_stage d = st"
    by (rule run_txs_origin [of "\<lambda>d. ds_stage d = st" disclosure_exec txs disclosure_new])
       (use assms in \<open>auto simp: disclosure_new_def\<close>)
  then show thesis by (rule that)
qed

text \<open>A published report went through every stage in order, and its publication came no earlier than the end of an
embargo of at least seven and at most 180 days that began after the fix was acknowledged.\<close>

theorem published_after_embargo:
  assumes "ds_stage (run_txs disclosure_exec txs disclosure_new) = StPublished"
  shows "\<exists>t1 e1 t2 e2 t3 e3 w t4 e4 t5.
    txs = t1 @ (e1, DsTriage) # t2 @ (e2, DsAcknowledge) # t3 @ (e3, DsEmbargo w) # t4 @ (e4, DsPublish) # t5 \<and>
    MIN_EMBARGO \<le> w \<and> w \<le> MAX_EMBARGO \<and> u64_sat_add (timestamp e3) w \<le> timestamp e4"
proof -
  obtain p4 e4 t5 u d where p: "txs = p4 @ (e4, DsPublish) # t5" "\<exists>t. ds_stage (run_txs disclosure_exec p4 disclosure_new) = StEmbargoed t \<and> t \<le> timestamp e4"
    using disclosure_origin [OF assms] disclosure_step by (metis stage.distinct(7))
  then obtain t where t: "ds_stage (run_txs disclosure_exec p4 disclosure_new) = StEmbargoed t" "t \<le> timestamp e4" by blast
  obtain p3 e3 w t4 where q: "p4 = p3 @ (e3, DsEmbargo w) # t4" "MIN_EMBARGO \<le> w" "w \<le> MAX_EMBARGO"
    "t = u64_sat_add (timestamp e3) w" "ds_stage (run_txs disclosure_exec p3 disclosure_new) = StFixAcknowledged"
    by (rule disclosure_origin [OF t(1)]) (use disclosure_step in blast)+
  obtain p2 e2 t3 where r: "p3 = p2 @ (e2, DsAcknowledge) # t3" "ds_stage (run_txs disclosure_exec p2 disclosure_new) = StTriaged"
    by (rule disclosure_origin [OF q(5)]) (use disclosure_step in blast)+
  obtain p1 e1 t2 where "p2 = p1 @ (e1, DsTriage) # t2"
    by (rule disclosure_origin [OF r(2)]) (use disclosure_step in blast)+
  with p(1) q r t(2) show ?thesis by fastforce
qed

section \<open>The program escrow\<close>

record refill_rule =
  rf_minimum :: int
  rf_refill_to :: int

datatype escrow_error = EsUnauthorized | EsInvalidAmount | EsInsufficientEscrow | EsInsufficientSponsorFunds | EsOverflow

record program_escrow =
  es_governance :: nat
  es_balance :: int
  es_rule :: "refill_rule option"

definition escrow_new :: "nat \<Rightarrow> program_escrow" where
  "escrow_new governance = \<lparr>es_governance = governance, es_balance = 0, es_rule = None\<rparr>"

definition escrow_top_up :: "int \<Rightarrow> program_escrow \<Rightarrow> (escrow_error, unit \<times> program_escrow) outcome" where
  "escrow_top_up amount s =
     (if amount \<le> 0 then Err EsInvalidAmount
      else and_then (ok_or (i128_opt (es_balance s + amount)) EsOverflow) (\<lambda>balance. Ok ((), s\<lparr>es_balance := balance\<rparr>)))"

definition escrow_set_rule :: "nat \<Rightarrow> refill_rule \<Rightarrow> program_escrow \<Rightarrow> (escrow_error, unit \<times> program_escrow) outcome" where
  "escrow_set_rule caller rule s =
     (if caller \<noteq> es_governance s then Err EsUnauthorized
      else if rf_minimum rule < 0 \<or> rf_refill_to rule \<le> rf_minimum rule then Err EsInvalidAmount
      else Ok ((), s\<lparr>es_rule := Some rule\<rparr>))"

definition escrow_pay :: "int \<Rightarrow> program_escrow \<Rightarrow> (escrow_error, unit \<times> program_escrow) outcome" where
  "escrow_pay amount s =
     (if amount \<le> 0 then Err EsInvalidAmount
      else if es_balance s < amount then Err EsInsufficientEscrow
      else and_then (i128_sub (es_balance s) amount) (\<lambda>balance. Ok ((), s\<lparr>es_balance := balance\<rparr>)))"

definition refill_needed :: "program_escrow \<Rightarrow> (escrow_error, int option) outcome" where
  "refill_needed s =
     (case es_rule s of
        None \<Rightarrow> Ok None
      | Some rule \<Rightarrow>
          if es_balance s < rf_minimum rule
          then and_then (i128_sub (rf_refill_to rule) (es_balance s)) (\<lambda>n. Ok (Some n))
          else Ok None)"

definition auto_refill :: "int \<Rightarrow> program_escrow \<Rightarrow> (escrow_error, int \<times> program_escrow) outcome" where
  "auto_refill sponsor_budget s =
     and_then (refill_needed s) (\<lambda>needed.
     case needed of
       None \<Rightarrow> Ok (0, s)
     | Some needed \<Rightarrow>
         if sponsor_budget < needed then Err EsInsufficientSponsorFunds
         else and_then (ok_or (i128_opt (es_balance s + needed)) EsOverflow) (\<lambda>balance.
           Ok (needed, s\<lparr>es_balance := balance\<rparr>)))"

datatype escrow_call = EsTopUp int | EsSetRule nat refill_rule | EsPay int | EsRefill int

text \<open>A call with the money it moved into the escrow, negative for a payment.\<close>

fun escrow_exec :: "env \<Rightarrow> escrow_call \<Rightarrow> program_escrow \<Rightarrow> (escrow_error, int \<times> program_escrow) outcome" where
  "escrow_exec e (EsTopUp n) s = and_then (escrow_top_up n s) (\<lambda>(_, s). Ok (n, s))"
| "escrow_exec e (EsSetRule a r) s = and_then (escrow_set_rule a r s) (\<lambda>(_, s). Ok (0, s))"
| "escrow_exec e (EsPay n) s = and_then (escrow_pay n s) (\<lambda>(_, s). Ok (- n, s))"
| "escrow_exec e (EsRefill b) s = auto_refill b s"

definition escrow_wf :: "program_escrow \<times> int \<Rightarrow> bool" where
  "escrow_wf sn \<longleftrightarrow> es_balance (fst sn) = snd sn \<and> 0 \<le> es_balance (fst sn) \<and> in_i128 (es_balance (fst sn)) \<and>
     (\<forall>r. es_rule (fst sn) = Some r \<longrightarrow> 0 \<le> rf_minimum r \<and> rf_minimum r < rf_refill_to r)"

lemma escrow_step_wf:
  assumes "escrow_wf sn" and "tally escrow_exec e c sn = Ok (v, sn')"
  shows "escrow_wf sn'"
proof -
  obtain s n where sn: "sn = (s, n)" by (cases sn)
  obtain s' n' where sn': "sn' = (s', n')" by (cases sn')
  show ?thesis using assms unfolding sn sn'
    by (cases c) (auto simp: tally_Ok escrow_wf_def escrow_top_up_def escrow_set_rule_def escrow_pay_def auto_refill_def
        refill_needed_def split: if_splits option.splits)
qed

interpretation escrow: contract_invariant "tally escrow_exec" escrow_wf
  by unfold_locales (rule escrow_step_wf)

text \<open>The escrow holds what was put in less what was paid, and is never negative; a refill that takes something
takes no more than the sponsor's budget and leaves the escrow exactly at the rule's target, above its
minimum.\<close>

theorem escrow_exact:
  assumes "run_txs (tally escrow_exec) txs (escrow_new g, 0) = (s, n)"
  shows "es_balance s = n \<and> 0 \<le> es_balance s \<and>
    (\<forall>b k s'. auto_refill b s = Ok (k, s') \<and> k \<noteq> 0 \<longrightarrow>
      (\<exists>r. es_rule s = Some r \<and> 0 < k \<and> k \<le> b \<and> es_balance s' = rf_refill_to r \<and> rf_minimum r < es_balance s'))"
proof -
  have "escrow_wf (run_txs (tally escrow_exec) txs (escrow_new g, 0))"
    by (rule escrow.run_keeps) (simp add: escrow_wf_def escrow_new_def)
  with assms have wf: "escrow_wf (s, n)" by simp
  have refill: "\<exists>r. es_rule s = Some r \<and> 0 < k \<and> k \<le> b \<and> es_balance s' = rf_refill_to r \<and> rf_minimum r < es_balance s'"
    if "auto_refill b s = Ok (k, s')" "k \<noteq> 0" for b k s'
  proof -
    note run = that
    obtain needed where needed: "refill_needed s = Ok needed" using run(1) by (auto simp: auto_refill_def)
    moreover from run needed have "needed \<noteq> None" by (cases needed) (auto simp: auto_refill_def)
    ultimately obtain r where r: "es_rule s = Some r" "es_balance s < rf_minimum r" "needed = Some (rf_refill_to r - es_balance s)"
      by (auto simp: refill_needed_def split: option.splits if_splits)
    with run needed have "k = rf_refill_to r - es_balance s" "k \<le> b" "es_balance s' = rf_refill_to r"
      by (auto simp: auto_refill_def split: if_splits)
    moreover have "rf_minimum r < rf_refill_to r" using wf r(1) by (simp add: escrow_wf_def)
    ultimately show ?thesis using r by auto
  qed
  with wf show ?thesis by (simp add: escrow_wf_def)
qed

section \<open>Winding down\<close>

datatype program_state = PsActive | PsWindingDown nat | PsClosed

datatype wind_down_error = WdUnauthorized | WdInvalidState | WdInvalidGrace | WdDeadlineNotReached

record bounty_program =
  bp_governance :: nat
  bp_state :: program_state

definition bounty_program_new :: "nat \<Rightarrow> bounty_program" where
  "bounty_program_new governance = \<lparr>bp_governance = governance, bp_state = PsActive\<rparr>"

definition accepts_submissions :: "bounty_program \<Rightarrow> bool" where
  "accepts_submissions p \<longleftrightarrow> bp_state p = PsActive"

definition accepts_funding :: "bounty_program \<Rightarrow> bool" where
  "accepts_funding p \<longleftrightarrow> bp_state p = PsActive"

definition accepts_awards :: "nat \<Rightarrow> bounty_program \<Rightarrow> bool" where
  "accepts_awards now p = (case bp_state p of PsActive \<Rightarrow> True | PsWindingDown deadline \<Rightarrow> now < deadline | PsClosed \<Rightarrow> False)"

definition wind_down_require_governance :: "nat \<Rightarrow> bounty_program \<Rightarrow> (wind_down_error, unit) outcome" where
  "wind_down_require_governance caller p = (if caller \<noteq> bp_governance p then Err WdUnauthorized else Ok ())"

definition start_wind_down :: "nat \<Rightarrow> nat \<Rightarrow> nat \<Rightarrow> bounty_program \<Rightarrow> (wind_down_error, unit \<times> bounty_program) outcome" where
  "start_wind_down caller now grace p =
     and_then (wind_down_require_governance caller p) (\<lambda>_.
     if bp_state p \<noteq> PsActive then Err WdInvalidState
     else if grace = 0 then Err WdInvalidGrace
     else Ok ((), p\<lparr>bp_state := PsWindingDown (u64_sat_add now grace)\<rparr>))"

definition program_close :: "nat \<Rightarrow> nat \<Rightarrow> int \<Rightarrow> bounty_program \<Rightarrow> (wind_down_error, int \<times> bounty_program) outcome" where
  "program_close caller now escrow p =
     and_then (wind_down_require_governance caller p) (\<lambda>_.
     case bp_state p of
       PsWindingDown deadline \<Rightarrow>
         if deadline \<le> now then Ok (escrow, p\<lparr>bp_state := PsClosed\<rparr>) else Err WdDeadlineNotReached
     | _ \<Rightarrow> Err WdInvalidState)"

datatype wind_down_call = WdStart nat nat | WdClose nat int

fun wind_down_exec :: "env \<Rightarrow> wind_down_call \<Rightarrow> bounty_program \<Rightarrow> (wind_down_error, unit \<times> bounty_program) outcome" where
  "wind_down_exec e (WdStart a grace) p = start_wind_down a (timestamp e) grace p"
| "wind_down_exec e (WdClose a escrow) p = discard (program_close a (timestamp e) escrow p)"

definition winding_order :: "bounty_program \<Rightarrow> bounty_program \<Rightarrow> bool" where
  "winding_order p q \<longleftrightarrow>
     (bp_state p = PsClosed \<longrightarrow> bp_state q = PsClosed) \<and>
     (\<forall>t. bp_state p = PsWindingDown t \<longrightarrow> bp_state q = PsWindingDown t \<or> bp_state q = PsClosed)"

interpretation wind_down: contract_order wind_down_exec winding_order
proof
  show "winding_order p q" if "wind_down_exec e c p = Ok (r, q)" for e c p r q
    using that by (cases c) (auto simp: winding_order_def start_wind_down_def program_close_def wind_down_require_governance_def
        split: if_splits program_state.splits)
qed (auto simp: winding_order_def)

text \<open>A wind-down is not undone: whatever follows it, the program takes no submissions or funding any more, awards
nothing at or after the deadline, and closes no earlier than the deadline.\<close>

theorem wind_down_is_final:
  assumes "start_wind_down a t grace p = Ok (u, p')" and "q = run_txs wind_down_exec txs p'"
  shows "\<not> accepts_submissions q \<and> \<not> accepts_funding q \<and>
    (\<forall>now. u64_sat_add t grace \<le> now \<longrightarrow> \<not> accepts_awards now q) \<and>
    (\<forall>c e n v r. program_close c (timestamp e) n q = Ok (v, r) \<longrightarrow> u64_sat_add t grace \<le> timestamp e \<and> v = n)"
proof -
  from assms(1) have "bp_state p' = PsWindingDown (u64_sat_add t grace)"
    by (auto simp: start_wind_down_def split: if_splits)
  with wind_down.run_rel [of p' txs] assms(2) have "bp_state q = PsWindingDown (u64_sat_add t grace) \<or> bp_state q = PsClosed"
    by (auto simp: winding_order_def)
  then show ?thesis
    by (auto simp: accepts_submissions_def accepts_funding_def accepts_awards_def program_close_def split: if_splits)
qed

end
