(* ===== verification/Operator.thy ===== *)
theory Operator
  imports Soroban
begin

text \<open>
  The operator command line of the \<open>xtask\<close> tool (\<open>src/xtask/src/operator.rs\<close> and its entry in
  \<open>src/xtask/src/main.rs\<close>): command-line words are parsed into a command, the command and the deployment
  manifest into a plan of \<open>stellar contract invoke\<close> steps, and the plan is shown or run.

  Text is a list of ASCII characters.  Reading a file of the deployments directory and parsing its JSON is the parameter \<open>files\<close>, and
  running the \<open>stellar\<close> binary is the parameter \<open>runner\<close>, a function of the words and of the state \<open>'w\<close> of
  the outside world.  The wording of errors, the JSON summary of a plan and the final
  layout of the output (text or JSON) are presentation and left out.

  The lemmas: amounts round-trip through their decimal form; the outside world changes only through a plan
  that is not a dry run and that, when it changes state on mainnet, was confirmed; inspections only run read-only
  steps; what a plan passes on is never a raw secret seed.
\<close>

section \<open>Text\<close>

definition ch :: "char \<Rightarrow> nat" where
  "ch c = of_char c"

definition is_space :: "char \<Rightarrow> bool" where
  "is_space c \<longleftrightarrow> ch c = 32 \<or> (9 \<le> ch c \<and> ch c \<le> 13)"

definition trim :: "string \<Rightarrow> string" where
  "trim s = rev (dropWhile is_space (rev (dropWhile is_space s)))"

definition is_digit :: "char \<Rightarrow> bool" where
  "is_digit c \<longleftrightarrow> 48 \<le> ch c \<and> ch c \<le> 57"

definition to_ascii_lowercase :: "string \<Rightarrow> string" where
  "to_ascii_lowercase = map (\<lambda>c. if 65 \<le> ch c \<and> ch c \<le> 90 then char_of (ch c + 32) else c)"

definition strip_prefix :: "string \<Rightarrow> string \<Rightarrow> string option" where
  "strip_prefix p s = (if take (length p) s = p then Some (drop (length p) s) else None)"

fun split_once :: "char \<Rightarrow> string \<Rightarrow> (string \<times> string) option" where
  "split_once d [] = None"
| "split_once d (c # s) = (if c = d then Some ([], s) else map_option (\<lambda>(a, b). (c # a, b)) (split_once d s))"

definition digits_value :: "string \<Rightarrow> nat" where
  "digits_value s = foldl (\<lambda>n c. 10 * n + (ch c - 48)) 0 s"

text \<open>\<open>str::parse\<close> for an unsigned type with the given maximum: an optional \<open>+\<close> and at least one digit.\<close>

definition parse_unsigned :: "nat \<Rightarrow> string \<Rightarrow> nat option" where
  "parse_unsigned limit s =
     (let t = unwrap_or (strip_prefix ''+'' s) s in
      if t \<noteq> [] \<and> list_all is_digit t \<and> digits_value t \<le> limit then Some (digits_value t) else None)"

fun show_nat :: "nat \<Rightarrow> string" where
  "show_nat n = (if n < 10 then [char_of (48 + n)] else show_nat (n div 10) @ [char_of (48 + n mod 10)])"

declare show_nat.simps [simp del]

definition show_int :: "int \<Rightarrow> string" where
  "show_int n = (if n < 0 then ''-'' @ show_nat (nat (- n)) else show_nat (nat n))"

section \<open>Networks, tranches and validation\<close>

datatype network = NetLocal | NetTestnet | NetMainnet

datatype operator_error =
    OeInvalidArgument | OeInvalidAmount | OeRawSecretKeyRejected | OeMainnetConfirmationRequired | OeManifestError
  | OeContractNotDeployed string string | OeExecutionFailed

definition network_parse :: "string \<Rightarrow> (operator_error, network) outcome" where
  "network_parse raw =
     (let s = to_ascii_lowercase (trim raw) in
      if s = ''local'' \<or> s = ''standalone'' then Ok NetLocal
      else if s = ''testnet'' then Ok NetTestnet
      else if s = ''mainnet'' \<or> s = ''public'' then Ok NetMainnet
      else Err OeInvalidArgument)"

fun network_str :: "network \<Rightarrow> string" where
  "network_str NetLocal = ''local''"
| "network_str NetTestnet = ''testnet''"
| "network_str NetMainnet = ''mainnet''"

datatype tranche_arg = TrJunior | TrSenior

definition tranche_parse :: "string \<Rightarrow> (operator_error, tranche_arg) outcome" where
  "tranche_parse raw =
     (let s = to_ascii_lowercase (trim raw) in
      if s = ''junior'' then Ok TrJunior else if s = ''senior'' then Ok TrSenior else Err OeInvalidArgument)"

fun tranche_symbol :: "tranche_arg \<Rightarrow> string" where
  "tranche_symbol TrJunior = ''Junior''"
| "tranche_symbol TrSenior = ''Senior''"

definition validate_source_identity :: "string \<Rightarrow> (operator_error, unit) outcome" where
  "validate_source_identity source =
     (let t = trim source in
      if t = [] then Err OeInvalidArgument
      else if length t = 56 \<and> hd t = CHR ''S'' \<and>
          list_all (\<lambda>c. (65 \<le> ch c \<and> ch c \<le> 90) \<or> (50 \<le> ch c \<and> ch c \<le> 55)) t then Err OeRawSecretKeyRejected
      else Ok ())"

definition validate_address :: "string \<Rightarrow> (operator_error, unit) outcome" where
  "validate_address addr =
     (let t = trim addr in
      if t = [] then Err OeInvalidArgument
      else if length t = 56 \<and> hd t = CHR ''S'' then Err OeRawSecretKeyRejected
      else Ok ())"

section \<open>Amounts\<close>

definition OPERATOR_SCALE_1E7 :: int where "OPERATOR_SCALE_1E7 = 10000000"

definition parse_amount_1e7 :: "string \<Rightarrow> bool \<Rightarrow> (operator_error, int) outcome" where
  "parse_amount_1e7 raw require_positive =
     (let s = filter (\<lambda>c. c \<noteq> CHR ''_'') (trim raw) in
      if s = [] then Err OeInvalidAmount
      else if hd s = CHR ''-'' then Err OeInvalidAmount
      else
        let s = unwrap_or (strip_prefix ''+'' s) s;
            (whole_str, frac_str) = unwrap_or (split_once CHR ''.'' s) (s, [])
        in if CHR ''.'' \<in> set frac_str then Err OeInvalidAmount
           else if whole_str = [] \<and> frac_str = [] then Err OeInvalidAmount
           else if \<not> list_all is_digit whole_str \<or> \<not> list_all is_digit frac_str then Err OeInvalidAmount
           else if 7 < length frac_str then Err OeInvalidAmount
           else
             and_then (ok_or (i128_opt (int (digits_value whole_str))) OeInvalidAmount) (\<lambda>whole.
             let frac_padded = frac_str @ replicate (7 - length frac_str) CHR ''0'';
                 frac = int (digits_value frac_padded) in
             and_then (ok_or (i128_opt (whole * OPERATOR_SCALE_1E7)) OeInvalidAmount) (\<lambda>v.
             and_then (ok_or (i128_opt (v + frac)) OeInvalidAmount) (\<lambda>scaled.
             if require_positive \<and> scaled \<le> 0 then Err OeInvalidAmount else Ok scaled))))"

definition format_amount_1e7 :: "int \<Rightarrow> string" where
  "format_amount_1e7 scaled =
     (let magnitude = nat \<bar>scaled\<bar>;
          whole = magnitude div 10000000;
          frac = show_nat (magnitude mod 10000000)
      in (if scaled < 0 then ''-'' else []) @ show_nat whole @ ''.'' @ replicate (7 - length frac) CHR ''0'' @ frac)"

text \<open>\<open>hex::decode\<close> of 64 characters succeeds exactly when all of them are hexadecimal digits.\<close>

definition is_hex :: "char \<Rightarrow> bool" where
  "is_hex c \<longleftrightarrow> is_digit c \<or> (65 \<le> ch c \<and> ch c \<le> 70) \<or> (97 \<le> ch c \<and> ch c \<le> 102)"

definition parse_hex32 :: "string \<Rightarrow> (operator_error, string) outcome" where
  "parse_hex32 raw =
     (let t = unwrap_or (strip_prefix ''0x'' (trim raw)) (trim raw) in
      if length t \<noteq> 64 \<or> \<not> list_all is_hex t then Err OeInvalidArgument else Ok (to_ascii_lowercase t))"

subsection \<open>The decimal form of an amount\<close>

lemma ch_char_of [simp]: "n < 256 \<Longrightarrow> ch (char_of n) = n"
  by (simp add: ch_def)

lemma is_digit_char [simp]: "n < 10 \<Longrightarrow> is_digit (char_of (48 + n))" for n :: nat
  by (simp add: is_digit_def)

lemma show_nat_digits: "list_all is_digit (show_nat n) \<and> show_nat n \<noteq> []"
proof (induction n rule: show_nat.induct)
  case (1 n)
  have "is_digit (char_of (48 + n mod 10))" by simp
  with 1 show ?case by (subst (1 2) show_nat.simps) auto
qed

lemma digits_value_snoc: "digits_value (s @ [c]) = 10 * digits_value s + (ch c - 48)"
  by (simp add: digits_value_def)

lemma digits_value_show_nat: "digits_value (show_nat n) = n"
proof (induction n rule: show_nat.induct)
  case (1 n)
  have d: "n mod 10 < 10" by simp
  show ?case
  proof (cases "n < 10")
    case True
    then show ?thesis by (subst show_nat.simps) (simp add: digits_value_def)
  next
    case False
    with 1 have "digits_value (show_nat (n div 10) @ [char_of (48 + n mod 10)]) = 10 * (n div 10) + n mod 10"
      using d by (simp add: digits_value_snoc)
    with False show ?thesis by (subst show_nat.simps) simp
  qed
qed

lemma digits_value_zeros: "digits_value (replicate k CHR ''0'' @ s) = digits_value s"
  by (induction k) (simp_all add: digits_value_def ch_def)

lemma show_nat_length: "n < 10 ^ Suc k \<Longrightarrow> length (show_nat n) \<le> Suc k"
proof (induction k arbitrary: n)
  case 0
  then show ?case by (subst show_nat.simps) simp
next
  case (Suc k)
  show ?case
  proof (cases "n < 10")
    case True
    then show ?thesis by (subst show_nat.simps) simp
  next
    case False
    have "n div 10 < 10 ^ Suc k" using Suc.prems by (simp add: less_mult_imp_div_less mult.commute)
    from Suc.IH [OF this] False show ?thesis by (subst show_nat.simps) simp
  qed
qed

lemma is_digit_zero: "is_digit CHR ''0''"
  by (simp add: is_digit_def ch_def)

lemma split_once_digits:
  "list_all is_digit s \<Longrightarrow> split_once CHR ''.'' (s @ CHR ''.'' # t) = Some (s, t)"
  by (induction s) (auto simp: is_digit_def ch_def)

lemma strip_prefix_digit: "list_all is_digit s \<Longrightarrow> s \<noteq> [] \<Longrightarrow> strip_prefix ''+'' (s @ t) = None"
  by (cases s) (auto simp: strip_prefix_def is_digit_def ch_def)

lemma trim_id: "s \<noteq> [] \<Longrightarrow> \<not> is_space (hd s) \<Longrightarrow> \<not> is_space (last s) \<Longrightarrow> trim s = s"
proof -
  assume s: "s \<noteq> []" "\<not> is_space (hd s)" "\<not> is_space (last s)"
  then have "dropWhile is_space s = s" by (cases s) auto
  moreover have "dropWhile is_space (rev s) = rev s" using s by (cases s rule: rev_cases) auto
  ultimately show ?thesis by (simp add: trim_def)
qed

lemma digit_not_space: "is_digit c \<Longrightarrow> \<not> is_space c"
  by (auto simp: is_digit_def is_space_def)

text \<open>C38. Amounts survive their decimal form: parsing what \<open>format_amount_1e7\<close> prints for a positive amount gives that
amount, for every positive \<open>i128\<close>.\<close>

theorem amount_format_roundtrip:
  assumes "0 < n" and "n \<le> i128_max"
  shows "parse_amount_1e7 (format_amount_1e7 n) True = Ok n"
proof -
  define w where "w = nat n div 10000000"
  define f where "f = nat n mod 10000000"
  define ws where "ws = show_nat w"
  define fs where "fs = replicate (7 - length (show_nat f)) CHR ''0'' @ show_nat f"
  have f: "f < 10 ^ Suc 6" by (simp add: f_def)
  have fs: "length fs = 7" "list_all is_digit fs" "digits_value fs = f"
    using show_nat_length [OF f] show_nat_digits [of f]
    by (auto simp: fs_def digits_value_zeros digits_value_show_nat list_all_iff is_digit_zero)
  have ws: "list_all is_digit ws" "ws \<noteq> []" "digits_value ws = w"
    using show_nat_digits [of w] by (simp_all add: ws_def digits_value_show_nat)
  have printed: "format_amount_1e7 n = ws @ CHR ''.'' # fs"
    using assms(1) by (simp add: format_amount_1e7_def w_def f_def ws_def fs_def Let_def nat_abs_mult_distrib)
  obtain c cs where cs: "ws = c # cs" "is_digit c" using ws by (cases ws) auto
  obtain e es where es: "fs = es @ [e]" "is_digit e" using fs by (cases fs rule: rev_cases) auto
  have trim: "trim (ws @ CHR ''.'' # fs) = ws @ CHR ''.'' # fs"
    by (rule trim_id) (use cs es digit_not_space in auto)
  have clean: "filter (\<lambda>c. c \<noteq> CHR ''_'') (ws @ CHR ''.'' # fs) = ws @ CHR ''.'' # fs"
  proof -
    have "c \<noteq> CHR ''_''" if "is_digit c" for c using that by (auto simp: is_digit_def ch_def)
    then show ?thesis using ws(1) fs(2) by (auto simp: list_all_iff intro!: filter_True)
  qed
  have dot: "CHR ''.'' \<notin> set fs" using fs(2) by (auto simp: list_all_iff is_digit_def ch_def)
  have minus: "c \<noteq> CHR ''-''" using cs(2) by (auto simp: is_digit_def ch_def)
  have "w * 10000000 + f = nat n" unfolding w_def f_def by (rule div_mult_mod_eq)
  then have "int (w * 10000000 + f) = n" using assms(1) by simp
  then have exact: "int w * OPERATOR_SCALE_1E7 + int f = n" by (simp add: OPERATOR_SCALE_1E7_def)
  then have range: "in_i128 (int w)" "in_i128 (int w * OPERATOR_SCALE_1E7)" "in_i128 (int w * OPERATOR_SCALE_1E7 + int f)"
    using assms by (auto simp: in_i128_def i128_min_def OPERATOR_SCALE_1E7_def)
  show ?thesis
    using trim clean strip_prefix_digit [OF ws(1,2)] split_once_digits [OF ws(1)] dot minus ws fs range exact assms(1) cs(1)
    unfolding printed by (simp add: parse_amount_1e7_def Let_def i128_opt_def ok_or_def
        del: i128_opt_iff and_then_Ok_iff and_then_Err_iff and_then_Trap_iff)
qed

theorem amount_format_roundtrip_witness:
  "parse_amount_1e7 (format_amount_1e7 12502500000) True = Ok 12502500000"
  by (rule amount_format_roundtrip) (simp_all add: i128_max_def)

section \<open>Commands\<close>

datatype operator_command =
    BackstopStake network string string "tranche_arg option" int bool bool
  | BackstopUnstake network string string "tranche_arg option" int bool bool
  | BackstopStatus network "string option" bool
  | BountyFund network string string int bool bool
  | BountyCheckClaim network "nat option" "string option" bool
  | BountyStatus network bool
  | GrantsApproveMilestone network string string nat nat bool bool
  | GrantsStatus network "nat option" bool
  | TreasuryDeposit network string string "string option" int bool bool
  | TreasuryProposeWithdrawal network string string string "string option" int string bool bool
  | TreasuryStatus network "nat option" bool

fun is_mutating :: "operator_command \<Rightarrow> bool" where
  "is_mutating (BackstopStake _ _ _ _ _ _ _) = True"
| "is_mutating (BackstopUnstake _ _ _ _ _ _ _) = True"
| "is_mutating (BountyFund _ _ _ _ _ _) = True"
| "is_mutating (GrantsApproveMilestone _ _ _ _ _ _ _) = True"
| "is_mutating (TreasuryDeposit _ _ _ _ _ _ _) = True"
| "is_mutating (TreasuryProposeWithdrawal _ _ _ _ _ _ _ _ _) = True"
| "is_mutating _ = False"

fun command_network :: "operator_command \<Rightarrow> network" where
  "command_network (BackstopStake n _ _ _ _ _ _) = n"
| "command_network (BackstopUnstake n _ _ _ _ _ _) = n"
| "command_network (BackstopStatus n _ _) = n"
| "command_network (BountyFund n _ _ _ _ _) = n"
| "command_network (BountyCheckClaim n _ _ _) = n"
| "command_network (BountyStatus n _) = n"
| "command_network (GrantsApproveMilestone n _ _ _ _ _ _) = n"
| "command_network (GrantsStatus n _ _) = n"
| "command_network (TreasuryDeposit n _ _ _ _ _ _) = n"
| "command_network (TreasuryProposeWithdrawal n _ _ _ _ _ _ _ _) = n"
| "command_network (TreasuryStatus n _ _) = n"

subsection \<open>Flags\<close>

record flag_parser =
  fp_flags :: "string \<rightharpoonup> string"
  fp_bools :: "string \<rightharpoonup> bool"

text \<open>\<open>--key=value\<close>, the four switches, and \<open>--key value\<close>; anything else is refused.\<close>

fun parse_flags :: "string list \<Rightarrow> flag_parser \<Rightarrow> (operator_error, flag_parser) outcome" where
  "parse_flags [] fp = Ok fp"
| "parse_flags (tok # toks) fp =
     (case strip_prefix ''--'' tok of
        None \<Rightarrow> Err OeInvalidArgument
      | Some rest \<Rightarrow>
          (case split_once CHR ''='' rest of
             Some (k, v) \<Rightarrow> parse_flags toks (fp\<lparr>fp_flags := (fp_flags fp)(k \<mapsto> v)\<rparr>)
           | None \<Rightarrow>
               if rest \<in> {''dry-run'', ''confirm-mainnet'', ''json'', ''help''}
               then parse_flags toks (fp\<lparr>fp_bools := (fp_bools fp)(rest \<mapsto> True)\<rparr>)
               else (case toks of
                   [] \<Rightarrow> Err OeInvalidArgument
                 | v # toks \<Rightarrow> parse_flags toks (fp\<lparr>fp_flags := (fp_flags fp)(rest \<mapsto> v)\<rparr>))))"

definition flags_parse :: "string list \<Rightarrow> (operator_error, flag_parser) outcome" where
  "flags_parse args = parse_flags args \<lparr>fp_flags = (\<lambda>_. None), fp_bools = (\<lambda>_. None)\<rparr>"

definition fp_require :: "flag_parser \<Rightarrow> string \<Rightarrow> (operator_error, string) outcome" where
  "fp_require fp key = ok_or (fp_flags fp key) OeInvalidArgument"

definition fp_optional :: "flag_parser \<Rightarrow> string \<Rightarrow> string option" where
  "fp_optional fp key = fp_flags fp key"

definition fp_has_bool :: "flag_parser \<Rightarrow> string \<Rightarrow> bool" where
  "fp_has_bool fp key = unwrap_or (fp_bools fp key) False"

definition fp_network :: "flag_parser \<Rightarrow> (operator_error, network) outcome" where
  "fp_network fp = (case fp_optional fp ''network'' of Some n \<Rightarrow> network_parse n | None \<Rightarrow> Ok NetLocal)"

subsection \<open>One parser per subcommand\<close>

text \<open>The idioms the arms share: an account flag that defaults to the source, an optional flag that is checked
when present, and an optional number.\<close>

definition source_flag :: "flag_parser \<Rightarrow> (operator_error, string) outcome" where
  "source_flag fp =
     and_then (fp_require fp ''source'') (\<lambda>source. and_then (validate_source_identity source) (\<lambda>_. Ok source))"

definition account_flag :: "flag_parser \<Rightarrow> string \<Rightarrow> string \<Rightarrow> (operator_error, string) outcome" where
  "account_flag fp key source =
     (let account = unwrap_or (fp_optional fp key) source in
      and_then (validate_address account) (\<lambda>_. Ok account))"

definition checked_flag :: "flag_parser \<Rightarrow> string \<Rightarrow> (operator_error, string option) outcome" where
  "checked_flag fp key =
     (case fp_optional fp key of
        Some v \<Rightarrow> and_then (validate_address v) (\<lambda>_. Ok (Some v))
      | None \<Rightarrow> Ok None)"

definition tranche_flag :: "flag_parser \<Rightarrow> (operator_error, tranche_arg option) outcome" where
  "tranche_flag fp =
     (case fp_optional fp ''tranche'' of
        Some t \<Rightarrow> and_then (tranche_parse t) (\<lambda>t. Ok (Some t))
      | None \<Rightarrow> Ok None)"

definition number_flag :: "flag_parser \<Rightarrow> string \<Rightarrow> (operator_error, nat option) outcome" where
  "number_flag fp key =
     (case fp_optional fp key of
        Some v \<Rightarrow> and_then (ok_or (parse_unsigned u64_max v) OeInvalidArgument) (\<lambda>n. Ok (Some n))
      | None \<Rightarrow> Ok None)"

definition amount_flag :: "flag_parser \<Rightarrow> string \<Rightarrow> (operator_error, int) outcome" where
  "amount_flag fp key = and_then (fp_require fp key) (\<lambda>v. parse_amount_1e7 v True)"

definition parse_backstop_stake :: "flag_parser \<Rightarrow> network \<Rightarrow> bool \<Rightarrow> bool \<Rightarrow> (operator_error, operator_command) outcome" where
  "parse_backstop_stake fp network dry_run confirm_mainnet =
     and_then (source_flag fp) (\<lambda>source.
     and_then (account_flag fp ''staker'' source) (\<lambda>staker.
     and_then (tranche_flag fp) (\<lambda>tranche.
     and_then (amount_flag fp ''amount'') (\<lambda>amount.
     Ok (BackstopStake network source staker tranche amount dry_run confirm_mainnet)))))"

definition parse_backstop_unstake :: "flag_parser \<Rightarrow> network \<Rightarrow> bool \<Rightarrow> bool \<Rightarrow> (operator_error, operator_command) outcome" where
  "parse_backstop_unstake fp network dry_run confirm_mainnet =
     and_then (source_flag fp) (\<lambda>source.
     and_then (account_flag fp ''staker'' source) (\<lambda>staker.
     and_then (tranche_flag fp) (\<lambda>tranche.
     and_then (amount_flag fp ''shares'') (\<lambda>shares.
     Ok (BackstopUnstake network source staker tranche shares dry_run confirm_mainnet)))))"

definition parse_backstop_status :: "flag_parser \<Rightarrow> network \<Rightarrow> bool \<Rightarrow> (operator_error, operator_command) outcome" where
  "parse_backstop_status fp network dry_run =
     and_then (checked_flag fp ''staker'') (\<lambda>staker. Ok (BackstopStatus network staker dry_run))"

definition parse_bounty_fund :: "flag_parser \<Rightarrow> network \<Rightarrow> bool \<Rightarrow> bool \<Rightarrow> (operator_error, operator_command) outcome" where
  "parse_bounty_fund fp network dry_run confirm_mainnet =
     and_then (source_flag fp) (\<lambda>source.
     and_then (account_flag fp ''from'' source) (\<lambda>payer.
     and_then (amount_flag fp ''amount'') (\<lambda>amount.
     Ok (BountyFund network source payer amount dry_run confirm_mainnet))))"

definition parse_check_claim :: "flag_parser \<Rightarrow> network \<Rightarrow> bool \<Rightarrow> (operator_error, operator_command) outcome" where
  "parse_check_claim fp network dry_run =
     and_then (number_flag fp ''payout-id'') (\<lambda>payout_id.
     and_then (case fp_optional fp ''report-hash'' of
         Some h \<Rightarrow> and_then (parse_hex32 h) (\<lambda>h. Ok (Some h)) | None \<Rightarrow> Ok None) (\<lambda>report_hash.
     if payout_id = None \<and> report_hash = None then Err OeInvalidArgument
     else Ok (BountyCheckClaim network payout_id report_hash dry_run)))"

definition parse_approve_milestone :: "flag_parser \<Rightarrow> network \<Rightarrow> bool \<Rightarrow> bool \<Rightarrow> (operator_error, operator_command) outcome" where
  "parse_approve_milestone fp network dry_run confirm_mainnet =
     and_then (source_flag fp) (\<lambda>source.
     and_then (account_flag fp ''caller'' source) (\<lambda>caller.
     and_then (and_then (fp_require fp ''grant-id'') (\<lambda>v. ok_or (parse_unsigned u64_max v) OeInvalidArgument)) (\<lambda>grant_id.
     and_then (and_then (fp_require fp ''milestone-index'') (\<lambda>v. ok_or (parse_unsigned u32_max v) OeInvalidArgument)) (\<lambda>milestone_index.
     Ok (GrantsApproveMilestone network source caller grant_id milestone_index dry_run confirm_mainnet)))))"

definition parse_grants_status :: "flag_parser \<Rightarrow> network \<Rightarrow> bool \<Rightarrow> (operator_error, operator_command) outcome" where
  "parse_grants_status fp network dry_run =
     and_then (number_flag fp ''grant-id'') (\<lambda>grant_id. Ok (GrantsStatus network grant_id dry_run))"

definition parse_treasury_deposit :: "flag_parser \<Rightarrow> network \<Rightarrow> bool \<Rightarrow> bool \<Rightarrow> (operator_error, operator_command) outcome" where
  "parse_treasury_deposit fp network dry_run confirm_mainnet =
     and_then (source_flag fp) (\<lambda>source.
     and_then (account_flag fp ''from'' source) (\<lambda>payer.
     and_then (checked_flag fp ''token'') (\<lambda>token.
     and_then (amount_flag fp ''amount'') (\<lambda>amount.
     Ok (TreasuryDeposit network source payer token amount dry_run confirm_mainnet)))))"

definition parse_propose_withdrawal :: "flag_parser \<Rightarrow> network \<Rightarrow> bool \<Rightarrow> bool \<Rightarrow> (operator_error, operator_command) outcome" where
  "parse_propose_withdrawal fp network dry_run confirm_mainnet =
     and_then (source_flag fp) (\<lambda>source.
     and_then (account_flag fp ''requester'' source) (\<lambda>requester.
     and_then (fp_require fp ''payee'') (\<lambda>payee.
     and_then (validate_address payee) (\<lambda>_.
     and_then (checked_flag fp ''token'') (\<lambda>token.
     and_then (amount_flag fp ''amount'') (\<lambda>amount.
     and_then (and_then (fp_require fp ''purpose-hash'') parse_hex32) (\<lambda>purpose_hash.
     Ok (TreasuryProposeWithdrawal network source requester payee token amount purpose_hash dry_run confirm_mainnet))))))))"

definition parse_treasury_status :: "flag_parser \<Rightarrow> network \<Rightarrow> bool \<Rightarrow> (operator_error, operator_command) outcome" where
  "parse_treasury_status fp network dry_run =
     and_then (number_flag fp ''request-id'') (\<lambda>request_id. Ok (TreasuryStatus network request_id dry_run))"

definition parse_subcommand ::
  "string \<Rightarrow> string \<Rightarrow> flag_parser \<Rightarrow> network \<Rightarrow> bool \<Rightarrow> bool \<Rightarrow> (operator_error, operator_command) outcome" where
  "parse_subcommand domain action fp network dry_run confirm_mainnet =
     (if domain = ''backstop'' \<and> action = ''stake'' then parse_backstop_stake fp network dry_run confirm_mainnet
      else if domain = ''backstop'' \<and> action = ''unstake'' then parse_backstop_unstake fp network dry_run confirm_mainnet
      else if domain = ''backstop'' \<and> action = ''status'' then parse_backstop_status fp network dry_run
      else if domain = ''bounty'' \<and> action = ''fund'' then parse_bounty_fund fp network dry_run confirm_mainnet
      else if domain = ''bounty'' \<and> action = ''check-claim'' then parse_check_claim fp network dry_run
      else if domain = ''bounty'' \<and> action = ''status'' then Ok (BountyStatus network dry_run)
      else if domain = ''grants'' \<and> action = ''approve-milestone'' then parse_approve_milestone fp network dry_run confirm_mainnet
      else if domain = ''grants'' \<and> action = ''status'' then parse_grants_status fp network dry_run
      else if domain = ''treasury'' \<and> action = ''deposit'' then parse_treasury_deposit fp network dry_run confirm_mainnet
      else if domain = ''treasury'' \<and> action = ''propose-withdrawal'' then parse_propose_withdrawal fp network dry_run confirm_mainnet
      else if domain = ''treasury'' \<and> action = ''status'' then parse_treasury_status fp network dry_run
      else Err OeInvalidArgument)"

definition parse_operator_args :: "string list \<Rightarrow> (operator_error, operator_command \<times> string option \<times> bool) outcome" where
  "parse_operator_args args =
     (case (if args \<noteq> [] \<and> hd args = ''operator'' then tl args else args) of
        domain # action # words \<Rightarrow>
          and_then (flags_parse words) (\<lambda>fp.
          and_then (fp_network fp) (\<lambda>network.
          and_then (parse_subcommand domain action fp network (fp_has_bool fp ''dry-run'') (fp_has_bool fp ''confirm-mainnet'')) (\<lambda>cmd.
          Ok (cmd, fp_optional fp ''deployments-dir'', fp_has_bool fp ''json''))))
      | _ \<Rightarrow> Err OeInvalidArgument)"

section \<open>Plans\<close>

record deployment =
  dp_network :: network
  dp_rpc_url :: string
  dp_passphrase :: string
  dp_contracts :: "string \<rightharpoonup> string"
  dp_tokens :: "string \<rightharpoonup> string"

record invoke_step =
  is_description :: string
  is_contract_name :: string
  is_contract_id :: string
  is_network :: string
  is_rpc_url :: string
  is_passphrase :: string
  is_source :: "string option"
  is_read_only :: bool
  is_function :: string
  is_args :: "(string \<times> string) list"

record operator_plan =
  op_domain :: string
  op_action :: string
  op_network :: network
  op_dry_run :: bool
  op_mutating :: bool
  op_steps :: "invoke_step list"

definition require_contract :: "deployment \<Rightarrow> string \<Rightarrow> (operator_error, string) outcome" where
  "require_contract dep key = ok_or (dp_contracts dep key) (OeContractNotDeployed (network_str (dp_network dep)) key)"

subsection \<open>The deployment manifest\<close>

text \<open>JSON values with whole numbers and with one entry for each key of an object.  Indexing anything but an
object, or a missing key, gives \<open>null\<close>.\<close>

datatype json = JNull | JBool bool | JNumber int | JString string | JArray "json list" | JObject "(string \<times> json) list"

fun json_get :: "json \<Rightarrow> string \<Rightarrow> json" where
  "json_get (JObject kvs) k = unwrap_or (map_of kvs k) JNull"
| "json_get _ k = JNull"

fun json_str :: "json \<Rightarrow> string option" where
  "json_str (JString s) = Some s"
| "json_str _ = None"

fun default_rpc_url :: "network \<Rightarrow> string" where
  "default_rpc_url NetLocal = ''http://localhost:8000/rpc''"
| "default_rpc_url NetTestnet = ''https://soroban-testnet.stellar.org''"
| "default_rpc_url NetMainnet = ''https://mainnet.sorobanrpc.com''"

fun default_passphrase :: "network \<Rightarrow> string" where
  "default_passphrase NetLocal = ''Standalone Network ; February 2017''"
| "default_passphrase NetTestnet = ''Test SDF Network ; September 2015''"
| "default_passphrase NetMainnet = ''Public Global Stellar Network ; September 2015''"

text \<open>A field of the manifest, else of the shared configuration, else the default.\<close>

definition network_field :: "json \<Rightarrow> json option \<Rightarrow> network \<Rightarrow> string \<Rightarrow> string \<Rightarrow> string" where
  "network_field doc cfg network key fallback =
     (let v = unwrap_or (json_str (json_get doc key)) [];
          v = (if v = [] then
                 (case cfg of
                    Some c \<Rightarrow> unwrap_or (json_str (json_get (json_get (json_get c ''networks'') (network_str network)) key)) v
                  | None \<Rightarrow> v)
               else v)
      in if v = [] then fallback else v)"

text \<open>The trimmed string of an entry, if it has one that is not blank.\<close>

definition filled :: "json \<Rightarrow> string option" where
  "filled j = (case json_str j of Some s \<Rightarrow> if trim s = [] then None else Some (trim s) | None \<Rightarrow> None)"

text \<open>\<open>files\<close> reads and parses a file of the deployments directory; \<open>None\<close> stands for a file that cannot be read or
is not JSON.\<close>

definition load_deployment :: "(string \<Rightarrow> json option) \<Rightarrow> network \<Rightarrow> (operator_error, deployment) outcome" where
  "load_deployment files network =
     and_then (ok_or (files (network_str network @ ''.json'')) OeManifestError) (\<lambda>doc.
     let cfg = files ''config.json'';
         entry = (\<lambda>name. case json_get doc ''contracts'' of JObject kvs \<Rightarrow> map_of kvs name | _ \<Rightarrow> None) in
     Ok \<lparr>dp_network = network,
         dp_rpc_url = network_field doc cfg network ''rpc_url'' (default_rpc_url network),
         dp_passphrase = network_field doc cfg network ''network_passphrase'' (default_passphrase network),
         dp_contracts = (\<lambda>name. case entry name of Some e \<Rightarrow> filled (json_get e ''contract_id'') | None \<Rightarrow> None),
         dp_tokens = (\<lambda>name. case entry name of
             Some e \<Rightarrow> filled (json_get (json_get e ''init_args'') ''token'') | None \<Rightarrow> None)\<rparr>)"

text \<open>Whatever the files hold, a loaded deployment names an endpoint and a passphrase, and no contract or token of it is blank.\<close>

lemma network_field_filled: "fallback \<noteq> [] \<Longrightarrow> network_field doc cfg network key fallback \<noteq> []"
  by (simp add: network_field_def Let_def)

lemma filled_nonblank: "filled j = Some s \<Longrightarrow> s \<noteq> []"
  by (auto simp: filled_def split: option.splits if_splits)

theorem loaded_deployment_filled:
  assumes "load_deployment files network = Ok dep"
  shows "dp_network dep = network \<and> dp_rpc_url dep \<noteq> [] \<and> dp_passphrase dep \<noteq> [] \<and>
    dp_contracts dep name \<noteq> Some [] \<and> dp_tokens dep name \<noteq> Some []"
proof -
  have "default_rpc_url network \<noteq> []" "default_passphrase network \<noteq> []" by (cases network; simp)+
  with assms show ?thesis
    by (auto simp: load_deployment_def Let_def network_field_filled filled_def split: option.splits if_splits)
qed

subsection \<open>Steps and plans\<close>

definition require_confirmed :: "network \<Rightarrow> bool \<Rightarrow> (operator_error, unit) outcome" where
  "require_confirmed network confirm_mainnet =
     (if network = NetMainnet \<and> \<not> confirm_mainnet then Err OeMainnetConfirmationRequired else Ok ())"

text \<open>A step against a contract on the command's network: one that reads, and one that is signed by a source.\<close>

definition read_step :: "string \<Rightarrow> network \<Rightarrow> deployment \<Rightarrow> string \<Rightarrow> string \<Rightarrow> string \<Rightarrow> (string \<times> string) list \<Rightarrow> invoke_step" where
  "read_step description network dep name cid f args =
     \<lparr>is_description = description, is_contract_name = name, is_contract_id = cid, is_network = network_str network, is_rpc_url = dp_rpc_url dep,
      is_passphrase = dp_passphrase dep, is_source = None, is_read_only = True, is_function = f, is_args = args\<rparr>"

definition write_step :: "string \<Rightarrow> network \<Rightarrow> deployment \<Rightarrow> string \<Rightarrow> string \<Rightarrow> string \<Rightarrow> string \<Rightarrow> (string \<times> string) list \<Rightarrow> invoke_step" where
  "write_step description network dep source name cid f args =
     \<lparr>is_description = description, is_contract_name = name, is_contract_id = cid, is_network = network_str network, is_rpc_url = dp_rpc_url dep,
      is_passphrase = dp_passphrase dep, is_source = Some source, is_read_only = False, is_function = f, is_args = args\<rparr>"

definition plan_backstop_stake ::
  "deployment \<Rightarrow> network \<Rightarrow> string \<Rightarrow> string \<Rightarrow> tranche_arg option \<Rightarrow> int \<Rightarrow> bool \<Rightarrow> bool \<Rightarrow> (operator_error, operator_plan) outcome" where
  "plan_backstop_stake dep network source staker tranche amount dry_run confirm_mainnet =
     and_then (require_confirmed network confirm_mainnet) (\<lambda>_.
     and_then (require_contract dep ''refract_backstop'') (\<lambda>cid.
     let (f, args) = (case tranche of
         Some t \<Rightarrow> (''deposit_tranche'', [(''staker'', staker), (''tranche'', tranche_symbol t), (''amount'', show_int amount)])
       | None \<Rightarrow> (''deposit'', [(''staker'', staker), (''amount'', show_int amount)])) in
     Ok \<lparr>op_domain = ''backstop'', op_action = ''stake'', op_network = network, op_dry_run = dry_run, op_mutating = True,
       op_steps = [write_step (''Stake '' @ format_amount_1e7 amount @ '' ('' @ show_int amount @ '' stroops) into refract_backstop'')
         network dep source ''refract_backstop'' cid f args]\<rparr>))"

definition plan_backstop_unstake ::
  "deployment \<Rightarrow> network \<Rightarrow> string \<Rightarrow> string \<Rightarrow> tranche_arg option \<Rightarrow> int \<Rightarrow> bool \<Rightarrow> bool \<Rightarrow> (operator_error, operator_plan) outcome" where
  "plan_backstop_unstake dep network source staker tranche shares dry_run confirm_mainnet =
     and_then (require_confirmed network confirm_mainnet) (\<lambda>_.
     and_then (require_contract dep ''refract_backstop'') (\<lambda>cid.
     let (f, args) = (case tranche of
         Some t \<Rightarrow> (''withdraw_tranche'', [(''staker'', staker), (''tranche'', tranche_symbol t), (''shares'', show_int shares)])
       | None \<Rightarrow> (''withdraw'', [(''staker'', staker), (''shares'', show_int shares)])) in
     Ok \<lparr>op_domain = ''backstop'', op_action = ''unstake'', op_network = network, op_dry_run = dry_run, op_mutating = True,
       op_steps = [write_step (''Unstake '' @ format_amount_1e7 shares @ '' shares ('' @ show_int shares @ '') from refract_backstop'')
         network dep source ''refract_backstop'' cid f args]\<rparr>))"

definition plan_backstop_status :: "deployment \<Rightarrow> network \<Rightarrow> string option \<Rightarrow> bool \<Rightarrow> (operator_error, operator_plan) outcome" where
  "plan_backstop_status dep network staker dry_run =
     and_then (require_contract dep ''refract_backstop'') (\<lambda>cid.
     Ok \<lparr>op_domain = ''backstop'', op_action = ''status'', op_network = network, op_dry_run = dry_run, op_mutating = False,
       op_steps = [read_step ''Query backstop pool state''
           network dep ''refract_backstop'' cid ''state'' [],
           read_step ''Query backstop senior coverage ratio (bps)''
           network dep ''refract_backstop'' cid ''senior_coverage_ratio'' []] @
         (case staker of Some s \<Rightarrow> [read_step (''Query backstop shares for staker '' @ s)
           network dep ''refract_backstop'' cid ''shares_of'' [(''staker'', s)]] | None \<Rightarrow> [])\<rparr>)"

definition plan_bounty_fund ::
  "deployment \<Rightarrow> network \<Rightarrow> string \<Rightarrow> string \<Rightarrow> int \<Rightarrow> bool \<Rightarrow> bool \<Rightarrow> (operator_error, operator_plan) outcome" where
  "plan_bounty_fund dep network source payer amount dry_run confirm_mainnet =
     and_then (require_confirmed network confirm_mainnet) (\<lambda>_.
     and_then (require_contract dep ''refract_bounty'') (\<lambda>cid.
     Ok \<lparr>op_domain = ''bounty'', op_action = ''fund'', op_network = network, op_dry_run = dry_run, op_mutating = True,
       op_steps = [write_step (''Fund refract_bounty escrow with '' @ format_amount_1e7 amount @ '' ('' @ show_int amount @ '' stroops)'')
         network dep source ''refract_bounty'' cid ''fund'' [(''from'', payer), (''amount'', show_int amount)]]\<rparr>))"

definition plan_check_claim ::
  "deployment \<Rightarrow> network \<Rightarrow> nat option \<Rightarrow> string option \<Rightarrow> bool \<Rightarrow> (operator_error, operator_plan) outcome" where
  "plan_check_claim dep network payout_id report_hash dry_run =
     and_then (require_contract dep ''refract_bounty'') (\<lambda>cid.
     Ok \<lparr>op_domain = ''bounty'', op_action = ''check-claim'', op_network = network, op_dry_run = dry_run, op_mutating = False,
       op_steps =
         (case payout_id of Some i \<Rightarrow> [read_step (''Inspect pull-payout record #'' @ show_nat i)
           network dep ''refract_bounty'' cid ''get_payout'' [(''payout_id'', show_nat i)]] | None \<Rightarrow> []) @
         (case report_hash of Some h \<Rightarrow> [read_step (''Inspect disclosure award record '' @ h)
           network dep ''refract_bounty'' cid ''get_award'' [(''report_hash'', h)]] | None \<Rightarrow> [])\<rparr>)"

definition plan_bounty_status :: "deployment \<Rightarrow> network \<Rightarrow> bool \<Rightarrow> (operator_error, operator_plan) outcome" where
  "plan_bounty_status dep network dry_run =
     and_then (require_contract dep ''refract_bounty'') (\<lambda>cid.
     Ok \<lparr>op_domain = ''bounty'', op_action = ''status'', op_network = network, op_dry_run = dry_run, op_mutating = False,
       op_steps = [read_step ''Query total bounty escrow balance''
           network dep ''refract_bounty'' cid ''balance'' [],
         read_step ''Query unreserved available bounty balance''
           network dep ''refract_bounty'' cid ''available_balance'' []]\<rparr>)"

definition plan_approve_milestone ::
  "deployment \<Rightarrow> network \<Rightarrow> string \<Rightarrow> string \<Rightarrow> nat \<Rightarrow> nat \<Rightarrow> bool \<Rightarrow> bool \<Rightarrow> (operator_error, operator_plan) outcome" where
  "plan_approve_milestone dep network source caller grant_id milestone_index dry_run confirm_mainnet =
     and_then (require_confirmed network confirm_mainnet) (\<lambda>_.
     and_then (require_contract dep ''refract_grants'') (\<lambda>cid.
     Ok \<lparr>op_domain = ''grants'', op_action = ''approve-milestone'', op_network = network, op_dry_run = dry_run, op_mutating = True,
       op_steps = [write_step (''Confirm milestone #'' @ show_nat milestone_index @ '' for grant #'' @ show_nat grant_id)
         network dep source ''refract_grants'' cid ''confirm_milestone''
         [(''caller'', caller), (''grant_id'', show_nat grant_id), (''milestone_index'', show_nat milestone_index)]]\<rparr>))"

definition plan_grants_status :: "deployment \<Rightarrow> network \<Rightarrow> nat option \<Rightarrow> bool \<Rightarrow> (operator_error, operator_plan) outcome" where
  "plan_grants_status dep network grant_id dry_run =
     and_then (require_contract dep ''refract_grants'') (\<lambda>cid.
     Ok \<lparr>op_domain = ''grants'', op_action = ''status'', op_network = network, op_dry_run = dry_run, op_mutating = False,
       op_steps = read_step ''Query total accounted grant liabilities''
           network dep ''refract_grants'' cid ''accounted_liabilities'' [] #
         (case grant_id of Some i \<Rightarrow> [read_step (''Query claimable balance for grant #'' @ show_nat i)
           network dep ''refract_grants'' cid ''claimable'' [(''grant_id'', show_nat i)]] | None \<Rightarrow> [])\<rparr>)"

text \<open>The token of a treasury command: the one given, or the backstop's or the bounty's of the manifest.\<close>

definition token_or_default :: "deployment \<Rightarrow> string option \<Rightarrow> (operator_error, string) outcome" where
  "token_or_default dep token =
     (case token of
        Some t \<Rightarrow> Ok t
      | None \<Rightarrow> ok_or (case dp_tokens dep ''refract_backstop'' of Some t \<Rightarrow> Some t | None \<Rightarrow> dp_tokens dep ''refract_bounty'')
          OeInvalidArgument)"

definition plan_treasury_deposit ::
  "deployment \<Rightarrow> network \<Rightarrow> string \<Rightarrow> string \<Rightarrow> string option \<Rightarrow> int \<Rightarrow> bool \<Rightarrow> bool \<Rightarrow> (operator_error, operator_plan) outcome" where
  "plan_treasury_deposit dep network source payer token amount dry_run confirm_mainnet =
     and_then (require_confirmed network confirm_mainnet) (\<lambda>_.
     and_then (require_contract dep ''refract_treasury'') (\<lambda>treasury_cid.
     and_then (token_or_default dep token) (\<lambda>token_cid.
     Ok \<lparr>op_domain = ''treasury'', op_action = ''deposit'', op_network = network, op_dry_run = dry_run, op_mutating = True,
       op_steps = [write_step (''Deposit '' @ format_amount_1e7 amount @ '' ('' @ show_int amount @ '' stroops) into refract_treasury via token transfer'')
         network dep source ''stellar_asset_token'' token_cid ''transfer''
         [(''from'', payer), (''to'', treasury_cid), (''amount'', show_int amount)]]\<rparr>)))"

definition plan_propose_withdrawal ::
  "deployment \<Rightarrow> network \<Rightarrow> string \<Rightarrow> string \<Rightarrow> string \<Rightarrow> string option \<Rightarrow> int \<Rightarrow> string \<Rightarrow> bool \<Rightarrow> bool \<Rightarrow> (operator_error, operator_plan) outcome" where
  "plan_propose_withdrawal dep network source requester payee token amount purpose_hash dry_run confirm_mainnet =
     and_then (require_confirmed network confirm_mainnet) (\<lambda>_.
     and_then (require_contract dep ''refract_treasury'') (\<lambda>treasury_cid.
     and_then (token_or_default dep token) (\<lambda>token_cid.
     Ok \<lparr>op_domain = ''treasury'', op_action = ''propose-withdrawal'', op_network = network, op_dry_run = dry_run, op_mutating = True,
       op_steps = [write_step (''Submit payment request for '' @ format_amount_1e7 amount @ '' ('' @ show_int amount @ '' stroops) to '' @ payee)
         network dep source ''refract_treasury'' treasury_cid ''submit_payment_request''
         [(''requester'', requester), (''payee'', payee), (''token'', token_cid), (''amount'', show_int amount),
          (''purpose_hash'', purpose_hash)]]\<rparr>)))"

definition plan_treasury_status :: "deployment \<Rightarrow> network \<Rightarrow> nat option \<Rightarrow> bool \<Rightarrow> (operator_error, operator_plan) outcome" where
  "plan_treasury_status dep network request_id dry_run =
     and_then (require_contract dep ''refract_treasury'') (\<lambda>cid.
     Ok \<lparr>op_domain = ''treasury'', op_action = ''status'', op_network = network, op_dry_run = dry_run, op_mutating = False,
       op_steps = read_step ''Query treasury admin/timelock address''
           network dep ''refract_treasury'' cid ''admin'' [] #
         (case request_id of Some i \<Rightarrow> [read_step (''Query payment request #'' @ show_nat i)
           network dep ''refract_treasury'' cid ''get_payment_request'' [(''id'', show_nat i)]] | None \<Rightarrow> [])\<rparr>)"

fun build_plan_on :: "deployment \<Rightarrow> operator_command \<Rightarrow> (operator_error, operator_plan) outcome" where
  "build_plan_on dep (BackstopStake n s a t x d c) = plan_backstop_stake dep n s a t x d c"
| "build_plan_on dep (BackstopUnstake n s a t x d c) = plan_backstop_unstake dep n s a t x d c"
| "build_plan_on dep (BackstopStatus n a d) = plan_backstop_status dep n a d"
| "build_plan_on dep (BountyFund n s a x d c) = plan_bounty_fund dep n s a x d c"
| "build_plan_on dep (BountyCheckClaim n i h d) = plan_check_claim dep n i h d"
| "build_plan_on dep (BountyStatus n d) = plan_bounty_status dep n d"
| "build_plan_on dep (GrantsApproveMilestone n s a i m d c) = plan_approve_milestone dep n s a i m d c"
| "build_plan_on dep (GrantsStatus n i d) = plan_grants_status dep n i d"
| "build_plan_on dep (TreasuryDeposit n s a t x d c) = plan_treasury_deposit dep n s a t x d c"
| "build_plan_on dep (TreasuryProposeWithdrawal n s r p t x h d c) = plan_propose_withdrawal dep n s r p t x h d c"
| "build_plan_on dep (TreasuryStatus n i d) = plan_treasury_status dep n i d"

text \<open>The deployments directory the words name (\<open>None\<close> for the repository's own), as the parsed files in it.\<close>

type_synonym directories = "string option \<Rightarrow> string \<Rightarrow> json option"

definition build_plan :: "directories \<Rightarrow> string option \<Rightarrow> operator_command \<Rightarrow> (operator_error, operator_plan) outcome" where
  "build_plan files dir cmd = and_then (load_deployment (files dir) (command_network cmd)) (\<lambda>dep. build_plan_on dep cmd)"

section \<open>Running a plan\<close>

definition to_stellar_args :: "invoke_step \<Rightarrow> string list" where
  "to_stellar_args s =
     [''contract'', ''invoke'', ''--id'', is_contract_id s, ''--rpc-url'', is_rpc_url s, ''--network-passphrase'', is_passphrase s] @
     (case is_source s of Some src \<Rightarrow> [''--source'', src] | None \<Rightarrow> []) @
     (if is_read_only s then [''--send=no''] else []) @
     [''--'', is_function s] @
     concat (map (\<lambda>(flag, v). [''--'' @ flag, v]) (is_args s))"

fun join_words :: "string list \<Rightarrow> string" where
  "join_words [] = []"
| "join_words [w] = w"
| "join_words (w # ws) = w @ '' '' @ join_words ws"

definition shell_word :: "string \<Rightarrow> string" where
  "shell_word arg =
     (if CHR '' '' \<in> set arg \<or> CHR '';'' \<in> set arg then [CHR 0x22] @ arg @ [CHR 0x22] else arg)"

definition to_shell_command :: "invoke_step \<Rightarrow> string" where
  "to_shell_command s = join_words (''stellar'' # map shell_word (to_stellar_args s))"

text \<open>What running the binary gives: it could not be started, or it ended with or without success.\<close>

datatype run_result = NotStarted | RunFailed string | RunOk string

type_synonym 'w runner = "string list \<Rightarrow> 'w \<Rightarrow> run_result \<times> 'w"

text \<open>What is printed: the description and the command line of each step, or the description, function and output of each.\<close>

datatype operator_output = ShownCommands "(string \<times> string) list" | Executed "(string \<times> string \<times> string) list"

fun execute_steps :: "'w runner \<Rightarrow> invoke_step list \<Rightarrow> (string \<times> string \<times> string) list \<Rightarrow> 'w \<Rightarrow>
    (operator_error, (string \<times> string \<times> string) list) outcome \<times> 'w" where
  "execute_steps runner [] results w = (Ok results, w)"
| "execute_steps runner (s # ss) results w =
     (case runner (to_stellar_args s) w of
        (RunOk stdout, w) \<Rightarrow> execute_steps runner ss (results @ [(is_description s, is_function s, trim stdout)]) w
      | (_, w) \<Rightarrow> (Err OeExecutionFailed, w))"

definition execute_plan :: "'w runner \<Rightarrow> operator_plan \<Rightarrow> 'w \<Rightarrow> (operator_error, operator_output) outcome \<times> 'w" where
  "execute_plan runner plan w =
     (if op_dry_run plan then (Ok (ShownCommands (map (\<lambda>s. (is_description s, to_shell_command s)) (op_steps plan))), w)
      else (case execute_steps runner (op_steps plan) [] w of
          (Ok results, w) \<Rightarrow> (Ok (Executed results), w)
        | (Err e, w) \<Rightarrow> (Err e, w)
        | (Trap, w) \<Rightarrow> (Trap, w)))"

definition run_operator :: "directories \<Rightarrow> 'w runner \<Rightarrow> string list \<Rightarrow> 'w \<Rightarrow> (operator_error, operator_output) outcome \<times> 'w" where
  "run_operator files runner args w =
     (case and_then (parse_operator_args args) (\<lambda>(cmd, dir, json). build_plan files dir cmd) of
        Ok plan \<Rightarrow> execute_plan runner plan w
      | Err e \<Rightarrow> (Err e, w)
      | Trap \<Rightarrow> (Trap, w))"

section \<open>What a run can do\<close>

text \<open>The switches and the signer a command carries.\<close>

fun command_dry_run :: "operator_command \<Rightarrow> bool" where
  "command_dry_run (BackstopStake _ _ _ _ _ d _) = d"
| "command_dry_run (BackstopUnstake _ _ _ _ _ d _) = d"
| "command_dry_run (BackstopStatus _ _ d) = d"
| "command_dry_run (BountyFund _ _ _ _ d _) = d"
| "command_dry_run (BountyCheckClaim _ _ _ d) = d"
| "command_dry_run (BountyStatus _ d) = d"
| "command_dry_run (GrantsApproveMilestone _ _ _ _ _ d _) = d"
| "command_dry_run (GrantsStatus _ _ d) = d"
| "command_dry_run (TreasuryDeposit _ _ _ _ _ d _) = d"
| "command_dry_run (TreasuryProposeWithdrawal _ _ _ _ _ _ _ d _) = d"
| "command_dry_run (TreasuryStatus _ _ d) = d"

fun command_confirmed :: "operator_command \<Rightarrow> bool" where
  "command_confirmed (BackstopStake _ _ _ _ _ _ c) = c"
| "command_confirmed (BackstopUnstake _ _ _ _ _ _ c) = c"
| "command_confirmed (BountyFund _ _ _ _ _ c) = c"
| "command_confirmed (GrantsApproveMilestone _ _ _ _ _ _ c) = c"
| "command_confirmed (TreasuryDeposit _ _ _ _ _ _ c) = c"
| "command_confirmed (TreasuryProposeWithdrawal _ _ _ _ _ _ _ _ c) = c"
| "command_confirmed _ = False"

fun command_source :: "operator_command \<Rightarrow> string option" where
  "command_source (BackstopStake _ s _ _ _ _ _) = Some s"
| "command_source (BackstopUnstake _ s _ _ _ _ _) = Some s"
| "command_source (BountyFund _ s _ _ _ _) = Some s"
| "command_source (GrantsApproveMilestone _ s _ _ _ _ _) = Some s"
| "command_source (TreasuryDeposit _ s _ _ _ _ _) = Some s"
| "command_source (TreasuryProposeWithdrawal _ s _ _ _ _ _ _ _) = Some s"
| "command_source _ = None"

text \<open>A Stellar secret seed: 56 base-32 characters that begin with \<open>S\<close>.\<close>

definition secret_seed :: "string \<Rightarrow> bool" where
  "secret_seed s \<longleftrightarrow> length (trim s) = 56 \<and> hd (trim s) = CHR ''S'' \<and>
     list_all (\<lambda>c. (65 \<le> ch c \<and> ch c \<le> 90) \<or> (50 \<le> ch c \<and> ch c \<le> 55)) (trim s)"

lemma source_flag_Ok: "source_flag fp = Ok s \<Longrightarrow> \<not> secret_seed s"
  by (auto simp: source_flag_def validate_source_identity_def secret_seed_def Let_def split: if_splits)

text \<open>What a parser hands on of the network, the switches and the signer.\<close>

definition carries :: "operator_command \<Rightarrow> network \<Rightarrow> bool \<Rightarrow> bool \<Rightarrow> bool" where
  "carries cmd n dry conf \<longleftrightarrow> command_network cmd = n \<and> command_dry_run cmd = dry \<and> (is_mutating cmd \<longrightarrow> command_confirmed cmd = conf) \<and>
     (\<forall>s. command_source cmd = Some s \<longrightarrow> \<not> secret_seed s)"

named_theorems parsed

lemma parse_backstop_stake_carries [parsed]: "parse_backstop_stake fp n dry conf = Ok cmd \<Longrightarrow> carries cmd n dry conf"
  by (auto simp: parse_backstop_stake_def carries_def dest: source_flag_Ok)

lemma parse_backstop_unstake_carries [parsed]: "parse_backstop_unstake fp n dry conf = Ok cmd \<Longrightarrow> carries cmd n dry conf"
  by (auto simp: parse_backstop_unstake_def carries_def dest: source_flag_Ok)

lemma parse_backstop_status_carries [parsed]: "parse_backstop_status fp n dry = Ok cmd \<Longrightarrow> carries cmd n dry conf"
  by (auto simp: parse_backstop_status_def carries_def)

lemma parse_bounty_fund_carries [parsed]: "parse_bounty_fund fp n dry conf = Ok cmd \<Longrightarrow> carries cmd n dry conf"
  by (auto simp: parse_bounty_fund_def carries_def dest: source_flag_Ok)

lemma parse_check_claim_carries [parsed]: "parse_check_claim fp n dry = Ok cmd \<Longrightarrow> carries cmd n dry conf"
  by (auto simp: parse_check_claim_def carries_def split: if_splits)

lemma bounty_status_carries [parsed]: "Ok (BountyStatus n dry) = Ok cmd \<Longrightarrow> carries cmd n dry conf"
  by (auto simp: carries_def)

lemma parse_approve_milestone_carries [parsed]: "parse_approve_milestone fp n dry conf = Ok cmd \<Longrightarrow> carries cmd n dry conf"
  by (auto simp: parse_approve_milestone_def carries_def dest: source_flag_Ok)

lemma parse_grants_status_carries [parsed]: "parse_grants_status fp n dry = Ok cmd \<Longrightarrow> carries cmd n dry conf"
  by (auto simp: parse_grants_status_def carries_def)

lemma parse_treasury_deposit_carries [parsed]: "parse_treasury_deposit fp n dry conf = Ok cmd \<Longrightarrow> carries cmd n dry conf"
  by (auto simp: parse_treasury_deposit_def carries_def dest: source_flag_Ok)

lemma parse_propose_withdrawal_carries [parsed]: "parse_propose_withdrawal fp n dry conf = Ok cmd \<Longrightarrow> carries cmd n dry conf"
  by (auto simp: parse_propose_withdrawal_def carries_def dest: source_flag_Ok)

lemma parse_treasury_status_carries [parsed]: "parse_treasury_status fp n dry = Ok cmd \<Longrightarrow> carries cmd n dry conf"
  by (auto simp: parse_treasury_status_def carries_def)

lemma If_Ok_elim: "(if c then x else y) = Ok v \<Longrightarrow> (x = Ok v \<Longrightarrow> P) \<Longrightarrow> (y = Ok v \<Longrightarrow> P) \<Longrightarrow> P"
  by (cases c) simp_all

lemma parse_subcommand_carries: "parse_subcommand d a fp n dry conf = Ok cmd \<Longrightarrow> carries cmd n dry conf"
  unfolding parse_subcommand_def by (elim If_Ok_elim) (erule parsed | simp)+

text \<open>What a plan does for its command.\<close>

definition carries_out :: "operator_plan \<Rightarrow> operator_command \<Rightarrow> bool" where
  "carries_out plan cmd \<longleftrightarrow> op_mutating plan = is_mutating cmd \<and> op_dry_run plan = command_dry_run cmd \<and> op_network plan = command_network cmd \<and>
     (is_mutating cmd \<and> command_network cmd = NetMainnet \<longrightarrow> command_confirmed cmd) \<and>
     (is_mutating cmd \<longrightarrow> (\<exists>s. op_steps plan = [s] \<and> \<not> is_read_only s \<and> is_source s = command_source cmd)) \<and>
     (\<not> is_mutating cmd \<longrightarrow> (\<forall>s\<in>set (op_steps plan). is_read_only s \<and> is_source s = None))"

lemma require_confirmed_Ok: "require_confirmed n c = Ok u \<Longrightarrow> n = NetMainnet \<Longrightarrow> c"
  by (simp add: require_confirmed_def split: if_splits)

lemma mutating_has_source: "is_mutating cmd \<Longrightarrow> \<exists>src. command_source cmd = Some src"
  by (cases cmd) simp_all

lemmas plan_facts = carries_out_def read_step_def write_step_def

named_theorems planned

lemma plan_backstop_stake_Ok [planned]: "plan_backstop_stake dep n s a t x d c = Ok plan \<Longrightarrow> carries_out plan (BackstopStake n s a t x d c)"
  by (cases t) (auto simp: plan_backstop_stake_def plan_facts dest: require_confirmed_Ok)

lemma plan_backstop_unstake_Ok [planned]: "plan_backstop_unstake dep n s a t x d c = Ok plan \<Longrightarrow> carries_out plan (BackstopUnstake n s a t x d c)"
  by (cases t) (auto simp: plan_backstop_unstake_def plan_facts dest: require_confirmed_Ok)

lemma plan_backstop_status_Ok [planned]: "plan_backstop_status dep n a d = Ok plan \<Longrightarrow> carries_out plan (BackstopStatus n a d)"
  by (cases a) (auto simp: plan_backstop_status_def plan_facts)

lemma plan_bounty_fund_Ok [planned]: "plan_bounty_fund dep n s a x d c = Ok plan \<Longrightarrow> carries_out plan (BountyFund n s a x d c)"
  by (auto simp: plan_bounty_fund_def plan_facts dest: require_confirmed_Ok)

lemma plan_check_claim_Ok [planned]: "plan_check_claim dep n i h d = Ok plan \<Longrightarrow> carries_out plan (BountyCheckClaim n i h d)"
  by (cases i; cases h) (auto simp: plan_check_claim_def plan_facts)

lemma plan_bounty_status_Ok [planned]: "plan_bounty_status dep n d = Ok plan \<Longrightarrow> carries_out plan (BountyStatus n d)"
  by (auto simp: plan_bounty_status_def plan_facts)

lemma plan_approve_milestone_Ok [planned]: "plan_approve_milestone dep n s a i m d c = Ok plan \<Longrightarrow> carries_out plan (GrantsApproveMilestone n s a i m d c)"
  by (auto simp: plan_approve_milestone_def plan_facts dest: require_confirmed_Ok)

lemma plan_grants_status_Ok [planned]: "plan_grants_status dep n i d = Ok plan \<Longrightarrow> carries_out plan (GrantsStatus n i d)"
  by (cases i) (auto simp: plan_grants_status_def plan_facts)

lemma plan_treasury_deposit_Ok [planned]: "plan_treasury_deposit dep n s a t x d c = Ok plan \<Longrightarrow> carries_out plan (TreasuryDeposit n s a t x d c)"
  by (auto simp: plan_treasury_deposit_def plan_facts dest: require_confirmed_Ok)

lemma plan_propose_withdrawal_Ok [planned]:
  "plan_propose_withdrawal dep n s r p t x h d c = Ok plan \<Longrightarrow> carries_out plan (TreasuryProposeWithdrawal n s r p t x h d c)"
  by (auto simp: plan_propose_withdrawal_def plan_facts dest: require_confirmed_Ok)

lemma plan_treasury_status_Ok [planned]: "plan_treasury_status dep n i d = Ok plan \<Longrightarrow> carries_out plan (TreasuryStatus n i d)"
  by (cases i) (auto simp: plan_treasury_status_def plan_facts)

lemma build_plan_carries_out: "build_plan_on dep cmd = Ok plan \<Longrightarrow> carries_out plan cmd"
  by (cases cmd) (simp_all add: planned)

lemma strip_prefix_Some:
  assumes "strip_prefix p s = Some r"
  shows "s = p @ r"
proof -
  from assms have "take (length p) s = p" "r = drop (length p) s" by (auto simp: strip_prefix_def split: if_splits)
  then show ?thesis using append_take_drop_id [of "length p" s] by simp
qed

text \<open>A switch is set only by its own word.\<close>

lemma parse_flags_bools:
  "parse_flags args fp = Ok fp' \<Longrightarrow> fp_bools fp' k = Some b \<Longrightarrow> fp_bools fp k = Some b \<or> ''--'' @ k \<in> set args"
proof (induction args fp rule: parse_flags.induct)
  case (2 tok toks fp)
  from "2.prems"(1) obtain rest where rest: "strip_prefix ''--'' tok = Some rest" by (auto split: option.splits)
  then have tok: "tok = ''--'' @ rest" by (rule strip_prefix_Some)
  show ?case
  proof (cases "split_once CHR ''='' rest")
    case (Some kv)
    obtain l v where "kv = (l, v)" by (cases kv)
    with "2.IH"(3) [OF rest Some] "2.prems" rest Some show ?thesis by auto
  next
    case None
    show ?thesis
    proof (cases "rest \<in> {''dry-run'', ''confirm-mainnet'', ''json'', ''help''}")
      case True
      then have "parse_flags (tok # toks) fp = parse_flags toks (fp\<lparr>fp_bools := (fp_bools fp)(rest \<mapsto> True)\<rparr>)"
        using rest None by simp
      with "2.IH"(1) [OF rest None True] "2.prems" tok show ?thesis by (auto split: if_splits)
    next
      case False
      show ?thesis
      proof (cases toks)
        case Nil
        with "2.prems"(1) rest None False show ?thesis by simp
      next
        case (Cons v toks')
        then have "parse_flags (tok # toks) fp = parse_flags toks' (fp\<lparr>fp_flags := (fp_flags fp)(rest \<mapsto> v)\<rparr>)"
          using rest None False by simp
        with "2.IH"(2) [OF rest None False Cons] "2.prems" Cons show ?thesis by auto
      qed
    qed
  qed
qed simp

text \<open>C37. What the operator command line can change: a run that changes anything outside comes from a command that
parsed, was not a dry run, and, if it is a state-changing command for mainnet, has \<open>--confirm-mainnet\<close> among
its words; a state-changing command runs exactly one step, signed by a source that is not a secret seed, and
every step of any other command is sent with \<open>--send=no\<close> and no source.\<close>

theorem operator_mainnet_confirmed:
  assumes "run_operator files runner args w = (r, w')" and "w' \<noteq> w"
  shows "\<exists>cmd dir json dep plan. parse_operator_args args = Ok (cmd, dir, json) \<and> load_deployment (files dir) (command_network cmd) = Ok dep \<and>
    build_plan_on dep cmd = Ok plan \<and> \<not> op_dry_run plan \<and>
    (is_mutating cmd \<and> command_network cmd = NetMainnet \<longrightarrow> ''--confirm-mainnet'' \<in> set args) \<and>
    (is_mutating cmd \<longrightarrow> (\<exists>s src. op_steps plan = [s] \<and> is_source s = Some src \<and> \<not> secret_seed src)) \<and>
    (\<not> is_mutating cmd \<longrightarrow> (\<forall>s\<in>set (op_steps plan). ''--send=no'' \<in> set (to_stellar_args s) \<and> is_source s = None))"
proof -
  from assms obtain plan where run: "and_then (parse_operator_args args) (\<lambda>(cmd, dir, json). build_plan files dir cmd) = Ok plan"
    "execute_plan runner plan w = (r, w')"
    by (auto simp: run_operator_def simp del: and_then_Ok_iff split: outcome.splits)
  from run(1) obtain cmd dir json where p: "parse_operator_args args = Ok (cmd, dir, json)" "build_plan files dir cmd = Ok plan"
    by auto
  then obtain dep where dep: "load_deployment (files dir) (command_network cmd) = Ok dep" "build_plan_on dep cmd = Ok plan"
    by (auto simp: build_plan_def)
  have real: "\<not> op_dry_run plan" using run(2) assms(2) by (auto simp: execute_plan_def)
  from p(1) obtain d a ws fp n where parsed: "set ws \<subseteq> set args" "flags_parse ws = Ok fp"
    "parse_subcommand d a fp n (fp_has_bool fp ''dry-run'') (fp_has_bool fp ''confirm-mainnet'') = Ok cmd"
    by (cases args) (fastforce simp: parse_operator_args_def split: list.splits if_splits)+
  note cmd = parse_subcommand_carries [OF parsed(3), unfolded carries_def]
  note plan = build_plan_carries_out [OF dep(2), unfolded carries_out_def]
  have "''--confirm-mainnet'' \<in> set args" if "is_mutating cmd" "command_network cmd = NetMainnet"
  proof -
    from that cmd plan have "fp_has_bool fp ''confirm-mainnet''" by auto
    then have "fp_bools fp ''confirm-mainnet'' = Some True" by (cases "fp_bools fp ''confirm-mainnet''") (auto simp: fp_has_bool_def)
    from parse_flags_bools [OF parsed(2) [unfolded flags_parse_def] this] parsed(1) show ?thesis by auto
  qed
  moreover have "\<exists>s src. op_steps plan = [s] \<and> is_source s = Some src \<and> \<not> secret_seed src" if "is_mutating cmd"
  proof -
    from that plan obtain s where s: "op_steps plan = [s]" "is_source s = command_source cmd" by blast
    moreover obtain src where "command_source cmd = Some src" using mutating_has_source \<open>is_mutating cmd\<close> by blast
    ultimately show ?thesis using cmd by auto
  qed
  moreover have "''--send=no'' \<in> set (to_stellar_args s) \<and> is_source s = None" if "\<not> is_mutating cmd" "s \<in> set (op_steps plan)" for s
    using that plan by (simp add: to_stellar_args_def)
  ultimately show ?thesis using p(1) dep real by blast
qed

text \<open>A confirmed deposit on mainnet with a binary that logs its words.\<close>

definition demo_files :: directories where
  "demo_files dir name =
     (if name = ''mainnet.json'' then
        Some (JObject [(''rpc_url'', JString ''r''),
          (''contracts'', JObject [(''refract_bounty'', JObject [(''contract_id'', JString '' C '')])])])
      else None)"

definition demo_deployment :: deployment where
  "demo_deployment = \<lparr>dp_network = NetMainnet, dp_rpc_url = ''r'', dp_passphrase = default_passphrase NetMainnet,
     dp_contracts = (\<lambda>name. if name = ''refract_bounty'' then Some ''C'' else None), dp_tokens = (\<lambda>_. None)\<rparr>"

lemma demo_load: "load_deployment (demo_files dir) NetMainnet = Ok demo_deployment"
  by (auto simp: load_deployment_def demo_files_def demo_deployment_def ok_or_def Let_def network_field_def filled_def
      unwrap_or_def trim_def is_space_def ch_def simp del: and_then_Ok_iff)

definition demo_runner :: "string list list runner" where
  "demo_runner ws log = (RunOk ''ok'', log @ [ws])"

definition demo_words :: "string list" where
  "demo_words = [''bounty'', ''fund'', ''--network'', ''mainnet'', ''--source=ops'', ''--amount'', ''5'', ''--confirm-mainnet'']"

lemma demo_command:
  "parse_operator_args demo_words = Ok (BountyFund NetMainnet ''ops'' ''ops'' 50000000 False True, None, False)"
proof -
  have pad: "replicate 7 c = [c, c, c, c, c, c, c]" for c :: char by (simp add: numeral_eq_Suc)
  show ?thesis
    by (simp add: demo_words_def parse_operator_args_def flags_parse_def strip_prefix_def fp_network_def fp_optional_def
        network_parse_def to_ascii_lowercase_def trim_def is_space_def ch_def parse_subcommand_def parse_bounty_fund_def
        source_flag_def fp_require_def account_flag_def validate_address_def validate_source_identity_def amount_flag_def
        parse_amount_1e7_def OPERATOR_SCALE_1E7_def digits_value_def is_digit_def ok_or_def i128_opt_def in_i128_def i128_max_def
        i128_min_def fp_has_bool_def unwrap_or_def pad
        del: and_then_Ok_iff and_then_Err_iff and_then_Trap_iff i128_opt_iff)
qed

lemma demo_amount: "show_int 50000000 = ''50000000''"
  by (simp add: show_int_def show_nat.simps char_of_def bit_Suc_0_iff)

lemma demo_decimal: "format_amount_1e7 50000000 = ''5.0000000''"
proof -
  have pad: "replicate 6 c = [c, c, c, c, c, c]" for c :: char by (simp add: numeral_eq_Suc)
  show ?thesis unfolding format_amount_1e7_def Let_def
    by (simp add: show_nat.simps char_of_def bit_Suc_0_iff pad)
qed

lemma demo_run:
  "run_operator demo_files demo_runner demo_words [] =
     (Ok (Executed [(''Fund refract_bounty escrow with 5.0000000 (50000000 stroops)'', ''fund'', ''ok'')]),
      [[''contract'', ''invoke'', ''--id'', ''C'', ''--rpc-url'', ''r'', ''--network-passphrase'',
        ''Public Global Stellar Network ; September 2015'', ''--source'', ''ops'', ''--'', ''fund'', ''--from'', ''ops'', ''--amount'', ''50000000'']])"
  by (simp add: run_operator_def demo_command demo_amount demo_decimal build_plan_def demo_load plan_bounty_fund_def require_confirmed_def
      require_contract_def demo_deployment_def write_step_def execute_plan_def to_stellar_args_def demo_runner_def trim_def
      is_space_def ch_def ok_or_def del: and_then_Ok_iff and_then_Err_iff and_then_Trap_iff)

theorem operator_mainnet_confirmed_witness:
  "\<exists>plan. build_plan_on demo_deployment (BountyFund NetMainnet ''ops'' ''ops'' 50000000 False True) = Ok plan \<and>
     \<not> op_dry_run plan \<and> ''--confirm-mainnet'' \<in> set demo_words \<and>
     (\<exists>s src. op_steps plan = [s] \<and> is_source s = Some src \<and> \<not> secret_seed src)"
proof -
  from operator_mainnet_confirmed [OF demo_run] obtain cmd dir json dep plan where
    p: "parse_operator_args demo_words = Ok (cmd, dir, json)" "load_deployment (demo_files dir) (command_network cmd) = Ok dep"
      "build_plan_on dep cmd = Ok plan" "\<not> op_dry_run plan" and
    c: "is_mutating cmd \<and> command_network cmd = NetMainnet \<longrightarrow> ''--confirm-mainnet'' \<in> set demo_words"
      "is_mutating cmd \<longrightarrow> (\<exists>s src. op_steps plan = [s] \<and> is_source s = Some src \<and> \<not> secret_seed src)"
    by blast
  from p(1) demo_command have cmd: "cmd = BountyFund NetMainnet ''ops'' ''ops'' 50000000 False True" by simp
  with p(2) demo_load have "dep = demo_deployment" by simp
  with p(3,4) c cmd show ?thesis by simp
qed

text \<open>The documented inspection \<open>grants status\<close> asks for \<open>accounted_liabilities\<close> and \<open>claimable\<close>, operations of the
in-memory model \<open>GrantsModel\<close> that the deployed contract does not export.\<close>

definition grants_entry_points :: "string list" where
  "grants_entry_points = [''initialize'', ''set_fee_config'', ''create_grant'', ''confirm_milestone'', ''claim'', ''quote_payout'',
     ''accrued_fees'', ''sweep_fees'', ''bump'', ''get_grant'', ''allow_recipient'', ''block_recipient'', ''remove_recipient'',
     ''recipient_status'', ''is_recipient_allowed'']"

theorem grants_status_unserved:
  assumes "build_plan_on dep (GrantsStatus n i d) = Ok plan"
  shows "op_steps plan \<noteq> [] \<and> (\<forall>s\<in>set (op_steps plan). is_function s \<notin> set grants_entry_points)"
  using assms by (cases i) (auto simp: plan_grants_status_def read_step_def grants_entry_points_def)

text \<open>\<open>--dry-run=true\<close> is stored as a flag that nothing reads, so the command runs for real.\<close>

theorem dry_run_with_value_ignored:
  "parse_operator_args [''bounty'', ''fund'', ''--dry-run=true'', ''--source'', ''ops'', ''--amount'', ''5''] =
     Ok (BountyFund NetLocal ''ops'' ''ops'' 50000000 False False, None, False)"
  by code_simp

text \<open>A word with a command substitution is shown as it is: the command line printed by a dry run is not safe to paste.\<close>

theorem shell_word_substitution: "shell_word ''$(id)'' = ''$(id)''"
  by code_simp

text \<open>A raw secret in hexadecimal passes as a source identity.\<close>

theorem hex_secret_accepted: "validate_source_identity (replicate 64 CHR ''a'') = Ok ()"
  by code_simp

text \<open>Running a plan stops at the first failure and reports the outputs in the order of the steps.\<close>

theorem execute_steps_order:
  "execute_steps runner ss acc w = (Ok results, w') \<Longrightarrow> map (fst \<circ> snd) results = map (fst \<circ> snd) acc @ map is_function ss"
  by (induction runner ss acc w arbitrary: results w' rule: execute_steps.induct) (auto split: prod.splits run_result.splits)

end
