(* ===== verification/Legacy_Migration.thy ===== *)
theory Legacy_Migration
  imports Operator "HOL-Library.List_Lexorder" "HOL-Library.Char_ord"
begin

text \<open>
  The import of legacy bounty and grant records (\<open>src/xtask/src/legacy_migration/\<close>): the versioned input file
  and its validation (\<open>schema.rs\<close>), the view of the on-chain state (\<open>state_provider.rs\<close>), and the generator that
  turns a valid input into a numbered plan of contract calls, its summary and the timelock and governance
  proposals (\<open>generator.rs\<close>, \<open>timelock_proposal.rs\<close>).

  Text is ASCII, as in \<open>Operator\<close>.  How \<open>serde_json\<close> turns an \<open>i128\<close> into a JSON number is the parameter
  \<open>number\<close>; where it gives \<open>None\<close> the \<open>json!\<close> macro panics.

  The lemmas: validation accepts exactly the inputs of a declarative specification (\<open>valid_input\<close>); an accepted
  milestone schedule is determined by its amounts and its two counts, which is what the import call carries; the
  plan imports exactly the records that are not on chain yet, in order and numbered from one; the treasury
  funding it plans is the shortfall of the bounty escrow; the books of the summary balance; planning again after
  the plan has run gives nothing to do.
\<close>

section \<open>The input file\<close>

definition CURRENT_SCHEMA_VERSION :: string where "CURRENT_SCHEMA_VERSION = ''1.0.0''"

record migration_metadata =
  md_description :: "string option"
  md_export_timestamp :: "nat option"
  md_exported_by :: "string option"

record asset_config =
  la_symbol :: string
  la_address :: string
  la_decimals :: nat

record contracts_config =
  lc_timelock :: string
  lc_governance :: string
  lc_treasury :: string
  lc_bounty_escrow :: string
  lc_grants :: string

record treasury_config =
  lt_address :: string
  lt_balances :: "string \<rightharpoonup> int"

record legacy_bounty =
  lb_id :: string
  lb_researcher :: string
  lb_amount :: int
  lb_asset :: string
  lb_report_hash :: string
  lb_paid_offchain :: bool
  lb_description :: "string option"

record legacy_milestone =
  lm_index :: nat
  lm_amount :: int
  lm_confirmed :: bool
  lm_claimed :: bool
  lm_title :: "string option"

record legacy_grant =
  lg_id :: string
  lg_recipient :: string
  lg_asset :: string
  lg_total :: int
  lg_milestones :: "legacy_milestone list"
  lg_description :: "string option"

record legacy_input =
  li_schema_version :: string
  li_metadata :: migration_metadata
  li_assets :: "asset_config list"
  li_contracts :: contracts_config
  li_treasury :: treasury_config
  li_escrow_balances :: "string \<rightharpoonup> string \<rightharpoonup> int"
  li_bounties :: "legacy_bounty list"
  li_grants :: "legacy_grant list"

datatype migration_error =
    MgUnsupportedSchemaVersion string string | MgDuplicateLegacyId string | MgUnknownAsset string string
  | MgInvalidAmount string int | MgEmptyMilestones string | MgMilestoneSumMismatch string int int
  | MgMilestoneOutOfOrder string string | MgInvalidReportHash string string
  | MgInsufficientTreasuryFunds string int int | MgInvalidContractAddress string string

section \<open>Validation\<close>

text \<open>The checks a bounty and a grant share: the id, the asset and the amount.\<close>

definition check_record :: "string set \<Rightarrow> string set \<Rightarrow> string \<Rightarrow> string \<Rightarrow> int \<Rightarrow> (migration_error, unit) outcome" where
  "check_record known seen legacy_id asset amount =
     (if trim legacy_id = [] \<or> trim legacy_id \<in> seen then Err (MgDuplicateLegacyId legacy_id)
      else if asset \<notin> known then Err (MgUnknownAsset asset legacy_id)
      else if amount \<le> 0 then Err (MgInvalidAmount legacy_id amount)
      else Ok ())"

text \<open>\<open>trim_start_matches("0x")\<close>: every leading \<open>0x\<close> goes.\<close>

fun trim_start_0x :: "string \<Rightarrow> string" where
  "trim_start_0x (a # b # s) = (if a = CHR ''0'' \<and> b = CHR ''x'' then trim_start_0x s else a # b # s)"
| "trim_start_0x s = s"

fun validate_bounties :: "string set \<Rightarrow> string set \<Rightarrow> legacy_bounty list \<Rightarrow> (migration_error, string set) outcome" where
  "validate_bounties known seen [] = Ok seen"
| "validate_bounties known seen (b # bs) =
     and_then (check_record known seen (lb_id b) (lb_asset b) (lb_amount b)) (\<lambda>_.
     let clean_hash = trim_start_0x (lb_report_hash b) in
     if length clean_hash \<noteq> 64 \<or> \<not> list_all is_hex clean_hash
     then Err (MgInvalidReportHash (lb_id b) ''must be a 32-byte hex-encoded string (64 characters)'')
     else validate_bounties known (insert (trim (lb_id b)) seen) bs)"

fun validate_milestones ::
  "legacy_grant \<Rightarrow> nat \<Rightarrow> int \<Rightarrow> bool \<Rightarrow> bool \<Rightarrow> legacy_milestone list \<Rightarrow> (migration_error, int) outcome" where
  "validate_milestones g i acc saw_unconfirmed saw_unclaimed [] = Ok acc"
| "validate_milestones g i acc saw_unconfirmed saw_unclaimed (m # ms) =
     (if lm_index m \<noteq> i then
        Err (MgMilestoneOutOfOrder (lg_id g)
          (''milestone index mismatch: expected '' @ show_nat i @ '', found '' @ show_nat (lm_index m)))
      else if lm_amount m \<le> 0 then Err (MgInvalidAmount (lg_id g) (lm_amount m))
      else
        and_then (ok_or (i128_opt (acc + lm_amount m)) (MgMilestoneSumMismatch (lg_id g) (lg_total g) i128_max)) (\<lambda>acc.
        if lm_claimed m \<and> \<not> lm_confirmed m then
          Err (MgMilestoneOutOfOrder (lg_id g) (''milestone '' @ show_nat (lm_index m) @ '' is marked claimed but not confirmed''))
        else if lm_confirmed m \<and> saw_unconfirmed then
          Err (MgMilestoneOutOfOrder (lg_id g)
            (''milestone '' @ show_nat (lm_index m) @ '' is confirmed, but an earlier milestone is unconfirmed''))
        else if lm_claimed m \<and> saw_unclaimed then
          Err (MgMilestoneOutOfOrder (lg_id g)
            (''milestone '' @ show_nat (lm_index m) @ '' is claimed, but an earlier milestone is unclaimed''))
        else validate_milestones g (Suc i) acc (saw_unconfirmed \<or> \<not> lm_confirmed m) (saw_unclaimed \<or> \<not> lm_claimed m) ms))"

fun validate_grants :: "string set \<Rightarrow> string set \<Rightarrow> legacy_grant list \<Rightarrow> (migration_error, unit) outcome" where
  "validate_grants known seen [] = Ok ()"
| "validate_grants known seen (g # gs) =
     and_then (check_record known seen (lg_id g) (lg_asset g) (lg_total g)) (\<lambda>_.
     if lg_milestones g = [] then Err (MgEmptyMilestones (lg_id g))
     else
       and_then (validate_milestones g 0 0 False False (lg_milestones g)) (\<lambda>acc.
       if acc \<noteq> lg_total g then Err (MgMilestoneSumMismatch (lg_id g) (lg_total g) acc)
       else validate_grants known (insert (trim (lg_id g)) seen) gs))"

definition validate_input :: "legacy_input \<Rightarrow> (migration_error, unit) outcome" where
  "validate_input f =
     (if li_schema_version f \<noteq> CURRENT_SCHEMA_VERSION
      then Err (MgUnsupportedSchemaVersion CURRENT_SCHEMA_VERSION (li_schema_version f))
      else
        let known = set (map la_symbol (li_assets f)) in
        and_then (validate_bounties known {} (li_bounties f)) (\<lambda>seen. validate_grants known seen (li_grants f)))"

subsection \<open>What validation accepts\<close>

text \<open>The elements with a property come first.\<close>

fun leading :: "('m \<Rightarrow> bool) \<Rightarrow> 'm list \<Rightarrow> bool" where
  "leading P [] = True"
| "leading P (m # ms) = (if P m then leading P ms else list_all (\<lambda>m. \<not> P m) ms)"

definition valid_schedule :: "int \<Rightarrow> legacy_milestone list \<Rightarrow> bool" where
  "valid_schedule amount ms \<longleftrightarrow> ms \<noteq> [] \<and> map lm_index ms = [0..<length ms] \<and>
     (\<forall>m\<in>set ms. 0 < lm_amount m \<and> (lm_claimed m \<longrightarrow> lm_confirmed m)) \<and>
     leading lm_confirmed ms \<and> leading lm_claimed ms \<and>
     (\<Sum>m\<leftarrow>ms. lm_amount m) = amount \<and> amount \<le> i128_max"

definition valid_hash :: "string \<Rightarrow> bool" where
  "valid_hash h \<longleftrightarrow> length (trim_start_0x h) = 64 \<and> list_all is_hex (trim_start_0x h)"

definition legacy_ids :: "legacy_input \<Rightarrow> string list" where
  "legacy_ids f = map lb_id (li_bounties f) @ map lg_id (li_grants f)"

definition valid_input :: "legacy_input \<Rightarrow> bool" where
  "valid_input f \<longleftrightarrow> li_schema_version f = CURRENT_SCHEMA_VERSION \<and>
     [] \<notin> set (map trim (legacy_ids f)) \<and> distinct (map trim (legacy_ids f)) \<and>
     (\<forall>b\<in>set (li_bounties f). lb_asset b \<in> la_symbol ` set (li_assets f) \<and> 0 < lb_amount b \<and> valid_hash (lb_report_hash b)) \<and>
     (\<forall>g\<in>set (li_grants f). lg_asset g \<in> la_symbol ` set (li_assets f) \<and> 0 < lg_total g \<and>
        valid_schedule (lg_total g) (lg_milestones g))"

lemma check_record_Ok [simp]:
  "check_record known seen i a x = Ok u \<longleftrightarrow> trim i \<noteq> [] \<and> trim i \<notin> seen \<and> a \<in> known \<and> 0 < x"
  by (auto simp: check_record_def)

lemma validate_bounties_Ok:
  "validate_bounties known seen bs = Ok seen' \<longleftrightarrow>
     (\<forall>b\<in>set bs. trim (lb_id b) \<noteq> [] \<and> trim (lb_id b) \<notin> seen \<and> lb_asset b \<in> known \<and> 0 < lb_amount b \<and> valid_hash (lb_report_hash b)) \<and>
     distinct (map (\<lambda>b. trim (lb_id b)) bs) \<and> seen' = seen \<union> (\<lambda>b. trim (lb_id b)) ` set bs"
proof (induction bs arbitrary: seen)
  case (Cons b bs)
  have "validate_bounties known seen (b # bs) = Ok seen' \<longleftrightarrow>
      trim (lb_id b) \<noteq> [] \<and> trim (lb_id b) \<notin> seen \<and> lb_asset b \<in> known \<and> 0 < lb_amount b \<and>
      valid_hash (lb_report_hash b) \<and> validate_bounties known (insert (trim (lb_id b)) seen) bs = Ok seen'"
    by (auto simp: valid_hash_def Let_def)
  then show ?case unfolding Cons.IH by (auto simp: image_iff)
qed auto

lemma amounts_nonneg: "\<forall>m\<in>set ms. 0 < lm_amount m \<and> Q m \<Longrightarrow> 0 \<le> (\<Sum>m\<leftarrow>ms. lm_amount m)"
  by (induction ms) auto

definition schedule_tail :: "nat \<Rightarrow> int \<Rightarrow> bool \<Rightarrow> bool \<Rightarrow> legacy_milestone list \<Rightarrow> int \<Rightarrow> bool" where
  "schedule_tail i t uc ul ms t' \<longleftrightarrow>
     map lm_index ms = [i..<i + length ms] \<and> (\<forall>m\<in>set ms. 0 < lm_amount m \<and> (lm_claimed m \<longrightarrow> lm_confirmed m)) \<and>
     (if uc then list_all (\<lambda>m. \<not> lm_confirmed m) ms else leading lm_confirmed ms) \<and>
     (if ul then list_all (\<lambda>m. \<not> lm_claimed m) ms else leading lm_claimed ms) \<and>
     t' = t + (\<Sum>m\<leftarrow>ms. lm_amount m) \<and> t' \<le> i128_max"

lemma schedule_tail_Cons:
  "schedule_tail i t uc ul (m # ms) t' \<longleftrightarrow>
     lm_index m = i \<and> 0 < lm_amount m \<and> t + lm_amount m \<le> i128_max \<and> (lm_claimed m \<longrightarrow> lm_confirmed m) \<and>
     \<not> (lm_confirmed m \<and> uc) \<and> \<not> (lm_claimed m \<and> ul) \<and>
     schedule_tail (Suc i) (t + lm_amount m) (uc \<or> \<not> lm_confirmed m) (ul \<or> \<not> lm_claimed m) ms t'"
proof -
  have idx: "map lm_index (m # ms) = [i..<i + length (m # ms)] \<longleftrightarrow> lm_index m = i \<and> map lm_index ms = [Suc i..<Suc i + length ms]"
    by (simp add: upt_conv_Cons del: upt_Suc)
  have room: "t + lm_amount m \<le> i128_max"
    if "\<forall>m\<in>set ms. 0 < lm_amount m \<and> (lm_claimed m \<longrightarrow> lm_confirmed m)" "t + (lm_amount m + (\<Sum>m\<leftarrow>ms. lm_amount m)) \<le> i128_max"
    using that(2) amounts_nonneg [OF that(1)] by linarith
  show ?thesis
    unfolding schedule_tail_def idx
    by (cases uc; cases ul; cases "lm_confirmed m"; cases "lm_claimed m") (simp_all add: algebra_simps, (use room in \<open>auto simp: algebra_simps\<close>)?)
qed

lemma validate_milestones_Ok:
  assumes "0 \<le> t" and "t \<le> i128_max"
  shows "validate_milestones g i t uc ul ms = Ok t' \<longleftrightarrow> schedule_tail i t uc ul ms t'"
  using assms
proof (induction ms arbitrary: i t uc ul)
  case Nil
  then show ?case by (auto simp: schedule_tail_def)
next
  case (Cons m ms)
  have step: "validate_milestones g i t uc ul (m # ms) = Ok t' \<longleftrightarrow>
     lm_index m = i \<and> 0 < lm_amount m \<and> in_i128 (t + lm_amount m) \<and> (lm_claimed m \<longrightarrow> lm_confirmed m) \<and>
     \<not> (lm_confirmed m \<and> uc) \<and> \<not> (lm_claimed m \<and> ul) \<and>
     validate_milestones g (Suc i) (t + lm_amount m) (uc \<or> \<not> lm_confirmed m) (ul \<or> \<not> lm_claimed m) ms = Ok t'"
    by auto
  have fits: "in_i128 (t + lm_amount m) \<longleftrightarrow> t + lm_amount m \<le> i128_max" if "0 < lm_amount m"
    using that Cons.prems by (auto simp: in_i128_def i128_min_def)
  show ?case
  proof (cases "0 < lm_amount m \<and> t + lm_amount m \<le> i128_max")
    case True
    with Cons.prems(1) have "0 \<le> t + lm_amount m" by linarith
    from Cons.IH [OF this] True fits show ?thesis unfolding step schedule_tail_Cons by simp
  next
    case False
    with fits show ?thesis unfolding step schedule_tail_Cons by blast
  qed
qed

lemma validate_schedule_Ok:
  "lg_milestones g \<noteq> [] \<and> validate_milestones g 0 0 False False (lg_milestones g) = Ok (lg_total g) \<longleftrightarrow>
     valid_schedule (lg_total g) (lg_milestones g)"
  by (simp add: validate_milestones_Ok i128_max_def valid_schedule_def schedule_tail_def) (auto simp: i128_max_def)

lemma validate_grants_Ok:
  "validate_grants known seen gs = Ok u \<longleftrightarrow>
     (\<forall>g\<in>set gs. trim (lg_id g) \<noteq> [] \<and> trim (lg_id g) \<notin> seen \<and> lg_asset g \<in> known \<and> 0 < lg_total g \<and>
        valid_schedule (lg_total g) (lg_milestones g)) \<and>
     distinct (map (\<lambda>g. trim (lg_id g)) gs)"
proof (induction gs arbitrary: seen)
  case (Cons g gs)
  have "validate_grants known seen (g # gs) = Ok u \<longleftrightarrow>
      trim (lg_id g) \<noteq> [] \<and> trim (lg_id g) \<notin> seen \<and> lg_asset g \<in> known \<and> 0 < lg_total g \<and>
      valid_schedule (lg_total g) (lg_milestones g) \<and> validate_grants known (insert (trim (lg_id g)) seen) gs = Ok u"
    unfolding validate_schedule_Ok [symmetric] by (simp split: if_splits)
  then show ?case unfolding Cons.IH by (auto simp: image_iff)
qed simp

lemma validate_input_iff: "validate_input f = Ok () \<longleftrightarrow> valid_input f"
proof -
  have ids: "map trim (legacy_ids f) = map (\<lambda>b. trim (lb_id b)) (li_bounties f) @ map (\<lambda>g. trim (lg_id g)) (li_grants f)"
    by (simp add: legacy_ids_def)
  show ?thesis
    unfolding validate_input_def valid_input_def ids distinct_append set_append set_map Let_def
    by (auto simp: validate_bounties_Ok validate_grants_Ok image_iff disjoint_iff) metis+
qed

text \<open>A report hash given as 32 raw characters is refused, although the comment in the code allows it.\<close>

lemma trim_start_0x_length: "length (trim_start_0x h) \<le> length h"
  by (induction h rule: trim_start_0x.induct) auto

theorem raw_hash_refused:
  "b \<in> set (li_bounties f) \<Longrightarrow> length (lb_report_hash b) = 32 \<Longrightarrow> validate_input f \<noteq> Ok ()"
  using trim_start_0x_length [of "lb_report_hash b"] by (auto simp: validate_input_iff valid_input_def valid_hash_def)

text \<open>C39. Validation is exact: an input file is accepted if and only if it has the supported version; its ids, trimmed,
are neither empty nor repeated across bounties and grants; every bounty and grant has a known asset and a positive amount;
every report hash is, after its leading \<open>0x\<close>, exactly 64 hexadecimal digits (32 raw bytes are refused); and every
milestone schedule is non-empty, with indices counting up from zero, positive amounts that sum to the total of the grant and
fit an \<open>i128\<close>, only confirmed milestones claimed, and the confirmed and the claimed ones first.\<close>

theorem legacy_validation_exact: "validate_input f = Ok () \<longleftrightarrow> valid_input f"
  by (rule validate_input_iff)

text \<open>An accepted schedule is determined by how many milestones are confirmed and how many are claimed.\<close>

lemma leading_counts: "leading P ms \<Longrightarrow> i < length ms \<Longrightarrow> P (ms ! i) \<longleftrightarrow> i < length (filter P ms)"
proof (induction ms arbitrary: i)
  case (Cons m ms)
  then show ?case by (cases i) (auto simp: list_all_iff filter_empty_conv split: if_splits)
qed simp

section \<open>The on-chain state\<close>

text \<open>\<open>trait StateProvider\<close>, and the provider that keeps the state in memory.\<close>

record state_provider =
  has_legacy_bounty :: "string \<Rightarrow> bool"
  has_legacy_grant :: "string \<Rightarrow> bool"
  get_treasury_balance :: "string \<Rightarrow> int"
  get_escrow_balance :: "string \<Rightarrow> string \<Rightarrow> int"

record memory_provider =
  mp_bounties :: "string set"
  mp_grants :: "string set"
  mp_treasury :: "string \<rightharpoonup> int"
  mp_escrow :: "string \<rightharpoonup> string \<rightharpoonup> int"

definition memory_provider_new :: memory_provider where
  "memory_provider_new = \<lparr>mp_bounties = {}, mp_grants = {}, mp_treasury = (\<lambda>_. None), mp_escrow = (\<lambda>_. None)\<rparr>"

definition with_treasury_balance :: "string \<Rightarrow> int \<Rightarrow> memory_provider \<Rightarrow> memory_provider" where
  "with_treasury_balance asset balance s = s\<lparr>mp_treasury := (mp_treasury s)(asset \<mapsto> balance)\<rparr>"

definition with_escrow_balance :: "string \<Rightarrow> string \<Rightarrow> int \<Rightarrow> memory_provider \<Rightarrow> memory_provider" where
  "with_escrow_balance contract asset balance s =
     s\<lparr>mp_escrow := (mp_escrow s)(contract \<mapsto> (unwrap_or (mp_escrow s contract) (\<lambda>_. None))(asset \<mapsto> balance))\<rparr>"

definition mark_bounty_migrated :: "string \<Rightarrow> memory_provider \<Rightarrow> memory_provider" where
  "mark_bounty_migrated legacy_id s = s\<lparr>mp_bounties := insert legacy_id (mp_bounties s)\<rparr>"

definition mark_grant_migrated :: "string \<Rightarrow> memory_provider \<Rightarrow> memory_provider" where
  "mark_grant_migrated legacy_id s = s\<lparr>mp_grants := insert legacy_id (mp_grants s)\<rparr>"

definition memory_state :: "memory_provider \<Rightarrow> state_provider" where
  "memory_state s =
     \<lparr>has_legacy_bounty = (\<lambda>i. i \<in> mp_bounties s), has_legacy_grant = (\<lambda>i. i \<in> mp_grants s),
      get_treasury_balance = (\<lambda>a. unwrap_or (mp_treasury s a) 0),
      get_escrow_balance = (\<lambda>c a. case mp_escrow s c of Some m \<Rightarrow> unwrap_or (m a) 0 | None \<Rightarrow> 0)\<rparr>"

section \<open>The plan\<close>

record contract_invocation =
  ci_step :: nat
  ci_program :: string
  ci_legacy_id :: "string option"
  ci_target_contract :: string
  ci_target_address :: string
  ci_function :: string
  ci_args :: json
  ci_description :: string

record batch_operation =
  to_step :: nat
  to_target :: string
  to_function :: string
  to_args :: json
  to_eta :: nat
  to_description :: string

record timelock_batch =
  tb_proposal_type :: string
  tb_version :: string
  tb_generated_at :: nat
  tb_eta :: nat
  tb_operations :: "batch_operation list"

record governance_proposal =
  gp_title :: string
  gp_text :: string
  gp_target_timelock :: string
  gp_batch :: timelock_batch

record program_summary =
  ps_total_records :: nat
  ps_already_migrated :: nat
  ps_planned_actions :: nat
  ps_bounty_total :: nat
  ps_bounty_migrated :: nat
  ps_bounty_pending :: nat
  ps_grant_total :: nat
  ps_grant_migrated :: nat
  ps_grant_pending :: nat
  ps_liabilities :: "string \<rightharpoonup> string \<rightharpoonup> int"
  ps_historical :: "string \<rightharpoonup> string \<rightharpoonup> int"
  ps_outstanding :: "string \<rightharpoonup> string \<rightharpoonup> int"
  ps_total_outstanding :: "string \<rightharpoonup> int"
  ps_required_funding :: "string \<rightharpoonup> int"

record migration_plan =
  mg_version :: string
  mg_generated_at :: nat
  mg_eta :: nat
  mg_actions :: "contract_invocation list"
  mg_already_migrated :: "string list"
  mg_summary :: program_summary
  mg_timelock_proposal :: timelock_batch
  mg_governance_proposal :: governance_proposal

record generator_config =
  gc_current_timestamp :: nat
  gc_min_delay :: nat

definition generator_default :: generator_config where
  "generator_default = \<lparr>gc_current_timestamp = 1700000000, gc_min_delay = 86400\<rparr>"

subsection \<open>Scanning the records\<close>

text \<open>\<open>*m.entry(k).or_default() += x\<close>, for a map of amounts and for one such map per program.\<close>

definition credit :: "string \<Rightarrow> int \<Rightarrow> (string \<rightharpoonup> int) \<Rightarrow> (migration_error, string \<rightharpoonup> int) outcome" where
  "credit asset x m = and_then (i128_add (unwrap_or (m asset) 0) x) (\<lambda>v. Ok (m(asset \<mapsto> v)))"

definition credit_program ::
  "string \<Rightarrow> string \<Rightarrow> int \<Rightarrow> (string \<rightharpoonup> string \<rightharpoonup> int) \<Rightarrow> (migration_error, string \<rightharpoonup> string \<rightharpoonup> int) outcome" where
  "credit_program prog asset x m = and_then (credit asset x (unwrap_or (m prog) (\<lambda>_. None))) (\<lambda>i. Ok (m(prog \<mapsto> i)))"

text \<open>The same for the ordered map of pending obligations, which is iterated later.\<close>

definition credit_ordered :: "string \<Rightarrow> int \<Rightarrow> (string, int) btree \<Rightarrow> (migration_error, (string, int) btree) outcome" where
  "credit_ordered asset x t = and_then (i128_add (unwrap_or (map_of t asset) 0) x) (\<lambda>v. Ok (btree_insert asset v t))"

record scan =
  sc_summary :: program_summary
  sc_migrated :: "string list"
  sc_obligations :: "(string, int) btree"
  sc_bounties :: "legacy_bounty list"
  sc_grants :: "legacy_grant list"

definition scan_bounty :: "state_provider \<Rightarrow> legacy_bounty \<Rightarrow> scan \<Rightarrow> (migration_error, scan) outcome" where
  "scan_bounty state b sc =
     (let su = sc_summary sc in
      if has_legacy_bounty state (lb_id b) then
        Ok (sc\<lparr>sc_summary := su\<lparr>ps_already_migrated := Suc (ps_already_migrated su), ps_bounty_migrated := Suc (ps_bounty_migrated su)\<rparr>,
               sc_migrated := sc_migrated sc @ [lb_id b]\<rparr>)
      else
        let su = su\<lparr>ps_bounty_pending := Suc (ps_bounty_pending su)\<rparr>; asset = lb_asset b; x = lb_amount b in
        and_then (credit_program ''bounty'' asset x (ps_liabilities su)) (\<lambda>l.
        if lb_paid_offchain b then
          and_then (credit_program ''bounty'' asset x (ps_historical su)) (\<lambda>h.
          Ok (sc\<lparr>sc_summary := su\<lparr>ps_liabilities := l, ps_historical := h\<rparr>, sc_bounties := sc_bounties sc @ [b]\<rparr>))
        else
          and_then (credit_program ''bounty'' asset x (ps_outstanding su)) (\<lambda>out.
          and_then (credit asset x (ps_total_outstanding su)) (\<lambda>t.
          and_then (credit_ordered asset x (sc_obligations sc)) (\<lambda>ob.
          Ok (sc\<lparr>sc_summary := su\<lparr>ps_liabilities := l, ps_outstanding := out, ps_total_outstanding := t\<rparr>,
                 sc_obligations := ob, sc_bounties := sc_bounties sc @ [b]\<rparr>))))))"

fun claimed_amount :: "int \<Rightarrow> legacy_milestone list \<Rightarrow> (migration_error, int) outcome" where
  "claimed_amount acc [] = Ok acc"
| "claimed_amount acc (m # ms) =
     (if lm_claimed m then and_then (i128_add acc (lm_amount m)) (\<lambda>acc. claimed_amount acc ms) else claimed_amount acc ms)"

definition scan_grant :: "state_provider \<Rightarrow> legacy_grant \<Rightarrow> scan \<Rightarrow> (migration_error, scan) outcome" where
  "scan_grant state g sc =
     (let su = sc_summary sc in
      if has_legacy_grant state (lg_id g) then
        Ok (sc\<lparr>sc_summary := su\<lparr>ps_already_migrated := Suc (ps_already_migrated su), ps_grant_migrated := Suc (ps_grant_migrated su)\<rparr>,
               sc_migrated := sc_migrated sc @ [lg_id g]\<rparr>)
      else
        let su = su\<lparr>ps_grant_pending := Suc (ps_grant_pending su)\<rparr>; asset = lg_asset g in
        and_then (claimed_amount 0 (lg_milestones g)) (\<lambda>claimed.
        and_then (i128_sub (lg_total g) claimed) (\<lambda>rest.
        and_then (credit_program ''grants'' asset (lg_total g) (ps_liabilities su)) (\<lambda>l.
        and_then (credit_program ''grants'' asset claimed (ps_historical su)) (\<lambda>h.
        and_then (credit_program ''grants'' asset rest (ps_outstanding su)) (\<lambda>out.
        and_then (credit asset rest (ps_total_outstanding su)) (\<lambda>t.
        Ok (sc\<lparr>sc_summary := su\<lparr>ps_liabilities := l, ps_historical := h, ps_outstanding := out, ps_total_outstanding := t\<rparr>,
               sc_grants := sc_grants sc @ [g]\<rparr>))))))))"

fun for_each :: "('x \<Rightarrow> 's \<Rightarrow> ('e, 's) outcome) \<Rightarrow> 'x list \<Rightarrow> 's \<Rightarrow> ('e, 's) outcome" where
  "for_each f [] s = Ok s"
| "for_each f (x # xs) s = and_then (f x s) (for_each f xs)"

definition scan_start :: "legacy_input \<Rightarrow> scan" where
  "scan_start input =
     \<lparr>sc_summary =
        \<lparr>ps_total_records = length (li_bounties input) + length (li_grants input), ps_already_migrated = 0, ps_planned_actions = 0,
         ps_bounty_total = length (li_bounties input), ps_bounty_migrated = 0, ps_bounty_pending = 0,
         ps_grant_total = length (li_grants input), ps_grant_migrated = 0, ps_grant_pending = 0,
         ps_liabilities = (\<lambda>_. None), ps_historical = (\<lambda>_. None), ps_outstanding = (\<lambda>_. None),
         ps_total_outstanding = (\<lambda>_. None), ps_required_funding = (\<lambda>_. None)\<rparr>,
      sc_migrated = [], sc_obligations = [], sc_bounties = [], sc_grants = []\<rparr>"

definition scan_records :: "state_provider \<Rightarrow> legacy_input \<Rightarrow> (migration_error, scan) outcome" where
  "scan_records state input =
     and_then (for_each (scan_bounty state) (li_bounties input) (scan_start input)) (for_each (scan_grant state) (li_grants input))"

subsection \<open>The calls\<close>

text \<open>A JSON number, or a panic of the \<open>json!\<close> macro.\<close>

definition json_number :: "(int \<Rightarrow> json option) \<Rightarrow> int \<Rightarrow> (migration_error, json) outcome" where
  "json_number number x = (case number x of Some j \<Rightarrow> Ok j | None \<Rightarrow> Trap)"

fun json_numbers :: "(int \<Rightarrow> json option) \<Rightarrow> int list \<Rightarrow> (migration_error, json list) outcome" where
  "json_numbers number [] = Ok []"
| "json_numbers number (x # xs) =
     and_then (json_number number x) (\<lambda>j. and_then (json_numbers number xs) (\<lambda>js. Ok (j # js)))"

definition escrow_held :: "state_provider \<Rightarrow> legacy_input \<Rightarrow> string \<Rightarrow> int" where
  "escrow_held state input asset =
     (let current = get_escrow_balance state ''bounty_escrow'' asset;
          declared = (case li_escrow_balances input ''bounty_escrow'' of Some m \<Rightarrow> unwrap_or (m asset) 0 | None \<Rightarrow> 0)
      in max current declared)"

definition asset_address :: "legacy_input \<Rightarrow> string \<Rightarrow> string" where
  "asset_address input asset =
     unwrap_or (map_of (rev (map (\<lambda>a. (la_symbol a, la_address a)) (li_assets input))) asset) []"

definition funding_invocation ::
  "(int \<Rightarrow> json option) \<Rightarrow> legacy_input \<Rightarrow> string \<Rightarrow> int \<Rightarrow> (migration_error, contract_invocation) outcome" where
  "funding_invocation number input asset shortfall =
     and_then (json_number number shortfall) (\<lambda>amount.
     Ok \<lparr>ci_step = 0, ci_program = ''treasury'', ci_legacy_id = None, ci_target_contract = ''treasury'',
         ci_target_address = lc_treasury (li_contracts input), ci_function = ''withdraw'',
         ci_args = JObject [(''caller'', JString (lc_timelock (li_contracts input))),
           (''token'', JString (asset_address input asset)), (''amount'', amount),
           (''to'', JString (lc_bounty_escrow (li_contracts input)))],
         ci_description = ''Fund bounty escrow with '' @ show_int shortfall @ '' '' @ asset @
           '' from treasury for outstanding obligations''\<rparr>)"

fun fund_escrow ::
  "(int \<Rightarrow> json option) \<Rightarrow> state_provider \<Rightarrow> legacy_input \<Rightarrow> (string \<times> int) list \<Rightarrow>
   (string \<rightharpoonup> int) \<times> (string \<times> contract_invocation) list \<Rightarrow> (migration_error, (string \<rightharpoonup> int) \<times> (string \<times> contract_invocation) list) outcome" where
  "fund_escrow number state input [] acc = Ok acc"
| "fund_escrow number state input ((asset, needed) # rest) (required, actions) =
     (if escrow_held state input asset < needed then
        and_then (i128_sub needed (escrow_held state input asset)) (\<lambda>shortfall.
        and_then (funding_invocation number input asset shortfall) (\<lambda>act.
        fund_escrow number state input rest (required(asset \<mapsto> shortfall), actions @ [(asset, act)])))
      else fund_escrow number state input rest (required, actions))"

fun show_bool :: "bool \<Rightarrow> string" where
  "show_bool True = ''true''"
| "show_bool False = ''false''"

definition bounty_invocation :: "(int \<Rightarrow> json option) \<Rightarrow> legacy_input \<Rightarrow> legacy_bounty \<Rightarrow> (migration_error, contract_invocation) outcome" where
  "bounty_invocation number input b =
     and_then (json_number number (lb_amount b)) (\<lambda>amount.
     Ok \<lparr>ci_step = 0, ci_program = ''bounty'', ci_legacy_id = Some (lb_id b), ci_target_contract = ''bounty_escrow'',
         ci_target_address = lc_bounty_escrow (li_contracts input), ci_function = ''import_legacy_award'',
         ci_args = JObject [(''caller'', JString (lc_timelock (li_contracts input))), (''legacy_id'', JString (lb_id b)),
           (''researcher'', JString (lb_researcher b)), (''amount'', amount), (''report_hash'', JString (lb_report_hash b)),
           (''paid_offchain'', JBool (lb_paid_offchain b))],
         ci_description = ''Import legacy bounty '' @ lb_id b @ '' ('' @ show_int (lb_amount b) @ '' '' @ lb_asset b @
           '', paid_offchain: '' @ show_bool (lb_paid_offchain b) @ '')''\<rparr>)"

definition grant_invocation :: "(int \<Rightarrow> json option) \<Rightarrow> legacy_input \<Rightarrow> legacy_grant \<Rightarrow> (migration_error, contract_invocation) outcome" where
  "grant_invocation number input g =
     (let confirmed_count = length (filter lm_confirmed (lg_milestones g));
          claimed_count = length (filter lm_claimed (lg_milestones g)) in
     and_then (json_number number (lg_total g)) (\<lambda>amount.
     and_then (json_numbers number (map lm_amount (lg_milestones g))) (\<lambda>amounts.
     Ok \<lparr>ci_step = 0, ci_program = ''grants'', ci_legacy_id = Some (lg_id g), ci_target_contract = ''grants'',
         ci_target_address = lc_grants (li_contracts input), ci_function = ''import_legacy_grant'',
         ci_args = JObject [(''caller'', JString (lc_timelock (li_contracts input))), (''legacy_id'', JString (lg_id g)),
           (''recipient'', JString (lg_recipient g)), (''total_amount'', amount), (''milestones'', JArray amounts),
           (''confirmed_count'', JNumber (int confirmed_count)), (''claimed_count'', JNumber (int claimed_count))],
         ci_description = ''Import legacy grant '' @ lg_id g @ '' (total: '' @ show_int (lg_total g) @ '' '' @ lg_asset g @ '', '' @
           show_nat confirmed_count @ ''/'' @ show_nat (length (lg_milestones g)) @ '' milestones confirmed, '' @
           show_nat claimed_count @ '' claimed)''\<rparr>)))"

fun map_outcome :: "('x \<Rightarrow> ('e, 'y) outcome) \<Rightarrow> 'x list \<Rightarrow> ('e, 'y list) outcome" where
  "map_outcome f [] = Ok []"
| "map_outcome f (x # xs) = and_then (f x) (\<lambda>y. and_then (map_outcome f xs) (\<lambda>ys. Ok (y # ys)))"

fun number_steps :: "nat \<Rightarrow> contract_invocation list \<Rightarrow> contract_invocation list" where
  "number_steps n [] = []"
| "number_steps n (a # as) = a\<lparr>ci_step := n\<rparr> # number_steps (Suc n) as"

definition timelock_operation_of :: "nat \<Rightarrow> contract_invocation \<Rightarrow> batch_operation" where
  "timelock_operation_of eta a =
     \<lparr>to_step = ci_step a, to_target = ci_target_address a, to_function = ci_function a, to_args = ci_args a, to_eta = eta,
      to_description = ci_description a\<rparr>"

definition generate_migration_plan ::
  "(int \<Rightarrow> json option) \<Rightarrow> legacy_input \<Rightarrow> state_provider \<Rightarrow> generator_config \<Rightarrow> (migration_error, migration_plan) outcome" where
  "generate_migration_plan number input state config =
     and_then (validate_input input) (\<lambda>_.
     and_then (scan_records state input) (\<lambda>sc.
     and_then (fund_escrow number state input (sc_obligations sc) ((\<lambda>_. None), [])) (\<lambda>(required, funding).
     and_then (map_outcome (bounty_invocation number input) (sort_key lb_id (sc_bounties sc))) (\<lambda>bounty_actions.
     and_then (map_outcome (grant_invocation number input) (sort_key lg_id (sc_grants sc))) (\<lambda>grant_actions.
     let all_actions = number_steps 1 (map snd (sort_key fst funding) @ bounty_actions @ grant_actions);
         summary = (sc_summary sc)\<lparr>ps_required_funding := required, ps_planned_actions := length all_actions\<rparr> in
     and_then (u64_add (gc_current_timestamp config) (gc_min_delay config)) (\<lambda>eta.
     let batch = \<lparr>tb_proposal_type = ''legacy_migration_batch'', tb_version = li_schema_version input,
           tb_generated_at = gc_current_timestamp config, tb_eta = eta,
           tb_operations = map (timelock_operation_of eta) all_actions\<rparr> in
     Ok \<lparr>mg_version = li_schema_version input, mg_generated_at = gc_current_timestamp config, mg_eta = eta,
         mg_actions = all_actions, mg_already_migrated = sc_migrated sc, mg_summary = summary, mg_timelock_proposal = batch,
         mg_governance_proposal =
           \<lparr>gp_title = ''Legacy Records Migration Batch (v'' @ li_schema_version input @ '')'',
            gp_text = ''Execute import of '' @ show_nat (length all_actions) @
              '' legacy records into on-chain escrow contracts via timelock'',
            gp_target_timelock = lc_timelock (li_contracts input), gp_batch = batch\<rparr>\<rparr>))))))"

section \<open>What the plan holds\<close>

subsection \<open>Amounts by program and asset\<close>

definition entry_of :: "(string \<rightharpoonup> string \<rightharpoonup> int) \<Rightarrow> string \<Rightarrow> string \<Rightarrow> int" where
  "entry_of m prog asset = unwrap_or (unwrap_or (m prog) (\<lambda>_. None) asset) 0"

lemma entry_of_empty [simp]: "entry_of (\<lambda>_. None) p a = 0"
  by (simp add: entry_of_def)

lemma credit_Ok: "credit a x m = Ok m' \<Longrightarrow> unwrap_or (m' b) 0 = unwrap_or (m b) 0 + (if b = a then x else 0)"
  by (auto simp: credit_def)

lemma credit_program_Ok:
  "credit_program p a x m = Ok m' \<Longrightarrow> entry_of m' q b = entry_of m q b + (if q = p \<and> b = a then x else 0)"
  by (auto simp: credit_program_def entry_of_def dest: credit_Ok [where b = b])

lemma credit_program_entry:
  assumes "credit_program p a x m = Ok m'"
  shows "entry_of m' = (\<lambda>q b. entry_of m q b + (if q = p \<and> b = a then x else 0))"
  by (intro ext) (rule credit_program_Ok [OF assms])

lemma credit_ordered_Ok:
  assumes "credit_ordered a x t = Ok t'"
  shows "t' = btree_insert a (unwrap_or (map_of t a) 0 + x) t"
  using assms by (auto simp: credit_ordered_def)

text \<open>A book adds up one amount of each record, by program and asset.\<close>

definition book_of ::
  "(legacy_bounty \<Rightarrow> int) \<Rightarrow> (legacy_grant \<Rightarrow> int) \<Rightarrow> legacy_bounty list \<Rightarrow> legacy_grant list \<Rightarrow> string \<Rightarrow> string \<Rightarrow> int" where
  "book_of f h bs gs prog asset =
     (if prog = ''bounty'' then (\<Sum>b\<leftarrow>filter (\<lambda>b. lb_asset b = asset) bs. f b)
      else if prog = ''grants'' then (\<Sum>g\<leftarrow>filter (\<lambda>g. lg_asset g = asset) gs. h g) else 0)"

lemma book_of_snoc [simp]:
  "book_of f h (bs @ [b]) gs p a = book_of f h bs gs p a + (if p = ''bounty'' \<and> a = lb_asset b then f b else 0)"
  "book_of f h bs (gs @ [g]) p a = book_of f h bs gs p a + (if p = ''grants'' \<and> a = lg_asset g then h g else 0)"
  "book_of f h [] [] p a = 0"
  by (auto simp: book_of_def)

lemma book_of_add: "book_of f h bs gs p a + book_of f' h' bs gs p a = book_of (\<lambda>b. f b + f' b) (\<lambda>g. h g + h' g) bs gs p a"
  by (simp add: book_of_def sum_list_addf)

definition paid_part :: "legacy_bounty \<Rightarrow> int" where "paid_part b = (if lb_paid_offchain b then lb_amount b else 0)"
definition owed_part :: "legacy_bounty \<Rightarrow> int" where "owed_part b = (if lb_paid_offchain b then 0 else lb_amount b)"
definition claimed_part :: "legacy_grant \<Rightarrow> int" where
  "claimed_part g = (\<Sum>m\<leftarrow>filter lm_claimed (lg_milestones g). lm_amount m)"

lemma claimed_amount_Ok: "claimed_amount acc ms = Ok x \<Longrightarrow> x = acc + (\<Sum>m\<leftarrow>filter lm_claimed ms. lm_amount m)"
proof (induction acc ms rule: claimed_amount.induct)
  case (2 acc m ms)
  show ?case
  proof (cases "lm_claimed m")
    case True
    with "2.prems" have "claimed_amount (acc + lm_amount m) ms = Ok x" by auto
    from "2.IH"(1) [OF True this] True show ?thesis by simp
  next
    case False
    with "2.prems" have "claimed_amount acc ms = Ok x" by simp
    from "2.IH"(2) [OF False this] False show ?thesis by simp
  qed
qed simp

subsection \<open>The scan\<close>

definition unpaid_assets :: "legacy_bounty list \<Rightarrow> string set" where
  "unpaid_assets bs = lb_asset ` {b \<in> set bs. \<not> lb_paid_offchain b}"

lemma unpaid_assets_snoc [simp]:
  "unpaid_assets [] = {}"
  "unpaid_assets (bs @ [b]) = (if lb_paid_offchain b then unpaid_assets bs else insert (lb_asset b) (unpaid_assets bs))"
  by (auto simp: unpaid_assets_def)

text \<open>What the scan of some bounties and grants has collected: the records pending and migrated, and the books.\<close>

definition scanned :: "state_provider \<Rightarrow> legacy_bounty list \<Rightarrow> legacy_grant list \<Rightarrow> scan \<Rightarrow> bool" where
  "scanned state bs gs sc \<longleftrightarrow>
     (let pb = filter (\<lambda>b. \<not> has_legacy_bounty state (lb_id b)) bs;
          pg = filter (\<lambda>g. \<not> has_legacy_grant state (lg_id g)) gs;
          su = sc_summary sc in
      sc_bounties sc = pb \<and> sc_grants sc = pg \<and>
      sc_migrated sc = map lb_id (filter (\<lambda>b. has_legacy_bounty state (lb_id b)) bs) @
        map lg_id (filter (\<lambda>g. has_legacy_grant state (lg_id g)) gs) \<and>
      entry_of (ps_liabilities su) = book_of lb_amount lg_total pb pg \<and>
      entry_of (ps_historical su) = book_of paid_part claimed_part pb pg \<and>
      entry_of (ps_outstanding su) = book_of owed_part (\<lambda>g. lg_total g - claimed_part g) pb pg \<and>
      (\<forall>a. unwrap_or (ps_total_outstanding su a) 0 = entry_of (ps_outstanding su) ''bounty'' a + entry_of (ps_outstanding su) ''grants'' a) \<and>
      (\<forall>a. unwrap_or (map_of (sc_obligations sc) a) 0 = book_of owed_part (\<lambda>_. 0) pb [] ''bounty'' a) \<and>
      fst ` set (sc_obligations sc) = unpaid_assets pb \<and>
      sorted_wrt (<) (map fst (sc_obligations sc)))"

lemma scanned_start: "scanned state [] [] (scan_start input)"
  by (simp add: scanned_def scan_start_def fun_eq_iff)

lemma scan_bounty_scanned:
  assumes inv: "scanned state bs [] sc" and run: "scan_bounty state b sc = Ok sc'"
  shows "scanned state (bs @ [b]) [] sc'"
proof (cases "has_legacy_bounty state (lb_id b)")
  case True
  with run have "sc' = sc\<lparr>sc_summary := (sc_summary sc)\<lparr>ps_already_migrated := Suc (ps_already_migrated (sc_summary sc)),
      ps_bounty_migrated := Suc (ps_bounty_migrated (sc_summary sc))\<rparr>, sc_migrated := sc_migrated sc @ [lb_id b]\<rparr>"
    by (simp add: scan_bounty_def Let_def)
  with inv True show ?thesis by (simp add: scanned_def Let_def)
next
  case pending: False
  show ?thesis
  proof (cases "lb_paid_offchain b")
    case True
    with run pending obtain l h where
      "credit_program ''bounty'' (lb_asset b) (lb_amount b) (ps_liabilities (sc_summary sc)) = Ok l"
      "credit_program ''bounty'' (lb_asset b) (lb_amount b) (ps_historical (sc_summary sc)) = Ok h" and
      sc': "sc' = sc\<lparr>sc_summary := (sc_summary sc)\<lparr>ps_bounty_pending := Suc (ps_bounty_pending (sc_summary sc)),
        ps_liabilities := l, ps_historical := h\<rparr>, sc_bounties := sc_bounties sc @ [b]\<rparr>"
      by (auto simp: scan_bounty_def Let_def)
    note e = this(1,2) [THEN credit_program_entry]
    from inv pending True show ?thesis
      by (simp add: sc' e scanned_def Let_def fun_eq_iff paid_part_def owed_part_def)
  next
    case False
    with run pending obtain l out t ob where
      "credit_program ''bounty'' (lb_asset b) (lb_amount b) (ps_liabilities (sc_summary sc)) = Ok l"
      "credit_program ''bounty'' (lb_asset b) (lb_amount b) (ps_outstanding (sc_summary sc)) = Ok out" and
      t: "credit (lb_asset b) (lb_amount b) (ps_total_outstanding (sc_summary sc)) = Ok t" and
      ob: "credit_ordered (lb_asset b) (lb_amount b) (sc_obligations sc) = Ok ob" and
      sc': "sc' = sc\<lparr>sc_summary := (sc_summary sc)\<lparr>ps_bounty_pending := Suc (ps_bounty_pending (sc_summary sc)),
        ps_liabilities := l, ps_outstanding := out, ps_total_outstanding := t\<rparr>, sc_obligations := ob,
        sc_bounties := sc_bounties sc @ [b]\<rparr>"
      by (auto simp: scan_bounty_def Let_def)
    note e = this(1,2) [THEN credit_program_entry]
    from inv pending False show ?thesis
      by (simp add: sc' e credit_Ok [OF t] credit_ordered_Ok [OF ob] scanned_def Let_def fun_eq_iff paid_part_def owed_part_def
          map_of_btree_insert btree_insert_keys btree_insert_sorted)
  qed
qed

lemma scan_grant_scanned:
  assumes inv: "scanned state bs gs sc" and run: "scan_grant state g sc = Ok sc'"
  shows "scanned state bs (gs @ [g]) sc'"
proof (cases "has_legacy_grant state (lg_id g)")
  case True
  with run have "sc' = sc\<lparr>sc_summary := (sc_summary sc)\<lparr>ps_already_migrated := Suc (ps_already_migrated (sc_summary sc)),
      ps_grant_migrated := Suc (ps_grant_migrated (sc_summary sc))\<rparr>, sc_migrated := sc_migrated sc @ [lg_id g]\<rparr>"
    by (simp add: scan_grant_def Let_def)
  with inv True show ?thesis by (simp add: scanned_def Let_def)
next
  case pending: False
  with run obtain claimed l h out t where
    c: "claimed_amount 0 (lg_milestones g) = Ok claimed" and
    "credit_program ''grants'' (lg_asset g) (lg_total g) (ps_liabilities (sc_summary sc)) = Ok l"
    "credit_program ''grants'' (lg_asset g) claimed (ps_historical (sc_summary sc)) = Ok h"
    "credit_program ''grants'' (lg_asset g) (lg_total g - claimed) (ps_outstanding (sc_summary sc)) = Ok out" and
    t: "credit (lg_asset g) (lg_total g - claimed) (ps_total_outstanding (sc_summary sc)) = Ok t" and
    sc': "sc' = sc\<lparr>sc_summary := (sc_summary sc)\<lparr>ps_grant_pending := Suc (ps_grant_pending (sc_summary sc)),
      ps_liabilities := l, ps_historical := h, ps_outstanding := out, ps_total_outstanding := t\<rparr>, sc_grants := sc_grants sc @ [g]\<rparr>"
    by (auto simp: scan_grant_def Let_def)
  note e = this(2-4) [THEN credit_program_entry]
  from claimed_amount_Ok [OF c] have c: "claimed = claimed_part g" by (simp add: claimed_part_def)
  from inv pending show ?thesis
    by (simp add: sc' e credit_Ok [OF t] c scanned_def Let_def fun_eq_iff)
qed

lemma for_each_scanned:
  assumes "for_each f xs s = Ok s'" and "I [] s"
    and "\<And>ys y s s'. I ys s \<Longrightarrow> f y s = Ok s' \<Longrightarrow> I (ys @ [y]) s'"
  shows "I xs s'"
proof -
  have "for_each f xs s = Ok s' \<Longrightarrow> I ys s \<Longrightarrow> I (ys @ xs) s'" for ys
  proof (induction xs arbitrary: ys s)
    case (Cons x xs)
    from Cons.prems(1) obtain t where t: "f x s = Ok t" "for_each f xs t = Ok s'" by auto
    from Cons.IH [OF t(2) assms(3) [OF Cons.prems(2) t(1)]] show ?case by simp
  qed simp
  from this [of "[]"] assms(1,2) show ?thesis by simp
qed

lemma scan_records_scanned:
  assumes "scan_records state input = Ok sc"
  shows "scanned state (li_bounties input) (li_grants input) sc"
proof -
  from assms obtain s where s: "for_each (scan_bounty state) (li_bounties input) (scan_start input) = Ok s"
    "for_each (scan_grant state) (li_grants input) s = Ok sc" by (auto simp: scan_records_def)
  have "scanned state (li_bounties input) [] s"
    by (rule for_each_scanned [OF s(1), where I = "\<lambda>bs. scanned state bs []"]) (rule scanned_start, rule scan_bounty_scanned)
  then show ?thesis
    by (rule for_each_scanned [OF s(2), where I = "scanned state (li_bounties input)"]) (rule scan_grant_scanned)
qed

subsection \<open>The actions\<close>

lemma number_steps_fields [simp]:
  "map ci_step (number_steps n as) = [n..<n + length as]"
  "map ci_program (number_steps n as) = map ci_program as"
  "map ci_legacy_id (number_steps n as) = map ci_legacy_id as"
  "map ci_args (number_steps n as) = map ci_args as"
  "length (number_steps n as) = length as"
  by (induction n as rule: number_steps.induct) (simp_all add: upt_conv_Cons del: upt_Suc)

lemma map_outcome_Ok: "map_outcome f xs = Ok ys \<Longrightarrow> list_all2 (\<lambda>x y. f x = Ok y) xs ys"
  by (induction xs arbitrary: ys) auto

text \<open>A field that every produced element takes from its source.\<close>

lemma list_all2_map_eq: "list_all2 (\<lambda>x y. F x = Ok y) xs ys \<Longrightarrow> (\<And>x y. F x = Ok y \<Longrightarrow> h y = k x) \<Longrightarrow> map h ys = map k xs"
  by (induction xs ys rule: list_all2_induct) auto

lemma bounty_invocation_Ok:
  "bounty_invocation number input b = Ok c \<Longrightarrow> ci_program c = ''bounty'' \<and> ci_legacy_id c = Some (lb_id b)"
  by (auto simp: bounty_invocation_def)

lemma grant_invocation_Ok:
  "grant_invocation number input g = Ok c \<Longrightarrow> ci_program c = ''grants'' \<and> ci_legacy_id c = Some (lg_id g)"
  by (auto simp: grant_invocation_def Let_def)

lemma funding_invocation_Ok:
  "funding_invocation number input a x = Ok c \<Longrightarrow> ci_program c = ''treasury'' \<and> ci_legacy_id c = None"
  by (auto simp: funding_invocation_def)

text \<open>The assets whose obligations exceed what the escrow holds.\<close>

definition short :: "state_provider \<Rightarrow> legacy_input \<Rightarrow> (string \<times> int) list \<Rightarrow> (string \<times> int) list" where
  "short state input t = filter (\<lambda>(a, n). escrow_held state input a < n) t"

definition funds :: "(int \<Rightarrow> json option) \<Rightarrow> state_provider \<Rightarrow> legacy_input \<Rightarrow> string \<times> int \<Rightarrow> (migration_error, string \<times> contract_invocation) outcome" where
  "funds number state input = (\<lambda>(a, n). and_then (funding_invocation number input a (n - escrow_held state input a)) (\<lambda>c. Ok (a, c)))"

lemma fund_escrow_Ok:
  assumes "fund_escrow number state input t (req, acts) = Ok (req', acts')" and "distinct (map fst t)"
  shows "(\<exists>new. acts' = acts @ new \<and> list_all2 (\<lambda>x y. funds number state input x = Ok y) (short state input t) new) \<and>
    req' = (\<lambda>a. case map_of (short state input t) a of Some n \<Rightarrow> Some (n - escrow_held state input a) | None \<Rightarrow> req a)"
  using assms
proof (induction t arbitrary: req acts)
  case Nil
  then show ?case by (simp add: short_def)
next
  case (Cons x t)
  obtain a n where x: "x = (a, n)" by (cases x)
  show ?case
  proof (cases "escrow_held state input a < n")
    case True
    with Cons.prems(1) x obtain c where c: "funding_invocation number input a (n - escrow_held state input a) = Ok c"
      "fund_escrow number state input t (req(a \<mapsto> n - escrow_held state input a), acts @ [(a, c)]) = Ok (req', acts')"
      by auto
    from Cons.prems(2) have d: "distinct (map fst t)" by simp
    have out: "map_of (short state input t) a = None"
      using Cons.prems(2) x by (auto simp: map_of_eq_None_iff short_def)
    have s: "short state input (x # t) = (a, n) # short state input t" using True x by (simp add: short_def)
    from Cons.IH [OF c(2) d] obtain new where new: "acts' = (acts @ [(a, c)]) @ new"
      "list_all2 (\<lambda>x y. funds number state input x = Ok y) (short state input t) new" and
      req: "req' = (\<lambda>b. case map_of (short state input t) b of Some n \<Rightarrow> Some (n - escrow_held state input b)
        | None \<Rightarrow> (req(a \<mapsto> n - escrow_held state input a)) b)" by blast
    have "list_all2 (\<lambda>x y. funds number state input x = Ok y) (short state input (x # t)) ((a, c) # new)"
      using new(2) c(1) by (simp add: s funds_def)
    moreover have "req' = (\<lambda>b. case map_of (short state input (x # t)) b of Some n \<Rightarrow> Some (n - escrow_held state input b) | None \<Rightarrow> req b)"
      using out by (auto simp: req s fun_eq_iff split: option.splits)
    ultimately show ?thesis using new(1) by (intro conjI exI [of _ "(a, c) # new"]) simp_all
  next
    case False
    then have "short state input (x # t) = short state input t" using x by (simp add: short_def)
    moreover from Cons.prems(1) False x have "fund_escrow number state input t (req, acts) = Ok (req', acts')" by simp
    ultimately show ?thesis using Cons.IH Cons.prems(2) by simp
  qed
qed

lemma sort_key_sorted: "sorted (map f xs) \<Longrightarrow> sort_key f xs = xs"
  by (induction xs) (auto simp: insort_is_Cons)

text \<open>The records that are not on chain yet, and what the bounty escrow still owes in an asset.\<close>

definition pending_bounties :: "state_provider \<Rightarrow> legacy_input \<Rightarrow> legacy_bounty list" where
  "pending_bounties state input = filter (\<lambda>b. \<not> has_legacy_bounty state (lb_id b)) (li_bounties input)"

definition pending_grants :: "state_provider \<Rightarrow> legacy_input \<Rightarrow> legacy_grant list" where
  "pending_grants state input = filter (\<lambda>g. \<not> has_legacy_grant state (lg_id g)) (li_grants input)"

definition bounty_owed :: "state_provider \<Rightarrow> legacy_input \<Rightarrow> string \<Rightarrow> int" where
  "bounty_owed state input asset = (\<Sum>b\<leftarrow>filter (\<lambda>b. lb_asset b = asset) (pending_bounties state input). owed_part b)"

text \<open>How a plan is put together.\<close>

lemma plan_parts:
  assumes "generate_migration_plan number input state config = Ok plan"
  obtains sc funding bs gs where "valid_input input" and "scanned state (li_bounties input) (li_grants input) sc" and
    "list_all2 (\<lambda>x y. funds number state input x = Ok y) (short state input (sc_obligations sc)) funding" and
    "map_outcome (bounty_invocation number input) (sort_key lb_id (pending_bounties state input)) = Ok bs" and
    "map_outcome (grant_invocation number input) (sort_key lg_id (pending_grants state input)) = Ok gs" and
    "mg_actions plan = number_steps 1 (map snd funding @ bs @ gs)" and
    "ps_required_funding (mg_summary plan) =
       (\<lambda>a. map_option (\<lambda>n. n - escrow_held state input a) (map_of (short state input (sc_obligations sc)) a))" and
    "mg_summary plan = (sc_summary sc)\<lparr>ps_required_funding := ps_required_funding (mg_summary plan),
       ps_planned_actions := length (mg_actions plan)\<rparr>" and
    "mg_already_migrated plan = sc_migrated sc" and
    "tb_operations (mg_timelock_proposal plan) =
       map (timelock_operation_of (gc_current_timestamp config + gc_min_delay config)) (mg_actions plan)"
proof -
  from assms obtain sc required funding bs gs where p: "validate_input input = Ok ()" "scan_records state input = Ok sc"
    "fund_escrow number state input (sc_obligations sc) ((\<lambda>_. None), []) = Ok (required, funding)"
    "map_outcome (bounty_invocation number input) (sort_key lb_id (sc_bounties sc)) = Ok bs"
    "map_outcome (grant_invocation number input) (sort_key lg_id (sc_grants sc)) = Ok gs" and
    plan: "mg_actions plan = number_steps 1 (map snd (sort_key fst funding) @ bs @ gs)"
    "mg_summary plan = (sc_summary sc)\<lparr>ps_required_funding := required, ps_planned_actions := length (mg_actions plan)\<rparr>"
    "mg_already_migrated plan = sc_migrated sc"
    "tb_operations (mg_timelock_proposal plan) =
       map (timelock_operation_of (gc_current_timestamp config + gc_min_delay config)) (mg_actions plan)"
    by (auto simp: generate_migration_plan_def Let_def)
  from p(1) have valid: "valid_input input" by (simp add: validate_input_iff)
  note sc = scan_records_scanned [OF p(2)]
  then have keys: "sorted_wrt (<) (map fst (sc_obligations sc))" and
    pend: "sc_bounties sc = pending_bounties state input" "sc_grants sc = pending_grants state input"
    by (simp_all add: scanned_def Let_def pending_bounties_def pending_grants_def)
  from keys have "distinct (map fst (sc_obligations sc))" by (simp add: strict_sorted_iff)
  from fund_escrow_Ok [OF p(3) this] have
    funding: "list_all2 (\<lambda>x y. funds number state input x = Ok y) (short state input (sc_obligations sc)) funding" and
    req: "required = (\<lambda>a. map_option (\<lambda>n. n - escrow_held state input a) (map_of (short state input (sc_obligations sc)) a))"
    by (auto simp: fun_eq_iff split: option.splits)
  have "map fst funding = map fst (short state input (sc_obligations sc))"
    by (rule list_all2_map_eq [OF funding]) (auto simp: funds_def)
  moreover have "sorted (map fst (short state input (sc_obligations sc)))"
    using keys unfolding short_def by (intro sorted_filter) (simp add: strict_sorted_iff)
  ultimately have "sort_key fst funding = funding" by (intro sort_key_sorted) simp
  with plan(1) have "mg_actions plan = number_steps 1 (map snd funding @ bs @ gs)" by simp
  moreover have "ps_required_funding (mg_summary plan) = required" using plan(2) by simp
  ultimately show ?thesis using that [OF valid sc funding] p(4,5) plan req pend by simp
qed

lemma map_filter_map: "List.map_filter h xs = map the (filter (\<lambda>x. x \<noteq> None) (map h xs))"
  by (induction xs) (auto simp: List.map_filter_simps)

lemma some_of_some: "map the (filter (\<lambda>x. x \<noteq> None) (replicate n None @ map Some xs)) = xs"
  by (induction xs) simp_all

lemma dom_map_option: "dom (\<lambda>a. map_option (f a) (m a)) = dom m"
  by auto

text \<open>A plan is exact: its input is valid; its calls are numbered from one, first the treasury withdrawals (one for
each asset that needs funding), then the bounty imports, then the grant imports; the imports are those of exactly the
records that are not on chain yet, each kind in the order of its ids; and the timelock proposal carries the same calls
with the earliest time the delay allows.\<close>

theorem migration_plan_exact:
  assumes "generate_migration_plan number input state config = Ok plan"
  shows "valid_input input \<and>
    map ci_step (mg_actions plan) = [1..<Suc (length (mg_actions plan))] \<and>
    map ci_program (mg_actions plan) =
      replicate (card (dom (ps_required_funding (mg_summary plan)))) ''treasury'' @
      replicate (length (pending_bounties state input)) ''bounty'' @ replicate (length (pending_grants state input)) ''grants'' \<and>
    List.map_filter ci_legacy_id (mg_actions plan) =
      map lb_id (sort_key lb_id (pending_bounties state input)) @ map lg_id (sort_key lg_id (pending_grants state input)) \<and>
    tb_operations (mg_timelock_proposal plan) =
      map (timelock_operation_of (gc_current_timestamp config + gc_min_delay config)) (mg_actions plan)"
proof -
  from assms obtain sc funding bs gs where p: "valid_input input" "scanned state (li_bounties input) (li_grants input) sc"
    "list_all2 (\<lambda>x y. funds number state input x = Ok y) (short state input (sc_obligations sc)) funding"
    "map_outcome (bounty_invocation number input) (sort_key lb_id (pending_bounties state input)) = Ok bs"
    "map_outcome (grant_invocation number input) (sort_key lg_id (pending_grants state input)) = Ok gs" and
    acts: "mg_actions plan = number_steps 1 (map snd funding @ bs @ gs)" and
    req: "ps_required_funding (mg_summary plan) =
       (\<lambda>a. map_option (\<lambda>n. n - escrow_held state input a) (map_of (short state input (sc_obligations sc)) a))" and
    "mg_summary plan = (sc_summary sc)\<lparr>ps_required_funding := ps_required_funding (mg_summary plan),
       ps_planned_actions := length (mg_actions plan)\<rparr>" "mg_already_migrated plan = sc_migrated sc" and
    ops: "tb_operations (mg_timelock_proposal plan) =
       map (timelock_operation_of (gc_current_timestamp config + gc_min_delay config)) (mg_actions plan)" by (rule plan_parts)
  note b = map_outcome_Ok [OF p(4)] and g = map_outcome_Ok [OF p(5)]
  have "distinct (map fst (short state input (sc_obligations sc)))"
    using p(2) unfolding short_def by (intro distinct_map_filter) (simp add: scanned_def Let_def strict_sorted_iff)
  moreover have "dom (ps_required_funding (mg_summary plan)) = set (map fst (short state input (sc_obligations sc)))"
    by (simp add: req dom_map_option dom_map_of_conv_image_fst)
  ultimately have "card (dom (ps_required_funding (mg_summary plan))) = length (map fst (short state input (sc_obligations sc)))"
    using distinct_card [of "map fst (short state input (sc_obligations sc))"] by simp
  then have card: "card (dom (ps_required_funding (mg_summary plan))) = length funding"
    using list_all2_lengthD [OF p(3)] by simp
  have len: "length (short state input (sc_obligations sc)) = length funding" by (rule list_all2_lengthD [OF p(3)])
  have one: "ci_program (snd y) = ''treasury'' \<and> ci_legacy_id (snd y) = None" if "funds number state input x = Ok y" for x y
    using that by (cases x) (auto simp: funds_def dest: funding_invocation_Ok)
  have "map ci_program (map snd funding) = map (\<lambda>_. ''treasury'') (short state input (sc_obligations sc))"
    "map ci_legacy_id (map snd funding) = map (\<lambda>_. None) (short state input (sc_obligations sc))"
    unfolding map_map by (rule list_all2_map_eq [OF p(3)], simp add: one)+
  note fund = this [unfolded map_replicate_const len]
  have "map ci_program bs = map (\<lambda>_. ''bounty'') (sort_key lb_id (pending_bounties state input))"
    "map ci_program gs = map (\<lambda>_. ''grants'') (sort_key lg_id (pending_grants state input))"
    by (rule list_all2_map_eq [OF b], simp add: bounty_invocation_Ok) (rule list_all2_map_eq [OF g], simp add: grant_invocation_Ok)
  note prog = this [unfolded map_replicate_const length_sort]
  have "map ci_legacy_id bs = map (Some \<circ> lb_id) (sort_key lb_id (pending_bounties state input))"
    "map ci_legacy_id gs = map (Some \<circ> lg_id) (sort_key lg_id (pending_grants state input))"
    by (rule list_all2_map_eq [OF b], simp add: bounty_invocation_Ok) (rule list_all2_map_eq [OF g], simp add: grant_invocation_Ok)
  note ids = this [folded map_map]
  have "map ci_legacy_id (mg_actions plan) = replicate (length funding) None @
      map Some (map lb_id (sort_key lb_id (pending_bounties state input)) @ map lg_id (sort_key lg_id (pending_grants state input)))"
    by (simp add: acts fund ids del: map_map)
  then have "List.map_filter ci_legacy_id (mg_actions plan) =
      map lb_id (sort_key lb_id (pending_bounties state input)) @ map lg_id (sort_key lg_id (pending_grants state input))"
    by (simp only: map_filter_map some_of_some)
  then show ?thesis
    using p(1) ops card by (simp add: acts fund prog del: upt_Suc map_map)
qed

subsection \<open>Funding and books\<close>

lemma map_of_short:
  "distinct (map fst t) \<Longrightarrow> map_of (short state input t) a =
     (case map_of t a of Some n \<Rightarrow> if escrow_held state input a < n then Some n else None | None \<Rightarrow> None)"
proof (induction t)
  case (Cons x t)
  obtain b n where x: "x = (b, n)" by (cases x)
  have "map_of t b = None" using Cons.prems x by (simp add: map_of_eq_None_iff)
  then show ?case using Cons x by (auto simp: short_def split: option.splits)
qed (simp add: short_def)

lemma sum_list_ge: "\<forall>x\<in>set xs. 0 \<le> f x \<Longrightarrow> x \<in> set xs \<Longrightarrow> f x \<le> (\<Sum>x\<leftarrow>xs. f x)" for f :: "'a \<Rightarrow> int"
proof (induction xs)
  case (Cons y xs)
  have "0 \<le> (\<Sum>x\<leftarrow>xs. f x)" by (rule sum_list_nonneg) (use Cons.prems in auto)
  moreover have "0 \<le> f y" using Cons.prems(1) by simp
  ultimately show ?case using Cons by (cases "x = y") fastforce+
qed simp

lemma bounty_owed_positive:
  assumes "valid_input input" and "a \<in> unpaid_assets (pending_bounties state input)"
  shows "0 < bounty_owed state input a"
proof -
  from assms(2) obtain b where b: "b \<in> set (pending_bounties state input)" "\<not> lb_paid_offchain b" "lb_asset b = a"
    by (auto simp: unpaid_assets_def)
  have pos: "0 < lb_amount b" if "b \<in> set (pending_bounties state input)" for b
    using assms(1) that by (auto simp: valid_input_def pending_bounties_def)
  have "owed_part b \<le> bounty_owed state input a"
    unfolding bounty_owed_def by (rule sum_list_ge) (use b pos in \<open>auto simp: owed_part_def less_imp_le\<close>)
  with b pos [OF b(1)] show ?thesis by (simp add: owed_part_def)
qed

lemma number_steps_member: "c \<in> set as \<Longrightarrow> \<exists>k. c\<lparr>ci_step := k\<rparr> \<in> set (number_steps n as)"
  by (induction n as rule: number_steps.induct) auto

lemma list_all2_source: "list_all2 P xs ys \<Longrightarrow> x \<in> set xs \<Longrightarrow> \<exists>y\<in>set ys. P x y"
  by (induction xs ys rule: list_all2_induct) auto

text \<open>A treasury withdrawal of an amount of an asset, by the timelock, to the bounty escrow.\<close>

definition is_escrow_funding :: "(int \<Rightarrow> json option) \<Rightarrow> legacy_input \<Rightarrow> string \<Rightarrow> int \<Rightarrow> contract_invocation \<Rightarrow> bool" where
  "is_escrow_funding number input a x c \<longleftrightarrow> ci_function c = ''withdraw'' \<and> ci_target_address c = lc_treasury (li_contracts input) \<and>
     (\<exists>j. number x = Some j \<and>
        ci_args c = JObject [(''caller'', JString (lc_timelock (li_contracts input))), (''token'', JString (asset_address input a)),
          (''amount'', j), (''to'', JString (lc_bounty_escrow (li_contracts input)))])"

lemma is_escrow_funding_step [simp]: "is_escrow_funding number input a x (c\<lparr>ci_step := k\<rparr>) = is_escrow_funding number input a x c"
  by (simp add: is_escrow_funding_def)

lemma funding_invocation_is: "funding_invocation number input a x = Ok c \<Longrightarrow> is_escrow_funding number input a x c"
  by (auto simp: funding_invocation_def is_escrow_funding_def json_number_def split: option.splits)

text \<open>The treasury funding of a plan is exactly what the bounty escrow lacks: for each asset, the unpaid bounties not yet
on chain less what the escrow holds (the larger of the on-chain and the declared balance), and nothing where that is covered;
and each such amount is withdrawn by one call of the treasury, from the timelock, to the bounty escrow.\<close>

theorem escrow_funding_exact:
  assumes "generate_migration_plan number input state config = Ok plan"
  shows "ps_required_funding (mg_summary plan) a =
      (if 0 < bounty_owed state input a \<and> escrow_held state input a < bounty_owed state input a
       then Some (bounty_owed state input a - escrow_held state input a) else None) \<and>
    (\<forall>x. ps_required_funding (mg_summary plan) a = Some x \<longrightarrow>
      (\<exists>c\<in>set (mg_actions plan). is_escrow_funding number input a x c))"
proof -
  from assms obtain sc funding bs gs where p: "valid_input input" "scanned state (li_bounties input) (li_grants input) sc"
    "list_all2 (\<lambda>x y. funds number state input x = Ok y) (short state input (sc_obligations sc)) funding"
    "map_outcome (bounty_invocation number input) (sort_key lb_id (pending_bounties state input)) = Ok bs"
    "map_outcome (grant_invocation number input) (sort_key lg_id (pending_grants state input)) = Ok gs" and
    acts: "mg_actions plan = number_steps 1 (map snd funding @ bs @ gs)" and
    req: "ps_required_funding (mg_summary plan) =
       (\<lambda>a. map_option (\<lambda>n. n - escrow_held state input a) (map_of (short state input (sc_obligations sc)) a))" and
    "mg_summary plan = (sc_summary sc)\<lparr>ps_required_funding := ps_required_funding (mg_summary plan),
       ps_planned_actions := length (mg_actions plan)\<rparr>" "mg_already_migrated plan = sc_migrated sc" and
    "tb_operations (mg_timelock_proposal plan) =
       map (timelock_operation_of (gc_current_timestamp config + gc_min_delay config)) (mg_actions plan)" by (rule plan_parts)
  let ?t = "sc_obligations sc"
  from p(2) have keys: "distinct (map fst ?t)" "fst ` set ?t = unpaid_assets (pending_bounties state input)" and
    owed: "unwrap_or (map_of ?t a) 0 = bounty_owed state input a"
    by (auto simp: scanned_def Let_def strict_sorted_iff book_of_def bounty_owed_def pending_bounties_def)
  have "ps_required_funding (mg_summary plan) a =
      (if 0 < bounty_owed state input a \<and> escrow_held state input a < bounty_owed state input a
       then Some (bounty_owed state input a - escrow_held state input a) else None)"
  proof (cases "map_of ?t a")
    case None
    then show ?thesis using owed by (simp add: req map_of_short [OF keys(1)])
  next
    case (Some n)
    then have "a \<in> unpaid_assets (pending_bounties state input)" unfolding keys(2) [symmetric] by (force dest: map_of_SomeD)
    from bounty_owed_positive [OF p(1) this] owed Some show ?thesis by (simp add: req map_of_short [OF keys(1)])
  qed
  moreover have "\<exists>c\<in>set (mg_actions plan). is_escrow_funding number input a x c"
    if "ps_required_funding (mg_summary plan) a = Some x" for x
  proof -
    from that obtain n where n: "map_of (short state input ?t) a = Some n" "x = n - escrow_held state input a" by (auto simp: req)
    from list_all2_source [OF p(3) map_of_SomeD [OF n(1)]] obtain y where y: "y \<in> set funding" "funds number state input (a, n) = Ok y"
      by blast
    from y(2) n(2) obtain c where c: "y = (a, c)" "funding_invocation number input a x = Ok c" by (auto simp: funds_def)
    from y(1) c(1) have "c \<in> set (map snd funding @ bs @ gs)" by force
    from number_steps_member [OF this] obtain k where "c\<lparr>ci_step := k\<rparr> \<in> set (mg_actions plan)" by (auto simp: acts)
    with funding_invocation_is [OF c(2)] show ?thesis by (intro bexI [of _ "c\<lparr>ci_step := k\<rparr>"]) simp_all
  qed
  ultimately show ?thesis by blast
qed

text \<open>The books of the summary are those of the pending records, and they balance.\<close>

theorem migration_books_balance:
  assumes "generate_migration_plan number input state config = Ok plan"
  shows "entry_of (ps_liabilities (mg_summary plan)) = book_of lb_amount lg_total (pending_bounties state input) (pending_grants state input) \<and>
    entry_of (ps_liabilities (mg_summary plan)) p a =
      entry_of (ps_historical (mg_summary plan)) p a + entry_of (ps_outstanding (mg_summary plan)) p a \<and>
    unwrap_or (ps_total_outstanding (mg_summary plan) a) 0 =
      entry_of (ps_outstanding (mg_summary plan)) ''bounty'' a + entry_of (ps_outstanding (mg_summary plan)) ''grants'' a"
proof -
  from assms obtain sc funding bs gs where "valid_input input" and sc: "scanned state (li_bounties input) (li_grants input) sc" and
    "list_all2 (\<lambda>x y. funds number state input x = Ok y) (short state input (sc_obligations sc)) funding"
    "map_outcome (bounty_invocation number input) (sort_key lb_id (pending_bounties state input)) = Ok bs"
    "map_outcome (grant_invocation number input) (sort_key lg_id (pending_grants state input)) = Ok gs"
    "mg_actions plan = number_steps 1 (map snd funding @ bs @ gs)"
    "ps_required_funding (mg_summary plan) =
       (\<lambda>a. map_option (\<lambda>n. n - escrow_held state input a) (map_of (short state input (sc_obligations sc)) a))" and
    su: "mg_summary plan = (sc_summary sc)\<lparr>ps_required_funding := ps_required_funding (mg_summary plan),
       ps_planned_actions := length (mg_actions plan)\<rparr>" and "mg_already_migrated plan = sc_migrated sc" and
    "tb_operations (mg_timelock_proposal plan) =
       map (timelock_operation_of (gc_current_timestamp config + gc_min_delay config)) (mg_actions plan)" by (rule plan_parts)
  have fields: "ps_liabilities (mg_summary plan) = ps_liabilities (sc_summary sc)" "ps_historical (mg_summary plan) = ps_historical (sc_summary sc)"
    "ps_outstanding (mg_summary plan) = ps_outstanding (sc_summary sc)" "ps_total_outstanding (mg_summary plan) = ps_total_outstanding (sc_summary sc)"
    by (subst su, simp)+
  have split: "(\<lambda>b. paid_part b + owed_part b) = lb_amount" "(\<lambda>g. claimed_part g + (lg_total g - claimed_part g)) = lg_total"
    by (auto simp: fun_eq_iff paid_part_def owed_part_def)
  from sc show ?thesis
    by (simp add: fields scanned_def Let_def pending_bounties_def pending_grants_def book_of_add split)
qed

subsection \<open>Planning again\<close>

text \<open>The state once the imports of a plan have been executed.\<close>

definition state_after_plan :: "migration_plan \<Rightarrow> state_provider \<Rightarrow> state_provider" where
  "state_after_plan plan state = state
     \<lparr>has_legacy_bounty := (\<lambda>i. has_legacy_bounty state i \<or> (\<exists>c\<in>set (mg_actions plan). ci_program c = ''bounty'' \<and> ci_legacy_id c = Some i)),
      has_legacy_grant := (\<lambda>i. has_legacy_grant state i \<or> (\<exists>c\<in>set (mg_actions plan). ci_program c = ''grants'' \<and> ci_legacy_id c = Some i))\<rparr>"

lemma scan_migrated_bounties:
  "\<forall>b\<in>set bs. has_legacy_bounty state (lb_id b) \<Longrightarrow>
   \<exists>su. for_each (scan_bounty state) bs sc = Ok (sc\<lparr>sc_summary := su, sc_migrated := sc_migrated sc @ map lb_id bs\<rparr>)"
proof (induction bs arbitrary: sc)
  case Nil
  show ?case by (simp add: exI [of _ "sc_summary sc"])
next
  case (Cons b bs)
  then obtain su where "scan_bounty state b sc = Ok (sc\<lparr>sc_summary := su, sc_migrated := sc_migrated sc @ [lb_id b]\<rparr>)"
    by (simp add: scan_bounty_def Let_def)
  with Cons.IH [of "sc\<lparr>sc_summary := su, sc_migrated := sc_migrated sc @ [lb_id b]\<rparr>"] Cons.prems show ?case by simp
qed

lemma scan_migrated_grants:
  "\<forall>g\<in>set gs. has_legacy_grant state (lg_id g) \<Longrightarrow>
   \<exists>su. for_each (scan_grant state) gs sc = Ok (sc\<lparr>sc_summary := su, sc_migrated := sc_migrated sc @ map lg_id gs\<rparr>)"
proof (induction gs arbitrary: sc)
  case Nil
  show ?case by (simp add: exI [of _ "sc_summary sc"])
next
  case (Cons g gs)
  then obtain su where "scan_grant state g sc = Ok (sc\<lparr>sc_summary := su, sc_migrated := sc_migrated sc @ [lg_id g]\<rparr>)"
    by (simp add: scan_grant_def Let_def)
  with Cons.IH [of "sc\<lparr>sc_summary := su, sc_migrated := sc_migrated sc @ [lg_id g]\<rparr>"] Cons.prems show ?case by simp
qed

lemma nothing_pending:
  assumes "valid_input input" and "\<forall>b\<in>set (li_bounties input). has_legacy_bounty state (lb_id b)"
    and "\<forall>g\<in>set (li_grants input). has_legacy_grant state (lg_id g)"
    and "gc_current_timestamp config + gc_min_delay config \<le> u64_max"
  shows "\<exists>plan. generate_migration_plan number input state config = Ok plan \<and> mg_actions plan = [] \<and>
    mg_already_migrated plan = legacy_ids input"
proof -
  from scan_migrated_bounties [OF assms(2), of "scan_start input"] obtain su where
    b: "for_each (scan_bounty state) (li_bounties input) (scan_start input) =
      Ok ((scan_start input)\<lparr>sc_summary := su, sc_migrated := map lb_id (li_bounties input)\<rparr>)"
    by (auto simp: scan_start_def)
  from scan_migrated_grants [OF assms(3), of "(scan_start input)\<lparr>sc_summary := su, sc_migrated := map lb_id (li_bounties input)\<rparr>"]
  obtain su' where "scan_records state input = Ok ((scan_start input)\<lparr>sc_summary := su', sc_migrated := legacy_ids input\<rparr>)"
    by (auto simp: scan_records_def b legacy_ids_def)
  moreover have "validate_input input = Ok ()" using assms(1) by (simp add: validate_input_iff)
  ultimately show ?thesis using assms(4)
    by (simp add: generate_migration_plan_def scan_start_def Let_def u64_add_def)
qed

lemma planned_import:
  assumes "map_outcome F xs = Ok ys" and "x \<in> set xs" and "\<And>y. F x = Ok y \<Longrightarrow> ci_program y = prog \<and> ci_legacy_id y = Some i"
    and "set ys \<subseteq> set as"
  shows "\<exists>c\<in>set (number_steps n as). ci_program c = prog \<and> ci_legacy_id c = Some i"
proof -
  from list_all2_source [OF map_outcome_Ok [OF assms(1)] assms(2)] obtain y where y: "y \<in> set ys" "F x = Ok y" by blast
  with assms(4) have "y \<in> set as" by blast
  from number_steps_member [OF this] obtain k where "y\<lparr>ci_step := k\<rparr> \<in> set (number_steps n as)" by blast
  with assms(3) [OF y(2)] show ?thesis by (intro bexI [of _ "y\<lparr>ci_step := k\<rparr>"]) simp_all
qed

text \<open>C40. Planning is idempotent: once the imports of a plan are on chain, the same input and configuration give a plan that
does nothing and lists every record as already migrated.\<close>

theorem migration_idempotent:
  assumes "generate_migration_plan number input state config = Ok plan"
  shows "\<exists>again. generate_migration_plan number input (state_after_plan plan state) config = Ok again \<and> mg_actions again = [] \<and>
    mg_already_migrated again = legacy_ids input"
proof -
  from assms have eta: "gc_current_timestamp config + gc_min_delay config \<le> u64_max"
    by (auto simp: generate_migration_plan_def Let_def)
  from assms obtain sc funding bs gs where valid: "valid_input input" and "scanned state (li_bounties input) (li_grants input) sc" and
    "list_all2 (\<lambda>x y. funds number state input x = Ok y) (short state input (sc_obligations sc)) funding" and
    bs: "map_outcome (bounty_invocation number input) (sort_key lb_id (pending_bounties state input)) = Ok bs" and
    gs: "map_outcome (grant_invocation number input) (sort_key lg_id (pending_grants state input)) = Ok gs" and
    acts: "mg_actions plan = number_steps 1 (map snd funding @ bs @ gs)" and
    "ps_required_funding (mg_summary plan) =
       (\<lambda>a. map_option (\<lambda>n. n - escrow_held state input a) (map_of (short state input (sc_obligations sc)) a))"
    "mg_summary plan = (sc_summary sc)\<lparr>ps_required_funding := ps_required_funding (mg_summary plan),
       ps_planned_actions := length (mg_actions plan)\<rparr>" and "mg_already_migrated plan = sc_migrated sc" and
    "tb_operations (mg_timelock_proposal plan) =
       map (timelock_operation_of (gc_current_timestamp config + gc_min_delay config)) (mg_actions plan)" by (rule plan_parts)
  have "has_legacy_bounty (state_after_plan plan state) (lb_id b)" if "b \<in> set (li_bounties input)" for b
  proof (cases "has_legacy_bounty state (lb_id b)")
    case False
    with that have b: "b \<in> set (sort_key lb_id (pending_bounties state input))" by (simp add: pending_bounties_def)
    have "\<exists>c\<in>set (mg_actions plan). ci_program c = ''bounty'' \<and> ci_legacy_id c = Some (lb_id b)"
      unfolding acts by (rule planned_import [OF bs b]) (auto dest: bounty_invocation_Ok)
    then show ?thesis by (simp add: state_after_plan_def)
  qed (simp add: state_after_plan_def)
  moreover have "has_legacy_grant (state_after_plan plan state) (lg_id g)" if "g \<in> set (li_grants input)" for g
  proof (cases "has_legacy_grant state (lg_id g)")
    case False
    with that have g: "g \<in> set (sort_key lg_id (pending_grants state input))" by (simp add: pending_grants_def)
    have "\<exists>c\<in>set (mg_actions plan). ci_program c = ''grants'' \<and> ci_legacy_id c = Some (lg_id g)"
      unfolding acts by (rule planned_import [OF gs g]) (auto dest: grant_invocation_Ok)
    then show ?thesis by (simp add: state_after_plan_def)
  qed (simp add: state_after_plan_def)
  ultimately show ?thesis by (intro nothing_pending valid eta) blast+
qed

section \<open>A rehearsal\<close>

text \<open>One unpaid bounty of 70, a grant of 30 with one of its two milestones claimed, and 20 in the bounty escrow.\<close>

definition demo_number :: "int \<Rightarrow> json option" where "demo_number x = Some (JNumber x)"

definition demo_bounty :: legacy_bounty where
  "demo_bounty = \<lparr>lb_id = ''B1'', lb_researcher = ''R'', lb_amount = 70, lb_asset = ''USDC'',
     lb_report_hash = ''0x'' @ replicate 64 CHR ''a'', lb_paid_offchain = False, lb_description = None\<rparr>"

definition demo_grant :: legacy_grant where
  "demo_grant = \<lparr>lg_id = ''G1'', lg_recipient = ''T'', lg_asset = ''USDC'', lg_total = 30,
     lg_milestones = [\<lparr>lm_index = 0, lm_amount = 10, lm_confirmed = True, lm_claimed = True, lm_title = None\<rparr>,
       \<lparr>lm_index = 1, lm_amount = 20, lm_confirmed = True, lm_claimed = False, lm_title = None\<rparr>], lg_description = None\<rparr>"

definition demo_input :: legacy_input where
  "demo_input = \<lparr>li_schema_version = ''1.0.0'',
     li_metadata = \<lparr>md_description = None, md_export_timestamp = None, md_exported_by = None\<rparr>,
     li_assets = [\<lparr>la_symbol = ''USDC'', la_address = ''CU'', la_decimals = 7\<rparr>],
     li_contracts = \<lparr>lc_timelock = ''TL'', lc_governance = ''GV'', lc_treasury = ''TR'', lc_bounty_escrow = ''BE'', lc_grants = ''GR''\<rparr>,
     li_treasury = \<lparr>lt_address = ''TR'', lt_balances = (\<lambda>_. None)\<rparr>, li_escrow_balances = (\<lambda>_. None),
     li_bounties = [demo_bounty], li_grants = [demo_grant]\<rparr>"

definition demo_state :: state_provider where
  "demo_state = memory_state (with_escrow_balance ''bounty_escrow'' ''USDC'' 20 memory_provider_new)"

lemma demo_hash: "trim_start_0x (''0x'' @ replicate 64 CHR ''a'') = replicate 64 CHR ''a''"
  by (simp add: numeral_eq_Suc)

lemma demo_valid: "valid_input demo_input"
proof -
  have "list_all is_hex (replicate 64 CHR ''a'')" by (simp add: list_all_iff is_hex_def ch_def)
  then show ?thesis
    using demo_hash
    by (simp add: valid_input_def demo_input_def demo_bounty_def demo_grant_def CURRENT_SCHEMA_VERSION_def legacy_ids_def valid_hash_def
        valid_schedule_def trim_def is_space_def ch_def i128_max_def)
qed

lemma demo_state_fields:
  "has_legacy_bounty demo_state i \<longleftrightarrow> False" "has_legacy_grant demo_state i \<longleftrightarrow> False"
  "get_escrow_balance demo_state ''bounty_escrow'' ''USDC'' = 20"
  by (simp_all add: demo_state_def memory_state_def with_escrow_balance_def memory_provider_new_def)

lemma demo_planned: "\<exists>plan. generate_migration_plan demo_number demo_input demo_state generator_default = Ok plan"
proof -
  have valid: "validate_input demo_input = Ok ()" using demo_valid by (simp add: validate_input_iff)
  show ?thesis
    by (simp add: generate_migration_plan_def valid scan_records_def)
      (simp add: demo_input_def scan_start_def scan_bounty_def scan_grant_def demo_state_fields demo_bounty_def demo_grant_def Let_def
        credit_program_def credit_def credit_ordered_def i128_add_def i128_sub_def i128_checked_def int_width_defs i128_min_def
        escrow_held_def funding_invocation_def bounty_invocation_def grant_invocation_def json_number_def demo_number_def
        u64_add_def generator_default_def
        del: and_then_Ok_iff i128_checked_iff i128_arith_iff u64_arith_iff)
qed

lemma demo_pending: "pending_bounties demo_state demo_input = [demo_bounty]" "pending_grants demo_state demo_input = [demo_grant]"
  by (simp_all add: pending_bounties_def pending_grants_def demo_state_fields) (simp_all add: demo_input_def)

lemma demo_owed: "bounty_owed demo_state demo_input ''USDC'' = 70" "escrow_held demo_state demo_input ''USDC'' = 20"
  by (simp add: bounty_owed_def demo_pending, simp add: owed_part_def demo_bounty_def)
    (simp add: escrow_held_def demo_state_fields demo_input_def)

theorem migration_plan_exact_witness:
  "\<exists>plan. generate_migration_plan demo_number demo_input demo_state generator_default = Ok plan \<and>
     List.map_filter ci_legacy_id (mg_actions plan) = [''B1'', ''G1'']"
proof -
  from demo_planned obtain plan where plan: "generate_migration_plan demo_number demo_input demo_state generator_default = Ok plan" ..
  from migration_plan_exact [OF this] have "List.map_filter ci_legacy_id (mg_actions plan) = [''B1'', ''G1'']"
    by (simp add: demo_pending demo_bounty_def demo_grant_def)
  with plan show ?thesis by blast
qed

theorem escrow_funding_exact_witness:
  "\<exists>plan. generate_migration_plan demo_number demo_input demo_state generator_default = Ok plan \<and>
     ps_required_funding (mg_summary plan) ''USDC'' = Some 50"
proof -
  from demo_planned obtain plan where plan: "generate_migration_plan demo_number demo_input demo_state generator_default = Ok plan" ..
  from escrow_funding_exact [OF this, of "''USDC''"] have "ps_required_funding (mg_summary plan) ''USDC'' = Some 50"
    by (simp add: demo_owed)
  with plan show ?thesis by blast
qed

theorem migration_idempotent_witness:
  "\<exists>plan again. generate_migration_plan demo_number demo_input demo_state generator_default = Ok plan \<and>
     generate_migration_plan demo_number demo_input (state_after_plan plan demo_state) generator_default = Ok again \<and>
     mg_actions again = [] \<and> mg_already_migrated again = [''B1'', ''G1'']"
proof -
  from demo_planned obtain plan where plan: "generate_migration_plan demo_number demo_input demo_state generator_default = Ok plan" ..
  have "legacy_ids demo_input = [''B1'', ''G1'']" by (simp add: legacy_ids_def demo_input_def demo_bounty_def demo_grant_def)
  with plan migration_idempotent [OF plan] show ?thesis by auto
qed

section \<open>What the generator does not look at\<close>

text \<open>The treasury balance is never read: a plan may withdraw more than the treasury holds.\<close>

lemma fund_escrow_treasury:
  "fund_escrow number (state\<lparr>get_treasury_balance := f\<rparr>) input t acc = fund_escrow number state input t acc"
proof (induction t arbitrary: acc)
  case (Cons x t)
  have "escrow_held (state\<lparr>get_treasury_balance := f\<rparr>) input a = escrow_held state input a" for a by (simp add: escrow_held_def)
  with Cons show ?case by (cases x; cases acc) simp
qed simp

theorem treasury_balance_ignored:
  "generate_migration_plan number input (state\<lparr>get_treasury_balance := f\<rparr>) config = generate_migration_plan number input state config"
proof -
  have "scan_bounty (state\<lparr>get_treasury_balance := f\<rparr>) = scan_bounty state" "scan_grant (state\<lparr>get_treasury_balance := f\<rparr>) = scan_grant state"
    by (simp_all add: fun_eq_iff scan_bounty_def scan_grant_def)
  then show ?thesis by (simp add: generate_migration_plan_def scan_records_def fund_escrow_treasury)
qed

text \<open>Validation compares trimmed ids, the state is asked for the id as written: a record that is on chain is imported
again when its id comes with a space.\<close>

theorem padded_id_imported_again:
  "valid_input (demo_input\<lparr>li_bounties := [demo_bounty\<lparr>lb_id := '' B1''\<rparr>]\<rparr>) \<and>
   pending_bounties (memory_state (mark_bounty_migrated ''B1'' memory_provider_new)) (demo_input\<lparr>li_bounties := [demo_bounty\<lparr>lb_id := '' B1''\<rparr>]\<rparr>) =
     [demo_bounty\<lparr>lb_id := '' B1''\<rparr>]"
proof
  show "valid_input (demo_input\<lparr>li_bounties := [demo_bounty\<lparr>lb_id := '' B1''\<rparr>]\<rparr>)"
    using demo_valid by (simp add: valid_input_def legacy_ids_def demo_input_def demo_bounty_def demo_grant_def trim_def is_space_def ch_def)
  show "pending_bounties (memory_state (mark_bounty_migrated ''B1'' memory_provider_new)) (demo_input\<lparr>li_bounties := [demo_bounty\<lparr>lb_id := '' B1''\<rparr>]\<rparr>) =
     [demo_bounty\<lparr>lb_id := '' B1''\<rparr>]"
    by (simp add: pending_bounties_def memory_state_def mark_bounty_migrated_def memory_provider_new_def)
qed

end
