(* ===== verification/Budgets.thy ===== *)
theory Budgets
  imports Operator "HOL-Library.AList" "HOL-Library.Product_Lexorder" "HOL-Library.List_Lexorder" "HOL-Library.Char_ord"
begin

text \<open>
  The resource-budget check of the \<open>xtask\<close> tool (\<open>budget_check\<close> in \<open>src/xtask/src/main.rs\<close>): the
  measurements printed by the budget tests are collected, and compared with the ceilings of the budget file or
  written into it with some headroom.

  Running the tests is the parameter \<open>cargo\<close>, the lines a crate prints or \<open>None\<close>; reading and writing the file and
  the table of the report are left out.  JSON is that of \<open>Operator\<close>; the order of the keys of an object does not matter.

  The lemmas: a ceiling is the least multiple of the step that is not below the value with its headroom; a check
  right after an update finds every measurement within its budget.
\<close>

section \<open>Measurements\<close>

definition BUDGET_CRATES :: "string list" where
  "BUDGET_CRATES = [''refract-backstop'', ''refract-bounty'', ''refract-grants'', ''refract-treasury'']"

datatype budget_failure = BgTestsFailed string | BgNoMeasurements | BgContractsNotObject | BgOverBudget nat

type_synonym measurements = "(string \<times> string, nat \<times> nat) btree"

fun split_whitespace :: "string \<Rightarrow> string \<Rightarrow> string list" where
  "split_whitespace cur [] = (if cur = [] then [] else [rev cur])"
| "split_whitespace cur (c # s) =
     (if is_space c then (if cur = [] then split_whitespace [] s else rev cur # split_whitespace [] s)
      else split_whitespace (c # cur) s)"

text \<open>What follows the first \<open>BUDGET\<close> marker of a line.\<close>

fun after_marker :: "string \<Rightarrow> string option" where
  "after_marker [] = None"
| "after_marker (c # s) =
     (case strip_prefix ''BUDGET '' (c # s) of Some rest \<Rightarrow> Some rest | None \<Rightarrow> after_marker s)"

definition measurement_line :: "string \<Rightarrow> ((string \<times> string) \<times> nat \<times> nat) option" where
  "measurement_line line =
     (case after_marker line of
        None \<Rightarrow> None
      | Some rest \<Rightarrow>
          (case split_whitespace [] rest of
             contract # ep # cpu # mem # _ \<Rightarrow>
               (case (parse_unsigned u64_max cpu, parse_unsigned u64_max mem) of
                  (Some cpu, Some mem) \<Rightarrow> Some ((contract, ep), cpu, mem)
                | _ \<Rightarrow> None)
           | _ \<Rightarrow> None))"

fun collect_lines :: "string list \<Rightarrow> measurements \<Rightarrow> measurements" where
  "collect_lines [] out = out"
| "collect_lines (l # ls) out =
     (case measurement_line l of Some (k, v) \<Rightarrow> collect_lines ls (btree_insert k v out) | None \<Rightarrow> collect_lines ls out)"

fun measure_crates :: "(string \<Rightarrow> string list option) \<Rightarrow> string list \<Rightarrow> measurements \<Rightarrow> (budget_failure, measurements) outcome" where
  "measure_crates cargo [] out = Ok out"
| "measure_crates cargo (krate # crates) out =
     and_then (ok_or (cargo krate) (BgTestsFailed krate)) (\<lambda>ls. measure_crates cargo crates (collect_lines ls out))"

definition measure_all :: "(string \<Rightarrow> string list option) \<Rightarrow> (budget_failure, measurements) outcome" where
  "measure_all cargo = measure_crates cargo BUDGET_CRATES []"

section \<open>Ceilings\<close>

definition u64_mul :: "nat \<Rightarrow> nat \<Rightarrow> ('e, nat) outcome" where
  "u64_mul a b = (if a * b \<le> u64_max then Ok (a * b) else Trap)"

definition div_ceil :: "nat \<Rightarrow> nat \<Rightarrow> nat" where
  "div_ceil a b = (if a mod b = 0 then a div b else a div b + 1)"

definition ceiling_of :: "nat \<Rightarrow> nat \<Rightarrow> nat \<Rightarrow> (budget_failure, nat) outcome" where
  "ceiling_of amount headroom step =
     and_then (u64_add 100 headroom) (\<lambda>f. and_then (u64_mul amount f) (\<lambda>v. u64_mul (div_ceil (v div 100) step) step))"

lemma div_ceil_bounds:
  assumes "0 < step"
  shows "r \<le> div_ceil r step * step" and "div_ceil r step * step < r + step"
proof -
  define q where "q = r div step"
  define t where "t = r mod step"
  have r: "r = q * step + t" unfolding q_def t_def by simp
  have "t < step" using assms by (simp add: t_def)
  then have "r \<le> div_ceil r step * step \<and> div_ceil r step * step < r + step"
    unfolding div_ceil_def q_def [symmetric] t_def [symmetric] by (cases "t = 0") (use r in \<open>auto simp: algebra_simps\<close>)
  then show "r \<le> div_ceil r step * step" "div_ceil r step * step < r + step" by auto
qed

theorem ceiling_exact:
  assumes "ceiling_of amount headroom step = Ok c" and "0 < step"
  shows "step dvd c \<and> amount * (100 + headroom) div 100 \<le> c \<and> c < amount * (100 + headroom) div 100 + step"
  using assms div_ceil_bounds [OF assms(2)] by (auto simp: ceiling_of_def u64_mul_def split: if_splits)

lemma ceiling_ge: "ceiling_of amount headroom step = Ok c \<Longrightarrow> 0 < step \<Longrightarrow> amount \<le> c \<and> c \<le> u64_max"
proof -
  assume c: "ceiling_of amount headroom step = Ok c" and s: "0 < step"
  have "amount * 100 \<le> amount * (100 + headroom)" by simp
  then have "amount \<le> amount * (100 + headroom) div 100" using div_le_mono [of "amount * 100" _ 100] by fastforce
  moreover from c s have "amount * (100 + headroom) div 100 \<le> c" "c \<le> u64_max"
    using div_ceil_bounds(1) [OF s] by (auto simp: ceiling_of_def u64_mul_def split: if_splits)
  ultimately show ?thesis by linarith
qed

section \<open>The budget file\<close>

fun json_u64 :: "json \<Rightarrow> nat option" where
  "json_u64 (JNumber n) = (if 0 \<le> n \<and> n \<le> int u64_max then Some (nat n) else None)"
| "json_u64 _ = None"

text \<open>\<open>Value::get\<close>, and \<open>v[key] = x\<close>, which makes an object of \<open>null\<close> and panics on anything else.\<close>

fun json_lookup :: "json \<Rightarrow> string \<Rightarrow> json option" where
  "json_lookup (JObject kvs) k = map_of kvs k"
| "json_lookup _ k = None"

fun json_put :: "string \<Rightarrow> json \<Rightarrow> json \<Rightarrow> (budget_failure, json) outcome" where
  "json_put k v (JObject kvs) = Ok (JObject (AList.update k v kvs))"
| "json_put k v JNull = Ok (JObject [(k, v)])"
| "json_put k v _ = Trap"

definition update_entry :: "nat \<Rightarrow> nat \<Rightarrow> nat \<Rightarrow> json \<Rightarrow> (budget_failure, json) outcome" where
  "update_entry headroom cpu mem entry =
     and_then (ceiling_of cpu headroom 1000) (\<lambda>c.
     and_then (json_put ''cpu_insns'' (JNumber (int c)) entry) (\<lambda>entry.
     and_then (ceiling_of mem headroom 1024) (\<lambda>m.
     json_put ''mem_bytes'' (JNumber (int m)) entry)))"

definition update_measured ::
  "nat \<Rightarrow> (string \<times> string) \<times> nat \<times> nat \<Rightarrow> (string \<times> json) list \<Rightarrow> (budget_failure, (string \<times> json) list) outcome" where
  "update_measured headroom = (\<lambda>((contract, ep), cpu, mem) contracts.
     (case unwrap_or (map_of contracts contract) (JObject []) of
        JObject entries \<Rightarrow>
          and_then (update_entry headroom cpu mem
              (unwrap_or (map_of entries ep) (JObject [(''rationale'', JString ''TODO: explain this ceiling'')]))) (\<lambda>entry.
          Ok (AList.update contract (JObject (AList.update ep entry entries)) contracts))
      | _ \<Rightarrow> Trap))"

fun update_contracts :: "nat \<Rightarrow> measurements \<Rightarrow> (string \<times> json) list \<Rightarrow> (budget_failure, (string \<times> json) list) outcome" where
  "update_contracts headroom [] contracts = Ok contracts"
| "update_contracts headroom (x # xs) contracts =
     and_then (update_measured headroom x contracts) (update_contracts headroom xs)"

definition within_budget :: "(string \<times> json) list \<Rightarrow> (string \<times> string) \<times> nat \<times> nat \<Rightarrow> bool" where
  "within_budget contracts = (\<lambda>((contract, ep), cpu, mem).
     (case map_of contracts contract of
        None \<Rightarrow> False
      | Some c \<Rightarrow>
          (case json_lookup c ep of
             None \<Rightarrow> False
           | Some b \<Rightarrow> cpu \<le> unwrap_or (json_u64 (json_get b ''cpu_insns'')) 0 \<and> mem \<le> unwrap_or (json_u64 (json_get b ''mem_bytes'')) 0)))"

text \<open>Budgets with no measurement.\<close>

definition unmeasured :: "(string \<times> json) list \<Rightarrow> measurements \<Rightarrow> (string \<times> string) list" where
  "unmeasured contracts measured =
     filter (\<lambda>k. map_of measured k = None)
       (concat (map (\<lambda>(contract, entries). case entries of JObject kvs \<Rightarrow> map (\<lambda>(ep, _). (contract, ep)) kvs | _ \<Rightarrow> []) contracts))"

definition compare_budgets :: "json \<Rightarrow> measurements \<Rightarrow> nat" where
  "compare_budgets doc measured =
     (let contracts = (case json_get doc ''contracts'' of JObject kvs \<Rightarrow> kvs | _ \<Rightarrow> []) in
      length (filter (\<lambda>x. \<not> within_budget contracts x) measured) + length (unmeasured contracts measured))"

definition budget_check :: "(string \<Rightarrow> string list option) \<Rightarrow> bool \<Rightarrow> json \<Rightarrow> (budget_failure, json option) outcome" where
  "budget_check cargo update doc =
     (let headroom = unwrap_or (json_u64 (json_get doc ''headroom_pct'')) 20 in
     and_then (measure_all cargo) (\<lambda>measured.
     if measured = [] then Err BgNoMeasurements
     else if update then
       (case json_get doc ''contracts'' of
          JObject contracts \<Rightarrow>
            and_then (update_contracts headroom measured contracts) (\<lambda>contracts.
            and_then (json_put ''contracts'' (JObject contracts) doc) (\<lambda>doc. Ok (Some doc)))
        | _ \<Rightarrow> Err BgContractsNotObject)
     else if 0 < compare_budgets doc measured then Err (BgOverBudget (compare_budgets doc measured))
     else Ok None))"

section \<open>A check after an update\<close>

text \<open>The entry of a contract's entry point.\<close>

definition entry_at :: "(string \<times> json) list \<Rightarrow> string \<times> string \<Rightarrow> json option" where
  "entry_at contracts = (\<lambda>(contract, ep). case map_of contracts contract of Some c \<Rightarrow> json_lookup c ep | None \<Rightarrow> None)"

lemma within_budget_entry:
  "within_budget contracts (k, cpu, mem) \<longleftrightarrow> (\<exists>b. entry_at contracts k = Some b \<and>
     cpu \<le> unwrap_or (json_u64 (json_get b ''cpu_insns'')) 0 \<and> mem \<le> unwrap_or (json_u64 (json_get b ''mem_bytes'')) 0)"
  by (cases k) (auto simp: within_budget_def entry_at_def split: option.splits)

lemma json_put_get: "json_put k v j = Ok j' \<Longrightarrow> json_get j' l = (if l = k then v else json_get j l)"
  by (cases j) (auto simp: update_conv' split: option.splits)

lemma update_entry_within:
  assumes "update_entry headroom cpu mem entry = Ok b"
  shows "cpu \<le> unwrap_or (json_u64 (json_get b ''cpu_insns'')) 0 \<and> mem \<le> unwrap_or (json_u64 (json_get b ''mem_bytes'')) 0"
proof -
  from assms obtain c m e where c: "ceiling_of cpu headroom 1000 = Ok c" and m: "ceiling_of mem headroom 1024 = Ok m" and
    e: "json_put ''cpu_insns'' (JNumber (int c)) entry = Ok e" "json_put ''mem_bytes'' (JNumber (int m)) e = Ok b"
    by (auto simp: update_entry_def)
  from ceiling_ge [OF c] ceiling_ge [OF m] have "cpu \<le> c" "c \<le> u64_max" "mem \<le> m" "m \<le> u64_max" by simp_all
  then show ?thesis by (simp add: json_put_get [OF e(1)] json_put_get [OF e(2)])
qed

lemma update_measured_entry:
  assumes "update_measured headroom (k, cpu, mem) contracts = Ok contracts'"
  shows "\<exists>entry b. update_entry headroom cpu mem entry = Ok b \<and> entry_at contracts' = (entry_at contracts)(k \<mapsto> b)"
proof -
  obtain contract ep where k: "k = (contract, ep)" by (cases k)
  from assms k obtain entries entry where e: "unwrap_or (map_of contracts contract) (JObject []) = JObject entries"
    "update_entry headroom cpu mem (unwrap_or (map_of entries ep) (JObject [(''rationale'', JString ''TODO: explain this ceiling'')])) = Ok entry"
    "contracts' = AList.update contract (JObject (AList.update ep entry entries)) contracts"
    by (auto simp: update_measured_def split: json.splits)
  have "entry_at contracts' = (entry_at contracts)(k \<mapsto> entry)"
  proof
    fix x :: "string \<times> string"
    obtain c p where x: "x = (c, p)" by (cases x)
    show "entry_at contracts' x = ((entry_at contracts)(k \<mapsto> entry)) x"
      using e(1) by (cases "map_of contracts contract") (auto simp: x k e(3) entry_at_def update_conv')
  qed
  with e(2) show ?thesis by blast
qed

lemma update_contracts_within:
  "update_contracts headroom measured contracts = Ok contracts' \<Longrightarrow> distinct (map fst measured) \<Longrightarrow>
   \<forall>x\<in>set measured. within_budget contracts' x"
proof -
  have keep: "update_contracts headroom xs cs = Ok cs' \<Longrightarrow> k \<notin> fst ` set xs \<Longrightarrow> entry_at cs' k = entry_at cs k" for xs cs cs' k
  proof (induction xs arbitrary: cs)
    case (Cons x xs)
    obtain l cpu mem where x: "x = (l, cpu, mem)" by (cases x)
    from Cons.prems(1) obtain cs1 where s: "update_measured headroom x cs = Ok cs1" "update_contracts headroom xs cs1 = Ok cs'" by auto
    from update_measured_entry [OF s(1) [unfolded x]] Cons.prems(2) have "entry_at cs1 k = entry_at cs k" by (auto simp: x)
    with Cons.IH [OF s(2)] Cons.prems(2) show ?case by simp
  qed simp
  show "update_contracts headroom measured contracts = Ok contracts' \<Longrightarrow> distinct (map fst measured) \<Longrightarrow>
    \<forall>x\<in>set measured. within_budget contracts' x"
  proof (induction measured arbitrary: contracts)
    case (Cons x xs)
    obtain k cpu mem where x: "x = (k, cpu, mem)" by (cases x)
    from Cons.prems(1) obtain cs1 where s: "update_measured headroom x contracts = Ok cs1" "update_contracts headroom xs cs1 = Ok contracts'" by auto
    from update_measured_entry [OF s(1) [unfolded x]] obtain e b where b: "update_entry headroom cpu mem e = Ok b" "entry_at cs1 k = Some b" by auto
    have "k \<notin> fst ` set xs" using Cons.prems(2) by (simp add: x)
    from keep [OF s(2) this] b have "within_budget contracts' x" by (simp add: x within_budget_entry update_entry_within)
    with Cons.IH [OF s(2)] Cons.prems(2) show ?case by simp
  qed simp
qed

lemma collect_lines_sorted: "sorted_wrt (<) (map fst out) \<Longrightarrow> sorted_wrt (<) (map fst (collect_lines ls out))"
  by (induction ls out rule: collect_lines.induct) (auto simp: btree_insert_sorted split: option.splits)

lemma measure_crates_sorted:
  "measure_crates cargo crates out = Ok m \<Longrightarrow> sorted_wrt (<) (map fst out) \<Longrightarrow> sorted_wrt (<) (map fst m)"
  by (induction cargo crates out rule: measure_crates.induct) (auto simp: collect_lines_sorted)

text \<open>An update settles the budgets: after \<open>budget-check --update\<close> every measurement is within the budget written for it, so
with the same measurements the check that follows counts only the budgets that no measurement covers.\<close>

theorem update_settles_budgets:
  assumes "budget_check cargo True doc = Ok (Some doc')" and "measure_all cargo = Ok measured"
  shows "\<exists>contracts. json_get doc' ''contracts'' = JObject contracts \<and> (\<forall>x\<in>set measured. within_budget contracts x) \<and>
    compare_budgets doc' measured = length (unmeasured contracts measured)"
proof -
  from assms obtain contracts contracts' where c: "update_contracts (unwrap_or (json_u64 (json_get doc ''headroom_pct'')) 20) measured contracts = Ok contracts'"
    "json_put ''contracts'' (JObject contracts') doc = Ok doc'"
    by (auto simp: budget_check_def Let_def split: json.splits if_splits)
  have "distinct (map fst measured)"
    using assms(2) measure_crates_sorted [of cargo BUDGET_CRATES "[]" measured] by (simp add: measure_all_def strict_sorted_iff)
  note within = update_contracts_within [OF c(1) this]
  have get: "json_get doc' ''contracts'' = JObject contracts'" by (simp add: json_put_get [OF c(2)])
  with within have "compare_budgets doc' measured = length (unmeasured contracts' measured)"
    by (simp add: compare_budgets_def filter_empty_conv)
  with get within show ?thesis by blast
qed

text \<open>One measured entry point that had no budget.\<close>

definition demo_cargo :: "string \<Rightarrow> string list option" where
  "demo_cargo krate = Some (if krate = ''refract-bounty'' then [''test ok BUDGET bounty fund 1500 2048 x''] else [''ok''])"

definition demo_budget_file :: json where
  "demo_budget_file = JObject [(''headroom_pct'', JNumber 20), (''contracts'', JObject [])]"

lemma demo_measured: "measure_all demo_cargo = Ok [((''bounty'', ''fund''), 1500, 2048)]"
  by (simp add: measure_all_def BUDGET_CRATES_def demo_cargo_def ok_or_def measurement_line_def strip_prefix_def is_space_def ch_def
      parse_unsigned_def is_digit_def digits_value_def int_width_defs Let_def unwrap_or_def
      del: and_then_Ok_iff and_then_Err_iff and_then_Trap_iff)

lemma demo_update: "\<exists>doc'. budget_check demo_cargo True demo_budget_file = Ok (Some doc')"
proof -
  have "u64_max = 18446744073709551615" by (simp add: u64_max_def)
  then show ?thesis
    by (simp add: budget_check_def demo_measured demo_budget_file_def update_measured_def update_entry_def ceiling_of_def
      u64_add_def u64_mul_def div_ceil_def Let_def
      del: and_then_Ok_iff and_then_Err_iff and_then_Trap_iff u64_arith_iff)
qed

theorem update_settles_budgets_witness:
  "\<exists>doc'. budget_check demo_cargo True demo_budget_file = Ok (Some doc') \<and>
     (\<exists>contracts. json_get doc' ''contracts'' = JObject contracts \<and> within_budget contracts ((''bounty'', ''fund''), 1500, 2048))"
proof -
  from demo_update obtain doc' where d: "budget_check demo_cargo True demo_budget_file = Ok (Some doc')" ..
  from update_settles_budgets [OF d demo_measured] d show ?thesis by auto
qed

end
