(* ===== verification/Pool_Spec.thy ===== *)
theory Pool_Spec
  imports Soroban
begin

text \<open>
  The bounded-proof harnesses of \<open>src/pool/src/formal_spec.rs\<close>: six functions of symbolic inputs that assume
  bounds, compute with \<open>i128\<close> and assert.  A harness is a function of those inputs: an assumption that fails ends it
  with \<open>Ok\<close>, a failed assertion or an arithmetic overflow is \<open>Trap\<close>, so a harness proves its claim when it is
  \<open>Ok ()\<close> for all inputs.

  Five of the six are proved here for every input, with no bound on the search; the sixth, the utilization bound
  (INV-3), is refuted: the rounded-down utilization of its second half can meet the limit while the exact one does not.
\<close>

section \<open>The harnesses\<close>

definition MAX_USDC :: int where "MAX_USDC = 1000000000000000000"
definition SPEC_BPS :: int where "SPEC_BPS = 10000"
definition SPEC_PRECISION :: int where "SPEC_PRECISION = 10000000"
definition SPEC_BOUND :: int where "SPEC_BOUND = 1000000000000000"

type_synonym harness = "(unit, unit) outcome"

definition kani_assume :: "bool \<Rightarrow> harness \<Rightarrow> harness" where
  "kani_assume c rest = (if c then rest else Ok ())"

definition kani_assert :: "bool \<Rightarrow> harness" where
  "kani_assert c = (if c then Ok () else Trap)"

definition prove_total_capital_non_negative :: "int \<Rightarrow> int \<Rightarrow> int \<Rightarrow> int \<Rightarrow> int \<Rightarrow> int \<Rightarrow> harness" where
  "prove_total_capital_non_negative coverage_amount base_rate duration_days risk_multiplier total_capital payout =
     kani_assume (0 \<le> coverage_amount \<and> coverage_amount \<le> MAX_USDC)
     (kani_assume (1 \<le> base_rate \<and> base_rate \<le> 500)
     (kani_assume (1 \<le> duration_days \<and> duration_days \<le> 365)
     (kani_assume (80 \<le> risk_multiplier \<and> risk_multiplier \<le> 300)
     (and_then (i128_mul coverage_amount base_rate) (\<lambda>v. and_then (i128_div v SPEC_BPS) (\<lambda>base.
      and_then (i128_mul duration_days SPEC_PRECISION) (\<lambda>v. and_then (i128_div v 365) (\<lambda>duration_factor.
      and_then (i128_mul base duration_factor) (\<lambda>v. and_then (i128_div v SPEC_PRECISION) (\<lambda>v.
      and_then (i128_mul v risk_multiplier) (\<lambda>v. and_then (i128_div v 100) (\<lambda>premium.
      and_then (kani_assert (0 \<le> premium)) (\<lambda>_.
      kani_assume (0 \<le> total_capital \<and> total_capital \<le> MAX_USDC)
      (kani_assume (0 \<le> payout \<and> payout \<le> total_capital)
      (and_then (i128_sub total_capital payout) (\<lambda>left. kani_assert (0 \<le> max left 0)))))))))))))))))"

definition prove_total_shares_non_negative :: "int \<Rightarrow> int \<Rightarrow> int \<Rightarrow> int \<Rightarrow> harness" where
  "prove_total_shares_non_negative amount total_capital total_shares shares_to_burn =
     kani_assume (0 \<le> amount \<and> amount \<le> MAX_USDC)
     (kani_assume (1 \<le> total_capital \<and> total_capital \<le> MAX_USDC)
     (kani_assume (1 \<le> total_shares \<and> total_shares \<le> MAX_USDC)
     (and_then (i128_mul amount total_shares) (\<lambda>v. and_then (i128_div v total_capital) (\<lambda>shares.
      and_then (kani_assert (0 \<le> shares)) (\<lambda>_.
      kani_assume (0 \<le> shares_to_burn \<and> shares_to_burn \<le> total_shares)
      (and_then (i128_sub total_shares shares_to_burn) (\<lambda>new_total_shares. kani_assert (0 \<le> new_total_shares)))))))))"

definition prove_coverage_utilization_bound :: "int \<Rightarrow> int \<Rightarrow> int \<Rightarrow> int \<Rightarrow> int \<Rightarrow> harness" where
  "prove_coverage_utilization_bound total_capital total_coverage coverage_amount max_utilization_bps usdc_out =
     kani_assume (1 \<le> total_capital \<and> total_capital \<le> MAX_USDC)
     (kani_assume (0 \<le> total_coverage \<and> total_coverage \<le> total_capital)
     (kani_assume (0 \<le> coverage_amount \<and> coverage_amount \<le> MAX_USDC)
     (kani_assume (1 \<le> max_utilization_bps \<and> max_utilization_bps \<le> 10000)
     (and_then (i128_add total_coverage coverage_amount) (\<lambda>new_coverage.
      and_then (i128_mul total_capital max_utilization_bps) (\<lambda>v. and_then (i128_div v SPEC_BPS) (\<lambda>max_coverage_capacity.
      and_then (if new_coverage \<le> max_coverage_capacity then
          and_then (i128_mul new_coverage SPEC_BPS) (\<lambda>l. and_then (i128_mul total_capital max_utilization_bps) (\<lambda>r. kani_assert (l \<le> r)))
        else Ok ()) (\<lambda>_.
      kani_assume (0 \<le> usdc_out \<and> usdc_out \<le> total_capital)
      (and_then (i128_sub total_capital usdc_out) (\<lambda>new_capital.
       if 0 < new_capital then
         and_then (i128_mul total_coverage SPEC_BPS) (\<lambda>v. and_then (i128_div v new_capital) (\<lambda>new_util.
         if new_util \<le> max_utilization_bps then
           and_then (i128_mul total_coverage SPEC_BPS) (\<lambda>l. and_then (i128_mul new_capital max_utilization_bps) (\<lambda>r. kani_assert (l \<le> r)))
         else Ok ()))
       else Ok ()))))))))))"

definition prove_no_value_minted :: "int \<Rightarrow> int \<Rightarrow> int \<Rightarrow> harness" where
  "prove_no_value_minted amount total_capital total_shares =
     kani_assume (0 \<le> amount \<and> amount \<le> SPEC_BOUND)
     (kani_assume (1 \<le> total_capital \<and> total_capital \<le> SPEC_BOUND)
     (kani_assume (1 \<le> total_shares \<and> total_shares \<le> SPEC_BOUND)
     (and_then (i128_mul amount total_shares) (\<lambda>v. and_then (i128_div v total_capital) (\<lambda>shares.
      and_then (i128_mul shares total_capital) (\<lambda>l. and_then (i128_mul amount total_shares) (\<lambda>r.
      and_then (kani_assert (l \<le> r)) (\<lambda>_.
      kani_assume (shares \<le> total_shares)
      (and_then (i128_mul shares total_capital) (\<lambda>v. and_then (i128_div v total_shares) (\<lambda>usdc_out.
       and_then (kani_assert (usdc_out \<le> total_capital)) (\<lambda>_. kani_assert (usdc_out \<le> amount)))))))))))))"

definition prove_shares_guard_necessary :: "int \<Rightarrow> int \<Rightarrow> int \<Rightarrow> harness" where
  "prove_shares_guard_necessary total_capital total_shares shares =
     kani_assume (1 \<le> total_capital \<and> total_capital \<le> SPEC_BOUND)
     (kani_assume (1 \<le> total_shares \<and> total_shares \<le> SPEC_BOUND)
     (and_then (i128_mul 2 total_shares) (\<lambda>twice. kani_assume (0 \<le> shares \<and> shares \<le> twice)
     (and_then (if total_shares < shares then
         and_then (i128_mul shares total_capital) (\<lambda>v. and_then (i128_div v total_shares) (\<lambda>unchecked_out. Ok ()))
       else Ok ()) (\<lambda>_.
      if shares \<le> total_shares then
        and_then (i128_mul shares total_capital) (\<lambda>v. and_then (i128_div v total_shares) (\<lambda>guarded_out.
        and_then (kani_assert (guarded_out \<le> total_capital)) (\<lambda>_. kani_assert (0 \<le> guarded_out))))
      else Ok ())))))"

definition prove_zero_shares_returns_zero :: "int \<Rightarrow> int \<Rightarrow> harness" where
  "prove_zero_shares_returns_zero total_capital total_shares =
     kani_assume (0 \<le> total_capital \<and> total_capital \<le> MAX_USDC)
     (kani_assume (1 \<le> total_shares \<and> total_shares \<le> MAX_USDC)
     (and_then (i128_mul 0 total_capital) (\<lambda>v. and_then (i128_div v total_shares) (\<lambda>usdc_out. kani_assert (usdc_out = 0)))))"

section \<open>What they prove\<close>

text \<open>Products and quotients of bounded non-negative numbers do not trap.\<close>

lemma kani_assume_Ok: "(c \<Longrightarrow> h = Ok ()) \<Longrightarrow> kani_assume c h = Ok ()"
  by (simp add: kani_assume_def)

lemma kani_assert_Ok: "c \<Longrightarrow> kani_assert c = Ok ()"
  by (simp add: kani_assert_def)

lemma both_Ok: "m = Ok () \<and> n = Ok () \<Longrightarrow> and_then m (\<lambda>_. n) = Ok ()"
  by simp

lemma in_i128_nonneg: "0 \<le> x \<Longrightarrow> x \<le> i128_max \<Longrightarrow> in_i128 x"
  by (simp add: in_i128_def i128_min_def)

lemma product_bounds: "0 \<le> a \<Longrightarrow> a \<le> A \<Longrightarrow> 0 \<le> b \<Longrightarrow> b \<le> B \<Longrightarrow> 0 \<le> a * b \<and> a * b \<le> A * B" for a b A B :: int
  by (auto intro: mult_mono)

lemma mul_bounded: "0 \<le> a \<Longrightarrow> a \<le> A \<Longrightarrow> 0 \<le> b \<Longrightarrow> b \<le> B \<Longrightarrow> A * B \<le> i128_max \<Longrightarrow> i128_mul a b = Ok (a * b)"
  using product_bounds [of a A b B] by (auto intro: in_i128_nonneg)

lemma div_bounded: "0 \<le> a \<Longrightarrow> a \<le> i128_max \<Longrightarrow> 0 < c \<Longrightarrow> i128_div a c = Ok (a div c)"
  using int_div_le_self [of a c] by (auto simp: pos_imp_zdiv_nonneg_iff intro: in_i128_nonneg)

lemma div_mult_le: "0 < c \<Longrightarrow> a div c * c \<le> a" for a c :: int
  using int_mult_div_le [of c a] by (simp add: mult.commute)

lemma div_le_iff_le: "0 < c \<Longrightarrow> a \<le> k * c \<Longrightarrow> a div c \<le> k" for a c k :: int
  using zdiv_mono1 [of a "k * c" c] by simp

theorem spec_no_value_minted: "prove_no_value_minted amount total_capital total_shares = Ok ()"
  unfolding prove_no_value_minted_def
proof (intro kani_assume_Ok)
  let ?shares = "amount * total_shares div total_capital"
  assume a: "0 \<le> amount \<and> amount \<le> SPEC_BOUND" and c: "1 \<le> total_capital \<and> total_capital \<le> SPEC_BOUND"
    and s: "1 \<le> total_shares \<and> total_shares \<le> SPEC_BOUND"
  have fits: "SPEC_BOUND * SPEC_BOUND \<le> i128_max" by (simp add: SPEC_BOUND_def i128_max_def)
  have p: "0 \<le> amount * total_shares" "amount * total_shares \<le> i128_max" "i128_mul amount total_shares = Ok (amount * total_shares)"
    using product_bounds [of amount SPEC_BOUND total_shares SPEC_BOUND] mul_bounded [of amount SPEC_BOUND total_shares SPEC_BOUND] a s fits
    by auto
  have worth: "?shares * total_capital \<le> amount * total_shares" using c by (intro div_mult_le) simp
  have pos: "0 \<le> ?shares" using p(1) c by (simp add: pos_imp_zdiv_nonneg_iff)
  then have q: "0 \<le> ?shares * total_capital" using c by simp
  have mul: "i128_mul ?shares total_capital = Ok (?shares * total_capital)"
    using q worth p(2) by (auto intro: in_i128_nonneg)
  have quot1: "i128_div (amount * total_shares) total_capital = Ok ?shares"
    by (rule div_bounded) (use p c in auto)
  have quot2: "i128_div (?shares * total_capital) total_shares = Ok (?shares * total_capital div total_shares)"
    by (rule div_bounded) (use q worth p s in auto)
  note quot = quot1 quot2
  have amt: "?shares * total_capital div total_shares \<le> amount" using worth s by (intro div_le_iff_le) auto
  have cap: "?shares * total_capital div total_shares \<le> total_capital" if "?shares \<le> total_shares"
    using that s c by (intro div_le_iff_le) (auto simp: mult.commute intro: mult_right_mono)
  show "and_then (i128_mul amount total_shares) (\<lambda>v. and_then (i128_div v total_capital) (\<lambda>shares.
      and_then (i128_mul shares total_capital) (\<lambda>l. and_then (i128_mul amount total_shares) (\<lambda>r.
      and_then (kani_assert (l \<le> r)) (\<lambda>_.
      kani_assume (shares \<le> total_shares)
      (and_then (i128_mul shares total_capital) (\<lambda>v. and_then (i128_div v total_shares) (\<lambda>usdc_out.
       and_then (kani_assert (usdc_out \<le> total_capital)) (\<lambda>_. kani_assert (usdc_out \<le> amount)))))))))) = Ok ()"
    by (simp only: p mul quot and_then_simps worth kani_assert_Ok) (rule kani_assume_Ok, simp only: mul quot and_then_simps cap amt kani_assert_Ok)
qed


theorem spec_total_capital_non_negative:
  "prove_total_capital_non_negative coverage_amount base_rate duration_days risk_multiplier total_capital payout = Ok ()"
  unfolding prove_total_capital_non_negative_def
proof (intro kani_assume_Ok)
  let ?base = "coverage_amount * base_rate div SPEC_BPS" and ?factor = "duration_days * SPEC_PRECISION div 365"
  let ?rate = "?base * ?factor div SPEC_PRECISION"
  assume a: "0 \<le> coverage_amount \<and> coverage_amount \<le> MAX_USDC" and b: "1 \<le> base_rate \<and> base_rate \<le> 500"
    and d: "1 \<le> duration_days \<and> duration_days \<le> 365" and r: "80 \<le> risk_multiplier \<and> risk_multiplier \<le> 300"
  note nums = MAX_USDC_def SPEC_BPS_def SPEC_PRECISION_def i128_max_def
  have p1: "0 \<le> coverage_amount * base_rate" "coverage_amount * base_rate \<le> MAX_USDC * 500"
    using product_bounds [of coverage_amount MAX_USDC base_rate 500] a b by auto
  have base: "0 \<le> ?base" "?base \<le> 50000000000000000"
    using p1 by (simp add: nums, intro div_le_iff_le) (simp_all add: nums)
  have p2: "0 \<le> duration_days * SPEC_PRECISION" "duration_days * SPEC_PRECISION \<le> 3650000000" using d by (simp_all add: nums)
  have factor: "0 \<le> ?factor" "?factor \<le> 10000000" using p2 by (simp, intro div_le_iff_le) simp_all
  have p3: "0 \<le> ?base * ?factor" "?base * ?factor \<le> 50000000000000000 * 10000000"
    using product_bounds [OF base factor] by auto
  have rate: "0 \<le> ?rate" "?rate \<le> 50000000000000000" using p3 by (simp add: nums, intro div_le_iff_le) (simp_all add: nums)
  have p4: "0 \<le> ?rate * risk_multiplier" "?rate * risk_multiplier \<le> 50000000000000000 * 300"
    using product_bounds [OF rate, of risk_multiplier 300] r by auto
  have muls: "i128_mul coverage_amount base_rate = Ok (coverage_amount * base_rate)"
    "i128_mul duration_days SPEC_PRECISION = Ok (duration_days * SPEC_PRECISION)"
    "i128_mul ?base ?factor = Ok (?base * ?factor)" "i128_mul ?rate risk_multiplier = Ok (?rate * risk_multiplier)"
    using p1 p2 p3 p4 by (simp_all only: i128_arith_iff) (auto intro!: in_i128_nonneg simp: nums)
  have q1: "i128_div (coverage_amount * base_rate) SPEC_BPS = Ok ?base" by (rule div_bounded) (use p1 in \<open>simp_all add: nums\<close>)
  have q2: "i128_div (duration_days * SPEC_PRECISION) 365 = Ok ?factor"
    by (rule div_bounded) (use p2 in \<open>simp_all add: i128_max_def\<close>)
  have q3: "i128_div (?base * ?factor) SPEC_PRECISION = Ok ?rate"
    by (rule div_bounded) (use p3 in \<open>simp_all add: i128_max_def SPEC_PRECISION_def\<close>)
  have q4: "i128_div (?rate * risk_multiplier) 100 = Ok (?rate * risk_multiplier div 100)"
    by (rule div_bounded) (use p4 in \<open>simp_all add: i128_max_def\<close>)
  note quots = q1 q2 q3 q4
  have premium: "0 \<le> ?rate * risk_multiplier div 100" using p4 by (simp add: pos_imp_zdiv_nonneg_iff)
  show "and_then (i128_mul coverage_amount base_rate) (\<lambda>v. and_then (i128_div v SPEC_BPS) (\<lambda>base.
      and_then (i128_mul duration_days SPEC_PRECISION) (\<lambda>v. and_then (i128_div v 365) (\<lambda>duration_factor.
      and_then (i128_mul base duration_factor) (\<lambda>v. and_then (i128_div v SPEC_PRECISION) (\<lambda>v.
      and_then (i128_mul v risk_multiplier) (\<lambda>v. and_then (i128_div v 100) (\<lambda>premium.
      and_then (kani_assert (0 \<le> premium)) (\<lambda>_.
      kani_assume (0 \<le> total_capital \<and> total_capital \<le> MAX_USDC)
      (kani_assume (0 \<le> payout \<and> payout \<le> total_capital)
      (and_then (i128_sub total_capital payout) (\<lambda>left. kani_assert (0 \<le> max left 0))))))))))))) = Ok ()"
    unfolding muls quots and_then_simps kani_assert_Ok [OF premium]
    by (intro kani_assume_Ok) (auto simp: kani_assert_def in_i128_def i128_min_def nums)
qed

theorem spec_total_shares_non_negative:
  "prove_total_shares_non_negative amount total_capital total_shares shares_to_burn = Ok ()"
  unfolding prove_total_shares_non_negative_def
proof (intro kani_assume_Ok)
  assume a: "0 \<le> amount \<and> amount \<le> MAX_USDC" and c: "1 \<le> total_capital \<and> total_capital \<le> MAX_USDC"
    and s: "1 \<le> total_shares \<and> total_shares \<le> MAX_USDC"
  have p: "0 \<le> amount * total_shares" "amount * total_shares \<le> MAX_USDC * MAX_USDC"
    using product_bounds [of amount MAX_USDC total_shares MAX_USDC] a s by auto
  then have mul: "i128_mul amount total_shares = Ok (amount * total_shares)"
    by (simp only: i128_arith_iff) (auto intro!: in_i128_nonneg simp: MAX_USDC_def i128_max_def)
  have quot: "i128_div (amount * total_shares) total_capital = Ok (amount * total_shares div total_capital)"
    using p c by (auto intro!: div_bounded simp del: i128_arith_iff simp: MAX_USDC_def i128_max_def)
  have shares: "0 \<le> amount * total_shares div total_capital" using p c by (simp add: pos_imp_zdiv_nonneg_iff)
  show "and_then (i128_mul amount total_shares) (\<lambda>v. and_then (i128_div v total_capital) (\<lambda>shares.
      and_then (kani_assert (0 \<le> shares)) (\<lambda>_.
      kani_assume (0 \<le> shares_to_burn \<and> shares_to_burn \<le> total_shares)
      (and_then (i128_sub total_shares shares_to_burn) (\<lambda>new_total_shares. kani_assert (0 \<le> new_total_shares)))))) = Ok ()"
    unfolding mul quot and_then_simps kani_assert_Ok [OF shares]
    by (intro kani_assume_Ok) (use s in \<open>auto simp: kani_assert_def in_i128_def i128_min_def MAX_USDC_def i128_max_def\<close>)
qed

theorem spec_shares_guard_sufficient: "prove_shares_guard_necessary total_capital total_shares shares = Ok ()"
  unfolding prove_shares_guard_necessary_def
proof (intro kani_assume_Ok)
  assume c: "1 \<le> total_capital \<and> total_capital \<le> SPEC_BOUND" and s: "1 \<le> total_shares \<and> total_shares \<le> SPEC_BOUND"
  have twice: "i128_mul 2 total_shares = Ok (2 * total_shares)"
    using s by (simp only: i128_arith_iff) (auto intro!: in_i128_nonneg simp: SPEC_BOUND_def i128_max_def)
  have core: "(if total_shares < shares then and_then (i128_mul shares total_capital) (\<lambda>v. and_then (i128_div v total_shares) (\<lambda>unchecked_out. Ok ()))
       else Ok ()) = Ok () \<and>
     (if shares \<le> total_shares then
        and_then (i128_mul shares total_capital) (\<lambda>v. and_then (i128_div v total_shares) (\<lambda>guarded_out.
        and_then (kani_assert (guarded_out \<le> total_capital)) (\<lambda>_. kani_assert (0 \<le> guarded_out))))
      else Ok ()) = Ok ()" if n: "0 \<le> shares \<and> shares \<le> 2 * total_shares"
  proof -
    have p: "0 \<le> shares * total_capital" "shares * total_capital \<le> (2 * SPEC_BOUND) * SPEC_BOUND"
      using product_bounds [of shares "2 * SPEC_BOUND" total_capital SPEC_BOUND] n c s by auto
    then have mul: "i128_mul shares total_capital = Ok (shares * total_capital)"
      by (simp only: i128_arith_iff) (auto intro!: in_i128_nonneg simp: SPEC_BOUND_def i128_max_def)
    have quot: "i128_div (shares * total_capital) total_shares = Ok (shares * total_capital div total_shares)"
      using p s by (auto intro!: div_bounded simp del: i128_arith_iff simp: SPEC_BOUND_def i128_max_def)
    have low: "0 \<le> shares * total_capital div total_shares" using p s by (simp add: pos_imp_zdiv_nonneg_iff)
    have cap: "shares * total_capital div total_shares \<le> total_capital" if "shares \<le> total_shares"
      using that s c by (intro div_le_iff_le) (auto simp: mult.commute intro: mult_right_mono)
    show ?thesis unfolding mul quot and_then_simps using low cap by (simp add: kani_assert_def)
  qed
  show "and_then (i128_mul 2 total_shares) (\<lambda>twice. kani_assume (0 \<le> shares \<and> shares \<le> twice)
     (and_then (if total_shares < shares then
         and_then (i128_mul shares total_capital) (\<lambda>v. and_then (i128_div v total_shares) (\<lambda>unchecked_out. Ok ()))
       else Ok ()) (\<lambda>_.
      if shares \<le> total_shares then
        and_then (i128_mul shares total_capital) (\<lambda>v. and_then (i128_div v total_shares) (\<lambda>guarded_out.
        and_then (kani_assert (guarded_out \<le> total_capital)) (\<lambda>_. kani_assert (0 \<le> guarded_out))))
      else Ok ()))) = Ok ()"
    unfolding twice and_then_simps by (intro kani_assume_Ok both_Ok core)
qed

theorem spec_zero_shares: "prove_zero_shares_returns_zero total_capital total_shares = Ok ()"
  unfolding prove_zero_shares_returns_zero_def
  by (intro kani_assume_Ok) (auto simp: kani_assert_def trunc_div_def)

text \<open>The utilization harness fails: with 4 of capital, coverage of 1 and a limit of 33.33 %, taking out 1 leaves a
utilization of one third, which rounds down to the limit and is above it.\<close>

theorem spec_utilization_refuted: "prove_coverage_utilization_bound 4 1 0 3333 1 = Trap"
  by (simp add: prove_coverage_utilization_bound_def kani_assume_def kani_assert_def int_width_defs i128_min_def SPEC_BPS_def MAX_USDC_def
      i128_mul_def i128_div_def i128_add_def i128_sub_def i128_checked_def
      del: and_then_Trap_iff and_then_Ok_iff and_then_Err_iff i128_arith_iff i128_checked_iff)

text \<open>Its first half, the guard of a purchase, does hold for every input.\<close>

theorem spec_utilization_purchase:
  "prove_coverage_utilization_bound total_capital total_coverage coverage_amount max_utilization_bps total_capital = Ok ()"
  unfolding prove_coverage_utilization_bound_def
proof (intro kani_assume_Ok)
  let ?cover = "total_coverage + coverage_amount" and ?room = "total_capital * max_utilization_bps"
  assume c: "1 \<le> total_capital \<and> total_capital \<le> MAX_USDC" and v: "0 \<le> total_coverage \<and> total_coverage \<le> total_capital"
    and a: "0 \<le> coverage_amount \<and> coverage_amount \<le> MAX_USDC" and m: "1 \<le> max_utilization_bps \<and> max_utilization_bps \<le> 10000"
  have add: "i128_add total_coverage coverage_amount = Ok ?cover"
    using c v a by (simp only: i128_arith_iff) (auto intro!: in_i128_nonneg simp: MAX_USDC_def i128_max_def)
  have p: "0 \<le> ?room" "?room \<le> MAX_USDC * 10000"
    using product_bounds [of total_capital MAX_USDC max_utilization_bps 10000] c m by auto
  then have mul: "i128_mul total_capital max_utilization_bps = Ok ?room"
    by (simp only: i128_arith_iff) (auto intro!: in_i128_nonneg simp: MAX_USDC_def i128_max_def)
  have quot: "i128_div ?room SPEC_BPS = Ok (?room div SPEC_BPS)"
    by (rule div_bounded) (use p in \<open>simp_all add: MAX_USDC_def SPEC_BPS_def i128_max_def\<close>)
  have scale: "i128_mul ?cover SPEC_BPS = Ok (?cover * SPEC_BPS)"
    using c v a by (simp only: i128_arith_iff) (auto intro!: in_i128_nonneg simp: MAX_USDC_def SPEC_BPS_def i128_max_def)
  have within: "?cover * SPEC_BPS \<le> ?room" if "?cover \<le> ?room div SPEC_BPS"
    using that div_mult_le [of SPEC_BPS ?room] by (simp add: SPEC_BPS_def)
  have sub: "i128_sub total_capital total_capital = Ok 0" by simp
  show "and_then (i128_add total_coverage coverage_amount) (\<lambda>new_coverage.
      and_then (i128_mul total_capital max_utilization_bps) (\<lambda>v. and_then (i128_div v SPEC_BPS) (\<lambda>max_coverage_capacity.
      and_then (if new_coverage \<le> max_coverage_capacity then
          and_then (i128_mul new_coverage SPEC_BPS) (\<lambda>l. and_then (i128_mul total_capital max_utilization_bps) (\<lambda>r. kani_assert (l \<le> r)))
        else Ok ()) (\<lambda>_.
      kani_assume (0 \<le> total_capital \<and> total_capital \<le> total_capital)
      (and_then (i128_sub total_capital total_capital) (\<lambda>new_capital.
       if 0 < new_capital then
         and_then (i128_mul total_coverage SPEC_BPS) (\<lambda>v. and_then (i128_div v new_capital) (\<lambda>new_util.
         if new_util \<le> max_utilization_bps then
           and_then (i128_mul total_coverage SPEC_BPS) (\<lambda>l. and_then (i128_mul new_capital max_utilization_bps) (\<lambda>r. kani_assert (l \<le> r)))
         else Ok ()))
       else Ok ())))))) = Ok ()"
    unfolding add mul quot scale sub and_then_simps
    by (intro both_Ok conjI kani_assume_Ok) (simp_all add: within kani_assert_def)
qed

end
