(* ===== verification/Spec2Isabelle.thy ===== *)
theory Spec2Isabelle
  imports Soroban Math Policy_Registry Timelock Oracle Multisig Governance VeToken Pool Wiring Treasury Treasury_Controls Payout
    Payout_Registry Contract_Registry Grants Grants_Model Access Params Incident_Response Normalization Premium_Curve Backstop Bounty Capital_Queue Loss_Events Allowlists
    Grant_Checks Grant_Funds Grant_Reviews Grant_Workflow Grant_Lifecycle Grant_Appeals Bounty_Programs Operator
    Legacy_Migration Budgets Pool_Spec
begin

text \<open>
  Verification of the Refract contracts: the Soroban (Stellar) smart contracts of a parametric cover
  protocol, its treasury, its bounty and grant programs and its governance, the shared crates they link,
  and the \<open>xtask\<close> tool that operates them.  Every definition is a translation of the Rust source under
  \<open>src/\<close>; paths below are relative to it.

  \<^bold>\<open>The program.\<close>
  Underwriters put capital into the pool, holders buy policies from it and claim when the oracle reports the
  trigger; the pool mirrors each policy into the policy registry and may draw on the backstop, whose stakers
  are paid from premiums.  The treasury holds protocol money and pays requests; the bounty escrow and the grants
  contract pay researchers and grantees, and the payout registry indexes those payouts.  The governor, a multisig and
  the vote-escrow token decide; the timelock carries decisions out after a delay; the contract registry, the parameter
  registry and the incident coordinator say which contracts are trusted, with which parameters, and who takes them over
  in an emergency.

  \<^bold>\<open>The execution model\<close> (\<open>Soroban\<close>).
  An invocation is a value of \<open>outcome\<close>: \<open>Ok\<close>, a contract error \<open>Err\<close>, or \<open>Trap\<close> (a panic: arithmetic overflow,
  a missing authorization, a failing inner call).  The host drops the writes of an invocation that does not end with
  \<open>Ok\<close>, so an entry point is a function from the environment (ledger time, signers, own address), its arguments and the
  contract's storage to an outcome that carries the new storage.  Plain Rust values changed in place are not rolled
  back: their operations return the outcome together with the value they leave.  Storage is a record with one
  field per storage key, \<open>None\<close> for an absent key.  \<open>i128\<close> amounts are \<open>int\<close> and unsigned integers \<open>nat\<close>; every
  operation of the source that can leave its range is a checked, saturating or panicking operation of the
  prelude.  Where the source works on bits the values are words: the 128-bit limbs of \<open>Math\<close> and the 32-bit scopes of
  \<open>Grant_Reviews\<close>.  Histories are lists of transactions (\<open>run_txs\<close>) or folds of steps.

  \<^bold>\<open>Which theory models what.\<close>
  \<^item> \<open>Math\<close>: \<open>math/src/lib.rs\<close>.  Wide multiplication and division, rounding, splits, largest-remainder allocation,
    all equal to exact arithmetic on unbounded integers.
  \<^item> \<open>Pool\<close>: \<open>pool/src/lib.rs\<close>.  Capital, policies, claims, expiry and administration.  A policy is settled once, a claim
    is paid on a trigger, coverage and shares are the sums they stand for.
  \<^item> \<open>Pool_Spec\<close>: \<open>pool/src/formal_spec.rs\<close>.  Each bounded-proof harness as a function of its inputs.
  \<^item> \<open>Policy_Registry\<close>: \<open>policy/src/lib.rs\<close>.  The index of policies per holder and its totals.
  \<^item> \<open>Oracle\<close>: \<open>oracle/src/lib.rs\<close>.  Relayers, readings, triggers; feeds never move back.
  \<^item> \<open>Backstop\<close>: \<open>backstop/src/lib.rs\<close>; \<open>Premium_Curve\<close>: \<open>backstop/src/curve.rs\<close>; \<open>Normalization\<close>:
    \<open>backstop/src/normalization.rs\<close> and its copy in \<open>bounty/src\<close>.  Capital is backed by tokens, the curve is monotone
    within its bounds, conversions round as documented.
  \<^item> \<open>Treasury\<close>: \<open>treasury/src/lib.rs\<close> and \<open>payments.rs\<close>; \<open>Treasury_Controls\<close>: \<open>reserve.rs\<close> and \<open>challenge.rs\<close>.
  \<^item> \<open>Bounty\<close>: \<open>bounty/src/lib.rs\<close>; \<open>Bounty_Programs\<close>: \<open>disclosure.rs\<close>, \<open>escrow_refill.rs\<close> and \<open>wind_down.rs\<close>.
  \<^item> \<open>Grants\<close>: \<open>grants/src/contract.rs\<close> with \<open>shared/fee.rs\<close> and \<open>shared/ttl.rs\<close>; \<open>Grants_Model\<close>: \<open>grants/src/lib.rs\<close>, an
    abstract state machine that the contract refines; \<open>Grant_Checks\<close>: \<open>consistency.rs\<close>, \<open>audit.rs\<close> and \<open>rate_limit.rs\<close>;
    \<open>Grant_Funds\<close>: \<open>amounts.rs\<close>, \<open>budget.rs\<close>, \<open>programs.rs\<close>, \<open>compensation.rs\<close>, \<open>bond.rs\<close> and \<open>reviewer_stake.rs\<close>;
    \<open>Grant_Reviews\<close>: \<open>scoring.rs\<close>, \<open>delegation.rs\<close> and \<open>licensing.rs\<close>.  \<open>Grant_Workflow\<close>: \<open>review.rs\<close>, reviewers
    and conflicts of interest; \<open>Grant_Lifecycle\<close>: \<open>lifecycle.rs\<close>, amendment, extension and termination of a grant, which
    conserve its money; \<open>Grant_Appeals\<close>: \<open>appeals.rs\<close>, appeals against a rejection, a state machine (\<open>appeal_move\<close>).
  \<^item> \<open>Governance\<close>: \<open>governance/src/lib.rs\<close>; \<open>Timelock\<close>: \<open>timelock/src/lib.rs\<close>; \<open>Multisig\<close>: \<open>multisig/src/lib.rs\<close>;
    \<open>VeToken\<close>: \<open>vetoken/src/lib.rs\<close>.
  \<^item> \<open>Contract_Registry\<close>: \<open>registry/src/lib.rs\<close>; \<open>Params\<close>: \<open>params/src/lib.rs\<close>; \<open>Payout_Registry\<close>:
    \<open>payout_registry/src/lib.rs\<close>; \<open>Incident_Response\<close>: \<open>incident_response/src/lib.rs\<close>.
  \<^item> \<open>Access\<close>: \<open>interfaces/src/access.rs\<close>, \<open>errors.rs\<close> and \<open>types.rs\<close>; \<open>Payout\<close>: \<open>common/src/payout.rs\<close>; \<open>Allowlists\<close>:
    \<open>shared/src/allowlist.rs\<close>, \<open>common/src/allowlist.rs\<close> and \<open>common/src/registry.rs\<close>; \<open>Capital_Queue\<close>:
    \<open>shared/src/withdrawal_queue.rs\<close> and \<open>facility.rs\<close>; \<open>Loss_Events\<close>: \<open>shared/src/guardians.rs\<close>, \<open>loss_event.rs\<close> and
    \<open>version.rs\<close>.
  \<^item> \<open>Operator\<close>: \<open>xtask/src/operator.rs\<close>, the operator command line; \<open>Legacy_Migration\<close>: \<open>xtask/src/legacy_migration/\<close>;
    \<open>Budgets\<close>: the resource-budget check of \<open>xtask/src/main.rs\<close>.
  \<^item> \<open>Wiring\<close>: contracts deployed against each other.  \<open>link\<close> puts a modelled contract at an address in place of the
    callee parameter; this theory then composes the governor with the timelock and the pool with the policy
    registry, and \<open>Incident_Response\<close> the coordinator with the three contracts it locks down.

  Each theory opens with a note on its state, its parameters and what its lemmas show.  Within a theory the order is: data and
  state, operations, a dispatcher over the operations that write (the names ending in \<open>_exec\<close> or \<open>_step\<close>), the
  consequences of an accepted call (names ending in \<open>_Ok\<close>), invariants, properties, concrete runs.

  \<^bold>\<open>What the lemmas show.\<close>
  The well-formedness of each contract's storage and that every entry point keeps it, lifted to histories by interpretations of
  \<open>contract_invariant\<close>, \<open>contract_order\<close>, \<open>timed_contract\<close> and \<open>step_invariant\<close>; the handover of administration
  (\<open>two_step_admin\<close>); the conservation of money (\<open>tally\<close>, \<open>moved\<close>, and logs that a token
  or treasury keeps of its transfers: \<open>logged_exec\<close>, \<open>logged_receive\<close>); refinement of simpler specifications (\<open>payout_book\<close>,
  \<open>grants_model\<close>, \<open>valid_input\<close>); round trips of amounts, error codes and call arguments; and the outcome of an operation on
  every branch where its errors matter.  The properties numbered C1 to C40 are the ones to read first; where a property has
  hypotheses, the theorem after it applies it to a concrete run.

  \<^bold>\<open>Parameters and hypotheses.\<close>
  Code that is not in the repository is an argument of the definitions that use it.
  \<^item> Other contracts: a \<open>callee\<close> answers \<open>invoke_contract\<close> and \<open>try_invoke_contract\<close>.  Token contracts: \<open>transfer\<close>,
    \<open>balance_of\<close>, \<open>tokens\<close>; properties about balances assume \<open>sep41_transfers\<close> (a transfer moves exactly its amount), for the
    bounty escrow also \<open>self_transfers\<close>.
  \<^item> The files of the pool, the backstop and the bounty escrow end in the middle of a function at this commit, so private
    helpers that the entry points call are the fields of \<open>pool_ext\<close>, \<open>backstop_ext\<close> and \<open>bounty_ext\<close>.  What is assumed of
    them are the laws \<open>accounting_store\<close>, \<open>capacity_adds\<close> and \<open>transfers_keep_registry\<close>, \<open>backstop_helpers\<close>, and
    \<open>bounty_views\<close>.
  \<^item> \<open>grants/src/review.rs\<close>, \<open>lifecycle.rs\<close> and \<open>appeals.rs\<close> extend a grants type that is not the one of the crate at this
    commit.  The fields of that type they use are records of the model; the methods of it they call are the fields of
    \<open>workflow_ext\<close> and \<open>appeals_ext\<close>, with the laws \<open>workflow_methods\<close> and \<open>appeals_helpers\<close>.  The treasury that takes
    refunds is the parameter \<open>receive\<close>.
  \<^item> SHA-256 in the audit log and the commitments is an arbitrary function; the files read and the
    \<open>stellar\<close> and \<open>cargo\<close> binaries run by \<open>xtask\<close>, and the JSON form of an \<open>i128\<close>, are parameters of \<open>Operator\<close>,
    \<open>Budgets\<close> and \<open>Legacy_Migration\<close>.

  \<^bold>\<open>Termination.\<close>
  Every definition is total and no fuel is used.  Loops over lists are structural; the paged loops of the timelock's
  keeper sweep and the other counting loops decrease the distance to their bound.

  \<^bold>\<open>Not modelled.\<close>
  \<^item> Events, the life time of storage entries (except that extending a missing entry panics) and gas.
  \<^item> \<open>bounty/src/evidence.rs\<close> returns an error the crate does not define.  \<open>backstop/src/kani_proofs.rs\<close> calls functions whose
    bodies are in the missing part of the backstop file.
  \<^item> The remaining parts of the pool, the backstop and the bounty escrow that the truncated files do not hold.
  \<^item> Test fixtures, property tests, the snapshot and scenario harnesses (\<open>testutils\<close>, \<open>harness\<close>, \<open>snapshot_harness\<close>,
    \<open>integration\<close>, \<open>pool/src/pricing_proptest.rs\<close>), which exercise the contracts and are not deployed; scripts, documents
    and deployment data; the unimplemented \<open>authz-matrix\<close> command and the layout of the reports \<open>xtask\<close> prints.
  \<^item> \<open>Premium_Curve\<close>, \<open>Normalization\<close>, \<open>Grant_Checks\<close>, \<open>Grant_Funds\<close>, \<open>Grant_Reviews\<close> and \<open>Bounty_Programs\<close> model files that
    are complete in themselves but that their crate root does not declare, so no deployed contract calls them yet; nor does
    it declare the files of \<open>Grant_Workflow\<close>, \<open>Grant_Lifecycle\<close> and \<open>Grant_Appeals\<close>.
\<close>

section \<open>The governor and the timelock\<close>

definition sys_timelock_txs :: "(env \<times> timelock_call) list" where
  "sys_timelock_txs = [(gv_env 0, TlInitialize 50 60)]"

definition sys_timelock :: timelock where
  "sys_timelock = timelock_undeployed\<lparr>tl_admin := Some 50, tl_min_delay := Some 60, tl_next_id := Some 0\<rparr>"

definition sys_governor :: governor where
  "sys_governor = governor_undeployed\<lparr>g_timelock := Some 70, g_proposal := [0 \<mapsto> gv_proposal]\<rparr>"

definition sys_queued :: timelock where
  "sys_queued = sys_timelock\<lparr>tl_next_id := Some 1,
     tl_operation := [0 \<mapsto> timelock_new_operation 5 ''go'' [] 400]\<rparr>"

text \<open>C2. A proposal that the governor queues runs through the timelock as it was voted: if \<open>queue\<close>
succeeds on a governor wired to the timelock, and after any further timelock transactions
\<open>execute\<close> succeeds on the operation it created, then the proposal had succeeded, the call made is
the proposal's target, function and arguments, it is made no earlier than the queueing time plus
the timelock's minimum delay, and the timelock's admin is the governor or signed the queueing.\<close>

theorem governor_queue_through_timelock:
  assumes "governor_queue (link tlk timelock_entry rest) e i eta (g, (t, w)) = Ok (u, (g', (t', w')))"
    and "g_timelock g = Some tlk" and "timelock_wf t"
    and "run_txs (timelock_exec callee) later (t', v) = (t2, v2)"
    and "timelock_execute callee e2 (unwrap_or (tl_next_id t) 0) (t2, v2) = Ok (u2, (t3, v3))"
  shows "\<exists>p r adm. g_proposal g i = Some p \<and> gp_status p = GvSucceeded \<and>
    callee e2 v2 (gp_target p) (gp_function p) (gp_args p) = (r, v3) \<and> call_ok r \<and>
    timestamp e + min_delay t \<le> timestamp e2 \<and>
    tl_admin t = Some adm \<and> (adm = this e \<or> auth e adm)"
proof -
  from assms(1) obtain p where p: "g_proposal g i = Some p" "gp_status p = GvSucceeded"
    and call: "\<exists>x. link tlk timelock_entry rest e (t, w) tlk ''queue''
      [VAddr (gp_target p), VSym (gp_function p), VVec (gp_args p), VU64 eta] = (CallOk x, (t', w'))"
    by (rule governor_queue_Ok) (use assms(2) in simp)
  then obtain x where c: "link tlk timelock_entry rest e (t, w) tlk ''queue''
      [VAddr (gp_target p), VSym (gp_function p), VVec (gp_args p), VU64 eta] = (CallOk x, (t', w'))" by blast
  obtain j where q: "timelock_queue (call_env e tlk) (gp_target p) (gp_function p) (gp_args p) eta t = Ok (j, t')"
    using link_Ok(1) [OF c refl] unfolding timelock_entry_queue by blast
  note q_facts = timelock_queue_Ok [OF q]
  have "holds_operation j (gp_target p, gp_function p, gp_args p) eta (fst (t', v))"
    using timelock_queue_holds [OF q assms(3)] by simp
  then have kept: "holds_operation j (gp_target p, gp_function p, gp_args p) eta t2"
    using kept.run_keeps [of j _ eta "(t', v)" callee later] assms(4) by simp
  from assms(5) obtain op r where "tl_operation t2 j = Some op" "op_eta op \<le> timestamp e2" "call_ok r"
    "callee e2 v2 (op_target op) (op_function op) (op_args op) = (r, v3)"
    by (rule timelock_execute_Ok) (use q_facts(1) in auto)
  with kept p q_facts(3,4) show ?thesis by (auto simp: holds_operation_def op_call_def)
qed

lemma sys_governor_queue:
  "governor_queue (link 70 timelock_entry gv_callee) (gv_env 300) 0 400 (sys_governor, (sys_timelock, 0)) =
     Ok ((), (set_proposal 0 (gv_proposal\<lparr>gp_status := GvQueued\<rparr>) sys_governor, (sys_queued, 0)))"
  by (simp add: governor_queue_def sys_governor_def sys_timelock_def sys_queued_def governor_undeployed_def
      timelock_undeployed_def gv_proposal_def gv_env_def invoke_contract_def link_def timelock_entry_def
      answer_def timelock_queue_def timelock_require_admin_def require_auth_def ok_or_def u64_add_def
      u64_max_def set_operation_def set_proposal_def call_env_def Let_def
      del: and_then_Ok_iff and_then_Err_iff and_then_Trap_iff)

lemma sys_timelock_execute:
  "timelock_execute gv_callee (gv_env 500) 0 (sys_queued, 7) =
     Ok ((), (set_operation 0 ((timelock_new_operation 5 ''go'' [] 400)\<lparr>op_status := OpExecuted\<rparr>) sys_queued, 8))"
  by (simp add: timelock_execute_def timelock_execute_body_def timelock_forward_def sys_queued_def
      timelock_new_operation_def gv_env_def gv_callee_def try_invoke_def Let_def)

theorem governor_queue_through_timelock_witness:
  "\<exists>p r. g_proposal sys_governor 0 = Some p \<and>
    gv_callee (gv_env 500) 7 (gp_target p) (gp_function p) (gp_args p) = (r, 8) \<and>
    timestamp (gv_env 300) + min_delay sys_timelock \<le> timestamp (gv_env 500)"
proof -
  have t: "g_timelock sys_governor = Some 70" "timelock_wf sys_timelock" "unwrap_or (tl_next_id sys_timelock) 0 = 0"
    "run_txs (timelock_exec gv_callee) [] (sys_queued, 7) = (sys_queued, 7)"
    by (simp_all add: sys_governor_def sys_timelock_def timelock_wf_def timelock_undeployed_def)
  show ?thesis
    using governor_queue_through_timelock [OF sys_governor_queue t(1,2,4), unfolded t(3), OF sys_timelock_execute]
    by blast
qed

section \<open>The pool and the policy registry\<close>

text \<open>C1. Every policy the pool sells is in the registry for good: when \<open>buy_policy\<close> succeeds on a pool
whose registry is the policy registry, then after any later registry transactions the registry
has a record under the same id, with the holder, coverage amount, premium, expiry and mirrored
coverage type of the pool's own policy record, and lists the id for the holder; right after the
purchase that record is active.\<close>

theorem sold_policy_is_registered:
  assumes "buy_policy x e a pm (s, (r, w)) = Ok (i, (s', (r', w')))" and "accounting_store x"
    and "px_callee x = link reg registry_entry rest" and "p_policy_registry s = Some reg"
    and "transfers_keep_registry x"
  shows "\<exists>p rc. p_policy s' i = Some p \<and> r_policy r' i = Some rc \<and> rec_is_active rc \<and>
    r_policy r i = None \<and> rec_holder rc = pol_holder p \<and> rec_coverage_amount rc = pol_coverage_amount p \<and>
    rec_premium rc = pol_premium_paid p \<and> rec_expires_at rc = pol_end_time p \<and>
    policy_record.rec_coverage_type rc = mirrored (px_to_registry_coverage_type x (pol_coverage_type p)) \<and>
    (\<exists>b. r_policy (run_txs registry_exec later r') i = Some (rc\<lparr>rec_is_active := b\<rparr>)) \<and>
    i \<in> set (get_holder_policy_ids (run_txs registry_exec later r') a)"
proof -
  from assms(1,3-5) obtain premium v w1 w2 where
    prem: "px_calc_premium x (ps_config (pool_state_load x s)) pm = Ok premium" and
    call: "link reg registry_entry rest e (r, w1) reg ''register_policy''
      [VAddr (this e), registration_val (purchase_registration x e i a pm premium)] = (CallOk v, (r', w2))"
    by (rule buy_policy_registry_call)
  let ?reg = "mirrored_registration (purchase_registration x e i a pm premium)"
  let ?rc = "registry_new_record (call_env e reg) ?reg"
  obtain j where "register_policy (call_env e reg) (this e) ?reg r = Ok (j, r')"
    using link_Ok(1) [OF call refl] unfolding registry_entry_register by blast
  note d = register_policy_OkD [OF this]
  have id: "j = i" using d(1) by (simp add: mirrored_registration_def purchase_registration_def)
  have rc: "rec_policy_id ?rc = i" "rec_holder ?rc = a" "rec_is_active ?rc"
    by (simp_all add: registry_new_record_def mirrored_registration_def purchase_registration_def)
  have "r_policy r' i = Some (?rc\<lparr>rec_is_active := True\<rparr>)"
    using d(3) id by (simp add: registry_new_record_def)
  moreover have "i \<in> set (get_holder_policy_ids r' a)"
    using d(4) id by (simp add: get_holder_policy_ids_def mirrored_registration_def purchase_registration_def)
  ultimately have "holds_record ?rc r'" unfolding holds_record_def rc(1,2) by blast
  then have "holds_record ?rc (run_txs registry_exec later r')" by (rule indexed.run_keeps)
  moreover obtain prem' where "px_calc_premium x (ps_config (pool_state_load x s)) pm = Ok prem'"
    "p_policy s' = (p_policy s)(i \<mapsto> new_policy i a pm prem' (timestamp e)
       (u64_sat_add (timestamp e) (u64_sat_mul (pm_duration_days pm) 86400)))"
    using assms(1,2) by (rule buy_policy_Ok)
  ultimately show ?thesis
    using d(2,3) id rc prem
    by (intro exI [of _ "new_policy i a pm premium (timestamp e)
          (u64_sat_add (timestamp e) (u64_sat_mul (pm_duration_days pm) 86400))"] exI [of _ ?rc])
      (auto simp: holds_record_def new_policy_def registry_new_record_def mirrored_registration_def
        purchase_registration_def)
qed

definition sys_registry :: registry where
  "sys_registry = registry_fresh\<lparr>r_admin := Some 1, r_pool_contract := Some 99, r_total_policies := Some 0,
     r_total_premium := Some 0, r_active_policies := Some 0\<rparr>"

definition sys_ext :: "(pool_accounting, registry \<times> nat) pool_ext" where
  "sys_ext = \<lparr>px_accounting = (\<lambda>a. a), px_save_accounting = (\<lambda>a _. a),
     px_assert_initialized = (\<lambda>s. if p_initialized s = None then Err PlNotInitialized else Ok ()),
     px_require_admin = (\<lambda>e c s. if p_admin s = Some c then Ok () else Err PlUnauthorized),
     px_acquire_guard = (\<lambda>l. if l = Some True then Err PlReentrancyDetected else Ok (Some True)),
     px_release_guard = (\<lambda>_. None),
     px_calc_shares = (\<lambda>_ n. Ok n), px_quote_withdrawal = (\<lambda>_ n. Ok n),
     px_check_coverage_capacity = (\<lambda>ps n. Ok (ps_total_coverage ps + n)),
     px_calc_premium = (\<lambda>_ _. Ok 10), px_feed_symbol = (\<lambda>_. ''USDC''),
     px_to_registry_coverage_type = (\<lambda>_. MirrorStablecoinDepeg),
     px_deactivate_in_registry = (\<lambda>_ _ _ w. w), px_release_in_backstop = (\<lambda>_ _ _ w. w),
     px_transfer = (\<lambda>w _ _ _ _. Some (fst w, snd w + 1)),
     px_callee = link 6 registry_entry (\<lambda>e w a f args. (CallOk VVoid, w))\<rparr>"

definition sys_pool :: "pool_accounting pool" where
  "sys_pool = (pool_undeployed pl_accounting0)\<lparr>p_admin := Some 1, p_usdc_token := Some 5,
     p_policy_registry := Some 6, p_initialized := Some True\<rparr>"

lemma sys_buy:
  "\<exists>s' r' w'. buy_policy sys_ext (pl_env 30) 3 pl_params (sys_pool, (sys_registry, 0)) = Ok (0, (s', (r', w')))"
  by (simp add: buy_policy_def sys_ext_def sys_pool_def pool_undeployed_def pl_accounting0_def pl_env_def pl_params_def
      acquire_guard_def release_guard_def get_accounting_def put_accounting_def pool_state_load_def
      backstop_check_def invoke_contract_def link_def registry_entry_def answer_def expect_u64_def
      register_policy_def registry_require_pool_or_admin_def sys_registry_def registry_fresh_def
      mirrored_registration_def call_env_def require_auth_def ensure_def ok_or_def token_transfer_def
      i128_add_def i128_checked_def u64_add_def int_width_defs Let_def
      del: and_then_Ok_iff and_then_Err_iff and_then_Trap_iff acquire_guard_Ok acct_simps)

theorem sold_policy_is_registered_witness:
  "\<exists>s' r' p rc. buy_policy sys_ext (pl_env 30) 3 pl_params (sys_pool, (sys_registry, 0)) = Ok (0, (s', r')) \<and>
     p_policy s' 0 = Some p \<and> r_policy (fst r') 0 = Some rc \<and> rec_holder rc = pol_holder p"
proof -
  have x: "accounting_store sys_ext" "px_callee sys_ext = link 6 registry_entry (\<lambda>e w a f args. (CallOk VVoid, w))"
    "p_policy_registry sys_pool = Some 6" "transfers_keep_registry sys_ext"
    by (auto simp: accounting_store_def sys_ext_def sys_pool_def transfers_keep_registry_def)
  obtain s' r' w' where b: "buy_policy sys_ext (pl_env 30) 3 pl_params (sys_pool, (sys_registry, 0)) = Ok (0, (s', (r', w')))"
    using sys_buy by blast
  from sold_policy_is_registered [OF b x] b show ?thesis by fastforce
qed

end
